(* ===== verification/Prelude.thy ===== *)
theory Prelude
  imports Main "HOL-Library.Word" "HOL-Library.Multiset"
begin

text \<open>
  Shared vocabulary of the development: the machine types of the C++ sources
  (\<open>size_t\<close> and pointers as 64-bit words, \<open>int32_t\<close> node and tensor
  indices as integers), the TensorFlow Lite status codes, the early-return loop that the
  \<open>TF_LITE_ENSURE_STATUS\<close> macros build, and the generic lemmas on words, lists
  and sorting that the component theories use.
\<close>

section \<open>Machine types\<close>

type_synonym size_t = "64 word"
type_synonym ptr = "64 word"
type_synonym byte = "8 word"

abbreviation nullptr :: ptr where
  "nullptr \<equiv> 0"

text \<open>\<open>std::numeric_limits<size_t>::max()\<close>.\<close>

abbreviation size_max :: size_t where
  "size_max \<equiv> - 1"

text \<open>\<open>std::numeric_limits<int32_t>::max()\<close>.\<close>

abbreviation int32_max :: int where
  "int32_max \<equiv> 2147483647"

section \<open>Status codes\<close>

datatype TfLiteStatus =
    kTfLiteOk
  | kTfLiteError
  | kTfLiteDelegateError
  | kTfLiteApplicationError
  | kTfLiteDelegateDataNotFound
  | kTfLiteDelegateDataWriteError
  | kTfLiteDelegateDataReadError
  | kTfLiteUnresolvedOps
  | kTfLiteCancelled
  | kTfLiteOutputShapeNotKnown

section \<open>Loops with early return\<close>

text \<open>
  \<open>for (x : xs) TF_LITE_ENSURE_STATUS(body(x));\<close> runs the body over the elements
  in order and leaves the function with the first status that is not
  \<^const>\<open>kTfLiteOk\<close>, keeping the effects of the iterations that ran.
\<close>

fun for_status :: "('s \<Rightarrow> 'x \<Rightarrow> TfLiteStatus \<times> 's) \<Rightarrow> 's \<Rightarrow> 'x list \<Rightarrow> TfLiteStatus \<times> 's" where
  "for_status f s [] = (kTfLiteOk, s)"
| "for_status f s (x # xs) =
     (case f s x of
        (kTfLiteOk, s') \<Rightarrow> for_status f s' xs
      | (st, s') \<Rightarrow> (st, s'))"

text \<open>\<open>TF_LITE_ENSURE_STATUS(a); rest\<close>.\<close>

definition ensure_status :: "TfLiteStatus \<times> 's \<Rightarrow> ('s \<Rightarrow> TfLiteStatus \<times> 's) \<Rightarrow> TfLiteStatus \<times> 's" where
  "ensure_status r k = (case r of (st, s) \<Rightarrow> if st = kTfLiteOk then k s else (st, s))"

lemma ensure_status_Ok_iff:
  "ensure_status r k = (kTfLiteOk, s') \<longleftrightarrow> (\<exists>s. r = (kTfLiteOk, s) \<and> k s = (kTfLiteOk, s'))"
  by (auto simp: ensure_status_def split: prod.splits if_splits)

lemma ensure_status_simps [simp]:
  "ensure_status (kTfLiteOk, s) k = k s"
  "st \<noteq> kTfLiteOk \<Longrightarrow> ensure_status (st, s) k = (st, s)"
  by (simp_all add: ensure_status_def)

lemma for_status_Cons_Ok:
  "for_status f s (x # xs) = (kTfLiteOk, s') \<longleftrightarrow>
   (\<exists>t. f s x = (kTfLiteOk, t) \<and> for_status f t xs = (kTfLiteOk, s'))"
  by (auto split: TfLiteStatus.splits prod.splits)

lemma for_status_append_Ok:
  "for_status f s (xs @ ys) = (kTfLiteOk, s') \<longleftrightarrow>
   (\<exists>t. for_status f s xs = (kTfLiteOk, t) \<and> for_status f t ys = (kTfLiteOk, s'))"
  by (induction xs arbitrary: s) (auto simp: for_status_Cons_Ok simp del: for_status.simps(2))

text \<open>
  Congruences that make the simplifier evaluate programs in the order they run: the branches of a
  conditional, the continuation of a status check and the body of a \<open>let\<close> are left alone until
  the value they depend on is known.
\<close>

lemma ensure_status_weak_cong: "r = r' \<Longrightarrow> ensure_status r k = ensure_status r' k"
  by simp

lemma bind_weak_cong: "r = r' \<Longrightarrow> Option.bind r k = Option.bind r' k"
  by simp

lemmas eval_congs = let_weak_cong prod.case_cong_weak option.case_cong_weak if_weak_cong bool.case_cong_weak
  TfLiteStatus.case_cong_weak ensure_status_weak_cong bind_weak_cong

text \<open>
  A loop keeps what each of its iterations keeps, whether it ends early or not.  The locale
  states the contract of a loop body once; every loop of the components interprets it.
\<close>

locale status_loop =
  fixes body :: "'s \<Rightarrow> 'x \<Rightarrow> TfLiteStatus \<times> 's"
    and inv :: "'s \<Rightarrow> bool"
    and dom_ok :: "'x \<Rightarrow> bool"
  assumes body_inv: "inv s \<Longrightarrow> dom_ok x \<Longrightarrow> body s x = (st, s') \<Longrightarrow> inv s'"
begin

lemma loop_inv:
  "inv s \<Longrightarrow> list_all dom_ok xs \<Longrightarrow> for_status body s xs = (st, s') \<Longrightarrow> inv s'"
proof (induction xs arbitrary: s)
  case Nil
  then show ?case by simp
next
  case (Cons x xs)
  obtain st1 t where b: "body s x = (st1, t)" by (cases "body s x")
  with Cons.prems have t: "inv t" by (auto intro: body_inv)
  show ?case
    using Cons.prems Cons.IH [OF t] b t by (cases st1) auto
qed

end

section \<open>Words\<close>

lemma unat_sub_le: "b \<le> a \<Longrightarrow> unat (a - b) = unat a - unat b" for a b :: "'a::len word"
  by (simp add: unat_sub)

lemma word_le_unat: "a \<le> b \<longleftrightarrow> unat a \<le> unat b" for a b :: "'a::len word"
  by (rule word_le_nat_alt)

lemma word_less_unat: "a < b \<longleftrightarrow> unat a < unat b" for a b :: "'a::len word"
  by (rule word_less_nat_alt)

lemma unat_max: "unat (max a b) = max (unat a) (unat b)" for a b :: "'a::len word"
  by (simp add: max_def word_le_unat)

lemma unat_size_max: "unat size_max = 2 ^ 64 - 1"
  by (simp add: unsigned_minus_1_eq_mask mask_eq_exp_minus_1)

lemma unat_lt_size: "unat (a :: size_t) < 2 ^ 64"
  using unsigned_less [of a, where ?'a = nat] by simp

section \<open>Sorting\<close>

text \<open>
  \<open>std::sort\<close> with a comparator that compares a key rearranges the range so that
  the keys ascend; the order of elements with equal keys is unspecified.  A sorting
  routine is therefore a parameter of the model, and this predicate is what the C++ standard
  promises of it.
\<close>

definition is_sort_by :: "('a \<Rightarrow> 'b::linorder) \<Rightarrow> ('a list \<Rightarrow> 'a list) \<Rightarrow> bool" where
  "is_sort_by key srt \<longleftrightarrow> (\<forall>xs. mset (srt xs) = mset xs \<and> sorted (map key (srt xs)))"

lemma is_sort_byD:
  assumes "is_sort_by key srt"
  shows "mset (srt xs) = mset xs" "sorted (map key (srt xs))" "set (srt xs) = set xs"
    "length (srt xs) = length xs"
proof -
  show m: "mset (srt xs) = mset xs" and "sorted (map key (srt xs))"
    using assms by (auto simp: is_sort_by_def)
  from m show "set (srt xs) = set xs" by (rule mset_eq_setD)
  from m show "length (srt xs) = length xs" by (rule mset_eq_length)
qed

lemma is_sort_by_sort_key [simp]: "is_sort_by key (sort_key key)"
  by (simp add: is_sort_by_def)

section \<open>Pairwise properties of lists\<close>

text \<open>A symmetric relation that holds between any two positions does not depend on the order.\<close>

lemma sorted_wrt_mset:
  assumes sym: "\<And>x y. P x y \<Longrightarrow> P y x" and eq: "mset xs = mset ys" and s: "sorted_wrt P xs"
  shows "sorted_wrt P ys"
  using eq s
proof (induction xs arbitrary: ys)
  case Nil
  then show ?case by simp
next
  case (Cons x xs)
  from Cons.prems(1) have "x \<in> set ys" by (metis list.set_intros(1) mset_eq_setD)
  then obtain us vs where ys: "ys = us @ x # vs" by (meson split_list)
  with Cons.prems(1) have m: "mset xs = mset (us @ vs)" by simp
  with Cons have "sorted_wrt P (us @ vs)" by simp
  moreover from m have "set xs = set (us @ vs)" by (rule mset_eq_setD)
  ultimately show ?case
    using Cons.prems(2) sym by (auto simp: ys sorted_wrt_append)
qed

lemma sorted_wrt_nth_distinct:
  assumes "sorted_wrt P xs" and "\<And>x y. P x y \<Longrightarrow> P y x"
    and "x \<in> set xs" and "y \<in> set xs" and "x \<noteq> y"
  shows "P x y"
proof -
  from assms(3,4) obtain i j where "i < length xs" "xs ! i = x" "j < length xs" "xs ! j = y"
    by (auto simp: in_set_conv_nth)
  with assms show ?thesis
    by (metis linorder_neqE_nat sorted_wrt_nth_less)
qed

end
