(* ===== verification/CheckedArith.thy ===== *)
theory CheckedArith
  imports Prelude
begin

text \<open>
  Overflow-checked \<open>size_t\<close> arithmetic of \<^verbatim>\<open>src/tflite/simple_memory_arena.cc\<close>
  (\<open>CheckedAdd\<close>, \<open>CheckedAlignTo\<close>) and the part of the C heap that the arena
  uses (\<open>aligned_alloc\<close>, \<open>malloc\<close>, \<open>free\<close>, \<open>memcpy\<close>), with the
  aligned allocation helpers built on it.
\<close>

section \<open>Checked arithmetic\<close>

text \<open>\<open>None\<close> is the return value \<open>false\<close>; \<open>Some r\<close> is \<open>true\<close> with the result written.\<close>

definition CheckedAdd :: "size_t \<Rightarrow> size_t \<Rightarrow> size_t option" where
  "CheckedAdd lhs rhs = (if lhs > size_max - rhs then None else Some (lhs + rhs))"

definition CheckedAlignTo :: "size_t \<Rightarrow> size_t \<Rightarrow> size_t option" where
  "CheckedAlignTo alignment offset =
     (if alignment = 0 then None
      else let remainder = offset mod alignment in
        if remainder = 0 then Some offset
        else CheckedAdd offset (alignment - remainder))"

lemma CheckedAdd_guard: "lhs > size_max - rhs \<longleftrightarrow> unat lhs + unat rhs \<ge> 2 ^ 64"
proof -
  have "unat (size_max - rhs) = 2 ^ 64 - 1 - unat rhs"
    by (simp only: unat_sub_le word_order.extremum unat_size_max)
  then show ?thesis
    using unat_lt_size [of rhs] by (auto simp: word_less_unat)
qed

lemma CheckedAdd_Some_iff:
  "CheckedAdd a b = Some c \<longleftrightarrow> unat a + unat b < 2 ^ 64 \<and> c = a + b"
  by (auto simp: CheckedAdd_def CheckedAdd_guard)

lemma CheckedAdd_None_iff: "CheckedAdd a b = None \<longleftrightarrow> unat a + unat b \<ge> 2 ^ 64"
  by (auto simp: CheckedAdd_def CheckedAdd_guard)

lemma CheckedAdd_unat: "CheckedAdd a b = Some c \<Longrightarrow> unat c = unat a + unat b"
  by (auto simp: CheckedAdd_Some_iff unat_word_ariths)

lemma unat_mod_word: "unat (a mod b) = unat a mod unat b" for a b :: size_t
  by (simp add: unat_mod)

lemma CheckedAlignTo_spec:
  assumes "CheckedAlignTo al o' = Some r"
  shows "unat r mod unat al = 0" and "unat o' \<le> unat r" and "unat r < unat o' + unat al"
    and "al \<noteq> 0"
proof -
  show al: "al \<noteq> 0" using assms by (auto simp: CheckedAlignTo_def)
  then have pos: "0 < unat al" by (simp add: unat_gt_0)
  let ?m = "unat o' mod unat al"
  have m_lt: "?m < unat al" using pos by simp
  have "unat r mod unat al = 0 \<and> unat o' \<le> unat r \<and> unat r < unat o' + unat al"
  proof (cases "o' mod al = 0")
    case True
    then have "?m = 0" by (metis unat_mod_word unsigned_0)
    with True al assms pos show ?thesis by (auto simp: CheckedAlignTo_def)
  next
    case False
    then have m0: "0 < ?m" by (metis unat_mod_word unat_gt_0)
    from False al assms have c: "CheckedAdd o' (al - o' mod al) = Some r"
      by (simp add: CheckedAlignTo_def Let_def)
    have "o' mod al \<le> al" using m_lt by (simp add: word_le_unat unat_mod_word)
    then have "unat r = unat o' + (unat al - ?m)"
      using CheckedAdd_unat [OF c] by (simp add: unat_sub_le unat_mod_word)
    moreover have "(unat o' + (unat al - ?m)) mod unat al = 0"
    proof -
      have "unat o' + (unat al - ?m) = unat o' div unat al * unat al + unat al"
        using m_lt div_mult_mod_eq [of "unat o'" "unat al"] by linarith
      then show ?thesis by simp
    qed
    ultimately show ?thesis using m0 m_lt by auto
  qed
  then show "unat r mod unat al = 0" "unat o' \<le> unat r" "unat r < unat o' + unat al" by auto
qed

lemma CheckedAlignTo_least:
  assumes "CheckedAlignTo al o' = Some r" "unat al dvd m" "unat o' \<le> m"
  shows "unat r \<le> m"
proof (rule ccontr)
  note s = CheckedAlignTo_spec [OF assms(1)]
  assume "\<not> unat r \<le> m"
  then have lt: "m < unat r" by simp
  have "unat al dvd unat r" using s(1) by (simp add: dvd_eq_mod_eq_0)
  then have "unat al dvd unat r - m" using assms(2) by (rule dvd_diff_nat)
  then have "unat al \<le> unat r - m" using lt by (auto intro: dvd_imp_le)
  then show False using s(3) assms(3) lt by linarith
qed

lemma CheckedAlignTo_None:
  assumes "CheckedAlignTo al o' = None" "al \<noteq> 0"
  shows "2 ^ 64 \<le> unat o' + unat al"
proof -
  from assms have "CheckedAdd o' (al - o' mod al) = None"
    by (auto simp: CheckedAlignTo_def Let_def split: if_splits)
  then have "2 ^ 64 \<le> unat o' + unat (al - o' mod al)" by (simp add: CheckedAdd_None_iff)
  moreover have "o' mod al \<le> al"
    using assms(2) by (simp add: word_le_unat unat_mod_word unat_gt_0 less_imp_le)
  ultimately show ?thesis by (simp add: unat_sub_le)
qed

section \<open>Address ranges\<close>

definition ranges_disjoint :: "size_t \<Rightarrow> size_t \<Rightarrow> size_t \<Rightarrow> size_t \<Rightarrow> bool" where
  "ranges_disjoint p n q m \<longleftrightarrow> unat p + unat n \<le> unat q \<or> unat q + unat m \<le> unat p"

lemma ranges_disjoint_sym: "ranges_disjoint p n q m \<Longrightarrow> ranges_disjoint q m p n"
  by (auto simp: ranges_disjoint_def)

lemma ranges_disjoint_no_common_byte:
  assumes "ranges_disjoint p n q m" "unat p + unat n \<le> 2 ^ 64" "unat q + unat m \<le> 2 ^ 64"
    "i < unat n" "j < unat m"
  shows "p + of_nat i \<noteq> q + of_nat j"
proof -
  have "unat (p + of_nat i) = unat p + i" "unat (q + of_nat j) = unat q + j"
    using assms by (auto simp: unat_word_ariths unat_of_nat)
  then show ?thesis using assms by (auto simp: ranges_disjoint_def)
qed

section \<open>The C heap\<close>

text \<open>
  The heap holds the bytes of memory and the live blocks (address to size).  Where a new block
  is placed is the C library's choice, a parameter of the model; \<open>valid_platform\<close> is
  what the C standard promises: a non-null result is a fresh block that does not wrap around the
  address space, aligned as asked.
\<close>

record heap =
  heap_bytes :: "ptr \<Rightarrow> byte"
  heap_blocks :: "ptr \<rightharpoonup> size_t"

record platform =
  TF_LITE_HAS_ALIGNED_ALLOC :: bool
  aligned_alloc_at :: "heap \<Rightarrow> size_t \<Rightarrow> size_t \<Rightarrow> ptr"
  malloc_at :: "heap \<Rightarrow> size_t \<Rightarrow> ptr"

definition fresh_block :: "heap \<Rightarrow> ptr \<Rightarrow> size_t \<Rightarrow> bool" where
  "fresh_block h p n \<longleftrightarrow> unat p + unat n \<le> 2 ^ 64 \<and>
     (\<forall>q m. heap_blocks h q = Some m \<longrightarrow> q \<noteq> p \<and> ranges_disjoint p n q m)"

definition valid_platform :: "platform \<Rightarrow> bool" where
  "valid_platform P \<longleftrightarrow>
     (\<forall>h al n. aligned_alloc_at P h al n \<noteq> nullptr \<longrightarrow>
        fresh_block h (aligned_alloc_at P h al n) n \<and>
        unat (aligned_alloc_at P h al n) mod unat al = 0) \<and>
     (\<forall>h n. malloc_at P h n \<noteq> nullptr \<longrightarrow> fresh_block h (malloc_at P h n) n)"

lemma fresh_block_None: "fresh_block h p n \<Longrightarrow> heap_blocks h p = None"
  unfolding fresh_block_def by (metis not_None_eq)

lemma valid_platformD:
  assumes "valid_platform P"
  shows "aligned_alloc_at P h al n \<noteq> nullptr \<Longrightarrow> fresh_block h (aligned_alloc_at P h al n) n"
    and "aligned_alloc_at P h al n \<noteq> nullptr \<Longrightarrow> unat (aligned_alloc_at P h al n) mod unat al = 0"
    and "malloc_at P h n \<noteq> nullptr \<Longrightarrow> fresh_block h (malloc_at P h n) n"
  using assms by (auto simp: valid_platform_def)

definition block_add :: "heap \<Rightarrow> ptr \<Rightarrow> size_t \<Rightarrow> heap" where
  "block_add h p n = (if p = nullptr then h else h\<lparr>heap_blocks := (heap_blocks h)(p \<mapsto> n)\<rparr>)"

definition free :: "heap \<Rightarrow> ptr \<Rightarrow> heap" where
  "free h p = (if p = nullptr then h else h\<lparr>heap_blocks := (heap_blocks h)(p := None)\<rparr>)"

definition memcpy :: "heap \<Rightarrow> ptr \<Rightarrow> ptr \<Rightarrow> size_t \<Rightarrow> heap" where
  "memcpy h dst src n = h\<lparr>heap_bytes :=
     (\<lambda>p. if p - dst < n then heap_bytes h (src + (p - dst)) else heap_bytes h p)\<rparr>"

lemma heap_simps [simp]:
  "heap_bytes (free h p) = heap_bytes h"
  "heap_bytes (block_add h p n) = heap_bytes h"
  "heap_blocks (memcpy h d s n) = heap_blocks h"
  by (simp_all add: free_def block_add_def memcpy_def)

lemma memcpy_byte:
  "i < unat n \<Longrightarrow> heap_bytes (memcpy h dst src n) (dst + of_nat i) = heap_bytes h (src + of_nat i)"
  using unat_lt_size [of n]
  by (simp add: memcpy_def word_less_unat unat_of_nat)

section \<open>Aligned allocation\<close>

text \<open>\<open>PointerAlignedPointerPair\<close> is a pair of the allocation's pointer and the aligned pointer.\<close>

record PointerAlignedPointerPair =
  pointer :: ptr
  aligned_pointer :: ptr

definition null_pair :: PointerAlignedPointerPair where
  "null_pair = \<lparr>pointer = nullptr, aligned_pointer = nullptr\<rparr>"

text \<open>Both preprocessor branches of the default (not Windows) implementation.\<close>

definition AlignedAlloc ::
    "platform \<Rightarrow> heap \<Rightarrow> size_t \<Rightarrow> size_t \<Rightarrow> PointerAlignedPointerPair \<times> heap" where
  "AlignedAlloc P h sz alignment =
     (if alignment = 0 then (null_pair, h)
      else if TF_LITE_HAS_ALIGNED_ALLOC P then
        (case CheckedAdd sz (alignment - 1) of
           None \<Rightarrow> (null_pair, h)
         | Some padded_size \<Rightarrow>
             (case CheckedAlignTo alignment padded_size of
                None \<Rightarrow> (null_pair, h)
              | Some allocation_size \<Rightarrow>
                  let p = aligned_alloc_at P h alignment allocation_size
                  in (\<lparr>pointer = p, aligned_pointer = p\<rparr>, block_add h p allocation_size)))
      else
        (case CheckedAdd sz (alignment - 1) of
           None \<Rightarrow> (null_pair, h)
         | Some allocation_size \<Rightarrow>
             let p = malloc_at P h allocation_size; h' = block_add h p allocation_size
             in if p \<noteq> nullptr then
                  (case CheckedAlignTo alignment p of
                     None \<Rightarrow> (null_pair, free h' p)
                   | Some aligned \<Rightarrow> (\<lparr>pointer = p, aligned_pointer = aligned\<rparr>, h'))
                else (\<lparr>pointer = p, aligned_pointer = nullptr\<rparr>, h')))"

definition AlignedFree :: "heap \<Rightarrow> PointerAlignedPointerPair \<Rightarrow> heap" where
  "AlignedFree h b = free h (pointer b)"

definition AlignedRealloc ::
    "platform \<Rightarrow> heap \<Rightarrow> PointerAlignedPointerPair \<Rightarrow> size_t \<Rightarrow> size_t \<Rightarrow> size_t \<Rightarrow>
     PointerAlignedPointerPair \<times> heap" where
  "AlignedRealloc P h old_buffer old_size new_size alignment =
     (let (new_buffer, h1) = AlignedAlloc P h new_size alignment
      in if new_size > 0 \<and> pointer new_buffer = nullptr then (null_pair, h1)
         else let h2 = (if new_size > 0 \<and> old_size > 0
                        then memcpy h1 (aligned_pointer new_buffer) (aligned_pointer old_buffer)
                               (min new_size old_size)
                        else h1)
              in (new_buffer, AlignedFree h2 old_buffer))"

text \<open>What a successful \<open>AlignedAlloc\<close> returns: a fresh block that holds the aligned data.\<close>

definition holds_data :: "heap \<Rightarrow> PointerAlignedPointerPair \<Rightarrow> size_t \<Rightarrow> size_t \<Rightarrow> bool" where
  "holds_data h b sz alignment \<longleftrightarrow>
     pointer b \<noteq> nullptr \<and> unat (aligned_pointer b) mod unat alignment = 0 \<and>
     (\<exists>n. heap_blocks h (pointer b) = Some n \<and> unat (pointer b) + unat n \<le> 2 ^ 64 \<and>
        unat (pointer b) \<le> unat (aligned_pointer b) \<and>
        unat (aligned_pointer b) + unat sz \<le> unat (pointer b) + unat n)"

text \<open>A failed allocation leaves the heap as it was.\<close>

lemma AlignedAlloc_null:
  assumes P: "valid_platform P" and r: "AlignedAlloc P h sz al = (b, h')" "pointer b = nullptr"
  shows "h' = h"
proof -
  have undo: "free (block_add h p n) p = h" if "p \<noteq> nullptr" "fresh_block h p n" for p n
  proof -
    have "heap_blocks h p = None" using that(2) by (rule fresh_block_None)
    then show ?thesis using that
      by (cases h) (auto simp: free_def block_add_def fun_upd_idem)
  qed
  show ?thesis
    using r P undo
    by (auto simp: AlignedAlloc_def Let_def null_pair_def block_add_def valid_platform_def
        split: option.splits if_splits)
qed

lemma AlignedAlloc_bytes: "AlignedAlloc P h sz al = (b, h') \<Longrightarrow> heap_bytes h' = heap_bytes h"
  by (auto simp: AlignedAlloc_def Let_def null_pair_def split: option.splits if_splits)

lemma unat_dec: "al \<noteq> 0 \<Longrightarrow> unat (al - 1) = unat al - 1" for al :: size_t
  using unat_sub_le [of 1 al] by (simp add: word_le_unat unat_gt_0 Suc_leI)

text \<open>
  A successful allocation returns a fresh block, records it, and the data area of
  \<open>sz\<close> bytes at the aligned pointer lies inside it, on both platforms.
\<close>

lemma AlignedAlloc_spec:
  assumes P: "valid_platform P" and r: "AlignedAlloc P h sz al = (b, h')"
    and nn: "pointer b \<noteq> nullptr"
  shows "\<exists>n. fresh_block h (pointer b) n \<and> h' = block_add h (pointer b) n \<and>
    unat (aligned_pointer b) mod unat al = 0 \<and> unat (pointer b) \<le> unat (aligned_pointer b) \<and>
    unat (aligned_pointer b) + unat sz \<le> unat (pointer b) + unat n"
proof -
  have al: "al \<noteq> 0" using r nn by (auto simp: AlignedAlloc_def null_pair_def)
  show ?thesis
  proof (cases "TF_LITE_HAS_ALIGNED_ALLOC P")
    case True
    obtain ps where c: "CheckedAdd sz (al - 1) = Some ps"
      using r nn al True by (cases "CheckedAdd sz (al - 1)") (auto simp: AlignedAlloc_def null_pair_def)
    obtain as where a: "CheckedAlignTo al ps = Some as"
      using r nn al True c by (cases "CheckedAlignTo al ps") (auto simp: AlignedAlloc_def null_pair_def)
    have b: "b = \<lparr>pointer = aligned_alloc_at P h al as, aligned_pointer = aligned_alloc_at P h al as\<rparr>"
      and h: "h' = block_add h (aligned_alloc_at P h al as) as"
      using r al True c a by (simp_all add: AlignedAlloc_def Let_def)
    have nz: "aligned_alloc_at P h al as \<noteq> nullptr" using nn unfolding b by simp
    have "fresh_block h (pointer b) as" "unat (pointer b) mod unat al = 0"
      using valid_platformD(1,2) [OF P nz] unfolding b by simp_all
    moreover have "unat sz \<le> unat as"
      using CheckedAdd_unat [OF c] CheckedAlignTo_spec(2) [OF a] by simp
    ultimately show ?thesis using b h by auto
  next
    case False
    obtain as where c: "CheckedAdd sz (al - 1) = Some as"
      using r nn al False by (cases "CheckedAdd sz (al - 1)") (auto simp: AlignedAlloc_def null_pair_def)
    have nz: "malloc_at P h as \<noteq> nullptr"
      using r nn al False c by (auto simp: AlignedAlloc_def Let_def)
    obtain ap where a: "CheckedAlignTo al (malloc_at P h as) = Some ap"
      using r nn al False c nz
      by (cases "CheckedAlignTo al (malloc_at P h as)") (auto simp: AlignedAlloc_def Let_def null_pair_def)
    have b: "b = \<lparr>pointer = malloc_at P h as, aligned_pointer = ap\<rparr>"
      and h: "h' = block_add h (malloc_at P h as) as"
      using r al False c a nz by (simp_all add: AlignedAlloc_def Let_def)
    have "fresh_block h (pointer b) as"
      using valid_platformD(3) [OF P nz] unfolding b by simp
    moreover have "unat as = unat sz + (unat al - 1)"
      using CheckedAdd_unat [OF c] al by (simp add: unat_dec)
    ultimately show ?thesis
      using CheckedAlignTo_spec [OF a] b h by (intro exI [of _ as]) auto
  qed
qed

lemma AlignedRealloc_fail:
  assumes "valid_platform P" "AlignedRealloc P h old osz nsz al = (b, h')"
    "nsz > 0" "pointer b = nullptr"
  shows "h' = h"
  using assms by (auto simp: AlignedRealloc_def Let_def null_pair_def split: prod.splits if_splits
      intro: AlignedAlloc_null)

text \<open>
  A successful reallocation returns a block that holds the new size, keeps every
  byte of the old data that fits, frees the old block and touches no other block.
\<close>

lemma AlignedRealloc_spec:
  assumes P: "valid_platform P" and r: "AlignedRealloc P h old osz nsz al = (b, h')"
    and nn: "pointer b \<noteq> nullptr" and pos: "nsz > 0"
    and old: "osz > 0 \<longrightarrow> holds_data h old osz al"
    and old0: "pointer old \<noteq> nullptr \<longrightarrow> heap_blocks h (pointer old) \<noteq> None"
  shows "holds_data h' b nsz al"
    and "\<And>i. i < unat (min nsz osz) \<Longrightarrow>
      heap_bytes h' (aligned_pointer b + of_nat i) = heap_bytes h (aligned_pointer old + of_nat i)"
    and "\<And>q. q \<noteq> pointer b \<Longrightarrow> q \<noteq> pointer old \<Longrightarrow> heap_blocks h' q = heap_blocks h q"
    and "pointer old \<noteq> nullptr \<Longrightarrow> heap_blocks h' (pointer old) = None"
    and "heap_blocks h (pointer b) = None"
proof -
  obtain h1 where a: "AlignedAlloc P h nsz al = (b, h1)"
    and h': "h' = AlignedFree (if osz > 0 then memcpy h1 (aligned_pointer b)
               (aligned_pointer old) (min nsz osz) else h1) old"
    using r nn pos by (auto simp: AlignedRealloc_def Let_def null_pair_def split: prod.splits if_splits)
  from AlignedAlloc_spec [OF P a nn] obtain n where n: "fresh_block h (pointer b) n"
    "h1 = block_add h (pointer b) n" "unat (aligned_pointer b) mod unat al = 0"
    "unat (pointer b) \<le> unat (aligned_pointer b)"
    "unat (aligned_pointer b) + unat nsz \<le> unat (pointer b) + unat n" by auto
  have blk: "heap_blocks h' = (if pointer old = nullptr then heap_blocks h1
                               else (heap_blocks h1)(pointer old := None))"
    using h' by (auto simp: AlignedFree_def free_def)
  show fresh: "heap_blocks h (pointer b) = None"
    using n(1) by (rule fresh_block_None)
  with old0 have ne: "pointer old \<noteq> pointer b" using nn by auto
  show "holds_data h' b nsz al"
    using n nn ne blk by (auto simp: holds_data_def block_add_def fresh_block_def)
  show "\<And>q. q \<noteq> pointer b \<Longrightarrow> q \<noteq> pointer old \<Longrightarrow> heap_blocks h' q = heap_blocks h q"
    using blk n(2) by (auto simp: block_add_def)
  show "pointer old \<noteq> nullptr \<Longrightarrow> heap_blocks h' (pointer old) = None"
    using blk by simp
  fix i assume i: "i < unat (min nsz osz)"
  then have "0 < unat osz" by (auto simp: word_le_unat min_def split: if_splits)
  then have osz: "osz > 0" by (simp add: word_less_unat)
  have "heap_bytes h' = heap_bytes (memcpy h1 (aligned_pointer b) (aligned_pointer old) (min nsz osz))"
    using h' osz by (simp add: AlignedFree_def)
  moreover have "heap_bytes h1 = heap_bytes h" using a by (rule AlignedAlloc_bytes)
  ultimately show "heap_bytes h' (aligned_pointer b + of_nat i) =
      heap_bytes h (aligned_pointer old + of_nat i)"
    using memcpy_byte [OF i] by simp
qed

end
