(* ===== verification/SimpleMemoryArena.thy ===== *)
theory SimpleMemoryArena
  imports CheckedArith
begin

text \<open>
  The memory arena of \<^verbatim>\<open>src/tflite/simple_memory_arena.{h,cc}\<close>: the growing
  aligned buffer and the allocator that places tensors with a usage interval at offsets of that
  buffer, reusing gaps between allocations whose intervals intersect.  The invariant
  \<open>arena_inv\<close> says that the active allocations are sorted by offset, lie below the
  high-water mark, and that two allocations whose usage intervals intersect occupy disjoint ranges.
\<close>

section \<open>State\<close>

record ArenaAllocWithUsageInterval =
  offset :: size_t
  alloc_size :: size_t
  tensor :: int
  first_node :: int
  last_node :: int

definition alloc_reset :: ArenaAllocWithUsageInterval where
  "alloc_reset = \<lparr>offset = 0, alloc_size = 0, tensor = -1, first_node = -1, last_node = -1\<rparr>"

record ResizableAlignedBuffer =
  buf_pair :: PointerAlignedPointerPair
  data_size :: size_t
  buf_alignment :: size_t

record SimpleMemoryArena =
  committed :: bool
  high_water_mark :: size_t
  underlying_buffer :: ResizableAlignedBuffer
  active_allocs :: "ArenaAllocWithUsageInterval list"

definition new_buffer :: "size_t \<Rightarrow> ResizableAlignedBuffer" where
  "new_buffer alignment = \<lparr>buf_pair = null_pair, data_size = 0, buf_alignment = alignment\<rparr>"

definition new_arena :: "size_t \<Rightarrow> SimpleMemoryArena" where
  "new_arena arena_alignment =
     \<lparr>committed = False, high_water_mark = 0,
      underlying_buffer = new_buffer arena_alignment, active_allocs = []\<rparr>"

abbreviation GetPtr :: "ResizableAlignedBuffer \<Rightarrow> ptr" where
  "GetPtr b \<equiv> aligned_pointer (buf_pair b)"

section \<open>The buffer\<close>

text \<open>
  An out-parameter is an option value, \<open>None\<close> for a null pointer.  The result is the
  status, the out-parameter, the buffer and the heap.
\<close>

definition Resize ::
    "platform \<Rightarrow> heap \<Rightarrow> ResizableAlignedBuffer \<Rightarrow> size_t \<Rightarrow> bool option \<Rightarrow>
     TfLiteStatus \<times> bool option \<times> ResizableAlignedBuffer \<times> heap" where
  "Resize P h b new_size buffer_reallocated =
     (if buffer_reallocated = None \<or> buf_alignment b = 0 then (kTfLiteError, buffer_reallocated, b, h)
      else if new_size \<le> data_size b then (kTfLiteOk, Some False, b, h)
      else let (nb, h') = AlignedRealloc P h (buf_pair b) (data_size b) new_size (buf_alignment b)
           in if new_size > 0 \<and> pointer nb = nullptr then (kTfLiteError, Some False, b, h')
              else (kTfLiteOk, Some (aligned_pointer nb \<noteq> aligned_pointer (buf_pair b)),
                    b\<lparr>buf_pair := nb, data_size := new_size\<rparr>, h'))"

definition Release :: "heap \<Rightarrow> ResizableAlignedBuffer \<Rightarrow> ResizableAlignedBuffer \<times> heap" where
  "Release h b =
     (if pointer (buf_pair b) = nullptr then (b, h)
      else (b\<lparr>buf_pair := null_pair, data_size := 0\<rparr>, AlignedFree h (buf_pair b)))"

section \<open>Bookkeeping of the active allocations\<close>

text \<open>
  Both purges mark the allocations to drop by setting their tensor to \<open>-1\<close> and then
  erase every allocation so marked.
\<close>

definition mark_dead ::
    "(ArenaAllocWithUsageInterval \<Rightarrow> bool) \<Rightarrow> ArenaAllocWithUsageInterval list \<Rightarrow>
     ArenaAllocWithUsageInterval list" where
  "mark_dead dead as = map (\<lambda>a. if dead a then a\<lparr>tensor := -1\<rparr> else a) as"

definition erase_dead :: "ArenaAllocWithUsageInterval list \<Rightarrow> ArenaAllocWithUsageInterval list" where
  "erase_dead as = filter (\<lambda>a. tensor a \<noteq> -1) as"

definition PurgeAfter :: "SimpleMemoryArena \<Rightarrow> int \<Rightarrow> SimpleMemoryArena" where
  "PurgeAfter m node =
     m\<lparr>active_allocs := erase_dead (mark_dead (\<lambda>a. first_node a > node) (active_allocs m))\<rparr>"

definition PurgeActiveAllocs :: "SimpleMemoryArena \<Rightarrow> int \<Rightarrow> SimpleMemoryArena" where
  "PurgeActiveAllocs m node =
     m\<lparr>active_allocs := erase_dead (mark_dead (\<lambda>a. last_node a < node) (active_allocs m))\<rparr>"

text \<open>\<open>srt\<close> is \<open>std::sort\<close> with \<open>operator<\<close>, which compares offsets.\<close>

definition CalculateActiveAllocs ::
    "(ArenaAllocWithUsageInterval list \<Rightarrow> ArenaAllocWithUsageInterval list) \<Rightarrow>
     SimpleMemoryArena \<Rightarrow> ArenaAllocWithUsageInterval list \<Rightarrow> int \<Rightarrow> SimpleMemoryArena" where
  "CalculateActiveAllocs srt m allocs node =
     m\<lparr>active_allocs := srt (filter (\<lambda>a. first_node a \<le> node \<and> last_node a \<ge> node) allocs)\<rparr>"

definition ResetAllocs :: "SimpleMemoryArena \<Rightarrow> SimpleMemoryArena" where
  "ResetAllocs m = m\<lparr>active_allocs := []\<rparr>"

section \<open>Allocation\<close>

text \<open>
  The loop of \<open>Allocate\<close> over the active allocations: the best offset found so far, the
  size of its gap, and the end of the space that the conflicting allocations seen so far take up.
  \<open>None\<close> is the return of \<open>kTfLiteError\<close> by one of its checks.
\<close>

fun Allocate_scan ::
    "size_t \<Rightarrow> size_t \<Rightarrow> int \<Rightarrow> int \<Rightarrow> ArenaAllocWithUsageInterval list \<Rightarrow>
     size_t \<Rightarrow> size_t \<Rightarrow> size_t \<Rightarrow> (size_t \<times> size_t \<times> size_t) option" where
  "Allocate_scan alignment sz fst_node lst_node [] best_offset best_offset_fit current_offset =
     Some (best_offset, best_offset_fit, current_offset)"
| "Allocate_scan alignment sz fst_node lst_node (a # as) best_offset best_offset_fit current_offset =
     (if last_node a < fst_node \<or> first_node a > lst_node
      then Allocate_scan alignment sz fst_node lst_node as best_offset best_offset_fit current_offset
      else
        (case CheckedAlignTo alignment current_offset of
           None \<Rightarrow> None
         | Some aligned_current_offset \<Rightarrow>
        (case CheckedAdd aligned_current_offset sz of
           None \<Rightarrow> None
         | Some aligned_current_end \<Rightarrow>
             let fits = (aligned_current_end \<le> offset a \<and>
                         offset a - aligned_current_offset < best_offset_fit);
                 best_offset' = (if fits then aligned_current_offset else best_offset);
                 best_offset_fit' = (if fits then offset a - current_offset else best_offset_fit)
             in (case CheckedAdd (offset a) (alloc_size a) of
                   None \<Rightarrow> None
                 | Some alloc_end \<Rightarrow>
                     let current_offset' = max current_offset alloc_end
                     in if best_offset_fit' = 0
                        then Some (best_offset', best_offset_fit', current_offset')
                        else Allocate_scan alignment sz fst_node lst_node as
                               best_offset' best_offset_fit' current_offset'))))"

text \<open>
  \<open>std::upper_bound\<close> on a range sorted by offset, followed by \<open>insert\<close>: the new
  allocation goes before the first one whose offset is greater.
\<close>

definition insert_upper_bound ::
    "ArenaAllocWithUsageInterval \<Rightarrow> ArenaAllocWithUsageInterval list \<Rightarrow>
     ArenaAllocWithUsageInterval list" where
  "insert_upper_bound x as =
     takeWhile (\<lambda>a. \<not> offset x < offset a) as @ x # dropWhile (\<lambda>a. \<not> offset x < offset a) as"

definition Allocate ::
    "SimpleMemoryArena \<Rightarrow> size_t \<Rightarrow> size_t \<Rightarrow> int \<Rightarrow> int \<Rightarrow> int \<Rightarrow>
     ArenaAllocWithUsageInterval option \<Rightarrow>
     TfLiteStatus \<times> SimpleMemoryArena \<times> ArenaAllocWithUsageInterval option" where
  "Allocate m alignment sz tns fst_node lst_node new_alloc =
     (case new_alloc of
        None \<Rightarrow> (kTfLiteError, m, None)
      | Some na \<Rightarrow>
          if alignment = 0 then (kTfLiteError, m, Some na)
          else if \<not> alignment \<le> buf_alignment (underlying_buffer m) then (kTfLiteError, m, Some na)
          else
            let na1 = na\<lparr>tensor := tns, first_node := fst_node, last_node := lst_node,
                         alloc_size := sz\<rparr>
            in if sz = 0 then (kTfLiteOk, m, Some (na1\<lparr>offset := 0\<rparr>))
               else
                 (case Allocate_scan alignment sz fst_node lst_node (active_allocs m)
                         size_max size_max 0 of
                    None \<Rightarrow> (kTfLiteError, m, Some na1)
                  | Some (best_offset, best_offset_fit, current_offset) \<Rightarrow>
                      (case (if best_offset = size_max
                             then CheckedAlignTo alignment current_offset
                             else Some best_offset) of
                         None \<Rightarrow> (kTfLiteError, m, Some na1)
                       | Some best \<Rightarrow>
                           (case CheckedAdd best sz of
                              None \<Rightarrow> (kTfLiteError, m, Some na1)
                            | Some required_buffer_size \<Rightarrow>
                                let na2 = na1\<lparr>offset := best\<rparr>
                                in (kTfLiteOk,
                                    m\<lparr>high_water_mark := max (high_water_mark m) required_buffer_size,
                                      active_allocs := insert_upper_bound na2 (active_allocs m)\<rparr>,
                                    Some na2)))))"

section \<open>Commit and resolution\<close>

definition Commit ::
    "platform \<Rightarrow> heap \<Rightarrow> SimpleMemoryArena \<Rightarrow> bool option \<Rightarrow>
     TfLiteStatus \<times> bool option \<times> SimpleMemoryArena \<times> heap" where
  "Commit P h m arena_reallocated =
     (if arena_reallocated = None then (kTfLiteError, None, m, h)
      else let (st, re, b, h') = Resize P h (underlying_buffer m) (high_water_mark m) arena_reallocated;
               m' = m\<lparr>committed := False, underlying_buffer := b\<rparr>
           in if st \<noteq> kTfLiteOk then (st, re, m', h')
              else (kTfLiteOk, re, m'\<lparr>committed := True\<rparr>, h'))"

text \<open>The out-parameter \<open>output_ptr\<close> is \<open>None\<close> when it is a null pointer.\<close>

definition ResolveAlloc ::
    "SimpleMemoryArena \<Rightarrow> ArenaAllocWithUsageInterval \<Rightarrow> ptr option \<Rightarrow> TfLiteStatus \<times> ptr option" where
  "ResolveAlloc m a output_ptr =
     (if \<not> committed m \<or> output_ptr = None then (kTfLiteError, output_ptr)
      else (case CheckedAdd (offset a) (alloc_size a) of
              None \<Rightarrow> (kTfLiteError, output_ptr)
            | Some alloc_end \<Rightarrow>
                if \<not> data_size (underlying_buffer m) \<ge> alloc_end then (kTfLiteError, output_ptr)
                else if alloc_size a = 0 then (kTfLiteOk, Some nullptr)
                else (kTfLiteOk, Some (GetPtr (underlying_buffer m) + offset a))))"

definition ClearPlan :: "SimpleMemoryArena \<Rightarrow> TfLiteStatus \<times> SimpleMemoryArena" where
  "ClearPlan m = (kTfLiteOk, m\<lparr>committed := False, high_water_mark := 0, active_allocs := []\<rparr>)"

definition ReleaseBuffer :: "heap \<Rightarrow> SimpleMemoryArena \<Rightarrow> TfLiteStatus \<times> SimpleMemoryArena \<times> heap" where
  "ReleaseBuffer h m =
     (let (b, h') = Release h (underlying_buffer m)
      in (kTfLiteOk, m\<lparr>committed := False, underlying_buffer := b\<rparr>, h'))"

definition GetBufferSize :: "SimpleMemoryArena \<Rightarrow> size_t" where
  "GetBufferSize m = data_size (underlying_buffer m)"

definition BasePointer :: "SimpleMemoryArena \<Rightarrow> ptr" where
  "BasePointer m = GetPtr (underlying_buffer m)"

section \<open>Invariant\<close>

definition conflicts :: "ArenaAllocWithUsageInterval \<Rightarrow> int \<Rightarrow> int \<Rightarrow> bool" where
  "conflicts a f l \<longleftrightarrow> \<not> (last_node a < f \<or> first_node a > l)"

definition alloc_end :: "ArenaAllocWithUsageInterval \<Rightarrow> nat" where
  "alloc_end a = unat (offset a) + unat (alloc_size a)"

definition clear_of :: "size_t \<Rightarrow> size_t \<Rightarrow> ArenaAllocWithUsageInterval set \<Rightarrow> bool" where
  "clear_of off sz S \<longleftrightarrow> (\<forall>a \<in> S. ranges_disjoint off sz (offset a) (alloc_size a))"

lemma clear_of_gap:
  assumes "\<And>a. a \<in> S \<Longrightarrow> alloc_end a \<le> unat off" "\<And>a. a \<in> T \<Longrightarrow> unat off + unat sz \<le> unat (offset a)"
  shows "clear_of off sz (S \<union> T)"
  using assms by (fastforce simp: clear_of_def ranges_disjoint_def alloc_end_def)

definition scan_inv ::
  "size_t \<Rightarrow> size_t \<Rightarrow> size_t \<Rightarrow> size_t \<Rightarrow> size_t \<Rightarrow> ArenaAllocWithUsageInterval set \<Rightarrow>
   ArenaAllocWithUsageInterval set \<Rightarrow> bool" where
  "scan_inv al sz bo bf co D R \<longleftrightarrow>
     (\<forall>a \<in> D. alloc_end a \<le> unat co) \<and> (bf = 0 \<longrightarrow> bo \<noteq> size_max) \<and>
     (bo \<noteq> size_max \<longrightarrow> unat bo mod unat al = 0 \<and> clear_of bo sz (D \<union> R))"

lemma Allocate_scan_inv:
  assumes "Allocate_scan al sz f l as bo bf co = Some (bo', bf', co')"
    and "sz \<noteq> 0" and "sorted (map offset as)"
    and "scan_inv al sz bo bf co D {a \<in> set as. conflicts a f l}"
  shows "bo' = size_max \<and> (\<forall>a \<in> D \<union> {a \<in> set as. conflicts a f l}. alloc_end a \<le> unat co') \<or>
    bo' \<noteq> size_max \<and> unat bo' mod unat al = 0 \<and> clear_of bo' sz (D \<union> {a \<in> set as. conflicts a f l})"
  using assms
proof (induction as arbitrary: bo bf co D)
  case Nil
  then show ?case by (auto simp: scan_inv_def)
next
  case (Cons a as)
  let ?R = "{a \<in> set as. conflicts a f l}"
  show ?case
  proof (cases "conflicts a f l")
    case False
    then have R: "{b \<in> set (a # as). conflicts b f l} = ?R" by auto
    have "Allocate_scan al sz f l as bo bf co = Some (bo', bf', co')"
      using Cons.prems(1) False by (auto simp: conflicts_def)
    then show ?thesis using Cons.IH Cons.prems R by simp
  next
    case True
    then have R: "{b \<in> set (a # as). conflicts b f l} = insert a ?R" by auto
    obtain aco ace ae where c: "CheckedAlignTo al co = Some aco" "CheckedAdd aco sz = Some ace"
      "CheckedAdd (offset a) (alloc_size a) = Some ae"
      using Cons.prems(1) True by (auto simp: conflicts_def Let_def split: option.splits)
    define fits where "fits = (ace \<le> offset a \<and> offset a - aco < bf)"
    define bo1 where "bo1 = (if fits then aco else bo)"
    define bf1 where "bf1 = (if fits then offset a - co else bf)"
    have step: "(if bf1 = 0 then Some (bo1, bf1, max co ae)
        else Allocate_scan al sz f l as bo1 bf1 (max co ae)) = Some (bo', bf', co')"
      using Cons.prems(1) True c unfolding bo1_def bf1_def fits_def
      by (simp add: conflicts_def Let_def)
    have ae: "unat ae = alloc_end a" using CheckedAdd_unat [OF c(3)] by (simp add: alloc_end_def)
    have D: "\<forall>b \<in> insert a D. alloc_end b \<le> unat (max co ae)"
      using Cons.prems(4) ae by (auto simp: scan_inv_def unat_max)
    have later: "offset a \<le> offset b" if "b \<in> insert a ?R" for b
      using that Cons.prems(3) by auto
    have good: "fits \<Longrightarrow> aco \<noteq> size_max \<and> unat aco mod unat al = 0 \<and> clear_of aco sz (D \<union> insert a ?R)"
    proof -
      assume f: fits
      have e: "unat aco + unat sz \<le> unat (offset a)"
        using f CheckedAdd_unat [OF c(2)] by (simp add: fits_def word_le_unat)
      have "0 < unat sz" using Cons.prems(2) by (simp add: unat_gt_0)
      then have "aco \<noteq> size_max"
        using e unat_lt_size [of "offset a"] by (auto simp: unat_size_max)
      moreover have "clear_of aco sz (D \<union> insert a ?R)"
      proof (rule clear_of_gap)
        show "alloc_end b \<le> unat aco" if "b \<in> D" for b
          using that Cons.prems(4) CheckedAlignTo_spec(2) [OF c(1)] by (fastforce simp: scan_inv_def)
        show "unat aco + unat sz \<le> unat (offset b)" if "b \<in> insert a ?R" for b
          using e later [OF that] by (simp add: word_le_unat)
      qed
      ultimately show ?thesis using CheckedAlignTo_spec(1) [OF c(1)] by simp
    qed
    have eqs: "insert a D \<union> ?R = D \<union> insert a ?R" by auto
    have inv1: "scan_inv al sz bo1 bf1 (max co ae) (insert a D) ?R"
      using D good Cons.prems(4) unfolding scan_inv_def eqs R bo1_def bf1_def by auto
    show ?thesis
    proof (cases "bf1 = 0")
      case True
      then show ?thesis using step inv1 unfolding R scan_inv_def eqs by auto
    next
      case False
      then have "Allocate_scan al sz f l as bo1 bf1 (max co ae) = Some (bo', bf', co')"
        using step by simp
      from Cons.IH [OF this Cons.prems(2) _ inv1] Cons.prems(3) show ?thesis
        unfolding R eqs by simp
    qed
  qed
qed

definition alloc_sep :: "ArenaAllocWithUsageInterval \<Rightarrow> ArenaAllocWithUsageInterval \<Rightarrow> bool" where
  "alloc_sep a b \<longleftrightarrow>
     (conflicts a (first_node b) (last_node b) \<longrightarrow>
      ranges_disjoint (offset a) (alloc_size a) (offset b) (alloc_size b))"

definition arena_inv :: "SimpleMemoryArena \<Rightarrow> bool" where
  "arena_inv m \<longleftrightarrow>
     sorted (map offset (active_allocs m)) \<and>
     (\<forall>a \<in> set (active_allocs m). alloc_size a \<noteq> 0 \<and> alloc_end a \<le> unat (high_water_mark m)) \<and>
     sorted_wrt alloc_sep (active_allocs m)"

lemma conflicts_sym: "conflicts a (first_node b) (last_node b) = conflicts b (first_node a) (last_node a)"
  by (auto simp: conflicts_def)

lemma alloc_sep_sym: "alloc_sep a b \<Longrightarrow> alloc_sep b a"
  by (auto simp: alloc_sep_def conflicts_sym intro: ranges_disjoint_sym)

lemma insert_upper_bound_Nil [simp]: "insert_upper_bound x [] = [x]"
  by (simp add: insert_upper_bound_def)

lemma insert_upper_bound_Cons [simp]:
  "insert_upper_bound x (a # as) =
     (if offset x < offset a then x # a # as else a # insert_upper_bound x as)"
  by (simp add: insert_upper_bound_def)

lemma mset_insert_upper_bound [simp]: "mset (insert_upper_bound x as) = add_mset x (mset as)"
  by (induction as) auto

lemma set_insert_upper_bound [simp]: "set (insert_upper_bound x as) = insert x (set as)"
  by (induction as) auto

lemma sorted_insert_upper_bound:
  "sorted (map offset as) \<Longrightarrow> sorted (map offset (insert_upper_bound x as))"
  by (induction as) (auto simp: not_less)

lemma sorted_wrt_insert_upper_bound:
  assumes "sorted_wrt alloc_sep as" "\<forall>a \<in> set as. alloc_sep x a"
  shows "sorted_wrt alloc_sep (insert_upper_bound x as)"
  by (rule sorted_wrt_mset [of alloc_sep "x # as"]) (use assms alloc_sep_sym in auto)

text \<open>What a call of \<open>Allocate\<close> that returns \<open>kTfLiteOk\<close> has done.\<close>

definition placed_at :: "SimpleMemoryArena \<Rightarrow> size_t \<Rightarrow> size_t \<Rightarrow> int \<Rightarrow> int \<Rightarrow> size_t \<Rightarrow> bool" where
  "placed_at m al sz f l off \<longleftrightarrow> unat off mod unat al = 0 \<and> unat off + unat sz < 2 ^ 64 \<and>
     clear_of off sz {a \<in> set (active_allocs m). conflicts a f l}"

lemma Allocate_Ok:
  assumes r: "Allocate m al sz t f l na = (kTfLiteOk, m', na')" and inv: "arena_inv m" and sz: "sz \<noteq> 0"
  obtains off x where "placed_at m al sz f l off"
    "x = \<lparr>offset = off, alloc_size = sz, tensor = t, first_node = f, last_node = l\<rparr>"
    "na' = Some x"
    "m' = m\<lparr>high_water_mark := max (high_water_mark m) (off + sz),
            active_allocs := insert_upper_bound x (active_allocs m)\<rparr>"
proof -
  obtain n where n: "na = Some n" using r by (cases na) (auto simp: Allocate_def)
  have al: "al \<noteq> 0" "al \<le> buf_alignment (underlying_buffer m)"
    using r n by (auto simp: Allocate_def split: if_splits)
  obtain bo bf co where scan: "Allocate_scan al sz f l (active_allocs m) size_max size_max 0 = Some (bo, bf, co)"
    using r n al sz
    by (cases "Allocate_scan al sz f l (active_allocs m) size_max size_max 0") (auto simp: Allocate_def Let_def)
  obtain best where best: "(if bo = size_max then CheckedAlignTo al co else Some bo) = Some best"
    using r n al sz scan
    by (cases "if bo = size_max then CheckedAlignTo al co else Some bo") (auto simp: Allocate_def Let_def)
  obtain req where req: "CheckedAdd best sz = Some req"
    using r n al sz scan best by (cases "CheckedAdd best sz") (auto simp: Allocate_def Let_def)
  define x where "x = \<lparr>offset = best, alloc_size = sz, tensor = t, first_node = f, last_node = l\<rparr>"
  have "placed_at m al sz f l best"
  proof -
    let ?R = "{a \<in> set (active_allocs m). conflicts a f l}"
    have "scan_inv al sz size_max size_max 0 {} ?R" by (simp add: scan_inv_def)
    from Allocate_scan_inv [OF scan sz _ this] inv
    consider "bo = size_max" "\<forall>a \<in> ?R. alloc_end a \<le> unat co"
      | "bo \<noteq> size_max" "unat bo mod unat al = 0" "clear_of bo sz ?R"
      by (auto simp: arena_inv_def)
    then have "unat best mod unat al = 0 \<and> clear_of best sz ?R"
    proof cases
      case 1
      with best have a: "CheckedAlignTo al co = Some best" by simp
      have "clear_of best sz (?R \<union> {})"
        using 1 CheckedAlignTo_spec(2) [OF a] by (intro clear_of_gap) auto
      then show ?thesis using CheckedAlignTo_spec(1) [OF a] by simp
    qed (use best in auto)
    then show ?thesis using req by (simp add: placed_at_def CheckedAdd_Some_iff)
  qed
  moreover have "n\<lparr>tensor := t, first_node := f, last_node := l, alloc_size := sz, offset := best\<rparr> = x"
    by (cases n) (simp add: x_def)
  then have "na' = Some x \<and> m' = m\<lparr>high_water_mark := max (high_water_mark m) (best + sz),
            active_allocs := insert_upper_bound x (active_allocs m)\<rparr>"
    using r n al sz scan best req by (auto simp: Allocate_def Let_def CheckedAdd_Some_iff)
  ultimately show thesis using that x_def by blast
qed

lemma Allocate_zero:
  assumes "Allocate m al 0 t f l na = (kTfLiteOk, m', na')"
  shows "m' = m" "\<exists>x. na' = Some x \<and> alloc_size x = 0 \<and> offset x = 0"
  using assms by (auto simp: Allocate_def Let_def split: option.splits if_splits)

lemma Allocate_fail_same:
  "Allocate m al sz t f l na = (st, m', na') \<Longrightarrow> st \<noteq> kTfLiteOk \<Longrightarrow> m' = m"
  by (auto simp: Allocate_def Let_def split: option.splits if_splits prod.splits)

lemma Allocate_arena_inv:
  assumes inv: "arena_inv m" and r: "Allocate m al sz t f l na = (st, m', na')"
  shows "arena_inv m'"
proof (cases "st = kTfLiteOk \<and> sz \<noteq> 0")
  case False
  then show ?thesis using inv r Allocate_fail_same Allocate_zero(1) by metis
next
  case True
  with r have ok: "Allocate m al sz t f l na = (kTfLiteOk, m', na')" "sz \<noteq> 0" by auto
  from Allocate_Ok [OF ok(1) inv ok(2)] obtain off x where p: "placed_at m al sz f l off"
    and x: "x = \<lparr>offset = off, alloc_size = sz, tensor = t, first_node = f, last_node = l\<rparr>"
    and m': "m' = m\<lparr>high_water_mark := max (high_water_mark m) (off + sz),
            active_allocs := insert_upper_bound x (active_allocs m)\<rparr>" by blast
  have e: "unat (off + sz) = alloc_end x"
    using p by (simp add: placed_at_def alloc_end_def x unat_word_ariths)
  have "alloc_sep x a" if "a \<in> set (active_allocs m)" for a
    using p that conflicts_sym [of x a]
    by (auto simp: placed_at_def clear_of_def alloc_sep_def x)
  then show ?thesis
    using inv ok(2) e unfolding arena_inv_def m'
    by (auto intro!: sorted_insert_upper_bound sorted_wrt_insert_upper_bound
        simp: unat_max le_max_iff_disj) (simp add: x)
qed

subsection \<open>Allocation succeeds unless the address space is exhausted\<close>

lemma Allocate_scan_total:
  assumes "al \<noteq> 0" and room: "H + unat al + unat sz < 2 ^ 64"
    and "\<forall>a \<in> set as. alloc_end a \<le> H" and "unat co \<le> H"
    and "bo \<noteq> size_max \<longrightarrow> unat bo + unat sz < 2 ^ 64"
  shows "\<exists>bo' bf' co'. Allocate_scan al sz f l as bo bf co = Some (bo', bf', co') \<and> unat co' \<le> H \<and>
    (bo' \<noteq> size_max \<longrightarrow> unat bo' + unat sz < 2 ^ 64)"
  using assms(3-5)
proof (induction as arbitrary: bo bf co)
  case Nil
  then show ?case by simp
next
  case (Cons a as)
  obtain aco where aco: "CheckedAlignTo al co = Some aco"
    using CheckedAlignTo_None [of al co] assms(1) room Cons.prems(2)
    by (cases "CheckedAlignTo al co") auto
  have lt: "unat aco + unat sz < 2 ^ 64"
    using CheckedAlignTo_spec(3) [OF aco] room Cons.prems(2) by linarith
  have ends: "CheckedAdd aco sz = Some (aco + sz)"
    "CheckedAdd (offset a) (alloc_size a) = Some (offset a + alloc_size a)"
    using lt room Cons.prems(1) by (auto simp: CheckedAdd_Some_iff alloc_end_def)
  have co: "unat (max co (offset a + alloc_size a)) \<le> H"
    using Cons.prems(1,2) CheckedAdd_unat [OF ends(2)] by (simp add: unat_max alloc_end_def)
  show ?case
    using Cons.IH Cons.prems lt co by (simp add: aco ends Let_def)
qed

lemma Allocate_total:
  assumes inv: "arena_inv m" and al: "al \<noteq> 0" "al \<le> buf_alignment (underlying_buffer m)"
    and room: "unat (high_water_mark m) + unat al + unat sz < 2 ^ 64"
  shows "\<exists>m' x. Allocate m al sz t f l (Some na) = (kTfLiteOk, m', Some x)"
proof (cases "sz = 0")
  case True
  then show ?thesis using al by (simp add: Allocate_def)
next
  case False
  obtain bo bf co where s: "Allocate_scan al sz f l (active_allocs m) size_max size_max 0 = Some (bo, bf, co)"
    and co: "unat co \<le> unat (high_water_mark m)" and bo: "bo \<noteq> size_max \<longrightarrow> unat bo + unat sz < 2 ^ 64"
    using Allocate_scan_total [OF al(1) room, of "active_allocs m" 0 size_max f l size_max] inv
    by (auto simp: arena_inv_def)
  obtain aco where aco: "CheckedAlignTo al co = Some aco"
    using CheckedAlignTo_None [of al co] al(1) room co by (cases "CheckedAlignTo al co") auto
  have "unat aco + unat sz < 2 ^ 64"
    using CheckedAlignTo_spec(3) [OF aco] room co by linarith
  then obtain req where "CheckedAdd (if bo = size_max then aco else bo) sz = Some req"
    using bo by (auto simp: CheckedAdd_Some_iff)
  then show ?thesis using False al s aco by (auto simp: Allocate_def Let_def)
qed

subsection \<open>Purging\<close>

lemma erase_mark_dead:
  "erase_dead (mark_dead dead as) = filter (\<lambda>a. \<not> dead a \<and> tensor a \<noteq> -1) as"
  by (induction as) (auto simp: erase_dead_def mark_dead_def)

lemma arena_inv_filter:
  assumes "arena_inv m" shows "arena_inv (m\<lparr>active_allocs := filter p (active_allocs m)\<rparr>)"
  using assms by (auto simp: arena_inv_def sorted_filter sorted_wrt_filter)

lemma PurgeAfter_arena_inv: "arena_inv m \<Longrightarrow> arena_inv (PurgeAfter m node)"
  by (simp add: PurgeAfter_def erase_mark_dead arena_inv_filter)

lemma PurgeActiveAllocs_arena_inv: "arena_inv m \<Longrightarrow> arena_inv (PurgeActiveAllocs m node)"
  by (simp add: PurgeActiveAllocs_def erase_mark_dead arena_inv_filter)

lemma Allocate_scan_filter:
  "(\<And>a. a \<in> set as \<Longrightarrow> \<not> p a \<Longrightarrow> \<not> conflicts a f l) \<Longrightarrow>
   Allocate_scan al sz f l (filter p as) bo bf co = Allocate_scan al sz f l as bo bf co"
  by (induction as arbitrary: bo bf co)
     (auto simp: conflicts_def Let_def split: option.splits)

lemma insert_upper_bound_filter:
  "sorted (map offset as) \<Longrightarrow> p x \<Longrightarrow>
   insert_upper_bound x (filter p as) = filter p (insert_upper_bound x as)"
proof (induction as)
  case (Cons a as)
  show ?case
  proof (cases "offset x < offset a")
    case True
    then have "\<forall>b \<in> set as. offset x < offset b" using Cons.prems(1) by auto
    then have "insert_upper_bound x (filter p as) = x # filter p as"
      by (cases "filter p as") (auto dest: filter_eq_ConsD)
    with True Cons.prems show ?thesis by auto
  qed (use Cons in auto)
qed simp

lemma Allocate_filter:
  assumes srt: "sorted (map offset (active_allocs m))"
    and irr: "\<And>a. a \<in> set (active_allocs m) \<Longrightarrow> \<not> p a \<Longrightarrow> \<not> conflicts a f l"
    and keep: "\<And>off. p \<lparr>offset = off, alloc_size = sz, tensor = t, first_node = f, last_node = l\<rparr>"
    and r: "Allocate m al sz t f l na = (st, m', na')"
  shows "Allocate (m\<lparr>active_allocs := filter p (active_allocs m)\<rparr>) al sz t f l na =
    (st, m'\<lparr>active_allocs := filter p (active_allocs m')\<rparr>, na')"
proof -
  have "n\<lparr>tensor := t, first_node := f, last_node := l, alloc_size := sz, offset := off\<rparr> =
      \<lparr>offset = off, alloc_size = sz, tensor = t, first_node = f, last_node = l\<rparr>"
    for n :: ArenaAllocWithUsageInterval and off by (cases n) simp
  then have ins: "insert_upper_bound (n\<lparr>tensor := t, first_node := f, last_node := l, alloc_size := sz,
        offset := off\<rparr>) (filter p (active_allocs m)) =
      filter p (insert_upper_bound (n\<lparr>tensor := t, first_node := f, last_node := l, alloc_size := sz,
        offset := off\<rparr>) (active_allocs m))" for n :: ArenaAllocWithUsageInterval and off
    using insert_upper_bound_filter [where p = p, OF srt] keep by metis
  have scan: "Allocate_scan al sz f l (filter p (active_allocs m)) bo bf co =
      Allocate_scan al sz f l (active_allocs m) bo bf co" for bo bf co
    by (rule Allocate_scan_filter) (rule irr)
  show ?thesis
    using r by (auto simp: Allocate_def Let_def ins scan split: option.splits if_splits prod.splits)
qed

lemma CalculateActiveAllocs_arena_inv:
  assumes "is_sort_by offset srt"
    and "\<And>a. a \<in> set allocs \<Longrightarrow> first_node a \<le> node \<and> node \<le> last_node a \<Longrightarrow>
      alloc_size a \<noteq> 0 \<and> alloc_end a \<le> unat (high_water_mark m)"
    and "sorted_wrt alloc_sep allocs"
  shows "arena_inv (CalculateActiveAllocs srt m allocs node)"
proof -
  let ?as = "filter (\<lambda>a. first_node a \<le> node \<and> last_node a \<ge> node) allocs"
  have "sorted_wrt alloc_sep (srt ?as)"
    by (rule sorted_wrt_mset [of alloc_sep ?as])
       (use assms(3) alloc_sep_sym is_sort_byD(1) [OF assms(1)] in \<open>auto simp: sorted_wrt_filter\<close>)
  then show ?thesis
    using assms(2) is_sort_byD(2,3) [OF assms(1), of ?as]
    by (auto simp: arena_inv_def CalculateActiveAllocs_def)
qed

subsection \<open>The buffer\<close>

definition buffer_inv :: "heap \<Rightarrow> ResizableAlignedBuffer \<Rightarrow> bool" where
  "buffer_inv h b \<longleftrightarrow>
     (if pointer (buf_pair b) = nullptr then data_size b = 0
      else holds_data h (buf_pair b) (data_size b) (buf_alignment b))"

lemma Resize_cases:
  assumes "Resize P h b n re = (st, re', b', h')"
  obtains "st = kTfLiteError" "re = None \<or> buf_alignment b = 0" "re' = re" "b' = b" "h' = h"
  | "st = kTfLiteOk" "n \<le> data_size b" "re' = Some False" "b' = b" "h' = h"
  | nb where "st = kTfLiteError" "re' = Some False" "b' = b" "data_size b < n" "pointer nb = nullptr"
      "AlignedRealloc P h (buf_pair b) (data_size b) n (buf_alignment b) = (nb, h')"
  | nb where "st = kTfLiteOk" "re' = Some (aligned_pointer nb \<noteq> GetPtr b)" "data_size b < n"
      "pointer nb \<noteq> nullptr" "b' = b\<lparr>buf_pair := nb, data_size := n\<rparr>"
      "AlignedRealloc P h (buf_pair b) (data_size b) n (buf_alignment b) = (nb, h')"
proof -
  obtain nb hn where ar: "AlignedRealloc P h (buf_pair b) (data_size b) n (buf_alignment b) = (nb, hn)"
    by force
  have pos: "data_size b < n \<Longrightarrow> 0 < n" by (meson le_less_trans word_zero_le)
  consider "re = None \<or> buf_alignment b = 0"
    | "re \<noteq> None" "buf_alignment b \<noteq> 0" "n \<le> data_size b"
    | "re \<noteq> None" "buf_alignment b \<noteq> 0" "data_size b < n" "pointer nb = nullptr"
    | "re \<noteq> None" "buf_alignment b \<noteq> 0" "data_size b < n" "pointer nb \<noteq> nullptr"
    by (meson not_le)
  then show thesis
  proof cases
    case 1
    then show ?thesis using assms by (intro that(1)) (auto simp: Resize_def)
  next
    case 2
    then show ?thesis using assms by (intro that(2)) (auto simp: Resize_def)
  next
    case 3
    then show ?thesis using assms pos [OF 3(3)] not_le [THEN iffD2, OF 3(3)] ar
      by (intro that(3) [of nb]) (auto simp: Resize_def)
  next
    case 4
    then show ?thesis using assms pos [OF 4(3)] not_le [THEN iffD2, OF 4(3)] ar
      by (intro that(4) [of nb]) (auto simp: Resize_def)
  qed
qed

lemma Resize_fail:
  assumes "valid_platform P" "Resize P h b n re = (st, re', b', h')" "st \<noteq> kTfLiteOk"
  shows "b' = b" "h' = h"
proof -
  have "0 < n" if "data_size b < n" using that by (meson le_less_trans word_zero_le)
  then show "b' = b" "h' = h"
    using assms(2,3) by (auto elim!: Resize_cases dest: AlignedRealloc_fail [OF assms(1)])
qed

lemma holds_data_block: "holds_data h b n al \<Longrightarrow> heap_blocks h (pointer b) \<noteq> None"
  by (auto simp: holds_data_def)

lemma Resize_ok:
  assumes P: "valid_platform P" and b: "buffer_inv h b"
    and r: "Resize P h b n re = (kTfLiteOk, re', b', h')"
  shows "buffer_inv h' b'" and "n \<le> data_size b'" and "data_size b \<le> data_size b'"
    and "buf_alignment b' = buf_alignment b" and "re' = Some (GetPtr b' \<noteq> GetPtr b)"
    and "\<And>i. i < unat (data_size b) \<Longrightarrow>
      heap_bytes h' (GetPtr b' + of_nat i) = heap_bytes h (GetPtr b + of_nat i)"
proof -
  have "buffer_inv h' b' \<and> n \<le> data_size b' \<and> data_size b \<le> data_size b' \<and>
    buf_alignment b' = buf_alignment b \<and> re' = Some (GetPtr b' \<noteq> GetPtr b) \<and>
    (\<forall>i < unat (data_size b).
      heap_bytes h' (GetPtr b' + of_nat i) = heap_bytes h (GetPtr b + of_nat i))"
    using r
  proof (cases rule: Resize_cases)
    case 2
    then show ?thesis using b by simp
  next
    case (4 nb)
    have pos: "0 < n" using 4(3) by (meson le_less_trans word_zero_le)
    have old: "data_size b > 0 \<longrightarrow> holds_data h (buf_pair b) (data_size b) (buf_alignment b)"
      and old0: "pointer (buf_pair b) \<noteq> nullptr \<longrightarrow> heap_blocks h (pointer (buf_pair b)) \<noteq> None"
      using b holds_data_block by (auto simp: buffer_inv_def split: if_splits)
    have "min n (data_size b) = data_size b" using 4(3) by (simp add: min_absorb2 less_imp_le)
    with AlignedRealloc_spec(1,2) [OF P 4(6) 4(4) pos old old0] show ?thesis
      using 4 by (auto simp: buffer_inv_def holds_data_def)
  qed auto
  then show "buffer_inv h' b'" "n \<le> data_size b'" "data_size b \<le> data_size b'"
    "buf_alignment b' = buf_alignment b" "re' = Some (GetPtr b' \<noteq> GetPtr b)"
    "\<And>i. i < unat (data_size b) \<Longrightarrow>
      heap_bytes h' (GetPtr b' + of_nat i) = heap_bytes h (GetPtr b + of_nat i)" by auto
qed

lemma Release_inv: "Release h b = (b', h') \<Longrightarrow> buffer_inv h b \<Longrightarrow>
   buffer_inv h' b' \<and> data_size b' = 0 \<and> pointer (buf_pair b') = nullptr"
  by (auto simp: Release_def buffer_inv_def null_pair_def split: if_splits)

subsection \<open>Commit and resolve\<close>

lemma Commit_Ok:
  assumes "Commit P h m re = (kTfLiteOk, re', m', h')"
  obtains b where "Resize P h (underlying_buffer m) (high_water_mark m) re = (kTfLiteOk, re', b, h')"
    "m' = m\<lparr>committed := True, underlying_buffer := b\<rparr>"
  using assms by (auto simp: Commit_def Let_def split: if_splits prod.splits)

text \<open>A committed arena gives every allocation below its size an address inside the block.\<close>

lemma ResolveAlloc_addr:
  assumes b: "buffer_inv h (underlying_buffer m)" and c: "committed m"
    and e: "alloc_end a \<le> unat (data_size (underlying_buffer m))" and sz: "alloc_size a \<noteq> 0"
  shows "ResolveAlloc m a (Some q) = (kTfLiteOk, Some (BasePointer m + offset a))"
    and "unat (BasePointer m + offset a) = unat (BasePointer m) + unat (offset a)"
    and "unat (BasePointer m) + unat (data_size (underlying_buffer m)) \<le> 2 ^ 64"
    and "unat (BasePointer m) mod unat (buf_alignment (underlying_buffer m)) = 0"
proof -
  have pos: "0 < unat (alloc_size a)" using sz by (simp add: unat_gt_0)
  have "data_size (underlying_buffer m) \<noteq> 0"
    using e pos by (auto simp: alloc_end_def)
  then have hd: "holds_data h (buf_pair (underlying_buffer m)) (data_size (underlying_buffer m))
      (buf_alignment (underlying_buffer m))"
    using b by (auto simp: buffer_inv_def split: if_splits)
  then show w: "unat (BasePointer m) + unat (data_size (underlying_buffer m)) \<le> 2 ^ 64"
    and "unat (BasePointer m) mod unat (buf_alignment (underlying_buffer m)) = 0"
    by (auto simp: holds_data_def BasePointer_def)
  have add: "CheckedAdd (offset a) (alloc_size a) = Some (offset a + alloc_size a)"
    using e unat_lt_size [of "data_size (underlying_buffer m)"]
    by (simp add: CheckedAdd_Some_iff alloc_end_def)
  have "offset a + alloc_size a \<le> data_size (underlying_buffer m)"
    using CheckedAdd_unat [OF add] e by (simp add: word_le_unat alloc_end_def)
  then show "ResolveAlloc m a (Some q) = (kTfLiteOk, Some (BasePointer m + offset a))"
    using c sz add by (simp add: ResolveAlloc_def BasePointer_def)
  show "unat (BasePointer m + offset a) = unat (BasePointer m) + unat (offset a)"
    using w e pos by (simp add: unat_word_ariths alloc_end_def)
qed

lemma Commit_resolves:
  assumes P: "valid_platform P" and inv: "arena_inv m" and b: "buffer_inv h (underlying_buffer m)"
    and c: "Commit P h m re = (kTfLiteOk, re', m', h')" and a: "a \<in> set (active_allocs m)"
  shows "ResolveAlloc m' a (Some q) = (kTfLiteOk, Some (BasePointer m' + offset a))"
    and "unat (BasePointer m' + offset a) = unat (BasePointer m') + unat (offset a)"
    and "unat (BasePointer m') + unat (GetBufferSize m') \<le> 2 ^ 64"
    and "alloc_end a \<le> unat (GetBufferSize m')"
    and "unat (BasePointer m') mod unat (buf_alignment (underlying_buffer m)) = 0"
proof -
  obtain u where u: "Resize P h (underlying_buffer m) (high_water_mark m) re = (kTfLiteOk, re', u, h')"
    "m' = m\<lparr>committed := True, underlying_buffer := u\<rparr>" using c by (rule Commit_Ok)
  note rs = Resize_ok [OF P b u(1)]
  have sz: "alloc_size a \<noteq> 0" and "alloc_end a \<le> unat (high_water_mark m)"
    using inv a by (auto simp: arena_inv_def)
  with rs(2) have e: "alloc_end a \<le> unat (data_size (underlying_buffer m'))"
    by (simp add: u(2) word_le_unat)
  have bi: "buffer_inv h' (underlying_buffer m')" "committed m'" using rs(1) by (simp_all add: u(2))
  show "ResolveAlloc m' a (Some q) = (kTfLiteOk, Some (BasePointer m' + offset a))"
    and "unat (BasePointer m' + offset a) = unat (BasePointer m') + unat (offset a)"
    and "unat (BasePointer m') + unat (GetBufferSize m') \<le> 2 ^ 64"
    and "alloc_end a \<le> unat (GetBufferSize m')"
    and "unat (BasePointer m') mod unat (buf_alignment (underlying_buffer m)) = 0"
    using ResolveAlloc_addr [OF bi e sz] e rs(4) by (simp_all add: GetBufferSize_def u(2))
qed

section \<open>The interface of an arena\<close>

text \<open>
  What a client of the arena relies on: a request either fails or yields a placement that is
  empty or stays live, and live placements are pairwise apart.
\<close>

fun place_all :: "('m \<Rightarrow> 'r \<Rightarrow> TfLiteStatus \<times> 'm \<times> 'a option) \<Rightarrow> 'm \<Rightarrow> 'r list \<Rightarrow>
    TfLiteStatus \<times> 'm \<times> 'a list" where
  "place_all place m [] = (kTfLiteOk, m, [])"
| "place_all place m (r # rs) =
     (case place m r of
        (kTfLiteOk, m', Some x) \<Rightarrow>
          (case place_all place m' rs of (st, m'', xs) \<Rightarrow> (st, m'', x # xs))
      | (kTfLiteOk, m', None) \<Rightarrow> (kTfLiteError, m', [])
      | (st, m', _) \<Rightarrow> (st, m', []))"

locale placement_arena =
  fixes place :: "'m \<Rightarrow> 'r \<Rightarrow> TfLiteStatus \<times> 'm \<times> 'a option"
    and live :: "'m \<Rightarrow> 'a list"
    and ainv :: "'m \<Rightarrow> bool"
    and apart :: "'a \<Rightarrow> 'a \<Rightarrow> bool"
    and vacuous :: "'a \<Rightarrow> bool"
  assumes place_inv: "ainv m \<Longrightarrow> place m r = (st, m', x) \<Longrightarrow> ainv m'"
    and place_live: "ainv m \<Longrightarrow> place m r = (kTfLiteOk, m', Some y) \<Longrightarrow> vacuous y \<or> y \<in> set (live m')"
    and place_mono: "ainv m \<Longrightarrow> place m r = (st, m', x) \<Longrightarrow> set (live m) \<subseteq> set (live m')"
    and live_apart: "ainv m \<Longrightarrow> sorted_wrt apart (live m)"
    and apart_sym: "apart y z \<Longrightarrow> apart z y"
begin

lemma place_all_live:
  "ainv m \<Longrightarrow> place_all place m rs = (kTfLiteOk, m', xs) \<Longrightarrow>
   ainv m' \<and> set (live m) \<subseteq> set (live m') \<and> (\<forall>x \<in> set xs. vacuous x \<or> x \<in> set (live m'))"
proof (induction rs arbitrary: m xs)
  case Nil
  then show ?case by simp
next
  case (Cons r rs)
  obtain m1 x ys where p: "place m r = (kTfLiteOk, m1, Some x)"
    and q: "place_all place m1 rs = (kTfLiteOk, m', ys)" and xs: "xs = x # ys"
    using Cons.prems(2) by (auto split: prod.splits TfLiteStatus.splits option.splits)
  have i: "ainv m1" using Cons.prems(1) p by (rule place_inv)
  from Cons.IH [OF i q] place_live [OF Cons.prems(1) p] place_mono [OF Cons.prems(1) p]
  show ?case unfolding xs by auto
qed

lemma place_all_apart:
  assumes "ainv m" "place_all place m rs = (kTfLiteOk, m', xs)" "x \<in> set xs" "y \<in> set xs" "x \<noteq> y"
    "\<not> vacuous x" "\<not> vacuous y"
  shows "apart x y"
proof -
  from place_all_live [OF assms(1,2)] assms have l: "ainv m'" "x \<in> set (live m')" "y \<in> set (live m')"
    by auto
  show ?thesis
    by (rule sorted_wrt_nth_distinct [OF live_apart [OF l(1)] apart_sym l(2,3) assms(5)])
qed

end

text \<open>A request carries the arguments of \<open>Allocate\<close> in the order of its signature.\<close>

record alloc_request =
  req_alignment :: size_t
  req_size :: size_t
  req_tensor :: int
  req_first :: int
  req_last :: int
  req_out :: ArenaAllocWithUsageInterval

definition Allocate_request ::
    "SimpleMemoryArena \<Rightarrow> alloc_request \<Rightarrow>
     TfLiteStatus \<times> SimpleMemoryArena \<times> ArenaAllocWithUsageInterval option" where
  "Allocate_request m r =
     Allocate m (req_alignment r) (req_size r) (req_tensor r) (req_first r) (req_last r) (Some (req_out r))"

lemma Allocate_live:
  assumes inv: "arena_inv m" and r: "Allocate m al sz t f l na = (kTfLiteOk, m', Some y)"
  shows "alloc_size y = 0 \<or> y \<in> set (active_allocs m')"
proof (cases "sz = 0")
  case True
  then show ?thesis using Allocate_zero(2) r by fastforce
next
  case False
  obtain off x where e: "Some y = Some x" and m': "m' = m\<lparr>high_water_mark := max (high_water_mark m) (off + sz),
      active_allocs := insert_upper_bound x (active_allocs m)\<rparr>"
    using Allocate_Ok [OF r inv False] by blast
  show ?thesis unfolding m' using e by simp
qed

lemma Allocate_mono:
  assumes inv: "arena_inv m" and r: "Allocate m al sz t f l na = (st, m', y)"
  shows "set (active_allocs m) \<subseteq> set (active_allocs m')"
proof (cases "st = kTfLiteOk \<and> sz \<noteq> 0")
  case True
  then have ok: "Allocate m al sz t f l na = (kTfLiteOk, m', y)" "sz \<noteq> 0" using r by auto
  obtain off x where m': "m' = m\<lparr>high_water_mark := max (high_water_mark m) (off + sz),
      active_allocs := insert_upper_bound x (active_allocs m)\<rparr>"
    using Allocate_Ok [OF ok(1) inv ok(2)] by blast
  show ?thesis unfolding m' by auto
next
  case False
  then show ?thesis using r Allocate_fail_same Allocate_zero(1) by blast
qed

interpretation sma: placement_arena Allocate_request active_allocs arena_inv alloc_sep
  "\<lambda>a. alloc_size a = 0"
proof unfold_locales
  show "arena_inv m'" if "arena_inv m" "Allocate_request m r = (st, m', x)" for m r st m' x
    using that unfolding Allocate_request_def by (rule Allocate_arena_inv)
  show "alloc_size y = 0 \<or> y \<in> set (active_allocs m')"
    if "arena_inv m" "Allocate_request m r = (kTfLiteOk, m', Some y)" for m r m' y
    using that unfolding Allocate_request_def by (rule Allocate_live)
  show "set (active_allocs m) \<subseteq> set (active_allocs m')"
    if "arena_inv m" "Allocate_request m r = (st, m', x)" for m r st m' x
    using that unfolding Allocate_request_def by (rule Allocate_mono)
qed (auto simp: arena_inv_def alloc_sep_sym)

lemma new_arena_inv [simp]: "arena_inv (new_arena al)"
  by (simp add: arena_inv_def new_arena_def)

section \<open>Properties\<close>

text \<open>C37: from a new arena, any sequence of successful \<open>Allocate\<close> calls places tensors whose
  usage intervals intersect at disjoint ranges of the arena.\<close>

theorem Allocate_sequence_separates:
  assumes "place_all Allocate_request (new_arena al) rs = (kTfLiteOk, m', xs)"
    and "x \<in> set xs" and "y \<in> set xs" and "x \<noteq> y"
    and "alloc_size x \<noteq> 0" and "alloc_size y \<noteq> 0"
    and "first_node x \<le> last_node y" and "first_node y \<le> last_node x"
  shows "ranges_disjoint (offset x) (alloc_size x) (offset y) (alloc_size y)"
  using sma.place_all_apart [OF new_arena_inv assms(1-6)] assms(7,8)
  by (simp add: alloc_sep_def conflicts_def)

definition demo_request :: "size_t \<Rightarrow> int \<Rightarrow> int \<Rightarrow> int \<Rightarrow> alloc_request" where
  "demo_request sz t f l = \<lparr>req_alignment = 64, req_size = sz, req_tensor = t, req_first = f, req_last = l,
     req_out = alloc_reset\<rparr>"

definition demo_alloc :: "size_t \<Rightarrow> size_t \<Rightarrow> int \<Rightarrow> int \<Rightarrow> int \<Rightarrow> ArenaAllocWithUsageInterval" where
  "demo_alloc off sz t f l = \<lparr>offset = off, alloc_size = sz, tensor = t, first_node = f, last_node = l\<rparr>"

lemma demo_run:
  "place_all Allocate_request (new_arena 64) [demo_request 100 0 0 1, demo_request 40 1 1 2, demo_request 90 2 2 3] =
   (kTfLiteOk, (new_arena 64)\<lparr>high_water_mark := 168,
      active_allocs := [demo_alloc 0 100 0 0 1, demo_alloc 0 90 2 2 3, demo_alloc 128 40 1 1 2]\<rparr>,
    [demo_alloc 0 100 0 0 1, demo_alloc 128 40 1 1 2, demo_alloc 0 90 2 2 3])"
  by (simp add: Allocate_request_def Allocate_def demo_request_def demo_alloc_def new_arena_def new_buffer_def
      alloc_reset_def CheckedAlignTo_def CheckedAdd_def Let_def)

theorem Allocate_sequence_separates_witness:
  "ranges_disjoint 0 100 128 40"
proof -
  have "ranges_disjoint (offset (demo_alloc 0 100 0 0 1)) (alloc_size (demo_alloc 0 100 0 0 1))
      (offset (demo_alloc 128 40 1 1 2)) (alloc_size (demo_alloc 128 40 1 1 2))"
    by (rule Allocate_sequence_separates [OF demo_run]) (simp_all add: demo_alloc_def)
  then show ?thesis by (simp add: demo_alloc_def)
qed

text \<open>every \<open>Allocate\<close>, failed or not, keeps the arena's invariant: the active
  allocations stay sorted by offset, non-empty, below the high-water mark, and separate.\<close>

theorem Allocate_keeps_invariant:
  assumes "arena_inv m" and "Allocate m al sz t f l na = (st, m', na')"
  shows "arena_inv m'"
  using assms by (rule Allocate_arena_inv)

theorem Allocate_keeps_invariant_witness:
  "arena_inv ((new_arena 64)\<lparr>high_water_mark := 100, active_allocs := [demo_alloc 0 100 0 0 1]\<rparr>)"
proof -
  have "Allocate (new_arena 64) 64 100 0 0 1 (Some alloc_reset) =
      (kTfLiteOk, (new_arena 64)\<lparr>high_water_mark := 100, active_allocs := [demo_alloc 0 100 0 0 1]\<rparr>,
       Some (demo_alloc 0 100 0 0 1))"
    by (simp add: Allocate_def demo_alloc_def new_arena_def new_buffer_def alloc_reset_def
        CheckedAlignTo_def CheckedAdd_def Let_def)
  then show ?thesis by (rule Allocate_keeps_invariant [OF new_arena_inv])
qed

text \<open>A successful \<open>Allocate\<close> of a non-empty tensor writes the requested fields,
  picks an aligned offset whose range ends below the new high-water mark without wrapping around,
  avoids every active allocation whose usage interval intersects the new one, and records the new
  allocation as active.\<close>

theorem Allocate_placement:
  assumes "arena_inv m" and "Allocate m al sz t f l na = (kTfLiteOk, m', na')" and "sz \<noteq> 0"
  shows "\<exists>x. na' = Some x \<and> tensor x = t \<and> first_node x = f \<and> last_node x = l \<and> alloc_size x = sz \<and>
    unat (offset x) mod unat al = 0 \<and>
    unat (offset x) + unat sz \<le> unat (high_water_mark m') \<and>
    mset (active_allocs m') = add_mset x (mset (active_allocs m)) \<and>
    (\<forall>a \<in> set (active_allocs m). first_node a \<le> l \<and> f \<le> last_node a \<longrightarrow>
       ranges_disjoint (offset x) sz (offset a) (alloc_size a))"
proof -
  obtain off x where p: "placed_at m al sz f l off"
    and x: "x = \<lparr>offset = off, alloc_size = sz, tensor = t, first_node = f, last_node = l\<rparr>"
    and na': "na' = Some x"
    and m': "m' = m\<lparr>high_water_mark := max (high_water_mark m) (off + sz),
        active_allocs := insert_upper_bound x (active_allocs m)\<rparr>"
    using Allocate_Ok [OF assms(2,1,3)] by blast
  have "unat (off + sz) = unat off + unat sz"
    using p by (simp add: placed_at_def unat_word_ariths)
  then have "unat off + unat sz \<le> unat (high_water_mark m')"
    unfolding m' by (simp add: unat_max)
  moreover have "\<forall>a \<in> set (active_allocs m). first_node a \<le> l \<and> f \<le> last_node a \<longrightarrow>
       ranges_disjoint off sz (offset a) (alloc_size a)"
    using p by (auto simp: placed_at_def clear_of_def conflicts_def)
  ultimately show ?thesis
    using p na' by (intro exI [of _ x]) (simp add: x m' placed_at_def)
qed

theorem Allocate_placement_witness:
  "tensor (demo_alloc 0 100 7 0 1) = 7 \<and> unat (offset (demo_alloc 0 100 7 0 1)) + 100 \<le> 100"
proof -
  let ?m = "(new_arena 64)\<lparr>high_water_mark := 100, active_allocs := [demo_alloc 0 100 7 0 1]\<rparr>"
  have "Allocate (new_arena 64) 64 100 7 0 1 (Some alloc_reset) = (kTfLiteOk, ?m, Some (demo_alloc 0 100 7 0 1))"
    by (simp add: Allocate_def demo_alloc_def new_arena_def new_buffer_def alloc_reset_def
        CheckedAlignTo_def CheckedAdd_def Let_def)
  from Allocate_placement [OF new_arena_inv this] show ?thesis by simp
qed

text \<open>C38: \<open>Allocate\<close> succeeds whenever its pointer is not null, the alignment is neither zero
  nor above the buffer's, and the high-water mark plus alignment plus size does not leave the address space.\<close>

theorem Allocate_succeeds:
  assumes "arena_inv m" and "al \<noteq> 0" and "al \<le> buf_alignment (underlying_buffer m)"
    and "unat (high_water_mark m) + unat al + unat sz < 2 ^ 64"
  shows "\<exists>m' x. Allocate m al sz t f l (Some na) = (kTfLiteOk, m', Some x)"
  using assms by (rule Allocate_total)

theorem Allocate_succeeds_witness:
  "\<exists>m' x. Allocate (new_arena 64) 16 1000 0 0 5 (Some alloc_reset) = (kTfLiteOk, m', Some x)"
  by (rule Allocate_succeeds [OF new_arena_inv]) (simp_all add: new_arena_def new_buffer_def)

text \<open>C39: \<open>PurgeActiveAllocs\<close> has no effect on results: purging before an allocation whose
  interval starts at or after the node gives the same status and placement, and the same arena as
  allocating first and purging afterwards.\<close>

theorem PurgeActiveAllocs_transparent:
  assumes "arena_inv m" and "node \<le> f" and "f \<le> l" and "t \<noteq> -1"
    and "\<forall>a \<in> set (active_allocs m). tensor a \<noteq> -1"
    and "Allocate m al sz t f l na = (st, m', na')"
  shows "Allocate (PurgeActiveAllocs m node) al sz t f l na = (st, PurgeActiveAllocs m' node, na')"
proof -
  let ?p = "\<lambda>a. \<not> last_node a < node \<and> tensor a \<noteq> -1"
  have "Allocate (m\<lparr>active_allocs := filter ?p (active_allocs m)\<rparr>) al sz t f l na =
      (st, m'\<lparr>active_allocs := filter ?p (active_allocs m')\<rparr>, na')"
    by (rule Allocate_filter [OF _ _ _ assms(6)])
       (use assms(1-5) in \<open>auto simp: arena_inv_def conflicts_def\<close>)
  then show ?thesis by (simp add: PurgeActiveAllocs_def erase_mark_dead)
qed

definition demo_arena :: SimpleMemoryArena where
  "demo_arena = (new_arena 64)\<lparr>high_water_mark := 168,
      active_allocs := [demo_alloc 0 100 0 0 1, demo_alloc 128 40 1 1 2]\<rparr>"

lemma demo_arena_inv: "arena_inv demo_arena"
  by (simp add: arena_inv_def demo_arena_def demo_alloc_def alloc_end_def alloc_sep_def ranges_disjoint_def)

lemma demo_arena_allocate:
  "Allocate demo_arena 64 90 2 2 3 (Some alloc_reset) =
   (kTfLiteOk, demo_arena\<lparr>active_allocs := [demo_alloc 0 100 0 0 1, demo_alloc 0 90 2 2 3, demo_alloc 128 40 1 1 2]\<rparr>,
    Some (demo_alloc 0 90 2 2 3))"
  by (simp add: Allocate_def demo_arena_def demo_alloc_def new_arena_def new_buffer_def alloc_reset_def
      CheckedAlignTo_def CheckedAdd_def Let_def)

theorem PurgeActiveAllocs_transparent_witness:
  "Allocate (PurgeActiveAllocs demo_arena 2) 64 90 2 2 3 (Some alloc_reset) =
   (kTfLiteOk, demo_arena\<lparr>active_allocs := [demo_alloc 0 90 2 2 3, demo_alloc 128 40 1 1 2]\<rparr>,
    Some (demo_alloc 0 90 2 2 3))"
  by (subst PurgeActiveAllocs_transparent [OF demo_arena_inv _ _ _ _ demo_arena_allocate])
     (simp_all add: demo_arena_def demo_alloc_def PurgeActiveAllocs_def erase_mark_dead)


text \<open>A platform with room for a single block at address 4096.\<close>

definition one_block_platform :: platform where
  "one_block_platform = \<lparr>TF_LITE_HAS_ALIGNED_ALLOC = True,
     aligned_alloc_at = (\<lambda>h al n. if heap_blocks h = Map.empty \<and> unat n \<le> 4096 \<and> 4096 mod unat al = 0
                                  then 4096 else nullptr),
     malloc_at = (\<lambda>h n. nullptr)\<rparr>"

lemma one_block_platform_valid: "valid_platform one_block_platform"
  by (auto simp: valid_platform_def one_block_platform_def fresh_block_def)

definition empty_heap :: heap where
  "empty_heap = \<lparr>heap_bytes = (\<lambda>_. 0), heap_blocks = Map.empty\<rparr>"

lemma demo_arena_commit:
  "Commit one_block_platform empty_heap demo_arena (Some False) =
   (kTfLiteOk, Some True, demo_arena\<lparr>committed := True, underlying_buffer :=
      \<lparr>buf_pair = \<lparr>pointer = 4096, aligned_pointer = 4096\<rparr>, data_size = 168, buf_alignment = 64\<rparr>\<rparr>,
    \<lparr>heap_bytes = (\<lambda>_. 0), heap_blocks = [4096 \<mapsto> 256]\<rparr>)"
  by (simp add: Commit_def Resize_def AlignedRealloc_def AlignedAlloc_def AlignedFree_def demo_arena_def
      new_arena_def new_buffer_def CheckedAdd_def CheckedAlignTo_def Let_def one_block_platform_def
      block_add_def free_def empty_heap_def null_pair_def)


text \<open>growing the buffer keeps its alignment and every byte it held, never shrinks it, and reports a
  move exactly when the data pointer changed; a failed \<open>Resize\<close> changes neither the buffer nor the heap.\<close>

theorem Resize_preserves:
  assumes "valid_platform P" and "buffer_inv h b" and "Resize P h b n re = (st, re', b', h')"
  shows "if st = kTfLiteOk
    then buffer_inv h' b' \<and> max n (data_size b) \<le> data_size b' \<and> buf_alignment b' = buf_alignment b \<and>
      re' = Some (GetPtr b' \<noteq> GetPtr b) \<and>
      (\<forall>i < unat (data_size b). heap_bytes h' (GetPtr b' + of_nat i) = heap_bytes h (GetPtr b + of_nat i))
    else b' = b \<and> h' = h"
proof (cases "st = kTfLiteOk")
  case True
  then have "Resize P h b n re = (kTfLiteOk, re', b', h')" using assms(3) by simp
  from Resize_ok [OF assms(1,2) this] True show ?thesis by simp
next
  case False
  with Resize_fail [OF assms(1,3)] show ?thesis by simp
qed

theorem Resize_preserves_witness:
  "\<exists>st re b' h'. Resize one_block_platform empty_heap (new_buffer 64) 168 (Some False) = (st, re, b', h') \<and>
     (if st = kTfLiteOk then 168 \<le> data_size b' else b' = new_buffer 64)"
proof -
  obtain st re b' h' where r: "Resize one_block_platform empty_heap (new_buffer 64) 168 (Some False) = (st, re, b', h')"
    by (metis prod_cases4)
  have "buffer_inv empty_heap (new_buffer 64)" by (simp add: buffer_inv_def new_buffer_def null_pair_def)
  from Resize_preserves [OF one_block_platform_valid this r] r show ?thesis
    by (auto simp: new_buffer_def split: if_splits)
qed

end
