(* ===== verification/GraphInfo.thy ===== *)
theory GraphInfo
  imports Prelude
begin

text \<open>
  The view of a subgraph that the planner and the partitioner work on
  (\<^verbatim>\<open>src/tflite/graph_info.h\<close>, class \<open>GraphInfo\<close>) and the parts of the C structures
  \<open>TfLiteTensor\<close>, \<open>TfLiteNode\<close> and \<open>TfLiteRegistration\<close> that they read or write.
  Tensor indices are integers, with \<open>kTfLiteOptionalTensor\<close> for an absent tensor; a vector indexed
  by them is a list read at \<open>nat i\<close>.  Reading outside a vector is undefined behaviour in the source;
  \<open>graph_ok\<close> is the condition under which no such read happens, established by the interpreter
  when it checks tensor indices.
\<close>

section \<open>Tensors, nodes and graphs\<close>

datatype TfLiteAllocationType =
    kTfLiteMemNone
  | kTfLiteMmapRo
  | kTfLiteArenaRw
  | kTfLiteArenaRwPersistent
  | kTfLiteDynamic
  | kTfLitePersistentRo
  | kTfLiteCustom
  | kTfLiteVariantObject
  | kTfLiteNonCpu

record TfLiteTensor =
  allocation_type :: TfLiteAllocationType
  bytes :: size_t
  data_ptr :: ptr

record TfLiteNode =
  node_inputs :: "int list"
  node_outputs :: "int list"
  node_temporaries :: "int list"
  might_have_side_effect :: bool
  inplace_operator :: "64 word"

abbreviation kTfLiteOptionalTensor :: int where
  "kTfLiteOptionalTensor \<equiv> -1"

text \<open>
  \<open>nodes\<close> holds the nodes of the execution plan, in order, each with its registration's
  \<open>inplace_operator\<close>; \<open>node_index\<close> gives the index of a plan node among all nodes.
\<close>

record GraphInfo =
  tensors :: "TfLiteTensor list"
  nodes :: "TfLiteNode list"
  node_index :: "nat list"
  num_total_nodes :: nat
  graph_inputs :: "int list"
  graph_outputs :: "int list"
  graph_variables :: "int list"

abbreviation num_tensors :: "GraphInfo \<Rightarrow> nat" where
  "num_tensors g \<equiv> length (tensors g)"

abbreviation num_execution_nodes :: "GraphInfo \<Rightarrow> nat" where
  "num_execution_nodes g \<equiv> length (nodes g)"

section \<open>Well-formed graphs\<close>

definition valid_tensor :: "GraphInfo \<Rightarrow> int \<Rightarrow> bool" where
  "valid_tensor g t \<longleftrightarrow> 0 \<le> t \<and> nat t < num_tensors g"

definition opt_tensor :: "GraphInfo \<Rightarrow> int \<Rightarrow> bool" where
  "opt_tensor g t \<longleftrightarrow> t = kTfLiteOptionalTensor \<or> valid_tensor g t"

definition node_ok :: "GraphInfo \<Rightarrow> TfLiteNode \<Rightarrow> bool" where
  "node_ok g n \<longleftrightarrow> list_all (opt_tensor g) (node_inputs n) \<and>
     list_all (opt_tensor g) (node_outputs n) \<and> list_all (valid_tensor g) (node_temporaries n) \<and>
     (inplace_operator n \<noteq> 0 \<and> node_outputs n \<noteq> [] \<longrightarrow> valid_tensor g (hd (node_outputs n)))"

definition graph_ok :: "GraphInfo \<Rightarrow> bool" where
  "graph_ok g \<longleftrightarrow> list_all (node_ok g) (nodes g) \<and>
     list_all (opt_tensor g) (graph_inputs g) \<and> list_all (opt_tensor g) (graph_outputs g) \<and>
     list_all (valid_tensor g) (graph_variables g) \<and>
     int (num_execution_nodes g) < int32_max \<and> int (num_tensors g) < int32_max"

lemma valid_tensor_bounds: "valid_tensor g t \<Longrightarrow> 0 \<le> t \<and> nat t < num_tensors g"
  by (simp add: valid_tensor_def)

lemma opt_tensor_valid: "opt_tensor g t \<Longrightarrow> t \<noteq> kTfLiteOptionalTensor \<Longrightarrow> valid_tensor g t"
  by (simp add: opt_tensor_def)

lemma graph_ok_node:
  assumes "graph_ok g" "i < num_execution_nodes g"
  shows "node_ok g (nodes g ! i)"
  using assms by (auto simp: graph_ok_def list_all_iff)

lemma nat_eq_valid: "valid_tensor g s \<Longrightarrow> valid_tensor g t \<Longrightarrow> nat s = nat t \<longleftrightarrow> s = t"
  by (auto simp: valid_tensor_def)

end
