(* ===== verification/ArenaPlanner.thy ===== *)
theory ArenaPlanner
  imports SimpleMemoryArena GraphInfo
begin

text \<open>
  The memory planner of \<^verbatim>\<open>src/tflite/arena_planner.{h,cc}\<close>.  \<open>PlanAllocations\<close>
  computes the first and last node that use each tensor by reference counting and finds outputs that
  can share an input's buffer; \<open>ExecuteAllocations\<close> places the tensors in the two arenas,
  commits them and sets the tensors' data pointers.  The planner's members keep their names without
  the trailing underscore; the graph it is built on is passed beside it, since the interpreter owns
  the tensors.
\<close>

unbundle bit_operations_syntax

section \<open>State\<close>

abbreviation kNodeNotAssigned :: int where
  "kNodeNotAssigned \<equiv> int32_max"

abbreviation kLastActiveNodeUndefined :: int where
  "kLastActiveNodeUndefined \<equiv> int32_max"

abbreviation kScalarTensorBytes :: size_t where
  "kScalarTensorBytes \<equiv> 4"

abbreviation kDefaultArenaAlignment :: size_t where
  "kDefaultArenaAlignment \<equiv> 64"

text \<open>An \<open>unordered_set\<close> of tensor indices is a list without duplicates, in its iteration order.\<close>

record ArenaPlanner =
  allocs :: "ArenaAllocWithUsageInterval list"
  nodes_to_tensors :: "int list list"
  alloc_node :: "int list"
  dealloc_node :: "int list"
  arena :: SimpleMemoryArena
  has_nonpersistent_memory :: bool
  persistent_arena :: SimpleMemoryArena
  preserve_all_tensors :: bool
  tensor_alignment :: int
  last_active_node :: int
  actual_tensor_id :: "int \<rightharpoonup> int"
  refcounts :: "int list"

definition new_planner :: "bool \<Rightarrow> int \<Rightarrow> ArenaPlanner" where
  "new_planner preserve alignment =
     \<lparr>allocs = [], nodes_to_tensors = [], alloc_node = [], dealloc_node = [],
      arena = new_arena kDefaultArenaAlignment, has_nonpersistent_memory = False,
      persistent_arena = new_arena kDefaultArenaAlignment, preserve_all_tensors = preserve,
      tensor_alignment = alignment, last_active_node = kLastActiveNodeUndefined,
      actual_tensor_id = Map.empty, refcounts = []\<rparr>"

abbreviation at :: "'a list \<Rightarrow> int \<Rightarrow> 'a" where
  "at xs i \<equiv> xs ! nat i"

definition set_insert :: "'a \<Rightarrow> 'a list \<Rightarrow> 'a list" where
  "set_insert x xs = (if x \<in> set xs then xs else xs @ [x])"

definition queue_tensor :: "ArenaPlanner \<Rightarrow> nat \<Rightarrow> int \<Rightarrow> ArenaPlanner" where
  "queue_tensor p i t =
     p\<lparr>nodes_to_tensors := (nodes_to_tensors p)[i := set_insert t (nodes_to_tensors p ! i)]\<rparr>"

definition bump :: "int list \<Rightarrow> int \<Rightarrow> int \<Rightarrow> int list" where
  "bump rc t d = rc[nat t := at rc t + d]"

section \<open>Resetting\<close>

definition ResetAllocations :: "ArenaPlanner \<Rightarrow> GraphInfo \<Rightarrow> TfLiteStatus \<times> ArenaPlanner" where
  "ResetAllocations p g =
     ensure_status (case ClearPlan (arena p) of (st, m) \<Rightarrow> (st, p\<lparr>arena := m\<rparr>)) (\<lambda>p1.
     ensure_status (case ClearPlan (persistent_arena p1) of (st, m) \<Rightarrow> (st, p1\<lparr>persistent_arena := m\<rparr>)) (\<lambda>p2.
     (kTfLiteOk, p2\<lparr>allocs := replicate (num_tensors g) alloc_reset,
                    last_active_node := kLastActiveNodeUndefined\<rparr>)))"

text \<open>The loop over \<open>allocs\<close> in \<open>ResetAllocationsAfter\<close>, from index \<open>i\<close> on.\<close>

definition reset_after_one ::
    "int \<Rightarrow> ArenaAllocWithUsageInterval list \<times> TfLiteTensor list \<Rightarrow> nat \<Rightarrow>
     ArenaAllocWithUsageInterval list \<times> TfLiteTensor list" where
  "reset_after_one node = (\<lambda>(as, ts) i.
     if first_node (as ! i) > node \<and> alloc_size (as ! i) > 0 then
       (if allocation_type (ts ! i) = kTfLiteArenaRw
        then (as[i := alloc_reset], ts[i := (ts ! i)\<lparr>data_ptr := nullptr\<rparr>])
        else (as, ts))
     else (as, ts))"

definition ResetAllocationsAfter ::
    "(ArenaAllocWithUsageInterval list \<Rightarrow> ArenaAllocWithUsageInterval list) \<Rightarrow>
     ArenaPlanner \<Rightarrow> GraphInfo \<Rightarrow> int \<Rightarrow> TfLiteStatus \<times> ArenaPlanner \<times> GraphInfo" where
  "ResetAllocationsAfter sort_allocs p g node =
     (let (as, ts) = foldl (reset_after_one node) (allocs p, tensors g) [0..<length (allocs p)];
          m = (if last_active_node p > node then CalculateActiveAllocs sort_allocs (arena p) as node
               else PurgeAfter (arena p) node)
      in (kTfLiteOk, p\<lparr>allocs := as, arena := m, last_active_node := node\<rparr>, g\<lparr>tensors := ts\<rparr>))"

section \<open>Buffer sharing\<close>

definition FindSharedTensor :: "ArenaPlanner \<Rightarrow> int \<Rightarrow> int" where
  "FindSharedTensor p tensor_index =
     (case actual_tensor_id p tensor_index of Some r \<Rightarrow> r | None \<Rightarrow> tensor_index)"

abbreviation kTfLiteInplaceOpNone :: "64 word" where "kTfLiteInplaceOpNone \<equiv> 0"
abbreviation kTfLiteInplaceOpDataUnmodified :: "64 word" where "kTfLiteInplaceOpDataUnmodified \<equiv> 1"
abbreviation kTfLiteInplaceOpInput0Shared :: "64 word" where "kTfLiteInplaceOpInput0Shared \<equiv> 4"
abbreviation kTfLiteMaxSharableOpInputs :: nat where "kTfLiteMaxSharableOpInputs \<equiv> 3"

definition InputTensorCanBeShared ::
    "ArenaPlanner \<Rightarrow> GraphInfo \<Rightarrow> TfLiteTensor \<Rightarrow> TfLiteTensor \<Rightarrow> int \<Rightarrow> int \<Rightarrow> bool \<Rightarrow> bool" where
  "InputTensorCanBeShared p g input_tensor output_tensor input_id output_id tensor_changed =
     (if tensor_changed \<and> (bytes input_tensor \<noteq> bytes output_tensor \<or>
                           bytes input_tensor \<le> kScalarTensorBytes) then False
      else if tensor_changed \<and> at (refcounts p) input_id > 1 then False
      else if input_id \<in> set (graph_inputs g) then False
      else if output_id \<in> set (graph_outputs g) then False
      else if allocation_type input_tensor \<noteq> allocation_type output_tensor \<and>
              allocation_type input_tensor \<noteq> kTfLiteArenaRw then False
      else if preserve_all_tensors p then False
      else True)"

text \<open>The inner loop of \<open>IdentifyInPlaceTensors\<close> from input \<open>i\<close> on: the input to share, or \<open>-1\<close>.\<close>

fun find_shared_input ::
    "ArenaPlanner \<Rightarrow> GraphInfo \<Rightarrow> 64 word \<Rightarrow> int \<Rightarrow> bool \<Rightarrow> nat \<Rightarrow> int list \<Rightarrow> int" where
  "find_shared_input p g inplace output_id tensor_changed i [] = -1"
| "find_shared_input p g inplace output_id tensor_changed i (t # ts) =
     (if t = kTfLiteOptionalTensor
      then find_shared_input p g inplace output_id tensor_changed (Suc i) ts
      else if inplace AND push_bit i kTfLiteInplaceOpInput0Shared \<noteq> 0 \<and>
              InputTensorCanBeShared p g (at (tensors g) t) (at (tensors g) output_id) t output_id
                tensor_changed
      then t
      else find_shared_input p g inplace output_id tensor_changed (Suc i) ts)"

definition identify_one :: "GraphInfo \<Rightarrow> ArenaPlanner \<Rightarrow> TfLiteNode \<Rightarrow> ArenaPlanner" where
  "identify_one g p node =
     (if length (node_outputs node) < 1 then p
      else
        let inplace = inplace_operator node;
            tensor_changed = (inplace AND kTfLiteInplaceOpDataUnmodified = 0)
        in if inplace = kTfLiteInplaceOpNone then p
           else
             let output_id = hd (node_outputs node);
                 input_id = find_shared_input p g inplace output_id tensor_changed 0
                              (take kTfLiteMaxSharableOpInputs (node_inputs node))
             in if input_id = -1 then p
                else
                  let actual_output_tensor_id = FindSharedTensor p input_id
                  in if tensor_changed \<and> at (refcounts p) actual_output_tensor_id > 1 then p
                     else p\<lparr>actual_tensor_id := (actual_tensor_id p)(output_id \<mapsto> actual_output_tensor_id)\<rparr>)"

definition IdentifyInPlaceTensors :: "ArenaPlanner \<Rightarrow> GraphInfo \<Rightarrow> ArenaPlanner" where
  "IdentifyInPlaceTensors p g =
     foldl (identify_one g) (p\<lparr>actual_tensor_id := Map.empty\<rparr>) (nodes g)"

section \<open>Planning\<close>

text \<open>The two closures of \<open>PlanAllocations\<close>.\<close>

definition plan_allocate :: "ArenaPlanner \<Rightarrow> int \<Rightarrow> int \<Rightarrow> TfLiteStatus \<times> ArenaPlanner" where
  "plan_allocate p node t =
     (if at (alloc_node p) t \<noteq> kNodeNotAssigned then (kTfLiteOk, p)
      else if at (dealloc_node p) t \<noteq> kNodeNotAssigned then (kTfLiteError, p)
      else (kTfLiteOk, p\<lparr>alloc_node := (alloc_node p)[nat t := node]\<rparr>))"

definition plan_deallocate :: "ArenaPlanner \<Rightarrow> int \<Rightarrow> int \<Rightarrow> TfLiteStatus \<times> ArenaPlanner" where
  "plan_deallocate p node t =
     (if at (alloc_node p) t = kNodeNotAssigned then (kTfLiteOk, p)
      else if at (dealloc_node p) t \<noteq> kNodeNotAssigned then (kTfLiteError, p)
      else (kTfLiteOk, p\<lparr>dealloc_node := (dealloc_node p)[nat t := node]\<rparr>))"

definition count_refs :: "(int \<Rightarrow> int) \<Rightarrow> int list \<Rightarrow> int list \<Rightarrow> int list" where
  "count_refs root rc ts =
     foldl (\<lambda>rc t. if t \<noteq> kTfLiteOptionalTensor then bump rc (root t) 1 else rc) rc ts"

definition plan_variable :: "ArenaPlanner \<Rightarrow> int \<Rightarrow> TfLiteStatus \<times> ArenaPlanner" where
  "plan_variable p t =
     (let p1 = p\<lparr>refcounts := bump (refcounts p) t 1\<rparr>
      in if t = kTfLiteOptionalTensor then (kTfLiteError, p1)
         else ensure_status (plan_allocate p1 0 t) (\<lambda>p2. (kTfLiteOk, queue_tensor p2 0 t)))"

definition plan_input :: "ArenaPlanner \<Rightarrow> int \<Rightarrow> TfLiteStatus \<times> ArenaPlanner" where
  "plan_input p t =
     (if t \<noteq> kTfLiteOptionalTensor then
        ensure_status (plan_allocate (p\<lparr>refcounts := bump (refcounts p) t 1\<rparr>) 0 t)
          (\<lambda>p2. (kTfLiteOk, queue_tensor p2 0 t))
      else (kTfLiteOk, p))"

definition plan_output :: "nat \<Rightarrow> ArenaPlanner \<Rightarrow> int \<Rightarrow> TfLiteStatus \<times> ArenaPlanner" where
  "plan_output i p t =
     (if t = kTfLiteOptionalTensor then (kTfLiteOk, p)
      else plan_allocate (queue_tensor p i t) (int i) t)"

text \<open>The local copy of the reference counts is threaded beside the planner.\<close>

definition plan_use :: "nat \<Rightarrow> ArenaPlanner \<times> int list \<Rightarrow> int \<Rightarrow> TfLiteStatus \<times> ArenaPlanner \<times> int list" where
  "plan_use i = (\<lambda>(p, rc) t.
     if t \<noteq> kTfLiteOptionalTensor then
       let r = FindSharedTensor p t; rc' = bump rc r (-1)
       in if at rc' r = 0 then (case plan_deallocate p (int i) r of (st, p') \<Rightarrow> (st, p', rc'))
          else (kTfLiteOk, p, rc')
     else (kTfLiteOk, p, rc))"

definition plan_node ::
    "GraphInfo \<Rightarrow> ArenaPlanner \<times> int list \<Rightarrow> nat \<Rightarrow> TfLiteStatus \<times> ArenaPlanner \<times> int list" where
  "plan_node g = (\<lambda>(p, rc) i.
     case for_status (plan_output i) p (node_outputs (nodes g ! i)) of
       (st, p1) \<Rightarrow>
         if st \<noteq> kTfLiteOk then (st, p1, rc)
         else if preserve_all_tensors p1 then (kTfLiteOk, p1, rc)
         else for_status (plan_use i) (p1, rc) (node_inputs (nodes g ! i)))"

definition all_node_inputs :: "GraphInfo \<Rightarrow> int list" where
  "all_node_inputs g = concat (map node_inputs (nodes g))"

definition PlanAllocations :: "ArenaPlanner \<Rightarrow> GraphInfo \<Rightarrow> TfLiteStatus \<times> ArenaPlanner" where
  "PlanAllocations p g =
     ensure_status (ResetAllocations p g) (\<lambda>p0.
     let n = num_tensors g;
         p1 = p0\<lparr>alloc_node := replicate n kNodeNotAssigned,
                 dealloc_node := replicate n kNodeNotAssigned,
                 nodes_to_tensors := replicate (max (num_execution_nodes g) 1) [],
                 refcounts := replicate n 0\<rparr>;
         p2 = p1\<lparr>refcounts := count_refs (\<lambda>t. t) (refcounts p1) (graph_outputs g)\<rparr>
     in ensure_status (for_status plan_variable p2 (graph_variables g)) (\<lambda>p3.
        ensure_status (for_status plan_input p3 (graph_inputs g)) (\<lambda>p4.
        let rc = refcounts p4;
            p5 = p4\<lparr>refcounts := count_refs (\<lambda>t. t) (refcounts p4) (all_node_inputs g)\<rparr>;
            p6 = IdentifyInPlaceTensors p5 g;
            rc' = count_refs (FindSharedTensor p6) rc (all_node_inputs g)
        in (case for_status (plan_node g) (p6, rc') [0..<num_execution_nodes g] of
              (st, p7, _) \<Rightarrow> (st, p7)))))"

section \<open>Placing the tensors\<close>

definition whole_run :: "ArenaPlanner \<Rightarrow> int \<Rightarrow> bool" where
  "whole_run p t \<longleftrightarrow> at (alloc_node p) t = 0 \<and> at (dealloc_node p) t = kNodeNotAssigned"

definition tensor_compare :: "ArenaPlanner \<Rightarrow> GraphInfo \<Rightarrow> int \<Rightarrow> int \<Rightarrow> bool" where
  "tensor_compare p g idx1 idx2 =
     (if whole_run p idx1 then (if whole_run p idx2 then idx1 < idx2 else True)
      else if whole_run p idx2 then False
      else let size1 = bytes (at (tensors g) idx1); size2 = bytes (at (tensors g) idx2)
           in if size1 \<noteq> size2 then size1 > size2
              else at (alloc_node p) idx1 < at (alloc_node p) idx2)"

text \<open>\<open>std_sort\<close> is \<open>std::sort\<close> on tensor indices, a parameter with the comparator as argument.\<close>

definition CreateTensorAllocationVector ::
    "((int \<Rightarrow> int \<Rightarrow> bool) \<Rightarrow> int list \<Rightarrow> int list) \<Rightarrow> ArenaPlanner \<Rightarrow> GraphInfo \<Rightarrow> int list \<Rightarrow> int list" where
  "CreateTensorAllocationVector std_sort p g ts = std_sort (tensor_compare p g) ts"

definition GetTensorsToAllocate :: "ArenaPlanner \<Rightarrow> int \<Rightarrow> int \<Rightarrow> int list" where
  "GetTensorsToAllocate p fst_node lst_node =
     concat (map (\<lambda>i. at (nodes_to_tensors p) i) [fst_node..lst_node])"

text \<open>Which of the tensors the first loop of \<open>CalculateAllocations\<close> keeps.\<close>

definition needs_allocation :: "ArenaPlanner \<Rightarrow> GraphInfo \<Rightarrow> int \<Rightarrow> bool" where
  "needs_allocation p g t =
     (if allocation_type (at (tensors g) t) = kTfLiteArenaRw
      then alloc_size (at (allocs p) t) < bytes (at (tensors g) t)
      else allocation_type (at (tensors g) t) = kTfLiteArenaRwPersistent)"

text \<open>The last part of the loop body: allocation of a tensor that owns its buffer.\<close>

definition allocate_owned :: "GraphInfo \<Rightarrow> ArenaPlanner \<Rightarrow> int \<Rightarrow> TfLiteStatus \<times> ArenaPlanner" where
  "allocate_owned g p t =
     (let tns = at (tensors g) t in
      ensure_status
        (if allocation_type tns = kTfLiteArenaRw then
           (case Allocate (arena p) (word_of_int (tensor_alignment p)) (bytes tns) t
                   (at (alloc_node p) t) (at (dealloc_node p) t) (Some (at (allocs p) t)) of
              (st, m, na) \<Rightarrow> (st, p\<lparr>arena := m, allocs := (allocs p)[nat t := the na]\<rparr>))
         else (kTfLiteOk, p))
        (\<lambda>p1.
          if allocation_type tns = kTfLiteArenaRwPersistent \<and> alloc_size (at (allocs p1) t) = 0 \<and>
             alloc_size (at (allocs p1) t) < bytes tns then
            (case Allocate (persistent_arena p1) (word_of_int (tensor_alignment p1)) (bytes tns) t
                    (at (alloc_node p1) t) int32_max (Some (at (allocs p1) t)) of
               (st, m, na) \<Rightarrow> (st, p1\<lparr>persistent_arena := m, allocs := (allocs p1)[nat t := the na]\<rparr>))
          else (kTfLiteOk, p1)))"

definition allocate_tensor :: "GraphInfo \<Rightarrow> ArenaPlanner \<Rightarrow> int \<Rightarrow> TfLiteStatus \<times> ArenaPlanner" where
  "allocate_tensor g p t =
     (case actual_tensor_id p t of
        Some root \<Rightarrow>
          if allocation_type (at (tensors g) root) \<noteq> kTfLiteArenaRw \<or>
             bytes (at (tensors g) root) \<noteq> bytes (at (tensors g) t)
          then allocate_owned g (p\<lparr>actual_tensor_id := (actual_tensor_id p)(t := None)\<rparr>) t
          else (kTfLiteOk, p)
      | None \<Rightarrow> allocate_owned g p t)"

definition CalculateAllocations ::
    "((int \<Rightarrow> int \<Rightarrow> bool) \<Rightarrow> int list \<Rightarrow> int list) \<Rightarrow> GraphInfo \<Rightarrow> ArenaPlanner \<Rightarrow> int \<Rightarrow> int \<Rightarrow>
     TfLiteStatus \<times> ArenaPlanner \<times> int list" where
  "CalculateAllocations std_sort g p fst_node lst_node =
     (let kept = filter (needs_allocation p g) (GetTensorsToAllocate p fst_node lst_node)
      in if kept = [] then (kTfLiteOk, p\<lparr>last_active_node := lst_node\<rparr>, kept)
         else
           let p1 = (if fst_node < last_active_node p
                     then p\<lparr>arena := ResetAllocs (arena p), last_active_node := fst_node\<rparr>
                     else p\<lparr>arena := PurgeActiveAllocs (arena p) fst_node\<rparr>);
               ts = CreateTensorAllocationVector std_sort p1 g kept
           in (case for_status (allocate_tensor g) p1 ts of
                 (st, p2) \<Rightarrow> (st, if st = kTfLiteOk then p2\<lparr>last_active_node := lst_node\<rparr> else p2, ts)))"

definition AreTensorsAllocatedInSameArena :: "int \<Rightarrow> int \<Rightarrow> TfLiteTensor list \<Rightarrow> bool" where
  "AreTensorsAllocatedInSameArena root_tensor_index tensor_index ts \<longleftrightarrow>
     (allocation_type (at ts root_tensor_index) = kTfLiteArenaRw \<and>
      allocation_type (at ts tensor_index) = kTfLiteArenaRw) \<or>
     (allocation_type (at ts root_tensor_index) = kTfLiteArenaRwPersistent \<and>
      allocation_type (at ts tensor_index) = kTfLiteArenaRwPersistent)"

definition set_data :: "TfLiteTensor list \<Rightarrow> int \<Rightarrow> ptr \<Rightarrow> TfLiteTensor list" where
  "set_data ts t q = ts[nat t := (at ts t)\<lparr>data_ptr := q\<rparr>]"

text \<open>Resolution of a tensor that does not share another tensor's buffer.\<close>

definition resolve_own :: "ArenaPlanner \<Rightarrow> TfLiteTensor list \<Rightarrow> int \<Rightarrow> TfLiteStatus \<times> TfLiteTensor list" where
  "resolve_own p ts t =
     (let tns = at ts t; a = at (allocs p) t
      in if allocation_type tns = kTfLiteArenaRw \<and> alloc_size a \<noteq> 0 then
           (case ResolveAlloc (arena p) a (Some (data_ptr tns)) of (st, q) \<Rightarrow> (st, set_data ts t (the q)))
         else if allocation_type tns = kTfLiteArenaRwPersistent then
           (case ResolveAlloc (persistent_arena p) a (Some (data_ptr tns)) of
              (st, q) \<Rightarrow> (st, set_data ts t (the q)))
         else (kTfLiteOk, ts))"

text \<open>The recursion follows the sharing map and is not bounded by the code; \<open>None\<close> is non-termination.\<close>

partial_function (option) ResolveTensorAllocation ::
    "ArenaPlanner \<Rightarrow> TfLiteTensor list \<Rightarrow> int \<Rightarrow> (TfLiteStatus \<times> TfLiteTensor list) option" where
  "ResolveTensorAllocation p ts t =
     (let root = FindSharedTensor p t
      in if root \<noteq> t \<and> AreTensorsAllocatedInSameArena root t ts then
           Option.bind (ResolveTensorAllocation p ts root)
             (\<lambda>(_, ts'). Some (kTfLiteOk, set_data ts' t (data_ptr (at ts' root))))
         else Some (resolve_own p ts t))"

section \<open>Executing the plan\<close>

definition plan_temporary :: "nat \<Rightarrow> ArenaPlanner \<Rightarrow> int \<Rightarrow> ArenaPlanner" where
  "plan_temporary i p t =
     (let p1 = queue_tensor (p\<lparr>alloc_node := (alloc_node p)[nat t := int i]\<rparr>) i t
      in if preserve_all_tensors p1 then p1
         else p1\<lparr>dealloc_node := (dealloc_node p1)[nat t := int i]\<rparr>)"

text \<open>
  The loop counter is unsigned and is compared with the last node cast to \<open>size_t\<close>, so a negative
  last node bounds nothing and a negative first node is past every node.
\<close>

definition plan_temporaries :: "GraphInfo \<Rightarrow> int \<Rightarrow> int \<Rightarrow> ArenaPlanner \<Rightarrow> ArenaPlanner" where
  "plan_temporaries g fst_node lst_node p =
     foldl (\<lambda>p i. foldl (plan_temporary i) p (node_temporaries (nodes g ! i))) p
       (if fst_node < 0 then []
        else filter (\<lambda>i. lst_node < 0 \<or> int i \<le> lst_node) [nat fst_node..<num_execution_nodes g])"

definition resize_list :: "nat \<Rightarrow> 'a \<Rightarrow> 'a list \<Rightarrow> 'a list" where
  "resize_list n d xs = take n xs @ replicate (n - length xs) d"

text \<open>\<open>ArenaPlanner::Commit\<close>: both arenas, in order; \<open>True\<close> when one of the buffers moved.\<close>

definition CommitArenas ::
    "platform \<Rightarrow> heap \<Rightarrow> ArenaPlanner \<Rightarrow> bool \<Rightarrow> TfLiteStatus \<times> bool \<times> ArenaPlanner \<times> heap" where
  "CommitArenas P h p reallocated =
     (case Commit P h (arena p) (Some False) of
        (st, re, m, h1) \<Rightarrow>
          let p1 = p\<lparr>arena := m\<rparr>
          in if st \<noteq> kTfLiteOk then (st, reallocated, p1, h1)
             else
               let p2 = p1\<lparr>has_nonpersistent_memory := True\<rparr>
               in (case Commit P h1 (persistent_arena p2) (Some False) of
                     (st2, re2, m2, h2) \<Rightarrow>
                       let p3 = p2\<lparr>persistent_arena := m2\<rparr>
                       in if st2 \<noteq> kTfLiteOk then (st2, reallocated, p3, h2)
                          else (kTfLiteOk, the re \<or> the re2, p3, h2)))"

text \<open>Resolving a list of tensors, stopping at the first status that is not ok.\<close>

fun resolve_all ::
    "ArenaPlanner \<Rightarrow> TfLiteTensor list \<Rightarrow> int list \<Rightarrow> (TfLiteStatus \<times> TfLiteTensor list) option" where
  "resolve_all p ts [] = Some (kTfLiteOk, ts)"
| "resolve_all p ts (t # rest) =
     (case ResolveTensorAllocation p ts t of
        None \<Rightarrow> None
      | Some (st, ts') \<Rightarrow> if st \<noteq> kTfLiteOk then Some (st, ts') else resolve_all p ts' rest)"

definition ExecuteAllocations ::
    "((int \<Rightarrow> int \<Rightarrow> bool) \<Rightarrow> int list \<Rightarrow> int list) \<Rightarrow> platform \<Rightarrow> heap \<Rightarrow> ArenaPlanner \<Rightarrow> GraphInfo \<Rightarrow>
     int \<Rightarrow> int \<Rightarrow> (TfLiteStatus \<times> ArenaPlanner \<times> GraphInfo \<times> heap) option" where
  "ExecuteAllocations std_sort P h p g fst_node lst_node =
     (if \<not> num_tensors g \<ge> length (allocs p) then Some (kTfLiteError, p, g, h)
      else
        let n = num_tensors g;
            p1 = p\<lparr>alloc_node := resize_list n kNodeNotAssigned (alloc_node p),
                   dealloc_node := resize_list n kNodeNotAssigned (dealloc_node p),
                   allocs := resize_list n alloc_reset (allocs p)\<rparr>;
            p2 = plan_temporaries g fst_node lst_node p1
        in (case CalculateAllocations std_sort g p2 fst_node lst_node of
              (st, p3, tensors_allocated) \<Rightarrow>
                if st \<noteq> kTfLiteOk then Some (st, p3, g, h)
                else (case CommitArenas P h p3 False of
                        (st2, arena_reallocated, p4, h') \<Rightarrow>
                          if st2 \<noteq> kTfLiteOk then Some (st2, p4, g, h')
                          else
                            let todo = (if arena_reallocated then map int [0..<n] else tensors_allocated)
                            in map_option (\<lambda>(st3, ts). (st3, p4, g\<lparr>tensors := ts\<rparr>, h'))
                                 (resolve_all p4 (tensors g) todo))))"

definition clear_rw_data :: "TfLiteTensor list \<Rightarrow> TfLiteTensor list" where
  "clear_rw_data ts =
     map (\<lambda>t. if allocation_type t = kTfLiteArenaRw then t\<lparr>data_ptr := nullptr\<rparr> else t) ts"

definition ReleaseNonPersistentMemory ::
    "heap \<Rightarrow> ArenaPlanner \<Rightarrow> GraphInfo \<Rightarrow> TfLiteStatus \<times> ArenaPlanner \<times> GraphInfo \<times> heap" where
  "ReleaseNonPersistentMemory h p g =
     (case ReleaseBuffer h (arena p) of
        (st, m, h') \<Rightarrow>
          if st \<noteq> kTfLiteOk then (st, p\<lparr>arena := m\<rparr>, g, h')
          else (kTfLiteOk, p\<lparr>arena := m, has_nonpersistent_memory := False\<rparr>,
                g\<lparr>tensors := clear_rw_data (tensors g)\<rparr>, h'))"

definition AcquireNonPersistentMemory ::
    "platform \<Rightarrow> heap \<Rightarrow> ArenaPlanner \<Rightarrow> GraphInfo \<Rightarrow>
     (TfLiteStatus \<times> ArenaPlanner \<times> GraphInfo \<times> heap) option" where
  "AcquireNonPersistentMemory P h p g =
     (case Commit P h (arena p) (Some False) of
        (st, re, m, h') \<Rightarrow>
          if st \<noteq> kTfLiteOk then Some (st, p\<lparr>arena := m\<rparr>, g, h')
          else
            let p1 = p\<lparr>arena := m, has_nonpersistent_memory := True\<rparr>;
                todo = filter (\<lambda>t. allocation_type (at (tensors g) t) = kTfLiteArenaRw)
                         (map int [0..<num_tensors g])
            in map_option (\<lambda>(st2, ts). (st2, p1, g\<lparr>tensors := ts\<rparr>, h')) (resolve_all p1 (tensors g) todo))"

definition HasNonPersistentMemory :: "ArenaPlanner \<Rightarrow> bool" where
  "HasNonPersistentMemory p = has_nonpersistent_memory p"

definition GetAllocInfo :: "ArenaPlanner \<Rightarrow> size_t \<times> size_t" where
  "GetAllocInfo p = (GetBufferSize (arena p), GetBufferSize (persistent_arena p))"

definition planner_BasePointer :: "ArenaPlanner \<Rightarrow> TfLiteAllocationType \<Rightarrow> ptr" where
  "planner_BasePointer p ty =
     (if ty = kTfLiteArenaRwPersistent then BasePointer (persistent_arena p)
      else if ty = kTfLiteArenaRw then BasePointer (arena p)
      else 0)"

end
