(* ===== verification/PlanCorrect.thy ===== *)
theory PlanCorrect
  imports ArenaPlanner
begin

text \<open>
  Correctness of \<open>PlanAllocations\<close> (\<^verbatim>\<open>src/tflite/arena_planner.cc\<close>): reference counts,
  the roots of shared buffers, the invariant of the pass over the nodes, the queues of tensors to allocate and the
  shape of the sharing map, followed by the properties of planning.
\<close>

unbundle bit_operations_syntax

section \<open>Planning is correct\<close>

subsection \<open>Reference counts\<close>

definition refs :: "(int \<Rightarrow> int) \<Rightarrow> int \<Rightarrow> int list \<Rightarrow> nat" where
  "refs root r ts = length (filter (\<lambda>t. t \<noteq> kTfLiteOptionalTensor \<and> root t = r) ts)"

lemma refs_simps [simp]:
  "refs root r [] = 0"
  "refs root r (t # ts) = (if t \<noteq> kTfLiteOptionalTensor \<and> root t = r then Suc (refs root r ts) else refs root r ts)"
  "refs root r (ts @ us) = refs root r ts + refs root r us"
  by (simp_all add: refs_def)

lemma refs_zero: "refs root r ts = 0 \<Longrightarrow> t \<in> set ts \<Longrightarrow> t \<noteq> kTfLiteOptionalTensor \<Longrightarrow> root t \<noteq> r"
  by (auto simp: refs_def filter_empty_conv)

lemma length_bump [simp]: "length (bump rc t d) = length rc"
  by (simp add: bump_def)

lemma bump_at:
  "0 \<le> t \<Longrightarrow> nat t < length rc \<Longrightarrow> 0 \<le> r \<Longrightarrow> at (bump rc t d) r = at rc r + (if t = r then d else 0)"
  by (auto simp: bump_def nth_list_update)

lemma length_count_refs [simp]: "length (count_refs root rc ts) = length rc"
  unfolding count_refs_def by (induction ts arbitrary: rc) auto

lemma count_refs_at:
  assumes "\<And>t. t \<in> set ts \<Longrightarrow> t \<noteq> kTfLiteOptionalTensor \<Longrightarrow> 0 \<le> root t \<and> nat (root t) < length rc"
    and "0 \<le> r"
  shows "at (count_refs root rc ts) r = at rc r + int (refs root r ts)"
  using assms(1) unfolding count_refs_def
proof (induction ts arbitrary: rc)
  case (Cons t ts)
  show ?case
    using Cons.IH [of "if t \<noteq> kTfLiteOptionalTensor then bump rc (root t) 1 else rc"] Cons.prems assms(2)
    by (auto simp: bump_at)
qed simp

subsection \<open>The root of a tensor\<close>

lemma find_shared_input_mem:
  "find_shared_input p g ip o' ch i ts \<noteq> -1 \<Longrightarrow>
   find_shared_input p g ip o' ch i ts \<in> set ts \<and> find_shared_input p g ip o' ch i ts \<noteq> kTfLiteOptionalTensor"
  by (induction ts arbitrary: i) (auto split: if_splits)

lemma identify_one_cases:
  obtains "identify_one g p n = p"
  | t where "t \<in> set (node_inputs n)" "t \<noteq> kTfLiteOptionalTensor" "node_outputs n \<noteq> []" "inplace_operator n \<noteq> 0"
      "identify_one g p n =
        p\<lparr>actual_tensor_id := (actual_tensor_id p)(hd (node_outputs n) \<mapsto> FindSharedTensor p t)\<rparr>"
proof -
  define ch where "ch \<longleftrightarrow> inplace_operator n AND kTfLiteInplaceOpDataUnmodified = 0"
  define t where "t = find_shared_input p g (inplace_operator n) (hd (node_outputs n)) ch 0
      (take kTfLiteMaxSharableOpInputs (node_inputs n))"
  define upd where "upd \<longleftrightarrow> node_outputs n \<noteq> [] \<and> inplace_operator n \<noteq> 0 \<and> t \<noteq> -1 \<and>
    \<not> (ch \<and> at (refcounts p) (FindSharedTensor p t) > 1)"
  have eq: "identify_one g p n = (if upd then
      p\<lparr>actual_tensor_id := (actual_tensor_id p)(hd (node_outputs n) \<mapsto> FindSharedTensor p t)\<rparr> else p)"
    unfolding identify_one_def Let_def ch_def [symmetric] t_def [symmetric] by (simp add: upd_def)
  show thesis
  proof (cases upd)
    case True
    then have "t \<in> set (node_inputs n) \<and> t \<noteq> kTfLiteOptionalTensor"
      using find_shared_input_mem [of p g] set_take_subset [of kTfLiteMaxSharableOpInputs "node_inputs n"]
      unfolding upd_def t_def by blast
    then show ?thesis using True eq that(2) [of t] by (simp add: upd_def)
  qed (use eq that(1) in simp)
qed

lemma identify_one_frame: "\<exists>m. identify_one g p n = p\<lparr>actual_tensor_id := m\<rparr>"
proof (cases rule: identify_one_cases [of g p n])
  case 1
  then have "identify_one g p n = p\<lparr>actual_tensor_id := actual_tensor_id p\<rparr>" by simp
  then show ?thesis by blast
next
  case (2 t)
  then show ?thesis by blast
qed

lemma IdentifyInPlaceTensors_frame:
  "\<exists>m. IdentifyInPlaceTensors p g = p\<lparr>actual_tensor_id := m\<rparr>"
proof -
  have "\<exists>m. foldl (identify_one g) (p\<lparr>actual_tensor_id := m0\<rparr>) ns = p\<lparr>actual_tensor_id := m\<rparr>" for m0 ns
  proof (induction ns arbitrary: m0)
    case Nil
    then show ?case by auto
  next
    case (Cons n ns)
    obtain m1 where "identify_one g (p\<lparr>actual_tensor_id := m0\<rparr>) n = p\<lparr>actual_tensor_id := m1\<rparr>"
      using identify_one_frame [of g "p\<lparr>actual_tensor_id := m0\<rparr>" n] by auto
    then show ?case using Cons.IH [of m1] by simp
  qed
  then show ?thesis by (simp add: IdentifyInPlaceTensors_def)
qed

definition roots_valid :: "GraphInfo \<Rightarrow> ArenaPlanner \<Rightarrow> bool" where
  "roots_valid g p \<longleftrightarrow> (\<forall>t r. actual_tensor_id p t = Some r \<longrightarrow> valid_tensor g t \<and> valid_tensor g r)"

lemma FindSharedTensor_valid: "roots_valid g p \<Longrightarrow> valid_tensor g t \<Longrightarrow> valid_tensor g (FindSharedTensor p t)"
  by (auto simp: FindSharedTensor_def roots_valid_def split: option.splits)

lemma identify_one_valid:
  assumes "roots_valid g p" "node_ok g n"
  shows "roots_valid g (identify_one g p n)"
proof (cases rule: identify_one_cases [of g p n])
  case 1
  then show ?thesis using assms(1) by simp
next
  case (2 t)
  then have "valid_tensor g t" "valid_tensor g (hd (node_outputs n))"
    using assms(2) by (auto simp: node_ok_def list_all_iff intro: opt_tensor_valid)
  then show ?thesis
    using assms(1) 2(5) FindSharedTensor_valid [OF assms(1)] by (simp add: roots_valid_def)
qed

lemma IdentifyInPlaceTensors_valid:
  assumes "graph_ok g" shows "roots_valid g (IdentifyInPlaceTensors p g)"
proof -
  have fold: "roots_valid g q \<Longrightarrow> \<forall>n \<in> set ns. node_ok g n \<Longrightarrow> roots_valid g (foldl (identify_one g) q ns)"
    for q ns
  proof (induction ns arbitrary: q)
    case (Cons n ns)
    then show ?case using identify_one_valid [of g q n] by simp
  qed simp
  have "roots_valid g (p\<lparr>actual_tensor_id := Map.empty\<rparr>)" by (simp add: roots_valid_def)
  moreover have "\<forall>n \<in> set (nodes g). node_ok g n" using assms by (simp add: graph_ok_def list_all_iff)
  ultimately show ?thesis unfolding IdentifyInPlaceTensors_def by (rule fold)
qed

subsection \<open>Queueing the graph inputs and variables\<close>

definition same_memory :: "ArenaPlanner \<Rightarrow> ArenaPlanner \<Rightarrow> bool" where
  "same_memory p p' \<longleftrightarrow> allocs p' = allocs p \<and> arena p' = arena p \<and> persistent_arena p' = persistent_arena p \<and>
     preserve_all_tensors p' = preserve_all_tensors p \<and> tensor_alignment p' = tensor_alignment p \<and>
     last_active_node p' = last_active_node p \<and> length (nodes_to_tensors p') = length (nodes_to_tensors p)"

lemma same_memory_trans: "same_memory p q \<Longrightarrow> same_memory q r \<Longrightarrow> same_memory p r"
  by (simp add: same_memory_def)

lemma same_memory_refl [simp]: "same_memory p p"
  by (simp add: same_memory_def)

lemma queue_tensor_simps [simp]:
  "alloc_node (queue_tensor p i t) = alloc_node p" "dealloc_node (queue_tensor p i t) = dealloc_node p"
  "refcounts (queue_tensor p i t) = refcounts p" "actual_tensor_id (queue_tensor p i t) = actual_tensor_id p"
  "preserve_all_tensors (queue_tensor p i t) = preserve_all_tensors p"
  "arena (queue_tensor p i t) = arena p" "persistent_arena (queue_tensor p i t) = persistent_arena p"
  "same_memory p' (queue_tensor p i t) = same_memory p' p"
  by (simp_all add: queue_tensor_def same_memory_def)

text \<open>Allocation times only move from unassigned to the current node.\<close>

definition queue_inv :: "GraphInfo \<Rightarrow> ArenaPlanner \<Rightarrow> bool" where
  "queue_inv g p \<longleftrightarrow> length (alloc_node p) = num_tensors g \<and> length (refcounts p) = num_tensors g \<and>
     dealloc_node p = replicate (num_tensors g) kNodeNotAssigned \<and>
     (\<forall>r. valid_tensor g r \<longrightarrow> at (alloc_node p) r = kNodeNotAssigned \<or> at (alloc_node p) r = 0)"

lemma dealloc_replicate: "valid_tensor g t \<Longrightarrow> at (replicate (num_tensors g) x) t = x"
  by (simp add: valid_tensor_def)

lemma plan_variable_eq: "t \<noteq> kTfLiteOptionalTensor \<Longrightarrow> plan_variable p t = plan_input p t"
  by (simp add: plan_variable_def plan_input_def Let_def)

lemma plan_input_ok:
  assumes "queue_inv g p" "opt_tensor g t"
  shows "\<exists>p'. plan_input p t = (kTfLiteOk, p') \<and> queue_inv g p' \<and> same_memory p p' \<and>
    (\<forall>r. 0 \<le> r \<longrightarrow> at (refcounts p') r = at (refcounts p) r + int (refs (\<lambda>t. t) r [t]))"
proof (cases "t = kTfLiteOptionalTensor")
  case True
  then show ?thesis using assms by (simp add: plan_input_def)
next
  case False
  with assms(2) have v: "valid_tensor g t" by (simp add: opt_tensor_def)
  then have d: "at (dealloc_node p) t = kNodeNotAssigned"
    using assms(1) by (simp add: queue_inv_def dealloc_replicate)
  define p1 where "p1 = p\<lparr>refcounts := bump (refcounts p) t 1\<rparr>"
  define p2 where "p2 = (if at (alloc_node p) t \<noteq> kNodeNotAssigned then p1
      else p1\<lparr>alloc_node := (alloc_node p)[nat t := 0]\<rparr>)"
  have pa: "plan_allocate p1 0 t = (kTfLiteOk, p2)"
    using d by (simp add: plan_allocate_def p1_def p2_def)
  then have "plan_input p t = (kTfLiteOk, queue_tensor p2 0 t)"
    using False by (simp add: plan_input_def p1_def)
  moreover have "queue_inv g (queue_tensor p2 0 t)"
    using assms(1) v nat_eq_valid [OF v]
    by (auto simp: queue_inv_def p2_def p1_def valid_tensor_def nth_list_update)
  moreover have "same_memory p (queue_tensor p2 0 t)"
    by (simp add: p2_def p1_def) (simp add: same_memory_def)
  moreover have "\<forall>r. 0 \<le> r \<longrightarrow> at (refcounts p2) r = at (refcounts p) r + int (refs (\<lambda>t. t) r [t])"
    using assms(1) v False by (auto simp: p2_def p1_def bump_at valid_tensor_def queue_inv_def)
  ultimately show ?thesis by simp
qed

lemma plan_inputs_ok:
  assumes "queue_inv g p" "list_all (opt_tensor g) ts"
  shows "\<exists>p'. for_status plan_input p ts = (kTfLiteOk, p') \<and> queue_inv g p' \<and> same_memory p p' \<and>
    (\<forall>r. 0 \<le> r \<longrightarrow> at (refcounts p') r = at (refcounts p) r + int (refs (\<lambda>t. t) r ts))"
  using assms
proof (induction ts arbitrary: p)
  case (Cons t ts)
  then obtain p1 where 1: "plan_input p t = (kTfLiteOk, p1)" "queue_inv g p1" "same_memory p p1"
    "\<forall>r. 0 \<le> r \<longrightarrow> at (refcounts p1) r = at (refcounts p) r + int (refs (\<lambda>t. t) r [t])"
    using plan_input_ok [of g p t] by auto
  obtain p2 where 2: "for_status plan_input p1 ts = (kTfLiteOk, p2)" "queue_inv g p2" "same_memory p1 p2"
    "\<forall>r. 0 \<le> r \<longrightarrow> at (refcounts p2) r = at (refcounts p1) r + int (refs (\<lambda>t. t) r ts)"
    using Cons.IH [OF 1(2)] Cons.prems by auto
  have "for_status plan_input p (t # ts) = (kTfLiteOk, p2)" using 1(1) 2(1) by simp
  then show ?case using 1(3,4) 2(2-4) by (auto intro: same_memory_trans)
qed simp

lemma plan_variables_eq:
  "list_all (valid_tensor g) ts \<Longrightarrow> for_status plan_variable p ts = for_status plan_input p ts"
proof (induction ts arbitrary: p)
  case (Cons t ts)
  then have "t \<noteq> kTfLiteOptionalTensor" by (auto simp: valid_tensor_def)
  with Cons show ?case by (auto simp: plan_variable_eq split: prod.splits TfLiteStatus.splits)
qed simp

subsection \<open>The pass over the nodes\<close>

text \<open>The references made by the nodes from \<open>k\<close> on.\<close>

definition refs_from :: "GraphInfo \<Rightarrow> nat \<Rightarrow> int list" where
  "refs_from g k = concat (map node_inputs (drop k (nodes g)))"

lemma refs_from_step: "k < num_execution_nodes g \<Longrightarrow> refs_from g k = node_inputs (nodes g ! k) @ refs_from g (Suc k)"
  by (simp add: refs_from_def Cons_nth_drop_Suc [symmetric])

lemma refs_from_mem: "j < i \<Longrightarrow> i < num_execution_nodes g \<Longrightarrow> t \<in> set (node_inputs (nodes g ! i)) \<Longrightarrow> t \<in> set (refs_from g (Suc j))"
proof -
  assume a: "j < i" "i < num_execution_nodes g" "t \<in> set (node_inputs (nodes g ! i))"
  then have "nodes g ! i = drop (Suc j) (nodes g) ! (i - Suc j)" "i - Suc j < length (drop (Suc j) (nodes g))"
    by auto
  then have "nodes g ! i \<in> set (drop (Suc j) (nodes g))" by (metis nth_mem)
  then show ?thesis using a(3) by (auto simp: refs_from_def)
qed

text \<open>
  \<open>E\<close> counts the references that are never dropped (graph inputs, outputs and variables),
  \<open>todo\<close> lists the node inputs still to be processed.
\<close>

definition plan_inv ::
    "GraphInfo \<Rightarrow> (int \<Rightarrow> int) \<Rightarrow> int list \<Rightarrow> nat \<Rightarrow> int list \<Rightarrow> ArenaPlanner \<times> int list \<Rightarrow> bool" where
  "plan_inv g root E k todo = (\<lambda>(p, rc).
     length (alloc_node p) = num_tensors g \<and> length (dealloc_node p) = num_tensors g \<and>
     length rc = num_tensors g \<and> FindSharedTensor p = root \<and>
     (\<forall>r. valid_tensor g r \<longrightarrow>
        (preserve_all_tensors p \<or> at rc r = at E r + int (refs root r todo)) \<and>
        (at (alloc_node p) r = kNodeNotAssigned \<or> 0 \<le> at (alloc_node p) r \<and> at (alloc_node p) r \<le> int k) \<and>
        (at (dealloc_node p) r \<noteq> kNodeNotAssigned \<longrightarrow>
           \<not> preserve_all_tensors p \<and> at rc r = 0 \<and> at (alloc_node p) r \<noteq> kNodeNotAssigned \<and>
           (\<exists>j. at (dealloc_node p) r = int j \<and> refs root r (refs_from g (Suc j)) = 0))))"

definition outputs_queued :: "GraphInfo \<Rightarrow> nat \<Rightarrow> ArenaPlanner \<Rightarrow> bool" where
  "outputs_queued g k p \<longleftrightarrow> (\<forall>i < k. \<forall>t \<in> set (node_outputs (nodes g ! i)).
     t \<noteq> kTfLiteOptionalTensor \<longrightarrow> at (alloc_node p) t \<le> int i)"

definition later_times :: "GraphInfo \<Rightarrow> ArenaPlanner \<Rightarrow> ArenaPlanner \<Rightarrow> bool" where
  "later_times g p p' \<longleftrightarrow> (\<forall>r. valid_tensor g r \<longrightarrow> at (alloc_node p') r \<le> at (alloc_node p) r)"

lemma plan_output_ok:
  assumes inv: "plan_inv g root E k todo (p, rc)" and t: "opt_tensor g t" and k: "int k < int32_max"
  shows "\<exists>p'. plan_output k p t = (kTfLiteOk, p') \<and> plan_inv g root E k todo (p', rc) \<and> same_memory p p' \<and>
    later_times g p p' \<and> (t \<noteq> kTfLiteOptionalTensor \<longrightarrow> at (alloc_node p') t \<le> int k)"
proof (cases "t = kTfLiteOptionalTensor")
  case True
  then show ?thesis using inv by (simp add: plan_output_def later_times_def)
next
  case False
  with t have v: "valid_tensor g t" by (simp add: opt_tensor_def)
  let ?q = "queue_tensor p k t"
  have fst: "FindSharedTensor ?q = FindSharedTensor p" by (auto simp: FindSharedTensor_def fun_eq_iff)
  show ?thesis
  proof (cases "at (alloc_node p) t = kNodeNotAssigned")
    case True
    then have d: "at (dealloc_node p) t = kNodeNotAssigned" using inv v by (auto simp: plan_inv_def)
    let ?p' = "?q\<lparr>alloc_node := (alloc_node p)[nat t := int k]\<rparr>"
    have e: "plan_output k p t = (kTfLiteOk, ?p')"
      using False True d by (simp add: plan_output_def plan_allocate_def)
    have a: "valid_tensor g r \<Longrightarrow> at (alloc_node ?p') r = (if r = t then int k else at (alloc_node p) r)" for r
      using inv v nat_eq_valid [OF v, of r] by (auto simp: plan_inv_def nth_list_update valid_tensor_def)
    have f': "FindSharedTensor ?p' = FindSharedTensor p" by (auto simp: FindSharedTensor_def fun_eq_iff)
    have "plan_inv g root E k todo (?p', rc)"
      unfolding plan_inv_def prod.case f'
      using inv a k d by (auto simp: plan_inv_def)
    moreover have "later_times g p ?p'" using a True k by (auto simp: later_times_def)
    moreover have "same_memory p ?p'" by (simp add: same_memory_def queue_tensor_def)
    ultimately show ?thesis using e a [OF v] by auto
  next
    case alloc: False
    then have e: "plan_output k p t = (kTfLiteOk, ?q)"
      using False by (simp add: plan_output_def plan_allocate_def)
    have "at (alloc_node p) t \<le> int k" using alloc inv v by (auto simp: plan_inv_def)
    moreover have "plan_inv g root E k todo (?q, rc)" using inv by (simp add: plan_inv_def fst)
    ultimately show ?thesis using e by (simp add: later_times_def)
  qed
qed

lemma later_times_trans: "later_times g p q \<Longrightarrow> later_times g q r \<Longrightarrow> later_times g p r"
  by (auto simp: later_times_def intro: order_trans)

lemma plan_outputs_ok:
  assumes "plan_inv g root E k todo (p, rc)" "list_all (opt_tensor g) ts" "int k < int32_max"
  shows "\<exists>p'. for_status (plan_output k) p ts = (kTfLiteOk, p') \<and> plan_inv g root E k todo (p', rc) \<and>
    same_memory p p' \<and> later_times g p p' \<and>
    (\<forall>t \<in> set ts. t \<noteq> kTfLiteOptionalTensor \<longrightarrow> at (alloc_node p') t \<le> int k)"
  using assms(1,2)
proof (induction ts arbitrary: p)
  case Nil
  then show ?case by (simp add: later_times_def)
next
  case (Cons t ts)
  obtain p1 where 1: "plan_output k p t = (kTfLiteOk, p1)" "plan_inv g root E k todo (p1, rc)"
    "same_memory p p1" "later_times g p p1" "t \<noteq> kTfLiteOptionalTensor \<longrightarrow> at (alloc_node p1) t \<le> int k"
    using plan_output_ok [OF Cons.prems(1) _ assms(3), of t] Cons.prems(2) by auto
  obtain p2 where 2: "for_status (plan_output k) p1 ts = (kTfLiteOk, p2)" "plan_inv g root E k todo (p2, rc)"
    "same_memory p1 p2" "later_times g p1 p2"
    "\<forall>t \<in> set ts. t \<noteq> kTfLiteOptionalTensor \<longrightarrow> at (alloc_node p2) t \<le> int k"
    using Cons.IH [OF 1(2)] Cons.prems(2) by auto
  have "t \<noteq> kTfLiteOptionalTensor \<longrightarrow> at (alloc_node p2) t \<le> int k"
    using 1(5) 2(4) Cons.prems(2) by (fastforce simp: later_times_def opt_tensor_def)
  moreover have "for_status (plan_output k) p (t # ts) = (kTfLiteOk, p2)" using 1(1) 2(1) by simp
  ultimately show ?case
    using 1(3,4) 2(2-5) by (auto intro: same_memory_trans later_times_trans)
qed

lemma plan_use_ok:
  assumes inv: "plan_inv g root E k (t # ts @ refs_from g (Suc k)) (p, rc)" and t: "opt_tensor g t"
    and roots: "roots_valid g p" and np: "\<not> preserve_all_tensors p" and E: "\<forall>r. valid_tensor g r \<longrightarrow> 0 \<le> at E r"
  shows "\<exists>p' rc'. plan_use k (p, rc) t = (kTfLiteOk, p', rc') \<and>
    plan_inv g root E k (ts @ refs_from g (Suc k)) (p', rc') \<and> same_memory p p' \<and>
    alloc_node p' = alloc_node p \<and> actual_tensor_id p' = actual_tensor_id p"
proof (cases "t = kTfLiteOptionalTensor")
  case True
  then show ?thesis using inv by (simp add: plan_use_def plan_inv_def)
next
  case False
  let ?todo = "ts @ refs_from g (Suc k)"
  define r where "r = root t"
  have root: "FindSharedTensor p = root" using inv by (simp add: plan_inv_def)
  have vr: "valid_tensor g r"
    using FindSharedTensor_valid [OF roots] t False root by (auto simp: r_def opt_tensor_def)
  define rc' where "rc' = bump rc r (-1)"
  have rc': "at rc' s = at rc s - (if s = r then 1 else 0)" if "valid_tensor g s" for s
    using that vr inv by (auto simp: rc'_def bump_at valid_tensor_def plan_inv_def)
  have eq': "at rc' s = at E s + int (refs root s ?todo)" if "valid_tensor g s" for s
    using rc' [OF that] inv that False np by (auto simp: plan_inv_def r_def)
  have len: "length rc' = num_tensors g" using inv by (simp add: rc'_def plan_inv_def)
  have dr: "at (dealloc_node p) r = kNodeNotAssigned"
  proof (rule ccontr)
    assume "at (dealloc_node p) r \<noteq> kNodeNotAssigned"
    then have "at rc r = 0" using inv vr by (auto simp: plan_inv_def)
    moreover have "at rc r \<ge> 1" using inv vr False np E by (auto simp: plan_inv_def r_def)
    ultimately show False by simp
  qed
  have step: "plan_inv g root E k ?todo (p, rc')"
    unfolding plan_inv_def prod.case
    using inv eq' len np dr rc' by (auto simp: plan_inv_def)
  show ?thesis
  proof (cases "at rc' r = 0 \<and> at (alloc_node p) r \<noteq> kNodeNotAssigned")
    case False
    then have "plan_use k (p, rc) t = (kTfLiteOk, p, rc')"
      using \<open>t \<noteq> kTfLiteOptionalTensor\<close> root
      by (auto simp: plan_use_def Let_def r_def [symmetric] rc'_def [symmetric] plan_deallocate_def)
    then show ?thesis using step by auto
  next
    case True
    let ?p' = "p\<lparr>dealloc_node := (dealloc_node p)[nat r := int k]\<rparr>"
    have e: "plan_use k (p, rc) t = (kTfLiteOk, ?p', rc')"
      using True \<open>t \<noteq> kTfLiteOptionalTensor\<close> root dr
      by (simp add: plan_use_def Let_def r_def [symmetric] rc'_def [symmetric] plan_deallocate_def)
    have d: "at (dealloc_node ?p') s = (if s = r then int k else at (dealloc_node p) s)" if "valid_tensor g s" for s
      using that vr inv nat_eq_valid [OF vr, of s] by (auto simp: plan_inv_def nth_list_update valid_tensor_def)
    have "refs root r (refs_from g (Suc k)) = 0" using True eq' [OF vr] E vr by auto
    moreover have f': "FindSharedTensor ?p' = FindSharedTensor p" by (auto simp: FindSharedTensor_def fun_eq_iff)
    ultimately have "plan_inv g root E k ?todo (?p', rc')"
      unfolding plan_inv_def prod.case f' using step d True np by (auto simp: plan_inv_def)
    then show ?thesis using e by (auto simp: same_memory_def)
  qed
qed

lemma plan_uses_ok:
  assumes "plan_inv g root E k (ts @ refs_from g (Suc k)) (p, rc)" "list_all (opt_tensor g) ts"
    "roots_valid g p" "\<not> preserve_all_tensors p" "\<forall>r. valid_tensor g r \<longrightarrow> 0 \<le> at E r"
  shows "\<exists>p' rc'. for_status (plan_use k) (p, rc) ts = (kTfLiteOk, p', rc') \<and>
    plan_inv g root E k (refs_from g (Suc k)) (p', rc') \<and> same_memory p p' \<and>
    alloc_node p' = alloc_node p \<and> actual_tensor_id p' = actual_tensor_id p"
  using assms(1-4)
proof (induction ts arbitrary: p rc)
  case Nil
  then show ?case by simp
next
  case (Cons t ts)
  obtain p1 rc1 where 1: "plan_use k (p, rc) t = (kTfLiteOk, p1, rc1)"
    "plan_inv g root E k (ts @ refs_from g (Suc k)) (p1, rc1)" "same_memory p p1"
    "alloc_node p1 = alloc_node p" "actual_tensor_id p1 = actual_tensor_id p"
    using plan_use_ok [of g root E k t ts p rc] Cons.prems assms(5) by auto
  have "roots_valid g p1" "\<not> preserve_all_tensors p1"
    using Cons.prems 1(3,5) by (simp_all add: roots_valid_def same_memory_def)
  then obtain p2 rc2 where 2: "for_status (plan_use k) (p1, rc1) ts = (kTfLiteOk, p2, rc2)"
    "plan_inv g root E k (refs_from g (Suc k)) (p2, rc2)" "same_memory p1 p2"
    "alloc_node p2 = alloc_node p1" "actual_tensor_id p2 = actual_tensor_id p1"
    using Cons.IH [OF 1(2)] Cons.prems(2) by auto
  have "for_status (plan_use k) (p, rc) (t # ts) = (kTfLiteOk, p2, rc2)" using 1(1) 2(1) by simp
  then show ?case using 1(3-5) 2(2-5) by (auto intro: same_memory_trans)
qed

lemma plan_inv_weaken:
  "plan_inv g root E k todo x \<Longrightarrow> plan_inv g root E (Suc k) todo x"
  by (auto simp: plan_inv_def split: prod.splits)

lemma FindSharedTensor_cong: "actual_tensor_id p' = actual_tensor_id p \<Longrightarrow> FindSharedTensor p' = FindSharedTensor p"
  by (auto simp: FindSharedTensor_def fun_eq_iff)

lemma plan_output_actual: "plan_output k p t = (st, p') \<Longrightarrow> actual_tensor_id p' = actual_tensor_id p"
  by (auto simp: plan_output_def plan_allocate_def split: if_splits)

interpretation keep_roots: status_loop "plan_output k" "\<lambda>p. actual_tensor_id p = m" "\<lambda>t. True" for k m
  by unfold_locales (auto dest: plan_output_actual)

lemma plan_node_ok:
  assumes g: "graph_ok g" and k: "k < num_execution_nodes g" and E: "\<forall>r. valid_tensor g r \<longrightarrow> 0 \<le> at E r"
    and inv: "plan_inv g root E k (refs_from g k) (p, rc)" and q: "outputs_queued g k p" and roots: "roots_valid g p"
  shows "\<exists>p' rc'. plan_node g (p, rc) k = (kTfLiteOk, p', rc') \<and>
    plan_inv g root E (Suc k) (refs_from g (Suc k)) (p', rc') \<and> outputs_queued g (Suc k) p' \<and>
    roots_valid g p' \<and> same_memory p p'"
proof -
  have n: "node_ok g (nodes g ! k)" using g k by (rule graph_ok_node)
  have k32: "int k < int32_max" using g k by (simp add: graph_ok_def)
  obtain p1 where 1: "for_status (plan_output k) p (node_outputs (nodes g ! k)) = (kTfLiteOk, p1)"
    "plan_inv g root E k (refs_from g k) (p1, rc)" "same_memory p p1" "later_times g p p1"
    "\<forall>t \<in> set (node_outputs (nodes g ! k)). t \<noteq> kTfLiteOptionalTensor \<longrightarrow> at (alloc_node p1) t \<le> int k"
    using plan_outputs_ok [OF inv _ k32] n by (auto simp: node_ok_def)
  have a1: "actual_tensor_id p1 = actual_tensor_id p"
    by (rule keep_roots.loop_inv [OF refl _ 1(1)]) (simp add: list_all_iff)
  then have r1: "roots_valid g p1" using roots by (simp add: roots_valid_def)
  have old: "at (alloc_node p1) t \<le> int i"
    if "i < k" "t \<in> set (node_outputs (nodes g ! i))" "t \<noteq> kTfLiteOptionalTensor" for i t
  proof -
    have "node_ok g (nodes g ! i)" using g k that(1) by (auto intro: graph_ok_node)
    then have "valid_tensor g t" using that by (auto simp: node_ok_def list_all_iff opt_tensor_def)
    then have "at (alloc_node p1) t \<le> at (alloc_node p) t" using 1(4) by (simp add: later_times_def)
    also have "\<dots> \<le> int i" using q that by (auto simp: outputs_queued_def)
    finally show ?thesis .
  qed
  have q1: "outputs_queued g (Suc k) p1" using old 1(5) by (auto simp: outputs_queued_def less_Suc_eq)
  show ?thesis
  proof (cases "preserve_all_tensors p1")
    case True
    then have "plan_node g (p, rc) k = (kTfLiteOk, p1, rc)" using 1(1) by (simp add: plan_node_def)
    moreover have "plan_inv g root E k (refs_from g (Suc k)) (p1, rc)"
      using 1(2) True by (auto simp: plan_inv_def)
    ultimately show ?thesis using q1 r1 1(3) by (auto intro: plan_inv_weaken)
  next
    case False
    have "plan_inv g root E k (node_inputs (nodes g ! k) @ refs_from g (Suc k)) (p1, rc)"
      using 1(2) k by (simp add: refs_from_step)
    from plan_uses_ok [OF this _ r1 False E] n obtain p2 rc2 where
      2: "for_status (plan_use k) (p1, rc) (node_inputs (nodes g ! k)) = (kTfLiteOk, p2, rc2)"
      "plan_inv g root E k (refs_from g (Suc k)) (p2, rc2)" "same_memory p1 p2"
      "alloc_node p2 = alloc_node p1" "actual_tensor_id p2 = actual_tensor_id p1"
      by (auto simp: node_ok_def)
    have "plan_node g (p, rc) k = (kTfLiteOk, p2, rc2)" using 1(1) 2(1) False by (simp add: plan_node_def)
    moreover have "outputs_queued g (Suc k) p2" using q1 2(4) by (simp add: outputs_queued_def)
    moreover have "roots_valid g p2" using r1 2(5) by (simp add: roots_valid_def)
    ultimately show ?thesis using 2(2,3) 1(3) by (auto intro: plan_inv_weaken same_memory_trans)
  qed
qed

lemma plan_nodes_ok:
  assumes g: "graph_ok g" and E: "\<forall>r. valid_tensor g r \<longrightarrow> 0 \<le> at E r"
    and inv: "plan_inv g root E 0 (refs_from g 0) (p, rc)" and roots: "roots_valid g p"
    and k: "k \<le> num_execution_nodes g"
  shows "\<exists>p' rc'. for_status (plan_node g) (p, rc) [0..<k] = (kTfLiteOk, p', rc') \<and>
    plan_inv g root E k (refs_from g k) (p', rc') \<and> outputs_queued g k p' \<and> roots_valid g p' \<and> same_memory p p'"
  using k
proof (induction k)
  case 0
  then show ?case using inv roots by (simp add: outputs_queued_def)
next
  case (Suc k)
  then obtain p1 rc1 where 1: "for_status (plan_node g) (p, rc) [0..<k] = (kTfLiteOk, p1, rc1)"
    "plan_inv g root E k (refs_from g k) (p1, rc1)" "outputs_queued g k p1" "roots_valid g p1" "same_memory p p1"
    by auto
  obtain p2 rc2 where 2: "plan_node g (p1, rc1) k = (kTfLiteOk, p2, rc2)"
    "plan_inv g root E (Suc k) (refs_from g (Suc k)) (p2, rc2)" "outputs_queued g (Suc k) p2"
    "roots_valid g p2" "same_memory p1 p2"
    using plan_node_ok [OF g _ E 1(2,3,4)] Suc.prems by auto
  have "for_status (plan_node g) (p, rc) ([0..<k] @ [k]) = (kTfLiteOk, p2, rc2)"
    using 1(1) 2(1) by (simp only: for_status_append_Ok) auto
  then show ?case using 1(5) 2(2-5) by (auto intro: same_memory_trans)
qed

subsection \<open>The whole plan\<close>

text \<open>The references that the graph itself holds: its outputs, variables and inputs.\<close>

definition graph_refs :: "GraphInfo \<Rightarrow> int \<Rightarrow> nat" where
  "graph_refs g r = refs (\<lambda>t. t) r (graph_outputs g @ graph_variables g @ graph_inputs g)"

lemma graph_refs_pos:
  "r \<in> set (graph_outputs g) \<union> set (graph_variables g) \<union> set (graph_inputs g) \<Longrightarrow> 0 \<le> r \<Longrightarrow> 0 < graph_refs g r"
  by (auto simp: graph_refs_def refs_def filter_empty_conv)

lemma ResetAllocations_Ok:
  "ResetAllocations p g = (kTfLiteOk,
     p\<lparr>arena := snd (ClearPlan (arena p)), persistent_arena := snd (ClearPlan (persistent_arena p)),
       allocs := replicate (num_tensors g) alloc_reset, last_active_node := kLastActiveNodeUndefined\<rparr>)"
  by (simp add: ResetAllocations_def ClearPlan_def)

lemma same_memory_more:
  "same_memory p (q\<lparr>refcounts := rc\<rparr>) = same_memory p q"
  "same_memory p (q\<lparr>actual_tensor_id := m\<rparr>) = same_memory p q"
  "same_memory (p\<lparr>refcounts := rc\<rparr>) q = same_memory p q"
  by (simp_all add: same_memory_def)

lemma refs_from_0: "refs_from g 0 = all_node_inputs g"
  by (simp add: refs_from_def all_node_inputs_def)

lemma graph_ok_inputs:
  assumes "graph_ok g" "t \<in> set (all_node_inputs g)" "t \<noteq> kTfLiteOptionalTensor"
  shows "valid_tensor g t"
  using assms by (auto simp: graph_ok_def all_node_inputs_def node_ok_def list_all_iff opt_tensor_def)

definition planned :: "GraphInfo \<Rightarrow> ArenaPlanner \<Rightarrow> ArenaPlanner \<Rightarrow> bool" where
  "planned g p p' \<longleftrightarrow>
     (\<exists>rc E. plan_inv g (FindSharedTensor p') E (num_execution_nodes g) [] (p', rc) \<and>
        (\<forall>r. valid_tensor g r \<longrightarrow> at E r = int (graph_refs g r))) \<and>
     outputs_queued g (num_execution_nodes g) p' \<and> roots_valid g p' \<and>
     allocs p' = replicate (num_tensors g) alloc_reset \<and>
     active_allocs (arena p') = [] \<and> active_allocs (persistent_arena p') = [] \<and>
     preserve_all_tensors p' = preserve_all_tensors p \<and> tensor_alignment p' = tensor_alignment p \<and>
     last_active_node p' = kLastActiveNodeUndefined \<and>
     length (nodes_to_tensors p') = max (num_execution_nodes g) 1"

lemma PlanAllocations_planned:
  assumes g: "graph_ok g"
  shows "\<exists>p'. PlanAllocations p g = (kTfLiteOk, p') \<and> planned g p p'"
proof -
  define n where "n = num_tensors g"
  define p0 where "p0 = p\<lparr>arena := snd (ClearPlan (arena p)), persistent_arena := snd (ClearPlan (persistent_arena p)),
       allocs := replicate n alloc_reset, last_active_node := kLastActiveNodeUndefined\<rparr>"
  define p1 where "p1 = p0\<lparr>alloc_node := replicate n kNodeNotAssigned, dealloc_node := replicate n kNodeNotAssigned,
       nodes_to_tensors := replicate (max (num_execution_nodes g) 1) [], refcounts := replicate n 0\<rparr>"
  define p2 where "p2 = p1\<lparr>refcounts := count_refs (\<lambda>t. t) (refcounts p1) (graph_outputs g)\<rparr>"
  have q2: "queue_inv g p2"
    by (simp add: queue_inv_def p2_def p1_def n_def valid_tensor_def)
  have r2: "at (refcounts p2) r = int (refs (\<lambda>t. t) r (graph_outputs g))" if "valid_tensor g r" for r
  proof -
    have "at (count_refs (\<lambda>t. t) (refcounts p1) (graph_outputs g)) r =
        at (refcounts p1) r + int (refs (\<lambda>t. t) r (graph_outputs g))"
      by (rule count_refs_at)
        (use g that in \<open>auto simp: graph_ok_def list_all_iff opt_tensor_def valid_tensor_def p1_def n_def\<close>)
    then show ?thesis using that by (simp add: p2_def p1_def n_def valid_tensor_def)
  qed
  have vars: "list_all (valid_tensor g) (graph_variables g)" using g by (simp add: graph_ok_def)
  then have "list_all (opt_tensor g) (graph_variables g)" by (simp add: list_all_iff opt_tensor_def)
  from plan_inputs_ok [OF q2 this] obtain p3 where
    3: "for_status plan_variable p2 (graph_variables g) = (kTfLiteOk, p3)" "queue_inv g p3" "same_memory p2 p3"
    "\<forall>r. 0 \<le> r \<longrightarrow> at (refcounts p3) r = at (refcounts p2) r + int (refs (\<lambda>t. t) r (graph_variables g))"
    using plan_variables_eq [OF vars, of p2] by auto
  obtain p4 where
    4: "for_status plan_input p3 (graph_inputs g) = (kTfLiteOk, p4)" "queue_inv g p4" "same_memory p3 p4"
    "\<forall>r. 0 \<le> r \<longrightarrow> at (refcounts p4) r = at (refcounts p3) r + int (refs (\<lambda>t. t) r (graph_inputs g))"
    using plan_inputs_ok [OF 3(2), of "graph_inputs g"] g by (auto simp: graph_ok_def)
  define E where "E = refcounts p4"
  have E: "at E r = int (graph_refs g r)" if "valid_tensor g r" for r
    using 3(4) 4(4) r2 [OF that] that by (simp add: E_def graph_refs_def valid_tensor_def)
  define p5 where "p5 = p4\<lparr>refcounts := count_refs (\<lambda>t. t) E (all_node_inputs g)\<rparr>"
  define p6 where "p6 = IdentifyInPlaceTensors p5 g"
  define rc' where "rc' = count_refs (FindSharedTensor p6) E (all_node_inputs g)"
  obtain m where m: "p6 = p5\<lparr>actual_tensor_id := m\<rparr>"
    using IdentifyInPlaceTensors_frame [of p5 g] p6_def by auto
  have roots: "roots_valid g p6" unfolding p6_def by (rule IdentifyInPlaceTensors_valid [OF g])
  have len: "length E = num_tensors g" using 4(2) by (simp add: E_def queue_inv_def)
  have rc': "at rc' r = at E r + int (refs (FindSharedTensor p6) r (all_node_inputs g))"
    if "valid_tensor g r" for r
    unfolding rc'_def
  proof (rule count_refs_at)
    fix t assume "t \<in> set (all_node_inputs g)" "t \<noteq> kTfLiteOptionalTensor"
    then have "valid_tensor g (FindSharedTensor p6 t)"
      using graph_ok_inputs [OF g] FindSharedTensor_valid [OF roots] by blast
    then show "0 \<le> FindSharedTensor p6 t \<and> nat (FindSharedTensor p6 t) < length E"
      by (simp add: valid_tensor_def len)
  qed (use that in \<open>simp add: valid_tensor_def\<close>)
  have q4: "length (alloc_node p4) = num_tensors g" "dealloc_node p4 = replicate (num_tensors g) kNodeNotAssigned"
    "\<And>r. valid_tensor g r \<Longrightarrow> at (alloc_node p4) r \<noteq> kNodeNotAssigned \<Longrightarrow>
       0 \<le> at (alloc_node p4) r \<and> at (alloc_node p4) r \<le> 0"
    using 4(2) by (auto simp: queue_inv_def)
  have inv0: "plan_inv g (FindSharedTensor p6) E 0 (refs_from g 0) (p6, rc')"
    unfolding plan_inv_def prod.case refs_from_0
    using rc' q4 by (auto simp: m p5_def rc'_def len dealloc_replicate)
  obtain p7 rc7 where
    7: "for_status (plan_node g) (p6, rc') [0..<num_execution_nodes g] = (kTfLiteOk, p7, rc7)"
    "plan_inv g (FindSharedTensor p6) E (num_execution_nodes g) (refs_from g (num_execution_nodes g)) (p7, rc7)"
    "outputs_queued g (num_execution_nodes g) p7" "roots_valid g p7" "same_memory p6 p7"
    using plan_nodes_ok [OF g _ inv0 roots order.refl] E by auto
  have "refs_from g (num_execution_nodes g) = []" by (simp add: refs_from_def)
  moreover have root7: "FindSharedTensor p6 = FindSharedTensor p7" using 7(2) by (simp add: plan_inv_def)
  ultimately have inv7: "plan_inv g (FindSharedTensor p7) E (num_execution_nodes g) [] (p7, rc7)"
    using 7(2) by simp
  have "PlanAllocations p g = (kTfLiteOk, p7)"
    by (simp only: PlanAllocations_def ResetAllocations_Ok Let_def ensure_status_simps prod.case
        n_def [symmetric] p0_def [symmetric] p1_def [symmetric] p2_def [symmetric] 3(1) 4(1)
        p5_def [symmetric] p6_def [symmetric] E_def [symmetric] rc'_def [symmetric] 7(1))
  moreover have "same_memory p1 p7"
    using 3(3) 4(3) 7(5) by (auto simp: m p5_def p2_def same_memory_def)
  then have "planned g p p7"
    unfolding planned_def using inv7 E 7(3,4)
    by (auto simp: same_memory_def p1_def p0_def n_def ClearPlan_def)
  ultimately show ?thesis by blast
qed

lemma planned_use:
  assumes "planned g p p'" "i < num_execution_nodes g" "t \<in> set (node_inputs (nodes g ! i))"
    "t \<noteq> kTfLiteOptionalTensor" "graph_ok g"
  shows "int i \<le> at (dealloc_node p') (FindSharedTensor p' t)"
proof (rule ccontr)
  let ?r = "FindSharedTensor p' t"
  assume less: "\<not> int i \<le> at (dealloc_node p') ?r"
  have "valid_tensor g t"
    using graph_ok_node [OF assms(5,2)] assms(3,4) by (auto simp: node_ok_def list_all_iff opt_tensor_def)
  then have v: "valid_tensor g ?r"
    using assms(1) FindSharedTensor_valid by (auto simp: planned_def)
  moreover have "int i < int32_max" using assms(2,5) by (simp add: graph_ok_def)
  with less have "at (dealloc_node p') ?r \<noteq> kNodeNotAssigned" by simp
  ultimately obtain j where "at (dealloc_node p') ?r = int j"
    "refs (FindSharedTensor p') ?r (refs_from g (Suc j)) = 0"
    using assms(1) by (auto simp: planned_def plan_inv_def)
  moreover from this less have "t \<in> set (refs_from g (Suc j))"
    using refs_from_mem [OF _ assms(2,3), of j] by linarith
  ultimately show False using refs_zero [of "FindSharedTensor p'" ?r "refs_from g (Suc j)" t] assms(4) by simp
qed

lemma planned_held:
  assumes "planned g p p'" "valid_tensor g t" "0 < graph_refs g t"
  shows "at (dealloc_node p') t = kNodeNotAssigned"
proof (rule ccontr)
  assume a: "at (dealloc_node p') t \<noteq> kNodeNotAssigned"
  from assms(1) obtain rc E where
    i: "plan_inv g (FindSharedTensor p') E (num_execution_nodes g) [] (p', rc)"
    and E: "\<forall>r. valid_tensor g r \<longrightarrow> at E r = int (graph_refs g r)" by (auto simp: planned_def)
  from i a assms(2) have "\<not> preserve_all_tensors p' \<and> at rc t = 0" by (auto simp: plan_inv_def)
  moreover have "preserve_all_tensors p' \<or> at rc t = at E t" using i assms(2) by (auto simp: plan_inv_def)
  ultimately show False using E assms(2,3) by auto
qed

lemma planned_alloc:
  assumes "planned g p p'" "i < num_execution_nodes g" "t \<in> set (node_outputs (nodes g ! i))"
    "t \<noteq> kTfLiteOptionalTensor"
  shows "at (alloc_node p') t \<le> int i"
  using assms by (auto simp: planned_def outputs_queued_def)

lemma PlanAllocations_OkD:
  assumes "graph_ok g" "PlanAllocations p g = (st, p')"
  shows "st = kTfLiteOk" "planned g p p'"
  using PlanAllocations_planned [OF assms(1), of p] assms(2) by auto

subsection \<open>Only tensors of the graph are queued\<close>

definition queue_valid :: "GraphInfo \<Rightarrow> ArenaPlanner \<Rightarrow> bool" where
  "queue_valid g p \<longleftrightarrow> (\<forall>q \<in> set (nodes_to_tensors p). \<forall>t \<in> set q. valid_tensor g t)"

lemma queue_valid_insert:
  assumes "queue_valid g p" "valid_tensor g t" shows "queue_valid g (queue_tensor p i t)"
proof -
  have "\<forall>s \<in> set (set_insert t (nodes_to_tensors p ! i)). valid_tensor g s" if "i < length (nodes_to_tensors p)"
    using assms that by (auto simp: queue_valid_def set_insert_def)
  then show ?thesis
    using assms(1) unfolding queue_valid_def queue_tensor_def
    by (cases "i < length (nodes_to_tensors p)") (auto simp: list_update_beyond dest!: set_update_subset_insert [THEN subsetD])
qed

lemma plan_allocate_queue: "plan_allocate p n t = (st, p') \<Longrightarrow> nodes_to_tensors p' = nodes_to_tensors p"
  by (auto simp: plan_allocate_def split: if_splits)

lemma plan_deallocate_queue: "plan_deallocate p n t = (st, p') \<Longrightarrow> nodes_to_tensors p' = nodes_to_tensors p"
  by (auto simp: plan_deallocate_def split: if_splits)

lemma queue_valid_cong: "nodes_to_tensors p' = nodes_to_tensors p \<Longrightarrow> queue_valid g p' = queue_valid g p"
  by (simp add: queue_valid_def)

lemma plan_input_queue:
  assumes "queue_valid g p" "opt_tensor g t" "plan_input p t = (st, p')"
  shows "queue_valid g p'"
proof (cases "t = kTfLiteOptionalTensor")
  case False
  let ?q = "p\<lparr>refcounts := bump (refcounts p) t 1\<rparr>"
  obtain st1 q where q: "plan_allocate ?q 0 t = (st1, q)" by (cases "plan_allocate ?q 0 t")
  have "queue_valid g q"
    using queue_valid_cong [OF plan_allocate_queue [OF q]] assms(1) by (simp add: queue_valid_def)
  moreover have "p' = q \<or> p' = queue_tensor q 0 t"
    using assms(3) False q by (auto simp: plan_input_def ensure_status_def split: if_splits)
  ultimately show ?thesis using queue_valid_insert opt_tensor_valid [OF assms(2) False] by auto
qed (use assms in \<open>auto simp: plan_input_def\<close>)

lemma plan_output_queue:
  assumes "queue_valid g p" "opt_tensor g t" "plan_output i p t = (st, p')"
  shows "queue_valid g p'"
proof (cases "t = kTfLiteOptionalTensor")
  case False
  then have "plan_allocate (queue_tensor p i t) (int i) t = (st, p')" using assms(3) by (simp add: plan_output_def)
  from queue_valid_cong [OF plan_allocate_queue [OF this]] show ?thesis
    using queue_valid_insert [OF assms(1) opt_tensor_valid [OF assms(2) False]] by simp
qed (use assms in \<open>auto simp: plan_output_def\<close>)

lemma plan_use_queue:
  "plan_use i s t = (st, s') \<Longrightarrow> nodes_to_tensors (fst s') = nodes_to_tensors (fst s)"
  by (auto simp: plan_use_def Let_def split: prod.splits if_splits dest: plan_deallocate_queue)

interpretation inputs_loop: status_loop plan_input "queue_valid g" "opt_tensor g" for g
  by unfold_locales (rule plan_input_queue)

interpretation outputs_loop: status_loop "plan_output i" "queue_valid g" "opt_tensor g" for g i
  by unfold_locales (rule plan_output_queue)

interpretation uses_loop: status_loop "plan_use i" "\<lambda>s. queue_valid g (fst s)" "\<lambda>_. True" for g i
  by unfold_locales (simp add: queue_valid_cong [OF plan_use_queue])

lemma plan_node_queue:
  assumes "queue_valid g (fst s)" "i < num_execution_nodes g" "graph_ok g" "plan_node g s i = (st, s')"
  shows "queue_valid g (fst s')"
proof -
  obtain p rc where s: "s = (p, rc)" by (cases s)
  obtain st1 p1 where o: "for_status (plan_output i) p (node_outputs (nodes g ! i)) = (st1, p1)"
    by (cases "for_status (plan_output i) p (node_outputs (nodes g ! i))")
  have "list_all (opt_tensor g) (node_outputs (nodes g ! i))"
    using graph_ok_node [OF assms(3,2)] by (simp add: node_ok_def)
  then have q1: "queue_valid g p1" using outputs_loop.loop_inv [OF _ _ o] assms(1) s by simp
  consider "s' = (p1, rc)" | "for_status (plan_use i) (p1, rc) (node_inputs (nodes g ! i)) = (st, s')"
    using assms(4) o by (auto simp: plan_node_def s split: if_splits)
  then show ?thesis
  proof cases
    case 2
    then show ?thesis using uses_loop.loop_inv [of g "(p1, rc)"] q1 by (simp add: list_all_iff)
  qed (use q1 in simp)
qed

interpretation nodes_loop: status_loop "plan_node g" "\<lambda>s. queue_valid g (fst s) \<and> graph_ok g"
    "\<lambda>i. i < num_execution_nodes g" for g
  by unfold_locales (use plan_node_queue in blast)

lemma PlanAllocations_OkE:
  assumes "PlanAllocations p g = (kTfLiteOk, p')"
  obtains p2 p3 p4 p5 rc rc' where
    "nodes_to_tensors p2 = replicate (max (num_execution_nodes g) 1) []"
    "for_status plan_variable p2 (graph_variables g) = (kTfLiteOk, p3)"
    "for_status plan_input p3 (graph_inputs g) = (kTfLiteOk, p4)"
    "p5 = p4\<lparr>refcounts := count_refs (\<lambda>t. t) (refcounts p4) (all_node_inputs g)\<rparr>"
    "for_status (plan_node g) (IdentifyInPlaceTensors p5 g, rc) [0..<num_execution_nodes g] = (kTfLiteOk, p', rc')"
proof -
  define p2 where "p2 = p\<lparr>arena := snd (ClearPlan (arena p)), persistent_arena := snd (ClearPlan (persistent_arena p)),
      allocs := replicate (num_tensors g) alloc_reset, last_active_node := kLastActiveNodeUndefined,
      alloc_node := replicate (num_tensors g) kNodeNotAssigned,
      dealloc_node := replicate (num_tensors g) kNodeNotAssigned,
      nodes_to_tensors := replicate (max (num_execution_nodes g) 1) [],
      refcounts := count_refs (\<lambda>t. t) (replicate (num_tensors g) 0) (graph_outputs g)\<rparr>"
  have "ensure_status (for_status plan_variable p2 (graph_variables g)) (\<lambda>p3.
        ensure_status (for_status plan_input p3 (graph_inputs g)) (\<lambda>p4.
        let rc = refcounts p4;
            p5 = p4\<lparr>refcounts := count_refs (\<lambda>t. t) (refcounts p4) (all_node_inputs g)\<rparr>;
            p6 = IdentifyInPlaceTensors p5 g;
            rc' = count_refs (FindSharedTensor p6) rc (all_node_inputs g)
        in (case for_status (plan_node g) (p6, rc') [0..<num_execution_nodes g] of
              (st, p7, _) \<Rightarrow> (st, p7)))) = (kTfLiteOk, p')"
    using assms by (simp add: PlanAllocations_def ResetAllocations_Ok Let_def p2_def)
  then obtain p3 p4 where 3: "for_status plan_variable p2 (graph_variables g) = (kTfLiteOk, p3)"
    "for_status plan_input p3 (graph_inputs g) = (kTfLiteOk, p4)"
    and r: "(let rc = refcounts p4;
            p5 = p4\<lparr>refcounts := count_refs (\<lambda>t. t) (refcounts p4) (all_node_inputs g)\<rparr>;
            p6 = IdentifyInPlaceTensors p5 g;
            rc' = count_refs (FindSharedTensor p6) rc (all_node_inputs g)
        in (case for_status (plan_node g) (p6, rc') [0..<num_execution_nodes g] of
              (st, p7, _) \<Rightarrow> (st, p7))) = (kTfLiteOk, p')"
    unfolding ensure_status_Ok_iff by blast
  from r obtain rc rc' where "for_status (plan_node g)
      (IdentifyInPlaceTensors (p4\<lparr>refcounts := count_refs (\<lambda>t. t) (refcounts p4) (all_node_inputs g)\<rparr>) g, rc)
      [0..<num_execution_nodes g] = (kTfLiteOk, p', rc')"
    by (auto simp: Let_def split: prod.splits)
  with 3 show thesis using that [OF _ 3 refl] by (simp add: p2_def)
qed

lemma PlanAllocations_queue:
  assumes g: "graph_ok g" and r: "PlanAllocations p g = (kTfLiteOk, p')"
  shows "queue_valid g p'"
  using r
proof (rule PlanAllocations_OkE)
  fix p2 p3 p4 p5 rc rc'
  assume 2: "nodes_to_tensors p2 = replicate (max (num_execution_nodes g) 1) []"
    and 3: "for_status plan_variable p2 (graph_variables g) = (kTfLiteOk, p3)"
    and 4: "for_status plan_input p3 (graph_inputs g) = (kTfLiteOk, p4)"
    and 5: "p5 = p4\<lparr>refcounts := count_refs (\<lambda>t. t) (refcounts p4) (all_node_inputs g)\<rparr>"
    and 7: "for_status (plan_node g) (IdentifyInPlaceTensors p5 g, rc) [0..<num_execution_nodes g] =
      (kTfLiteOk, p', rc')"
  have vars: "list_all (valid_tensor g) (graph_variables g)" using g by (simp add: graph_ok_def)
  have "queue_valid g p2" using 2 by (auto simp: queue_valid_def)
  then have "queue_valid g p3"
    using inputs_loop.loop_inv [of g p2] vars 3 plan_variables_eq [OF vars]
    by (auto simp: list_all_iff opt_tensor_def)
  then have "queue_valid g p4" using inputs_loop.loop_inv [OF _ _ 4] g by (auto simp: graph_ok_def)
  then have "queue_valid g (IdentifyInPlaceTensors p5 g)"
    using IdentifyInPlaceTensors_frame [of p5 g] 5 by (auto simp: queue_valid_def)
  then show ?thesis using nodes_loop.loop_inv [OF _ _ 7] g by (auto simp: list_all_iff)
qed

subsection \<open>The sharing map is flat\<close>

text \<open>
  In a topologically ordered plan no node writes a tensor that it or an earlier node reads.
  \<open>X\<close> lists the tensors read so far.
\<close>

fun reads_follow_writes :: "int list \<Rightarrow> TfLiteNode list \<Rightarrow> bool" where
  "reads_follow_writes X [] = True"
| "reads_follow_writes X (n # ns) =
     (list_all (\<lambda>t. t = kTfLiteOptionalTensor \<or> t \<notin> set (node_inputs n @ X)) (node_outputs n) \<and>
      reads_follow_writes (node_inputs n @ X) ns)"

definition flat_map :: "(int \<rightharpoonup> int) \<Rightarrow> bool" where
  "flat_map m \<longleftrightarrow> dom m \<inter> ran m = {}"

lemma flat_map_root: "flat_map (actual_tensor_id p) \<Longrightarrow> actual_tensor_id p (FindSharedTensor p t) = None"
  by (cases "actual_tensor_id p t") (auto simp: FindSharedTensor_def flat_map_def ran_def dom_def)

lemma map_le_ran: "m' \<subseteq>\<^sub>m m \<Longrightarrow> ran m' \<subseteq> ran m"
proof
  fix y assume le: "m' \<subseteq>\<^sub>m m" and "y \<in> ran m'"
  then obtain x where x: "m' x = Some y" by (auto simp: ran_def)
  then have "x \<in> dom m'" by blast
  then have "m' x = m x" using le by (simp add: map_le_def)
  then show "y \<in> ran m" using x by (auto simp: ran_def)
qed

lemma flat_map_le: "flat_map m \<Longrightarrow> m' \<subseteq>\<^sub>m m \<Longrightarrow> flat_map m'"
  unfolding flat_map_def using map_le_implies_dom_le map_le_ran by blast

lemma flat_map_upd:
  assumes "flat_map m" "m r = None" "r \<noteq> x" "x \<notin> ran m"
  shows "flat_map (m(x \<mapsto> r))"
  using assms by (auto simp: flat_map_def ran_def dom_def split: if_splits)

lemma ran_upd_subset: "ran (m(x \<mapsto> r)) \<subseteq> insert r (ran m)"
  by (auto simp: ran_def split: if_splits)

lemma identify_fold_flat:
  assumes "flat_map (actual_tensor_id p)" "ran (actual_tensor_id p) \<subseteq> set X" "reads_follow_writes X ns"
    "\<forall>n \<in> set ns. node_ok g n"
  shows "flat_map (actual_tensor_id (foldl (identify_one g) p ns))"
  using assms
proof (induction ns arbitrary: p X)
  case (Cons n ns)
  have ns: "reads_follow_writes (node_inputs n @ X) ns" "\<forall>n \<in> set ns. node_ok g n" using Cons.prems by auto
  show ?case
  proof (cases rule: identify_one_cases [of g p n])
    case 1
    then show ?thesis using Cons.IH [OF Cons.prems(1) _ ns] Cons.prems(2) by auto
  next
    case (2 t)
    let ?o = "hd (node_outputs n)" and ?r = "FindSharedTensor p t" and ?m = "actual_tensor_id p"
    have "?o \<in> set (node_outputs n)" using 2(3) by simp
    moreover have "?o \<noteq> kTfLiteOptionalTensor"
      using Cons.prems(4) 2(3,4) by (auto simp: node_ok_def valid_tensor_def)
    ultimately have o: "?o \<notin> set (node_inputs n @ X)" using Cons.prems(3) by (auto simp: list_all_iff)
    have r: "?r \<in> set (node_inputs n @ X)"
      using 2(1) Cons.prems(2) by (cases "?m t") (auto simp: FindSharedTensor_def ran_def)
    have "flat_map (?m(?o \<mapsto> ?r))"
      using o r Cons.prems(1,2) flat_map_root [OF Cons.prems(1)] by (intro flat_map_upd) auto
    moreover have "ran (?m(?o \<mapsto> ?r)) \<subseteq> set (node_inputs n @ X)"
      using ran_upd_subset [of ?m ?o ?r] r Cons.prems(2) by auto
    ultimately have "flat_map (actual_tensor_id (identify_one g p n))"
      "ran (actual_tensor_id (identify_one g p n)) \<subseteq> set (node_inputs n @ X)" unfolding 2(5) by simp_all
    from Cons.IH [OF this ns] show ?thesis by simp
  qed
qed simp

lemma plan_use_actual: "plan_use i s t = (st, s') \<Longrightarrow> actual_tensor_id (fst s') = actual_tensor_id (fst s)"
  by (auto simp: plan_use_def plan_deallocate_def Let_def split: prod.splits if_splits)

interpretation roots_uses: status_loop "plan_use i" "\<lambda>s. actual_tensor_id (fst s) = m" "\<lambda>_. True" for i m
  by unfold_locales (simp add: plan_use_actual)

lemma plan_node_actual:
  assumes "plan_node g s i = (st, s')" shows "actual_tensor_id (fst s') = actual_tensor_id (fst s)"
proof -
  obtain p rc where s: "s = (p, rc)" by (cases s)
  obtain st1 p1 where o: "for_status (plan_output i) p (node_outputs (nodes g ! i)) = (st1, p1)"
    by (cases "for_status (plan_output i) p (node_outputs (nodes g ! i))")
  have 1: "actual_tensor_id p1 = actual_tensor_id p"
    using keep_roots.loop_inv [OF refl _ o] by (simp add: list_all_iff)
  consider "s' = (p1, rc)" | "for_status (plan_use i) (p1, rc) (node_inputs (nodes g ! i)) = (st, s')"
    using assms o by (auto simp: plan_node_def s split: if_splits)
  then show ?thesis
  proof cases
    case 2
    then show ?thesis
      using roots_uses.loop_inv [of "(p1, rc)"] 1 by (simp add: list_all_iff s)
  qed (use 1 s in simp)
qed

interpretation roots_nodes: status_loop "plan_node g" "\<lambda>s. actual_tensor_id (fst s) = m" "\<lambda>_. True" for g m
  by unfold_locales (simp add: plan_node_actual)

lemma PlanAllocations_flat:
  assumes "graph_ok g" "reads_follow_writes [] (nodes g)" "PlanAllocations p g = (kTfLiteOk, p')"
  shows "flat_map (actual_tensor_id p')"
  using assms(3)
proof (rule PlanAllocations_OkE)
  fix p5 rc rc'
  let ?q = "IdentifyInPlaceTensors p5 g"
  assume "for_status (plan_node g) (?q, rc) [0..<num_execution_nodes g] = (kTfLiteOk, p', rc')"
  from roots_nodes.loop_inv [OF refl _ this] have "actual_tensor_id p' = actual_tensor_id ?q"
    by (simp add: list_all_iff)
  moreover have "\<forall>n \<in> set (nodes g). node_ok g n" using assms(1) by (simp add: graph_ok_def list_all_iff)
  then have "flat_map (actual_tensor_id ?q)"
    unfolding IdentifyInPlaceTensors_def
    using assms(2) by (intro identify_fold_flat [where X = "[]"]) (auto simp: flat_map_def)
  ultimately show ?thesis by simp
qed

section \<open>Concrete graphs\<close>

text \<open>
  A chain of two in-place reshapes whose first result is read again after an in-place addition
  on the second: tensor 0 is the graph input, 1 an intermediate, 2 and 3 its reshaped views, 4 the sum,
  5 the graph output.
\<close>

definition rw_tensor :: "size_t \<Rightarrow> TfLiteTensor" where
  "rw_tensor n = \<lparr>allocation_type = kTfLiteArenaRw, bytes = n, data_ptr = nullptr\<rparr>"

definition plain_node :: "int list \<Rightarrow> int list \<Rightarrow> 64 word \<Rightarrow> TfLiteNode" where
  "plain_node ins outs inplace =
     \<lparr>node_inputs = ins, node_outputs = outs, node_temporaries = [], might_have_side_effect = False,
      inplace_operator = inplace\<rparr>"

definition chain_graph :: GraphInfo where
  "chain_graph = \<lparr>tensors = [rw_tensor 16, rw_tensor 16, rw_tensor 16, rw_tensor 16, rw_tensor 16, rw_tensor 16],
     nodes = [plain_node [0] [1] 0, plain_node [1] [2] 5, plain_node [2] [3] 5,
              plain_node [3, 0] [4] 12, plain_node [2, 4] [5] 0],
     node_index = [0, 1, 2, 3, 4], num_total_nodes = 5,
     graph_inputs = [0], graph_outputs = [5], graph_variables = []\<rparr>"

lemma chain_graph_ok: "graph_ok chain_graph"
  by (simp add: chain_graph_def plain_node_def graph_ok_def node_ok_def opt_tensor_def valid_tensor_def)


lemmas plan_defs =
  PlanAllocations_def ResetAllocations_def ClearPlan_def new_planner_def count_refs_def bump_def
  plan_variable_def plan_input_def plan_allocate_def plan_deallocate_def queue_tensor_def set_insert_def
  IdentifyInPlaceTensors_def identify_one_def InputTensorCanBeShared_def FindSharedTensor_def
  all_node_inputs_def plan_node_def plan_output_def plan_use_def


lemma chain_graph_identify:
  "FindSharedTensor (snd (PlanAllocations (new_planner False 64) chain_graph)) 2 = 1 \<and>
   FindSharedTensor (snd (PlanAllocations (new_planner False 64) chain_graph)) 4 = 1"
  by (simp add: chain_graph_def plain_node_def rw_tensor_def plan_defs Let_def upt_rec cong: eval_congs)

definition line_graph :: GraphInfo where
  "line_graph = \<lparr>tensors = [rw_tensor 16, rw_tensor 40, rw_tensor 16],
     nodes = [plain_node [0] [1] 0, plain_node [1] [2] 0],
     node_index = [0, 1], num_total_nodes = 2,
     graph_inputs = [0], graph_outputs = [2], graph_variables = []\<rparr>"

lemma line_graph_ok: "graph_ok line_graph" "reads_follow_writes [] (nodes line_graph)"
  by (simp_all add: line_graph_def plain_node_def graph_ok_def node_ok_def opt_tensor_def valid_tensor_def)

definition line_planner :: ArenaPlanner where
  "line_planner = (new_planner False 64)\<lparr>
     allocs := [alloc_reset, alloc_reset, alloc_reset], nodes_to_tensors := [[0, 1], [2]],
     alloc_node := [0, 0, 1], dealloc_node := [kNodeNotAssigned, 1, kNodeNotAssigned], refcounts := [2, 1, 1]\<rparr>"

lemma line_graph_plan: "PlanAllocations (new_planner False 64) line_graph = (kTfLiteOk, line_planner)"
  by (simp add: line_graph_def plain_node_def rw_tensor_def plan_defs Let_def upt_rec line_planner_def new_arena_def
      cong: eval_congs)

section \<open>Properties of planning\<close>

text \<open>C4: Every use of a tensor's buffer falls inside the lifetime the planner gives to it: a node that reads a
  tensor runs no later than the node after which the buffer it uses is released, and an output of a node is
  allocated by the time that node runs.\<close>

theorem PlanAllocations_covers_uses:
  assumes "graph_ok g" and "PlanAllocations p g = (kTfLiteOk, p')" and "i < num_execution_nodes g"
  shows "(\<forall>t \<in> set (node_inputs (nodes g ! i)). t \<noteq> kTfLiteOptionalTensor \<longrightarrow>
            int i \<le> at (dealloc_node p') (FindSharedTensor p' t)) \<and>
         (\<forall>t \<in> set (node_outputs (nodes g ! i)). t \<noteq> kTfLiteOptionalTensor \<longrightarrow>
            at (alloc_node p') t \<le> int i)"
  using planned_use [OF PlanAllocations_OkD(2) [OF assms(1,2)] assms(3)]
    planned_alloc [OF PlanAllocations_OkD(2) [OF assms(1,2)] assms(3)] assms(1) by blast

theorem PlanAllocations_covers_uses_witness:
  "(0::int) \<le> at (dealloc_node line_planner) (FindSharedTensor line_planner 0) \<and> at (alloc_node line_planner) 1 \<le> 0"
  using PlanAllocations_covers_uses [OF line_graph_ok(1) line_graph_plan, of 0]
  by (simp add: line_graph_def plain_node_def)

text \<open>Planning a well-formed graph succeeds whatever state the planner was in before: the consistency
  checks inside the two closures of \<open>PlanAllocations\<close> never fail, every tensor gets an entry in the
  allocation and deallocation tables, and no stale placement or live range is left in either arena.\<close>

theorem PlanAllocations_succeeds:
  assumes "graph_ok g"
  shows "\<exists>p'. PlanAllocations p g = (kTfLiteOk, p') \<and>
    length (alloc_node p') = num_tensors g \<and> length (dealloc_node p') = num_tensors g \<and>
    allocs p' = replicate (num_tensors g) alloc_reset \<and>
    active_allocs (arena p') = [] \<and> active_allocs (persistent_arena p') = []"
  using PlanAllocations_planned [OF assms, of p] by (auto simp: planned_def plan_inv_def)

theorem PlanAllocations_succeeds_witness:
  "fst (PlanAllocations (new_planner True 64) chain_graph) = kTfLiteOk"
  using PlanAllocations_succeeds [OF chain_graph_ok, of "new_planner True 64"] by auto

text \<open>The inputs, outputs and variables of the graph are never scheduled for deallocation, so their
  contents survive the whole run; when all tensors are to be preserved, no tensor is.\<close>

theorem PlanAllocations_keeps_graph_tensors:
  assumes "graph_ok g" and "PlanAllocations p g = (kTfLiteOk, p')" and "valid_tensor g t"
    and "t \<in> set (graph_inputs g) \<union> set (graph_outputs g) \<union> set (graph_variables g) \<or> preserve_all_tensors p"
  shows "at (dealloc_node p') t = kNodeNotAssigned"
proof (cases "preserve_all_tensors p")
  case True
  then show ?thesis using PlanAllocations_OkD(2) [OF assms(1,2)] assms(3) by (auto simp: planned_def plan_inv_def)
next
  case False
  then show ?thesis
    using planned_held [OF PlanAllocations_OkD(2) [OF assms(1,2)] assms(3)] graph_refs_pos [of t g] assms(3,4)
    by (auto simp: valid_tensor_def)
qed

theorem PlanAllocations_keeps_graph_tensors_witness:
  "at (dealloc_node line_planner) 2 = kNodeNotAssigned"
  using PlanAllocations_keeps_graph_tensors [OF line_graph_ok(1) line_graph_plan, of 2]
  by (simp add: line_graph_def valid_tensor_def)

text \<open>
  Reference counts do not protect a chain of in-place nodes.  On a well-formed, topologically ordered
  graph that reshapes a tensor twice, adds to the second view in place and then reads the first view, planning
  lets the sum (tensor 4) share the buffer of the first view (tensor 2), although node 3 changes the data
  and node 4 still reads the view.\<close>

theorem IdentifyInPlaceTensors_chain_overwrites:
  "graph_ok chain_graph \<and> reads_follow_writes [] (nodes chain_graph) \<and>
   fst (PlanAllocations (new_planner False 64) chain_graph) = kTfLiteOk \<and>
   FindSharedTensor (snd (PlanAllocations (new_planner False 64) chain_graph)) 4 =
     FindSharedTensor (snd (PlanAllocations (new_planner False 64) chain_graph)) 2 \<and>
   4 \<in> set (node_outputs (nodes chain_graph ! 3)) \<and>
   inplace_operator (nodes chain_graph ! 3) AND kTfLiteInplaceOpDataUnmodified = 0 \<and>
   2 \<in> set (node_inputs (nodes chain_graph ! 4))"
proof (intro conjI)
  show "reads_follow_writes [] (nodes chain_graph)" by (simp add: chain_graph_def plain_node_def)
  show "fst (PlanAllocations (new_planner False 64) chain_graph) = kTfLiteOk"
    using PlanAllocations_planned [OF chain_graph_ok, of "new_planner False 64"] by auto
qed (use chain_graph_ok chain_graph_identify in \<open>simp_all add: chain_graph_def plain_node_def\<close>)

end
