(* ===== verification/PlanExecution.thy ===== *)
theory PlanExecution
  imports PlanCorrect
begin

text \<open>
  Correctness of \<open>ExecuteAllocations\<close> (\<^verbatim>\<open>src/tflite/arena_planner.cc\<close>): the placement
  pass gives every tensor that owns its buffer a live range of the arena, committing the arena turns it into
  addresses, and resolution gives all tensors that share a buffer the same one.
\<close>

section \<open>Placement is correct\<close>

text \<open>What a successful placement pass has done for the tensors in \<open>T\<close> that own their buffer.\<close>

definition owns_range :: "GraphInfo \<Rightarrow> ArenaPlanner \<Rightarrow> int \<Rightarrow> bool" where
  "owns_range g p t \<longleftrightarrow> (let a = at (allocs p) t in
     a \<in> set (active_allocs (arena p)) \<and> tensor a = t \<and> alloc_size a = bytes (at (tensors g) t) \<and>
     first_node a = at (alloc_node p) t \<and> last_node a = at (dealloc_node p) t)"

definition rw_owner :: "GraphInfo \<Rightarrow> ArenaPlanner \<Rightarrow> int \<Rightarrow> bool" where
  "rw_owner g p t \<longleftrightarrow> valid_tensor g t \<and> allocation_type (at (tensors g) t) = kTfLiteArenaRw \<and>
     bytes (at (tensors g) t) \<noteq> 0 \<and> actual_tensor_id p t = None"

definition placed_inv :: "GraphInfo \<Rightarrow> int set \<Rightarrow> ArenaPlanner \<Rightarrow> bool" where
  "placed_inv g T p \<longleftrightarrow> length (allocs p) = num_tensors g \<and> arena_inv (arena p) \<and>
     (\<forall>t \<in> T. rw_owner g p t \<longrightarrow> owns_range g p t) \<and>
     (\<forall>t \<in> T. \<forall>r. actual_tensor_id p t = Some r \<longrightarrow>
        allocation_type (at (tensors g) r) = kTfLiteArenaRw \<and> bytes (at (tensors g) r) = bytes (at (tensors g) t))"

definition same_plan :: "ArenaPlanner \<Rightarrow> ArenaPlanner \<Rightarrow> bool" where
  "same_plan p p' \<longleftrightarrow> alloc_node p' = alloc_node p \<and> dealloc_node p' = dealloc_node p \<and>
     nodes_to_tensors p' = nodes_to_tensors p \<and> actual_tensor_id p' \<subseteq>\<^sub>m actual_tensor_id p \<and>
     underlying_buffer (arena p') = underlying_buffer (arena p)"

lemma same_plan_refl [simp]: "same_plan p p"
  by (simp add: same_plan_def)

lemma same_plan_trans: "same_plan p q \<Longrightarrow> same_plan q r \<Longrightarrow> same_plan p r"
  by (auto simp: same_plan_def intro: map_le_trans)

lemma Allocate_buffer: "Allocate m al sz t f l na = (st, m', na') \<Longrightarrow> underlying_buffer m' = underlying_buffer m"
  by (auto simp: Allocate_def Let_def split: option.splits if_splits prod.splits)

lemma Allocate_range:
  assumes "arena_inv m" "Allocate m al sz t f l (Some na) = (kTfLiteOk, m', na')" "sz \<noteq> 0"
  shows "the na' \<in> set (active_allocs m')" "tensor (the na') = t" "alloc_size (the na') = sz"
    "first_node (the na') = f" "last_node (the na') = l"
proof -
  from Allocate_Ok [OF assms(2,1,3)] obtain off x where
    x: "x = \<lparr>offset = off, alloc_size = sz, tensor = t, first_node = f, last_node = l\<rparr>" "na' = Some x"
    and m': "m' = m\<lparr>high_water_mark := max (high_water_mark m) (off + sz),
            active_allocs := insert_upper_bound x (active_allocs m)\<rparr>" by blast
  show "the na' \<in> set (active_allocs m')" unfolding m' using x(2) by simp
  show "tensor (the na') = t" "alloc_size (the na') = sz" "first_node (the na') = f" "last_node (the na') = l"
    using x by simp_all
qed

text \<open>\<open>allocate_owned\<close> by the allocation type of the tensor.\<close>

lemma allocate_owned_rw:
  assumes inv: "placed_inv g T p" and v: "valid_tensor g t"
    and own: "actual_tensor_id p t = None"
    and rw: "allocation_type (at (tensors g) t) = kTfLiteArenaRw" and r: "allocate_owned g p t = (kTfLiteOk, p')"
  shows "placed_inv g (insert t T) p'" "same_plan p p'"
proof -
  obtain m na where
    a: "Allocate (arena p) (word_of_int (tensor_alignment p)) (bytes (at (tensors g) t)) t
         (at (alloc_node p) t) (at (dealloc_node p) t) (Some (at (allocs p) t)) = (kTfLiteOk, m, na)"
    and p': "p' = p\<lparr>arena := m, allocs := (allocs p)[nat t := the na]\<rparr>"
    using r rw by (auto simp: allocate_owned_def Let_def ensure_status_def split: prod.splits if_splits)
  have ai: "arena_inv (arena p)" using inv by (simp add: placed_inv_def)
  have at': "at (allocs p') s = (if s = t then the na else at (allocs p) s)" if "valid_tensor g s" for s
    using that v inv nat_eq_valid [OF v, of s]
    by (auto simp: p' nth_list_update valid_tensor_def placed_inv_def)
  have "owns_range g p' s" if "s \<in> insert t T" "rw_owner g p' s" for s
  proof (cases "s = t")
    case True
    then have "bytes (at (tensors g) t) \<noteq> 0" using that by (simp add: rw_owner_def)
    from Allocate_range [OF ai a this] show ?thesis using at' [OF v] True by (simp add: owns_range_def p')
  next
    case False
    with that have "owns_range g p s" using inv by (auto simp: placed_inv_def rw_owner_def p')
    moreover have "at (allocs p') s = at (allocs p) s" using at' [of s] that(2) False by (simp add: rw_owner_def)
    ultimately show ?thesis using Allocate_mono [OF ai a] by (auto simp: owns_range_def Let_def p')
  qed
  then show "placed_inv g (insert t T) p'"
    using inv own Allocate_arena_inv [OF ai a] by (auto simp: placed_inv_def p')
  show "same_plan p p'" using Allocate_buffer [OF a] by (simp add: same_plan_def p')
qed

lemma allocate_owned_other:
  assumes inv: "placed_inv g T p" and v: "valid_tensor g t"
    and own: "actual_tensor_id p t = None"
    and rw: "allocation_type (at (tensors g) t) \<noteq> kTfLiteArenaRw" and r: "allocate_owned g p t = (kTfLiteOk, p')"
  shows "placed_inv g (insert t T) p'" "same_plan p p'"
proof -
  obtain m na where p': "p' = p\<lparr>persistent_arena := m, allocs := (allocs p)[nat t := na]\<rparr>"
  proof (cases "p' = p")
    case True
    then have "p' = p\<lparr>persistent_arena := persistent_arena p, allocs := (allocs p)[nat t := at (allocs p) t]\<rparr>"
      by simp
    then show thesis by (rule that)
  next
    case False
    with r rw that show thesis
      by (auto simp: allocate_owned_def Let_def split: prod.splits if_splits)
  qed
  have at': "at (allocs p') s = at (allocs p) s" if "valid_tensor g s" "s \<noteq> t" for s
    using that v inv nat_eq_valid [OF v, of s] by (auto simp: p' nth_list_update valid_tensor_def)
  have "owns_range g p' s" if "s \<in> insert t T" "rw_owner g p' s" for s
  proof -
    have "s \<noteq> t" "valid_tensor g s" using that rw by (auto simp: rw_owner_def)
    moreover have "owns_range g p s" using that inv \<open>s \<noteq> t\<close> by (auto simp: placed_inv_def rw_owner_def p')
    ultimately show ?thesis using at' by (simp add: owns_range_def p')
  qed
  then show "placed_inv g (insert t T) p'" using inv own by (auto simp: placed_inv_def p')
  show "same_plan p p'" by (simp add: same_plan_def p')
qed

lemma allocate_owned_placed:
  assumes "placed_inv g T p" "valid_tensor g t" "actual_tensor_id p t = None" "allocate_owned g p t = (kTfLiteOk, p')"
  shows "placed_inv g (insert t T) p' \<and> same_plan p p'"
  using allocate_owned_rw [OF assms(1-3) _ assms(4)] allocate_owned_other [OF assms(1-3) _ assms(4)] by blast

lemma allocate_tensor_placed:
  assumes inv: "placed_inv g T p" and v: "valid_tensor g t" and r: "allocate_tensor g p t = (kTfLiteOk, p')"
  shows "placed_inv g (insert t T) p' \<and> same_plan p p'"
proof (cases "actual_tensor_id p t")
  case None
  then show ?thesis using r allocate_owned_placed [OF inv v] by (simp add: allocate_tensor_def)
next
  case (Some root)
  let ?q = "p\<lparr>actual_tensor_id := (actual_tensor_id p)(t := None)\<rparr>"
  show ?thesis
  proof (cases "allocation_type (at (tensors g) root) \<noteq> kTfLiteArenaRw \<or>
      bytes (at (tensors g) root) \<noteq> bytes (at (tensors g) t)")
    case True
    have "placed_inv g (T - {t}) ?q"
      using inv by (auto simp: placed_inv_def rw_owner_def owns_range_def)
    moreover have "allocate_owned g ?q t = (kTfLiteOk, p')" using r True Some by (simp add: allocate_tensor_def)
    ultimately have "placed_inv g (insert t (T - {t})) p' \<and> same_plan ?q p'"
      using v by (intro allocate_owned_placed) simp_all
    moreover have "same_plan p ?q" by (auto simp: same_plan_def map_le_def)
    ultimately show ?thesis by (auto intro: same_plan_trans)
  next
    case False
    then have "p' = p" using r Some by (simp add: allocate_tensor_def)
    then show ?thesis using inv Some False by (auto simp: placed_inv_def rw_owner_def)
  qed
qed

lemma allocate_all_placed:
  assumes "placed_inv g T p" "\<forall>t \<in> set ts. valid_tensor g t" "for_status (allocate_tensor g) p ts = (kTfLiteOk, p')"
  shows "placed_inv g (T \<union> set ts) p' \<and> same_plan p p'"
  using assms
proof (induction ts arbitrary: p T)
  case (Cons t ts)
  from Cons.prems(3) obtain q where q: "allocate_tensor g p t = (kTfLiteOk, q)"
    "for_status (allocate_tensor g) q ts = (kTfLiteOk, p')" by (auto simp only: for_status_Cons_Ok)
  from allocate_tensor_placed [OF Cons.prems(1) _ q(1)] Cons.prems(2)
  have 1: "placed_inv g (insert t T) q" "same_plan p q" by auto
  from Cons.IH [OF this(1) _ q(2)] Cons.prems(2) show ?case
    using same_plan_trans [OF 1(2)] by auto
qed simp

subsection \<open>Resolution of data pointers\<close>

lemma resolve_flat:
  assumes "flat_map (actual_tensor_id p)"
  shows "ResolveTensorAllocation p ts t = Some (let root = FindSharedTensor p t
     in if root \<noteq> t \<and> AreTensorsAllocatedInSameArena root t ts
        then (kTfLiteOk, let ts' = snd (resolve_own p ts root) in set_data ts' t (data_ptr (at ts' root)))
        else resolve_own p ts t)"
proof -
  have "FindSharedTensor p (FindSharedTensor p t) = FindSharedTensor p t"
    using flat_map_root [OF assms, of t] by (simp add: FindSharedTensor_def split: option.splits)
  then have r: "ResolveTensorAllocation p ts (FindSharedTensor p t) = Some (resolve_own p ts (FindSharedTensor p t))"
    by (subst ResolveTensorAllocation.simps) simp
  show ?thesis
    by (subst ResolveTensorAllocation.simps) (simp add: r Let_def split: prod.splits)
qed

definition same_shape :: "TfLiteTensor list \<Rightarrow> TfLiteTensor list \<Rightarrow> bool" where
  "same_shape ts ts' \<longleftrightarrow> map allocation_type ts' = map allocation_type ts \<and> map bytes ts' = map bytes ts"

lemma same_shape_length: "same_shape ts ts' \<Longrightarrow> length ts' = length ts"
  unfolding same_shape_def by (metis length_map)

lemma same_shape_trans: "same_shape ts us \<Longrightarrow> same_shape us vs \<Longrightarrow> same_shape ts vs"
  by (simp add: same_shape_def)

lemma same_shape_at:
  assumes "same_shape ts ts'" "nat t < length ts"
  shows "allocation_type (at ts' t) = allocation_type (at ts t)" "bytes (at ts' t) = bytes (at ts t)"
  using assms same_shape_length [OF assms(1)] unfolding same_shape_def by (metis nth_map)+

lemma same_shape_set_data [simp]: "same_shape ts (set_data ts t q)"
  by (simp add: same_shape_def set_data_def map_update) (metis list_update_id map_update)

lemma set_data_at:
  "0 \<le> t \<Longrightarrow> nat t < length ts \<Longrightarrow> 0 \<le> s \<Longrightarrow>
   data_ptr (at (set_data ts t q) s) = (if s = t then q else data_ptr (at ts s))"
  by (auto simp: set_data_def nth_list_update)

lemma resolve_own_data: "\<exists>q. snd (resolve_own p ts t) = set_data ts t q"
proof -
  have "set_data ts t (data_ptr (at ts t)) = ts" by (simp add: set_data_def)
  then have "\<exists>q. ts = set_data ts t q" by metis
  then show ?thesis by (auto simp: resolve_own_def Let_def split: prod.splits)
qed

text \<open>
  \<open>t\<close> owns its buffer and resolves to the address \<open>q\<close>; every tensor \<open>x\<close> that shares
  that buffer gets the same address, and later resolutions do not change it.
\<close>

definition resolves_to :: "GraphInfo \<Rightarrow> ArenaPlanner \<Rightarrow> int \<Rightarrow> ptr \<Rightarrow> bool" where
  "resolves_to g p t q \<longleftrightarrow> (\<forall>ts. same_shape (tensors g) ts \<longrightarrow> resolve_own p ts t = (kTfLiteOk, set_data ts t q))"

definition shares_rw :: "GraphInfo \<Rightarrow> ArenaPlanner \<Rightarrow> int \<Rightarrow> int \<Rightarrow> bool" where
  "shares_rw g p x t \<longleftrightarrow> valid_tensor g x \<and> valid_tensor g t \<and> FindSharedTensor p x = t \<and>
     allocation_type (at (tensors g) x) = kTfLiteArenaRw \<and> allocation_type (at (tensors g) t) = kTfLiteArenaRw"

lemma resolve_step:
  assumes flat: "flat_map (actual_tensor_id p)" and roots: "roots_valid g p" and x: "shares_rw g p x t"
    and q: "resolves_to g p t q" and sh: "same_shape (tensors g) ts" and s: "valid_tensor g s"
    and r: "ResolveTensorAllocation p ts s = Some (st, ts')"
  shows "same_shape (tensors g) ts'" and "s = x \<or> data_ptr (at ts x) = q \<Longrightarrow> data_ptr (at ts' x) = q"
proof -
  let ?root = "FindSharedTensor p s"
  have len: "length ts = num_tensors g" using same_shape_length [OF sh] .
  have v: "0 \<le> s" "nat s < length ts" "0 \<le> x" "nat x < length ts" "0 \<le> t" "nat t < length ts"
    "0 \<le> ?root" "nat ?root < length ts"
    using s x FindSharedTensor_valid [OF roots s] by (auto simp: valid_tensor_def shares_rw_def len)
  have own: "resolve_own p ts t = (kTfLiteOk, set_data ts t q)" using q sh by (simp add: resolves_to_def)
  have root_t: "FindSharedTensor p t = t"
    using flat_map_root [OF flat, of x] x by (auto simp: shares_rw_def FindSharedTensor_def split: option.splits)
  have same: "AreTensorsAllocatedInSameArena t x ts"
    using x same_shape_at [OF sh] v len by (simp add: AreTensorsAllocatedInSameArena_def shares_rw_def)
  show "same_shape (tensors g) ts'" and "s = x \<or> data_ptr (at ts x) = q \<Longrightarrow> data_ptr (at ts' x) = q"
  proof -
    obtain u where u: "snd (resolve_own p ts ?root) = set_data ts ?root u" using resolve_own_data by blast
    obtain w where w: "snd (resolve_own p ts s) = set_data ts s w" using resolve_own_data by blast
    consider (shared) "?root \<noteq> s" "AreTensorsAllocatedInSameArena ?root s ts"
        "ts' = set_data (set_data ts ?root u) s (data_ptr (at (set_data ts ?root u) ?root))"
      | (own) "\<not> (?root \<noteq> s \<and> AreTensorsAllocatedInSameArena ?root s ts)" "ts' = set_data ts s w"
      using r u w by (auto simp: resolve_flat [OF flat] Let_def split: if_splits)
    then have "same_shape ts ts' \<and> (s = x \<or> data_ptr (at ts x) = q \<longrightarrow> data_ptr (at ts' x) = q)"
    proof cases
      case shared
      have uq: "?root = t \<Longrightarrow> u = q" using u own v set_data_at [of t ts t] by (metis snd_conv)
      have l: "nat s < length (set_data ts ?root u)" using v by (simp add: set_data_def)
      have "data_ptr (at ts' x) = (if x = s then u else if x = ?root then u else data_ptr (at ts x))"
        unfolding shared(3) using v l by (simp add: set_data_at)
      moreover have "x = s \<Longrightarrow> ?root = t" using x by (simp add: shares_rw_def)
      moreover have "x = ?root \<Longrightarrow> x = t"
        using flat_map_root [OF flat, of s] x by (simp add: shares_rw_def FindSharedTensor_def)
      moreover have "same_shape ts ts'"
        unfolding shared(3) by (rule same_shape_trans [OF same_shape_set_data same_shape_set_data])
      ultimately show ?thesis using uq by auto
    next
      case own
      have "x = s \<Longrightarrow> s = t" using own(1) same x by (auto simp: shares_rw_def)
      moreover have "s = t \<Longrightarrow> w = q"
        using w \<open>resolve_own p ts t = _\<close> v set_data_at [of t ts t] by (metis snd_conv)
      ultimately show ?thesis unfolding own(2) using v by (auto simp: set_data_at)
    qed
    then show "same_shape (tensors g) ts'" and "s = x \<or> data_ptr (at ts x) = q \<Longrightarrow> data_ptr (at ts' x) = q"
      using same_shape_trans [OF sh] by auto
  qed
qed

lemma resolve_all_data:
  assumes "flat_map (actual_tensor_id p)" "roots_valid g p" "shares_rw g p x t" "resolves_to g p t q"
    "same_shape (tensors g) ts" "\<forall>s \<in> set todo. valid_tensor g s"
    "resolve_all p ts todo = Some (kTfLiteOk, ts')"
  shows "x \<in> set todo \<or> data_ptr (at ts x) = q \<Longrightarrow> data_ptr (at ts' x) = q"
  using assms(5-7)
proof (induction todo arbitrary: ts)
  case (Cons s todo)
  obtain st us where 1: "ResolveTensorAllocation p ts s = Some (st, us)"
    using Cons.prems(4) by (cases "ResolveTensorAllocation p ts s") auto
  have v: "valid_tensor g s" using Cons.prems(3) by simp
  note step = resolve_step [OF assms(1-4) Cons.prems(2) v 1]
  have "resolve_all p us todo = Some (kTfLiteOk, ts')" using Cons.prems(4) 1 by (auto split: if_splits)
  moreover have "x \<in> set todo \<or> data_ptr (at us x) = q" using Cons.prems(1) step(2) by auto
  ultimately show ?case using Cons.IH [OF _ step(1)] Cons.prems(3) by auto
qed simp

lemma resolve_all_total:
  "flat_map (actual_tensor_id p) \<Longrightarrow> resolve_all p ts todo \<noteq> None"
  by (induction todo arbitrary: ts) (simp_all add: resolve_flat split: prod.splits)

subsection \<open>Temporaries\<close>

definition temp_inv :: "GraphInfo \<Rightarrow> ArenaPlanner \<Rightarrow> ArenaPlanner \<Rightarrow> bool" where
  "temp_inv g p0 p \<longleftrightarrow> allocs p = allocs p0 \<and> arena p = arena p0 \<and> actual_tensor_id p = actual_tensor_id p0 \<and>
     persistent_arena p = persistent_arena p0 \<and> queue_valid g p"

lemma plan_temporary_inv:
  assumes "temp_inv g p0 p" "valid_tensor g t" shows "temp_inv g p0 (plan_temporary i p t)"
proof -
  let ?q = "p\<lparr>alloc_node := (alloc_node p)[nat t := int i]\<rparr>"
  have "queue_valid g ?q" using assms(1) by (simp add: temp_inv_def queue_valid_def)
  then have "queue_valid g (queue_tensor ?q i t)" using assms(2) by (rule queue_valid_insert)
  then show ?thesis
    using assms(1) by (simp add: temp_inv_def plan_temporary_def Let_def queue_valid_def) (simp add: queue_tensor_def)
qed

lemma foldl_inv:
  assumes "I s" "\<And>s x. I s \<Longrightarrow> x \<in> set xs \<Longrightarrow> I (f s x)" shows "I (foldl f s xs)"
  using assms by (induction xs arbitrary: s) auto

lemma plan_temporaries_inv:
  assumes "graph_ok g" "queue_valid g p"
  shows "temp_inv g p (plan_temporaries g f l p)"
  unfolding plan_temporaries_def
proof (rule foldl_inv [of "temp_inv g p"])
  show "temp_inv g p p" using assms(2) by (simp add: temp_inv_def)
next
  fix q i
  assume q: "temp_inv g p q" and "i \<in> set (if f < 0 then [] else filter (\<lambda>i. l < 0 \<or> int i \<le> l) [nat f..<num_execution_nodes g])"
  then have "i < num_execution_nodes g" by (auto split: if_splits)
  then have n: "node_ok g (nodes g ! i)" using assms(1) by (rule graph_ok_node [rotated])
  show "temp_inv g p (foldl (plan_temporary i) q (node_temporaries (nodes g ! i)))"
    by (rule foldl_inv [of "temp_inv g p", OF q plan_temporary_inv]) (use n in \<open>auto simp: node_ok_def list_all_iff\<close>)
qed

lemma plan_temporaries_queue_length:
  "length (nodes_to_tensors (plan_temporaries g f l p)) = length (nodes_to_tensors p)"
proof -
  have one: "length (nodes_to_tensors (plan_temporary i q t)) = length (nodes_to_tensors q)" for i q t
    by (simp add: plan_temporary_def Let_def) (simp add: queue_tensor_def)
  have "length (nodes_to_tensors (foldl (plan_temporary i) q ts)) = length (nodes_to_tensors q)" for i q ts
    by (rule foldl_inv [of "\<lambda>s. length (nodes_to_tensors s) = length (nodes_to_tensors q)"]) (simp_all add: one)
  then show ?thesis
    unfolding plan_temporaries_def
    by (intro foldl_inv [of "\<lambda>s. length (nodes_to_tensors s) = length (nodes_to_tensors p)"]) (simp_all add: one)
qed

subsection \<open>Placement pass\<close>

lemma GetTensorsToAllocate_valid:
  assumes "queue_valid g p" "0 \<le> f" "l < int (length (nodes_to_tensors p))" "t \<in> set (GetTensorsToAllocate p f l)"
  shows "valid_tensor g t"
proof -
  obtain i where "f \<le> i" "i \<le> l" "t \<in> set (at (nodes_to_tensors p) i)"
    using assms(4) by (auto simp: GetTensorsToAllocate_def)
  moreover have "at (nodes_to_tensors p) i \<in> set (nodes_to_tensors p)"
    using assms(2,3) \<open>f \<le> i\<close> \<open>i \<le> l\<close> by (intro nth_mem) linarith
  ultimately show ?thesis using assms(1) by (auto simp: queue_valid_def)
qed

lemma CalculateAllocations_placed:
  assumes r: "CalculateAllocations srt g p f l = (kTfLiteOk, p', ts)"
    and srt: "\<And>cmp xs. set (srt cmp xs) = set xs"
    and len: "length (allocs p) = num_tensors g" and ai: "arena_inv (arena p)"
    and v: "\<forall>t \<in> set (GetTensorsToAllocate p f l). valid_tensor g t"
  shows "set ts = {t \<in> set (GetTensorsToAllocate p f l). needs_allocation p g t}"
    and "placed_inv g (set ts) p'" and "same_plan p p'"
proof -
  define kept where "kept = filter (needs_allocation p g) (GetTensorsToAllocate p f l)"
  define p1 where "p1 = (if f < last_active_node p then p\<lparr>arena := ResetAllocs (arena p), last_active_node := f\<rparr>
                     else p\<lparr>arena := PurgeActiveAllocs (arena p) f\<rparr>)"
  have 0: "arena_inv (ResetAllocs (arena p))" by (simp add: ResetAllocs_def arena_inv_def)
  have 1: "placed_inv g {} p1"
    using len ai 0 PurgeActiveAllocs_arena_inv by (auto simp: p1_def placed_inv_def)
  have "underlying_buffer (PurgeActiveAllocs (arena p) f) = underlying_buffer (arena p)"
    by (simp add: PurgeActiveAllocs_def)
  then have s1: "same_plan p p1"
    by (auto simp: p1_def same_plan_def ResetAllocs_def)
  have "set ts = set kept \<and> placed_inv g (set ts) p' \<and> same_plan p p'"
  proof (cases "kept = []")
    case True
    then have "ts = []" "p' = p\<lparr>last_active_node := l\<rparr>"
      using r by (auto simp: CalculateAllocations_def kept_def Let_def split: if_splits)
    then show ?thesis using len ai True by (simp add: placed_inv_def same_plan_def)
  next
    case False
    then obtain p2 where p2: "for_status (allocate_tensor g) p1 ts = (kTfLiteOk, p2)"
      "p' = p2\<lparr>last_active_node := l\<rparr>" and ts: "ts = srt (tensor_compare p1 g) kept"
      using r by (auto simp: CalculateAllocations_def kept_def [symmetric] Let_def p1_def [symmetric]
          CreateTensorAllocationVector_def split: prod.splits if_splits)
    have "set ts = set kept" by (simp add: ts srt)
    moreover from this v have "\<forall>t \<in> set ts. valid_tensor g t" by (auto simp: kept_def)
    from allocate_all_placed [OF 1 this p2(1)] have "placed_inv g (set ts) p2" "same_plan p1 p2" by auto
    ultimately show ?thesis
      using same_plan_trans [OF s1 \<open>same_plan p1 p2\<close>]
      by (auto simp: p2(2) placed_inv_def same_plan_def rw_owner_def owns_range_def)
  qed
  then show "set ts = {t \<in> set (GetTensorsToAllocate p f l). needs_allocation p g t}"
    "placed_inv g (set ts) p'" "same_plan p p'" by (auto simp: kept_def)
qed

lemma CommitArenas_Ok:
  assumes "CommitArenas P h p b = (kTfLiteOk, re, p', h')"
  obtains re1 m h1 m2 where "Commit P h (arena p) (Some False) = (kTfLiteOk, re1, m, h1)"
    "p' = p\<lparr>arena := m, has_nonpersistent_memory := True, persistent_arena := m2\<rparr>"
  using assms by (auto simp: CommitArenas_def Let_def split: prod.splits if_splits)

lemma owner_resolves:
  assumes P: "valid_platform P" and b: "buffer_inv h (underlying_buffer (arena p))"
    and c: "CommitArenas P h p re0 = (kTfLiteOk, re, p', h')" and inv: "placed_inv g T p"
    and t: "t \<in> T" "rw_owner g p t"
  shows "resolves_to g p' t (BasePointer (arena p') + offset (at (allocs p) t))"
    and "unat (BasePointer (arena p') + offset (at (allocs p) t)) =
         unat (BasePointer (arena p')) + unat (offset (at (allocs p) t))"
proof -
  let ?a = "at (allocs p) t"
  obtain re1 m h1 m2 where 1: "Commit P h (arena p) (Some False) = (kTfLiteOk, re1, m, h1)"
    and p': "p' = p\<lparr>arena := m, has_nonpersistent_memory := True, persistent_arena := m2\<rparr>"
    using CommitArenas_Ok [OF c] by blast
  have own: "?a \<in> set (active_allocs (arena p))" "alloc_size ?a = bytes (at (tensors g) t)"
    and ai: "arena_inv (arena p)"
    using inv t by (auto simp: placed_inv_def owns_range_def Let_def)
  note cr = Commit_resolves [OF P ai b 1 own(1)]
  show "unat (BasePointer (arena p') + offset ?a) = unat (BasePointer (arena p')) + unat (offset ?a)"
    using cr(2) by (simp add: p')
  have sz: "alloc_size ?a \<noteq> 0" using own(2) t(2) by (simp add: rw_owner_def)
  have v: "nat t < length (tensors g)" and rw: "allocation_type (at (tensors g) t) = kTfLiteArenaRw"
    using t(2) by (auto simp: rw_owner_def valid_tensor_def)
  show "resolves_to g p' t (BasePointer (arena p') + offset ?a)"
    unfolding resolves_to_def
  proof (intro allI impI)
    fix ts assume "same_shape (tensors g) ts"
    from same_shape_at(1) [OF this v] rw have "allocation_type (at ts t) = kTfLiteArenaRw" by simp
    then show "resolve_own p' ts t = (kTfLiteOk, set_data ts t (BasePointer (arena p') + offset ?a))"
      using sz cr(1) by (simp add: resolve_own_def Let_def p')
  qed
qed

subsection \<open>The whole execution\<close>

lemma resize_list_id [simp]: "length xs = n \<Longrightarrow> resize_list n d xs = xs"
  by (simp add: resize_list_def)

lemma ExecuteAllocations_split:
  assumes g: "graph_ok g" and pl: "PlanAllocations p0 g = (kTfLiteOk, p)"
    and r: "ExecuteAllocations srt P h p g f l = Some (kTfLiteOk, p', g', h')"
  obtains p2 p3 todo re ts ts' where "temp_inv g p p2"
    "length (nodes_to_tensors p2) = max (num_execution_nodes g) 1"
    "CalculateAllocations srt g p2 f l = (kTfLiteOk, p3, ts)"
    "CommitArenas P h p3 False = (kTfLiteOk, re, p', h')"
    "todo = ts \<or> todo = map int [0..<num_tensors g]"
    "resolve_all p' (tensors g) todo = Some (kTfLiteOk, ts')" "g' = g\<lparr>tensors := ts'\<rparr>"
proof -
  note pd = PlanAllocations_OkD [OF g pl]
  have len: "length (alloc_node p) = num_tensors g" "length (dealloc_node p) = num_tensors g"
    "length (allocs p) = num_tensors g" "length (nodes_to_tensors p) = max (num_execution_nodes g) 1"
    using pd(2) by (auto simp: planned_def plan_inv_def)
  define p2 where "p2 = plan_temporaries g f l p"
  have "p\<lparr>alloc_node := resize_list (num_tensors g) kNodeNotAssigned (alloc_node p),
          dealloc_node := resize_list (num_tensors g) kNodeNotAssigned (dealloc_node p),
          allocs := resize_list (num_tensors g) alloc_reset (allocs p)\<rparr> = p" using len by simp
  then have ex: "ExecuteAllocations srt P h p g f l =
     (case CalculateAllocations srt g p2 f l of
              (st, p3, tensors_allocated) \<Rightarrow>
                if st \<noteq> kTfLiteOk then Some (st, p3, g, h)
                else (case CommitArenas P h p3 False of
                        (st2, arena_reallocated, p4, h') \<Rightarrow>
                          if st2 \<noteq> kTfLiteOk then Some (st2, p4, g, h')
                          else
                            let todo = (if arena_reallocated then map int [0..<num_tensors g] else tensors_allocated)
                            in map_option (\<lambda>(st3, ts). (st3, p4, g\<lparr>tensors := ts\<rparr>, h'))
                                 (resolve_all p4 (tensors g) todo)))"
    using len by (simp add: ExecuteAllocations_def Let_def p2_def)
  obtain st p3 ts where c: "CalculateAllocations srt g p2 f l = (st, p3, ts)"
    by (cases "CalculateAllocations srt g p2 f l")
  obtain st2 re p4 h4 where m: "CommitArenas P h p3 False = (st2, re, p4, h4)"
    by (cases "CommitArenas P h p3 False")
  define todo where "todo = (if re then map int [0..<num_tensors g] else ts)"
  have ok: "st = kTfLiteOk" "st2 = kTfLiteOk" using r ex c m by (auto split: if_splits)
  then have "map_option (\<lambda>(st3, ts). (st3, p4, g\<lparr>tensors := ts\<rparr>, h4)) (resolve_all p4 (tensors g) todo) =
      Some (kTfLiteOk, p', g', h')"
    using r ex c m by (simp add: todo_def Let_def)
  then obtain ts' where "resolve_all p4 (tensors g) todo = Some (kTfLiteOk, ts')" "p4 = p'" "h4 = h'"
    "g' = g\<lparr>tensors := ts'\<rparr>" by auto
  moreover have t: "temp_inv g p p2"
    unfolding p2_def by (rule plan_temporaries_inv [OF g PlanAllocations_queue [OF g pl]])
  moreover have "length (nodes_to_tensors p2) = length (nodes_to_tensors p)"
    unfolding p2_def by (rule plan_temporaries_queue_length)
  ultimately show thesis using that [OF t, of p3 ts re todo ts'] c m ok len by (auto simp: todo_def)
qed

lemma flat_root_self: "flat_map (actual_tensor_id p) \<Longrightarrow> FindSharedTensor p (FindSharedTensor p t) = FindSharedTensor p t"
  using flat_map_root [of p t] by (simp add: FindSharedTensor_def)

lemma mem_indices: "valid_tensor g t \<longleftrightarrow> t \<in> set (map int [0..<num_tensors g])"
  by (auto simp: valid_tensor_def image_iff) (metis atLeastLessThan_iff int_nat_eq zero_le)

lemma roots_valid_le: "roots_valid g p \<Longrightarrow> actual_tensor_id p' \<subseteq>\<^sub>m actual_tensor_id p \<Longrightarrow> roots_valid g p'"
  unfolding roots_valid_def map_le_def by (metis domI)

text \<open>
  The tensors whose memory the run over nodes \<open>f\<close> to \<open>l\<close> has to provide: queued there, in the
  non-persistent arena, not empty, and sharing the buffer of a tensor that is queued there as well.
\<close>

definition run_tensor :: "GraphInfo \<Rightarrow> ArenaPlanner \<Rightarrow> int \<Rightarrow> int \<Rightarrow> int \<Rightarrow> bool" where
  "run_tensor g p f l x \<longleftrightarrow> x \<in> set (GetTensorsToAllocate p f l) \<and>
     FindSharedTensor p x \<in> set (GetTensorsToAllocate p f l) \<and>
     allocation_type (at (tensors g) x) = kTfLiteArenaRw \<and> bytes (at (tensors g) x) \<noteq> 0"

lemma ExecuteAllocations_data:
  assumes g: "graph_ok g" and topo: "reads_follow_writes [] (nodes g)" and pl: "PlanAllocations p0 g = (kTfLiteOk, p)"
    and P: "valid_platform P" and b: "buffer_inv h (underlying_buffer (arena p))"
    and srt: "\<And>cmp xs. set (srt cmp xs) = set xs"
    and r: "ExecuteAllocations srt P h p g f l = Some (kTfLiteOk, p', g', h')"
    and fl: "0 \<le> f" "l < int (max (num_execution_nodes g) 1)"
  shows "arena_inv (arena p')"
    and "run_tensor g p' f l x \<Longrightarrow> owns_range g p' (FindSharedTensor p' x) \<and>
      bytes (at (tensors g) (FindSharedTensor p' x)) = bytes (at (tensors g) x) \<and>
      data_ptr (at (tensors g') x) = BasePointer (arena p') + offset (at (allocs p') (FindSharedTensor p' x)) \<and>
      unat (data_ptr (at (tensors g') x)) =
        unat (BasePointer (arena p')) + unat (offset (at (allocs p') (FindSharedTensor p' x)))"
proof -
  obtain p2 p3 todo re ts ts' where t2: "temp_inv g p p2"
    and q2: "length (nodes_to_tensors p2) = max (num_execution_nodes g) 1"
    and c: "CalculateAllocations srt g p2 f l = (kTfLiteOk, p3, ts)"
    and m: "CommitArenas P h p3 False = (kTfLiteOk, re, p', h')"
    and todo: "todo = ts \<or> todo = map int [0..<num_tensors g]"
    and res: "resolve_all p' (tensors g) todo = Some (kTfLiteOk, ts')" "g' = g\<lparr>tensors := ts'\<rparr>"
    by (rule ExecuteAllocations_split [OF g pl r])
  note pd = PlanAllocations_OkD(2) [OF g pl]
  have al: "allocs p2 = replicate (num_tensors g) alloc_reset" "arena p2 = arena p"
    "actual_tensor_id p2 = actual_tensor_id p" "queue_valid g p2"
    using t2 pd by (auto simp: temp_inv_def planned_def)
  have ai: "arena_inv (arena p2)" using pd al by (simp add: planned_def arena_inv_def)
  have v2: "\<forall>t \<in> set (GetTensorsToAllocate p2 f l). valid_tensor g t"
    using GetTensorsToAllocate_valid [OF al(4) fl(1)] fl(2) q2 by simp
  note ca = CalculateAllocations_placed [OF c srt _ ai v2]
  have placed: "placed_inv g (set ts) p3" and sp: "same_plan p2 p3"
    and ts: "set ts = {t \<in> set (GetTensorsToAllocate p2 f l). needs_allocation p2 g t}"
    using ca al(1) by simp_all
  obtain re1 mm h1 m2 where m1: "Commit P h (arena p3) (Some False) = (kTfLiteOk, re1, mm, h1)"
    and p': "p' = p3\<lparr>arena := mm, has_nonpersistent_memory := True, persistent_arena := m2\<rparr>"
    using CommitArenas_Ok [OF m] by blast
  have mm: "active_allocs mm = active_allocs (arena p3)" "high_water_mark mm = high_water_mark (arena p3)"
    using m1 by (auto elim!: Commit_Ok)
  show "arena_inv (arena p')" using placed mm by (simp add: p' placed_inv_def arena_inv_def)
  assume x: "run_tensor g p' f l x"
  define t where "t = FindSharedTensor p' x"
  have "GetTensorsToAllocate p' f l = GetTensorsToAllocate p2 f l"
    using sp by (simp add: p' same_plan_def GetTensorsToAllocate_def)
  then have xs: "x \<in> set (GetTensorsToAllocate p2 f l)" "t \<in> set (GetTensorsToAllocate p2 f l)"
    and xr: "allocation_type (at (tensors g) x) = kTfLiteArenaRw" "bytes (at (tensors g) x) \<noteq> 0"
    using x by (auto simp: run_tensor_def t_def)
  have need: "s \<in> set ts" if "s \<in> set (GetTensorsToAllocate p2 f l)"
    "allocation_type (at (tensors g) s) = kTfLiteArenaRw" "bytes (at (tensors g) s) \<noteq> 0" for s
    using that v2 al(1) by (auto simp: ts needs_allocation_def dealloc_replicate alloc_reset_def word_neq_0_conv)
  have flat: "flat_map (actual_tensor_id p')" and roots: "roots_valid g p'"
    using PlanAllocations_flat [OF g topo pl] sp pd al(3) flat_map_le roots_valid_le [of g p]
    by (auto simp: p' same_plan_def planned_def roots_valid_def)
  have tx: "allocation_type (at (tensors g) t) = kTfLiteArenaRw \<and> bytes (at (tensors g) t) = bytes (at (tensors g) x)"
    using placed need [OF xs(1) xr] xr
    by (cases "actual_tensor_id p3 x") (auto simp: t_def FindSharedTensor_def p' placed_inv_def)
  have tt: "t \<in> set ts" using need [OF xs(2)] tx xr by simp
  have own: "rw_owner g p3 t"
    using tx xr v2 xs(2) flat_map_root [OF flat, of x] by (simp add: rw_owner_def t_def p')
  have b3: "buffer_inv h (underlying_buffer (arena p3))" using b sp al(2) by (simp add: same_plan_def)
  note rs = owner_resolves [OF P b3 m placed tt own]
  have "shares_rw g p' x t" using tx xr v2 xs by (auto simp: shares_rw_def t_def)
  moreover have "\<forall>s \<in> set todo. valid_tensor g s" using todo v2 ts mem_indices [of g] by auto
  moreover have "x \<in> set todo" using todo need [OF xs(1) xr] mem_indices [of g x] v2 xs(1) by auto
  ultimately have "data_ptr (at ts' x) = BasePointer (arena p') + offset (at (allocs p3) t)"
    using resolve_all_data [OF flat roots _ rs(1) _ _ res(1)] by (simp add: same_shape_def)
  moreover have "owns_range g p3 t" using placed tt own by (simp add: placed_inv_def)
  ultimately show "owns_range g p' (FindSharedTensor p' x) \<and>
      bytes (at (tensors g) (FindSharedTensor p' x)) = bytes (at (tensors g) x) \<and>
      data_ptr (at (tensors g') x) = BasePointer (arena p') + offset (at (allocs p') (FindSharedTensor p' x)) \<and>
      unat (data_ptr (at (tensors g') x)) =
        unat (BasePointer (arena p')) + unat (offset (at (allocs p') (FindSharedTensor p' x)))"
    unfolding t_def [symmetric]
    using rs(2) tx res(2) mm(1) by (simp add: owns_range_def Let_def) (simp add: p')
qed

section \<open>A concrete run\<close>

fun insert_by :: "(int \<Rightarrow> int \<Rightarrow> bool) \<Rightarrow> int \<Rightarrow> int list \<Rightarrow> int list" where
  "insert_by lt x [] = [x]"
| "insert_by lt x (y # ys) = (if lt x y then x # y # ys else y # insert_by lt x ys)"

definition insertion_sort :: "(int \<Rightarrow> int \<Rightarrow> bool) \<Rightarrow> int list \<Rightarrow> int list" where
  "insertion_sort lt xs = foldl (\<lambda>acc x. insert_by lt x acc) [] xs"

lemma mset_insert_by [simp]: "mset (insert_by lt x ys) = add_mset x (mset ys)"
  by (induction ys) auto

lemma mset_insertion_sort: "mset (insertion_sort lt xs) = mset xs"
proof -
  have "mset (foldl (\<lambda>acc x. insert_by lt x acc) acc xs) = mset acc + mset xs" for acc
    by (induction xs arbitrary: acc) auto
  then show ?thesis by (simp add: insertion_sort_def)
qed

lemma set_insertion_sort: "set (insertion_sort lt xs) = set xs"
  using mset_insertion_sort by (rule mset_eq_setD)

lemmas exec_defs = ExecuteAllocations_def plan_temporaries_def CalculateAllocations_def GetTensorsToAllocate_def
  needs_allocation_def CreateTensorAllocationVector_def insertion_sort_def tensor_compare_def whole_run_def
  allocate_tensor_def allocate_owned_def Allocate_def CheckedAdd_def CheckedAlignTo_def insert_upper_bound_def
  ResetAllocs_def PurgeActiveAllocs_def CommitArenas_def Commit_def Resize_def AlignedRealloc_def AlignedAlloc_def AlignedFree_def
  one_block_platform_def block_add_def free_def empty_heap_def null_pair_def new_arena_def new_buffer_def
  resolve_flat resolve_own_def ResolveAlloc_def set_data_def alloc_reset_def

definition line_placed :: "ArenaAllocWithUsageInterval list" where
  "line_placed = [demo_alloc 0 16 0 0 kNodeNotAssigned, demo_alloc 64 40 1 0 1, demo_alloc 128 16 2 1 kNodeNotAssigned]"

lemma line_graph_calc:
  "CalculateAllocations insertion_sort line_graph line_planner 0 1 =
   (kTfLiteOk, line_planner\<lparr>allocs := line_placed, last_active_node := 1,
      arena := (new_arena 64)\<lparr>high_water_mark := 144, active_allocs := line_placed\<rparr>\<rparr>, [0, 1, 2])"
  by (simp add: line_graph_def plain_node_def rw_tensor_def line_planner_def line_placed_def new_planner_def exec_defs demo_alloc_def
     Let_def upto_rec1  cong: eval_congs)

definition line_final :: ArenaPlanner where
  "line_final = line_planner\<lparr>allocs := line_placed, last_active_node := 1, has_nonpersistent_memory := True,
      arena := (new_arena 64)\<lparr>high_water_mark := 144, active_allocs := line_placed, committed := True,
        underlying_buffer := \<lparr>buf_pair = \<lparr>pointer = 4096, aligned_pointer = 4096\<rparr>, data_size = 144,
          buf_alignment = 64\<rparr>\<rparr>,
      persistent_arena := (new_arena 64)\<lparr>committed := True\<rparr>\<rparr>"

definition line_heap :: heap where
  "line_heap = \<lparr>heap_bytes = (\<lambda>_. 0), heap_blocks = [4096 \<mapsto> 256]\<rparr>"

lemma line_commit:
  "CommitArenas one_block_platform empty_heap (line_planner\<lparr>allocs := line_placed, last_active_node := 1,
      arena := (new_arena 64)\<lparr>high_water_mark := 144, active_allocs := line_placed\<rparr>\<rparr>) False =
   (kTfLiteOk, True, line_final, line_heap)"
  by (simp add: line_planner_def line_final_def line_heap_def new_planner_def exec_defs Let_def cong: eval_congs)

lemma line_resolve:
  "resolve_all line_final (tensors line_graph) [0, 1, 2] =
   Some (kTfLiteOk, [(rw_tensor 16)\<lparr>data_ptr := 4096\<rparr>, (rw_tensor 40)\<lparr>data_ptr := 4160\<rparr>, (rw_tensor 16)\<lparr>data_ptr := 4224\<rparr>])"
proof -
  have "flat_map (actual_tensor_id line_final)"
    by (simp add: flat_map_def line_final_def line_planner_def new_planner_def)
  then show ?thesis
  by (simp add: line_graph_def rw_tensor_def line_planner_def line_final_def new_planner_def line_placed_def demo_alloc_def
     resolve_flat resolve_own_def ResolveAlloc_def set_data_def new_arena_def CheckedAdd_def FindSharedTensor_def Let_def cong: eval_congs)
qed

lemma line_graph_execute:
  "ExecuteAllocations insertion_sort one_block_platform empty_heap line_planner line_graph 0 1 =
   Some (kTfLiteOk, line_final, line_graph\<lparr>tensors := [(rw_tensor 16)\<lparr>data_ptr := 4096\<rparr>,
      (rw_tensor 40)\<lparr>data_ptr := 4160\<rparr>, (rw_tensor 16)\<lparr>data_ptr := 4224\<rparr>]\<rparr>, line_heap)"
proof -
  have n: "num_tensors line_graph = 3" "num_execution_nodes line_graph = 2" by (simp_all add: line_graph_def)
  have t: "plan_temporaries line_graph 0 1 line_planner = line_planner"
    by (simp add: plan_temporaries_def line_graph_def plain_node_def upt_rec)
  have "line_planner\<lparr>alloc_node := resize_list 3 kNodeNotAssigned (alloc_node line_planner),
      dealloc_node := resize_list 3 kNodeNotAssigned (dealloc_node line_planner),
      allocs := resize_list 3 alloc_reset (allocs line_planner)\<rparr> = line_planner"
    by (simp add: line_planner_def)
  then show ?thesis
    using line_resolve by (simp add: ExecuteAllocations_def Let_def n t line_graph_calc line_commit upt_rec) (simp add: line_planner_def)
qed

section \<open>Properties of execution\<close>

lemma arena_inv_sep:
  assumes "arena_inv m" "a \<in> set (active_allocs m)" "b \<in> set (active_allocs m)" "a \<noteq> b"
  shows "alloc_sep a b"
proof -
  have "sorted_wrt alloc_sep (active_allocs m)" using assms(1) by (simp add: arena_inv_def)
  then show ?thesis by (rule sorted_wrt_nth_distinct [OF _ alloc_sep_sym assms(2-4)])
qed

lemma allocate_owned_actual: "allocate_owned g p t = (st, p') \<Longrightarrow> actual_tensor_id p' = actual_tensor_id p"
  by (auto simp: allocate_owned_def Let_def ensure_status_def split: prod.splits if_splits)

lemma allocate_tensor_actual:
  assumes "allocate_tensor g p t = (st, p')" shows "actual_tensor_id p' \<subseteq>\<^sub>m actual_tensor_id p"
proof -
  have del: "m(t := None) \<subseteq>\<^sub>m m" for m :: "int \<rightharpoonup> int" by (simp add: map_le_def)
  consider "p' = p" | "allocate_owned g p t = (st, p')"
    | "allocate_owned g (p\<lparr>actual_tensor_id := (actual_tensor_id p)(t := None)\<rparr>) t = (st, p')"
    using assms by (auto simp: allocate_tensor_def split: option.splits if_splits)
  then show ?thesis
  proof cases
    case 3
    from allocate_owned_actual [OF this] del show ?thesis by simp
  qed (use allocate_owned_actual in auto)
qed

interpretation allocate_loop: status_loop "allocate_tensor g" "\<lambda>p. actual_tensor_id p \<subseteq>\<^sub>m m" "\<lambda>_. True" for g m
  by unfold_locales (blast intro: map_le_trans allocate_tensor_actual)

lemma CalculateAllocations_actual:
  assumes "CalculateAllocations srt g p f l = (st, p', ts)"
  shows "actual_tensor_id p' \<subseteq>\<^sub>m actual_tensor_id p"
proof -
  define p1 where "p1 = (if f < last_active_node p then p\<lparr>arena := ResetAllocs (arena p), last_active_node := f\<rparr>
                     else p\<lparr>arena := PurgeActiveAllocs (arena p) f\<rparr>)"
  have "actual_tensor_id p1 = actual_tensor_id p" by (simp add: p1_def)
  moreover have "actual_tensor_id q \<subseteq>\<^sub>m actual_tensor_id p1"
    if "for_status (allocate_tensor g) p1 us = (st, q)" for us st q
    using allocate_loop.loop_inv [OF map_le_refl _ that] by (simp add: list_all_iff)
  ultimately show ?thesis
    using assms unfolding CalculateAllocations_def Let_def p1_def [symmetric]
    by (auto split: if_splits prod.splits)
qed

text \<open>C1: After planning and executing the plan of a topologically ordered graph, two tensors of the
  non-persistent arena that use different buffers with intersecting lifetimes have data pointers
  whose byte ranges are disjoint, and tensors that share a buffer have the same pointer and size.\<close>

theorem ExecuteAllocations_no_overlap:
  assumes "graph_ok g" and "reads_follow_writes [] (nodes g)" and "PlanAllocations p0 g = (kTfLiteOk, p)"
    and "valid_platform P" and "buffer_inv h (underlying_buffer (arena p))"
    and "\<And>cmp xs. set (srt cmp xs) = set xs"
    and "ExecuteAllocations srt P h p g f l = Some (kTfLiteOk, p', g', h')"
    and "0 \<le> f" and "l < int (max (num_execution_nodes g) 1)"
    and "run_tensor g p' f l x" and "run_tensor g p' f l y"
    and "at (alloc_node p') (FindSharedTensor p' x) \<le> at (dealloc_node p') (FindSharedTensor p' y)"
    and "at (alloc_node p') (FindSharedTensor p' y) \<le> at (dealloc_node p') (FindSharedTensor p' x)"
  shows "if FindSharedTensor p' x = FindSharedTensor p' y
         then data_ptr (at (tensors g') x) = data_ptr (at (tensors g') y) \<and>
              bytes (at (tensors g) x) = bytes (at (tensors g) y)
         else ranges_disjoint (data_ptr (at (tensors g') x)) (bytes (at (tensors g) x))
                (data_ptr (at (tensors g') y)) (bytes (at (tensors g) y))"
proof -
  note d = ExecuteAllocations_data [OF assms(1-9)]
  let ?a = "at (allocs p') (FindSharedTensor p' x)" and ?b = "at (allocs p') (FindSharedTensor p' y)"
  have own: "owns_range g p' (FindSharedTensor p' x)" "owns_range g p' (FindSharedTensor p' y)"
    using d(2) assms(10,11) by blast+
  have "ranges_disjoint (offset ?a) (alloc_size ?a) (offset ?b) (alloc_size ?b)"
    if "FindSharedTensor p' x \<noteq> FindSharedTensor p' y"
  proof -
    have "tensor ?a = FindSharedTensor p' x" "tensor ?b = FindSharedTensor p' y"
      using own by (simp_all add: owns_range_def Let_def)
    with that have "?a \<noteq> ?b" by metis
    moreover have "?a \<in> set (active_allocs (arena p'))" "?b \<in> set (active_allocs (arena p'))"
      using own by (simp_all add: owns_range_def Let_def)
    ultimately have "alloc_sep ?a ?b"
      using arena_inv_sep [OF d(1)] by blast
    then show ?thesis using own assms(12,13) by (simp add: alloc_sep_def conflicts_def owns_range_def Let_def)
  qed
  moreover have "alloc_size ?a = bytes (at (tensors g) x)" "alloc_size ?b = bytes (at (tensors g) y)"
    using d(2) [OF assms(10)] d(2) [OF assms(11)] own by (simp_all add: owns_range_def Let_def)
  moreover have "data_ptr (at (tensors g') x) = BasePointer (arena p') + offset ?a"
    "unat (data_ptr (at (tensors g') x)) = unat (BasePointer (arena p')) + unat (offset ?a)"
    "data_ptr (at (tensors g') y) = BasePointer (arena p') + offset ?b"
    "unat (data_ptr (at (tensors g') y)) = unat (BasePointer (arena p')) + unat (offset ?b)"
    using d(2) [OF assms(10)] d(2) [OF assms(11)] by blast+
  ultimately show ?thesis
    by (cases "FindSharedTensor p' x = FindSharedTensor p' y") (auto simp: ranges_disjoint_def)
qed

theorem ExecuteAllocations_no_overlap_witness:
  "ranges_disjoint (4096::ptr) 16 4160 40"
proof -
  have r: "run_tensor line_graph line_final 0 1 0" "run_tensor line_graph line_final 0 1 1"
    by (simp_all add: run_tensor_def line_graph_def line_final_def line_planner_def new_planner_def rw_tensor_def
        GetTensorsToAllocate_def FindSharedTensor_def upto_rec1)
  have b: "buffer_inv empty_heap (underlying_buffer (arena line_planner))"
    by (simp add: buffer_inv_def line_planner_def new_planner_def new_arena_def new_buffer_def null_pair_def)
  from ExecuteAllocations_no_overlap [OF line_graph_ok line_graph_plan one_block_platform_valid b
      set_insertion_sort line_graph_execute _ _ r]
  show ?thesis
    by (simp add: line_graph_def rw_tensor_def line_final_def line_planner_def new_planner_def FindSharedTensor_def)
qed

text \<open>Executing the plan of a topologically ordered graph always returns: following the sharing
  map in \<open>ResolveTensorAllocation\<close> ends after one step.\<close>

theorem ExecuteAllocations_returns:
  assumes "graph_ok g" and "reads_follow_writes [] (nodes g)" and "PlanAllocations p0 g = (kTfLiteOk, p)"
  shows "\<exists>r. ExecuteAllocations srt P h p g f l = Some r"
proof -
  let ?n = "num_tensors g"
  define p1 where "p1 = p\<lparr>alloc_node := resize_list ?n kNodeNotAssigned (alloc_node p),
      dealloc_node := resize_list ?n kNodeNotAssigned (dealloc_node p), allocs := resize_list ?n alloc_reset (allocs p)\<rparr>"
  have q1: "queue_valid g p1" using PlanAllocations_queue [OF assms(1,3)] by (simp add: p1_def queue_valid_def)
  define p2 where "p2 = plan_temporaries g f l p1"
  have f2: "flat_map (actual_tensor_id p2)"
    using plan_temporaries_inv [OF assms(1) q1] PlanAllocations_flat [OF assms]
    by (simp add: temp_inv_def p2_def p1_def)
  obtain st p3 ts where c: "CalculateAllocations srt g p2 f l = (st, p3, ts)"
    by (cases "CalculateAllocations srt g p2 f l")
  obtain st2 re p4 h4 where m: "CommitArenas P h p3 False = (st2, re, p4, h4)"
    by (cases "CommitArenas P h p3 False")
  have "actual_tensor_id p4 = actual_tensor_id p3"
    using m by (auto simp: CommitArenas_def Let_def split: prod.splits if_splits)
  then have "flat_map (actual_tensor_id p4)"
    using flat_map_le [OF f2 CalculateAllocations_actual [OF c]] by simp
  then have "resolve_all p4 (tensors g) todo \<noteq> None" for todo by (rule resolve_all_total)
  then show ?thesis
    unfolding ExecuteAllocations_def Let_def p1_def [symmetric] p2_def [symmetric]
    by (auto simp: c m)
qed

theorem ExecuteAllocations_returns_witness:
  "\<exists>r. ExecuteAllocations insertion_sort one_block_platform empty_heap line_planner line_graph 0 7 = Some r"
  by (rule ExecuteAllocations_returns [OF line_graph_ok line_graph_plan])

text \<open>
  The order in which tensors are placed: tensors that live for the whole run by index, then the others
  by descending size and ascending first use.
\<close>

definition placement_key :: "ArenaPlanner \<Rightarrow> GraphInfo \<Rightarrow> int \<Rightarrow> int \<times> int \<times> int" where
  "placement_key p g t =
     (if whole_run p t then (0, t, 0)
      else (1, - uint (bytes (at (tensors g) t)), at (alloc_node p) t))"

definition key_less :: "int \<times> int \<times> int \<Rightarrow> int \<times> int \<times> int \<Rightarrow> bool" where
  "key_less = (\<lambda>(a, b, c) (a', b', c'). a < a' \<or> a = a' \<and> (b < b' \<or> b = b' \<and> c < c'))"

lemma tensor_compare_key: "tensor_compare p g s t \<longleftrightarrow> key_less (placement_key p g s) (placement_key p g t)"
  by (auto simp: tensor_compare_def placement_key_def key_less_def Let_def word_less_def word_uint_eq_iff)

text \<open>The comparator handed to \<open>std::sort\<close> is a strict weak ordering, as the sort requires: it is
  irreflexive and transitive, and so is being equivalent; it puts every tensor that lives for the whole run before
  every tensor that does not.\<close>

theorem tensor_compare_strict_weak_order:
  "\<not> tensor_compare p g s s \<and>
   (tensor_compare p g s t \<and> tensor_compare p g t u \<longrightarrow> tensor_compare p g s u) \<and>
   (\<not> tensor_compare p g s t \<and> \<not> tensor_compare p g t s \<and> \<not> tensor_compare p g t u \<and> \<not> tensor_compare p g u t \<longrightarrow>
      \<not> tensor_compare p g s u \<and> \<not> tensor_compare p g u s) \<and>
   (whole_run p s \<and> \<not> whole_run p t \<longrightarrow> tensor_compare p g s t)"
proof (intro conjI)
  show "whole_run p s \<and> \<not> whole_run p t \<longrightarrow> tensor_compare p g s t" by (simp add: tensor_compare_def)
qed (cases "placement_key p g s"; cases "placement_key p g t"; cases "placement_key p g u";
     auto simp: tensor_compare_key key_less_def)+

theorem tensor_compare_strict_weak_order_witness:
  "tensor_compare line_planner line_graph 0 1 \<and> \<not> tensor_compare line_planner line_graph 1 1"
  using tensor_compare_strict_weak_order [of line_planner line_graph 1 1 1]
    tensor_compare_strict_weak_order [of line_planner line_graph 0 1 2]
  by (simp add: whole_run_def line_planner_def)

text \<open>Releasing the non-persistent memory frees the arena's block, clears the data pointer of exactly the
  tensors of that arena, forgets no placement, and is remembered until memory is acquired again.\<close>

theorem ReleaseNonPersistentMemory_effect:
  assumes "ReleaseNonPersistentMemory h p g = (st, p', g', h')" and "buffer_inv h (underlying_buffer (arena p))"
  shows "st = kTfLiteOk \<and> \<not> HasNonPersistentMemory p' \<and> fst (GetAllocInfo p') = 0 \<and>
    planner_BasePointer p' kTfLiteArenaRwPersistent = planner_BasePointer p kTfLiteArenaRwPersistent \<and>
    allocs p' = allocs p \<and> active_allocs (arena p') = active_allocs (arena p) \<and>
    (\<forall>i < num_tensors g. data_ptr (tensors g' ! i) =
       (if allocation_type (tensors g ! i) = kTfLiteArenaRw then nullptr else data_ptr (tensors g ! i))) \<and>
    buffer_inv h' (underlying_buffer (arena p')) \<and>
    heap_blocks h' (pointer (buf_pair (underlying_buffer (arena p)))) =
      (if pointer (buf_pair (underlying_buffer (arena p))) = nullptr then heap_blocks h nullptr else None)"
proof -
  obtain b where b: "Release h (underlying_buffer (arena p)) = (b, h')"
    and p': "p' = p\<lparr>arena := (arena p)\<lparr>committed := False, underlying_buffer := b\<rparr>, has_nonpersistent_memory := False\<rparr>"
    and st: "st = kTfLiteOk" "g' = g\<lparr>tensors := clear_rw_data (tensors g)\<rparr>"
    using assms(1) by (auto simp: ReleaseNonPersistentMemory_def ReleaseBuffer_def split: prod.splits)
  note ri = Release_inv [OF b assms(2)]
  have "heap_blocks h' (pointer (buf_pair (underlying_buffer (arena p)))) =
      (if pointer (buf_pair (underlying_buffer (arena p))) = nullptr then heap_blocks h nullptr else None)"
    using b by (auto simp: Release_def AlignedFree_def free_def split: if_splits)
  then show ?thesis
    using ri by (simp add: p' st HasNonPersistentMemory_def GetAllocInfo_def GetBufferSize_def
        planner_BasePointer_def clear_rw_data_def)
qed

theorem ReleaseNonPersistentMemory_effect_witness:
  "\<not> HasNonPersistentMemory (fst (snd (ReleaseNonPersistentMemory empty_heap line_planner line_graph)))"
proof -
  have b: "buffer_inv empty_heap (underlying_buffer (arena line_planner))"
    by (simp add: buffer_inv_def line_planner_def new_planner_def new_arena_def new_buffer_def null_pair_def)
  obtain st p' g' h' where "ReleaseNonPersistentMemory empty_heap line_planner line_graph = (st, p', g', h')"
    by (cases "ReleaseNonPersistentMemory empty_heap line_planner line_graph")
  with ReleaseNonPersistentMemory_effect [OF this b] show ?thesis by simp
qed

end
