(* ===== verification/GraphPartition.thy ===== *)
theory GraphPartition
  imports GraphInfo "HOL-Library.Product_Lexorder"
begin

text \<open>
  Partitioning of the execution plan for delegates (\<^verbatim>\<open>src/tflite/graph_info.{h,cc}\<close>):
  \<open>PartitionGraphIntoIndependentNodeSubsets\<close> splits the plan into subsets of nodes that are all to be
  delegated or all not, in an order that respects data and control dependencies.  The members of the
  helper class that stay fixed during partitioning are in \<open>Partitioner\<close>, those that change in
  \<open>PartitionState\<close>.
\<close>

section \<open>Data\<close>

datatype NodeSubset_Type = kTfUnexplored | kTfPartition | kTfNonPartition

record NodeSubset =
  subset_type :: NodeSubset_Type
  subset_nodes :: "int list"
  input_tensors :: "int list"
  output_tensors :: "int list"

definition new_NodeSubset :: NodeSubset where
  "new_NodeSubset = \<lparr>subset_type = kTfUnexplored, subset_nodes = [], input_tensors = [], output_tensors = []\<rparr>"

type_synonym ControlEdges = "(int \<times> int) list"

abbreviation kEpochNotReady :: int where "kEpochNotReady \<equiv> -1"
abbreviation kEpochAlwaysReady :: int where "kEpochAlwaysReady \<equiv> -2"

record Partitioner =
  info :: GraphInfo
  node_type :: "NodeSubset_Type list"
  greedily :: bool
  control_edges :: ControlEdges
  disable_node_fusion :: bool

record PartitionState =
  node_subsets :: "NodeSubset list"
  tensor_epochs :: "int list"
  node_epochs :: "int list"
  num_incoming_control_edges :: "int list"

section \<open>Validation and set-up\<close>

definition Uniquefy :: "('a::linorder) list \<Rightarrow> 'a list" where
  "Uniquefy items = remdups_adj (sort items)"

definition IsValidIndex :: "int \<Rightarrow> nat \<Rightarrow> bool" where
  "IsValidIndex index sz \<longleftrightarrow> index \<ge> 0 \<and> nat index < sz"

fun ValidateNodesToPartition :: "GraphInfo \<Rightarrow> int list \<Rightarrow> TfLiteStatus" where
  "ValidateNodesToPartition g [] = kTfLiteOk"
| "ValidateNodesToPartition g (n # ns) =
     (if \<not> IsValidIndex n (num_total_nodes g) then kTfLiteError else ValidateNodesToPartition g ns)"

fun ValidateControlEdges :: "GraphInfo \<Rightarrow> ControlEdges \<Rightarrow> TfLiteStatus" where
  "ValidateControlEdges g [] = kTfLiteOk"
| "ValidateControlEdges g ((frm, to) # es) =
     (if \<not> IsValidIndex frm (num_execution_nodes g) \<or> \<not> IsValidIndex to (num_execution_nodes g)
      then kTfLiteError else ValidateControlEdges g es)"

definition new_Partitioner :: "GraphInfo \<Rightarrow> int list \<Rightarrow> bool \<Rightarrow> ControlEdges \<Rightarrow> bool \<Rightarrow> Partitioner" where
  "new_Partitioner g nodes_to_partition greedy edges no_fusion =
     \<lparr>info = g,
      node_type = foldl (\<lambda>ty n. ty[nat n := kTfPartition]) (replicate (num_total_nodes g) kTfNonPartition)
                    nodes_to_partition,
      greedily = greedy, control_edges = Uniquefy edges, disable_node_fusion = no_fusion\<rparr>"

section \<open>Scheduling one node\<close>

text \<open>The edges that leave a node: \<open>lower_bound\<close> on the sorted edges, then while they start at it.\<close>

definition outgoing :: "ControlEdges \<Rightarrow> int \<Rightarrow> ControlEdges" where
  "outgoing es i = takeWhile (\<lambda>e. fst e = i) (dropWhile (\<lambda>e. e < (i, 0)) es)"

definition set_epochs :: "int \<Rightarrow> int list \<Rightarrow> int list \<Rightarrow> int list" where
  "set_epochs e ts ep = foldl (\<lambda>ep t. if t = kTfLiteOptionalTensor then ep else ep[nat t := e]) ep ts"

text \<open>The second look at an input: it crosses the border of the current subset, the last one.\<close>

definition note_input :: "int list \<Rightarrow> NodeSubset list \<Rightarrow> int \<Rightarrow> NodeSubset list" where
  "note_input ep ss t =
     (if t = kTfLiteOptionalTensor then ss
      else
        let cur = length ss - 1; input_epoch = ep ! nat t
        in if input_epoch \<noteq> int cur then
             let ss1 = ss[cur := (ss ! cur)\<lparr>input_tensors := input_tensors (ss ! cur) @ [t]\<rparr>]
             in if input_epoch \<ge> 0
                then ss1[nat input_epoch := (ss1 ! nat input_epoch)
                           \<lparr>output_tensors := output_tensors (ss1 ! nat input_epoch) @ [t]\<rparr>]
                else ss1
           else ss)"

definition UpdateNode :: "Partitioner \<Rightarrow> PartitionState \<Rightarrow> nat \<Rightarrow> bool \<times> PartitionState" where
  "UpdateNode c s i =
     (let g = info c; node = nodes g ! i; ss = node_subsets s;
          current_epoch = length ss - 1; current_subset = ss ! current_epoch
      in if disable_node_fusion c \<and> subset_nodes current_subset \<noteq> [] then (False, s)
         else if node_epochs s ! i \<noteq> kEpochNotReady then (False, s)
         else if list_ex (\<lambda>t. t \<noteq> kTfLiteOptionalTensor \<and> tensor_epochs s ! nat t = kEpochNotReady) (node_inputs node)
         then (False, s)
         else if num_incoming_control_edges s ! i \<noteq> 0 then (False, s)
         else
           let original_node_idx = node_index g ! i;
               ty = node_type c ! original_node_idx;
               sub1 = (if subset_type current_subset = kTfUnexplored then current_subset\<lparr>subset_type := ty\<rparr>
                       else current_subset)
           in if subset_type sub1 = ty then
                let sub2 = sub1\<lparr>subset_nodes := subset_nodes sub1 @ [int original_node_idx]\<rparr>;
                    ep = set_epochs (int current_epoch) (node_outputs node) (tensor_epochs s);
                    ss1 = foldl (note_input ep) (ss[current_epoch := sub2]) (node_inputs node);
                    inc = foldl (\<lambda>n e. n[nat (snd e) := n ! nat (snd e) - 1]) (num_incoming_control_edges s)
                            (outgoing (control_edges c) (int i))
                in (True, s\<lparr>node_subsets := ss1, tensor_epochs := ep,
                            node_epochs := (node_epochs s)[i := int current_epoch],
                            num_incoming_control_edges := inc\<rparr>)
              else (False, s\<lparr>node_subsets := ss[current_epoch := sub1]\<rparr>))"

section \<open>Building one subset\<close>

text \<open>One pass over the nodes from the given list on: whether the function returned inside the loop, whether
  a node was scheduled, and the state.\<close>

fun update_nodes :: "Partitioner \<Rightarrow> bool \<Rightarrow> PartitionState \<Rightarrow> nat list \<Rightarrow> bool \<times> bool \<times> PartitionState" where
  "update_nodes c did_something s [] = (False, did_something, s)"
| "update_nodes c did_something s (i # is) =
     (case UpdateNode c s i of
        (True, s') \<Rightarrow> update_nodes c True s' is
      | (False, s') \<Rightarrow> if did_something \<and> \<not> greedily c then (True, did_something, s')
                       else update_nodes c did_something s' is)"

partial_function (option) build_loop :: "Partitioner \<Rightarrow> PartitionState \<Rightarrow> PartitionState option" where
  "build_loop c s =
     (case update_nodes c False s [0..<num_execution_nodes (info c)] of
        (returned, did_something, s') \<Rightarrow>
          if returned \<or> \<not> did_something then Some s' else build_loop c s')"

definition BuildNodeSubset :: "Partitioner \<Rightarrow> PartitionState \<Rightarrow> PartitionState option" where
  "BuildNodeSubset c s = build_loop c (s\<lparr>node_subsets := node_subsets s @ [new_NodeSubset]\<rparr>)"

section \<open>Partitioning\<close>

definition init_state :: "Partitioner \<Rightarrow> PartitionState" where
  "init_state c =
     (let g = info c
      in \<lparr>node_subsets = [],
          tensor_epochs = foldl (\<lambda>ep n. set_epochs kEpochNotReady (node_outputs n) ep)
                            (replicate (num_tensors g) kEpochAlwaysReady) (nodes g),
          node_epochs = replicate (num_execution_nodes g) kEpochNotReady,
          num_incoming_control_edges =
            foldl (\<lambda>n e. n[nat (snd e) := n ! nat (snd e) + 1]) (replicate (num_execution_nodes g) 0)
              (control_edges c)\<rparr>)"

partial_function (option) subset_loop :: "Partitioner \<Rightarrow> PartitionState \<Rightarrow> PartitionState option" where
  "subset_loop c s =
     Option.bind (BuildNodeSubset c s)
       (\<lambda>s'. if subset_nodes (last (node_subsets s')) = []
             then Some (s'\<lparr>node_subsets := butlast (node_subsets s')\<rparr>)
             else subset_loop c s')"

fun mark_outputs :: "int list \<Rightarrow> NodeSubset list \<Rightarrow> int list \<Rightarrow> TfLiteStatus \<times> NodeSubset list" where
  "mark_outputs ep ss [] = (kTfLiteOk, ss)"
| "mark_outputs ep ss (t # ts) =
     (let output_epoch = ep ! nat t
      in if output_epoch = kEpochAlwaysReady then mark_outputs ep ss ts
         else if output_epoch < 0 \<or> output_epoch \<ge> int (length ss) then (kTfLiteError, ss)
         else mark_outputs ep
                (ss[nat output_epoch := (ss ! nat output_epoch)
                      \<lparr>output_tensors := output_tensors (ss ! nat output_epoch) @ [t]\<rparr>]) ts)"

definition uniquefy_subset :: "NodeSubset \<Rightarrow> NodeSubset" where
  "uniquefy_subset x = x\<lparr>input_tensors := Uniquefy (input_tensors x), output_tensors := Uniquefy (output_tensors x)\<rparr>"

definition Partition :: "Partitioner \<Rightarrow> (TfLiteStatus \<times> NodeSubset list) option" where
  "Partition c =
     map_option
       (\<lambda>s. if list_ex (\<lambda>e. e = kEpochNotReady) (node_epochs s) then (kTfLiteError, node_subsets s)
            else (case mark_outputs (tensor_epochs s) (node_subsets s) (graph_outputs (info c)) of
                    (st, ss) \<Rightarrow> if st \<noteq> kTfLiteOk then (st, ss) else (kTfLiteOk, map uniquefy_subset ss)))
       (subset_loop c (init_state c))"

text \<open>The dependency chain between nodes with side effects; \<open>lst\<close> is the last one seen or \<open>-1\<close>.\<close>

fun side_effect_chain :: "TfLiteNode list \<Rightarrow> int \<Rightarrow> int \<Rightarrow> ControlEdges" where
  "side_effect_chain [] i lst = []"
| "side_effect_chain (n # ns) i lst =
     (if might_have_side_effect n
      then (if lst \<noteq> -1 then [(lst, i)] else []) @ side_effect_chain ns (i + 1) i
      else side_effect_chain ns (i + 1) lst)"

definition PartitionGraphIntoIndependentNodeSubsets ::
    "GraphInfo \<Rightarrow> int list \<Rightarrow> NodeSubset list \<Rightarrow> bool \<Rightarrow> ControlEdges option \<Rightarrow> bool \<Rightarrow>
     (TfLiteStatus \<times> NodeSubset list) option" where
  "PartitionGraphIntoIndependentNodeSubsets g nodes_to_partition subsets greedy edges no_fusion =
     (if ValidateNodesToPartition g nodes_to_partition \<noteq> kTfLiteOk then Some (kTfLiteError, subsets)
      else
        let my_edges = (case edges of
                          Some es \<Rightarrow> es
                        | None \<Rightarrow> if greedy then side_effect_chain (nodes g) 0 (-1) else [])
        in if ValidateControlEdges g my_edges \<noteq> kTfLiteOk then Some (kTfLiteError, subsets)
           else Partition (new_Partitioner g nodes_to_partition greedy my_edges no_fusion))"

end
