(* ===== verification/PartitionCorrect.thy ===== *)
theory PartitionCorrect
  imports GraphPartition
begin

text \<open>
  Correctness of \<open>PartitionGraphIntoIndependentNodeSubsets\<close>
  (\<^verbatim>\<open>src/tflite/graph_info.cc\<close>).  The invariant relates the epochs that the code keeps to
  the order in which nodes were scheduled; both loops end because every round schedules a node; the
  properties of the partition follow from the invariant of the final state.
\<close>

section \<open>Library of the steps\<close>

lemma set_Uniquefy [simp]: "set (Uniquefy xs) = set xs"
  by (simp add: Uniquefy_def)

lemma strict_sorted_remdups_adj: "sorted xs \<Longrightarrow> sorted_wrt (<) (remdups_adj xs)"
  for xs :: "'a::linorder list"
  by (induction xs rule: remdups_adj.induct) (auto simp: order_le_less)

lemma strict_sorted_Uniquefy: "sorted_wrt (<) (Uniquefy xs)"
  by (simp add: Uniquefy_def strict_sorted_remdups_adj)

lemma length_set_epochs [simp]: "length (set_epochs e ts ep) = length ep"
  unfolding set_epochs_def by (induction ts arbitrary: ep) auto

lemma set_epochs_at:
  assumes "list_all (\<lambda>t. t = kTfLiteOptionalTensor \<or> 0 \<le> t \<and> nat t < length ep) ts" "0 \<le> x" "nat x < length ep"
  shows "set_epochs e ts ep ! nat x = (if x \<in> set ts then e else ep ! nat x)"
  using assms unfolding set_epochs_def
proof (induction ts arbitrary: ep)
  case (Cons t ts)
  show ?case
    using Cons.IH [of "if t = kTfLiteOptionalTensor then ep else ep[nat t := e]"] Cons.prems
    by (auto simp: list_all_iff nth_list_update)
qed simp

lemma outgoing_filter:
  assumes "sorted_wrt (<) es" "\<forall>e \<in> set es. 0 \<le> snd e"
  shows "outgoing es i = filter (\<lambda>e. fst e = i) es"
  using assms
proof (induction es)
  case (Cons e es)
  consider "e < (i, 0)" | "\<not> e < (i, 0)" "fst e = i" | "\<not> e < (i, 0)" "fst e \<noteq> i" by blast
  then show ?case
  proof cases
    case 1
    then have "fst e \<noteq> i" using Cons.prems(2) by (cases e) auto
    then show ?thesis using 1 Cons by (simp add: outgoing_def)
  next
    case 2
    have ge: "\<not> x < (i, 0)" if "x \<in> set es" for x
      using 2(1) Cons.prems(1) that by (meson dual_order.strict_trans list.set_intros(1) sorted_wrt.simps(2))
    then have "dropWhile (\<lambda>e. e < (i, 0)) es = es" by (cases es) auto
    then show ?thesis using 2 Cons by (simp add: outgoing_def)
  next
    case 3
    then have gt: "i < fst e" by (cases e) (auto simp: not_less)
    have "fst x \<noteq> i" if "x \<in> set es" for x
      using gt Cons.prems(1) that by (cases x; cases e) fastforce
    then show ?thesis using 3 by (simp add: outgoing_def filter_empty_conv)
  qed
qed (simp add: outgoing_def)

text \<open>Counting edges by their target.\<close>

lemma dec_edges:
  assumes "\<forall>e \<in> set es. 0 \<le> snd e \<and> nat (snd e) < length n"
  shows "length (foldl (\<lambda>n e. n[nat (snd e) := n ! nat (snd e) + d]) n es) = length n \<and>
    (i < length n \<longrightarrow> foldl (\<lambda>n e. n[nat (snd e) := n ! nat (snd e) + d]) n es ! i =
       n ! i + d * int (length (filter (\<lambda>e. snd e = int i) es)))"
  using assms
proof (induction es arbitrary: n)
  case (Cons e es)
  have "nat (snd e) = i \<longleftrightarrow> snd e = int i" using Cons.prems by auto
  then show ?case
    using Cons.IH [of "n[nat (snd e) := n ! nat (snd e) + d]"] Cons.prems
    by (auto simp: nth_list_update algebra_simps)
qed simp

subsection \<open>Noting the inputs of a scheduled node\<close>

text \<open>Only the input and output lists of the subsets change; \<open>cur\<close> is the current epoch.\<close>

definition same_nodes :: "NodeSubset list \<Rightarrow> NodeSubset list \<Rightarrow> bool" where
  "same_nodes ss ss' \<longleftrightarrow> map subset_nodes ss' = map subset_nodes ss \<and> map subset_type ss' = map subset_type ss"

lemma same_nodes_refl [simp]: "same_nodes ss ss" by (simp add: same_nodes_def)

lemma same_nodes_trans: "same_nodes a b \<Longrightarrow> same_nodes b c \<Longrightarrow> same_nodes a c" by (simp add: same_nodes_def)

lemma same_nodes_length: "same_nodes ss ss' \<Longrightarrow> length ss' = length ss"
  unfolding same_nodes_def by (metis length_map)

lemma same_nodes_at:
  assumes "same_nodes ss ss'" "e < length ss"
  shows "subset_nodes (ss' ! e) = subset_nodes (ss ! e)" "subset_type (ss' ! e) = subset_type (ss ! e)"
  using assms same_nodes_length [OF assms(1)] unfolding same_nodes_def by (metis nth_map)+

lemma same_nodes_update:
  "subset_nodes x = subset_nodes (ss ! k) \<Longrightarrow> subset_type x = subset_type (ss ! k) \<Longrightarrow> same_nodes ss (ss[k := x])"
  unfolding same_nodes_def by (simp add: map_update list_update_same_conv) (metis list_update_id map_update)

lemma note_input_step:
  assumes "ss \<noteq> []" "ep ! nat t < int (length ss)" "t \<noteq> kTfLiteOptionalTensor"
  shows "same_nodes ss (note_input ep ss t)"
    and "e < length ss \<Longrightarrow> set (input_tensors (note_input ep ss t ! e)) =
      set (input_tensors (ss ! e)) \<union> (if e = length ss - 1 \<and> ep ! nat t \<noteq> int e then {t} else {})"
    and "e < length ss \<Longrightarrow> set (output_tensors (note_input ep ss t ! e)) =
      set (output_tensors (ss ! e)) \<union> (if e \<noteq> length ss - 1 \<and> ep ! nat t = int e then {t} else {})"
proof -
  let ?cur = "length ss - 1" and ?k = "ep ! nat t"
  define ss1 where "ss1 = ss[?cur := (ss ! ?cur)\<lparr>input_tensors := input_tensors (ss ! ?cur) @ [t]\<rparr>]"
  define ss2 where "ss2 = ss1[nat ?k := (ss1 ! nat ?k)\<lparr>output_tensors := output_tensors (ss1 ! nat ?k) @ [t]\<rparr>]"
  have eq: "note_input ep ss t = (if ?k \<noteq> int ?cur then if ?k \<ge> 0 then ss2 else ss1 else ss)"
    using assms(3) by (simp add: note_input_def Let_def ss1_def ss2_def)
  have s1: "same_nodes ss ss1" unfolding ss1_def by (rule same_nodes_update) simp_all
  have s2: "same_nodes ss1 ss2" unfolding ss2_def by (rule same_nodes_update) simp_all
  show "same_nodes ss (note_input ep ss t)" using s1 same_nodes_trans [OF s1 s2] by (simp add: eq)
  have l1: "length ss1 = length ss" by (simp add: ss1_def)
  obtain m where m: "length ss = Suc m" using assms(1) by (cases ss) auto
  show "set (input_tensors (note_input ep ss t ! e)) =
      set (input_tensors (ss ! e)) \<union> (if e = length ss - 1 \<and> ep ! nat t \<noteq> int e then {t} else {})"
    if e: "e < length ss"
    using e assms(2) by (auto simp: eq ss2_def ss1_def nth_list_update m)
  show "set (output_tensors (note_input ep ss t ! e)) =
      set (output_tensors (ss ! e)) \<union> (if e \<noteq> length ss - 1 \<and> ep ! nat t = int e then {t} else {})"
    if e: "e < length ss"
    using e assms(2) by (auto simp: eq ss2_def ss1_def nth_list_update m)
qed

lemma note_inputs:
  assumes "ss \<noteq> []" "\<forall>t \<in> set ts. t = kTfLiteOptionalTensor \<or> ep ! nat t < int (length ss)"
  shows "same_nodes ss (foldl (note_input ep) ss ts) \<and>
    (\<forall>e < length ss. set (input_tensors (foldl (note_input ep) ss ts ! e)) = set (input_tensors (ss ! e)) \<union>
       {t \<in> set ts. t \<noteq> kTfLiteOptionalTensor \<and> e = length ss - 1 \<and> ep ! nat t \<noteq> int e}) \<and>
    (\<forall>e < length ss. set (output_tensors (foldl (note_input ep) ss ts ! e)) = set (output_tensors (ss ! e)) \<union>
       {t \<in> set ts. t \<noteq> kTfLiteOptionalTensor \<and> e \<noteq> length ss - 1 \<and> ep ! nat t = int e})"
  using assms
proof (induction ts arbitrary: ss)
  case (Cons t ts)
  show ?case
  proof (cases "t = kTfLiteOptionalTensor")
    case True
    then have "note_input ep ss t = ss" by (simp add: note_input_def)
    then show ?thesis using Cons.IH [of ss] Cons.prems True by auto
  next
    case False
    let ?s1 = "note_input ep ss t"
    have lt: "ep ! nat t < int (length ss)" using Cons.prems(2) False by simp
    note st = note_input_step [OF Cons.prems(1) lt False]
    have l: "length ?s1 = length ss" using same_nodes_length [OF st(1)] .
    have ne: "?s1 \<noteq> []" using l Cons.prems(1) by (metis length_0_conv)
    have "\<forall>t \<in> set ts. t = kTfLiteOptionalTensor \<or> ep ! nat t < int (length ?s1)"
      using l Cons.prems(2) by simp
    note ih = Cons.IH [OF ne this]
    obtain m where m: "length ss = Suc m" using Cons.prems(1) by (cases ss) auto
    show ?thesis
    proof (intro conjI allI impI)
      show "same_nodes ss (foldl (note_input ep) ss (t # ts))" using ih same_nodes_trans [OF st(1)] by simp
    next
      fix e assume e: "e < length ss"
      show "set (input_tensors (foldl (note_input ep) ss (t # ts) ! e)) = set (input_tensors (ss ! e)) \<union>
       {x \<in> set (t # ts). x \<noteq> kTfLiteOptionalTensor \<and> e = length ss - 1 \<and> ep ! nat x \<noteq> int e}"
        using ih e False by (auto simp: l st(2) m)
      show "set (output_tensors (foldl (note_input ep) ss (t # ts) ! e)) = set (output_tensors (ss ! e)) \<union>
       {x \<in> set (t # ts). x \<noteq> kTfLiteOptionalTensor \<and> e \<noteq> length ss - 1 \<and> ep ! nat x = int e}"
        using ih e False by (auto simp: l st(3) m)
    qed
  qed
qed simp

section \<open>The invariant of partitioning\<close>

definition producer :: "GraphInfo \<Rightarrow> int \<Rightarrow> nat \<Rightarrow> bool" where
  "producer g t j \<longleftrightarrow> t \<noteq> kTfLiteOptionalTensor \<and> j < num_execution_nodes g \<and> t \<in> set (node_outputs (nodes g ! j))"

text \<open>
  What the partitioner relies on: tensor and node indices in range, and no tensor written by two nodes.
\<close>

definition partition_ok :: "GraphInfo \<Rightarrow> bool" where
  "partition_ok g \<longleftrightarrow> list_all (node_ok g) (nodes g) \<and> length (node_index g) = num_execution_nodes g \<and>
     list_all (\<lambda>k. k < num_total_nodes g) (node_index g) \<and> list_all (valid_tensor g) (graph_outputs g) \<and>
     (\<forall>i < num_execution_nodes g. \<forall>j < i. \<forall>t \<in> set (node_outputs (nodes g ! i)).
        t = kTfLiteOptionalTensor \<or> t \<notin> set (node_outputs (nodes g ! j)))"

definition partitioner_ok :: "Partitioner \<Rightarrow> bool" where
  "partitioner_ok c \<longleftrightarrow> partition_ok (info c) \<and> length (node_type c) = num_total_nodes (info c) \<and>
     kTfUnexplored \<notin> set (node_type c) \<and> sorted_wrt (<) (control_edges c) \<and>
     (\<forall>e \<in> set (control_edges c). IsValidIndex (fst e) (num_execution_nodes (info c)) \<and>
        IsValidIndex (snd e) (num_execution_nodes (info c)))"

definition ready :: "Partitioner \<Rightarrow> nat set \<Rightarrow> nat \<Rightarrow> bool" where
  "ready c S i \<longleftrightarrow>
     (\<forall>t \<in> set (node_inputs (nodes (info c) ! i)). \<forall>j. producer (info c) t j \<longrightarrow> j \<in> S) \<and>
     (\<forall>a. (a, int i) \<in> set (control_edges c) \<longrightarrow> nat a \<in> S)"

text \<open>\<open>order\<close> lists the scheduled nodes, by position in the plan, in the order they were scheduled.\<close>

definition sched_inv :: "Partitioner \<Rightarrow> nat list \<Rightarrow> PartitionState \<Rightarrow> bool" where
  "sched_inv c order s \<longleftrightarrow>
     length (tensor_epochs s) = num_tensors (info c) \<and> length (node_epochs s) = num_execution_nodes (info c) \<and>
     length (num_incoming_control_edges s) = num_execution_nodes (info c) \<and> distinct order \<and>
     set order = {i. i < num_execution_nodes (info c) \<and> node_epochs s ! i \<noteq> kEpochNotReady} \<and>
     (\<forall>t j. valid_tensor (info c) t \<and> producer (info c) t j \<longrightarrow> tensor_epochs s ! nat t = node_epochs s ! j) \<and>
     (\<forall>t. valid_tensor (info c) t \<and> (\<forall>j. \<not> producer (info c) t j) \<longrightarrow> tensor_epochs s ! nat t = kEpochAlwaysReady) \<and>
     (\<forall>i < num_execution_nodes (info c). num_incoming_control_edges s ! i =
        int (length (filter (\<lambda>e. snd e = int i \<and> nat (fst e) \<notin> set order) (control_edges c)))) \<and>
     (\<forall>k < length order. ready c (set (take k order)) (order ! k))"

definition subset_inv :: "Partitioner \<Rightarrow> nat list \<Rightarrow> PartitionState \<Rightarrow> bool" where
  "subset_inv c order s \<longleftrightarrow>
     (\<forall>e < length (node_subsets s). subset_nodes (node_subsets s ! e) =
        map (\<lambda>i. int (node_index (info c) ! i)) (filter (\<lambda>i. node_epochs s ! i = int e) order)) \<and>
     sorted (map (\<lambda>i. node_epochs s ! i) order) \<and>
     (\<forall>i \<in> set order. 0 \<le> node_epochs s ! i \<and> node_epochs s ! i < int (length (node_subsets s)) \<and>
        node_type c ! (node_index (info c) ! i) = subset_type (node_subsets s ! nat (node_epochs s ! i))) \<and>
     (\<forall>e < length (node_subsets s). subset_type (node_subsets s ! e) = kTfUnexplored \<longleftrightarrow>
        subset_nodes (node_subsets s ! e) = []) \<and>
     (\<forall>e < length (node_subsets s). set (input_tensors (node_subsets s ! e)) =
        {t. t \<noteq> kTfLiteOptionalTensor \<and> tensor_epochs s ! nat t \<noteq> int e \<and>
            (\<exists>i \<in> set order. node_epochs s ! i = int e \<and> t \<in> set (node_inputs (nodes (info c) ! i)))}) \<and>
     (\<forall>e < length (node_subsets s). set (output_tensors (node_subsets s ! e)) =
        {t. t \<noteq> kTfLiteOptionalTensor \<and> tensor_epochs s ! nat t = int e \<and>
            (\<exists>i \<in> set order. node_epochs s ! i \<noteq> int e \<and> t \<in> set (node_inputs (nodes (info c) ! i)))})"

lemma producer_unique:
  assumes "partition_ok g" "producer g t i" "producer g t j" shows "i = j"
  using assms by (auto simp: partition_ok_def producer_def) (metis linorder_neqE_nat)

lemma partition_ok_node: "partition_ok g \<Longrightarrow> i < num_execution_nodes g \<Longrightarrow> node_ok g (nodes g ! i)"
  by (simp add: partition_ok_def list_all_iff)

lemma ready_iff:
  assumes c: "partitioner_ok c" and inv: "sched_inv c order s" and i: "i < num_execution_nodes (info c)"
  shows "ready c (set order) i \<longleftrightarrow>
    \<not> list_ex (\<lambda>t. t \<noteq> kTfLiteOptionalTensor \<and> tensor_epochs s ! nat t = kEpochNotReady) (node_inputs (nodes (info c) ! i)) \<and>
    num_incoming_control_edges s ! i = 0"
proof -
  have v: "valid_tensor (info c) t" if "t \<in> set (node_inputs (nodes (info c) ! i))" "t \<noteq> kTfLiteOptionalTensor" for t
    using partition_ok_node [of "info c" i] c i that by (auto simp: partitioner_ok_def node_ok_def list_all_iff opt_tensor_def)
  have ep: "tensor_epochs s ! nat t = kEpochNotReady \<longleftrightarrow> (\<exists>j. producer (info c) t j \<and> j \<notin> set order)"
    if "t \<in> set (node_inputs (nodes (info c) ! i))" "t \<noteq> kTfLiteOptionalTensor" for t
  proof (cases "\<exists>j. producer (info c) t j")
    case True
    then obtain j where j: "producer (info c) t j" by blast
    then have "tensor_epochs s ! nat t = node_epochs s ! j" using inv v [OF that] by (auto simp: sched_inv_def)
    moreover have "j' = j" if "producer (info c) t j'" for j'
      using producer_unique [OF _ that j] c by (simp add: partitioner_ok_def)
    ultimately show ?thesis using inv j by (auto simp: sched_inv_def producer_def)
  next
    case False
    then show ?thesis using inv v [OF that] by (auto simp: sched_inv_def)
  qed
  have "num_incoming_control_edges s ! i = 0 \<longleftrightarrow> (\<forall>a. (a, int i) \<in> set (control_edges c) \<longrightarrow> nat a \<in> set order)"
    using inv i by (auto simp: sched_inv_def filter_empty_conv)
  then show ?thesis unfolding ready_def list_ex_iff using ep by (auto simp: producer_def)
qed

subsection \<open>One node\<close>

definition type_of :: "Partitioner \<Rightarrow> nat \<Rightarrow> NodeSubset_Type" where
  "type_of c i = node_type c ! (node_index (info c) ! i)"

definition schedulable :: "Partitioner \<Rightarrow> nat list \<Rightarrow> PartitionState \<Rightarrow> nat \<Rightarrow> bool" where
  "schedulable c order s i \<longleftrightarrow>
     \<not> (disable_node_fusion c \<and> subset_nodes (last (node_subsets s)) \<noteq> []) \<and> i \<notin> set order \<and> ready c (set order) i \<and>
     subset_type (last (node_subsets s)) \<in> {kTfUnexplored, type_of c i}"

definition scheduled :: "Partitioner \<Rightarrow> PartitionState \<Rightarrow> nat \<Rightarrow> PartitionState" where
  "scheduled c s i =
     (let ss = node_subsets s; cur = length ss - 1; node = nodes (info c) ! i;
          ep = set_epochs (int cur) (node_outputs node) (tensor_epochs s)
      in s\<lparr>node_subsets := foldl (note_input ep)
              (ss[cur := (ss ! cur)\<lparr>subset_type := type_of c i,
                                    subset_nodes := subset_nodes (ss ! cur) @ [int (node_index (info c) ! i)]\<rparr>])
              (node_inputs node),
           tensor_epochs := ep, node_epochs := (node_epochs s)[i := int cur],
           num_incoming_control_edges :=
             foldl (\<lambda>n e. n[nat (snd e) := n ! nat (snd e) - 1]) (num_incoming_control_edges s)
               (outgoing (control_edges c) (int i))\<rparr>)"

lemma UpdateNode_eq:
  assumes c: "partitioner_ok c" and inv: "sched_inv c order s" and i: "i < num_execution_nodes (info c)"
    and ss: "node_subsets s \<noteq> []"
  shows "UpdateNode c s i = (if schedulable c order s i then (True, scheduled c s i) else (False, s))"
proof -
  let ?ss = "node_subsets s" let ?cur = "length ?ss - 1"
  have last: "last ?ss = ?ss ! ?cur" using ss by (rule last_conv_nth)
  have ne: "node_epochs s ! i \<noteq> kEpochNotReady \<longleftrightarrow> i \<in> set order" using inv i by (auto simp: sched_inv_def)
  have nth: "?ss[?cur := ?ss ! ?cur] = ?ss" by simp
  note r = ready_iff [OF c inv i]
  show ?thesis
  proof (cases "disable_node_fusion c \<and> subset_nodes (?ss ! ?cur) \<noteq> [] \<or> i \<in> set order \<or> \<not> ready c (set order) i")
    case True
    then have "UpdateNode c s i = (False, s)"
      unfolding UpdateNode_def Let_def ne using r by auto
    then show ?thesis using True by (auto simp: schedulable_def last)
  next
    case False
    define x where "x = ?ss ! ?cur"
    have f: "\<not> (disable_node_fusion c \<and> subset_nodes x \<noteq> [])" "i \<notin> set order" "ready c (set order) i"
      using False by (auto simp: x_def)
    have upd: "(if subset_type x = kTfUnexplored then x\<lparr>subset_type := type_of c i\<rparr> else x) = x\<lparr>subset_type := type_of c i\<rparr>"
      if "subset_type x \<in> {kTfUnexplored, type_of c i}" using that by (cases x) auto
    show ?thesis
    proof (cases "subset_type x \<in> {kTfUnexplored, type_of c i}")
      case True
      have "UpdateNode c s i = (True, scheduled c s i)"
        unfolding UpdateNode_def Let_def ne type_of_def [symmetric] x_def [symmetric] upd [OF True] scheduled_def
        using f r by auto
      then show ?thesis using f True by (simp add: schedulable_def last x_def)
    next
      case False
      then have "UpdateNode c s i = (False, s)"
        unfolding UpdateNode_def Let_def ne type_of_def [symmetric] using f r by (auto simp: x_def)
      then show ?thesis using False by (simp add: schedulable_def last x_def)
    qed
  qed
qed

lemma ready_mono: "ready c S i \<Longrightarrow> S \<subseteq> T \<Longrightarrow> ready c T i"
  unfolding ready_def by blast

lemma scheduled_epochs:
  assumes c: "partitioner_ok c" and inv: "sched_inv c order s" and i: "i < num_execution_nodes (info c)"
    and t: "valid_tensor (info c) t"
  shows "tensor_epochs (scheduled c s i) ! nat t =
    (if producer (info c) t i then int (length (node_subsets s) - 1) else tensor_epochs s ! nat t)"
proof -
  have "list_all (\<lambda>t. t = kTfLiteOptionalTensor \<or> 0 \<le> t \<and> nat t < length (tensor_epochs s)) (node_outputs (nodes (info c) ! i))"
    using partition_ok_node [of "info c" i] c i inv
    by (auto simp: partitioner_ok_def node_ok_def list_all_iff opt_tensor_def valid_tensor_def sched_inv_def)
  from set_epochs_at [OF this, of t] show ?thesis
    using t i inv by (auto simp: scheduled_def Let_def producer_def valid_tensor_def sched_inv_def)
qed

lemma scheduled_incoming:
  assumes c: "partitioner_ok c" and inv: "sched_inv c order s" and i: "i < num_execution_nodes (info c)"
    and new: "i \<notin> set order" and k: "k < num_execution_nodes (info c)"
  shows "length (num_incoming_control_edges (scheduled c s i)) = num_execution_nodes (info c)"
    and "num_incoming_control_edges (scheduled c s i) ! k =
      int (length (filter (\<lambda>e. snd e = int k \<and> nat (fst e) \<notin> set (order @ [i])) (control_edges c)))"
proof -
  let ?es = "control_edges c" and ?n = "num_incoming_control_edges s"
  have ok: "\<forall>e \<in> set ?es. 0 \<le> snd e \<and> nat (snd e) < length ?n \<and> 0 \<le> fst e"
    using c inv by (auto simp: partitioner_ok_def IsValidIndex_def sched_inv_def)
  have out: "outgoing ?es (int i) = filter (\<lambda>e. fst e = int i) ?es"
    using c ok by (intro outgoing_filter) (auto simp: partitioner_ok_def)
  note d = dec_edges [where d = "-1" and n = ?n and i = k and es = "filter (\<lambda>e. fst e = int i) ?es"]
  show "length (num_incoming_control_edges (scheduled c s i)) = num_execution_nodes (info c)"
    using d ok inv by (simp add: scheduled_def Let_def out sched_inv_def)
  have "length (filter (\<lambda>e. snd e = int k \<and> nat (fst e) \<notin> set order) es) =
      length (filter (\<lambda>e. snd e = int k \<and> nat (fst e) \<notin> set (order @ [i])) es) +
      length (filter (\<lambda>e. snd e = int k \<and> fst e = int i) es)" if "\<forall>e \<in> set es. 0 \<le> fst e" for es
    using that new by (induction es) auto
  then have "?n ! k = int (length (filter (\<lambda>e. snd e = int k \<and> nat (fst e) \<notin> set (order @ [i])) ?es)) +
      int (length (filter (\<lambda>e. snd e = int k \<and> fst e = int i) ?es))"
    using inv k ok by (simp add: sched_inv_def)
  then show "num_incoming_control_edges (scheduled c s i) ! k =
      int (length (filter (\<lambda>e. snd e = int k \<and> nat (fst e) \<notin> set (order @ [i])) ?es))"
    using d ok inv k by (simp add: scheduled_def Let_def out sched_inv_def conj_commute)
qed

lemma sched_inv_step:
  assumes c: "partitioner_ok c" and inv: "sched_inv c order s" and i: "i < num_execution_nodes (info c)"
    and s: "schedulable c order s i"
  shows "sched_inv c (order @ [i]) (scheduled c s i)"
proof -
  let ?s = "scheduled c s i" and ?cur = "int (length (node_subsets s) - 1)"
  have new: "i \<notin> set order" and rd: "ready c (set order) i" using s by (auto simp: schedulable_def)
  have ne: "node_epochs ?s = (node_epochs s)[i := ?cur]" by (simp add: scheduled_def Let_def)
  have len: "length (node_epochs s) = num_execution_nodes (info c)" using inv by (simp add: sched_inv_def)
  note te = scheduled_epochs [OF c inv i]
  have prod: "tensor_epochs ?s ! nat t = node_epochs ?s ! j" if "valid_tensor (info c) t" "producer (info c) t j" for t j
  proof (cases "j = i")
    case True
    then show ?thesis using te [OF that(1)] that(2) i len by (simp add: ne)
  next
    case False
    then have "\<not> producer (info c) t i" using producer_unique [of "info c" t i j] that(2) c by (auto simp: partitioner_ok_def)
    then show ?thesis using te [OF that(1)] that False inv by (auto simp: ne sched_inv_def)
  qed
  have set: "set (order @ [i]) = {k. k < num_execution_nodes (info c) \<and> node_epochs ?s ! k \<noteq> kEpochNotReady}"
    using inv i len by (auto simp: sched_inv_def ne nth_list_update)
  have ord: "ready c (set (take k (order @ [i]))) ((order @ [i]) ! k)" if "k < length (order @ [i])" for k
  proof (cases "k < length order")
    case True
    then show ?thesis using inv by (simp add: sched_inv_def nth_append)
  next
    case False
    then have "k = length order" using that by simp
    then show ?thesis using rd by simp
  qed
  show ?thesis
    unfolding sched_inv_def
  proof (intro conjI)
    show "length (tensor_epochs ?s) = num_tensors (info c)" "length (node_epochs ?s) = num_execution_nodes (info c)"
      using inv by (simp_all add: sched_inv_def scheduled_def Let_def)
    show "length (num_incoming_control_edges ?s) = num_execution_nodes (info c)"
      by (rule scheduled_incoming(1) [OF c inv i new i])
    show "distinct (order @ [i])" using inv new by (simp add: sched_inv_def)
    show "\<forall>t. valid_tensor (info c) t \<and> (\<forall>j. \<not> producer (info c) t j) \<longrightarrow> tensor_epochs ?s ! nat t = kEpochAlwaysReady"
      using te inv by (simp add: sched_inv_def)
  qed (use set prod ord scheduled_incoming(2) [OF c inv i new] in blast)+
qed

lemma sched_inv_ready:
  assumes "sched_inv c order s" "k \<in> set order" shows "ready c (set order) k"
proof -
  obtain n where n: "n < length order" "order ! n = k" using assms(2) by (auto simp: in_set_conv_nth)
  then have "ready c (set (take n order)) k" using assms(1) by (auto simp: sched_inv_def)
  then show ?thesis by (rule ready_mono) (rule set_take_subset)
qed

text \<open>No node that was scheduled or is ready reads an output of a node that was not scheduled.\<close>

lemma read_not_new:
  assumes "sched_inv c order s" "i \<notin> set order" "k \<in> set order \<or> k = i" "ready c (set order) i"
    "t \<in> set (node_inputs (nodes (info c) ! k))"
  shows "\<not> producer (info c) t i"
  using assms sched_inv_ready [OF assms(1), of k] by (auto simp: ready_def)

lemma input_valid:
  assumes "partitioner_ok c" "k < num_execution_nodes (info c)" "t \<in> set (node_inputs (nodes (info c) ! k))"
    "t \<noteq> kTfLiteOptionalTensor"
  shows "valid_tensor (info c) t"
  using partition_ok_node [of "info c" k] assms by (auto simp: partitioner_ok_def node_ok_def list_all_iff opt_tensor_def)

lemma read_epoch:
  assumes c: "partitioner_ok c" and inv: "sched_inv c order s" and i: "i < num_execution_nodes (info c)"
    and s: "schedulable c order s i" and k: "k \<in> set order \<or> k = i"
    and t: "t \<in> set (node_inputs (nodes (info c) ! k))" "t \<noteq> kTfLiteOptionalTensor"
  shows "tensor_epochs (scheduled c s i) ! nat t = tensor_epochs s ! nat t"
proof -
  have "k < num_execution_nodes (info c)" using k i inv by (auto simp: sched_inv_def)
  then have v: "valid_tensor (info c) t" using input_valid [OF c _ t] by blast
  have "\<not> producer (info c) t i"
    using read_not_new [OF inv _ k _ t(1)] s by (simp add: schedulable_def)
  then show ?thesis using scheduled_epochs [OF c inv i v] by simp
qed

lemma ready_epoch_bound:
  assumes c: "partitioner_ok c" and inv: "sched_inv c order s" and sub: "subset_inv c order s"
    and i: "i < num_execution_nodes (info c)" and r: "ready c (set order) i" and ne: "node_subsets s \<noteq> []"
    and t: "t \<in> set (node_inputs (nodes (info c) ! i))" "t \<noteq> kTfLiteOptionalTensor"
  shows "tensor_epochs s ! nat t < int (length (node_subsets s))"
proof -
  have v: "valid_tensor (info c) t" by (rule input_valid [OF c i t])
  show ?thesis
  proof (cases "\<exists>j. producer (info c) t j")
    case True
    then obtain j where j: "producer (info c) t j" by blast
    then have "j \<in> set order" using r t by (auto simp: ready_def)
    moreover have "tensor_epochs s ! nat t = node_epochs s ! j" using inv v j by (auto simp: sched_inv_def)
    ultimately show ?thesis using sub by (auto simp: subset_inv_def)
  next
    case False
    then have "tensor_epochs s ! nat t = kEpochAlwaysReady" using inv v by (auto simp: sched_inv_def)
    moreover have "0 < length (node_subsets s)" using ne by simp
    ultimately show ?thesis by linarith
  qed
qed

lemma scheduled_subsets:
  assumes c: "partitioner_ok c" and inv: "sched_inv c order s" and sub: "subset_inv c order s"
    and i: "i < num_execution_nodes (info c)" and s: "schedulable c order s i" and ne: "node_subsets s \<noteq> []"
  defines "cur \<equiv> length (node_subsets s) - 1" and "s' \<equiv> scheduled c s i"
  shows "length (node_subsets s') = length (node_subsets s)"
    and "e < length (node_subsets s) \<Longrightarrow> subset_nodes (node_subsets s' ! e) = subset_nodes (node_subsets s ! e) @
          (if e = cur then [int (node_index (info c) ! i)] else [])"
    and "e < length (node_subsets s) \<Longrightarrow> subset_type (node_subsets s' ! e) =
          (if e = cur then type_of c i else subset_type (node_subsets s ! e))"
    and "e < length (node_subsets s) \<Longrightarrow> set (input_tensors (node_subsets s' ! e)) =
          set (input_tensors (node_subsets s ! e)) \<union>
          {t \<in> set (node_inputs (nodes (info c) ! i)). t \<noteq> kTfLiteOptionalTensor \<and> e = cur \<and> tensor_epochs s ! nat t \<noteq> int e}"
    and "e < length (node_subsets s) \<Longrightarrow> set (output_tensors (node_subsets s' ! e)) =
          set (output_tensors (node_subsets s ! e)) \<union>
          {t \<in> set (node_inputs (nodes (info c) ! i)). t \<noteq> kTfLiteOptionalTensor \<and> e \<noteq> cur \<and> tensor_epochs s ! nat t = int e}"
proof -
  let ?ts = "node_inputs (nodes (info c) ! i)" and ?ep = "tensor_epochs s'"
  define ss0 where "ss0 = (node_subsets s)[cur := (node_subsets s ! cur)\<lparr>subset_type := type_of c i,
    subset_nodes := subset_nodes (node_subsets s ! cur) @ [int (node_index (info c) ! i)]\<rparr>]"
  have ss': "node_subsets s' = foldl (note_input ?ep) ss0 ?ts"
    by (simp add: s'_def scheduled_def Let_def ss0_def cur_def)
  have ep: "?ep ! nat t = tensor_epochs s ! nat t" if "t \<in> set ?ts" "t \<noteq> kTfLiteOptionalTensor" for t
    using read_epoch [OF c inv i s _ that] by (simp add: s'_def)
  have l0: "length ss0 = length (node_subsets s)" and cur: "cur < length (node_subsets s)"
    using ne by (simp_all add: ss0_def cur_def)
  have "ready c (set order) i" using s by (simp add: schedulable_def)
  then have "\<forall>t \<in> set ?ts. t = kTfLiteOptionalTensor \<or> ?ep ! nat t < int (length ss0)"
    unfolding l0 using ready_epoch_bound [OF c inv sub i _ ne] ep by metis
  moreover have "ss0 \<noteq> []" using ne by (simp add: ss0_def)
  ultimately have n: "same_nodes ss0 (node_subsets s') \<and>
    (\<forall>e < length ss0. set (input_tensors (node_subsets s' ! e)) = set (input_tensors (ss0 ! e)) \<union>
       {t \<in> set ?ts. t \<noteq> kTfLiteOptionalTensor \<and> e = length ss0 - 1 \<and> ?ep ! nat t \<noteq> int e}) \<and>
    (\<forall>e < length ss0. set (output_tensors (node_subsets s' ! e)) = set (output_tensors (ss0 ! e)) \<union>
       {t \<in> set ?ts. t \<noteq> kTfLiteOptionalTensor \<and> e \<noteq> length ss0 - 1 \<and> ?ep ! nat t = int e})"
    unfolding ss' by (intro note_inputs)
  show "length (node_subsets s') = length (node_subsets s)"
    using n same_nodes_length l0 by metis
  assume e: "e < length (node_subsets s)"
  have z: "subset_nodes (ss0 ! e) = subset_nodes (node_subsets s ! e) @ (if e = cur then [int (node_index (info c) ! i)] else [])"
    "subset_type (ss0 ! e) = (if e = cur then type_of c i else subset_type (node_subsets s ! e))"
    "input_tensors (ss0 ! e) = input_tensors (node_subsets s ! e)"
    "output_tensors (ss0 ! e) = output_tensors (node_subsets s ! e)"
    using e cur by (auto simp: ss0_def nth_list_update)
  show "subset_nodes (node_subsets s' ! e) = subset_nodes (node_subsets s ! e) @
          (if e = cur then [int (node_index (info c) ! i)] else [])"
    "subset_type (node_subsets s' ! e) = (if e = cur then type_of c i else subset_type (node_subsets s ! e))"
    using same_nodes_at [of ss0 "node_subsets s'" e] n e l0 z by auto
  show "set (input_tensors (node_subsets s' ! e)) = set (input_tensors (node_subsets s ! e)) \<union>
          {t \<in> set ?ts. t \<noteq> kTfLiteOptionalTensor \<and> e = cur \<and> tensor_epochs s ! nat t \<noteq> int e}"
    using n e l0 z ep by (auto simp: cur_def)
  show "set (output_tensors (node_subsets s' ! e)) = set (output_tensors (node_subsets s ! e)) \<union>
          {t \<in> set ?ts. t \<noteq> kTfLiteOptionalTensor \<and> e \<noteq> cur \<and> tensor_epochs s ! nat t = int e}"
    using n e l0 z ep by (auto simp: cur_def)
qed

lemma Un_readers:
  assumes "\<And>t. te' t = te t \<or> t = n \<or> t \<notin> R \<and> \<not> A t"
  shows "{t. t \<noteq> n \<and> Q (te t) \<and> A t} \<union> {t \<in> R. t \<noteq> n \<and> b \<and> Q (te t)} = {t. t \<noteq> n \<and> Q (te' t) \<and> (A t \<or> b \<and> t \<in> R)}"
proof (rule set_eqI)
  fix t show "t \<in> {t. t \<noteq> n \<and> Q (te t) \<and> A t} \<union> {t \<in> R. t \<noteq> n \<and> b \<and> Q (te t)} \<longleftrightarrow>
      t \<in> {t. t \<noteq> n \<and> Q (te' t) \<and> (A t \<or> b \<and> t \<in> R)}"
    using assms [of t] by (cases "te' t = te t") auto
qed

lemma subset_inv_step:
  assumes c: "partitioner_ok c" and inv: "sched_inv c order s" and sub: "subset_inv c order s"
    and i: "i < num_execution_nodes (info c)" and s: "schedulable c order s i" and ne: "node_subsets s \<noteq> []"
  shows "subset_inv c (order @ [i]) (scheduled c s i)"
proof -
  let ?s = "scheduled c s i" and ?idx = "\<lambda>i. int (node_index (info c) ! i)"
  define cur where "cur = length (node_subsets s) - 1"
  note ss = scheduled_subsets [OF c inv sub i s ne, folded cur_def]
  have new: "i \<notin> set order" using s by (simp add: schedulable_def)
  have nep: "node_epochs ?s ! k = (if k = i then int cur else node_epochs s ! k)" if "k < num_execution_nodes (info c)" for k
    using that inv by (auto simp: scheduled_def Let_def sched_inv_def nth_list_update cur_def)
  have ord: "k < num_execution_nodes (info c)" if "k \<in> set order" for k using that inv by (auto simp: sched_inv_def)
  have old: "node_epochs ?s ! k = node_epochs s ! k" if "k \<in> set order" for k using nep [OF ord [OF that]] that new by auto
  have nepi: "node_epochs ?s ! i = int cur" using nep [OF i] by simp
  have cur: "cur < length (node_subsets s)" using ne by (simp add: cur_def)
  have te: "tensor_epochs ?s ! nat t = tensor_epochs s ! nat t"
    if "k \<in> set order \<or> k = i" "t \<in> set (node_inputs (nodes (info c) ! k))" "t \<noteq> kTfLiteOptionalTensor" for k t
    using read_epoch [OF c inv i s that] .
  have unread: "tensor_epochs ?s ! nat t = tensor_epochs s ! nat t \<or> t = kTfLiteOptionalTensor \<or>
      t \<notin> set (node_inputs (nodes (info c) ! i)) \<and>
      \<not> (\<exists>k \<in> set order. P (node_epochs s ! k) \<and> t \<in> set (node_inputs (nodes (info c) ! k)))" for P t
    using te by blast
  have readers: "(\<exists>k \<in> set (order @ [i]). P (node_epochs ?s ! k) \<and> t \<in> set (node_inputs (nodes (info c) ! k))) \<longleftrightarrow>
      (\<exists>k \<in> set order. P (node_epochs s ! k) \<and> t \<in> set (node_inputs (nodes (info c) ! k))) \<or>
      P (int cur) \<and> t \<in> set (node_inputs (nodes (info c) ! i))" for P t
    by (auto simp: old nepi)
  have ty: "subset_type (node_subsets ?s ! e) = subset_type (node_subsets s ! e)"
    if "e < length (node_subsets s)" "subset_nodes (node_subsets s ! e) \<noteq> []" for e
  proof (cases "e = cur")
    case True
    have "subset_type (node_subsets s ! e) \<noteq> kTfUnexplored" using sub that by (simp add: subset_inv_def)
    then show ?thesis using ss(3) [OF that(1)] s True last_conv_nth [OF ne, folded cur_def] by (auto simp: schedulable_def)
  qed (use ss(3) [OF that(1)] in simp)
  have filt: "filter (\<lambda>k. node_epochs ?s ! k = int e) order = filter (\<lambda>k. node_epochs s ! k = int e) order" for e
    using old by (intro filter_cong) auto
  have tyi: "type_of c i \<noteq> kTfUnexplored"
  proof -
    have "node_index (info c) ! i < length (node_type c)"
      using c i nth_mem [of i "node_index (info c)"] by (simp add: partitioner_ok_def partition_ok_def list_all_iff)
    then have "type_of c i \<in> set (node_type c)" by (simp add: type_of_def)
    then show ?thesis using c by (auto simp: partitioner_ok_def)
  qed
  show ?thesis
    unfolding subset_inv_def
  proof (intro conjI allI impI ballI)
    fix e assume e: "e < length (node_subsets ?s)"
    then have e': "e < length (node_subsets s)" using ss(1) by simp
    show "subset_nodes (node_subsets ?s ! e) = map ?idx (filter (\<lambda>k. node_epochs ?s ! k = int e) (order @ [i]))"
      using sub e' ss(2) [OF e'] by (simp add: subset_inv_def filt nepi)
    show "(subset_type (node_subsets ?s ! e) = kTfUnexplored) = (subset_nodes (node_subsets ?s ! e) = [])"
      using sub e' ss(2,3) [OF e'] tyi by (simp add: subset_inv_def)
    have u: "{t. t \<noteq> kTfLiteOptionalTensor \<and> tensor_epochs s ! nat t \<noteq> int e \<and>
        (\<exists>k \<in> set order. node_epochs s ! k = int e \<and> t \<in> set (node_inputs (nodes (info c) ! k)))} \<union>
      {t \<in> set (node_inputs (nodes (info c) ! i)). t \<noteq> kTfLiteOptionalTensor \<and> int cur = int e \<and> tensor_epochs s ! nat t \<noteq> int e} =
      {t. t \<noteq> kTfLiteOptionalTensor \<and> tensor_epochs ?s ! nat t \<noteq> int e \<and>
        ((\<exists>k \<in> set order. node_epochs s ! k = int e \<and> t \<in> set (node_inputs (nodes (info c) ! k))) \<or>
         int cur = int e \<and> t \<in> set (node_inputs (nodes (info c) ! i)))}"
      by (rule Un_readers [of _ _ _ _ _ "\<lambda>x. x \<noteq> int e"]) (rule unread [of _ "\<lambda>x. x = int e"])
    have "set (input_tensors (node_subsets s ! e)) =
        {t. t \<noteq> kTfLiteOptionalTensor \<and> tensor_epochs s ! nat t \<noteq> int e \<and>
            (\<exists>i \<in> set order. node_epochs s ! i = int e \<and> t \<in> set (node_inputs (nodes (info c) ! i)))}"
      using sub e' by (simp add: subset_inv_def)
    with ss(4) [OF e'] u show "set (input_tensors (node_subsets ?s ! e)) =
        {t. t \<noteq> kTfLiteOptionalTensor \<and> tensor_epochs ?s ! nat t \<noteq> int e \<and>
            (\<exists>k \<in> set (order @ [i]). node_epochs ?s ! k = int e \<and> t \<in> set (node_inputs (nodes (info c) ! k)))}"
      unfolding readers [of "\<lambda>x. x = int e"] by (simp only: of_nat_eq_iff eq_commute [of e cur])
    have u: "{t. t \<noteq> kTfLiteOptionalTensor \<and> tensor_epochs s ! nat t = int e \<and>
        (\<exists>k \<in> set order. node_epochs s ! k \<noteq> int e \<and> t \<in> set (node_inputs (nodes (info c) ! k)))} \<union>
      {t \<in> set (node_inputs (nodes (info c) ! i)). t \<noteq> kTfLiteOptionalTensor \<and> int cur \<noteq> int e \<and> tensor_epochs s ! nat t = int e} =
      {t. t \<noteq> kTfLiteOptionalTensor \<and> tensor_epochs ?s ! nat t = int e \<and>
        ((\<exists>k \<in> set order. node_epochs s ! k \<noteq> int e \<and> t \<in> set (node_inputs (nodes (info c) ! k))) \<or>
         int cur \<noteq> int e \<and> t \<in> set (node_inputs (nodes (info c) ! i)))}"
      by (rule Un_readers [of _ _ _ _ _ "\<lambda>x. x = int e"]) (rule unread [of _ "\<lambda>x. x \<noteq> int e"])
    have "set (output_tensors (node_subsets s ! e)) =
        {t. t \<noteq> kTfLiteOptionalTensor \<and> tensor_epochs s ! nat t = int e \<and>
            (\<exists>i \<in> set order. node_epochs s ! i \<noteq> int e \<and> t \<in> set (node_inputs (nodes (info c) ! i)))}"
      using sub e' by (simp add: subset_inv_def)
    with ss(5) [OF e'] u show "set (output_tensors (node_subsets ?s ! e)) =
        {t. t \<noteq> kTfLiteOptionalTensor \<and> tensor_epochs ?s ! nat t = int e \<and>
            (\<exists>k \<in> set (order @ [i]). node_epochs ?s ! k \<noteq> int e \<and> t \<in> set (node_inputs (nodes (info c) ! k)))}"
      unfolding readers [of "\<lambda>x. x \<noteq> int e"] by (simp only: of_nat_eq_iff eq_commute [of e cur])
  next
    have m: "map (\<lambda>k. node_epochs ?s ! k) (order @ [i]) = map (\<lambda>k. node_epochs s ! k) order @ [int cur]"
      using old nepi by simp
    have "sorted (map (\<lambda>k. node_epochs s ! k) order)" using sub by (simp add: subset_inv_def)
    moreover have "node_epochs s ! k \<le> int cur" if "k \<in> set order" for k
      using sub that cur by (auto simp: subset_inv_def cur_def)
    ultimately show "sorted (map (\<lambda>k. node_epochs ?s ! k) (order @ [i]))" unfolding m by (auto simp: sorted_append)
  next
    fix k assume k: "k \<in> set (order @ [i])"
    show "0 \<le> node_epochs ?s ! k" "node_epochs ?s ! k < int (length (node_subsets ?s))"
      using k sub old nepi cur by (auto simp: subset_inv_def ss(1))
    show "node_type c ! (node_index (info c) ! k) = subset_type (node_subsets ?s ! nat (node_epochs ?s ! k))"
    proof (cases "k = i")
      case True
      then show ?thesis using ss(3) [OF cur] by (simp add: nepi type_of_def)
    next
      case False
      then have ko: "k \<in> set order" using k by simp
      define e where "e = nat (node_epochs s ! k)"
      have e: "e < length (node_subsets s)" "node_epochs s ! k = int e"
        and tk: "node_type c ! (node_index (info c) ! k) = subset_type (node_subsets s ! e)"
        using sub ko by (auto simp: subset_inv_def e_def)
      have "k \<in> set (filter (\<lambda>i. node_epochs s ! i = int e) order)" using ko e(2) by simp
      then have "subset_nodes (node_subsets s ! e) \<noteq> []"
        using sub e(1) by (auto simp: subset_inv_def filter_empty_conv)
      then show ?thesis using ty [OF e(1)] tk old [OF ko] e(2) by simp
    qed
  qed
qed

text \<open>Both invariants together, with the current subset last.\<close>

definition build_inv :: "Partitioner \<Rightarrow> nat list \<Rightarrow> PartitionState \<Rightarrow> bool" where
  "build_inv c order s \<longleftrightarrow> sched_inv c order s \<and> subset_inv c order s \<and> node_subsets s \<noteq> [] \<and>
     (\<forall>e < length (node_subsets s) - 1. subset_nodes (node_subsets s ! e) \<noteq> [])"

lemma build_inv_step:
  assumes c: "partitioner_ok c" and b: "build_inv c order s" and i: "i < num_execution_nodes (info c)"
    and s: "schedulable c order s i"
  shows "build_inv c (order @ [i]) (scheduled c s i)"
    and "length (node_subsets (scheduled c s i)) = length (node_subsets s)"
proof -
  have inv: "sched_inv c order s" and sub: "subset_inv c order s" and ne: "node_subsets s \<noteq> []"
    using b by (auto simp: build_inv_def)
  note ss = scheduled_subsets [OF c inv sub i s ne]
  show l: "length (node_subsets (scheduled c s i)) = length (node_subsets s)" by (rule ss(1))
  have "node_subsets (scheduled c s i) \<noteq> []" using l ne by (metis length_0_conv)
  then show "build_inv c (order @ [i]) (scheduled c s i)"
    using sched_inv_step [OF c inv i s] subset_inv_step [OF c inv sub i s ne] b ss(2)
    by (auto simp: build_inv_def l)
qed

subsection \<open>One subset\<close>

definition extends :: "Partitioner \<Rightarrow> nat list \<Rightarrow> PartitionState \<Rightarrow> nat list \<Rightarrow> PartitionState \<Rightarrow> bool" where
  "extends c order s added s' \<longleftrightarrow> build_inv c (order @ added) s' \<and>
     length (node_subsets s') = length (node_subsets s) \<and>
     subset_nodes (last (node_subsets s')) =
       subset_nodes (last (node_subsets s)) @ map (\<lambda>i. int (node_index (info c) ! i)) added \<and>
     (added = [] \<longrightarrow> s' = s)"

lemma extends_refl: "build_inv c order s \<Longrightarrow> extends c order s [] s"
  by (simp add: extends_def)

lemma extends_trans: "extends c order s a s1 \<Longrightarrow> extends c (order @ a) s1 b s2 \<Longrightarrow> extends c order s (a @ b) s2"
  by (auto simp: extends_def)

lemma extends_step:
  assumes c: "partitioner_ok c" and b: "build_inv c order s" and i: "i < num_execution_nodes (info c)"
    and s: "schedulable c order s i"
  shows "extends c order s [i] (scheduled c s i)"
proof -
  have inv: "sched_inv c order s" and sub: "subset_inv c order s" and ne: "node_subsets s \<noteq> []"
    using b by (auto simp: build_inv_def)
  note ss = scheduled_subsets [OF c inv sub i s ne] and st = build_inv_step [OF c b i s]
  have "node_subsets (scheduled c s i) \<noteq> []" using st(1) by (simp add: build_inv_def)
  then show ?thesis using st ss(2) ne by (simp add: extends_def last_conv_nth)
qed

lemma update_nodes_extends:
  assumes c: "partitioner_ok c" and b: "build_inv c order s"
    and "\<forall>i \<in> set is. i < num_execution_nodes (info c)" "update_nodes c did s is = (ret, did', s')"
  shows "\<exists>added. extends c order s added s' \<and> (did' \<longleftrightarrow> did \<or> added \<noteq> []) \<and> (ret \<longrightarrow> did') \<and>
    (\<not> did' \<longrightarrow> (\<forall>i \<in> set is. \<not> schedulable c order s i))"
  using b assms(3,4)
proof (induction "is" arbitrary: order s did)
  case Nil
  then show ?case using extends_refl by fastforce
next
  case (Cons i "is")
  have i: "i < num_execution_nodes (info c)" using Cons.prems by simp
  have inv: "sched_inv c order s" and ne: "node_subsets s \<noteq> []" using Cons.prems(1) by (auto simp: build_inv_def)
  note u = UpdateNode_eq [OF c inv i ne]
  show ?case
  proof (cases "schedulable c order s i")
    case True
    then have r: "update_nodes c True (scheduled c s i) is = (ret, did', s')" using Cons.prems u by simp
    have st: "extends c order s [i] (scheduled c s i)" by (rule extends_step [OF c Cons.prems(1) i True])
    then have "build_inv c (order @ [i]) (scheduled c s i)" by (simp add: extends_def)
    from Cons.IH [OF this _ r] Cons.prems(2) obtain added where
      m: "extends c (order @ [i]) (scheduled c s i) added s'" "did'" by auto
    from extends_trans [OF st m(1)] m(2) show ?thesis by auto
  next
    case False
    show ?thesis
    proof (cases "did \<and> \<not> greedily c")
      case True
      then have "s' = s" "did'" using Cons.prems u False by auto
      then show ?thesis using True extends_refl [OF Cons.prems(1)] by auto
    next
      case nr: False
      then have "update_nodes c did s is = (ret, did', s')" using Cons.prems u False by auto
      from Cons.IH [OF Cons.prems(1) _ this] Cons.prems(2) show ?thesis using False by auto
    qed
  qed
qed

lemma order_bound:
  assumes "sched_inv c order s" shows "length order \<le> num_execution_nodes (info c)"
proof -
  have "set order \<subseteq> {..<num_execution_nodes (info c)}" "distinct order" using assms by (auto simp: sched_inv_def)
  then show ?thesis by (metis card_lessThan card_mono distinct_card finite_lessThan)
qed

lemma build_loop_total:
  assumes c: "partitioner_ok c" and b: "build_inv c order s"
  shows "\<exists>added s'. build_loop c s = Some s' \<and> extends c order s added s' \<and>
    (added = [] \<longrightarrow> (\<forall>i < num_execution_nodes (info c). \<not> schedulable c order s i))"
  using b
proof (induction "num_execution_nodes (info c) - length order" arbitrary: order s rule: less_induct)
  case less
  obtain ret did s1 where u: "update_nodes c False s [0..<num_execution_nodes (info c)] = (ret, did, s1)"
    by (cases "update_nodes c False s [0..<num_execution_nodes (info c)]")
  from update_nodes_extends [OF c less.prems _ u] obtain a where
    a: "extends c order s a s1" "did \<longleftrightarrow> a \<noteq> []"
    "\<not> did \<longrightarrow> (\<forall>i < num_execution_nodes (info c). \<not> schedulable c order s i)" by auto
  show ?case
  proof (cases "ret \<or> \<not> did")
    case True
    then have "build_loop c s = Some s1" by (subst build_loop.simps) (simp add: u)
    then show ?thesis using a by auto
  next
    case False
    then have "build_loop c s = build_loop c s1" by (subst build_loop.simps) (simp add: u)
    moreover have b1: "build_inv c (order @ a) s1" using a(1) by (simp add: extends_def)
    moreover have "length (order @ a) \<le> num_execution_nodes (info c)"
      using b1 by (intro order_bound [of c _ s1]) (simp add: build_inv_def)
    then have "num_execution_nodes (info c) - length (order @ a) < num_execution_nodes (info c) - length order"
      using False a(2) by (cases a) auto
    from less.hyps [OF this b1] obtain added s' where "build_loop c s1 = Some s'" "extends c (order @ a) s1 added s'" by blast
    moreover from this extends_trans [OF a(1)] have "extends c order s (a @ added) s'" by blast
    ultimately show ?thesis using False a(2) by auto
  qed
qed

subsection \<open>All subsets\<close>

definition done_inv :: "Partitioner \<Rightarrow> nat list \<Rightarrow> PartitionState \<Rightarrow> bool" where
  "done_inv c order s \<longleftrightarrow> sched_inv c order s \<and> subset_inv c order s \<and>
     (\<forall>x \<in> set (node_subsets s). subset_nodes x \<noteq> [])"

lemma done_build:
  assumes c: "partitioner_ok c" and d: "done_inv c order s"
  shows "build_inv c order (s\<lparr>node_subsets := node_subsets s @ [new_NodeSubset]\<rparr>)"
proof -
  let ?s = "s\<lparr>node_subsets := node_subsets s @ [new_NodeSubset]\<rparr>" and ?n = "length (node_subsets s)"
  have sub: "subset_inv c order s" and inv: "sched_inv c order s" using d by (auto simp: done_inv_def)
  have fresh: "node_epochs s ! i \<noteq> int ?n" if "i \<in> set order" for i using sub that by (auto simp: subset_inv_def)
  have ep: "tensor_epochs s ! nat t \<noteq> int ?n"
    if "i \<in> set order" "t \<in> set (node_inputs (nodes (info c) ! i))" "t \<noteq> kTfLiteOptionalTensor" for i t
  proof -
    have "i < num_execution_nodes (info c)" using that(1) inv by (auto simp: sched_inv_def)
    moreover have "node_subsets s \<noteq> []" using sub that(1) by (auto simp: subset_inv_def)
    ultimately show ?thesis
      using ready_epoch_bound [OF c inv sub _ sched_inv_ready [OF inv that(1)] _ that(2,3)] by auto
  qed
  have nth: "node_subsets ?s ! e = (if e < ?n then node_subsets s ! e else new_NodeSubset)" if "e < Suc ?n" for e
    using that by (auto simp: nth_append less_Suc_eq)
  have "subset_inv c order ?s"
    unfolding subset_inv_def
  proof (intro conjI allI impI ballI)
    fix e assume e: "e < length (node_subsets ?s)"
    then have en: "e < ?n \<or> e = ?n" by fastforce
    then show "subset_nodes (node_subsets ?s ! e) = map (\<lambda>i. int (node_index (info c) ! i)) (filter (\<lambda>i. node_epochs ?s ! i = int e) order)"
      using sub fresh by (auto simp: subset_inv_def nth_append new_NodeSubset_def filter_empty_conv)
    from en show "(subset_type (node_subsets ?s ! e) = kTfUnexplored) = (subset_nodes (node_subsets ?s ! e) = [])"
      using sub by (auto simp: subset_inv_def nth_append new_NodeSubset_def)
    from en show "set (input_tensors (node_subsets ?s ! e)) = {t. t \<noteq> kTfLiteOptionalTensor \<and> tensor_epochs ?s ! nat t \<noteq> int e \<and>
            (\<exists>i \<in> set order. node_epochs ?s ! i = int e \<and> t \<in> set (node_inputs (nodes (info c) ! i)))}"
      using sub fresh by (auto simp: subset_inv_def nth_append new_NodeSubset_def)
    from en show "set (output_tensors (node_subsets ?s ! e)) = {t. t \<noteq> kTfLiteOptionalTensor \<and> tensor_epochs ?s ! nat t = int e \<and>
            (\<exists>i \<in> set order. node_epochs ?s ! i \<noteq> int e \<and> t \<in> set (node_inputs (nodes (info c) ! i)))}"
      using sub ep by (auto simp: subset_inv_def nth_append new_NodeSubset_def)
  qed (use sub in \<open>auto simp: subset_inv_def nth_append\<close>)
  moreover have "sched_inv c order ?s" using inv by (simp add: sched_inv_def)
  ultimately show ?thesis
    using d by (auto simp: build_inv_def done_inv_def nth_append)
qed

lemma done_butlast:
  assumes "node_subsets s = ss @ [new_NodeSubset]" shows "s\<lparr>node_subsets := butlast (node_subsets s)\<rparr> = s\<lparr>node_subsets := ss\<rparr>"
  using assms by simp

lemma build_done:
  assumes "build_inv c order s" "subset_nodes (last (node_subsets s)) \<noteq> []" shows "done_inv c order s"
  using assms unfolding build_inv_def done_inv_def all_set_conv_all_nth
  by (metis One_nat_def Suc_pred last_conv_nth length_greater_0_conv less_SucE)

definition stuck :: "Partitioner \<Rightarrow> nat list \<Rightarrow> bool" where
  "stuck c order \<longleftrightarrow> (\<forall>i < num_execution_nodes (info c). i \<in> set order \<or> \<not> ready c (set order) i)"

lemma subset_loop_total:
  assumes c: "partitioner_ok c" and d: "done_inv c order s"
  shows "\<exists>added s'. subset_loop c s = Some s' \<and> done_inv c (order @ added) s' \<and> stuck c (order @ added)"
  using d
proof (induction "num_execution_nodes (info c) - length order" arbitrary: order s rule: less_induct)
  case less
  let ?s = "s\<lparr>node_subsets := node_subsets s @ [new_NodeSubset]\<rparr>"
  from build_loop_total [OF c done_build [OF c less.prems]] obtain a s1 where
    a: "build_loop c ?s = Some s1" "extends c order ?s a s1"
    "a = [] \<longrightarrow> (\<forall>i < num_execution_nodes (info c). \<not> schedulable c order ?s i)" by blast
  have b: "BuildNodeSubset c s = Some s1" using a(1) by (simp add: BuildNodeSubset_def)
  have last: "subset_nodes (last (node_subsets s1)) = map (\<lambda>i. int (node_index (info c) ! i)) a"
    using a(2) by (simp add: extends_def new_NodeSubset_def)
  show ?case
  proof (cases "a = []")
    case True
    then have "s1 = ?s" using a(2) by (simp add: extends_def)
    then have "subset_loop c s = Some s" by (subst subset_loop.simps) (simp add: b new_NodeSubset_def)
    moreover have "stuck c order"
      using a(3) True by (auto simp: stuck_def schedulable_def new_NodeSubset_def)
    ultimately show ?thesis using less.prems by (metis append_Nil2)
  next
    case False
    have b1: "build_inv c (order @ a) s1" using a(2) by (simp add: extends_def)
    then have d1: "done_inv c (order @ a) s1" using last False by (intro build_done) auto
    have "length (order @ a) \<le> num_execution_nodes (info c)" using b1 by (intro order_bound [of c _ s1]) (simp add: build_inv_def)
    then have "num_execution_nodes (info c) - length (order @ a) < num_execution_nodes (info c) - length order"
      using False by (cases a) auto
    from less.hyps [OF this d1] obtain b s' where "subset_loop c s1 = Some s'" "done_inv c ((order @ a) @ b) s'"
      "stuck c ((order @ a) @ b)" by blast
    moreover have "subset_loop c s = subset_loop c s1"
      using False last by (subst subset_loop.simps) (simp add: b)
    ultimately show ?thesis by (metis append_assoc)
  qed
qed

subsection \<open>Initial state\<close>

lemma fold_epochs:
  assumes "\<forall>n \<in> set ns. node_ok g n" "valid_tensor g t" "length ep = num_tensors g"
  shows "length (foldl (\<lambda>ep n. set_epochs e (node_outputs n) ep) ep ns) = num_tensors g \<and>
    foldl (\<lambda>ep n. set_epochs e (node_outputs n) ep) ep ns ! nat t =
      (if \<exists>n \<in> set ns. t \<in> set (node_outputs n) then e else ep ! nat t)"
  using assms
proof (induction ns arbitrary: ep)
  case (Cons n ns)
  have "list_all (\<lambda>t. t = kTfLiteOptionalTensor \<or> 0 \<le> t \<and> nat t < length ep) (node_outputs n)"
    using Cons.prems by (auto simp: node_ok_def list_all_iff opt_tensor_def valid_tensor_def)
  from set_epochs_at [OF this, of t e] show ?case
    using Cons.IH [of "set_epochs e (node_outputs n) ep"] Cons.prems by (auto simp: valid_tensor_def)
qed simp

lemma init_inv:
  assumes c: "partitioner_ok c" shows "done_inv c [] (init_state c)"
proof -
  let ?g = "info c" and ?s = "init_state c"
  have nodes: "\<forall>n \<in> set (nodes ?g). node_ok ?g n" using c by (simp add: partitioner_ok_def partition_ok_def list_all_iff)
  have te: "tensor_epochs ?s ! nat t = (if \<exists>j. producer ?g t j then kEpochNotReady else kEpochAlwaysReady)"
    if "valid_tensor ?g t" for t
  proof -
    have "(\<exists>n \<in> set (nodes ?g). t \<in> set (node_outputs n)) \<longleftrightarrow> (\<exists>j. producer ?g t j)"
      using that unfolding producer_def valid_tensor_def by (metis in_set_conv_nth neg_0_le_iff_le not_one_le_zero)
    then show ?thesis
      using fold_epochs [OF nodes that, of "replicate (num_tensors ?g) kEpochAlwaysReady" kEpochNotReady] that
      by (simp add: init_state_def Let_def valid_tensor_def)
  qed
  have len: "length (foldl (\<lambda>ep n. set_epochs e (node_outputs n) ep) ep ns) = length ep" for e ns ep
    by (induction ns arbitrary: ep) auto
  note d = dec_edges [where d = 1 and es = "control_edges c" and n = "replicate (num_execution_nodes ?g) 0"]
  have es: "\<forall>e \<in> set (control_edges c). 0 \<le> snd e \<and> nat (snd e) < length (replicate (num_execution_nodes ?g) (0::int))"
    using c by (auto simp: partitioner_ok_def IsValidIndex_def)
  have "sched_inv c [] ?s"
    unfolding sched_inv_def
    using te d [OF es] by (auto simp: init_state_def Let_def len producer_def)
  then show ?thesis by (simp add: done_inv_def subset_inv_def init_state_def Let_def)
qed

subsection \<open>Marking the outputs\<close>

lemma mark_outputs_ok:
  assumes "\<forall>t \<in> set ts. ep ! nat t = kEpochAlwaysReady \<or> 0 \<le> ep ! nat t \<and> ep ! nat t < int (length ss)"
  shows "\<exists>ss'. mark_outputs ep ss ts = (kTfLiteOk, ss') \<and> same_nodes ss ss' \<and>
    map input_tensors ss' = map input_tensors ss \<and>
    (\<forall>e < length ss. set (output_tensors (ss' ! e)) = set (output_tensors (ss ! e)) \<union> {t \<in> set ts. ep ! nat t = int e})"
  using assms
proof (induction ts arbitrary: ss)
  case (Cons t ts)
  show ?case
  proof (cases "ep ! nat t = kEpochAlwaysReady")
    case True
    have "{x \<in> set (t # ts). ep ! nat x = int e} = {x \<in> set ts. ep ! nat x = int e}" for e using True by auto
    then show ?thesis using Cons.IH [of ss] Cons.prems True by auto
  next
    case False
    define k where "k = nat (ep ! nat t)"
    have k: "ep ! nat t = int k" "k < length ss" using Cons.prems False by (auto simp: k_def)
    define ss1 where "ss1 = ss[k := (ss ! k)\<lparr>output_tensors := output_tensors (ss ! k) @ [t]\<rparr>]"
    have s1: "same_nodes ss ss1" unfolding ss1_def by (rule same_nodes_update) simp_all
    have l1: "length ss1 = length ss" by (simp add: ss1_def)
    have i1: "map input_tensors ss1 = map input_tensors ss"
      unfolding ss1_def map_update by simp (metis list_update_id map_update)
    have o1: "output_tensors (ss1 ! e) = output_tensors (ss ! e) @ (if e = k then [t] else [])" if "e < length ss" for e
      using that k(2) by (simp add: ss1_def nth_list_update)
    have "mark_outputs ep ss (t # ts) = mark_outputs ep ss1 ts"
      using False k by (simp add: Let_def ss1_def)
    moreover obtain ss' where "mark_outputs ep ss1 ts = (kTfLiteOk, ss')" "same_nodes ss1 ss'"
      "map input_tensors ss' = map input_tensors ss1"
      "\<forall>e < length ss1. set (output_tensors (ss' ! e)) = set (output_tensors (ss1 ! e)) \<union> {t \<in> set ts. ep ! nat t = int e}"
      using Cons.IH [of ss1] Cons.prems l1 by auto
    ultimately show ?thesis
      using same_nodes_trans [OF s1] i1 o1 k l1 by (auto split: if_splits)
  qed
qed auto

subsection \<open>The result\<close>

lemma concat_filter_sorted:
  fixes f :: "'a \<Rightarrow> int"
  assumes "sorted (map f xs)" "\<forall>x \<in> set xs. 0 \<le> f x \<and> f x < int n"
  shows "concat (map (\<lambda>e. filter (\<lambda>x. f x = int e) xs) [0..<n]) = xs"
proof -
  have split: "filter (\<lambda>x. f x < int m) xs @ filter (\<lambda>x. f x = int m) xs = filter (\<lambda>x. f x < int (Suc m)) xs" for m
    using assms(1)
  proof (induction xs)
    case (Cons x xs)
    have "filter (\<lambda>y. f y < int m) xs = []" if "f x = int m" using Cons.prems that by (auto simp: filter_empty_conv)
    then show ?case using Cons by auto
  qed simp
  have "concat (map (\<lambda>e. filter (\<lambda>x. f x = int e) xs) [0..<m]) = filter (\<lambda>x. f x < int m) xs" for m
  proof (induction m)
    case 0
    then show ?case using assms(2) by (auto simp: filter_empty_conv eq_commute [of "[]"])
  next
    case (Suc m)
    then show ?case using split [of m] by simp
  qed
  then show ?thesis using assms(2) by (simp add: filter_id_conv)
qed

definition crosses :: "GraphInfo \<Rightarrow> (nat \<Rightarrow> int) \<Rightarrow> int \<Rightarrow> nat \<Rightarrow> bool" where
  "crosses g ep t e \<longleftrightarrow> (\<exists>i < num_execution_nodes g. ep i \<noteq> int e \<and> t \<in> set (node_inputs (nodes g ! i)))"

text \<open>
  What a successful partitioning has computed: \<open>order\<close> schedules the nodes and \<open>ep\<close> gives the
  subset of each.
\<close>

definition partitioned :: "Partitioner \<Rightarrow> nat list \<Rightarrow> (nat \<Rightarrow> int) \<Rightarrow> NodeSubset list \<Rightarrow> bool" where
  "partitioned c order ep ss \<longleftrightarrow>
     distinct order \<and> set order = {..<num_execution_nodes (info c)} \<and> sorted (map ep order) \<and>
     (\<forall>k < length order. ready c (set (take k order)) (order ! k)) \<and>
     concat (map subset_nodes ss) = map (\<lambda>i. int (node_index (info c) ! i)) order \<and>
     (\<forall>e < length ss. subset_nodes (ss ! e) \<noteq> [] \<and>
        subset_nodes (ss ! e) = map (\<lambda>i. int (node_index (info c) ! i)) (filter (\<lambda>i. ep i = int e) order)) \<and>
     (\<forall>i < num_execution_nodes (info c). 0 \<le> ep i \<and> ep i < int (length ss) \<and>
        subset_type (ss ! nat (ep i)) = type_of c i) \<and>
     (\<forall>e < length ss.
        sorted_wrt (<) (input_tensors (ss ! e)) \<and> sorted_wrt (<) (output_tensors (ss ! e)) \<and>
        set (input_tensors (ss ! e)) = {t. t \<noteq> kTfLiteOptionalTensor \<and>
          (\<exists>i < num_execution_nodes (info c). ep i = int e \<and> t \<in> set (node_inputs (nodes (info c) ! i))) \<and>
          \<not> (\<exists>j. producer (info c) t j \<and> ep j = int e)} \<and>
        set (output_tensors (ss ! e)) = {t. (\<exists>j. producer (info c) t j \<and> ep j = int e) \<and>
          (t \<in> set (graph_outputs (info c)) \<or> crosses (info c) ep t e)})"


lemma read_epoch_final:
  assumes c: "partitioner_ok c" and inv: "sched_inv c order s" and t: "valid_tensor (info c) t"
    and all: "set order = {..<num_execution_nodes (info c)}"
  shows "tensor_epochs s ! nat t = int e \<longleftrightarrow> (\<exists>j. producer (info c) t j \<and> node_epochs s ! j = int e)"
    and "tensor_epochs s ! nat t = kEpochAlwaysReady \<or> (\<exists>j \<in> set order. tensor_epochs s ! nat t = node_epochs s ! j)"
proof -
  have p: "\<And>j. producer (info c) t j \<Longrightarrow> tensor_epochs s ! nat t = node_epochs s ! j"
    and n: "(\<And>j. \<not> producer (info c) t j) \<Longrightarrow> tensor_epochs s ! nat t = kEpochAlwaysReady"
    using inv t by (auto simp: sched_inv_def)
  show "tensor_epochs s ! nat t = int e \<longleftrightarrow> (\<exists>j. producer (info c) t j \<and> node_epochs s ! j = int e)"
  proof (cases "\<exists>j. producer (info c) t j")
    case True
    then show ?thesis using p by metis
  qed (use n in auto)
  show "tensor_epochs s ! nat t = kEpochAlwaysReady \<or> (\<exists>j \<in> set order. tensor_epochs s ! nat t = node_epochs s ! j)"
  proof (cases "\<exists>j. producer (info c) t j")
    case True
    then obtain j where j: "producer (info c) t j" by blast
    then have "j \<in> set order" using all by (auto simp: producer_def)
    then show ?thesis using p [OF j] by blast
  qed (use n in auto)
qed

lemma uniquefy_subset_simps [simp]:
  "subset_nodes (uniquefy_subset x) = subset_nodes x" "subset_type (uniquefy_subset x) = subset_type x"
  "set (input_tensors (uniquefy_subset x)) = set (input_tensors x)"
  "set (output_tensors (uniquefy_subset x)) = set (output_tensors x)"
  "sorted_wrt (<) (input_tensors (uniquefy_subset x))" "sorted_wrt (<) (output_tensors (uniquefy_subset x))"
  by (simp_all add: uniquefy_subset_def strict_sorted_Uniquefy)

lemma done_partitioned:
  assumes c: "partitioner_ok c" and d: "done_inv c order s" and all: "set order = {..<num_execution_nodes (info c)}"
  shows "\<exists>ss. mark_outputs (tensor_epochs s) (node_subsets s) (graph_outputs (info c)) = (kTfLiteOk, ss) \<and>
    partitioned c order (\<lambda>i. node_epochs s ! i) (map uniquefy_subset ss)"
proof -
  have inv: "sched_inv c order s" and sub: "subset_inv c order s" using d by (auto simp: done_inv_def)
  note re = read_epoch_final [OF c inv _ all]
  have outs: "valid_tensor (info c) t" if "t \<in> set (graph_outputs (info c))" for t
    using c that by (auto simp: partitioner_ok_def partition_ok_def list_all_iff)
  have "\<forall>t \<in> set (graph_outputs (info c)). tensor_epochs s ! nat t = kEpochAlwaysReady \<or>
      0 \<le> tensor_epochs s ! nat t \<and> tensor_epochs s ! nat t < int (length (node_subsets s))"
    using re(2) [OF outs] sub unfolding subset_inv_def by metis
  from mark_outputs_ok [OF this] obtain ss where
    m: "mark_outputs (tensor_epochs s) (node_subsets s) (graph_outputs (info c)) = (kTfLiteOk, ss)"
    "same_nodes (node_subsets s) ss" "map input_tensors ss = map input_tensors (node_subsets s)"
    and out: "\<forall>e < length (node_subsets s). set (output_tensors (ss ! e)) = set (output_tensors (node_subsets s ! e)) \<union>
        {t \<in> set (graph_outputs (info c)). tensor_epochs s ! nat t = int e}" by blast
  have len: "length ss = length (node_subsets s)" by (rule same_nodes_length [OF m(2)])
  have nodes: "subset_nodes (ss ! e) = map (\<lambda>i. int (node_index (info c) ! i)) (filter (\<lambda>i. node_epochs s ! i = int e) order)"
    if "e < length ss" for e using sub that len same_nodes_at [OF m(2)] by (simp add: subset_inv_def)
  have "map subset_nodes ss = map (\<lambda>e. map (\<lambda>i. int (node_index (info c) ! i)) (filter (\<lambda>i. node_epochs s ! i = int e) order)) [0..<length ss]"
    using nodes by (intro nth_equalityI) auto
  then have "concat (map subset_nodes ss) =
      map (\<lambda>i. int (node_index (info c) ! i)) (concat (map (\<lambda>e. filter (\<lambda>i. node_epochs s ! i = int e) order) [0..<length ss]))"
    by (simp add: map_concat comp_def)
  also have "concat (map (\<lambda>e. filter (\<lambda>i. node_epochs s ! i = int e) order) [0..<length ss]) = order"
    using sub by (intro concat_filter_sorted) (auto simp: subset_inv_def len)
  finally have conc: "concat (map subset_nodes ss) = map (\<lambda>i. int (node_index (info c) ! i)) order" .
  have io: "set (input_tensors (ss ! e)) = {t. t \<noteq> kTfLiteOptionalTensor \<and>
          (\<exists>i < num_execution_nodes (info c). node_epochs s ! i = int e \<and> t \<in> set (node_inputs (nodes (info c) ! i))) \<and>
          \<not> (\<exists>j. producer (info c) t j \<and> node_epochs s ! j = int e)} \<and>
        set (output_tensors (ss ! e)) = {t. (\<exists>j. producer (info c) t j \<and> node_epochs s ! j = int e) \<and>
          (t \<in> set (graph_outputs (info c)) \<or> crosses (info c) (\<lambda>i. node_epochs s ! i) t e)}" if e: "e < length ss" for e
  proof
    have ie: "input_tensors (ss ! e) = input_tensors (node_subsets s ! e)" using m(3) e len by (metis nth_map)
    have rd: "tensor_epochs s ! nat t = int e \<longleftrightarrow> (\<exists>j. producer (info c) t j \<and> node_epochs s ! j = int e)"
      if "i < num_execution_nodes (info c)" "t \<in> set (node_inputs (nodes (info c) ! i))" "t \<noteq> kTfLiteOptionalTensor" for t i
      by (rule re(1) [OF input_valid [OF c that]])
    have "set (input_tensors (ss ! e)) = {t. t \<noteq> kTfLiteOptionalTensor \<and> tensor_epochs s ! nat t \<noteq> int e \<and>
            (\<exists>i \<in> set order. node_epochs s ! i = int e \<and> t \<in> set (node_inputs (nodes (info c) ! i)))}"
      unfolding ie using sub e len by (simp add: subset_inv_def)
    also have "\<dots> = {t. t \<noteq> kTfLiteOptionalTensor \<and>
          (\<exists>i < num_execution_nodes (info c). node_epochs s ! i = int e \<and> t \<in> set (node_inputs (nodes (info c) ! i))) \<and>
          \<not> (\<exists>j. producer (info c) t j \<and> node_epochs s ! j = int e)}"
      (is "?L = ?R")
    proof (rule set_eqI)
      fix t
      define R where "R \<longleftrightarrow> (\<exists>i < num_execution_nodes (info c). node_epochs s ! i = int e \<and> t \<in> set (node_inputs (nodes (info c) ! i)))"
      have R: "(\<exists>i \<in> set order. node_epochs s ! i = int e \<and> t \<in> set (node_inputs (nodes (info c) ! i))) \<longleftrightarrow> R"
        by (auto simp: all R_def)
      have "R \<Longrightarrow> t \<noteq> kTfLiteOptionalTensor \<Longrightarrow>
          tensor_epochs s ! nat t = int e \<longleftrightarrow> (\<exists>j. producer (info c) t j \<and> node_epochs s ! j = int e)"
        unfolding R_def using rd by blast
      then show "t \<in> ?L \<longleftrightarrow> t \<in> ?R" unfolding mem_Collect_eq R R_def [symmetric] by blast
    qed
    finally show "set (input_tensors (ss ! e)) = {t. t \<noteq> kTfLiteOptionalTensor \<and>
          (\<exists>i < num_execution_nodes (info c). node_epochs s ! i = int e \<and> t \<in> set (node_inputs (nodes (info c) ! i))) \<and>
          \<not> (\<exists>j. producer (info c) t j \<and> node_epochs s ! j = int e)}" .
    have "set (output_tensors (ss ! e)) = {t. t \<noteq> kTfLiteOptionalTensor \<and> tensor_epochs s ! nat t = int e \<and>
            (\<exists>i \<in> set order. node_epochs s ! i \<noteq> int e \<and> t \<in> set (node_inputs (nodes (info c) ! i)))} \<union>
        {t \<in> set (graph_outputs (info c)). tensor_epochs s ! nat t = int e}"
      using out sub e len by (simp add: subset_inv_def)
    also have "\<dots> = {t. (\<exists>j. producer (info c) t j \<and> node_epochs s ! j = int e) \<and>
          (t \<in> set (graph_outputs (info c)) \<or> crosses (info c) (\<lambda>i. node_epochs s ! i) t e)}"
      (is "?L = ?R")
    proof (rule set_eqI)
      fix t
      define A B where "A \<longleftrightarrow> tensor_epochs s ! nat t = int e" and "B \<longleftrightarrow> (\<exists>j. producer (info c) t j \<and> node_epochs s ! j = int e)"
      define C where "C \<longleftrightarrow> crosses (info c) (\<lambda>i. node_epochs s ! i) t e"
      have C: "(\<exists>i \<in> set order. node_epochs s ! i \<noteq> int e \<and> t \<in> set (node_inputs (nodes (info c) ! i))) \<longleftrightarrow> C"
        by (auto simp: all crosses_def C_def)
      have 1: "t \<noteq> kTfLiteOptionalTensor \<Longrightarrow> C \<Longrightarrow> A \<longleftrightarrow> B" unfolding A_def B_def C_def crosses_def using rd by blast
      have 2: "t \<in> set (graph_outputs (info c)) \<Longrightarrow> A \<longleftrightarrow> B" unfolding A_def B_def by (rule re(1) [OF outs])
      have 3: "B \<Longrightarrow> t \<noteq> kTfLiteOptionalTensor" by (auto simp: B_def producer_def)
      show "t \<in> ?L \<longleftrightarrow> t \<in> ?R"
        unfolding Un_iff mem_Collect_eq C A_def [symmetric] B_def [symmetric] C_def [symmetric]
        using 1 2 3 by blast
    qed
    finally show "set (output_tensors (ss ! e)) = {t. (\<exists>j. producer (info c) t j \<and> node_epochs s ! j = int e) \<and>
          (t \<in> set (graph_outputs (info c)) \<or> crosses (info c) (\<lambda>i. node_epochs s ! i) t e)}" .
  qed
  have types: "0 \<le> node_epochs s ! i \<and> node_epochs s ! i < int (length ss) \<and> subset_type (ss ! nat (node_epochs s ! i)) = type_of c i"
    if "i < num_execution_nodes (info c)" for i
  proof -
    have i: "i \<in> set order" using all that by simp
    then have b: "0 \<le> node_epochs s ! i" "node_epochs s ! i < int (length (node_subsets s))" using sub by (auto simp: subset_inv_def)
    then have "nat (node_epochs s ! i) < length (node_subsets s)" by linarith
    then show ?thesis using same_nodes_at(2) [OF m(2)] sub i b by (auto simp: subset_inv_def type_of_def len)
  qed
  have nonempty: "subset_nodes (ss ! e) \<noteq> []" if "e < length ss" for e
    using same_nodes_at(1) [OF m(2)] d that len by (auto simp: done_inv_def)
  have srt: "sorted (map (\<lambda>i. node_epochs s ! i) order)" using sub by (simp add: subset_inv_def)
  have "partitioned c order (\<lambda>i. node_epochs s ! i) (map uniquefy_subset ss)"
    unfolding partitioned_def
    using inv all conc nodes nonempty types io srt
    by (auto simp: sched_inv_def comp_def nat_less_iff)
  then show ?thesis using m(1) by blast
qed

lemma Partition_cases:
  assumes c: "partitioner_ok c"
  obtains (ok) order ep ss where "Partition c = Some (kTfLiteOk, ss)" "partitioned c order ep ss"
  | (error) order ss where "Partition c = Some (kTfLiteError, ss)" "stuck c order"
      "set order \<subset> {..<num_execution_nodes (info c)}" "\<forall>k < length order. ready c (set (take k order)) (order ! k)"
proof -
  obtain order s where s: "subset_loop c (init_state c) = Some s" "done_inv c order s" "stuck c order"
    using subset_loop_total [OF c init_inv [OF c]] by auto
  have inv: "sched_inv c order s" using s(2) by (simp add: done_inv_def)
  have set: "set order = {i. i < num_execution_nodes (info c) \<and> node_epochs s ! i \<noteq> kEpochNotReady}"
    "length (node_epochs s) = num_execution_nodes (info c)" using inv by (auto simp: sched_inv_def)
  have ex: "list_ex (\<lambda>e. e = kEpochNotReady) (node_epochs s) \<longleftrightarrow> set order \<noteq> {..<num_execution_nodes (info c)}"
    using set by (auto simp: list_ex_length)
  show thesis
  proof (cases "set order = {..<num_execution_nodes (info c)}")
    case True
    obtain ss where "mark_outputs (tensor_epochs s) (node_subsets s) (graph_outputs (info c)) = (kTfLiteOk, ss)"
      "partitioned c order (\<lambda>i. node_epochs s ! i) (map uniquefy_subset ss)"
      using done_partitioned [OF c s(2) True] by blast
    then show ?thesis using ok [of "map uniquefy_subset ss"] ex True s(1) by (simp add: Partition_def)
  next
    case False
    then have "Partition c = Some (kTfLiteError, node_subsets s)" using ex s(1) by (simp add: Partition_def)
    moreover have "set order \<subset> {..<num_execution_nodes (info c)}" using False set(1) by auto
    ultimately show ?thesis using error s(3) inv by (auto simp: sched_inv_def)
  qed
qed

subsection \<open>The entry point\<close>

lemma ValidateNodes_iff:
  "ValidateNodesToPartition g ns = (if \<forall>n \<in> set ns. IsValidIndex n (num_total_nodes g) then kTfLiteOk else kTfLiteError)"
  by (induction ns) auto

lemma ValidateEdges_iff:
  "ValidateControlEdges g es = (if \<forall>e \<in> set es. IsValidIndex (fst e) (num_execution_nodes g) \<and>
     IsValidIndex (snd e) (num_execution_nodes g) then kTfLiteOk else kTfLiteError)"
proof (induction es)
  case (Cons e es)
  then show ?case by (cases e) auto
qed simp

lemma node_type_at:
  assumes "\<forall>n \<in> set ns. 0 \<le> n \<and> nat n < length ty"
  shows "length (foldl (\<lambda>ty n. ty[nat n := kTfPartition]) ty ns) = length ty \<and>
    (k < length ty \<longrightarrow> foldl (\<lambda>ty n. ty[nat n := kTfPartition]) ty ns ! k =
       (if int k \<in> set ns then kTfPartition else ty ! k))"
  using assms
proof (induction ns arbitrary: ty)
  case (Cons n ns)
  then show ?case using Cons.IH [of "ty[nat n := kTfPartition]"] by (auto simp: nth_list_update)
qed simp

definition edges_of :: "GraphInfo \<Rightarrow> bool \<Rightarrow> ControlEdges option \<Rightarrow> ControlEdges" where
  "edges_of g greedy edges = (case edges of Some es \<Rightarrow> es
     | None \<Rightarrow> if greedy then side_effect_chain (nodes g) 0 (-1) else [])"

lemma new_Partitioner_simps [simp]:
  "info (new_Partitioner g ns greedy es nf) = g" "greedily (new_Partitioner g ns greedy es nf) = greedy"
  "set (control_edges (new_Partitioner g ns greedy es nf)) = set es"
  by (simp_all add: new_Partitioner_def)

lemma new_Partitioner_ok:
  assumes "partition_ok g" "ValidateNodesToPartition g ns = kTfLiteOk" "ValidateControlEdges g es = kTfLiteOk"
  shows "partitioner_ok (new_Partitioner g ns greedy es nf)"
    and "k < num_total_nodes g \<Longrightarrow>
      node_type (new_Partitioner g ns greedy es nf) ! k = (if int k \<in> set ns then kTfPartition else kTfNonPartition)"
proof -
  let ?ty = "replicate (num_total_nodes g) kTfNonPartition" and ?c = "new_Partitioner g ns greedy es nf"
  have ns: "\<forall>n \<in> set ns. 0 \<le> n \<and> nat n < length ?ty"
    using assms(2) by (auto simp: ValidateNodes_iff IsValidIndex_def split: if_splits)
  note nt = node_type_at [OF ns]
  show at: "node_type ?c ! k = (if int k \<in> set ns then kTfPartition else kTfNonPartition)" if "k < num_total_nodes g" for k
    using nt [of k] that by (simp add: new_Partitioner_def)
  have len: "length (node_type ?c) = num_total_nodes g" using nt by (simp add: new_Partitioner_def)
  then have "kTfUnexplored \<notin> set (node_type ?c)" using at by (auto simp: in_set_conv_nth split: if_splits)
  moreover have "\<forall>e \<in> set es. IsValidIndex (fst e) (num_execution_nodes g) \<and> IsValidIndex (snd e) (num_execution_nodes g)"
    using assms(3) by (auto simp: ValidateEdges_iff split: if_splits)
  ultimately show "partitioner_ok ?c"
    using assms(1) len by (auto simp: partitioner_ok_def) (simp add: new_Partitioner_def strict_sorted_Uniquefy)
qed

lemma entry_eq:
  "PartitionGraphIntoIndependentNodeSubsets g ns ss0 greedy edges nf =
     (if ValidateNodesToPartition g ns \<noteq> kTfLiteOk \<or> ValidateControlEdges g (edges_of g greedy edges) \<noteq> kTfLiteOk
      then Some (kTfLiteError, ss0)
      else Partition (new_Partitioner g ns greedy (edges_of g greedy edges) nf))"
  by (simp add: PartitionGraphIntoIndependentNodeSubsets_def edges_of_def Let_def)

lemma entry_ok:
  assumes g: "partition_ok g" and r: "PartitionGraphIntoIndependentNodeSubsets g ns ss0 greedy edges nf = Some (kTfLiteOk, ss)"
  defines "c \<equiv> new_Partitioner g ns greedy (edges_of g greedy edges) nf"
  obtains order ep where "partitioned c order ep ss" "partitioner_ok c"
    "ValidateNodesToPartition g ns = kTfLiteOk" "ValidateControlEdges g (edges_of g greedy edges) = kTfLiteOk"
proof -
  have v: "ValidateNodesToPartition g ns = kTfLiteOk" "ValidateControlEdges g (edges_of g greedy edges) = kTfLiteOk"
    and p: "Partition c = Some (kTfLiteOk, ss)"
    using r by (auto simp: entry_eq c_def split: if_splits)
  have ok: "partitioner_ok c" unfolding c_def by (rule new_Partitioner_ok(1) [OF g v])
  show thesis
    using p by (cases rule: Partition_cases [OF ok]) (auto intro: that ok v)
qed

subsection \<open>Graphs in dependency order\<close>

definition dependency_ordered :: "GraphInfo \<Rightarrow> ControlEdges \<Rightarrow> bool" where
  "dependency_ordered g es \<longleftrightarrow>
     (\<forall>i < num_execution_nodes g. \<forall>t \<in> set (node_inputs (nodes g ! i)). \<forall>j < num_execution_nodes g.
        t \<noteq> kTfLiteOptionalTensor \<and> t \<in> set (node_outputs (nodes g ! j)) \<longrightarrow> j < i) \<and>
     (\<forall>e \<in> set es. fst e < snd e)"

lemma dependency_ready:
  assumes "partitioner_ok c" "dependency_ordered (info c) (control_edges c)" "i < num_execution_nodes (info c)" "{..<i} \<subseteq> S"
  shows "ready c S i"
  unfolding ready_def
proof (intro conjI ballI allI impI)
  fix t j assume "t \<in> set (node_inputs (nodes (info c) ! i))" "producer (info c) t j"
  then have "j < i" using assms(2,3) by (auto simp: dependency_ordered_def producer_def)
  then show "j \<in> S" using assms(4) by auto
next
  fix a assume e: "(a, int i) \<in> set (control_edges c)"
  then have "a < int i" "0 \<le> a" using assms(1,2) by (auto simp: dependency_ordered_def partitioner_ok_def IsValidIndex_def)
  then have "nat a < i" by linarith
  then show "nat a \<in> S" using assms(4) by auto
qed

lemma stuck_complete:
  assumes "partitioner_ok c" "dependency_ordered (info c) (control_edges c)" "stuck c order"
  shows "{..<num_execution_nodes (info c)} \<subseteq> set order"
proof
  fix i assume "i \<in> {..<num_execution_nodes (info c)}"
  then show "i \<in> set order"
  proof (induction i rule: less_induct)
    case (less i)
    then have "{..<i} \<subseteq> set order" by auto
    then have "ready c (set order) i" using dependency_ready [OF assms(1,2)] less.prems by auto
    then show ?case using assms(3) less.prems by (auto simp: stuck_def)
  qed
qed

lemma Partition_dependency_ordered:
  assumes "partitioner_ok c" "dependency_ordered (info c) (control_edges c)"
  shows "\<exists>ss. Partition c = Some (kTfLiteOk, ss)"
  using assms(1)
proof (cases rule: Partition_cases)
  case (error order ss)
  then show ?thesis using stuck_complete [OF assms error(2)] by auto
qed auto

subsection \<open>Side effects\<close>

lemma side_effect_chain_edges:
  "(a, b) \<in> set (side_effect_chain ns i lst) \<Longrightarrow>
   (a = lst \<and> lst \<noteq> -1 \<or> i \<le> a \<and> a < i + int (length ns)) \<and> i \<le> b \<and> b < i + int (length ns) \<and> (lst < i \<longrightarrow> a < b)"
  by (induction ns arbitrary: i lst) (fastforce split: if_splits)+

lemma side_effect_chain_mono:
  "p \<in> (set (side_effect_chain ns (i + 1) (if might_have_side_effect n then i else lst)))\<^sup>+ \<Longrightarrow>
   p \<in> (set (side_effect_chain (n # ns) i lst))\<^sup>+"
  by (erule trancl_mono) auto

lemma side_effect_chain_first:
  "0 \<le> i \<Longrightarrow> lst \<noteq> -1 \<Longrightarrow> b < length ns \<Longrightarrow> might_have_side_effect (ns ! b) \<Longrightarrow>
      (lst, i + int b) \<in> (set (side_effect_chain ns i lst))\<^sup>+"
proof (induction ns arbitrary: i lst b)
  case (Cons n ns)
  let ?E = "set (side_effect_chain (n # ns) i lst)"
  show ?case
  proof (cases b)
    case 0
    then show ?thesis using Cons.prems by auto
  next
    case (Suc b')
    have "((if might_have_side_effect n then i else lst), (i + 1) + int b') \<in> ?E\<^sup>+"
      by (rule side_effect_chain_mono, rule Cons.IH) (use Cons.prems Suc in auto)
    moreover have "(lst, i) \<in> ?E" if "might_have_side_effect n" using that Cons.prems by simp
    ultimately show ?thesis
      using Suc by (cases "might_have_side_effect n") (auto intro: trancl_into_trancl2 simp: algebra_simps)
  qed
qed simp

lemma side_effect_chain_path:
  "0 \<le> i \<Longrightarrow> a < b \<Longrightarrow> b < length ns \<Longrightarrow> might_have_side_effect (ns ! a) \<Longrightarrow> might_have_side_effect (ns ! b) \<Longrightarrow>
      (i + int a, i + int b) \<in> (set (side_effect_chain ns i lst))\<^sup>+"
proof (induction ns arbitrary: i lst a b)
  case (Cons n ns)
  let ?E = "set (side_effect_chain (n # ns) i lst)"
  obtain b' where b: "b = Suc b'" using Cons.prems by (cases b) auto
  show ?case
  proof (cases a)
    case 0
    then have n: "might_have_side_effect n" using Cons.prems by simp
    have "((if might_have_side_effect n then i else lst), (i + 1) + int b') \<in> ?E\<^sup>+"
      by (rule side_effect_chain_mono, rule side_effect_chain_first) (use Cons.prems b n in auto)
    then show ?thesis using 0 b n by (simp add: algebra_simps)
  next
    case (Suc a')
    have "((i + 1) + int a', (i + 1) + int b') \<in> ?E\<^sup>+"
      by (rule side_effect_chain_mono, rule Cons.IH) (use Cons.prems b Suc in auto)
    then show ?thesis using Suc b by (simp add: algebra_simps)
  qed
qed simp

definition before :: "nat list \<Rightarrow> nat \<Rightarrow> nat \<Rightarrow> bool" where
  "before order i j \<longleftrightarrow> (\<exists>l < length order. order ! l = j \<and> i \<in> set (take l order))"

lemma before_trans:
  assumes "distinct order" "before order i j" "before order j k" shows "before order i k"
proof -
  obtain l m where l: "l < length order" "order ! l = j" "i \<in> set (take l order)"
    and m: "m < length order" "order ! m = k" "j \<in> set (take m order)" using assms by (auto simp: before_def)
  obtain l' where "l' < m" "order ! l' = j" using m by (auto simp: in_set_conv_nth)
  then have "l < m" using assms(1) l m(1) by (metis less_trans nth_eq_iff_index_eq)
  then have "set (take l order) \<subseteq> set (take m order)" by (intro set_take_subset_set_take) simp
  then show ?thesis using l m by (auto simp: before_def)
qed

lemma partitioned_edge:
  assumes "partitioned c order ep ss" "(a, b) \<in> set (control_edges c)" "0 \<le> b" "nat b < num_execution_nodes (info c)"
  shows "before order (nat a) (nat b)"
proof -
  have "nat b \<in> set order" using assms by (simp add: partitioned_def)
  then obtain l where l: "l < length order" "order ! l = nat b" by (auto simp: in_set_conv_nth)
  then have "ready c (set (take l order)) (nat b)" using assms(1) by (auto simp: partitioned_def)
  then show ?thesis using assms(2,3) l by (auto simp: ready_def before_def)
qed

lemma partitioned_path:
  assumes p: "partitioned c order ep ss" and c: "partitioner_ok c" and "(a, b) \<in> (set (control_edges c))\<^sup>+"
  shows "before order (nat a) (nat b)"
  using assms(3)
proof (induction rule: trancl_induct)
  case (base b)
  then show ?case using partitioned_edge [OF p] c by (auto simp: partitioner_ok_def IsValidIndex_def)
next
  case (step b d)
  then have "before order (nat b) (nat d)"
    using partitioned_edge [OF p] c by (auto simp: partitioner_ok_def IsValidIndex_def)
  then show ?case using step.IH p before_trans by (auto simp: partitioned_def)
qed

subsection \<open>Partitioning that keeps the order of the plan\<close>

lemma upt_step: "k \<le> k' \<Longrightarrow> [0..<k] @ [k..<k'] = [0..<k']"
  using upt_add_eq_append [of 0 k "k' - k"] by simp

lemma order_full:
  assumes "sched_inv c ([0..<num_execution_nodes (info c)] @ added) s" shows "added = []"
  using order_bound [OF assms] by simp

lemma keep_order_run:
  assumes c: "partitioner_ok c" and ng: "\<not> greedily c"
  shows "k \<le> num_execution_nodes (info c) \<Longrightarrow> build_inv c [0..<k] s \<Longrightarrow>
    update_nodes c True s [k..<num_execution_nodes (info c)] = (ret, did, s') \<Longrightarrow>
    did \<and> (\<exists>k'. k \<le> k' \<and> k' \<le> num_execution_nodes (info c) \<and> extends c [0..<k] s [k..<k'] s' \<and>
       (\<not> ret \<longrightarrow> k' = num_execution_nodes (info c)))"
proof (induction "num_execution_nodes (info c) - k" arbitrary: k s)
  case 0
  then show ?case using extends_refl [OF 0(3)] by auto
next
  case (Suc m)
  let ?n = "num_execution_nodes (info c)"
  have k: "k < ?n" using Suc(2) by simp
  then have upt: "[k..<?n] = k # [Suc k..<?n]" by (rule upt_conv_Cons)
  have inv: "sched_inv c [0..<k] s" "node_subsets s \<noteq> []" using Suc.prems(2) by (auto simp: build_inv_def)
  note u = UpdateNode_eq [OF c inv(1) k inv(2)]
  show ?case
  proof (cases "schedulable c [0..<k] s k")
    case True
    have st: "extends c [0..<k] s [k] (scheduled c s k)" by (rule extends_step [OF c Suc.prems(2) k True])
    then have b: "build_inv c [0..<Suc k] (scheduled c s k)" by (simp add: extends_def)
    have u': "update_nodes c True (scheduled c s k) [Suc k..<?n] = (ret, did, s')"
      using Suc.prems(3) u True by (simp add: upt)
    have "m = ?n - Suc k" "Suc k \<le> ?n" using Suc(2) k by auto
    from Suc.hyps(1) [OF this b u'] obtain k' where
      k': "Suc k \<le> k'" "k' \<le> ?n" "extends c [0..<Suc k] (scheduled c s k) [Suc k..<k'] s'" "\<not> ret \<longrightarrow> k' = ?n" "did"
      by (elim conjE exE)
    have "extends c [0..<k] s ([k] @ [Suc k..<k']) s'" using extends_trans [OF st, of "[Suc k..<k']" s'] k'(3) by simp
    moreover have "[k] @ [Suc k..<k'] = [k..<k']" using k'(1) by (simp add: upt_conv_Cons)
    ultimately show ?thesis using k' by (metis Suc_leD)
  next
    case False
    then have "ret" "did" "s' = s" using Suc.prems(3) u ng by (simp_all add: upt)
    then show ?thesis using extends_refl [OF Suc.prems(2)] k by (intro conjI exI [of _ k]) auto
  qed
qed

lemma skip_done:
  assumes c: "partitioner_ok c" and k: "k \<le> num_execution_nodes (info c)" and b: "build_inv c [0..<k] s" and "i \<le> k"
  shows "update_nodes c False s [i..<num_execution_nodes (info c)] = update_nodes c False s [k..<num_execution_nodes (info c)]"
  using assms(4)
proof (induction "k - i" arbitrary: i)
  case (Suc m)
  then have i: "i < k" "i < num_execution_nodes (info c)" using k by auto
  have inv: "sched_inv c [0..<k] s" "node_subsets s \<noteq> []" using b by (auto simp: build_inv_def)
  have "UpdateNode c s i = (False, s)"
    using UpdateNode_eq [OF c inv(1) i(2) inv(2)] i(1) by (simp add: schedulable_def)
  then have "update_nodes c False s [i..<num_execution_nodes (info c)] = update_nodes c False s [Suc i..<num_execution_nodes (info c)]"
    using i(2) by (simp add: upt_conv_Cons)
  then show ?case using Suc.hyps(1) [of "Suc i"] Suc.hyps(2) i(1) by simp
qed simp

lemma keep_order_build:
  assumes c: "partitioner_ok c" and ng: "\<not> greedily c" and dep: "dependency_ordered (info c) (control_edges c)"
    and d: "done_inv c [0..<k] s" and k: "k < num_execution_nodes (info c)"
  shows "\<exists>k' s'. BuildNodeSubset c s = Some s' \<and> k < k' \<and> k' \<le> num_execution_nodes (info c) \<and>
    done_inv c [0..<k'] s' \<and> subset_nodes (last (node_subsets s')) \<noteq> []"
proof -
  let ?n = "num_execution_nodes (info c)" and ?s = "s\<lparr>node_subsets := node_subsets s @ [new_NodeSubset]\<rparr>"
  have b: "build_inv c [0..<k] ?s" by (rule done_build [OF c d])
  have inv: "sched_inv c [0..<k] ?s" "node_subsets ?s \<noteq> []" using b by (auto simp: build_inv_def)
  have sch: "schedulable c [0..<k] ?s k"
    using dependency_ready [OF c dep k] by (simp add: schedulable_def new_NodeSubset_def lessThan_atLeast0)
  define s1 where "s1 = scheduled c ?s k"
  have st: "extends c [0..<k] ?s [k] s1" unfolding s1_def by (rule extends_step [OF c b k sch])
  then have b1: "build_inv c [0..<Suc k] s1" by (simp add: extends_def)
  obtain ret did s2 where u: "update_nodes c True s1 [Suc k..<?n] = (ret, did, s2)"
    by (cases "update_nodes c True s1 [Suc k..<?n]")
  then have pass: "update_nodes c False ?s [0..<?n] = (ret, did, s2)"
    using skip_done [OF c _ b, of 0] k UpdateNode_eq [OF c inv(1) k inv(2)] sch
    by (simp add: upt_conv_Cons s1_def)
  from keep_order_run [OF c ng _ b1 u] k obtain k' where
    k': "Suc k \<le> k'" "k' \<le> ?n" "extends c [0..<Suc k] s1 [Suc k..<k'] s2" "\<not> ret \<longrightarrow> k' = ?n" "did" by auto
  have "extends c [0..<k] ?s ([k] @ [Suc k..<k']) s2" using extends_trans [OF st, of "[Suc k..<k']" s2] k'(3) by simp
  then have ext: "extends c [0..<k] ?s [k..<k'] s2" using k'(1) by (simp add: upt_conv_Cons)
  then have b2: "build_inv c [0..<k'] s2" using k'(1) upt_step [of k k'] by (simp add: extends_def)
  have ne: "subset_nodes (last (node_subsets s2)) \<noteq> []" using ext k'(1) by (simp add: extends_def)
  have loop: "build_loop c ?s = (if ret then Some s2 else build_loop c s2)"
    by (subst build_loop.simps) (simp add: pass k'(5))
  have "build_loop c ?s = Some s2"
  proof (cases ret)
    case False
    then have "k' = ?n" using k'(4) by simp
    then have b2': "build_inv c [0..<?n] s2" using b2 by simp
    from build_loop_total [OF c b2'] obtain a s3 where a: "build_loop c s2 = Some s3" "extends c [0..<?n] s2 a s3" by blast
    then have "a = []" using order_full [of c a s3] by (simp add: extends_def build_inv_def)
    then show ?thesis using a loop False by (simp add: extends_def)
  qed (simp add: loop)
  then show ?thesis
    using k'(1,2) build_done [OF b2 ne] ne by (intro exI [of _ k'] exI [of _ s2]) (simp add: BuildNodeSubset_def)
qed

lemma keep_order_loop:
  assumes c: "partitioner_ok c" and ng: "\<not> greedily c" and dep: "dependency_ordered (info c) (control_edges c)"
  shows "done_inv c [0..<k] s \<Longrightarrow> k \<le> num_execution_nodes (info c) \<Longrightarrow>
    \<exists>s'. subset_loop c s = Some s' \<and> done_inv c [0..<num_execution_nodes (info c)] s'"
proof (induction "num_execution_nodes (info c) - k" arbitrary: k s rule: less_induct)
  case less
  let ?n = "num_execution_nodes (info c)"
  show ?case
  proof (cases "k = ?n")
    case True
    from subset_loop_total [OF c less.prems(1)] obtain a s' where
      a: "subset_loop c s = Some s'" "done_inv c ([0..<k] @ a) s'" by blast
    then have "a = []" using order_full [of c a s'] True by (simp add: done_inv_def)
    then show ?thesis using a True by auto
  next
    case False
    then have k: "k < ?n" using less.prems(2) by simp
    from keep_order_build [OF c ng dep less.prems(1) k] obtain k' s1 where
      1: "BuildNodeSubset c s = Some s1" "k < k'" "k' \<le> ?n" "done_inv c [0..<k'] s1"
      "subset_nodes (last (node_subsets s1)) \<noteq> []" by blast
    have "subset_loop c s = subset_loop c s1" by (subst subset_loop.simps) (simp add: 1)
    then show ?thesis using less.hyps [OF _ 1(4,3)] 1(2) k by simp
  qed
qed

lemma keep_order_Partition:
  assumes c: "partitioner_ok c" and "\<not> greedily c" "dependency_ordered (info c) (control_edges c)"
  shows "\<exists>ss ep. Partition c = Some (kTfLiteOk, ss) \<and> partitioned c [0..<num_execution_nodes (info c)] ep ss"
proof -
  let ?n = "num_execution_nodes (info c)"
  have "done_inv c [0..<0] (init_state c)" using init_inv [OF c] by simp
  from keep_order_loop [OF assms this] obtain s where
    s: "subset_loop c (init_state c) = Some s" "done_inv c [0..<?n] s" by auto
  have inv: "sched_inv c [0..<?n] s" using s(2) by (simp add: done_inv_def)
  have "node_epochs s ! i \<noteq> kEpochNotReady" if "i < ?n" for i
  proof -
    have "i \<in> set [0..<?n]" using that by simp
    then show ?thesis using inv unfolding sched_inv_def by blast
  qed
  moreover have "length (node_epochs s) = ?n" using inv by (simp add: sched_inv_def)
  ultimately have "\<not> list_ex (\<lambda>e. e = kEpochNotReady) (node_epochs s)"
    by (auto simp: list_ex_length)
  moreover obtain ss where "mark_outputs (tensor_epochs s) (node_subsets s) (graph_outputs (info c)) = (kTfLiteOk, ss)"
    "partitioned c [0..<?n] (\<lambda>i. node_epochs s ! i) (map uniquefy_subset ss)"
    using done_partitioned [OF c s(2)] by (auto simp: lessThan_atLeast0)
  ultimately show ?thesis using s(1) by (auto simp: Partition_def)
qed

section \<open>A concrete graph\<close>

text \<open>
  The example of the header: node \<open>i\<close> writes tensor \<open>i + 1\<close>; node 4 reads the result of node 1 and
  node 5 those of nodes 3 and 4; nodes 2 and 3 are to be delegated.
\<close>

definition demo_node :: "int list \<Rightarrow> int list \<Rightarrow> bool \<Rightarrow> TfLiteNode" where
  "demo_node ins outs effect = \<lparr>node_inputs = ins, node_outputs = outs, node_temporaries = [],
     might_have_side_effect = effect, inplace_operator = 0\<rparr>"

definition demo_tensor :: TfLiteTensor where
  "demo_tensor = \<lparr>allocation_type = kTfLiteArenaRw, bytes = 4, data_ptr = nullptr\<rparr>"

definition demo_graph :: GraphInfo where
  "demo_graph = \<lparr>tensors = [demo_tensor, demo_tensor, demo_tensor, demo_tensor, demo_tensor, demo_tensor, demo_tensor],
     nodes = [demo_node [0] [1] False, demo_node [1] [2] True, demo_node [2] [3] False, demo_node [3] [4] False,
              demo_node [2] [5] True, demo_node [4, 5] [6] False],
     node_index = [0, 1, 2, 3, 4, 5], num_total_nodes = 6,
     graph_inputs = [0], graph_outputs = [6], graph_variables = []\<rparr>"

lemma all_less_Suc: "(\<forall>i < Suc n. P i) \<longleftrightarrow> (\<forall>i < n. P i) \<and> P n" by (auto simp: less_Suc_eq)

lemma demo_graph_ok: "partition_ok demo_graph"
  by (simp add: partition_ok_def demo_graph_def demo_node_def node_ok_def opt_tensor_def valid_tensor_def
      all_less_Suc numeral_eq_Suc)

definition demo_subset :: "NodeSubset_Type \<Rightarrow> int list \<Rightarrow> int list \<Rightarrow> int list \<Rightarrow> NodeSubset" where
  "demo_subset ty ns ins outs = \<lparr>subset_type = ty, subset_nodes = ns, input_tensors = ins, output_tensors = outs\<rparr>"

lemma demo_partition:
  "PartitionGraphIntoIndependentNodeSubsets demo_graph [2, 3] [] True (Some []) False =
   Some (kTfLiteOk, [demo_subset kTfNonPartition [0, 1, 4] [0] [2, 5], demo_subset kTfPartition [2, 3] [2] [4],
     demo_subset kTfNonPartition [5] [4, 5] [6]])"
  by (simp add: PartitionGraphIntoIndependentNodeSubsets_def Partition_def new_Partitioner_def IsValidIndex_def
      init_state_def BuildNodeSubset_def subset_loop.simps build_loop.simps UpdateNode_def note_input_def set_epochs_def
      outgoing_def Uniquefy_def uniquefy_subset_def new_NodeSubset_def demo_graph_def demo_node_def demo_subset_def upt_rec Let_def
      cong: eval_congs)

section \<open>Properties of partitioning\<close>

text \<open>C40: Partitioning a graph with indices in range and a single producer per tensor always returns,
  whatever nodes, control edges and options are given, and it only returns \<open>kTfLiteOk\<close> or
  \<open>kTfLiteError\<close>.\<close>

theorem Partition_returns:
  assumes "partition_ok g"
  shows "\<exists>st ss. PartitionGraphIntoIndependentNodeSubsets g ns ss0 greedy edges nf = Some (st, ss) \<and>
    st \<in> {kTfLiteOk, kTfLiteError}"
proof (cases "ValidateNodesToPartition g ns \<noteq> kTfLiteOk \<or> ValidateControlEdges g (edges_of g greedy edges) \<noteq> kTfLiteOk")
  case False
  then have "partitioner_ok (new_Partitioner g ns greedy (edges_of g greedy edges) nf)"
    using new_Partitioner_ok(1) [OF assms] by simp
  then show ?thesis using False by (cases rule: Partition_cases) (auto simp: entry_eq)
qed (auto simp: entry_eq)

theorem Partition_returns_witness:
  "\<exists>st ss. PartitionGraphIntoIndependentNodeSubsets demo_graph [2, 3] [] False (Some [(4, 1), (1, 4)]) True = Some (st, ss)"
  using Partition_returns [OF demo_graph_ok] by blast

text \<open>Every subset of a successful partitioning is non-empty and uniform: either all its nodes were asked to
  be delegated and it is marked so, or none was.\<close>

theorem Partition_subsets_uniform:
  assumes "partition_ok g"
    and "PartitionGraphIntoIndependentNodeSubsets g ns ss0 greedy edges nf = Some (kTfLiteOk, ss)"
    and "x \<in> set ss"
  shows "subset_nodes x \<noteq> [] \<and>
    (subset_type x = kTfPartition \<and> set (subset_nodes x) \<subseteq> set ns \<or>
     subset_type x = kTfNonPartition \<and> set (subset_nodes x) \<inter> set ns = {})"
proof -
  let ?c = "new_Partitioner g ns greedy (edges_of g greedy edges) nf"
  obtain order ep where p: "partitioned ?c order ep ss" and v: "ValidateNodesToPartition g ns = kTfLiteOk"
    "ValidateControlEdges g (edges_of g greedy edges) = kTfLiteOk"
    using entry_ok [OF assms(1,2)] by blast
  obtain e where e: "e < length ss" "ss ! e = x" using assms(3) by (auto simp: in_set_conv_nth)
  have nodes: "subset_nodes x \<noteq> []"
    "subset_nodes x = map (\<lambda>i. int (node_index g ! i)) (filter (\<lambda>i. ep i = int e) order)"
    using p e by (auto simp: partitioned_def)
  have ty: "subset_type x = (if m \<in> set ns then kTfPartition else kTfNonPartition)" if m: "m \<in> set (subset_nodes x)" for m
  proof -
    obtain i where i: "i \<in> set order" "ep i = int e" "m = int (node_index g ! i)" using m unfolding nodes(2) by auto
    then have n: "i < num_execution_nodes g" using p by (auto simp: partitioned_def)
    then have "node_index g ! i < num_total_nodes g" using assms(1) by (simp add: partition_ok_def list_all_iff)
    moreover have "subset_type (ss ! nat (ep i)) = type_of ?c i" using p n by (simp add: partitioned_def)
    ultimately show ?thesis using new_Partitioner_ok(2) [OF assms(1) v] i e by (simp add: type_of_def)
  qed
  obtain m where "m \<in> set (subset_nodes x)" using nodes(1) by (meson last_in_set)
  then have t: "subset_type x = (if m \<in> set ns then kTfPartition else kTfNonPartition)" by (rule ty)
  then have "n \<in> set ns \<longleftrightarrow> m \<in> set ns" if "n \<in> set (subset_nodes x)" for n using ty [OF that] by (auto split: if_splits)
  then show ?thesis using t nodes(1) by auto
qed

theorem Partition_subsets_uniform_witness:
  "set (subset_nodes (demo_subset kTfPartition [2, 3] [2] [4])) \<subseteq> {2, 3}"
  using Partition_subsets_uniform [OF demo_graph_ok demo_partition, of "demo_subset kTfPartition [2, 3] [2] [4]"]
  by (simp add: demo_subset_def)

text \<open>C16: The borders of the subsets are exact: the inputs of a subset are the tensors that one of its nodes
  reads and none of them writes; its outputs are the tensors that one of its nodes writes and that are outputs
  of the graph or read by a node of another subset.  Both lists are sorted without duplicates.\<close>

theorem Partition_borders:
  assumes "partition_ok g"
    and "PartitionGraphIntoIndependentNodeSubsets g ns ss0 greedy edges nf = Some (kTfLiteOk, ss)"
  shows "\<exists>ep. \<forall>e < length ss.
    set (subset_nodes (ss ! e)) = {int (node_index g ! i) | i. i < num_execution_nodes g \<and> ep i = int e} \<and>
    sorted_wrt (<) (input_tensors (ss ! e)) \<and> sorted_wrt (<) (output_tensors (ss ! e)) \<and>
    set (input_tensors (ss ! e)) = {t. t \<noteq> kTfLiteOptionalTensor \<and>
      (\<exists>i < num_execution_nodes g. ep i = int e \<and> t \<in> set (node_inputs (nodes g ! i))) \<and>
      \<not> (\<exists>j. producer g t j \<and> ep j = int e)} \<and>
    set (output_tensors (ss ! e)) = {t. (\<exists>j. producer g t j \<and> ep j = int e) \<and>
      (t \<in> set (graph_outputs g) \<or>
       (\<exists>i < num_execution_nodes g. ep i \<noteq> int e \<and> t \<in> set (node_inputs (nodes g ! i))))}"
proof -
  obtain order ep where "partitioned (new_Partitioner g ns greedy (edges_of g greedy edges) nf) order ep ss"
    using entry_ok [OF assms] by blast
  then show ?thesis by (intro exI [of _ ep]) (auto simp: partitioned_def crosses_def)
qed

theorem Partition_borders_witness:
  "\<exists>ep :: nat \<Rightarrow> int. {4} = {t. (\<exists>j. producer demo_graph t j \<and> ep j = 1) \<and> (t \<in> {6} \<or>
     (\<exists>i < 6. ep i \<noteq> 1 \<and> t \<in> set (node_inputs (nodes demo_graph ! i))))}"
proof -
  have n: "num_execution_nodes demo_graph = 6" "graph_outputs demo_graph = [6]" by (simp_all add: demo_graph_def)
  from Partition_borders [OF demo_graph_ok demo_partition] show ?thesis
    by (elim exE) (drule spec [of _ 1], auto simp: demo_subset_def n)
qed

text \<open>Partitioning succeeds on every graph whose nodes and control edges are in dependency order, so the only
  error left is a dependency cycle or an index out of range.\<close>

theorem Partition_succeeds:
  assumes "partition_ok g" and "dependency_ordered g es"
    and "\<forall>n \<in> set ns. IsValidIndex n (num_total_nodes g)"
    and "\<forall>(a, b) \<in> set es. IsValidIndex a (num_execution_nodes g) \<and> IsValidIndex b (num_execution_nodes g)"
  shows "\<exists>ss. PartitionGraphIntoIndependentNodeSubsets g ns ss0 greedy (Some es) nf = Some (kTfLiteOk, ss)"
proof -
  have v: "ValidateNodesToPartition g ns = kTfLiteOk" "ValidateControlEdges g es = kTfLiteOk"
    using assms(3,4) by (auto simp: ValidateNodes_iff ValidateEdges_iff)
  have "dependency_ordered g (control_edges (new_Partitioner g ns greedy es nf))"
    using assms(2) by (simp add: dependency_ordered_def)
  then show ?thesis
    using Partition_dependency_ordered [OF new_Partitioner_ok(1) [OF assms(1) v]] v by (simp add: entry_eq edges_of_def)
qed

lemma demo_graph_ordered: "dependency_ordered demo_graph [(3, 4)]"
  by (simp add: dependency_ordered_def demo_graph_def demo_node_def all_less_Suc numeral_eq_Suc)

theorem Partition_succeeds_witness:
  "\<exists>ss. PartitionGraphIntoIndependentNodeSubsets demo_graph [2, 3] [] True (Some [(3, 4)]) False = Some (kTfLiteOk, ss)"
  by (rule Partition_succeeds [OF demo_graph_ok demo_graph_ordered]) (simp_all add: IsValidIndex_def demo_graph_def)

text \<open>Partitioning that is not greedy keeps the order of the plan of a graph in dependency order: the subsets,
  read in sequence, list exactly the nodes of the plan.\<close>

theorem Partition_keeps_order:
  assumes "partition_ok g" and "dependency_ordered g []"
    and "PartitionGraphIntoIndependentNodeSubsets g ns ss0 False None nf = Some (kTfLiteOk, ss)"
  shows "concat (map subset_nodes ss) = map int (node_index g)"
proof -
  let ?c = "new_Partitioner g ns False (edges_of g False None) nf"
  have e: "edges_of g False None = []" by (simp add: edges_of_def)
  have p: "Partition ?c = Some (kTfLiteOk, ss)" and ok: "partitioner_ok ?c"
    using entry_ok [OF assms(1,3)] assms(3) by (auto simp: entry_eq split: if_splits)
  have "set (control_edges ?c) = {}" by (simp add: e)
  then have "dependency_ordered (info ?c) (control_edges ?c)" using assms(2) by (simp add: dependency_ordered_def)
  from keep_order_Partition [OF ok _ this] p obtain ep where "partitioned ?c [0..<num_execution_nodes g] ep ss" by auto
  then have "concat (map subset_nodes ss) = map (\<lambda>i. int (node_index g ! i)) [0..<num_execution_nodes g]"
    by (simp add: partitioned_def)
  also have "\<dots> = map int (node_index g)"
    using assms(1) by (intro nth_equalityI) (auto simp: partition_ok_def)
  finally show ?thesis .
qed

theorem Partition_keeps_order_witness:
  "\<exists>ss. PartitionGraphIntoIndependentNodeSubsets demo_graph [2, 3] [] False None False = Some (kTfLiteOk, ss) \<and>
     concat (map subset_nodes ss) = [0, 1, 2, 3, 4, 5]"
proof -
  have d: "dependency_ordered demo_graph []" using demo_graph_ordered by (simp add: dependency_ordered_def)
  have v: "ValidateNodesToPartition demo_graph [2, 3] = kTfLiteOk" "ValidateControlEdges demo_graph [] = kTfLiteOk"
    by (simp_all add: IsValidIndex_def demo_graph_def)
  have c: "set (control_edges (new_Partitioner demo_graph [2, 3] False [] False)) = {}" by simp
  then have "\<exists>ss. PartitionGraphIntoIndependentNodeSubsets demo_graph [2, 3] [] False None False = Some (kTfLiteOk, ss)"
    using Partition_dependency_ordered [OF new_Partitioner_ok(1) [OF demo_graph_ok v]] v d
    by (simp add: entry_eq edges_of_def dependency_ordered_def)
  then obtain ss where "PartitionGraphIntoIndependentNodeSubsets demo_graph [2, 3] [] False None False = Some (kTfLiteOk, ss)"
    by blast
  with Partition_keeps_order [OF demo_graph_ok d this] show ?thesis by (simp add: demo_graph_def)
qed

text \<open>Greedy partitioning without explicit control edges never reorders nodes that might have side effects.\<close>

lemma greedy_side_effects:
  assumes p: "partitioned (new_Partitioner g ns True (edges_of g True None) nf) order ep ss"
    and ok: "partitioner_ok (new_Partitioner g ns True (edges_of g True None) nf)"
    and ij: "i < j" "j < num_execution_nodes g" "might_have_side_effect (nodes g ! i)" "might_have_side_effect (nodes g ! j)"
  shows "before order i j"
proof -
  have "(int i, int j) \<in> (set (control_edges (new_Partitioner g ns True (edges_of g True None) nf)))\<^sup>+"
    using side_effect_chain_path [of 0, OF _ ij, of "-1"] by (simp add: edges_of_def)
  from partitioned_path [OF p ok this] show ?thesis by simp
qed

text \<open>The order of the nodes in a successful partitioning; without control edges and without reordering it is that of the plan.\<close>

lemma entry_order:
  assumes g: "partition_ok g" and r: "PartitionGraphIntoIndependentNodeSubsets g ns ss0 greedy edges nf = Some (kTfLiteOk, ss)"
  obtains order ep where "partitioned (new_Partitioner g ns greedy (edges_of g greedy edges) nf) order ep ss"
    "edges = None \<Longrightarrow> \<not> greedy \<Longrightarrow> dependency_ordered g [] \<Longrightarrow> order = [0..<num_execution_nodes g]"
proof (cases "edges = None \<and> \<not> greedy \<and> dependency_ordered g []")
  case True
  let ?c = "new_Partitioner g ns False (edges_of g False None) nf"
  have p: "Partition ?c = Some (kTfLiteOk, ss)" and ok: "partitioner_ok ?c"
    using entry_ok [OF g r] r True by (auto simp: entry_eq split: if_splits)
  have "dependency_ordered (info ?c) (control_edges ?c)" using True by (simp add: dependency_ordered_def edges_of_def)
  from keep_order_Partition [OF ok _ this] p obtain ep where "partitioned ?c [0..<num_execution_nodes g] ep ss" by auto
  with True show ?thesis by (intro that [of "[0..<num_execution_nodes g]" ep]) auto
next
  case False
  obtain order ep where "partitioned (new_Partitioner g ns greedy (edges_of g greedy edges) nf) order ep ss"
    using entry_ok [OF g r] by blast
  with False show ?thesis by (intro that [of order ep]) auto
qed

lemma before_upt: "i < j \<Longrightarrow> j < n \<Longrightarrow> before [0..<n] i j"
  unfolding before_def by (intro exI [of _ j]) simp

text \<open>C15: A successful partitioning schedules every node of the plan exactly once, in an order in which each
  node comes after all producers of its inputs and after the sources of the control edges that are given; the subsets,
  read in sequence, list the nodes in that order. When no control edges are given, nodes that might have side effects
  keep their order of the plan: always in the greedy mode, and in the other one if every node of the plan stands after
  the producers of its inputs. The graph has indices in range and at most one producer for each tensor.\<close>

theorem Partition_respects_dependencies:
  assumes "partition_ok g"
    and "PartitionGraphIntoIndependentNodeSubsets g ns ss0 greedy edges nf = Some (kTfLiteOk, ss)"
  shows "\<exists>order. distinct order \<and> set order = {..<num_execution_nodes g} \<and>
    concat (map subset_nodes ss) = map (\<lambda>i. int (node_index g ! i)) order \<and>
    (\<forall>k < length order.
       (\<forall>t \<in> set (node_inputs (nodes g ! (order ! k))). \<forall>j. producer g t j \<longrightarrow> j \<in> set (take k order)) \<and>
       (\<forall>es a. edges = Some es \<and> (a, int (order ! k)) \<in> set es \<longrightarrow> nat a \<in> set (take k order))) \<and>
    (edges = None \<and> (greedy \<or> dependency_ordered g []) \<longrightarrow>
       (\<forall>i j. i < j \<and> j < num_execution_nodes g \<and>
          might_have_side_effect (nodes g ! i) \<and> might_have_side_effect (nodes g ! j) \<longrightarrow> before order i j))"
proof -
  let ?c = "new_Partitioner g ns greedy (edges_of g greedy edges) nf"
  obtain order ep where p: "partitioned ?c order ep ss"
    and o: "edges = None \<Longrightarrow> \<not> greedy \<Longrightarrow> dependency_ordered g [] \<Longrightarrow> order = [0..<num_execution_nodes g]"
    by (rule entry_order [OF assms]) blast
  have ok: "partitioner_ok ?c" using entry_ok [OF assms] by blast
  have "before order i j"
    if "edges = None" "greedy \<or> dependency_ordered g []" "i < j" "j < num_execution_nodes g"
      "might_have_side_effect (nodes g ! i)" "might_have_side_effect (nodes g ! j)" for i j
  proof (cases greedy)
    case True
    then show ?thesis using greedy_side_effects [of g ns nf order ep ss i j] p ok that by simp
  next
    case False
    then show ?thesis using o that before_upt by simp
  qed
  then show ?thesis using p
    by (intro exI [of _ order]) (simp add: partitioned_def ready_def edges_of_def)
qed

theorem Partition_respects_dependencies_witness:
  "(\<exists>order. set order = {..<num_execution_nodes demo_graph} \<and> [0, 1, 4, 2, 3, 5] = map (\<lambda>i. int (node_index demo_graph ! i)) order) \<and>
   (\<exists>order ss. PartitionGraphIntoIndependentNodeSubsets demo_graph [2, 3] [] True None False = Some (kTfLiteOk, ss) \<and>
     concat (map subset_nodes ss) = map (\<lambda>i. int (node_index demo_graph ! i)) order \<and> before order 1 4)"
proof
  have c: "concat (map subset_nodes [demo_subset kTfNonPartition [0, 1, 4] [0] [2, 5],
      demo_subset kTfPartition [2, 3] [2] [4], demo_subset kTfNonPartition [5] [4, 5] [6]]) = [0, 1, 4, 2, 3, 5]"
    by (simp add: demo_subset_def)
  from Partition_respects_dependencies [OF demo_graph_ok demo_partition] obtain order where
    "set order = {..<num_execution_nodes demo_graph}" "[0, 1, 4, 2, 3, 5] = map (\<lambda>i. int (node_index demo_graph ! i)) order"
    unfolding c by (elim exE conjE)
  then show "\<exists>order. set order = {..<num_execution_nodes demo_graph} \<and>
      [0, 1, 4, 2, 3, 5] = map (\<lambda>i. int (node_index demo_graph ! i)) order" by (intro exI [of _ order] conjI)
next
  have e: "edges_of demo_graph True None = [(1, 4)]" by (simp add: edges_of_def demo_graph_def demo_node_def)
  have v: "ValidateNodesToPartition demo_graph [2, 3] = kTfLiteOk" "ValidateControlEdges demo_graph [(1, 4)] = kTfLiteOk"
    by (simp_all add: IsValidIndex_def demo_graph_def)
  have "dependency_ordered demo_graph (control_edges (new_Partitioner demo_graph [2, 3] True [(1, 4)] False))"
    using demo_graph_ordered by (simp add: dependency_ordered_def)
  then obtain ss where r: "PartitionGraphIntoIndependentNodeSubsets demo_graph [2, 3] [] True None False = Some (kTfLiteOk, ss)"
    using Partition_dependency_ordered [OF new_Partitioner_ok(1) [OF demo_graph_ok v]] v by (auto simp: entry_eq e)
  from Partition_respects_dependencies [OF demo_graph_ok r] obtain order where
    "concat (map subset_nodes ss) = map (\<lambda>i. int (node_index demo_graph ! i)) order"
    "\<forall>i j. i < j \<and> j < num_execution_nodes demo_graph \<and> might_have_side_effect (nodes demo_graph ! i) \<and>
       might_have_side_effect (nodes demo_graph ! j) \<longrightarrow> before order i j" by auto
  moreover from this(2) [rule_format, of 1 4] have "before order 1 4" by (simp add: demo_graph_def demo_node_def)
  ultimately show "\<exists>order ss. PartitionGraphIntoIndependentNodeSubsets demo_graph [2, 3] [] True None False = Some (kTfLiteOk, ss) \<and>
     concat (map subset_nodes ss) = map (\<lambda>i. int (node_index demo_graph ! i)) order \<and> before order 1 4" using r by blast
qed

end
