(* ===== verification/ShapeBase.thy ===== *)
theory ShapeBase
  imports Prelude "HOL-Library.Signed_Division" "HOL-Library.Monad_Syntax"
begin

text \<open>
  What the shape inference functions of \<^verbatim>\<open>src/litert/core/model/ops\<close> share: the status
  codes, dimensions as 32-bit integers with their overflow behaviour, the tensors and operations
  they look at, the reading of constant tensors from their bytes, early return from loops, and the
  output size of a convolution window.

  A result of type \<^typ>\<open>'a option\<close> is \<open>None\<close> where the C++ has no defined behaviour to
  continue with: signed overflow, a division by zero, an element read or written out of range, a
  null tensor dereferenced (\<open>std::vector::at\<close>, which aborts in a build without exceptions, is
  counted among them).  The host is little-endian, as the readers of the flatbuffer assume.
\<close>

section \<open>Status codes\<close>

datatype LiteRtStatus =
    kLiteRtStatusOk
  | kLiteRtStatusErrorInvalidArgument
  | kLiteRtStatusErrorMemoryAllocationFailure
  | kLiteRtStatusErrorRuntimeFailure
  | kLiteRtStatusErrorMissingInputTensor
  | kLiteRtStatusErrorUnsupported
  | kLiteRtStatusErrorNotFound
  | kLiteRtStatusErrorTimeoutExpired
  | kLiteRtStatusErrorWrongVersion
  | kLiteRtStatusErrorUnknown
  | kLiteRtStatusErrorAlreadyExists
  | kLiteRtStatusCancelled
  | kLiteRtStatusErrorFileIO
  | kLiteRtStatusErrorInvalidFlatbuffer
  | kLiteRtStatusErrorDynamicLoading
  | kLiteRtStatusErrorSerialization
  | kLiteRtStatusErrorCompilation
  | kLiteRtStatusErrorIndexOOB
  | kLiteRtStatusErrorInvalidIrType
  | kLiteRtStatusErrorInvalidGraphInvariant
  | kLiteRtStatusErrorGraphModification
  | kLiteRtStatusErrorInvalidToolConfig
  | kLiteRtStatusLegalizeNoMatch
  | kLiteRtStatusErrorInvalidLegalization
  | kLiteRtStatusPatternNoMatch
  | kLiteRtStatusInvalidTransformation
  | kLiteRtStatusErrorUnsupportedRuntimeVersion
  | kLiteRtStatusErrorUnsupportedCompilerVersion
  | kLiteRtStatusErrorIncompatibleByteCodeVersion
  | kLiteRtStatusErrorUnsupportedOpShapeInferer
  | kLiteRtStatusErrorShapeInferenceFailed

section \<open>32-bit and 64-bit signed arithmetic\<close>

text \<open>A value that fits \<open>int32_t\<close>, respectively \<open>int64_t\<close>; signed overflow is undefined.\<close>

definition fits32 :: "int \<Rightarrow> bool" where
  "fits32 x \<longleftrightarrow> - 2147483648 \<le> x \<and> x \<le> 2147483647"

definition fits64 :: "int \<Rightarrow> bool" where
  "fits64 x \<longleftrightarrow> - 9223372036854775808 \<le> x \<and> x \<le> 9223372036854775807"

definition i32 :: "int \<Rightarrow> int option" where
  "i32 x = (if fits32 x then Some x else None)"

definition i64 :: "int \<Rightarrow> int option" where
  "i64 x = (if fits64 x then Some x else None)"

text \<open>The conversion to \<open>int32_t\<close> of a wider integer, which wraps.\<close>

definition to_i32 :: "int \<Rightarrow> int" where
  "to_i32 x = (x + 2147483648) mod 4294967296 - 2147483648"

text \<open>\<open>/\<close> and \<open>%\<close> truncate towards zero and are undefined for a zero divisor or an overflow.\<close>

definition div32 :: "int \<Rightarrow> int \<Rightarrow> int option" where
  "div32 a b = (if b = 0 then None else i32 (a sdiv b))"

definition mod32 :: "int \<Rightarrow> int \<Rightarrow> int option" where
  "mod32 a b = (if b = 0 \<or> \<not> fits32 (a sdiv b) then None else Some (a smod b))"

definition div64 :: "int \<Rightarrow> int \<Rightarrow> int option" where
  "div64 a b = (if b = 0 then None else i64 (a sdiv b))"

definition mod64 :: "int \<Rightarrow> int \<Rightarrow> int option" where
  "mod64 a b = (if b = 0 \<or> \<not> fits64 (a sdiv b) then None else Some (a smod b))"

lemma to_i32_fits [simp]: "fits32 x \<Longrightarrow> to_i32 x = x"
  by (simp add: to_i32_def fits32_def)

lemma fits32_to_i32 [simp]: "fits32 (to_i32 x)"
proof -
  have "0 \<le> (x + 2147483648) mod 4294967296" "(x + 2147483648) mod 4294967296 < 4294967296"
    by simp_all
  then show ?thesis by (simp add: to_i32_def fits32_def)
qed

lemma i32_Some_iff: "i32 x = Some y \<longleftrightarrow> fits32 x \<and> y = x"
  by (auto simp: i32_def)

lemma i64_Some_iff: "i64 x = Some y \<longleftrightarrow> fits64 x \<and> y = x"
  by (auto simp: i64_def)

lemma fits32_fits64: "fits32 x \<Longrightarrow> fits64 x"
  by (simp add: fits32_def fits64_def)

text \<open>For non-negative operands the C operators are the mathematical ones.\<close>

lemma sdiv_nonneg: "0 \<le> a \<Longrightarrow> 0 \<le> b \<Longrightarrow> a sdiv b = a div b" for a b :: int
  by (cases "a = 0"; cases "b = 0") (simp_all add: signed_divide_int_def sgn_1_pos)

lemma smod_nonneg: "0 \<le> a \<Longrightarrow> 0 \<le> b \<Longrightarrow> a smod b = a mod b" for a b :: int
  by (cases "a = 0") (simp_all add: signed_modulo_int_def sgn_1_pos)

lemma smod_0_iff: "a smod b = 0 \<longleftrightarrow> b dvd a" for a b :: int
  by (auto simp: signed_modulo_int_def sgn_0_0 dvd_eq_mod_eq_0 [symmetric])

lemma sdiv_dvd: "b dvd a \<Longrightarrow> a sdiv b * b = a" for a b :: int
  using sdiv_mult_smod_eq [of a b] by (simp add: smod_0_iff [THEN iffD2])

lemma abs_sdiv_le: "\<bar>a sdiv b\<bar> \<le> \<bar>a\<bar>" for a b :: int
proof -
  have "\<bar>a\<bar> div \<bar>b\<bar> \<le> \<bar>a\<bar>"
    using zdiv_mono2 [of "\<bar>a\<bar>" 1 "\<bar>b\<bar>"] by (cases "b = 0") simp_all
  then show ?thesis
    by (simp add: signed_divide_int_def abs_mult pos_imp_zdiv_nonneg_iff abs_sgn_eq split: if_splits)
qed

section \<open>Shapes\<close>

text \<open>A vector of dimensions; \<open>-1\<close> is a dynamic dimension.\<close>

type_synonym Dims = "int list"

definition dims_ok :: "Dims \<Rightarrow> bool" where
  "dims_ok = list_all fits32"

text \<open>The outcome of an inferrer: the status and the vector \<open>output_shapes\<close> it leaves.\<close>

type_synonym inferred = "(LiteRtStatus \<times> Dims list) option"

text \<open>\<open>output_shapes[0] = d; return kLiteRtStatusOk;\<close>\<close>

fun store0 :: "Dims \<Rightarrow> Dims list \<Rightarrow> inferred" where
  "store0 d [] = None"
| "store0 d (_ # outs) = Some (kLiteRtStatusOk, d # outs)"

lemma store0_Some_iff:
  "store0 d outs = Some (st, outs') \<longleftrightarrow> outs \<noteq> [] \<and> st = kLiteRtStatusOk \<and> outs' = d # tl outs"
  by (cases outs) auto

text \<open>\<open>v[i]\<close>, \<open>v[i] = x\<close> and \<open>v.back() = x\<close>, undefined outside the vector.\<close>

definition at :: "'a list \<Rightarrow> nat \<Rightarrow> 'a option" where
  "at xs i = (if i < length xs then Some (xs ! i) else None)"

definition put :: "'a list \<Rightarrow> nat \<Rightarrow> 'a \<Rightarrow> 'a list option" where
  "put xs i x = (if i < length xs then Some (xs[i := x]) else None)"

definition put_back :: "'a list \<Rightarrow> 'a \<Rightarrow> 'a list option" where
  "put_back xs x = (if xs = [] then None else Some (butlast xs @ [x]))"

text \<open>A loop whose body may be undefined.\<close>

fun foldM :: "('x \<Rightarrow> 's \<Rightarrow> 's option) \<Rightarrow> 'x list \<Rightarrow> 's \<Rightarrow> 's option" where
  "foldM f [] s = Some s"
| "foldM f (x # xs) s = do { s' \<leftarrow> f x s; foldM f xs s' }"

lemma foldM_append: "foldM f (xs @ ys) s = do { s' \<leftarrow> foldM f xs s; foldM f ys s' }"
  by (induction xs arbitrary: s) (simp_all split: bind_split)

lemma at_Some_iff: "at xs i = Some x \<longleftrightarrow> i < length xs \<and> x = xs ! i"
  by (auto simp: at_def)

lemma put_Some_iff: "put xs i x = Some ys \<longleftrightarrow> i < length xs \<and> ys = xs[i := x]"
  by (auto simp: put_def)

section \<open>Loops with early return\<close>

text \<open>
  One iteration of a loop either goes on with new values of the local variables or returns a status
  from the function.
\<close>

datatype 's flow = Next 's | Return LiteRtStatus

fun loop :: "('x \<Rightarrow> 's \<Rightarrow> 's flow option) \<Rightarrow> 'x list \<Rightarrow> 's \<Rightarrow> 's flow option" where
  "loop f [] s = Some (Next s)"
| "loop f (x # xs) s =
     (case f x s of
        None \<Rightarrow> None
      | Some (Return st) \<Rightarrow> Some (Return st)
      | Some (Next s') \<Rightarrow> loop f xs s')"

text \<open>The code after the loop; an early return leaves \<open>output_shapes\<close> as it is.\<close>

definition after :: "'s flow option \<Rightarrow> Dims list \<Rightarrow> ('s \<Rightarrow> inferred) \<Rightarrow> inferred" where
  "after r outs k = (case r of
      None \<Rightarrow> None
    | Some (Return st) \<Rightarrow> Some (st, outs)
    | Some (Next s) \<Rightarrow> k s)"

lemma after_simps [simp]:
  "after None outs k = None"
  "after (Some (Return st)) outs k = Some (st, outs)"
  "after (Some (Next s)) outs k = k s"
  by (simp_all add: after_def)

lemma loop_append:
  "loop f (xs @ ys) s =
     (case loop f xs s of Some (Next s') \<Rightarrow> loop f ys s' | r \<Rightarrow> r)"
  by (induction xs arbitrary: s) (auto split: option.splits flow.splits)

lemma loop_unchanged: "(\<And>x. x \<in> set xs \<Longrightarrow> f x s = Some (Next s)) \<Longrightarrow> loop f xs s = Some (Next s)"
  by (induction xs) simp_all

lemma loop_Return: "loop f xs s = Some (Return st) \<Longrightarrow> \<exists>x\<in>set xs. \<exists>s. f x s = Some (Return st)"
  by (induction xs arbitrary: s) (auto split: option.splits flow.splits)

text \<open>What holds before a loop and is kept by each iteration holds after it.\<close>

locale flow_loop =
  fixes body :: "'x \<Rightarrow> 's \<Rightarrow> 's flow option"
    and inv :: "'s \<Rightarrow> bool"
    and dom_ok :: "'x \<Rightarrow> bool"
  assumes body_inv: "inv s \<Longrightarrow> dom_ok x \<Longrightarrow> body x s = Some (Next s') \<Longrightarrow> inv s'"
begin

lemma loop_inv: "loop body xs s = Some (Next s') \<Longrightarrow> inv s \<Longrightarrow> list_all dom_ok xs \<Longrightarrow> inv s'"
proof (induction xs arbitrary: s)
  case Nil
  then show ?case by simp
next
  case (Cons x xs)
  then obtain t where "body x s = Some (Next t)" "loop body xs t = Some (Next s')"
    by (auto split: option.splits flow.splits)
  with Cons show ?case using body_inv by auto
qed

end

section \<open>Tensors and operations\<close>

text \<open>\<open>LiteRtElementType\<close> by value; the two codes the inferrers compare with are named.\<close>

type_synonym LiteRtElementType = int

abbreviation kLiteRtElementTypeNone :: LiteRtElementType where
  "kLiteRtElementTypeNone \<equiv> 0"

abbreviation kLiteRtElementTypeInt32 :: LiteRtElementType where
  "kLiteRtElementTypeInt32 \<equiv> 2"

abbreviation kLiteRtElementTypeInt64 :: LiteRtElementType where
  "kLiteRtElementTypeInt64 \<equiv> 4"

abbreviation LITERT_TENSOR_MAX_RANK :: nat where
  "LITERT_TENSOR_MAX_RANK \<equiv> 8"

text \<open>The union \<open>TensorType\<close> with its tag; the dimensions are the first \<open>rank\<close> entries of the layout.\<close>

datatype TensorType =
    RankedTensorType LiteRtElementType Dims
  | UnrankedTensorType LiteRtElementType
  | OtherTensorType

text \<open>
  \<open>MakeRankedTensorType\<close> copies the dimensions into an array of eight. The only check is \<open>ABSL_DCHECK_LE\<close>: a debug build
  stops, and in a release build \<open>std::copy\<close> writes past the array, which has no defined behaviour; \<open>None\<close> stands
  for both, as it does wherever the program's behaviour is undefined. Nothing claims that this case
  does not arise, and it does: \<open>ShapeTypes.InferPack_rank_eight\<close>.
\<close>

definition MakeRankedTensorType :: "LiteRtElementType \<Rightarrow> Dims \<Rightarrow> TensorType option" where
  "MakeRankedTensorType element_type dims =
     (if length dims \<le> LITERT_TENSOR_MAX_RANK then Some (RankedTensorType element_type dims) else None)"

text \<open>The type and the constant bytes of an operation's input, which is all an inferrer reads of it.\<close>

record tensor_view =
  Type :: TensorType
  Buffer :: "byte list"

datatype Padding = Padding_SAME | Padding_VALID | Padding_other

record Conv2DOptions =
  conv_padding :: Padding
  conv_stride_w :: int
  conv_stride_h :: int
  conv_dilation_w_factor :: int
  conv_dilation_h_factor :: int

record DepthwiseConv2DOptions =
  dw_padding :: Padding
  dw_stride_w :: int
  dw_stride_h :: int
  dw_depth_multiplier :: int
  dw_dilation_w_factor :: int
  dw_dilation_h_factor :: int

record Conv3DOptions =
  conv3_padding :: Padding
  conv3_stride_d :: int
  conv3_stride_w :: int
  conv3_stride_h :: int
  conv3_dilation_d_factor :: int
  conv3_dilation_w_factor :: int
  conv3_dilation_h_factor :: int

record Pool2DOptions =
  pool_padding :: Padding
  pool_stride_w :: int
  pool_stride_h :: int
  pool_filter_width :: int
  pool_filter_height :: int

text \<open>The union of the operation options; \<open>As...Options()\<close> is null for any other member.\<close>

datatype TflOptions =
    BatchMatMulOptions bool bool
  | FullyConnectedOptions bool
  | ReshapeOptions "int list"
  | ConcatenationOptions int
  | PackOptions int
  | UnpackOptions int int
  | GatherOptions int
  | StridedSliceOptions int int
  | SplitOptions int
  | ReducerOptions bool
  | Conv2D Conv2DOptions
  | DepthwiseConv2D DepthwiseConv2DOptions
  | Conv3D Conv3DOptions
  | Pool2D Pool2DOptions
  | DepthToSpaceOptions int
  | SpaceToDepthOptions int
  | OtherOptions

text \<open>
  What an inferrer sees of a \<open>LiteRtOpT\<close>: its options, its inputs (\<open>None\<close> is a null pointer) and
  the number of its outputs.
\<close>

record op_view =
  options :: TflOptions
  Inputs :: "tensor_view option list"
  NumOutputs :: nat

text \<open>\<open>op.Input(i)\<close>: \<open>at\<close> rejects an index out of range, and the pointer is dereferenced.\<close>

definition Input :: "op_view \<Rightarrow> nat \<Rightarrow> tensor_view option" where
  "Input op i = do { tensor \<leftarrow> at (Inputs op) i; tensor }"

type_synonym OpShapeInferrer = "op_view \<Rightarrow> Dims list \<Rightarrow> Dims list \<Rightarrow> inferred"

section \<open>Constant data\<close>

text \<open>Little-endian integers in two's complement.\<close>

fun le_nat :: "byte list \<Rightarrow> nat" where
  "le_nat [] = 0"
| "le_nat (b # bs) = unat b + 256 * le_nat bs"

definition read_i32 :: "byte list \<Rightarrow> nat \<Rightarrow> int" where
  "read_i32 bs i = to_i32 (int (le_nat (take 4 (drop (4 * i) bs))))"

definition to_i64 :: "int \<Rightarrow> int" where
  "to_i64 x = (x + 9223372036854775808) mod 18446744073709551616 - 9223372036854775808"

definition read_i64 :: "byte list \<Rightarrow> nat \<Rightarrow> int" where
  "read_i64 bs i = to_i64 (int (le_nat (take 8 (drop (8 * i) bs))))"

text \<open>\<open>for (i = 0; i < size / sizeof(int32_t); ++i) v.push_back(data[i]);\<close> and its 64-bit version.\<close>

definition read_i32s :: "byte list \<Rightarrow> int list" where
  "read_i32s bs = map (read_i32 bs) [0..<length bs div 4]"

definition read_i64s :: "byte list \<Rightarrow> int list" where
  "read_i64s bs = map (read_i64 bs) [0..<length bs div 8]"

section \<open>Output size of a window\<close>

definition ComputeOutputSize :: "Padding \<Rightarrow> int \<Rightarrow> int \<Rightarrow> int \<Rightarrow> int \<Rightarrow> int option" where
  "ComputeOutputSize padding image_size filter_size stride dilation_rate =
     (if image_size = - 1 then Some (- 1)
      else do {
        f1 \<leftarrow> i32 (filter_size - 1);
        fd \<leftarrow> i32 (f1 * dilation_rate);
        effective_filter_size \<leftarrow> i32 (fd + 1);
        (case padding of
           Padding_SAME \<Rightarrow> do {
             a \<leftarrow> i32 (image_size + stride);
             b \<leftarrow> i32 (a - 1);
             div32 b stride }
         | Padding_VALID \<Rightarrow> do {
             a \<leftarrow> i32 (image_size - effective_filter_size);
             b \<leftarrow> i32 (a + stride);
             div32 b stride }
         | Padding_other \<Rightarrow> Some (- 1)) })"

end
