(* ===== verification/ShapeStructural.thy ===== *)
theory ShapeStructural
  imports ShapeBase
begin

text \<open>
  The inferrers that rearrange, join, cut or reduce the dimensions of their inputs:
  \<^verbatim>\<open>reshape.h\<close>, \<^verbatim>\<open>concatenation.h\<close>, \<^verbatim>\<open>pack.h\<close>,
  \<^verbatim>\<open>unpack.h\<close>, \<^verbatim>\<open>transpose.h\<close>, \<^verbatim>\<open>gather.h\<close>,
  \<^verbatim>\<open>slice.h\<close>, \<^verbatim>\<open>split.h\<close>, \<^verbatim>\<open>tile.h\<close>,
  \<^verbatim>\<open>topk.h\<close>, \<^verbatim>\<open>pad.h\<close> and \<^verbatim>\<open>reductions.h\<close> under
  \<^verbatim>\<open>src/litert/core/model/ops\<close>.

  \<open>axis += shape.size()\<close> on an \<open>int32_t\<close> is computed in \<open>size_t\<close> and narrowed, hence
  \<^const>\<open>to_i32\<close>; \<open>axis += rank\<close> with an \<open>int\<close> rank is signed arithmetic, hence
  \<^const>\<open>i32\<close>.
\<close>

section \<open>Reshape\<close>

fun reshape_options :: "TflOptions \<Rightarrow> int list option" where
  "reshape_options (ReshapeOptions new_shape) = Some new_shape"
| "reshape_options _ = None"

text \<open>The requested shape, from the shape tensor or else from the options; a status when there is none.\<close>

definition reshape_target :: "op_view \<Rightarrow> Dims flow option" where
  "reshape_target op =
     (if length (Inputs op) \<ge> 2 then do {
        shape_tensor \<leftarrow> Input op 1;
        Some (if length (Buffer shape_tensor) \<ge> 4 then
                if length (Buffer shape_tensor) mod 4 \<noteq> 0 then Return kLiteRtStatusErrorInvalidArgument
                else Next (read_i32s (Buffer shape_tensor))
              else Return kLiteRtStatusErrorShapeInferenceFailed) }
      else
        case reshape_options (options op) of
          Some new_shape \<Rightarrow>
            Some (if new_shape \<noteq> [] then Next new_shape else Return kLiteRtStatusErrorShapeInferenceFailed)
        | None \<Rightarrow> Some (Return kLiteRtStatusErrorShapeInferenceFailed))"

text \<open>The position of the entry \<open>-1\<close> (itself \<open>-1\<close> without one) and the product of the others.\<close>

definition reshape_scan :: "Dims \<Rightarrow> (int \<times> int) flow option" where
  "reshape_scan new_shape =
     loop (\<lambda>i (minus_one_idx, new_product).
         if new_shape ! i = - 1 then
           if minus_one_idx \<noteq> - 1 then Some (Return kLiteRtStatusErrorShapeInferenceFailed)
           else Some (Next (int i, new_product))
         else do { p \<leftarrow> i64 (new_product * new_shape ! i); Some (Next (minus_one_idx, p)) })
       [0..<length new_shape] (- 1, 1)"

text \<open>The volume of the input, up to the first dynamic dimension, where the loop breaks.\<close>

fun input_volume :: "Dims \<Rightarrow> int \<Rightarrow> (bool \<times> int) option" where
  "input_volume [] p = Some (False, p)"
| "input_volume (d # ds) p =
     (if d = - 1 then Some (True, p) else do { p' \<leftarrow> i64 (p * d); input_volume ds p' })"

definition InferReshape :: OpShapeInferrer where
  "InferReshape op input_shapes output_shapes =
     (if input_shapes = [] then Some (kLiteRtStatusErrorInvalidArgument, output_shapes)
      else
        after (reshape_target op) output_shapes (\<lambda>new_shape.
        after (reshape_scan new_shape) output_shapes (\<lambda>(minus_one_idx, new_product).
          if minus_one_idx \<noteq> - 1 then do {
            (input_dynamic, input_product) \<leftarrow> input_volume (input_shapes ! 0) 1;
            (if input_dynamic then store0 (new_shape[nat minus_one_idx := - 1]) output_shapes
             else do {
               r \<leftarrow> mod64 input_product new_product;
               (if r \<noteq> 0 then Some (kLiteRtStatusErrorShapeInferenceFailed, output_shapes)
                else do {
                  q \<leftarrow> div64 input_product new_product;
                  store0 (new_shape[nat minus_one_idx := to_i32 q]) output_shapes }) }) }
          else store0 new_shape output_shapes)))"

section \<open>Concatenation\<close>

fun concat_options :: "TflOptions \<Rightarrow> int option" where
  "concat_options (ConcatenationOptions axis) = Some axis"
| "concat_options _ = None"

definition concat_dim :: "nat \<Rightarrow> Dims \<Rightarrow> nat \<Rightarrow> Dims \<Rightarrow> Dims flow option" where
  "concat_dim axis shape i out_shape =
     (if i \<noteq> axis then
        if out_shape ! i \<noteq> - 1 \<and> shape ! i \<noteq> - 1 \<and> out_shape ! i \<noteq> shape ! i
        then Some (Return kLiteRtStatusErrorShapeInferenceFailed)
        else if out_shape ! i = - 1 \<and> shape ! i \<noteq> - 1 then Some (Next (out_shape[i := shape ! i]))
        else Some (Next out_shape)
      else
        if shape ! i = - 1 then Some (Next (out_shape[axis := - 1]))
        else if out_shape ! axis \<noteq> - 1 then do {
          d \<leftarrow> i32 (out_shape ! axis + shape ! i);
          Some (Next (out_shape[axis := d])) }
        else Some (Next out_shape))"

definition concat_shape :: "nat \<Rightarrow> nat \<Rightarrow> Dims \<Rightarrow> Dims \<Rightarrow> Dims flow option" where
  "concat_shape rank axis shape out_shape =
     (if length shape \<noteq> rank then Some (Return kLiteRtStatusErrorShapeInferenceFailed)
      else loop (concat_dim axis shape) [0..<rank] out_shape)"

definition InferConcatenation :: OpShapeInferrer where
  "InferConcatenation op input_shapes output_shapes =
     (if input_shapes = [] then Some (kLiteRtStatusErrorShapeInferenceFailed, output_shapes)
      else if length output_shapes \<noteq> 1 then Some (kLiteRtStatusErrorShapeInferenceFailed, output_shapes)
      else
        case concat_options (options op) of
          None \<Rightarrow> Some (kLiteRtStatusErrorShapeInferenceFailed, output_shapes)
        | Some axis0 \<Rightarrow>
            let first_shape = input_shapes ! 0; rank = length first_shape in
            do {
              axis \<leftarrow> (if axis0 < 0 then i32 (axis0 + int rank) else Some axis0);
              (if axis < 0 \<or> axis \<ge> int rank
               then Some (kLiteRtStatusErrorShapeInferenceFailed, output_shapes)
               else
                 after (loop (concat_shape rank (nat axis)) input_shapes (first_shape[nat axis := 0]))
                   output_shapes (\<lambda>out_shape. store0 out_shape output_shapes)) })"

section \<open>Pack and Unpack\<close>

fun pack_axis :: "TflOptions \<Rightarrow> int" where
  "pack_axis (PackOptions axis) = axis"
| "pack_axis _ = 0"

text \<open>\<open>v.insert(v.begin() + axis, x)\<close>\<close>

definition insert_at :: "'a list \<Rightarrow> int \<Rightarrow> 'a \<Rightarrow> 'a list option" where
  "insert_at xs axis x =
     (if 0 \<le> axis \<and> axis \<le> int (length xs) then Some (take (nat axis) xs @ x # drop (nat axis) xs) else None)"

definition InferPack :: OpShapeInferrer where
  "InferPack op input_shapes output_shapes =
     (if input_shapes = [] then Some (kLiteRtStatusErrorInvalidArgument, output_shapes)
      else
        let axis0 = pack_axis (options op); s0 = input_shapes ! 0; rank = length s0 in
        do {
          axis \<leftarrow> (if axis0 < 0 then i32 (axis0 + (int rank + 1)) else Some axis0);
          out_shape \<leftarrow> insert_at s0 axis (to_i32 (int (length input_shapes)));
          (if list_ex (\<lambda>s. length s \<noteq> rank) (tl input_shapes)
           then Some (kLiteRtStatusErrorInvalidArgument, output_shapes)
           else store0 out_shape output_shapes) })"

fun unpack_options :: "TflOptions \<Rightarrow> (int \<times> int) option" where
  "unpack_options (UnpackOptions num axis) = Some (num, axis)"
| "unpack_options _ = None"

definition InferUnpack :: OpShapeInferrer where
  "InferUnpack op input_shapes output_shapes =
     (if input_shapes = [] then Some (kLiteRtStatusErrorShapeInferenceFailed, output_shapes)
      else
        let s0 = input_shapes ! 0;
            axis0 = (case unpack_options (options op) of Some (_, axis) \<Rightarrow> axis | None \<Rightarrow> 0);
            num = (case unpack_options (options op) of Some (num, _) \<Rightarrow> num
                   | None \<Rightarrow> to_i32 (int (NumOutputs op)));
            axis = (if axis0 < 0 then to_i32 (axis0 + int (length s0)) else axis0)
        in if axis < 0 \<or> axis \<ge> int (length s0)
           then Some (kLiteRtStatusErrorShapeInferenceFailed, output_shapes)
           else
             let out_shape = take (nat axis) s0 @ drop (nat axis + 1) s0 in
             if int (length output_shapes) \<noteq> num
             then Some (kLiteRtStatusErrorShapeInferenceFailed, output_shapes)
             else Some (kLiteRtStatusOk, replicate (length output_shapes) out_shape))"

section \<open>Transpose\<close>

definition transpose_step :: "Dims \<Rightarrow> int list \<Rightarrow> nat \<Rightarrow> nat \<Rightarrow> Dims \<Rightarrow> Dims flow option" where
  "transpose_step input_shape perm rank i out_shape =
     (if perm ! i < 0 \<or> perm ! i \<ge> int rank then Some (Return kLiteRtStatusErrorShapeInferenceFailed)
      else Some (Next (out_shape[i := input_shape ! nat (perm ! i)])))"

definition InferTranspose :: OpShapeInferrer where
  "InferTranspose op input_shapes output_shapes =
     (if length input_shapes < 2 then Some (kLiteRtStatusErrorShapeInferenceFailed, output_shapes)
      else do {
        perm_tensor \<leftarrow> Input op 1;
        (let input_shape = input_shapes ! 0;
             outs = (if output_shapes = [] then [[]] else output_shapes)
         in if length (Buffer perm_tensor) > 0 then
              let perm = read_i32s (Buffer perm_tensor); rank = length perm in
              if rank \<noteq> length input_shape then Some (kLiteRtStatusErrorShapeInferenceFailed, outs)
              else after (loop (transpose_step input_shape perm rank) [0..<rank] (replicate rank 0)) outs
                     (\<lambda>out_shape. store0 out_shape outs)
            else store0 (replicate (length input_shape) (- 1)) outs) })"

section \<open>Gather\<close>

fun gather_axis :: "TflOptions \<Rightarrow> int" where
  "gather_axis (GatherOptions axis) = axis"
| "gather_axis _ = 0"

definition InferGather :: OpShapeInferrer where
  "InferGather op input_shapes output_shapes =
     (if length input_shapes < 2 then Some (kLiteRtStatusErrorInvalidArgument, output_shapes)
      else
        let input_shape = input_shapes ! 0; indices_shape = input_shapes ! 1;
            axis0 = gather_axis (options op);
            axis = (if axis0 < 0 then to_i32 (axis0 + int (length input_shape)) else axis0)
        in if axis < 0 \<or> axis \<ge> int (length input_shape)
           then Some (kLiteRtStatusErrorInvalidArgument, output_shapes)
           else store0 (take (nat axis) input_shape @ indices_shape @ drop (nat axis + 1) input_shape)
                  output_shapes)"

definition InferGatherNd :: OpShapeInferrer where
  "InferGatherNd op input_shapes output_shapes =
     (if length input_shapes < 2 then Some (kLiteRtStatusErrorInvalidArgument, output_shapes)
      else
        let input_shape = input_shapes ! 0; indices_shape = input_shapes ! 1 in
        if indices_shape = [] then Some (kLiteRtStatusErrorInvalidArgument, output_shapes)
        else
          let index_rank = last indices_shape in
          if index_rank < 0 then Some (kLiteRtStatusErrorUnsupported, output_shapes)
          else store0 (butlast indices_shape @ drop (nat index_rank) input_shape) output_shapes)"

definition InferEmbeddingLookup :: OpShapeInferrer where
  "InferEmbeddingLookup op input_shapes output_shapes =
     (if length input_shapes < 2 then Some (kLiteRtStatusErrorInvalidArgument, output_shapes)
      else
        let ids_shape = input_shapes ! 0; params_shape = input_shapes ! 1 in
        store0 (ids_shape @ drop 1 params_shape) output_shapes)"

section \<open>Slices\<close>

definition InferSlice :: OpShapeInferrer where
  "InferSlice op input_shapes output_shapes =
     (if length input_shapes < 3 then Some (kLiteRtStatusErrorShapeInferenceFailed, output_shapes)
      else do {
        size_tensor \<leftarrow> Input op 2;
        (if length (Buffer size_tensor) \<ge> 4 then
           if length (Buffer size_tensor) mod 4 = 0 then
             store0 (map (\<lambda>s. if s = - 1 then - 1 else s) (read_i32s (Buffer size_tensor))) output_shapes
           else Some (kLiteRtStatusErrorShapeInferenceFailed, output_shapes)
         else store0 (replicate (length (input_shapes ! 0)) (- 1)) output_shapes) })"

fun strided_slice_options :: "TflOptions \<Rightarrow> (int \<times> int) option" where
  "strided_slice_options (StridedSliceOptions shrink_axis_mask new_axis_mask) =
     Some (shrink_axis_mask, new_axis_mask)"
| "strided_slice_options _ = None"

text \<open>One processed dimension; \<open>1 << i\<close> is undefined from \<open>i = 32\<close> on.\<close>

definition strided_slice_step :: "int \<Rightarrow> int \<Rightarrow> nat \<Rightarrow> Dims \<times> nat \<Rightarrow> (Dims \<times> nat) flow option" where
  "strided_slice_step shrink_axis_mask new_axis_mask i = (\<lambda>(out_shape, i_in).
     if i \<ge> 32 then None
     else if bit new_axis_mask i then Some (Next (out_shape @ [1], i_in))
     else if bit shrink_axis_mask i then Some (Next (out_shape, i_in + 1))
     else Some (Next (out_shape @ [- 1], i_in + 1)))"

definition InferStridedSlice :: OpShapeInferrer where
  "InferStridedSlice op input_shapes output_shapes =
     (if input_shapes = [] then Some (kLiteRtStatusErrorShapeInferenceFailed, output_shapes)
      else
        case strided_slice_options (options op) of
          None \<Rightarrow> Some (kLiteRtStatusErrorShapeInferenceFailed, output_shapes)
        | Some (shrink_axis_mask, new_axis_mask) \<Rightarrow>
            if length input_shapes < 4 then Some (kLiteRtStatusErrorShapeInferenceFailed, output_shapes)
            else do {
              processing_dims \<leftarrow> at (input_shapes ! 1) 0;
              after (loop (strided_slice_step shrink_axis_mask new_axis_mask)
                       [0..<nat processing_dims] ([], 0)) output_shapes
                (\<lambda>(out_shape, i_in). store0 (out_shape @ drop i_in (input_shapes ! 0)) output_shapes) })"

definition InferDynamicUpdateSlice :: OpShapeInferrer where
  "InferDynamicUpdateSlice op input_shapes output_shapes =
     (if length input_shapes \<noteq> 3 then Some (kLiteRtStatusErrorShapeInferenceFailed, output_shapes)
      else
        let operand_shape = input_shapes ! 0; update_shape = input_shapes ! 1;
            start_indices_shape = input_shapes ! 2
        in if length start_indices_shape \<noteq> 1
           then Some (kLiteRtStatusErrorShapeInferenceFailed, output_shapes)
           else if start_indices_shape ! 0 \<noteq> int (length operand_shape)
           then Some (kLiteRtStatusErrorShapeInferenceFailed, output_shapes)
           else if length update_shape \<noteq> length operand_shape
           then Some (kLiteRtStatusErrorShapeInferenceFailed, output_shapes)
           else if list_ex (\<lambda>i. update_shape ! i > operand_shape ! i) [0..<length operand_shape]
           then Some (kLiteRtStatusErrorShapeInferenceFailed, output_shapes)
           else store0 operand_shape output_shapes)"

section \<open>Split, Tile and TopK\<close>

fun split_num :: "TflOptions \<Rightarrow> nat \<Rightarrow> int" where
  "split_num (SplitOptions num_splits) _ = num_splits"
| "split_num _ num_outputs = to_i32 (int num_outputs)"

text \<open>\<open>output_shapes.resize(num_splits)\<close> fails for a negative count, which converts to a huge one.\<close>

definition InferSplit :: OpShapeInferrer where
  "InferSplit op input_shapes output_shapes =
     (if length input_shapes < 2 then Some (kLiteRtStatusErrorInvalidArgument, output_shapes)
      else do {
        axis_tensor \<leftarrow> Input op 0;
        (let input_shape = input_shapes ! 1; num_splits = split_num (options op) (NumOutputs op) in
         if length (Buffer axis_tensor) \<ge> 4 then
           let axis0 = read_i32 (Buffer axis_tensor) 0;
               axis = (if axis0 < 0 then to_i32 (axis0 + int (length input_shape)) else axis0)
           in if axis < 0 then None
              else do {
                d \<leftarrow> at input_shape (nat axis);
                d' \<leftarrow> (if d \<noteq> - 1 then div32 d num_splits else Some d);
                (if num_splits < 0 then None
                 else Some (kLiteRtStatusOk, replicate (nat num_splits) (input_shape[nat axis := d']))) }
         else store0 (replicate (length input_shape) (- 1)) output_shapes) })"

definition tile_step :: "int list \<Rightarrow> nat \<Rightarrow> Dims \<Rightarrow> Dims flow option" where
  "tile_step mults i out_shape =
     (if out_shape ! i \<noteq> - 1
      then do { d \<leftarrow> i32 (out_shape ! i * mults ! i); Some (Next (out_shape[i := d])) }
      else Some (Next out_shape))"

definition InferTile :: OpShapeInferrer where
  "InferTile op input_shapes output_shapes =
     (if length input_shapes < 2 then Some (kLiteRtStatusErrorInvalidArgument, output_shapes)
      else do {
        multiples_tensor \<leftarrow> Input op 1;
        (let input_shape = input_shapes ! 0 in
         if length (Buffer multiples_tensor) > 0 then
           let mults = read_i32s (Buffer multiples_tensor) in
           if length mults \<noteq> length input_shape then Some (kLiteRtStatusErrorInvalidArgument, output_shapes)
           else after (loop (tile_step mults) [0..<length mults] input_shape) output_shapes
                  (\<lambda>out_shape. store0 out_shape output_shapes)
         else store0 (replicate (length input_shape) (- 1)) output_shapes) })"

text \<open>\<open>k\<close> is read whenever the tensor has data, so fewer than four bytes are read past their end.\<close>

definition InferTopKV2 :: OpShapeInferrer where
  "InferTopKV2 op input_shapes output_shapes =
     (if length input_shapes < 2 then Some (kLiteRtStatusErrorShapeInferenceFailed, output_shapes)
      else do {
        k_tensor \<leftarrow> Input op 1;
        (let input_shape = input_shapes ! 0 in
         if input_shape = [] then Some (kLiteRtStatusErrorShapeInferenceFailed, output_shapes)
         else do {
           k \<leftarrow> (if length (Buffer k_tensor) > 0
                then if length (Buffer k_tensor) < 4 then None else Some (read_i32 (Buffer k_tensor) 0)
                else Some (- 1));
           (if length (Buffer k_tensor) > 0 \<and> last input_shape \<noteq> - 1 \<and> k > last input_shape
            then Some (kLiteRtStatusErrorShapeInferenceFailed, output_shapes)
            else
              let out_shape = butlast input_shape @ [k] in
              Some (kLiteRtStatusOk, output_shapes[0 := out_shape, 1 := out_shape])) }) })"

section \<open>Pad\<close>

text \<open>The paddings as 64-bit integers, by the size of the buffer; \<open>None\<close> for any other size.\<close>

definition read_paddings :: "byte list \<Rightarrow> nat \<Rightarrow> int list option" where
  "read_paddings buf num_elements =
     (if length buf = num_elements * 4 then Some (read_i32s buf)
      else if length buf = num_elements * 8 then Some (read_i64s buf)
      else None)"

text \<open>\<open>out_shape[i] += before + after\<close>: the sums in 64 bits, the result narrowed.\<close>

definition pad_step :: "int list \<Rightarrow> nat \<Rightarrow> Dims \<Rightarrow> Dims flow option" where
  "pad_step paddings i out_shape =
     (if out_shape ! i \<noteq> - 1 then do {
        p \<leftarrow> i64 (paddings ! (i * 2) + paddings ! (i * 2 + 1));
        d \<leftarrow> i64 (out_shape ! i + p);
        Some (Next (out_shape[i := to_i32 d])) }
      else Some (Next out_shape))"

definition InferPad :: OpShapeInferrer where
  "InferPad op input_shapes output_shapes =
     (if length input_shapes < 2 then Some (kLiteRtStatusErrorInvalidArgument, output_shapes)
      else do {
        paddings_tensor \<leftarrow> Input op 1;
        (let input_shape = input_shapes ! 0; buf = Buffer paddings_tensor in
         if length buf < 4 then do {
           (_, outs) \<leftarrow> store0 (replicate (length input_shape) (- 1)) output_shapes;
           Some (kLiteRtStatusErrorUnsupported, outs) }
         else
           case read_paddings buf (length input_shape * 2) of
             None \<Rightarrow> Some (kLiteRtStatusErrorInvalidArgument, output_shapes)
           | Some paddings \<Rightarrow>
               after (loop (pad_step paddings) [0..<length input_shape] input_shape) output_shapes
                 (\<lambda>out_shape. store0 out_shape output_shapes)) })"

definition InferPadv2 :: OpShapeInferrer where
  "InferPadv2 op input_shapes output_shapes = InferPad op input_shapes output_shapes"

definition InferMirrorPad :: OpShapeInferrer where
  "InferMirrorPad op input_shapes output_shapes = InferPad op input_shapes output_shapes"

section \<open>Reductions\<close>

text \<open>
  The axes, made non-negative; the width of the elements is guessed from the size of the buffer.
\<close>

definition reduction_axes :: "byte list \<Rightarrow> nat \<Rightarrow> int list option" where
  "reduction_axes axis_buf rank =
     (let wrap = (\<lambda>axis. if axis < 0 then to_i32 (axis + int rank) else axis) in
      if length axis_buf mod 4 = 0 then Some (map wrap (read_i32s axis_buf))
      else if length axis_buf mod 8 = 0 then Some (map (wrap \<circ> to_i32) (read_i64s axis_buf))
      else None)"

definition reduced_shape :: "int list \<Rightarrow> bool \<Rightarrow> Dims \<Rightarrow> Dims" where
  "reduced_shape axes keep_dims input_shape =
     concat (map (\<lambda>i. if int i \<in> set axes then (if keep_dims then [1] else []) else [input_shape ! i])
       [0..<length input_shape])"

definition InferGenericReduction :: "op_view \<Rightarrow> Dims list \<Rightarrow> Dims list \<Rightarrow> bool \<Rightarrow> inferred" where
  "InferGenericReduction op input_shapes output_shapes keep_dims =
     (if length input_shapes < 2 then Some (kLiteRtStatusErrorInvalidArgument, output_shapes)
      else do {
        axis_tensor \<leftarrow> Input op 1;
        (let input_shape = input_shapes ! 0 in
         if length (Buffer axis_tensor) < 4 then Some (kLiteRtStatusErrorUnsupported, output_shapes)
         else
           case reduction_axes (Buffer axis_tensor) (length input_shape) of
             None \<Rightarrow> Some (kLiteRtStatusErrorInvalidArgument, output_shapes)
           | Some axes \<Rightarrow> store0 (reduced_shape axes keep_dims input_shape) output_shapes) })"

fun reducer_keep_dims :: "TflOptions \<Rightarrow> bool" where
  "reducer_keep_dims (ReducerOptions keep_dims) = keep_dims"
| "reducer_keep_dims _ = False"

definition InferReduce :: OpShapeInferrer where
  "InferReduce op input_shapes output_shapes =
     InferGenericReduction op input_shapes output_shapes (reducer_keep_dims (options op))"

definition InferArgMinMax :: OpShapeInferrer where
  "InferArgMinMax op input_shapes output_shapes =
     InferGenericReduction op input_shapes output_shapes False"

end
