(* ===== verification/StructuralCorrect.thy ===== *)
theory StructuralCorrect
  imports ShapeStructural
begin

text \<open>
  What the structural inferrers preserve: volumes under reshaping, extents under concatenation,
  the dimensions under transposition and under packing followed by unpacking, and the axes a
  reduction keeps.
\<close>

section \<open>Reshape\<close>

lemma prod_list_update:
  fixes xs :: "int list"
  assumes "i < length xs"
  shows "prod_list (xs[i := v]) = v * prod_list (take i xs @ drop (Suc i) xs)"
  using assms by (simp add: upd_conv_take_nth_drop)

text \<open>
  The scan finds the only \<open>-1\<close> and the product of the other entries.
\<close>

lemma reshape_scan_prefix:
  assumes "loop (\<lambda>i (minus_one_idx, new_product).
         if t ! i = - 1 then
           if minus_one_idx \<noteq> - 1 then Some (Return kLiteRtStatusErrorShapeInferenceFailed)
           else Some (Next (int i, new_product))
         else do { p \<leftarrow> i64 (new_product * t ! i); Some (Next (minus_one_idx, p)) })
       [0..<n] (- 1, 1) = Some (Next (m, p))" and "n \<le> length t"
  shows "m = - 1 \<and> - 1 \<notin> set (take n t) \<and> p = prod_list (take n t) \<or>
     (\<exists>i<n. m = int i \<and> t ! i = - 1 \<and> - 1 \<notin> set (take i t @ drop (Suc i) (take n t)) \<and>
        p = prod_list (take i t @ drop (Suc i) (take n t)))"
  using assms
proof (induction n arbitrary: m p)
  case 0
  then show ?case by simp
next
  case (Suc n)
  let ?f = "\<lambda>i (minus_one_idx, new_product).
         if t ! i = - 1 then
           if minus_one_idx \<noteq> - 1 then Some (Return kLiteRtStatusErrorShapeInferenceFailed)
           else Some (Next (int i, new_product))
         else do { p \<leftarrow> i64 (new_product * t ! i); Some (Next (minus_one_idx, p)) }"
  from Suc.prems(1) obtain m' p' where l: "loop ?f [0..<n] (- 1, 1) = Some (Next (m', p'))"
    and s: "?f n (m', p') = Some (Next (m, p))"
    by (auto simp: loop_append split: option.splits flow.splits)
  have n: "n < length t" "take (Suc n) t = take n t @ [t ! n]"
    using Suc.prems(2) by (simp_all add: take_Suc_conv_app_nth)
  from Suc.IH [OF l] Suc.prems(2)
  consider "m' = - 1" "- 1 \<notin> set (take n t)" "p' = prod_list (take n t)"
    | i where "i < n" "m' = int i" "t ! i = - 1" "- 1 \<notin> set (take i t @ drop (Suc i) (take n t))"
        "p' = prod_list (take i t @ drop (Suc i) (take n t))"
    by auto
  then show ?case
  proof cases
    case 1
    show ?thesis
    proof (cases "t ! n = - 1")
      case True
      then show ?thesis using s 1 n by (auto intro!: exI [of _ n])
    next
      case False
      then show ?thesis using s 1 n by (auto simp: bind_eq_Some_conv i64_Some_iff)
    qed
  next
    case 2
    then have "t ! n \<noteq> - 1" "p = p' * t ! n" "m = m'"
      using s by (auto simp: bind_eq_Some_conv i64_Some_iff split: if_splits)
    then show ?thesis
      using 2 n by (auto intro!: exI [of _ i])
  qed
qed

lemma reshape_scan_index:
  assumes "reshape_scan t = Some (Next (m, p))"
  shows "m = - 1 \<and> - 1 \<notin> set t \<or>
     (\<exists>i<length t. m = int i \<and> t ! i = - 1 \<and> - 1 \<notin> set (take i t @ drop (Suc i) t) \<and>
        p = prod_list (take i t @ drop (Suc i) t))"
  using reshape_scan_prefix [of t "length t" m p] assms by (auto simp: reshape_scan_def)

lemma input_volume_static:
  "- 1 \<notin> set s \<Longrightarrow> input_volume s p = Some (dyn, q) \<Longrightarrow> \<not> dyn \<and> q = p * prod_list s"
proof (induction s arbitrary: p)
  case Nil
  then show ?case by simp
next
  case (Cons d s)
  then have "- 1 \<notin> set s" "input_volume s (p * d) = Some (dyn, q)" by (auto simp: bind_eq_Some_conv i64_Some_iff)
  from Cons.IH [OF this] show ?case by (simp add: mult.assoc)
qed

lemma reshape_scan_status: "reshape_scan t = Some (Return st) \<Longrightarrow> st = kLiteRtStatusErrorShapeInferenceFailed"
  unfolding reshape_scan_def by (drule loop_Return) (auto split: if_splits simp: bind_eq_Some_conv)

text \<open>Reshaping a static input to a shape with one dimension left open keeps the volume: the
  requested dimensions are kept, the open one is filled in, and the product of the result is that
  of the input.
\<close>

theorem InferReshape_keeps_volume:
  assumes "InferReshape op (s # rest) (out # outs) = Some (kLiteRtStatusOk, t' # outs)"
    and t: "reshape_target op = Some (Next t)" and "- 1 \<in> set t" and static: "\<forall>d\<in>set s. 0 \<le> d"
    and "fits32 (prod_list s)"
  shows "prod_list t' = prod_list s \<and> list_all2 (\<lambda>d d'. d = - 1 \<or> d = d') t t'"
proof -
  obtain m p where scan: "reshape_scan t = Some (Next (m, p))"
  proof (cases "reshape_scan t")
    case None
    then show ?thesis using assms(1) by (simp add: InferReshape_def t)
  next
    case (Some r)
    then show ?thesis
      using that assms(1) reshape_scan_status [of t]
      by (cases r) (auto simp: InferReshape_def t)
  qed
  with reshape_scan_index [OF this] assms(3) obtain i where i: "i < length t" "m = int i" "t ! i = - 1"
    "- 1 \<notin> set (take i t @ drop (Suc i) t)" "p = prod_list (take i t @ drop (Suc i) t)"
    by auto
  have "- 1 \<notin> set s" using static by force
  moreover obtain dyn q where v: "input_volume s 1 = Some (dyn, q)"
    using assms(1) scan i by (cases "input_volume s 1") (auto simp: InferReshape_def t)
  ultimately have vol: "input_volume s 1 = Some (False, prod_list s)"
    using input_volume_static [of s 1 dyn q] by simp
  have dvd: "p dvd prod_list s" and t': "t' = t[i := to_i32 (prod_list s sdiv p)]"
    using assms(1) scan i(2) unfolding i(5) [symmetric]
    by (simp_all add: InferReshape_def t vol mod64_def div64_def i64_def smod_0_iff split: if_splits)
  have "fits32 (prod_list s sdiv p)"
    using assms(5) abs_sdiv_le [of "prod_list s" p] prod_list_nonneg [of s] static by (auto simp: fits32_def)
  then have t': "t' = t[i := prod_list s sdiv p]" by (simp add: t')
  then have "prod_list t' = prod_list s sdiv p * p" using i(1) by (simp only: prod_list_update i(5))
  then have "prod_list t' = prod_list s" by (simp only: sdiv_dvd [OF dvd])
  moreover have "list_all2 (\<lambda>d d'. d = - 1 \<or> d = d') t t'"
    using i(1,3) by (auto simp: t' list_all2_conv_all_nth nth_list_update split: if_splits)
  ultimately show ?thesis by blast
qed

theorem InferReshape_keeps_volume_witness:
  "prod_list [2, 6::int] = prod_list [3, 4] \<and> list_all2 (\<lambda>d d'. d = - 1 \<or> d = d') [2, - 1] [2, 6::int]"
  by (rule InferReshape_keeps_volume
      [of "\<lparr>options = ReshapeOptions [2, - 1], Inputs = [None], NumOutputs = 1\<rparr>" _ "[]" "[]" "[]"])
    (simp_all add: InferReshape_def reshape_target_def reshape_scan_def upt_rec i64_def fits64_def fits32_def
      mod64_def div64_def sdiv_nonneg smod_nonneg to_i32_def)

text \<open>
  A zero beside the open dimension makes the code divide by a zero product: a request \<open>[0, -1]\<close> has
  no defined result for any static input.
\<close>

theorem InferReshape_zero_divides:
  assumes "- 1 \<notin> set s"
  shows "InferReshape \<lparr>options = ReshapeOptions [0, - 1], Inputs = [None], NumOutputs = 1\<rparr> (s # rest) outs = None"
  using input_volume_static [OF assms, of 1]
  by (auto simp: InferReshape_def reshape_target_def reshape_scan_def upt_rec i64_def fits64_def mod64_def
      split: option.splits bind_splits)


section \<open>Concatenation\<close>

text \<open>One more static input that agrees with the accumulated shape off the axis adds its extent.\<close>

lemma concat_shape_static:
  assumes "- 1 \<notin> set pre" and "- 1 \<notin> set post" and "k \<noteq> - 1" and "x \<noteq> - 1" and "fits32 (x + k)"
  shows "concat_shape (length pre + 1 + length post) (length pre) (pre @ k # post) (pre @ x # post) =
    Some (Next (pre @ (x + k) # post))"
proof -
  let ?f = "concat_dim (length pre) (pre @ k # post)"
  define n where "n = length pre + 1 + length post"
  have same: "?f i (pre @ y # post) = Some (Next (pre @ y # post))" if "i < n" "i \<noteq> length pre" for i y
    using that assms(1,2) by (auto simp: n_def concat_dim_def nth_append nth_Cons' in_set_conv_nth)
  have l1: "loop ?f [0..<length pre] (pre @ x # post) = Some (Next (pre @ x # post))"
    by (rule loop_unchanged, rule same) (auto simp: n_def)
  have l2: "?f (length pre) (pre @ x # post) = Some (Next (pre @ (x + k) # post))"
    using assms(3-5) by (simp add: concat_dim_def i32_def list_update_append)
  have l3: "loop ?f [Suc (length pre)..<n] (pre @ (x + k) # post) = Some (Next (pre @ (x + k) # post))"
    by (rule loop_unchanged, rule same) auto
  have "length pre < n" by (simp add: n_def)
  then have "[0..<n] = [0..<length pre] @ length pre # [Suc (length pre)..<n]"
    by (metis less_imp_add_positive less_imp_le_nat upt_add_eq_append upt_conv_Cons zero_le)
  moreover have "length (pre @ k # post) = n" by (simp add: n_def)
  ultimately show ?thesis
    unfolding n_def [symmetric] by (simp add: concat_shape_def loop_append l1 l2 l3 del: upt_Suc)
qed

lemma concat_loop_static:
  assumes "- 1 \<notin> set pre" and "- 1 \<notin> set post" and "\<forall>k\<in>set ks. 0 \<le> k" and "0 \<le> x" and "fits32 (x + sum_list ks)"
  shows "loop (concat_shape (length pre + 1 + length post) (length pre)) (map (\<lambda>k. pre @ k # post) ks) (pre @ x # post) =
    Some (Next (pre @ (x + sum_list ks) # post))"
  using assms(3-5)
proof (induction ks arbitrary: x)
  case Nil
  then show ?case by simp
next
  case (Cons k ks)
  have "0 \<le> sum_list ks" using Cons.prems(1) by (intro sum_list_nonneg) simp
  then have "fits32 (x + k)" using Cons.prems by (simp add: fits32_def)
  then have "concat_shape (length pre + 1 + length post) (length pre) (pre @ k # post) (pre @ x # post) =
      Some (Next (pre @ (x + k) # post))"
    using Cons.prems assms(1,2) by (intro concat_shape_static) auto
  with Cons show ?case by (simp add: add.assoc)
qed

text \<open>
  Concatenating static inputs that differ only along the axis, given from the front or from the
  back, yields their common dimensions and the sum of their extents along the axis.
\<close>

theorem InferConcatenation_sums_axis:
  assumes "ks \<noteq> []" and "\<forall>k\<in>set ks. 0 \<le> k" and "fits32 (sum_list ks)"
    and "- 1 \<notin> set pre" and "- 1 \<notin> set post" and "length pre + length post < 100"
    and "axis = int (length pre) \<or> axis = - int (length post) - 1"
    and "options op = ConcatenationOptions axis"
  shows "InferConcatenation op (map (\<lambda>k. pre @ k # post) ks) [out] =
    Some (kLiteRtStatusOk, [pre @ sum_list ks # post])"
proof -
  obtain k ks' where ks: "ks = k # ks'" using assms(1) by (cases ks) auto
  have l: "loop (concat_shape (length pre + 1 + length post) (length pre)) (map (\<lambda>k. pre @ k # post) ks)
      (pre @ 0 # post) = Some (Next (pre @ (0 + sum_list ks) # post))"
    using assms by (intro concat_loop_static) auto
  have "(if axis < 0 then i32 (axis + int (length (pre @ k # post))) else Some axis) = Some (int (length pre))"
    using assms(6,7) by (auto simp: i32_def fits32_def)
  then show ?thesis
    using l assms(8) by (simp add: InferConcatenation_def Let_def ks list_update_append)
qed

theorem InferConcatenation_sums_axis_witness:
  "InferConcatenation \<lparr>options = ConcatenationOptions (- 1), Inputs = [], NumOutputs = 1\<rparr>
     (map (\<lambda>k. [2, 3] @ k # []) [4, 1, 5]) [[]] = Some (kLiteRtStatusOk, [[2, 3] @ sum_list [4, 1, 5] # []])"
  by (rule InferConcatenation_sums_axis [where axis = "- 1"]) (simp_all add: fits32_def)

section \<open>Pack and Unpack\<close>

lemma take_drop_insert:
  assumes "k \<le> length s"
  shows "take k (take k s @ x # drop k s) @ drop (Suc k) (take k s @ x # drop k s) = s"
  using assms by simp

text \<open>C28: Shape inference of \<open>Unpack\<close> undoes that of \<open>Pack\<close>: for \<open>n\<close> inputs of one shape, packed along an axis in range (a
  negative one counts from the end), \<open>Pack\<close> yields a shape for which \<open>Unpack\<close> into \<open>n\<close> along the same axis yields
  the shape of the inputs for each of its \<open>n\<close> outputs. There is some input, \<open>n\<close> fits an \<open>int32_t\<close>, and the shape has
  fewer than a hundred dimensions, more than the eight that a tensor can have.
\<close>

theorem Unpack_Pack:
  assumes "0 < n" and "int n \<le> 2147483647" and "length s < 100"
    and "- int (length s) - 1 \<le> axis" and "axis \<le> int (length s)"
    and "options op1 = PackOptions axis" and "options op2 = UnpackOptions (int n) axis"
  shows "\<exists>packed. InferPack op1 (replicate n s) [out] = Some (kLiteRtStatusOk, [packed]) \<and>
    InferUnpack op2 [packed] (replicate n out') = Some (kLiteRtStatusOk, replicate n s)"
proof -
  define a where "a = (if axis < 0 then axis + (int (length s) + 1) else axis)"
  have a: "0 \<le> a" "a \<le> int (length s)" "nat a \<le> length s" using assms(4,5) by (auto simp: a_def)
  define packed where "packed = take (nat a) s @ int n # drop (nat a) s"
  have lp: "length packed = Suc (length s)" using a by (simp add: packed_def)
  have ax: "(if axis < 0 then i32 (axis + (int (length s) + 1)) else Some axis) = Some a"
    using assms(3-5) by (auto simp: a_def i32_def fits32_def)
  have n: "fits32 (int n)" using assms(2) by (simp add: fits32_def)
  have "InferPack op1 (replicate n s) [out] = Some (kLiteRtStatusOk, [packed])"
    using assms(1,6) a n
    by (cases n) (auto simp: InferPack_def Let_def ax insert_at_def packed_def list_ex_iff)
  moreover have "(if axis < 0 then to_i32 (axis + int (length packed)) else axis) = a"
    using assms(3-5) by (auto simp: a_def lp fits32_def)
  then have "InferUnpack op2 [packed] (replicate n out') = Some (kLiteRtStatusOk, replicate n s)"
    using assms(1,7) a lp take_drop_insert [of "nat a" s "int n"]
    by (simp add: InferUnpack_def Let_def packed_def [symmetric])
  ultimately show ?thesis by blast
qed

theorem Unpack_Pack_witness:
  "\<exists>packed. InferPack \<lparr>options = PackOptions (- 1), Inputs = [], NumOutputs = 1\<rparr> (replicate 2 [3, 4]) [[]] =
      Some (kLiteRtStatusOk, [packed]) \<and>
    InferUnpack \<lparr>options = UnpackOptions (int 2) (- 1), Inputs = [], NumOutputs = 2\<rparr> [packed] (replicate 2 []) =
      Some (kLiteRtStatusOk, replicate 2 [3, 4])"
  by (rule Unpack_Pack [where axis = "- 1"]) simp_all


text \<open>Only the ranks of the packed inputs are compared, not their dimensions.\<close>

theorem InferPack_ignores_dims:
  "InferPack \<lparr>options = PackOptions 0, Inputs = [], NumOutputs = 1\<rparr> [[2], [3]] [[]] = Some (kLiteRtStatusOk, [[2, 2]])"
  by (simp add: InferPack_def Let_def insert_at_def to_i32_def)

section \<open>Transpose\<close>

lemma loop_fill_front:
  assumes "\<And>i out. i \<in> set is \<Longrightarrow> body i out = Some (Next (out[i := v i]))"
  shows "loop body is out = Some (Next (fold (\<lambda>i out. out[i := v i]) is out))"
  using assms by (induction "is" arbitrary: out) simp_all

lemma fold_fill_all:
  "length out = n \<Longrightarrow> fold (\<lambda>i out. out[i := v i]) [0..<n] out = map v [0..<n]"
proof -
  have "fold (\<lambda>i out. out[i := v i]) [0..<m] out = map v [0..<m] @ drop m out"
    if "m \<le> length out" for m
    using that
  proof (induction m)
    case (Suc m)
    then have "drop m out = out ! m # drop (Suc m) out" by (simp add: Cons_nth_drop_Suc)
    with Suc show ?case by (simp add: list_update_append)
  qed simp
  then show "length out = n \<Longrightarrow> ?thesis" by simp
qed

text \<open>A constant permutation tensor with entries in range gathers the dimensions it names.\<close>

lemma InferTranspose_gathers:
  assumes "Input op 1 = Some perm_tensor" and "read_i32s (Buffer perm_tensor) = map int p"
    and "Buffer perm_tensor \<noteq> []" and "length p = length s" and "\<forall>i\<in>set p. i < length s"
  shows "InferTranspose op (s # ps # rest) (out # outs) = Some (kLiteRtStatusOk, map (\<lambda>i. s ! i) p # outs)"
proof -
  have p: "\<not> length s \<le> p ! i" if "i < length s" for i
    using assms(4,5) that by (metis nth_mem not_le)
  have "loop (transpose_step s (map int p) (length s)) [0..<length s] (replicate (length s) 0) =
      Some (Next (fold (\<lambda>i out. out[i := s ! (p ! i)]) [0..<length s] (replicate (length s) 0)))"
    by (rule loop_fill_front) (use p assms(4) in \<open>simp add: transpose_step_def\<close>)
  also have "fold (\<lambda>i out. out[i := s ! (p ! i)]) [0..<length s] (replicate (length s) 0) =
      map (\<lambda>i. s ! (p ! i)) [0..<length s]"
    by (simp add: fold_fill_all)
  also have "\<dots> = map (\<lambda>i. s ! i) p"
    using assms(4) by (intro nth_equalityI) simp_all
  finally show ?thesis using assms(1-4) by (simp add: InferTranspose_def Let_def)
qed

text \<open>Transposing by a constant permutation and then by its inverse infers the original shape, and the
  shape between them has the same dimensions in another order.
\<close>

theorem Transpose_inverse:
  assumes "Input op1 1 = Some perm1" and "read_i32s (Buffer perm1) = map int p" and "Buffer perm1 \<noteq> []"
    and "Input op2 1 = Some perm2" and "read_i32s (Buffer perm2) = map int q" and "Buffer perm2 \<noteq> []"
    and "length p = length s" and "length q = length s"
    and "distinct p" and "set p = {..<length s}" and "\<forall>i<length s. q ! i < length s \<and> p ! (q ! i) = i"
  shows "\<exists>t. InferTranspose op1 [s, ps] [out] = Some (kLiteRtStatusOk, [t]) \<and> mset t = mset s \<and>
    InferTranspose op2 [t, qs] [out'] = Some (kLiteRtStatusOk, [s])"
proof -
  define t where "t = map (\<lambda>i. s ! i) p"
  have "InferTranspose op1 [s, ps] [out] = Some (kLiteRtStatusOk, [t])"
    using assms unfolding t_def by (intro InferTranspose_gathers) auto
  moreover have "mset t = mset s"
  proof -
    have "mset p = mset [0..<length s]"
      using mset_set_set [OF assms(9)] mset_set_set [of "[0..<length s]"] assms(10)
      by (simp add: atLeast0LessThan)
    then have "mset t = image_mset (\<lambda>i. s ! i) (mset [0..<length s])" by (simp add: t_def)
    also have "\<dots> = mset (map (\<lambda>i. s ! i) [0..<length s])" by simp
    finally show ?thesis by (simp add: map_nth)
  qed
  moreover have "InferTranspose op2 [t, qs] [out'] = Some (kLiteRtStatusOk, [map (\<lambda>i. t ! i) q])"
    by (rule InferTranspose_gathers [OF assms(4)])
      (use assms(5-11) in \<open>auto simp: t_def in_set_conv_nth\<close>)
  moreover have "map (\<lambda>i. t ! i) q = s"
  proof (rule nth_equalityI)
    show "length (map (\<lambda>i. t ! i) q) = length s" using assms(8) by simp
  next
    fix i
    assume "i < length (map (\<lambda>i. t ! i) q)"
    then have "i < length s" using assms(8) by simp
    moreover from this assms(11) have "q ! i < length s" "p ! (q ! i) = i" by blast+
    ultimately show "map (\<lambda>i. t ! i) q ! i = s ! i" using assms(7,8) by (simp add: t_def)
  qed
  ultimately show ?thesis by auto
qed

theorem Transpose_inverse_witness:
  "\<exists>t. InferTranspose \<lparr>options = OtherOptions, Inputs = [None, Some \<lparr>Type = OtherTensorType,
        Buffer = [1, 0, 0, 0, 2, 0, 0, 0, 0, 0, 0, 0]\<rparr>], NumOutputs = 1\<rparr> [[5, 6, 7], [3]] [[]] =
      Some (kLiteRtStatusOk, [t]) \<and> mset t = mset [5, 6, 7] \<and>
    InferTranspose \<lparr>options = OtherOptions, Inputs = [None, Some \<lparr>Type = OtherTensorType,
        Buffer = [2, 0, 0, 0, 0, 0, 0, 0, 1, 0, 0, 0]\<rparr>], NumOutputs = 1\<rparr> [t, [3]] [[]] =
      Some (kLiteRtStatusOk, [[5, 6, 7]])"
  by (rule Transpose_inverse [where p = "[1, 2, 0]" and q = "[2, 0, 1]" and
        ?perm1.0 = "\<lparr>Type = OtherTensorType, Buffer = [1, 0, 0, 0, 2, 0, 0, 0, 0, 0, 0, 0]\<rparr>" and
        ?perm2.0 = "\<lparr>Type = OtherTensorType, Buffer = [2, 0, 0, 0, 0, 0, 0, 0, 1, 0, 0, 0]\<rparr>"])
    (auto simp: Input_def at_def read_i32s_def read_i32_def to_i32_def upt_rec less_Suc_eq)

section \<open>Reductions\<close>

lemma read_i32s_fits: "a \<in> set (read_i32s bs) \<Longrightarrow> fits32 a"
  by (auto simp: read_i32s_def read_i32_def)

lemma concat_dropped: "concat (map (\<lambda>i. if i \<in> A then [] else [s ! i]) [0..<length s]) = nths s (- A)"
proof (induction s rule: rev_induct)
  case Nil
  then show ?case by simp
next
  case (snoc x s)
  have "concat (map (\<lambda>i. if i \<in> A then [] else [(s @ [x]) ! i]) [0..<length s]) =
      concat (map (\<lambda>i. if i \<in> A then [] else [s ! i]) [0..<length s])"
    by (intro arg_cong [of _ _ concat] map_cong) (auto simp: nth_append)
  with snoc show ?case by (simp add: nths_append)
qed

lemma concat_kept: "concat (map (\<lambda>i. if i \<in> A then [1] else [s ! i]) xs) = map (\<lambda>i. if i \<in> A then 1 else s ! i) xs"
  by (induction xs) simp_all

text \<open>
  A reduction with constant axes keeps the rank and sets the reduced dimensions to 1 when it
  keeps the dimensions, and otherwise drops exactly the reduced ones; axes counted from the back name
  the same dimensions as axes counted from the front.
\<close>

theorem InferReduce_axes:
  assumes "Input op 1 = Some axis_tensor" and "Buffer axis_tensor \<noteq> []"
    and "length (Buffer axis_tensor) mod 4 = 0" and "length s < 100"
  defines "reduced \<equiv> {i. i < length s \<and>
      (int i \<in> set (read_i32s (Buffer axis_tensor)) \<or> int i - int (length s) \<in> set (read_i32s (Buffer axis_tensor)))}"
  shows "InferReduce op (s # axes # rest) (out # outs) = Some (kLiteRtStatusOk,
    (if reducer_keep_dims (options op) then map (\<lambda>i. if i \<in> reduced then 1 else s ! i) [0..<length s]
     else nths s (- reduced)) # outs)"
proof -
  define buf where "buf = Buffer axis_tensor"
  define wrap where "wrap axis = (if axis < 0 then to_i32 (axis + int (length s)) else axis)" for axis
  have buf: "4 \<le> length buf" "length buf mod 4 = 0"
    using assms(2,3) unfolding buf_def by (cases "length (Buffer axis_tensor) < 4"; simp)+
  have wrap: "int i = wrap a \<longleftrightarrow> a = int i \<or> a = int i - int (length s)"
    if "a \<in> set (read_i32s buf)" "i < length s" for a i
    using read_i32s_fits [OF that(1)] that(2) assms(4) by (auto simp: wrap_def fits32_def)
  have "int i \<in> set (map wrap (read_i32s buf)) \<longleftrightarrow> i \<in> reduced" if "i < length s" for i
    using wrap [OF _ that] that by (auto simp: reduced_def buf_def)
  then have shape: "reduced_shape (map wrap (read_i32s buf)) keep s =
      concat (map (\<lambda>i. if i \<in> reduced then (if keep then [1] else []) else [s ! i]) [0..<length s])" for keep
    unfolding reduced_shape_def by (intro arg_cong [of _ _ concat] map_cong) simp_all
  have "reduction_axes buf (length s) = Some (map wrap (read_i32s buf))"
    using buf by (simp add: reduction_axes_def Let_def wrap_def [abs_def])
  then show ?thesis
    using buf assms(1)
    by (simp add: InferReduce_def InferGenericReduction_def Let_def buf_def [symmetric] shape concat_dropped concat_kept)
qed

theorem InferReduce_axes_witness:
  "InferReduce \<lparr>options = ReducerOptions False, Inputs = [None, Some \<lparr>Type = OtherTensorType,
       Buffer = [255, 255, 255, 255]\<rparr>], NumOutputs = 1\<rparr> ([5, 6, 7] # [1] # []) ([] # []) =
     Some (kLiteRtStatusOk, [5, 6] # [])"
proof -
  have r: "read_i32s [255, 255, 255, 255] = [- 1]"
    by (simp add: read_i32s_def read_i32_def to_i32_def)
  have n: "nths [5, 6, 7 :: int] (- {i. i = 2 \<and> i < Suc (Suc (Suc 0))}) = [5, 6]"
    by (simp add: nths_Cons)
  show ?thesis
    by (subst InferReduce_axes
        [where axis_tensor = "\<lparr>Type = OtherTensorType, Buffer = [255, 255, 255, 255]\<rparr>"])
      (simp_all add: Input_def at_def r n)
qed

end
