(* ===== verification/ShapeConv.thy ===== *)
theory ShapeConv
  imports ShapeBase
begin

text \<open>
  The inferrers of operations on images and volumes: \<^verbatim>\<open>convolution.h\<close>,
  \<^verbatim>\<open>pooling.h\<close> and \<^verbatim>\<open>spatial.h\<close> under
  \<^verbatim>\<open>src/litert/core/model/ops\<close>.
\<close>

section \<open>Convolutions\<close>

fun conv2d_options :: "TflOptions \<Rightarrow> Conv2DOptions option" where
  "conv2d_options (Conv2D o') = Some o'"
| "conv2d_options _ = None"

fun dw_options :: "TflOptions \<Rightarrow> DepthwiseConv2DOptions option" where
  "dw_options (DepthwiseConv2D o') = Some o'"
| "dw_options _ = None"

fun conv3d_options :: "TflOptions \<Rightarrow> Conv3DOptions option" where
  "conv3d_options (Conv3D o') = Some o'"
| "conv3d_options _ = None"

text \<open>\<open>(filter - 1) * dilation + 1\<close>\<close>

definition effective_filter :: "int \<Rightarrow> int \<Rightarrow> int option" where
  "effective_filter filter_size dilation =
     do { a \<leftarrow> i32 (filter_size - 1); b \<leftarrow> i32 (a * dilation); i32 (b + 1) }"

text \<open>A bias, when there is one, is a vector of \<open>out_channels\<close> entries.\<close>

definition bias_mismatch :: "Dims list \<Rightarrow> int \<Rightarrow> bool" where
  "bias_mismatch input_shapes out_channels \<longleftrightarrow>
     length input_shapes \<ge> 3 \<and>
     (length (input_shapes ! 2) \<noteq> 1 \<or> input_shapes ! 2 ! 0 \<noteq> out_channels)"

definition InferConv2D :: OpShapeInferrer where
  "InferConv2D op input_shapes output_shapes =
     (let failed = Some (kLiteRtStatusErrorShapeInferenceFailed, output_shapes);
          invalid = Some (kLiteRtStatusErrorInvalidArgument, output_shapes) in
      if length input_shapes < 2 then invalid
      else
        let input_shape = input_shapes ! 0; filter_shape = input_shapes ! 1 in
        if length input_shape \<noteq> 4 \<or> length filter_shape \<noteq> 4 then invalid
        else
          case conv2d_options (options op) of
            None \<Rightarrow> invalid
          | Some conv_opts \<Rightarrow>
              let stride_h = conv_stride_h conv_opts; stride_w = conv_stride_w conv_opts;
                  dilation_h = conv_dilation_h_factor conv_opts;
                  dilation_w = conv_dilation_w_factor conv_opts;
                  padding = conv_padding conv_opts;
                  filter_h = filter_shape ! 1; filter_w = filter_shape ! 2;
                  out_channels = filter_shape ! 0
              in do {
                r \<leftarrow> mod32 (input_shape ! 3) (filter_shape ! 3);
                (if r \<noteq> 0 then failed
                 else if stride_h \<le> 0 \<or> stride_w \<le> 0 then failed
                 else if stride_h > input_shape ! 1 \<or> stride_w > input_shape ! 2 then failed
                 else if dilation_h \<le> 0 \<or> dilation_w \<le> 0 then failed
                 else if bias_mismatch input_shapes out_channels then failed
                 else do {
                   effective_filter_h \<leftarrow> effective_filter filter_h dilation_h;
                   effective_filter_w \<leftarrow> effective_filter filter_w dilation_w;
                   out_h \<leftarrow> ComputeOutputSize padding (input_shape ! 1) filter_h stride_h dilation_h;
                   out_w \<leftarrow> ComputeOutputSize padding (input_shape ! 2) filter_w stride_w dilation_w;
                   (if padding = Padding_VALID \<and>
                       (input_shape ! 1 < effective_filter_h \<or> input_shape ! 2 < effective_filter_w)
                    then failed
                    else if out_h \<le> 0 \<or> out_w \<le> 0 then failed
                    else store0 [input_shape ! 0, out_h, out_w, out_channels] output_shapes) }) })"

definition InferDepthwiseConv2D :: OpShapeInferrer where
  "InferDepthwiseConv2D op input_shapes output_shapes =
     (let failed = Some (kLiteRtStatusErrorShapeInferenceFailed, output_shapes);
          invalid = Some (kLiteRtStatusErrorInvalidArgument, output_shapes) in
      if length input_shapes < 2 then invalid
      else
        let input_shape = input_shapes ! 0; filter_shape = input_shapes ! 1 in
        if length input_shape \<noteq> 4 \<or> length filter_shape \<noteq> 4 then invalid
        else
          case dw_options (options op) of
            None \<Rightarrow> invalid
          | Some opts \<Rightarrow>
              let stride_h = dw_stride_h opts; stride_w = dw_stride_w opts;
                  dilation_h = dw_dilation_h_factor opts;
                  dilation_w = dw_dilation_w_factor opts;
                  padding = dw_padding opts;
                  filter_h = filter_shape ! 1; filter_w = filter_shape ! 2;
                  out_channels = filter_shape ! 3
              in if filter_shape ! 0 \<noteq> 1 then failed
                 else do {
                   c \<leftarrow> i32 (input_shape ! 3 * dw_depth_multiplier opts);
                   (if out_channels \<noteq> c then failed
                    else if stride_h \<le> 0 \<or> stride_w \<le> 0 then failed
                    else if stride_h > input_shape ! 1 \<or> stride_w > input_shape ! 2 then failed
                    else if dilation_h \<le> 0 \<or> dilation_w \<le> 0 then failed
                    else if bias_mismatch input_shapes out_channels then failed
                    else do {
                      effective_filter_h \<leftarrow> effective_filter filter_h dilation_h;
                      effective_filter_w \<leftarrow> effective_filter filter_w dilation_w;
                      out_h \<leftarrow> ComputeOutputSize padding (input_shape ! 1) filter_h stride_h dilation_h;
                      out_w \<leftarrow> ComputeOutputSize padding (input_shape ! 2) filter_w stride_w dilation_w;
                      (if padding = Padding_VALID \<and>
                          (input_shape ! 1 < effective_filter_h \<or> input_shape ! 2 < effective_filter_w)
                       then failed
                       else if out_h \<le> 0 \<or> out_w \<le> 0 then failed
                       else store0 [input_shape ! 0, out_h, out_w, out_channels] output_shapes) }) })"

text \<open>The constant output shape, else a dynamic one with the batch and the channels filled in.\<close>

definition InferTransposeConv :: OpShapeInferrer where
  "InferTransposeConv op input_shapes output_shapes =
     (if length input_shapes < 3 then Some (kLiteRtStatusErrorInvalidArgument, output_shapes)
      else do {
        output_size_tensor \<leftarrow> Input op 0;
        (if length (Buffer output_size_tensor) \<ge> 4
         then store0 (read_i32s (Buffer output_size_tensor)) output_shapes
         else
           let input_shape = input_shapes ! 2; weights_shape = input_shapes ! 1 in
           do {
             batch \<leftarrow> at input_shape 0;
             out \<leftarrow> put (replicate (length input_shape) (- 1)) 0 batch;
             out' \<leftarrow> (if length weights_shape = 4 then put out 3 (weights_shape ! 0) else Some out);
             store0 out' output_shapes }) })"

definition InferConv3D :: OpShapeInferrer where
  "InferConv3D op input_shapes output_shapes =
     (let failed = Some (kLiteRtStatusErrorShapeInferenceFailed, output_shapes);
          invalid = Some (kLiteRtStatusErrorInvalidArgument, output_shapes) in
      if length input_shapes < 2 then invalid
      else
        let input_shape = input_shapes ! 0; filter_shape = input_shapes ! 1 in
        if length input_shape \<noteq> 5 \<or> length filter_shape \<noteq> 5 then invalid
        else
          case conv3d_options (options op) of
            None \<Rightarrow> invalid
          | Some opts \<Rightarrow>
              let stride_d = conv3_stride_d opts; stride_h = conv3_stride_h opts;
                  stride_w = conv3_stride_w opts;
                  dilation_d = conv3_dilation_d_factor opts;
                  dilation_h = conv3_dilation_h_factor opts;
                  dilation_w = conv3_dilation_w_factor opts;
                  padding = conv3_padding opts;
                  filter_d = filter_shape ! 0; filter_h = filter_shape ! 1; filter_w = filter_shape ! 2;
                  out_channels = filter_shape ! 4
              in if input_shape ! 4 \<noteq> filter_shape ! 3 then failed
                 else if stride_d \<le> 0 \<or> stride_h \<le> 0 \<or> stride_w \<le> 0 then failed
                 else if stride_d > input_shape ! 1 \<or> stride_h > input_shape ! 2 \<or> stride_w > input_shape ! 3
                 then failed
                 else if dilation_d \<le> 0 \<or> dilation_h \<le> 0 \<or> dilation_w \<le> 0 then failed
                 else if bias_mismatch input_shapes out_channels then failed
                 else do {
                   effective_filter_d \<leftarrow> effective_filter filter_d dilation_d;
                   effective_filter_h \<leftarrow> effective_filter filter_h dilation_h;
                   effective_filter_w \<leftarrow> effective_filter filter_w dilation_w;
                   out_d \<leftarrow> ComputeOutputSize padding (input_shape ! 1) filter_d stride_d dilation_d;
                   out_h \<leftarrow> ComputeOutputSize padding (input_shape ! 2) filter_h stride_h dilation_h;
                   out_w \<leftarrow> ComputeOutputSize padding (input_shape ! 3) filter_w stride_w dilation_w;
                   (if padding = Padding_VALID \<and>
                       (input_shape ! 1 < effective_filter_d \<or> input_shape ! 2 < effective_filter_h \<or>
                        input_shape ! 3 < effective_filter_w)
                    then failed
                    else if out_d \<le> 0 \<or> out_h \<le> 0 \<or> out_w \<le> 0 then failed
                    else store0 [input_shape ! 0, out_d, out_h, out_w, out_channels] output_shapes) })"

definition InferConv3DTranspose :: OpShapeInferrer where
  "InferConv3DTranspose op input_shapes output_shapes =
     (if length input_shapes < 3 then Some (kLiteRtStatusErrorInvalidArgument, output_shapes)
      else do {
        output_size_tensor \<leftarrow> Input op 0;
        (if length (Buffer output_size_tensor) \<ge> 4
         then store0 (read_i32s (Buffer output_size_tensor)) output_shapes
         else
           let input_shape = input_shapes ! 2; filter_shape = input_shapes ! 1;
               out = replicate (length input_shape) (- 1) in
           do {
             out' \<leftarrow> (if input_shape \<noteq> [] then put out 0 (input_shape ! 0) else Some out);
             out'' \<leftarrow> (if length filter_shape = 5 then put out' 4 (filter_shape ! 4) else Some out');
             store0 out'' output_shapes }) })"

section \<open>Pooling\<close>

fun pool_options :: "TflOptions \<Rightarrow> Pool2DOptions option" where
  "pool_options (Pool2D o') = Some o'"
| "pool_options _ = None"

definition InferPool2D :: OpShapeInferrer where
  "InferPool2D op input_shapes output_shapes =
     (let invalid = Some (kLiteRtStatusErrorInvalidArgument, output_shapes) in
      if length input_shapes < 1 then invalid
      else
        let input_shape = input_shapes ! 0 in
        if length input_shape \<noteq> 4 then invalid
        else
          case pool_options (options op) of
            None \<Rightarrow> invalid
          | Some opts \<Rightarrow> do {
              out_h \<leftarrow> ComputeOutputSize (pool_padding opts) (input_shape ! 1) (pool_filter_height opts)
                (pool_stride_h opts) 1;
              out_w \<leftarrow> ComputeOutputSize (pool_padding opts) (input_shape ! 2) (pool_filter_width opts)
                (pool_stride_w opts) 1;
              store0 [input_shape ! 0, out_h, out_w, input_shape ! 3] output_shapes })"

section \<open>Spatial operations\<close>

fun d2s_block_size :: "TflOptions \<Rightarrow> int" where
  "d2s_block_size (DepthToSpaceOptions block_size) = block_size"
| "d2s_block_size _ = 0"

fun s2d_block_size :: "TflOptions \<Rightarrow> int" where
  "s2d_block_size (SpaceToDepthOptions block_size) = block_size"
| "s2d_block_size _ = 0"

definition InferDepthToSpace :: OpShapeInferrer where
  "InferDepthToSpace op input_shapes output_shapes =
     (let failed = Some (kLiteRtStatusErrorShapeInferenceFailed, output_shapes) in
      if input_shapes = [] then failed
      else
        let input_shape = input_shapes ! 0; block_size = d2s_block_size (options op) in
        if length input_shape \<noteq> 4 then failed
        else if block_size \<le> 0 then failed
        else
          let height = input_shape ! 1; width = input_shape ! 2; depth = input_shape ! 3 in
          do {
            r \<leftarrow> (if depth \<noteq> - 1 then do { bb \<leftarrow> i32 (block_size * block_size); mod32 depth bb } else Some 0);
            (if r \<noteq> 0 then failed
             else do {
               out_depth \<leftarrow> (if depth \<noteq> - 1 then do { bb \<leftarrow> i32 (block_size * block_size); div32 depth bb }
                            else Some depth);
               out_height \<leftarrow> (if height \<noteq> - 1 then i32 (height * block_size) else Some height);
               out_width \<leftarrow> (if width \<noteq> - 1 then i32 (width * block_size) else Some width);
               store0 (input_shape[3 := out_depth, 1 := out_height, 2 := out_width]) output_shapes }) })"

definition InferSpaceToDepth :: OpShapeInferrer where
  "InferSpaceToDepth op input_shapes output_shapes =
     (let failed = Some (kLiteRtStatusErrorShapeInferenceFailed, output_shapes) in
      if input_shapes = [] then failed
      else
        let input_shape = input_shapes ! 0; block_size = s2d_block_size (options op) in
        if length input_shape \<noteq> 4 then failed
        else if block_size \<le> 0 then failed
        else
          let height = input_shape ! 1; width = input_shape ! 2; depth = input_shape ! 3 in
          do {
            out_depth \<leftarrow> (if depth \<noteq> - 1 then do { db \<leftarrow> i32 (depth * block_size); i32 (db * block_size) }
                         else Some depth);
            rh \<leftarrow> (if height \<noteq> - 1 then mod32 height block_size else Some 0);
            (if rh \<noteq> 0 then failed
             else do {
               out_height \<leftarrow> (if height \<noteq> - 1 then div32 height block_size else Some height);
               rw \<leftarrow> (if width \<noteq> - 1 then mod32 width block_size else Some 0);
               (if rw \<noteq> 0 then failed
                else do {
                  out_width \<leftarrow> (if width \<noteq> - 1 then div32 width block_size else Some width);
                  store0 (input_shape[3 := out_depth, 1 := out_height, 2 := out_width]) output_shapes }) }) })"

text \<open>Only a size tensor of exactly two 32-bit entries is read.\<close>

definition InferResizeOp :: OpShapeInferrer where
  "InferResizeOp op input_shapes output_shapes =
     (if length input_shapes < 2 then Some (kLiteRtStatusErrorShapeInferenceFailed, output_shapes)
      else do {
        size_tensor \<leftarrow> Input op 1;
        (let input_shape = input_shapes ! 0; buf = Buffer size_tensor in
         if length input_shape \<noteq> 4 then Some (kLiteRtStatusErrorShapeInferenceFailed, output_shapes)
         else if length buf = 8
         then store0 (input_shape[1 := read_i32 buf 0, 2 := read_i32 buf 1]) output_shapes
         else store0 (input_shape[1 := - 1, 2 := - 1]) output_shapes) })"

definition InferResizeBilinear :: OpShapeInferrer where
  "InferResizeBilinear op input_shapes output_shapes = InferResizeOp op input_shapes output_shapes"

definition InferResizeNearestNeighbor :: OpShapeInferrer where
  "InferResizeNearestNeighbor op input_shapes output_shapes = InferResizeOp op input_shapes output_shapes"

end
