(* ===== verification/ConvCorrect.thy ===== *)
theory ConvCorrect
  imports ShapeConv
begin

text \<open>
  The output sizes of windows as counts of window positions, the bounds of the convolution
  inferrers, and the round trip between space and depth.
\<close>

section \<open>Windows\<close>

lemma div32_pos: "0 \<le> a \<Longrightarrow> 0 < b \<Longrightarrow> div32 a b = Some c \<Longrightarrow> c = a div b"
  by (simp add: div32_def i32_Some_iff sdiv_nonneg)

lemma div_mult_le_int: "0 < s \<Longrightarrow> a div s * s \<le> a" for a s :: int
  by (metis add.right_neutral add_le_cancel_left div_mult_mod_eq pos_mod_sign)

lemma window_SAME:
  assumes "ComputeOutputSize Padding_SAME n f s d = Some r" and "0 < s" and "0 < n"
  shows "r = (n - 1) div s + 1"
proof -
  have "r = (n + s - 1) div s"
    using assms by (auto simp: ComputeOutputSize_def bind_eq_Some_conv i32_Some_iff intro: div32_pos split: if_splits)
  also have "n + s - 1 = n - 1 + s" by simp
  also have "\<dots> div s = (n - 1) div s + 1" using assms(2) div_add_self2 [of s "n - 1"] by simp
  finally show ?thesis .
qed

lemma window_VALID:
  assumes "ComputeOutputSize Padding_VALID n f s d = Some r" and "0 < s" and "0 < n" and "(f - 1) * d + 1 \<le> n"
  shows "r = (n - ((f - 1) * d + 1)) div s + 1"
proof -
  define e where "e = (f - 1) * d + 1"
  have "r = (n - e + s) div s"
    using assms unfolding e_def [symmetric]
    by (auto simp: ComputeOutputSize_def e_def [symmetric] bind_eq_Some_conv i32_Some_iff intro!: div32_pos split: if_splits)
  also have "\<dots> = (n - e) div s + 1" using assms(2) div_add_self2 [of s "n - e"] by simp
  finally show ?thesis by (simp add: e_def)
qed

text \<open>The positions \<open>k * s\<close> below a positive bound, counted.\<close>

lemma card_multiples_below:
  fixes m s :: int
  assumes "0 \<le> m" and "0 < s"
  shows "int (card {k::nat. int k * s \<le> m}) = m div s + 1"
proof -
  have "{k::nat. int k * s \<le> m} = {..nat (m div s)}"
  proof (rule set_eqI)
    fix k :: nat
    have "int k * s \<le> m \<longleftrightarrow> int k \<le> m div s"
    proof
      assume "int k * s \<le> m"
      then have "int k * s div s \<le> m div s" by (rule zdiv_mono1) (rule assms(2))
      then show "int k \<le> m div s" using assms(2) by simp
    next
      assume "int k \<le> m div s"
      then have "int k * s \<le> m div s * s" using assms(2) by (intro mult_right_mono) auto
      also have "\<dots> \<le> m" using assms(2) by (simp add: div_mult_le_int)
      finally show "int k * s \<le> m" .
    qed
    also have "\<dots> \<longleftrightarrow> k \<le> nat (m div s)"
      using assms by (simp add: nat_le_iff le_nat_iff pos_imp_zdiv_nonneg_iff)
    finally show "k \<in> {k::nat. int k * s \<le> m} \<longleftrightarrow> k \<in> {..nat (m div s)}" by simp
  qed
  then show ?thesis using assms by (simp add: pos_imp_zdiv_nonneg_iff)
qed

text \<open>With \<open>VALID\<close> padding the output size is the number of positions, a stride apart, at which the
  dilated window lies inside the image; with \<open>SAME\<close> padding it is the number of positions that lie
  inside the image at all.
\<close>

theorem ComputeOutputSize_counts_windows:
  assumes r: "ComputeOutputSize padding n f s d = Some r" and "padding \<noteq> Padding_other"
    and "0 < s" and "0 < n"
    and fit: "padding = Padding_VALID \<longrightarrow> 0 < (f - 1) * d + 1 \<and> (f - 1) * d + 1 \<le> n"
  shows "r = (case padding of
      Padding_VALID \<Rightarrow> int (card {k::nat. int k * s + ((f - 1) * d + 1) \<le> n})
    | _ \<Rightarrow> int (card {k::nat. int k * s < n}))"
proof (cases padding)
  case Padding_SAME
  then have "r = (n - 1) div s + 1" using r assms(3,4) by (simp add: window_SAME)
  also have "\<dots> = int (card {k::nat. int k * s \<le> n - 1})"
    using assms(3,4) by (intro card_multiples_below [symmetric]) auto
  also have "{k::nat. int k * s \<le> n - 1} = {k. int k * s < n}" by auto
  finally show ?thesis using Padding_SAME by simp
next
  case Padding_VALID
  define e where "e = (f - 1) * d + 1"
  have "r = (n - e) div s + 1"
    using Padding_VALID r assms(3,4) fit by (simp add: window_VALID e_def)
  also have "\<dots> = int (card {k::nat. int k * s \<le> n - e})"
    using Padding_VALID assms(3) fit by (intro card_multiples_below [symmetric]) (auto simp: e_def)
  also have "{k::nat. int k * s \<le> n - e} = {k. int k * s + e \<le> n}" by auto
  finally show ?thesis using Padding_VALID by (simp add: e_def)
next
  case Padding_other
  with assms(2) show ?thesis by simp
qed

theorem ComputeOutputSize_counts_windows_witness:
  "(3::int) = (case Padding_VALID of
      Padding_VALID \<Rightarrow> int (card {k::nat. int k * 2 + ((3 - 1) * 1 + 1) \<le> 7})
    | _ \<Rightarrow> int (card {k::nat. int k * 2 < 7}))"
  by (rule ComputeOutputSize_counts_windows [of Padding_VALID 7 3 2 1 3])
    (simp_all add: ComputeOutputSize_def i32_def fits32_def div32_def sdiv_nonneg)

section \<open>Convolutions\<close>

lemma effective_filter_Some_iff:
  "effective_filter f d = Some e \<longleftrightarrow>
   fits32 (f - 1) \<and> fits32 ((f - 1) * d) \<and> fits32 ((f - 1) * d + 1) \<and> e = (f - 1) * d + 1"
  by (auto simp: effective_filter_def bind_eq_Some_conv i32_Some_iff)

text \<open>
  What an accepted two-dimensional convolution satisfies, for the dense and the depth-wise one: the
  facts both inferrers check, in one place.
\<close>

definition conv_ok :: "Padding \<Rightarrow> int \<Rightarrow> int \<Rightarrow> int \<Rightarrow> int \<Rightarrow> int \<Rightarrow> bool" where
  "conv_ok padding n f s d r \<longleftrightarrow>
     0 < s \<and> s \<le> n \<and> 0 < d \<and> 0 < r \<and> ComputeOutputSize padding n f s d = Some r \<and>
     (padding = Padding_VALID \<longrightarrow> (f - 1) * d + 1 \<le> n)"

lemma InferConv2D_OkD:
  assumes "InferConv2D op input_shapes output_shapes = Some (kLiteRtStatusOk, outs)"
  obtains opts h w where "conv2d_options (options op) = Some opts"
    and "length (input_shapes ! 0) = 4" and "length (input_shapes ! 1) = 4"
    and "\<not> bias_mismatch input_shapes (input_shapes ! 1 ! 0)"
    and "conv_ok (conv_padding opts) (input_shapes ! 0 ! 1) (input_shapes ! 1 ! 1) (conv_stride_h opts)
      (conv_dilation_h_factor opts) h"
    and "conv_ok (conv_padding opts) (input_shapes ! 0 ! 2) (input_shapes ! 1 ! 2) (conv_stride_w opts)
      (conv_dilation_w_factor opts) w"
    and "outs = [input_shapes ! 0 ! 0, h, w, input_shapes ! 1 ! 0] # tl output_shapes"
  using assms
  by (auto simp: InferConv2D_def Let_def bind_eq_Some_conv effective_filter_Some_iff store0_Some_iff conv_ok_def
      split: if_splits option.splits)

text \<open>The last of \<open>r\<close> windows, \<open>s\<close> apart and \<open>e\<close> wide, lies inside an image of size \<open>n\<close>.\<close>

definition windows_inside :: "Padding \<Rightarrow> int \<Rightarrow> int \<Rightarrow> int \<Rightarrow> int \<Rightarrow> bool" where
  "windows_inside padding n e s r \<longleftrightarrow>
     0 < r \<and> (padding = Padding_VALID \<longrightarrow> (r - 1) * s + e \<le> n) \<and> (padding = Padding_SAME \<longrightarrow> (r - 1) * s < n)"

lemma conv_ok_inside:
  assumes "conv_ok padding n f s d r"
  shows "windows_inside padding n ((f - 1) * d + 1) s r"
proof -
  have pos: "0 < s" "0 < n" "0 < r" and c: "ComputeOutputSize padding n f s d = Some r"
    using assms by (auto simp: conv_ok_def)
  have "(r - 1) * s + ((f - 1) * d + 1) \<le> n" if "padding = Padding_VALID"
    using that assms window_VALID [of n f s d r] div_mult_le_int [of s "n - ((f - 1) * d + 1)"] pos
    by (simp add: conv_ok_def)
  moreover have "(r - 1) * s < n" if "padding = Padding_SAME"
    using that c window_SAME [of n f s d r] div_mult_le_int [of s "n - 1"] pos by simp
  ultimately show ?thesis using pos(3) by (simp add: windows_inside_def)
qed

text \<open>C31: A convolution that is accepted has positive output sizes, and the windows of the last row and
  column still lie inside the image: with \<open>VALID\<close> padding the dilated filter fits there, with \<open>SAME\<close>
  padding its position does.  The batch comes from the input and the channels from the filter.
\<close>

theorem InferConv2D_bounds:
  assumes "InferConv2D op input_shapes output_shapes = Some (kLiteRtStatusOk, outs)"
    and opts: "options op = Conv2D opts" and "input_shapes ! 0 = [n, ih, iw, ic]" and "input_shapes ! 1 = [oc, fh, fw, fc]"
  shows "\<exists>h w. outs = [n, h, w, oc] # tl output_shapes \<and>
    windows_inside (conv_padding opts) ih ((fh - 1) * conv_dilation_h_factor opts + 1) (conv_stride_h opts) h \<and>
    windows_inside (conv_padding opts) iw ((fw - 1) * conv_dilation_w_factor opts + 1) (conv_stride_w opts) w"
  by (rule InferConv2D_OkD [OF assms(1)]) (use assms(2-) conv_ok_inside in auto)

theorem InferConv2D_bounds_witness:
  "\<exists>h w. [[1, 3, 2, 8]] = [1, h, w, 8] # tl [[]] \<and>
    windows_inside Padding_VALID 7 ((3 - 1) * 1 + 1) 2 h \<and> windows_inside Padding_VALID 5 ((3 - 1) * 1 + 1) 2 w"
  using InferConv2D_bounds [of "\<lparr>options = Conv2D \<lparr>conv_padding = Padding_VALID, conv_stride_w = 2, conv_stride_h = 2,
      conv_dilation_w_factor = 1, conv_dilation_h_factor = 1\<rparr>, Inputs = [], NumOutputs = 1\<rparr>"
    "[[1, 7, 5, 4], [8, 3, 3, 4]]" "[[]]" "[[1, 3, 2, 8]]" _ 1 7 5 4 8 3 3 4]
  by (simp add: InferConv2D_def Let_def bias_mismatch_def ComputeOutputSize_def effective_filter_def
      i32_def fits32_def div32_def mod32_def sdiv_nonneg smod_nonneg)

text \<open>
  An omitted optional bias has the empty shape, which a convolution rejects: the operation is
  accepted with two inputs but not with a null third one.
\<close>

theorem InferConv2D_null_bias:
  "InferConv2D op [img, weights, []] outs \<noteq> Some (kLiteRtStatusOk, outs')"
proof
  assume "InferConv2D op [img, weights, []] outs = Some (kLiteRtStatusOk, outs')"
  then show False
    by (rule InferConv2D_OkD) (simp add: bias_mismatch_def numeral_2_eq_2)
qed

text \<open>A dynamic image size is rejected: no positive stride is at most \<open>-1\<close>.\<close>

theorem InferConv2D_dynamic_size:
  assumes "input ! 1 = - 1 \<or> input ! 2 = - 1"
  shows "InferConv2D op (input # rest) outs \<noteq> Some (kLiteRtStatusOk, outs')"
proof
  assume "InferConv2D op (input # rest) outs = Some (kLiteRtStatusOk, outs')"
  then show False by (rule InferConv2D_OkD) (use assms in \<open>auto simp: conv_ok_def\<close>)
qed

section \<open>Space and depth\<close>

lemma mod32_Some_iff: "mod32 a b = Some r \<longleftrightarrow> b \<noteq> 0 \<and> fits32 (a sdiv b) \<and> r = a smod b"
  by (auto simp: mod32_def)

lemma div32_Some_iff: "div32 a b = Some q \<longleftrightarrow> b \<noteq> 0 \<and> fits32 (a sdiv b) \<and> q = a sdiv b"
  by (auto simp: div32_def i32_Some_iff)

text \<open>\<open>DepthToSpace\<close> undoes \<open>SpaceToDepth\<close> with the same block size: applied to the shape that
  \<open>SpaceToDepth\<close> infers it infers the original shape, dynamic dimensions included.
\<close>

theorem DepthToSpace_SpaceToDepth:
  assumes "InferSpaceToDepth op1 [s] [[]] = Some (kLiteRtStatusOk, [s'])"
    and "options op1 = SpaceToDepthOptions b" and "options op2 = DepthToSpaceOptions b"
    and "list_all (\<lambda>d. - 1 \<le> d \<and> fits32 d) s" and "fits32 (b * b)"
  shows "InferDepthToSpace op2 [s'] [[]] = Some (kLiteRtStatusOk, [s])"
proof -
  have b: "0 < b" and "length s = 4"
    using assms(1,2) by (auto simp: InferSpaceToDepth_def Let_def split: if_splits)
  then obtain n h w c where s: "s = [n, h, w, c]"
    by (auto simp: length_Suc_conv numeral_eq_Suc)
  have dims: "- 1 \<le> h" "- 1 \<le> w" "- 1 \<le> c" "fits32 h" "fits32 w" "fits32 c"
    using assms(4) by (simp_all add: s)
  define h' where "h' = (if h \<noteq> - 1 then h div b else - 1)"
  define w' where "w' = (if w \<noteq> - 1 then w div b else - 1)"
  define c' where "c' = (if c \<noteq> - 1 then c * b * b else - 1)"
  have r: "s' = [n, h', w', c']" "h \<noteq> - 1 \<longrightarrow> b dvd h" "w \<noteq> - 1 \<longrightarrow> b dvd w"
    using assms(1,2) b dims
    by (auto simp: InferSpaceToDepth_def Let_def s h'_def w'_def c'_def bind_eq_Some_conv i32_Some_iff
        mod32_Some_iff div32_Some_iff smod_0_iff sdiv_nonneg split: if_splits)
  have "h = - 1 \<and> h' = - 1 \<or> h \<noteq> - 1 \<and> h' \<noteq> - 1 \<and> h' * b = h"
    using r b dims by (auto simp: h'_def pos_imp_zdiv_nonneg_iff)
  moreover have "w = - 1 \<and> w' = - 1 \<or> w \<noteq> - 1 \<and> w' \<noteq> - 1 \<and> w' * b = w"
    using r b dims by (auto simp: w'_def pos_imp_zdiv_nonneg_iff)
  moreover have "c = - 1 \<and> c' = - 1 \<or> c \<noteq> - 1 \<and> c' \<noteq> - 1 \<and> c' smod (b * b) = 0 \<and> c' sdiv (b * b) = c"
  proof (cases "c = - 1")
    case False
    then have "0 \<le> c * (b * b)" using dims b by simp
    then have "c * (b * b) \<noteq> - 1" by linarith
    then show ?thesis using False b dims by (simp add: c'_def smod_0_iff sdiv_nonneg mult.assoc)
  qed (simp add: c'_def)
  ultimately show ?thesis
    using b dims assms(3,5)
    by (auto simp: InferDepthToSpace_def Let_def r(1) s i32_def mod32_def div32_def)
qed

theorem DepthToSpace_SpaceToDepth_witness:
  "InferDepthToSpace \<lparr>options = DepthToSpaceOptions 2, Inputs = [], NumOutputs = 1\<rparr> [[1, 3, - 1, 20]] [[]] =
     Some (kLiteRtStatusOk, [[1, 6, - 1, 5]])"
  by (rule DepthToSpace_SpaceToDepth [where b = 2 and
        ?op1.0 = "\<lparr>options = SpaceToDepthOptions 2, Inputs = [], NumOutputs = 1\<rparr>"])
    (simp_all add: InferSpaceToDepth_def Let_def i32_def fits32_def div32_def mod32_def sdiv_nonneg smod_nonneg)

end
