(* ===== verification/ShapeElementwise.thy ===== *)
theory ShapeElementwise
  imports ShapeBase
begin

text \<open>
  The inferrers whose output shape is an input shape or a broadcast of several:
  \<^verbatim>\<open>simple_unary.h\<close>, \<^verbatim>\<open>simple_binary.h\<close>, \<^verbatim>\<open>select.h\<close>,
  \<^verbatim>\<open>broadcast_to.h\<close> and \<^verbatim>\<open>matmul.h\<close> under
  \<^verbatim>\<open>src/litert/core/model/ops\<close>.  The element loops run backwards from the last
  dimension; ranks are below \<open>2^31\<close>, so that the \<open>int\<close> indices of the loops do not overflow.
\<close>

section \<open>Definitions\<close>

definition InferIdentity :: "Dims list \<Rightarrow> Dims list \<Rightarrow> inferred" where
  "InferIdentity input_shapes output_shapes =
     (if length output_shapes \<noteq> 1 then Some (kLiteRtStatusErrorShapeInferenceFailed, output_shapes)
      else do { s \<leftarrow> at input_shapes 0; store0 s output_shapes })"

text \<open>The functions that \<open>DEFINE_SIMPLE_UNARY_INFER\<close> declares, one for each operation.\<close>

definition InferSimpleUnary :: OpShapeInferrer where
  "InferSimpleUnary op input_shapes output_shapes = InferIdentity input_shapes output_shapes"

text \<open>\<open>idx = rank - 1 - i; d = (idx >= 0) ? s[idx] : 1\<close>\<close>

definition dim_from_back :: "Dims \<Rightarrow> nat \<Rightarrow> int" where
  "dim_from_back s i = (if i < length s then s ! (length s - 1 - i) else 1)"

text \<open>The dimension two dimensions broadcast to; \<open>None\<close> for incompatible ones.\<close>

definition broadcast_dim :: "int \<Rightarrow> int \<Rightarrow> int option" where
  "broadcast_dim d1 d2 =
     (if d1 = - 1 \<or> d2 = - 1 then Some (- 1)
      else if d1 = d2 then Some d1
      else if d1 = 1 then Some d2
      else if d2 = 1 then Some d1
      else None)"

definition binary_step :: "Dims \<Rightarrow> Dims \<Rightarrow> nat \<Rightarrow> nat \<Rightarrow> Dims \<Rightarrow> Dims flow option" where
  "binary_step s1 s2 max_rank i out_shape =
     (case broadcast_dim (dim_from_back s1 i) (dim_from_back s2 i) of
        Some d \<Rightarrow> Some (Next (out_shape[max_rank - 1 - i := d]))
      | None \<Rightarrow> Some (Return kLiteRtStatusErrorShapeInferenceFailed))"

definition InferElementwiseBinary :: "Dims list \<Rightarrow> Dims list \<Rightarrow> inferred" where
  "InferElementwiseBinary input_shapes output_shapes =
     (if length input_shapes \<noteq> 2 then Some (kLiteRtStatusErrorShapeInferenceFailed, output_shapes)
      else
        let s1 = input_shapes ! 0; s2 = input_shapes ! 1;
            max_rank = max (length s1) (length s2)
        in after (loop (binary_step s1 s2 max_rank) [0..<max_rank] (replicate max_rank 0)) output_shapes
             (\<lambda>out_shape. store0 out_shape output_shapes))"

text \<open>The functions that \<open>DEFINE_SIMPLE_BINARY_INFER\<close> declares, one for each operation.\<close>

definition InferSimpleBinary :: OpShapeInferrer where
  "InferSimpleBinary op input_shapes output_shapes = InferElementwiseBinary input_shapes output_shapes"

definition select_dim :: "int \<Rightarrow> int \<Rightarrow> int \<Rightarrow> int flow option" where
  "select_dim d1 d2 d3 =
     loop (\<lambda>dim out_dim.
         if dim \<noteq> 1 \<and> out_dim \<noteq> 1 \<and> dim \<noteq> out_dim then Some (Return kLiteRtStatusErrorInvalidArgument)
         else Some (Next (if dim > out_dim then dim else out_dim)))
       [d1, d2, d3] 1"

definition select_step :: "Dims \<Rightarrow> Dims \<Rightarrow> Dims \<Rightarrow> nat \<Rightarrow> nat \<Rightarrow> Dims \<Rightarrow> Dims flow option" where
  "select_step s1 s2 s3 rank i out_shape =
     (let d1 = dim_from_back s1 i; d2 = dim_from_back s2 i; d3 = dim_from_back s3 i in
      if d1 = - 1 \<or> d2 = - 1 \<or> d3 = - 1 then Some (Next (out_shape[rank - 1 - i := - 1]))
      else case select_dim d1 d2 d3 of
             Some (Next out_dim) \<Rightarrow> Some (Next (out_shape[rank - 1 - i := out_dim]))
           | Some (Return st) \<Rightarrow> Some (Return st)
           | None \<Rightarrow> None)"

definition InferSelect :: OpShapeInferrer where
  "InferSelect op input_shapes output_shapes =
     (if length input_shapes \<noteq> 3 then Some (kLiteRtStatusErrorInvalidArgument, output_shapes)
      else
        let s1 = input_shapes ! 0; s2 = input_shapes ! 1; s3 = input_shapes ! 2;
            rank = max (length s1) (max (length s2) (length s3))
        in after (loop (select_step s1 s2 s3 rank) [0..<rank] (replicate rank 0)) output_shapes
             (\<lambda>out_shape. store0 out_shape output_shapes))"

text \<open>The target shape of \<open>BroadcastTo\<close>; 64-bit entries are narrowed by \<open>push_back\<close>.\<close>

definition broadcast_to_shape :: "LiteRtElementType \<Rightarrow> byte list \<Rightarrow> Dims option" where
  "broadcast_to_shape element_type buf =
     (if element_type = kLiteRtElementTypeInt64 \<and> length buf mod 8 = 0 then Some (map to_i32 (read_i64s buf))
      else if element_type = kLiteRtElementTypeInt32 \<and> length buf mod 4 = 0 then Some (read_i32s buf)
      else None)"

definition InferBroadcastTo :: OpShapeInferrer where
  "InferBroadcastTo op input_shapes output_shapes =
     (if length input_shapes < 2 then Some (kLiteRtStatusErrorShapeInferenceFailed, output_shapes)
      else if length output_shapes \<noteq> 1 then Some (kLiteRtStatusErrorShapeInferenceFailed, output_shapes)
      else do {
        shape_tensor \<leftarrow> Input op 1;
        (if length (Buffer shape_tensor) \<ge> 4 then
           case Type shape_tensor of
             RankedTensorType element_type _ \<Rightarrow>
               (case broadcast_to_shape element_type (Buffer shape_tensor) of
                  None \<Rightarrow> Some (kLiteRtStatusErrorShapeInferenceFailed, output_shapes)
                | Some out_shape \<Rightarrow>
                    let input_shape = input_shapes ! 0 in
                    if length input_shape > length out_shape
                    then Some (kLiteRtStatusErrorShapeInferenceFailed, output_shapes)
                    else
                      after (loop (\<lambda>i _.
                            let in_dim = input_shape ! (length input_shape - 1 - i);
                                out_dim = out_shape ! (length out_shape - 1 - i)
                            in if in_dim \<noteq> 1 \<and> in_dim \<noteq> out_dim
                               then Some (Return kLiteRtStatusErrorShapeInferenceFailed)
                               else Some (Next ()))
                          [0..<length input_shape] ()) output_shapes
                        (\<lambda>_. store0 out_shape output_shapes))
           | _ \<Rightarrow> Some (kLiteRtStatusErrorShapeInferenceFailed, output_shapes)
         else Some (kLiteRtStatusErrorShapeInferenceFailed, output_shapes)) })"

text \<open>\<open>AsBatchMatMulOptions()\<close>: the flags \<open>adj_x\<close> and \<open>adj_y\<close>, false when there are no such options.\<close>

fun bmm_flags :: "TflOptions \<Rightarrow> bool \<times> bool" where
  "bmm_flags (BatchMatMulOptions adj_x adj_y) = (adj_x, adj_y)"
| "bmm_flags _ = (False, False)"

definition bmm_step :: "Dims \<Rightarrow> Dims \<Rightarrow> nat \<Rightarrow> nat \<Rightarrow> Dims \<Rightarrow> Dims flow option" where
  "bmm_step lhs rhs rank i out_shape =
     (case broadcast_dim (dim_from_back lhs i) (dim_from_back rhs i) of
        Some d \<Rightarrow> Some (Next (out_shape[rank - 1 - i := d]))
      | None \<Rightarrow> Some (Return kLiteRtStatusErrorInvalidArgument))"

definition InferBatchMatmul :: OpShapeInferrer where
  "InferBatchMatmul op input_shapes output_shapes =
     (if length input_shapes \<noteq> 2 then Some (kLiteRtStatusErrorInvalidArgument, output_shapes)
      else
        let lhs = input_shapes ! 0; rhs = input_shapes ! 1 in
        if length lhs < 2 \<or> length rhs < 2 then Some (kLiteRtStatusErrorInvalidArgument, output_shapes)
        else
          let (adj_x, adj_y) = bmm_flags (options op);
              m = (if adj_x then lhs ! (length lhs - 1) else lhs ! (length lhs - 2));
              k_lhs = (if adj_x then lhs ! (length lhs - 2) else lhs ! (length lhs - 1));
              k_rhs = (if adj_y then rhs ! (length rhs - 1) else rhs ! (length rhs - 2));
              n = (if adj_y then rhs ! (length rhs - 2) else rhs ! (length rhs - 1))
          in if k_lhs \<noteq> - 1 \<and> k_rhs \<noteq> - 1 \<and> k_lhs \<noteq> k_rhs
             then Some (kLiteRtStatusErrorInvalidArgument, output_shapes)
             else
               let rank = max (length lhs) (length rhs);
                   out_shape = (replicate rank 0)[rank - 2 := m, rank - 1 := n]
               in after (loop (bmm_step lhs rhs rank) [2..<rank] out_shape) output_shapes
                    (\<lambda>out_shape. store0 out_shape output_shapes))"

fun fc_keep_num_dims :: "TflOptions \<Rightarrow> bool" where
  "fc_keep_num_dims (FullyConnectedOptions keep_num_dims) = keep_num_dims"
| "fc_keep_num_dims _ = False"

text \<open>
  The loop over all but the last dimension; for an empty input \<open>input.size() - 1\<close> wraps around and
  the first iteration reads past the end.
\<close>

definition fc_batch :: "Dims \<Rightarrow> (bool \<times> int) flow option" where
  "fc_batch input =
     (if input = [] then None
      else loop (\<lambda>d (dynamic_batch, batch).
          if d = - 1 then Some (Next (True, batch))
          else do { batch' \<leftarrow> i64 (batch * d); Some (Next (dynamic_batch, batch')) })
        (butlast input) (False, 1))"

definition InferFullyConnected :: OpShapeInferrer where
  "InferFullyConnected op input_shapes output_shapes =
     (if length input_shapes < 2 then Some (kLiteRtStatusErrorInvalidArgument, output_shapes)
      else
        let input = input_shapes ! 0; weights = input_shapes ! 1;
            keep_num_dims = fc_keep_num_dims (options op)
        in if length weights \<noteq> 2 then Some (kLiteRtStatusErrorInvalidArgument, output_shapes)
           else
             let output_dim = weights ! 0 in
             if keep_num_dims then do {
               out_shape \<leftarrow> put_back input output_dim;
               store0 out_shape output_shapes }
             else after (fc_batch input) output_shapes
               (\<lambda>(dynamic_batch, batch).
                  store0 [if dynamic_batch then - 1 else to_i32 batch, output_dim] output_shapes))"

end
