(* ===== verification/ShapeEngine.thy ===== *)
theory ShapeEngine
  imports ShapeElementwise ShapeStructural ShapeConv
begin

text \<open>
  The engine of \<^verbatim>\<open>src/litert/core/model/shape_inference.cc\<close>: the registry of
  inferrers, the inference or validation of one operation, of a subgraph and of a model, and the
  specialisation of a subgraph to given input shapes, with the cloning and linking of tensors and
  operations of \<^verbatim>\<open>src/litert/core/model/model.cc\<close> that it uses.

  A pointer to a tensor is its position in the \<open>Tensors()\<close> of the subgraph that owns it, or
  \<open>None\<close> for a null pointer.
\<close>

section \<open>Operation codes\<close>

type_synonym LiteRtOpCode = int

abbreviation kLiteRtOpCodeTflAdd :: LiteRtOpCode where "kLiteRtOpCodeTflAdd \<equiv> 0"
abbreviation kLiteRtOpCodeTflAveragePool2d :: LiteRtOpCode where "kLiteRtOpCodeTflAveragePool2d \<equiv> 1"
abbreviation kLiteRtOpCodeTflConcatenation :: LiteRtOpCode where "kLiteRtOpCodeTflConcatenation \<equiv> 2"
abbreviation kLiteRtOpCodeTflConv2d :: LiteRtOpCode where "kLiteRtOpCodeTflConv2d \<equiv> 3"
abbreviation kLiteRtOpCodeTflDepthwiseConv2d :: LiteRtOpCode where "kLiteRtOpCodeTflDepthwiseConv2d \<equiv> 4"
abbreviation kLiteRtOpCodeTflDepthToSpace :: LiteRtOpCode where "kLiteRtOpCodeTflDepthToSpace \<equiv> 5"
abbreviation kLiteRtOpCodeTflDequantize :: LiteRtOpCode where "kLiteRtOpCodeTflDequantize \<equiv> 6"
abbreviation kLiteRtOpCodeTflEmbeddingLookup :: LiteRtOpCode where "kLiteRtOpCodeTflEmbeddingLookup \<equiv> 7"
abbreviation kLiteRtOpCodeTflFloor :: LiteRtOpCode where "kLiteRtOpCodeTflFloor \<equiv> 8"
abbreviation kLiteRtOpCodeTflFullyConnected :: LiteRtOpCode where "kLiteRtOpCodeTflFullyConnected \<equiv> 9"
abbreviation kLiteRtOpCodeTflL2Normalization :: LiteRtOpCode where "kLiteRtOpCodeTflL2Normalization \<equiv> 11"
abbreviation kLiteRtOpCodeTflL2Pool2d :: LiteRtOpCode where "kLiteRtOpCodeTflL2Pool2d \<equiv> 12"
abbreviation kLiteRtOpCodeTflLogistic :: LiteRtOpCode where "kLiteRtOpCodeTflLogistic \<equiv> 14"
abbreviation kLiteRtOpCodeTflMaxPool2d :: LiteRtOpCode where "kLiteRtOpCodeTflMaxPool2d \<equiv> 17"
abbreviation kLiteRtOpCodeTflMul :: LiteRtOpCode where "kLiteRtOpCodeTflMul \<equiv> 18"
abbreviation kLiteRtOpCodeTflRelu :: LiteRtOpCode where "kLiteRtOpCodeTflRelu \<equiv> 19"
abbreviation kLiteRtOpCodeTflReluN1To1 :: LiteRtOpCode where "kLiteRtOpCodeTflReluN1To1 \<equiv> 20"
abbreviation kLiteRtOpCodeTflRelu6 :: LiteRtOpCode where "kLiteRtOpCodeTflRelu6 \<equiv> 21"
abbreviation kLiteRtOpCodeTflReshape :: LiteRtOpCode where "kLiteRtOpCodeTflReshape \<equiv> 22"
abbreviation kLiteRtOpCodeTflResizeBilinear :: LiteRtOpCode where "kLiteRtOpCodeTflResizeBilinear \<equiv> 23"
abbreviation kLiteRtOpCodeTflSoftmax :: LiteRtOpCode where "kLiteRtOpCodeTflSoftmax \<equiv> 25"
abbreviation kLiteRtOpCodeTflSpaceToDepth :: LiteRtOpCode where "kLiteRtOpCodeTflSpaceToDepth \<equiv> 26"
abbreviation kLiteRtOpCodeTflTanh :: LiteRtOpCode where "kLiteRtOpCodeTflTanh \<equiv> 28"
abbreviation kLiteRtOpCodeTflCustom :: LiteRtOpCode where "kLiteRtOpCodeTflCustom \<equiv> 32"
abbreviation kLiteRtOpCodeTflPad :: LiteRtOpCode where "kLiteRtOpCodeTflPad \<equiv> 34"
abbreviation kLiteRtOpCodeTflGather :: LiteRtOpCode where "kLiteRtOpCodeTflGather \<equiv> 36"
abbreviation kLiteRtOpCodeTflTranspose :: LiteRtOpCode where "kLiteRtOpCodeTflTranspose \<equiv> 39"
abbreviation kLiteRtOpCodeTflMean :: LiteRtOpCode where "kLiteRtOpCodeTflMean \<equiv> 40"
abbreviation kLiteRtOpCodeTflSub :: LiteRtOpCode where "kLiteRtOpCodeTflSub \<equiv> 41"
abbreviation kLiteRtOpCodeTflDiv :: LiteRtOpCode where "kLiteRtOpCodeTflDiv \<equiv> 42"
abbreviation kLiteRtOpCodeTflExp :: LiteRtOpCode where "kLiteRtOpCodeTflExp \<equiv> 47"
abbreviation kLiteRtOpCodeTflTopkV2 :: LiteRtOpCode where "kLiteRtOpCodeTflTopkV2 \<equiv> 48"
abbreviation kLiteRtOpCodeTflCast :: LiteRtOpCode where "kLiteRtOpCodeTflCast \<equiv> 53"
abbreviation kLiteRtOpCodeTflPrelu :: LiteRtOpCode where "kLiteRtOpCodeTflPrelu \<equiv> 54"
abbreviation kLiteRtOpCodeTflMaximum :: LiteRtOpCode where "kLiteRtOpCodeTflMaximum \<equiv> 55"
abbreviation kLiteRtOpCodeTflArgMax :: LiteRtOpCode where "kLiteRtOpCodeTflArgMax \<equiv> 56"
abbreviation kLiteRtOpCodeTflMinimum :: LiteRtOpCode where "kLiteRtOpCodeTflMinimum \<equiv> 57"
abbreviation kLiteRtOpCodeTflLess :: LiteRtOpCode where "kLiteRtOpCodeTflLess \<equiv> 58"
abbreviation kLiteRtOpCodeTflNeg :: LiteRtOpCode where "kLiteRtOpCodeTflNeg \<equiv> 59"
abbreviation kLiteRtOpCodeTflPadv2 :: LiteRtOpCode where "kLiteRtOpCodeTflPadv2 \<equiv> 60"
abbreviation kLiteRtOpCodeTflGreater :: LiteRtOpCode where "kLiteRtOpCodeTflGreater \<equiv> 61"
abbreviation kLiteRtOpCodeTflGreaterEqual :: LiteRtOpCode where "kLiteRtOpCodeTflGreaterEqual \<equiv> 62"
abbreviation kLiteRtOpCodeTflLessEqual :: LiteRtOpCode where "kLiteRtOpCodeTflLessEqual \<equiv> 63"
abbreviation kLiteRtOpCodeTflSelect :: LiteRtOpCode where "kLiteRtOpCodeTflSelect \<equiv> 64"
abbreviation kLiteRtOpCodeTflSlice :: LiteRtOpCode where "kLiteRtOpCodeTflSlice \<equiv> 65"
abbreviation kLiteRtOpCodeTflSin :: LiteRtOpCode where "kLiteRtOpCodeTflSin \<equiv> 66"
abbreviation kLiteRtOpCodeTflTransposeConv :: LiteRtOpCode where "kLiteRtOpCodeTflTransposeConv \<equiv> 67"
abbreviation kLiteRtOpCodeTflEqual :: LiteRtOpCode where "kLiteRtOpCodeTflEqual \<equiv> 71"
abbreviation kLiteRtOpCodeTflNotEqual :: LiteRtOpCode where "kLiteRtOpCodeTflNotEqual \<equiv> 72"
abbreviation kLiteRtOpCodeTflLog :: LiteRtOpCode where "kLiteRtOpCodeTflLog \<equiv> 73"
abbreviation kLiteRtOpCodeTflSum :: LiteRtOpCode where "kLiteRtOpCodeTflSum \<equiv> 74"
abbreviation kLiteRtOpCodeTflSqrt :: LiteRtOpCode where "kLiteRtOpCodeTflSqrt \<equiv> 75"
abbreviation kLiteRtOpCodeTflRsqrt :: LiteRtOpCode where "kLiteRtOpCodeTflRsqrt \<equiv> 76"
abbreviation kLiteRtOpCodeTflPow :: LiteRtOpCode where "kLiteRtOpCodeTflPow \<equiv> 78"
abbreviation kLiteRtOpCodeTflArgMin :: LiteRtOpCode where "kLiteRtOpCodeTflArgMin \<equiv> 79"
abbreviation kLiteRtOpCodeTflReduceMax :: LiteRtOpCode where "kLiteRtOpCodeTflReduceMax \<equiv> 82"
abbreviation kLiteRtOpCodeTflPack :: LiteRtOpCode where "kLiteRtOpCodeTflPack \<equiv> 83"
abbreviation kLiteRtOpCodeTflLogicalOr :: LiteRtOpCode where "kLiteRtOpCodeTflLogicalOr \<equiv> 84"
abbreviation kLiteRtOpCodeTflLogicalAnd :: LiteRtOpCode where "kLiteRtOpCodeTflLogicalAnd \<equiv> 86"
abbreviation kLiteRtOpCodeTflLogicalNot :: LiteRtOpCode where "kLiteRtOpCodeTflLogicalNot \<equiv> 87"
abbreviation kLiteRtOpCodeTflUnpack :: LiteRtOpCode where "kLiteRtOpCodeTflUnpack \<equiv> 88"
abbreviation kLiteRtOpCodeTflReduceMin :: LiteRtOpCode where "kLiteRtOpCodeTflReduceMin \<equiv> 89"
abbreviation kLiteRtOpCodeTflFloorDiv :: LiteRtOpCode where "kLiteRtOpCodeTflFloorDiv \<equiv> 90"
abbreviation kLiteRtOpCodeTflReduceAny :: LiteRtOpCode where "kLiteRtOpCodeTflReduceAny \<equiv> 91"
abbreviation kLiteRtOpCodeTflSquare :: LiteRtOpCode where "kLiteRtOpCodeTflSquare \<equiv> 92"
abbreviation kLiteRtOpCodeTflResizeNearestNeighbor :: LiteRtOpCode where "kLiteRtOpCodeTflResizeNearestNeighbor \<equiv> 97"
abbreviation kLiteRtOpCodeTflLeakyRelu :: LiteRtOpCode where "kLiteRtOpCodeTflLeakyRelu \<equiv> 98"
abbreviation kLiteRtOpCodeTflSquaredDifference :: LiteRtOpCode where "kLiteRtOpCodeTflSquaredDifference \<equiv> 99"
abbreviation kLiteRtOpCodeTflMirrorPad :: LiteRtOpCode where "kLiteRtOpCodeTflMirrorPad \<equiv> 100"
abbreviation kLiteRtOpCodeTflAbs :: LiteRtOpCode where "kLiteRtOpCodeTflAbs \<equiv> 101"
abbreviation kLiteRtOpCodeTflCeil :: LiteRtOpCode where "kLiteRtOpCodeTflCeil \<equiv> 104"
abbreviation kLiteRtOpCodeTflReverseV2 :: LiteRtOpCode where "kLiteRtOpCodeTflReverseV2 \<equiv> 105"
abbreviation kLiteRtOpCodeTflGatherNd :: LiteRtOpCode where "kLiteRtOpCodeTflGatherNd \<equiv> 107"
abbreviation kLiteRtOpCodeTflCos :: LiteRtOpCode where "kLiteRtOpCodeTflCos \<equiv> 108"
abbreviation kLiteRtOpCodeTflElu :: LiteRtOpCode where "kLiteRtOpCodeTflElu \<equiv> 111"
abbreviation kLiteRtOpCodeTflQuantize :: LiteRtOpCode where "kLiteRtOpCodeTflQuantize \<equiv> 114"
abbreviation kLiteRtOpCodeTflRound :: LiteRtOpCode where "kLiteRtOpCodeTflRound \<equiv> 116"
abbreviation kLiteRtOpCodeTflHardSwish :: LiteRtOpCode where "kLiteRtOpCodeTflHardSwish \<equiv> 117"
abbreviation kLiteRtOpCodeTflSelectV2 :: LiteRtOpCode where "kLiteRtOpCodeTflSelectV2 \<equiv> 123"
abbreviation kLiteRtOpCodeTflBatchMatmul :: LiteRtOpCode where "kLiteRtOpCodeTflBatchMatmul \<equiv> 126"
abbreviation kLiteRtOpCodeTflCumsum :: LiteRtOpCode where "kLiteRtOpCodeTflCumsum \<equiv> 128"
abbreviation kLiteRtOpCodeTflBroadcastTo :: LiteRtOpCode where "kLiteRtOpCodeTflBroadcastTo \<equiv> 130"
abbreviation kLiteRtOpCodeTflConv3d :: LiteRtOpCode where "kLiteRtOpCodeTflConv3d \<equiv> 132"
abbreviation kLiteRtOpCodeTflReduceAll :: LiteRtOpCode where "kLiteRtOpCodeTflReduceAll \<equiv> 140"
abbreviation kLiteRtOpCodeTflConv3dTranspose :: LiteRtOpCode where "kLiteRtOpCodeTflConv3dTranspose \<equiv> 141"
abbreviation kLiteRtOpCodeTflGelu :: LiteRtOpCode where "kLiteRtOpCodeTflGelu \<equiv> 150"
abbreviation kLiteRtOpCodeTflDynamicUpdateSlice :: LiteRtOpCode where "kLiteRtOpCodeTflDynamicUpdateSlice \<equiv> 151"
abbreviation kLiteRtOpCodeTflRelu0To1 :: LiteRtOpCode where "kLiteRtOpCodeTflRelu0To1 \<equiv> 152"
abbreviation kLiteRtOpCodeTflSign :: LiteRtOpCode where "kLiteRtOpCodeTflSign \<equiv> 158"

section \<open>The model\<close>

text \<open>Scales are kept as the bit patterns of their \<open>float\<close>.\<close>

datatype Quantization =
    QuantizationNone
  | QuantizationPerTensor "32 word" int
  | QuantizationPerChannel "32 word list" "int list" int
  | QuantizationBlockWise

text \<open>\<open>users_\<close> and \<open>user_arg_inds_\<close> are paired; operations are named by their position.\<close>

record LiteRtTensorT =
  tensor_name :: string
  quantization :: Quantization
  tensor_type :: TensorType
  tensor_index :: nat
  weights :: "byte list"
  users :: "(nat \<times> nat) list"
  defining_op :: "(nat \<times> nat) option"

record LiteRtOpT =
  custom_options :: "byte list"
  tfl_option :: TflOptions
  tfl_op_code_ind :: int
  litert_op_code :: LiteRtOpCode
  custom_code :: string
  op_inputs :: "nat option list"
  op_outputs :: "nat option list"

record LiteRtSubgraphT =
  tensors :: "LiteRtTensorT list"
  ops :: "LiteRtOpT list"
  sg_inputs :: "nat option list"
  sg_outputs :: "nat option list"

type_synonym LiteRtModelT = "LiteRtSubgraphT list"

text \<open>The engine; the model pointer may be null.\<close>

record ShapeInferenceEngine =
  model_ptr :: "LiteRtModelT option"
  registry :: "LiteRtOpCode \<Rightarrow> OpShapeInferrer option"

section \<open>The registry\<close>

definition RegisterInferrer ::
  "LiteRtOpCode \<Rightarrow> OpShapeInferrer \<Rightarrow> ShapeInferenceEngine \<Rightarrow> ShapeInferenceEngine" where
  "RegisterInferrer op_code inferrer e = e\<lparr>registry := (registry e)(op_code := Some inferrer)\<rparr>"

definition standard_ops :: "(LiteRtOpCode \<times> OpShapeInferrer) list" where
  "standard_ops = [
     (kLiteRtOpCodeTflAbs, InferSimpleUnary),
     (kLiteRtOpCodeTflCeil, InferSimpleUnary),
     (kLiteRtOpCodeTflCos, InferSimpleUnary),
     (kLiteRtOpCodeTflDequantize, InferSimpleUnary),
     (kLiteRtOpCodeTflElu, InferSimpleUnary),
     (kLiteRtOpCodeTflExp, InferSimpleUnary),
     (kLiteRtOpCodeTflFloor, InferSimpleUnary),
     (kLiteRtOpCodeTflGelu, InferSimpleUnary),
     (kLiteRtOpCodeTflHardSwish, InferSimpleUnary),
     (kLiteRtOpCodeTflLeakyRelu, InferSimpleUnary),
     (kLiteRtOpCodeTflLog, InferSimpleUnary),
     (kLiteRtOpCodeTflLogicalNot, InferSimpleUnary),
     (kLiteRtOpCodeTflLogistic, InferSimpleUnary),
     (kLiteRtOpCodeTflNeg, InferSimpleUnary),
     (kLiteRtOpCodeTflQuantize, InferSimpleUnary),
     (kLiteRtOpCodeTflRelu, InferSimpleUnary),
     (kLiteRtOpCodeTflRelu0To1, InferSimpleUnary),
     (kLiteRtOpCodeTflRelu6, InferSimpleUnary),
     (kLiteRtOpCodeTflReluN1To1, InferSimpleUnary),
     (kLiteRtOpCodeTflRound, InferSimpleUnary),
     (kLiteRtOpCodeTflRsqrt, InferSimpleUnary),
     (kLiteRtOpCodeTflSign, InferSimpleUnary),
     (kLiteRtOpCodeTflSin, InferSimpleUnary),
     (kLiteRtOpCodeTflSoftmax, InferSimpleUnary),
     (kLiteRtOpCodeTflSqrt, InferSimpleUnary),
     (kLiteRtOpCodeTflSquare, InferSimpleUnary),
     (kLiteRtOpCodeTflTanh, InferSimpleUnary),
     (kLiteRtOpCodeTflEqual, InferSimpleBinary),
     (kLiteRtOpCodeTflFloorDiv, InferSimpleBinary),
     (kLiteRtOpCodeTflGreater, InferSimpleBinary),
     (kLiteRtOpCodeTflGreaterEqual, InferSimpleBinary),
     (kLiteRtOpCodeTflLess, InferSimpleBinary),
     (kLiteRtOpCodeTflLessEqual, InferSimpleBinary),
     (kLiteRtOpCodeTflLogicalAnd, InferSimpleBinary),
     (kLiteRtOpCodeTflLogicalOr, InferSimpleBinary),
     (kLiteRtOpCodeTflMaximum, InferSimpleBinary),
     (kLiteRtOpCodeTflMinimum, InferSimpleBinary),
     (kLiteRtOpCodeTflNotEqual, InferSimpleBinary),
     (kLiteRtOpCodeTflPow, InferSimpleBinary),
     (kLiteRtOpCodeTflPrelu, InferSimpleBinary),
     (kLiteRtOpCodeTflSquaredDifference, InferSimpleBinary),
     (kLiteRtOpCodeTflAdd, InferSimpleBinary),
     (kLiteRtOpCodeTflArgMax, InferArgMinMax),
     (kLiteRtOpCodeTflArgMin, InferArgMinMax),
     (kLiteRtOpCodeTflAveragePool2d, InferPool2D),
     (kLiteRtOpCodeTflBatchMatmul, InferBatchMatmul),
     (kLiteRtOpCodeTflBroadcastTo, InferBroadcastTo),
     (kLiteRtOpCodeTflCast, InferSimpleUnary),
     (kLiteRtOpCodeTflConcatenation, InferConcatenation),
     (kLiteRtOpCodeTflConv2d, InferConv2D),
     (kLiteRtOpCodeTflConv3d, InferConv3D),
     (kLiteRtOpCodeTflConv3dTranspose, InferConv3DTranspose),
     (kLiteRtOpCodeTflDepthToSpace, InferDepthToSpace),
     (kLiteRtOpCodeTflDepthwiseConv2d, InferDepthwiseConv2D),
     (kLiteRtOpCodeTflDiv, InferSimpleBinary),
     (kLiteRtOpCodeTflDynamicUpdateSlice, InferDynamicUpdateSlice),
     (kLiteRtOpCodeTflEmbeddingLookup, InferEmbeddingLookup),
     (kLiteRtOpCodeTflFullyConnected, InferFullyConnected),
     (kLiteRtOpCodeTflGather, InferGather),
     (kLiteRtOpCodeTflGatherNd, InferGatherNd),
     (kLiteRtOpCodeTflL2Pool2d, InferPool2D),
     (kLiteRtOpCodeTflMaxPool2d, InferPool2D),
     (kLiteRtOpCodeTflMean, InferReduce),
     (kLiteRtOpCodeTflMirrorPad, InferMirrorPad),
     (kLiteRtOpCodeTflMul, InferSimpleBinary),
     (kLiteRtOpCodeTflPack, InferPack),
     (kLiteRtOpCodeTflPad, InferPad),
     (kLiteRtOpCodeTflPadv2, InferPadv2),
     (kLiteRtOpCodeTflReduceAll, InferReduce),
     (kLiteRtOpCodeTflReduceAny, InferReduce),
     (kLiteRtOpCodeTflReduceMax, InferReduce),
     (kLiteRtOpCodeTflReduceMin, InferReduce),
     (kLiteRtOpCodeTflSum, InferReduce),
     (kLiteRtOpCodeTflReshape, InferReshape),
     (kLiteRtOpCodeTflResizeBilinear, InferResizeBilinear),
     (kLiteRtOpCodeTflResizeNearestNeighbor, InferResizeNearestNeighbor),
     (kLiteRtOpCodeTflSelect, InferSelect),
     (kLiteRtOpCodeTflSelectV2, InferSelect),
     (kLiteRtOpCodeTflSlice, InferSlice),
     (kLiteRtOpCodeTflSpaceToDepth, InferSpaceToDepth),
     (kLiteRtOpCodeTflSub, InferSimpleBinary),
     (kLiteRtOpCodeTflTranspose, InferTranspose),
     (kLiteRtOpCodeTflTransposeConv, InferTransposeConv),
     (kLiteRtOpCodeTflUnpack, InferUnpack),
     (kLiteRtOpCodeTflCumsum, InferSimpleUnary),
     (kLiteRtOpCodeTflL2Normalization, InferSimpleUnary),
     (kLiteRtOpCodeTflReverseV2, InferSimpleUnary),
     (kLiteRtOpCodeTflTopkV2, InferTopKV2)]"

definition RegisterStandardOps :: "ShapeInferenceEngine \<Rightarrow> ShapeInferenceEngine" where
  "RegisterStandardOps e = foldl (\<lambda>e (op_code, inferrer). RegisterInferrer op_code inferrer e) e standard_ops"

definition new_engine :: "LiteRtModelT option \<Rightarrow> ShapeInferenceEngine" where
  "new_engine m = RegisterStandardOps \<lparr>model_ptr = m, registry = \<lambda>_. None\<rparr>"

section \<open>Inference of one operation\<close>

definition view_tensor :: "LiteRtTensorT \<Rightarrow> tensor_view" where
  "view_tensor t = \<lparr>Type = tensor_type t, Buffer = weights t\<rparr>"

definition view_op :: "LiteRtTensorT list \<Rightarrow> LiteRtOpT \<Rightarrow> op_view" where
  "view_op ts op =
     \<lparr>options = tfl_option op,
      Inputs = map (\<lambda>p. Option.bind p (\<lambda>i. map_option view_tensor (at ts i))) (op_inputs op),
      NumOutputs = length (op_outputs op)\<rparr>"

text \<open>\<open>InferOpShapes\<close> with given input shapes, a function of the operation alone.\<close>

definition InferOpShapes_given ::
  "(LiteRtOpCode \<Rightarrow> OpShapeInferrer option) \<Rightarrow> LiteRtTensorT list \<Rightarrow> LiteRtOpT \<Rightarrow>
   Dims list \<Rightarrow> Dims list \<Rightarrow> inferred" where
  "InferOpShapes_given reg ts op input_shapes output_shapes =
     (case reg (litert_op_code op) of
        None \<Rightarrow> Some (kLiteRtStatusErrorUnsupportedOpShapeInferer, output_shapes)
      | Some inferrer \<Rightarrow> inferrer (view_op ts op) input_shapes output_shapes)"

text \<open>The shapes of the inputs: none for a null tensor, an error for an unranked one.\<close>

definition collect_shape :: "LiteRtTensorT list \<Rightarrow> nat option \<Rightarrow> Dims list \<Rightarrow> Dims list flow option" where
  "collect_shape ts p input_shapes =
     (case p of
        None \<Rightarrow> Some (Next (input_shapes @ [[]]))
      | Some i \<Rightarrow> do {
          t \<leftarrow> at ts i;
          (case tensor_type t of
             RankedTensorType _ shape \<Rightarrow> Some (Next (input_shapes @ [shape]))
           | _ \<Rightarrow> Some (Return kLiteRtStatusErrorUnsupported)) })"

definition validate_output :: "LiteRtTensorT \<Rightarrow> Dims \<Rightarrow> bool" where
  "validate_output t shape =
     (case tensor_type t of
        RankedTensorType _ existing_shape \<Rightarrow>
          length existing_shape = length shape \<and>
          list_all2 (\<lambda>e d. e = - 1 \<or> d = - 1 \<or> e = d) existing_shape shape
      | _ \<Rightarrow> True)"

definition constant_conflict :: "LiteRtTensorT \<Rightarrow> Dims \<Rightarrow> bool" where
  "constant_conflict t shape =
     (length (weights t) > 0 \<and>
      (case tensor_type t of RankedTensorType _ existing_shape \<Rightarrow> existing_shape \<noteq> shape | _ \<Rightarrow> False))"

definition element_type_of :: "TensorType \<Rightarrow> LiteRtElementType" where
  "element_type_of ty =
     (case ty of
        RankedTensorType element_type _ \<Rightarrow> element_type
      | UnrankedTensorType element_type \<Rightarrow> element_type
      | OtherTensorType \<Rightarrow> kLiteRtElementTypeNone)"

text \<open>\<open>SetType(MakeRankedTensorType(element_type, shape))\<close> unless the element type is unknown.\<close>

definition set_shape :: "LiteRtTensorT \<Rightarrow> Dims \<Rightarrow> LiteRtTensorT option" where
  "set_shape t shape =
     (if element_type_of (tensor_type t) \<noteq> kLiteRtElementTypeNone then do {
        ty \<leftarrow> MakeRankedTensorType (element_type_of (tensor_type t)) shape;
        Some (t\<lparr>tensor_type := ty\<rparr>) }
      else Some t)"

definition apply_output ::
  "bool \<Rightarrow> nat option \<times> Dims \<Rightarrow> LiteRtTensorT list \<Rightarrow> LiteRtTensorT list flow option" where
  "apply_output validation_only = (\<lambda>(p, shape) ts.
     case p of
       None \<Rightarrow> Some (Next ts)
     | Some i \<Rightarrow> do {
         t \<leftarrow> at ts i;
         (if validation_only then
            if validate_output t shape then Some (Next ts)
            else Some (Return kLiteRtStatusErrorShapeInferenceFailed)
          else if constant_conflict t shape then Some (Return kLiteRtStatusErrorShapeInferenceFailed)
          else do { t' \<leftarrow> set_shape t shape; Some (Next (ts[i := t'])) }) })"

text \<open>
  The tensors updated before an output is rejected stay updated, so the loop keeps its state
  beside the status.
\<close>

fun apply_outputs ::
  "bool \<Rightarrow> (nat option \<times> Dims) list \<Rightarrow> LiteRtTensorT list \<Rightarrow> (LiteRtStatus \<times> LiteRtTensorT list) option" where
  "apply_outputs validation_only [] ts = Some (kLiteRtStatusOk, ts)"
| "apply_outputs validation_only (out # outs) ts =
     (case apply_output validation_only out ts of
        None \<Rightarrow> None
      | Some (Return st) \<Rightarrow> Some (st, ts)
      | Some (Next ts') \<Rightarrow> apply_outputs validation_only outs ts')"

definition InferOpShapes ::
  "(LiteRtOpCode \<Rightarrow> OpShapeInferrer option) \<Rightarrow> bool \<Rightarrow> LiteRtOpT \<Rightarrow> LiteRtTensorT list \<Rightarrow>
   (LiteRtStatus \<times> LiteRtTensorT list) option" where
  "InferOpShapes reg validation_only op ts =
     (case loop (collect_shape ts) (op_inputs op) [] of
        None \<Rightarrow> None
      | Some (Return st) \<Rightarrow> Some (st, ts)
      | Some (Next input_shapes) \<Rightarrow> do {
          (status, output_shapes) \<leftarrow>
            InferOpShapes_given reg ts op input_shapes (replicate (length (op_outputs op)) []);
          (if status \<noteq> kLiteRtStatusOk then Some (status, ts)
           else apply_outputs validation_only (zip (op_outputs op) output_shapes) ts) })"

section \<open>Inference of a subgraph and of the model\<close>

text \<open>The third component is \<open>failing_op\<close>, the position of the operation that failed.\<close>

fun infer_ops ::
  "(LiteRtOpCode \<Rightarrow> OpShapeInferrer option) \<Rightarrow> bool \<Rightarrow> nat \<Rightarrow> LiteRtOpT list \<Rightarrow> LiteRtTensorT list \<Rightarrow>
   (LiteRtStatus \<times> LiteRtTensorT list \<times> nat option) option" where
  "infer_ops reg validation_only k [] ts = Some (kLiteRtStatusOk, ts, None)"
| "infer_ops reg validation_only k (op # ops') ts = do {
     (status, ts') \<leftarrow> InferOpShapes reg validation_only op ts;
     (if status \<noteq> kLiteRtStatusOk then Some (status, ts', Some k)
      else infer_ops reg validation_only (Suc k) ops' ts') }"

definition InferSubgraphShapes ::
  "(LiteRtOpCode \<Rightarrow> OpShapeInferrer option) \<Rightarrow> bool \<Rightarrow> LiteRtSubgraphT \<Rightarrow>
   (LiteRtStatus \<times> LiteRtSubgraphT \<times> nat option) option" where
  "InferSubgraphShapes reg validation_only sg = do {
     (status, ts, failing_op) \<leftarrow> infer_ops reg validation_only 0 (ops sg) (tensors sg);
     Some (status, sg\<lparr>tensors := ts\<rparr>, failing_op) }"

text \<open>The subgraphs after the one that fails are left as they are.\<close>

fun infer_subgraphs ::
  "(LiteRtOpCode \<Rightarrow> OpShapeInferrer option) \<Rightarrow> bool \<Rightarrow> nat \<Rightarrow> LiteRtModelT \<Rightarrow>
   (LiteRtStatus \<times> LiteRtModelT \<times> (nat \<times> nat) option) option" where
  "infer_subgraphs reg validation_only k [] = Some (kLiteRtStatusOk, [], None)"
| "infer_subgraphs reg validation_only k (sg # sgs) = do {
     (status, sg', failing_op) \<leftarrow> InferSubgraphShapes reg validation_only sg;
     (if status \<noteq> kLiteRtStatusOk then Some (status, sg' # sgs, map_option (Pair k) failing_op)
      else do {
        (status', sgs', failing_op') \<leftarrow> infer_subgraphs reg validation_only (Suc k) sgs;
        Some (status', sg' # sgs', failing_op') }) }"

definition InferShapes ::
  "bool \<Rightarrow> ShapeInferenceEngine \<Rightarrow> (LiteRtStatus \<times> ShapeInferenceEngine \<times> (nat \<times> nat) option) option" where
  "InferShapes validation_only e =
     (case model_ptr e of
        None \<Rightarrow> Some (kLiteRtStatusErrorShapeInferenceFailed, e, None)
      | Some m \<Rightarrow> do {
          (status, m', failing_op) \<leftarrow> infer_subgraphs (registry e) validation_only 0 m;
          Some (status, e\<lparr>model_ptr := Some m'\<rparr>, failing_op) })"

section \<open>Specialisation of a subgraph\<close>

text \<open>
  \<open>CloneTo\<close> and \<open>MakeClone\<close>: a fresh tensor or operation with the contents of the source and no
  links.  The per-channel parameters and, between buffer managers, the weights are copied; within
  one manager the buffer is shared, which is the same bytes.  The custom code of an operation is not
  copied.
\<close>

definition clone_tensor :: "LiteRtTensorT \<Rightarrow> LiteRtTensorT" where
  "clone_tensor src =
     \<lparr>tensor_name = tensor_name src, quantization = quantization src, tensor_type = tensor_type src,
      tensor_index = tensor_index src, weights = weights src, users = [], defining_op = None\<rparr>"

definition clone_op :: "LiteRtOpT \<Rightarrow> LiteRtOpT" where
  "clone_op src =
     \<lparr>custom_options = custom_options src, tfl_option = tfl_option src,
      tfl_op_code_ind = tfl_op_code_ind src, litert_op_code = litert_op_code src,
      custom_code = [], op_inputs = [], op_outputs = []\<rparr>"

text \<open>\<open>AttachInput\<close> and \<open>AttachOutput\<close> of the operation at position \<open>k\<close>; a null tensor is dereferenced.\<close>

definition AttachInput ::
  "nat \<Rightarrow> nat option \<Rightarrow> LiteRtTensorT list \<times> LiteRtOpT \<Rightarrow> (LiteRtTensorT list \<times> LiteRtOpT) option" where
  "AttachInput k p = (\<lambda>(ts, op). do {
     i \<leftarrow> p;
     t \<leftarrow> at ts i;
     Some (ts[i := t\<lparr>users := users t @ [(k, length (op_inputs op))]\<rparr>],
           op\<lparr>op_inputs := op_inputs op @ [Some i]\<rparr>) })"

definition AttachOutput ::
  "nat \<Rightarrow> nat option \<Rightarrow> LiteRtTensorT list \<times> LiteRtOpT \<Rightarrow> (LiteRtTensorT list \<times> LiteRtOpT) option" where
  "AttachOutput k p = (\<lambda>(ts, op). do {
     i \<leftarrow> p;
     t \<leftarrow> at ts i;
     Some (ts[i := t\<lparr>defining_op := Some (k, length (op_outputs op))\<rparr>],
           op\<lparr>op_outputs := op_outputs op @ [Some i]\<rparr>) })"

text \<open>\<open>tensor_map[p]\<close>: the clone of a tensor of the subgraph, null for any other pointer.\<close>

definition tensor_map :: "LiteRtTensorT list \<Rightarrow> nat option \<Rightarrow> nat option" where
  "tensor_map ts p = (case p of None \<Rightarrow> None | Some i \<Rightarrow> if i < length ts then Some i else None)"

fun clone_ops ::
  "LiteRtTensorT list \<Rightarrow> nat \<Rightarrow> LiteRtOpT list \<Rightarrow> LiteRtTensorT list \<times> LiteRtOpT list \<Rightarrow>
   (LiteRtTensorT list \<times> LiteRtOpT list) option" where
  "clone_ops src k [] d = Some d"
| "clone_ops src k (op # ops') (ts, new_ops) = do {
     (ts1, op1) \<leftarrow> foldM (AttachInput k) (map (tensor_map src) (op_inputs op)) (ts, clone_op op);
     (ts2, op2) \<leftarrow> foldM (AttachOutput k) (map (tensor_map src) (op_outputs op)) (ts1, op1);
     clone_ops src (Suc k) ops' (ts2, new_ops @ [op2]) }"

definition clone_subgraph :: "LiteRtSubgraphT \<Rightarrow> LiteRtSubgraphT option" where
  "clone_subgraph sg = do {
     (ts, new_ops) \<leftarrow> clone_ops (tensors sg) 0 (ops sg) (map clone_tensor (tensors sg), []);
     Some \<lparr>tensors = ts, ops = new_ops,
           sg_inputs = map (tensor_map (tensors sg)) (sg_inputs sg),
           sg_outputs = map (tensor_map (tensors sg)) (sg_outputs sg)\<rparr> }"

definition set_input_shape ::
  "nat option \<times> Dims \<Rightarrow> LiteRtTensorT list \<Rightarrow> LiteRtTensorT list option" where
  "set_input_shape = (\<lambda>(p, shape) ts. do {
     i \<leftarrow> p;
     t \<leftarrow> at ts i;
     t' \<leftarrow> set_shape t shape;
     Some (ts[i := t']) })"

text \<open>
  The arguments may be null pointers; the last component of the result is what is written to
  \<open>*new_subgraph\<close>, the position of the new subgraph.
\<close>

definition SpecializeSubgraph ::
  "nat option \<Rightarrow> Dims list \<Rightarrow> bool \<Rightarrow> ShapeInferenceEngine \<Rightarrow>
   (LiteRtStatus \<times> ShapeInferenceEngine \<times> nat option) option" where
  "SpecializeSubgraph subgraph input_shapes new_subgraph_given e =
     (case (model_ptr e, subgraph) of
        (Some m, Some k) \<Rightarrow>
          if \<not> new_subgraph_given then Some (kLiteRtStatusErrorShapeInferenceFailed, e, None)
          else do {
            sg \<leftarrow> at m k;
            (if length input_shapes \<noteq> length (sg_inputs sg)
             then Some (kLiteRtStatusErrorShapeInferenceFailed, e, None)
             else do {
               dest \<leftarrow> clone_subgraph sg;
               ts \<leftarrow> foldM set_input_shape (zip (sg_inputs dest) input_shapes) (tensors dest);
               (status, dest', _) \<leftarrow> InferSubgraphShapes (registry e) False (dest\<lparr>tensors := ts\<rparr>);
               Some (status, e\<lparr>model_ptr := Some (m @ [dest'])\<rparr>, Some (length m)) }) }
      | _ \<Rightarrow> Some (kLiteRtStatusErrorShapeInferenceFailed, e, None))"

end
