(* ===== verification/EngineCorrect.thy ===== *)
theory EngineCorrect
  imports ShapeEngine
begin

text \<open>
  What the shape inference engine does to a model: validation changes nothing, inference changes only
  the shapes of the tensors that operations define, a subgraph in single-assignment form validates
  after it has been inferred, and a specialised subgraph is a relinked copy.
\<close>

section \<open>Relations that every step of the engine respects\<close>

text \<open>
  A relation between the tensors before and after, kept by every update of an output, holds across
  operations and subgraphs.  \<open>P\<close> are the pointers that may be outputs.
\<close>

locale engine_rel =
  fixes validation_only :: bool
    and P :: "nat option set"
    and rel :: "LiteRtTensorT list \<Rightarrow> LiteRtTensorT list \<Rightarrow> bool"
  assumes rel_refl: "rel ts ts"
    and rel_trans: "rel ts ts' \<Longrightarrow> rel ts' ts'' \<Longrightarrow> rel ts ts''"
    and rel_step: "p \<in> P \<Longrightarrow> apply_output validation_only (p, shape) ts = Some (Next ts') \<Longrightarrow> rel ts ts'"
begin

lemma apply_outputs_rel:
  "apply_outputs validation_only outs ts = Some (st, ts') \<Longrightarrow> fst ` set outs \<subseteq> P \<Longrightarrow> rel ts ts'"
proof (induction outs arbitrary: ts)
  case Nil
  then show ?case by (simp add: rel_refl)
next
  case (Cons out outs)
  obtain p shape where out: "out = (p, shape)" by (cases out)
  show ?case
    using Cons.prems Cons.IH rel_step [of p shape ts] rel_refl rel_trans
    by (fastforce simp: out split: option.splits flow.splits)
qed

lemma InferOpShapes_rel:
  assumes "InferOpShapes reg validation_only op ts = Some (st, ts')" and "set (op_outputs op) \<subseteq> P"
  shows "rel ts ts'"
proof -
  have "fst ` set (zip (op_outputs op) shapes) \<subseteq> P" for shapes :: "Dims list"
    using assms(2) by (auto dest: set_zip_leftD)
  then show ?thesis
    using assms(1) apply_outputs_rel rel_refl
    by (fastforce simp: InferOpShapes_def split: option.splits flow.splits bind_splits if_splits)
qed

lemma infer_ops_rel:
  "infer_ops reg validation_only k ops' ts = Some (st, ts', f) \<Longrightarrow> \<forall>op\<in>set ops'. set (op_outputs op) \<subseteq> P \<Longrightarrow>
   rel ts ts'"
proof (induction ops' arbitrary: k ts)
  case Nil
  then show ?case by (simp add: rel_refl)
next
  case (Cons op ops')
  then obtain st1 ts1 where 1: "InferOpShapes reg validation_only op ts = Some (st1, ts1)"
    by (auto split: bind_splits)
  with Cons.prems have "rel ts ts1" by (intro InferOpShapes_rel) auto
  then show ?case
    using Cons.prems Cons.IH [of "Suc k" ts1] 1 rel_trans by (auto split: if_splits)
qed

end

section \<open>Validation\<close>

interpretation validation: engine_rel True UNIV "(=)"
  by unfold_locales (auto simp: apply_output_def split: option.splits bind_splits if_splits)

lemma InferSubgraphShapes_validation:
  "InferSubgraphShapes reg True sg = Some (st, sg', f) \<Longrightarrow> sg' = sg"
  by (auto simp: InferSubgraphShapes_def dest!: validation.infer_ops_rel split: bind_splits)

lemma infer_subgraphs_validation: "infer_subgraphs reg True k m = Some (st, m', f) \<Longrightarrow> m' = m"
proof (induction m arbitrary: k m' st f)
  case Nil
  then show ?case by simp
next
  case (Cons sg m)
  then show ?case
    by (auto dest!: InferSubgraphShapes_validation split: bind_splits if_splits)
qed

text \<open>Validation never changes the model, whether it succeeds or fails.
\<close>

theorem InferShapes_validation_pure:
  assumes "InferShapes True e = Some (st, e', failing_op)"
  shows "e' = e"
  using assms
  by (cases "model_ptr e")
    (auto simp: InferShapes_def dest!: infer_subgraphs_validation split: bind_splits)

section \<open>What inference may change\<close>

fun is_ranked :: "TensorType \<Rightarrow> bool" where
  "is_ranked (RankedTensorType _ _) = True"
| "is_ranked _ = False"

text \<open>
  A tensor after inference: only its type may differ, with the element type kept; the type of a
  ranked constant is kept as it is.
\<close>

definition retyped :: "LiteRtTensorT \<Rightarrow> LiteRtTensorT \<Rightarrow> bool" where
  "retyped t t' \<longleftrightarrow>
     t' = t\<lparr>tensor_type := tensor_type t'\<rparr> \<and>
     element_type_of (tensor_type t') = element_type_of (tensor_type t) \<and>
     (weights t \<noteq> [] \<and> is_ranked (tensor_type t) \<longrightarrow> tensor_type t' = tensor_type t) \<and>
     (is_ranked (tensor_type t) \<longrightarrow> is_ranked (tensor_type t'))"

lemma retyped_refl: "retyped t t"
  by (simp add: retyped_def)

lemma retyped_trans: "retyped a b \<Longrightarrow> retyped b c \<Longrightarrow> retyped a c"
  unfolding retyped_def by (cases a; cases b; cases c) auto

lemma set_shape_retyped:
  assumes "\<not> constant_conflict t shape" and "set_shape t shape = Some t'"
  shows "retyped t t'"
  using assms
  by (cases "tensor_type t")
    (auto simp: retyped_def set_shape_def MakeRankedTensorType_def constant_conflict_def element_type_of_def
      split: if_splits)

interpretation retyping: engine_rel False UNIV "list_all2 retyped"
proof unfold_locales
  show "list_all2 retyped ts ts" for ts by (rule list_all2_refl) (rule retyped_refl)
  show "list_all2 retyped ts ts' \<Longrightarrow> list_all2 retyped ts' ts'' \<Longrightarrow> list_all2 retyped ts ts''" for ts ts' ts''
    by (rule list_all2_trans) (rule retyped_trans)
  show "list_all2 retyped ts ts'" if "apply_output False (p, shape) ts = Some (Next ts')" for p shape ts ts'
    using that
    by (auto simp: apply_output_def at_Some_iff list_all2_conv_all_nth nth_list_update retyped_refl
        intro: set_shape_retyped split: option.splits bind_splits if_splits)
qed

text \<open>The tensors outside \<open>P\<close> stay as they are.\<close>

definition same_outside :: "nat option set \<Rightarrow> LiteRtTensorT list \<Rightarrow> LiteRtTensorT list \<Rightarrow> bool" where
  "same_outside P ts ts' \<longleftrightarrow> length ts = length ts' \<and> (\<forall>i. Some i \<notin> P \<longrightarrow> ts ! i = ts' ! i)"

interpretation frame: engine_rel v P "same_outside P" for v P
  by unfold_locales
    (auto simp: same_outside_def apply_output_def at_Some_iff nth_list_update
      split: option.splits bind_splits if_splits)

lemma InferSubgraphShapes_keep:
  assumes "InferSubgraphShapes reg False sg = Some (st, sg', failing_op)"
  shows "ops sg' = ops sg \<and> sg_inputs sg' = sg_inputs sg \<and> sg_outputs sg' = sg_outputs sg \<and>
    list_all2 retyped (tensors sg) (tensors sg') \<and>
    same_outside (\<Union>op\<in>set (ops sg). set (op_outputs op)) (tensors sg) (tensors sg')"
proof -
  obtain ts where i: "infer_ops reg False 0 (ops sg) (tensors sg) = Some (st, ts, failing_op)"
    and sg': "sg' = sg\<lparr>tensors := ts\<rparr>"
    using assms by (auto simp: InferSubgraphShapes_def split: bind_splits)
  from i have "list_all2 retyped (tensors sg) ts" by (rule retyping.infer_ops_rel) simp
  moreover have "same_outside (\<Union>op\<in>set (ops sg). set (op_outputs op)) (tensors sg) ts"
    using i by (rule frame.infer_ops_rel) blast
  ultimately show ?thesis by (simp add: sg')
qed


text \<open>Inference, failed or not, only changes the types of tensors that some operation of the
  subgraph defines: it keeps their element type, keeps ranked tensors ranked, and never touches the
  type of a ranked constant; operations, inputs and outputs of the subgraph stay.
\<close>

theorem InferSubgraphShapes_keeps:
  assumes "InferSubgraphShapes reg False sg = Some (st, sg', failing_op)"
  shows "ops sg' = ops sg \<and> sg_inputs sg' = sg_inputs sg \<and> sg_outputs sg' = sg_outputs sg \<and>
    list_all2 retyped (tensors sg) (tensors sg') \<and>
    same_outside (\<Union>op\<in>set (ops sg). set (op_outputs op)) (tensors sg) (tensors sg')"
  using assms by (rule InferSubgraphShapes_keep)

section \<open>Inference followed by validation\<close>

text \<open>What an operation sees of its inputs.\<close>

definition sees_same :: "nat option list \<Rightarrow> LiteRtTensorT list \<Rightarrow> LiteRtTensorT list \<Rightarrow> bool" where
  "sees_same ps ts ts' \<longleftrightarrow> length ts = length ts' \<and> (\<forall>i. Some i \<in> set ps \<longrightarrow> ts ! i = ts' ! i)"

lemma view_op_same: "sees_same (op_inputs op) ts ts' \<Longrightarrow> view_op ts op = view_op ts' op"
  by (auto simp: sees_same_def view_op_def at_def split: bind_split)

lemma collect_same:
  "sees_same ps ts ts' \<Longrightarrow> loop (collect_shape ts) ps shapes = loop (collect_shape ts') ps shapes"
proof (induction ps arbitrary: shapes)
  case Nil
  then show ?case by simp
next
  case (Cons p ps)
  then have "sees_same ps ts ts'" "collect_shape ts p shapes = collect_shape ts' p shapes"
    by (auto simp: sees_same_def collect_shape_def at_def split: option.splits)
  with Cons.IH show ?case by (auto split: option.splits flow.splits)
qed

definition outputs_known :: "nat option list \<Rightarrow> LiteRtTensorT list \<Rightarrow> bool" where
  "outputs_known ps ts \<longleftrightarrow>
     (\<forall>i<length ts. Some i \<in> set ps \<longrightarrow> element_type_of (tensor_type (ts ! i)) \<noteq> kLiteRtElementTypeNone)"

definition distinct_pointers :: "nat option list \<Rightarrow> bool" where
  "distinct_pointers ps \<longleftrightarrow> distinct (filter (\<lambda>p. p \<noteq> None) ps)"

lemma distinct_pointers_Cons:
  "distinct_pointers (p # ps) \<longleftrightarrow> distinct_pointers ps \<and> (p = None \<or> p \<notin> set ps)"
  by (auto simp: distinct_pointers_def)

lemma distinct_pointers_Nil [simp]: "distinct_pointers []"
  by (simp add: distinct_pointers_def)

lemma set_shape_ranked:
  "set_shape t shape = Some t' \<Longrightarrow> element_type_of (tensor_type t) \<noteq> kLiteRtElementTypeNone \<Longrightarrow>
   tensor_type t' = RankedTensorType (element_type_of (tensor_type t)) shape"
  by (auto simp: set_shape_def MakeRankedTensorType_def split: if_splits)

lemma outputs_known_retyped: "list_all2 retyped ts ts' \<Longrightarrow> outputs_known ps ts \<Longrightarrow> outputs_known ps ts'"
  by (auto simp: outputs_known_def list_all2_conv_all_nth retyped_def)

text \<open>After its outputs have been written, an operation's output tensors have the inferred shapes.\<close>

lemma apply_outputs_written:
  assumes "apply_outputs False outs ts = Some (kLiteRtStatusOk, ts')" and "distinct_pointers (map fst outs)"
    and "outputs_known (map fst outs) ts" and "(Some i, shape) \<in> set outs"
  shows "i < length ts' \<and> (\<exists>element_type. tensor_type (ts' ! i) = RankedTensorType element_type shape)"
  using assms
proof (induction outs arbitrary: ts)
  case Nil
  then show ?case by simp
next
  case (Cons out outs)
  obtain p shape1 where out: "out = (p, shape1)" by (cases out)
  from Cons.prems(1) obtain ts1 where 1: "apply_output False (p, shape1) ts = Some (Next ts1)"
    and rest: "apply_outputs False outs ts1 = Some (kLiteRtStatusOk, ts')"
    by (auto simp: out apply_output_def split: option.splits bind_splits flow.splits if_splits)
  have known: "outputs_known (map fst outs) ts1"
    by (rule outputs_known_retyped [OF retyping.rel_step [OF UNIV_I 1]])
      (use Cons.prems(3) in \<open>auto simp: outputs_known_def\<close>)
  show ?case
  proof (cases "(Some i, shape) \<in> set outs")
    case True
    then show ?thesis using Cons.IH [OF rest] Cons.prems(2) known by (simp add: distinct_pointers_Cons)
  next
    case False
    then have p: "p = Some i" "shape1 = shape" using Cons.prems(4) by (auto simp: out)
    with Cons.prems(2) have "Some i \<notin> set (map fst outs)" by (simp add: out distinct_pointers_Cons)
    moreover have "same_outside (set (map fst outs)) ts1 ts'"
      using rest by (rule frame.apply_outputs_rel) simp
    ultimately have "length ts1 = length ts'" "ts' ! i = ts1 ! i" by (auto simp: same_outside_def)
    moreover have "i < length ts1 \<and> (\<exists>element_type. tensor_type (ts1 ! i) = RankedTensorType element_type shape)"
      using 1 Cons.prems(3)
      by (auto simp: p out apply_output_def at_Some_iff outputs_known_def bind_eq_Some_conv dest!: set_shape_ranked split: if_splits)
    ultimately show ?thesis by simp
  qed
qed

lemma apply_outputs_validate:
  assumes "\<forall>(p, shape) \<in> set outs. \<forall>i. p = Some i \<longrightarrow>
      i < length ts \<and> (\<exists>element_type. tensor_type (ts ! i) = RankedTensorType element_type shape)"
  shows "apply_outputs True outs ts = Some (kLiteRtStatusOk, ts)"
  using assms
proof (induction outs)
  case Nil
  then show ?case by simp
next
  case (Cons out outs)
  obtain p shape where out: "out = (p, shape)" by (cases out)
  have "list_all2 (\<lambda>e d. e = - 1 \<or> d = - 1 \<or> e = d) shape shape" by (simp add: list_all2_refl)
  then have "apply_output True out ts = Some (Next ts)"
    using Cons.prems by (cases p) (auto simp: out apply_output_def at_def validate_output_def)
  with Cons show ?case by simp
qed

text \<open>
  Operations in single-assignment order: each has distinct outputs, which no operation before it and
  not the operation itself reads, and which no later one defines again.
\<close>

definition defined :: "LiteRtOpT list \<Rightarrow> nat option set" where
  "defined ops' = (\<Union>op\<in>set ops'. set (op_outputs op)) - {None}"

fun single_assignment :: "LiteRtOpT list \<Rightarrow> bool" where
  "single_assignment [] = True"
| "single_assignment (op # ops') \<longleftrightarrow>
     distinct_pointers (op_outputs op) \<and>
     set (op_inputs op) \<inter> defined (op # ops') = {} \<and>
     set (op_outputs op) \<inter> defined ops' = {} \<and>
     single_assignment ops'"

lemma distinct_pointers_zip: "distinct_pointers ps \<Longrightarrow> distinct_pointers (map fst (zip ps shapes))"
proof (induction ps arbitrary: shapes)
  case (Cons p ps)
  then show ?case by (cases shapes) (auto simp: distinct_pointers_Cons dest: set_zip_leftD)
qed simp

lemma collect_status: "loop (collect_shape ts) ps shapes = Some (Return st) \<Longrightarrow> st = kLiteRtStatusErrorUnsupported"
  by (drule loop_Return)
    (auto simp: collect_shape_def bind_eq_Some_conv split: option.splits TensorType.splits, metis TensorType.exhaust)

lemma InferOpShapes_OkE:
  assumes "InferOpShapes reg v op ts = Some (kLiteRtStatusOk, ts1)"
  obtains shapes outs where "loop (collect_shape ts) (op_inputs op) [] = Some (Next shapes)"
    and "InferOpShapes_given reg ts op shapes (replicate (length (op_outputs op)) []) = Some (kLiteRtStatusOk, outs)"
    and "apply_outputs v (zip (op_outputs op) outs) ts = Some (kLiteRtStatusOk, ts1)"
  using assms collect_status [of ts "op_inputs op" "[]"]
  by (cases "loop (collect_shape ts) (op_inputs op) []")
    (auto simp: InferOpShapes_def bind_eq_Some_conv split: flow.splits if_splits)

lemma InferOpShapes_revalidates:
  assumes "InferOpShapes reg False op ts = Some (kLiteRtStatusOk, ts1)"
    and dist: "distinct_pointers (op_outputs op)" and known: "outputs_known (op_outputs op) ts"
    and in_same: "sees_same (op_inputs op) ts ts'" and out_same: "sees_same (op_outputs op) ts1 ts'"
  shows "InferOpShapes reg True op ts' = Some (kLiteRtStatusOk, ts')"
proof -
  obtain shapes outs where shapes: "loop (collect_shape ts) (op_inputs op) [] = Some (Next shapes)"
    and outs: "InferOpShapes_given reg ts op shapes (replicate (length (op_outputs op)) []) = Some (kLiteRtStatusOk, outs)"
    and app: "apply_outputs False (zip (op_outputs op) outs) ts = Some (kLiteRtStatusOk, ts1)"
    by (rule InferOpShapes_OkE [OF assms(1)])
  have known': "outputs_known (map fst (zip (op_outputs op) outs)) ts"
    using known by (auto simp: outputs_known_def dest: set_zip_leftD)
  have "i < length ts' \<and> (\<exists>element_type. tensor_type (ts' ! i) = RankedTensorType element_type shape)"
    if "(Some i, shape) \<in> set (zip (op_outputs op) outs)" for i shape
    using apply_outputs_written [OF app distinct_pointers_zip [OF dist] known' that] out_same set_zip_leftD [OF that]
    by (simp add: sees_same_def)
  then have "apply_outputs True (zip (op_outputs op) outs) ts' = Some (kLiteRtStatusOk, ts')"
    by (intro apply_outputs_validate) auto
  moreover have "loop (collect_shape ts') (op_inputs op) [] = Some (Next shapes)"
    using shapes by (simp add: collect_same [OF in_same])
  moreover have "InferOpShapes_given reg ts' op shapes (replicate (length (op_outputs op)) []) =
      Some (kLiteRtStatusOk, outs)"
    using outs unfolding InferOpShapes_given_def view_op_same [OF in_same] .
  ultimately show ?thesis by (simp add: InferOpShapes_def)
qed

lemma infer_ops_revalidates:
  "infer_ops reg False k ops' ts = Some (kLiteRtStatusOk, ts', f) \<Longrightarrow> single_assignment ops' \<Longrightarrow>
   \<forall>op\<in>set ops'. outputs_known (op_outputs op) ts \<Longrightarrow>
   infer_ops reg True k ops' ts' = Some (kLiteRtStatusOk, ts', None)"
proof (induction ops' arbitrary: k ts)
  case Nil
  then show ?case by simp
next
  case (Cons op ops')
  obtain ts1 where 1: "InferOpShapes reg False op ts = Some (kLiteRtStatusOk, ts1)"
    and rest: "infer_ops reg False (Suc k) ops' ts1 = Some (kLiteRtStatusOk, ts', f)"
    using Cons.prems(1) by (auto simp: bind_eq_Some_conv split: if_splits)
  have "same_outside (\<Union>op\<in>set ops'. set (op_outputs op)) ts1 ts'"
    using rest by (rule frame.infer_ops_rel) blast
  moreover have "same_outside (set (op_outputs op)) ts ts1"
    using 1 by (rule frame.InferOpShapes_rel) simp
  moreover have "Some i \<notin> set (op_outputs op) \<and> Some i \<notin> (\<Union>op\<in>set ops'. set (op_outputs op))"
    if "Some i \<in> set (op_inputs op)" for i
    using Cons.prems(2) that by (auto simp: defined_def)
  moreover have "Some i \<notin> (\<Union>op\<in>set ops'. set (op_outputs op))" if "Some i \<in> set (op_outputs op)" for i
    using Cons.prems(2) that by (auto simp: defined_def)
  ultimately have same: "sees_same (op_inputs op) ts ts'" "sees_same (op_outputs op) ts1 ts'"
    unfolding sees_same_def same_outside_def by simp_all
  have "list_all2 retyped ts ts1" using 1 by (rule retyping.InferOpShapes_rel) simp
  with Cons.prems(3) have known: "\<forall>op\<in>set ops'. outputs_known (op_outputs op) ts1"
    by (auto intro: outputs_known_retyped)
  have "InferOpShapes reg True op ts' = Some (kLiteRtStatusOk, ts')"
    using Cons.prems(2,3) same by (intro InferOpShapes_revalidates [OF 1]) simp_all
  moreover have "infer_ops reg True (Suc k) ops' ts' = Some (kLiteRtStatusOk, ts', None)"
    using Cons.IH [OF rest] Cons.prems(2) known by simp
  ultimately show ?case by simp
qed

text \<open>C26: A subgraph in single-assignment form whose outputs have known element types validates right
  after a successful inference: inferring reaches a state that validation accepts.
\<close>

theorem InferSubgraphShapes_then_validates:
  assumes "InferSubgraphShapes reg False sg = Some (kLiteRtStatusOk, sg', failing_op)"
    and "single_assignment (ops sg)" and "\<forall>op\<in>set (ops sg). outputs_known (op_outputs op) (tensors sg)"
  shows "InferSubgraphShapes reg True sg' = Some (kLiteRtStatusOk, sg', None)"
proof -
  obtain ts where i: "infer_ops reg False 0 (ops sg) (tensors sg) = Some (kLiteRtStatusOk, ts, failing_op)"
    and sg': "sg' = sg\<lparr>tensors := ts\<rparr>"
    using assms(1) by (auto simp: InferSubgraphShapes_def bind_eq_Some_conv)
  show ?thesis
    using infer_ops_revalidates [OF i assms(2,3)] by (simp add: InferSubgraphShapes_def sg')
qed


section \<open>Specialisation\<close>

text \<open>A clone after linking: the data of its source, other links.\<close>

definition same_data :: "LiteRtTensorT \<Rightarrow> LiteRtTensorT \<Rightarrow> bool" where
  "same_data t t' \<longleftrightarrow>
     tensor_name t' = tensor_name t \<and> quantization t' = quantization t \<and> tensor_index t' = tensor_index t \<and>
     weights t' = weights t \<and> element_type_of (tensor_type t') = element_type_of (tensor_type t)"

lemma same_data_trans: "same_data a b \<Longrightarrow> same_data b c \<Longrightarrow> same_data a c"
  by (simp add: same_data_def)

lemma AttachInput_Some_iff:
  "AttachInput k p (ts, op) = Some r \<longleftrightarrow>
   (\<exists>i. p = Some i \<and> i < length ts \<and>
      r = (ts[i := (ts ! i)\<lparr>users := users (ts ! i) @ [(k, length (op_inputs op))]\<rparr>], op\<lparr>op_inputs := op_inputs op @ [p]\<rparr>))"
  by (auto simp: AttachInput_def bind_eq_Some_conv at_Some_iff)

lemma AttachOutput_Some_iff:
  "AttachOutput k p (ts, op) = Some r \<longleftrightarrow>
   (\<exists>i. p = Some i \<and> i < length ts \<and>
      r = (ts[i := (ts ! i)\<lparr>defining_op := Some (k, length (op_outputs op))\<rparr>], op\<lparr>op_outputs := op_outputs op @ [p]\<rparr>))"
  by (auto simp: AttachOutput_def bind_eq_Some_conv at_Some_iff)

text \<open>Linking does not change what a clone would copy.\<close>

definition linked :: "LiteRtTensorT list \<Rightarrow> LiteRtTensorT list \<Rightarrow> bool" where
  "linked ts ts' \<longleftrightarrow> map clone_tensor ts' = map clone_tensor ts"

lemma linked_refl: "linked ts ts"
  by (simp add: linked_def)

lemma linked_trans: "linked a b \<Longrightarrow> linked b c \<Longrightarrow> linked a c"
  by (simp add: linked_def)

lemma linked_update:
  "i < length ts \<Longrightarrow> linked ts (ts[i := (ts ! i)\<lparr>users := us\<rparr>])"
  "i < length ts \<Longrightarrow> linked ts (ts[i := (ts ! i)\<lparr>defining_op := d\<rparr>])"
  by (auto simp: linked_def list_eq_iff_nth_eq nth_list_update clone_tensor_def)

lemma attach_inputs:
  "foldM (AttachInput k) ps (ts, op) = Some (ts', op') \<Longrightarrow>
   linked ts ts' \<and> op' = op\<lparr>op_inputs := op_inputs op @ ps\<rparr> \<and> None \<notin> set ps"
proof (induction ps arbitrary: ts op)
  case Nil
  then show ?case by (simp add: linked_refl)
next
  case (Cons p ps)
  then obtain i where i: "p = Some i" "i < length ts"
    and rest: "foldM (AttachInput k) ps
      (ts[i := (ts ! i)\<lparr>users := users (ts ! i) @ [(k, length (op_inputs op))]\<rparr>], op\<lparr>op_inputs := op_inputs op @ [p]\<rparr>) = Some (ts', op')"
    by (auto simp: bind_eq_Some_conv AttachInput_Some_iff)
  have "linked ts (ts[i := (ts ! i)\<lparr>users := users (ts ! i) @ [(k, length (op_inputs op))]\<rparr>])"
    by (rule linked_update(1) [OF i(2)])
  with Cons.IH [OF rest] i show ?case by (auto intro: linked_trans)
qed

lemma attach_outputs:
  "foldM (AttachOutput k) ps (ts, op) = Some (ts', op') \<Longrightarrow>
   linked ts ts' \<and> op' = op\<lparr>op_outputs := op_outputs op @ ps\<rparr> \<and> None \<notin> set ps"
proof (induction ps arbitrary: ts op)
  case Nil
  then show ?case by (simp add: linked_refl)
next
  case (Cons p ps)
  then obtain i where i: "p = Some i" "i < length ts"
    and rest: "foldM (AttachOutput k) ps
      (ts[i := (ts ! i)\<lparr>defining_op := Some (k, length (op_outputs op))\<rparr>], op\<lparr>op_outputs := op_outputs op @ [p]\<rparr>) = Some (ts', op')"
    by (auto simp: bind_eq_Some_conv AttachOutput_Some_iff)
  have "linked ts (ts[i := (ts ! i)\<lparr>defining_op := Some (k, length (op_outputs op))\<rparr>])"
    by (rule linked_update(2) [OF i(2)])
  with Cons.IH [OF rest] i show ?case by (auto intro: linked_trans)
qed

lemma tensor_map_known: "None \<notin> set (map (tensor_map ts) ps) \<Longrightarrow> map (tensor_map ts) ps = ps"
  by (induction ps) (auto simp: tensor_map_def split: option.splits if_splits)

lemma clone_ops_copies:
  "clone_ops src k ops' (ts, acc) = Some (ts', acc') \<Longrightarrow>
   linked ts ts' \<and> acc' = acc @ map (\<lambda>op. op\<lparr>custom_code := []\<rparr>) ops' \<and>
   (\<forall>op\<in>set ops'. None \<notin> set (op_inputs op) \<and> None \<notin> set (op_outputs op))"
proof (induction ops' arbitrary: k ts acc)
  case Nil
  then show ?case by (simp add: linked_refl)
next
  case (Cons op ops')
  then obtain ts1 op1 ts2 op2
    where 1: "foldM (AttachInput k) (map (tensor_map src) (op_inputs op)) (ts, clone_op op) = Some (ts1, op1)"
      and 2: "foldM (AttachOutput k) (map (tensor_map src) (op_outputs op)) (ts1, op1) = Some (ts2, op2)"
      and rest: "clone_ops src (Suc k) ops' (ts2, acc @ [op2]) = Some (ts', acc')"
    by (auto simp: bind_eq_Some_conv)
  note in1 = attach_inputs [OF 1] and out2 = attach_outputs [OF 2]
  have maps: "map (tensor_map src) (op_inputs op) = op_inputs op" "map (tensor_map src) (op_outputs op) = op_outputs op"
    using in1 out2 by (auto intro: tensor_map_known)
  have l: "linked ts ts2" using in1 out2 linked_trans by blast
  have op2: "op2 = op\<lparr>custom_code := []\<rparr>" using in1 out2 by (simp add: maps clone_op_def)
  have ps: "None \<notin> set (op_inputs op)" "None \<notin> set (op_outputs op)"
    using in1 out2 unfolding maps by blast+
  show ?case using Cons.IH [OF rest] l op2 ps by (auto intro: linked_trans)
qed

lemma linked_same_data: "linked ts ts' \<Longrightarrow> list_all2 same_data ts ts'"
proof -
  assume l: "linked ts ts'"
  then have "length ts' = length ts" unfolding linked_def by (rule map_eq_imp_length_eq)
  moreover have "clone_tensor (ts' ! i) = clone_tensor (ts ! i)" if "i < length ts" for i
    using l that by (metis linked_def length_map nth_map)
  ultimately show "list_all2 same_data ts ts'"
    by (simp add: list_all2_conv_all_nth same_data_def clone_tensor_def)
qed

lemma retyped_same_data: "list_all2 retyped ts ts' \<Longrightarrow> list_all2 same_data ts ts'"
proof (erule list_all2_mono)
  fix t t'
  assume r: "retyped t t'"
  then have "t' = t\<lparr>tensor_type := tensor_type t'\<rparr>" by (simp add: retyped_def)
  then have "tensor_name t' = tensor_name t" "quantization t' = quantization t" "tensor_index t' = tensor_index t"
    "weights t' = weights t"
    by (metis LiteRtTensorT.select_convs LiteRtTensorT.surjective LiteRtTensorT.update_convs(3))+
  with r show "same_data t t'" by (simp add: same_data_def retyped_def)
qed

lemma list_all2_same_data_trans:
  "list_all2 same_data a b \<Longrightarrow> list_all2 same_data b c \<Longrightarrow> list_all2 same_data a c"
  by (rule list_all2_trans) (rule same_data_trans)

lemma clone_tensor_same_data: "list_all2 same_data ts (map clone_tensor ts)"
  by (simp add: list_all2_conv_all_nth same_data_def clone_tensor_def)

lemma set_shape_same_data: "set_shape t shape = Some t' \<Longrightarrow> same_data t t'"
  by (auto simp: set_shape_def MakeRankedTensorType_def same_data_def element_type_of_def split: if_splits)

lemma set_input_shape_Some_iff:
  "set_input_shape (p, shape) ts = Some ts' \<longleftrightarrow>
   (\<exists>i t'. p = Some i \<and> i < length ts \<and> set_shape (ts ! i) shape = Some t' \<and> ts' = ts[i := t'])"
  by (auto simp: set_input_shape_def bind_eq_Some_conv at_Some_iff)

lemma set_input_shapes:
  "foldM set_input_shape ins ts = Some ts' \<Longrightarrow>
   list_all2 same_data ts ts' \<and> None \<notin> fst ` set ins \<and> (\<forall>i. Some i \<notin> fst ` set ins \<longrightarrow> ts' ! i = ts ! i)"
proof (induction ins arbitrary: ts)
  case Nil
  then show ?case by (simp add: list_all2_refl same_data_def)
next
  case (Cons inp ins)
  obtain p shape where inp: "inp = (p, shape)" by (cases inp)
  with Cons.prems obtain i t' where i: "p = Some i" "i < length ts" "set_shape (ts ! i) shape = Some t'"
    and rest: "foldM set_input_shape ins (ts[i := t']) = Some ts'"
    by (auto simp: bind_eq_Some_conv set_input_shape_Some_iff)
  have "list_all2 same_data ts (ts[i := t'])"
    using set_shape_same_data [OF i(3)] i(2)
    by (auto simp: list_all2_conv_all_nth nth_list_update same_data_def)
  then have "list_all2 same_data ts ts'" using Cons.IH [OF rest] list_all2_same_data_trans by blast
  then show ?case using Cons.IH [OF rest] i(1) by (auto simp: inp)
qed

lemma set_input_shapes_written:
  "foldM set_input_shape ins ts = Some ts' \<Longrightarrow> distinct_pointers (map fst ins) \<Longrightarrow> (Some i, shape) \<in> set ins \<Longrightarrow>
   element_type_of (tensor_type (ts ! i)) \<noteq> kLiteRtElementTypeNone \<Longrightarrow>
   i < length ts' \<and> tensor_type (ts' ! i) = RankedTensorType (element_type_of (tensor_type (ts ! i))) shape"
proof (induction ins arbitrary: ts)
  case Nil
  then show ?case by simp
next
  case (Cons inp ins)
  obtain p shape1 where inp: "inp = (p, shape1)" by (cases inp)
  with Cons.prems obtain j t' where j: "p = Some j" "j < length ts" "set_shape (ts ! j) shape1 = Some t'"
    and rest: "foldM set_input_shape ins (ts[j := t']) = Some ts'"
    by (auto simp: bind_eq_Some_conv set_input_shape_Some_iff)
  have d: "distinct_pointers (map fst ins)" "Some j \<notin> set (map fst ins)"
    using Cons.prems(2) j(1) by (auto simp: distinct_pointers_Cons inp)
  show ?case
  proof (cases "(Some i, shape) \<in> set ins")
    case True
    then have "i \<noteq> j" using d(2) by force
    then show ?thesis using Cons.IH [OF rest d(1) True] Cons.prems(4) by simp
  next
    case False
    then have ij: "i = j" "shape = shape1" using Cons.prems(3) j(1) by (auto simp: inp)
    have "length ts' = length ts" "ts' ! j = t'"
      using set_input_shapes [OF rest] d(2) j(2) by (auto dest!: list_all2_lengthD)
    then show ?thesis using set_shape_ranked [OF j(3)] Cons.prems(4) j(2) by (simp add: ij)
  qed
qed

text \<open>C29: A successful specialisation leaves every subgraph of the model as it was and appends one: its
  operations are those of the source without their custom code, which \<open>CloneTo\<close> does not copy, its inputs are
  those of the source, and its tensors carry the same data and element types. If no tensor is an input twice, each
  input for which a shape is requested has that shape in the copy, unless an operation defines it or its element type
  is \<open>kLiteRtElementTypeNone\<close>.
\<close>

theorem SpecializeSubgraph_copies:
  assumes "SpecializeSubgraph (Some k) shapes True e = Some (kLiteRtStatusOk, e', n)"
    and m: "model_ptr e = Some m"
  shows "n = Some (length m) \<and> (\<exists>dest. model_ptr e' = Some (m @ [dest]) \<and>
    ops dest = map (\<lambda>op. op\<lparr>custom_code := []\<rparr>) (ops (m ! k)) \<and> sg_inputs dest = sg_inputs (m ! k) \<and>
    list_all2 same_data (tensors (m ! k)) (tensors dest) \<and>
    (distinct_pointers (sg_inputs (m ! k)) \<longrightarrow>
      (\<forall>j<length shapes. \<forall>i. sg_inputs (m ! k) ! j = Some i \<longrightarrow> Some i \<notin> defined (ops (m ! k)) \<longrightarrow>
         element_type_of (tensor_type (tensors (m ! k) ! i)) \<noteq> kLiteRtElementTypeNone \<longrightarrow>
         tensor_type (tensors dest ! i) =
           RankedTensorType (element_type_of (tensor_type (tensors (m ! k) ! i))) (shapes ! j))))"
proof -
  obtain sg dest ts d f where sg: "at m k = Some sg" and len: "length shapes = length (sg_inputs sg)"
    and c: "clone_subgraph sg = Some dest"
    and ts: "foldM set_input_shape (zip (sg_inputs dest) shapes) (tensors dest) = Some ts"
    and inf: "InferSubgraphShapes (registry e) False (dest\<lparr>tensors := ts\<rparr>) = Some (kLiteRtStatusOk, d, f)"
    and e': "e' = e\<lparr>model_ptr := Some (m @ [d])\<rparr>" "n = Some (length m)"
    using assms by (auto simp: SpecializeSubgraph_def bind_eq_Some_conv split: if_splits)
  from sg have mk: "m ! k = sg" by (simp add: at_Some_iff)
  from c obtain cts where cts: "clone_ops (tensors sg) 0 (ops sg) (map clone_tensor (tensors sg), []) = Some (cts, ops dest)"
    and dest: "tensors dest = cts" "sg_inputs dest = map (tensor_map (tensors sg)) (sg_inputs sg)"
    by (auto simp: clone_subgraph_def bind_eq_Some_conv)
  note co = clone_ops_copies [OF cts]
  note is' = set_input_shapes [OF ts]
  have "map fst (zip (sg_inputs dest) shapes) = sg_inputs dest" using len by (simp add: dest)
  then have ins: "fst ` set (zip (sg_inputs dest) shapes) = set (sg_inputs dest)"
    by (metis list.set_map)
  with is' have inputs: "sg_inputs dest = sg_inputs sg"
    unfolding dest by (intro tensor_map_known) simp
  have same_clone: "list_all2 same_data (tensors sg) (tensors dest)"
    using co list_all2_same_data_trans [OF clone_tensor_same_data linked_same_data] dest by blast
  have keeps: "ops d = ops dest" "sg_inputs d = sg_inputs dest" "list_all2 retyped ts (tensors d)"
    "same_outside (\<Union>op\<in>set (ops dest). set (op_outputs op)) ts (tensors d)"
    using InferSubgraphShapes_keep [OF inf] by simp_all
  have same: "list_all2 same_data (tensors sg) (tensors d)"
    by (rule list_all2_same_data_trans [OF same_clone
          list_all2_same_data_trans [OF conjunct1 [OF is'] retyped_same_data [OF keeps(3)]]])
  have shape: "tensor_type (tensors d ! i) = RankedTensorType (element_type_of (tensor_type (tensors sg ! i))) (shapes ! j)"
    if "distinct_pointers (sg_inputs sg)" "j < length shapes" "sg_inputs sg ! j = Some i"
      "Some i \<notin> defined (ops sg)" "element_type_of (tensor_type (tensors sg ! i)) \<noteq> kLiteRtElementTypeNone" for i j
  proof -
    have "(Some i, shapes ! j) \<in> set (zip (sg_inputs dest) shapes)"
      using that(2,3) len by (auto simp: inputs set_zip intro!: exI [of _ j])
    moreover have "i < length (tensors sg)"
    proof -
      have "tensor_map (tensors sg) (sg_inputs sg ! j) = sg_inputs sg ! j"
        using inputs that(2) len unfolding dest by (metis nth_map)
      then show ?thesis using that(3) by (auto simp: tensor_map_def split: if_splits)
    qed
    then have "element_type_of (tensor_type (tensors dest ! i)) = element_type_of (tensor_type (tensors sg ! i))"
      using same_clone by (simp add: list_all2_conv_all_nth same_data_def)
    ultimately have w: "tensor_type (ts ! i) = RankedTensorType (element_type_of (tensor_type (tensors sg ! i))) (shapes ! j)"
      using set_input_shapes_written [OF ts, of i "shapes ! j"] that(1,5) inputs len by simp
    have "Some i \<notin> (\<Union>op\<in>set (ops dest). set (op_outputs op))"
      using that(4) co by (auto simp: defined_def)
    with keeps(4) have "tensors d ! i = ts ! i" by (simp add: same_outside_def)
    with w show ?thesis by simp
  qed
  show ?thesis
    using shape same keeps(1,2) inputs co by (intro conjI exI [of _ d]) (auto simp: e' mk)
qed

text \<open>
  A null operand, which inference of a single operation accepts as an absent one, is dereferenced when
  the subgraph is specialised.
\<close>

theorem SpecializeSubgraph_null_operand:
  assumes "model_ptr e = Some m" and "k < length m" and "length shapes = length (sg_inputs (m ! k))"
    and "op \<in> set (ops (m ! k))" and "None \<in> set (op_inputs op)"
  shows "SpecializeSubgraph (Some k) shapes True e = None"
proof -
  have "clone_ops (tensors (m ! k)) 0 (ops (m ! k)) (map clone_tensor (tensors (m ! k)), []) = None"
    using clone_ops_copies assms(4,5) by (metis not_None_eq prod.exhaust)
  then have "clone_subgraph (m ! k) = None" by (simp add: clone_subgraph_def)
  then show ?thesis using assms(1-3) by (simp add: SpecializeSubgraph_def at_def)
qed


section \<open>The failing operation\<close>

lemma infer_ops_failure:
  assumes "infer_ops reg v n ops' ts = Some (st, ts', f)"
  shows "(st = kLiteRtStatusOk \<longleftrightarrow> f = None) \<and>
    (\<forall>k. f = Some k \<longrightarrow> n \<le> k \<and> k - n < length ops' \<and>
       (\<exists>ts1. infer_ops reg v n (take (k - n) ops') ts = Some (kLiteRtStatusOk, ts1, None) \<and>
          InferOpShapes reg v (ops' ! (k - n)) ts1 = Some (st, ts')))"
  using assms
proof (induction ops' arbitrary: n ts)
  case Nil
  then show ?case by simp
next
  case (Cons op ops')
  then obtain st1 ts1 where 1: "InferOpShapes reg v op ts = Some (st1, ts1)"
    by (auto simp: bind_eq_Some_conv)
  show ?case
  proof (cases "st1 = kLiteRtStatusOk")
    case False
    then show ?thesis using Cons.prems 1 by auto
  next
    case True
    then have rest: "infer_ops reg v (Suc n) ops' ts1 = Some (st, ts', f)" using Cons.prems 1 by simp
    note IH = Cons.IH [OF rest]
    have "n \<le> k \<and> k - n < length (op # ops') \<and>
       (\<exists>ts2. infer_ops reg v n (take (k - n) (op # ops')) ts = Some (kLiteRtStatusOk, ts2, None) \<and>
          InferOpShapes reg v ((op # ops') ! (k - n)) ts2 = Some (st, ts'))" if "f = Some k" for k
    proof -
      from IH that obtain ts2 where k: "Suc n \<le> k" "k - Suc n < length ops'"
        and ts2: "infer_ops reg v (Suc n) (take (k - Suc n) ops') ts1 = Some (kLiteRtStatusOk, ts2, None)"
          "InferOpShapes reg v (ops' ! (k - Suc n)) ts2 = Some (st, ts')"
        by blast
      from k(1) have "k - n = Suc (k - Suc n)" by simp
      then show ?thesis using k ts2 1 True by auto
    qed
    with IH show ?thesis by blast
  qed
qed

text \<open>C34: \<open>failing_op\<close> is set exactly when the status is an error, and then names the first operation
  that fails: those before it succeed, the status is the one it returns and the tensors are as it
  leaves them.
\<close>

theorem InferSubgraphShapes_first_failure:
  assumes "InferSubgraphShapes reg v sg = Some (st, sg', failing_op)"
  shows "(st = kLiteRtStatusOk \<longleftrightarrow> failing_op = None) \<and>
    (\<forall>k. failing_op = Some k \<longrightarrow> k < length (ops sg) \<and>
       (\<exists>ts. infer_ops reg v 0 (take k (ops sg)) (tensors sg) = Some (kLiteRtStatusOk, ts, None) \<and>
          InferOpShapes reg v (ops sg ! k) ts = Some (st, tensors sg')))"
  using assms infer_ops_failure [of reg v 0 "ops sg" "tensors sg" st _ failing_op]
  by (auto simp: InferSubgraphShapes_def bind_eq_Some_conv)

section \<open>A concrete model\<close>

text \<open>Adding a bias to a matrix with a dynamic dimension, then an operation without an inferrer.\<close>

definition demo_tensor :: "TensorType \<Rightarrow> LiteRtTensorT" where
  "demo_tensor ty = \<lparr>tensor_name = [], quantization = QuantizationNone, tensor_type = ty, tensor_index = 0,
     weights = [], users = [], defining_op = None\<rparr>"

definition demo_add :: LiteRtOpT where
  "demo_add = \<lparr>custom_options = [], tfl_option = OtherOptions, tfl_op_code_ind = 0,
     litert_op_code = kLiteRtOpCodeTflAdd, custom_code = [], op_inputs = [Some 0, Some 1], op_outputs = [Some 2]\<rparr>"

definition demo_subgraph :: LiteRtSubgraphT where
  "demo_subgraph = \<lparr>tensors = [demo_tensor (RankedTensorType 1 [- 1, 3]), demo_tensor (RankedTensorType 1 [3]),
       demo_tensor (UnrankedTensorType 1)], ops = [demo_add], sg_inputs = [Some 0, Some 1], sg_outputs = [Some 2]\<rparr>"

definition demo_inferred :: "Dims \<Rightarrow> LiteRtSubgraphT" where
  "demo_inferred s = demo_subgraph\<lparr>tensors := [demo_tensor (RankedTensorType 1 [- 1, 3]),
     demo_tensor (RankedTensorType 1 [3]), demo_tensor (RankedTensorType 1 s)]\<rparr>"

definition demo_registry :: "LiteRtOpCode \<Rightarrow> OpShapeInferrer option" where
  "demo_registry = registry (new_engine None)"

lemma demo_registry_Add: "demo_registry 0 = Some InferSimpleBinary"
  by (simp add: demo_registry_def new_engine_def RegisterStandardOps_def standard_ops_def RegisterInferrer_def)

lemma demo_registry_Custom: "demo_registry 32 = None"
  by (simp add: demo_registry_def new_engine_def RegisterStandardOps_def standard_ops_def RegisterInferrer_def)

text \<open>
  The inferrers for \<open>Split\<close> (49), \<open>Tile\<close> (69) and \<open>StridedSlice\<close> (45) are never registered, so these
  operations are reported as unsupported.
\<close>

theorem unregistered_inferrers:
  "registry (new_engine None) 49 = None \<and> registry (new_engine None) 69 = None \<and> registry (new_engine None) 45 = None"
  by (simp add: new_engine_def RegisterStandardOps_def standard_ops_def RegisterInferrer_def)

lemma demo_infers:
  "InferSubgraphShapes demo_registry False demo_subgraph = Some (kLiteRtStatusOk, demo_inferred [- 1, 3], None)"
  by (simp add: InferSubgraphShapes_def demo_subgraph_def demo_add_def demo_inferred_def demo_tensor_def InferOpShapes_def
      InferOpShapes_given_def demo_registry_Add collect_shape_def at_def view_op_def InferSimpleBinary_def
      InferElementwiseBinary_def Let_def binary_step_def broadcast_dim_def dim_from_back_def numeral_2_eq_2
      apply_output_def constant_conflict_def set_shape_def element_type_of_def MakeRankedTensorType_def)


definition demo_unsupported :: LiteRtSubgraphT where
  "demo_unsupported = demo_subgraph\<lparr>ops := [demo_add, demo_add\<lparr>litert_op_code := kLiteRtOpCodeTflCustom\<rparr>]\<rparr>"

lemmas demo_defs = demo_subgraph_def demo_add_def demo_inferred_def demo_tensor_def demo_unsupported_def

lemmas infer_defs = InferSubgraphShapes_def InferOpShapes_def InferOpShapes_given_def demo_registry_Add demo_registry_Custom
  collect_shape_def at_def view_op_def InferSimpleBinary_def InferElementwiseBinary_def Let_def binary_step_def
  broadcast_dim_def dim_from_back_def numeral_2_eq_2 apply_output_def constant_conflict_def set_shape_def
  validate_output_def element_type_of_def MakeRankedTensorType_def

lemma demo_fails:
  "InferSubgraphShapes demo_registry False demo_unsupported =
     Some (kLiteRtStatusErrorUnsupportedOpShapeInferer, (demo_inferred [- 1, 3])\<lparr>ops := ops demo_unsupported\<rparr>, Some 1)"
  by (simp add: demo_defs infer_defs)

definition demo_engine :: ShapeInferenceEngine where
  "demo_engine = new_engine (Some [demo_inferred [2, 4]])"

lemma register_all:
  "foldl (\<lambda>e (op_code, inferrer). RegisterInferrer op_code inferrer e) e xs =
   e\<lparr>registry := foldl (\<lambda>r (op_code, inferrer). r(op_code := Some inferrer)) (registry e) xs\<rparr>"
proof (induction xs arbitrary: e)
  case Nil
  then show ?case by simp
next
  case (Cons x xs)
  then show ?case by (cases x) (simp add: RegisterInferrer_def)
qed

lemma new_engine_simps: "model_ptr (new_engine m) = m" "registry (new_engine m) = demo_registry"
  by (simp_all add: new_engine_def demo_registry_def RegisterStandardOps_def register_all)

lemma demo_engine_rejects:
  "InferShapes True demo_engine = Some (kLiteRtStatusErrorShapeInferenceFailed, demo_engine, Some (0, 0))"
  by (simp add: InferShapes_def demo_engine_def new_engine_simps demo_defs infer_defs)

theorem InferShapes_validation_pure_witness:
  "\<exists>e' st f. InferShapes True demo_engine = Some (st, e', f) \<and> e' = demo_engine"
  using InferShapes_validation_pure [OF demo_engine_rejects] demo_engine_rejects by blast

theorem InferSubgraphShapes_keeps_witness:
  "ops (demo_inferred [- 1, 3]) = ops demo_subgraph \<and>
   list_all2 retyped (tensors demo_subgraph) (tensors (demo_inferred [- 1, 3])) \<and>
   same_outside {Some 2} (tensors demo_subgraph) (tensors (demo_inferred [- 1, 3]))"
  using InferSubgraphShapes_keeps [OF demo_infers] by (simp add: demo_defs)

theorem InferSubgraphShapes_then_validates_witness:
  "InferSubgraphShapes demo_registry True (demo_inferred [- 1, 3]) =
     Some (kLiteRtStatusOk, demo_inferred [- 1, 3], None)"
  by (rule InferSubgraphShapes_then_validates [OF demo_infers])
    (simp_all add: demo_defs defined_def distinct_pointers_def outputs_known_def element_type_of_def less_Suc_eq)

theorem InferSubgraphShapes_first_failure_witness:
  "\<exists>ts. infer_ops demo_registry False 0 [demo_add] (tensors demo_unsupported) = Some (kLiteRtStatusOk, ts, None) \<and>
     InferOpShapes demo_registry False (ops demo_unsupported ! 1) ts =
       Some (kLiteRtStatusErrorUnsupportedOpShapeInferer, tensors (demo_inferred [- 1, 3]))"
  using InferSubgraphShapes_first_failure [OF demo_fails] by (simp add: demo_defs)

lemma demo_specializes:
  "\<exists>e'. SpecializeSubgraph (Some 0) [[5, 3], [3]] True (new_engine (Some [demo_subgraph])) =
     Some (kLiteRtStatusOk, e', Some 1)"
  by (simp add: SpecializeSubgraph_def new_engine_simps clone_subgraph_def AttachInput_def AttachOutput_def
      tensor_map_def clone_tensor_def clone_op_def set_input_shape_def demo_defs infer_defs)

theorem SpecializeSubgraph_copies_witness:
  "\<exists>e' dest. SpecializeSubgraph (Some 0) [[5, 3], [3]] True (new_engine (Some [demo_subgraph])) =
       Some (kLiteRtStatusOk, e', Some 1) \<and>
     model_ptr e' = Some [demo_subgraph, dest] \<and> tensor_type (tensors dest ! 0) = RankedTensorType 1 [5, 3]"
proof -
  obtain e' where e': "SpecializeSubgraph (Some 0) [[5, 3], [3]] True (new_engine (Some [demo_subgraph])) =
      Some (kLiteRtStatusOk, e', Some 1)"
    using demo_specializes by blast
  show ?thesis
    using SpecializeSubgraph_copies [OF e' new_engine_simps(1)] e'
    by (force simp: demo_defs distinct_pointers_def defined_def element_type_of_def)
qed

end
