(* ===== verification/BroadcastCorrect.thy ===== *)
theory BroadcastCorrect
  imports ShapeElementwise
begin

text \<open>
  The broadcasting inferrers against a reference: broadcasting of concrete shapes by recursion over
  the dimensions from the last one, as the array libraries define it.  The loops of the code fill
  their result by index from the back and also handle dynamic dimensions.
\<close>

section \<open>Loops that fill a shape\<close>

text \<open>
  A loop that computes one entry of the result in each iteration, or returns the same error.
\<close>

locale fill_loop =
  fixes body :: "nat \<Rightarrow> Dims \<Rightarrow> Dims flow option"
    and pos :: "nat \<Rightarrow> nat"
    and dim :: "nat \<Rightarrow> int option"
    and err :: LiteRtStatus
  assumes body_Some: "dim i = Some d \<Longrightarrow> body i out = Some (Next (out[pos i := d]))"
    and body_None: "dim i = None \<Longrightarrow> body i out = Some (Return err)"
begin

lemma fill_Next:
  "\<forall>i\<in>set is. dim i \<noteq> None \<Longrightarrow>
   loop body is out = Some (Next (fold (\<lambda>i out. out[pos i := the (dim i)]) is out))"
  by (induction "is" arbitrary: out) (auto simp: body_Some)

lemma fill_Return:
  "\<exists>i\<in>set is. dim i = None \<Longrightarrow> loop body is out = Some (Return err)"
proof (induction "is" arbitrary: out)
  case Nil
  then show ?case by simp
next
  case (Cons i "is")
  then show ?case
    by (cases "dim i") (auto simp: body_Some body_None)
qed

end

lemma length_fold_update: "length (fold (\<lambda>i out. out[pos i := v i]) is out) = length out"
  by (induction "is" arbitrary: out) auto

text \<open>Filling from the back, starting \<open>k\<close> entries before the end, and filling from the front.\<close>

lemma fold_fill_back:
  assumes "length out = n" and "k \<le> m" and "m \<le> n"
  shows "fold (\<lambda>i out. out[n - Suc i := v i]) [k..<m] out =
    take (n - m) out @ rev (map v [k..<m]) @ drop (n - k) out"
  using assms(2,3)
proof (induction m rule: dec_induct)
  case base
  then show ?case by simp
next
  case (step m)
  have n: "n - m = Suc (n - Suc m)" "n - Suc m < length out" using step assms(1) by auto
  have "fold (\<lambda>i out. out[n - Suc i := v i]) [k..<Suc m] out =
    (take (n - m) out @ rev (map v [k..<m]) @ drop (n - k) out)[n - Suc m := v m]"
    using step by simp
  also have "take (n - m) out = take (n - Suc m) out @ [out ! (n - Suc m)]"
    using n by (simp add: take_Suc_conv_app_nth)
  finally show ?case
    using step n assms(1) by (simp add: list_update_append)
qed

lemma fold_fill_front:
  assumes "length out = n" and "m \<le> n"
  shows "fold (\<lambda>i out. out[i := v i]) [0..<m] out = map v [0..<m] @ drop m out"
  using assms(2)
proof (induction m)
  case 0
  then show ?case by simp
next
  case (Suc m)
  then have "drop m out = out ! m # drop (Suc m) out"
    using assms(1) by (simp add: Cons_nth_drop_Suc)
  with Suc show ?case by (simp add: list_update_append)
qed

section \<open>Broadcasting of concrete shapes\<close>

definition np_dim :: "nat \<Rightarrow> nat \<Rightarrow> nat option" where
  "np_dim a b = (if a = b then Some a else if a = 1 then Some b else if b = 1 then Some a else None)"

fun np_rev :: "nat list \<Rightarrow> nat list \<Rightarrow> nat list option" where
  "np_rev [] ys = Some ys"
| "np_rev xs [] = Some xs"
| "np_rev (x # xs) (y # ys) = do { d \<leftarrow> np_dim x y; ds \<leftarrow> np_rev xs ys; Some (d # ds) }"

definition np_broadcast :: "nat list \<Rightarrow> nat list \<Rightarrow> nat list option" where
  "np_broadcast a b = map_option rev (np_rev (rev a) (rev b))"

text \<open>The shape \<open>c\<close> is one that \<open>s\<close> describes: \<open>-1\<close> stands for any extent.\<close>

definition instance_of :: "Dims \<Rightarrow> nat list \<Rightarrow> bool" where
  "instance_of s c \<longleftrightarrow> list_all2 (\<lambda>d n. d = - 1 \<or> d = int n) s c"

definition dim_or_1 :: "nat list \<Rightarrow> nat \<Rightarrow> nat" where
  "dim_or_1 xs i = (if i < length xs then xs ! i else 1)"

lemma dim_or_1_simps [simp]:
  "dim_or_1 [] i = 1" "dim_or_1 (x # xs) 0 = x" "dim_or_1 (x # xs) (Suc i) = dim_or_1 xs i"
  by (simp_all add: dim_or_1_def)

lemma np_dim_1 [simp]: "np_dim a 1 = Some a" "np_dim 1 a = Some a" "np_dim a (Suc 0) = Some a"
  "np_dim (Suc 0) a = Some a" "np_dim a a = Some a"
  by (auto simp: np_dim_def)

lemma np_rev_Some_iff:
  "np_rev xs ys = Some zs \<longleftrightarrow>
   length zs = max (length xs) (length ys) \<and>
   (\<forall>i<length zs. np_dim (dim_or_1 xs i) (dim_or_1 ys i) = Some (zs ! i))"
proof (induction xs ys arbitrary: zs rule: np_rev.induct)
  case (1 ys)
  show ?case by (auto simp: dim_or_1_def list_eq_iff_nth_eq)
next
  case (2 x xs)
  have "np_rev (x # xs) [] = Some zs \<longleftrightarrow> x # xs = zs" by simp
  also have "\<dots> \<longleftrightarrow> length zs = length (x # xs) \<and> (\<forall>i<length zs. (x # xs) ! i = zs ! i)"
    by (auto simp: list_eq_iff_nth_eq simp del: length_Cons)
  also have "\<dots> \<longleftrightarrow> length zs = length (x # xs) \<and> (\<forall>i<length zs. dim_or_1 (x # xs) i = zs ! i)"
    by (auto simp: dim_or_1_def simp del: length_Cons)
  finally show ?case by simp
next
  case (3 x xs y ys)
  show ?case
  proof (cases zs)
    case Nil
    then show ?thesis by (auto split: bind_splits)
  next
    case (Cons z zs')
    have "np_rev (x # xs) (y # ys) = Some zs \<longleftrightarrow> np_dim x y = Some z \<and> np_rev xs ys = Some zs'"
      using Cons by (auto split: bind_splits)
    also have "\<dots> \<longleftrightarrow> np_dim x y = Some z \<and> length zs' = max (length xs) (length ys) \<and>
        (\<forall>i<length zs'. np_dim (dim_or_1 xs i) (dim_or_1 ys i) = Some (zs' ! i))"
    proof (cases "np_dim x y")
      case (Some d)
      then show ?thesis using 3 by simp
    qed simp
    finally show ?thesis using Cons by (auto simp: All_less_Suc2)
  qed
qed

lemma np_broadcast_Some_iff:
  "np_broadcast a b = Some c \<longleftrightarrow>
   length c = max (length a) (length b) \<and>
   (\<forall>i<length c. np_dim (dim_or_1 (rev a) i) (dim_or_1 (rev b) i) = Some (rev c ! i))"
proof -
  have "np_broadcast a b = Some c \<longleftrightarrow> np_rev (rev a) (rev b) = Some (rev c)"
    by (auto simp: np_broadcast_def rev_swap)
  then show ?thesis by (simp add: np_rev_Some_iff)
qed

text \<open>The result exists when every pair of dimensions has one.\<close>

lemma np_broadcast_build:
  "\<forall>i<max (length a) (length b). np_dim (dim_or_1 (rev a) i) (dim_or_1 (rev b) i) \<noteq> None \<Longrightarrow>
   np_broadcast a b =
     Some (rev (map (\<lambda>i. the (np_dim (dim_or_1 (rev a) i) (dim_or_1 (rev b) i))) [0..<max (length a) (length b)]))"
  by (auto simp: np_broadcast_Some_iff)

lemma np_broadcast_None:
  "i < max (length a) (length b) \<Longrightarrow> np_dim (dim_or_1 (rev a) i) (dim_or_1 (rev b) i) = None \<Longrightarrow>
   np_broadcast a b = None"
  by (cases "np_broadcast a b") (auto simp: np_broadcast_Some_iff)

section \<open>Dimensions of the code and of the reference\<close>

lemma dim_from_back_int: "dim_from_back (map int c) i = int (dim_or_1 (rev c) i)"
  by (simp add: dim_from_back_def dim_or_1_def rev_nth)

lemma broadcast_dim_int: "broadcast_dim (int a) (int b) = map_option int (np_dim a b)"
  by (auto simp: broadcast_dim_def np_dim_def)

lemma instance_of_dim:
  assumes "instance_of s c"
  shows "length s = length c"
    and "dim_from_back s i = - 1 \<or> dim_from_back s i = int (dim_or_1 (rev c) i)"
proof -
  show l: "length s = length c" using assms by (auto simp: instance_of_def list_all2_lengthD)
  show "dim_from_back s i = - 1 \<or> dim_from_back s i = int (dim_or_1 (rev c) i)"
    using assms l by (auto simp: instance_of_def dim_from_back_def dim_or_1_def rev_nth list_all2_conv_all_nth)
qed

lemma instance_of_rev_nth:
  "length s = length c \<Longrightarrow> (\<And>i. i < length c \<Longrightarrow> rev s ! i = - 1 \<or> rev s ! i = int (rev c ! i)) \<Longrightarrow>
   instance_of s c"
proof -
  assume l: "length s = length c"
    and n: "\<And>i. i < length c \<Longrightarrow> rev s ! i = - 1 \<or> rev s ! i = int (rev c ! i)"
  have "list_all2 (\<lambda>d n. d = - 1 \<or> d = int n) (rev s) (rev c)"
    using l n by (simp add: list_all2_conv_all_nth)
  then show "instance_of s c" by (simp add: instance_of_def)
qed

text \<open>A dimension of the code's broadcast describes the broadcast of what its arguments describe.\<close>

lemma broadcast_dim_refines:
  assumes "d1 = - 1 \<or> d1 = int a" and "d2 = - 1 \<or> d2 = int b" and "np_dim a b = Some c"
  obtains d where "broadcast_dim d1 d2 = Some d" and "d = - 1 \<or> d = int c"
  using assms by (auto simp: broadcast_dim_def np_dim_def split: if_splits)


section \<open>Element-wise binary operations\<close>

interpretation binary: fill_loop "binary_step s1 s2 n" "\<lambda>i. n - 1 - i"
  "\<lambda>i. broadcast_dim (dim_from_back s1 i) (dim_from_back s2 i)" kLiteRtStatusErrorShapeInferenceFailed
  for s1 s2 n
  by unfold_locales (simp_all add: binary_step_def)

lemma binary_Ok:
  assumes "\<forall>i<max (length s1) (length s2). broadcast_dim (dim_from_back s1 i) (dim_from_back s2 i) \<noteq> None"
  shows "InferElementwiseBinary [s1, s2] (o' # outs) =
    Some (kLiteRtStatusOk, rev (map (\<lambda>i. the (broadcast_dim (dim_from_back s1 i) (dim_from_back s2 i)))
      [0..<max (length s1) (length s2)]) # outs)"
  using assms binary.fill_Next [of "[0..<max (length s1) (length s2)]" s1 s2]
  by (simp add: InferElementwiseBinary_def Let_def fold_fill_back)

lemma binary_Failed:
  assumes "i < max (length s1) (length s2)" and "broadcast_dim (dim_from_back s1 i) (dim_from_back s2 i) = None"
  shows "InferElementwiseBinary [s1, s2] outs = Some (kLiteRtStatusErrorShapeInferenceFailed, outs)"
proof -
  have "\<exists>i\<in>set [0..<max (length s1) (length s2)]. broadcast_dim (dim_from_back s1 i) (dim_from_back s2 i) = None"
    using assms by auto
  note binary.fill_Return [OF this]
  then show ?thesis by (simp add: InferElementwiseBinary_def Let_def)
qed

text \<open>On static shapes the element-wise binary inferrer is the reference broadcast: it returns the
  broadcast shape when there is one and fails, leaving the outputs alone, exactly when there is none.
\<close>

theorem InferElementwiseBinary_static:
  "InferElementwiseBinary [map int c1, map int c2] (out # outs) =
     (case np_broadcast c1 c2 of
        Some c \<Rightarrow> Some (kLiteRtStatusOk, map int c # outs)
      | None \<Rightarrow> Some (kLiteRtStatusErrorShapeInferenceFailed, out # outs))"
proof (cases "\<forall>i<max (length c1) (length c2). np_dim (dim_or_1 (rev c1) i) (dim_or_1 (rev c2) i) \<noteq> None")
  case True
  then show ?thesis
    by (simp add: binary_Ok dim_from_back_int broadcast_dim_int np_broadcast_build rev_map [symmetric] option.map_sel)
next
  case False
  then obtain i where "i < max (length c1) (length c2)" "np_dim (dim_or_1 (rev c1) i) (dim_or_1 (rev c2) i) = None"
    by auto
  then show ?thesis
    by (simp add: np_broadcast_None binary_Failed [of i] dim_from_back_int broadcast_dim_int)
qed

text \<open>C27: With dynamic dimensions the inferrer abstracts the reference broadcast: whenever the run-time
  shapes that the inputs describe broadcast to a shape, it succeeds and its output describes that
  shape.
\<close>

theorem InferElementwiseBinary_refines:
  assumes "instance_of s1 c1" and "instance_of s2 c2" and c: "np_broadcast c1 c2 = Some c"
  shows "\<exists>s. InferElementwiseBinary [s1, s2] (out # outs) = Some (kLiteRtStatusOk, s # outs) \<and> instance_of s c"
proof -
  define d where "d i = broadcast_dim (dim_from_back s1 i) (dim_from_back s2 i)" for i
  note l = instance_of_dim(1) [OF assms(1)] instance_of_dim(1) [OF assms(2)]
  have lc: "length c = max (length s1) (length s2)" using c l by (simp add: np_broadcast_Some_iff)
  have d: "\<exists>v. d i = Some v \<and> (v = - 1 \<or> v = int (rev c ! i))" if "i < max (length s1) (length s2)" for i
    using broadcast_dim_refines [OF instance_of_dim(2) [OF assms(1)] instance_of_dim(2) [OF assms(2)], of i i]
      c that lc unfolding d_def np_broadcast_Some_iff by metis
  then have "InferElementwiseBinary [s1, s2] (out # outs) =
      Some (kLiteRtStatusOk, rev (map (\<lambda>i. the (d i)) [0..<max (length s1) (length s2)]) # outs)"
    unfolding d_def by (intro binary_Ok) fastforce
  moreover have "instance_of (rev (map (\<lambda>i. the (d i)) [0..<max (length s1) (length s2)])) c"
    using d lc by (intro instance_of_rev_nth) (auto simp del: max_less_iff_conj less_max_iff_disj dest!: d)
  ultimately show ?thesis by blast
qed

theorem InferElementwiseBinary_refines_witness:
  "\<exists>s. InferElementwiseBinary [[- 1, 3], [2, 1, 3]] [[]] = Some (kLiteRtStatusOk, s # []) \<and> instance_of s [2, 4, 3]"
  by (rule InferElementwiseBinary_refines [of _ "[4, 3]" _ "[2, 1, 3]"])
    (simp_all add: instance_of_def np_broadcast_def np_dim_def)


section \<open>Select\<close>

lemma np_broadcast_dim:
  assumes "np_broadcast a b = Some c"
  shows "np_dim (dim_or_1 (rev a) i) (dim_or_1 (rev b) i) = Some (dim_or_1 (rev c) i)"
  using assms by (cases "i < length c") (auto simp: np_broadcast_Some_iff dim_or_1_def)

lemma np_broadcast_length: "np_broadcast a b = Some c \<Longrightarrow> length c = max (length a) (length b)"
  by (simp add: np_broadcast_Some_iff)

definition np_broadcast3 :: "nat list \<Rightarrow> nat list \<Rightarrow> nat list \<Rightarrow> nat list option" where
  "np_broadcast3 a b c = do { ab \<leftarrow> np_broadcast a b; np_broadcast ab c }"

definition np_dim3 :: "nat \<Rightarrow> nat \<Rightarrow> nat \<Rightarrow> nat option" where
  "np_dim3 a b c = do { ab \<leftarrow> np_dim a b; np_dim ab c }"

lemma np_broadcast3_Some_iff:
  "np_broadcast3 a b c = Some d \<longleftrightarrow>
   length d = max (length a) (max (length b) (length c)) \<and>
   (\<forall>i<length d. np_dim3 (dim_or_1 (rev a) i) (dim_or_1 (rev b) i) (dim_or_1 (rev c) i) = Some (rev d ! i))"
  (is "_ \<longleftrightarrow> ?R")
proof (cases "np_broadcast a b")
  case None
  then obtain i where "i < max (length a) (length b)" "np_dim (dim_or_1 (rev a) i) (dim_or_1 (rev b) i) = None"
    using np_broadcast_build [of a b] by (metis option.distinct(1))
  then show ?thesis using None by (auto simp: np_broadcast3_def np_dim3_def intro!: exI [of _ i])
next
  case (Some ab)
  then have "np_broadcast3 a b c = np_broadcast ab c" by (simp add: np_broadcast3_def)
  then show ?thesis
    using np_broadcast_dim [OF Some] np_broadcast_length [OF Some]
    by (simp add: np_broadcast_Some_iff np_dim3_def max.assoc)
qed

lemma np_broadcast3_build:
  "\<forall>i<n. np_dim3 (dim_or_1 (rev a) i) (dim_or_1 (rev b) i) (dim_or_1 (rev c) i) \<noteq> None \<Longrightarrow>
   n = max (length a) (max (length b) (length c)) \<Longrightarrow>
   np_broadcast3 a b c =
     Some (rev (map (\<lambda>i. the (np_dim3 (dim_or_1 (rev a) i) (dim_or_1 (rev b) i) (dim_or_1 (rev c) i))) [0..<n]))"
  by (auto simp: np_broadcast3_Some_iff)

text \<open>What one iteration of the loop of \<open>InferSelect\<close> stores; \<open>None\<close> for incompatible dimensions.\<close>

definition select_value :: "int \<Rightarrow> int \<Rightarrow> int \<Rightarrow> int option" where
  "select_value d1 d2 d3 =
     (if d1 = - 1 \<or> d2 = - 1 \<or> d3 = - 1 then Some (- 1)
      else case select_dim d1 d2 d3 of Some (Next d) \<Rightarrow> Some d | _ \<Rightarrow> None)"

lemma select_dim_cases:
  "select_dim d1 d2 d3 = Some (Return kLiteRtStatusErrorInvalidArgument) \<or>
   (\<exists>d. select_dim d1 d2 d3 = Some (Next d))"
  by (simp add: select_dim_def)

lemma select_step_value:
  "select_step s1 s2 s3 n i out =
     (case select_value (dim_from_back s1 i) (dim_from_back s2 i) (dim_from_back s3 i) of
        Some d \<Rightarrow> Some (Next (out[n - 1 - i := d]))
      | None \<Rightarrow> Some (Return kLiteRtStatusErrorInvalidArgument))"
  using select_dim_cases [of "dim_from_back s1 i" "dim_from_back s2 i" "dim_from_back s3 i"]
  by (elim disjE exE) (simp_all add: select_step_def select_value_def Let_def)

interpretation select: fill_loop "select_step s1 s2 s3 n" "\<lambda>i. n - 1 - i"
  "\<lambda>i. select_value (dim_from_back s1 i) (dim_from_back s2 i) (dim_from_back s3 i)"
  kLiteRtStatusErrorInvalidArgument
  for s1 s2 s3 n
  by unfold_locales (simp_all add: select_step_value)

lemma select_Ok:
  assumes "\<forall>i<n. select_value (dim_from_back s1 i) (dim_from_back s2 i) (dim_from_back s3 i) \<noteq> None"
    and n: "n = max (length s1) (max (length s2) (length s3))"
  shows "InferSelect op [s1, s2, s3] (o' # outs) =
    Some (kLiteRtStatusOk,
      rev (map (\<lambda>i. the (select_value (dim_from_back s1 i) (dim_from_back s2 i) (dim_from_back s3 i))) [0..<n]) # outs)"
  using assms(1) select.fill_Next [of "[0..<n]" s1 s2 s3]
  by (simp add: InferSelect_def Let_def fold_fill_back n [symmetric] numeral_2_eq_2)

lemma select_Failed:
  assumes "i < max (length s1) (max (length s2) (length s3))"
    and "select_value (dim_from_back s1 i) (dim_from_back s2 i) (dim_from_back s3 i) = None"
  shows "InferSelect op [s1, s2, s3] outs = Some (kLiteRtStatusErrorInvalidArgument, outs)"
proof -
  have "\<exists>i\<in>set [0..<max (length s1) (max (length s2) (length s3))].
      select_value (dim_from_back s1 i) (dim_from_back s2 i) (dim_from_back s3 i) = None"
    using assms by auto
  note select.fill_Return [OF this]
  then show ?thesis by (simp add: InferSelect_def Let_def numeral_2_eq_2)
qed

lemma select_value_int:
  assumes "0 < a" and "0 < b" and "0 < c"
  shows "select_value (int a) (int b) (int c) = map_option int (np_dim3 a b c)"
  using assms by (auto simp: select_value_def select_dim_def np_dim3_def np_dim_def split: if_splits)

lemma dim_or_1_pos: "0 \<notin> set xs \<Longrightarrow> 0 < dim_or_1 (rev xs) i"
  by (auto simp: dim_or_1_def rev_nth) (metis diff_less gr0I length_greater_0_conv nth_mem zero_less_Suc list.size(3) not_less_zero)

text \<open>On static shapes without empty dimensions, \<open>Select\<close> returns the broadcast of the condition and
  both branches, and rejects the operation when the three do not broadcast.
\<close>

theorem InferSelect_static:
  assumes "0 \<notin> set c1" and "0 \<notin> set c2" and "0 \<notin> set c3"
  shows "InferSelect op [map int c1, map int c2, map int c3] (out # outs) =
     (case np_broadcast3 c1 c2 c3 of
        Some c \<Rightarrow> Some (kLiteRtStatusOk, map int c # outs)
      | None \<Rightarrow> Some (kLiteRtStatusErrorInvalidArgument, out # outs))"
proof -
  define n where "n = max (length c1) (max (length c2) (length c3))"
  define d where "d i = np_dim3 (dim_or_1 (rev c1) i) (dim_or_1 (rev c2) i) (dim_or_1 (rev c3) i)" for i
  have v: "select_value (dim_from_back (map int c1) i) (dim_from_back (map int c2) i)
      (dim_from_back (map int c3) i) = map_option int (d i)" for i
    unfolding d_def dim_from_back_int using assms by (intro select_value_int dim_or_1_pos)
  show ?thesis
  proof (cases "\<forall>i<n. d i \<noteq> None")
    case True
    moreover have "np_broadcast3 c1 c2 c3 = Some (rev (map (\<lambda>i. the (d i)) [0..<n]))"
      using True unfolding d_def by (intro np_broadcast3_build) (simp_all add: n_def)
    ultimately show ?thesis
      by (simp add: select_Ok [where n = n] v n_def [symmetric] rev_map [symmetric] option.map_sel)
  next
    case False
    then obtain i where i: "i < n" "d i = None" by auto
    then have "np_broadcast3 c1 c2 c3 = None"
      by (cases "np_broadcast3 c1 c2 c3") (auto simp: np_broadcast3_Some_iff n_def [symmetric] d_def)
    with i show ?thesis by (simp add: select_Failed [of i] v n_def)
  qed
qed

theorem InferSelect_static_witness:
  "InferSelect \<lparr>options = OtherOptions, Inputs = [], NumOutputs = 1\<rparr> [map int [2], map int [3, 1], map int []] [[]] =
     Some (kLiteRtStatusOk, [3, 2] # [])"
  by (subst InferSelect_static) (simp_all add: np_broadcast3_def np_broadcast_def np_dim_def)

text \<open>
  An empty dimension is lost by \<open>Select\<close>: the result of broadcasting shape \<open>[0]\<close> with unit
  dimensions has no elements, but the inferred dimension is 1, because the running maximum starts
  from 1.
\<close>

theorem InferSelect_drops_empty_dim:
  "InferSelect op [[0], [1], [1]] (out # outs) = Some (kLiteRtStatusOk, [1] # outs) \<and>
   np_broadcast3 [0] [1] [1] = Some [0]"
  by (simp add: InferSelect_def Let_def select_step_def select_dim_def dim_from_back_def
      np_broadcast3_def np_broadcast_def np_dim_def)


section \<open>Batched matrix multiplication\<close>

interpretation bmm: fill_loop "bmm_step lhs rhs n" "\<lambda>i. n - 1 - i"
  "\<lambda>i. broadcast_dim (dim_from_back lhs i) (dim_from_back rhs i)" kLiteRtStatusErrorInvalidArgument
  for lhs rhs n
  by unfold_locales (simp_all add: bmm_step_def)

lemma dim_from_back_append2: "2 \<le> i \<Longrightarrow> dim_from_back (s @ [a, b]) i = dim_from_back s (i - 2)"
  by (auto simp: dim_from_back_def nth_append)

lemma map_upt_shift2: "map f [2..<n] = map (\<lambda>i. f (i + 2)) [0..<n - 2]"
  by (simp add: list_eq_iff_nth_eq add.commute)

lemma drop_last_two: "2 \<le> n \<Longrightarrow> length xs = n \<Longrightarrow> drop (n - 2) (xs[n - 2 := p, n - 1 := q]) = [p, q]"
  by (rule nth_equalityI) (auto simp: less_Suc_eq nth_list_update numeral_2_eq_2)

lemma bmm_loop:
  fixes b1 b2 :: "nat list"
  assumes n: "n = max (length b1) (length b2) + 2"
  shows "loop (bmm_step (map int b1 @ [x1, y1]) (map int b2 @ [x2, y2]) n) [2..<n]
      ((replicate n 0)[n - 2 := p, n - 1 := q]) =
    Some (case np_broadcast b1 b2 of
        Some b \<Rightarrow> Next (map int b @ [p, q])
      | None \<Rightarrow> Return kLiteRtStatusErrorInvalidArgument)"
proof -
  define d where "d i = np_dim (dim_or_1 (rev b1) i) (dim_or_1 (rev b2) i)" for i
  define v where "v i = broadcast_dim (dim_from_back (map int b1 @ [x1, y1]) i)
    (dim_from_back (map int b2 @ [x2, y2]) i)" for i
  define out where "out = (replicate n (0::int))[n - 2 := p, n - 1 := q]"
  have N: "2 \<le> n" "n - 2 = max (length b1) (length b2)" by (simp_all add: n)
  have out: "length out = n" "drop (n - 2) out = [p, q]"
    unfolding out_def by (simp, rule drop_last_two) (simp_all add: N)
  have v: "v i = map_option int (d (i - 2))" if "2 \<le> i" for i
    using that by (simp add: v_def dim_from_back_append2 dim_from_back_int broadcast_dim_int d_def)
  have "loop (bmm_step (map int b1 @ [x1, y1]) (map int b2 @ [x2, y2]) n) [2..<n] out =
    Some (case np_broadcast b1 b2 of
        Some b \<Rightarrow> Next (map int b @ [p, q])
      | None \<Rightarrow> Return kLiteRtStatusErrorInvalidArgument)"
  proof (cases "\<forall>i<n - 2. d i \<noteq> None")
    case True
    have np: "np_broadcast b1 b2 = Some (rev (map (\<lambda>i. the (d i)) [0..<n - 2]))"
      using True unfolding d_def N(2) by (rule np_broadcast_build)
    have vs: "map (\<lambda>i. the (v i)) [2..<n] = map (\<lambda>i. int (the (d i))) [0..<n - 2]"
      unfolding map_upt_shift2 using True v by (intro map_cong) (simp_all add: option.map_sel)
    have "\<forall>i\<in>set [2..<n]. v i \<noteq> None" using True v by auto
    then have "loop (bmm_step (map int b1 @ [x1, y1]) (map int b2 @ [x2, y2]) n) [2..<n] out =
        Some (Next (fold (\<lambda>i out. out[n - 1 - i := the (v i)]) [2..<n] out))"
      unfolding v_def by (rule bmm.fill_Next)
    also have "fold (\<lambda>i out. out[n - 1 - i := the (v i)]) [2..<n] out =
        take (n - n) out @ rev (map (\<lambda>i. the (v i)) [2..<n]) @ drop (n - 2) out"
      using fold_fill_back [OF out(1) N(1) order_refl, of "\<lambda>i. the (v i)"] by simp
    also have "\<dots> = map int (rev (map (\<lambda>i. the (d i)) [0..<n - 2])) @ [p, q]"
      by (simp add: vs out rev_map comp_def)
    finally show ?thesis by (simp add: np)
  next
    case False
    then obtain i where i: "i < n - 2" "d i = None" by auto
    then have np: "np_broadcast b1 b2 = None" unfolding d_def N(2) by (rule np_broadcast_None)
    have "\<exists>i\<in>set [2..<n]. v i = None"
      using i v [of "i + 2"] by (intro bexI [of _ "i + 2"]) simp_all
    then have "loop (bmm_step (map int b1 @ [x1, y1]) (map int b2 @ [x2, y2]) n) [2..<n] out =
        Some (Return kLiteRtStatusErrorInvalidArgument)"
      unfolding v_def by (rule bmm.fill_Return)
    then show ?thesis by (simp add: np)
  qed
  then show ?thesis by (simp add: out_def)
qed

lemma bmm_unfold:
  assumes "bmm_flags (options op) = (adj_x, adj_y)" and "2 \<le> length lhs" and "2 \<le> length rhs"
    and "m = (if adj_x then lhs ! (length lhs - 1) else lhs ! (length lhs - 2))"
    and "k1 = (if adj_x then lhs ! (length lhs - 2) else lhs ! (length lhs - 1))"
    and "k2 = (if adj_y then rhs ! (length rhs - 1) else rhs ! (length rhs - 2))"
    and "n = (if adj_y then rhs ! (length rhs - 2) else rhs ! (length rhs - 1))"
  shows "InferBatchMatmul op [lhs, rhs] outs =
     (if k1 \<noteq> - 1 \<and> k2 \<noteq> - 1 \<and> k1 \<noteq> k2 then Some (kLiteRtStatusErrorInvalidArgument, outs)
      else after (loop (bmm_step lhs rhs (max (length lhs) (length rhs))) [2..<max (length lhs) (length rhs)]
             ((replicate (max (length lhs) (length rhs)) 0)
                [max (length lhs) (length rhs) - 2 := m, max (length lhs) (length rhs) - 1 := n]))
           outs (\<lambda>out_shape. store0 out_shape outs))"
  using assms(2,3) unfolding assms(4-7) InferBatchMatmul_def by (simp add: assms(1) Let_def)

text \<open>A batched matrix multiplication of static batches contracts the inner dimensions and broadcasts
  the batch dimensions: with the adjoint flags of its options it returns the broadcast batch followed
  by the outer dimensions, and rejects inner dimensions that differ and batches that do not broadcast.
\<close>

theorem InferBatchMatmul_static:
  "InferBatchMatmul \<lparr>options = BatchMatMulOptions adj_x adj_y, Inputs = ins, NumOutputs = k\<rparr>
      [map int b1 @ (if adj_x then [k1, m] else [m, k1]), map int b2 @ (if adj_y then [n, k2] else [k2, n])]
      (out # outs) =
     (if k1 \<noteq> - 1 \<and> k2 \<noteq> - 1 \<and> k1 \<noteq> k2 then Some (kLiteRtStatusErrorInvalidArgument, out # outs)
      else case np_broadcast b1 b2 of
        Some b \<Rightarrow> Some (kLiteRtStatusOk, (map int b @ [m, n]) # outs)
      | None \<Rightarrow> Some (kLiteRtStatusErrorInvalidArgument, out # outs))"
proof -
  define lhs where "lhs = map int b1 @ (if adj_x then [k1, m] else [m, k1])"
  define rhs where "rhs = map int b2 @ (if adj_y then [n, k2] else [k2, n])"
  define xs where "xs = (if adj_x then [k1, m] else [m, k1])"
  define ys where "ys = (if adj_y then [n, k2] else [k2, n])"
  have "\<exists>x1 y1. xs = [x1, y1]" "\<exists>x2 y2. ys = [x2, y2]" by (simp_all add: xs_def ys_def)
  then obtain x1 y1 x2 y2 where xy: "xs = [x1, y1]" "ys = [x2, y2]" by blast
  have l: "length lhs = length b1 + 2" "length rhs = length b2 + 2" by (simp_all add: lhs_def rhs_def)
  then have r: "max (length lhs) (length rhs) = max (length b1) (length b2) + 2" by simp
  have "InferBatchMatmul \<lparr>options = BatchMatMulOptions adj_x adj_y, Inputs = ins, NumOutputs = k\<rparr> [lhs, rhs] (out # outs) =
     (if k1 \<noteq> - 1 \<and> k2 \<noteq> - 1 \<and> k1 \<noteq> k2 then Some (kLiteRtStatusErrorInvalidArgument, out # outs)
      else after (loop (bmm_step lhs rhs (max (length lhs) (length rhs))) [2..<max (length lhs) (length rhs)]
             ((replicate (max (length lhs) (length rhs)) 0)
                [max (length lhs) (length rhs) - 2 := m, max (length lhs) (length rhs) - 1 := n]))
           (out # outs) (\<lambda>out_shape. store0 out_shape (out # outs)))"
    by (rule bmm_unfold) (simp_all add: l, simp_all add: lhs_def rhs_def nth_append)
  also have "loop (bmm_step lhs rhs (max (length lhs) (length rhs))) [2..<max (length lhs) (length rhs)]
             ((replicate (max (length lhs) (length rhs)) 0)
                [max (length lhs) (length rhs) - 2 := m, max (length lhs) (length rhs) - 1 := n]) =
      Some (case np_broadcast b1 b2 of
        Some b \<Rightarrow> Next (map int b @ [m, n]) | None \<Rightarrow> Return kLiteRtStatusErrorInvalidArgument)"
    unfolding r unfolding lhs_def rhs_def xs_def [symmetric] ys_def [symmetric] xy by (rule bmm_loop) simp
  finally show ?thesis
    unfolding lhs_def [symmetric] rhs_def [symmetric] by (simp split: option.split)
qed

section \<open>Broadcasting to a constant shape\<close>

lemma check_loop:
  "loop (\<lambda>i _. if P i then Some (Return e) else Some (Next ())) is () =
   Some (if \<exists>i\<in>set is. P i then Return e else Next ())"
  by (induction "is") simp_all

lemma np_dim_target: "np_dim a b = Some b \<longleftrightarrow> a = 1 \<or> a = b"
  by (auto simp: np_dim_def)

lemma np_broadcast_target:
  "np_broadcast c t = Some t \<longleftrightarrow>
   length c \<le> length t \<and> (\<forall>i<length c. rev c ! i = 1 \<or> rev c ! i = rev t ! i)"
  by (auto simp: np_broadcast_Some_iff np_dim_target dim_or_1_def max_def split: if_splits)

text \<open>\<open>BroadcastTo\<close> with a constant 32-bit target accepts a static input exactly when broadcasting the
  input against the target gives the target, and then returns the target.
\<close>

theorem InferBroadcastTo_static:
  assumes "Input op 1 = Some \<lparr>Type = RankedTensorType kLiteRtElementTypeInt32 ds, Buffer = buf\<rparr>"
    and "length buf mod 4 = 0" and "buf \<noteq> []" and "read_i32s buf = map int t"
  shows "InferBroadcastTo op (map int c # s # rest) [out] =
     (if np_broadcast c t = Some t then Some (kLiteRtStatusOk, [map int t])
      else Some (kLiteRtStatusErrorShapeInferenceFailed, [out]))"
proof -
  have "4 \<le> length buf" using assms(2,3) by (cases "length buf < 4") auto
  moreover have "(\<exists>i\<in>{0..<length c}. map int c ! (length c - Suc i) \<noteq> 1 \<and>
      map int c ! (length c - Suc i) \<noteq> map int t ! (length t - Suc i)) \<longleftrightarrow>
      \<not> (\<forall>i<length c. rev c ! i = 1 \<or> rev c ! i = rev t ! i)" if "length c \<le> length t"
    using that by (auto simp: rev_nth)
  ultimately show ?thesis
    using assms
    by (simp add: InferBroadcastTo_def broadcast_to_shape_def Let_def check_loop np_broadcast_target)
qed

theorem InferBroadcastTo_static_witness:
  "InferBroadcastTo \<lparr>options = OtherOptions,
       Inputs = [None, Some \<lparr>Type = RankedTensorType kLiteRtElementTypeInt32 [2],
                            Buffer = [3, 0, 0, 0, 2, 0, 0, 0]\<rparr>], NumOutputs = 1\<rparr>
     (map int [3, 1] # [2] # []) [[]] = Some (kLiteRtStatusOk, [[3, 2]])"
  by (subst InferBroadcastTo_static [where t = "[3, 2]" and ds = "[2]" and buf = "[3, 0, 0, 0, 2, 0, 0, 0]"])
    (simp_all add: Input_def at_def read_i32s_def read_i32_def to_i32_def upt_rec
      np_broadcast_def np_dim_def)

section \<open>Fully connected layers\<close>

lemma fc_batch_static:
  assumes "input \<noteq> []" and "- 1 \<notin> set input" and "\<forall>k. fits64 (prod_list (take k (butlast input)))"
  shows "fc_batch input = Some (Next (False, prod_list (butlast input)))"
proof -
  have "loop (\<lambda>d (dynamic_batch, batch).
          if d = - 1 then Some (Next (True, batch))
          else do { batch' \<leftarrow> i64 (batch * d); Some (Next (dynamic_batch, batch')) }) xs (False, p) =
      Some (Next (False, p * prod_list xs))"
    if "- 1 \<notin> set xs" "\<forall>k. fits64 (p * prod_list (take k xs))" for p xs
    using that
  proof (induction xs arbitrary: p)
    case Nil
    then show ?case by simp
  next
    case (Cons x xs)
    from Cons.prems(2) have "\<forall>k. fits64 (p * prod_list (take (Suc k) (x # xs)))" by blast
    then have f: "\<forall>k. fits64 (p * x * prod_list (take k xs))" by (simp add: mult.assoc)
    from f [rule_format, of 0] have "fits64 (p * x)" by simp
    then show ?case using Cons.prems(1) Cons.IH [OF _ f] by (simp add: i64_def mult.assoc)
  qed
  from this [of "butlast input" 1] show ?thesis
    using assms by (auto simp: fc_batch_def dest: in_set_butlastD)
qed

text \<open>
  Without \<open>keep_num_dims\<close>, a fully connected layer with two-dimensional weights flattens a static
  input to two dimensions: the product of all its dimensions but the last, and the number of rows of
  the weights.
\<close>

theorem InferFullyConnected_static:
  assumes "fc_keep_num_dims (options op) = False" and "input \<noteq> []" and "- 1 \<notin> set input"
    and "\<forall>k. fits32 (prod_list (take k (butlast input)))"
  shows "InferFullyConnected op (input # [units, depth] # rest) (out # outs) =
     Some (kLiteRtStatusOk, [prod_list (butlast input), units] # outs)"
proof -
  have "fits32 (prod_list (butlast input))"
    using assms(4) [rule_format, of "length input"] by simp
  moreover have "fc_batch input = Some (Next (False, prod_list (butlast input)))"
    using assms by (intro fc_batch_static) (auto intro: fits32_fits64)
  ultimately show ?thesis using assms(1) by (simp add: InferFullyConnected_def Let_def)
qed

theorem InferFullyConnected_static_witness:
  "InferFullyConnected \<lparr>options = FullyConnectedOptions False, Inputs = [], NumOutputs = 1\<rparr>
     ([2, 3, 4] # [5, 4] # []) ([] # []) = Some (kLiteRtStatusOk, [6, 5] # [])"
proof -
  have "fits32 (prod_list (take k [2, 3]))" for k
    by (cases k; cases "k - 1") (auto simp: fits32_def)
  then show ?thesis by (subst InferFullyConnected_static) simp_all
qed

end
