(* ===== verification/ShapeTypes.thy ===== *)
theory ShapeTypes
  imports EngineCorrect BroadcastCorrect
begin

text \<open>
  Typing of the inferred shapes: every dimension that a registered inferrer stores is an
  \<open>int32_t\<close>, for every input it accepts, and a subgraph whose ranked tensors are well typed stays so
  under inference.
\<close>

section \<open>Shapes of 32-bit dimensions\<close>

lemma dims_ok_simps [simp]:
  "dims_ok []" "dims_ok (d # s) \<longleftrightarrow> fits32 d \<and> dims_ok s" "dims_ok (s @ t) \<longleftrightarrow> dims_ok s \<and> dims_ok t"
  by (simp_all add: dims_ok_def)

lemma dims_ok_iff: "dims_ok s \<longleftrightarrow> (\<forall>d\<in>set s. fits32 d)"
  by (simp add: dims_ok_def list_all_iff)

lemma fits32_consts [simp]: "fits32 (- 1)" "fits32 0" "fits32 1"
  by (simp_all add: fits32_def)

lemma fits32_read_i32 [simp]: "fits32 (read_i32 bs i)"
  by (simp add: read_i32_def)

named_theorems dims_intros

lemma dims_ok_parts [dims_intros]:
  "dims_ok s \<Longrightarrow> dims_ok (take k s)" "dims_ok s \<Longrightarrow> dims_ok (drop k s)" "dims_ok s \<Longrightarrow> dims_ok (butlast s)"
  "dims_ok s \<Longrightarrow> dims_ok (tl s)" "fits32 d \<Longrightarrow> dims_ok (replicate k d)" "dims_ok (read_i32s bs)"
  "dims_ok (map to_i32 ds)"
  by (auto simp: dims_ok_iff read_i32s_def dest: in_set_takeD in_set_dropD in_set_butlastD list.set_sel(2))
    (metis list.sel(2) list.set_sel(2))

lemma dims_ok_update [dims_intros]: "dims_ok s \<Longrightarrow> fits32 d \<Longrightarrow> dims_ok (s[i := d])"
  by (auto simp: dims_ok_iff dest: set_update_subset_insert [THEN subsetD])

lemma dims_ok_nth [dims_intros]: "dims_ok s \<Longrightarrow> i < length s \<Longrightarrow> fits32 (s ! i)"
  by (simp add: dims_ok_iff)

abbreviation shapes_ok :: "Dims list \<Rightarrow> bool" where
  "shapes_ok \<equiv> list_all dims_ok"

lemma shapes_ok_nth [dims_intros]: "shapes_ok ss \<Longrightarrow> i < length ss \<Longrightarrow> dims_ok (ss ! i)"
  by (simp add: list_all_length)

lemma shapes_ok_tl [dims_intros]: "shapes_ok ss \<Longrightarrow> shapes_ok (tl ss)"
  by (cases ss) simp_all

lemma list_all_const [dims_intros]: "P \<Longrightarrow> list_all (\<lambda>_. P) xs"
  by (simp add: list_all_iff)

lemma shapes_ok_update [dims_intros]: "shapes_ok ss \<Longrightarrow> dims_ok d \<Longrightarrow> shapes_ok (ss[i := d])"
  by (auto simp: list_all_iff dest: set_update_subset_insert [THEN subsetD])

fun options_ok :: "TflOptions \<Rightarrow> bool" where
  "options_ok (ReshapeOptions s) = dims_ok s"
| "options_ok _ = True"

text \<open>What an inferrer leaves in \<open>output_shapes\<close> is well typed when what it is given is.\<close>

definition result_ok :: "inferred \<Rightarrow> bool" where
  "result_ok r = (case r of Some (_, outs) \<Rightarrow> shapes_ok outs | None \<Rightarrow> True)"

definition typed :: "OpShapeInferrer \<Rightarrow> bool" where
  "typed f \<longleftrightarrow> (\<forall>op ins outs. options_ok (options op) \<longrightarrow> shapes_ok ins \<longrightarrow> shapes_ok outs \<longrightarrow> result_ok (f op ins outs))"

lemma typedI [intro]:
  "(\<And>op ins outs. options_ok (options op) \<Longrightarrow> shapes_ok ins \<Longrightarrow> shapes_ok outs \<Longrightarrow> result_ok (f op ins outs)) \<Longrightarrow>
   typed f"
  by (simp add: typed_def)

lemma typedD:
  "typed f \<Longrightarrow> options_ok (options op) \<Longrightarrow> shapes_ok ins \<Longrightarrow> shapes_ok outs \<Longrightarrow> result_ok (f op ins outs)"
  by (simp add: typed_def)

lemma result_ok_simps [simp]:
  "result_ok None" "result_ok (Some (st, outs)) \<longleftrightarrow> shapes_ok outs"
  by (simp_all add: result_ok_def)

lemma result_ok_store0 [dims_intros]: "dims_ok d \<Longrightarrow> shapes_ok outs \<Longrightarrow> result_ok (store0 d outs)"
  by (cases outs) simp_all

lemma result_ok_after [dims_intros]:
  "shapes_ok outs \<Longrightarrow> (\<And>s. r = Some (Next s) \<Longrightarrow> result_ok (k s)) \<Longrightarrow> result_ok (after r outs k)"
  by (auto simp: after_def split: option.split flow.split)

lemma result_ok_bind [dims_intros]:
  "(\<And>x. m = Some x \<Longrightarrow> result_ok (f x)) \<Longrightarrow> result_ok (Option.bind m f)"
  by (cases m) simp_all

lemma result_ok_if [dims_intros]:
  "(b \<Longrightarrow> result_ok x) \<Longrightarrow> (\<not> b \<Longrightarrow> result_ok y) \<Longrightarrow> result_ok (if b then x else y)"
  by simp

section \<open>Element-wise inferrers\<close>

lemma fits32_dim_from_back: "dims_ok s \<Longrightarrow> fits32 (dim_from_back s i)"
  by (simp add: dim_from_back_def dims_ok_nth)

lemma fits32_broadcast_dim: "broadcast_dim a b = Some d \<Longrightarrow> fits32 a \<Longrightarrow> fits32 b \<Longrightarrow> fits32 d"
  by (auto simp: broadcast_dim_def split: if_splits)

interpretation binary_types: flow_loop "binary_step s1 s2 n" dims_ok "\<lambda>_. dims_ok s1 \<and> dims_ok s2" for s1 s2 n
  by unfold_locales
    (auto simp: binary_step_def intro!: dims_intros elim!: fits32_broadcast_dim fits32_dim_from_back split: option.splits)

interpretation bmm_types: flow_loop "bmm_step s1 s2 n" dims_ok "\<lambda>_. dims_ok s1 \<and> dims_ok s2" for s1 s2 n
  by unfold_locales
    (auto simp: bmm_step_def intro!: dims_intros elim!: fits32_broadcast_dim fits32_dim_from_back split: option.splits)

lemma fits32_select_value: "select_value a b c = Some d \<Longrightarrow> fits32 a \<Longrightarrow> fits32 b \<Longrightarrow> fits32 c \<Longrightarrow> fits32 d"
  by (auto simp: select_value_def select_dim_def split: if_splits)

interpretation select_types: flow_loop "select_step s1 s2 s3 n" dims_ok
  "\<lambda>_. dims_ok s1 \<and> dims_ok s2 \<and> dims_ok s3" for s1 s2 s3 n
  by unfold_locales
    (auto simp: select_step_value intro!: dims_intros elim!: fits32_select_value fits32_dim_from_back split: option.splits)

lemma typed_Identity: "typed InferSimpleUnary"
  by (intro typedI)
    (auto simp: InferSimpleUnary_def InferIdentity_def at_def intro!: dims_intros)

lemma typed_Binary: "typed InferSimpleBinary"
  by (intro typedI)
    (auto simp: InferSimpleBinary_def InferElementwiseBinary_def Let_def
        intro!: dims_intros dest!: binary_types.loop_inv)

lemma typed_Select: "typed InferSelect"
  by (intro typedI)
    (auto simp: InferSelect_def Let_def intro!: dims_intros dest!: select_types.loop_inv)

lemma typed_BatchMatmul: "typed InferBatchMatmul"
  by (intro typedI)
    (auto simp: InferBatchMatmul_def Let_def split: prod.split
      intro!: dims_intros dest!: bmm_types.loop_inv)

lemma typed_BroadcastTo: "typed InferBroadcastTo"
  by (intro typedI)
    (auto simp: InferBroadcastTo_def broadcast_to_shape_def Let_def split: TensorType.split option.split
      intro!: dims_intros)

lemma typed_FullyConnected: "typed InferFullyConnected"
  by (intro typedI)
    (auto simp: InferFullyConnected_def put_back_def Let_def intro!: dims_intros split: prod.split)


section \<open>Structural inferrers\<close>

lemma reshape_target_ok: "reshape_target op = Some (Next s) \<Longrightarrow> options_ok (options op) \<Longrightarrow> dims_ok s"
  by (cases "options op") (auto simp: reshape_target_def bind_eq_Some_conv intro!: dims_intros split: if_splits)

lemma typed_Reshape: "typed InferReshape"
  by (intro typedI)
    (auto simp: InferReshape_def Let_def intro!: dims_intros split: prod.split dest!: reshape_target_ok)

interpretation concat_dim_types: flow_loop "concat_dim axis shape" "\<lambda>out. dims_ok out" "\<lambda>i. dims_ok shape \<and> i < length shape"
  for axis shape
  by unfold_locales
    (auto simp: concat_dim_def bind_eq_Some_conv i32_Some_iff intro!: dims_intros split: if_splits)

interpretation concat_shape_types: flow_loop "concat_shape rank axis" dims_ok dims_ok for rank axis
  by unfold_locales
    (auto simp: concat_shape_def list_all_length dest!: concat_dim_types.loop_inv split: if_splits)

lemma typed_Concatenation: "typed InferConcatenation"
  by (intro typedI)
    (auto simp: InferConcatenation_def Let_def intro!: dims_intros split: option.split
      dest!: concat_shape_types.loop_inv)

lemma typed_Pack: "typed InferPack"
  by (intro typedI)
    (auto simp: InferPack_def insert_at_def Let_def intro!: dims_intros split: if_splits)

lemma typed_Unpack: "typed InferUnpack"
  by (intro typedI)
    (auto simp: InferUnpack_def Let_def list_all_length intro!: dims_intros shapes_ok_nth [unfolded list_all_length])

interpretation transpose_types: flow_loop "transpose_step s perm (length s)" dims_ok "\<lambda>_. dims_ok s" for s perm
  by unfold_locales (auto simp: transpose_step_def intro!: dims_intros split: if_splits)

lemma typed_Transpose: "typed InferTranspose"
  by (intro typedI)
    (auto simp: InferTranspose_def Let_def intro!: dims_intros dest!: transpose_types.loop_inv)

lemma typed_Gather: "typed InferGather" "typed InferGatherNd" "typed InferEmbeddingLookup"
  by (intro typedI; auto simp: InferGather_def InferGatherNd_def InferEmbeddingLookup_def Let_def intro!: dims_intros)+

lemma typed_Slice: "typed InferSlice" "typed InferDynamicUpdateSlice"
  by (intro typedI; auto simp: InferSlice_def InferDynamicUpdateSlice_def Let_def intro!: dims_intros)+

lemma typed_TopKV2: "typed InferTopKV2"
  by (intro typedI)
    (auto simp: InferTopKV2_def Let_def intro!: dims_intros split: if_splits)

interpretation pad_types: flow_loop "pad_step paddings" dims_ok "\<lambda>_. True" for paddings
  by unfold_locales (auto simp: pad_step_def bind_eq_Some_conv intro!: dims_intros split: if_splits)

lemma typed_Pad: "typed InferPad" "typed InferPadv2" "typed InferMirrorPad"
proof -
  show "typed InferPad"
    by (intro typedI)
      (auto simp: InferPad_def Let_def store0_Some_iff intro!: dims_intros split: option.split prod.split
        dest!: pad_types.loop_inv)
  then show "typed InferPadv2" "typed InferMirrorPad"
    by (simp_all add: InferPadv2_def [abs_def] InferMirrorPad_def [abs_def] typed_def)
qed

lemma dims_ok_reduced: "dims_ok s \<Longrightarrow> dims_ok (reduced_shape axes keep s)"
  by (auto simp: reduced_shape_def dims_ok_iff split: if_splits)

lemma typed_Reduce: "typed InferReduce" "typed InferArgMinMax"
  by (intro typedI; auto simp: InferReduce_def InferArgMinMax_def InferGenericReduction_def Let_def
      intro!: dims_intros dims_ok_reduced split: option.split)+

section \<open>Image inferrers\<close>

lemma fits32_window: "ComputeOutputSize padding n f s d = Some r \<Longrightarrow> fits32 r"
  by (auto simp: ComputeOutputSize_def bind_eq_Some_conv div32_def i32_Some_iff split: if_splits Padding.splits)

lemma typed_Conv: "typed InferConv2D" "typed InferDepthwiseConv2D" "typed InferConv3D" "typed InferPool2D"
  by (intro typedI; auto simp: InferConv2D_def InferDepthwiseConv2D_def InferConv3D_def InferPool2D_def Let_def
      intro!: dims_intros dest: fits32_window split: option.split)+

lemma typed_TransposeConv: "typed InferTransposeConv" "typed InferConv3DTranspose"
  by (intro typedI; auto simp: InferTransposeConv_def InferConv3DTranspose_def Let_def put_def at_def
      intro!: dims_intros split: if_splits)+

lemma typed_Spatial: "typed InferDepthToSpace" "typed InferSpaceToDepth" "typed InferResizeBilinear"
    "typed InferResizeNearestNeighbor"
  by (intro typedI; auto simp: InferDepthToSpace_def InferSpaceToDepth_def InferResizeBilinear_def
      InferResizeNearestNeighbor_def InferResizeOp_def Let_def i32_Some_iff div32_def bind_eq_Some_conv
      intro!: dims_intros split: if_splits)+


section \<open>The engine\<close>

lemmas all_typed = typed_Identity typed_Binary typed_Select typed_BatchMatmul typed_BroadcastTo typed_FullyConnected
  typed_Reshape typed_Concatenation typed_Pack typed_Unpack typed_Transpose typed_Gather typed_Slice typed_TopKV2
  typed_Pad typed_Reduce typed_Conv typed_TransposeConv typed_Spatial

lemma foldl_register:
  "foldl (\<lambda>r (op_code, inferrer). r(op_code := Some inferrer)) r xs c = Some f \<Longrightarrow>
   r c = Some f \<or> f \<in> snd ` set xs"
proof (induction xs arbitrary: r)
  case Nil
  then show ?case by simp
next
  case (Cons x xs)
  obtain c' f' where x: "x = (c', f')" by (cases x)
  from Cons.prems have "(r(c' := Some f')) c = Some f \<or> f \<in> snd ` set xs" unfolding x by (intro Cons.IH) simp
  then show ?case by (auto simp: x split: if_splits)
qed

lemma standard_typed:
  assumes "registry (new_engine m) c = Some f"
  shows "typed f"
proof -
  have "f \<in> snd ` set standard_ops"
    using assms foldl_register [of "\<lambda>_. None" standard_ops c f]
    by (simp add: new_engine_def RegisterStandardOps_def register_all)
  then show ?thesis by (auto simp: standard_ops_def all_typed)
qed

text \<open>A ranked tensor type as the layout stores it: at most eight dimensions, each an \<open>int32_t\<close>.\<close>

definition tensor_ok :: "LiteRtTensorT \<Rightarrow> bool" where
  "tensor_ok t = (case tensor_type t of
     RankedTensorType _ s \<Rightarrow> dims_ok s \<and> length s \<le> LITERT_TENSOR_MAX_RANK | _ \<Rightarrow> True)"

lemma set_shape_ok: "set_shape t s = Some t' \<Longrightarrow> tensor_ok t \<Longrightarrow> dims_ok s \<Longrightarrow> tensor_ok t'"
  by (auto simp: set_shape_def MakeRankedTensorType_def tensor_ok_def split: if_splits)

lemma apply_outputs_ok:
  "apply_outputs v outs ts = Some (st, ts') \<Longrightarrow> list_all tensor_ok ts \<Longrightarrow> \<forall>(p, s)\<in>set outs. dims_ok s \<Longrightarrow>
   list_all tensor_ok ts'"
proof (induction outs arbitrary: ts)
  case Nil
  then show ?case by simp
next
  case (Cons out outs)
  have step: "list_all tensor_ok ts1" if "apply_output v out ts = Some (Next ts1)" for ts1
    using that Cons.prems(2,3) set_update_subset_insert [of ts] set_shape_ok
    by (fastforce simp: apply_output_def bind_eq_Some_conv at_Some_iff list_all_iff split: option.splits if_splits prod.splits)
  show ?case
    using Cons.prems Cons.IH step by (auto split: option.splits flow.splits)
qed

lemma tensor_ok_nth:
  "tensor_type (ts ! i) = RankedTensorType e s \<Longrightarrow> list_all tensor_ok ts \<Longrightarrow> i < length ts \<Longrightarrow> dims_ok s"
  by (auto simp: list_all_length tensor_ok_def dest!: spec [of _ i])

interpretation collect_types: flow_loop "collect_shape ts" shapes_ok "\<lambda>_. list_all tensor_ok ts" for ts
  by unfold_locales
    (auto simp: collect_shape_def bind_eq_Some_conv at_Some_iff dest: tensor_ok_nth
      split: option.splits TensorType.splits)

lemma InferOpShapes_ok:
  assumes "InferOpShapes reg v op ts = Some (st, ts')" and "\<And>c f. reg c = Some f \<Longrightarrow> typed f"
    and "options_ok (tfl_option op)" and ts: "list_all tensor_ok ts"
  shows "list_all tensor_ok ts'"
proof (cases "ts' = ts")
  case False
  then obtain shapes outs where l: "loop (collect_shape ts) (op_inputs op) [] = Some (Next shapes)"
    and g: "InferOpShapes_given reg ts op shapes (replicate (length (op_outputs op)) []) = Some (kLiteRtStatusOk, outs)"
    and a: "apply_outputs v (zip (op_outputs op) outs) ts = Some (st, ts')"
    using assms(1)
    by (auto simp: InferOpShapes_def bind_eq_Some_conv split: option.splits flow.splits if_splits)
  have shapes: "shapes_ok shapes" using collect_types.loop_inv [OF l] ts by (simp add: list_all_iff)
  obtain f where f: "reg (litert_op_code op) = Some f"
      "f (view_op ts op) shapes (replicate (length (op_outputs op)) []) = Some (kLiteRtStatusOk, outs)"
    using g by (auto simp: InferOpShapes_given_def split: option.splits)
  have "result_ok (f (view_op ts op) shapes (replicate (length (op_outputs op)) []))"
    by (rule typedD [OF assms(2) [OF f(1)]])
      (use shapes assms(3) in \<open>simp_all add: view_op_def list_all_iff\<close>)
  then have "shapes_ok outs" by (simp add: f(2))
  then have "\<forall>(p, s)\<in>set (zip (op_outputs op) outs). dims_ok s"
    by (auto simp: list_all_iff dest: set_zip_rightD)
  with a ts show ?thesis by (rule apply_outputs_ok)
qed (use ts in simp)

lemma infer_ops_ok:
  "infer_ops reg v k ops' ts = Some (st, ts', f) \<Longrightarrow> (\<And>c f. reg c = Some f \<Longrightarrow> typed f) \<Longrightarrow>
   \<forall>op\<in>set ops'. options_ok (tfl_option op) \<Longrightarrow> list_all tensor_ok ts \<Longrightarrow> list_all tensor_ok ts'"
proof (induction ops' arbitrary: k ts)
  case Nil
  then show ?case by simp
next
  case (Cons op ops')
  then obtain st1 ts1 where 1: "InferOpShapes reg v op ts = Some (st1, ts1)" by (auto simp: bind_eq_Some_conv)
  have "list_all tensor_ok ts1" using InferOpShapes_ok [OF 1 Cons.prems(2)] Cons.prems(3,4) by simp
  then show ?case using Cons.prems Cons.IH [of "Suc k" ts1] 1 by (auto split: if_splits)
qed

text \<open>
  With the standard inferrers, inference that returns keeps a subgraph well typed, whatever its status. It need not
  return: when an inferrer yields more than eight dimensions, \<open>MakeRankedTensorType\<close> has no defined behaviour.
\<close>

theorem InferSubgraphShapes_well_typed:
  assumes "InferSubgraphShapes (registry (new_engine m)) v sg = Some (st, sg', failing_op)"
    and "\<forall>op\<in>set (ops sg). options_ok (tfl_option op)" and "list_all tensor_ok (tensors sg)"
  shows "list_all tensor_ok (tensors sg')"
proof -
  obtain ts where i: "infer_ops (registry (new_engine m)) v 0 (ops sg) (tensors sg) = Some (st, ts, failing_op)"
    and sg': "sg' = sg\<lparr>tensors := ts\<rparr>"
    using assms(1) by (auto simp: InferSubgraphShapes_def bind_eq_Some_conv)
  show ?thesis using infer_ops_ok [OF i standard_typed assms(2,3)] by (simp add: sg')
qed

theorem InferSubgraphShapes_well_typed_witness:
  "list_all tensor_ok (tensors (demo_inferred [- 1, 3]))"
  by (rule InferSubgraphShapes_well_typed [of None False demo_subgraph, unfolded new_engine_simps, OF demo_infers])
    (simp_all add: demo_defs tensor_ok_def fits32_def)

text \<open>Packing two tensors of eight dimensions gives nine, which do not fit the layout of a tensor's type.\<close>

lemma InferPack_rank_eight:
  "InferPack \<lparr>options = PackOptions 0, Inputs = ins, NumOutputs = 1\<rparr> [replicate 8 1, replicate 8 1] [[]] =
     Some (kLiteRtStatusOk, [2 # replicate 8 1])"
  "element_type_of (tensor_type t) \<noteq> kLiteRtElementTypeNone \<Longrightarrow> set_shape t (2 # replicate 8 1) = None"
  by (simp_all add: InferPack_def insert_at_def to_i32_def set_shape_def MakeRankedTensorType_def)

end
