(* ===== verification/GraphIR.thy ===== *)
theory GraphIR
  imports ShapeEngine
begin

text \<open>
  The LiteRT graph as objects linked by pointers: \<^verbatim>\<open>src/litert/core/model/model.h\<close>,
  \<^verbatim>\<open>ir_allocator.h\<close>, the graph operations of \<^verbatim>\<open>model.cc\<close> and the checks of
  \<^verbatim>\<open>graph_validation.cc\<close>.

  Tensors and operations live in a heap that maps references to objects; \<open>None\<close> is storage that is not
  allocated, so a function that follows a dangling or null pointer, or reads outside a vector, has the
  result \<open>None\<close>.  References are never reused.  The records of tensors and operations are those of
  the shape-inference model: the users and the defining operation of a tensor, and the operands of an
  operation, are read here as references.  \<open>ABSL_DCHECK\<close> is a no-op, as in a release build.
\<close>

section \<open>Heap and subgraphs\<close>

record ir_heap =
  tensor_of :: "nat \<Rightarrow> LiteRtTensorT option"
  op_of :: "nat \<Rightarrow> LiteRtOpT option"
  next_tensor :: nat
  next_op :: nat

record ir_graph =
  g_tensors :: "nat list"
  g_ops :: "nat list"
  g_inputs :: "nat list"
  g_outputs :: "nat list"

definition empty_graph :: ir_graph where
  "empty_graph = \<lparr>g_tensors = [], g_ops = [], g_inputs = [], g_outputs = []\<rparr>"

abbreviation set_tensor :: "nat \<Rightarrow> LiteRtTensorT \<Rightarrow> ir_heap \<Rightarrow> ir_heap" where
  "set_tensor t tt h \<equiv> h\<lparr>tensor_of := (tensor_of h)(t \<mapsto> tt)\<rparr>"

abbreviation set_op :: "nat \<Rightarrow> LiteRtOpT \<Rightarrow> ir_heap \<Rightarrow> ir_heap" where
  "set_op k op h \<equiv> h\<lparr>op_of := (op_of h)(k \<mapsto> op)\<rparr>"

text \<open>\<open>EmplaceTensor\<close> and \<open>EmplaceOpAt\<close> construct an object at the next free reference.\<close>

definition EmplaceTensor :: "LiteRtTensorT \<Rightarrow> ir_graph \<Rightarrow> ir_heap \<Rightarrow> nat \<times> ir_graph \<times> ir_heap" where
  "EmplaceTensor content g h =
     (next_tensor h, g\<lparr>g_tensors := g_tensors g @ [next_tensor h]\<rparr>,
      h\<lparr>tensor_of := (tensor_of h)(next_tensor h \<mapsto> content), next_tensor := Suc (next_tensor h)\<rparr>)"

definition EmplaceOpAt :: "nat \<Rightarrow> LiteRtOpT \<Rightarrow> ir_graph \<Rightarrow> ir_heap \<Rightarrow> (nat \<times> ir_graph \<times> ir_heap) option" where
  "EmplaceOpAt index content g h =
     (if index \<le> length (g_ops g) then
        Some (next_op h,
              g\<lparr>g_ops := take index (g_ops g) @ next_op h # drop index (g_ops g)\<rparr>,
              h\<lparr>op_of := (op_of h)(next_op h \<mapsto> content), next_op := Suc (next_op h)\<rparr>)
      else None)"

text \<open>The two overloads of \<open>MakeClone\<close>; \<open>clone_tensor\<close> and \<open>clone_op\<close> model \<open>CloneTo\<close>.\<close>

definition MakeClone_tensor :: "nat \<Rightarrow> ir_graph \<Rightarrow> ir_heap \<Rightarrow> (nat \<times> ir_graph \<times> ir_heap) option" where
  "MakeClone_tensor src parent h = do {
     t \<leftarrow> tensor_of h src;
     Some (EmplaceTensor (clone_tensor t) parent h) }"

definition MakeClone_op :: "nat \<Rightarrow> ir_graph \<Rightarrow> ir_heap \<Rightarrow> (nat \<times> ir_graph \<times> ir_heap) option" where
  "MakeClone_op src parent h = do {
     op \<leftarrow> op_of h src;
     EmplaceOpAt (length (g_ops parent)) (clone_op op) parent h }"

text \<open>\<open>IrAllocator::RemoveIf\<close>: the elements that stay and those that are deallocated.\<close>

fun RemoveIf :: "(nat \<Rightarrow> bool option) \<Rightarrow> nat list \<Rightarrow> (nat list \<times> nat list) option" where
  "RemoveIf pred [] = Some ([], [])"
| "RemoveIf pred (r # rs) = do {
     dead \<leftarrow> pred r;
     (kept, removed) \<leftarrow> RemoveIf pred rs;
     Some (if dead then (kept, r # removed) else (r # kept, removed)) }"

section \<open>Observers\<close>

definition FindInd :: "'a list \<Rightarrow> 'a \<Rightarrow> nat option" where
  "FindInd xs val = (let i = length (takeWhile (\<lambda>x. x \<noteq> val) xs) in if i = length xs then None else Some i)"

definition FindInput :: "ir_graph \<Rightarrow> nat \<Rightarrow> nat option" where
  "FindInput g t = FindInd (g_inputs g) t"

definition FindOutput :: "ir_graph \<Rightarrow> nat \<Rightarrow> nat option" where
  "FindOutput g t = FindInd (g_outputs g) t"

definition IsIO :: "ir_graph \<Rightarrow> nat \<Rightarrow> bool" where
  "IsIO g t \<longleftrightarrow> FindInput g t \<noteq> None \<or> FindOutput g t \<noteq> None"

definition FindUseInds :: "LiteRtTensorT \<Rightarrow> nat \<Rightarrow> nat list" where
  "FindUseInds tt k = filter (\<lambda>i. fst (users tt ! i) = k) [0..<length (users tt)]"

definition GetTensorUses :: "LiteRtTensorT \<Rightarrow> nat list \<Rightarrow> (nat \<times> nat) list" where
  "GetTensorUses tt inds = map ((!) (users tt)) inds"

text \<open>
  The layout is read from the ranked member of the type's union, whatever the type is; for another
  type its content is not determined.
\<close>

definition IsConstant :: "LiteRtTensorT \<Rightarrow> bool option" where
  "IsConstant tt =
     (case tensor_type tt of
        RankedTensorType _ dims \<Rightarrow> Some (weights tt \<noteq> [] \<or> dims = [0])
      | _ \<Rightarrow> None)"

definition IsOpDead :: "LiteRtOpT \<Rightarrow> bool" where
  "IsOpDead op \<longleftrightarrow> op_inputs op = [] \<and> op_outputs op = []"

definition IsTensorDead :: "LiteRtTensorT \<Rightarrow> bool" where
  "IsTensorDead tt \<longleftrightarrow> defining_op tt = None \<and> users tt = []"

section \<open>Edges\<close>

text \<open>\<open>AttachInput\<close> and \<open>AttachOutput\<close> on the heap.\<close>

definition AttachInput_ir :: "nat option \<Rightarrow> nat \<Rightarrow> ir_heap \<Rightarrow> ir_heap option" where
  "AttachInput_ir p k h = do {
     op \<leftarrow> op_of h k;
     t \<leftarrow> p;
     tt \<leftarrow> tensor_of h t;
     Some (set_tensor t (tt\<lparr>users := users tt @ [(k, length (op_inputs op))]\<rparr>)
             (set_op k (op\<lparr>op_inputs := op_inputs op @ [p]\<rparr>) h)) }"

definition AttachOutput_ir :: "nat option \<Rightarrow> nat \<Rightarrow> ir_heap \<Rightarrow> ir_heap option" where
  "AttachOutput_ir p k h = do {
     op \<leftarrow> op_of h k;
     t \<leftarrow> p;
     tt \<leftarrow> tensor_of h t;
     Some (set_tensor t (tt\<lparr>defining_op := Some (k, length (op_outputs op))\<rparr>)
             (set_op k (op\<lparr>op_outputs := op_outputs op @ [p]\<rparr>) h)) }"

text \<open>The search for the use keeps the last one that matches.\<close>

definition target_use :: "LiteRtTensorT \<Rightarrow> nat \<times> nat \<Rightarrow> nat option" where
  "target_use tt u =
     (case filter (\<lambda>i. users tt ! i = u) [0..<length (users tt)] of [] \<Rightarrow> None | is \<Rightarrow> Some (last is))"

definition erase_at :: "nat \<Rightarrow> 'a list \<Rightarrow> 'a list" where
  "erase_at ind xs = take ind xs @ drop (Suc ind) xs"

definition RemoveUse :: "nat \<Rightarrow> LiteRtTensorT \<Rightarrow> LiteRtTensorT" where
  "RemoveUse ind tt = tt\<lparr>users := erase_at ind (users tt)\<rparr>"

text \<open>Uses of the operation after the removed input slide to the left.\<close>

definition slide_use :: "nat \<Rightarrow> nat \<Rightarrow> nat \<times> nat \<Rightarrow> nat \<times> nat" where
  "slide_use k input_ind u = (if fst u = k \<and> snd u > input_ind then (k, snd u - 1) else u)"

definition slide_input :: "nat \<Rightarrow> nat \<Rightarrow> nat option \<Rightarrow> ir_heap \<Rightarrow> ir_heap option" where
  "slide_input k input_ind p h = do {
     t \<leftarrow> p;
     tt \<leftarrow> tensor_of h t;
     Some (set_tensor t (tt\<lparr>users := map (slide_use k input_ind) (users tt)\<rparr>) h) }"

definition DisconnectInput :: "nat \<Rightarrow> nat \<Rightarrow> ir_heap \<Rightarrow> (nat \<times> ir_heap) option" where
  "DisconnectInput k input_ind h = do {
     op \<leftarrow> op_of h k;
     p \<leftarrow> at (op_inputs op) input_ind;
     input \<leftarrow> p;
     tt \<leftarrow> tensor_of h input;
     target_use_ind \<leftarrow> target_use tt (k, input_ind);
     h1 \<leftarrow> foldM (slide_input k input_ind) (drop (Suc input_ind) (op_inputs op)) h;
     tt1 \<leftarrow> tensor_of h1 input;
     Some (input, set_op k (op\<lparr>op_inputs := erase_at input_ind (op_inputs op)\<rparr>)
                    (set_tensor input (RemoveUse target_use_ind tt1) h1)) }"

definition DisconnectOutput :: "nat \<Rightarrow> nat \<Rightarrow> ir_heap \<Rightarrow> (nat \<times> ir_heap) option" where
  "DisconnectOutput k output_ind h = do {
     op \<leftarrow> op_of h k;
     p \<leftarrow> at (op_outputs op) output_ind;
     output \<leftarrow> p;
     tt \<leftarrow> tensor_of h output;
     Some (output, set_op k (op\<lparr>op_outputs := erase_at output_ind (op_outputs op)\<rparr>)
                     (set_tensor output (tt\<lparr>defining_op := None\<rparr>) h)) }"

text \<open>The two loops of \<open>Drop\<close>.\<close>

partial_function (option) drop_inputs :: "nat \<Rightarrow> ir_heap \<Rightarrow> ir_heap option" where
  "drop_inputs k h = do {
     op \<leftarrow> op_of h k;
     (if op_inputs op \<noteq> [] then do { r \<leftarrow> DisconnectInput k 0 h; drop_inputs k (snd r) }
      else Some h) }"

partial_function (option) drop_outputs :: "nat \<Rightarrow> ir_heap \<Rightarrow> ir_heap option" where
  "drop_outputs k h = do {
     op \<leftarrow> op_of h k;
     (if op_outputs op \<noteq> [] then do { r \<leftarrow> DisconnectOutput k 0 h; drop_outputs k (snd r) }
      else Some h) }"

definition Drop :: "nat \<Rightarrow> ir_heap \<Rightarrow> ir_heap option" where
  "Drop k h = do { h1 \<leftarrow> drop_inputs k h; drop_outputs k h1 }"

section \<open>Dead code elimination\<close>

definition free_ops :: "nat list \<Rightarrow> ir_heap \<Rightarrow> ir_heap" where
  "free_ops rs h = h\<lparr>op_of := (\<lambda>k. if k \<in> set rs then None else op_of h k)\<rparr>"

definition free_tensors :: "nat list \<Rightarrow> ir_heap \<Rightarrow> ir_heap" where
  "free_tensors rs h = h\<lparr>tensor_of := (\<lambda>t. if t \<in> set rs then None else tensor_of h t)\<rparr>"

definition DCE :: "ir_graph \<Rightarrow> ir_heap \<Rightarrow> (bool \<times> ir_graph \<times> ir_heap) option" where
  "DCE g h = do {
     (ops', ops_removed) \<leftarrow> RemoveIf (\<lambda>k. map_option IsOpDead (op_of h k)) (g_ops g);
     let h1 = free_ops ops_removed h;
     (tensors', tensors_removed) \<leftarrow>
       RemoveIf (\<lambda>t. map_option (\<lambda>tt. IsTensorDead tt \<and> \<not> IsIO g t) (tensor_of h1 t)) (g_tensors g);
     Some (length ops_removed + length tensors_removed > 0,
           g\<lparr>g_ops := ops', g_tensors := tensors'\<rparr>, free_tensors tensors_removed h1) }"

section \<open>Validation\<close>

fun all_opt :: "('a \<Rightarrow> bool option) \<Rightarrow> 'a list \<Rightarrow> bool option" where
  "all_opt p [] = Some True"
| "all_opt p (x # xs) = do { b \<leftarrow> p x; (if b then all_opt p xs else Some False) }"

definition input_edge_ok :: "ir_heap \<Rightarrow> nat \<Rightarrow> LiteRtOpT \<Rightarrow> nat \<Rightarrow> bool option" where
  "input_edge_ok h k op i = do {
     p \<leftarrow> at (op_inputs op) i;
     t \<leftarrow> p;
     tt \<leftarrow> tensor_of h t;
     Some (list_ex (\<lambda>u. snd u = i) (GetTensorUses tt (FindUseInds tt k))) }"

definition output_edge_ok :: "ir_heap \<Rightarrow> nat \<Rightarrow> LiteRtOpT \<Rightarrow> nat \<Rightarrow> bool option" where
  "output_edge_ok h k op i = do {
     p \<leftarrow> at (op_outputs op) i;
     t \<leftarrow> p;
     tt \<leftarrow> tensor_of h t;
     Some (case defining_op tt of None \<Rightarrow> False | Some (o', j) \<Rightarrow> o' = k \<and> j = i) }"

definition ValidateLocalTopology :: "ir_heap \<Rightarrow> nat \<Rightarrow> bool option" where
  "ValidateLocalTopology h k = do {
     op \<leftarrow> op_of h k;
     ins_ok \<leftarrow> all_opt (input_edge_ok h k op) [0..<length (op_inputs op)];
     (if ins_ok then all_opt (output_edge_ok h k op) [0..<length (op_outputs op)] else Some False) }"

text \<open>
  The loop of \<open>ValidateSubgraphIO\<close>; the result is the number of implied inputs and outputs, or
  \<open>Some None\<close> when a tensor is rejected.
\<close>

fun implied_io :: "ir_heap \<Rightarrow> ir_graph \<Rightarrow> nat list \<Rightarrow> nat \<times> nat \<Rightarrow> (nat \<times> nat) option option" where
  "implied_io h g [] n = Some (Some n)"
| "implied_io h g (t # ts) (num_in, num_out) = do {
     tt \<leftarrow> tensor_of h t;
     is_const \<leftarrow> IsConstant tt;
     let implied_out = users tt = [];
     let implied_in = \<not> is_const \<and> defining_op tt = None;
     (if implied_out \<and> implied_in then Some None
      else if (implied_in \<or> implied_out) \<and> \<not> IsIO g t then Some None
      else implied_io h g ts
             (if implied_in then Suc num_in else num_in, if implied_out then Suc num_out else num_out)) }"

definition ValidateSubgraphIO :: "ir_heap \<Rightarrow> ir_graph \<Rightarrow> bool option" where
  "ValidateSubgraphIO h g = do {
     r \<leftarrow> implied_io h g (g_tensors g) (0, 0);
     Some (case r of
             None \<Rightarrow> False
           | Some (num_in, num_out) \<Rightarrow> num_in = length (g_inputs g) \<and> num_out = length (g_outputs g)) }"

end
