(* ===== verification/InsertOrderMap.thy ===== *)
theory InsertOrderMap
  imports Main
begin

text \<open>
  \<^verbatim>\<open>src/litert/core/insert_order_map.h\<close>: a map that iterates in the order of the first
  insertion of its keys, kept as a vector of pairs and an index from keys to positions of the vector.
  The invariant says that the two agree; under it the operations implement those of a finite map,
  which the locale \<open>ordered_map\<close> states for the clients.
\<close>

record ('k, 'v) InsertOrderMap =
  map_values :: "('k \<times> 'v) list"
  map_index :: "'k \<Rightarrow> nat option"

definition empty_map :: "('k, 'v) InsertOrderMap" where
  "empty_map = \<lparr>map_values = [], map_index = (\<lambda>_. None)\<rparr>"

text \<open>The empty optional is \<open>None\<close>.\<close>

definition Find :: "'k \<Rightarrow> ('k, 'v) InsertOrderMap \<Rightarrow> ('k \<times> 'v) option" where
  "Find key m = (case map_index m key of None \<Rightarrow> None | Some ind \<Rightarrow> Some (map_values m ! ind))"

definition Contains :: "'k \<Rightarrow> ('k, 'v) InsertOrderMap \<Rightarrow> bool" where
  "Contains key m \<longleftrightarrow> map_index m key \<noteq> None"

definition InsertOrAssign :: "'k \<Rightarrow> 'v \<Rightarrow> ('k, 'v) InsertOrderMap \<Rightarrow> ('k, 'v) InsertOrderMap" where
  "InsertOrAssign key val m =
     (case map_index m key of
        Some ind \<Rightarrow> m\<lparr>map_values := (map_values m)[ind := (fst (map_values m ! ind), val)]\<rparr>
      | None \<Rightarrow> m\<lparr>map_values := map_values m @ [(key, val)],
                 map_index := (map_index m)(key \<mapsto> length (map_values m))\<rparr>)"

definition Size :: "('k, 'v) InsertOrderMap \<Rightarrow> nat" where
  "Size m = length (map_values m)"

section \<open>The invariant and the abstract map\<close>

definition map_ok :: "('k, 'v) InsertOrderMap \<Rightarrow> bool" where
  "map_ok m \<longleftrightarrow> (\<forall>k i. map_index m k = Some i \<longleftrightarrow> i < length (map_values m) \<and> fst (map_values m ! i) = k)"

definition keys_of :: "('k, 'v) InsertOrderMap \<Rightarrow> 'k list" where
  "keys_of m = map fst (map_values m)"

definition lookup :: "('k, 'v) InsertOrderMap \<Rightarrow> 'k \<Rightarrow> 'v option" where
  "lookup m = map_of (map_values m)"

lemma map_okD:
  assumes "map_ok m" "map_index m k = Some i"
  shows "i < length (map_values m)" "fst (map_values m ! i) = k"
  using assms by (auto simp: map_ok_def)

lemma map_ok_distinct: "map_ok m \<Longrightarrow> distinct (keys_of m)"
  unfolding keys_of_def distinct_conv_nth map_ok_def
  by (metis (no_types, lifting) length_map nth_map option.inject)

lemma lookup_index:
  assumes "map_ok m"
  shows "lookup m k = map_option (\<lambda>i. snd (map_values m ! i)) (map_index m k)"
proof (cases "map_index m k")
  case None
  then have "\<forall>i < length (map_values m). fst (map_values m ! i) \<noteq> k"
    using assms by (metis map_ok_def option.distinct(1))
  then have "k \<notin> fst ` set (map_values m)" by (metis imageE in_set_conv_nth)
  with None show ?thesis by (simp add: lookup_def map_of_eq_None_iff)
next
  case (Some i)
  with assms have i: "i < length (map_values m)" "fst (map_values m ! i) = k" by (auto dest: map_okD)
  then have "(k, snd (map_values m ! i)) \<in> set (map_values m)" by (metis nth_mem prod.collapse)
  with map_ok_distinct [OF assms] have "lookup m k = Some (snd (map_values m ! i))"
    by (simp add: lookup_def keys_of_def)
  with Some show ?thesis by simp
qed

lemma empty_map_ok: "map_ok empty_map"
  by (simp add: map_ok_def empty_map_def)

lemma Find_lookup: "map_ok m \<Longrightarrow> Find k m = map_option (Pair k) (lookup m k)"
  by (auto simp: Find_def lookup_index dest: map_okD split: option.splits)

lemma Contains_lookup: "map_ok m \<Longrightarrow> Contains k m \<longleftrightarrow> lookup m k \<noteq> None"
  by (simp add: Contains_def lookup_index)

lemma InsertOrAssign_ok:
  assumes "map_ok m"
  shows "map_ok (InsertOrAssign k v m)"
proof (cases "map_index m k")
  case None
  from assms have ok: "map_index m k' = Some i \<longleftrightarrow> i < length (map_values m) \<and> fst (map_values m ! i) = k'"
    for k' i by (simp add: map_ok_def)
  with None have "\<forall>i < length (map_values m). fst (map_values m ! i) \<noteq> k"
    by (metis option.distinct(1))
  then have "map_index (InsertOrAssign k v m) k' = Some i \<longleftrightarrow>
        i < length (map_values (InsertOrAssign k v m)) \<and> fst (map_values (InsertOrAssign k v m) ! i) = k'"
    for k' i
    using None by (cases "k' = k"; cases "i < length (map_values m)")
      (auto simp: InsertOrAssign_def nth_append less_Suc_eq ok)
  then show ?thesis by (simp add: map_ok_def)
next
  case (Some j)
  with assms have "j < length (map_values m)" by (auto dest: map_okD)
  then have "fst ((map_values m)[j := (fst (map_values m ! j), v)] ! i) = fst (map_values m ! i)"
    if "i < length (map_values m)" for i using that by (simp add: nth_list_update)
  with assms show ?thesis by (auto simp: InsertOrAssign_def Some map_ok_def)
qed

lemma keys_InsertOrAssign:
  assumes "map_ok m"
  shows "keys_of (InsertOrAssign k v m) = (if lookup m k = None then keys_of m @ [k] else keys_of m)"
proof (cases "map_index m k")
  case None
  then show ?thesis using assms by (simp add: lookup_index InsertOrAssign_def keys_of_def)
next
  case (Some j)
  with assms have j: "j < length (map_values m)" "fst (map_values m ! j) = k" by (auto dest: map_okD)
  have "map fst ((map_values m)[j := (fst (map_values m ! j), v)]) = map fst (map_values m)"
    using j by (intro nth_equalityI) (auto simp: nth_list_update)
  with Some show ?thesis using assms by (simp add: lookup_index InsertOrAssign_def keys_of_def)
qed

lemma lookup_InsertOrAssign:
  assumes "map_ok m"
  shows "lookup (InsertOrAssign k v m) = (lookup m)(k \<mapsto> v)"
proof
  fix x
  show "lookup (InsertOrAssign k v m) x = ((lookup m)(k \<mapsto> v)) x"
  proof (cases "map_index m k")
    case None
    with assms have i: "map_index (InsertOrAssign k v m) = (map_index m)(k \<mapsto> length (map_values m))"
      "map_values (InsertOrAssign k v m) = map_values m @ [(k, v)]"
      by (simp_all add: InsertOrAssign_def)
    show ?thesis
      using assms
      by (cases "map_index m x")
        (auto simp: lookup_index InsertOrAssign_ok i nth_append dest: map_okD)
  next
    case (Some j)
    with assms have j: "j < length (map_values m)" by (auto dest: map_okD)
    from Some have i: "map_index (InsertOrAssign k v m) = map_index m"
      "map_values (InsertOrAssign k v m) = (map_values m)[j := (fst (map_values m ! j), v)]"
      by (simp_all add: InsertOrAssign_def)
    have "map_index m x = Some i \<Longrightarrow> x \<noteq> k \<Longrightarrow> i \<noteq> j" for i
      using assms Some by (auto dest: map_okD(2))
    with Some j show ?thesis
      using assms
      by (cases "map_index m x") (auto simp: lookup_index InsertOrAssign_ok i nth_list_update)
  qed
qed

lemma set_keys: "set (keys_of m) = dom (lookup m)"
  by (simp add: keys_of_def lookup_def dom_map_of_conv_image_fst)

lemma values_keys: "map_ok m \<Longrightarrow> map_values m = map (\<lambda>k. (k, the (lookup m k))) (keys_of m)"
proof (rule nth_equalityI)
  fix i assume "map_ok m" and i: "i < length (map_values m)"
  then have "map_index m (fst (map_values m ! i)) = Some i" by (simp add: map_ok_def)
  with i \<open>map_ok m\<close> show "map_values m ! i = map (\<lambda>k. (k, the (lookup m k))) (keys_of m) ! i"
    by (simp add: keys_of_def lookup_index)
qed (simp add: keys_of_def)

section \<open>The interface\<close>

text \<open>What a client may rely on, stated for any implementation of an ordered map.\<close>

locale ordered_map =
  fixes ok :: "'m \<Rightarrow> bool"
    and ks :: "'m \<Rightarrow> 'k list"
    and get :: "'m \<Rightarrow> 'k \<Rightarrow> 'v option"
    and ins :: "'k \<Rightarrow> 'v \<Rightarrow> 'm \<Rightarrow> 'm"
  assumes ins_ok: "ok m \<Longrightarrow> ok (ins k v m)"
    and get_ins: "ok m \<Longrightarrow> get (ins k v m) = (get m)(k \<mapsto> v)"
    and ks_ins: "ok m \<Longrightarrow> ks (ins k v m) = (if get m k = None then ks m @ [k] else ks m)"
    and dom_get: "ok m \<Longrightarrow> dom (get m) = set (ks m)"
begin

lemma ins_old: "ok m \<Longrightarrow> get m k \<noteq> None \<Longrightarrow> ks (ins k v m) = ks m"
  by (simp add: ks_ins)

text \<open>A loop that inserts \<open>f x\<close> for every \<open>x\<close> keeps the order in which the keys first appear.\<close>

lemma fold_ins:
  assumes "ok m"
  shows "ok (fold (\<lambda>x. ins x (f x)) xs m)"
    "get (fold (\<lambda>x. ins x (f x)) xs m) = (\<lambda>k. if k \<in> set xs then Some (f k) else get m k)"
    "set (ks (fold (\<lambda>x. ins x (f x)) xs m)) = set (ks m) \<union> set xs"
  using assms
proof (induction xs arbitrary: m)
  case (Cons x xs)
  { case 1 with Cons.IH(1) [OF ins_ok] show ?case by simp }
  { case 2 with Cons.IH(2) [OF ins_ok] show ?case by (auto simp: get_ins fun_eq_iff) }
  { case 3
    with Cons.IH(3) [OF ins_ok [OF 3]] dom_get [OF 3] show ?case by (auto simp: ks_ins) }
qed auto

lemma fold_ins_distinct:
  assumes "ok m" "distinct xs" "set xs \<inter> dom (get m) = {}"
  shows "ks (fold (\<lambda>x. ins x (f x)) xs m) = ks m @ xs"
  using assms
proof (induction xs arbitrary: m)
  case (Cons x xs)
  from Cons.prems have "get m x = None" by auto
  with Cons.prems have "ks (ins x (f x) m) = ks m @ [x]" by (simp add: ks_ins)
  moreover have "set xs \<inter> dom (get (ins x (f x) m)) = {}"
    using Cons.prems by (auto simp: get_ins)
  ultimately show ?case
    using Cons.IH [OF ins_ok [OF Cons.prems(1)]] Cons.prems(2) by simp
qed simp

end

interpretation iom: ordered_map map_ok keys_of lookup InsertOrAssign
  by unfold_locales
    (auto simp: InsertOrAssign_ok lookup_InsertOrAssign keys_InsertOrAssign set_keys)

text \<open>The insert-ordered map behaves as an abstract map with an order of its keys: a new
  key goes to the end of the order, a known key keeps its place, exactly the entry of the key
  changes, the result keeps the invariant that the index names the position of every key, and a search finds the assigned value.\<close>

theorem InsertOrAssign_refines:
  assumes "map_ok m"
  shows "map_ok (InsertOrAssign k v m) \<and> lookup (InsertOrAssign k v m) = (lookup m)(k \<mapsto> v) \<and>
    keys_of (InsertOrAssign k v m) = (if lookup m k = None then keys_of m @ [k] else keys_of m) \<and>
    Find k (InsertOrAssign k v m) = Some (k, v) \<and> Contains k (InsertOrAssign k v m)"
  using assms iom.ins_ok [OF assms] iom.get_ins [OF assms] iom.ks_ins [OF assms]
  by (simp add: Find_lookup Contains_lookup)

theorem InsertOrAssign_refines_witness:
  "map_ok (InsertOrAssign (3 :: nat) True empty_map) \<and> Find 3 (InsertOrAssign (3 :: nat) True empty_map) = Some (3, True)"
  using InsertOrAssign_refines [OF empty_map_ok, of "3 :: nat" True] by simp

end
