(* ===== verification/PluginAlgo.thy ===== *)
theory PluginAlgo
  imports GraphIR InsertOrderMap
begin

text \<open>
  The graph algorithms of the compiler plugins, \<^verbatim>\<open>src/litert/compiler/plugin/algo.cc\<close>, with
  their driver \<open>PartitionSubgraph\<close> of \<^verbatim>\<open>compiler_plugin.cc\<close>: grouping the operations that
  a plugin selects into partitions, by connected components or by runs of the execution order, and
  outlining a partition into a subgraph of its own.

  The iteration order of hash maps is not determined; it is a parameter that arranges the keys.
\<close>

type_synonym LiteRtOpWithPartitionIndex = "nat \<times> size_t"

section \<open>Partitions as connected components\<close>

text \<open>\<open>map[key].push_back(val)\<close> on a map kept as an association list.\<close>

fun push_back_at :: "'k \<Rightarrow> 'v \<Rightarrow> ('k \<times> 'v list) list \<Rightarrow> ('k \<times> 'v list) list" where
  "push_back_at key val [] = [(key, [val])]"
| "push_back_at key val ((k, vs) # m) =
     (if k = key then (k, vs @ [val]) # m else (k, vs) # push_back_at key val m)"

text \<open>The parent of an operation in the union-find forest, with path compression.\<close>

type_synonym DisjointSets = "(nat, nat) InsertOrderMap"

partial_function (option) GetBucket :: "nat \<Rightarrow> DisjointSets \<Rightarrow> (nat \<times> DisjointSets) option" where
  "GetBucket op m = do {
     it \<leftarrow> Find op m;
     (if op \<noteq> snd it then do {
        r \<leftarrow> GetBucket (snd it) m;
        Some (fst r, InsertOrAssign op (fst r) (snd r)) }
      else Some (snd it, m)) }"

definition Insert :: "nat \<Rightarrow> nat \<Rightarrow> DisjointSets \<Rightarrow> DisjointSets option" where
  "Insert op parent m = do {
     (parent_bucket, m1) \<leftarrow> GetBucket parent m;
     (op_bucket, m2) \<leftarrow> GetBucket op m1;
     Some (if op_bucket = parent_bucket then m2 else InsertOrAssign op_bucket parent_bucket m2) }"

definition insert_user :: "nat \<Rightarrow> nat \<Rightarrow> DisjointSets \<Rightarrow> DisjointSets option" where
  "insert_user op user m = (if \<not> Contains user m then Some m else Insert op user m)"

definition insert_output :: "ir_heap \<Rightarrow> nat \<Rightarrow> nat option \<Rightarrow> DisjointSets \<Rightarrow> DisjointSets option" where
  "insert_output h op p m = do {
     t \<leftarrow> p;
     tt \<leftarrow> tensor_of h t;
     foldM (insert_user op) (map fst (users tt)) m }"

definition insert_op :: "ir_heap \<Rightarrow> nat \<Rightarrow> DisjointSets \<Rightarrow> DisjointSets option" where
  "insert_op h op m = do {
     o' \<leftarrow> op_of h op;
     foldM (insert_output h op) (op_outputs o') m }"

text \<open>The loop of \<open>GetBuckets\<close> builds the inverted map while it compresses paths.\<close>

fun invert_buckets :: "nat list \<Rightarrow> DisjointSets \<times> (nat \<times> nat list) list \<Rightarrow> (DisjointSets \<times> (nat \<times> nat list) list) option" where
  "invert_buckets [] s = Some s"
| "invert_buckets (op # ops') (m, inverted) = do {
     (bucket, m') \<leftarrow> GetBucket op m;
     invert_buckets ops' (m', push_back_at bucket op inverted) }"

definition GetBuckets :: "(nat list \<Rightarrow> nat list) \<Rightarrow> DisjointSets \<Rightarrow> nat list list option" where
  "GetBuckets op_order m = do {
     (m', inverted) \<leftarrow> invert_buckets (map fst (map_values m)) (m, []);
     Some (map (\<lambda>b. the (map_of inverted b)) (op_order (map fst inverted))) }"

definition partition_buckets :: "(nat list \<Rightarrow> nat list) \<Rightarrow> ir_heap \<Rightarrow> nat list \<Rightarrow> nat list list option" where
  "partition_buckets op_order h part = do {
     m \<leftarrow> foldM (insert_op h) part (fold (\<lambda>op. InsertOrAssign op op) part empty_map);
     GetBuckets op_order m }"

fun collect_buckets :: "('k \<Rightarrow> nat list list option) \<Rightarrow> 'k list \<Rightarrow> nat list list option" where
  "collect_buckets f [] = Some []"
| "collect_buckets f (k # ks) = do { bs \<leftarrow> f k; rest \<leftarrow> collect_buckets f ks; Some (bs @ rest) }"

definition GetPartitionsFromFlatList ::
  "(size_t list \<Rightarrow> size_t list) \<Rightarrow> (nat list \<Rightarrow> nat list) \<Rightarrow> ir_heap \<Rightarrow> LiteRtOpWithPartitionIndex list \<Rightarrow>
   nat list list option" where
  "GetPartitionsFromFlatList index_order op_order h flat_op_list =
     (let partition_map = fold (\<lambda>(op, ind). push_back_at ind op) flat_op_list [] in
      collect_buckets (\<lambda>ind. partition_buckets op_order h (the (map_of partition_map ind)))
        (index_order (map fst partition_map)))"

section \<open>Partitions as runs of the execution order\<close>

text \<open>The last pair of an operation in the list decides; \<open>max_partition_index + 1\<close> wraps around.\<close>

definition op_to_partition_index :: "LiteRtOpWithPartitionIndex list \<Rightarrow> nat \<Rightarrow> size_t option" where
  "op_to_partition_index sel = map_of (rev sel)"

definition unselected_ops_partition_index :: "LiteRtOpWithPartitionIndex list \<Rightarrow> size_t" where
  "unselected_ops_partition_index sel = fold (\<lambda>op m. if snd op > m then snd op else m) sel 0 + 1"

definition sorted_ops :: "LiteRtOpWithPartitionIndex list \<Rightarrow> nat list \<Rightarrow> LiteRtOpWithPartitionIndex list" where
  "sorted_ops sel os =
     map (\<lambda>op. case op_to_partition_index sel op of
                 None \<Rightarrow> (op, unselected_ops_partition_index sel) | Some ind \<Rightarrow> (op, ind)) os"

text \<open>One iteration over the closed partitions, the current partition and its index.\<close>

definition run_step ::
  "size_t \<Rightarrow> LiteRtOpWithPartitionIndex \<Rightarrow> nat list list \<times> nat list \<times> size_t \<Rightarrow> nat list list \<times> nat list \<times> size_t" where
  "run_step unselected = (\<lambda>(op, index) (partitions, current, current_index).
     let (partitions', current', current_index') =
       (if index \<noteq> current_index then
          (if current \<noteq> [] then (partitions @ [current], [], index) else (partitions, current, index))
        else (partitions, current, current_index)) in
     (partitions', if current_index' \<noteq> unselected then current' @ [op] else current', current_index'))"

definition GetPartitionsFromFlatListV2 :: "LiteRtOpWithPartitionIndex list \<Rightarrow> ir_graph \<Rightarrow> nat list list" where
  "GetPartitionsFromFlatListV2 sel subgraph =
     (if g_ops subgraph = [] then []
      else
        let sorted = sorted_ops sel (g_ops subgraph);
            (partitions, current, _) =
              fold (run_step (unselected_ops_partition_index sel)) sorted ([], [], snd (hd sorted)) in
        if current \<noteq> [] then partitions @ [current] else partitions)"

section \<open>Outlining a partition\<close>

text \<open>The state of the slicer: the heap, the new subgraph and the map from old to new tensors.\<close>

record GraphSlicer =
  gs_heap :: ir_heap
  gs_slice :: ir_graph
  gs_map :: "(nat, nat) InsertOrderMap"

definition register_input :: "nat option set \<Rightarrow> nat \<Rightarrow> GraphSlicer \<Rightarrow> GraphSlicer option" where
  "register_input used_tensors old_input s =
     (if Some old_input \<in> used_tensors then do {
        (new_input, g, h) \<leftarrow> MakeClone_tensor old_input (gs_slice s) (gs_heap s);
        Some \<lparr>gs_heap = h, gs_slice = g\<lparr>g_inputs := g_inputs g @ [new_input]\<rparr>,
              gs_map = InsertOrAssign old_input new_input (gs_map s)\<rparr> }
      else Some s)"

definition clone_operand :: "nat \<Rightarrow> nat option \<Rightarrow> GraphSlicer \<Rightarrow> GraphSlicer option" where
  "clone_operand new_op p s = do {
     old_input \<leftarrow> p;
     (new_input, s1) \<leftarrow>
       (if Contains old_input (gs_map s) then do {
          it \<leftarrow> Find old_input (gs_map s);
          Some (snd it, s) }
        else do {
          (new_input, g, h) \<leftarrow> MakeClone_tensor old_input (gs_slice s) (gs_heap s);
          tt \<leftarrow> tensor_of h new_input;
          is_const \<leftarrow> IsConstant tt;
          Some (new_input,
                \<lparr>gs_heap = h, gs_slice = (if is_const then g else g\<lparr>g_inputs := g_inputs g @ [new_input]\<rparr>),
                 gs_map = InsertOrAssign old_input new_input (gs_map s)\<rparr>) });
     h' \<leftarrow> AttachInput_ir (Some new_input) new_op (gs_heap s1);
     Some (s1\<lparr>gs_heap := h'\<rparr>) }"

definition clone_result :: "nat \<Rightarrow> nat option \<Rightarrow> GraphSlicer \<Rightarrow> GraphSlicer option" where
  "clone_result new_op p s = do {
     old_output \<leftarrow> p;
     (new_output, g, h) \<leftarrow> MakeClone_tensor old_output (gs_slice s) (gs_heap s);
     h' \<leftarrow> AttachOutput_ir (Some new_output) new_op h;
     Some \<lparr>gs_heap = h', gs_slice = g, gs_map = InsertOrAssign old_output new_output (gs_map s)\<rparr> }"

definition CloneInto :: "nat \<Rightarrow> GraphSlicer \<Rightarrow> GraphSlicer option" where
  "CloneInto old_op s = do {
     op \<leftarrow> op_of (gs_heap s) old_op;
     (new_op, g, h) \<leftarrow> MakeClone_op old_op (gs_slice s) (gs_heap s);
     s1 \<leftarrow> foldM (clone_operand new_op) (op_inputs op) (s\<lparr>gs_heap := h, gs_slice := g\<rparr>);
     foldM (clone_result new_op) (op_outputs op) s1 }"

definition MakeDispatchOp :: "LiteRtOpT \<Rightarrow> LiteRtOpT" where
  "MakeDispatchOp op = op\<lparr>tfl_option := OtherOptions, custom_options := [],
     litert_op_code := kLiteRtOpCodeTflCustom, tfl_op_code_ind := - 1\<rparr>"

definition reroute :: "ir_graph \<Rightarrow> nat \<Rightarrow> nat \<times> nat \<Rightarrow> GraphSlicer \<Rightarrow> GraphSlicer option" where
  "reroute root dispatch_op = (\<lambda>(old_tensor, new_tensor) s. do {
     nt \<leftarrow> tensor_of (gs_heap s) new_tensor;
     is_input \<leftarrow> (if defining_op nt = None then map_option Not (IsConstant nt) else Some False);
     (if is_input then do {
        h \<leftarrow> AttachInput_ir (Some old_tensor) dispatch_op (gs_heap s);
        Some (s\<lparr>gs_heap := h\<rparr>) }
      else do {
        ot \<leftarrow> tensor_of (gs_heap s) old_tensor;
        is_used \<leftarrow> (if users ot \<noteq> [] then map_option Not (IsConstant ot) else Some False);
        (if is_used \<or> FindOutput root old_tensor \<noteq> None then do {
           h \<leftarrow> AttachOutput_ir (Some old_tensor) dispatch_op (gs_heap s);
           Some (s\<lparr>gs_heap := h, gs_slice := (gs_slice s)\<lparr>g_outputs := g_outputs (gs_slice s) @ [new_tensor]\<rparr>\<rparr>) }
         else Some s) }) })"

definition RerouteTensorsThroughCustomOp :: "ir_graph \<Rightarrow> nat \<Rightarrow> GraphSlicer \<Rightarrow> GraphSlicer option" where
  "RerouteTensorsThroughCustomOp root dispatch_op s = foldM (reroute root dispatch_op) (map_values (gs_map s)) s"

definition used_tensors :: "ir_heap \<Rightarrow> nat list \<Rightarrow> nat option set" where
  "used_tensors h part = (\<Union>k \<in> set part. case op_of h k of None \<Rightarrow> {} | Some op \<Rightarrow> set (op_inputs op))"

text \<open>\<open>OutlinePartition\<close>: the operation that dispatches the slice, the slice, the root and the heap.\<close>

definition SlicePartitionFromGraph ::
  "ir_graph \<Rightarrow> ir_graph \<Rightarrow> nat list \<Rightarrow> ir_heap \<Rightarrow> (nat \<times> ir_graph \<times> ir_graph \<times> ir_heap) option" where
  "SlicePartitionFromGraph root sliced part h = do {
     s1 \<leftarrow> foldM (register_input (used_tensors h part)) (g_inputs root)
             \<lparr>gs_heap = h, gs_slice = sliced, gs_map = empty_map\<rparr>;
     s2 \<leftarrow> foldM CloneInto part s1;
     h3 \<leftarrow> foldM Drop part (gs_heap s2);
     dispatch_op \<leftarrow> (if part = [] then None else Some (last part));
     op \<leftarrow> op_of h3 dispatch_op;
     s4 \<leftarrow> RerouteTensorsThroughCustomOp root dispatch_op
             (s2\<lparr>gs_heap := set_op dispatch_op (MakeDispatchOp op) h3\<rparr>);
     (_, root', h5) \<leftarrow> DCE root (gs_heap s4);
     Some (dispatch_op, gs_slice s4, root', h5) }"

text \<open>\<open>PartitionSubgraph\<close> with the islands that the strategy has found: one slice after the other.\<close>

fun outline_islands ::
  "nat list list \<Rightarrow> ir_graph \<times> ir_graph list \<times> nat list \<times> ir_heap \<Rightarrow>
   (ir_graph \<times> ir_graph list \<times> nat list \<times> ir_heap) option" where
  "outline_islands [] s = Some s"
| "outline_islands (island # islands) (root, slices, res_ops, h) = do {
     (dispatch_op, sliced, root', h') \<leftarrow> SlicePartitionFromGraph root empty_graph island h;
     outline_islands islands (root', slices @ [sliced], res_ops @ [dispatch_op], h') }"

datatype PartitionStrategy = StrategyDefault | StrategyWeaklyConnected

definition PartitionSubgraph ::
  "(size_t list \<Rightarrow> size_t list) \<Rightarrow> (nat list \<Rightarrow> nat list) \<Rightarrow> PartitionStrategy \<Rightarrow> LiteRtOpWithPartitionIndex list \<Rightarrow>
   ir_graph \<times> ir_graph list \<times> nat list \<times> ir_heap \<Rightarrow> (ir_graph \<times> ir_graph list \<times> nat list \<times> ir_heap) option" where
  "PartitionSubgraph index_order op_order strategy selected_ops = (\<lambda>(subgraph, slices, res_ops, h). do {
     islands \<leftarrow> (case strategy of
        StrategyDefault \<Rightarrow> Some (GetPartitionsFromFlatListV2 selected_ops subgraph)
      | StrategyWeaklyConnected \<Rightarrow> GetPartitionsFromFlatList index_order op_order h selected_ops);
     outline_islands islands (subgraph, slices, res_ops, h) })"

end
