(* ===== verification/GraphIRCorrect.thy ===== *)
theory GraphIRCorrect
  imports GraphIR "HOL-Library.Multiset"
begin

text \<open>
  What the graph operations keep: the links between tensors and operations are those of a doubly
  linked graph, and no live object refers to a deallocated one.
\<close>

section \<open>Links\<close>

definition uses :: "ir_heap \<Rightarrow> nat \<Rightarrow> (nat \<times> nat) list" where
  "uses h t = (case tensor_of h t of None \<Rightarrow> [] | Some tt \<Rightarrow> users tt)"

definition definer :: "ir_heap \<Rightarrow> nat \<Rightarrow> (nat \<times> nat) option" where
  "definer h t = (case tensor_of h t of None \<Rightarrow> None | Some tt \<Rightarrow> defining_op tt)"

definition ins :: "ir_heap \<Rightarrow> nat \<Rightarrow> nat option list" where
  "ins h k = (case op_of h k of None \<Rightarrow> [] | Some op \<Rightarrow> op_inputs op)"

definition outs :: "ir_heap \<Rightarrow> nat \<Rightarrow> nat option list" where
  "outs h k = (case op_of h k of None \<Rightarrow> [] | Some op \<Rightarrow> op_outputs op)"

lemma link_simps [simp]:
  "tensor_of h t = Some tt \<Longrightarrow> uses h t = users tt"
  "tensor_of h t = Some tt \<Longrightarrow> definer h t = defining_op tt"
  "op_of h k = Some op \<Longrightarrow> ins h k = op_inputs op"
  "op_of h k = Some op \<Longrightarrow> outs h k = op_outputs op"
  by (simp_all add: uses_def definer_def ins_def outs_def)

lemma link_upd [simp]:
  "uses (set_op k op h) = uses h" "definer (set_op k op h) = definer h"
  "ins (set_tensor t tt h) = ins h" "outs (set_tensor t tt h) = outs h"
  "uses (set_tensor t tt h) = (uses h)(t := users tt)"
  "definer (set_tensor t tt h) = (definer h)(t := defining_op tt)"
  "ins (set_op k op h) = (ins h)(k := op_inputs op)"
  "outs (set_op k op h) = (outs h)(k := op_outputs op)"
  by (auto simp: uses_def definer_def ins_def outs_def fun_eq_iff)

text \<open>
  A well-linked subgraph: its objects are allocated, operands and graph inputs and outputs are its
  own tensors, and the users and the definition of a tensor are exactly the operand positions that
  name it.
\<close>

definition tensor_linked :: "ir_heap \<Rightarrow> nat list \<Rightarrow> nat \<Rightarrow> bool" where
  "tensor_linked h ks t \<longleftrightarrow> tensor_of h t \<noteq> None \<and> distinct (uses h t) \<and>
     (\<forall>k i. (k, i) \<in> set (uses h t) \<longleftrightarrow> k \<in> set ks \<and> i < length (ins h k) \<and> ins h k ! i = Some t) \<and>
     (\<forall>k j. definer h t = Some (k, j) \<longleftrightarrow> k \<in> set ks \<and> j < length (outs h k) \<and> outs h k ! j = Some t)"

definition well_linked :: "ir_heap \<Rightarrow> ir_graph \<Rightarrow> bool" where
  "well_linked h g \<longleftrightarrow> distinct (g_ops g) \<and> distinct (g_tensors g) \<and>
     (\<forall>k \<in> set (g_ops g). op_of h k \<noteq> None \<and>
        set (ins h k) \<subseteq> Some ` set (g_tensors g) \<and> set (outs h k) \<subseteq> Some ` set (g_tensors g)) \<and>
     (\<forall>t \<in> set (g_tensors g). tensor_linked h (g_ops g) t) \<and>
     set (g_inputs g) \<subseteq> set (g_tensors g) \<and> set (g_outputs g) \<subseteq> set (g_tensors g)"

lemma well_linkedD:
  assumes "well_linked h g"
  shows "distinct (g_ops g)" "distinct (g_tensors g)"
    "k \<in> set (g_ops g) \<Longrightarrow> \<exists>op. op_of h k = Some op"
    "k \<in> set (g_ops g) \<Longrightarrow> set (ins h k) \<subseteq> Some ` set (g_tensors g)"
    "k \<in> set (g_ops g) \<Longrightarrow> set (outs h k) \<subseteq> Some ` set (g_tensors g)"
    "t \<in> set (g_tensors g) \<Longrightarrow> tensor_linked h (g_ops g) t"
    "set (g_inputs g) \<subseteq> set (g_tensors g)" "set (g_outputs g) \<subseteq> set (g_tensors g)"
  using assms by (auto simp: well_linked_def)

lemma linkedD:
  assumes "tensor_linked h ks t"
  shows "\<exists>tt. tensor_of h t = Some tt" "distinct (uses h t)"
    "(k, i) \<in> set (uses h t) \<longleftrightarrow> k \<in> set ks \<and> i < length (ins h k) \<and> ins h k ! i = Some t"
    "definer h t = Some (k, j) \<longleftrightarrow> k \<in> set ks \<and> j < length (outs h k) \<and> outs h k ! j = Some t"
  using assms by (auto simp: tensor_linked_def)

section \<open>Lists\<close>

lemma FindInd_None_iff: "FindInd xs v = None \<longleftrightarrow> v \<notin> set xs"
proof -
  have "length (takeWhile (\<lambda>x. x \<noteq> v) xs) = length xs \<longleftrightarrow> v \<notin> set xs"
    by (induction xs) auto
  then show ?thesis by (simp add: FindInd_def Let_def)
qed

lemma IsIO_iff: "IsIO g t \<longleftrightarrow> t \<in> set (g_inputs g) \<union> set (g_outputs g)"
  using FindInd_None_iff [of "g_inputs g" t] FindInd_None_iff [of "g_outputs g" t]
  by (auto simp: IsIO_def FindInput_def FindOutput_def)

lemma RemoveIf_Some_iff:
  "RemoveIf pred rs = Some (kept, removed) \<longleftrightarrow>
   (\<forall>r \<in> set rs. pred r \<noteq> None) \<and> kept = filter (\<lambda>r. pred r = Some False) rs \<and>
   removed = filter (\<lambda>r. pred r = Some True) rs"
proof (induction rs arbitrary: kept removed)
  case (Cons r rs)
  show ?case
    by (cases "pred r") (auto simp: bind_eq_Some_conv Cons.IH)
qed auto

lemma length_erase_at: "j < length xs \<Longrightarrow> length (erase_at j xs) = length xs - 1"
  by (auto simp: erase_at_def)

lemma erase_at_0 [simp]: "erase_at 0 (x # xs) = xs"
  by (simp add: erase_at_def)

lemma mset_erase_at:
  assumes "j < length xs"
  shows "mset xs = add_mset (xs ! j) (mset (erase_at j xs))"
proof -
  have "mset xs = mset (take j xs @ xs ! j # drop (Suc j) xs)"
    using assms by (simp only: id_take_nth_drop [symmetric])
  then show ?thesis by (simp add: erase_at_def)
qed

lemma filter_erase_at:
  assumes "j < length xs" "\<not> P (xs ! j)"
  shows "filter P (erase_at j xs) = filter P xs"
proof -
  have "filter P xs = filter P (take j xs @ xs ! j # drop (Suc j) xs)"
    using assms by (simp only: id_take_nth_drop [symmetric])
  with assms(2) show ?thesis by (simp add: erase_at_def)
qed

lemma target_use_SomeD:
  assumes "target_use tt u = Some j"
  shows "j < length (users tt)" "users tt ! j = u"
proof -
  have "filter (\<lambda>i. users tt ! i = u) [0..<length (users tt)] \<noteq> []"
    "j = last (filter (\<lambda>i. users tt ! i = u) [0..<length (users tt)])"
    using assms by (auto simp: target_use_def split: list.splits)
  then have "j \<in> set (filter (\<lambda>i. users tt ! i = u) [0..<length (users tt)])"
    using last_in_set by blast
  then show "j < length (users tt)" "users tt ! j = u" by auto
qed

lemma target_use_exists: "u \<in> set (users tt) \<Longrightarrow> \<exists>j. target_use tt u = Some j"
proof -
  assume "u \<in> set (users tt)"
  then obtain i where "i < length (users tt)" "users tt ! i = u" by (auto simp: in_set_conv_nth)
  then have "filter (\<lambda>i. users tt ! i = u) [0..<length (users tt)] \<noteq> []"
    by (auto simp: filter_empty_conv)
  then show ?thesis by (auto simp: target_use_def split: list.splits)
qed

section \<open>Sliding\<close>

lemma slide_use_0: "(slide_use k 0 ^^ n) u = (if fst u = k then (k, snd u - n) else u)"
  by (induction n) (auto simp: slide_use_def prod_eq_iff)

lemma foldM_slide:
  assumes "\<forall>p \<in> set ps. \<exists>t. p = Some t \<and> tensor_of h t \<noteq> None"
  shows "foldM (slide_input k ind) ps h =
    Some (h\<lparr>tensor_of := (\<lambda>t. map_option (\<lambda>tt. tt\<lparr>users :=
       map (slide_use k ind ^^ count_list ps (Some t)) (users tt)\<rparr>) (tensor_of h t))\<rparr>)"
  using assms
proof (induction ps arbitrary: h)
  case Nil
  then show ?case by (simp add: option.map_ident)
next
  case (Cons p ps)
  then obtain t0 tt where p: "p = Some t0" "tensor_of h t0 = Some tt" by auto
  define h1 where "h1 = set_tensor t0 (tt\<lparr>users := map (slide_use k ind) (users tt)\<rparr>) h"
  have "\<forall>p \<in> set ps. \<exists>t. p = Some t \<and> tensor_of h1 t \<noteq> None"
    using Cons.prems by (fastforce simp: h1_def)
  from Cons.IH [OF this] p show ?case
    by (auto simp: slide_input_def h1_def fun_eq_iff option.map_comp funpow_Suc_right
        simp del: funpow.simps(2))
qed

lemma DisconnectInput_effect:
  assumes op: "op_of h k = Some op" and i: "i < length (op_inputs op)"
    and t: "op_inputs op ! i = Some t" and tt: "tensor_of h t = Some tt"
    and alloc: "\<forall>p \<in> set (op_inputs op). \<exists>t. p = Some t \<and> tensor_of h t \<noteq> None"
    and j: "target_use tt (k, i) = Some j"
  shows "DisconnectInput k i h =
    Some (t, h\<lparr>op_of := (op_of h)(k \<mapsto> op\<lparr>op_inputs := erase_at i (op_inputs op)\<rparr>),
      tensor_of := (\<lambda>t'. map_option (\<lambda>tt. tt\<lparr>users := (if t' = t then erase_at j else id)
        (map (slide_use k i ^^ count_list (drop (Suc i) (op_inputs op)) (Some t')) (users tt))\<rparr>)
        (tensor_of h t'))\<rparr>)"
proof -
  have "\<forall>p \<in> set (drop (Suc i) (op_inputs op)). \<exists>t. p = Some t \<and> tensor_of h t \<noteq> None"
    using alloc by (meson in_set_dropD)
  from foldM_slide [OF this] assms show ?thesis
    by (auto simp: DisconnectInput_def at_def RemoveUse_def fun_eq_iff)
qed


section \<open>Dropping an operation\<close>

text \<open>
  With an operand that occurs more than once the sliding lowers the recorded positions more than
  once, so during the loop they are only bounded: a tensor has one use for each of its remaining
  positions, and the uses lie at or before the positions.
\<close>

definition positions :: "nat \<Rightarrow> (nat \<times> nat) list \<Rightarrow> nat multiset" where
  "positions k us = image_mset snd (filter_mset (\<lambda>u. fst u = k) (mset us))"

definition used_by :: "nat \<Rightarrow> nat option list \<Rightarrow> (nat \<times> nat) list \<Rightarrow> nat \<Rightarrow> bool" where
  "used_by k ps us t \<longleftrightarrow> size (positions k us) = count_list ps (Some t) \<and>
     (\<forall>n. count_list (take n ps) (Some t) \<le> size (filter_mset (\<lambda>a. a < n) (positions k us)))"

lemma positions_slide:
  "positions k (map (slide_use k 0 ^^ c) us) = image_mset (\<lambda>a. a - c) (positions k us)"
  by (induction us) (auto simp: positions_def slide_use_0)

lemma positions_erase:
  assumes "j < length us" "us ! j = (k, a)"
  shows "positions k us = add_mset a (positions k (erase_at j us))"
  using mset_erase_at [OF assms(1)] assms(2) by (simp add: positions_def)

lemma filter_slide:
  "filter (\<lambda>u. fst u \<noteq> k) (map (slide_use k 0 ^^ c) us) = filter (\<lambda>u. fst u \<noteq> k) us"
  by (induction us) (auto simp: slide_use_0)

lemma positions_empty: "positions k us = {#} \<Longrightarrow> filter (\<lambda>u. fst u \<noteq> k) us = us"
  by (auto simp: positions_def filter_mset_eq_conv intro!: filter_True)

lemma size_filter_image:
  "size (filter_mset P (image_mset f M)) = size (filter_mset (\<lambda>x. P (f x)) M)"
  by (induction M) auto

lemma size_filter_mono:
  "(\<And>x. P x \<Longrightarrow> Q x) \<Longrightarrow> size (filter_mset P M) \<le> size (filter_mset Q M)"
  by (induction M) (auto intro: le_SucI)

lemma used_by_tail:
  assumes "used_by k (p # ps) us t" and "p \<noteq> Some t"
  shows "used_by k ps (map (slide_use k 0 ^^ count_list ps (Some t)) us) t"
  unfolding used_by_def positions_slide
proof (intro conjI allI)
  define c where "c = count_list ps (Some t)"
  show "size (image_mset (\<lambda>a. a - count_list ps (Some t)) (positions k us)) = count_list ps (Some t)"
    using assms by (simp add: used_by_def)
  fix n
  show "count_list (take n ps) (Some t) \<le>
        size (filter_mset (\<lambda>a. a < n) (image_mset (\<lambda>a. a - count_list ps (Some t)) (positions k us)))"
  proof (cases "n = 0 \<or> c = 0")
    case True
    have "count_list (take n ps) (Some t) \<le> c"
      unfolding c_def by (metis append_take_drop_id count_list_append le_add1)
    with True show ?thesis by auto
  next
    case False
    have "count_list (take n ps) (Some t) \<le> size (filter_mset (\<lambda>a. a < Suc n) (positions k us))"
    proof -
      have "count_list (take (Suc n) (p # ps)) (Some t) \<le> size (filter_mset (\<lambda>a. a < Suc n) (positions k us))"
        using assms(1) unfolding used_by_def by blast
      then show ?thesis using assms(2) by simp
    qed
    also have "\<dots> \<le> size (filter_mset (\<lambda>a. a - c < n) (positions k us))"
      using False by (intro size_filter_mono) auto
    finally show ?thesis by (simp add: size_filter_image c_def)
  qed
qed

lemma used_by_tail_same:
  assumes u: "used_by k (Some t # ps) us t"
    and j: "j < length us" "us ! j = (k, 0)"
  shows "used_by k ps (erase_at j (map (slide_use k 0 ^^ count_list ps (Some t)) us)) t"
proof -
  define c where "c = count_list ps (Some t)"
  define us1 where "us1 = map (slide_use k 0 ^^ c) us"
  have "j < length us1" "us1 ! j = (k, 0)" using j by (simp_all add: us1_def slide_use_0)
  then have e: "positions k us1 = add_mset 0 (positions k (erase_at j us1))" by (rule positions_erase)
  have s: "size (positions k us) = Suc c" using u by (simp add: used_by_def c_def)
  have p1: "positions k us1 = image_mset (\<lambda>a. a - c) (positions k us)"
    by (simp add: us1_def positions_slide)
  have "count_list (take n ps) (Some t) \<le> size (filter_mset (\<lambda>a. a < n) (positions k (erase_at j us1)))" for n
  proof (cases "n = 0 \<or> c = 0")
    case True
    have "count_list (take n ps) (Some t) \<le> c"
      unfolding c_def by (metis append_take_drop_id count_list_append le_add1)
    with True show ?thesis by auto
  next
    case False
    have "Suc (count_list (take n ps) (Some t)) \<le> size (filter_mset (\<lambda>a. a < Suc n) (positions k us))"
    proof -
      have "count_list (take (Suc n) (Some t # ps)) (Some t) \<le> size (filter_mset (\<lambda>a. a < Suc n) (positions k us))"
        using u unfolding used_by_def by blast
      then show ?thesis by simp
    qed
    also have "\<dots> \<le> size (filter_mset (\<lambda>a. a - c < n) (positions k us))"
      using False by (intro size_filter_mono) auto
    also have "\<dots> = size (filter_mset (\<lambda>a. a < n) (positions k us1))"
      by (simp add: size_filter_image p1)
    also have "\<dots> = Suc (size (filter_mset (\<lambda>a. a < n) (positions k (erase_at j us1))))"
      using False by (simp add: e)
    finally show ?thesis by simp
  qed
  moreover have "size (positions k (erase_at j us1)) = c"
    using e p1 s by (metis Suc_inject size_add_mset size_image_mset)
  ultimately show ?thesis by (simp add: used_by_def us1_def c_def)
qed

lemma used_by_first:
  assumes "used_by k (Some t # ps) us t"
  shows "(k, 0) \<in> set us"
proof -
  define M where "M = filter_mset (\<lambda>a. a < 1) (positions k us)"
  have "count_list (take 1 (Some t # ps)) (Some t) \<le> size M"
    using assms by (simp only: used_by_def M_def)
  then have "M \<noteq> {#}" by auto
  then obtain a where "a \<in># M" by blast
  then have "0 \<in># positions k us" by (auto simp: M_def)
  then show ?thesis by (auto simp: positions_def)
qed

lemma drop_inputs_effect:
  assumes "op_of h k = Some op"
    and "\<forall>p \<in> set (op_inputs op). \<exists>t tt. p = Some t \<and> tensor_of h t = Some tt \<and>
           used_by k (op_inputs op) (users tt) t"
  shows "drop_inputs k h = Some (h\<lparr>op_of := (op_of h)(k \<mapsto> op\<lparr>op_inputs := []\<rparr>),
    tensor_of := (\<lambda>t. if Some t \<in> set (op_inputs op)
      then map_option (\<lambda>tt. tt\<lparr>users := filter (\<lambda>u. fst u \<noteq> k) (users tt)\<rparr>) (tensor_of h t)
      else tensor_of h t)\<rparr>)"
  using assms
proof (induction "op_inputs op" arbitrary: h op)
  case Nil
  then show ?case by (subst drop_inputs.simps) (simp add: fun_upd_idem)
next
  case (Cons p ps)
  note op_ins = Cons.hyps(2) [symmetric]
  from Cons.prems(2) op_ins obtain t tt where p: "p = Some t" and tt: "tensor_of h t = Some tt"
    and ub: "used_by k (Some t # ps) (users tt) t" by auto
  from used_by_first [OF ub] obtain j where j: "target_use tt (k, 0) = Some j"
    using target_use_exists by blast
  have jl: "j < length (users tt)" "users tt ! j = (k, 0)" using target_use_SomeD [OF j] by auto
  define slid where "slid t' us = map (slide_use k 0 ^^ count_list ps (Some t')) us" for t' us
  define op1 where "op1 = op\<lparr>op_inputs := ps\<rparr>"
  define h1 where "h1 = h\<lparr>op_of := (op_of h)(k \<mapsto> op1),
      tensor_of := (\<lambda>t'. map_option (\<lambda>tt. tt\<lparr>users := (if t' = t then erase_at j else id)
        (slid t' (users tt))\<rparr>) (tensor_of h t'))\<rparr>"
  have alloc: "\<forall>p \<in> set (op_inputs op). \<exists>t. p = Some t \<and> tensor_of h t \<noteq> None"
    using Cons.prems(2) by fastforce
  have step: "DisconnectInput k 0 h = Some (t, h1)"
    using DisconnectInput_effect [OF Cons.prems(1) _ _ tt alloc j] op_ins p
    by (simp add: h1_def op1_def slid_def)
  have op1: "op_of h1 k = Some op1" "op_inputs op1 = ps" by (simp_all add: h1_def op1_def)
  have slid_t: "j < length (slid t (users tt))" "slid t (users tt) ! j = (k, 0)"
    using jl by (simp_all add: slid_def slide_use_0)
  have h1_used: "\<forall>p \<in> set ps. \<exists>t tt. p = Some t \<and> tensor_of h1 t = Some tt \<and> used_by k ps (users tt) t"
  proof
    fix q assume q: "q \<in> set ps"
    then obtain t' tt' where q': "q = Some t'" "tensor_of h t' = Some tt'"
      "used_by k (p # ps) (users tt') t'"
      using Cons.prems(2) op_ins by fastforce
    show "\<exists>t tt. q = Some t \<and> tensor_of h1 t = Some tt \<and> used_by k ps (users tt) t"
      using q' p tt jl used_by_tail [of k p ps "users tt'" t'] used_by_tail_same [of k t ps "users tt" j]
      by (cases "t' = t") (auto simp: h1_def slid_def)
  qed
  have last_use: "erase_at j (users tt) = filter (\<lambda>u. fst u \<noteq> k) (users tt)" if "Some t \<notin> set ps"
  proof -
    have "size (positions k (users tt)) = 1"
      using ub that by (simp add: used_by_def count_list_0_iff)
    with positions_erase [OF jl] have "positions k (erase_at j (users tt)) = {#}" by simp
    with positions_empty filter_erase_at [OF jl(1), of "\<lambda>u. fst u \<noteq> k"] jl(2) show ?thesis by fastforce
  qed
  have rest: "(if Some t' \<in> set ps
        then map_option (\<lambda>tt. tt\<lparr>users := filter (\<lambda>u. fst u \<noteq> k) (users tt)\<rparr>) (tensor_of h1 t')
        else tensor_of h1 t') =
      (if Some t' \<in> set (op_inputs op)
        then map_option (\<lambda>tt. tt\<lparr>users := filter (\<lambda>u. fst u \<noteq> k) (users tt)\<rparr>) (tensor_of h t')
        else tensor_of h t')" for t'
  proof (cases "Some t' \<in> set ps")
    case True
    then show ?thesis
      using op_ins p tt slid_t filter_erase_at [OF slid_t(1), of "\<lambda>u. fst u \<noteq> k"]
      by (auto simp: h1_def option.map_comp slid_def filter_slide comp_def intro!: option.map_cong0)
  next
    case False
    then have "slid t' us = us" for us by (simp add: slid_def count_list_0_iff)
    with False op_ins p tt last_use show ?thesis
      by (auto simp: h1_def option.map_ident)
  qed
  have "drop_inputs k h = drop_inputs k h1"
    by (subst drop_inputs.simps) (simp add: Cons.prems(1) op_ins step)
  with Cons.hyps(1) [OF _ op1(1)] op1(2) h1_used rest show ?case
    by (simp add: h1_def op1_def)
qed


lemma drop_outputs_effect:
  assumes "op_of h k = Some op"
    and "\<forall>p \<in> set (op_outputs op). \<exists>t tt. p = Some t \<and> tensor_of h t = Some tt"
  shows "drop_outputs k h = Some (h\<lparr>op_of := (op_of h)(k \<mapsto> op\<lparr>op_outputs := []\<rparr>),
    tensor_of := (\<lambda>t. if Some t \<in> set (op_outputs op)
      then map_option (\<lambda>tt. tt\<lparr>defining_op := None\<rparr>) (tensor_of h t) else tensor_of h t)\<rparr>)"
  using assms
proof (induction "op_outputs op" arbitrary: h op)
  case Nil
  then show ?case by (subst drop_outputs.simps) (simp add: fun_upd_idem)
next
  case (Cons p ps)
  note op_outs = Cons.hyps(2) [symmetric]
  from Cons.prems(2) op_outs obtain t tt where p: "p = Some t" and tt: "tensor_of h t = Some tt" by auto
  define op1 where "op1 = op\<lparr>op_outputs := ps\<rparr>"
  define h1 where "h1 = set_op k op1 (set_tensor t (tt\<lparr>defining_op := None\<rparr>) h)"
  have step: "DisconnectOutput k 0 h = Some (t, h1)"
    by (simp add: DisconnectOutput_def Cons.prems(1) op_outs at_def p tt h1_def op1_def)
  have op1: "op_of h1 k = Some op1" "op_outputs op1 = ps" by (simp_all add: h1_def op1_def)
  have alloc: "\<forall>p \<in> set ps. \<exists>t tt. p = Some t \<and> tensor_of h1 t = Some tt"
    using Cons.prems(2) op_outs by (fastforce simp: h1_def)
  have rest: "(if Some t' \<in> set ps
        then map_option (\<lambda>tt. tt\<lparr>defining_op := None\<rparr>) (tensor_of h1 t') else tensor_of h1 t') =
      (if Some t' \<in> set (op_outputs op)
        then map_option (\<lambda>tt. tt\<lparr>defining_op := None\<rparr>) (tensor_of h t') else tensor_of h t')" for t'
    using op_outs p tt by (auto simp: h1_def)
  have "drop_outputs k h = drop_outputs k h1"
    by (subst drop_outputs.simps) (simp add: Cons.prems(1) op_outs step)
  with Cons.hyps(1) [OF _ op1(1)] op1(2) alloc rest show ?case
    by (simp add: h1_def op1_def)
qed

text \<open>In a well-linked subgraph the uses of an operand are its positions.\<close>

lemma positions_linked:
  assumes "tensor_linked h ks t" "k \<in> set ks"
  shows "positions k (uses h t) = mset (filter (\<lambda>i. ins h k ! i = Some t) [0..<length (ins h k)])"
proof -
  have d: "distinct (map snd (filter (\<lambda>u. fst u = k) (uses h t)))"
    using linkedD(2) [OF assms(1)] by (auto simp: distinct_map inj_on_def)
  have "set (map snd (filter (\<lambda>u. fst u = k) (uses h t))) =
        set (filter (\<lambda>i. ins h k ! i = Some t) [0..<length (ins h k)])"
    using linkedD(3) [OF assms(1)] assms(2) by (auto simp: image_iff)
  with d have "mset (map snd (filter (\<lambda>u. fst u = k) (uses h t))) =
        mset (filter (\<lambda>i. ins h k ! i = Some t) [0..<length (ins h k)])"
    using set_eq_iff_mset_eq_distinct [OF d, of "filter (\<lambda>i. ins h k ! i = Some t) [0..<length (ins h k)]"]
    by simp
  then show ?thesis by (simp add: positions_def)
qed

lemma count_list_positions:
  "count_list xs x = length (filter (\<lambda>i. xs ! i = x) [0..<length xs])"
  by (induction xs rule: rev_induct)
    (auto simp: nth_append intro!: arg_cong [where f = length] filter_cong)

lemma used_by_linked:
  assumes "tensor_linked h ks t" "k \<in> set ks"
  shows "used_by k (ins h k) (uses h t) t"
  unfolding used_by_def
proof (intro conjI allI)
  show "size (positions k (uses h t)) = count_list (ins h k) (Some t)"
    by (simp only: positions_linked [OF assms] count_list_positions size_mset)
  fix n
  let ?P = "\<lambda>i. ins h k ! i = Some t"
  have "filter (\<lambda>i. take n (ins h k) ! i = Some t) [0..<length (take n (ins h k))] =
        filter (\<lambda>i. i < n) (filter ?P [0..<length (ins h k)])"
  proof -
    have "filter (\<lambda>i. i < n) [0..<m] = [0..<min m n]" for m
    proof (induction m)
      case (Suc m)
      then show ?case by (cases "m < n") (simp_all add: min_def)
    qed simp
    then have "filter (\<lambda>i. i < n) (filter ?P [0..<length (ins h k)]) =
        filter ?P [0..<min (length (ins h k)) n]"
      by (metis (no_types, lifting) filter_filter conj_commute filter_cong)
    then show ?thesis by (auto intro: filter_cong)
  qed
  then have "count_list (take n (ins h k)) (Some t) =
      size (filter_mset (\<lambda>a. a < n) (positions k (uses h t)))"
    by (simp only: positions_linked [OF assms] count_list_positions mset_filter [symmetric] size_mset)
  then show "count_list (take n (ins h k)) (Some t) \<le>
      size (filter_mset (\<lambda>a. a < n) (positions k (uses h t)))" by simp
qed

text \<open>What is left of a tensor when the operation \<open>k\<close> is dropped.\<close>

definition detach :: "nat \<Rightarrow> LiteRtTensorT \<Rightarrow> LiteRtTensorT" where
  "detach k tt = tt\<lparr>users := filter (\<lambda>u. fst u \<noteq> k) (users tt),
     defining_op := (case defining_op tt of None \<Rightarrow> None | Some (o', j) \<Rightarrow> if o' = k then None else Some (o', j))\<rparr>"

definition dropped :: "nat \<Rightarrow> ir_graph \<Rightarrow> ir_heap \<Rightarrow> ir_heap" where
  "dropped k g h = h\<lparr>
     op_of := (op_of h)(k := map_option (\<lambda>op. op\<lparr>op_inputs := [], op_outputs := []\<rparr>) (op_of h k)),
     tensor_of := (\<lambda>t. if t \<in> set (g_tensors g) then map_option (detach k) (tensor_of h t) else tensor_of h t)\<rparr>"

lemma Drop_effect:
  assumes wl: "well_linked h g" and k: "k \<in> set (g_ops g)"
  shows "Drop k h = Some (dropped k g h)"
proof -
  note wlD = well_linkedD [OF wl]
  obtain op where op: "op_of h k = Some op" using wlD(3) [OF k] by auto
  have ins_g: "t \<in> set (g_tensors g)" if "Some t \<in> set (op_inputs op)" for t
    using wlD(4) [OF k] op that by auto
  have outs_g: "t \<in> set (g_tensors g)" if "Some t \<in> set (op_outputs op)" for t
    using wlD(5) [OF k] op that by auto
  have "\<forall>p \<in> set (op_inputs op). \<exists>t tt. p = Some t \<and> tensor_of h t = Some tt \<and>
           used_by k (op_inputs op) (users tt) t"
  proof
    fix p assume p: "p \<in> set (op_inputs op)"
    then obtain t where t: "p = Some t" "t \<in> set (g_tensors g)" using wlD(4) [OF k] op by auto
    with linkedD(1) [OF wlD(6)] obtain tt where "tensor_of h t = Some tt" by blast
    with used_by_linked [OF wlD(6) [OF t(2)] k] op t(1)
    show "\<exists>t tt. p = Some t \<and> tensor_of h t = Some tt \<and> used_by k (op_inputs op) (users tt) t" by auto
  qed
  note di = drop_inputs_effect [OF op this]
  define h1 where "h1 = h\<lparr>op_of := (op_of h)(k \<mapsto> op\<lparr>op_inputs := []\<rparr>),
    tensor_of := (\<lambda>t. if Some t \<in> set (op_inputs op)
      then map_option (\<lambda>tt. tt\<lparr>users := filter (\<lambda>u. fst u \<noteq> k) (users tt)\<rparr>) (tensor_of h t)
      else tensor_of h t)\<rparr>"
  have op1: "op_of h1 k = Some (op\<lparr>op_inputs := []\<rparr>)" by (simp add: h1_def)
  have "\<forall>p \<in> set (op_outputs (op\<lparr>op_inputs := []\<rparr>)). \<exists>t tt. p = Some t \<and> tensor_of h1 t = Some tt"
  proof
    fix p assume "p \<in> set (op_outputs (op\<lparr>op_inputs := []\<rparr>))"
    then obtain t where t: "p = Some t" "t \<in> set (g_tensors g)" using wlD(5) [OF k] op by auto
    with linkedD(1) [OF wlD(6)] obtain tt where "tensor_of h t = Some tt" by blast
    with t show "\<exists>t tt. p = Some t \<and> tensor_of h1 t = Some tt" by (auto simp: h1_def)
  qed
  note do = drop_outputs_effect [OF op1 this]
  have h1_t: "tensor_of h1 t = (if Some t \<in> set (op_inputs op)
      then map_option (\<lambda>tt. tt\<lparr>users := filter (\<lambda>u. fst u \<noteq> k) (users tt)\<rparr>) (tensor_of h t)
      else tensor_of h t)" for t by (simp add: h1_def)
  have tensors: "(if Some t \<in> set (op_outputs op)
      then map_option (\<lambda>tt. tt\<lparr>defining_op := None\<rparr>) (tensor_of h1 t) else tensor_of h1 t) =
    (if t \<in> set (g_tensors g) then map_option (detach k) (tensor_of h t) else tensor_of h t)" for t
  proof (cases "t \<in> set (g_tensors g)")
    case True
    note lk = linkedD [OF wlD(6) [OF True]]
    from lk(1) obtain tt where tt: "tensor_of h t = Some tt" by auto
    have u: "filter (\<lambda>u. fst u \<noteq> k) (users tt) = users tt" if "Some t \<notin> set (op_inputs op)"
    proof (rule filter_True, rule ballI, rule notI)
      fix u assume "u \<in> set (users tt)" "fst u = k"
      then have "(k, snd u) \<in> set (uses h t)" using tt by auto
      then have "Some t \<in> set (ins h k)" unfolding lk(3) by (metis nth_mem)
      with that op show False by simp
    qed
    have d: "defining_op tt = Some (k, j) \<Longrightarrow> Some t \<in> set (op_outputs op)" for j
    proof -
      assume "defining_op tt = Some (k, j)"
      then have "definer h t = Some (k, j)" using tt by simp
      then have "Some t \<in> set (outs h k)" unfolding lk(4) by (metis nth_mem)
      with op show ?thesis by simp
    qed
    have d': "\<exists>j. defining_op tt = Some (k, j)" if "Some t \<in> set (op_outputs op)"
    proof -
      from that op obtain j where "j < length (outs h k)" "outs h k ! j = Some t"
        by (auto simp: in_set_conv_nth)
      with lk(4) [of k j] k have "definer h t = Some (k, j)" by simp
      with tt show ?thesis by simp
    qed
    have c: "(case defining_op tt of None \<Rightarrow> None | Some (o', j) \<Rightarrow> if o' = k then None else Some (o', j)) =
        (if Some t \<in> set (op_outputs op) then None else defining_op tt)"
      using d d' by (auto split: option.splits)
    show ?thesis
      using True tt u unfolding detach_def by (simp add: h1_t c)
  next
    case False
    then show ?thesis using ins_g outs_g by (auto simp: h1_def)
  qed
  show ?thesis
    unfolding Drop_def di h1_def [symmetric]
    using do tensors op by (simp add: dropped_def h1_def)
qed


lemma dropped_links:
  "ins (dropped k g h) = (ins h)(k := [])" "outs (dropped k g h) = (outs h)(k := [])"
  "t \<in> set (g_tensors g) \<Longrightarrow> uses (dropped k g h) t = filter (\<lambda>u. fst u \<noteq> k) (uses h t)"
  "t \<in> set (g_tensors g) \<Longrightarrow> definer (dropped k g h) t =
     (case definer h t of None \<Rightarrow> None | Some (o', j) \<Rightarrow> if o' = k then None else Some (o', j))"
  by (auto simp: dropped_def ins_def outs_def uses_def definer_def detach_def fun_eq_iff
      split: option.splits)

lemma linked_dropped:
  assumes "tensor_linked h ks t" "t \<in> set (g_tensors g)"
  shows "tensor_linked (dropped k g h) ks t"
proof -
  note lk = linkedD [OF assms(1)]
  have "tensor_of (dropped k g h) t \<noteq> None" using lk(1) by (auto simp: dropped_def)
  moreover have "distinct (uses (dropped k g h) t)" using lk(2) assms(2) by (simp add: dropped_links)
  moreover have "(k', i) \<in> set (uses (dropped k g h) t) \<longleftrightarrow>
      k' \<in> set ks \<and> i < length (ins (dropped k g h) k') \<and> ins (dropped k g h) k' ! i = Some t" for k' i
    using lk(3) [of k' i] assms(2) by (auto simp: dropped_links)
  moreover have "definer (dropped k g h) t = Some (k', j) \<longleftrightarrow>
      k' \<in> set ks \<and> j < length (outs (dropped k g h) k') \<and> outs (dropped k g h) k' ! j = Some t" for k' j
    using lk(4) [of k' j] assms(2) by (auto simp: dropped_links split: option.splits)
  ultimately show ?thesis by (simp add: tensor_linked_def)
qed

lemma well_linked_dropped:
  assumes "well_linked h g"
  shows "well_linked (dropped k g h) g"
proof -
  note wlD = well_linkedD [OF assms]
  have "op_of (dropped k g h) k' \<noteq> None" if "k' \<in> set (g_ops g)" for k'
    using wlD(3) [OF that] by (auto simp: dropped_def)
  then show ?thesis
    using wlD by (auto simp: well_linked_def dropped_links linked_dropped)
qed

text \<open>C24: Dropping an operation of a well-linked subgraph always returns, keeps the subgraph well linked,
  leaves the operation without operands and results (so that dead code elimination removes it), and
  touches no other operation and no tensor of another subgraph.  The loop disconnects the first operand again
  and again, sliding the recorded positions of the others, and is correct even for repeated operands.\<close>

theorem Drop_keeps_links:
  assumes "well_linked h g" and "k \<in> set (g_ops g)"
  shows "\<exists>h'. Drop k h = Some h' \<and> well_linked h' g \<and> ins h' k = [] \<and> outs h' k = [] \<and>
    (\<forall>k'. k' \<noteq> k \<longrightarrow> op_of h' k' = op_of h k') \<and>
    (\<forall>t. t \<notin> set (g_tensors g) \<longrightarrow> tensor_of h' t = tensor_of h t)"
  using Drop_effect [OF assms] well_linked_dropped [OF assms(1), of k]
  by (simp add: dropped_links) (simp add: dropped_def)

section \<open>Dead code elimination\<close>

definition dead_op :: "ir_heap \<Rightarrow> nat \<Rightarrow> bool" where
  "dead_op h k \<longleftrightarrow> ins h k = [] \<and> outs h k = []"

definition dead_tensor :: "ir_heap \<Rightarrow> ir_graph \<Rightarrow> nat \<Rightarrow> bool" where
  "dead_tensor h g t \<longleftrightarrow> uses h t = [] \<and> definer h t = None \<and> t \<notin> set (g_inputs g) \<union> set (g_outputs g)"

definition swept :: "ir_graph \<Rightarrow> ir_heap \<Rightarrow> ir_graph \<times> ir_heap" where
  "swept g h =
     (g\<lparr>g_ops := filter (\<lambda>k. \<not> dead_op h k) (g_ops g),
        g_tensors := filter (\<lambda>t. \<not> dead_tensor h g t) (g_tensors g)\<rparr>,
      free_tensors (filter (dead_tensor h g) (g_tensors g)) (free_ops (filter (dead_op h) (g_ops g)) h))"

lemma DCE_run:
  assumes ops: "\<forall>k \<in> set (g_ops g). op_of h k \<noteq> None" and tensors: "\<forall>t \<in> set (g_tensors g). tensor_of h t \<noteq> None"
  shows "DCE g h = Some ((\<exists>k \<in> set (g_ops g). dead_op h k) \<or> (\<exists>t \<in> set (g_tensors g). dead_tensor h g t),
    swept g h)"
proof -
  let ?po = "\<lambda>k. map_option IsOpDead (op_of h k)"
  have po: "?po k = Some (dead_op h k)" if "k \<in> set (g_ops g)" for k
    using ops that by (auto simp: dead_op_def IsOpDead_def)
  have ro: "RemoveIf ?po (g_ops g) = Some (filter (\<lambda>k. \<not> dead_op h k) (g_ops g), filter (dead_op h) (g_ops g))"
    unfolding RemoveIf_Some_iff by (intro conjI ballI filter_cong refl) (simp_all add: po)
  define h1 where "h1 = free_ops (filter (dead_op h) (g_ops g)) h"
  have h1_t: "tensor_of h1 = tensor_of h" by (simp add: h1_def free_ops_def)
  let ?pt = "\<lambda>t. map_option (\<lambda>tt. IsTensorDead tt \<and> \<not> IsIO g t) (tensor_of h1 t)"
  have pt: "?pt t = Some (dead_tensor h g t)" if "t \<in> set (g_tensors g)" for t
    using tensors that h1_t by (auto simp: dead_tensor_def IsTensorDead_def IsIO_iff)
  have rt: "RemoveIf ?pt (g_tensors g) =
      Some (filter (\<lambda>t. \<not> dead_tensor h g t) (g_tensors g), filter (dead_tensor h g) (g_tensors g))"
    unfolding RemoveIf_Some_iff by (intro conjI ballI filter_cong refl) (simp_all add: pt)
  show ?thesis
    by (simp add: DCE_def ro h1_def [symmetric] rt swept_def Let_def)
      (auto simp: filter_empty_conv)
qed

lemma DCE_effect:
  assumes "well_linked h g"
  shows "DCE g h = Some ((\<exists>k \<in> set (g_ops g). dead_op h k) \<or> (\<exists>t \<in> set (g_tensors g). dead_tensor h g t),
    swept g h)"
  using well_linkedD(3) [OF assms] linkedD(1) [OF well_linkedD(6) [OF assms]] by (intro DCE_run ballI) fast+

lemma swept_links:
  assumes s: "swept g h = (g', h')"
  shows "k \<in> set (g_ops g') \<Longrightarrow> op_of h' k = op_of h k"
    "t \<in> set (g_tensors g') \<Longrightarrow> tensor_of h' t = tensor_of h t"
    "\<not> dead_op h k \<Longrightarrow> ins h' k = ins h k" "\<not> dead_op h k \<Longrightarrow> outs h' k = outs h k"
  using s by (auto simp: swept_def free_ops_def free_tensors_def ins_def outs_def)

lemma linked_swept:
  assumes lk: "tensor_linked h (g_ops g) t" and s: "swept g h = (g', h')" and t: "t \<in> set (g_tensors g')"
  shows "tensor_linked h' (g_ops g') t"
proof -
  note lk = linkedD [OF lk]
  have same: "tensor_of h' t = tensor_of h t" using swept_links(2) [OF s t] .
  then have ud: "uses h' t = uses h t" "definer h' t = definer h t" by (simp_all add: uses_def definer_def)
  have ops': "k \<in> set (g_ops g') \<longleftrightarrow> k \<in> set (g_ops g) \<and> \<not> dead_op h k" for k
    using s by (auto simp: swept_def)
  have in_live: "k \<in> set (g_ops g) \<and> i < length (ins h k) \<and> ins h k ! i = Some t \<longleftrightarrow>
      k \<in> set (g_ops g') \<and> i < length (ins h' k) \<and> ins h' k ! i = Some t" for k i
    using swept_links(3) [OF s] by (cases "dead_op h k") (auto simp: ops' dead_op_def)
  have out_live: "k \<in> set (g_ops g) \<and> i < length (outs h k) \<and> outs h k ! i = Some t \<longleftrightarrow>
      k \<in> set (g_ops g') \<and> i < length (outs h' k) \<and> outs h' k ! i = Some t" for k i
    using swept_links(4) [OF s] by (cases "dead_op h k") (auto simp: ops' dead_op_def)
  show ?thesis
    unfolding tensor_linked_def ud using lk same in_live out_live by auto
qed

lemma well_linked_swept:
  assumes wl: "well_linked h g" and s: "swept g h = (g', h')"
  shows "well_linked h' g'"
proof -
  note wlD = well_linkedD [OF wl]
  have ops': "k \<in> set (g_ops g') \<longleftrightarrow> k \<in> set (g_ops g) \<and> \<not> dead_op h k" for k
    using s by (auto simp: swept_def)
  have tensors': "t \<in> set (g_tensors g') \<longleftrightarrow> t \<in> set (g_tensors g) \<and> \<not> dead_tensor h g t" for t
    using s by (auto simp: swept_def)
  have io: "g_inputs g' = g_inputs g" "g_outputs g' = g_outputs g" using s by (auto simp: swept_def)
  have live: "\<not> dead_tensor h g t" if "k \<in> set (g_ops g)" "Some t \<in> set (ins h k) \<union> set (outs h k)" for k t
  proof
    assume dead: "dead_tensor h g t"
    from that wlD(4,5) have "t \<in> set (g_tensors g)" by blast
    note lk = linkedD(3,4) [OF wlD(6) [OF this]]
    from that(2) dead that(1) lk show False
      by (auto simp: dead_tensor_def in_set_conv_nth) metis+
  qed
  have "set (ins h' k) \<union> set (outs h' k) \<subseteq> Some ` set (g_tensors g')" if "k \<in> set (g_ops g')" for k
  proof -
    from that have k: "k \<in> set (g_ops g)" "\<not> dead_op h k" by (simp_all add: ops')
    have "p \<in> Some ` set (g_tensors g')" if "p \<in> set (ins h k) \<union> set (outs h k)" for p
      using that wlD(4,5) [OF k(1)] live [OF k(1)] by (auto simp: tensors')
    with k(2) swept_links(3,4) [OF s] show ?thesis by auto
  qed
  moreover have "op_of h' k \<noteq> None" if "k \<in> set (g_ops g')" for k
    using swept_links(1) [OF s that] wlD(3) that by (auto simp: ops')
  moreover have "distinct (g_ops g')" "distinct (g_tensors g')" using s wlD(1,2) by (auto simp: swept_def)
  moreover have "set (g_inputs g') \<subseteq> set (g_tensors g')" "set (g_outputs g') \<subseteq> set (g_tensors g')"
    using wlD(7,8) by (auto simp: tensors' io dead_tensor_def)
  ultimately show ?thesis
    using linked_swept [OF wlD(6) s] tensors' by (simp add: well_linked_def)
qed


lemma swept_idem:
  assumes wl: "well_linked h g" and s: "swept g h = (g', h')"
  shows "filter (dead_op h') (g_ops g') = []" "filter (dead_tensor h' g') (g_tensors g') = []"
proof -
  have ops': "k \<in> set (g_ops g') \<Longrightarrow> \<not> dead_op h k" for k using s by (auto simp: swept_def)
  have tensors': "t \<in> set (g_tensors g') \<Longrightarrow> \<not> dead_tensor h g t" for t using s by (auto simp: swept_def)
  have io: "g_inputs g' = g_inputs g" "g_outputs g' = g_outputs g" using s by (auto simp: swept_def)
  show "filter (dead_op h') (g_ops g') = []"
    using ops' swept_links(3,4) [OF s] by (auto simp: filter_empty_conv dead_op_def)
  have "uses h' t = uses h t" "definer h' t = definer h t" if "t \<in> set (g_tensors g')" for t
    using swept_links(2) [OF s that] by (simp_all add: uses_def definer_def)
  with tensors' io show "filter (dead_tensor h' g') (g_tensors g') = []"
    by (auto simp: filter_empty_conv dead_tensor_def)
qed

lemma swept_none:
  assumes "filter (dead_op h) (g_ops g) = []" "filter (dead_tensor h g) (g_tensors g) = []"
  shows "swept g h = (g, h)"
proof -
  have "filter (\<lambda>k. \<not> dead_op h k) (g_ops g) = g_ops g" "filter (\<lambda>t. \<not> dead_tensor h g t) (g_tensors g) = g_tensors g"
    using assms by (simp_all add: filter_empty_conv)
  with assms show ?thesis by (simp add: swept_def free_ops_def free_tensors_def)
qed

text \<open>C25: Dead code elimination on a well-linked subgraph returns a well-linked subgraph that keeps, in order, exactly
  the operations with an operand or result and the tensors with a use, a definition or a place among
  the graph inputs and outputs; it reports a change exactly when it removes something, and running it again changes nothing.\<close>

theorem DCE_sound:
  assumes wl: "well_linked h g"
  shows "\<exists>changed g' h'. DCE g h = Some (changed, g', h') \<and> well_linked h' g' \<and>
    g_ops g' = filter (\<lambda>k. ins h k \<noteq> [] \<or> outs h k \<noteq> []) (g_ops g) \<and>
    g_tensors g' = filter (\<lambda>t. uses h t \<noteq> [] \<or> definer h t \<noteq> None \<or>
      t \<in> set (g_inputs g) \<union> set (g_outputs g)) (g_tensors g) \<and>
    (\<forall>k \<in> set (g_ops g'). op_of h' k = op_of h k) \<and>
    (\<forall>t \<in> set (g_tensors g'). tensor_of h' t = tensor_of h t) \<and>
    (changed \<longleftrightarrow> g' \<noteq> g) \<and> DCE g' h' = Some (False, g', h')"
proof -
  obtain g' h' where s: "swept g h = (g', h')" by (cases "swept g h")
  define changed where "changed \<longleftrightarrow> (\<exists>k \<in> set (g_ops g). dead_op h k) \<or> (\<exists>t \<in> set (g_tensors g). dead_tensor h g t)"
  have d: "DCE g h = Some (changed, g', h')" using DCE_effect [OF wl] s by (simp add: changed_def)
  have wl': "well_linked h' g'" using well_linked_swept [OF wl s] .
  have g': "g_ops g' = filter (\<lambda>k. ins h k \<noteq> [] \<or> outs h k \<noteq> []) (g_ops g)"
    "g_tensors g' = filter (\<lambda>t. uses h t \<noteq> [] \<or> definer h t \<noteq> None \<or>
      t \<in> set (g_inputs g) \<union> set (g_outputs g)) (g_tensors g)"
    using s by (auto simp: swept_def dead_op_def dead_tensor_def intro!: filter_cong)
  have "g' = g" if "\<not> changed"
    using that s swept_none [of h g] by (simp add: changed_def filter_empty_conv)
  moreover have "g' \<noteq> g" if "changed"
  proof -
    have "g_ops g' \<noteq> g_ops g \<or> g_tensors g' \<noteq> g_tensors g"
      using that s by (auto simp: changed_def swept_def filter_id_conv)
    then show ?thesis by auto
  qed
  moreover have "DCE g' h' = Some (False, g', h')"
    using DCE_effect [OF wl'] swept_idem [OF wl s] swept_none [of h' g'] by (simp add: filter_empty_conv)
  ultimately show ?thesis using d wl' g' swept_links(1,2) [OF s] by blast
qed

section \<open>Attaching\<close>

lemma AttachInput_effect:
  assumes "op_of h k = Some op" "tensor_of h t = Some tt"
  shows "AttachInput_ir (Some t) k h =
    Some (set_tensor t (tt\<lparr>users := users tt @ [(k, length (op_inputs op))]\<rparr>)
            (set_op k (op\<lparr>op_inputs := op_inputs op @ [Some t]\<rparr>) h))"
  using assms by (simp add: AttachInput_ir_def)

lemma AttachOutput_effect:
  assumes "op_of h k = Some op" "tensor_of h t = Some tt"
  shows "AttachOutput_ir (Some t) k h =
    Some (set_tensor t (tt\<lparr>defining_op := Some (k, length (op_outputs op))\<rparr>)
            (set_op k (op\<lparr>op_outputs := op_outputs op @ [Some t]\<rparr>) h))"
  using assms by (simp add: AttachOutput_ir_def)

lemma AttachInput_linked:
  assumes wl: "well_linked h g" and k: "k \<in> set (g_ops g)" and t: "t \<in> set (g_tensors g)"
  shows "\<exists>h'. AttachInput_ir (Some t) k h = Some h' \<and> well_linked h' g \<and>
    ins h' = (ins h)(k := ins h k @ [Some t]) \<and> outs h' = outs h \<and>
    uses h' = (uses h)(t := uses h t @ [(k, length (ins h k))]) \<and> definer h' = definer h \<and>
    (\<forall>k'. k' \<noteq> k \<longrightarrow> op_of h' k' = op_of h k') \<and> (\<forall>t'. t' \<noteq> t \<longrightarrow> tensor_of h' t' = tensor_of h t')"
proof -
  note wlD = well_linkedD [OF wl]
  obtain op where op: "op_of h k = Some op" using wlD(3) [OF k] by auto
  obtain tt where tt: "tensor_of h t = Some tt" using linkedD(1) [OF wlD(6) [OF t]] by auto
  define h' where "h' = set_tensor t (tt\<lparr>users := users tt @ [(k, length (op_inputs op))]\<rparr>)
            (set_op k (op\<lparr>op_inputs := op_inputs op @ [Some t]\<rparr>) h)"
  have l: "ins h' = (ins h)(k := ins h k @ [Some t])" "outs h' = outs h"
    "uses h' = (uses h)(t := uses h t @ [(k, length (ins h k))])" "definer h' = definer h"
    using op tt by (auto simp: h'_def fun_eq_iff uses_def definer_def ins_def outs_def)
  have "tensor_linked h' (g_ops g) t'" if t': "t' \<in> set (g_tensors g)" for t'
  proof -
    note lk = linkedD [OF wlD(6) [OF t']]
    have "tensor_of h' t' \<noteq> None" using lk(1) by (auto simp: h'_def)
    moreover have "(k, length (ins h k)) \<notin> set (uses h t')" by (simp add: lk(3))
    moreover have "i < length (ins h' k') \<and> ins h' k' ! i = Some t' \<longleftrightarrow>
        (i < length (ins h k') \<and> ins h k' ! i = Some t') \<or> (k' = k \<and> i = length (ins h k) \<and> t' = t)" for k' i
      by (auto simp: l nth_append less_Suc_eq)
    ultimately show ?thesis
      using lk k unfolding tensor_linked_def by (auto simp: l)
  qed
  moreover have "op_of h' k' \<noteq> None" if "k' \<in> set (g_ops g)" for k'
    using wlD(3) [OF that] by (auto simp: h'_def)
  ultimately have "well_linked h' g"
    using wlD t by (auto simp: well_linked_def l)
  with l AttachInput_effect [OF op tt] show ?thesis by (auto simp: h'_def)
qed

lemma AttachOutput_linked:
  assumes wl: "well_linked h g" and k: "k \<in> set (g_ops g)" and t: "t \<in> set (g_tensors g)"
    and fresh: "definer h t = None"
  shows "\<exists>h'. AttachOutput_ir (Some t) k h = Some h' \<and> well_linked h' g \<and>
    ins h' = ins h \<and> outs h' = (outs h)(k := outs h k @ [Some t]) \<and>
    uses h' = uses h \<and> definer h' = (definer h)(t := Some (k, length (outs h k))) \<and>
    (\<forall>k'. k' \<noteq> k \<longrightarrow> op_of h' k' = op_of h k') \<and> (\<forall>t'. t' \<noteq> t \<longrightarrow> tensor_of h' t' = tensor_of h t')"
proof -
  note wlD = well_linkedD [OF wl]
  obtain op where op: "op_of h k = Some op" using wlD(3) [OF k] by auto
  obtain tt where tt: "tensor_of h t = Some tt" using linkedD(1) [OF wlD(6) [OF t]] by auto
  define h' where "h' = set_tensor t (tt\<lparr>defining_op := Some (k, length (op_outputs op))\<rparr>)
            (set_op k (op\<lparr>op_outputs := op_outputs op @ [Some t]\<rparr>) h)"
  have l: "ins h' = ins h" "outs h' = (outs h)(k := outs h k @ [Some t])"
    "uses h' = uses h" "definer h' = (definer h)(t := Some (k, length (outs h k)))"
    using op tt by (auto simp: h'_def fun_eq_iff uses_def definer_def ins_def outs_def)
  have undefined_t: "\<not> (j < length (outs h k') \<and> outs h k' ! j = Some t)" if "k' \<in> set (g_ops g)" for k' j
    using linkedD(4) [OF wlD(6) [OF t], of k' j] fresh that by simp
  have "tensor_linked h' (g_ops g) t'" if t': "t' \<in> set (g_tensors g)" for t'
  proof -
    note lk = linkedD [OF wlD(6) [OF t']]
    have "tensor_of h' t' \<noteq> None" using lk(1) by (auto simp: h'_def)
    moreover have "i < length (outs h' k') \<and> outs h' k' ! i = Some t' \<longleftrightarrow>
        (i < length (outs h k') \<and> outs h k' ! i = Some t') \<or> (k' = k \<and> i = length (outs h k) \<and> t' = t)" for k' i
      by (auto simp: l nth_append less_Suc_eq)
    ultimately show ?thesis
      using lk k undefined_t unfolding tensor_linked_def by (cases "t' = t") (auto simp: l)
  qed
  moreover have "op_of h' k' \<noteq> None" if "k' \<in> set (g_ops g)" for k'
    using wlD(3) [OF that] by (auto simp: h'_def)
  ultimately have "well_linked h' g"
    using wlD t by (auto simp: well_linked_def l)
  with l AttachOutput_effect [OF op tt] show ?thesis by (auto simp: h'_def)
qed


section \<open>Validation\<close>

lemma all_opt_Some_iff:
  assumes "\<forall>x \<in> set xs. p x = Some (q x)"
  shows "all_opt p xs = Some (\<forall>x \<in> set xs. q x)"
  using assms by (induction xs) auto

lemma list_ex_uses:
  "list_ex (\<lambda>u. snd u = i) (GetTensorUses tt (FindUseInds tt k)) \<longleftrightarrow> (k, i) \<in> set (users tt)"
  by (auto simp: GetTensorUses_def FindUseInds_def list_ex_iff in_set_conv_nth)

lemma ValidateLocalTopology_links:
  assumes "well_linked h g" and "k \<in> set (g_ops g)"
    and same: "\<forall>t. tensor_of h' t = None \<longleftrightarrow> tensor_of h t = None" "op_of h' k = op_of h k"
  shows "ValidateLocalTopology h' k = Some (
    (\<forall>i t. i < length (ins h' k) \<and> ins h' k ! i = Some t \<longrightarrow> (k, i) \<in> set (uses h' t)) \<and>
    (\<forall>j t. j < length (outs h' k) \<and> outs h' k ! j = Some t \<longrightarrow> definer h' t = Some (k, j)))"
proof -
  note wlD = well_linkedD [OF assms(1)]
  obtain op where op: "op_of h' k = Some op" using wlD(3) [OF assms(2)] same(2) by auto
  have alloc: "\<exists>t tt. p = Some t \<and> tensor_of h' t = Some tt"
    if p: "p \<in> set (op_inputs op) \<union> set (op_outputs op)" for p
  proof -
    from p wlD(4,5) [OF assms(2)] op same(2) obtain t where t: "p = Some t" "t \<in> set (g_tensors g)"
      by auto
    with linkedD(1) [OF wlD(6)] same(1) have "tensor_of h' t \<noteq> None" by auto
    with t(1) show ?thesis by auto
  qed
  define qi where "qi i \<longleftrightarrow> (k, i) \<in> set (uses h' (the (op_inputs op ! i)))" for i
  define qo where "qo j \<longleftrightarrow> definer h' (the (op_outputs op ! j)) = Some (k, j)" for j
  have "\<forall>i \<in> set [0..<length (op_inputs op)]. input_edge_ok h' k op i = Some (qi i)"
  proof
    fix i assume "i \<in> set [0..<length (op_inputs op)]"
    moreover from this obtain t tt where "op_inputs op ! i = Some t" "tensor_of h' t = Some tt"
      using alloc [of "op_inputs op ! i"] by auto
    ultimately show "input_edge_ok h' k op i = Some (qi i)"
      by (simp add: input_edge_ok_def at_def list_ex_uses qi_def)
  qed
  note ins_ok = all_opt_Some_iff [OF this]
  have "\<forall>j \<in> set [0..<length (op_outputs op)]. output_edge_ok h' k op j = Some (qo j)"
  proof
    fix j assume "j \<in> set [0..<length (op_outputs op)]"
    moreover from this obtain t tt where "op_outputs op ! j = Some t" "tensor_of h' t = Some tt"
      using alloc [of "op_outputs op ! j"] by auto
    ultimately show "output_edge_ok h' k op j = Some (qo j)"
      by (auto simp: output_edge_ok_def at_def qo_def split: option.splits)
  qed
  note outs_ok = all_opt_Some_iff [OF this]
  have some: "\<exists>t. op_inputs op ! i = Some t" if "i < length (op_inputs op)" for i
    using alloc [of "op_inputs op ! i"] that by auto
  have some': "\<exists>t. op_outputs op ! i = Some t" if "i < length (op_outputs op)" for i
    using alloc [of "op_outputs op ! i"] that by auto
  have "(\<forall>i \<in> set [0..<length (op_inputs op)]. qi i) \<longleftrightarrow>
      (\<forall>i t. i < length (ins h' k) \<and> ins h' k ! i = Some t \<longrightarrow> (k, i) \<in> set (uses h' t))"
    using some op by (force simp: qi_def)
  moreover have "(\<forall>j \<in> set [0..<length (op_outputs op)]. qo j) \<longleftrightarrow>
      (\<forall>j t. j < length (outs h' k) \<and> outs h' k ! j = Some t \<longrightarrow> definer h' t = Some (k, j))"
    using some' op by (force simp: qo_def)
  ultimately show ?thesis
    using op ins_ok outs_ok by (auto simp: ValidateLocalTopology_def)
qed

lemma ValidateLocalTopology_linked:
  assumes "well_linked h g" and "k \<in> set (g_ops g)"
  shows "ValidateLocalTopology h k = Some True"
proof -
  note wlD = well_linkedD [OF assms(1)]
  have "t \<in> set (g_tensors g)" if "i < length (ins h k)" "ins h k ! i = Some t" for i t
    using wlD(4) [OF assms(2)] that by (metis (no_types, lifting) image_iff nth_mem option.inject subsetD)
  moreover have "t \<in> set (g_tensors g)" if "i < length (outs h k)" "outs h k ! i = Some t" for i t
    using wlD(5) [OF assms(2)] that by (metis (no_types, lifting) image_iff nth_mem option.inject subsetD)
  ultimately show ?thesis
    using ValidateLocalTopology_links [OF assms, of h] linkedD(3,4) [OF wlD(6)] assms(2) by auto
qed

section \<open>Disconnecting an input\<close>

lemma nth_erase_at: "a < length xs - 1 \<Longrightarrow> erase_at i xs ! a = (if a < i then xs ! a else xs ! Suc a)"
  by (auto simp: erase_at_def nth_append min_def)

lemma erase_at_map: "erase_at j (map f xs) = map f (erase_at j xs)"
  by (simp add: erase_at_def take_map drop_map)

lemma slide_use_idle:
  assumes "\<forall>u \<in> set us. fst u = k \<longrightarrow> snd u \<le> i"
  shows "map (slide_use k i ^^ n) us = us"
proof -
  have "(slide_use k i ^^ n) u = u" if "fst u = k \<longrightarrow> snd u \<le> i" for u
    using that by (induction n) (auto simp: slide_use_def)
  with assms show ?thesis by (simp add: map_idI)
qed

lemma set_erase_at:
  assumes "j < length xs" "distinct xs"
  shows "set (erase_at j xs) = set xs - {xs ! j}" "distinct (erase_at j xs)"
proof -
  have m: "mset xs = add_mset (xs ! j) (mset (erase_at j xs))" by (rule mset_erase_at) (rule assms(1))
  with assms(2) have d: "distinct (xs ! j # erase_at j xs)"
    by (metis mset.simps(2) mset_eq_imp_distinct_iff)
  from m have "set xs = insert (xs ! j) (set (erase_at j xs))"
    by (metis list.simps(15) mset.simps(2) mset_eq_setD)
  with d show "set (erase_at j xs) = set xs - {xs ! j}" "distinct (erase_at j xs)" by auto
qed

lemma slide_uses:
  assumes "distinct us" "(k, i) \<notin> set us"
  shows "distinct (map (slide_use k i) us)"
    "(k', a) \<in> set (map (slide_use k i) us) \<longleftrightarrow>
       (if k' = k \<and> i \<le> a then (k, Suc a) \<in> set us else (k', a) \<in> set us)"
proof -
  have "inj_on (slide_use k i) (set us)"
    using assms(2) by (auto simp: inj_on_def slide_use_def split: if_splits)
      (metis Suc_pred gr_implies_not0 less_antisym not_gr_zero)+
  with assms(1) show "distinct (map (slide_use k i) us)" by (simp add: distinct_map)
  have "(k, a) \<in> slide_use k i ` set us \<longleftrightarrow> (k, Suc a) \<in> set us" if "i \<le> a"
  proof
    assume "(k, a) \<in> slide_use k i ` set us"
    then obtain b where "(k, b) \<in> set us" "a = (if b > i then b - 1 else b)"
      by (auto simp: slide_use_def split: if_splits)
    with assms(2) that show "(k, Suc a) \<in> set us"
      by (metis Suc_pred' le_neq_implies_less linorder_not_le not_less_zero zero_less_iff_neq_zero)
  next
    assume "(k, Suc a) \<in> set us"
    then show "(k, a) \<in> slide_use k i ` set us"
      using that by (force simp: slide_use_def image_iff)
  qed
  moreover have "(k', a) \<in> slide_use k i ` set us \<longleftrightarrow> (k', a) \<in> set us" if "\<not> (k' = k \<and> i \<le> a)"
    using that by (force simp: slide_use_def image_iff split: if_splits)
  ultimately show "(k', a) \<in> set (map (slide_use k i) us) \<longleftrightarrow>
       (if k' = k \<and> i \<le> a then (k, Suc a) \<in> set us else (k', a) \<in> set us)" by auto
qed


lemma count_list_distinct: "distinct xs \<Longrightarrow> count_list xs x = (if x \<in> set xs then 1 else 0)"
  by (induction xs) auto

text \<open>C35: Disconnecting one input of an operation of a well-linked subgraph removes exactly that operand, returns its
  tensor, and keeps all links, the recorded positions of the later operands included, provided no tensor occurs twice
  among the later operands.\<close>

theorem DisconnectInput_keeps_links:
  assumes wl: "well_linked h g" and k: "k \<in> set (g_ops g)" and i: "i < length (ins h k)"
    and later: "distinct (drop (Suc i) (ins h k))"
  shows "\<exists>t h'. DisconnectInput k i h = Some (t, h') \<and> ins h k ! i = Some t \<and> well_linked h' g \<and>
    ins h' = (ins h)(k := erase_at i (ins h k)) \<and> outs h' = outs h"
proof -
  note wlD = well_linkedD [OF wl]
  obtain op where op: "op_of h k = Some op" using wlD(3) [OF k] by auto
  have alloc: "\<exists>t. p = Some t \<and> t \<in> set (g_tensors g) \<and> tensor_of h t \<noteq> None" if "p \<in> set (op_inputs op)" for p
    using wlD(4) [OF k] op that linkedD(1) [OF wlD(6)] by fastforce
  from i op have i': "i < length (op_inputs op)" by simp
  with alloc [of "op_inputs op ! i"] obtain t tt where t: "op_inputs op ! i = Some t"
    "t \<in> set (g_tensors g)" "tensor_of h t = Some tt" by auto
  have "(k, i) \<in> set (users tt)"
    using linkedD(3) [OF wlD(6) [OF t(2)], of k i] t op k i' by simp
  then obtain j where j: "target_use tt (k, i) = Some j" using target_use_exists by blast
  note jD = target_use_SomeD [OF j]
  define h' where "h' = h\<lparr>op_of := (op_of h)(k \<mapsto> op\<lparr>op_inputs := erase_at i (op_inputs op)\<rparr>),
      tensor_of := (\<lambda>t'. map_option (\<lambda>tt. tt\<lparr>users := (if t' = t then erase_at j else id)
        (map (slide_use k i ^^ count_list (drop (Suc i) (op_inputs op)) (Some t')) (users tt))\<rparr>)
        (tensor_of h t'))\<rparr>"
  have eff: "DisconnectInput k i h = Some (t, h')"
    unfolding h'_def
  proof (rule DisconnectInput_effect [OF op i' t(1,3) _ j], rule ballI)
    fix p assume "p \<in> set (op_inputs op)"
    from alloc [OF this] show "\<exists>t. p = Some t \<and> tensor_of h t \<noteq> None" by blast
  qed
  have l: "ins h' = (ins h)(k := erase_at i (ins h k))" "outs h' = outs h" "definer h' = definer h"
    using op by (auto simp: h'_def ins_def outs_def definer_def fun_eq_iff split: option.splits)
  have lk': "tensor_linked h' (g_ops g) t'" if t': "t' \<in> set (g_tensors g)" for t'
  proof -
    note lk = linkedD [OF wlD(6) [OF t']]
    obtain tt' where tt': "tensor_of h t' = Some tt'" using lk(1) by auto
    define us where "us = (if t' = t then erase_at j else id) (users tt')"
    have us: "distinct us" "set us = set (users tt') - {(k, i)}"
    proof -
      have "(k, i) \<notin> set (users tt')" if "t' \<noteq> t"
        using lk(3) [of k i] tt' op t(1) that by simp
      then show "distinct us" "set us = set (users tt') - {(k, i)}"
        using set_erase_at [OF jD(1)] jD(2) lk(2) tt' t(3) by (auto simp: us_def)
    qed
    have "count_list (drop (Suc i) (op_inputs op)) (Some t') \<in> {0, 1}"
      using count_list_distinct [OF later] op by auto
    moreover have "map (slide_use k i ^^ 0) us = map (slide_use k i) us"
      if "count_list (drop (Suc i) (op_inputs op)) (Some t') = 0"
    proof -
      have "snd u \<le> i" if "u \<in> set us" "fst u = k" for u
      proof (rule ccontr)
        assume "\<not> snd u \<le> i"
        from that(1) us(2) have "u \<in> set (users tt')" by simp
        then have "(k, snd u) \<in> set (uses h t')"
          using that(2) tt' by (metis link_simps(1) prod.collapse)
        then have "snd u < length (op_inputs op)" "op_inputs op ! snd u = Some t'" using lk(3) op by auto
        with \<open>\<not> snd u \<le> i\<close> have "Some t' \<in> set (drop (Suc i) (op_inputs op))"
          by (auto simp: in_set_conv_nth intro!: exI [of _ "snd u - Suc i"])
        with \<open>count_list _ _ = 0\<close> show False by (simp add: count_list_0_iff)
      qed
      then show ?thesis using slide_use_idle [of us k i 1] by simp
    qed
    moreover have "uses h' t' = map (slide_use k i ^^ count_list (drop (Suc i) (op_inputs op)) (Some t')) us"
      using tt' by (simp add: h'_def us_def erase_at_map)
    ultimately have "uses h' t' = map (slide_use k i) us" by (elim insertE) simp_all
    moreover have "(k, i) \<notin> set us" by (simp add: us(2))
    ultimately have d: "distinct (uses h' t')"
      and m: "(k', a) \<in> set (uses h' t') \<longleftrightarrow>
        (if k' = k \<and> i \<le> a then (k, Suc a) \<in> set us else (k', a) \<in> set us)" for k' a
      using slide_uses [OF us(1)] by simp_all
    have us_iff: "(k', a) \<in> set us \<longleftrightarrow> (k', a) \<noteq> (k, i) \<and>
        k' \<in> set (g_ops g) \<and> a < length (ins h k') \<and> ins h k' ! a = Some t'" for k' a
      using us(2) tt' lk(3) [of k' a] by auto
    have "(k', a) \<in> set (uses h' t') \<longleftrightarrow>
        k' \<in> set (g_ops g) \<and> a < length (ins h' k') \<and> ins h' k' ! a = Some t'" for k' a
    proof (cases "k' = k")
      case True
      have "a < length (ins h k) - 1 \<longleftrightarrow> Suc a < length (ins h k)" by auto
      with True i k show ?thesis
        by (cases "i \<le> a") (auto simp: m us_iff l length_erase_at nth_erase_at)
    next
      case False
      then show ?thesis by (simp add: m us_iff l)
    qed
    moreover have "tensor_of h' t' \<noteq> None" by (simp add: h'_def tt')
    ultimately show ?thesis using d lk(4) by (simp add: tensor_linked_def l)
  qed
  have "op_of h' k' \<noteq> None" if "k' \<in> set (g_ops g)" for k'
    using wlD(3) [OF that] by (auto simp: h'_def)
  moreover have "set (erase_at i (ins h k)) \<subseteq> set (ins h k)"
    by (auto simp: erase_at_def dest: in_set_takeD in_set_dropD)
  then have "set (erase_at i (ins h k)) \<subseteq> Some ` set (g_tensors g)" using wlD(4) [OF k] by blast
  ultimately have "well_linked h' g"
    using wlD lk' k unfolding well_linked_def l by auto
  with eff l t(1) op show ?thesis by auto
qed


section \<open>Two edits that break the links\<close>

text \<open>Heaps given by the lists of their objects.\<close>

definition heap_of :: "LiteRtTensorT list \<Rightarrow> LiteRtOpT list \<Rightarrow> ir_heap" where
  "heap_of ts os = \<lparr>tensor_of = at ts, op_of = at os, next_tensor = length ts, next_op = length os\<rparr>"

definition plain_tensor :: "(nat \<times> nat) list \<Rightarrow> (nat \<times> nat) option \<Rightarrow> LiteRtTensorT" where
  "plain_tensor us d = \<lparr>tensor_name = [], quantization = QuantizationNone,
     tensor_type = RankedTensorType 1 [2], tensor_index = 0, weights = [],
     users = us, defining_op = d\<rparr>"

definition plain_op :: "nat list \<Rightarrow> nat list \<Rightarrow> LiteRtOpT" where
  "plain_op is os = \<lparr>custom_options = [], tfl_option = OtherOptions, tfl_op_code_ind = 0,
     litert_op_code = kLiteRtOpCodeTflAdd, custom_code = [], op_inputs = map Some is, op_outputs = map Some os\<rparr>"

definition graph_of :: "LiteRtTensorT list \<Rightarrow> LiteRtOpT list \<Rightarrow> nat list \<Rightarrow> nat list \<Rightarrow> ir_graph" where
  "graph_of ts os is us = \<lparr>g_tensors = [0..<length ts], g_ops = [0..<length os], g_inputs = is, g_outputs = us\<rparr>"

text \<open>The links of such a heap are checked position by position.\<close>

definition links_checked :: "LiteRtTensorT list \<Rightarrow> LiteRtOpT list \<Rightarrow> bool" where
  "links_checked ts os \<longleftrightarrow>
     list_all (\<lambda>op. list_all (\<lambda>p. case p of None \<Rightarrow> False | Some t \<Rightarrow> t < length ts) (op_inputs op @ op_outputs op)) os \<and>
     list_all (\<lambda>t. distinct (users (ts ! t)) \<and>
       list_all (\<lambda>(k, i). k < length os \<and> i < length (op_inputs (os ! k)) \<and> op_inputs (os ! k) ! i = Some t) (users (ts ! t)) \<and>
       (case defining_op (ts ! t) of None \<Rightarrow> True
        | Some (k, j) \<Rightarrow> k < length os \<and> j < length (op_outputs (os ! k)) \<and> op_outputs (os ! k) ! j = Some t))
       [0..<length ts] \<and>
     list_all (\<lambda>k.
       list_all (\<lambda>i. case op_inputs (os ! k) ! i of None \<Rightarrow> False | Some t \<Rightarrow> (k, i) \<in> set (users (ts ! t)))
         [0..<length (op_inputs (os ! k))] \<and>
       list_all (\<lambda>j. case op_outputs (os ! k) ! j of None \<Rightarrow> False | Some t \<Rightarrow> defining_op (ts ! t) = Some (k, j))
         [0..<length (op_outputs (os ! k))])
       [0..<length os]"

lemma links_checked_linked:
  assumes c: "links_checked ts os" and io: "\<forall>t \<in> set is \<union> set us. t < length ts"
  shows "well_linked (heap_of ts os) (graph_of ts os is us)"
proof -
  let ?h = "heap_of ts os"
  have h: "tensor_of ?h t = (if t < length ts then Some (ts ! t) else None)"
    "op_of ?h k = (if k < length os then Some (os ! k) else None)" for t k
    by (simp_all add: heap_of_def at_def)
  have l: "t < length ts \<Longrightarrow> uses ?h t = users (ts ! t)" "t < length ts \<Longrightarrow> definer ?h t = defining_op (ts ! t)"
    "k < length os \<Longrightarrow> ins ?h k = op_inputs (os ! k)" "k < length os \<Longrightarrow> outs ?h k = op_outputs (os ! k)" for t k
    by (simp_all add: h)
  have opnd: "p \<in> Some ` {0..<length ts}" if "k < length os" "p \<in> set (op_inputs (os ! k)) \<union> set (op_outputs (os ! k))"
    for k p
  proof -
    have "list_all (\<lambda>p. case p of None \<Rightarrow> False | Some t \<Rightarrow> t < length ts) (op_inputs (os ! k) @ op_outputs (os ! k))"
      using c nth_mem [OF that(1)] unfolding links_checked_def list_all_iff by blast
    with that(2) have "case p of None \<Rightarrow> False | Some t \<Rightarrow> t < length ts" by (auto simp: list_all_iff)
    then show ?thesis by (cases p) auto
  qed
  have "tensor_linked ?h [0..<length os] t" if t: "t < length ts" for t
  proof -
    from c t have ct: "distinct (users (ts ! t))"
      "\<forall>(k, i) \<in> set (users (ts ! t)). k < length os \<and> i < length (op_inputs (os ! k)) \<and> op_inputs (os ! k) ! i = Some t"
      "\<forall>k j. defining_op (ts ! t) = Some (k, j) \<longrightarrow>
         k < length os \<and> j < length (op_outputs (os ! k)) \<and> op_outputs (os ! k) ! j = Some t"
      by (auto simp: links_checked_def list_all_iff split: option.splits)
    have ck: "(k, i) \<in> set (users (ts ! t))"
      if "k < length os" "i < length (op_inputs (os ! k))" "op_inputs (os ! k) ! i = Some t" for k i
    proof -
      have "case op_inputs (os ! k) ! i of None \<Rightarrow> False | Some t \<Rightarrow> (k, i) \<in> set (users (ts ! t))"
        using c that(1,2) by (simp add: links_checked_def list_all_iff)
      with that(3) show ?thesis by simp
    qed
    have cd: "defining_op (ts ! t) = Some (k, j)"
      if "k < length os" "j < length (op_outputs (os ! k))" "op_outputs (os ! k) ! j = Some t" for k j
    proof -
      have "case op_outputs (os ! k) ! j of None \<Rightarrow> False | Some t \<Rightarrow> defining_op (ts ! t) = Some (k, j)"
        using c that(1,2) by (simp add: links_checked_def list_all_iff)
      with that(3) show ?thesis by simp
    qed
    have "(k, i) \<in> set (users (ts ! t)) \<longleftrightarrow>
        k < length os \<and> i < length (ins ?h k) \<and> ins ?h k ! i = Some t" for k i
      using ct(2) ck [of k i] l(3) [of k] by auto
    moreover have "defining_op (ts ! t) = Some (k, j) \<longleftrightarrow>
        k < length os \<and> j < length (outs ?h k) \<and> outs ?h k ! j = Some t" for k j
      using ct(3) cd [of k j] l(4) [of k] by auto
    ultimately show ?thesis
      using ct(1) by (simp add: tensor_linked_def l(1,2) [OF t]) (simp add: h t)
  qed
  with opnd io show ?thesis
    by (auto simp: well_linked_def graph_of_def h l)
qed


text \<open>
  An operation that reads the tensors 0, 1, 1 and writes 2 and 3.  Disconnecting its first input
  slides each of the two uses of tensor 1 twice, so that both are recorded at position 0;
  disconnecting its first output leaves the second output recorded at position 1.
\<close>

definition repeat_tensors :: "LiteRtTensorT list" where
  "repeat_tensors = [plain_tensor [(0, 0)] None, plain_tensor [(0, 1), (0, 2)] None,
     plain_tensor [] (Some (0, 0)), plain_tensor [] (Some (0, 1))]"

definition repeat_ops :: "LiteRtOpT list" where
  "repeat_ops = [plain_op [0, 1, 1] [2, 3]]"

lemmas heap_eval = repeat_tensors_def repeat_ops_def plain_tensor_def plain_op_def heap_of_def graph_of_def
  links_checked_def at_def

lemma repeat_linked:
  "well_linked (heap_of repeat_tensors repeat_ops) (graph_of repeat_tensors repeat_ops [0, 1] [2, 3])"
  by (rule links_checked_linked) (simp_all add: heap_eval)

lemmas edge_eval = heap_eval DisconnectInput_def DisconnectOutput_def slide_input_def slide_use_def
  target_use_def RemoveUse_def erase_at_def uses_def definer_def ValidateLocalTopology_def
  input_edge_ok_def output_edge_ok_def list_ex_uses

lemma DisconnectInput_repeated_operand:
  "case DisconnectInput 0 0 (heap_of repeat_tensors repeat_ops) of
     None \<Rightarrow> False
   | Some (t, h) \<Rightarrow> t = 0 \<and> uses h 1 = [(0, 0), (0, 0)] \<and> ValidateLocalTopology h 0 = Some False"
  by (simp add: edge_eval)

lemma DisconnectOutput_first_of_two:
  "case DisconnectOutput 0 0 (heap_of repeat_tensors repeat_ops) of
     None \<Rightarrow> False
   | Some (t, h) \<Rightarrow> t = 2 \<and> outs h 0 = [Some 3] \<and> definer h 3 = Some (0, 1) \<and>
       ValidateLocalTopology h 0 = Some False"
  by (simp add: edge_eval)

text \<open>
  The number of uses is not compared with the number of operands: a tensor that names the operation as a user at a position
  it does not have passes.
\<close>

lemma ValidateLocalTopology_extra_use:
  "ValidateLocalTopology (heap_of [plain_tensor [(0, 0), (0, 7)] None, plain_tensor [] (Some (0, 0))] [plain_op [0] [1]]) 0 = Some True"
  by (simp add: edge_eval)

section \<open>Instances\<close>

theorem Drop_keeps_links_witness:
  "case Drop 0 (heap_of repeat_tensors repeat_ops) of
     None \<Rightarrow> False | Some h \<Rightarrow> well_linked h (graph_of repeat_tensors repeat_ops [0, 1] [2, 3])"
  using Drop_keeps_links [OF repeat_linked, of 0] by (auto simp: heap_eval)

theorem DCE_sound_witness:
  "case DCE (graph_of repeat_tensors repeat_ops [0, 1] [2, 3]) (heap_of repeat_tensors repeat_ops) of
     None \<Rightarrow> False | Some (changed, g, h) \<Rightarrow> well_linked h g \<and> g_ops g = [0]"
  using DCE_sound [OF repeat_linked] by (auto simp: heap_eval)

theorem DisconnectInput_keeps_links_witness:
  "case DisconnectInput 0 1 (heap_of repeat_tensors repeat_ops) of
     None \<Rightarrow> False
   | Some (t, h) \<Rightarrow> t = 1 \<and> well_linked h (graph_of repeat_tensors repeat_ops [0, 1] [2, 3])"
  using DisconnectInput_keeps_links [OF repeat_linked, of 0 1] by (auto simp: heap_eval)

text \<open>A chain of three operations.\<close>

definition chain_tensors :: "LiteRtTensorT list" where
  "chain_tensors = [plain_tensor [(0, 0)] None, plain_tensor [(1, 0)] (Some (0, 0)),
     plain_tensor [(2, 0)] (Some (1, 0)), plain_tensor [] (Some (2, 0))]"

definition chain_ops :: "LiteRtOpT list" where
  "chain_ops = [plain_op [0] [1], plain_op [1] [2], plain_op [2] [3]]"

definition chain_heap :: ir_heap where
  "chain_heap = heap_of chain_tensors chain_ops"

definition chain_graph :: ir_graph where
  "chain_graph = graph_of chain_tensors chain_ops [0] [3]"

lemma chain_linked: "well_linked chain_heap chain_graph"
  unfolding chain_heap_def chain_graph_def
  by (rule links_checked_linked) (simp_all add: heap_eval chain_tensors_def chain_ops_def)

lemma chain_graph_simps [simp]:
  "g_tensors chain_graph = [0, 1, 2, 3]" "g_ops chain_graph = [0, 1, 2]" "g_inputs chain_graph = [0]" "g_outputs chain_graph = [3]"
  by (simp_all add: chain_graph_def graph_of_def chain_tensors_def chain_ops_def upt_rec)

lemma chain_heap_eval:
  "tensor_of chain_heap t = (if t < 4 then Some (chain_tensors ! t) else None)"
  "op_of chain_heap k = (if k < 3 then Some (plain_op [k] [Suc k]) else None)"
  by (auto simp: chain_heap_def heap_of_def at_def chain_tensors_def chain_ops_def less_Suc_eq eval_nat_numeral)

end
