(* ===== verification/UnionFind.thy ===== *)
theory UnionFind
  imports PluginAlgo GraphIRCorrect
begin

text \<open>
  The union-find grouping of \<open>DisjointSets\<close>: path compression keeps the roots, an insertion joins two
  classes, the search for a root returns, and the buckets are the connected components.
\<close>

section \<open>Forests\<close>

text \<open>The operation at the top of the chain of parents; a cycle has none.\<close>

inductive tree_root :: "('a \<Rightarrow> 'a option) \<Rightarrow> 'a \<Rightarrow> 'a \<Rightarrow> bool" for f where
  root_here: "f x = Some x \<Longrightarrow> tree_root f x x"
| root_up: "f x = Some p \<Longrightarrow> p \<noteq> x \<Longrightarrow> tree_root f p r \<Longrightarrow> tree_root f x r"

inductive_simps root_step: "tree_root f x r"

definition forest :: "('a \<Rightarrow> 'a option) \<Rightarrow> bool" where
  "forest f \<longleftrightarrow> (\<forall>x \<in> dom f. \<exists>r. tree_root f x r)"

definition same :: "('a \<Rightarrow> 'a option) \<Rightarrow> 'a \<Rightarrow> 'a \<Rightarrow> bool" where
  "same f x y \<longleftrightarrow> (\<exists>r. tree_root f x r \<and> tree_root f y r)"

lemma root_self: "tree_root f x r \<Longrightarrow> f r = Some r"
  by (induction rule: tree_root.induct)

lemma root_root: "tree_root f x r \<Longrightarrow> tree_root f r r"
  by (rule root_here) (rule root_self)

lemma root_dom: "tree_root f x r \<Longrightarrow> f x \<noteq> None"
  by (subst (asm) root_step) auto

lemma root_unique: "tree_root f x r \<Longrightarrow> tree_root f x r' \<Longrightarrow> r' = r"
proof (induction arbitrary: r' rule: tree_root.induct)
  case (root_here x)
  from root_here.prems show ?case by (rule tree_root.cases) (use root_here.hyps in auto)
next
  case (root_up x p r)
  from root_up.prems have "tree_root f p r'" by (rule tree_root.cases) (use root_up.hyps(1,2) in auto)
  then show ?case by (rule root_up.IH)
qed

lemma root_compress:
  assumes r: "tree_root f x r"
  shows "tree_root (f(x \<mapsto> r)) y s \<longleftrightarrow> tree_root f y s"
proof -
  define g where "g = f(x \<mapsto> r)"
  have g: "g x = Some r" "z \<noteq> x \<Longrightarrow> g z = f z" for z by (simp_all add: g_def)
  have r': "f r = Some r" using r by (rule root_self)
  have "tree_root g y s" if "tree_root f y s"
    using that
  proof (induction rule: tree_root.induct)
    case (root_here y)
    then have "y = x \<Longrightarrow> r = x" using root_unique [OF tree_root.root_here r] by auto
    with root_here g show ?case by (cases "y = x") (auto intro: tree_root.root_here)
  next
    case (root_up y p s)
    show ?case
    proof (cases "y = x")
      case True
      from root_up.hyps have "tree_root f y s" by (rule tree_root.root_up)
      with True r have "s = r" using root_unique by metis
      moreover have "r \<noteq> x" using r' root_up.hyps True by auto
      moreover from this have "tree_root g r r" using r' g by (intro tree_root.root_here) simp
      ultimately show ?thesis using True g tree_root.root_up [of g x r r] by simp
    next
      case False
      with root_up g show ?thesis by (intro tree_root.root_up [of g y p]) auto
    qed
  qed
  moreover have "tree_root f y s" if "tree_root g y s"
    using that
  proof (induction rule: tree_root.induct)
    case (root_here y)
    then show ?case using r g by (cases "y = x") (auto intro: tree_root.root_here)
  next
    case (root_up y p s)
    show ?case
    proof (cases "y = x")
      case True
      with root_up g have "tree_root f r s" by simp
      with root_unique [OF root_root [OF r]] have "s = r" by blast
      with True r show ?thesis by simp
    next
      case False
      with root_up g show ?thesis by (intro tree_root.root_up [of f y p]) auto
    qed
  qed
  ultimately show ?thesis unfolding g_def by blast
qed

lemma root_union:
  assumes a: "f a = Some a" and b: "f b = Some b" and ab: "a \<noteq> b"
  shows "tree_root (f(a \<mapsto> b)) y s \<longleftrightarrow> tree_root f y s \<and> s \<noteq> a \<or> tree_root f y a \<and> s = b"
proof -
  define g where "g = f(a \<mapsto> b)"
  have g: "g a = Some b" "z \<noteq> a \<Longrightarrow> g z = f z" for z by (simp_all add: g_def)
  have b': "tree_root g b b" using g b ab by (intro root_here) simp
  have "tree_root g y (if r = a then b else r)" if "tree_root f y r" for r
    using that
  proof (induction rule: tree_root.induct)
    case (root_here y)
    show ?case
    proof (cases "y = a")
      case True
      then show ?thesis using tree_root.root_up [of g a b b] b' ab g by simp
    next
      case False
      with root_here g show ?thesis by (auto intro: tree_root.root_here)
    qed
  next
    case (root_up y p r)
    then have "y \<noteq> a" using a by auto
    with root_up g show ?case by (intro tree_root.root_up [of g y p]) auto
  qed
  then have "tree_root g y s" if "tree_root f y s \<and> s \<noteq> a \<or> tree_root f y a \<and> s = b"
    using that by (metis (full_types))
  moreover have "tree_root f y s \<and> s \<noteq> a \<or> tree_root f y a \<and> s = b" if "tree_root g y s"
    using that
  proof (induction rule: tree_root.induct)
    case (root_here y)
    with g ab have "y \<noteq> a" by auto
    with root_here g show ?case by (auto intro: tree_root.root_here)
  next
    case (root_up y p s)
    show ?case
    proof (cases "y = a")
      case True
      with root_up.hyps g have "p = b" by simp
      with root_up.IH have "tree_root f b s \<or> tree_root f b a" by auto
      with root_unique [OF tree_root.root_here [of f b, OF b]] ab root_up.IH \<open>p = b\<close> have "s = b" by auto
      with True a show ?thesis by (auto intro: tree_root.root_here)
    next
      case False
      with root_up.hyps g have "f y = Some p" "p \<noteq> y" by auto
      with root_up.IH show ?thesis by (auto intro: tree_root.root_up)
    qed
  qed
  ultimately show ?thesis unfolding g_def by blast
qed

lemma same_refl: "forest f \<Longrightarrow> f x \<noteq> None \<Longrightarrow> same f x x"
  by (auto simp: same_def forest_def)

lemma same_sym: "same f x y \<Longrightarrow> same f y x"
  by (auto simp: same_def)

lemma same_trans: "same f x y \<Longrightarrow> same f y z \<Longrightarrow> same f x z"
  by (auto simp: same_def) (metis root_unique)

lemma same_rootI: "tree_root f x r \<Longrightarrow> tree_root f y r \<Longrightarrow> same f x y"
  by (auto simp: same_def)

lemma same_union:
  assumes "forest f" "tree_root f x0 a" "tree_root f y0 b" "a \<noteq> b"
  shows "same (f(a \<mapsto> b)) x y \<longleftrightarrow> same f x y \<or> same f x x0 \<and> same f y y0 \<or> same f x y0 \<and> same f y x0"
proof -
  have ab: "f a = Some a" "f b = Some b" using assms(2,3) root_self by fast+
  have x0: "same f x x0 \<longleftrightarrow> tree_root f x a" and y0: "same f x y0 \<longleftrightarrow> tree_root f x b" for x
    using assms(2,3) root_unique by (metis same_def)+
  note u = root_union [OF ab assms(4)]
  show ?thesis
  proof
    assume "same (f(a \<mapsto> b)) x y"
    then obtain r where "tree_root f x r \<and> r \<noteq> a \<or> tree_root f x a \<and> r = b" "tree_root f y r \<and> r \<noteq> a \<or> tree_root f y a \<and> r = b"
      by (auto simp: same_def u)
    then show "same f x y \<or> same f x x0 \<and> same f y y0 \<or> same f x y0 \<and> same f y x0"
      by (auto simp: x0 y0 intro: same_rootI)
  next
    assume "same f x y \<or> same f x x0 \<and> same f y y0 \<or> same f x y0 \<and> same f y x0"
    moreover have "same (f(a \<mapsto> b)) x y" if "tree_root f x r" "tree_root f y r" for r
      using that assms(4) by (intro same_rootI [of _ _ "if r = a then b else r"]) (auto simp: u)
    moreover have "same (f(a \<mapsto> b)) x y" if "tree_root f x r" "tree_root f y s" "{r, s} = {a, b}" for r s
      using that assms(4) by (intro same_rootI [of _ _ b]) (auto simp: u doubleton_eq_iff)
    ultimately show "same (f(a \<mapsto> b)) x y"
      unfolding x0 y0 by (metis insert_commute same_def)
  qed
qed

lemma forest_union:
  assumes "forest f" "f a = Some a" "f b = Some b" "a \<noteq> b"
  shows "forest (f(a \<mapsto> b))"
proof -
  have "\<exists>r. tree_root (f(a \<mapsto> b)) x r" if "x \<in> dom f" for x
    using assms(1) that root_union [OF assms(2,3,4)] by (metis forest_def)
  moreover have "a \<in> dom f" using assms(2) by blast
  ultimately show ?thesis by (auto simp: forest_def)
qed

section \<open>The operations\<close>

lemma GetBucket_root:
  assumes "tree_root (lookup m) x r" and "map_ok m"
  shows "\<exists>m'. GetBucket x m = Some (r, m') \<and> map_ok m' \<and> keys_of m' = keys_of m \<and>
    (\<forall>y s. tree_root (lookup m') y s \<longleftrightarrow> tree_root (lookup m) y s)"
  using assms(1)
proof (induction rule: tree_root.induct)
  case (root_here x)
  then show ?case
    using assms(2) by (subst GetBucket.simps) (simp add: Find_lookup)
next
  case (root_up x p r)
  from root_up.IH obtain m' where m': "GetBucket p m = Some (r, m')" "map_ok m'" "keys_of m' = keys_of m"
    "\<forall>y s. tree_root (lookup m') y s \<longleftrightarrow> tree_root (lookup m) y s" by blast
  from root_up.hyps have "tree_root (lookup m) x r" by (rule tree_root.root_up)
  with m'(4) have r: "tree_root (lookup m') x r" by blast
  have "GetBucket x m = Some (r, InsertOrAssign x r m')"
    using root_up.hyps(1,2) m'(1) assms(2) by (subst GetBucket.simps) (simp add: Find_lookup)
  moreover have "keys_of (InsertOrAssign x r m') = keys_of m"
    using iom.ins_old [OF m'(2) root_dom [OF r]] m'(3) by simp
  moreover have "tree_root (lookup (InsertOrAssign x r m')) y s \<longleftrightarrow> tree_root (lookup m) y s" for y s
    using root_compress [OF r] m'(2,4) by (simp add: iom.get_ins)
  ultimately show ?case using iom.ins_ok [OF m'(2)] by blast
qed

text \<open>The search for the representative of an operation returns whenever the chain of its parents ends, finds the operation at the end
  of the chain, and the paths it compresses on the way leave the order of the operations and the representative of every operation as they were.\<close>

theorem GetBucket_returns:
  assumes "tree_root (lookup m) x r" and "map_ok m"
  shows "\<exists>m'. GetBucket x m = Some (r, m') \<and> map_ok m' \<and> keys_of m' = keys_of m \<and>
    (\<forall>y s. tree_root (lookup m') y s \<longleftrightarrow> tree_root (lookup m) y s)"
  by (rule GetBucket_root [OF assms])

theorem GetBucket_returns_witness:
  "case GetBucket 7 (InsertOrAssign 7 8 (InsertOrAssign 8 8 empty_map)) of
     None \<Rightarrow> False | Some (r, m) \<Rightarrow> r = 8 \<and> keys_of m = [8, 7]"
proof -
  let ?m = "InsertOrAssign 7 8 (InsertOrAssign 8 8 empty_map) :: DisjointSets"
  have ok: "map_ok ?m" by (intro iom.ins_ok empty_map_ok)
  have l: "lookup ?m = [8 \<mapsto> 8, 7 \<mapsto> 8]" "keys_of ?m = [8, 7]"
    by (simp_all add: InsertOrAssign_def empty_map_def lookup_def keys_of_def fun_eq_iff)
  have "tree_root (lookup ?m) 7 8" unfolding l by (rule tree_root.root_up) (auto intro: tree_root.root_here)
  from GetBucket_returns [OF this ok] l(2) show ?thesis by auto
qed

lemma forest_cong:
  assumes "\<forall>y s. tree_root g y s \<longleftrightarrow> tree_root f y s" "dom g = dom f"
  shows "forest g \<longleftrightarrow> forest f" "same g x y \<longleftrightarrow> same f x y"
  using assms by (auto simp: forest_def same_def)

lemma Insert_joins:
  assumes ok: "map_ok m" and f: "forest (lookup m)"
    and x: "x \<in> set (keys_of m)" and y: "y \<in> set (keys_of m)"
  shows "\<exists>m'. Insert x y m = Some m' \<and> map_ok m' \<and> keys_of m' = keys_of m \<and> forest (lookup m') \<and>
    (\<forall>u v. same (lookup m') u v \<longleftrightarrow> same (lookup m) u v \<or>
       same (lookup m) u x \<and> same (lookup m) v y \<or> same (lookup m) u y \<and> same (lookup m) v x)"
proof -
  obtain a b where a: "tree_root (lookup m) x a" and b: "tree_root (lookup m) y b"
    using f x y unfolding forest_def set_keys by blast
  from GetBucket_root [OF b ok] obtain m1 where m1: "GetBucket y m = Some (b, m1)" "map_ok m1"
    "keys_of m1 = keys_of m" "\<forall>y s. tree_root (lookup m1) y s \<longleftrightarrow> tree_root (lookup m) y s" by blast
  from a m1(4) have "tree_root (lookup m1) x a" by blast
  from GetBucket_root [OF this m1(2)] m1 obtain m2 where m2: "GetBucket x m1 = Some (a, m2)" "map_ok m2"
    "keys_of m2 = keys_of m" "\<forall>y s. tree_root (lookup m2) y s \<longleftrightarrow> tree_root (lookup m) y s" by auto
  have d: "dom (lookup m2) = dom (lookup m)" using m2(3) by (metis set_keys)
  note c = forest_cong [OF m2(4) d]
  show ?thesis
  proof (cases "a = b")
    case True
    have "same (lookup m) u x \<and> same (lookup m) v y \<or> same (lookup m) u y \<and> same (lookup m) v x \<Longrightarrow>
        same (lookup m) u v" for u v
    proof -
      have "same (lookup m) x y" using same_rootI [OF a] b True by simp
      then show "same (lookup m) u x \<and> same (lookup m) v y \<or> same (lookup m) u y \<and> same (lookup m) v x \<Longrightarrow>
          same (lookup m) u v"
        by (meson same_trans same_sym)
    qed
    then have "same (lookup m2) u v \<longleftrightarrow> same (lookup m) u v \<or>
       same (lookup m) u x \<and> same (lookup m) v y \<or> same (lookup m) u y \<and> same (lookup m) v x" for u v
      unfolding c(2) by blast
    moreover have "Insert x y m = Some m2" using True m1 m2 by (simp add: Insert_def)
    moreover have "forest (lookup m2)" using c(1) f by blast
    ultimately show ?thesis using m2(2,3) by blast
  next
    case False
    have ab: "tree_root (lookup m2) x a" "tree_root (lookup m2) y b" using a b m2(4) by blast+
    then have s: "lookup m2 a = Some a" "lookup m2 b = Some b" using root_self by fast+
    from c(1) f have f2: "forest (lookup m2)" by blast
    have "keys_of (InsertOrAssign a b m2) = keys_of m"
      using iom.ins_old [OF m2(2)] s m2(3) by simp
    moreover have "forest (lookup (InsertOrAssign a b m2))"
      using forest_union [OF f2 s False] m2(2) by (simp add: iom.get_ins)
    moreover have "same (lookup (InsertOrAssign a b m2)) u v \<longleftrightarrow> same (lookup m) u v \<or>
       same (lookup m) u x \<and> same (lookup m) v y \<or> same (lookup m) u y \<and> same (lookup m) v x" for u v
      using same_union [OF f2 ab False] m2(2) by (simp add: iom.get_ins c(2))
    ultimately show ?thesis
      using m1 m2 False iom.ins_ok [OF m2(2)] by (simp add: Insert_def)
  qed
qed

section \<open>Connected components\<close>

definition connected :: "('a \<times> 'a) set \<Rightarrow> ('a \<times> 'a) set" where
  "connected E = (E \<union> E\<inverse>)\<^sup>*"

lemma connected_sym: "(x, y) \<in> connected E \<Longrightarrow> (y, x) \<in> connected E"
  unfolding connected_def by (metis converse_Un converse_converse rtrancl_converseI sup_commute)

lemma connected_insert:
  "(x, y) \<in> connected (insert (a, b) E) \<longleftrightarrow> (x, y) \<in> connected E \<or>
     (x, a) \<in> connected E \<and> (b, y) \<in> connected E \<or> (x, b) \<in> connected E \<and> (a, y) \<in> connected E"
proof -
  have "insert (a, b) E \<union> (insert (a, b) E)\<inverse> = insert (a, b) (insert (b, a) (E \<union> E\<inverse>))" by auto
  then show ?thesis
    unfolding connected_def by (auto simp: rtrancl_insert) (meson rtrancl_trans)+
qed

text \<open>The forest with the operations \<open>ks\<close> after the edges \<open>E\<close> have been inserted.\<close>

definition groups :: "nat list \<Rightarrow> (nat \<times> nat) set \<Rightarrow> DisjointSets \<Rightarrow> bool" where
  "groups ks E m \<longleftrightarrow> map_ok m \<and> keys_of m = ks \<and> forest (lookup m) \<and> E \<subseteq> set ks \<times> set ks \<and>
     (\<forall>x \<in> set ks. \<forall>y \<in> set ks. same (lookup m) x y \<longleftrightarrow> (x, y) \<in> connected E)"

lemma connected_in:
  assumes "E \<subseteq> D \<times> D" "(x, y) \<in> connected E" "x \<in> D"
  shows "y \<in> D"
  using assms(2,3) unfolding connected_def
  by (induction rule: rtrancl_induct) (use assms(1) in auto)

lemma groups_insert:
  assumes g: "groups ks E m" and x: "x \<in> set ks" and y: "y \<in> set ks"
  shows "\<exists>m'. Insert x y m = Some m' \<and> groups ks (insert (x, y) E) m'"
proof -
  from g x y obtain m' where m': "Insert x y m = Some m'" "map_ok m'" "keys_of m' = ks" "forest (lookup m')"
    "\<forall>u v. same (lookup m') u v \<longleftrightarrow> same (lookup m) u v \<or>
       same (lookup m) u x \<and> same (lookup m) v y \<or> same (lookup m) u y \<and> same (lookup m) v x"
    using Insert_joins [of m x y] by (auto simp: groups_def)
  have "same (lookup m') u v \<longleftrightarrow> (u, v) \<in> connected (insert (x, y) E)" if "u \<in> set ks" "v \<in> set ks" for u v
  proof -
    have "same (lookup m) p q \<longleftrightarrow> (p, q) \<in> connected E" if "p \<in> set ks" "q \<in> set ks" for p q
      using g that by (simp add: groups_def)
    note e = this [OF that(1) that(2)] this [OF that(1) x] this [OF that(1) y] this [OF that(2) x] this [OF that(2) y]
    have "(v, x) \<in> connected E \<longleftrightarrow> (x, v) \<in> connected E" "(v, y) \<in> connected E \<longleftrightarrow> (y, v) \<in> connected E"
      using connected_sym by metis+
    then show ?thesis
      unfolding m'(5) [rule_format] connected_insert e by blast
  qed
  with g x y m' show ?thesis by (auto simp: groups_def)
qed


section \<open>The loops\<close>

text \<open>A loop whose iterations add edges adds the union of them.\<close>

lemma foldM_groups:
  assumes "\<And>x E m. x \<in> set xs \<Longrightarrow> groups ks E m \<Longrightarrow> \<exists>m'. f x m = Some m' \<and> groups ks (E \<union> e x) m'"
    and "groups ks E m"
  shows "\<exists>m'. foldM f xs m = Some m' \<and> groups ks (E \<union> (\<Union>x \<in> set xs. e x)) m'"
  using assms
proof (induction xs arbitrary: E m)
  case (Cons x xs)
  then obtain m1 where m1: "f x m = Some m1" "groups ks (E \<union> e x) m1" by (meson list.set_intros(1))
  with Cons.IH [of "E \<union> e x" m1] Cons.prems(1) show ?case by (auto simp: Un_assoc)
qed simp

definition op_edges :: "ir_heap \<Rightarrow> nat \<Rightarrow> nat set \<Rightarrow> (nat \<times> nat) set" where
  "op_edges h op D = {(op, user) | user t. Some t \<in> set (outs h op) \<and> user \<in> fst ` set (uses h t) \<and> user \<in> D}"

text \<open>The edges between the operations of a list: an output of one has the other as a user.\<close>

definition use_edges :: "ir_heap \<Rightarrow> nat list \<Rightarrow> (nat \<times> nat) set" where
  "use_edges h part = (\<Union>op \<in> set part. op_edges h op (set part))"

lemma insert_user_groups:
  assumes "groups ks E m" "op \<in> set ks"
  shows "\<exists>m'. insert_user op user m = Some m' \<and> groups ks (E \<union> (if user \<in> set ks then {(op, user)} else {})) m'"
  using assms groups_insert [OF assms(1), of op user]
  by (auto simp: insert_user_def groups_def Contains_lookup set_keys)

lemma insert_op_groups:
  assumes g: "groups ks E m" and op: "op \<in> set ks" and o': "op_of h op \<noteq> None"
    and alloc: "\<forall>p \<in> set (outs h op). \<exists>t. p = Some t \<and> tensor_of h t \<noteq> None"
  shows "\<exists>m'. insert_op h op m = Some m' \<and> groups ks (E \<union> op_edges h op (set ks)) m'"
proof -
  let ?eu = "\<lambda>user. if user \<in> set ks then {(op, user)} else {}"
  let ?eo = "\<lambda>p. \<Union>user \<in> fst ` set (uses h (the p)). ?eu user"
  have out: "\<exists>m'. insert_output h op p m = Some m' \<and> groups ks (E \<union> ?eo p) m'"
    if p: "p \<in> set (outs h op)" and g: "groups ks E m" for p E m
  proof -
    from alloc p obtain t tt where t: "p = Some t" "tensor_of h t = Some tt" by fast
    have "\<exists>m'. foldM (insert_user op) (map fst (users tt)) m = Some m' \<and>
        groups ks (E \<union> (\<Union>user \<in> set (map fst (users tt)). ?eu user)) m'"
      using g op by (intro foldM_groups) (rule insert_user_groups)
    with t show ?thesis by (simp add: insert_output_def)
  qed
  have "\<exists>m'. foldM (insert_output h op) (outs h op) m = Some m' \<and>
      groups ks (E \<union> (\<Union>p \<in> set (outs h op). ?eo p)) m'"
    using g by (intro foldM_groups) (rule out)
  moreover have "set (outs h op) = Some ` {t. Some t \<in> set (outs h op)}" using alloc by fast
  then have "(\<Union>p \<in> set (outs h op). ?eo p) = (\<Union>p \<in> Some ` {t. Some t \<in> set (outs h op)}. ?eo p)"
    by (rule arg_cong)
  then have "(\<Union>p \<in> set (outs h op). ?eo p) = op_edges h op (set ks)"
    unfolding op_edges_def by (simp split: if_split) blast
  moreover have "insert_op h op m = foldM (insert_output h op) (outs h op) m"
    using o' by (auto simp: insert_op_def)
  ultimately show ?thesis by simp
qed

lemma initial_groups:
  assumes "distinct part"
  shows "groups part {} (fold (\<lambda>op. InsertOrAssign op op) part empty_map)"
proof -
  let ?m = "fold (\<lambda>op. InsertOrAssign op op) part empty_map"
  have e: "lookup (empty_map :: DisjointSets) = (\<lambda>_. None)" "keys_of (empty_map :: DisjointSets) = []"
    by (simp_all add: empty_map_def lookup_def keys_of_def)
  have l: "lookup ?m k = (if k \<in> set part then Some k else None)" for k
    using iom.fold_ins(2) [OF empty_map_ok, of "\<lambda>x. x" part] by (auto simp: e fun_eq_iff)
  have r: "tree_root (lookup ?m) x y \<longleftrightarrow> x \<in> set part \<and> y = x" for x y
    by (subst root_step) (simp add: l)
  have "keys_of ?m = part"
    using iom.fold_ins_distinct [OF empty_map_ok assms, of "\<lambda>x. x"] by (simp add: e)
  moreover have "map_ok ?m"
    using iom.fold_ins(1) [OF empty_map_ok, of "\<lambda>x. x" part] by simp
  ultimately show ?thesis
    by (auto simp: groups_def forest_def same_def r l connected_def dom_def)
qed

lemma part_groups:
  assumes "distinct part"
    and "\<And>op. op \<in> set part \<Longrightarrow> op_of h op \<noteq> None \<and> (\<forall>p \<in> set (outs h op). \<exists>t. p = Some t \<and> tensor_of h t \<noteq> None)"
  shows "\<exists>m. foldM (insert_op h) part (fold (\<lambda>op. InsertOrAssign op op) part empty_map) = Some m \<and>
    groups part (use_edges h part) m"
proof -
  have "\<exists>m. foldM (insert_op h) part (fold (\<lambda>op. InsertOrAssign op op) part empty_map) = Some m \<and>
    groups part ({} \<union> (\<Union>op \<in> set part. op_edges h op (set part))) m"
    using assms(2) by (intro foldM_groups initial_groups assms(1)) (auto intro: insert_op_groups)
  then show ?thesis by (simp add: use_edges_def)
qed

section \<open>Buckets\<close>

lemma push_back_at_lookup:
  "map_of (push_back_at k v m) = (map_of m)(k \<mapsto> (case map_of m k of None \<Rightarrow> [] | Some vs \<Rightarrow> vs) @ [v])"
  by (induction k v m rule: push_back_at.induct) (auto simp: fun_eq_iff)

lemma push_back_at_keys:
  "map fst (push_back_at k v m) = (if k \<in> fst ` set m then map fst m else map fst m @ [k])"
  by (induction k v m rule: push_back_at.induct) auto

text \<open>The list of the elements that a key has received.\<close>

lemma push_back_fold:
  fixes key :: "'a \<Rightarrow> 'k"
  assumes "distinct (map fst m)"
  shows "distinct (map fst (fold (\<lambda>x. push_back_at (key x) (val x)) xs m))"
    "set (map fst (fold (\<lambda>x. push_back_at (key x) (val x)) xs m)) = set (map fst m) \<union> key ` set xs"
    "map_of (fold (\<lambda>x. push_back_at (key x) (val x)) xs m) k =
      (case (map_of m k, map val (filter (\<lambda>x. key x = k) xs)) of
         (None, []) \<Rightarrow> None | (None, ys) \<Rightarrow> Some ys | (Some vs, ys) \<Rightarrow> Some (vs @ ys))"
  using assms
proof (induction xs arbitrary: m)
  case (Cons x xs)
  have d: "distinct (map fst (push_back_at (key x) (val x) m))" if "distinct (map fst m)" for m
    using that by (auto simp: push_back_at_keys)
  { case 1 with Cons(1) [OF d [OF 1]] show ?case by simp }
  { case 2 with Cons(2) [OF d [OF 2]] show ?case by (auto simp: push_back_at_keys) }
  { case 3 with Cons(3) [OF d [OF 3]] show ?case
      by (auto simp: push_back_at_lookup split: option.splits list.splits) }
qed (auto split: option.splits)

lemma invert_buckets_effect:
  assumes "groups ks E m" "set xs \<subseteq> set ks"
  shows "\<exists>m' bucket. invert_buckets xs (m, inverted) = Some (m', fold (\<lambda>x. push_back_at (bucket x) x) xs inverted) \<and>
    groups ks E m' \<and> (\<forall>x \<in> set xs. tree_root (lookup m) x (bucket x)) \<and>
    (\<forall>y s. tree_root (lookup m') y s \<longleftrightarrow> tree_root (lookup m) y s)"
  using assms
proof (induction xs arbitrary: m inverted)
  case (Cons x xs)
  from Cons.prems have "forest (lookup m)" "x \<in> dom (lookup m)" by (auto simp: groups_def set_keys [symmetric])
  then obtain r where r: "tree_root (lookup m) x r" unfolding forest_def by blast
  have "map_ok m" using Cons.prems(1) by (simp add: groups_def)
  from GetBucket_root [OF r this] obtain m1 where m1: "GetBucket x m = Some (r, m1)" "map_ok m1"
    "keys_of m1 = keys_of m" "\<forall>y s. tree_root (lookup m1) y s \<longleftrightarrow> tree_root (lookup m) y s" by blast
  have "dom (lookup m1) = dom (lookup m)" using m1(3) by (metis set_keys)
  note c = forest_cong [OF m1(4) this]
  have g1: "groups ks E m1" using Cons.prems(1) m1 c by (simp add: groups_def)
  from Cons.IH [OF g1, of "push_back_at r x inverted"] Cons.prems(2) obtain m' bucket where IH:
    "invert_buckets xs (m1, push_back_at r x inverted) =
       Some (m', fold (\<lambda>x. push_back_at (bucket x) x) xs (push_back_at r x inverted))"
    "groups ks E m'" "\<forall>x \<in> set xs. tree_root (lookup m1) x (bucket x)"
    "\<forall>y s. tree_root (lookup m') y s \<longleftrightarrow> tree_root (lookup m1) y s" by auto
  define bucket' where "bucket' = (\<lambda>y. if y = x then r else bucket y)"
  have "bucket y = bucket' y" if "y \<in> set xs" for y
    using that IH(3) m1(4) r root_unique by (fastforce simp: bucket'_def)
  then have "fold (\<lambda>x. push_back_at (bucket x) x) xs i = fold (\<lambda>x. push_back_at (bucket' x) x) xs i" for i
    by (intro fold_cong) simp_all
  with IH m1 r show ?case by (intro exI [of _ m'] exI [of _ bucket']) (auto simp: bucket'_def)
qed auto


text \<open>
  The connected components of \<open>ks\<close>: every operation is in exactly one bucket, in the order of \<open>ks\<close>,
  no bucket is empty, and two operations share a bucket exactly when edges connect them.
\<close>

definition components :: "nat list \<Rightarrow> (nat \<times> nat) set \<Rightarrow> nat list list \<Rightarrow> bool" where
  "components ks E bs \<longleftrightarrow> mset (concat bs) = mset ks \<and> [] \<notin> set bs \<and> (\<forall>b \<in> set bs. \<exists>P. b = filter P ks) \<and>
     (\<forall>x \<in> set ks. \<forall>y \<in> set ks. (\<exists>b \<in> set bs. x \<in> set b \<and> y \<in> set b) \<longleftrightarrow> (x, y) \<in> connected E)"

definition is_arrangement :: "('a list \<Rightarrow> 'a list) \<Rightarrow> bool" where
  "is_arrangement order \<longleftrightarrow> (\<forall>xs. mset (order xs) = mset xs)"

lemma arrangementD:
  assumes "is_arrangement order"
  shows "set (order xs) = set xs" "distinct xs \<Longrightarrow> distinct (order xs)"
proof -
  have m: "mset (order xs) = mset xs" using assms by (simp add: is_arrangement_def)
  show "set (order xs) = set xs" using m by (rule mset_eq_setD)
  show "distinct xs \<Longrightarrow> distinct (order xs)" using mset_eq_imp_distinct_iff [OF m] by simp
qed

lemma mset_concat_filters:
  "distinct rs \<Longrightarrow> mset (concat (map (\<lambda>r. filter (\<lambda>x. f x = r) ks) rs)) = mset (filter (\<lambda>x. f x \<in> set rs) ks)"
proof (induction rs)
  case (Cons r rs)
  have "mset (filter (\<lambda>x. f x = r \<or> f x \<in> set rs) ks) =
      mset (filter (\<lambda>x. f x = r) ks) + mset (filter (\<lambda>x. f x \<in> set rs) ks)"
    using Cons.prems by (induction ks) auto
  with Cons show ?case by simp
qed simp

lemma GetBuckets_components:
  assumes g: "groups ks E m" and order: "is_arrangement op_order"
  shows "\<exists>bs. GetBuckets op_order m = Some bs \<and> components ks E bs"
proof -
  have ks: "map fst (map_values m) = ks" using g by (simp add: groups_def keys_of_def)
  from invert_buckets_effect [OF g, of ks "[]"] obtain m' bucket where b:
    "invert_buckets ks (m, []) = Some (m', fold (\<lambda>x. push_back_at (bucket x) x) ks [])"
    "\<forall>x \<in> set ks. tree_root (lookup m) x (bucket x)" by auto
  define inverted where "inverted = fold (\<lambda>x. push_back_at (bucket x) x) ks []"
  have inv: "distinct (map fst inverted)" "set (map fst inverted) = bucket ` set ks"
    "map_of inverted r = (case filter (\<lambda>x. bucket x = r) ks of [] \<Rightarrow> None | ys \<Rightarrow> Some ys)" for r
    unfolding inverted_def using push_back_fold [of "[]" bucket "\<lambda>x. x" ks] by (auto split: list.splits)
  define rs where "rs = op_order (map fst inverted)"
  have rs: "distinct rs" "set rs = bucket ` set ks"
    using arrangementD [OF order] inv(1,2) by (simp_all add: rs_def)
  define bs where "bs = map (\<lambda>r. filter (\<lambda>x. bucket x = r) ks) rs"
  have nonempty: "filter (\<lambda>x. bucket x = r) ks \<noteq> []" if "r \<in> set rs" for r
    using that rs(2) by (auto simp: filter_empty_conv)
  have "the (map_of inverted r) = filter (\<lambda>x. bucket x = r) ks" if "r \<in> set rs" for r
    using nonempty [OF that] inv(3) [of r] by (auto split: list.splits)
  then have "map (\<lambda>r. the (map_of inverted r)) rs = bs" by (simp add: bs_def)
  then have "GetBuckets op_order m = Some bs"
    using b(1) by (simp add: GetBuckets_def ks inverted_def [symmetric] rs_def)
  moreover have "mset (concat bs) = mset ks"
  proof -
    have "filter (\<lambda>x. bucket x \<in> set rs) ks = ks" by (rule filter_True) (simp add: rs(2))
    with mset_concat_filters [OF rs(1), of bucket ks] show ?thesis by (simp add: bs_def)
  qed
  moreover have "(\<exists>b \<in> set bs. x \<in> set b \<and> y \<in> set b) \<longleftrightarrow> (x, y) \<in> connected E"
    if x: "x \<in> set ks" and y: "y \<in> set ks" for x y
  proof -
    have "(\<exists>b \<in> set bs. x \<in> set b \<and> y \<in> set b) \<longleftrightarrow> bucket x = bucket y"
      using x y rs(2) by (auto simp: bs_def)
    also have "\<dots> \<longleftrightarrow> same (lookup m) x y"
      using b(2) x y root_unique by (metis same_def)
    also have "\<dots> \<longleftrightarrow> (x, y) \<in> connected E" using g x y by (simp add: groups_def)
    finally show ?thesis .
  qed
  moreover have "[] \<notin> set bs" using nonempty by (fastforce simp: bs_def)
  moreover have "\<forall>b \<in> set bs. \<exists>P. b = filter P ks" by (auto simp: bs_def)
  ultimately show ?thesis unfolding components_def by blast
qed

section \<open>The partitions of a flat list\<close>

text \<open>The operations of a selection that have a given index, and what the selection must name.\<close>

definition ops_with :: "LiteRtOpWithPartitionIndex list \<Rightarrow> size_t \<Rightarrow> nat list" where
  "ops_with sel ind = map fst (filter (\<lambda>x. snd x = ind) sel)"

definition selection_ok :: "ir_heap \<Rightarrow> LiteRtOpWithPartitionIndex list \<Rightarrow> bool" where
  "selection_ok h sel \<longleftrightarrow> distinct (map fst sel) \<and>
     (\<forall>op \<in> fst ` set sel. op_of h op \<noteq> None \<and> (\<forall>p \<in> set (outs h op). \<exists>t. p = Some t \<and> tensor_of h t \<noteq> None))"

lemma partition_buckets_components:
  assumes "selection_ok h sel" "is_arrangement op_order"
  shows "\<exists>bs. partition_buckets op_order h (ops_with sel ind) = Some bs \<and>
    components (ops_with sel ind) (use_edges h (ops_with sel ind)) bs"
proof -
  have "distinct (ops_with sel ind)"
    using assms(1) by (auto simp: selection_ok_def ops_with_def distinct_map_filter)
  moreover have "op_of h op \<noteq> None \<and> (\<forall>p \<in> set (outs h op). \<exists>t. p = Some t \<and> tensor_of h t \<noteq> None)"
    if "op \<in> set (ops_with sel ind)" for op
    using assms(1) that by (auto simp: selection_ok_def ops_with_def image_iff)
  ultimately obtain m where
    "foldM (insert_op h) (ops_with sel ind) (fold (\<lambda>op. InsertOrAssign op op) (ops_with sel ind) empty_map) = Some m"
    "groups (ops_with sel ind) (use_edges h (ops_with sel ind)) m"
    using part_groups by blast
  with GetBuckets_components [OF this(2) assms(2)] show ?thesis by (simp add: partition_buckets_def)
qed

lemma collect_buckets_all:
  assumes "\<forall>k \<in> set ks. \<exists>bs. f k = Some bs \<and> P k bs"
  shows "\<exists>bss. length bss = length ks \<and> (\<forall>i < length ks. P (ks ! i) (bss ! i)) \<and>
    collect_buckets f ks = Some (concat bss)"
  using assms
proof (induction ks)
  case (Cons k ks)
  then obtain bs bss where "f k = Some bs" "P k bs" "length bss = length ks"
    "\<forall>i < length ks. P (ks ! i) (bss ! i)" "collect_buckets f ks = Some (concat bss)" by auto
  then show ?case by (intro exI [of _ "bs # bss"]) (auto simp: nth_Cons split: nat.splits)
qed simp

text \<open>C17: Grouping by connectivity returns for every selection of different operations whose results are all allocated,
  and distributes the selected operations over non-empty partitions, each exactly once; two operations are in one
  partition exactly when the plugin gave them one index and a chain of uses between operations of that index, followed in either direction, connects them.
  This holds for any order in which the hash maps are iterated.\<close>

theorem GetPartitionsFromFlatList_components:
  assumes sel: "selection_ok h sel" and io: "is_arrangement index_order" and oo: "is_arrangement op_order"
  shows "\<exists>bs. GetPartitionsFromFlatList index_order op_order h sel = Some bs \<and>
    mset (concat bs) = mset (map fst sel) \<and> [] \<notin> set bs \<and>
    (\<forall>(x, i) \<in> set sel. \<forall>(y, j) \<in> set sel. (\<exists>b \<in> set bs. x \<in> set b \<and> y \<in> set b) \<longleftrightarrow>
       i = j \<and> (x, y) \<in> connected (use_edges h (ops_with sel i)))"
proof -
  define pm where "pm = fold (\<lambda>x. push_back_at (snd x) (fst x)) sel []"
  have pm: "distinct (map fst pm)" "set (map fst pm) = snd ` set sel"
    "map_of pm i = (case ops_with sel i of [] \<Rightarrow> None | ys \<Rightarrow> Some ys)" for i
    unfolding pm_def ops_with_def using push_back_fold [of "[]" snd fst sel] by (auto split: list.splits)
  define idx where "idx = index_order (map fst pm)"
  have idx: "distinct idx" "set idx = snd ` set sel"
    using arrangementD [OF io] pm(1,2) by (simp_all add: idx_def)
  have "ops_with sel i \<noteq> []" if "i \<in> set idx" for i
    using that idx(2) by (auto simp: ops_with_def filter_empty_conv)
  then have the_pm: "the (map_of pm i) = ops_with sel i" if "i \<in> set idx" for i
    using that pm(3) [of i] by (auto split: list.splits)
  let ?P = "\<lambda>i bs. components (ops_with sel i) (use_edges h (ops_with sel i)) bs"
  have "\<forall>i \<in> set idx. \<exists>bs. partition_buckets op_order h (the (map_of pm i)) = Some bs \<and> ?P i bs"
    using partition_buckets_components [OF sel oo] the_pm by simp
  from collect_buckets_all [OF this] obtain bss where bss: "length bss = length idx"
    "\<forall>k < length idx. ?P (idx ! k) (bss ! k)"
    "collect_buckets (\<lambda>i. partition_buckets op_order h (the (map_of pm i))) idx = Some (concat bss)" by blast
  have res: "GetPartitionsFromFlatList index_order op_order h sel = Some (concat bss)"
    using bss(3) by (simp add: GetPartitionsFromFlatList_def pm_def idx_def case_prod_beta')
  have all: "mset (concat (concat bss)) = mset (map fst sel)"
  proof -
    have "map (\<lambda>bs. mset (concat bs)) bss = map (\<lambda>i. mset (ops_with sel i)) idx"
      using bss(1,2) by (auto simp: components_def intro!: nth_equalityI)
    moreover have "mset (concat (concat xss)) = sum_list (map (\<lambda>bs. mset (concat bs)) xss)" for xss :: "nat list list list"
      by (induction xss) auto
    moreover have "sum_list (map (\<lambda>i. mset (ops_with sel i)) idx) = image_mset fst (mset (concat (map (\<lambda>i. filter (\<lambda>x. snd x = i) sel) idx)))"
      by (induction idx) (auto simp: ops_with_def)
    moreover have "mset (concat (map (\<lambda>i. filter (\<lambda>x. snd x = i) sel) idx)) = mset (filter (\<lambda>x. snd x \<in> set idx) sel)"
      by (rule mset_concat_filters) (rule idx(1))
    moreover have "filter (\<lambda>x. snd x \<in> set idx) sel = sel" by (rule filter_True) (simp add: idx(2))
    ultimately show ?thesis by simp
  qed
  have ind: "i = idx ! k" if "k < length idx" "b \<in> set (bss ! k)" "x \<in> set b" "(x, i) \<in> set sel" for k b x i
  proof -
    have "x \<in> set (ops_with sel (idx ! k))"
      using bss(1,2) that(1-3) unfolding components_def by (metis filter_is_subset subsetD)
    then have "(x, idx ! k) \<in> set sel" by (auto simp: ops_with_def)
    with that(4) sel show ?thesis by (auto simp: selection_ok_def dest: eq_key_imp_eq_value)
  qed
  have share: "(\<exists>b \<in> set (concat bss). x \<in> set b \<and> y \<in> set b) \<longleftrightarrow>
       i = j \<and> (x, y) \<in> connected (use_edges h (ops_with sel i))"
    if x: "(x, i) \<in> set sel" and y: "(y, j) \<in> set sel" for x i y j
  proof -
    have xi: "x \<in> set (ops_with sel i)" and yj: "y \<in> set (ops_with sel j)"
      using x y by (force simp: ops_with_def)+
    from x idx(2) have "i \<in> set idx" by force
    then obtain k where k: "k < length idx" "idx ! k = i" by (auto simp: in_set_conv_nth)
    have "(\<exists>b \<in> set (concat bss). x \<in> set b \<and> y \<in> set b) \<longleftrightarrow>
        i = j \<and> (\<exists>b \<in> set (bss ! k). x \<in> set b \<and> y \<in> set b)"
    proof
      assume "\<exists>b \<in> set (concat bss). x \<in> set b \<and> y \<in> set b"
      then obtain bs b where "bs \<in> set bss" and b: "b \<in> set bs" "x \<in> set b" "y \<in> set b" by auto
      then obtain l where "l < length bss" "bss ! l = bs" by (auto simp: in_set_conv_nth)
      with b bss(1) have l: "l < length idx" "b \<in> set (bss ! l)" "x \<in> set b" "y \<in> set b" by simp_all
      with ind [of l b x i] ind [of l b y j] x y have "i = idx ! l" "j = idx ! l" by auto
      moreover from this k l(1) idx(1) have "l = k" by (simp add: nth_eq_iff_index_eq)
      ultimately show "i = j \<and> (\<exists>b \<in> set (bss ! k). x \<in> set b \<and> y \<in> set b)" using l by auto
    next
      assume "i = j \<and> (\<exists>b \<in> set (bss ! k). x \<in> set b \<and> y \<in> set b)"
      moreover have "bss ! k \<in> set bss" using k bss(1) by simp
      ultimately show "\<exists>b \<in> set (concat bss). x \<in> set b \<and> y \<in> set b" by auto
    qed
    also have "\<dots> \<longleftrightarrow> i = j \<and> (x, y) \<in> connected (use_edges h (ops_with sel i))"
    proof -
      have "components (ops_with sel i) (use_edges h (ops_with sel i)) (bss ! k)" using bss(2) k by blast
      then show ?thesis using xi yj unfolding components_def by blast
    qed
    finally show ?thesis .
  qed
  have "[] \<notin> set (concat bss)"
  proof
    assume "[] \<in> set (concat bss)"
    then obtain bs where "bs \<in> set bss" "[] \<in> set bs" by auto
    moreover from this obtain l where "l < length bss" "bss ! l = bs" by (auto simp: in_set_conv_nth)
    ultimately show False using bss(1,2) by (auto simp: components_def)
  qed
  moreover have "\<forall>(x, i) \<in> set sel. \<forall>(y, j) \<in> set sel. (\<exists>b \<in> set (concat bss). x \<in> set b \<and> y \<in> set b) \<longleftrightarrow>
       i = j \<and> (x, y) \<in> connected (use_edges h (ops_with sel i))"
    unfolding split_beta
  proof (intro ballI)
    fix p q assume "p \<in> set sel" "q \<in> set sel"
    then show "(\<exists>b \<in> set (concat bss). fst p \<in> set b \<and> fst q \<in> set b) \<longleftrightarrow>
       snd p = snd q \<and> (fst p, fst q) \<in> connected (use_edges h (ops_with sel (snd p)))"
      by (intro share) simp_all
  qed
  ultimately show ?thesis using res all by blast
qed

lemma chain_selection: "selection_ok chain_heap [(0, 0), (2, 0), (1, 0)]"
  by (auto simp: selection_ok_def chain_heap_eval outs_def plain_op_def)

theorem GetPartitionsFromFlatList_components_witness:
  "case GetPartitionsFromFlatList id id chain_heap [(0, 0), (2, 0), (1, 0)] of
     None \<Rightarrow> False | Some bs \<Rightarrow> mset (concat bs) = {#0, 2, 1#}"
proof -
  have io: "is_arrangement (id :: size_t list \<Rightarrow> size_t list)" "is_arrangement (id :: nat list \<Rightarrow> nat list)"
    by (simp_all add: is_arrangement_def)
  obtain bs where "GetPartitionsFromFlatList id id chain_heap [(0, 0), (2, 0), (1, 0)] = Some bs"
    "mset (concat bs) = mset (map fst [(0 :: nat, 0 :: size_t), (2, 0), (1, 0)])"
    using GetPartitionsFromFlatList_components [OF chain_selection io] by (elim exE conjE) (rule that)
  then show ?thesis by simp
qed

end
