(* ===== verification/OutlineClone.thy ===== *)
theory OutlineClone
  imports GraphIRCorrect PluginAlgo
begin

text \<open>
  The first half of outlining a partition: the clones of its operations and tensors are a well-linked
  copy of the partition, and the root subgraph is not touched.
\<close>

section \<open>Frames\<close>

text \<open>Whether a subgraph is well linked depends on its own objects only.\<close>

lemma well_linked_frame:
  assumes wl: "well_linked h g"
    and t: "\<forall>t \<in> set (g_tensors g). tensor_of h' t = tensor_of h t"
    and k: "\<forall>k \<in> set (g_ops g). op_of h' k = op_of h k"
  shows "well_linked h' g"
proof -
  note wlD = well_linkedD [OF wl]
  have io: "ins h' k = ins h k" "outs h' k = outs h k" if "k \<in> set (g_ops g)" for k
    using k that by (simp_all add: ins_def outs_def)
  have ud: "uses h' x = uses h x" "definer h' x = definer h x" if "x \<in> set (g_tensors g)" for x
    using t that by (simp_all add: uses_def definer_def)
  have "tensor_linked h' (g_ops g) x" if "x \<in> set (g_tensors g)" for x
    using wlD(6) [OF that] t that ud [OF that] io by (auto simp: tensor_linked_def)
  moreover have "op_of h' x \<noteq> None" if "x \<in> set (g_ops g)" for x using wlD(3) [OF that] k that by auto
  ultimately show ?thesis using wlD io by (auto simp: well_linked_def)
qed

text \<open>References at and above the next one are free.\<close>

definition fresh_heap :: "ir_heap \<Rightarrow> bool" where
  "fresh_heap h \<longleftrightarrow> (\<forall>t. next_tensor h \<le> t \<longrightarrow> tensor_of h t = None) \<and>
     (\<forall>k. next_op h \<le> k \<longrightarrow> op_of h k = None)"

lemma fresh_heapD:
  assumes "fresh_heap h"
  shows "tensor_of h t \<noteq> None \<Longrightarrow> t < next_tensor h" "op_of h k \<noteq> None \<Longrightarrow> k < next_op h"
  using assms by (auto simp: fresh_heap_def not_le [symmetric])

lemma well_linked_allocated:
  assumes "fresh_heap h" "well_linked h g"
  shows "t \<in> set (g_tensors g) \<Longrightarrow> t < next_tensor h" "k \<in> set (g_ops g) \<Longrightarrow> k < next_op h"
  using fresh_heapD [OF assms(1)] well_linkedD(3,6) [OF assms(2)] linkedD(1) by fast+

section \<open>New objects\<close>

lemma EmplaceTensor_linked:
  assumes f: "fresh_heap h" and wl: "well_linked h g" and c: "users c = []" "defining_op c = None"
    and e: "EmplaceTensor c g h = (n, g', h')"
  shows "n = next_tensor h" "g' = g\<lparr>g_tensors := g_tensors g @ [n]\<rparr>" "fresh_heap h'" "well_linked h' g'"
    "op_of h' = op_of h" "tensor_of h' = (tensor_of h)(n \<mapsto> c)" "next_tensor h' = Suc n" "next_op h' = next_op h"
proof -
  from e show eqs: "n = next_tensor h" "g' = g\<lparr>g_tensors := g_tensors g @ [n]\<rparr>"
    "op_of h' = op_of h" "tensor_of h' = (tensor_of h)(n \<mapsto> c)" "next_tensor h' = Suc n" "next_op h' = next_op h"
    by (auto simp: EmplaceTensor_def)
  show "fresh_heap h'" using f by (auto simp: fresh_heap_def eqs)
  note wlD = well_linkedD [OF wl]
  have new: "n \<notin> set (g_tensors g)" using well_linked_allocated(1) [OF f wl] eqs(1) by blast
  have io: "ins h' = ins h" "outs h' = outs h" by (auto simp: ins_def outs_def eqs fun_eq_iff)
  have "tensor_linked h' (g_ops g) t" if t: "t \<in> set (g_tensors g)" for t
  proof -
    have "tensor_of h' t = tensor_of h t" using t new by (auto simp: eqs)
    then show ?thesis using wlD(6) [OF t] by (simp add: tensor_linked_def uses_def definer_def io)
  qed
  moreover have "tensor_linked h' (g_ops g) n"
  proof -
    have "ins h k ! i \<noteq> Some n" if "k \<in> set (g_ops g)" "i < length (ins h k)" for k i
      using wlD(4) [OF that(1)] that(2) new nth_mem by fastforce
    moreover have "outs h k ! i \<noteq> Some n" if "k \<in> set (g_ops g)" "i < length (outs h k)" for k i
      using wlD(5) [OF that(1)] that(2) new nth_mem by fastforce
    ultimately show ?thesis using c by (auto simp: tensor_linked_def uses_def definer_def io eqs)
  qed
  moreover have "set (ins h k) \<subseteq> Some ` set (g_tensors g')" "set (outs h k) \<subseteq> Some ` set (g_tensors g')"
    if "k \<in> set (g_ops g)" for k
    using wlD(4,5) [OF that] by (simp_all add: eqs subset_insertI2)
  ultimately show "well_linked h' g'"
    using wlD new by (auto simp: well_linked_def eqs io)
qed

lemma EmplaceOp_linked:
  assumes f: "fresh_heap h" and wl: "well_linked h g" and c: "op_inputs c = []" "op_outputs c = []"
    and e: "EmplaceOpAt (length (g_ops g)) c g h = Some (n, g', h')"
  shows "n = next_op h" "g' = g\<lparr>g_ops := g_ops g @ [n]\<rparr>" "fresh_heap h'" "well_linked h' g'"
    "tensor_of h' = tensor_of h" "op_of h' = (op_of h)(n \<mapsto> c)" "next_tensor h' = next_tensor h" "next_op h' = Suc n"
proof -
  from e show eqs: "n = next_op h" "g' = g\<lparr>g_ops := g_ops g @ [n]\<rparr>"
    "tensor_of h' = tensor_of h" "op_of h' = (op_of h)(n \<mapsto> c)" "next_tensor h' = next_tensor h" "next_op h' = Suc n"
    by (auto simp: EmplaceOpAt_def)
  show "fresh_heap h'" using f by (auto simp: fresh_heap_def eqs)
  note wlD = well_linkedD [OF wl]
  have new: "n \<notin> set (g_ops g)" using well_linked_allocated(2) [OF f wl] eqs(1) by blast
  have none: "op_of h n = None" using f eqs(1) by (simp add: fresh_heap_def)
  have io: "ins h' = ins h" "outs h' = outs h"
    using c none by (auto simp: ins_def outs_def eqs fun_eq_iff)
  have none': "ins h n = []" "outs h n = []" using none by (simp_all add: ins_def outs_def)
  have "tensor_linked h' (g_ops g @ [n]) t" if t: "t \<in> set (g_tensors g)" for t
    using wlD(6) [OF t] none' by (auto simp: tensor_linked_def uses_def definer_def io eqs)
  then show "well_linked h' g'"
    using wlD new none' by (auto simp: well_linked_def eqs io)
qed

section \<open>The invariant of the slicer\<close>

text \<open>
  \<open>D\<close> is the set of old tensors that the operations cloned so far define.  The old objects are as they
  were; the map is injective and takes a tensor to a clone of it; the clone of a tensor has a
  definition exactly when the tensor is in \<open>D\<close>; and the inputs of the slice are the clones of the other
  tensors that are not constant, in the order of the map.
\<close>

definition const_in :: "ir_heap \<Rightarrow> nat \<Rightarrow> bool" where
  "const_in h t \<longleftrightarrow> (\<exists>tt. tensor_of h t = Some tt \<and> IsConstant tt = Some True)"

definition untouched :: "ir_heap \<Rightarrow> ir_heap \<Rightarrow> bool" where
  "untouched h h' \<longleftrightarrow> (\<forall>t < next_tensor h. tensor_of h' t = tensor_of h t) \<and> (\<forall>k < next_op h. op_of h' k = op_of h k)"

definition is_clone :: "ir_heap \<Rightarrow> ir_heap \<Rightarrow> nat \<Rightarrow> nat \<Rightarrow> bool" where
  "is_clone h h' t n \<longleftrightarrow> (\<exists>tt nt. tensor_of h t = Some tt \<and> tensor_of h' n = Some nt \<and> clone_tensor nt = clone_tensor tt)"

definition copying :: "ir_heap \<Rightarrow> GraphSlicer \<Rightarrow> bool" where
  "copying h s \<longleftrightarrow> map_ok (gs_map s) \<and> fresh_heap (gs_heap s) \<and> well_linked (gs_heap s) (gs_slice s) \<and>
     untouched h (gs_heap s) \<and>
     (\<forall>t \<in> set (g_tensors (gs_slice s)). next_tensor h \<le> t) \<and> (\<forall>k \<in> set (g_ops (gs_slice s)). next_op h \<le> k) \<and>
     next_tensor h \<le> next_tensor (gs_heap s) \<and> next_op h \<le> next_op (gs_heap s) \<and>
     (\<forall>t n. lookup (gs_map s) t = Some n \<longrightarrow> n \<in> set (g_tensors (gs_slice s)) \<and> is_clone h (gs_heap s) t n) \<and>
     inj_on (lookup (gs_map s)) (dom (lookup (gs_map s)))"

definition slice_io :: "ir_heap \<Rightarrow> nat set \<Rightarrow> GraphSlicer \<Rightarrow> bool" where
  "slice_io h D s \<longleftrightarrow>
     (\<forall>t n. lookup (gs_map s) t = Some n \<longrightarrow> (definer (gs_heap s) n \<noteq> None \<longleftrightarrow> t \<in> D)) \<and>
     D \<subseteq> dom (lookup (gs_map s)) \<and> g_outputs (gs_slice s) = [] \<and>
     g_inputs (gs_slice s) =
       map (\<lambda>t. the (lookup (gs_map s) t)) (filter (\<lambda>t. \<not> const_in h t \<and> t \<notin> D) (keys_of (gs_map s)))"

lemma copyingD:
  assumes "copying h s"
  shows "map_ok (gs_map s)" "fresh_heap (gs_heap s)" "well_linked (gs_heap s) (gs_slice s)"
    "untouched h (gs_heap s)"
    "t \<in> set (g_tensors (gs_slice s)) \<Longrightarrow> next_tensor h \<le> t" "k \<in> set (g_ops (gs_slice s)) \<Longrightarrow> next_op h \<le> k"
    "next_tensor h \<le> next_tensor (gs_heap s)" "next_op h \<le> next_op (gs_heap s)"
    "lookup (gs_map s) t = Some n \<Longrightarrow> n \<in> set (g_tensors (gs_slice s))"
    "lookup (gs_map s) t = Some n \<Longrightarrow> is_clone h (gs_heap s) t n"
    "inj_on (lookup (gs_map s)) (dom (lookup (gs_map s)))"
  using assms unfolding copying_def by blast+

lemma slice_ioD:
  assumes "slice_io h D s"
  shows "lookup (gs_map s) t = Some n \<Longrightarrow> definer (gs_heap s) n \<noteq> None \<longleftrightarrow> t \<in> D"
    "D \<subseteq> dom (lookup (gs_map s))" "g_outputs (gs_slice s) = []"
    "g_inputs (gs_slice s) =
       map (\<lambda>t. the (lookup (gs_map s) t)) (filter (\<lambda>t. \<not> const_in h t \<and> t \<notin> D) (keys_of (gs_map s)))"
  using assms unfolding slice_io_def by blast+

lemma clone_tensor_simps [simp]:
  "clone_tensor (clone_tensor tt) = clone_tensor tt"
  "clone_tensor (tt\<lparr>users := us\<rparr>) = clone_tensor tt" "clone_tensor (tt\<lparr>defining_op := d\<rparr>) = clone_tensor tt"
  "users (clone_tensor tt) = []" "defining_op (clone_tensor tt) = None"
  by (simp_all add: clone_tensor_def)

lemma IsConstant_clone [simp]: "IsConstant (clone_tensor tt) = IsConstant tt"
  by (cases "tensor_type tt") (simp_all add: IsConstant_def clone_tensor_def)

text \<open>A tensor that is not in the map yet is cloned; \<open>g_inputs\<close> may grow by the clone.\<close>

lemma copying_new_tensor:
  assumes inv: "copying h s" and f: "fresh_heap h" and tt: "tensor_of h t = Some tt"
    and new: "lookup (gs_map s) t = None"
  shows "\<exists>n g h'. MakeClone_tensor t (gs_slice s) (gs_heap s) = Some (n, g, h') \<and>
    (\<forall>is. set is \<subseteq> set (g_tensors g) \<longrightarrow>
      copying h \<lparr>gs_heap = h', gs_slice = g\<lparr>g_inputs := is\<rparr>, gs_map = InsertOrAssign t n (gs_map s)\<rparr>) \<and>
    lookup (InsertOrAssign t n (gs_map s)) = (lookup (gs_map s))(t \<mapsto> n) \<and>
    keys_of (InsertOrAssign t n (gs_map s)) = keys_of (gs_map s) @ [t] \<and>
    tensor_of h' n = Some (clone_tensor tt) \<and> n \<in> set (g_tensors g) \<and> n \<notin> set (g_tensors (gs_slice s)) \<and>
    g = (gs_slice s)\<lparr>g_tensors := g_tensors (gs_slice s) @ [n]\<rparr> \<and> op_of h' = op_of (gs_heap s) \<and>
    definer h' = (definer (gs_heap s))(n := None)"
proof -
  note sD = copyingD [OF inv]
  have t: "t < next_tensor h" using fresh_heapD(1) [OF f] tt by simp
  with sD(4) tt have tt': "tensor_of (gs_heap s) t = Some tt" by (simp add: untouched_def)
  obtain n g h' where e: "EmplaceTensor (clone_tensor tt) (gs_slice s) (gs_heap s) = (n, g, h')"
    using prod_cases3 by blast
  with tt' have mk: "MakeClone_tensor t (gs_slice s) (gs_heap s) = Some (n, g, h')"
    by (simp add: MakeClone_tensor_def)
  note eD = EmplaceTensor_linked [OF sD(2,3) clone_tensor_simps(4,5) e]
  have n: "tensor_of h' n = Some (clone_tensor tt)" "n \<in> set (g_tensors g)" using eD(2,6) by simp_all
  have n_new: "n \<notin> set (g_tensors (gs_slice s))" using well_linked_allocated(1) [OF sD(2,3)] eD(1) by blast
  have nt: "next_tensor h \<le> n" using sD(7) eD(1) by simp
  define m' where "m' = InsertOrAssign t n (gs_map s)"
  have m': "map_ok m'" "lookup m' = (lookup (gs_map s))(t \<mapsto> n)" "keys_of m' = keys_of (gs_map s) @ [t]"
    using iom.ins_ok [OF sD(1)] iom.get_ins [OF sD(1)] iom.ks_ins [OF sD(1)] new by (simp_all add: m'_def)
  have clones: "y \<in> set (g_tensors g) \<and> is_clone h h' x y" if xy: "lookup m' x = Some y" for x y
  proof (cases "x = t")
    case True
    with xy m'(2) n tt show ?thesis by (simp add: is_clone_def)
  next
    case False
    with xy m'(2) have "lookup (gs_map s) x = Some y" by simp
    with sD(9,10) [of x y] eD(2,6) n_new show ?thesis by (auto simp: is_clone_def)
  qed
  have inj: "inj_on (lookup m') (dom (lookup m'))"
  proof (rule inj_onI)
    fix x y assume x: "x \<in> dom (lookup m')" and y: "y \<in> dom (lookup m')" and xy: "lookup m' x = lookup m' y"
    have "lookup (gs_map s) z \<noteq> Some n" for z using sD(9) [of z n] n_new by blast
    with x y xy m'(2) inj_onD [OF sD(11), of x y] show "x = y" by (auto split: if_splits)
  qed
  have "copying h \<lparr>gs_heap = h', gs_slice = g\<lparr>g_inputs := is\<rparr>, gs_map = m'\<rparr>"
    if "set is \<subseteq> set (g_tensors g)" for "is"
  proof -
    have "well_linked h' (g\<lparr>g_inputs := is\<rparr>)" using eD(4) that by (simp add: well_linked_def)
    moreover have "untouched h h'" using sD(4) nt by (auto simp: untouched_def eD(5,6))
    ultimately show ?thesis
      using m'(1) sD(5-8) eD(2,3,7,8) nt clones inj unfolding copying_def by auto
  qed
  moreover have "definer h' = (definer (gs_heap s))(n := None)"
    by (auto simp: definer_def eD(6) fun_eq_iff)
  ultimately show ?thesis using mk m'(2,3) n n_new eD(2,5) unfolding m'_def by blast
qed

text \<open>Attaching within the slice keeps the copy.\<close>

lemma copying_attach:
  assumes inv: "copying h s" and y: "y \<in> set (g_tensors (gs_slice s))" and n: "n \<in> set (g_ops (gs_slice s))"
    and wl: "well_linked h' (gs_slice s)"
    and t: "\<forall>t'. t' \<noteq> y \<longrightarrow> tensor_of h' t' = tensor_of (gs_heap s) t'"
    and ty: "map_option clone_tensor (tensor_of h' y) = map_option clone_tensor (tensor_of (gs_heap s) y)"
    and k: "\<forall>k'. k' \<noteq> n \<longrightarrow> op_of h' k' = op_of (gs_heap s) k'" "op_of h' n \<noteq> None"
    and nx: "next_tensor h' = next_tensor (gs_heap s)" "next_op h' = next_op (gs_heap s)"
  shows "copying h (s\<lparr>gs_heap := h'\<rparr>)"
proof -
  note sD = copyingD [OF inv]
  have old: "\<not> y < next_tensor h" "\<not> n < next_op h" using sD(5) [OF y] sD(6) [OF n] by auto
  have "untouched h h'" using sD(4) t k old by (metis untouched_def)
  moreover have "fresh_heap h'"
    using sD(2) t k well_linked_allocated [OF sD(2,3)] y n unfolding fresh_heap_def nx
    by (metis linorder_not_le)
  moreover have "is_clone h h' x z" if "lookup (gs_map s) x = Some z" for x z
  proof -
    from sD(10) [OF that] obtain tt nt where c: "tensor_of h x = Some tt" "tensor_of (gs_heap s) z = Some nt"
      "clone_tensor nt = clone_tensor tt" by (auto simp: is_clone_def)
    show ?thesis
    proof (cases "z = y")
      case True
      with ty c(2) obtain nt' where "tensor_of h' y = Some nt'" "clone_tensor nt' = clone_tensor nt" by auto
      with True c show ?thesis by (simp add: is_clone_def)
    next
      case False
      with t c show ?thesis by (simp add: is_clone_def)
    qed
  qed
  ultimately show ?thesis
    using sD(1,5-9,11) wl nx unfolding copying_def by auto
qed


section \<open>The steps of cloning an operation\<close>

text \<open>What a step that works on the new operation \<open>n\<close> leaves alone.\<close>

definition grows :: "nat \<Rightarrow> GraphSlicer \<Rightarrow> GraphSlicer \<Rightarrow> bool" where
  "grows n s s' \<longleftrightarrow> lookup (gs_map s) \<subseteq>\<^sub>m lookup (gs_map s') \<and> g_ops (gs_slice s') = g_ops (gs_slice s) \<and>
     (\<forall>k. k \<noteq> n \<longrightarrow> op_of (gs_heap s') k = op_of (gs_heap s) k)"

lemma grows_refl: "grows n s s"
  by (simp add: grows_def)

lemma grows_trans: "grows n s s' \<Longrightarrow> grows n s' s'' \<Longrightarrow> grows n s s''"
  unfolding grows_def by (metis map_le_trans)

lemma attach_operand:
  assumes c: "copying h s" and io: "slice_io h D s" and y: "y \<in> set (g_tensors (gs_slice s))"
    and n: "n \<in> set (g_ops (gs_slice s))" and op: "op_of (gs_heap s) n = Some nop"
  shows "\<exists>h'. AttachInput_ir (Some y) n (gs_heap s) = Some h' \<and> copying h (s\<lparr>gs_heap := h'\<rparr>) \<and>
    slice_io h D (s\<lparr>gs_heap := h'\<rparr>) \<and> op_of h' n = Some (nop\<lparr>op_inputs := op_inputs nop @ [Some y]\<rparr>) \<and>
    (\<forall>k. k \<noteq> n \<longrightarrow> op_of h' k = op_of (gs_heap s) k)"
proof -
  note sD = copyingD [OF c]
  obtain yt where yt: "tensor_of (gs_heap s) y = Some yt"
    using linkedD(1) [OF well_linkedD(6) [OF sD(3) y]] by auto
  from AttachInput_linked [OF sD(3) n y] obtain h' where
    h': "AttachInput_ir (Some y) n (gs_heap s) = Some h'" "well_linked h' (gs_slice s)"
      "definer h' = definer (gs_heap s)" "\<forall>k. k \<noteq> n \<longrightarrow> op_of h' k = op_of (gs_heap s) k"
      "\<forall>t. t \<noteq> y \<longrightarrow> tensor_of h' t = tensor_of (gs_heap s) t" by blast
  from h'(1) AttachInput_effect [OF op yt]
  have eff: "h' = set_tensor y (yt\<lparr>users := users yt @ [(n, length (op_inputs nop))]\<rparr>)
            (set_op n (nop\<lparr>op_inputs := op_inputs nop @ [Some y]\<rparr>) (gs_heap s))" by simp
  have "copying h (s\<lparr>gs_heap := h'\<rparr>)"
    by (rule copying_attach [OF c y n h'(2,5) _ h'(4)]) (simp_all add: eff yt)
  moreover have "slice_io h D (s\<lparr>gs_heap := h'\<rparr>)" using io by (simp add: slice_io_def h'(3))
  ultimately show ?thesis using h'(1,4) by (simp add: eff)
qed

lemma attach_result:
  assumes c: "copying h s" and y: "y \<in> set (g_tensors (gs_slice s))" "definer (gs_heap s) y = None"
    and n: "n \<in> set (g_ops (gs_slice s))" and op: "op_of (gs_heap s) n = Some nop"
  shows "\<exists>h' j. AttachOutput_ir (Some y) n (gs_heap s) = Some h' \<and> copying h (s\<lparr>gs_heap := h'\<rparr>) \<and>
    definer h' = (definer (gs_heap s))(y := Some (n, j)) \<and>
    op_of h' n = Some (nop\<lparr>op_outputs := op_outputs nop @ [Some y]\<rparr>) \<and>
    (\<forall>k. k \<noteq> n \<longrightarrow> op_of h' k = op_of (gs_heap s) k)"
proof -
  note sD = copyingD [OF c]
  obtain yt where yt: "tensor_of (gs_heap s) y = Some yt"
    using linkedD(1) [OF well_linkedD(6) [OF sD(3) y(1)]] by auto
  from AttachOutput_linked [OF sD(3) n y] obtain h' where
    h': "AttachOutput_ir (Some y) n (gs_heap s) = Some h'" "well_linked h' (gs_slice s)"
      "definer h' = (definer (gs_heap s))(y := Some (n, length (outs (gs_heap s) n)))"
      "\<forall>k. k \<noteq> n \<longrightarrow> op_of h' k = op_of (gs_heap s) k"
      "\<forall>t. t \<noteq> y \<longrightarrow> tensor_of h' t = tensor_of (gs_heap s) t" by blast
  from h'(1) AttachOutput_effect [OF op yt]
  have eff: "h' = set_tensor y (yt\<lparr>defining_op := Some (n, length (op_outputs nop))\<rparr>)
            (set_op n (nop\<lparr>op_outputs := op_outputs nop @ [Some y]\<rparr>) (gs_heap s))" by simp
  have "copying h (s\<lparr>gs_heap := h'\<rparr>)"
    by (rule copying_attach [OF c y(1) n h'(2,5) _ h'(4)]) (simp_all add: eff yt)
  moreover have "op_of h' n = Some (nop\<lparr>op_outputs := op_outputs nop @ [Some y]\<rparr>)" by (simp add: eff)
  ultimately show ?thesis using h'(1,3,4) by blast
qed

lemma slice_io_new_tensor:
  assumes io: "slice_io h D s" and ok: "copying h s" and tt: "tensor_of h t = Some tt" and c: "IsConstant tt = Some c"
    and new: "lookup (gs_map s) t = None"
    and m: "lookup m' = (lookup (gs_map s))(t \<mapsto> n)" "keys_of m' = keys_of (gs_map s) @ [t]"
    and n: "n \<notin> set (g_tensors (gs_slice s))" and d: "definer h' = (definer (gs_heap s))(n := None)"
    and g: "g_outputs g = []" "g_inputs g = (if c then g_inputs (gs_slice s) else g_inputs (gs_slice s) @ [n])"
  shows "slice_io h D \<lparr>gs_heap = h', gs_slice = g, gs_map = m'\<rparr>"
proof -
  note iD = slice_ioD [OF io]
  have tD: "t \<notin> D" using iD(2) new by auto
  have const: "const_in h t \<longleftrightarrow> c" using tt c by (simp add: const_in_def)
  have "definer h' y \<noteq> None \<longleftrightarrow> x \<in> D" if "lookup m' x = Some y" for x y
  proof (cases "x = t")
    case True
    with that m(1) d tD show ?thesis by simp
  next
    case False
    with that m(1) have l: "lookup (gs_map s) x = Some y" by simp
    with copyingD(9) [OF ok, of x y] n have "y \<noteq> n" by blast
    with iD(1) [OF l] d show ?thesis by simp
  qed
  moreover have "map (\<lambda>x. the (lookup m' x)) (filter (\<lambda>x. \<not> const_in h x \<and> x \<notin> D) (keys_of (gs_map s))) =
      g_inputs (gs_slice s)"
    using new set_keys [of "gs_map s"] by (auto simp: iD(4) m(1))
  ultimately show ?thesis
    using tD const iD(2) g m by (auto simp: slice_io_def)
qed

lemma clone_operand_step:
  assumes ok: "copying h s" and io: "slice_io h D s" and f: "fresh_heap h" and tt: "tensor_of h t = Some tt"
    and c: "IsConstant tt = Some c" and n: "n \<in> set (g_ops (gs_slice s))" and op: "op_of (gs_heap s) n = Some nop"
  shows "\<exists>s' y. clone_operand n (Some t) s = Some s' \<and> copying h s' \<and> slice_io h D s' \<and> grows n s s' \<and>
    lookup (gs_map s') t = Some y \<and> dom (lookup (gs_map s')) = insert t (dom (lookup (gs_map s))) \<and>
    op_of (gs_heap s') n = Some (nop\<lparr>op_inputs := op_inputs nop @ [Some y]\<rparr>)"
proof (cases "lookup (gs_map s) t")
  case (Some y)
  have mok: "map_ok (gs_map s)" by (rule copyingD(1) [OF ok])
  have y: "y \<in> set (g_tensors (gs_slice s))" by (rule copyingD(9) [OF ok Some])
  from attach_operand [OF ok io y n op] obtain h' where h': "AttachInput_ir (Some y) n (gs_heap s) = Some h'"
    "copying h (s\<lparr>gs_heap := h'\<rparr>)" "slice_io h D (s\<lparr>gs_heap := h'\<rparr>)"
    "op_of h' n = Some (nop\<lparr>op_inputs := op_inputs nop @ [Some y]\<rparr>)"
    "\<forall>k. k \<noteq> n \<longrightarrow> op_of h' k = op_of (gs_heap s) k" by blast
  have "clone_operand n (Some t) s = Some (s\<lparr>gs_heap := h'\<rparr>)"
    using Some h'(1) by (simp add: clone_operand_def Contains_lookup [OF mok] Find_lookup [OF mok])
  with h' Some show ?thesis
    by (intro exI [of _ "s\<lparr>gs_heap := h'\<rparr>"] exI [of _ y]) (auto simp: grows_def)
next
  case None
  have mok: "map_ok (gs_map s)" by (rule copyingD(1) [OF ok])
  from copying_new_tensor [OF ok f tt None] obtain y g h1 where
    mk: "MakeClone_tensor t (gs_slice s) (gs_heap s) = Some (y, g, h1)" and
    cp: "\<And>is. set is \<subseteq> set (g_tensors g) \<Longrightarrow>
      copying h \<lparr>gs_heap = h1, gs_slice = g\<lparr>g_inputs := is\<rparr>, gs_map = InsertOrAssign t y (gs_map s)\<rparr>" and
    m: "lookup (InsertOrAssign t y (gs_map s)) = (lookup (gs_map s))(t \<mapsto> y)"
      "keys_of (InsertOrAssign t y (gs_map s)) = keys_of (gs_map s) @ [t]" and
    y: "tensor_of h1 y = Some (clone_tensor tt)" "y \<in> set (g_tensors g)" "y \<notin> set (g_tensors (gs_slice s))" and
    g: "g = (gs_slice s)\<lparr>g_tensors := g_tensors (gs_slice s) @ [y]\<rparr>" and
    h1: "op_of h1 = op_of (gs_heap s)" "definer h1 = (definer (gs_heap s))(y := None)" by blast
  define g1 where "g1 = (if c then g else g\<lparr>g_inputs := g_inputs g @ [y]\<rparr>)"
  define s1 where "s1 = \<lparr>gs_heap = h1, gs_slice = g1, gs_map = InsertOrAssign t y (gs_map s)\<rparr>"
  have g1: "g1 = g\<lparr>g_inputs := if c then g_inputs (gs_slice s) else g_inputs (gs_slice s) @ [y]\<rparr>"
    by (simp add: g1_def g)
  have "set (g_inputs (gs_slice s)) \<subseteq> set (g_tensors g)"
    using well_linkedD(7) [OF copyingD(3) [OF ok]] by (auto simp: g)
  with cp y(2) have ok1: "copying h s1" by (simp add: s1_def g1)
  have io1: "slice_io h D s1"
    unfolding s1_def
    by (rule slice_io_new_tensor [OF io ok tt c None m y(3) h1(2)]) (simp_all add: g1 g slice_ioD(3) [OF io])
  have "y \<in> set (g_tensors (gs_slice s1))" "n \<in> set (g_ops (gs_slice s1))" "op_of (gs_heap s1) n = Some nop"
    using n op h1(1) by (simp_all add: s1_def g1 g)
  from attach_operand [OF ok1 io1 this] obtain h' where h': "AttachInput_ir (Some y) n h1 = Some h'"
    "copying h (s1\<lparr>gs_heap := h'\<rparr>)" "slice_io h D (s1\<lparr>gs_heap := h'\<rparr>)"
    "op_of h' n = Some (nop\<lparr>op_inputs := op_inputs nop @ [Some y]\<rparr>)"
    "\<forall>k. k \<noteq> n \<longrightarrow> op_of h' k = op_of h1 k" by (auto simp: s1_def)
  have "clone_operand n (Some t) s = Some (s1\<lparr>gs_heap := h'\<rparr>)"
    using None mk y(1) c h'(1)
    by (simp add: clone_operand_def Contains_lookup [OF mok] s1_def g1_def)
  moreover have "grows n s (s1\<lparr>gs_heap := h'\<rparr>)"
    using h'(5) None by (auto simp: grows_def s1_def m(1) g1 g h1(1) map_le_def)
  ultimately show ?thesis
    using h' by (intro exI [of _ "s1\<lparr>gs_heap := h'\<rparr>"] exI [of _ y]) (auto simp: s1_def m(1))
qed

lemma clone_result_step:
  assumes ok: "copying h s" and io: "slice_io h D s" and f: "fresh_heap h" and tt: "tensor_of h t = Some tt"
    and c: "IsConstant tt = Some False" and n: "n \<in> set (g_ops (gs_slice s))" and op: "op_of (gs_heap s) n = Some nop"
    and new: "lookup (gs_map s) t = None"
  shows "\<exists>s' y. clone_result n (Some t) s = Some s' \<and> copying h s' \<and> slice_io h (insert t D) s' \<and> grows n s s' \<and>
    lookup (gs_map s') t = Some y \<and> dom (lookup (gs_map s')) = insert t (dom (lookup (gs_map s))) \<and>
    op_of (gs_heap s') n = Some (nop\<lparr>op_outputs := op_outputs nop @ [Some y]\<rparr>)"
proof -
  from copying_new_tensor [OF ok f tt new] obtain y g h1 where
    mk: "MakeClone_tensor t (gs_slice s) (gs_heap s) = Some (y, g, h1)" and
    cp: "\<And>is. set is \<subseteq> set (g_tensors g) \<Longrightarrow>
      copying h \<lparr>gs_heap = h1, gs_slice = g\<lparr>g_inputs := is\<rparr>, gs_map = InsertOrAssign t y (gs_map s)\<rparr>" and
    m: "lookup (InsertOrAssign t y (gs_map s)) = (lookup (gs_map s))(t \<mapsto> y)"
      "keys_of (InsertOrAssign t y (gs_map s)) = keys_of (gs_map s) @ [t]" and
    y: "tensor_of h1 y = Some (clone_tensor tt)" "y \<in> set (g_tensors g)" "y \<notin> set (g_tensors (gs_slice s))" and
    g: "g = (gs_slice s)\<lparr>g_tensors := g_tensors (gs_slice s) @ [y]\<rparr>" and
    h1: "op_of h1 = op_of (gs_heap s)" "definer h1 = (definer (gs_heap s))(y := None)" by blast
  note iD = slice_ioD [OF io]
  define s1 where "s1 = \<lparr>gs_heap = h1, gs_slice = g, gs_map = InsertOrAssign t y (gs_map s)\<rparr>"
  have "set (g_inputs g) \<subseteq> set (g_tensors g)"
    using well_linkedD(7) [OF copyingD(3) [OF ok]] by (auto simp: g)
  with cp [of "g_inputs g"] have ok1: "copying h s1" by (simp add: s1_def)
  have "y \<in> set (g_tensors (gs_slice s1))" "definer (gs_heap s1) y = None" "n \<in> set (g_ops (gs_slice s1))"
    "op_of (gs_heap s1) n = Some nop"
    using n op h1 y(2) by (simp_all add: s1_def g)
  from attach_result [OF ok1 this] obtain h' j where h': "AttachOutput_ir (Some y) n h1 = Some h'"
    "copying h (s1\<lparr>gs_heap := h'\<rparr>)" "definer h' = (definer h1)(y := Some (n, j))"
    "op_of h' n = Some (nop\<lparr>op_outputs := op_outputs nop @ [Some y]\<rparr>)"
    "\<forall>k. k \<noteq> n \<longrightarrow> op_of h' k = op_of h1 k" by (auto simp: s1_def)
  have "slice_io h (insert t D) (s1\<lparr>gs_heap := h'\<rparr>)"
  proof -
    have "definer h' z \<noteq> None \<longleftrightarrow> x \<in> insert t D" if "lookup (InsertOrAssign t y (gs_map s)) x = Some z" for x z
    proof (cases "x = t")
      case False
      with that m(1) have l: "lookup (gs_map s) x = Some z" by simp
      with copyingD(9) [OF ok, of x z] y(3) have "z \<noteq> y" by blast
      with iD(1) [OF l] h'(3) h1(2) False show ?thesis by simp
    qed (use that m(1) h'(3) in auto)
    moreover have "map (\<lambda>x. the (lookup (InsertOrAssign t y (gs_map s)) x))
        (filter (\<lambda>x. \<not> const_in h x \<and> x \<notin> insert t D) (keys_of (gs_map s))) = g_inputs (gs_slice s)"
    proof -
      have "t \<notin> set (keys_of (gs_map s))" using new set_keys [of "gs_map s"] by auto
      then have "filter (\<lambda>x. \<not> const_in h x \<and> x \<notin> insert t D) (keys_of (gs_map s)) =
          filter (\<lambda>x. \<not> const_in h x \<and> x \<notin> D) (keys_of (gs_map s))"
        by (intro filter_cong) auto
      with \<open>t \<notin> set (keys_of (gs_map s))\<close> show ?thesis by (simp add: iD(4) m(1))
    qed
    ultimately show ?thesis using iD(2,3) m by (auto simp: slice_io_def s1_def g)
  qed
  moreover have "clone_result n (Some t) s = Some (s1\<lparr>gs_heap := h'\<rparr>)"
    using mk h'(1) by (simp add: clone_result_def s1_def)
  moreover have "grows n s (s1\<lparr>gs_heap := h'\<rparr>)"
    using h'(5) new by (auto simp: grows_def s1_def m(1) g h1(1) map_le_def)
  ultimately show ?thesis
    using h' by (intro exI [of _ "s1\<lparr>gs_heap := h'\<rparr>"] exI [of _ y]) (auto simp: s1_def m(1))
qed


section \<open>Cloning an operation\<close>

definition mapped :: "GraphSlicer \<Rightarrow> nat option \<Rightarrow> nat option" where
  "mapped s p = Option.bind p (lookup (gs_map s))"

lemma mapped_grows:
  "lookup (gs_map s) \<subseteq>\<^sub>m lookup (gs_map s') \<Longrightarrow> mapped s p \<noteq> None \<Longrightarrow> mapped s' p = mapped s p"
  by (cases p) (auto simp: mapped_def map_le_def dom_def)

definition clonable_operand :: "ir_heap \<Rightarrow> nat option \<Rightarrow> bool" where
  "clonable_operand h p \<longleftrightarrow> (\<exists>t tt c. p = Some t \<and> tensor_of h t = Some tt \<and> IsConstant tt = Some c)"

definition clonable_result :: "ir_heap \<Rightarrow> nat option \<Rightarrow> bool" where
  "clonable_result h p \<longleftrightarrow> (\<exists>t tt. p = Some t \<and> tensor_of h t = Some tt \<and> IsConstant tt = Some False)"

lemma clone_operands:
  assumes "copying h s" "slice_io h D s" "fresh_heap h" "n \<in> set (g_ops (gs_slice s))" "op_of (gs_heap s) n = Some nop"
    and "\<forall>p \<in> set ps. clonable_operand h p"
  shows "\<exists>s'. foldM (clone_operand n) ps s = Some s' \<and> copying h s' \<and> slice_io h D s' \<and> grows n s s' \<and>
    dom (lookup (gs_map s')) = dom (lookup (gs_map s)) \<union> {t. Some t \<in> set ps} \<and>
    (\<forall>p \<in> set ps. mapped s' p \<noteq> None) \<and>
    op_of (gs_heap s') n = Some (nop\<lparr>op_inputs := op_inputs nop @ map (mapped s') ps\<rparr>)"
  using assms
proof (induction ps arbitrary: s nop)
  case (Cons p ps)
  then obtain t tt c where p: "p = Some t" "tensor_of h t = Some tt" "IsConstant tt = Some c"
    by (auto simp: clonable_operand_def)
  from clone_operand_step [OF Cons.prems(1-3) p(2,3) Cons.prems(4,5)] obtain s1 y where
    s1: "clone_operand n p s = Some s1" "copying h s1" "slice_io h D s1" "grows n s s1"
      "lookup (gs_map s1) t = Some y" "dom (lookup (gs_map s1)) = insert t (dom (lookup (gs_map s)))"
      "op_of (gs_heap s1) n = Some (nop\<lparr>op_inputs := op_inputs nop @ [Some y]\<rparr>)" using p(1) by blast
  have "n \<in> set (g_ops (gs_slice s1))" using Cons.prems(4) s1(4) by (simp add: grows_def)
  from Cons.IH [OF s1(2,3) Cons.prems(3) this s1(7)] Cons.prems(6) obtain s' where
    s': "foldM (clone_operand n) ps s1 = Some s'" "copying h s'" "slice_io h D s'" "grows n s1 s'"
      "dom (lookup (gs_map s')) = dom (lookup (gs_map s1)) \<union> {t. Some t \<in> set ps}"
      "\<forall>p \<in> set ps. mapped s' p \<noteq> None"
      "op_of (gs_heap s') n = Some (nop\<lparr>op_inputs := (op_inputs nop @ [Some y]) @ map (mapped s') ps\<rparr>)" by auto
  have "mapped s1 p = Some y" using s1(5) p(1) by (simp add: mapped_def)
  then have "mapped s' p = Some y" using mapped_grows [of s1 s' p] s'(4) by (simp add: grows_def)
  moreover have "grows n s s'" using grows_trans [OF s1(4) s'(4)] .
  ultimately show ?case
    using s1(1,6) s' p(1) by (intro exI [of _ s']) auto
qed (auto simp: grows_refl)

lemma clone_results:
  assumes "copying h s" "slice_io h D s" "fresh_heap h" "n \<in> set (g_ops (gs_slice s))" "op_of (gs_heap s) n = Some nop"
    and "\<forall>p \<in> set ps. clonable_result h p" "distinct ps" "\<forall>t. Some t \<in> set ps \<longrightarrow> lookup (gs_map s) t = None"
  shows "\<exists>s'. foldM (clone_result n) ps s = Some s' \<and> copying h s' \<and> slice_io h (D \<union> {t. Some t \<in> set ps}) s' \<and>
    grows n s s' \<and> dom (lookup (gs_map s')) = dom (lookup (gs_map s)) \<union> {t. Some t \<in> set ps} \<and>
    (\<forall>p \<in> set ps. mapped s' p \<noteq> None) \<and>
    op_of (gs_heap s') n = Some (nop\<lparr>op_outputs := op_outputs nop @ map (mapped s') ps\<rparr>)"
  using assms
proof (induction ps arbitrary: s nop D)
  case (Cons p ps)
  then obtain t tt where p: "p = Some t" "tensor_of h t = Some tt" "IsConstant tt = Some False"
    by (auto simp: clonable_result_def)
  with Cons.prems(8) have "lookup (gs_map s) t = None" by simp
  from clone_result_step [OF Cons.prems(1-3) p(2,3) Cons.prems(4,5) this] obtain s1 y where
    s1: "clone_result n p s = Some s1" "copying h s1" "slice_io h (insert t D) s1" "grows n s s1"
      "lookup (gs_map s1) t = Some y" "dom (lookup (gs_map s1)) = insert t (dom (lookup (gs_map s)))"
      "op_of (gs_heap s1) n = Some (nop\<lparr>op_outputs := op_outputs nop @ [Some y]\<rparr>)" using p(1) by blast
  have "n \<in> set (g_ops (gs_slice s1))" using Cons.prems(4) s1(4) by (simp add: grows_def)
  moreover have "\<forall>x. Some x \<in> set ps \<longrightarrow> lookup (gs_map s1) x = None"
  proof (intro allI impI)
    fix x assume "Some x \<in> set ps"
    with Cons.prems(7,8) p(1) have "x \<noteq> t" "x \<notin> dom (lookup (gs_map s))" by auto
    with s1(6) show "lookup (gs_map s1) x = None" by blast
  qed
  ultimately obtain s' where
    s': "foldM (clone_result n) ps s1 = Some s'" "copying h s'" "slice_io h (insert t D \<union> {t. Some t \<in> set ps}) s'"
      "grows n s1 s'" "dom (lookup (gs_map s')) = dom (lookup (gs_map s1)) \<union> {t. Some t \<in> set ps}"
      "\<forall>p \<in> set ps. mapped s' p \<noteq> None"
      "op_of (gs_heap s') n = Some (nop\<lparr>op_outputs := (op_outputs nop @ [Some y]) @ map (mapped s') ps\<rparr>)"
    using Cons.IH [OF s1(2,3) Cons.prems(3) _ s1(7)] Cons.prems(6,7) by auto
  have "mapped s1 p = Some y" using s1(5) p(1) by (simp add: mapped_def)
  then have "mapped s' p = Some y" using mapped_grows [of s1 s' p] s'(4) by (simp add: grows_def)
  moreover have "grows n s s'" using grows_trans [OF s1(4) s'(4)] .
  moreover have "insert t D \<union> {t. Some t \<in> set ps} = D \<union> {t. Some t \<in> set (p # ps)}" using p(1) by auto
  ultimately show ?case
    using s1(1,6) s' p(1) by (intro exI [of _ s']) auto
qed (auto simp: grows_refl)

text \<open>The new operation \<open>n\<close> is the copy of \<open>k\<close>: the same contents, with the clones of its operands.\<close>

definition copied :: "ir_heap \<Rightarrow> GraphSlicer \<Rightarrow> nat \<Rightarrow> nat \<Rightarrow> bool" where
  "copied h s k n \<longleftrightarrow> (\<exists>op. op_of h k = Some op \<and>
     op_of (gs_heap s) n = Some ((clone_op op)\<lparr>op_inputs := map (mapped s) (op_inputs op),
       op_outputs := map (mapped s) (op_outputs op)\<rparr>) \<and>
     (\<forall>p \<in> set (op_inputs op) \<union> set (op_outputs op). mapped s p \<noteq> None))"

lemma copied_grows:
  assumes "copied h s k n" "lookup (gs_map s) \<subseteq>\<^sub>m lookup (gs_map s')" "op_of (gs_heap s') n = op_of (gs_heap s) n"
  shows "copied h s' k n"
proof -
  from assms(1) obtain op where op: "op_of h k = Some op"
    "op_of (gs_heap s) n = Some ((clone_op op)\<lparr>op_inputs := map (mapped s) (op_inputs op),
       op_outputs := map (mapped s) (op_outputs op)\<rparr>)"
    "\<forall>p \<in> set (op_inputs op) \<union> set (op_outputs op). mapped s p \<noteq> None" by (auto simp: copied_def)
  have "mapped s' p = mapped s p" if "p \<in> set (op_inputs op) \<union> set (op_outputs op)" for p
    using mapped_grows [OF assms(2)] op(3) that by blast
  then have "map (mapped s') (op_inputs op) = map (mapped s) (op_inputs op)"
    "map (mapped s') (op_outputs op) = map (mapped s) (op_outputs op)"
    "\<forall>p \<in> set (op_inputs op) \<union> set (op_outputs op). mapped s' p \<noteq> None" using op(3) by auto
  with op assms(3) show ?thesis by (simp add: copied_def)
qed

definition operands :: "ir_heap \<Rightarrow> nat \<Rightarrow> nat set" where
  "operands h k = {t. Some t \<in> set (ins h k)}"

definition results :: "ir_heap \<Rightarrow> nat \<Rightarrow> nat set" where
  "results h k = {t. Some t \<in> set (outs h k)}"

definition clonable_op :: "ir_heap \<Rightarrow> nat \<Rightarrow> bool" where
  "clonable_op h k \<longleftrightarrow> op_of h k \<noteq> None \<and> (\<forall>p \<in> set (ins h k). clonable_operand h p) \<and>
     (\<forall>p \<in> set (outs h k). clonable_result h p) \<and> distinct (outs h k) \<and> results h k \<inter> operands h k = {}"

lemma clone_op_links [simp]: "op_inputs (clone_op op) = []" "op_outputs (clone_op op) = []"
  by (simp_all add: clone_op_def)

lemma CloneInto_step:
  assumes ok: "copying h s" and io: "slice_io h D s" and f: "fresh_heap h" and k: "clonable_op h k"
    and new: "results h k \<inter> dom (lookup (gs_map s)) = {}"
  shows "\<exists>s' n. CloneInto k s = Some s' \<and> copying h s' \<and> slice_io h (D \<union> results h k) s' \<and>
    lookup (gs_map s) \<subseteq>\<^sub>m lookup (gs_map s') \<and> g_ops (gs_slice s') = g_ops (gs_slice s) @ [n] \<and>
    (\<forall>m \<in> set (g_ops (gs_slice s)). op_of (gs_heap s') m = op_of (gs_heap s) m) \<and>
    dom (lookup (gs_map s')) = dom (lookup (gs_map s)) \<union> operands h k \<union> results h k \<and> copied h s' k n"
proof -
  note sD = copyingD [OF ok]
  from k obtain op where op: "op_of h k = Some op" by (auto simp: clonable_op_def)
  have kn: "k < next_op h" using fresh_heapD(2) [OF f] op by simp
  with sD(4) op have op': "op_of (gs_heap s) k = Some op" by (simp add: untouched_def)
  obtain n g h1 where e: "EmplaceOpAt (length (g_ops (gs_slice s))) (clone_op op) (gs_slice s) (gs_heap s) = Some (n, g, h1)"
    by (simp add: EmplaceOpAt_def)
  note eD = EmplaceOp_linked [OF sD(2,3) clone_op_links e]
  define s1 where "s1 = s\<lparr>gs_heap := h1, gs_slice := g\<rparr>"
  have "untouched h h1" using sD(4,8) eD(1) by (auto simp: untouched_def eD(5,6))
  then have ok1: "copying h s1"
    using sD eD(1-4) unfolding copying_def s1_def by (auto simp: is_clone_def eD(5,7,8))
  have io1: "slice_io h D s1" using io by (simp add: slice_io_def s1_def eD(2,5) definer_def)
  have n1: "n \<in> set (g_ops (gs_slice s1))" "op_of (gs_heap s1) n = Some (clone_op op)" by (simp_all add: s1_def eD(2,6))
  have "\<forall>p \<in> set (op_inputs op). clonable_operand h p" using k op by (simp add: clonable_op_def)
  from clone_operands [OF ok1 io1 f n1 this] obtain s2 where s2:
    "foldM (clone_operand n) (op_inputs op) s1 = Some s2" "copying h s2" "slice_io h D s2" "grows n s1 s2"
    "dom (lookup (gs_map s2)) = dom (lookup (gs_map s)) \<union> operands h k"
    "\<forall>p \<in> set (op_inputs op). mapped s2 p \<noteq> None"
    "op_of (gs_heap s2) n = Some ((clone_op op)\<lparr>op_inputs := map (mapped s2) (op_inputs op)\<rparr>)"
    using op by (auto simp: s1_def operands_def)
  have n2: "n \<in> set (g_ops (gs_slice s2))" using n1(1) s2(4) by (simp add: grows_def)
  have fresh2: "\<forall>t. Some t \<in> set (op_outputs op) \<longrightarrow> lookup (gs_map s2) t = None"
  proof (intro allI impI)
    fix t assume "Some t \<in> set (op_outputs op)"
    then have "t \<in> results h k" using op by (simp add: results_def)
    with new k s2(5) have "t \<notin> dom (lookup (gs_map s2))" by (auto simp: clonable_op_def)
    then show "lookup (gs_map s2) t = None" by blast
  qed
  have "\<forall>p \<in> set (op_outputs op). clonable_result h p" "distinct (op_outputs op)"
    using k op by (simp_all add: clonable_op_def)
  from clone_results [OF s2(2,3) f n2 s2(7) this fresh2] obtain s' where s':
    "foldM (clone_result n) (op_outputs op) s2 = Some s'" "copying h s'" "slice_io h (D \<union> results h k) s'"
    "grows n s2 s'" "dom (lookup (gs_map s')) = dom (lookup (gs_map s2)) \<union> results h k"
    "\<forall>p \<in> set (op_outputs op). mapped s' p \<noteq> None"
    "op_of (gs_heap s') n = Some ((clone_op op)\<lparr>op_inputs := map (mapped s2) (op_inputs op),
       op_outputs := map (mapped s') (op_outputs op)\<rparr>)"
    using op by (auto simp: results_def)
  have m2: "mapped s' p = mapped s2 p" if "p \<in> set (op_inputs op)" for p
    using mapped_grows s'(4) s2(6) that by (auto simp: grows_def)
  then have "map (mapped s2) (op_inputs op) = map (mapped s') (op_inputs op)" by simp
  with s'(6,7) s2(6) m2 op have "copied h s' k n" by (auto simp: copied_def)
  moreover have gr: "grows n s1 s'" using grows_trans [OF s2(4) s'(4)] .
  moreover have "CloneInto k s = Some s'"
    using op' e s2(1) s'(1) by (simp add: CloneInto_def MakeClone_op_def s1_def)
  moreover have "n \<notin> set (g_ops (gs_slice s))" using well_linked_allocated(2) [OF sD(2,3)] eD(1) by blast
  ultimately show ?thesis
    using s'(2,3,5) s2(5) eD(2,6) by (intro exI [of _ s'] exI [of _ n]) (auto simp: grows_def s1_def)
qed

text \<open>The results of an operation are new to the map when it is cloned.\<close>

fun clonable :: "ir_heap \<Rightarrow> nat set \<Rightarrow> nat list \<Rightarrow> bool" where
  "clonable h X [] \<longleftrightarrow> True"
| "clonable h X (k # ks) \<longleftrightarrow> clonable_op h k \<and> results h k \<inter> X = {} \<and>
     clonable h (X \<union> operands h k \<union> results h k) ks"

lemma CloneInto_all:
  assumes "copying h s" "slice_io h D s" "fresh_heap h" "clonable h (dom (lookup (gs_map s))) ks"
  shows "\<exists>s' ns. foldM CloneInto ks s = Some s' \<and> copying h s' \<and>
    slice_io h (D \<union> (\<Union>k \<in> set ks. results h k)) s' \<and> lookup (gs_map s) \<subseteq>\<^sub>m lookup (gs_map s') \<and>
    g_ops (gs_slice s') = g_ops (gs_slice s) @ ns \<and> list_all2 (copied h s') ks ns \<and>
    (\<forall>m \<in> set (g_ops (gs_slice s)). op_of (gs_heap s') m = op_of (gs_heap s) m) \<and>
    dom (lookup (gs_map s')) = dom (lookup (gs_map s)) \<union> (\<Union>k \<in> set ks. operands h k \<union> results h k)"
  using assms
proof (induction ks arbitrary: s D)
  case (Cons k ks)
  from Cons.prems(4) have k: "clonable_op h k" "results h k \<inter> dom (lookup (gs_map s)) = {}"
    "clonable h (dom (lookup (gs_map s)) \<union> operands h k \<union> results h k) ks" by auto
  from CloneInto_step [OF Cons.prems(1-3) k(1,2)] obtain s1 n where s1: "CloneInto k s = Some s1" "copying h s1"
    "slice_io h (D \<union> results h k) s1" "lookup (gs_map s) \<subseteq>\<^sub>m lookup (gs_map s1)"
    "g_ops (gs_slice s1) = g_ops (gs_slice s) @ [n]"
    "\<forall>m \<in> set (g_ops (gs_slice s)). op_of (gs_heap s1) m = op_of (gs_heap s) m"
    "dom (lookup (gs_map s1)) = dom (lookup (gs_map s)) \<union> operands h k \<union> results h k" "copied h s1 k n" by blast
  from Cons.IH [OF s1(2,3) Cons.prems(3)] k(3) s1(7) obtain s' ns where s': "foldM CloneInto ks s1 = Some s'"
    "copying h s'" "slice_io h (D \<union> results h k \<union> (\<Union>k \<in> set ks. results h k)) s'"
    "lookup (gs_map s1) \<subseteq>\<^sub>m lookup (gs_map s')" "g_ops (gs_slice s') = g_ops (gs_slice s1) @ ns"
    "list_all2 (copied h s') ks ns"
    "\<forall>m \<in> set (g_ops (gs_slice s1)). op_of (gs_heap s') m = op_of (gs_heap s1) m"
    "dom (lookup (gs_map s')) = dom (lookup (gs_map s1)) \<union> (\<Union>k \<in> set ks. operands h k \<union> results h k)" by auto
  have "op_of (gs_heap s') n = op_of (gs_heap s1) n" using s'(7) s1(5) by simp
  then have "copied h s' k n" using copied_grows [OF s1(8) s'(4)] by blast
  moreover have "lookup (gs_map s) \<subseteq>\<^sub>m lookup (gs_map s')" using map_le_trans [OF s1(4) s'(4)] .
  ultimately show ?case
    using s1 s' by (intro exI [of _ s'] exI [of _ "n # ns"]) (auto simp: Un_assoc)
qed auto


section \<open>The start of the slicer\<close>

lemma register_inputs:
  assumes "copying h s" "slice_io h {} s" "fresh_heap h" "distinct is" "set is \<inter> dom (lookup (gs_map s)) = {}"
    and "\<forall>t \<in> set is. clonable_result h (Some t)"
  shows "\<exists>s'. foldM (register_input U) is s = Some s' \<and> copying h s' \<and> slice_io h {} s' \<and>
    dom (lookup (gs_map s')) = dom (lookup (gs_map s)) \<union> {t \<in> set is. Some t \<in> U} \<and>
    g_ops (gs_slice s') = g_ops (gs_slice s)"
  using assms
proof (induction "is" arbitrary: s)
  case (Cons t ts)
  show ?case
  proof (cases "Some t \<in> U")
    case False
    with Cons.IH [OF Cons.prems(1-3)] Cons.prems(4-6) show ?thesis by (auto simp: register_input_def)
  next
    case True
    from Cons.prems(6) obtain tt where tt: "tensor_of h t = Some tt" "IsConstant tt = Some False"
      by (auto simp: clonable_result_def)
    from Cons.prems(5) have new: "lookup (gs_map s) t = None" by auto
    from copying_new_tensor [OF Cons.prems(1,3) tt(1) new] obtain n g h1 where
      mk: "MakeClone_tensor t (gs_slice s) (gs_heap s) = Some (n, g, h1)" and
      cp: "\<And>is. set is \<subseteq> set (g_tensors g) \<Longrightarrow>
        copying h \<lparr>gs_heap = h1, gs_slice = g\<lparr>g_inputs := is\<rparr>, gs_map = InsertOrAssign t n (gs_map s)\<rparr>" and
      m: "lookup (InsertOrAssign t n (gs_map s)) = (lookup (gs_map s))(t \<mapsto> n)"
        "keys_of (InsertOrAssign t n (gs_map s)) = keys_of (gs_map s) @ [t]" and
      n: "n \<in> set (g_tensors g)" "n \<notin> set (g_tensors (gs_slice s))" and
      g: "g = (gs_slice s)\<lparr>g_tensors := g_tensors (gs_slice s) @ [n]\<rparr>" and
      h1: "definer h1 = (definer (gs_heap s))(n := None)" by blast
    define g1 where "g1 = g\<lparr>g_inputs := g_inputs g @ [n]\<rparr>"
    define s1 where "s1 = \<lparr>gs_heap = h1, gs_slice = g1, gs_map = InsertOrAssign t n (gs_map s)\<rparr>"
    have "set (g_inputs g @ [n]) \<subseteq> set (g_tensors g)"
      using well_linkedD(7) [OF copyingD(3) [OF Cons.prems(1)]] n(1) by (auto simp: g)
    with cp have ok1: "copying h s1" by (simp add: s1_def g1_def)
    have io1: "slice_io h {} s1"
      unfolding s1_def
      by (rule slice_io_new_tensor [OF Cons.prems(2,1) tt new m n(2) h1])
        (simp_all add: g1_def g slice_ioD(3) [OF Cons.prems(2)])
    have "set ts \<inter> dom (lookup (gs_map s1)) = {}" using Cons.prems(4,5) by (auto simp: s1_def m(1))
    from Cons.IH [OF ok1 io1 Cons.prems(3) _ this] Cons.prems(4,6) obtain s' where s':
      "foldM (register_input U) ts s1 = Some s'" "copying h s'" "slice_io h {} s'"
      "dom (lookup (gs_map s')) = dom (lookup (gs_map s1)) \<union> {t \<in> set ts. Some t \<in> U}"
      "g_ops (gs_slice s') = g_ops (gs_slice s1)" by auto
    have "register_input U t s = Some s1" using True mk by (simp add: register_input_def s1_def g1_def)
    with s' True show ?thesis by (intro exI [of _ s']) (auto simp: s1_def m(1) g1_def g)
  qed
qed auto

lemma copying_start:
  assumes "fresh_heap h"
  shows "copying h \<lparr>gs_heap = h, gs_slice = empty_graph, gs_map = empty_map\<rparr>"
    "slice_io h {} \<lparr>gs_heap = h, gs_slice = empty_graph, gs_map = empty_map\<rparr>"
proof -
  have e: "lookup (empty_map :: (nat, nat) InsertOrderMap) = (\<lambda>_. None)" "keys_of (empty_map :: (nat, nat) InsertOrderMap) = []"
    by (simp_all add: empty_map_def lookup_def keys_of_def)
  show "copying h \<lparr>gs_heap = h, gs_slice = empty_graph, gs_map = empty_map\<rparr>"
    using assms by (simp add: copying_def empty_map_ok e untouched_def well_linked_def empty_graph_def)
  show "slice_io h {} \<lparr>gs_heap = h, gs_slice = empty_graph, gs_map = empty_map\<rparr>"
    by (simp add: slice_io_def e empty_graph_def)
qed

end
