(* ===== verification/OutlineRoute.thy ===== *)
theory OutlineRoute
  imports OutlineClone
begin

text \<open>
  The second half of outlining: the operations of the partition are dropped from the root, the last
  one becomes the dispatch operation, and the tensors that cross the border are attached to it.
\<close>

section \<open>Frames of the root\<close>

lemma well_linked_links:
  assumes wl: "well_linked h g"
    and t: "\<forall>t \<in> set (g_tensors g). tensor_of h' t \<noteq> None \<and> uses h' t = uses h t \<and> definer h' t = definer h t"
    and k: "\<forall>k \<in> set (g_ops g). op_of h' k \<noteq> None \<and> ins h' k = ins h k \<and> outs h' k = outs h k"
  shows "well_linked h' g"
proof -
  note wlD = well_linkedD [OF wl]
  have "tensor_linked h' (g_ops g) x" if "x \<in> set (g_tensors g)" for x
    using wlD(6) [OF that] t that k by (auto simp: tensor_linked_def)
  then show ?thesis using wlD k by (auto simp: well_linked_def)
qed

text \<open>The contents of the tensors, their links apart, and what is allocated.\<close>

definition same_contents :: "ir_heap \<Rightarrow> ir_heap \<Rightarrow> bool" where
  "same_contents h h' \<longleftrightarrow> (\<forall>t. map_option clone_tensor (tensor_of h' t) = map_option clone_tensor (tensor_of h t)) \<and>
     dom (op_of h') = dom (op_of h) \<and> next_tensor h' = next_tensor h \<and> next_op h' = next_op h"

lemma same_contents_refl: "same_contents h h"
  by (simp add: same_contents_def)

lemma same_contents_trans: "same_contents h h' \<Longrightarrow> same_contents h' h'' \<Longrightarrow> same_contents h h''"
  by (simp add: same_contents_def)

lemma same_contents_tensor:
  assumes "same_contents h h'" "tensor_of h t = Some tt"
  shows "\<exists>tt'. tensor_of h' t = Some tt' \<and> IsConstant tt' = IsConstant tt"
proof -
  from assms have "map_option clone_tensor (tensor_of h' t) = Some (clone_tensor tt)" by (simp add: same_contents_def)
  then obtain tt' where t': "tensor_of h' t = Some tt'" "clone_tensor tt' = clone_tensor tt" by auto
  then have "IsConstant tt' = IsConstant tt" by (metis IsConstant_clone)
  with t' show ?thesis by blast
qed

lemma same_contents_fresh:
  assumes "same_contents h h'" "fresh_heap h"
  shows "fresh_heap h'"
proof -
  have "tensor_of h' t = None \<longleftrightarrow> tensor_of h t = None" for t
    using assms(1) unfolding same_contents_def by (metis option.map_disc_iff)
  moreover have "op_of h' k = None \<longleftrightarrow> op_of h k = None" for k
    using assms(1) unfolding same_contents_def by (metis domIff)
  ultimately show ?thesis using assms by (simp add: fresh_heap_def same_contents_def)
qed

section \<open>Dropping the partition\<close>

lemma dropped_contents: "k \<in> set (g_ops g) \<Longrightarrow> well_linked h g \<Longrightarrow> same_contents h (dropped k g h)"
  using well_linkedD(3) [of h g k]
  by (auto simp: same_contents_def dropped_def detach_def option.map_comp comp_def dom_def split: if_splits)

definition cleared :: "LiteRtOpT \<Rightarrow> LiteRtOpT" where
  "cleared op = op\<lparr>op_inputs := [], op_outputs := []\<rparr>"

lemma Drop_all:
  assumes "well_linked h g" "set ks \<subseteq> set (g_ops g)"
  shows "\<exists>h'. foldM Drop ks h = Some h' \<and> well_linked h' g \<and> same_contents h h' \<and>
    (\<forall>k. op_of h' k = (if k \<in> set ks then map_option cleared (op_of h k) else op_of h k)) \<and>
    (\<forall>t \<in> set (g_tensors g). uses h' t = filter (\<lambda>u. fst u \<notin> set ks) (uses h t)) \<and>
    (\<forall>t \<in> set (g_tensors g). definer h' t =
       (case definer h t of None \<Rightarrow> None | Some (k, j) \<Rightarrow> if k \<in> set ks then None else Some (k, j))) \<and>
    (\<forall>t. t \<notin> set (g_tensors g) \<longrightarrow> tensor_of h' t = tensor_of h t)"
  using assms
proof (induction ks arbitrary: h)
  case Nil
  then show ?case by (auto simp: same_contents_refl split: option.splits)
next
  case (Cons k ks)
  then have k: "k \<in> set (g_ops g)" by simp
  define h1 where "h1 = dropped k g h"
  have d: "Drop k h = Some h1" using Drop_effect [OF Cons.prems(1) k] by (simp add: h1_def)
  have wl1: "well_linked h1 g" using well_linked_dropped [OF Cons.prems(1)] by (simp add: h1_def)
  have sc1: "same_contents h h1" using dropped_contents [OF k Cons.prems(1)] by (simp add: h1_def)
  have op1: "op_of h1 x = (if x = k then map_option cleared (op_of h k) else op_of h x)" for x
    by (auto simp: h1_def dropped_def cleared_def [abs_def])
  have u1: "uses h1 t = filter (\<lambda>u. fst u \<noteq> k) (uses h t)" "definer h1 t =
     (case definer h t of None \<Rightarrow> None | Some (o', j) \<Rightarrow> if o' = k then None else Some (o', j))"
    if "t \<in> set (g_tensors g)" for t using dropped_links(3,4) [OF that] by (simp_all add: h1_def)
  have t1: "tensor_of h1 t = tensor_of h t" if "t \<notin> set (g_tensors g)" for t using that by (simp add: h1_def dropped_def)
  from Cons.IH [OF wl1] Cons.prems(2) obtain h' where h': "foldM Drop ks h1 = Some h'" "well_linked h' g"
    "same_contents h1 h'" "\<forall>x. op_of h' x = (if x \<in> set ks then map_option cleared (op_of h1 x) else op_of h1 x)"
    "\<forall>t \<in> set (g_tensors g). uses h' t = filter (\<lambda>u. fst u \<notin> set ks) (uses h1 t)"
    "\<forall>t \<in> set (g_tensors g). definer h' t =
       (case definer h1 t of None \<Rightarrow> None | Some (k, j) \<Rightarrow> if k \<in> set ks then None else Some (k, j))"
    "\<forall>t. t \<notin> set (g_tensors g) \<longrightarrow> tensor_of h' t = tensor_of h1 t" by auto
  have "op_of h' x = (if x \<in> set (k # ks) then map_option cleared (op_of h x) else op_of h x)" for x
    using h'(4) by (auto simp: op1 cleared_def [abs_def] option.map_comp comp_def)
  moreover have "uses h' t = filter (\<lambda>u. fst u \<notin> set (k # ks)) (uses h t)" if "t \<in> set (g_tensors g)" for t
    using h'(5) that u1(1) [OF that] by (auto intro: filter_cong)
  moreover have "definer h' t =
       (case definer h t of None \<Rightarrow> None | Some (x, j) \<Rightarrow> if x \<in> set (k # ks) then None else Some (x, j))"
    if "t \<in> set (g_tensors g)" for t
    using h'(6) that u1(2) [OF that] by (auto split: option.splits)
  ultimately show ?case
    using d h'(1,2,7) same_contents_trans [OF sc1 h'(3)] t1 by auto
qed

section \<open>Rerouting\<close>

text \<open>
  \<open>E\<close> holds of the tensors that enter the slice and \<open>O\<close> of those that leave it.  \<open>b\<close> is the state in
  which the loop starts, \<open>ts\<close> the tensors it has visited.
\<close>

definition routed :: "ir_graph \<Rightarrow> nat \<Rightarrow> (nat \<Rightarrow> bool) \<Rightarrow> (nat \<Rightarrow> bool) \<Rightarrow> GraphSlicer \<Rightarrow> nat list \<Rightarrow> GraphSlicer \<Rightarrow> bool" where
  "routed root d E L b ts s \<longleftrightarrow>
     well_linked (gs_heap s) root \<and> same_contents (gs_heap b) (gs_heap s) \<and> gs_map s = gs_map b \<and>
     gs_slice s = (gs_slice b)\<lparr>g_outputs := g_outputs (gs_slice b) @ map (\<lambda>t. the (lookup (gs_map b) t)) (filter L ts)\<rparr> \<and>
     op_of (gs_heap s) d = map_option (\<lambda>op. op\<lparr>op_inputs := op_inputs op @ map Some (filter E ts),
       op_outputs := op_outputs op @ map Some (filter L ts)\<rparr>) (op_of (gs_heap b) d) \<and>
     (\<forall>k. k \<noteq> d \<longrightarrow> op_of (gs_heap s) k = op_of (gs_heap b) k) \<and>
     (\<forall>t. t \<notin> set (g_tensors root) \<longrightarrow> tensor_of (gs_heap s) t = tensor_of (gs_heap b) t) \<and>
     (\<forall>t. \<not> E t \<longrightarrow> uses (gs_heap s) t = uses (gs_heap b) t) \<and>
     (\<forall>t. t \<notin> set ts \<or> \<not> L t \<longrightarrow> definer (gs_heap s) t = definer (gs_heap b) t)"

text \<open>What the loop finds at a pair of an old tensor and its clone.\<close>

definition border_ok :: "ir_graph \<Rightarrow> (nat \<Rightarrow> bool) \<Rightarrow> (nat \<Rightarrow> bool) \<Rightarrow> GraphSlicer \<Rightarrow> nat \<Rightarrow> bool" where
  "border_ok root E L b t \<longleftrightarrow> t \<in> set (g_tensors root) \<and>
     (\<exists>n nt tt c. lookup (gs_map b) t = Some n \<and> n \<notin> set (g_tensors root) \<and>
        tensor_of (gs_heap b) n = Some nt \<and> tensor_of (gs_heap b) t = Some tt \<and>
        IsConstant nt = Some c \<and> IsConstant tt = Some c \<and>
        (E t \<longleftrightarrow> defining_op nt = None \<and> \<not> c) \<and>
        (L t \<longleftrightarrow> \<not> E t \<and> (users tt \<noteq> [] \<and> \<not> c \<or> t \<in> set (g_outputs root))) \<and>
        (L t \<longrightarrow> defining_op tt = None))"

lemma route_step:
  assumes r: "routed root d E L b ts s" and d: "d \<in> set (g_ops root)"
    and t: "border_ok root E L b t" and new: "t \<notin> set ts"
  shows "\<exists>s'. reroute root d (t, the (lookup (gs_map b) t)) s = Some s' \<and> routed root d E L b (ts @ [t]) s'"
proof -
  from t obtain n nt tt c where n: "lookup (gs_map b) t = Some n" "n \<notin> set (g_tensors root)"
      "tensor_of (gs_heap b) n = Some nt" "tensor_of (gs_heap b) t = Some tt"
      "IsConstant nt = Some c" "IsConstant tt = Some c"
    and E: "E t \<longleftrightarrow> defining_op nt = None \<and> \<not> c"
    and L: "L t \<longleftrightarrow> \<not> E t \<and> (users tt \<noteq> [] \<and> \<not> c \<or> t \<in> set (g_outputs root))" "L t \<longrightarrow> defining_op tt = None"
    and tr: "t \<in> set (g_tensors root)"
    unfolding border_ok_def by blast
  note rD = r [unfolded routed_def]
  have wl: "well_linked (gs_heap s) root" and sc: "same_contents (gs_heap b) (gs_heap s)" using rD by blast+
  obtain op where op: "op_of (gs_heap s) d = Some op" using well_linkedD(3) [OF wl d] by blast
  obtain bop where bop: "op_of (gs_heap b) d = Some bop"
    "op = bop\<lparr>op_inputs := op_inputs bop @ map Some (filter E ts), op_outputs := op_outputs bop @ map Some (filter L ts)\<rparr>"
    using rD op by (cases "op_of (gs_heap b) d") auto
  have nt: "tensor_of (gs_heap s) n = Some nt" using rD n(2,3) by simp
  obtain ot where ot: "tensor_of (gs_heap s) t = Some ot" "IsConstant ot = Some c"
    using same_contents_tensor [OF sc n(4)] n(6) by auto
  have ot_links: "\<not> E t \<Longrightarrow> users ot = users tt" "defining_op ot = defining_op tt"
    using rD ot(1) n(4) new by (auto simp: uses_def definer_def)
  have FO: "FindOutput root t \<noteq> None \<longleftrightarrow> t \<in> set (g_outputs root)"
    by (simp add: FindOutput_def FindInd_None_iff)
  show ?thesis
  proof (cases "E t")
    case True
    from AttachInput_linked [OF wl d tr] obtain h' where h': "AttachInput_ir (Some t) d (gs_heap s) = Some h'"
      "well_linked h' root" "uses h' = (uses (gs_heap s))(t := uses (gs_heap s) t @ [(d, length (ins (gs_heap s) d))])"
      "definer h' = definer (gs_heap s)" by blast
    from h'(1) AttachInput_effect [OF op ot(1)]
    have eff: "h' = set_tensor t (ot\<lparr>users := users ot @ [(d, length (op_inputs op))]\<rparr>)
      (set_op d (op\<lparr>op_inputs := op_inputs op @ [Some t]\<rparr>) (gs_heap s))" by simp
    have "same_contents (gs_heap s) h'" using op ot(1) by (auto simp: eff same_contents_def)
    with sc have "same_contents (gs_heap b) h'" by (rule same_contents_trans)
    moreover have "\<not> L t" using True L(1) by simp
    moreover have "reroute root d (t, n) s = Some (s\<lparr>gs_heap := h'\<rparr>)"
      using True E nt n(5) h'(1) by (simp add: reroute_def)
    moreover have "op_of h' d = Some (op\<lparr>op_inputs := op_inputs op @ [Some t]\<rparr>)"
      "\<forall>k. k \<noteq> d \<longrightarrow> op_of h' k = op_of (gs_heap s) k" "\<forall>x. x \<notin> set (g_tensors root) \<longrightarrow> tensor_of h' x = tensor_of (gs_heap s) x"
      using tr by (auto simp: eff)
    ultimately show ?thesis
      using rD h'(2-4) True n(1) bop
      by (intro exI [of _ "s\<lparr>gs_heap := h'\<rparr>"]) (auto simp: routed_def)
  next
    case False
    have not_input: "(if defining_op nt = None then map_option Not (IsConstant nt) else Some False) = Some False"
      using False E n(5) by auto
    have is_used: "(if users ot \<noteq> [] then map_option Not (IsConstant ot) else Some False) = Some (users tt \<noteq> [] \<and> \<not> c)"
      using ot(2) ot_links(1) [OF False] by simp
    show ?thesis
    proof (cases "L t")
      case True
      with L(2) ot_links(2) ot(1) have "definer (gs_heap s) t = None" by simp
      from AttachOutput_linked [OF wl d tr this] obtain h' where h': "AttachOutput_ir (Some t) d (gs_heap s) = Some h'"
        "well_linked h' root" "uses h' = uses (gs_heap s)"
        "definer h' = (definer (gs_heap s))(t := Some (d, length (outs (gs_heap s) d)))" by blast
      from h'(1) AttachOutput_effect [OF op ot(1)]
      have eff: "h' = set_tensor t (ot\<lparr>defining_op := Some (d, length (op_outputs op))\<rparr>)
        (set_op d (op\<lparr>op_outputs := op_outputs op @ [Some t]\<rparr>) (gs_heap s))" by simp
      define s' where "s' = s\<lparr>gs_heap := h', gs_slice := (gs_slice s)\<lparr>g_outputs := g_outputs (gs_slice s) @ [n]\<rparr>\<rparr>"
      have "same_contents (gs_heap s) h'" using op ot(1) by (auto simp: eff same_contents_def)
      with sc have "same_contents (gs_heap b) h'" by (rule same_contents_trans)
      moreover have "reroute root d (t, n) s = Some s'"
        using True L(1) nt not_input is_used ot(1) FO h'(1) by (auto simp: reroute_def s'_def)
      moreover have "op_of h' d = Some (op\<lparr>op_outputs := op_outputs op @ [Some t]\<rparr>)"
        "\<forall>k. k \<noteq> d \<longrightarrow> op_of h' k = op_of (gs_heap s) k" "\<forall>x. x \<notin> set (g_tensors root) \<longrightarrow> tensor_of h' x = tensor_of (gs_heap s) x"
        using tr by (auto simp: eff)
      ultimately show ?thesis
        using rD h'(2-4) True False n(1) bop
        by (intro exI [of _ s']) (auto simp: routed_def s'_def)
    next
      case notL: False
      have "reroute root d (t, n) s = Some s"
        using notL False L(1) nt not_input is_used ot(1) FO by (auto simp: reroute_def)
      moreover have "routed root d E L b (ts @ [t]) s" using rD notL False by (auto simp: routed_def)
      ultimately show ?thesis using n(1) by simp
    qed
  qed
qed

lemma route_all:
  assumes "routed root d E L b ts s" "d \<in> set (g_ops root)" "\<forall>t \<in> set ts'. border_ok root E L b t" "distinct (ts @ ts')"
  shows "\<exists>s'. foldM (reroute root d) (map (\<lambda>t. (t, the (lookup (gs_map b) t))) ts') s = Some s' \<and>
    routed root d E L b (ts @ ts') s'"
  using assms
proof (induction ts' arbitrary: ts s)
  case (Cons t ts')
  then obtain s1 where s1: "reroute root d (t, the (lookup (gs_map b) t)) s = Some s1" "routed root d E L b (ts @ [t]) s1"
    using route_step [OF Cons.prems(1,2), of t] by auto
  with Cons.IH [OF s1(2) Cons.prems(2)] Cons.prems(3,4) show ?case by auto
qed auto

end
