(* ===== verification/OutlinePartition.thy ===== *)
theory OutlinePartition
  imports OutlineRoute
begin

text \<open>
  Outlining a partition: what \<open>SlicePartitionFromGraph\<close> returns for a partition of a well-linked root.
\<close>

section \<open>Operands and results\<close>

lemma results_definer:
  assumes "well_linked h g" "k \<in> set (g_ops g)" "t \<in> results h k"
  shows "t \<in> set (g_tensors g)" "\<exists>j. definer h t = Some (k, j)"
proof -
  from assms(3) obtain j where j: "j < length (outs h k)" "outs h k ! j = Some t"
    by (auto simp: results_def in_set_conv_nth)
  show t: "t \<in> set (g_tensors g)"
    using well_linkedD(5) [OF assms(1,2)] assms(3) by (auto simp: results_def)
  from linkedD(4) [OF well_linkedD(6) [OF assms(1) t], of k j] j assms(2)
  show "\<exists>j. definer h t = Some (k, j)" by auto
qed

lemma definer_results:
  assumes "well_linked h g" "t \<in> set (g_tensors g)" "definer h t = Some (k, j)"
  shows "k \<in> set (g_ops g)" "t \<in> results h k"
  using linkedD(4) [OF well_linkedD(6) [OF assms(1,2)], of k j] assms(3)
  by (auto simp: results_def in_set_conv_nth)

lemma operands_uses:
  assumes "well_linked h g" "t \<in> set (g_tensors g)" "k \<in> set (g_ops g)"
  shows "t \<in> operands h k \<longleftrightarrow> (\<exists>i. (k, i) \<in> set (uses h t))"
  using linkedD(3) [OF well_linkedD(6) [OF assms(1,2)], of k] assms(3)
  by (auto simp: operands_def in_set_conv_nth)

lemma uses_op: "well_linked h g \<Longrightarrow> t \<in> set (g_tensors g) \<Longrightarrow> u \<in> set (uses h t) \<Longrightarrow> fst u \<in> set (g_ops g)"
  using linkedD(3) [OF well_linkedD(6), of h g t "fst u" "snd u"] by simp

lemma results_disjoint:
  assumes "well_linked h g" "k \<in> set (g_ops g)" "k' \<in> set (g_ops g)" "k \<noteq> k'"
  shows "results h k \<inter> results h k' = {}"
  using results_definer(2) [OF assms(1,2)] results_definer(2) [OF assms(1,3)] assms(4) by fastforce

lemma outs_distinct:
  assumes "well_linked h g" "k \<in> set (g_ops g)"
  shows "distinct (outs h k)"
proof -
  have "i = j" if ij: "i < length (outs h k)" "j < length (outs h k)" "outs h k ! i = outs h k ! j" for i j
  proof -
    obtain t where t: "outs h k ! i = Some t" "t \<in> set (g_tensors g)"
      using well_linkedD(5) [OF assms] nth_mem [OF ij(1)] by auto
    note d = linkedD(4) [OF well_linkedD(6) [OF assms(1) t(2)]]
    have "definer h t = Some (k, i)" "definer h t = Some (k, j)"
      using d [of k i] d [of k j] ij t(1) assms(2) by simp_all
    then show ?thesis by simp
  qed
  then show ?thesis by (auto simp: distinct_conv_nth)
qed

lemma operands_tensors:
  "well_linked h g \<Longrightarrow> k \<in> set (g_ops g) \<Longrightarrow> operands h k \<subseteq> set (g_tensors g)"
  using well_linkedD(4) by (fastforce simp: operands_def)

lemma results_tensors:
  "well_linked h g \<Longrightarrow> k \<in> set (g_ops g) \<Longrightarrow> results h k \<subseteq> set (g_tensors g)"
  using results_definer(1) by blast

section \<open>The partitions that can be outlined\<close>

text \<open>
  The tensors of the root are ranked; constants and graph inputs have no definition, and constants are
  not graph inputs or outputs.  The operations of the partition are listed in an order in which they
  can execute.
\<close>

definition plain_root :: "ir_heap \<Rightarrow> ir_graph \<Rightarrow> bool" where
  "plain_root h root \<longleftrightarrow> fresh_heap h \<and> well_linked h root \<and> distinct (g_inputs root) \<and>
     (\<forall>t \<in> set (g_tensors root). \<exists>tt c. tensor_of h t = Some tt \<and> IsConstant tt = Some c \<and>
        (c \<longrightarrow> defining_op tt = None \<and> t \<notin> set (g_inputs root) \<union> set (g_outputs root))) \<and>
     (\<forall>t \<in> set (g_inputs root). definer h t = None)"

definition in_order :: "ir_heap \<Rightarrow> nat list \<Rightarrow> bool" where
  "in_order h part \<longleftrightarrow> distinct part \<and> (\<forall>k \<in> set part. results h k \<inter> operands h k = {}) \<and>
     sorted_wrt (\<lambda>k k'. results h k' \<inter> operands h k = {}) part"

definition defined_in :: "ir_heap \<Rightarrow> nat list \<Rightarrow> nat set" where
  "defined_in h part = (\<Union>k \<in> set part. results h k)"

definition read_in :: "ir_heap \<Rightarrow> nat list \<Rightarrow> nat set" where
  "read_in h part = (\<Union>k \<in> set part. operands h k)"

text \<open>The tensors that enter a slice and those that leave it.\<close>

definition entering :: "ir_heap \<Rightarrow> nat list \<Rightarrow> nat \<Rightarrow> bool" where
  "entering h part t \<longleftrightarrow> t \<in> read_in h part \<and> \<not> const_in h t \<and> t \<notin> defined_in h part"

definition leaving :: "ir_heap \<Rightarrow> ir_graph \<Rightarrow> nat list \<Rightarrow> nat \<Rightarrow> bool" where
  "leaving h root part t \<longleftrightarrow> t \<in> defined_in h part \<and>
     ((\<exists>u \<in> set (uses h t). fst u \<notin> set part) \<or> t \<in> set (g_outputs root))"

lemma plain_rootD:
  assumes "plain_root h root"
  shows "fresh_heap h" "well_linked h root" "distinct (g_inputs root)"
    "t \<in> set (g_tensors root) \<Longrightarrow> \<exists>tt c. tensor_of h t = Some tt \<and> IsConstant tt = Some c \<and>
        (c \<longrightarrow> defining_op tt = None \<and> t \<notin> set (g_inputs root) \<union> set (g_outputs root))"
    "t \<in> set (g_inputs root) \<Longrightarrow> definer h t = None"
  using assms unfolding plain_root_def by blast+

lemma part_tensors:
  assumes "well_linked h root" "set part \<subseteq> set (g_ops root)"
  shows "defined_in h part \<subseteq> set (g_tensors root)" "read_in h part \<subseteq> set (g_tensors root)"
proof -
  show "defined_in h part \<subseteq> set (g_tensors root)"
    using results_tensors [OF assms(1)] assms(2) unfolding defined_in_def by blast
  show "read_in h part \<subseteq> set (g_tensors root)"
    using operands_tensors [OF assms(1)] assms(2) unfolding read_in_def by blast
qed

lemma defined_in_iff:
  assumes wl: "well_linked h root" and p: "set part \<subseteq> set (g_ops root)" and t: "t \<in> set (g_tensors root)"
  shows "t \<in> defined_in h part \<longleftrightarrow> (\<exists>k \<in> set part. \<exists>j. definer h t = Some (k, j))"
proof
  assume "t \<in> defined_in h part"
  then show "\<exists>k \<in> set part. \<exists>j. definer h t = Some (k, j)"
    using results_definer(2) [OF wl] p unfolding defined_in_def by blast
next
  assume "\<exists>k \<in> set part. \<exists>j. definer h t = Some (k, j)"
  then show "t \<in> defined_in h part"
    using definer_results(2) [OF wl t] unfolding defined_in_def by blast
qed

lemma plain_root_clonable_op:
  assumes pr: "plain_root h root" and k: "k \<in> set (g_ops root)" "results h k \<inter> operands h k = {}"
  shows "clonable_op h k"
proof -
  note wl = plain_rootD(2) [OF pr]
  have "clonable_operand h p" if "p \<in> set (ins h k)" for p
  proof -
    from that well_linkedD(4) [OF wl k(1)] obtain t where t: "p = Some t" "t \<in> set (g_tensors root)" by blast
    with plain_rootD(4) [OF pr t(2)] show ?thesis unfolding clonable_operand_def by blast
  qed
  moreover have "clonable_result h p" if "p \<in> set (outs h k)" for p
  proof -
    from that well_linkedD(5) [OF wl k(1)] obtain t where t: "p = Some t" "t \<in> set (g_tensors root)" by blast
    with that have "t \<in> results h k" by (simp add: results_def)
    from results_definer(2) [OF wl k(1) this] plain_rootD(4) [OF pr t(2)] t(1) show ?thesis
      by (auto simp: clonable_result_def)
  qed
  ultimately show ?thesis
    using well_linkedD(3) [OF wl k(1)] outs_distinct [OF wl k(1)] k(2) by (simp add: clonable_op_def)
qed

lemma plain_root_clonable:
  assumes pr: "plain_root h root" and o: "in_order h ks" "set ks \<subseteq> set (g_ops root)"
    and X: "defined_in h ks \<inter> X = {}"
  shows "clonable h X ks"
  using o X
proof (induction ks arbitrary: X)
  case (Cons k ks)
  note wl = plain_rootD(2) [OF pr]
  from Cons.prems have k: "k \<in> set (g_ops root)" "results h k \<inter> operands h k = {}" "results h k \<inter> X = {}"
    by (auto simp: in_order_def defined_in_def)
  have "results h k' \<inter> (X \<union> operands h k \<union> results h k) = {}" if "k' \<in> set ks" for k'
  proof -
    have "k' \<in> set (g_ops root)" "k \<noteq> k'" "results h k' \<inter> operands h k = {}" "results h k' \<inter> X = {}"
      using Cons.prems that by (auto simp: in_order_def defined_in_def)
    with results_disjoint [OF wl k(1)] show ?thesis by blast
  qed
  then have "defined_in h ks \<inter> (X \<union> operands h k \<union> results h k) = {}" by (auto simp: defined_in_def)
  with Cons.IH [of "X \<union> operands h k \<union> results h k"] Cons.prems(1,2) plain_root_clonable_op [OF pr k(1,2)] k(3)
  show ?case by (auto simp: in_order_def)
qed simp

section \<open>The cloned slice\<close>

lemma used_tensors_iff: "Some t \<in> used_tensors h part \<longleftrightarrow> t \<in> read_in h part"
proof -
  have "(case op_of h k of None \<Rightarrow> {} | Some op \<Rightarrow> set (op_inputs op)) = set (ins h k)" for k
    by (simp add: ins_def split: option.splits)
  then show ?thesis by (auto simp: used_tensors_def read_in_def operands_def)
qed

lemma slice_cloned:
  assumes pr: "plain_root h root" and o: "in_order h part" "set part \<subseteq> set (g_ops root)"
  shows "\<exists>s1 s2. foldM (register_input (used_tensors h part)) (g_inputs root)
      \<lparr>gs_heap = h, gs_slice = empty_graph, gs_map = empty_map\<rparr> = Some s1 \<and>
    foldM CloneInto part s1 = Some s2 \<and> copying h s2 \<and> slice_io h (defined_in h part) s2 \<and>
    list_all2 (copied h s2) part (g_ops (gs_slice s2)) \<and>
    dom (lookup (gs_map s2)) = read_in h part \<union> defined_in h part"
proof -
  note f = plain_rootD(1) [OF pr] and wl = plain_rootD(2) [OF pr]
  let ?s0 = "\<lparr>gs_heap = h, gs_slice = empty_graph, gs_map = empty_map\<rparr> :: GraphSlicer"
  have e: "lookup (empty_map :: (nat, nat) InsertOrderMap) = (\<lambda>_. None)" by (simp add: empty_map_def lookup_def)
  have inp: "clonable_result h (Some t)" if "t \<in> set (g_inputs root)" for t
  proof -
    have "t \<in> set (g_tensors root)" using well_linkedD(7) [OF wl] that by blast
    from plain_rootD(4) [OF pr this] that show ?thesis by (auto simp: clonable_result_def)
  qed
  have "set (g_inputs root) \<inter> dom (lookup (gs_map ?s0)) = {}" by (simp add: e)
  from register_inputs [OF copying_start [OF f] f plain_rootD(3) [OF pr] this, of "used_tensors h part"] inp
  obtain s1 where s1: "foldM (register_input (used_tensors h part)) (g_inputs root) ?s0 = Some s1" "copying h s1"
    "slice_io h {} s1" "dom (lookup (gs_map s1)) = {t \<in> set (g_inputs root). t \<in> read_in h part}"
    "g_ops (gs_slice s1) = []" by (auto simp: e used_tensors_iff empty_graph_def)
  have "defined_in h part \<inter> dom (lookup (gs_map s1)) = {}"
  proof -
    have "t \<notin> defined_in h part" if "t \<in> set (g_inputs root)" for t
      using defined_in_iff [OF wl o(2), of t] plain_rootD(5) [OF pr that] well_linkedD(7) [OF wl] that by auto
    then show ?thesis by (auto simp: s1(4))
  qed
  from CloneInto_all [OF s1(2,3) f plain_root_clonable [OF pr o this]] s1(4,5)
  show ?thesis using s1(1)
    by (auto simp: defined_in_def read_in_def Un_assoc UN_Un_distrib)
qed

section \<open>The root with the partition dropped\<close>

lemma untouched_root:
  assumes "plain_root h root" "untouched h h'"
  shows "t \<in> set (g_tensors root) \<Longrightarrow> tensor_of h' t = tensor_of h t" "k \<in> set (g_ops root) \<Longrightarrow> op_of h' k = op_of h k"
    "well_linked h' root"
proof -
  show t: "t \<in> set (g_tensors root) \<Longrightarrow> tensor_of h' t = tensor_of h t"
    and k: "k \<in> set (g_ops root) \<Longrightarrow> op_of h' k = op_of h k" for t k
    using assms(2) well_linked_allocated [OF plain_rootD(1,2) [OF assms(1)]] by (simp_all add: untouched_def)
  show "well_linked h' root" by (rule well_linked_frame [OF plain_rootD(2) [OF assms(1)]]) (simp_all add: t k)
qed

lemma dropped_base:
  assumes pr: "plain_root h root" and ut: "untouched h h2" and p: "set part \<subseteq> set (g_ops root)" "part \<noteq> []"
    and op0: "op_of h (last part) = Some op0"
  shows "\<exists>h3. foldM Drop part h2 = Some h3 \<and> op_of h3 (last part) = Some (cleared op0) \<and>
    (let hb = set_op (last part) (MakeDispatchOp (cleared op0)) h3 in
      well_linked hb root \<and> same_contents h2 hb \<and>
      (\<forall>k. op_of hb k = (if k = last part then Some (MakeDispatchOp (cleared op0))
         else if k \<in> set part then map_option cleared (op_of h2 k) else op_of h2 k)) \<and>
      (\<forall>t \<in> set (g_tensors root). uses hb t = filter (\<lambda>u. fst u \<notin> set part) (uses h t) \<and>
         definer hb t = (if t \<in> defined_in h part then None else definer h t)) \<and>
      (\<forall>t. t \<notin> set (g_tensors root) \<longrightarrow> tensor_of hb t = tensor_of h2 t))"
proof -
  note wl = plain_rootD(2) [OF pr] and u = untouched_root [OF pr ut]
  have d: "last part \<in> set part" using p(2) by simp
  from Drop_all [OF u(3) p(1)] obtain h3 where h3: "foldM Drop part h2 = Some h3" "well_linked h3 root"
    "same_contents h2 h3" "\<forall>k. op_of h3 k = (if k \<in> set part then map_option cleared (op_of h2 k) else op_of h2 k)"
    "\<forall>t \<in> set (g_tensors root). uses h3 t = filter (\<lambda>u. fst u \<notin> set part) (uses h2 t)"
    "\<forall>t \<in> set (g_tensors root). definer h3 t =
       (case definer h2 t of None \<Rightarrow> None | Some (k, j) \<Rightarrow> if k \<in> set part then None else Some (k, j))"
    "\<forall>t. t \<notin> set (g_tensors root) \<longrightarrow> tensor_of h3 t = tensor_of h2 t" by blast
  have links: "uses h2 t = uses h t" "definer h2 t = definer h t" if "t \<in> set (g_tensors root)" for t
    using u(1) [OF that] by (simp_all add: uses_def definer_def)
  have dr: "last part \<in> set (g_ops root)" using d p(1) by blast
  have op3: "op_of h3 (last part) = Some (cleared op0)" using h3(4) d u(2) [OF dr] op0 by simp
  define hb where "hb = set_op (last part) (MakeDispatchOp (cleared op0)) h3"
  have "ins hb = ins h3" "outs hb = outs h3"
    using op3 by (auto simp: hb_def MakeDispatchOp_def cleared_def fun_eq_iff)
  then have "well_linked hb root"
    using well_linkedD(3,6) [OF h3(2)] linkedD(1) [OF well_linkedD(6) [OF h3(2)]]
    by (intro well_linked_links [OF h3(2)]) (auto simp: hb_def)
  moreover have "same_contents h2 hb"
    using h3(3) op3 by (auto simp: same_contents_def hb_def insert_absorb dom_def)
  moreover have "definer hb t = (if t \<in> defined_in h part then None else definer h t)" if t: "t \<in> set (g_tensors root)" for t
    using h3(6) t links(2) [OF t] defined_in_iff [OF wl p(1) t]
    by (auto simp: hb_def split: option.splits)
  ultimately show ?thesis
    using h3(1,4,5,7) op3 links(1)
    by (intro exI [of _ h3]) (auto simp: hb_def [symmetric] Let_def; simp add: hb_def)
qed

section \<open>The border\<close>

lemma const_undefined:
  assumes pr: "plain_root h root" and t: "t \<in> set (g_tensors root)" "const_in h t"
  shows "definer h t = None" "t \<notin> set (g_inputs root)" "t \<notin> set (g_outputs root)"
  using plain_rootD(4) [OF pr t(1)] t(2) by (auto simp: const_in_def)

lemma border_holds:
  assumes pr: "plain_root h root" and p: "set part \<subseteq> set (g_ops root)"
    and cp: "copying h s2" and io: "slice_io h (defined_in h part) s2"
    and dm: "dom (lookup (gs_map s2)) = read_in h part \<union> defined_in h part"
    and sc: "same_contents (gs_heap s2) hb"
    and ud: "\<forall>t \<in> set (g_tensors root). uses hb t = filter (\<lambda>u. fst u \<notin> set part) (uses h t) \<and>
         definer hb t = (if t \<in> defined_in h part then None else definer h t)"
    and out: "\<forall>t. t \<notin> set (g_tensors root) \<longrightarrow> tensor_of hb t = tensor_of (gs_heap s2) t"
    and t: "t \<in> set (keys_of (gs_map s2))"
  shows "border_ok root (entering h part) (leaving h root part) (s2\<lparr>gs_heap := hb\<rparr>) t"
proof -
  note wl = plain_rootD(2) [OF pr] and sD = copyingD [OF cp] and iD = slice_ioD [OF io]
  from t have tk: "t \<in> read_in h part \<union> defined_in h part" using dm by (simp add: set_keys)
  then have tr: "t \<in> set (g_tensors root)" using part_tensors [OF wl p] by blast
  from t obtain n where n: "lookup (gs_map s2) t = Some n" by (auto simp: set_keys)
  have "next_tensor h \<le> n" using sD(5) [OF sD(9) [OF n]] .
  moreover have "x < next_tensor h" if "x \<in> set (g_tensors root)" for x
    using well_linked_allocated(1) [OF plain_rootD(1) [OF pr] wl that] .
  ultimately have nr: "n \<notin> set (g_tensors root)" by fastforce
  from sD(10) [OF n] obtain tt nt where c: "tensor_of h t = Some tt" "tensor_of (gs_heap s2) n = Some nt"
    "clone_tensor nt = clone_tensor tt" by (auto simp: is_clone_def)
  from plain_rootD(4) [OF pr tr] c(1) obtain c0 where c0: "IsConstant tt = Some c0" by auto
  have nc: "IsConstant nt = Some c0" using c(3) c0 by (metis IsConstant_clone)
  have nb: "tensor_of hb n = Some nt" using out nr c(2) by simp
  have "tensor_of (gs_heap s2) t = Some tt" using untouched_root(1) [OF pr sD(4) tr] c(1) by simp
  from same_contents_tensor [OF sc this] obtain tb where tb: "tensor_of hb t = Some tb" "IsConstant tb = Some c0"
    using c0 by auto
  have const: "const_in h t \<longleftrightarrow> c0" using c(1) c0 by (auto simp: const_in_def)
  have def: "defining_op nt = None \<longleftrightarrow> t \<notin> defined_in h part" using iD(1) [OF n] c(2) by (cases "defining_op nt") auto
  have ub: "users tb = filter (\<lambda>u. fst u \<notin> set part) (uses h t)"
    "defining_op tb = (if t \<in> defined_in h part then None else definer h t)" using ud tr tb(1) by fastforce+
  have cd: "c0 \<Longrightarrow> t \<notin> defined_in h part" using const const_undefined(1) [OF pr tr] defined_in_iff [OF wl p tr] by simp
  have co: "c0 \<Longrightarrow> t \<notin> set (g_outputs root)" using const const_undefined(3) [OF pr tr] by simp
  have E: "entering h part t \<longleftrightarrow> defining_op nt = None \<and> \<not> c0"
    using tk by (auto simp: entering_def const def)
  have "filter (\<lambda>u. fst u \<notin> set part) (uses h t) \<noteq> [] \<longleftrightarrow> (\<exists>u \<in> set (uses h t). fst u \<notin> set part)"
    by (auto simp: filter_empty_conv)
  then have L: "leaving h root part t \<longleftrightarrow> \<not> entering h part t \<and> (users tb \<noteq> [] \<and> \<not> c0 \<or> t \<in> set (g_outputs root))"
    using cd co by (auto simp: leaving_def E def ub(1))
  show ?thesis
    unfolding border_ok_def using tr n nr nb tb nc E L ub(2) by (auto simp: leaving_def)
qed

text \<open>The slicer before dead code is eliminated.\<close>

lemma slice_routed:
  assumes pr: "plain_root h root" and o: "in_order h part" "set part \<subseteq> set (g_ops root)" "part \<noteq> []"
    and op0: "op_of h (last part) = Some op0"
  shows "\<exists>s1 s2 h3 s4. foldM (register_input (used_tensors h part)) (g_inputs root)
      \<lparr>gs_heap = h, gs_slice = empty_graph, gs_map = empty_map\<rparr> = Some s1 \<and>
    foldM CloneInto part s1 = Some s2 \<and> foldM Drop part (gs_heap s2) = Some h3 \<and>
    op_of h3 (last part) = Some (cleared op0) \<and>
    RerouteTensorsThroughCustomOp root (last part)
      (s2\<lparr>gs_heap := set_op (last part) (MakeDispatchOp (cleared op0)) h3\<rparr>) = Some s4 \<and>
    routed root (last part) (entering h part) (leaving h root part)
      (s2\<lparr>gs_heap := set_op (last part) (MakeDispatchOp (cleared op0)) h3\<rparr>) (keys_of (gs_map s2)) s4 \<and>
    copying h s2 \<and> slice_io h (defined_in h part) s2 \<and>
    list_all2 (copied h s2) part (g_ops (gs_slice s2)) \<and>
    dom (lookup (gs_map s2)) = read_in h part \<union> defined_in h part \<and>
    (let hb = set_op (last part) (MakeDispatchOp (cleared op0)) h3 in
      well_linked hb root \<and> same_contents (gs_heap s2) hb \<and>
      (\<forall>k. op_of hb k = (if k = last part then Some (MakeDispatchOp (cleared op0))
         else if k \<in> set part then map_option cleared (op_of (gs_heap s2) k) else op_of (gs_heap s2) k)) \<and>
      (\<forall>t \<in> set (g_tensors root). uses hb t = filter (\<lambda>u. fst u \<notin> set part) (uses h t) \<and>
         definer hb t = (if t \<in> defined_in h part then None else definer h t)) \<and>
      (\<forall>t. t \<notin> set (g_tensors root) \<longrightarrow> tensor_of hb t = tensor_of (gs_heap s2) t))"
proof -
  from slice_cloned [OF pr o(1,2)] obtain s1 s2 where
    s1: "foldM (register_input (used_tensors h part)) (g_inputs root)
      \<lparr>gs_heap = h, gs_slice = empty_graph, gs_map = empty_map\<rparr> = Some s1" and
    s2: "foldM CloneInto part s1 = Some s2" and
    cp: "copying h s2" "slice_io h (defined_in h part) s2" and
    l: "list_all2 (copied h s2) part (g_ops (gs_slice s2))" and
    dm: "dom (lookup (gs_map s2)) = read_in h part \<union> defined_in h part" by blast
  from dropped_base [OF pr copyingD(4) [OF cp(1)] o(2,3) op0] obtain h3 where
    h3: "foldM Drop part (gs_heap s2) = Some h3" "op_of h3 (last part) = Some (cleared op0)" and
    base: "let hb = set_op (last part) (MakeDispatchOp (cleared op0)) h3 in
      well_linked hb root \<and> same_contents (gs_heap s2) hb \<and>
      (\<forall>k. op_of hb k = (if k = last part then Some (MakeDispatchOp (cleared op0))
         else if k \<in> set part then map_option cleared (op_of (gs_heap s2) k) else op_of (gs_heap s2) k)) \<and>
      (\<forall>t \<in> set (g_tensors root). uses hb t = filter (\<lambda>u. fst u \<notin> set part) (uses h t) \<and>
         definer hb t = (if t \<in> defined_in h part then None else definer h t)) \<and>
      (\<forall>t. t \<notin> set (g_tensors root) \<longrightarrow> tensor_of hb t = tensor_of (gs_heap s2) t)" by blast
  define hb where "hb = set_op (last part) (MakeDispatchOp (cleared op0)) h3"
  define b where "b = s2\<lparr>gs_heap := hb\<rparr>"
  note hbD = base [unfolded hb_def [symmetric] Let_def]
  have d: "last part \<in> set (g_ops root)" using o(2,3) by auto
  have "\<forall>t \<in> set (keys_of (gs_map s2)). border_ok root (entering h part) (leaving h root part) b t"
    unfolding b_def using hbD by (intro ballI border_holds [OF pr o(2) cp dm]) auto
  moreover have "routed root (last part) (entering h part) (leaving h root part) b [] b"
  proof -
    have "op_of hb (last part) = Some (MakeDispatchOp (cleared op0))" by (simp add: hb_def)
    then show ?thesis using hbD by (simp add: routed_def b_def same_contents_refl MakeDispatchOp_def)
  qed
  moreover have "distinct (keys_of (gs_map s2))" using map_ok_distinct [OF copyingD(1) [OF cp(1)]] .
  ultimately obtain s4 where s4:
    "foldM (reroute root (last part)) (map (\<lambda>t. (t, the (lookup (gs_map b) t))) (keys_of (gs_map s2))) b = Some s4"
    "routed root (last part) (entering h part) (leaving h root part) b (keys_of (gs_map s2)) s4"
    using route_all [of root "last part" "entering h part" "leaving h root part" b "[]" b "keys_of (gs_map s2)"] d by auto
  have "RerouteTensorsThroughCustomOp root (last part) b = Some s4"
    using s4(1) values_keys [OF copyingD(1) [OF cp(1)]] by (simp add: RerouteTensorsThroughCustomOp_def b_def)
  then show ?thesis
    using s1 s2 h3 s4(2) cp l dm base unfolding b_def hb_def by blast
qed

section \<open>The result\<close>

text \<open>
  \<open>m\<close> takes the tensors of the partition to their clones.  The slice is the copy of the partition; its
  inputs and outputs are the clones of the operands and results of the dispatch operation, position
  by position; and the root is left with the other live operations.
\<close>

definition copy_of :: "ir_heap \<Rightarrow> ir_heap \<Rightarrow> (nat \<Rightarrow> nat) \<Rightarrow> nat \<Rightarrow> nat \<Rightarrow> bool" where
  "copy_of h h' m k n \<longleftrightarrow> (\<exists>op. op_of h k = Some op \<and>
     op_of h' n = Some ((clone_op op)\<lparr>op_inputs := map (map_option m) (op_inputs op),
       op_outputs := map (map_option m) (op_outputs op)\<rparr>))"

definition sliced_off :: "ir_heap \<Rightarrow> ir_graph \<Rightarrow> nat list \<Rightarrow> (nat \<Rightarrow> nat) \<Rightarrow> nat list \<Rightarrow> nat list \<Rightarrow> ir_graph \<Rightarrow> ir_heap \<Rightarrow> bool" where
  "sliced_off h root part m is os sl h' \<longleftrightarrow> well_linked h' sl \<and>
     inj_on m (read_in h part \<union> defined_in h part) \<and>
     distinct is \<and> set is = {t. entering h part t} \<and> distinct os \<and> set os = {t. leaving h root part t} \<and>
     g_inputs sl = map m is \<and> g_outputs sl = map m os \<and>
     list_all2 (copy_of h h' m) part (g_ops sl) \<and>
     (\<forall>t \<in> read_in h part \<union> defined_in h part. m t \<in> set (g_tensors sl) \<and> is_clone h h' t (m t))"

definition left_over :: "ir_heap \<Rightarrow> ir_graph \<Rightarrow> nat list \<Rightarrow> nat list \<Rightarrow> nat list \<Rightarrow> ir_graph \<Rightarrow> ir_heap \<Rightarrow> bool" where
  "left_over h root part is os root' h' \<longleftrightarrow> well_linked h' root' \<and>
     g_inputs root' = g_inputs root \<and> g_outputs root' = g_outputs root \<and>
     set (g_tensors root') \<subseteq> set (g_tensors root) \<and>
     g_ops root' = filter (\<lambda>k. if k = last part then is \<noteq> [] \<or> os \<noteq> [] else k \<notin> set part \<and> \<not> dead_op h k) (g_ops root) \<and>
     (last part \<in> set (g_ops root') \<longrightarrow>
        op_of h' (last part) = map_option (\<lambda>op. (MakeDispatchOp op)\<lparr>op_inputs := map Some is, op_outputs := map Some os\<rparr>)
          (op_of h (last part))) \<and>
     (\<forall>k \<in> set (g_ops root') - {last part}. op_of h' k = op_of h k) \<and>
     (\<forall>t \<in> set (g_tensors root'). map_option clone_tensor (tensor_of h' t) = map_option clone_tensor (tensor_of h t) \<and>
        (definer h' t = None \<or> t \<in> defined_in h part \<or> definer h' t = definer h t))"

text \<open>Objects of other subgraphs are not touched, those of the slice are new.\<close>

definition others_kept :: "ir_heap \<Rightarrow> ir_graph \<Rightarrow> ir_graph \<Rightarrow> ir_heap \<Rightarrow> bool" where
  "others_kept h root sl h' \<longleftrightarrow> fresh_heap h' \<and> next_tensor h \<le> next_tensor h' \<and> next_op h \<le> next_op h' \<and>
     (\<forall>t < next_tensor h. t \<notin> set (g_tensors root) \<longrightarrow> tensor_of h' t = tensor_of h t) \<and>
     (\<forall>k < next_op h. k \<notin> set (g_ops root) \<longrightarrow> op_of h' k = op_of h k) \<and>
     (\<forall>t \<in> set (g_tensors sl). next_tensor h \<le> t) \<and> (\<forall>k \<in> set (g_ops sl). next_op h \<le> k)"

lemma swept_frame:
  assumes "swept g h = (g', h')"
  shows "t \<notin> set (g_tensors g) \<Longrightarrow> tensor_of h' t = tensor_of h t" "k \<notin> set (g_ops g) \<Longrightarrow> op_of h' k = op_of h k"
    "fresh_heap h \<Longrightarrow> fresh_heap h'" "next_tensor h' = next_tensor h" "next_op h' = next_op h"
    "g_inputs g' = g_inputs g" "g_outputs g' = g_outputs g"
    "g_ops g' = filter (\<lambda>k. \<not> dead_op h k) (g_ops g)" "set (g_tensors g') \<subseteq> set (g_tensors g)"
  using assms by (auto simp: swept_def free_ops_def free_tensors_def fresh_heap_def)

lemma copied_copy_of:
  assumes c: "copied h s k n" and m: "\<forall>t. lookup (gs_map s) t = None \<or> lookup (gs_map s) t = Some (m t)"
    and n: "op_of h' n = op_of (gs_heap s) n"
  shows "copy_of h h' m k n"
proof -
  from c obtain op where op: "op_of h k = Some op"
    "op_of (gs_heap s) n = Some ((clone_op op)\<lparr>op_inputs := map (mapped s) (op_inputs op),
       op_outputs := map (mapped s) (op_outputs op)\<rparr>)"
    "\<forall>p \<in> set (op_inputs op) \<union> set (op_outputs op). mapped s p \<noteq> None" by (auto simp: copied_def)
  have mp: "mapped s p = map_option m p" if "mapped s p \<noteq> None" for p
  proof (cases p)
    case (Some t)
    with that m [rule_format, of t] show ?thesis by (auto simp: mapped_def)
  qed (use that in \<open>simp add: mapped_def\<close>)
  have "map (mapped s) (op_inputs op) = map (map_option m) (op_inputs op)"
    "map (mapped s) (op_outputs op) = map (map_option m) (op_outputs op)"
    using mp op(3) by (meson Un_iff map_cong)+
  with op(1,2) n show ?thesis by (simp add: copy_of_def)
qed

lemma routed_slice:
  assumes pr: "plain_root h root" and p: "set part \<subseteq> set (g_ops root)" "part \<noteq> []"
    and cp: "copying h s2" "slice_io h (defined_in h part) s2"
    and l: "list_all2 (copied h s2) part (g_ops (gs_slice s2))"
    and dm: "dom (lookup (gs_map s2)) = read_in h part \<union> defined_in h part"
    and r: "routed root (last part) (entering h part) (leaving h root part) (s2\<lparr>gs_heap := hb\<rparr>) (keys_of (gs_map s2)) s4"
    and kb: "\<forall>k. k \<notin> set part \<longrightarrow> op_of hb k = op_of (gs_heap s2) k"
    and tb: "\<forall>t. t \<notin> set (g_tensors root) \<longrightarrow> tensor_of hb t = tensor_of (gs_heap s2) t"
    and sw: "swept root (gs_heap s4) = (root', h')"
  shows "sliced_off h root part (\<lambda>t. the (lookup (gs_map s2) t)) (filter (entering h part) (keys_of (gs_map s2)))
    (filter (leaving h root part) (keys_of (gs_map s2))) (gs_slice s4) h'"
proof -
  let ?m = "\<lambda>t. the (lookup (gs_map s2) t)" and ?ks = "keys_of (gs_map s2)"
  note sD = copyingD [OF cp(1)] and alloc = well_linked_allocated [OF plain_rootD(1,2) [OF pr]]
  have ks: "set ?ks = read_in h part \<union> defined_in h part" "distinct ?ks"
    using dm map_ok_distinct [OF sD(1)] by (simp_all add: set_keys)
  have sl: "gs_slice s4 = (gs_slice s2)\<lparr>g_outputs := map ?m (filter (leaving h root part) ?ks)\<rparr>"
    using r slice_ioD(3) [OF cp(2)] by (simp add: routed_def)
  have "map ?m (filter (\<lambda>t. \<not> const_in h t \<and> t \<notin> defined_in h part) ?ks) = map ?m (filter (entering h part) ?ks)"
    using ks(1) by (intro arg_cong [where f = "map ?m"] filter_cong) (auto simp: entering_def)
  then have ins: "g_inputs (gs_slice s4) = map ?m (filter (entering h part) ?ks)"
    using slice_ioD(4) [OF cp(2)] by (simp add: sl)
  have t4: "tensor_of h' t = tensor_of (gs_heap s2) t" if "t \<in> set (g_tensors (gs_slice s2))" for t
  proof -
    have "t \<notin> set (g_tensors root)" using sD(5) [OF that] alloc(1) [of t] by fastforce
    then show ?thesis using swept_frame(1) [OF sw] r tb by (simp add: routed_def)
  qed
  have k4: "op_of h' k = op_of (gs_heap s2) k" if "k \<in> set (g_ops (gs_slice s2))" for k
  proof -
    have k: "k \<notin> set (g_ops root)" using sD(6) [OF that] alloc(2) [of k] by fastforce
    moreover have "k \<notin> set part" using k p(1) by blast
    moreover have "k \<noteq> last part" using calculation(2) p(2) last_in_set by blast
    ultimately show ?thesis using swept_frame(2) [OF sw] r kb by (simp add: routed_def)
  qed
  have mt: "?m t \<in> set (g_tensors (gs_slice s2))" "is_clone h h' t (?m t)" if "t \<in> set ?ks" for t
  proof -
    from that obtain n where n: "lookup (gs_map s2) t = Some n" by (auto simp: set_keys)
    with sD(9) show 1: "?m t \<in> set (g_tensors (gs_slice s2))" by simp
    from sD(10) [OF n] t4 [OF 1] n show "is_clone h h' t (?m t)" by (simp add: is_clone_def)
  qed
  have "well_linked h' (gs_slice s2)" by (rule well_linked_frame [OF sD(3)]) (simp_all add: t4 k4)
  then have "well_linked h' (gs_slice s4)" using mt(1) by (auto simp: sl well_linked_def)
  moreover have "inj_on ?m (read_in h part \<union> defined_in h part)"
  proof (rule inj_onI)
    fix x y assume xy: "x \<in> read_in h part \<union> defined_in h part" "y \<in> read_in h part \<union> defined_in h part" "?m x = ?m y"
    then obtain a b where "lookup (gs_map s2) x = Some a" "lookup (gs_map s2) y = Some b" unfolding dm [symmetric] by blast
    with xy(3) have "lookup (gs_map s2) x = lookup (gs_map s2) y" by simp
    with inj_onD [OF sD(11) this] xy(1,2) show "x = y" unfolding dm by simp
  qed
  moreover have "list_all2 (copy_of h h' ?m) part (g_ops (gs_slice s4))"
  proof -
    have "copy_of h h' ?m k n" if "copied h s2 k n" "n \<in> set (g_ops (gs_slice s2))" for k n
      by (rule copied_copy_of [OF that(1) _ k4 [OF that(2)]]) (metis option.collapse)
    with l show ?thesis by (auto simp: sl list_all2_conv_all_nth)
  qed
  moreover have "{t. entering h part t} \<subseteq> set ?ks" "{t. leaving h root part t} \<subseteq> set ?ks"
    by (auto simp: ks(1) entering_def leaving_def)
  ultimately show ?thesis
    unfolding sliced_off_def using ks mt ins by (auto simp: sl)
qed

lemma routed_root:
  assumes pr: "plain_root h root" and p: "set part \<subseteq> set (g_ops root)" "part \<noteq> []"
    and op0: "op_of h (last part) = Some op0"
    and cp: "copying h s2" and dm: "dom (lookup (gs_map s2)) = read_in h part \<union> defined_in h part"
    and r: "routed root (last part) (entering h part) (leaving h root part) (s2\<lparr>gs_heap := hb\<rparr>) (keys_of (gs_map s2)) s4"
    and kb: "\<forall>k. op_of hb k = (if k = last part then Some (MakeDispatchOp (cleared op0))
         else if k \<in> set part then map_option cleared (op_of (gs_heap s2) k) else op_of (gs_heap s2) k)"
    and sc: "same_contents (gs_heap s2) hb"
    and db: "\<forall>t \<in> set (g_tensors root). definer hb t = (if t \<in> defined_in h part then None else definer h t)"
    and sw: "swept root (gs_heap s4) = (root', h')"
  shows "left_over h root part (filter (entering h part) (keys_of (gs_map s2)))
    (filter (leaving h root part) (keys_of (gs_map s2))) root' h'"
proof -
  let ?is = "filter (entering h part) (keys_of (gs_map s2))" and ?os = "filter (leaving h root part) (keys_of (gs_map s2))"
  note sD = copyingD [OF cp] and u = untouched_root [OF pr copyingD(4) [OF cp]] and fr = swept_frame [OF sw]
  have rD: "well_linked (gs_heap s4) root" "same_contents hb (gs_heap s4)"
    "op_of (gs_heap s4) (last part) = Some ((MakeDispatchOp op0)\<lparr>op_inputs := map Some ?is, op_outputs := map Some ?os\<rparr>)"
    "\<And>k. k \<noteq> last part \<Longrightarrow> op_of (gs_heap s4) k = op_of hb k"
    "\<And>t. t \<notin> set (keys_of (gs_map s2)) \<or> \<not> leaving h root part t \<Longrightarrow> definer (gs_heap s4) t = definer hb t"
    using r kb [rule_format, of "last part"] by (auto simp: routed_def MakeDispatchOp_def cleared_def)
  have k4: "op_of (gs_heap s4) k = (if k \<in> set part then map_option cleared (op_of h k) else op_of h k)"
    if "k \<in> set (g_ops root)" "k \<noteq> last part" for k
    using rD(4) [OF that(2)] kb u(2) [OF that(1)] that by simp
  have live: "dead_op (gs_heap s4) k \<longleftrightarrow>
      \<not> (if k = last part then ?is \<noteq> [] \<or> ?os \<noteq> [] else k \<notin> set part \<and> \<not> dead_op h k)" if k: "k \<in> set (g_ops root)" for k
  proof (cases "k = last part")
    case True
    then show ?thesis by (simp add: dead_op_def rD(3))
  next
    case False
    obtain op where "op_of h k = Some op" using well_linkedD(3) [OF plain_rootD(2) [OF pr] k] by blast
    with False k4 [OF k False] show ?thesis by (simp add: dead_op_def ins_def outs_def cleared_def)
  qed
  have ops': "g_ops root' = filter (\<lambda>k. if k = last part then ?is \<noteq> [] \<or> ?os \<noteq> [] else k \<notin> set part \<and> \<not> dead_op h k) (g_ops root)"
    unfolding fr(8) using live by (intro filter_cong) auto
  have kept: "op_of h' k = op_of (gs_heap s4) k" if "k \<in> set (g_ops root')" for k
    using swept_links(1) [OF sw that] .
  have "op_of h' k = op_of h k" if "k \<in> set (g_ops root') - {last part}" for k
    using that kept [of k] k4 [of k] by (auto simp: ops')
  moreover have "op_of h' (last part) = map_option (\<lambda>op. (MakeDispatchOp op)\<lparr>op_inputs := map Some ?is, op_outputs := map Some ?os\<rparr>)
      (op_of h (last part))" if "last part \<in> set (g_ops root')"
    using kept [OF that] rD(3) op0 by simp
  moreover have "map_option clone_tensor (tensor_of h' t) = map_option clone_tensor (tensor_of h t) \<and>
      (definer h' t = None \<or> t \<in> defined_in h part \<or> definer h' t = definer h t)" if t: "t \<in> set (g_tensors root')" for t
  proof -
    have tr: "t \<in> set (g_tensors root)" using t fr(9) by blast
    have e: "tensor_of h' t = tensor_of (gs_heap s4) t" using swept_links(2) [OF sw t] .
    then have "definer h' t = definer (gs_heap s4) t" by (simp add: definer_def)
    moreover have "definer (gs_heap s4) t = definer hb t \<or> t \<in> defined_in h part"
      using rD(5) [of t] by (auto simp: leaving_def)
    moreover have "map_option clone_tensor (tensor_of (gs_heap s4) t) = map_option clone_tensor (tensor_of h t)"
      using same_contents_trans [OF sc rD(2)] u(1) [OF tr] by (simp add: same_contents_def)
    ultimately show ?thesis using e db tr by (auto split: if_splits)
  qed
  moreover have "well_linked h' root'" by (rule well_linked_swept [OF rD(1) sw])
  ultimately show ?thesis
    unfolding left_over_def using fr(6,7,9) ops' by blast
qed

lemma outline_one:
  assumes pr: "plain_root h root" and o: "in_order h part" "set part \<subseteq> set (g_ops root)" "part \<noteq> []"
  shows "\<exists>sl root' h' m is os. SlicePartitionFromGraph root empty_graph part h = Some (last part, sl, root', h') \<and>
    sliced_off h root part m is os sl h' \<and> left_over h root part is os root' h' \<and> others_kept h root sl h'"
proof -
  have d: "last part \<in> set (g_ops root)" using o(2,3) by auto
  obtain op0 where op0: "op_of h (last part) = Some op0" using well_linkedD(3) [OF plain_rootD(2) [OF pr] d] by blast
  from slice_routed [OF pr o op0] obtain s1 s2 h3 s4 where
    run: "foldM (register_input (used_tensors h part)) (g_inputs root)
      \<lparr>gs_heap = h, gs_slice = empty_graph, gs_map = empty_map\<rparr> = Some s1"
    "foldM CloneInto part s1 = Some s2" "foldM Drop part (gs_heap s2) = Some h3" "op_of h3 (last part) = Some (cleared op0)"
    "RerouteTensorsThroughCustomOp root (last part)
      (s2\<lparr>gs_heap := set_op (last part) (MakeDispatchOp (cleared op0)) h3\<rparr>) = Some s4" and
    r: "routed root (last part) (entering h part) (leaving h root part)
      (s2\<lparr>gs_heap := set_op (last part) (MakeDispatchOp (cleared op0)) h3\<rparr>) (keys_of (gs_map s2)) s4" and
    cp: "copying h s2" "slice_io h (defined_in h part) s2" "list_all2 (copied h s2) part (g_ops (gs_slice s2))"
      "dom (lookup (gs_map s2)) = read_in h part \<union> defined_in h part" and
    base: "let hb = set_op (last part) (MakeDispatchOp (cleared op0)) h3 in
      well_linked hb root \<and> same_contents (gs_heap s2) hb \<and>
      (\<forall>k. op_of hb k = (if k = last part then Some (MakeDispatchOp (cleared op0))
         else if k \<in> set part then map_option cleared (op_of (gs_heap s2) k) else op_of (gs_heap s2) k)) \<and>
      (\<forall>t \<in> set (g_tensors root). uses hb t = filter (\<lambda>u. fst u \<notin> set part) (uses h t) \<and>
         definer hb t = (if t \<in> defined_in h part then None else definer h t)) \<and>
      (\<forall>t. t \<notin> set (g_tensors root) \<longrightarrow> tensor_of hb t = tensor_of (gs_heap s2) t)" by blast
  define hb where "hb = set_op (last part) (MakeDispatchOp (cleared op0)) h3"
  note hbD = base [unfolded hb_def [symmetric] Let_def] and r = r [folded hb_def]
  obtain root' h' where sw: "swept root (gs_heap s4) = (root', h')" by (cases "swept root (gs_heap s4)")
  have "well_linked (gs_heap s4) root" using r by (simp add: routed_def)
  then have "SlicePartitionFromGraph root empty_graph part h = Some (last part, gs_slice s4, root', h')"
    using run o(3) DCE_effect [of "gs_heap s4" root] sw by (simp add: SlicePartitionFromGraph_def)
  moreover have kb: "\<forall>k. k \<notin> set part \<longrightarrow> op_of hb k = op_of (gs_heap s2) k" using hbD o(3) by auto
  then have "sliced_off h root part (\<lambda>t. the (lookup (gs_map s2) t)) (filter (entering h part) (keys_of (gs_map s2)))
    (filter (leaving h root part) (keys_of (gs_map s2))) (gs_slice s4) h'"
    using hbD by (intro routed_slice [OF pr o(2,3) cp r _ _ sw]) auto
  moreover have "left_over h root part (filter (entering h part) (keys_of (gs_map s2)))
    (filter (leaving h root part) (keys_of (gs_map s2))) root' h'"
    using hbD by (intro routed_root [OF pr o(2,3) op0 cp(1,4) r _ _ _ sw]) auto
  moreover have "others_kept h root (gs_slice s4) h'"
  proof -
    note fr = swept_frame [OF sw] and sD = copyingD [OF cp(1)]
    have sc: "same_contents (gs_heap s2) (gs_heap s4)"
      using r hbD by (auto simp: routed_def intro: same_contents_trans)
    have "op_of (gs_heap s4) k = op_of (gs_heap s2) k" if "k \<notin> set (g_ops root)" for k
    proof -
      have "k \<noteq> last part" "k \<notin> set part" using that o(2) d by auto
      then show ?thesis using r kb by (simp add: routed_def)
    qed
    moreover have "tensor_of (gs_heap s4) t = tensor_of (gs_heap s2) t" if "t \<notin> set (g_tensors root)" for t
      using r hbD that by (simp add: routed_def)
    moreover have "fresh_heap h'" using fr(3) same_contents_fresh [OF sc sD(2)] by simp
    moreover have "gs_slice s4 = (gs_slice s2)\<lparr>g_outputs := g_outputs (gs_slice s4)\<rparr>" using r by (simp add: routed_def)
    then have "g_tensors (gs_slice s4) = g_tensors (gs_slice s2)" "g_ops (gs_slice s4) = g_ops (gs_slice s2)"
      by (metis ir_graph.select_convs(1,2) ir_graph.surjective ir_graph.update_convs(4))+
    ultimately show ?thesis
      using fr(1,2,4,5) sD(4-8) sc by (simp add: others_kept_def untouched_def same_contents_def)
  qed
  ultimately show ?thesis by blast
qed

text \<open>C5: Outlining a non-empty partition of a plain, well-linked root, listed in an order in which it can execute, returns.
  The new subgraph is well linked and holds a clone of each operation of the partition, in order: the same code, options
  and custom options, but no custom code (\<open>CloneTo\<close> does not copy it), on the clones of the operands and results under
  an injective renaming of tensors. Its inputs and outputs are, position by position, the clones of the operands and
  results of the dispatch operation, which are exactly the tensors that cross the border. The root stays well linked,
  keeps its inputs, outputs and other live operations in order, and has the dispatch operation in the place of the
  partition's last operation, unless no tensor crosses the border: then the dispatch operation is dead and is freed.
  Objects of other subgraphs are not touched.\<close>

theorem SlicePartitionFromGraph_outlines:
  assumes pr: "plain_root h root" and o: "in_order h part" "set part \<subseteq> set (g_ops root)" "part \<noteq> []"
  shows "\<exists>sl root' h' m is os. SlicePartitionFromGraph root empty_graph part h = Some (last part, sl, root', h') \<and>
    sliced_off h root part m is os sl h' \<and> left_over h root part is os root' h' \<and> others_kept h root sl h'"
  by (rule outline_one [OF assms])

lemma chain_plain: "plain_root chain_heap chain_graph"
proof -
  have "fresh_heap chain_heap" by (simp add: fresh_heap_def chain_heap_eval) (simp add: chain_heap_def heap_of_def chain_tensors_def chain_ops_def)
  moreover have "\<exists>tt c. tensor_of chain_heap t = Some tt \<and> IsConstant tt = Some c \<and>
      (c \<longrightarrow> defining_op tt = None \<and> t \<notin> set (g_inputs chain_graph) \<union> set (g_outputs chain_graph))"
    if "t \<in> set (g_tensors chain_graph)" for t
    using that unfolding chain_heap_eval
    by (auto simp: chain_tensors_def plain_tensor_def IsConstant_def)
  moreover have "definer chain_heap 0 = None" by (simp add: definer_def chain_heap_eval) (simp add: chain_tensors_def plain_tensor_def)
  ultimately show ?thesis using chain_linked by (auto simp: plain_root_def)
qed

lemma chain_links:
  "operands chain_heap k = (if k < 3 then {k} else {})" "results chain_heap k = (if k < 3 then {Suc k} else {})"
  by (auto simp: operands_def results_def ins_def outs_def chain_heap_eval plain_op_def)

lemma chain_in_order: "in_order chain_heap [0, 1, 2]"
  by (simp add: in_order_def chain_links)

theorem SlicePartitionFromGraph_outlines_witness:
  "case SlicePartitionFromGraph chain_graph empty_graph [0, 1] chain_heap of
     None \<Rightarrow> False | Some (d, sl, root', h') \<Rightarrow> d = 1 \<and> well_linked h' root' \<and> well_linked h' sl \<and> length (g_ops sl) = 2"
proof -
  have "in_order chain_heap [0, 1]" by (simp add: in_order_def chain_links)
  moreover have "set [0, 1] \<subseteq> set (g_ops chain_graph)" by auto
  ultimately show ?thesis
    using SlicePartitionFromGraph_outlines [OF chain_plain, of "[0, 1]"]
    by (fastforce simp: sliced_off_def left_over_def dest: list_all2_lengthD)
qed

end
