(* ===== verification/GroupingCorrect.thy ===== *)
theory GroupingCorrect
  imports PluginAlgo GraphIRCorrect
begin

text \<open>
  The two grouping strategies of the compiler plugins: runs of the execution order with one index,
  and connected components of the operations of one index.
\<close>

section \<open>Runs\<close>

text \<open>The reference definition: the maximal runs of equal index, with their index.\<close>

fun runs :: "('o \<times> 'i) list \<Rightarrow> ('i \<times> 'o list) list" where
  "runs [] = []"
| "runs ((op, i) # xs) =
     (case runs xs of
        [] \<Rightarrow> [(i, [op])]
      | (j, os) # rs \<Rightarrow> if i = j then (i, op # os) # rs else (i, [op]) # (j, os) # rs)"

definition open_runs :: "'i \<Rightarrow> 'o list \<Rightarrow> ('o \<times> 'i) list \<Rightarrow> ('i \<times> 'o list) list" where
  "open_runs ci cur xs =
     (case runs xs of
        [] \<Rightarrow> [(ci, cur)]
      | (j, os) # rs \<Rightarrow> if j = ci then (ci, cur @ os) # rs else (ci, cur) # (j, os) # rs)"

lemma runs_nonempty: "(i, os) \<in> set (runs xs) \<Longrightarrow> os \<noteq> []"
  by (induction xs rule: runs.induct) (auto split: list.splits if_splits)

lemma runs_Cons: "\<exists>os rs. runs ((op, i) # xs) = (i, op # os) # rs"
  by (auto split: list.splits)

lemma open_runs_Cons:
  "open_runs ci cur ((op, i) # xs) =
     (if i = ci then open_runs ci (cur @ [op]) xs else (ci, cur) # open_runs i [op] xs)"
  by (auto simp: open_runs_def split: list.splits)

definition closed :: "nat list list \<times> nat list \<times> size_t \<Rightarrow> nat list list" where
  "closed = (\<lambda>(ps, cur, ci). if cur \<noteq> [] then ps @ [cur] else ps)"

definition selected_runs :: "'i \<Rightarrow> ('i \<times> 'o list) list \<Rightarrow> 'o list list" where
  "selected_runs u rs = map snd (filter (\<lambda>r. fst r \<noteq> u \<and> snd r \<noteq> []) rs)"

lemma run_step_fold:
  assumes "ci = u \<Longrightarrow> cur = []"
  shows "closed (fold (run_step u) xs (ps, cur, ci)) = ps @ selected_runs u (open_runs ci cur xs)"
  using assms
proof (induction xs arbitrary: ps cur ci)
  case Nil
  then show ?case by (auto simp: closed_def selected_runs_def open_runs_def)
next
  case (Cons x xs)
  obtain op i where x: "x = (op, i)" by (cases x)
  show ?case
  proof (cases "i = ci")
    case True
    show ?thesis
    proof (cases "ci = u")
      case True': True
      with Cons.prems have "cur = []" by simp
      with Cons.IH [of ci "[]" ps] True True' show ?thesis
        by (auto simp: x run_step_def open_runs_Cons) (auto simp: open_runs_def selected_runs_def split: list.splits)
    next
      case False
      with Cons.IH [of ci "cur @ [op]" ps] True show ?thesis
        by (simp add: x run_step_def open_runs_Cons)
    qed
  next
    case False
    have s: "selected_runs u ((ci, cur) # rs) = (if ci \<noteq> u \<and> cur \<noteq> [] then [cur] else []) @ selected_runs u rs" for rs
      by (simp add: selected_runs_def)
    show ?thesis
    proof (cases "i = u")
      case True
      with Cons.IH [of i "[]" "if cur \<noteq> [] then ps @ [cur] else ps"] False Cons.prems show ?thesis
        by (auto simp: x run_step_def open_runs_Cons s)
          (auto simp: open_runs_def selected_runs_def split: list.splits)
    next
      case False': False
      with Cons.IH [of i "[op]" "if cur \<noteq> [] then ps @ [cur] else ps"] False Cons.prems show ?thesis
        by (auto simp: x run_step_def open_runs_Cons s)
    qed
  qed
qed

lemma V2_runs:
  "GetPartitionsFromFlatListV2 sel g =
     map snd (filter (\<lambda>r. fst r \<noteq> unselected_ops_partition_index sel) (runs (sorted_ops sel (g_ops g))))"
proof (cases "sorted_ops sel (g_ops g)")
  case Nil
  then show ?thesis by (simp add: GetPartitionsFromFlatListV2_def sorted_ops_def)
next
  case (Cons x xs)
  obtain op i where x: "x = (op, i)" by (cases x)
  from Cons have ne: "g_ops g \<noteq> []" by (auto simp: sorted_ops_def)
  have "GetPartitionsFromFlatListV2 sel g =
      closed (fold (run_step (unselected_ops_partition_index sel)) (x # xs) ([], [], i))"
    using ne by (simp add: GetPartitionsFromFlatListV2_def Cons x closed_def Let_def split: prod.splits)
  also have "\<dots> = selected_runs (unselected_ops_partition_index sel) (open_runs i [] (x # xs))"
    using run_step_fold [of i "unselected_ops_partition_index sel" "[]" "x # xs" "[]"] by simp
  also have "open_runs i [] (x # xs) = runs (x # xs)"
    using runs_Cons [of op i xs] by (auto simp: open_runs_def x)
  finally show ?thesis
    using runs_nonempty by (fastforce simp: Cons selected_runs_def intro!: arg_cong [where f = "map snd"] filter_cong)
qed

text \<open>What the runs are.\<close>

lemma concat_runs: "concat (map snd (runs xs)) = map fst xs"
  by (induction xs rule: runs.induct) (auto split: list.splits if_splits)

lemma runs_uniform: "(i, os) \<in> set (runs xs) \<Longrightarrow> op \<in> set os \<Longrightarrow> (op, i) \<in> set xs"
  by (induction xs arbitrary: i os rule: runs.induct) (auto split: list.splits if_splits, blast)

lemma runs_maximal: "runs xs = rs1 @ (i, os) # (j, os') # rs2 \<Longrightarrow> i \<noteq> j"
proof (induction xs arbitrary: rs1 i os j os' rs2 rule: runs.induct)
  case (2 op k xs)
  show ?case
  proof (cases "runs xs")
    case Nil
    with "2.prems" show ?thesis by (cases rs1) auto
  next
    case (Cons r rs)
    obtain j0 os0 where r: "r = (j0, os0)" by (cases r)
    show ?thesis
    proof (cases rs1)
      case Nil
      with "2.prems" Cons r "2.IH" [of "[]" j0 os0 j os' rs2] show ?thesis
        by (auto split: if_splits)
    next
      case (Cons r1 rs1')
      with "2.prems" \<open>runs xs = r # rs\<close> r "2.IH" [of "(j0, os0) # rs1'" i os j os' rs2]
        "2.IH" [of rs1' i os j os' rs2]
      show ?thesis by (auto split: if_splits)
    qed
  qed
qed simp

lemma concat_filter_runs:
  "concat (map snd (filter (\<lambda>r. P (fst r)) (runs xs))) = map fst (filter (\<lambda>x. P (snd x)) xs)"
  by (induction xs rule: runs.induct) (auto split: list.splits if_splits)

lemma segment_concat:
  "p \<in> set ps \<Longrightarrow> \<exists>us vs. concat ps = us @ p @ vs"
  by (metis append_assoc concat.simps(2) concat_append split_list)

lemma max_index:
  "\<forall>op \<in> set sel. snd op \<le> fold (\<lambda>op m. if snd op > m then snd op else m) sel (m0 :: size_t)"
  "m0 \<le> fold (\<lambda>op m. if snd op > m then snd op else m) sel m0"
proof (induction sel arbitrary: m0)
  case (Cons x sel)
  { case 1 with Cons [of "if snd x > m0 then snd x else m0"] show ?case by fastforce }
  { case 2 with Cons [of "if snd x > m0 then snd x else m0"] show ?case by (auto split: if_splits) }
qed auto

lemma unselected_fresh:
  assumes "\<forall>op \<in> set sel. snd op \<noteq> size_max" and "op \<in> set sel"
  shows "snd op \<noteq> unselected_ops_partition_index sel"
proof -
  let ?m = "fold (\<lambda>op m. if snd op > m then snd op else m) sel (0 :: size_t)"
  have "?m \<in> insert 0 (snd ` set sel)"
  proof -
    have "fold (\<lambda>op m. if snd op > m then snd op else m) sel (m0 :: size_t) \<in> insert m0 (snd ` set sel)" for m0
      by (induction sel arbitrary: m0) auto
    then show ?thesis .
  qed
  with assms(1) have "?m \<noteq> size_max" by auto
  then have "1 + ?m \<noteq> 0" unfolding add.commute [of 1] eq_neg_iff_add_eq_0 [symmetric] .
  then have "unat (1 + ?m) = Suc (unat ?m)" by (rule unatSuc)
  then have "?m < ?m + 1" by (simp add: word_less_unat add.commute)
  moreover have "snd op \<le> ?m" using max_index(1) assms(2) by blast
  ultimately show ?thesis by (auto simp: unselected_ops_partition_index_def)
qed

lemma V2_segments:
  assumes "\<forall>op \<in> set sel. snd op \<noteq> size_max"
  shows "concat (GetPartitionsFromFlatListV2 sel g) = filter (\<lambda>op. op \<in> fst ` set sel) (g_ops g) \<and>
    (\<forall>part \<in> set (GetPartitionsFromFlatListV2 sel g). part \<noteq> [] \<and>
       (\<exists>us vs. g_ops g = us @ part @ vs) \<and>
       (\<exists>ind. \<forall>op \<in> set part. op_to_partition_index sel op = Some ind))"
proof -
  let ?u = "unselected_ops_partition_index sel"
  let ?xs = "sorted_ops sel (g_ops g)"
  have xs: "?xs = map (\<lambda>op. (op, case op_to_partition_index sel op of None \<Rightarrow> ?u | Some ind \<Rightarrow> ind)) (g_ops g)"
    by (auto simp: sorted_ops_def split: option.splits)
  then have ops: "map fst ?xs = g_ops g" by (simp add: comp_def)
  have idx: "(case op_to_partition_index sel op of None \<Rightarrow> ?u | Some ind \<Rightarrow> ind) \<noteq> ?u \<longleftrightarrow> op \<in> fst ` set sel" for op
  proof (cases "op_to_partition_index sel op")
    case None
    then have "op \<notin> fst ` set sel" by (simp add: op_to_partition_index_def map_of_eq_None_iff)
    with None show ?thesis by simp
  next
    case (Some ind)
    then have "(op, ind) \<in> set sel" by (auto simp: op_to_partition_index_def dest: map_of_SomeD)
    with unselected_fresh [OF assms this] Some show ?thesis by force
  qed
  have "concat (GetPartitionsFromFlatListV2 sel g) = map fst (filter (\<lambda>x. snd x \<noteq> ?u) ?xs)"
    by (simp add: V2_runs concat_filter_runs [where P = "\<lambda>i. i \<noteq> ?u"])
  also have "\<dots> = filter (\<lambda>op. op \<in> fst ` set sel) (g_ops g)"
    by (simp add: xs filter_map comp_def idx)
  finally have c: "concat (GetPartitionsFromFlatListV2 sel g) = filter (\<lambda>op. op \<in> fst ` set sel) (g_ops g)" .
  have "part \<noteq> [] \<and> (\<exists>us vs. g_ops g = us @ part @ vs) \<and>
      (\<exists>ind. \<forall>op \<in> set part. op_to_partition_index sel op = Some ind)"
    if "part \<in> set (GetPartitionsFromFlatListV2 sel g)" for part
  proof -
    from that obtain i where r: "(i, part) \<in> set (runs ?xs)" "i \<noteq> ?u"
      by (auto simp: V2_runs)
    have "\<exists>us vs. g_ops g = us @ part @ vs"
      using segment_concat [of part "map snd (runs ?xs)"] r(1) by (force simp: concat_runs ops)
    moreover have "op_to_partition_index sel op = Some i" if "op \<in> set part" for op
      using runs_uniform [OF r(1) that] r(2) by (auto simp: sorted_ops_def split: option.splits)
    ultimately show ?thesis using runs_nonempty [OF r(1)] by blast
  qed
  with c show ?thesis by blast
qed

text \<open>Runs under another naming of the labels.\<close>

lemma runs_relabel:
  assumes "inj_on f (snd ` set xs)"
  shows "runs (map (\<lambda>(op, l). (op, f l)) xs) = map (\<lambda>(l, ops). (f l, ops)) (runs xs)"
  using assms
proof (induction xs rule: runs.induct)
  case (2 op l xs)
  have IH: "runs (map (\<lambda>(op, l). (op, f l)) xs) = map (\<lambda>(l, ops). (f l, ops)) (runs xs)"
    using 2 by (auto simp: inj_on_def)
  show ?case
  proof (cases "runs xs")
    case (Cons r rs)
    obtain l' ops where r: "r = (l', ops)" by (cases r)
    then have "(l', ops) \<in> set (runs xs)" using Cons by simp
    moreover from this have "ops \<noteq> []" by (rule runs_nonempty)
    ultimately have "(hd ops, l') \<in> set xs" by (intro runs_uniform [of l' ops]) simp_all
    then have "l' \<in> snd ` set xs" by force
    then have "f l = f l' \<longleftrightarrow> l = l'" using 2(2) by (auto simp: inj_on_def)
    then show ?thesis using IH Cons r by simp
  qed (use IH in simp)
qed simp

text \<open>C18: Grouping by execution order is the reference definition of runs. An operation of the subgraph has the label
  that the last entry of the selection gives it, or none; the sequence of the operations is split into its maximal
  runs of one label, and the runs of labelled operations are returned in order. The largest index of 64 bits is
  excluded: the code computes the index for unselected operations as the maximum plus one, which wraps around for it
  (lemma \<open>V2_largest_index\<close>).\<close>

theorem GetPartitionsFromFlatListV2_runs:
  assumes "\<forall>(op, index) \<in> set sel. index \<noteq> size_max"
  shows "GetPartitionsFromFlatListV2 sel g =
     map snd (filter (\<lambda>(label, ops). label \<noteq> None) (runs (map (\<lambda>op. (op, map_of (rev sel) op)) (g_ops g))))"
proof -
  let ?u = "unselected_ops_partition_index sel" and ?xs = "map (\<lambda>op. (op, map_of (rev sel) op)) (g_ops g)"
  define f where "f = case_option ?u id"
  have fresh: "index \<noteq> ?u" if "map_of (rev sel) op = Some index" for op index
  proof -
    have "(op, index) \<in> set sel" using map_of_SomeD [OF that] by simp
    moreover have "\<forall>x \<in> set sel. snd x \<noteq> size_max" using assms by auto
    ultimately show ?thesis using unselected_fresh [of sel "(op, index)"] by simp
  qed
  have inj: "inj_on f (snd ` set ?xs)"
  proof (rule inj_onI)
    fix l l' assume l: "l \<in> snd ` set ?xs" "l' \<in> snd ` set ?xs" "f l = f l'"
    then obtain op op' where o': "l = map_of (rev sel) op" "l' = map_of (rev sel) op'" by auto
    have "a \<noteq> ?u" if "l = Some a" for a by (rule fresh [of op]) (use o' that in simp)
    moreover have "a \<noteq> ?u" if "l' = Some a" for a by (rule fresh [of op']) (use o' that in simp)
    ultimately show "l = l'" using l(3) by (cases l; cases l') (auto simp: f_def)
  qed
  have "sorted_ops sel (g_ops g) = map (\<lambda>(op, l). (op, f l)) ?xs"
    by (auto simp: sorted_ops_def op_to_partition_index_def f_def split: option.splits)
  then have "GetPartitionsFromFlatListV2 sel g =
      map snd (filter (\<lambda>r. fst r \<noteq> ?u) (map (\<lambda>(l, ops). (f l, ops)) (runs ?xs)))"
    using runs_relabel [OF inj] by (simp add: V2_runs)
  also have "\<dots> = map snd (filter (\<lambda>r. f (fst r) \<noteq> ?u) (runs ?xs))"
    by (simp add: filter_map comp_def case_prod_beta)
  also have "filter (\<lambda>r. f (fst r) \<noteq> ?u) (runs ?xs) = filter (\<lambda>(label, ops). label \<noteq> None) (runs ?xs)"
  proof (rule filter_cong [OF refl])
    fix r assume r: "r \<in> set (runs ?xs)"
    obtain l ops where lo: "r = (l, ops)" by (cases r)
    with r have lr: "(l, ops) \<in> set (runs ?xs)" by simp
    then have "ops \<noteq> []" by (rule runs_nonempty)
    then have "(hd ops, l) \<in> set ?xs" by (intro runs_uniform [OF lr]) simp
    then obtain op where "(op, l) \<in> set ?xs" by blast
    then have l: "l = map_of (rev sel) op" by fastforce
    have "a \<noteq> ?u" if "l = Some a" for a by (rule fresh [of op]) (use l that in simp)
    then have "f l \<noteq> ?u \<longleftrightarrow> l \<noteq> None" by (cases l) (simp_all add: f_def)
    then show "(f (fst r) \<noteq> ?u) = (case r of (label, ops) \<Rightarrow> label \<noteq> None)" by (simp add: lo)
  qed
  finally show ?thesis .
qed

text \<open>Two labels in a sequence of six operations, the first of them twice; the last entry for an operation counts.\<close>

theorem GetPartitionsFromFlatListV2_runs_witness:
  "GetPartitionsFromFlatListV2 [(10, 3), (11, 4), (13, 4), (14, 3), (15, 3), (11, 3)]
     (empty_graph\<lparr>g_ops := [10, 11, 12, 13, 14, 15]\<rparr>) = [[10, 11], [13], [14, 15]]"
  by (subst GetPartitionsFromFlatListV2_runs) simp_all

text \<open>With the largest index the operations of index 0 count as unselected and are lost.\<close>

lemma V2_largest_index:
  "GetPartitionsFromFlatListV2 [(10, 0), (11, size_max)] (empty_graph\<lparr>g_ops := [10, 11]\<rparr>) = [[11]]"
proof -
  have "(0 :: size_t) < size_max" by (simp add: word_less_nat_alt unat_size_max)
  then show ?thesis
    by (simp add: GetPartitionsFromFlatListV2_def unselected_ops_partition_index_def sorted_ops_def op_to_partition_index_def
        run_step_def Let_def)
qed

end
