(* ===== verification/OutlineSemantics.thy ===== *)
theory OutlineSemantics
  imports OutlinePartition GroupingCorrect
begin

text \<open>
  Outlining keeps the meaning of the root: when the dispatch operation runs the slice, the outlined
  root computes what the root computed.
\<close>

section \<open>Executing a subgraph\<close>

text \<open>
  \<open>sem\<close> gives the results of an operation, from its attributes and the values of its operands; \<open>disp\<close>
  gives those of an operation that dispatches compiled code; \<open>wt\<close> is the value of a constant.
\<close>

type_synonym 'v op_sem = "LiteRtOpT \<Rightarrow> 'v option list \<Rightarrow> nat \<Rightarrow> 'v"

definition op_fun :: "'v op_sem \<Rightarrow> (nat \<Rightarrow> ('v option list \<Rightarrow> nat \<Rightarrow> 'v) option) \<Rightarrow> ir_heap \<Rightarrow> nat \<Rightarrow> 'v option list \<Rightarrow> nat \<Rightarrow> 'v" where
  "op_fun sem disp h k = (case disp k of Some f \<Rightarrow> f | None \<Rightarrow> sem (cleared (the (op_of h k))))"

definition exec_op :: "'v op_sem \<Rightarrow> (nat \<Rightarrow> ('v option list \<Rightarrow> nat \<Rightarrow> 'v) option) \<Rightarrow> ir_heap \<Rightarrow> nat \<Rightarrow> (nat \<Rightarrow> 'v) \<Rightarrow> nat \<Rightarrow> 'v" where
  "exec_op sem disp h k env = (\<lambda>t. case FindInd (outs h k) (Some t) of
     None \<Rightarrow> env t | Some j \<Rightarrow> op_fun sem disp h k (map (map_option env) (ins h k)) j)"

definition with_constants :: "(LiteRtTensorT \<Rightarrow> 'v) \<Rightarrow> ir_heap \<Rightarrow> ir_graph \<Rightarrow> (nat \<Rightarrow> 'v) \<Rightarrow> nat \<Rightarrow> 'v" where
  "with_constants wt h g env = (\<lambda>t. if t \<in> set (g_tensors g) \<and> const_in h t then wt (clone_tensor (the (tensor_of h t))) else env t)"

definition exec_graph :: "'v op_sem \<Rightarrow> (nat \<Rightarrow> ('v option list \<Rightarrow> nat \<Rightarrow> 'v) option) \<Rightarrow> (LiteRtTensorT \<Rightarrow> 'v) \<Rightarrow>
    ir_heap \<Rightarrow> ir_graph \<Rightarrow> (nat \<Rightarrow> 'v) \<Rightarrow> nat \<Rightarrow> 'v" where
  "exec_graph sem disp wt h g env = fold (exec_op sem disp h) (g_ops g) (with_constants wt h g env)"

text \<open>A subgraph as a function from the values of its inputs to those of its outputs.\<close>

definition graph_fun :: "'v op_sem \<Rightarrow> (LiteRtTensorT \<Rightarrow> 'v) \<Rightarrow> ir_heap \<Rightarrow> ir_graph \<Rightarrow> 'v option list \<Rightarrow> nat \<Rightarrow> 'v" where
  "graph_fun sem wt h g vs j =
     exec_graph sem (\<lambda>_. None) wt h g
       (\<lambda>t. case FindInd (g_inputs g) t of None \<Rightarrow> undefined | Some i \<Rightarrow> the (vs ! i)) (g_outputs g ! j)"

section \<open>Positions\<close>

lemma FindInd_SomeD: "FindInd xs v = Some j \<Longrightarrow> j < length xs \<and> xs ! j = v"
proof -
  assume *: "FindInd xs v = Some j"
  then have j: "j = length (takeWhile (\<lambda>x. x \<noteq> v) xs)" "j \<noteq> length xs"
    by (auto simp: FindInd_def Let_def split: if_splits)
  then have l: "j < length xs" using length_takeWhile_le [of "\<lambda>x. x \<noteq> v" xs] by linarith
  with nth_length_takeWhile [of "\<lambda>x. x \<noteq> v" xs] j(1) show ?thesis by auto
qed

lemma FindInd_map: "inj_on f (insert v (set xs)) \<Longrightarrow> FindInd (map f xs) (f v) = FindInd xs v"
proof -
  assume i: "inj_on f (insert v (set xs))"
  have "length (takeWhile (\<lambda>x. x \<noteq> f v) (map f xs)) = length (takeWhile (\<lambda>x. x \<noteq> v) xs)"
    using i by (induction xs) (auto simp: inj_on_def)
  then show ?thesis by (simp add: FindInd_def Let_def)
qed

lemma FindInd_Some: "v \<in> set xs \<Longrightarrow> \<exists>j. FindInd xs v = Some j \<and> j < length xs \<and> xs ! j = v"
  using FindInd_SomeD FindInd_None_iff by (metis option.exhaust)

section \<open>Facts on execution\<close>

lemma exec_op_other: "t \<notin> results h k \<Longrightarrow> exec_op sem disp h k env t = env t"
  by (simp add: exec_op_def results_def FindInd_None_iff [THEN iffD2])

lemma exec_ops_other: "t \<notin> defined_in h ks \<Longrightarrow> fold (exec_op sem disp h) ks env t = env t"
  by (induction ks arbitrary: env) (simp_all add: defined_in_def exec_op_other)

lemma exec_op_dead: "dead_op h k \<Longrightarrow> exec_op sem disp h k env = env"
  by (auto simp: dead_op_def exec_op_def FindInd_def)

text \<open>One operation in two states: it reads and writes within the tensors on which they agree.\<close>

lemma exec_op_agree:
  assumes "\<forall>t \<in> A. env t = env' t" "op_fun sem disp h k = op_fun sem disp' h' k" "ins h' k = ins h k" "outs h' k = outs h k"
    and "operands h k \<subseteq> A"
  shows "\<forall>t \<in> A. exec_op sem disp h k env t = exec_op sem disp' h' k env' t"
proof -
  have args: "map (map_option env) (ins h k) = map (map_option env') (ins h k)"
  proof (rule map_cong [OF refl])
    fix p assume "p \<in> set (ins h k)"
    with assms(1,5) show "map_option env p = map_option env' p" by (cases p) (auto simp: operands_def)
  qed
  show ?thesis
    unfolding exec_op_def assms(2-4) args using assms(1) by (simp split: option.split)
qed

lemma exec_ops_agree:
  assumes "\<forall>t \<in> A. env t = env' t"
    and "\<forall>k \<in> set ks. if live k then op_fun sem disp h k = op_fun sem disp' h' k \<and> ins h' k = ins h k \<and>
      outs h' k = outs h k \<and> operands h k \<subseteq> A else dead_op h k"
  shows "\<forall>t \<in> A. fold (exec_op sem disp h) ks env t = fold (exec_op sem disp' h') (filter live ks) env' t"
  using assms
proof (induction ks arbitrary: env env')
  case (Cons k ks)
  show ?case
  proof (cases "live k")
    case True
    with Cons.prems(2) have "op_fun sem disp h k = op_fun sem disp' h' k \<and> ins h' k = ins h k \<and>
      outs h' k = outs h k \<and> operands h k \<subseteq> A" by simp
    with exec_op_agree [OF Cons.prems(1)] have "\<forall>t \<in> A. exec_op sem disp h k env t = exec_op sem disp' h' k env' t"
      by blast
    with Cons.IH [OF this] Cons.prems(2) True show ?thesis by simp
  next
    case False
    with Cons.prems(2) have "dead_op h k" by simp
    with Cons False show ?thesis by (simp add: exec_op_dead)
  qed
qed simp

section \<open>The slice runs the partition\<close>

text \<open>The clones in a slice have no custom code, whatever the operations had.\<close>

lemma slice_loses_custom_code:
  assumes "sliced_off h root part m is os sl h'" and "n \<in> set (g_ops sl)"
  shows "\<exists>op. op_of h' n = Some op \<and> custom_code op = []"
proof -
  have "list_all2 (copy_of h h' m) part (g_ops sl)" using assms(1) by (simp add: sliced_off_def)
  then obtain k where "copy_of h h' m k n" using assms(2) by (metis in_set_conv_nth list_all2_conv_all_nth)
  then show ?thesis by (auto simp: copy_of_def clone_op_def)
qed

lemma copy_of_links:
  assumes "copy_of h h' m k n"
  shows "ins h' n = map (map_option m) (ins h k)" "outs h' n = map (map_option m) (outs h k)"
    "op_of h k = Some op \<Longrightarrow> custom_code op = [] \<Longrightarrow> cleared (the (op_of h' n)) = cleared op"
  using assms by (auto simp: copy_of_def cleared_def clone_op_def)

lemma exec_op_copy:
  assumes c: "copy_of h h' m k n" "disp k = None" "disp' n = None" and cc: "custom_code (the (op_of h k)) = []"
    and m: "inj_on m T" "operands h k \<subseteq> K" "K \<subseteq> T" "results h k \<subseteq> T"
    and e: "\<forall>t \<in> K. senv (m t) = env t"
  shows "\<forall>t \<in> K \<union> results h k. exec_op sem disp' h' n senv (m t) = exec_op sem disp h k env t"
proof
  fix t assume t: "t \<in> K \<union> results h k"
  note cl = copy_of_links [OF c(1)]
  from c(1) obtain op where op: "op_of h k = Some op" by (auto simp: copy_of_def)
  have args: "map (map_option senv) (ins h' n) = map (map_option env) (ins h k)"
    unfolding cl(1) map_map
  proof (rule map_cong [OF refl])
    fix p assume "p \<in> set (ins h k)"
    with m(2) e show "(map_option senv \<circ> map_option m) p = map_option env p"
      by (cases p) (auto simp: operands_def)
  qed
  have "op_fun sem disp' h' n = op_fun sem disp h k"
    using cl(3) [OF op] cc op c(2,3) by (simp add: op_fun_def)
  moreover have "FindInd (outs h' n) (Some (m t)) = FindInd (outs h k) (Some t)"
  proof -
    have sub: "insert (Some t) (set (outs h k)) \<subseteq> insert None (Some ` T)"
    proof
      fix p assume "p \<in> insert (Some t) (set (outs h k))"
      with t m(3,4) show "p \<in> insert None (Some ` T)" by (cases p) (auto simp: results_def)
    qed
    have "inj_on (map_option m) (insert None (Some ` T))" using m(1) by (auto simp: inj_on_def)
    from FindInd_map [OF inj_on_subset [OF this sub]] show ?thesis by (simp add: cl(2))
  qed
  moreover have "senv (m t) = env t" if "FindInd (outs h k) (Some t) = None"
    using that t e by (auto simp: FindInd_None_iff results_def)
  ultimately show "exec_op sem disp' h' n senv (m t) = exec_op sem disp h k env t"
    by (simp add: exec_op_def args split: option.splits)
qed

text \<open>What may be read before the operations of \<open>ks\<close> run: everything they do not define.\<close>

lemma exec_slice:
  assumes "list_all2 (copy_of h h' m) ks ns" "\<forall>k \<in> set ks. disp k = None \<and> custom_code (the (op_of h k)) = []"
    and "inj_on m T" "read_in h ks \<union> defined_in h ks \<subseteq> T" "in_order h ks"
    and "\<forall>t \<in> T - defined_in h ks. senv (m t) = env t"
  shows "\<forall>t \<in> T. fold (exec_op sem (\<lambda>_. None) h') ns senv (m t) = fold (exec_op sem disp h) ks env t"
  using assms
proof (induction ks ns arbitrary: senv env rule: list_all2_induct)
  case Nil
  then show ?case by (simp add: defined_in_def)
next
  case (Cons k ks n ns)
  have o: "in_order h ks" "results h k \<inter> operands h k = {}" "\<forall>k' \<in> set ks. results h k' \<inter> operands h k = {}"
    using Cons.prems(4) by (auto simp: in_order_def)
  have "operands h k \<subseteq> T - defined_in h (k # ks)"
    using o(2,3) Cons.prems(3) by (auto simp: defined_in_def read_in_def)
  moreover have "results h k \<subseteq> T" using Cons.prems(3) by (auto simp: defined_in_def)
  ultimately have "\<forall>t \<in> T - defined_in h (k # ks) \<union> results h k.
      exec_op sem (\<lambda>_. None) h' n senv (m t) = exec_op sem disp h k env t"
    using Cons.prems(1,5) by (intro exec_op_copy [OF Cons.hyps(1) _ _ _ Cons.prems(2)]) auto
  then have "\<forall>t \<in> T - defined_in h ks. exec_op sem (\<lambda>_. None) h' n senv (m t) = exec_op sem disp h k env t"
    by (auto simp: defined_in_def)
  moreover have "read_in h ks \<union> defined_in h ks \<subseteq> T" using Cons.prems(3) by (auto simp: defined_in_def read_in_def)
  ultimately show ?case using Cons.IH [OF _ Cons.prems(2) _ o(1)] Cons.prems(1) by simp
qed

section \<open>Outlining keeps the meaning\<close>

lemma sliced_offD:
  assumes "sliced_off h root part m is os sl h'"
  shows "inj_on m (read_in h part \<union> defined_in h part)" "distinct is" "t \<in> set is \<longleftrightarrow> entering h part t"
    "distinct os" "t \<in> set os \<longleftrightarrow> leaving h root part t" "g_inputs sl = map m is" "g_outputs sl = map m os"
    "list_all2 (copy_of h h' m) part (g_ops sl)"
    "t \<in> read_in h part \<union> defined_in h part \<Longrightarrow> is_clone h h' t (m t)" "well_linked h' sl"
    "t \<in> read_in h part \<union> defined_in h part \<Longrightarrow> m t \<in> set (g_tensors sl)"
  using assms by (simp_all add: sliced_off_def)

lemma const_in_clone:
  assumes "map_option clone_tensor (tensor_of h' t') = map_option clone_tensor (tensor_of h t)"
  shows "const_in h' t' \<longleftrightarrow> const_in h t"
    "tensor_of h t \<noteq> None \<Longrightarrow> clone_tensor (the (tensor_of h' t')) = clone_tensor (the (tensor_of h t))"
proof -
  have ab: "IsConstant a = IsConstant b" if "clone_tensor a = clone_tensor b" for a b
    using that by (metis IsConstant_clone)
  show "const_in h' t' \<longleftrightarrow> const_in h t"
  proof (cases "tensor_of h t")
    case (Some a)
    with assms obtain b where "tensor_of h' t' = Some b" "clone_tensor b = clone_tensor a" by auto
    with Some ab [of b a] show ?thesis by (simp add: const_in_def)
  qed (use assms in \<open>simp add: const_in_def\<close>)
  from assms show "tensor_of h t \<noteq> None \<Longrightarrow> clone_tensor (the (tensor_of h' t')) = clone_tensor (the (tensor_of h t))"
    by auto
qed

text \<open>
  The function of the slice: from the values of the tensors that enter to those that the partition
  gives to the tensors that leave.
\<close>

lemma slice_fun:
  assumes pr: "plain_root h root" and o: "in_order h part" "set part \<subseteq> set (g_ops root)"
    and ops: "\<forall>k \<in> set part. disp k = None \<and> custom_code (the (op_of h k)) = []"
    and s: "sliced_off h root part m is os sl h'"
    and wt: "\<forall>t \<in> read_in h part. const_in h t \<longrightarrow> env t = wt (clone_tensor (the (tensor_of h t)))"
    and j: "j < length os"
  shows "graph_fun sem wt h' sl (map (map_option env) (map Some is)) j = fold (exec_op sem disp h) part env (os ! j)"
proof -
  let ?T = "read_in h part \<union> defined_in h part"
  note sD = sliced_offD [OF s]
  define senv where "senv = with_constants wt h' sl
    (\<lambda>t. case FindInd (g_inputs sl) t of None \<Rightarrow> undefined | Some i \<Rightarrow> the (map (map_option env) (map Some is) ! i))"
  have "senv (m t) = env t" if t: "t \<in> ?T - defined_in h part" for t
  proof -
    from sD(9) [of t] t obtain tt nt where c: "tensor_of h t = Some tt" "tensor_of h' (m t) = Some nt"
      "clone_tensor nt = clone_tensor tt" by (auto simp: is_clone_def)
    then have const: "const_in h' (m t) \<longleftrightarrow> const_in h t" using const_in_clone(1) [of h' "m t" h t] by simp
    show ?thesis
    proof (cases "const_in h t")
      case True
      then show ?thesis using t sD(11) [of t] const c wt by (auto simp: senv_def with_constants_def)
    next
      case False
      with t have e: "t \<in> set is" by (auto simp: sD(3) entering_def)
      have "insert t (set is) \<subseteq> ?T" using t sD(3) by (auto simp: entering_def)
      then have "FindInd (g_inputs sl) (m t) = FindInd is t"
        unfolding sD(6) by (intro FindInd_map inj_on_subset [OF sD(1)])
      with FindInd_Some [OF e] False const show ?thesis by (auto simp: senv_def with_constants_def)
    qed
  qed
  then have "\<forall>t \<in> ?T. fold (exec_op sem (\<lambda>_. None) h') (g_ops sl) senv (m t) = fold (exec_op sem disp h) part env t"
    by (intro exec_slice [OF sD(8) ops sD(1) _ o(1)]) auto
  moreover have "os ! j \<in> ?T" using sD(5) [of "os ! j"] j by (simp add: leaving_def)
  ultimately show ?thesis
    using j by (simp add: graph_fun_def exec_graph_def senv_def sD(7) del: map_map)
qed

lemma left_overD:
  assumes "left_over h root part is os root' h'"
  shows "well_linked h' root'" "g_inputs root' = g_inputs root" "g_outputs root' = g_outputs root"
    "set (g_tensors root') \<subseteq> set (g_tensors root)"
    "g_ops root' = filter (\<lambda>k. if k = last part then is \<noteq> [] \<or> os \<noteq> [] else k \<notin> set part \<and> \<not> dead_op h k) (g_ops root)"
    "last part \<in> set (g_ops root') \<Longrightarrow> op_of h (last part) = Some op \<Longrightarrow>
       ins h' (last part) = map Some is \<and> outs h' (last part) = map Some os"
    "k \<in> set (g_ops root') \<Longrightarrow> k \<noteq> last part \<Longrightarrow> op_of h' k = op_of h k"
    "t \<in> set (g_tensors root') \<Longrightarrow> map_option clone_tensor (tensor_of h' t) = map_option clone_tensor (tensor_of h t)"
    "t \<in> set (g_tensors root') \<Longrightarrow> definer h' t = None \<or> t \<in> defined_in h part \<or> definer h' t = definer h t"
  using assms by (simp_all add: left_over_def)

text \<open>The tensors on which the two executions agree: those of the outlined root that are still computed.\<close>

definition live_in :: "ir_heap \<Rightarrow> ir_graph \<Rightarrow> nat list \<Rightarrow> ir_graph \<Rightarrow> nat set" where
  "live_in h root part root' = {t \<in> set (g_tensors root'). t \<in> defined_in h part \<longrightarrow> leaving h root part t}"

lemma others_agree:
  assumes pr: "plain_root h root" and p: "set part \<subseteq> set (g_ops root)" "part \<noteq> []"
    and lo: "left_over h root part is os root' h'" and ks: "set ks \<subseteq> set (g_ops root) - set part"
    and e: "\<forall>t \<in> live_in h root part root'. env t = env' t"
  shows "\<forall>t \<in> live_in h root part root'. fold (exec_op sem disp h) ks env t =
    fold (exec_op sem (disp(last part \<mapsto> f)) h') (filter (\<lambda>k. \<not> dead_op h k) ks) env' t"
proof (rule exec_ops_agree [OF e], rule ballI)
  fix k assume "k \<in> set ks"
  with ks have k: "k \<in> set (g_ops root)" "k \<notin> set part" by auto
  then have kd: "k \<noteq> last part" using p(2) by auto
  note lD = left_overD [OF lo] and wl = plain_rootD(2) [OF pr]
  show "if \<not> dead_op h k then op_fun sem disp h k = op_fun sem (disp(last part \<mapsto> f)) h' k \<and> ins h' k = ins h k \<and>
      outs h' k = outs h k \<and> operands h k \<subseteq> live_in h root part root' else dead_op h k"
  proof (cases "dead_op h k")
    case False
    with k kd have kr: "k \<in> set (g_ops root')" by (simp add: lD(5))
    have same: "op_of h' k = op_of h k" by (rule lD(7) [OF kr kd])
    then have io: "ins h' k = ins h k" "outs h' k = outs h k" by (simp_all add: ins_def outs_def)
    have "t \<in> live_in h root part root'" if t: "t \<in> operands h k" for t
    proof -
      have "t \<in> set (g_tensors root')" using operands_tensors [OF lD(1) kr] t io by (auto simp: operands_def)
      moreover have "t \<in> set (g_tensors root)" using operands_tensors [OF wl k(1)] t by blast
      with operands_uses [OF wl this k(1)] t k(2) have "\<exists>u \<in> set (uses h t). fst u \<notin> set part" by force
      ultimately show ?thesis by (simp add: live_in_def leaving_def)
    qed
    moreover have "op_fun sem disp h k = op_fun sem (disp(last part \<mapsto> f)) h' k" using kd
      by (simp add: op_fun_def same split: option.split)
    ultimately show ?thesis using False io by auto
  qed simp
qed

lemma plain_root_const_value:
  assumes pr: "plain_root h root" and t: "t \<in> set (g_tensors root)" "const_in h t" and ks: "set ks \<subseteq> set (g_ops root)"
  shows "fold (exec_op sem disp h) ks (with_constants wt h root env) t = wt (clone_tensor (the (tensor_of h t)))"
proof -
  have "t \<notin> defined_in h ks"
    using const_undefined(1) [OF pr t] defined_in_iff [OF plain_rootD(2) [OF pr] ks t(1)] by simp
  then show ?thesis using t by (simp add: exec_ops_other with_constants_def)
qed

lemma filter_last: "xs \<noteq> [] \<Longrightarrow> distinct xs \<Longrightarrow> filter (\<lambda>x. x = last xs) xs = [last xs]"
  by (induction xs rule: rev_induct) (auto simp: filter_empty_conv)

lemma dispatch_agrees:
  assumes pr: "plain_root h root" and o: "in_order h part" "set part \<subseteq> set (g_ops root)" "part \<noteq> []"
    and ops: "\<forall>k \<in> set part. disp k = None \<and> custom_code (the (op_of h k)) = []"
    and s: "sliced_off h root part m is os sl h'" and lo: "left_over h root part is os root' h'"
    and wt: "\<forall>t \<in> read_in h part. const_in h t \<longrightarrow> env t = wt (clone_tensor (the (tensor_of h t)))"
    and e: "\<forall>t \<in> live_in h root part root'. env t = env' t"
  shows "\<forall>t \<in> live_in h root part root'. fold (exec_op sem disp h) part env t =
    fold (exec_op sem (disp(last part \<mapsto> graph_fun sem wt h' sl)) h') (filter (\<lambda>k. k = last part \<and> (is \<noteq> [] \<or> os \<noteq> [])) part) env' t"
proof
  fix t assume t: "t \<in> live_in h root part root'"
  note sD = sliced_offD [OF s] and lD = left_overD [OF lo]
  let ?d = "last part" and ?f = "graph_fun sem wt h' sl"
  have d: "?d \<in> set (g_ops root)" "?d \<in> set part" using o(2,3) by auto
  obtain op where op: "op_of h ?d = Some op" using well_linkedD(3) [OF plain_rootD(2) [OF pr] d(1)] by blast
  have one: "filter (\<lambda>k. k = ?d) part = [?d]"
    using o(1) filter_last [OF o(3)] by (simp add: in_order_def)
  show "fold (exec_op sem disp h) part env t =
    fold (exec_op sem (disp(?d \<mapsto> ?f)) h') (filter (\<lambda>k. k = ?d \<and> (is \<noteq> [] \<or> os \<noteq> [])) part) env' t"
  proof (cases "is \<noteq> [] \<or> os \<noteq> []")
    case False
    then have "t \<notin> defined_in h part" using t sD(5) by (auto simp: live_in_def)
    with False t e show ?thesis by (simp add: exec_ops_other)
  next
    case True
    with d have dr: "?d \<in> set (g_ops root')" by (simp add: lD(5))
    note io = conjunct1 [OF lD(6) [OF dr op]] conjunct2 [OF lD(6) [OF dr op]]
    have "set is \<subseteq> live_in h root part root'"
      using operands_tensors [OF lD(1) dr] io sD(3) by (auto simp: operands_def live_in_def entering_def)
    then have args: "map (map_option env') (map Some is) = map (map_option env) (map Some is)" using e by auto
    then have step: "exec_op sem (disp(?d \<mapsto> ?f)) h' ?d env' t = (case FindInd (map Some os) (Some t) of
        None \<Rightarrow> env' t | Some j \<Rightarrow> ?f (map (map_option env) (map Some is)) j)"
      unfolding exec_op_def io args by (simp add: op_fun_def split: option.split)
    have "FindInd (map Some os) (Some t) = FindInd os t" by (intro FindInd_map) (simp add: inj_on_def)
    moreover have "fold (exec_op sem disp h) part env t = (case FindInd os t of
        None \<Rightarrow> env' t | Some j \<Rightarrow> ?f (map (map_option env) (map Some is)) j)"
    proof (cases "t \<in> set os")
      case True
      from FindInd_Some [OF this] obtain j where j: "FindInd os t = Some j" "j < length os" "os ! j = t" by blast
      with slice_fun [OF pr o(1,2) ops s wt j(2)] show ?thesis by simp
    next
      case False
      then have "t \<notin> defined_in h part" using t sD(5) by (auto simp: live_in_def)
      with False t e show ?thesis by (simp add: exec_ops_other FindInd_None_iff [THEN iffD2])
    qed
    ultimately show ?thesis using True one step by simp
  qed
qed

text \<open>The outlined root, when the partition is a segment of the execution order.\<close>

lemma outlined_meaning:
  assumes pr: "plain_root h root" and o: "in_order h part" "g_ops root = pre @ part @ post" "part \<noteq> []"
    and ops: "\<forall>k \<in> set part. disp k = None \<and> custom_code (the (op_of h k)) = []"
    and s: "sliced_off h root part m is os sl h'" and lo: "left_over h root part is os root' h'"
    and t: "t \<in> set (g_outputs root)"
  shows "exec_graph sem (disp(last part \<mapsto> graph_fun sem wt h' sl)) wt h' root' env t = exec_graph sem disp wt h root env t"
proof -
  let ?d = "last part" and ?disp = "disp(last part \<mapsto> graph_fun sem wt h' sl)" and ?A = "live_in h root part root'"
  let ?live = "\<lambda>k. if k = ?d then is \<noteq> [] \<or> os \<noteq> [] else k \<notin> set part \<and> \<not> dead_op h k"
  note lD = left_overD [OF lo] and wl = plain_rootD(2) [OF pr]
  have dist: "distinct (pre @ part @ post)" using well_linkedD(1) [OF wl] o(2) by simp
  have p: "set part \<subseteq> set (g_ops root)" using o(2) by auto
  have sub: "set pre \<subseteq> set (g_ops root) - set part" "set post \<subseteq> set (g_ops root) - set part"
    using dist o(2) by auto
  have d: "?d \<in> set part" using o(3) by simp
  have outer: "filter ?live ks = filter (\<lambda>k. \<not> dead_op h k) ks" if "set ks \<subseteq> set (g_ops root) - set part" for ks
    using that d by (intro filter_cong) auto
  have inner: "filter ?live part = filter (\<lambda>k. k = ?d \<and> (is \<noteq> [] \<or> os \<noteq> [])) part" by (intro filter_cong) auto
  have ops': "g_ops root' = filter (\<lambda>k. \<not> dead_op h k) pre @
      filter (\<lambda>k. k = ?d \<and> (is \<noteq> [] \<or> os \<noteq> [])) part @ filter (\<lambda>k. \<not> dead_op h k) post"
    by (simp only: lD(5) o(2) filter_append outer [OF sub(1)] outer [OF sub(2)] inner)
  let ?e0 = "with_constants wt h root env" and ?e0' = "with_constants wt h' root' env"
  have "?e0 t = ?e0' t" if "t \<in> ?A" for t
  proof -
    have t': "t \<in> set (g_tensors root')" "t \<in> set (g_tensors root)" using that lD(4) by (auto simp: live_in_def)
    have "tensor_of h t \<noteq> None" using plain_rootD(4) [OF pr t'(2)] by auto
    with const_in_clone [OF lD(8) [OF t'(1)]] t' show ?thesis by (simp add: with_constants_def)
  qed
  from others_agree [OF pr p o(3) lo sub(1), of ?e0 ?e0']  this
  have e1: "\<forall>t \<in> ?A. fold (exec_op sem disp h) pre ?e0 t =
    fold (exec_op sem ?disp h') (filter (\<lambda>k. \<not> dead_op h k) pre) ?e0' t" by blast
  have "fold (exec_op sem disp h) pre ?e0 t = wt (clone_tensor (the (tensor_of h t)))"
    if "t \<in> read_in h part" "const_in h t" for t
    using part_tensors(2) [OF wl p] that sub(1) by (intro plain_root_const_value [OF pr]) auto
  then have "\<forall>t \<in> read_in h part. const_in h t \<longrightarrow>
    fold (exec_op sem disp h) pre ?e0 t = wt (clone_tensor (the (tensor_of h t)))" by blast
  note e2 = dispatch_agrees [OF pr o(1) p o(3) ops s lo this e1]
  note e3 = others_agree [OF pr p o(3) lo sub(2) e2]
  have "t \<in> set (g_tensors root')" using well_linkedD(8) [OF lD(1)] t lD(3) by auto
  with t have "t \<in> ?A" by (simp add: live_in_def leaving_def)
  with e3 have "fold (exec_op sem disp h) post (fold (exec_op sem disp h) part (fold (exec_op sem disp h) pre ?e0)) t =
      fold (exec_op sem ?disp h') (g_ops root') ?e0' t" by (simp add: ops')
  then show ?thesis by (simp add: exec_graph_def o(2))
qed

section \<open>One partition after the other\<close>

text \<open>The islands are segments of the execution order, one behind the other.\<close>

fun in_runs :: "nat list list \<Rightarrow> nat list \<Rightarrow> bool" where
  "in_runs [] ks \<longleftrightarrow> True"
| "in_runs (p # ps) ks \<longleftrightarrow> (\<exists>pre post. ks = pre @ p @ post \<and> in_runs ps post)"

lemma in_runs_prefix: "in_runs ps ks \<Longrightarrow> in_runs ps (xs @ ks)"
  by (cases ps) (auto, metis append_assoc)

lemma in_runs_subset: "in_runs ps ks \<Longrightarrow> set (concat ps) \<subseteq> set ks"
proof (induction ps arbitrary: ks)
  case (Cons p ps)
  then obtain pre post where "ks = pre @ p @ post" "in_runs ps post" by auto
  with Cons.IH [of post] show ?case by auto
qed simp

lemma in_runs_filter: "in_runs ps ks \<Longrightarrow> \<forall>k \<in> set (concat ps). P k \<Longrightarrow> in_runs ps (filter P ks)"
proof (induction ps arbitrary: ks)
  case (Cons p ps)
  then obtain pre post where ks: "ks = pre @ p @ post" "in_runs ps post" by auto
  moreover have "filter P p = p" using Cons.prems(2) by (auto intro: filter_True)
  moreover have "in_runs ps (filter P post)" using Cons.IH [OF ks(2)] Cons.prems(2) by simp
  ultimately have "filter P ks = filter P pre @ p @ filter P post \<and> in_runs ps (filter P post)" by simp
  then show ?case unfolding in_runs.simps by blast
qed simp

lemma in_order_segment: "in_order h (xs @ p @ ys) \<Longrightarrow> in_order h p"
  by (simp add: in_order_def sorted_wrt_append)

lemma in_order_same:
  assumes s: "\<forall>k \<in> set ks. op_of h' k = op_of h k" and o: "in_order h ks"
  shows "in_order h' ks"
proof -
  have r: "results h' k = results h k" "operands h' k = operands h k" if "k \<in> set ks" for k
    using s that by (simp_all add: results_def operands_def ins_def outs_def)
  have "sorted_wrt (\<lambda>k k'. results h k' \<inter> operands h k = {}) ks" using o by (simp add: in_order_def)
  then have "sorted_wrt (\<lambda>k k'. results h' k' \<inter> operands h' k = {}) ks"
    by (rule sorted_wrt_mono_rel [rotated]) (simp add: r)
  moreover have "\<forall>k \<in> set ks. results h' k \<inter> operands h' k = {}" using o r by (simp add: in_order_def)
  ultimately show ?thesis using o by (simp add: in_order_def)
qed

text \<open>A slice that was cut off before: its objects are not those of the root.\<close>

definition apart :: "ir_heap \<Rightarrow> ir_graph \<Rightarrow> ir_graph \<Rightarrow> bool" where
  "apart h root sl \<longleftrightarrow> well_linked h sl \<and> set (g_tensors sl) \<inter> set (g_tensors root) = {} \<and>
     set (g_ops sl) \<inter> set (g_ops root) = {}"

lemma graph_fun_same:
  assumes wl: "well_linked h g" and t: "\<forall>t \<in> set (g_tensors g). tensor_of h' t = tensor_of h t"
    and k: "\<forall>k \<in> set (g_ops g). op_of h' k = op_of h k"
  shows "graph_fun (sem :: 'a op_sem) wt h' g = graph_fun sem wt h g"
proof -
  have "with_constants wt h' g env = with_constants wt h g env" for env
    using t by (auto simp: with_constants_def const_in_def fun_eq_iff)
  moreover have "exec_op sem disp h' x = exec_op sem disp h x" if "x \<in> set (g_ops g)" for disp :: "nat \<Rightarrow> ('a option list \<Rightarrow> nat \<Rightarrow> 'a) option" and x
  proof -
    have "op_of h' x = op_of h x" using that k by simp
    then have "ins h' x = ins h x" "outs h' x = outs h x" "op_fun sem disp h' x = op_fun sem disp h x"
      by (simp_all add: ins_def outs_def op_fun_def split: option.split)
    then show ?thesis unfolding exec_op_def by (simp only:)
  qed
  then have "fold (exec_op sem (\<lambda>_. None) h') (g_ops g) env = fold (exec_op sem (\<lambda>_. None) h) (g_ops g) env" for env
    by (intro fold_cong refl) simp
  ultimately have "graph_fun sem wt h' g vs j = graph_fun sem wt h g vs j" for vs j
    unfolding graph_fun_def exec_graph_def by simp
  then show ?thesis by blast
qed

lemma apart_kept:
  assumes pr: "plain_root h root" and a: "apart h root sl" and ok: "others_kept h root new h'"
    and lo: "left_over h root part is os root' h'"
  shows "apart h' root' sl" "graph_fun sem wt h' sl = graph_fun sem wt h sl"
proof -
  have wl: "well_linked h sl" using a by (simp add: apart_def)
  note al = well_linked_allocated [OF plain_rootD(1) [OF pr] wl] and lD = left_overD [OF lo]
  have same: "\<forall>t \<in> set (g_tensors sl). tensor_of h' t = tensor_of h t" "\<forall>k \<in> set (g_ops sl). op_of h' k = op_of h k"
    using ok a al unfolding others_kept_def apart_def by (meson disjoint_iff)+
  have "set (g_ops root') \<subseteq> set (g_ops root)" unfolding lD(5) by auto
  with well_linked_frame [OF wl same] lD(4) a show "apart h' root' sl" by (auto simp: apart_def)
  show "graph_fun sem wt h' sl = graph_fun sem wt h sl" using graph_fun_same [OF wl same] .
qed

lemma new_apart:
  assumes pr: "plain_root h root" and s: "sliced_off h root part m is os sl h'"
    and ok: "others_kept h root sl h'" and lo: "left_over h root part is os root' h'"
  shows "apart h' root' sl"
proof -
  note al = well_linked_allocated [OF plain_rootD(1,2) [OF pr]] and lD = left_overD [OF lo]
  have "set (g_ops root') \<subseteq> set (g_ops root)" unfolding lD(5) by auto
  moreover have "t \<notin> set (g_tensors root)" if "t \<in> set (g_tensors sl)" for t
    using ok that al(1) [of t] by (auto simp: others_kept_def)
  moreover have "k \<notin> set (g_ops root)" if "k \<in> set (g_ops sl)" for k
    using ok that al(2) [of k] by (auto simp: others_kept_def)
  ultimately show ?thesis using sliced_offD(10) [OF s] lD(4) by (auto simp: apart_def)
qed

lemma plain_root_kept:
  assumes pr: "plain_root h root" and p: "set part \<subseteq> set (g_ops root)"
    and lo: "left_over h root part is os root' h'" and ok: "others_kept h root sl h'"
  shows "plain_root h' root'"
proof -
  note lD = left_overD [OF lo] and pD = plain_rootD [OF pr]
  have undef: "definer h' t = None" if t: "t \<in> set (g_tensors root')" "definer h t = None" for t
    using lD(9) [OF t(1)] t defined_in_iff [OF pD(2) p, of t] lD(4) by auto
  have "\<exists>tt c. tensor_of h' t = Some tt \<and> IsConstant tt = Some c \<and>
      (c \<longrightarrow> defining_op tt = None \<and> t \<notin> set (g_inputs root') \<union> set (g_outputs root'))" if t: "t \<in> set (g_tensors root')" for t
  proof -
    have tr: "t \<in> set (g_tensors root)" using t lD(4) by blast
    from pD(4) [OF tr] obtain tt c where tt: "tensor_of h t = Some tt" "IsConstant tt = Some c"
      "c \<longrightarrow> defining_op tt = None \<and> t \<notin> set (g_inputs root) \<union> set (g_outputs root)" by blast
    with lD(8) [OF t] obtain tt' where tt': "tensor_of h' t = Some tt'" "clone_tensor tt' = clone_tensor tt" by auto
    have "IsConstant tt' = Some c" using tt'(2) tt(2) by (metis IsConstant_clone)
    moreover have "c \<longrightarrow> defining_op tt' = None" using undef [OF t] tt tt'(1) by auto
    ultimately show ?thesis using tt'(1) tt(3) lD(2,3) by auto
  qed
  moreover have "definer h' t = None" if "t \<in> set (g_inputs root')" for t
    using undef [of t] that well_linkedD(7) [OF lD(1)] pD(5) lD(2) by auto
  moreover have "fresh_heap h'" using ok by (simp add: others_kept_def)
  ultimately show ?thesis using lD(1,2) pD(3) unfolding plain_root_def by simp
qed

text \<open>What the loop over the islands needs and keeps.\<close>

definition islands_ok :: "ir_heap \<Rightarrow> ir_graph \<Rightarrow> (nat \<Rightarrow> 'f option) \<Rightarrow> nat list list \<Rightarrow> bool" where
  "islands_ok h root disp islands \<longleftrightarrow> in_runs islands (g_ops root) \<and>
     (\<forall>p \<in> set islands. p \<noteq> [] \<and> in_order h p) \<and>
     (\<forall>k \<in> set (concat islands). disp k = None \<and> custom_code (the (op_of h k)) = [] \<and> \<not> dead_op h k)"

lemma islands_kept:
  assumes wl: "well_linked h root" and ok: "islands_ok h root disp (p # ps)"
    and lo: "left_over h root p is os root' h'"
  shows "islands_ok h' root' (disp(last p \<mapsto> f)) ps" "last p \<notin> set (concat ps)"
proof -
  note lD = left_overD [OF lo]
  from ok obtain pre post where ks: "g_ops root = pre @ p @ post" "in_runs ps post" by (auto simp: islands_ok_def)
  have p: "last p \<in> set p" using ok by (simp add: islands_ok_def)
  have later: "set (concat ps) \<subseteq> set post" by (rule in_runs_subset [OF ks(2)])
  have dist: "set p \<inter> set post = {}" using well_linkedD(1) [OF wl] ks(1) by auto
  with later p show last: "last p \<notin> set (concat ps)" by blast
  have live: "k \<noteq> last p \<and> k \<notin> set p \<and> \<not> dead_op h k" if "k \<in> set (concat ps)" for k
    using that later dist last ok by (auto simp: islands_ok_def)
  have "in_runs ps (g_ops root')"
    unfolding lD(5) using live by (intro in_runs_filter) (simp_all add: ks in_runs_prefix)
  moreover have same: "op_of h' k = op_of h k" if "k \<in> set (concat ps)" for k
  proof -
    have "k \<in> set (g_ops root)" using that later ks(1) by auto
    with live [OF that] have "k \<in> set (g_ops root')" by (simp add: lD(5))
    with lD(7) live [OF that] show ?thesis by blast
  qed
  moreover have "q \<noteq> [] \<and> in_order h' q" if "q \<in> set ps" for q
    using that ok same by (intro conjI in_order_same [of q h' h]) (auto simp: islands_ok_def)
  moreover have "dead_op h' k \<longleftrightarrow> dead_op h k" if "k \<in> set (concat ps)" for k
    using same [OF that] by (simp add: dead_op_def ins_def outs_def)
  ultimately show "islands_ok h' root' (disp(last p \<mapsto> f)) ps"
    using ok last unfolding islands_ok_def by (metis UnI2 concat.simps(2) fun_upd_other set_append)
qed

text \<open>The code that the dispatch operations run.\<close>

definition dispatch_table :: "'v op_sem \<Rightarrow> (LiteRtTensorT \<Rightarrow> 'v) \<Rightarrow> ir_heap \<Rightarrow> nat list \<Rightarrow> ir_graph list \<Rightarrow>
    nat \<Rightarrow> ('v option list \<Rightarrow> nat \<Rightarrow> 'v) option" where
  "dispatch_table sem wt h res_ops slices = map_of (zip res_ops (map (graph_fun sem wt h) slices))"

lemma outline_islands_meaning:
  assumes "plain_root h root" "islands_ok h root disp islands" "\<forall>sl \<in> set slices. apart h root sl"
  shows "\<exists>root' new h'. outline_islands islands (root, slices, res, h) =
      Some (root', slices @ new, res @ map last islands, h') \<and> length new = length islands \<and>
    plain_root h' root' \<and> (\<forall>sl \<in> set (slices @ new). apart h' root' sl) \<and>
    g_inputs root' = g_inputs root \<and> g_outputs root' = g_outputs root \<and>
    (\<forall>sl \<in> set slices. graph_fun sem wt h' sl = graph_fun sem wt h sl) \<and>
    (\<forall>env. \<forall>t \<in> set (g_outputs root).
       exec_graph sem (disp ++ dispatch_table sem wt h' (map last islands) new) wt h' root' env t =
       exec_graph sem disp wt h root env t)"
  using assms
proof (induction islands arbitrary: h root disp slices res)
  case Nil
  then show ?case by (simp add: dispatch_table_def)
next
  case (Cons p ps)
  note pr = Cons.prems(1)
  from Cons.prems(2) obtain pre post where ks: "g_ops root = pre @ p @ post" and p: "p \<noteq> []" "in_order h p"
    and ops: "\<forall>k \<in> set p. disp k = None \<and> custom_code (the (op_of h k)) = []" by (auto simp: islands_ok_def)
  have sub: "set p \<subseteq> set (g_ops root)" using ks by auto
  from outline_one [OF pr p(2) sub p(1)] obtain sl root1 h1 m "is" os where
    one: "SlicePartitionFromGraph root empty_graph p h = Some (last p, sl, root1, h1)" and
    s: "sliced_off h root p m is os sl h1" and lo: "left_over h root p is os root1 h1" and
    ok: "others_kept h root sl h1" by blast
  define disp1 where "disp1 = disp(last p \<mapsto> graph_fun sem wt h1 sl)"
  have slices1: "\<forall>x \<in> set (slices @ [sl]). apart h1 root1 x"
    using apart_kept(1) [OF pr _ ok lo] new_apart [OF pr s ok lo] Cons.prems(3) by auto
  have isl: "islands_ok h1 root1 disp1 ps"
    unfolding disp1_def by (rule islands_kept(1) [OF plain_rootD(2) [OF pr] Cons.prems(2) lo])
  from Cons.IH [OF plain_root_kept [OF pr sub lo ok] isl slices1] obtain root' new h' where
    rest: "outline_islands ps (root1, slices @ [sl], res @ [last p], h1) =
      Some (root', (slices @ [sl]) @ new, (res @ [last p]) @ map last ps, h')" "length new = length ps"
    "plain_root h' root'" "\<forall>x \<in> set ((slices @ [sl]) @ new). apart h' root' x"
    "g_inputs root' = g_inputs root1" "g_outputs root' = g_outputs root1"
    "\<forall>x \<in> set (slices @ [sl]). graph_fun sem wt h' x = graph_fun sem wt h1 x"
    "\<forall>env. \<forall>t \<in> set (g_outputs root1).
       exec_graph sem (disp1 ++ dispatch_table sem wt h' (map last ps) new) wt h' root' env t =
       exec_graph sem disp1 wt h1 root1 env t" by blast
  have io: "g_inputs root1 = g_inputs root" "g_outputs root1 = g_outputs root" using left_overD(2,3) [OF lo] by simp_all
  have "last p \<notin> set (map last ps)"
  proof -
    have "last q \<in> set (concat ps)" if q: "q \<in> set ps" for q
    proof -
      have "q \<noteq> []" using q Cons.prems(2) by (auto simp: islands_ok_def)
      then show ?thesis using q last_in_set by auto
    qed
    then show ?thesis using islands_kept(2) [OF plain_rootD(2) [OF pr] Cons.prems(2) lo]
      by (metis (no_types, lifting) image_iff list.set_map)
  qed
  then have "last p \<notin> dom (dispatch_table sem wt h' (map last ps) new)"
    using rest(2) by (simp add: dispatch_table_def)
  then have table: "disp1 ++ dispatch_table sem wt h' (map last ps) new =
      disp ++ dispatch_table sem wt h' (map last (p # ps)) (sl # new)"
    using rest(7) by (auto simp: disp1_def dispatch_table_def map_add_def fun_eq_iff split: option.splits)
  have "exec_graph sem (disp ++ dispatch_table sem wt h' (map last (p # ps)) (sl # new)) wt h' root' env t =
      exec_graph sem disp wt h root env t" if "t \<in> set (g_outputs root)" for env t
  proof -
    have "exec_graph sem disp1 wt h1 root1 env t = exec_graph sem disp wt h root env t"
      unfolding disp1_def by (rule outlined_meaning [OF pr p(2) ks p(1) ops s lo that])
    then show ?thesis using rest(8) that io(2) unfolding table by simp
  qed
  moreover have "\<forall>x \<in> set slices. graph_fun sem wt h' x = graph_fun sem wt h x"
    using rest(7) apart_kept(2) [OF pr _ ok lo] Cons.prems(3) by auto
  ultimately show ?case
    using one rest(1-6) io by (intro exI [of _ root'] exI [of _ "sl # new"] exI [of _ h']) simp
qed

section \<open>The driver\<close>

lemma in_runs_filtered: "in_runs (map snd (filter P rs)) (concat (map snd rs))"
proof (induction rs)
  case (Cons r rs)
  show ?case
  proof (cases "P r")
    case True
    have "concat (map snd (r # rs)) = [] @ snd r @ concat (map snd rs)" by simp
    with True Cons.IH show ?thesis by (simp del: concat.simps) blast
  next
    case False
    with in_runs_prefix [OF Cons.IH] show ?thesis by simp
  qed
qed simp

lemma V2_in_runs: "in_runs (GetPartitionsFromFlatListV2 sel g) (g_ops g)"
proof -
  have "map fst (sorted_ops sel (g_ops g)) = g_ops g"
    by (auto simp: sorted_ops_def intro!: map_idI split: option.split)
  then have "concat (map snd (runs (sorted_ops sel (g_ops g)))) = g_ops g" by (simp add: concat_runs)
  with in_runs_filtered [of _ "runs (sorted_ops sel (g_ops g))"] show ?thesis unfolding V2_runs by metis
qed

lemma V2_islands_ok:
  assumes o: "in_order h (g_ops root)" and s: "\<forall>(op, index) \<in> set sel. index \<noteq> size_max"
      "\<forall>k \<in> set (g_ops root) \<inter> fst ` set sel. custom_code (the (op_of h k)) = [] \<and> \<not> dead_op h k"
  shows "islands_ok h root (\<lambda>_. None) (GetPartitionsFromFlatListV2 sel root)"
proof -
  from s(1) have "\<forall>op \<in> set sel. snd op \<noteq> size_max" by auto
  note seg = V2_segments [OF this, of root]
  have "p \<noteq> [] \<and> in_order h p" if "p \<in> set (GetPartitionsFromFlatListV2 sel root)" for p
  proof -
    from seg that obtain us vs where "p \<noteq> []" "g_ops root = us @ p @ vs" by blast
    with in_order_segment [of h us p vs] o show ?thesis by simp
  qed
  moreover have "set (concat (GetPartitionsFromFlatListV2 sel root)) = {k \<in> set (g_ops root). k \<in> fst ` set sel}"
    using seg by simp
  ultimately show ?thesis using V2_in_runs [of sel root] s(2) by (simp add: islands_ok_def)
qed

lemma PartitionSubgraph_meaning:
  assumes "plain_root h root" "in_order h (g_ops root)"
    and "\<forall>(op, index) \<in> set sel. index \<noteq> size_max"
    and "\<forall>k \<in> set (g_ops root) \<inter> fst ` set sel. custom_code (the (op_of h k)) = [] \<and> \<not> dead_op h k"
  shows "\<exists>root' slices res_ops h'. PartitionSubgraph index_order op_order StrategyDefault sel (root, [], [], h) =
      Some (root', slices, res_ops, h') \<and>
    res_ops = map last (GetPartitionsFromFlatListV2 sel root) \<and> length slices = length res_ops \<and>
    well_linked h' root' \<and> (\<forall>sl \<in> set slices. well_linked h' sl) \<and>
    g_inputs root' = g_inputs root \<and> g_outputs root' = g_outputs root \<and>
    (\<forall>env. \<forall>t \<in> set (g_outputs root).
       exec_graph sem (dispatch_table sem wt h' res_ops slices) wt h' root' env t =
       exec_graph sem (\<lambda>_. None) wt h root env t)"
proof -
  from outline_islands_meaning [OF assms(1) V2_islands_ok [OF assms(2,3,4)], of "[]" "[]" sem wt]
  obtain root' new h' where r: "outline_islands (GetPartitionsFromFlatListV2 sel root) (root, [], [], h) =
      Some (root', new, map last (GetPartitionsFromFlatListV2 sel root), h')"
    "length new = length (GetPartitionsFromFlatListV2 sel root)" "plain_root h' root'"
    "\<forall>sl \<in> set new. apart h' root' sl" "g_inputs root' = g_inputs root" "g_outputs root' = g_outputs root"
    "\<forall>env. \<forall>t \<in> set (g_outputs root).
       exec_graph sem (Map.empty ++ dispatch_table sem wt h' (map last (GetPartitionsFromFlatListV2 sel root)) new) wt h' root' env t =
       exec_graph sem Map.empty wt h root env t" by auto
  then show ?thesis by (auto simp: PartitionSubgraph_def apart_def dest: plain_rootD(2))
qed

text \<open>C2: Partitioning a subgraph by execution order keeps its meaning. The root is plain (its tensors are ranked, its constants
  are no graph inputs or outputs and have no definition) and its operations stand in an order in which they can execute.
  The selection may hold any live operations without a custom code, under any indices but the largest of 64 bits: the
  clones in a slice lose the custom code (\<open>CloneTo\<close>, lemma \<open>slice_loses_custom_code\<close>), and the largest index makes the
  number for unselected operations wrap around. Then the driver returns one slice and one dispatch operation for each
  run; all subgraphs are well linked; and when every dispatch operation runs its slice, the partitioned root computes
  the same values for all graph outputs, from any values of the inputs, for any meaning of the operations and constants.\<close>

theorem PartitionSubgraph_keeps_meaning:
  assumes "plain_root h root" "in_order h (g_ops root)"
    and "\<forall>(op, index) \<in> set sel. index \<noteq> size_max"
    and "\<forall>k \<in> set (g_ops root) \<inter> fst ` set sel. custom_code (the (op_of h k)) = [] \<and> \<not> dead_op h k"
  shows "\<exists>root' slices res_ops h'. PartitionSubgraph index_order op_order StrategyDefault sel (root, [], [], h) =
      Some (root', slices, res_ops, h') \<and>
    res_ops = map last (GetPartitionsFromFlatListV2 sel root) \<and> length slices = length res_ops \<and>
    well_linked h' root' \<and> (\<forall>sl \<in> set slices. well_linked h' sl) \<and>
    g_inputs root' = g_inputs root \<and> g_outputs root' = g_outputs root \<and>
    (\<forall>env. \<forall>t \<in> set (g_outputs root).
       exec_graph sem (dispatch_table sem wt h' res_ops slices) wt h' root' env t =
       exec_graph sem (\<lambda>_. None) wt h root env t)"
  by (rule PartitionSubgraph_meaning [OF assms])

theorem PartitionSubgraph_keeps_meaning_witness:
  "case PartitionSubgraph id id StrategyDefault [(0, 0), (2, 1)] (chain_graph, [], [], chain_heap) of
     None \<Rightarrow> False | Some (root', slices, res_ops, h') \<Rightarrow> well_linked h' root' \<and> g_outputs root' = [3]"
proof -
  have "in_order chain_heap (g_ops chain_graph)"
    using chain_in_order by simp
  moreover have "\<forall>(op, index) \<in> set [(0 :: nat, 0 :: size_t), (2, 1)]. index \<noteq> size_max" by simp
  moreover have "\<forall>k \<in> set (g_ops chain_graph) \<inter> fst ` set [(0, 0 :: size_t), (2, 1)].
      custom_code (the (op_of chain_heap k)) = [] \<and> \<not> dead_op chain_heap k"
    by (auto simp: chain_heap_eval dead_op_def ins_def plain_op_def)
  ultimately show ?thesis
    using PartitionSubgraph_keeps_meaning [OF chain_plain, of "[(0, 0), (2, 1)]" id id "\<lambda>_ _ _. ()" "\<lambda>_. ()"]
    by auto
qed

end
