(* ===== verification/ModelTransfer.thy ===== *)
theory ModelTransfer
  imports GraphIR
begin

text \<open>
  Moving objects between allocators (\<open>IrAllocator::TransferFrom\<close>,
  \<^verbatim>\<open>src/litert/core/model/ir_allocator.h\<close>) and subgraphs between models
  (\<open>LiteRtModelT::TransferSubgraphTo\<close>, \<^verbatim>\<open>src/litert/core/model/model.cc\<close>).

  An allocator is the list of its objects in storage order, which is also the order of its references.
\<close>

section \<open>Allocators\<close>

definition TransferFrom :: "'r list \<Rightarrow> 'r list \<Rightarrow> 'r list \<times> 'r list" where
  "TransferFrom this other = (this @ other, [])"

text \<open>The iterators of the sorted indices without repetitions; the end iterator cannot be spliced.\<close>

fun advance_to :: "'r list \<Rightarrow> nat list \<Rightarrow> 'r list option" where
  "advance_to other [] = Some []"
| "advance_to other (ind # inds) =
     (if ind < length other then map_option ((#) (other ! ind)) (advance_to other inds) else None)"

fun splice_out :: "nat \<Rightarrow> 'r list \<Rightarrow> nat list \<Rightarrow> 'r list" where
  "splice_out pos [] inds = []"
| "splice_out pos (r # rs) inds =
     (if pos \<in> set inds then splice_out (Suc pos) rs inds else r # splice_out (Suc pos) rs inds)"

definition TransferFrom_indices :: "'r list \<Rightarrow> 'r list \<Rightarrow> nat list \<Rightarrow> ('r list \<times> 'r list) option" where
  "TransferFrom_indices this other indices = do {
     let inds = remdups_adj (sort indices);
     its \<leftarrow> advance_to other inds;
     Some (this @ its, splice_out 0 other inds) }"

definition TransferFrom_at :: "'r list \<Rightarrow> 'r list \<Rightarrow> nat \<Rightarrow> 'r list \<times> 'r list" where
  "TransferFrom_at this other index =
     (if other = [] then (this, other)
      else let index = (if index > length this then length this else index) in
        (take index this @ other @ drop index this, []))"

section \<open>Subgraphs of a model\<close>

text \<open>
  The decomposition subgraphs of the composite operations are kept beside the operations:
  \<open>composite k\<close> is the index in the options of operation \<open>k\<close>, for a composite operation.
\<close>

record ir_model =
  subgraphs :: "ir_graph list"
  composite :: "nat \<Rightarrow> int option"

text \<open>The loop over \<open>j\<close> that fills \<open>new_inds\<close>; the first argument is \<open>[i, indices.end())\<close>.\<close>

fun renumber :: "nat list \<Rightarrow> nat list \<Rightarrow> int \<Rightarrow> int list" where
  "renumber i [] num_removed = []"
| "renumber [] (j # js) num_removed = (int j - num_removed) # renumber [] js num_removed"
| "renumber (ind # i) (j # js) num_removed =
     (if ind = j then - 1 # renumber i js (num_removed + 1)
      else (int j - num_removed) # renumber (ind # i) js num_removed)"

definition update_composite :: "int list \<Rightarrow> nat \<Rightarrow> (nat \<Rightarrow> int option) \<Rightarrow> (nat \<Rightarrow> int option) option" where
  "update_composite new_inds k c =
     (case c k of
        None \<Rightarrow> Some c
      | Some decomp_ind \<Rightarrow>
          (if decomp_ind = - 1 then Some c
           else if 0 \<le> decomp_ind \<and> decomp_ind < int (length new_inds)
             then Some (c(k \<mapsto> new_inds ! nat decomp_ind)) else None))"

definition TransferSubgraphTo :: "nat list \<Rightarrow> ir_graph list \<times> ir_model \<Rightarrow> (ir_graph list \<times> ir_model) option" where
  "TransferSubgraphTo indices = (\<lambda>(dest, m).
     (if indices = [] then Some (dest, m)
      else do {
        let new_inds = renumber (sort indices) [0..<length (subgraphs m)] 0;
        c \<leftarrow> foldM (update_composite new_inds) (concat (map g_ops (subgraphs m))) (composite m);
        (dest', rest) \<leftarrow> TransferFrom_indices dest (subgraphs m) indices;
        Some (dest', \<lparr>subgraphs = rest, composite = c\<rparr>) }))"

definition Yank :: "nat list \<Rightarrow> ir_model \<Rightarrow> (ir_model \<times> ir_model) option" where
  "Yank indices m = do {
     (yanked, m') \<leftarrow> TransferSubgraphTo indices ([], m);
     Some (\<lparr>subgraphs = fst (TransferFrom [] yanked), composite = composite m'\<rparr>, m') }"

section \<open>Which objects move\<close>

lemma advance_to_eq: "advance_to other inds = (if \<forall>i \<in> set inds. i < length other then Some (map ((!) other) inds) else None)"
  by (induction inds) auto

lemma splice_out_eq: "splice_out pos rs inds = map snd (filter (\<lambda>(i, r). i \<notin> set inds) (zip [pos..<pos + length rs] rs))"
proof (induction rs arbitrary: pos)
  case (Cons r rs)
  have "[pos..<pos + length (r # rs)] = pos # [Suc pos..<Suc pos + length rs]" by (simp add: upt_rec)
  with Cons show ?case by simp
qed simp

lemma splice_out_map: "splice_out 0 rs inds = map ((!) rs) (filter (\<lambda>i. i \<notin> set inds) [0..<length rs])"
proof -
  have "zip [0..<length rs] rs = map (\<lambda>i. (i, rs ! i)) [0..<length rs]"
    by (rule nth_equalityI) simp_all
  then show ?thesis by (simp add: splice_out_eq filter_map comp_def)
qed

lemma sorted_remdups: "sorted xs \<Longrightarrow> distinct (remdups_adj xs) \<and> sorted (remdups_adj xs)"
  by (induction xs rule: remdups_adj.induct) (auto simp: less_le)

lemma TransferFrom_indices_eq:
  assumes "\<forall>i \<in> set indices. i < length other"
  shows "TransferFrom_indices this other indices = Some (this @ map ((!) other) (sorted_list_of_set (set indices)),
    map ((!) other) (filter (\<lambda>i. i \<notin> set indices) [0..<length other]))"
proof -
  have "remdups_adj (sort indices) = sorted_list_of_set (set indices)"
    using sorted_remdups [of "sort indices"]
    by (intro sorted_distinct_set_unique) simp_all
  then show ?thesis using assms by (simp add: TransferFrom_indices_def advance_to_eq splice_out_map)
qed

section \<open>New numbers\<close>

text \<open>How many indices lie below \<open>j\<close>.\<close>

definition below :: "nat list \<Rightarrow> nat \<Rightarrow> nat" where
  "below is j = length (filter (\<lambda>i. i < j) is)"

lemma length_renumber [simp]: "length (renumber is js r) = length js"
  by (induction "is" js r rule: renumber.induct) auto

lemma renumber_nth:
  assumes "sorted is" "distinct is" "\<forall>i \<in> set is. a \<le> i" "k < n"
  shows "renumber is [a..<a + n] r ! k = (if a + k \<in> set is then - 1 else int (a + k) - (r + int (below is (a + k))))"
  using assms
proof (induction n arbitrary: "is" a k r)
  case (Suc n)
  define js where "js = [Suc a..<Suc a + n]"
  have u: "[a..<a + Suc n] = a # js" by (simp add: upt_rec js_def)
  note IH = Suc.IH [of _ "Suc a", folded js_def]
  show ?case
    unfolding u
  proof (cases "is")
    case Nil
    then show "renumber is (a # js) r ! k = (if a + k \<in> set is then - 1 else int (a + k) - (r + int (below is (a + k))))"
      using IH [of "[]" "k - 1" r] Suc.prems(4) by (cases k) (auto simp: below_def)
  next
    case (Cons i i')
    show "renumber is (a # js) r ! k = (if a + k \<in> set is then - 1 else int (a + k) - (r + int (below is (a + k))))"
    proof (cases "i = a")
      case True
      have "\<forall>x \<in> set i'. Suc a \<le> x" using Suc.prems(1-3) True Cons by (force simp: le_eq_less_or_eq)
      with IH [of i' "k - 1" "r + 1"] Suc.prems True Cons show ?thesis
        by (cases k) (auto simp: below_def)
    next
      case False
      have above: "\<forall>x \<in> set is. Suc a \<le> x" using Suc.prems(1-3) False Cons by (auto simp: Suc_le_eq le_less)
      have "filter (\<lambda>x. x < a) is = []" using Suc.prems(3) by (auto simp: filter_empty_conv)
      with above IH [of "is" "k - 1" r] Suc.prems False Cons show ?thesis
        by (cases k) (auto simp: below_def)
    qed
  qed
qed simp

text \<open>An object that stays is found at its old index less the number of removed ones before it.\<close>

lemma kept_position:
  assumes "j < n" "P j"
  shows "length (filter P [0..<j]) < length (filter P [0..<n])" "filter P [0..<n] ! length (filter P [0..<j]) = j"
proof -
  have "[0..<n] = [0..<j] @ j # [Suc j..<n]" using assms(1) by (metis le0 upt_add_eq_append upt_conv_Cons le_add_diff_inverse less_imp_le_nat)
  then have "filter P [0..<n] = filter P [0..<j] @ j # filter P [Suc j..<n]" using assms(2) by simp
  then show "length (filter P [0..<j]) < length (filter P [0..<n])" "filter P [0..<n] ! length (filter P [0..<j]) = j"
    by (simp_all add: nth_append)
qed

lemma below_kept:
  assumes "distinct is"
  shows "length (filter (\<lambda>i. i \<notin> set is) [0..<j]) + below is j = j"
proof -
  have "length (filter (\<lambda>i. i \<in> set is) [0..<j]) = card {i. i < j \<and> i \<in> set is}"
    by (subst distinct_card [symmetric]) (auto intro!: arg_cong [where f = card])
  moreover have "below is j = card {i. i < j \<and> i \<in> set is}"
    using assms unfolding below_def by (subst distinct_card [symmetric]) (auto intro!: arg_cong [where f = card])
  moreover have "length (filter (\<lambda>i. i \<in> set is) [0..<j]) + length (filter (\<lambda>i. i \<notin> set is) [0..<j]) = j"
    using sum_length_filter_compl [of "\<lambda>i. i \<in> set is" "[0..<j]"] by simp
  ultimately show ?thesis by simp
qed

lemma update_composites:
  assumes "distinct ks" "\<forall>k \<in> set ks. \<forall>d. c k = Some d \<longrightarrow> d = - 1 \<or> 0 \<le> d \<and> d < int (length new_inds)"
  shows "foldM (update_composite new_inds) ks c =
    Some (\<lambda>k. if k \<in> set ks then map_option (\<lambda>d. if d = - 1 then - 1 else new_inds ! nat d) (c k) else c k)"
  using assms
proof (induction ks arbitrary: c)
  case (Cons k ks)
  define c1 where "c1 = c(k := map_option (\<lambda>d. if d = - 1 then - 1 else new_inds ! nat d) (c k))"
  have "update_composite new_inds k c = Some c1"
    using Cons.prems(2) by (auto simp: update_composite_def c1_def fun_upd_idem split: option.splits)
  moreover have "\<forall>x \<in> set ks. \<forall>d. c1 x = Some d \<longrightarrow> d = - 1 \<or> 0 \<le> d \<and> d < int (length new_inds)"
    using Cons.prems by (auto simp: c1_def)
  moreover have "(\<lambda>x. if x \<in> set ks then map_option (\<lambda>d. if d = - 1 then - 1 else new_inds ! nat d) (c1 x) else c1 x) =
      (\<lambda>x. if x \<in> set (k # ks) then map_option (\<lambda>d. if d = - 1 then - 1 else new_inds ! nat d) (c x) else c x)"
    using Cons.prems(1) by (auto simp: c1_def fun_eq_iff)
  ultimately show ?case
    using Cons.IH [of c1] Cons.prems(1) by simp
qed simp

text \<open>The loop renumbers the references of all composite operations of the model, those of moved subgraphs as well.\<close>

lemma TransferSubgraphTo_references:
  assumes inds: "distinct indices" "\<forall>i \<in> set indices. i < length (subgraphs m)"
    and ops: "distinct (concat (map g_ops (subgraphs m)))"
    and comp: "\<forall>k \<in> set (concat (map g_ops (subgraphs m))). \<forall>d. composite m k = Some d \<longrightarrow>
      d = - 1 \<or> 0 \<le> d \<and> d < int (length (subgraphs m))"
  shows "\<exists>m'. TransferSubgraphTo indices (dest, m) = Some (dest @ map ((!) (subgraphs m)) (sort indices), m') \<and>
    subgraphs m' = map ((!) (subgraphs m)) (filter (\<lambda>i. i \<notin> set indices) [0..<length (subgraphs m)]) \<and>
    (\<forall>k \<in> set (concat (map g_ops (subgraphs m))). \<forall>d. composite m k = Some d \<longrightarrow>
       (if d = - 1 \<or> nat d \<in> set indices then composite m' k = Some (- 1)
        else \<exists>d'. composite m' k = Some (int d') \<and> d' < length (subgraphs m') \<and>
          subgraphs m' ! d' = subgraphs m ! nat d))"
proof (cases "indices = []")
  case True
  have "\<exists>d'. composite m k = Some (int d') \<and> d' < length (subgraphs m) \<and> subgraphs m ! d' = subgraphs m ! nat d"
    if "k \<in> set (concat (map g_ops (subgraphs m)))" "composite m k = Some d" "d \<noteq> - 1" for k d
    using comp that by (intro exI [of _ "nat d"]) fastforce
  with True show ?thesis by (simp add: TransferSubgraphTo_def map_nth) fastforce
next
  case False
  let ?n = "length (subgraphs m)" and ?ks = "concat (map g_ops (subgraphs m))"
  define new_inds where "new_inds = renumber (sort indices) [0..<?n] 0"
  let ?rest = "filter (\<lambda>i. i \<notin> set indices) [0..<?n]"
  define c where "c = (\<lambda>k. if k \<in> set ?ks then map_option (\<lambda>d. if d = - 1 then - 1 else new_inds ! nat d) (composite m k) else composite m k)"
  have "foldM (update_composite new_inds) ?ks (composite m) = Some c"
    unfolding c_def using ops comp by (intro update_composites) (simp_all add: new_inds_def)
  moreover have "sorted_list_of_set (set indices) = sort indices"
    using inds(1) by (simp add: sorted_list_of_set_sort_remdups distinct_remdups_id)
  ultimately have run: "TransferSubgraphTo indices (dest, m) = Some (dest @ map ((!) (subgraphs m)) (sort indices),
      \<lparr>subgraphs = map ((!) (subgraphs m)) ?rest, composite = c\<rparr>)"
    using False TransferFrom_indices_eq [OF inds(2), of dest]
    by (simp add: TransferSubgraphTo_def new_inds_def [symmetric] Let_def)
  have "if d = - 1 \<or> nat d \<in> set indices then c k = Some (- 1)
        else \<exists>d'. c k = Some (int d') \<and> d' < length (map ((!) (subgraphs m)) ?rest) \<and>
          map ((!) (subgraphs m)) ?rest ! d' = subgraphs m ! nat d"
    if k: "k \<in> set ?ks" "composite m k = Some d" for k d
  proof (cases "d = - 1")
    case False
    with comp k have d: "0 \<le> d" "nat d < ?n" by fastforce+
    have "new_inds ! nat d = (if nat d \<in> set indices then - 1 else int (nat d) - int (below (sort indices) (nat d)))"
      using renumber_nth [of "sort indices" 0 "nat d" ?n 0] inds(1) d(2) by (simp add: new_inds_def)
    moreover have "below (sort indices) (nat d) = below indices (nat d)"
      unfolding below_def by (metis filter_sort length_sort)
    moreover have "int (nat d) - int (below indices (nat d)) = int (length (filter (\<lambda>i. i \<notin> set indices) [0..<nat d]))"
      using below_kept [OF inds(1), of "nat d"] by linarith
    ultimately show ?thesis
      using k False kept_position [of "nat d" ?n "\<lambda>i. i \<notin> set indices"] d(2)
      by (auto simp: c_def)
  qed (use k in \<open>simp add: c_def\<close>)
  with run show ?thesis
    by (intro exI [of _ "\<lparr>subgraphs = map ((!) (subgraphs m)) ?rest, composite = c\<rparr>"]) (simp only: ir_model.simps, blast)
qed

text \<open>C33: Moving subgraphs out of a model succeeds, when the indices are in range and not repeated, the operations are
  different ones and every composite operation refers to a subgraph of the model or to none: the destination
  gets the subgraphs in increasing order of their indices, the others stay in their order, and a composite operation of
  a subgraph that stays refers to the same subgraph by its new number if that stays too, and to none if its
  decomposition is moved. (Composite operations of the subgraphs that are moved get numbers of the model they have
  left: \<open>TransferSubgraphTo_renumbers_moved\<close>.)\<close>

theorem TransferSubgraphTo_keeps_references:
  assumes inds: "distinct indices" "\<forall>i \<in> set indices. i < length (subgraphs m)"
    and ops: "distinct (concat (map g_ops (subgraphs m)))"
    and comp: "\<forall>k \<in> set (concat (map g_ops (subgraphs m))). \<forall>d. composite m k = Some d \<longrightarrow>
      d = - 1 \<or> 0 \<le> d \<and> d < int (length (subgraphs m))"
  shows "\<exists>m'. TransferSubgraphTo indices (dest, m) = Some (dest @ map ((!) (subgraphs m)) (sort indices), m') \<and>
    subgraphs m' = map ((!) (subgraphs m)) (filter (\<lambda>i. i \<notin> set indices) [0..<length (subgraphs m)]) \<and>
    (\<forall>k \<in> set (concat (map g_ops (subgraphs m'))). \<forall>d. composite m k = Some d \<longrightarrow>
       (if d = - 1 \<or> nat d \<in> set indices then composite m' k = Some (- 1)
        else \<exists>d'. composite m' k = Some (int d') \<and> d' < length (subgraphs m') \<and>
          subgraphs m' ! d' = subgraphs m ! nat d))"
proof -
  obtain m' where m': "TransferSubgraphTo indices (dest, m) = Some (dest @ map ((!) (subgraphs m)) (sort indices), m')"
    "subgraphs m' = map ((!) (subgraphs m)) (filter (\<lambda>i. i \<notin> set indices) [0..<length (subgraphs m)])"
    and refs: "\<forall>k \<in> set (concat (map g_ops (subgraphs m))). \<forall>d. composite m k = Some d \<longrightarrow>
       (if d = - 1 \<or> nat d \<in> set indices then composite m' k = Some (- 1)
        else \<exists>d'. composite m' k = Some (int d') \<and> d' < length (subgraphs m') \<and>
          subgraphs m' ! d' = subgraphs m ! nat d)"
    using TransferSubgraphTo_references [OF assms, of dest] by blast
  have "set (concat (map g_ops (subgraphs m'))) \<subseteq> set (concat (map g_ops (subgraphs m)))"
    unfolding m'(2) by fastforce
  with m' refs show ?thesis by (intro exI [of _ m']) blast
qed

theorem TransferSubgraphTo_keeps_references_witness:
  "case TransferSubgraphTo [2, 0] ([], \<lparr>subgraphs = [empty_graph, empty_graph\<lparr>g_ops := [7, 8]\<rparr>, empty_graph, empty_graph\<lparr>g_ops := [9]\<rparr>],
       composite = [7 \<mapsto> 3, 8 \<mapsto> 2]\<rparr>) of
     None \<Rightarrow> False
   | Some (dest, m') \<Rightarrow> dest = [empty_graph, empty_graph] \<and> composite m' 8 = Some (- 1) \<and>
       (\<exists>d. composite m' 7 = Some (int d) \<and> g_ops (subgraphs m' ! d) = [9])"
proof -
  let ?m = "\<lparr>subgraphs = [empty_graph, empty_graph\<lparr>g_ops := [7, 8]\<rparr>, empty_graph, empty_graph\<lparr>g_ops := [9]\<rparr>],
    composite = [7 \<mapsto> 3, 8 \<mapsto> 2]\<rparr>"
  have g: "g_ops empty_graph = []" by (simp add: empty_graph_def)
  have p: "distinct [2, 0 :: nat]" "\<forall>i \<in> set [2, 0]. i < length (subgraphs ?m)" "distinct (concat (map g_ops (subgraphs ?m)))"
    "\<forall>k \<in> set (concat (map g_ops (subgraphs ?m))). \<forall>d. composite ?m k = Some d \<longrightarrow> d = - 1 \<or> 0 \<le> d \<and> d < int (length (subgraphs ?m))"
    by (simp_all add: g)
  show ?thesis
    using TransferSubgraphTo_keeps_references [OF p, of "[]"] by (fastforce simp: g numeral_eq_Suc)
qed

text \<open>
  A repeated index stops the renumbering: the position in the sorted indices stays at the second
  occurrence, so that no later subgraph counts as removed, although the transfer removes them.
\<close>

lemma TransferSubgraphTo_repeated_index:
  assumes "length gs = 4" "g_ops (gs ! 0) = [7]" "\<forall>i \<in> {1, 2, 3}. g_ops (gs ! i) = []"
  shows "TransferSubgraphTo [1, 1, 2] ([], \<lparr>subgraphs = gs, composite = [7 \<mapsto> 3]\<rparr>) =
    Some ([gs ! 1, gs ! 2], \<lparr>subgraphs = [gs ! 0, gs ! 3], composite = [7 \<mapsto> 2]\<rparr>)"
proof -
  from assms(1) obtain a b c d where gs: "gs = [a, b, c, d]"
    by (auto simp: numeral_eq_Suc length_Suc_conv)
  with assms show ?thesis
    by (simp add: TransferSubgraphTo_def update_composite_def TransferFrom_indices_def upt_rec numeral_eq_Suc)
qed

text \<open>
  The references of a subgraph that is moved are renumbered too, to numbers of the model that it leaves: here operation
  \<open>7\<close> of the moved subgraph \<open>0\<close> refers to subgraph \<open>1\<close> of the model, and afterwards to number \<open>0\<close>.
\<close>

lemma TransferSubgraphTo_renumbers_moved:
  assumes "length gs = 2" "g_ops (gs ! 0) = [7]" "g_ops (gs ! 1) = []"
  shows "TransferSubgraphTo [0] ([], \<lparr>subgraphs = gs, composite = [7 \<mapsto> 1]\<rparr>) =
    Some ([gs ! 0], \<lparr>subgraphs = [gs ! 1], composite = [7 \<mapsto> 0]\<rparr>)"
proof -
  from assms(1) obtain a b where gs: "gs = [a, b]"
    by (auto simp: numeral_eq_Suc length_Suc_conv)
  with assms show ?thesis
    by (simp add: TransferSubgraphTo_def update_composite_def TransferFrom_indices_def upt_rec numeral_eq_Suc)
qed

end
