(* ===== verification/GraphBuilder.thy ===== *)
theory GraphBuilder
  imports ModelTransfer GraphIRCorrect
begin

text \<open>
  The graph builder, \<open>LiteRtBuilderT\<close> in \<^verbatim>\<open>src/litert/core/model/model.h\<close> and
  \<^verbatim>\<open>model.cc\<close>: it collects new tensors and operations and the operations to erase in a subgraph
  of its own, and applies them to a target subgraph.

  Constant data is part of the tensor, so that moving it from one buffer manager to another has no
  effect here.  The order in which the set of erased operations is iterated is a parameter.
\<close>

record LiteRtBuilderT =
  b_subgraph :: ir_graph
  b_erases :: "nat set"
  b_tensors :: "nat set"
  b_ops :: "nat set"

definition new_builder :: LiteRtBuilderT where
  "new_builder = \<lparr>b_subgraph = empty_graph, b_erases = {}, b_tensors = {}, b_ops = {}\<rparr>"

text \<open>A default-constructed operation, with the operation code assigned.\<close>

definition kDispatchOpCodeTflInd :: int where
  "kDispatchOpCodeTflInd = - 1"

definition new_op :: "LiteRtOpCode \<Rightarrow> LiteRtOpT" where
  "new_op code = \<lparr>custom_options = [], tfl_option = OtherOptions, tfl_op_code_ind = kDispatchOpCodeTflInd,
     litert_op_code = code, custom_code = [], op_inputs = [], op_outputs = []\<rparr>"

text \<open>The tensor index is not initialised; its value is the first argument.\<close>

definition BuildTensor ::
  "nat \<Rightarrow> byte list \<Rightarrow> Quantization \<Rightarrow> TensorType \<Rightarrow> string option \<Rightarrow> LiteRtBuilderT \<times> ir_heap \<Rightarrow> nat \<times> LiteRtBuilderT \<times> ir_heap" where
  "BuildTensor index0 ws q ty name = (\<lambda>(b, h).
     let (t, g, h') = EmplaceTensor \<lparr>tensor_name = (case name of None \<Rightarrow> [] | Some n \<Rightarrow> n), quantization = q,
           tensor_type = ty, tensor_index = index0, weights = ws, users = [], defining_op = None\<rparr> (b_subgraph b) h in
     (t, b\<lparr>b_subgraph := g, b_tensors := insert t (b_tensors b)\<rparr>, h'))"

definition build_input :: "nat \<Rightarrow> nat \<Rightarrow> LiteRtBuilderT \<times> ir_heap \<Rightarrow> (LiteRtBuilderT \<times> ir_heap) option" where
  "build_input k t = (\<lambda>(b, h).
     (if t \<in> b_tensors b then map_option (Pair b) (AttachInput_ir (Some t) k h)
      else do {
        op \<leftarrow> op_of h k;
        Some (b\<lparr>b_subgraph := (b_subgraph b)\<lparr>g_inputs := g_inputs (b_subgraph b) @ [t]\<rparr>\<rparr>,
              set_op k (op\<lparr>op_inputs := op_inputs op @ [Some t]\<rparr>) h) }))"

definition build_output :: "nat \<Rightarrow> nat \<Rightarrow> LiteRtBuilderT \<times> ir_heap \<Rightarrow> (LiteRtBuilderT \<times> ir_heap) option" where
  "build_output k t = (\<lambda>(b, h).
     (if t \<in> b_tensors b then map_option (Pair b) (AttachOutput_ir (Some t) k h)
      else do {
        op \<leftarrow> op_of h k;
        Some (b\<lparr>b_subgraph := (b_subgraph b)\<lparr>g_outputs := g_outputs (b_subgraph b) @ [t]\<rparr>\<rparr>,
              set_op k (op\<lparr>op_outputs := op_outputs op @ [Some t]\<rparr>) h) }))"

definition BuildOp ::
  "LiteRtOpCode \<Rightarrow> nat list \<Rightarrow> nat list \<Rightarrow> LiteRtBuilderT \<times> ir_heap \<Rightarrow> (nat \<times> LiteRtBuilderT \<times> ir_heap) option" where
  "BuildOp code inputs outputs = (\<lambda>(b, h). do {
     (k, g, h1) \<leftarrow> EmplaceOpAt (length (g_ops (b_subgraph b))) (new_op code) (b_subgraph b) h;
     s1 \<leftarrow> foldM (build_input k) inputs (b\<lparr>b_subgraph := g\<rparr>, h1);
     (b2, h2) \<leftarrow> foldM (build_output k) outputs s1;
     Some (k, b2\<lparr>b_ops := insert k (b_ops b2)\<rparr>, h2) })"

text \<open>The overload that takes an operation to clone.\<close>

definition BuildOp_like ::
  "nat \<Rightarrow> nat list \<Rightarrow> nat list \<Rightarrow> LiteRtBuilderT \<times> ir_heap \<Rightarrow> (nat \<times> LiteRtBuilderT \<times> ir_heap) option" where
  "BuildOp_like src inputs outputs = (\<lambda>(b, h). do {
     op \<leftarrow> op_of h src;
     BuildOp (litert_op_code op) inputs outputs (b, h) })"

definition EraseOp :: "nat \<Rightarrow> LiteRtBuilderT \<Rightarrow> LiteRtBuilderT" where
  "EraseOp k b = b\<lparr>b_erases := insert k (b_erases b)\<rparr>"

section \<open>The interface for plugins\<close>

text \<open>
  \<open>LiteRtBuilderBuildOp\<close> and \<open>LiteRtBuilderEraseOp\<close> of \<^verbatim>\<open>src/litert/c/litert_builder.cc\<close>, on which the patterns of
  a plugin are written; a null pointer is \<open>None\<close>.
\<close>

definition LiteRtBuilderBuildOp ::
  "LiteRtOpCode \<Rightarrow> nat option list \<Rightarrow> nat option list \<Rightarrow> LiteRtBuilderT \<times> ir_heap \<Rightarrow>
   (LiteRtStatus \<times> nat option \<times> LiteRtBuilderT \<times> ir_heap) option" where
  "LiteRtBuilderBuildOp op_code inputs outputs = (\<lambda>(b, h).
     (if None \<in> set inputs \<or> None \<in> set outputs then Some (kLiteRtStatusErrorInvalidArgument, None, b, h)
      else do {
        (k, b', h') \<leftarrow> BuildOp op_code (map the inputs) (map the outputs) (b, h);
        Some (kLiteRtStatusOk, Some k, b', h') }))"

definition LiteRtBuilderEraseOp ::
  "nat option \<Rightarrow> LiteRtBuilderT \<times> ir_heap \<Rightarrow> (LiteRtStatus \<times> LiteRtBuilderT \<times> ir_heap) option" where
  "LiteRtBuilderEraseOp op_to_erase = (\<lambda>(b, h).
     (case op_to_erase of
        None \<Rightarrow> Some (kLiteRtStatusErrorInvalidArgument, b, h)
      | Some k \<Rightarrow> do {
          h' \<leftarrow> Drop k h;
          Some (kLiteRtStatusOk, EraseOp k b, h') }))"

section \<open>Applying the changes\<close>

definition connect_input :: "ir_graph \<Rightarrow> nat \<Rightarrow> nat \<Rightarrow> ir_heap \<Rightarrow> ir_heap option" where
  "connect_input g k i h = do {
     op \<leftarrow> op_of h k;
     p \<leftarrow> at (op_inputs op) i;
     (if p \<in> Some ` set (g_inputs g) then do {
        t \<leftarrow> p;
        tt \<leftarrow> tensor_of h t;
        Some (set_tensor t (tt\<lparr>users := users tt @ [(k, i)]\<rparr>) h) }
      else Some h) }"

definition connect_output :: "ir_graph \<Rightarrow> nat \<Rightarrow> nat \<Rightarrow> ir_heap \<Rightarrow> ir_heap option" where
  "connect_output g k i h = do {
     op \<leftarrow> op_of h k;
     p \<leftarrow> at (op_outputs op) i;
     (if p \<in> Some ` set (g_outputs g) then do {
        t \<leftarrow> p;
        tt \<leftarrow> tensor_of h t;
        Some (set_tensor t (tt\<lparr>defining_op := Some (k, i)\<rparr>) h) }
      else Some h) }"

definition connect_op :: "ir_graph \<Rightarrow> nat \<Rightarrow> ir_heap \<Rightarrow> ir_heap option" where
  "connect_op g k h = do {
     op \<leftarrow> op_of h k;
     h1 \<leftarrow> foldM (connect_input g k) [0..<length (op_inputs op)] h;
     foldM (connect_output g k) [0..<length (op_outputs op)] h1 }"

definition splice_index :: "nat set \<Rightarrow> nat list \<Rightarrow> nat" where
  "splice_index erases ks = fold (\<lambda>i n. if ks ! i \<in> erases then min n i else n) [0..<length ks] (length ks)"

definition ApplyChanges ::
  "(nat set \<Rightarrow> nat list) \<Rightarrow> ir_graph \<Rightarrow> LiteRtBuilderT \<Rightarrow> ir_heap \<Rightarrow> (LiteRtBuilderT \<times> ir_graph \<times> ir_heap) option" where
  "ApplyChanges order target b h = do {
     h1 \<leftarrow> foldM Drop (order (b_erases b)) h;
     (_, g, h2) \<leftarrow> DCE (b_subgraph b) h1;
     h3 \<leftarrow> foldM (connect_op g) (g_ops g) h2;
     let (ops', no_ops) = TransferFrom_at (g_ops target) (g_ops g) (splice_index (b_erases b) (g_ops target));
     (_, target', h4) \<leftarrow> DCE (target\<lparr>g_ops := ops'\<rparr>) h3;
     let (tensors', no_tensors) = TransferFrom (g_tensors target') (g_tensors g);
     Some (\<lparr>b_subgraph = g\<lparr>g_ops := no_ops, g_tensors := no_tensors\<rparr>, b_erases = {}, b_tensors = {}, b_ops = {}\<rparr>,
           target'\<lparr>g_tensors := tensors'\<rparr>, h4) }"

section \<open>Operations that count as compiled\<close>

text \<open>\<open>GetCustomOpCode\<close> reads the table of operation codes; \<open>dispatch_name\<close> is the name of the dispatch operation.\<close>

definition IsCompiledOp :: "string \<Rightarrow> string list \<Rightarrow> LiteRtOpT \<Rightarrow> bool option" where
  "IsCompiledOp dispatch_name op_codes op =
     (if tfl_op_code_ind op = kDispatchOpCodeTflInd then Some True
      else if litert_op_code op \<noteq> kLiteRtOpCodeTflCustom then Some False
      else if 0 \<le> tfl_op_code_ind op \<and> tfl_op_code_ind op < int (length op_codes)
        then Some (op_codes ! nat (tfl_op_code_ind op) = dispatch_name) else None)"

text \<open>The index of the operation code that \<open>PackOp\<close> writes.\<close>

definition packed_opcode_index :: "int \<Rightarrow> LiteRtOpT \<Rightarrow> int" where
  "packed_opcode_index dispatch_op_code_ind op =
     (if tfl_op_code_ind op = kDispatchOpCodeTflInd then dispatch_op_code_ind else tfl_op_code_ind op)"

lemma build_fold_keeps:
  "foldM (build_input k) ts (b, h) = Some (b', h') \<Longrightarrow> op_of h k = Some op \<Longrightarrow>
     \<exists>op'. op_of h' k = Some op' \<and> tfl_op_code_ind op' = tfl_op_code_ind op \<and> custom_options op' = custom_options op \<and> tfl_option op' = tfl_option op"
  "foldM (build_output k) ts (b, h) = Some (b', h') \<Longrightarrow> op_of h k = Some op \<Longrightarrow>
     \<exists>op'. op_of h' k = Some op' \<and> tfl_op_code_ind op' = tfl_op_code_ind op \<and> custom_options op' = custom_options op \<and> tfl_option op' = tfl_option op"
proof (induction ts arbitrary: b h op)
  case (Cons t ts)
  { case 1
    then obtain s1 where s1: "build_input k t (b, h) = Some s1" "foldM (build_input k) ts s1 = Some (b', h')"
      by (auto simp: bind_eq_Some_conv)
    obtain b1 h1 where "s1 = (b1, h1)" by fastforce
    with s1(1) 1(2) obtain op1 where "op_of h1 k = Some op1" "tfl_op_code_ind op1 = tfl_op_code_ind op"
      "custom_options op1 = custom_options op" "tfl_option op1 = tfl_option op"
      by (auto simp: build_input_def AttachInput_ir_def bind_eq_Some_conv split: if_splits)
    with Cons.IH(1) [of b1 h1 op1] s1(2) \<open>s1 = (b1, h1)\<close> show ?case by auto }
  { case 2
    then obtain s1 where s1: "build_output k t (b, h) = Some s1" "foldM (build_output k) ts s1 = Some (b', h')"
      by (auto simp: bind_eq_Some_conv)
    obtain b1 h1 where "s1 = (b1, h1)" by fastforce
    with s1(1) 2(2) obtain op1 where "op_of h1 k = Some op1" "tfl_op_code_ind op1 = tfl_op_code_ind op"
      "custom_options op1 = custom_options op" "tfl_option op1 = tfl_option op"
      by (auto simp: build_output_def AttachOutput_ir_def bind_eq_Some_conv split: if_splits)
    with Cons.IH(2) [of b1 h1 op1] s1(2) \<open>s1 = (b1, h1)\<close> show ?case by auto }
qed auto

text \<open>
  An operation that the builder makes has the code index of a dispatch operation, so that it counts as
  compiled and is written as one; the overload for clones copies no options.
\<close>

lemma BuildOp_is_dispatch:
  assumes "BuildOp code inputs outputs (b, h) = Some (k, b', h')"
  shows "\<exists>op. op_of h' k = Some op \<and> IsCompiledOp dispatch_name op_codes op = Some True \<and>
    packed_opcode_index i op = i \<and> custom_options op = [] \<and> tfl_option op = OtherOptions"
proof -
  from assms obtain g h1 b1 h2 b2 where
    e: "EmplaceOpAt (length (g_ops (b_subgraph b))) (new_op code) (b_subgraph b) h = Some (k, g, h1)" and
    i: "foldM (build_input k) inputs (b\<lparr>b_subgraph := g\<rparr>, h1) = Some (b1, h2)" and
    o': "foldM (build_output k) outputs (b1, h2) = Some (b2, h')"
    by (auto simp: BuildOp_def bind_eq_Some_conv)
  from e have "op_of h1 k = Some (new_op code)" by (auto simp: EmplaceOpAt_def)
  from build_fold_keeps(1) [OF i this] obtain op1 where op1: "op_of h2 k = Some op1"
    "tfl_op_code_ind op1 = - 1" "custom_options op1 = []" "tfl_option op1 = OtherOptions"
    by (auto simp: new_op_def kDispatchOpCodeTflInd_def)
  from build_fold_keeps(2) [OF o' op1(1)] op1 obtain op where "op_of h' k = Some op"
    "tfl_op_code_ind op = - 1" "custom_options op = []" "tfl_option op = OtherOptions" by auto
  then show ?thesis
    by (intro exI [of _ op]) (simp add: IsCompiledOp_def packed_opcode_index_def kDispatchOpCodeTflInd_def)
qed

end
