(* ===== verification/GraphBuilderCorrect.thy ===== *)
theory GraphBuilderCorrect
  imports GraphBuilder OutlinePartition
begin

text \<open>
  Applying the changes of a builder keeps the target well linked: dropping the erased operations,
  connecting the new ones to the tensors of the target, and splicing them in.
\<close>

section \<open>Connecting\<close>

definition positions_of :: "nat option list \<Rightarrow> nat \<Rightarrow> nat list \<Rightarrow> nat list" where
  "positions_of ps t is = filter (\<lambda>i. ps ! i = Some t) is"

definition edges :: "(nat \<Rightarrow> nat option list) \<Rightarrow> nat list \<Rightarrow> nat \<Rightarrow> (nat \<times> nat) list" where
  "edges ps ks t = concat (map (\<lambda>k. map (Pair k) (positions_of (ps k) t [0..<length (ps k)])) ks)"

lemma set_edges: "(k, i) \<in> set (edges ps ks t) \<longleftrightarrow> k \<in> set ks \<and> i < length (ps k) \<and> ps k ! i = Some t"
  by (auto simp: edges_def positions_of_def)

lemma distinct_edges: "distinct ks \<Longrightarrow> distinct (edges ps ks t)"
proof (induction ks)
  case (Cons k ks)
  have "distinct (map (Pair k) (positions_of (ps k) t [0..<length (ps k)]))"
    by (simp add: distinct_map positions_of_def inj_on_def)
  moreover have "set (map (Pair k) (positions_of (ps k) t [0..<length (ps k)])) \<inter> set (edges ps ks t) = {}"
    using Cons.prems set_edges [of _ _ ps ks t] by auto
  ultimately show ?case using Cons by (simp add: edges_def)
qed (simp add: edges_def)

text \<open>Uses and definitions are added to what a tensor has; nothing else changes.\<close>

definition linked_up :: "ir_heap \<Rightarrow> ir_heap \<Rightarrow> (nat \<Rightarrow> (nat \<times> nat) list) \<Rightarrow> (nat \<Rightarrow> (nat \<times> nat) list) \<Rightarrow> bool" where
  "linked_up h h' us ds \<longleftrightarrow> op_of h' = op_of h \<and> dom (tensor_of h') = dom (tensor_of h) \<and>
     (\<forall>t. tensor_of h t \<noteq> None \<longrightarrow> uses h' t = uses h t @ us t \<and>
        definer h' t = (if ds t = [] then definer h t else Some (last (ds t))))"

lemma linked_up_trans:
  assumes "linked_up h h' us ds" "linked_up h' h'' us' ds'"
  shows "linked_up h h'' (\<lambda>t. us t @ us' t) (\<lambda>t. ds t @ ds' t)"
proof -
  have "tensor_of h' t \<noteq> None \<longleftrightarrow> tensor_of h t \<noteq> None" for t
    using assms(1) unfolding linked_up_def by (metis domIff)
  with assms show ?thesis by (auto simp: linked_up_def)
qed

lemma linked_up_ins: "linked_up h h' us ds \<Longrightarrow> ins h' = ins h" "linked_up h h' us ds \<Longrightarrow> outs h' = outs h"
  by (auto simp: linked_up_def ins_def outs_def fun_eq_iff)

lemma linked_up_alloc: "linked_up h h' us ds \<Longrightarrow> tensor_of h t \<noteq> None \<Longrightarrow> tensor_of h' t \<noteq> None"
  unfolding linked_up_def by (metis domIff)

abbreviation only :: "nat set \<Rightarrow> nat \<Rightarrow> 'a list \<Rightarrow> 'a list" where
  "only X t xs \<equiv> (if t \<in> X then xs else [])"

lemma connect_inputs:
  assumes "\<forall>i \<in> set is. i < length (ins h k)" "op_of h k \<noteq> None"
    and "\<forall>t \<in> set (g_inputs g). tensor_of h t \<noteq> None"
  shows "\<exists>h'. foldM (connect_input g k) is h = Some h' \<and>
    linked_up h h' (\<lambda>t. only (set (g_inputs g)) t (map (Pair k) (positions_of (ins h k) t is))) (\<lambda>_. [])"
  using assms
proof (induction "is" arbitrary: h)
  case Nil
  then show ?case by (simp add: linked_up_def positions_of_def)
next
  case (Cons i js)
  from Cons.prems(2) obtain op where op: "op_of h k = Some op" by blast
  with Cons.prems(1) have i: "i < length (op_inputs op)" by simp
  define us where "us t = only (set (g_inputs g)) t (map (Pair k) (positions_of (ins h k) t [i]))" for t
  have "\<exists>h1. connect_input g k i h = Some h1 \<and> linked_up h h1 us (\<lambda>_. [])"
  proof (cases "op_inputs op ! i \<in> Some ` set (g_inputs g)")
    case True
    then obtain t where t: "op_inputs op ! i = Some t" "t \<in> set (g_inputs g)" by auto
    with Cons.prems(3) obtain tt where tt: "tensor_of h t = Some tt" by auto
    define h1 where "h1 = set_tensor t (tt\<lparr>users := users tt @ [(k, i)]\<rparr>) h"
    have "connect_input g k i h = Some h1"
      using op i t tt by (simp add: connect_input_def at_def h1_def)
    moreover have "linked_up h h1 us (\<lambda>_. [])"
      using op t tt by (auto simp: linked_up_def h1_def us_def positions_of_def insert_absorb dom_def)
    ultimately show ?thesis by blast
  next
    case False
    then have "us t = []" for t using op by (auto simp: us_def positions_of_def)
    moreover have "connect_input g k i h = Some h" using op i False by (simp add: connect_input_def at_def)
    ultimately show ?thesis by (simp add: linked_up_def)
  qed
  then obtain h1 where h1: "connect_input g k i h = Some h1" "linked_up h h1 us (\<lambda>_. [])" by blast
  have "op_of h1 k \<noteq> None" using h1(2) op by (simp add: linked_up_def)
  moreover have "\<forall>t \<in> set (g_inputs g). tensor_of h1 t \<noteq> None" using linked_up_alloc [OF h1(2)] Cons.prems(3) by blast
  ultimately obtain h' where h': "foldM (connect_input g k) js h1 = Some h'"
    "linked_up h1 h' (\<lambda>t. only (set (g_inputs g)) t (map (Pair k) (positions_of (ins h k) t js))) (\<lambda>_. [])"
    using Cons.IH [of h1, unfolded linked_up_ins(1) [OF h1(2)]] Cons.prems(1) by auto
  have "(\<lambda>t. us t @ only (set (g_inputs g)) t (map (Pair k) (positions_of (ins h k) t js))) =
      (\<lambda>t. only (set (g_inputs g)) t (map (Pair k) (positions_of (ins h k) t (i # js))))"
    by (auto simp: us_def positions_of_def fun_eq_iff)
  with linked_up_trans [OF h1(2) h'(2)] h1(1) h'(1) show ?case by auto
qed

lemma connect_outputs:
  assumes "\<forall>i \<in> set is. i < length (outs h k)" "op_of h k \<noteq> None"
    and "\<forall>t \<in> set (g_outputs g). tensor_of h t \<noteq> None"
  shows "\<exists>h'. foldM (connect_output g k) is h = Some h' \<and>
    linked_up h h' (\<lambda>_. []) (\<lambda>t. only (set (g_outputs g)) t (map (Pair k) (positions_of (outs h k) t is)))"
  using assms
proof (induction "is" arbitrary: h)
  case Nil
  then show ?case by (simp add: linked_up_def positions_of_def)
next
  case (Cons i js)
  from Cons.prems(2) obtain op where op: "op_of h k = Some op" by blast
  with Cons.prems(1) have i: "i < length (op_outputs op)" by simp
  define ds where "ds t = only (set (g_outputs g)) t (map (Pair k) (positions_of (outs h k) t [i]))" for t
  have "\<exists>h1. connect_output g k i h = Some h1 \<and> linked_up h h1 (\<lambda>_. []) ds"
  proof (cases "op_outputs op ! i \<in> Some ` set (g_outputs g)")
    case True
    then obtain t where t: "op_outputs op ! i = Some t" "t \<in> set (g_outputs g)" by auto
    with Cons.prems(3) obtain tt where tt: "tensor_of h t = Some tt" by auto
    define h1 where "h1 = set_tensor t (tt\<lparr>defining_op := Some (k, i)\<rparr>) h"
    have "connect_output g k i h = Some h1"
      using op i t tt by (simp add: connect_output_def at_def h1_def)
    moreover have "linked_up h h1 (\<lambda>_. []) ds"
      using op t tt by (auto simp: linked_up_def h1_def ds_def positions_of_def insert_absorb dom_def)
    ultimately show ?thesis by blast
  next
    case False
    then have "ds t = []" for t using op by (auto simp: ds_def positions_of_def)
    moreover have "connect_output g k i h = Some h" using op i False by (simp add: connect_output_def at_def)
    ultimately show ?thesis by (simp add: linked_up_def)
  qed
  then obtain h1 where h1: "connect_output g k i h = Some h1" "linked_up h h1 (\<lambda>_. []) ds" by blast
  have "op_of h1 k \<noteq> None" using h1(2) op by (simp add: linked_up_def)
  moreover have "\<forall>t \<in> set (g_outputs g). tensor_of h1 t \<noteq> None" using linked_up_alloc [OF h1(2)] Cons.prems(3) by blast
  ultimately obtain h' where h': "foldM (connect_output g k) js h1 = Some h'"
    "linked_up h1 h' (\<lambda>_. []) (\<lambda>t. only (set (g_outputs g)) t (map (Pair k) (positions_of (outs h k) t js)))"
    using Cons.IH [of h1, unfolded linked_up_ins(2) [OF h1(2)]] Cons.prems(1) by auto
  have "(\<lambda>t. ds t @ only (set (g_outputs g)) t (map (Pair k) (positions_of (outs h k) t js))) =
      (\<lambda>t. only (set (g_outputs g)) t (map (Pair k) (positions_of (outs h k) t (i # js))))"
    by (auto simp: ds_def positions_of_def fun_eq_iff)
  with linked_up_trans [OF h1(2) h'(2)] h1(1) h'(1) show ?case by auto
qed

lemma connect_ops:
  assumes "\<forall>k \<in> set ks. op_of h k \<noteq> None"
    and "\<forall>t \<in> set (g_inputs g) \<union> set (g_outputs g). tensor_of h t \<noteq> None"
  shows "\<exists>h'. foldM (connect_op g) ks h = Some h' \<and>
    linked_up h h' (\<lambda>t. only (set (g_inputs g)) t (edges (ins h) ks t)) (\<lambda>t. only (set (g_outputs g)) t (edges (outs h) ks t))"
  using assms
proof (induction ks arbitrary: h)
  case Nil
  then show ?case by (simp add: linked_up_def edges_def)
next
  case (Cons k ks)
  from Cons.prems(1) obtain op where op: "op_of h k = Some op" by auto
  let ?is = "[0..<length (op_inputs op)]" and ?os = "[0..<length (op_outputs op)]"
  have "\<exists>h1. foldM (connect_input g k) ?is h = Some h1 \<and>
    linked_up h h1 (\<lambda>t. only (set (g_inputs g)) t (map (Pair k) (positions_of (ins h k) t ?is))) (\<lambda>_. [])"
    using op Cons.prems(2) by (intro connect_inputs) auto
  then obtain h1 where h1: "foldM (connect_input g k) ?is h = Some h1"
    "linked_up h h1 (\<lambda>t. only (set (g_inputs g)) t (map (Pair k) (positions_of (ins h k) t ?is))) (\<lambda>_. [])" by blast
  have al1: "\<forall>t \<in> set (g_inputs g) \<union> set (g_outputs g). tensor_of h1 t \<noteq> None"
    using linked_up_alloc [OF h1(2)] Cons.prems(2) by blast
  have op1: "op_of h1 = op_of h" using h1(2) by (simp add: linked_up_def)
  have "\<exists>h2. foldM (connect_output g k) ?os h1 = Some h2 \<and>
    linked_up h1 h2 (\<lambda>_. []) (\<lambda>t. only (set (g_outputs g)) t (map (Pair k) (positions_of (outs h1 k) t ?os)))"
    using op op1 al1 by (intro connect_outputs) auto
  from this [unfolded linked_up_ins(2) [OF h1(2)]] obtain h2 where h2: "foldM (connect_output g k) ?os h1 = Some h2"
    "linked_up h1 h2 (\<lambda>_. []) (\<lambda>t. only (set (g_outputs g)) t (map (Pair k) (positions_of (outs h k) t ?os)))" by blast
  have step: "connect_op g k h = Some h2" using op h1(1) h2(1) by (simp add: connect_op_def)
  have op2: "op_of h2 = op_of h" using h2(2) op1 by (simp add: linked_up_def)
  have al2: "\<forall>t \<in> set (g_inputs g) \<union> set (g_outputs g). tensor_of h2 t \<noteq> None"
    using linked_up_alloc [OF h2(2)] al1 by blast
  have io2: "ins h2 = ins h" "outs h2 = outs h" using op2 by (simp_all add: ins_def outs_def fun_eq_iff)
  from Cons.IH [of h2, unfolded io2] Cons.prems(1) op2 al2 obtain h' where h': "foldM (connect_op g) ks h2 = Some h'"
    "linked_up h2 h' (\<lambda>t. only (set (g_inputs g)) t (edges (ins h) ks t)) (\<lambda>t. only (set (g_outputs g)) t (edges (outs h) ks t))" by auto
  from linked_up_trans [OF linked_up_trans [OF h1(2) h2(2)] h'(2)]
  have "linked_up h h' (\<lambda>t. only (set (g_inputs g)) t (edges (ins h) (k # ks) t)) (\<lambda>t. only (set (g_outputs g)) t (edges (outs h) (k # ks) t))"
    using op by (simp add: edges_def linked_up_def)
  with step h'(1) show ?case by simp
qed

section \<open>The builder's subgraph\<close>

text \<open>
  The builder's tensors are linked to the builder's operations; the operands of these operations that
  are not the builder's own are the inputs and outputs of its subgraph and tensors of the target; a
  tensor of the target that the builder defines is defined once, and its definition in the target, if
  any, is by one of the operations in \<open>E\<close>.
\<close>

definition builder_linked :: "ir_heap \<Rightarrow> ir_graph \<Rightarrow> ir_graph \<Rightarrow> bool" where
  "builder_linked h g bg \<longleftrightarrow> distinct (g_ops bg) \<and> distinct (g_tensors bg) \<and>
     set (g_ops bg) \<inter> set (g_ops g) = {} \<and> set (g_tensors bg) \<inter> set (g_tensors g) = {} \<and>
     (\<forall>t \<in> set (g_tensors bg). tensor_linked h (g_ops bg) t) \<and>
     (\<forall>k \<in> set (g_ops bg). op_of h k \<noteq> None \<and>
        set (ins h k) \<subseteq> Some ` (set (g_tensors bg) \<union> set (g_inputs bg)) \<and>
        set (outs h k) \<subseteq> Some ` (set (g_tensors bg) \<union> set (g_outputs bg))) \<and>
     set (g_inputs bg) \<union> set (g_outputs bg) \<subseteq> set (g_tensors g)"

definition builder_ok :: "ir_heap \<Rightarrow> ir_graph \<Rightarrow> ir_graph \<Rightarrow> nat set \<Rightarrow> bool" where
  "builder_ok h g bg E \<longleftrightarrow> builder_linked h g bg \<and>
     (\<forall>t \<in> set (g_outputs bg). (\<forall>k j. definer h t = Some (k, j) \<longrightarrow> k \<in> E) \<and>
        (\<forall>e \<in> set (edges (outs h) (g_ops bg) t). \<forall>e' \<in> set (edges (outs h) (g_ops bg) t). e = e'))"

lemma builder_okD:
  assumes "builder_ok h g bg E"
  shows "distinct (g_ops bg)" "distinct (g_tensors bg)" "set (g_ops bg) \<inter> set (g_ops g) = {}"
    "set (g_tensors bg) \<inter> set (g_tensors g) = {}"
    "t \<in> set (g_tensors bg) \<Longrightarrow> tensor_linked h (g_ops bg) t"
    "k \<in> set (g_ops bg) \<Longrightarrow> op_of h k \<noteq> None"
    "k \<in> set (g_ops bg) \<Longrightarrow> set (ins h k) \<subseteq> Some ` (set (g_tensors bg) \<union> set (g_inputs bg))"
    "k \<in> set (g_ops bg) \<Longrightarrow> set (outs h k) \<subseteq> Some ` (set (g_tensors bg) \<union> set (g_outputs bg))"
    "set (g_inputs bg) \<subseteq> set (g_tensors g)" "set (g_outputs bg) \<subseteq> set (g_tensors g)"
    "t \<in> set (g_outputs bg) \<Longrightarrow> definer h t = Some (k, j) \<Longrightarrow> k \<in> E"
    "t \<in> set (g_outputs bg) \<Longrightarrow> e \<in> set (edges (outs h) (g_ops bg) t) \<Longrightarrow> e' \<in> set (edges (outs h) (g_ops bg) t) \<Longrightarrow> e = e'"
  using assms unfolding builder_ok_def builder_linked_def by blast+

text \<open>The same objects of the builder in another state.\<close>

lemma builder_ok_frame:
  assumes ok: "builder_ok h g bg E"
    and t: "\<forall>t \<in> set (g_tensors bg). tensor_of h' t = tensor_of h t"
    and k: "\<forall>k \<in> set (g_ops bg). op_of h' k = op_of h k"
    and d: "\<forall>t \<in> set (g_outputs bg). \<forall>k j. definer h' t = Some (k, j) \<longrightarrow> k \<in> E'"
  shows "builder_ok h' g bg E'"
proof -
  note bD = builder_okD [OF ok]
  have io: "ins h' k = ins h k" "outs h' k = outs h k" if "k \<in> set (g_ops bg)" for k
    using k that by (simp_all add: ins_def outs_def)
  then have e: "edges (outs h') (g_ops bg) t = edges (outs h) (g_ops bg) t" for t
    unfolding edges_def by (intro arg_cong [where f = concat] map_cong) simp_all
  have "tensor_linked h' (g_ops bg) x" if "x \<in> set (g_tensors bg)" for x
  proof -
    have "tensor_of h' x = tensor_of h x" using t that by blast
    then show ?thesis using bD(5) [OF that] io by (auto simp: tensor_linked_def uses_def definer_def)
  qed
  moreover have "op_of h' x \<noteq> None" if "x \<in> set (g_ops bg)" for x using bD(6) [OF that] k that by simp
  ultimately show ?thesis
    using bD io d unfolding builder_ok_def builder_linked_def e by (metis Un_subset_iff)
qed

lemma set_edges_swept:
  assumes s: "swept bg h = (bg', h2)"
  shows "set (edges (outs h2) (g_ops bg') t) \<subseteq> set (edges (outs h) (g_ops bg) t)"
proof
  fix e assume "e \<in> set (edges (outs h2) (g_ops bg') t)"
  moreover obtain k j where kj: "e = (k, j)" by fastforce
  ultimately have e: "e = (k, j)" "k \<in> set (g_ops bg')" "j < length (outs h2 k)" "outs h2 k ! j = Some t"
    by (simp_all add: set_edges)
  then have "k \<in> set (g_ops bg)" "\<not> dead_op h k" using swept_frame(8) [OF s] by auto
  with swept_links(4) [OF s this(2)] e show "e \<in> set (edges (outs h) (g_ops bg) t)" by (simp add: set_edges)
qed

lemma builder_swept:
  assumes ok: "builder_ok h g bg E" and s: "swept bg h = (bg', h2)"
  shows "builder_ok h2 g bg' E"
    "\<forall>k \<in> set (g_ops bg'). \<not> dead_op h2 k" "\<forall>t \<in> set (g_tensors bg'). uses h2 t \<noteq> [] \<or> definer h2 t \<noteq> None"
proof -
  note bD = builder_okD [OF ok] and fr = swept_frame [OF s] and sl = swept_links [OF s]
  have live_op: "k \<in> set (g_ops bg)" "\<not> dead_op h k" if "k \<in> set (g_ops bg')" for k using that fr(8) by auto
  have tensors': "t \<in> set (g_tensors bg') \<longleftrightarrow> t \<in> set (g_tensors bg) \<and> \<not> dead_tensor h bg t" for t
    using s by (auto simp: swept_def)
  have own: "t \<notin> set (g_inputs bg) \<union> set (g_outputs bg)" if "t \<in> set (g_tensors bg)" for t
    using bD(4,9,10) that by blast
  have live_t: "t \<in> set (g_tensors bg')"
    if t: "t \<in> set (g_tensors bg)" and k: "k \<in> set (g_ops bg)" "Some t \<in> set (ins h k) \<union> set (outs h k)" for t k
  proof -
    note lk = linkedD(3,4) [OF bD(5) [OF t]]
    from k(2) obtain i where "i < length (ins h k) \<and> ins h k ! i = Some t \<or> i < length (outs h k) \<and> outs h k ! i = Some t"
      by (auto simp: in_set_conv_nth)
    with lk [of k i] k(1) have "uses h t \<noteq> [] \<or> definer h t \<noteq> None" by auto
    with t show ?thesis by (simp add: tensors' dead_tensor_def)
  qed
  have opnd: "set (ins h2 k) \<subseteq> Some ` (set (g_tensors bg') \<union> set (g_inputs bg'))"
    "set (outs h2 k) \<subseteq> Some ` (set (g_tensors bg') \<union> set (g_outputs bg'))" if k: "k \<in> set (g_ops bg')" for k
  proof -
    note l = live_op [OF k] and io = sl(3,4) [OF live_op(2) [OF k]]
    show "set (ins h2 k) \<subseteq> Some ` (set (g_tensors bg') \<union> set (g_inputs bg'))"
    proof
      fix p assume p: "p \<in> set (ins h2 k)"
      with bD(7) [OF l(1)] io(1) obtain t where "p = Some t" "t \<in> set (g_tensors bg) \<union> set (g_inputs bg)" by auto
      with live_t [of t k] l(1) p io(1) fr(6) show "p \<in> Some ` (set (g_tensors bg') \<union> set (g_inputs bg'))" by auto
    qed
    show "set (outs h2 k) \<subseteq> Some ` (set (g_tensors bg') \<union> set (g_outputs bg'))"
    proof
      fix p assume p: "p \<in> set (outs h2 k)"
      with bD(8) [OF l(1)] io(2) obtain t where "p = Some t" "t \<in> set (g_tensors bg) \<union> set (g_outputs bg)" by auto
      with live_t [of t k] l(1) p io(2) fr(7) show "p \<in> Some ` (set (g_tensors bg') \<union> set (g_outputs bg'))" by auto
    qed
  qed
  have "op_of h2 k \<noteq> None" if "k \<in> set (g_ops bg')" for k using sl(1) [OF that] bD(6) [OF live_op(1) [OF that]] by simp
  moreover have "tensor_linked h2 (g_ops bg') t" if "t \<in> set (g_tensors bg')" for t
    using linked_swept [OF bD(5) s that] that tensors' by blast
  moreover have "definer h2 t = definer h t" if "t \<in> set (g_outputs bg)" for t
  proof -
    have "t \<notin> set (g_tensors bg)" using bD(4,10) that by blast
    then show ?thesis using fr(1) by (simp add: definer_def)
  qed
  moreover have "distinct (g_ops bg')" "distinct (g_tensors bg')" using s bD(1,2) by (auto simp: swept_def)
  moreover have "set (g_ops bg') \<subseteq> set (g_ops bg)" using live_op by blast
  moreover have "\<forall>e \<in> set (edges (outs h2) (g_ops bg') t). \<forall>e' \<in> set (edges (outs h2) (g_ops bg') t). e = e'"
    if "t \<in> set (g_outputs bg)" for t
    using bD(12) [OF that] set_edges_swept [OF s, of t] by blast
  moreover have "set (g_ops bg') \<inter> set (g_ops g) = {}" "set (g_tensors bg') \<inter> set (g_tensors g) = {}"
    using bD(3,4) fr(9) live_op by blast+
  ultimately show "builder_ok h2 g bg' E"
    using opnd bD(9-11) fr(6,7) unfolding builder_ok_def builder_linked_def by simp
  show "\<forall>k \<in> set (g_ops bg'). \<not> dead_op h2 k" using live_op sl(3,4) by (auto simp: dead_op_def)
  show "\<forall>t \<in> set (g_tensors bg'). uses h2 t \<noteq> [] \<or> definer h2 t \<noteq> None"
    using tensors' own sl(2) by (auto simp: dead_tensor_def uses_def definer_def)
qed

section \<open>The target with the new operations\<close>

lemma well_linked_combined:
  assumes wl: "well_linked h g" and ok: "builder_ok h g bg {}"
    and up: "linked_up h h3 (\<lambda>t. only (set (g_inputs bg)) t (edges (ins h) (g_ops bg) t))
      (\<lambda>t. only (set (g_outputs bg)) t (edges (outs h) (g_ops bg) t))"
    and ks: "mset ks = mset (g_ops g) + mset (g_ops bg)"
  shows "well_linked h3 (g\<lparr>g_ops := ks, g_tensors := g_tensors g @ g_tensors bg\<rparr>)"
proof -
  note wlD = well_linkedD [OF wl] and bD = builder_okD [OF ok] and io = linked_up_ins [OF up]
  have set_ks: "set ks = set (g_ops g) \<union> set (g_ops bg)" using arg_cong [OF ks, of set_mset] by simp
  have up': "uses h3 t = uses h t @ only (set (g_inputs bg)) t (edges (ins h) (g_ops bg) t)"
    "definer h3 t = (if only (set (g_outputs bg)) t (edges (outs h) (g_ops bg) t) = [] then definer h t
       else Some (last (edges (outs h) (g_ops bg) t)))" "tensor_of h3 t \<noteq> None" if "tensor_of h t \<noteq> None" for t
    using up linked_up_alloc [OF up that] that by (auto simp: linked_up_def)
  have "distinct ks"
  proof -
    have "mset ks = mset (g_ops g @ g_ops bg)" using ks by simp
    then show ?thesis using wlD(1) bD(1,3) mset_eq_imp_distinct_iff by fastforce
  qed
  moreover have "op_of h3 k \<noteq> None" if "k \<in> set ks" for k
    using that up wlD(3) [of k] bD(6) [of k] by (auto simp: set_ks linked_up_def)
  moreover have "set (ins h3 k) \<subseteq> Some ` (set (g_tensors g) \<union> set (g_tensors bg))"
    "set (outs h3 k) \<subseteq> Some ` (set (g_tensors g) \<union> set (g_tensors bg))" if "k \<in> set ks" for k
    using that wlD(4,5) [of k] bD(7,8) [of k] bD(9,10) unfolding set_ks io by blast+
  moreover have "tensor_linked h3 ks t" if t: "t \<in> set (g_tensors g)" for t
  proof -
    note lk = linkedD [OF wlD(6) [OF t]]
    have al: "tensor_of h t \<noteq> None" using lk(1) by auto
    have own: "t \<notin> set (g_tensors bg)" using t bD(4) by blast
    have not_in: "t \<in> set (g_inputs bg)" if "k \<in> set (g_ops bg)" "i < length (ins h k)" "ins h k ! i = Some t" for k i
      using bD(7) [OF that(1)] nth_mem [OF that(2)] that(3) own by auto
    have not_out: "t \<in> set (g_outputs bg)" if "k \<in> set (g_ops bg)" "i < length (outs h k)" "outs h k ! i = Some t" for k i
      using bD(8) [OF that(1)] nth_mem [OF that(2)] that(3) own by auto
    have "(k, i) \<in> set (uses h3 t) \<longleftrightarrow> k \<in> set ks \<and> i < length (ins h3 k) \<and> ins h3 k ! i = Some t" for k i
      using lk(3) [of k i] not_in [of k i] by (auto simp: up'(1) [OF al] set_ks io set_edges)
    moreover have "distinct (uses h3 t)"
    proof -
      have "fst u \<in> set (g_ops g)" if "u \<in> set (uses h t)" for u using lk(3) [of "fst u" "snd u"] that by simp
      moreover have "fst u \<in> set (g_ops bg)" if "u \<in> set (edges (ins h) (g_ops bg) t)" for u
        using that set_edges [of "fst u" "snd u"] by simp
      ultimately have "set (uses h t) \<inter> set (edges (ins h) (g_ops bg) t) = {}" using bD(3) by blast
      then show ?thesis using lk(2) distinct_edges [OF bD(1)] by (simp add: up'(1) [OF al])
    qed
    moreover have "definer h3 t = Some (k, j) \<longleftrightarrow> k \<in> set ks \<and> j < length (outs h3 k) \<and> outs h3 k ! j = Some t" for k j
    proof (cases "only (set (g_outputs bg)) t (edges (outs h) (g_ops bg) t) = []")
      case True
      then have "\<not> (k \<in> set (g_ops bg) \<and> j < length (outs h k) \<and> outs h k ! j = Some t)"
        using not_out [of k j] set_edges [of k j "outs h" "g_ops bg" t] by (auto split: if_splits)
      with True lk(4) [of k j] show ?thesis by (auto simp: up'(2) [OF al] set_ks io)
    next
      case False
      then have o': "t \<in> set (g_outputs bg)" "edges (outs h) (g_ops bg) t \<noteq> []" by (auto split: if_splits)
      then have "definer h t = None" using bD(11) [OF o'(1)] by (cases "definer h t") auto
      then have none: "\<not> (k \<in> set (g_ops g) \<and> j < length (outs h k) \<and> outs h k ! j = Some t)" using lk(4) [of k j] by simp
      have "last (edges (outs h) (g_ops bg) t) = (k, j) \<longleftrightarrow> (k, j) \<in> set (edges (outs h) (g_ops bg) t)"
        using last_in_set [OF o'(2)] bD(12) [OF o'(1)] by metis
      with False none show ?thesis by (auto simp: up'(2) [OF al] set_ks io set_edges)
    qed
    ultimately show ?thesis using up'(3) [OF al] unfolding tensor_linked_def by blast
  qed
  moreover have "tensor_linked h3 ks t" if t: "t \<in> set (g_tensors bg)" for t
  proof -
    note lk = linkedD [OF bD(5) [OF t]]
    have al: "tensor_of h t \<noteq> None" using lk(1) by auto
    have own: "t \<notin> set (g_tensors g)" using t bD(4) by blast
    then have e: "uses h3 t = uses h t" "definer h3 t = definer h t"
      using bD(9,10) by (auto simp: up'(1,2) [OF al])
    have "\<not> (k \<in> set (g_ops g) \<and> i < length (ins h k) \<and> ins h k ! i = Some t)" for k i
      using wlD(4) [of k] own nth_mem by fastforce
    moreover have "\<not> (k \<in> set (g_ops g) \<and> i < length (outs h k) \<and> outs h k ! i = Some t)" for k i
      using wlD(5) [of k] own nth_mem by fastforce
    ultimately show ?thesis
      using lk up'(3) [OF al] unfolding tensor_linked_def e io set_ks by blast
  qed
  ultimately show ?thesis
    using wlD(2,7,8) bD(2,4) unfolding well_linked_def by auto
qed

section \<open>Splicing\<close>

lemma splice_fold:
  "fold (\<lambda>i n. if P i then min n i else n) js (n::nat) = fold min (filter P js) n"
  by (induction js arbitrary: n) (simp_all add: min.commute)

lemma fold_min_first: "\<forall>j \<in> set js. (n::nat) \<le> j \<Longrightarrow> fold min js n = n"
  by (induction js) (simp_all add: min_absorb1)

text \<open>The new operations go before the first erased operation, or to the end.\<close>

lemma splice_index_first: "splice_index E ks = length (takeWhile (\<lambda>k. k \<notin> E) ks)"
proof -
  let ?P = "\<lambda>i. ks ! i \<in> E" and ?n = "length (takeWhile (\<lambda>k. k \<notin> E) ks)"
  have le: "?n \<le> length ks" by (rule length_takeWhile_le)
  have s: "splice_index E ks = fold min (filter ?P [0..<length ks]) (length ks)"
    by (simp add: splice_index_def splice_fold)
  have "ks ! i \<notin> E" if "i < ?n" for i
    using set_takeWhileD [OF nth_mem [OF that]] takeWhile_nth [OF that] by simp
  then have before: "filter ?P [0..<?n] = []" by (simp add: filter_empty_conv)
  have split: "[0..<length ks] = [0..<?n] @ [?n..<length ks]"
    using le upt_add_eq_append [of 0 ?n "length ks - ?n"] by simp
  show ?thesis
  proof (cases "?n = length ks")
    case True
    with before have "filter ?P [0..<length ks] = []" by metis
    with True show ?thesis by (simp add: s)
  next
    case False
    then have lt: "?n < length ks" using le by simp
    then have "ks ! ?n \<in> E" using nth_length_takeWhile [of "\<lambda>k. k \<notin> E" ks] by simp
    then have "filter ?P [0..<length ks] = ?n # filter ?P [Suc ?n..<length ks]"
      unfolding split filter_append before using lt by (simp add: upt_conv_Cons)
    then have "splice_index E ks = fold min (filter ?P [Suc ?n..<length ks]) ?n"
      using lt by (simp add: s min_absorb2)
    also have "\<dots> = ?n" by (rule fold_min_first) auto
    finally show ?thesis .
  qed
qed

lemma TransferFrom_at_splice:
  "TransferFrom_at ks new (splice_index E ks) = (takeWhile (\<lambda>k. k \<notin> E) ks @ new @ dropWhile (\<lambda>k. k \<notin> E) ks, [])"
proof -
  have "length (takeWhile (\<lambda>k. k \<notin> E) ks) \<le> length ks" by (rule length_takeWhile_le)
  then show ?thesis
    by (auto simp: TransferFrom_at_def splice_index_first Let_def takeWhile_eq_take [symmetric] dropWhile_eq_drop [symmetric])
qed

section \<open>Applying the changes\<close>

text \<open>The two subgraphs after the erased operations are dropped.\<close>

lemma apply_dropped:
  assumes wl: "well_linked h g" and ok: "builder_ok h g bg E" and er: "set ks = E" "E \<subseteq> set (g_ops g)"
  shows "\<exists>h1. foldM Drop ks h = Some h1 \<and> well_linked h1 g \<and> builder_ok h1 g bg {} \<and>
    (\<forall>k. dead_op h1 k \<longleftrightarrow> k \<in> E \<or> dead_op h k) \<and>
    (\<forall>t. t \<notin> set (g_tensors g) \<longrightarrow> tensor_of h1 t = tensor_of h t)"
proof -
  have "set ks \<subseteq> set (g_ops g)" using er by simp
  from Drop_all [OF wl this] er(1) obtain h1 where h1: "foldM Drop ks h = Some h1" "well_linked h1 g"
    "\<forall>k. op_of h1 k = (if k \<in> E then map_option cleared (op_of h k) else op_of h k)"
    "\<forall>t \<in> set (g_tensors g). definer h1 t =
       (case definer h t of None \<Rightarrow> None | Some (k, j) \<Rightarrow> if k \<in> E then None else Some (k, j))"
    "\<forall>t. t \<notin> set (g_tensors g) \<longrightarrow> tensor_of h1 t = tensor_of h t" by auto
  note bD = builder_okD [OF ok]
  have "builder_ok h1 g bg {}"
  proof (rule builder_ok_frame [OF ok])
    show "\<forall>t \<in> set (g_tensors bg). tensor_of h1 t = tensor_of h t" using h1(5) bD(4) by blast
    show "\<forall>k \<in> set (g_ops bg). op_of h1 k = op_of h k" using h1(3) bD(3) er(2) by auto
    show "\<forall>t \<in> set (g_outputs bg). \<forall>k j. definer h1 t = Some (k, j) \<longrightarrow> k \<in> {}"
    proof (intro ballI allI impI)
      fix t k j assume t: "t \<in> set (g_outputs bg)" "definer h1 t = Some (k, j)"
      with h1(4) bD(10) have "(case definer h t of None \<Rightarrow> None | Some (k, j) \<Rightarrow> if k \<in> E then None else Some (k, j)) = Some (k, j)"
        by auto
      with bD(11) [OF t(1)] show "k \<in> {}" by (auto split: option.splits if_splits)
    qed
  qed
  moreover have "dead_op h1 k \<longleftrightarrow> k \<in> E \<or> dead_op h k" for k
    using h1(3) by (auto simp: dead_op_def ins_def outs_def cleared_def split: option.splits)
  ultimately show ?thesis using h1(1,2,5) by blast
qed

text \<open>Tensors of the builder that survive its own clean-up survive that of the target.\<close>

lemma swept_combined:
  assumes "\<forall>t \<in> set ts. uses h t \<noteq> [] \<or> definer h t \<noteq> None" "swept g h = (g', h')"
  shows "swept (g\<lparr>g_tensors := g_tensors g @ ts\<rparr>) h = (g'\<lparr>g_tensors := g_tensors g' @ ts\<rparr>, h')"
proof -
  have d: "dead_tensor h (g\<lparr>g_tensors := g_tensors g @ ts\<rparr>) = dead_tensor h g" by (simp add: dead_tensor_def fun_eq_iff)
  have "\<not> dead_tensor h g t" if "t \<in> set ts" for t using assms(1) that by (auto simp: dead_tensor_def)
  then have f: "filter (\<lambda>t. \<not> dead_tensor h g t) ts = ts" "filter (dead_tensor h g) ts = []"
    by (simp_all add: filter_id_conv filter_empty_conv)
  from assms(2) show ?thesis by (auto simp: swept_def d f)
qed

text \<open>
  The steps: \<open>h1\<close> after the erasures, \<open>bg\<close> and \<open>h2\<close> after the builder's own clean-up, \<open>h3\<close> after connecting,
  \<open>g4\<close> and \<open>h4\<close> after the clean-up of the target.
\<close>

lemma apply_run:
  assumes wl: "well_linked h g" and ok: "builder_ok h g (b_subgraph b) (b_erases b)"
    and er: "b_erases b \<subseteq> set (g_ops g)" "set (order (b_erases b)) = b_erases b"
  shows "\<exists>h1 bg h2 h3 g4 h4. (\<forall>k. dead_op h1 k \<longleftrightarrow> k \<in> b_erases b \<or> dead_op h k) \<and>
    (\<forall>t. t \<notin> set (g_tensors g) \<longrightarrow> tensor_of h1 t = tensor_of h t) \<and>
    swept (b_subgraph b) h1 = (bg, h2) \<and> (\<forall>k \<in> set (g_ops bg). \<not> dead_op h2 k) \<and> op_of h3 = op_of h2 \<and>
    swept (g\<lparr>g_ops := takeWhile (\<lambda>k. k \<notin> b_erases b) (g_ops g) @ g_ops bg @ dropWhile (\<lambda>k. k \<notin> b_erases b) (g_ops g)\<rparr>) h3 = (g4, h4) \<and>
    well_linked h4 (g4\<lparr>g_tensors := g_tensors g4 @ g_tensors bg\<rparr>) \<and>
    ApplyChanges order g b h =
      Some (\<lparr>b_subgraph = bg\<lparr>g_ops := [], g_tensors := []\<rparr>, b_erases = {}, b_tensors = {}, b_ops = {}\<rparr>,
        g4\<lparr>g_tensors := g_tensors g4 @ g_tensors bg\<rparr>, h4)"
proof -
  let ?E = "b_erases b" and ?bg = "b_subgraph b"
  let ?old = "\<lambda>k. k \<notin> ?E"
  from apply_dropped [OF wl ok er(2) er(1)] obtain h1 where h1: "foldM Drop (order ?E) h = Some h1"
    "well_linked h1 g" "builder_ok h1 g ?bg {}" "\<And>k. dead_op h1 k \<longleftrightarrow> k \<in> ?E \<or> dead_op h k"
    "\<And>t. t \<notin> set (g_tensors g) \<Longrightarrow> tensor_of h1 t = tensor_of h t" by blast
  note bD = builder_okD [OF h1(3)]
  obtain bg h2 where s1: "swept ?bg h1 = (bg, h2)" by (cases "swept ?bg h1")
  have "DCE ?bg h1 = Some ((\<exists>k \<in> set (g_ops ?bg). dead_op h1 k) \<or> (\<exists>t \<in> set (g_tensors ?bg). dead_tensor h1 ?bg t), swept ?bg h1)"
    using bD(6) linkedD(1) [OF bD(5)] by (intro DCE_run ballI) fast+
  then obtain c1 where dce1: "DCE ?bg h1 = Some (c1, bg, h2)" using s1 by simp
  note fr1 = swept_frame [OF s1] and b2 = builder_swept [OF h1(3) s1]
  note b2D = builder_okD [OF b2(1)]
  have wl2: "well_linked h2 g"
    using bD(3,4) fr1(1,2) by (intro well_linked_frame [OF h1(2)] ballI) blast+
  have "\<forall>k \<in> set (g_ops bg). op_of h2 k \<noteq> None" "\<forall>t \<in> set (g_inputs bg) \<union> set (g_outputs bg). tensor_of h2 t \<noteq> None"
    using b2D(6,9,10) linkedD(1) [OF well_linkedD(6) [OF wl2]] by fast+
  from connect_ops [OF this] obtain h3 where h3: "foldM (connect_op bg) (g_ops bg) h2 = Some h3"
    and up: "linked_up h2 h3 (\<lambda>t. only (set (g_inputs bg)) t (edges (ins h2) (g_ops bg) t))
      (\<lambda>t. only (set (g_outputs bg)) t (edges (outs h2) (g_ops bg) t))" by blast
  define ks where "ks = takeWhile ?old (g_ops g) @ g_ops bg @ dropWhile ?old (g_ops g)"
  have splice: "TransferFrom_at (g_ops g) (g_ops bg) (splice_index ?E (g_ops g)) = (ks, [])"
    by (simp add: TransferFrom_at_splice ks_def)
  have "mset (g_ops g) = mset (takeWhile ?old (g_ops g) @ dropWhile ?old (g_ops g))" by simp
  then have "mset ks = mset (g_ops g) + mset (g_ops bg)" by (simp add: ks_def del: takeWhile_dropWhile_id)
  from well_linked_combined [OF wl2 b2(1) up this]
  have wl3: "well_linked h3 (g\<lparr>g_ops := ks, g_tensors := g_tensors g @ g_tensors bg\<rparr>)" (is "well_linked h3 ?all") .
  obtain g4 h4 where s2: "swept (g\<lparr>g_ops := ks\<rparr>) h3 = (g4, h4)" by (cases "swept (g\<lparr>g_ops := ks\<rparr>) h3")
  have "DCE (g\<lparr>g_ops := ks\<rparr>) h3 = Some ((\<exists>k \<in> set (g_ops (g\<lparr>g_ops := ks\<rparr>)). dead_op h3 k) \<or>
      (\<exists>t \<in> set (g_tensors (g\<lparr>g_ops := ks\<rparr>)). dead_tensor h3 (g\<lparr>g_ops := ks\<rparr>) t), swept (g\<lparr>g_ops := ks\<rparr>) h3)"
    using well_linkedD(3,6) [OF wl3] linkedD(1) by (intro DCE_run ballI) fastforce+
  then obtain c2 where dce2: "DCE (g\<lparr>g_ops := ks\<rparr>) h3 = Some (c2, g4, h4)" using s2 by simp
  define g' where "g' = g4\<lparr>g_tensors := g_tensors g4 @ g_tensors bg\<rparr>"
  have own: "t \<notin> set (g_inputs bg) \<union> set (g_outputs bg)" "t \<notin> set (g_tensors g)" if "t \<in> set (g_tensors bg)" for t
    using b2D(4,9,10) that by blast+
  have "\<forall>t \<in> set (g_tensors bg). uses h3 t \<noteq> [] \<or> definer h3 t \<noteq> None"
  proof
    fix t assume t: "t \<in> set (g_tensors bg)"
    have "tensor_of h2 t \<noteq> None" using linkedD(1) [OF b2D(5) [OF t]] by auto
    with up own(1) [OF t] have "uses h3 t = uses h2 t" "definer h3 t = definer h2 t" by (auto simp: linked_up_def)
    with b2(3) t show "uses h3 t \<noteq> [] \<or> definer h3 t \<noteq> None" by simp
  qed
  from swept_combined [OF this s2] have "swept ?all h3 = (g', h4)" by (simp add: g'_def)
  note wl4 = well_linked_swept [OF wl3 this]
  have run: "ApplyChanges order g b h = Some (\<lparr>b_subgraph = bg\<lparr>g_ops := [], g_tensors := []\<rparr>, b_erases = {}, b_tensors = {}, b_ops = {}\<rparr>, g', h4)"
    by (simp add: ApplyChanges_def h1(1) dce1 h3 splice dce2 TransferFrom_def g'_def)
  have "op_of h3 = op_of h2" using up by (simp add: linked_up_def)
  then show ?thesis
    using run wl4 s2 s1 h1(4,5) b2(2) unfolding ks_def g'_def by blast
qed

lemma dead_tensor_ops [simp]: "dead_tensor h (g\<lparr>g_ops := ks\<rparr>) = dead_tensor h g"
  by (simp add: dead_tensor_def fun_eq_iff)

lemma dead_tensor_swept:
  assumes "swept g h = (g', h')" "t \<in> set (g_tensors g)"
  shows "dead_tensor h' g t = dead_tensor h g t"
proof (cases "dead_tensor h g t")
  case True
  with assms have "tensor_of h' t = None" by (auto simp: swept_def free_tensors_def)
  with True show ?thesis by (simp add: dead_tensor_def uses_def definer_def)
next
  case False
  with assms have "tensor_of h' t = tensor_of h t" by (auto simp: swept_def free_tensors_def free_ops_def)
  then show ?thesis by (simp add: dead_tensor_def uses_def definer_def)
qed

lemma builder_live_tensors:
  assumes ok: "builder_ok h g bg E" and s: "swept bg h1 = (bg', h2)"
    and same: "\<forall>t. t \<notin> set (g_tensors g) \<longrightarrow> tensor_of h1 t = tensor_of h t"
  shows "g_tensors bg' = filter (\<lambda>t. uses h t \<noteq> [] \<or> definer h t \<noteq> None) (g_tensors bg)"
proof -
  note bD = builder_okD [OF ok]
  have e: "dead_tensor h1 bg t \<longleftrightarrow> \<not> (uses h t \<noteq> [] \<or> definer h t \<noteq> None)" if t: "t \<in> set (g_tensors bg)" for t
  proof -
    have "t \<notin> set (g_tensors g)" using t bD(4) by blast
    then have "t \<notin> set (g_inputs bg) \<union> set (g_outputs bg)" "tensor_of h1 t = tensor_of h t" using bD(9,10) same by blast+
    then have "uses h1 t = uses h t" "definer h1 t = definer h t" "dead_tensor h1 bg t \<longleftrightarrow> uses h1 t = [] \<and> definer h1 t = None"
      by (simp_all add: dead_tensor_def uses_def definer_def)
    then show ?thesis by metis
  qed
  have "g_tensors bg' = filter (\<lambda>t. \<not> dead_tensor h1 bg t) (g_tensors bg)" using s by (auto simp: swept_def)
  also have "\<dots> = filter (\<lambda>t. uses h t \<noteq> [] \<or> definer h t \<noteq> None) (g_tensors bg)" by (intro filter_cong) (simp_all add: e)
  finally show ?thesis .
qed

lemma spliced_live_ops:
  assumes ok: "builder_ok h g bg E" and s: "swept bg h1 = (bg', h2)" and live: "\<forall>k \<in> set (g_ops bg'). \<not> dead_op h2 k"
    and d1: "\<forall>k. dead_op h1 k \<longleftrightarrow> k \<in> E \<or> dead_op h k"
  shows "set xs \<subseteq> set (g_ops g) \<Longrightarrow> filter (\<lambda>k. \<not> dead_op h2 k) xs = filter (\<lambda>k. k \<notin> E \<and> \<not> dead_op h k) xs"
    "filter (\<lambda>k. \<not> dead_op h2 k) (g_ops bg') = filter (\<lambda>k. k \<notin> E \<and> \<not> dead_op h k) (g_ops bg)"
proof -
  note fr = swept_frame [OF s]
  have "dead_op h2 k \<longleftrightarrow> k \<in> E \<or> dead_op h k" if "k \<in> set (g_ops g)" for k
  proof -
    have "k \<notin> set (g_ops bg)" using builder_okD(3) [OF ok] that by blast
    with fr(2) have "dead_op h2 k = dead_op h1 k" by (simp add: dead_op_def ins_def outs_def)
    then show ?thesis by (simp add: d1)
  qed
  then show "filter (\<lambda>k. \<not> dead_op h2 k) xs = filter (\<lambda>k. k \<notin> E \<and> \<not> dead_op h k) xs" if "set xs \<subseteq> set (g_ops g)"
    using that by (intro filter_cong) auto
  have "filter (\<lambda>k. \<not> dead_op h2 k) (g_ops bg') = g_ops bg'" using live by (simp add: filter_id_conv)
  then show "filter (\<lambda>k. \<not> dead_op h2 k) (g_ops bg') = filter (\<lambda>k. k \<notin> E \<and> \<not> dead_op h k) (g_ops bg)"
    using fr(8) by (simp add: d1)
qed

lemma changes_applied:
  assumes wl: "well_linked h g" and ok: "builder_ok h g (b_subgraph b) (b_erases b)"
    and er: "b_erases b \<subseteq> set (g_ops g)" "set (order (b_erases b)) = b_erases b"
  shows "\<exists>b' g' h'. ApplyChanges order g b h = Some (b', g', h') \<and> well_linked h' g' \<and>
    (let old = (\<lambda>k. k \<notin> b_erases b); live = filter (\<lambda>k. old k \<and> \<not> dead_op h k) in
      g_ops g' = live (takeWhile old (g_ops g)) @ live (g_ops (b_subgraph b)) @ live (dropWhile old (g_ops g))) \<and>
    g_tensors g' = filter (\<lambda>t. \<not> dead_tensor h' g t) (g_tensors g) @
      filter (\<lambda>t. uses h t \<noteq> [] \<or> definer h t \<noteq> None) (g_tensors (b_subgraph b)) \<and>
    g_inputs g' = g_inputs g \<and> g_outputs g' = g_outputs g \<and>
    b_erases b' = {} \<and> g_ops (b_subgraph b') = [] \<and> g_tensors (b_subgraph b') = []"
proof -
  let ?old = "\<lambda>k. k \<notin> b_erases b"
  from apply_run [where order = order, OF wl ok er] obtain h1 bg h2 h3 g4 h4 where
    d1: "\<forall>k. dead_op h1 k \<longleftrightarrow> k \<in> b_erases b \<or> dead_op h k" and
    t1: "\<forall>t. t \<notin> set (g_tensors g) \<longrightarrow> tensor_of h1 t = tensor_of h t" and
    s1: "swept (b_subgraph b) h1 = (bg, h2)" and live: "\<forall>k \<in> set (g_ops bg). \<not> dead_op h2 k" and op3: "op_of h3 = op_of h2" and
    s2: "swept (g\<lparr>g_ops := takeWhile ?old (g_ops g) @ g_ops bg @ dropWhile ?old (g_ops g)\<rparr>) h3 = (g4, h4)" and
    wl4: "well_linked h4 (g4\<lparr>g_tensors := g_tensors g4 @ g_tensors bg\<rparr>)" and
    run: "ApplyChanges order g b h =
      Some (\<lparr>b_subgraph = bg\<lparr>g_ops := [], g_tensors := []\<rparr>, b_erases = {}, b_tensors = {}, b_ops = {}\<rparr>,
        g4\<lparr>g_tensors := g_tensors g4 @ g_tensors bg\<rparr>, h4)" by blast
  have "dead_op h3 = dead_op h2" using op3 by (simp add: dead_op_def ins_def outs_def fun_eq_iff)
  then have ops4: "g_ops g4 = filter (\<lambda>k. \<not> dead_op h2 k) (takeWhile ?old (g_ops g)) @
      filter (\<lambda>k. \<not> dead_op h2 k) (g_ops bg) @ filter (\<lambda>k. \<not> dead_op h2 k) (dropWhile ?old (g_ops g))"
    using s2 by (auto simp: swept_def)
  have sub: "set (takeWhile ?old (g_ops g)) \<subseteq> set (g_ops g)" "set (dropWhile ?old (g_ops g)) \<subseteq> set (g_ops g)"
    by (auto dest: set_takeWhileD set_dropWhileD)
  have "filter (\<lambda>t. \<not> dead_tensor h3 g t) (g_tensors g) = filter (\<lambda>t. \<not> dead_tensor h4 g t) (g_tensors g)"
    using dead_tensor_swept [OF s2] by (intro filter_cong) simp_all
  then have tensors4: "g_tensors g4 = filter (\<lambda>t. \<not> dead_tensor h4 g t) (g_tensors g)"
    using s2 unfolding swept_def dead_tensor_ops by auto
  define g' where "g' = g4\<lparr>g_tensors := g_tensors g4 @ g_tensors bg\<rparr>"
  define live' where "live' = filter (\<lambda>k. k \<notin> b_erases b \<and> \<not> dead_op h k)"
  have "g_ops g' = live' (takeWhile ?old (g_ops g)) @ live' (g_ops (b_subgraph b)) @ live' (dropWhile ?old (g_ops g))"
    by (simp add: g'_def live'_def ops4 spliced_live_ops(1) [OF ok s1 live d1 sub(1)]
        spliced_live_ops(1) [OF ok s1 live d1 sub(2)] spliced_live_ops(2) [OF ok s1 live d1])
  moreover have "g_tensors g' = filter (\<lambda>t. \<not> dead_tensor h4 g t) (g_tensors g) @
      filter (\<lambda>t. uses h t \<noteq> [] \<or> definer h t \<noteq> None) (g_tensors (b_subgraph b))"
    unfolding builder_live_tensors [OF ok s1 t1, symmetric] by (simp add: g'_def tensors4)
  moreover have "g_inputs g' = g_inputs g" "g_outputs g' = g_outputs g" using swept_frame(6,7) [OF s2] by (simp_all add: g'_def)
  ultimately show ?thesis
    using run wl4 unfolding Let_def live'_def [symmetric] g'_def [symmetric]
    by (intro exI [of _ h4] exI [of _ g'] exI [of _ "\<lparr>b_subgraph = bg\<lparr>g_ops := [], g_tensors := []\<rparr>, b_erases = {}, b_tensors = {}, b_ops = {}\<rparr>"] conjI) simp_all
qed

text \<open>C23: Let a builder hold new operations and tensors linked to each other, with the operations' other operands
  among tensors of the target, and let each tensor of the target that it defines be defined once and
  have no definition in the target but by an erased operation.  Then applying the changes to a
  well-linked target succeeds and leaves a well-linked target: its operations are, in order, the old
  ones without the erased ones, with the new ones where the first erased operation was (at the end if
  none is erased), operations without operands and results being swept out; its tensors are those of
  the old ones that are still connected and then the builder's connected ones; its inputs and outputs are kept.\<close>

theorem ApplyChanges_keeps_links:
  assumes wl: "well_linked h g" and ok: "builder_ok h g (b_subgraph b) (b_erases b)"
    and er: "b_erases b \<subseteq> set (g_ops g)" "set (order (b_erases b)) = b_erases b"
  shows "\<exists>b' g' h'. ApplyChanges order g b h = Some (b', g', h') \<and> well_linked h' g' \<and>
    (let old = (\<lambda>k. k \<notin> b_erases b); live = filter (\<lambda>k. old k \<and> \<not> dead_op h k) in
      g_ops g' = live (takeWhile old (g_ops g)) @ live (g_ops (b_subgraph b)) @ live (dropWhile old (g_ops g))) \<and>
    g_tensors g' = filter (\<lambda>t. \<not> dead_tensor h' g t) (g_tensors g) @
      filter (\<lambda>t. uses h t \<noteq> [] \<or> definer h t \<noteq> None) (g_tensors (b_subgraph b)) \<and>
    g_inputs g' = g_inputs g \<and> g_outputs g' = g_outputs g \<and>
    b_erases b' = {} \<and> g_ops (b_subgraph b') = [] \<and> g_tensors (b_subgraph b') = []"
  by (rule changes_applied [where order = order, OF assms])

end
