(* ===== verification/GraphBuilderOps.thy ===== *)
theory GraphBuilderOps
  imports GraphBuilderCorrect
begin

text \<open>
  The operations of the builder keep its subgraph linked, and the target as it is.
\<close>

section \<open>Links when an operand is added\<close>

lemma linked_add_input:
  assumes lk: "tensor_linked h ks x" and k: "k \<in> set ks"
    and i: "ins h' = (ins h)(k := ins h k @ [Some t])" "outs h' = outs h" and al: "tensor_of h' x \<noteq> None"
    and u: "uses h' x = (if x = t then uses h x @ [(k, length (ins h k))] else uses h x)" "definer h' x = definer h x"
  shows "tensor_linked h' ks x"
proof -
  note lk = linkedD [OF lk]
  have "(k, length (ins h k)) \<notin> set (uses h x)" by (simp add: lk(3))
  moreover have "j < length (ins h' k') \<and> ins h' k' ! j = Some x \<longleftrightarrow>
      (j < length (ins h k') \<and> ins h k' ! j = Some x) \<or> (k' = k \<and> j = length (ins h k) \<and> x = t)" for k' j
    by (auto simp: i nth_append less_Suc_eq)
  ultimately show ?thesis
    using lk k al unfolding tensor_linked_def by (auto simp: u i(2))
qed

lemma linked_add_output:
  assumes lk: "tensor_linked h ks x" and k: "k \<in> set ks"
    and i: "ins h' = ins h" "outs h' = (outs h)(k := outs h k @ [Some t])" and al: "tensor_of h' x \<noteq> None"
    and u: "uses h' x = uses h x" "definer h' x = (if x = t then Some (k, length (outs h k)) else definer h x)"
    and free: "x = t \<Longrightarrow> definer h x = None"
  shows "tensor_linked h' ks x"
proof -
  note lk = linkedD [OF lk]
  have none: "\<not> (j < length (outs h k') \<and> outs h k' ! j = Some x)" if "x = t" "k' \<in> set ks" for k' j
    using lk(4) [of k' j] free that by simp
  have "j < length (outs h' k') \<and> outs h' k' ! j = Some x \<longleftrightarrow>
      (j < length (outs h k') \<and> outs h k' ! j = Some x) \<or> (k' = k \<and> j = length (outs h k) \<and> x = t)" for k' j
    by (auto simp: i nth_append less_Suc_eq)
  then have "definer h' x = Some (k', j) \<longleftrightarrow> k' \<in> set ks \<and> j < length (outs h' k') \<and> outs h' k' ! j = Some x" for k' j
    using lk(4) [of k' j] k none [of k' j] unfolding u(2) by (cases "x = t") auto
  then show ?thesis
    using lk(2,3) al unfolding tensor_linked_def u(1) i(1) by blast
qed

section \<open>The invariant\<close>

definition builder_inv :: "ir_heap \<Rightarrow> ir_graph \<Rightarrow> LiteRtBuilderT \<Rightarrow> bool" where
  "builder_inv h g b \<longleftrightarrow> fresh_heap h \<and> well_linked h g \<and> b_tensors b = set (g_tensors (b_subgraph b)) \<and>
     builder_linked h g (b_subgraph b)"

lemma builder_linkedD:
  assumes "builder_linked h g bg"
  shows "distinct (g_ops bg)" "distinct (g_tensors bg)" "set (g_ops bg) \<inter> set (g_ops g) = {}"
    "set (g_tensors bg) \<inter> set (g_tensors g) = {}"
    "t \<in> set (g_tensors bg) \<Longrightarrow> tensor_linked h (g_ops bg) t"
    "k \<in> set (g_ops bg) \<Longrightarrow> op_of h k \<noteq> None"
    "k \<in> set (g_ops bg) \<Longrightarrow> set (ins h k) \<subseteq> Some ` (set (g_tensors bg) \<union> set (g_inputs bg))"
    "k \<in> set (g_ops bg) \<Longrightarrow> set (outs h k) \<subseteq> Some ` (set (g_tensors bg) \<union> set (g_outputs bg))"
    "set (g_inputs bg) \<union> set (g_outputs bg) \<subseteq> set (g_tensors g)"
  using assms unfolding builder_linked_def by blast+

lemma builder_invD:
  assumes "builder_inv h g b"
  shows "fresh_heap h" "well_linked h g" "b_tensors b = set (g_tensors (b_subgraph b))" "builder_linked h g (b_subgraph b)"
  using assms by (simp_all add: builder_inv_def)

lemma builder_start:
  assumes "fresh_heap h" "well_linked h g"
  shows "builder_inv h g new_builder"
  using assms by (simp add: builder_inv_def builder_linked_def new_builder_def empty_graph_def)

text \<open>What a step leaves as it is.\<close>

definition target_kept :: "ir_heap \<Rightarrow> ir_heap \<Rightarrow> ir_graph \<Rightarrow> bool" where
  "target_kept h h' g \<longleftrightarrow> (\<forall>t \<in> set (g_tensors g). tensor_of h' t = tensor_of h t) \<and> (\<forall>k \<in> set (g_ops g). op_of h' k = op_of h k)"

lemma target_kept_trans: "target_kept h h' g \<Longrightarrow> target_kept h' h'' g \<Longrightarrow> target_kept h h'' g"
  by (simp add: target_kept_def)

lemma target_kept_linked: "target_kept h h' g \<Longrightarrow> well_linked h g \<Longrightarrow> well_linked h' g"
  unfolding target_kept_def by (rule well_linked_frame) blast+

lemma BuildTensor_keeps:
  assumes inv: "builder_inv h g b" and e: "BuildTensor index0 ws q ty name (b, h) = (t, b', h')"
  shows "builder_inv h' g b'" "target_kept h h' g" "b_tensors b' = insert t (b_tensors b)" "t \<notin> b_tensors b \<union> set (g_tensors g)"
    "uses h' t = []" "definer h' t = None" "op_of h' = op_of h" "\<And>t'. t' \<noteq> t \<Longrightarrow> tensor_of h' t' = tensor_of h t'"
proof -
  note iD = builder_invD [OF inv] and lD = builder_linkedD [OF builder_invD(4) [OF inv]]
  from e obtain c where eqs: "t = next_tensor h" "op_of h' = op_of h" "tensor_of h' = (tensor_of h)(t \<mapsto> c)" "users c = []" "defining_op c = None"
    "b' = b\<lparr>b_subgraph := (b_subgraph b)\<lparr>g_tensors := g_tensors (b_subgraph b) @ [t]\<rparr>, b_tensors := insert t (b_tensors b)\<rparr>"
    "next_tensor h' = Suc t" "next_op h' = next_op h"
    by (auto simp: BuildTensor_def EmplaceTensor_def)
  have new: "x \<noteq> t" if "tensor_of h x \<noteq> None" for x using fresh_heapD(1) [OF iD(1) that] eqs(1) by simp
  have old: "tensor_of h x \<noteq> None" if "x \<in> set (g_tensors (b_subgraph b)) \<union> set (g_tensors g)" for x
    using that linkedD(1) [OF lD(5)] linkedD(1) [OF well_linkedD(6) [OF iD(2)]] by fastforce
  have fr: "t \<notin> set (g_tensors (b_subgraph b)) \<union> set (g_tensors g)" using old [of t] new [of t] by blast
  then show "t \<notin> b_tensors b \<union> set (g_tensors g)" by (simp add: iD(3))
  show kept: "target_kept h h' g" using fr by (simp add: target_kept_def eqs(2,3))
  show "b_tensors b' = insert t (b_tensors b)" "op_of h' = op_of h" by (simp_all add: eqs(2,6))
  show "uses h' t = []" "definer h' t = None" by (simp_all add: uses_def definer_def eqs(3-5))
  show "\<And>t'. t' \<noteq> t \<Longrightarrow> tensor_of h' t' = tensor_of h t'" by (simp add: eqs(3))
  have io: "ins h' = ins h" "outs h' = outs h" by (simp_all add: ins_def outs_def fun_eq_iff eqs(2))
  have "tensor_linked h' (g_ops (b_subgraph b)) x" if "x \<in> set (g_tensors (b_subgraph b))" for x
  proof -
    have "tensor_of h' x = tensor_of h x" using that fr by (auto simp: eqs(3))
    then show ?thesis using lD(5) [OF that] by (simp add: tensor_linked_def uses_def definer_def io)
  qed
  moreover have "tensor_linked h' (g_ops (b_subgraph b)) t"
  proof -
    have none: "Some t \<notin> set (ins h k) \<union> set (outs h k)" if "k \<in> set (g_ops (b_subgraph b))" for k
      using lD(7,8) [OF that] lD(9) fr by blast
    have "ins h k ! i \<noteq> Some t" if "k \<in> set (g_ops (b_subgraph b))" "i < length (ins h k)" for k i
      using none [OF that(1)] nth_mem [OF that(2)] by auto
    moreover have "outs h k ! i \<noteq> Some t" if "k \<in> set (g_ops (b_subgraph b))" "i < length (outs h k)" for k i
      using none [OF that(1)] nth_mem [OF that(2)] by auto
    ultimately show ?thesis by (auto simp: tensor_linked_def uses_def definer_def io eqs(3-5))
  qed
  moreover have "set (ins h k) \<subseteq> Some ` insert t (set (g_tensors (b_subgraph b)) \<union> set (g_inputs (b_subgraph b)))"
    "set (outs h k) \<subseteq> Some ` insert t (set (g_tensors (b_subgraph b)) \<union> set (g_outputs (b_subgraph b)))"
    if "k \<in> set (g_ops (b_subgraph b))" for k
    using lD(7,8) [OF that] by blast+
  moreover have "fresh_heap h'" using iD(1) by (auto simp: fresh_heap_def eqs)
  ultimately show "builder_inv h' g b'"
    using iD(3) lD(1-4,6,9) fr target_kept_linked [OF kept iD(2)]
    unfolding builder_inv_def builder_linked_def by (simp add: eqs(2,6) io)
qed

section \<open>Operands\<close>

lemma kept_outside:
  assumes lk: "builder_linked h g bg" and k: "k \<in> set (g_ops bg)"
    and t: "\<And>x. x \<notin> set (g_tensors bg) \<Longrightarrow> tensor_of h' x = tensor_of h x" "\<And>y. y \<noteq> k \<Longrightarrow> op_of h' y = op_of h y"
  shows "target_kept h h' g"
proof -
  have "x \<notin> set (g_tensors bg)" if "x \<in> set (g_tensors g)" for x using builder_linkedD(4) [OF lk] that by blast
  moreover have "y \<noteq> k" if "y \<in> set (g_ops g)" for y using builder_linkedD(3) [OF lk] k that by blast
  ultimately show ?thesis using t by (simp add: target_kept_def)
qed

definition builder_same :: "LiteRtBuilderT \<Rightarrow> LiteRtBuilderT \<Rightarrow> bool" where
  "builder_same b b' \<longleftrightarrow> b_tensors b' = b_tensors b \<and> b_ops b' = b_ops b \<and> b_erases b' = b_erases b \<and>
     g_ops (b_subgraph b') = g_ops (b_subgraph b) \<and> g_tensors (b_subgraph b') = g_tensors (b_subgraph b)"

lemma build_input_step:
  assumes inv: "builder_inv h g b" and k: "k \<in> set (g_ops (b_subgraph b))" and t: "t \<in> b_tensors b \<union> set (g_tensors g)"
  shows "\<exists>b' h'. build_input k t (b, h) = Some (b', h') \<and> builder_inv h' g b' \<and> builder_same b b' \<and> target_kept h h' g \<and>
    ins h' = (ins h)(k := ins h k @ [Some t]) \<and> outs h' = outs h \<and> definer h' = definer h \<and>
    g_inputs (b_subgraph b') = g_inputs (b_subgraph b) @ (if t \<in> b_tensors b then [] else [t]) \<and>
    g_outputs (b_subgraph b') = g_outputs (b_subgraph b)"
proof -
  let ?g = "b_subgraph b"
  note iD = builder_invD [OF inv] and lD = builder_linkedD [OF builder_invD(4) [OF inv]]
  obtain op where op: "op_of h k = Some op" using lD(6) [OF k] by auto
  have own: "\<exists>tt. tensor_of h t = Some tt" if "t \<in> b_tensors b" using linkedD(1) [OF lD(5)] that iD(3) by simp
  define g' where "g' = ?g\<lparr>g_inputs := g_inputs ?g @ (if t \<in> b_tensors b then [] else [t])\<rparr>"
  define h' where "h' = (let h1 = set_op k (op\<lparr>op_inputs := op_inputs op @ [Some t]\<rparr>) h in
    if t \<in> b_tensors b then set_tensor t (the (tensor_of h t)\<lparr>users := users (the (tensor_of h t)) @ [(k, length (op_inputs op))]\<rparr>) h1
    else h1)"
  have run: "build_input k t (b, h) = Some (b\<lparr>b_subgraph := g'\<rparr>, h')"
    using op own by (auto simp: build_input_def AttachInput_ir_def g'_def h'_def)
  have l: "ins h' = (ins h)(k := ins h k @ [Some t])" "outs h' = outs h" "definer h' = definer h"
    using op own by (auto simp: h'_def Let_def fun_eq_iff uses_def definer_def ins_def outs_def)
  have tn: "tensor_of h' x = None \<longleftrightarrow> tensor_of h x = None" "t \<notin> b_tensors b \<Longrightarrow> tensor_of h' x = tensor_of h x"
      "x \<noteq> t \<Longrightarrow> tensor_of h' x = tensor_of h x" "op_of h' y = None \<longleftrightarrow> op_of h y = None" "y \<noteq> k \<Longrightarrow> op_of h' y = op_of h y"
      "next_tensor h' = next_tensor h" "next_op h' = next_op h" for x y
    using op own by (auto simp: h'_def Let_def)
  have u: "uses h' x = (if x = t then uses h x @ [(k, length (ins h k))] else uses h x)" if "x \<in> b_tensors b" for x
    using op own that by (auto simp: h'_def Let_def uses_def)
  have kept: "target_kept h h' g"
    using tn(2,3) iD(3) by (intro kept_outside [OF iD(4) k] tn(5)) metis+
  have "tensor_linked h' (g_ops ?g) x" if x: "x \<in> set (g_tensors ?g)" for x
  proof -
    have "tensor_of h' x \<noteq> None" using linkedD(1) [OF lD(5) [OF x]] tn(1) by auto
    then show ?thesis using linked_add_input [OF lD(5) [OF x] k l(1,2)] u x l(3) iD(3) by simp
  qed
  moreover have "set (ins h' x) \<subseteq> Some ` (set (g_tensors g') \<union> set (g_inputs g'))"
    "set (outs h' x) \<subseteq> Some ` (set (g_tensors g') \<union> set (g_outputs g'))" if "x \<in> set (g_ops ?g)" for x
    using lD(7,8) [OF that] iD(3) unfolding l g'_def by auto
  moreover have "fresh_heap h'" using iD(1) tn unfolding fresh_heap_def by simp
  moreover have "set (g_inputs g') \<union> set (g_outputs g') \<subseteq> set (g_tensors g)" using lD(9) t by (auto simp: g'_def)
  ultimately have "builder_inv h' g (b\<lparr>b_subgraph := g'\<rparr>)"
    using lD(1-4,6) iD(3) tn(4) target_kept_linked [OF kept iD(2)]
    unfolding builder_inv_def builder_linked_def by (simp add: g'_def)
  moreover have "builder_same b (b\<lparr>b_subgraph := g'\<rparr>)" by (simp add: builder_same_def g'_def)
  ultimately show ?thesis using run l kept by (auto simp: g'_def)
qed


lemma build_output_step:
  assumes inv: "builder_inv h g b" and k: "k \<in> set (g_ops (b_subgraph b))" and t: "t \<in> b_tensors b \<union> set (g_tensors g)"
    and free: "t \<in> b_tensors b \<Longrightarrow> definer h t = None"
  shows "\<exists>b' h'. build_output k t (b, h) = Some (b', h') \<and> builder_inv h' g b' \<and> builder_same b b' \<and> target_kept h h' g \<and>
    ins h' = ins h \<and> outs h' = (outs h)(k := outs h k @ [Some t]) \<and>
    definer h' = (if t \<in> b_tensors b then (definer h)(t := Some (k, length (outs h k))) else definer h) \<and>
    g_inputs (b_subgraph b') = g_inputs (b_subgraph b) \<and>
    g_outputs (b_subgraph b') = g_outputs (b_subgraph b) @ (if t \<in> b_tensors b then [] else [t])"
proof -
  let ?g = "b_subgraph b"
  note iD = builder_invD [OF inv] and lD = builder_linkedD [OF builder_invD(4) [OF inv]]
  obtain op where op: "op_of h k = Some op" using lD(6) [OF k] by auto
  have own: "\<exists>tt. tensor_of h t = Some tt" if "t \<in> b_tensors b" using linkedD(1) [OF lD(5)] that iD(3) by simp
  define g' where "g' = ?g\<lparr>g_outputs := g_outputs ?g @ (if t \<in> b_tensors b then [] else [t])\<rparr>"
  define h' where "h' = (let h1 = set_op k (op\<lparr>op_outputs := op_outputs op @ [Some t]\<rparr>) h in
    if t \<in> b_tensors b then set_tensor t (the (tensor_of h t)\<lparr>defining_op := Some (k, length (op_outputs op))\<rparr>) h1 else h1)"
  have run: "build_output k t (b, h) = Some (b\<lparr>b_subgraph := g'\<rparr>, h')"
    using op own by (auto simp: build_output_def AttachOutput_ir_def g'_def h'_def)
  have l: "ins h' = ins h" "outs h' = (outs h)(k := outs h k @ [Some t])"
    using op own by (auto simp: h'_def Let_def fun_eq_iff ins_def outs_def)
  have d: "definer h' = (if t \<in> b_tensors b then (definer h)(t := Some (k, length (outs h k))) else definer h)"
    using op own by (auto simp: h'_def Let_def fun_eq_iff definer_def)
  have tn: "tensor_of h' x = None \<longleftrightarrow> tensor_of h x = None" "t \<notin> b_tensors b \<Longrightarrow> tensor_of h' x = tensor_of h x"
      "x \<noteq> t \<Longrightarrow> tensor_of h' x = tensor_of h x" "op_of h' y = None \<longleftrightarrow> op_of h y = None" "y \<noteq> k \<Longrightarrow> op_of h' y = op_of h y"
      "next_tensor h' = next_tensor h" "next_op h' = next_op h" for x y
    using op own by (auto simp: h'_def Let_def)
  have u: "uses h' x = uses h x" for x
    using own by (auto simp: h'_def Let_def uses_def)
  have kept: "target_kept h h' g"
    using tn(2,3) iD(3) by (intro kept_outside [OF iD(4) k] tn(5)) metis+
  have "tensor_linked h' (g_ops ?g) x" if x: "x \<in> set (g_tensors ?g)" for x
  proof (rule linked_add_output [OF lD(5) [OF x] k l _ u])
    show "tensor_of h' x \<noteq> None" using linkedD(1) [OF lD(5) [OF x]] tn(1) by auto
    show "definer h' x = (if x = t then Some (k, length (outs h k)) else definer h x)" using x iD(3) by (auto simp: d)
    show "x = t \<Longrightarrow> definer h x = None" using x iD(3) free by simp
  qed
  moreover have "set (ins h' x) \<subseteq> Some ` (set (g_tensors g') \<union> set (g_inputs g'))"
    "set (outs h' x) \<subseteq> Some ` (set (g_tensors g') \<union> set (g_outputs g'))" if "x \<in> set (g_ops ?g)" for x
    using lD(7,8) [OF that] iD(3) unfolding l g'_def by auto
  moreover have "fresh_heap h'" using iD(1) tn unfolding fresh_heap_def by simp
  moreover have "set (g_inputs g') \<union> set (g_outputs g') \<subseteq> set (g_tensors g)" using lD(9) t by (auto simp: g'_def)
  ultimately have "builder_inv h' g (b\<lparr>b_subgraph := g'\<rparr>)"
    using lD(1-4,6) iD(3) tn(4) target_kept_linked [OF kept iD(2)]
    unfolding builder_inv_def builder_linked_def by (simp add: g'_def)
  moreover have "builder_same b (b\<lparr>b_subgraph := g'\<rparr>)" by (simp add: builder_same_def g'_def)
  ultimately show ?thesis using run l d kept by (auto simp: g'_def)
qed

lemma builder_same_trans: "builder_same b b' \<Longrightarrow> builder_same b' b'' \<Longrightarrow> builder_same b b''"
  by (simp add: builder_same_def)

lemma build_inputs:
  assumes "builder_inv h g b" "k \<in> set (g_ops (b_subgraph b))" "set ts \<subseteq> b_tensors b \<union> set (g_tensors g)"
  shows "\<exists>b' h'. foldM (build_input k) ts (b, h) = Some (b', h') \<and> builder_inv h' g b' \<and> builder_same b b' \<and> target_kept h h' g \<and>
    ins h' = (ins h)(k := ins h k @ map Some ts) \<and> outs h' = outs h \<and> definer h' = definer h \<and>
    g_inputs (b_subgraph b') = g_inputs (b_subgraph b) @ filter (\<lambda>t. t \<notin> b_tensors b) ts \<and>
    g_outputs (b_subgraph b') = g_outputs (b_subgraph b)"
  using assms
proof (induction ts arbitrary: b h)
  case Nil
  then show ?case by (simp add: builder_same_def target_kept_def)
next
  case (Cons t ts)
  have t: "t \<in> b_tensors b \<union> set (g_tensors g)" using Cons.prems(3) by simp
  from build_input_step [OF Cons.prems(1,2) t] obtain b1 h1 where s1: "build_input k t (b, h) = Some (b1, h1)"
    "builder_inv h1 g b1" "builder_same b b1" "target_kept h h1 g"
    "ins h1 = (ins h)(k := ins h k @ [Some t])" "outs h1 = outs h" "definer h1 = definer h"
    "g_inputs (b_subgraph b1) = g_inputs (b_subgraph b) @ (if t \<in> b_tensors b then [] else [t])"
    "g_outputs (b_subgraph b1) = g_outputs (b_subgraph b)" by blast
  have sh: "b_tensors b1 = b_tensors b" "g_ops (b_subgraph b1) = g_ops (b_subgraph b)" using s1(3) by (simp_all add: builder_same_def)
  have "k \<in> set (g_ops (b_subgraph b1))" "set ts \<subseteq> b_tensors b1 \<union> set (g_tensors g)"
    using Cons.prems(2,3) by (auto simp: sh)
  from Cons.IH [OF s1(2) this] obtain b' h' where s': "foldM (build_input k) ts (b1, h1) = Some (b', h')"
    "builder_inv h' g b'" "builder_same b1 b'" "target_kept h1 h' g"
    "ins h' = (ins h1)(k := ins h1 k @ map Some ts)" "outs h' = outs h1" "definer h' = definer h1"
    "g_inputs (b_subgraph b') = g_inputs (b_subgraph b1) @ filter (\<lambda>t. t \<notin> b_tensors b1) ts"
    "g_outputs (b_subgraph b') = g_outputs (b_subgraph b1)" by blast
  show ?case
    using s1 s' builder_same_trans [OF s1(3) s'(3)] target_kept_trans [OF s1(4) s'(4)] by (simp add: sh fun_eq_iff)
qed

lemma build_outputs:
  assumes "builder_inv h g b" "k \<in> set (g_ops (b_subgraph b))" "set ts \<subseteq> b_tensors b \<union> set (g_tensors g)"
    and "distinct (filter (\<lambda>t. t \<in> b_tensors b) ts)" "\<forall>t \<in> set ts \<inter> b_tensors b. definer h t = None"
  shows "\<exists>b' h'. foldM (build_output k) ts (b, h) = Some (b', h') \<and> builder_inv h' g b' \<and> builder_same b b' \<and> target_kept h h' g \<and>
    ins h' = ins h \<and> outs h' = (outs h)(k := outs h k @ map Some ts) \<and>
    (\<forall>t. t \<notin> set ts \<inter> b_tensors b \<longrightarrow> definer h' t = definer h t) \<and>
    g_inputs (b_subgraph b') = g_inputs (b_subgraph b) \<and>
    g_outputs (b_subgraph b') = g_outputs (b_subgraph b) @ filter (\<lambda>t. t \<notin> b_tensors b) ts"
  using assms
proof (induction ts arbitrary: b h)
  case Nil
  then show ?case by (simp add: builder_same_def target_kept_def)
next
  case (Cons t ts)
  have t: "t \<in> b_tensors b \<union> set (g_tensors g)" "t \<in> b_tensors b \<Longrightarrow> definer h t = None" using Cons.prems(3,5) by auto
  from build_output_step [OF Cons.prems(1,2) t] obtain b1 h1 where s1: "build_output k t (b, h) = Some (b1, h1)"
    "builder_inv h1 g b1" "builder_same b b1" "target_kept h h1 g"
    "ins h1 = ins h" "outs h1 = (outs h)(k := outs h k @ [Some t])"
    "definer h1 = (if t \<in> b_tensors b then (definer h)(t := Some (k, length (outs h k))) else definer h)"
    "g_inputs (b_subgraph b1) = g_inputs (b_subgraph b)"
    "g_outputs (b_subgraph b1) = g_outputs (b_subgraph b) @ (if t \<in> b_tensors b then [] else [t])" by auto
  have sh: "b_tensors b1 = b_tensors b" "g_ops (b_subgraph b1) = g_ops (b_subgraph b)" using s1(3) by (simp_all add: builder_same_def)
  have "\<forall>x \<in> set ts \<inter> b_tensors b1. definer h1 x = None"
    using Cons.prems(4,5) by (auto simp: s1(7) sh split: if_splits)
  moreover have "k \<in> set (g_ops (b_subgraph b1))" "set ts \<subseteq> b_tensors b1 \<union> set (g_tensors g)"
    "distinct (filter (\<lambda>t. t \<in> b_tensors b1) ts)"
    using Cons.prems(2-4) by (auto simp: sh split: if_splits)
  ultimately obtain b' h' where s': "foldM (build_output k) ts (b1, h1) = Some (b', h')"
    "builder_inv h' g b'" "builder_same b1 b'" "target_kept h1 h' g"
    "ins h' = ins h1" "outs h' = (outs h1)(k := outs h1 k @ map Some ts)"
    "\<forall>x. x \<notin> set ts \<inter> b_tensors b1 \<longrightarrow> definer h' x = definer h1 x"
    "g_inputs (b_subgraph b') = g_inputs (b_subgraph b1)"
    "g_outputs (b_subgraph b') = g_outputs (b_subgraph b1) @ filter (\<lambda>t. t \<notin> b_tensors b1) ts"
    using Cons.IH [OF s1(2)] by blast
  have "\<forall>x. x \<notin> set (t # ts) \<inter> b_tensors b \<longrightarrow> definer h' x = definer h x"
    using s'(7) by (auto simp: s1(7) sh)
  then show ?case
    using s1(1,5,6,8,9) s'(1,2,5,6,8,9) builder_same_trans [OF s1(3) s'(3)] target_kept_trans [OF s1(4) s'(4)] by (simp add: sh fun_eq_iff)
qed

section \<open>Operations\<close>

lemma new_op_linked:
  assumes inv: "builder_inv h g b"
    and e: "EmplaceOpAt (length (g_ops (b_subgraph b))) (new_op code) (b_subgraph b) h = Some (k, bg, h')"
  shows "builder_inv h' g (b\<lparr>b_subgraph := bg\<rparr>)" "target_kept h h' g" "bg = (b_subgraph b)\<lparr>g_ops := g_ops (b_subgraph b) @ [k]\<rparr>"
    "ins h' = ins h" "outs h' = outs h" "tensor_of h' = tensor_of h" "ins h k = []" "outs h k = []" "k = next_op h"
proof -
  let ?g = "b_subgraph b"
  note iD = builder_invD [OF inv] and lD = builder_linkedD [OF builder_invD(4) [OF inv]]
  from e show eqs: "bg = ?g\<lparr>g_ops := g_ops ?g @ [k]\<rparr>" "tensor_of h' = tensor_of h" "k = next_op h"
    by (auto simp: EmplaceOpAt_def)
  from e have op': "op_of h' = (op_of h)(k \<mapsto> new_op code)" "next_op h' = Suc k" "next_tensor h' = next_tensor h"
    by (auto simp: EmplaceOpAt_def)
  have none: "op_of h k = None" using iD(1) eqs(3) by (simp add: fresh_heap_def)
  then show none': "ins h k = []" "outs h k = []" by (simp_all add: ins_def outs_def)
  have new: "k \<notin> set (g_ops ?g) \<union> set (g_ops g)" using lD(6) [of k] well_linkedD(3) [OF iD(2), of k] none by auto
  show io: "ins h' = ins h" "outs h' = outs h"
    using none by (auto simp: op' ins_def outs_def fun_eq_iff new_op_def)
  show kept: "target_kept h h' g" using new by (simp add: target_kept_def eqs(2) op'(1))
  have "tensor_linked h' (g_ops ?g @ [k]) x" if "x \<in> set (g_tensors ?g)" for x
    using lD(5) [OF that] none' by (auto simp: tensor_linked_def uses_def definer_def io eqs(2))
  moreover have "fresh_heap h'" using iD(1) by (auto simp: fresh_heap_def eqs(2,3) op')
  moreover have "op_of h' x \<noteq> None" if "x \<in> set (g_ops ?g @ [k])" for x using that lD(6) [of x] by (auto simp: op'(1))
  ultimately show "builder_inv h' g (b\<lparr>b_subgraph := bg\<rparr>)"
    using iD(3) lD(1-4,7-9) new none' target_kept_linked [OF kept iD(2)]
    unfolding builder_inv_def builder_linked_def by (simp add: eqs(1) io)
qed

lemma built_op:
  assumes inv: "builder_inv h g b" and t: "set inputs \<union> set outputs \<subseteq> b_tensors b \<union> set (g_tensors g)"
    and o': "distinct (filter (\<lambda>t. t \<in> b_tensors b) outputs)" "\<forall>t \<in> set outputs \<inter> b_tensors b. definer h t = None"
  shows "\<exists>k b' h'. BuildOp code inputs outputs (b, h) = Some (k, b', h') \<and> builder_inv h' g b' \<and> target_kept h h' g \<and>
    ins h' = (ins h)(k := map Some inputs) \<and> outs h' = (outs h)(k := map Some outputs) \<and>
    g_ops (b_subgraph b') = g_ops (b_subgraph b) @ [k] \<and> b_tensors b' = b_tensors b \<and>
    g_inputs (b_subgraph b') = g_inputs (b_subgraph b) @ filter (\<lambda>t. t \<notin> b_tensors b) inputs \<and>
    g_outputs (b_subgraph b') = g_outputs (b_subgraph b) @ filter (\<lambda>t. t \<notin> b_tensors b) outputs \<and>
    b_erases b' = b_erases b \<and> b_ops b' = insert k (b_ops b)"
proof -
  obtain k bg h1 where e: "EmplaceOpAt (length (g_ops (b_subgraph b))) (new_op code) (b_subgraph b) h = Some (k, bg, h1)"
    by (simp add: EmplaceOpAt_def)
  note n = new_op_linked [OF inv e]
  let ?b1 = "b\<lparr>b_subgraph := bg\<rparr>"
  have k1: "k \<in> set (g_ops (b_subgraph ?b1))" by (simp add: n(3))
  have in1: "set inputs \<subseteq> b_tensors ?b1 \<union> set (g_tensors g)" using t by simp
  from build_inputs [OF n(1) k1 in1] obtain b2 h2 where i: "foldM (build_input k) inputs (?b1, h1) = Some (b2, h2)"
    "builder_inv h2 g b2" "builder_same ?b1 b2" "target_kept h1 h2 g"
    "ins h2 = (ins h1)(k := ins h1 k @ map Some inputs)" "outs h2 = outs h1" "definer h2 = definer h1"
    "g_inputs (b_subgraph b2) = g_inputs (b_subgraph ?b1) @ filter (\<lambda>t. t \<notin> b_tensors ?b1) inputs"
    "g_outputs (b_subgraph b2) = g_outputs (b_subgraph ?b1)" by blast
  have sh: "b_tensors b2 = b_tensors b" "g_ops (b_subgraph b2) = g_ops bg" "b_erases b2 = b_erases b" "b_ops b2 = b_ops b"
    using i(3) by (simp_all add: builder_same_def)
  have d: "definer h2 t = definer h t" for t using i(7) n(6) by (simp add: definer_def)
  have k2: "k \<in> set (g_ops (b_subgraph b2))" using k1 by (simp add: sh(2))
  have p2: "set outputs \<subseteq> b_tensors b2 \<union> set (g_tensors g)" "distinct (filter (\<lambda>t. t \<in> b_tensors b2) outputs)"
    "\<forall>t \<in> set outputs \<inter> b_tensors b2. definer h2 t = None" using t o' by (simp_all add: sh(1) d)
  from build_outputs [OF i(2) k2 p2] obtain b3 h3 where o3: "foldM (build_output k) outputs (b2, h2) = Some (b3, h3)"
    "builder_inv h3 g b3" "builder_same b2 b3" "target_kept h2 h3 g"
    "ins h3 = ins h2" "outs h3 = (outs h2)(k := outs h2 k @ map Some outputs)"
    "g_inputs (b_subgraph b3) = g_inputs (b_subgraph b2)"
    "g_outputs (b_subgraph b3) = g_outputs (b_subgraph b2) @ filter (\<lambda>t. t \<notin> b_tensors b2) outputs" by blast
  let ?b' = "b3\<lparr>b_ops := insert k (b_ops b3)\<rparr>"
  have "BuildOp code inputs outputs (b, h) = Some (k, ?b', h3)" by (simp add: BuildOp_def e i(1) o3(1))
  moreover have "builder_inv h3 g ?b'" using o3(2) by (simp add: builder_inv_def)
  moreover have "target_kept h h3 g"
    using target_kept_trans [OF target_kept_trans [OF n(2) i(4)] o3(4)] .
  moreover have "ins h3 = (ins h)(k := map Some inputs)" "outs h3 = (outs h)(k := map Some outputs)"
    by (simp_all add: o3(5,6) i(5,6) n(4,5,7,8))
  moreover have "b_tensors b3 = b_tensors b" "g_ops (b_subgraph b3) = g_ops (b_subgraph b) @ [k]"
      "b_erases b3 = b_erases b" "b_ops b3 = b_ops b"
    using o3(3) sh by (simp_all add: builder_same_def n(3))
  ultimately show ?thesis
    by (intro exI [of _ k] exI [of _ ?b'] exI [of _ h3]) (simp add: o3(7,8) i(8,9) n(3) sh(1))
qed

text \<open>C32: A builder whose tensors are linked to its own operations stays so when an operation is built from its tensors
  and those of the target, if none of its own tensors among the results is defined already or
  repeated: building succeeds, the new operation comes last and has exactly the given operands and
  results, the operands and results of the target are recorded as the inputs and outputs of the
  builder's subgraph, in order, and no object of the target changes.\<close>

theorem BuildOp_keeps_builder:
  assumes inv: "builder_inv h g b" and t: "set inputs \<union> set outputs \<subseteq> b_tensors b \<union> set (g_tensors g)"
    and o': "distinct (filter (\<lambda>t. t \<in> b_tensors b) outputs)" "\<forall>t \<in> set outputs \<inter> b_tensors b. definer h t = None"
  shows "\<exists>k b' h'. BuildOp code inputs outputs (b, h) = Some (k, b', h') \<and> builder_inv h' g b' \<and> target_kept h h' g \<and>
    ins h' = (ins h)(k := map Some inputs) \<and> outs h' = (outs h)(k := map Some outputs) \<and>
    g_ops (b_subgraph b') = g_ops (b_subgraph b) @ [k] \<and> b_tensors b' = b_tensors b \<and>
    g_inputs (b_subgraph b') = g_inputs (b_subgraph b) @ filter (\<lambda>t. t \<notin> b_tensors b) inputs \<and>
    g_outputs (b_subgraph b') = g_outputs (b_subgraph b) @ filter (\<lambda>t. t \<notin> b_tensors b) outputs \<and>
    b_erases b' = b_erases b \<and> b_ops b' = insert k (b_ops b)"
  by (rule built_op [OF assms])

section \<open>Replacing an operation\<close>

text \<open>
  A new operation with the results of an operation \<open>d\<close> of the target, built by a builder without tensors and
  operations of its own: its changes can be applied when \<open>d\<close> is erased.
\<close>

lemma replacement_built:
  assumes inv: "builder_inv h g b0" and b0: "b_tensors b0 = {}" "g_outputs (b_subgraph b0) = []" "g_ops (b_subgraph b0) = []"
    and d: "d \<in> set (g_ops g)" "outs h d = map Some outputs" and i: "set inputs \<subseteq> set (g_tensors g)"
  shows "\<exists>n b h'. BuildOp code inputs outputs (b0, h) = Some (n, b, h') \<and> builder_inv h' g b \<and>
    builder_ok h' g (b_subgraph b) {d} \<and> b_erases b = b_erases b0 \<and> g_ops (b_subgraph b) = [n] \<and> n \<notin> set (g_ops g) \<and>
    g_outputs (b_subgraph b) = outputs \<and> ins h' = (ins h)(n := map Some inputs) \<and> outs h' = (outs h)(n := map Some outputs)"
proof -
  have wl: "well_linked h g" using builder_invD(2) [OF inv] .
  have o': "set outputs \<subseteq> set (g_tensors g)" using well_linkedD(5) [OF wl d(1)] d(2) by auto
  have pre: "set inputs \<union> set outputs \<subseteq> b_tensors b0 \<union> set (g_tensors g)"
    "distinct (filter (\<lambda>t. t \<in> b_tensors b0) outputs)" "\<forall>t \<in> set outputs \<inter> b_tensors b0. definer h t = None"
    using i o' by (simp_all add: b0)
  from built_op [OF inv pre, of code] obtain n b h' where
    run: "BuildOp code inputs outputs (b0, h) = Some (n, b, h')" and
    inv': "builder_inv h' g b" and kept: "target_kept h h' g" and
    io: "ins h' = (ins h)(n := map Some inputs)" "outs h' = (outs h)(n := map Some outputs)" and
    b: "g_ops (b_subgraph b) = [n]" "g_outputs (b_subgraph b) = outputs" "b_erases b = b_erases b0"
    by (auto simp: b0)
  note iD = builder_invD [OF inv']
  have lk: "definer h t = Some (d, j)" if "j < length outputs" "outputs ! j = t" for j t
    using linkedD(4) [OF well_linkedD(6) [OF wl, of t], of d j] that d o' nth_mem [OF that(1)] by auto
  have own: "definer h' t = Some (k, j) \<Longrightarrow> k = d" if "t \<in> set outputs" for t k j
  proof -
    have "tensor_of h' t = tensor_of h t" using kept that o' unfolding target_kept_def by blast
    moreover from that obtain i where "i < length outputs" "outputs ! i = t" by (auto simp: in_set_conv_nth)
    moreover assume "definer h' t = Some (k, j)"
    ultimately show "k = d" using lk [of i t] by (simp add: definer_def)
  qed
  have once: "e = e'" if "e \<in> set (edges (outs h') [n] t)" "e' \<in> set (edges (outs h') [n] t)" for e e' t
  proof -
    obtain k j k' j' where e: "e = (k, j)" "e' = (k', j')" by fastforce
    with that have "k = n" "k' = n" "j < length outputs" "outputs ! j = t" "j' < length outputs" "outputs ! j' = t"
      by (auto simp: set_edges io(2))
    with lk [of j t] lk [of j' t] e show ?thesis by simp
  qed
  have "builder_ok h' g (b_subgraph b) {d}"
    using iD(4) own once unfolding builder_ok_def b by blast
  moreover have "n \<notin> set (g_ops g)" using builder_linkedD(3) [OF iD(4)] b(1) by simp
  ultimately show ?thesis using run inv' b io by blast
qed

lemma replacement_ok:
  assumes wl: "well_linked h g" and f: "fresh_heap h" and d: "d \<in> set (g_ops g)" "outs h d = map Some outputs"
    and i: "set inputs \<subseteq> set (g_tensors g)"
  shows "\<exists>n b h'. BuildOp code inputs outputs (EraseOp d new_builder, h) = Some (n, b, h') \<and> well_linked h' g \<and>
    builder_ok h' g (b_subgraph b) {d} \<and> b_erases b = {d} \<and> g_ops (b_subgraph b) = [n] \<and> n \<notin> set (g_ops g) \<and>
    ins h' = (ins h)(n := map Some inputs) \<and> outs h' = (outs h)(n := map Some outputs)"
proof -
  have inv: "builder_inv h g (EraseOp d new_builder)"
    using builder_start [OF f wl] by (simp add: builder_inv_def EraseOp_def)
  have b0: "b_tensors (EraseOp d new_builder) = {}" "g_outputs (b_subgraph (EraseOp d new_builder)) = []"
    "g_ops (b_subgraph (EraseOp d new_builder)) = []" "b_erases (EraseOp d new_builder) = {d}"
    by (simp_all add: EraseOp_def new_builder_def empty_graph_def)
  from replacement_built [OF inv b0(1-3) d i, of code] b0(4) show ?thesis using builder_invD(2) by metis
qed

text \<open>
  An operation of the target with the same results takes the place of an erased one.
\<close>

theorem replacement_in_place:
  assumes wl: "well_linked h g" and f: "fresh_heap h" and ops: "g_ops g = ks @ d # ks'"
    and d: "outs h d = map Some outputs" and i: "set inputs \<subseteq> set (g_tensors g)" "inputs \<noteq> []"
    and live: "\<forall>k \<in> set (ks @ ks'). \<not> dead_op h k" and ord: "order {d} = [d]"
  shows "\<exists>n b h1 b' g' h'. BuildOp code inputs outputs (EraseOp d new_builder, h) = Some (n, b, h1) \<and>
    ApplyChanges order g b h1 = Some (b', g', h') \<and> well_linked h' g' \<and> g_ops g' = ks @ n # ks' \<and>
    g_inputs g' = g_inputs g \<and> g_outputs g' = g_outputs g"
proof -
  have dg: "d \<in> set (g_ops g)" by (simp add: ops)
  from replacement_ok [OF wl f dg d i(1), of code] obtain n b h1 where
    r: "BuildOp code inputs outputs (EraseOp d new_builder, h) = Some (n, b, h1)" "well_linked h1 g"
    "builder_ok h1 g (b_subgraph b) {d}" "b_erases b = {d}" "g_ops (b_subgraph b) = [n]" "n \<notin> set (g_ops g)"
    "ins h1 = (ins h)(n := map Some inputs)" "outs h1 = (outs h)(n := map Some outputs)" by blast
  have "builder_ok h1 g (b_subgraph b) (b_erases b)" "b_erases b \<subseteq> set (g_ops g)" "set (order (b_erases b)) = b_erases b"
    using r(3,4) dg ord by simp_all
  from changes_applied [where order = order, OF r(2) this] obtain b' g' h' where a: "ApplyChanges order g b h1 = Some (b', g', h')" "well_linked h' g'"
    "g_ops g' = filter (\<lambda>k. k \<notin> {d} \<and> \<not> dead_op h1 k) (takeWhile (\<lambda>k. k \<notin> {d}) (g_ops g)) @
      filter (\<lambda>k. k \<notin> {d} \<and> \<not> dead_op h1 k) [n] @ filter (\<lambda>k. k \<notin> {d} \<and> \<not> dead_op h1 k) (dropWhile (\<lambda>k. k \<notin> {d}) (g_ops g))"
    "g_inputs g' = g_inputs g" "g_outputs g' = g_outputs g"
    unfolding Let_def r(4,5) by blast
  have dis: "d \<notin> set ks" "d \<notin> set ks'" using well_linkedD(1) [OF wl] by (simp_all add: ops)
  have live1: "\<not> dead_op h1 k" if "k \<in> set (ks @ ks')" for k
    using live that r(6) by (auto simp: dead_op_def r(7,8) ops)
  have n: "\<not> dead_op h1 n" "n \<noteq> d" using i(2) r(6) by (auto simp: dead_op_def r(7) ops)
  have "filter (\<lambda>k. k \<notin> {d} \<and> \<not> dead_op h1 k) ks = ks" "filter (\<lambda>k. k \<notin> {d} \<and> \<not> dead_op h1 k) ks' = ks'"
    using dis live1 by (auto simp: filter_id_conv)
  moreover have "takeWhile (\<lambda>k. k \<notin> {d}) (g_ops g) = ks" "dropWhile (\<lambda>k. k \<notin> {d}) (g_ops g) = d # ks'"
    using dis by (auto simp: ops takeWhile_append dropWhile_append)
  ultimately have "g_ops g' = ks @ n # ks'" using a(3) n by simp
  then show ?thesis using r(1) a(1,2,4,5) by blast
qed

section \<open>Replacing an operation through the interface for plugins\<close>

text \<open>
  The new operation is built, then the old one is erased, which drops it at once: the links of the target stay well
  formed and the changes can be applied.
\<close>

lemma replace_through_interface:
  assumes wl: "well_linked h g" and f: "fresh_heap h" and d: "d \<in> set (g_ops g)" "op_of h d = Some x"
  shows "\<exists>n b h1 h2. LiteRtBuilderBuildOp code (op_inputs x) (op_outputs x) (new_builder, h) = Some (kLiteRtStatusOk, Some n, b, h1) \<and>
    LiteRtBuilderEraseOp (Some d) (b, h1) = Some (kLiteRtStatusOk, EraseOp d b, h2) \<and> fresh_heap h2 \<and> well_linked h2 g \<and>
    builder_ok h2 g (b_subgraph b) {d} \<and> b_erases b = {} \<and> g_ops (b_subgraph b) = [n] \<and> n \<notin> set (g_ops g) \<and>
    ins h2 = (ins h)(n := op_inputs x, d := []) \<and> outs h2 = (outs h)(n := op_outputs x, d := [])"
proof -
  have io: "set (op_inputs x) \<subseteq> Some ` set (g_tensors g)" "set (op_outputs x) \<subseteq> Some ` set (g_tensors g)"
    using well_linkedD(4,5) [OF wl d(1)] d(2) by (simp_all add: ins_def outs_def)
  have S: "map Some (map the (op_inputs x)) = op_inputs x" "map Some (map the (op_outputs x)) = op_outputs x"
    using io by (auto intro!: map_idI)
  have i: "set (map the (op_inputs x)) \<subseteq> set (g_tensors g)" using io(1) by force
  have o': "outs h d = map Some (map the (op_outputs x))" using d(2) unfolding S by (simp add: outs_def)
  have b0: "b_tensors new_builder = {}" "g_outputs (b_subgraph new_builder) = []" "g_ops (b_subgraph new_builder) = []"
    "b_erases new_builder = {}" by (simp_all add: new_builder_def empty_graph_def)
  from replacement_built [OF builder_start [OF f wl] b0(1-3) d(1) o' i, of code] obtain n b h1 where
    r: "BuildOp code (map the (op_inputs x)) (map the (op_outputs x)) (new_builder, h) = Some (n, b, h1)" "builder_inv h1 g b"
      "builder_ok h1 g (b_subgraph b) {d}" "b_erases b = {}" "g_ops (b_subgraph b) = [n]" "n \<notin> set (g_ops g)"
      "ins h1 = (ins h)(n := op_inputs x)" "outs h1 = (outs h)(n := op_outputs x)"
    unfolding S b0(4) by blast
  note iD = builder_invD [OF r(2)]
  note lD = builder_linkedD [OF iD(4)]
  let ?h2 = "dropped d g h1"
  have "None \<notin> set (op_inputs x)" "None \<notin> set (op_outputs x)" using io by auto
  then have 1: "LiteRtBuilderBuildOp code (op_inputs x) (op_outputs x) (new_builder, h) = Some (kLiteRtStatusOk, Some n, b, h1)"
    using r(1) by (simp add: LiteRtBuilderBuildOp_def)
  have 2: "LiteRtBuilderEraseOp (Some d) (b, h1) = Some (kLiteRtStatusOk, EraseOp d b, ?h2)"
    using Drop_effect [OF iD(2) d(1)] by (simp add: LiteRtBuilderEraseOp_def)
  have 3: "fresh_heap ?h2" using iD(1) by (auto simp: fresh_heap_def dropped_def)
  have "builder_ok ?h2 g (b_subgraph b) {d}"
  proof (rule builder_ok_frame [OF r(3)])
    show "\<forall>t \<in> set (g_tensors (b_subgraph b)). tensor_of ?h2 t = tensor_of h1 t" using lD(4) by (auto simp: dropped_def)
    show "\<forall>k \<in> set (g_ops (b_subgraph b)). op_of ?h2 k = op_of h1 k" using d(1) r(5,6) by (auto simp: dropped_def)
    show "\<forall>t \<in> set (g_outputs (b_subgraph b)). \<forall>k j. definer ?h2 t = Some (k, j) \<longrightarrow> k \<in> {d}"
    proof (intro ballI allI impI)
      fix t k j assume t: "t \<in> set (g_outputs (b_subgraph b))" and k: "definer ?h2 t = Some (k, j)"
      then have "t \<in> set (g_tensors g)" using lD(9) by blast
      then have "definer h1 t = Some (k, j)" using k by (auto simp: dropped_links split: option.splits if_splits)
      then show "k \<in> {d}" using builder_okD(11) [OF r(3) t] by blast
    qed
  qed
  moreover have "n \<noteq> d" using r(6) d(1) by blast
  ultimately show ?thesis
    using 1 2 3 well_linked_dropped [OF iD(2), of d] r(4-8)
    by (intro exI [of _ n] exI [of _ b] exI [of _ h1] exI [of _ ?h2]) (simp add: dropped_links)
qed

section \<open>No new objects\<close>

text \<open>Applying changes connects, moves and frees objects, and allocates none.\<close>

definition no_new :: "ir_heap \<Rightarrow> ir_heap \<Rightarrow> bool" where
  "no_new h h' \<longleftrightarrow> next_tensor h' = next_tensor h \<and> next_op h' = next_op h \<and>
     (\<forall>t. tensor_of h t = None \<longrightarrow> tensor_of h' t = None) \<and> (\<forall>k. op_of h k = None \<longrightarrow> op_of h' k = None)"

lemma no_new_refl [simp, intro]: "no_new h h"
  by (simp add: no_new_def)

lemma no_new_trans: "no_new h h' \<Longrightarrow> no_new h' h'' \<Longrightarrow> no_new h h''"
  by (simp add: no_new_def)

lemma no_new_fresh: "no_new h h' \<Longrightarrow> fresh_heap h \<Longrightarrow> fresh_heap h'"
  by (simp add: no_new_def fresh_heap_def)

lemma no_new_set [simp]:
  "tensor_of h t = Some tt \<Longrightarrow> no_new h (set_tensor t tt' h)" "op_of h k = Some op \<Longrightarrow> no_new h (set_op k op' h)"
  by (auto simp: no_new_def)

lemma no_new_foldM:
  assumes "\<And>x h h'. f x h = Some h' \<Longrightarrow> no_new h h'" and "foldM f xs h = Some h'"
  shows "no_new h h'"
  using assms(2) by (induction xs arbitrary: h) (auto simp: bind_eq_Some_conv intro: no_new_trans assms(1))

lemma no_new_slide: "foldM (slide_input k i) ps h = Some h' \<Longrightarrow> no_new h h'"
  by (rule no_new_foldM [where f = "slide_input k i"]) (auto simp: slide_input_def bind_eq_Some_conv)

lemma no_new_put:
  "no_new h (set_tensor t tt h) \<longleftrightarrow> tensor_of h t \<noteq> None" "no_new h (set_op k op h) \<longleftrightarrow> op_of h k \<noteq> None"
  by (auto simp: no_new_def)

lemma no_new_DisconnectInput: "DisconnectInput k i h = Some (t, h') \<Longrightarrow> no_new h h'"
proof -
  assume "DisconnectInput k i h = Some (t, h')"
  then obtain op tt h1 tt1 u where d: "op_of h k = Some op" "foldM (slide_input k i) (drop (Suc i) (op_inputs op)) h = Some h1"
    "tensor_of h1 t = Some tt1" "h' = set_op k (op\<lparr>op_inputs := erase_at i (op_inputs op)\<rparr>) (set_tensor t (RemoveUse u tt1) h1)"
    by (auto simp: DisconnectInput_def bind_eq_Some_conv)
  have "no_new h (set_tensor t (RemoveUse u tt1) h1)"
    using no_new_trans [OF no_new_slide [OF d(2)]] d(3) by simp
  then show ?thesis using d(1,4) by (auto simp: no_new_def)
qed

lemma no_new_DisconnectOutput: "DisconnectOutput k i h = Some (t, h') \<Longrightarrow> no_new h h'"
  by (auto simp: DisconnectOutput_def bind_eq_Some_conv no_new_def)

lemma no_new_Drop:
  assumes "Drop k h = Some h'"
  shows "no_new h h'"
proof -
  have "no_new h h'" if "drop_inputs k h = Some h'" for k h h'
  proof (rule drop_inputs.raw_induct [OF _ that])
    fix f k h h'
    assume IH: "\<And>k h h'. f k h = Some h' \<Longrightarrow> no_new h h'"
      and "do { op \<leftarrow> op_of h k; if op_inputs op \<noteq> [] then do { r \<leftarrow> DisconnectInput k 0 h; f k (snd r) } else Some h } = Some h'"
    then show "no_new h h'"
      by (auto simp: bind_eq_Some_conv split: if_splits intro: no_new_trans [OF no_new_DisconnectInput IH])
  qed
  moreover have "no_new h h'" if "drop_outputs k h = Some h'" for k h h'
  proof (rule drop_outputs.raw_induct [OF _ that])
    fix f k h h'
    assume IH: "\<And>k h h'. f k h = Some h' \<Longrightarrow> no_new h h'"
      and "do { op \<leftarrow> op_of h k; if op_outputs op \<noteq> [] then do { r \<leftarrow> DisconnectOutput k 0 h; f k (snd r) } else Some h } = Some h'"
    then show "no_new h h'"
      by (auto simp: bind_eq_Some_conv split: if_splits intro: no_new_trans [OF no_new_DisconnectOutput IH])
  qed
  ultimately show ?thesis using assms no_new_trans by (simp add: Drop_def bind_eq_Some_conv) blast
qed

lemma no_new_DCE: "DCE g h = Some (b, g', h') \<Longrightarrow> no_new h h'"
  by (auto simp: DCE_def bind_eq_Some_conv no_new_def free_ops_def free_tensors_def Let_def split: prod.splits)

lemma no_new_connect: "connect_op g k h = Some h' \<Longrightarrow> no_new h h'"
proof -
  have i: "no_new h h'" if "foldM (connect_input g k) is h = Some h'" for "is" h h'
    using that by (rule no_new_foldM [rotated]) (auto simp: connect_input_def bind_eq_Some_conv split: if_splits)
  have o': "no_new h h'" if "foldM (connect_output g k) is h = Some h'" for "is" h h'
    using that by (rule no_new_foldM [rotated]) (auto simp: connect_output_def bind_eq_Some_conv split: if_splits)
  assume "connect_op g k h = Some h'"
  then show ?thesis by (auto simp: connect_op_def bind_eq_Some_conv intro: no_new_trans [OF i o'])
qed

lemma ApplyChanges_fresh:
  assumes "ApplyChanges order g b h = Some (b', g', h')" "fresh_heap h"
  shows "fresh_heap h'"
proof -
  obtain h1 b1 g1 h2 where 1: "foldM Drop (order (b_erases b)) h = Some h1" "DCE (b_subgraph b) h1 = Some (b1, g1, h2)"
    using assms(1) by (auto simp: ApplyChanges_def bind_eq_Some_conv)
  obtain ops' rest where t: "TransferFrom_at (g_ops g) (g_ops g1) (splice_index (b_erases b) (g_ops g)) = (ops', rest)"
    by fastforce
  obtain h3 b2 g2 where 2: "foldM (connect_op g1) (g_ops g1) h2 = Some h3" "DCE (g\<lparr>g_ops := ops'\<rparr>) h3 = Some (b2, g2, h')"
    using assms(1) by (auto simp: ApplyChanges_def TransferFrom_def bind_eq_Some_conv Let_def 1 t)
  have "no_new h h1" by (rule no_new_foldM [OF _ 1(1)]) (rule no_new_Drop)
  moreover have "no_new h2 h3" by (rule no_new_foldM [OF _ 2(1)]) (rule no_new_connect)
  ultimately have "no_new h h'" using no_new_DCE [OF 1(2)] no_new_DCE [OF 2(2)] by (meson no_new_trans)
  then show ?thesis using assms(2) by (rule no_new_fresh)
qed

section \<open>Instances\<close>

lemma chain_start: "builder_inv chain_heap chain_graph new_builder"
  by (rule builder_start [OF plain_rootD(1,2) [OF chain_plain]])

theorem BuildOp_keeps_builder_witness:
  "case BuildOp 0 [1, 0] [2] (new_builder, chain_heap) of
     None \<Rightarrow> False
   | Some (k, b', h') \<Rightarrow> builder_inv h' chain_graph b' \<and> ins h' k = [Some 1, Some 0] \<and> g_outputs (b_subgraph b') = [2]"
proof -
  have "\<exists>k b' h'. BuildOp 0 [1, 0] [2] (new_builder, chain_heap) = Some (k, b', h') \<and> builder_inv h' chain_graph b' \<and>
      ins h' = (ins chain_heap)(k := map Some [1, 0]) \<and> g_outputs (b_subgraph b') = [2]"
    using BuildOp_keeps_builder [OF chain_start, of "[1, 0]" "[2]" 0] by (auto simp: new_builder_def empty_graph_def)
  then show ?thesis by auto
qed

theorem ApplyChanges_keeps_links_witness:
  "case BuildOp 0 [1] [2] (EraseOp 1 new_builder, chain_heap) of
     None \<Rightarrow> False
   | Some (n, b, h) \<Rightarrow> (case ApplyChanges (\<lambda>_. [1]) chain_graph b h of
       None \<Rightarrow> False | Some (b', g', h') \<Rightarrow> well_linked h' g' \<and> g_ops g' = [0, n, 2])"
proof -
  have o1: "outs chain_heap 1 = map Some [2]" by (simp add: outs_def chain_heap_eval plain_op_def)
  have "\<exists>n b h. BuildOp 0 [1] [2] (EraseOp 1 new_builder, chain_heap) = Some (n, b, h) \<and> well_linked h chain_graph \<and>
      builder_ok h chain_graph (b_subgraph b) {1} \<and> b_erases b = {1} \<and> g_ops (b_subgraph b) = [n] \<and> n \<notin> set (g_ops chain_graph) \<and>
      ins h = (ins chain_heap)(n := map Some [1]) \<and> outs h = (outs chain_heap)(n := map Some [2])"
    using o1 by (intro replacement_ok chain_linked plain_rootD(1) [OF chain_plain]) simp_all
  then obtain n b h where r: "BuildOp 0 [1] [2] (EraseOp 1 new_builder, chain_heap) = Some (n, b, h)" "well_linked h chain_graph"
      "builder_ok h chain_graph (b_subgraph b) {1}" "b_erases b = {1}" "g_ops (b_subgraph b) = [n]" "n \<notin> {0, 1, 2}"
      "ins h = (ins chain_heap)(n := [Some 1])" by auto
  have pre: "builder_ok h chain_graph (b_subgraph b) (b_erases b)" "b_erases b \<subseteq> set (g_ops chain_graph)"
    "set ((\<lambda>_. [1]) (b_erases b)) = b_erases b" using r(3,4) by simp_all
  have "dead_op h k \<longleftrightarrow> False" if "k \<in> {0, 2, n}" for k
    using that r(6) by (auto simp: dead_op_def r(7)) (simp_all add: ins_def chain_heap_eval plain_op_def)
  with ApplyChanges_keeps_links [where order = "\<lambda>_. [1]", OF r(2) pre] r(1,6)
  show ?thesis by (auto simp: r(4,5) Let_def)
qed

end
