(* ===== verification/PluginInline.thy ===== *)
theory PluginInline
  imports PluginAlgo ModelTransfer
begin

text \<open>
  Inlining the decomposition of a composite operation: \<open>InlineSubgraph\<close> of
  \<^verbatim>\<open>src/litert/compiler/plugin/algo.cc\<close>.

  Layouts carry no strides here, so that two of them are the same when their dimensions are.
\<close>

section \<open>The checks\<close>

definition LiteRtIsSameLayout :: "Dims \<Rightarrow> Dims \<Rightarrow> bool" where
  "LiteRtIsSameLayout layout1 layout2 \<longleftrightarrow>
     length layout1 = length layout2 \<and> list_all2 (=) layout1 layout2"

definition verify_tensor_type :: "LiteRtTensorT \<Rightarrow> LiteRtTensorT \<Rightarrow> LiteRtStatus" where
  "verify_tensor_type dest_tensor source_tensor =
     (case (tensor_type dest_tensor, tensor_type source_tensor) of
        (UnrankedTensorType e1, UnrankedTensorType e2) \<Rightarrow>
          (if e1 = e2 then kLiteRtStatusOk else kLiteRtStatusErrorInvalidArgument)
      | (RankedTensorType e1 layout1, RankedTensorType e2 layout2) \<Rightarrow>
          (if e1 \<noteq> e2 then kLiteRtStatusErrorInvalidArgument
           else if \<not> LiteRtIsSameLayout layout1 layout2 then kLiteRtStatusErrorInvalidArgument
           else kLiteRtStatusOk)
      | (OtherTensorType, OtherTensorType) \<Rightarrow> kLiteRtStatusOk
      | _ \<Rightarrow> kLiteRtStatusErrorInvalidArgument)"

text \<open>The loops over the inputs and over the outputs, which have been checked to be as many.\<close>

fun verify_tensors :: "ir_heap \<Rightarrow> nat option list \<Rightarrow> nat list \<Rightarrow> LiteRtStatus option" where
  "verify_tensors h [] ss = Some kLiteRtStatusOk"
| "verify_tensors h (p # ps) [] = None"
| "verify_tensors h (p # ps) (s # ss) = do {
     t \<leftarrow> p;
     dest_tensor \<leftarrow> tensor_of h t;
     source_tensor \<leftarrow> tensor_of h s;
     let status = verify_tensor_type dest_tensor source_tensor;
     (if status = kLiteRtStatusOk then verify_tensors h ps ss else Some status) }"

text \<open>The last subgraph that has the operation; otherwise the pointer stays uninitialised.\<close>

definition find_main :: "ir_graph list \<Rightarrow> nat \<Rightarrow> nat option" where
  "find_main gs d =
     (case filter (\<lambda>i. d \<in> set (g_ops (gs ! i))) [0..<length gs] of [] \<Rightarrow> None | is \<Rightarrow> Some (last is))"

section \<open>Copying\<close>

type_synonym clone_map = "(nat, nat) InsertOrderMap"

definition inline_op ::
  "nat \<Rightarrow> nat \<times> clone_map \<times> ir_graph \<times> ir_heap \<Rightarrow> (nat \<times> clone_map \<times> ir_graph \<times> ir_heap) option" where
  "inline_op decomp_op = (\<lambda>(op_index, o_map, g, h). do {
     op \<leftarrow> op_of h decomp_op;
     (new_op, g', h') \<leftarrow> EmplaceOpAt op_index (clone_op op) g h;
     Some (Suc op_index, InsertOrAssign decomp_op new_op o_map, g', h') })"

definition inline_tensor :: "nat \<Rightarrow> clone_map \<times> ir_graph \<times> ir_heap \<Rightarrow> (clone_map \<times> ir_graph \<times> ir_heap) option" where
  "inline_tensor decomp_tensor = (\<lambda>(t_map, g, h). do {
     t \<leftarrow> tensor_of h decomp_tensor;
     let (new_tensor, g', h') = EmplaceTensor (clone_tensor t) g h;
     Some (InsertOrAssign decomp_tensor new_tensor t_map, g', h') })"

definition link_input :: "clone_map \<Rightarrow> nat \<Rightarrow> nat option \<Rightarrow> ir_heap \<Rightarrow> ir_heap option" where
  "link_input t_map cloned_op p h = do {
     decomp_input \<leftarrow> p;
     cloned_input \<leftarrow> Find decomp_input t_map;
     op \<leftarrow> op_of h cloned_op;
     let h1 = set_op cloned_op (op\<lparr>op_inputs := op_inputs op @ [Some (snd cloned_input)]\<rparr>) h;
     tt \<leftarrow> tensor_of h1 (snd cloned_input);
     Some (set_tensor (snd cloned_input) (tt\<lparr>users := users tt @ [(cloned_op, length (op_inputs op))]\<rparr>) h1) }"

definition link_output :: "clone_map \<Rightarrow> nat \<Rightarrow> nat option \<Rightarrow> ir_heap \<Rightarrow> ir_heap option" where
  "link_output t_map cloned_op p h = do {
     decomp_output \<leftarrow> p;
     cloned_output \<leftarrow> Find decomp_output t_map;
     op \<leftarrow> op_of h cloned_op;
     Some (set_op cloned_op (op\<lparr>op_outputs := op_outputs op @ [Some (snd cloned_output)]\<rparr>) h) }"

definition link_op :: "clone_map \<Rightarrow> clone_map \<Rightarrow> nat \<Rightarrow> ir_heap \<Rightarrow> ir_heap option" where
  "link_op o_map t_map decomp_op h = do {
     op \<leftarrow> op_of h decomp_op;
     cloned_op \<leftarrow> Find decomp_op o_map;
     h1 \<leftarrow> foldM (link_input t_map (snd cloned_op)) (op_inputs op) h;
     foldM (link_output t_map (snd cloned_op)) (op_outputs op) h1 }"

section \<open>Connecting the inputs\<close>

text \<open>The index advances after a removal too, so that the use behind a removed one is not looked at.\<close>

fun remove_uses :: "nat \<Rightarrow> (nat \<times> nat) list \<Rightarrow> (nat \<times> nat) list" where
  "remove_uses d [] = []"
| "remove_uses d (u # us) =
     (if fst u \<noteq> d then u # remove_uses d us
      else (case us of [] \<Rightarrow> [] | v # vs \<Rightarrow> v # remove_uses d vs))"

definition redirect_user :: "clone_map \<Rightarrow> nat \<Rightarrow> nat \<Rightarrow> nat \<times> nat \<Rightarrow> ir_heap \<Rightarrow> ir_heap option" where
  "redirect_user o_map d input_ind = (\<lambda>(user, user_arg) h. do {
     cloned_op \<leftarrow> Find user o_map;
     op \<leftarrow> op_of h (snd cloned_op);
     old \<leftarrow> at (op_inputs op) user_arg;
     dest \<leftarrow> op_of h d;
     p \<leftarrow> at (op_inputs dest) input_ind;
     let h1 = set_op (snd cloned_op) (op\<lparr>op_inputs := (op_inputs op)[user_arg := p]\<rparr>) h;
     t \<leftarrow> p;
     tt \<leftarrow> tensor_of h1 t;
     Some (set_tensor t (tt\<lparr>users := remove_uses d (users tt) @ [(snd cloned_op, user_arg)]\<rparr>) h1) })"

definition redirect_input :: "ir_graph \<Rightarrow> clone_map \<Rightarrow> nat \<Rightarrow> nat \<Rightarrow> ir_heap \<Rightarrow> ir_heap option" where
  "redirect_input source o_map d input_ind h = do {
     s \<leftarrow> at (g_inputs source) input_ind;
     tt \<leftarrow> tensor_of h s;
     foldM (redirect_user o_map d input_ind) (users tt) h }"

definition isolate :: "nat \<Rightarrow> ir_heap \<Rightarrow> ir_heap option" where
  "isolate t h = do {
     tt \<leftarrow> tensor_of h t;
     Some (set_tensor t (tt\<lparr>users := [], defining_op := None\<rparr>) h) }"

definition isolate_input :: "clone_map \<Rightarrow> nat \<Rightarrow> ir_heap \<Rightarrow> ir_heap option" where
  "isolate_input t_map s h = do {
     cloned_input \<leftarrow> Find s t_map;
     isolate (snd cloned_input) h }"

section \<open>Connecting the outputs\<close>

definition reroute_user :: "nat \<Rightarrow> nat \<times> nat \<Rightarrow> ir_heap \<Rightarrow> ir_heap option" where
  "reroute_user cloned_tensor = (\<lambda>(user, user_arg) h. do {
     op \<leftarrow> op_of h user;
     old \<leftarrow> at (op_inputs op) user_arg;
     let h1 = set_op user (op\<lparr>op_inputs := (op_inputs op)[user_arg := Some cloned_tensor]\<rparr>) h;
     tt \<leftarrow> tensor_of h1 cloned_tensor;
     Some (set_tensor cloned_tensor (tt\<lparr>users := users tt @ [(user, user_arg)]\<rparr>) h1) })"

definition reroute_output ::
  "ir_graph \<Rightarrow> clone_map \<Rightarrow> nat \<Rightarrow> nat \<Rightarrow> ir_graph \<times> ir_heap \<Rightarrow> (ir_graph \<times> ir_heap) option" where
  "reroute_output source t_map d output_ind = (\<lambda>(main, h). do {
     s \<leftarrow> at (g_outputs source) output_ind;
     cloned_tensor \<leftarrow> Find s t_map;
     dest \<leftarrow> op_of h d;
     p \<leftarrow> at (op_outputs dest) output_ind;
     t \<leftarrow> p;
     tt \<leftarrow> tensor_of h t;
     h' \<leftarrow> foldM (reroute_user (snd cloned_tensor)) (users tt) h;
     Some (main\<lparr>g_outputs := map (\<lambda>o'. if o' = t then snd cloned_tensor else o') (g_outputs main)\<rparr>, h') })"

definition isolate_output :: "nat option \<Rightarrow> ir_heap \<Rightarrow> ir_heap option" where
  "isolate_output p h = do { t \<leftarrow> p; isolate t h }"

section \<open>Inlining\<close>

text \<open>
  The body of the function, after the checks: the main subgraph and the heap, and the pairs of an
  operation and its clone.
\<close>

definition inline_body :: "ir_graph \<Rightarrow> nat \<Rightarrow> ir_graph \<Rightarrow> ir_heap \<Rightarrow> (ir_graph \<times> ir_heap \<times> (nat \<times> nat) list) option" where
  "inline_body source d main h = do {
     op_index \<leftarrow> FindInd (g_ops main) d;
     (_, o_map, g1, h1) \<leftarrow> foldM inline_op (g_ops source) (op_index, empty_map, main, h);
     (t_map, g2, h2) \<leftarrow> foldM inline_tensor (g_tensors source) (empty_map, g1, h1);
     h3 \<leftarrow> foldM (link_op o_map t_map) (g_ops source) h2;
     dest \<leftarrow> op_of h3 d;
     h4 \<leftarrow> foldM (redirect_input source o_map d) [0..<length (op_inputs dest)] h3;
     h5 \<leftarrow> foldM (isolate_input t_map) (g_inputs source) h4;
     (g6, h6) \<leftarrow> foldM (reroute_output source t_map d) [0..<length (op_outputs dest)] (g2, h5);
     h7 \<leftarrow> foldM isolate_output (op_outputs dest) h6;
     op \<leftarrow> op_of h7 d;
     (_, g8, h8) \<leftarrow> DCE g6 (set_op d (op\<lparr>op_inputs := [], op_outputs := []\<rparr>) h7);
     Some (g8, h8, map_values o_map) }"

text \<open>
  \<open>source\<close> is the index of the decomposition.  When it is the main subgraph itself the loops change
  the vectors they iterate over.
\<close>

definition InlineSubgraph ::
  "nat \<Rightarrow> nat \<Rightarrow> ir_graph list \<times> ir_heap \<Rightarrow> (LiteRtStatus \<times> ir_graph list \<times> ir_heap \<times> (nat \<times> nat) list) option" where
  "InlineSubgraph d source = (\<lambda>(gs, h). do {
     dest \<leftarrow> op_of h d;
     source_subgraph \<leftarrow> at gs source;
     (if length (op_inputs dest) \<noteq> length (g_inputs source_subgraph) \<or>
         length (op_outputs dest) \<noteq> length (g_outputs source_subgraph)
      then Some (kLiteRtStatusErrorInvalidArgument, gs, h, [])
      else do {
        inputs_ok \<leftarrow> verify_tensors h (op_inputs dest) (g_inputs source_subgraph);
        (if inputs_ok \<noteq> kLiteRtStatusOk then Some (inputs_ok, gs, h, [])
         else do {
           outputs_ok \<leftarrow> verify_tensors h (op_outputs dest) (g_outputs source_subgraph);
           (if outputs_ok \<noteq> kLiteRtStatusOk then Some (outputs_ok, gs, h, [])
            else do {
              main \<leftarrow> find_main gs d;
              (if main = source then None
               else do {
                 (g, h', clones) \<leftarrow> inline_body source_subgraph d (gs ! main) h;
                 Some (kLiteRtStatusOk, gs[main := g], h', clones) }) }) }) }) })"

end
