(* ===== verification/InlineCases.thy ===== *)
theory InlineCases
  imports PluginInline GraphIRCorrect
begin

text \<open>
  What inlining does with an operand that the decomposition does not use, and with the results: the
  main subgraph and the decomposition below are well linked, yet after inlining the unused operand
  keeps a use by the composite operation, which is freed, and the tensor that replaces the result has no
  defining operation.
\<close>

lemmas inline_eval = InlineSubgraph_def inline_body_def find_main_def inline_op_def inline_tensor_def link_input_def
  link_output_def link_op_def redirect_user_def redirect_input_def isolate_def isolate_input_def reroute_user_def
  reroute_output_def isolate_output_def verify_tensor_type_def LiteRtIsSameLayout_def FindInd_def EmplaceOpAt_def
  EmplaceTensor_def clone_op_def clone_tensor_def empty_map_def InsertOrAssign_def Find_def DCE_def free_ops_def
  free_tensors_def IsOpDead_def IsTensorDead_def IsIO_def FindInput_def FindOutput_def heap_of_def graph_of_def
  plain_tensor_def plain_op_def at_def

definition inline_heap :: ir_heap where
  "inline_heap = heap_of
     [plain_tensor [(0, 0)] None, plain_tensor [(0, 1)] None, plain_tensor [] (Some (0, 0)),
      plain_tensor [(1, 0)] None, plain_tensor [] None, plain_tensor [] (Some (1, 0))]
     [plain_op [0, 1] [2], plain_op [3] [5]]"

definition inline_main :: ir_graph where
  "inline_main = \<lparr>g_tensors = [0, 1, 2], g_ops = [0], g_inputs = [0, 1], g_outputs = [2]\<rparr>"

definition inline_source :: ir_graph where
  "inline_source = \<lparr>g_tensors = [3, 4, 5], g_ops = [1], g_inputs = [3, 4], g_outputs = [5]\<rparr>"

lemma inline_example_linked: "well_linked inline_heap inline_main" "well_linked inline_heap inline_source"
  unfolding well_linked_def tensor_linked_def
  by (auto simp: inline_heap_def inline_main_def inline_source_def heap_of_def plain_tensor_def plain_op_def
      at_def uses_def definer_def ins_def outs_def less_Suc_eq nth_Cons' split: if_splits)

lemma InlineSubgraph_leaves_dangling_links:
  "case InlineSubgraph 0 1 ([inline_main, inline_source], inline_heap) of
     None \<Rightarrow> False
   | Some (status, gs, h', clones) \<Rightarrow> status = kLiteRtStatusOk \<and> g_ops (gs ! 0) = [2] \<and> ins h' 2 = [Some 0] \<and>
       op_of h' 0 = None \<and> (0, 1) \<in> set (uses h' 1) \<and>
       outs h' 2 = [Some 8] \<and> g_outputs (gs ! 0) = [8] \<and> definer h' 8 = None"
  unfolding inline_heap_def inline_main_def inline_source_def
  by (simp add: inline_eval Let_def upt_rec uses_def definer_def ins_def outs_def)

end
