(* ===== verification/PluginModel.thy ===== *)
theory PluginModel
  imports PluginInline OutlineSemantics
begin

text \<open>
  The driver of the compiler plugin, \<open>PartitionModel\<close>, \<open>PartitionModelDirect\<close> and
  \<open>ApplyPluginWithPartition\<close> of \<^verbatim>\<open>src/litert/compiler/plugin/compiler_plugin.cc\<close>: which subgraphs
  the plugin sees, which composite operations are inlined, which subgraphs are compiled, and how the
  byte code is attached to the dispatch operations.

  The plugin is a parameter: \<open>plugin s i\<close> is what its partition function answers for subgraph
  \<open>i\<close> in state \<open>s\<close>.
\<close>

section \<open>State\<close>

text \<open>
  \<open>npu_call k\<close> says that the composite operation \<open>k\<close> has the name \<^verbatim>\<open>odml.npu_call\<close>; the index of its
  decomposition is in the model.
\<close>

record plugin_state =
  ps_model :: ir_model
  npu_call :: "nat \<Rightarrow> bool"
  ps_heap :: ir_heap

type_synonym plugin = "plugin_state \<Rightarrow> nat \<Rightarrow> LiteRtStatus + LiteRtOpWithPartitionIndex list"

definition all_ops :: "ir_model \<Rightarrow> nat list" where
  "all_ops m = concat (map g_ops (subgraphs m))"

text \<open>Clones have the options of the operations they are cloned from.\<close>

definition copy_options :: "(nat \<times> nat) list \<Rightarrow> plugin_state \<Rightarrow> plugin_state" where
  "copy_options clones s =
     fold (\<lambda>(k, k') s. s\<lparr>ps_model := (ps_model s)\<lparr>composite := (composite (ps_model s))(k' := composite (ps_model s) k)\<rparr>,
                         npu_call := (npu_call s)(k' := npu_call s k)\<rparr>) clones s"

text \<open>A dispatch operation is no composite operation.\<close>

definition forget_composite :: "nat list \<Rightarrow> plugin_state \<Rightarrow> plugin_state" where
  "forget_composite ks s = s\<lparr>ps_model := (ps_model s)\<lparr>composite := (\<lambda>k. if k \<in> set ks then None else composite (ps_model s) k)\<rparr>\<rparr>"

section \<open>Partitioning a model\<close>

text \<open>
  The list of selected subgraphs holds \<open>size_t\<close> values; a negative index is past every subgraph, which
  moving the subgraphs does not survive.
\<close>

text \<open>The subgraphs that are the decomposition of a composite operation.\<close>

definition decomp_subgraphs :: "ir_model \<Rightarrow> int set" where
  "decomp_subgraphs m = {d. \<exists>k \<in> set (all_ops m). composite m k = Some d}"

definition ops_to_inline :: "plugin_state \<Rightarrow> ir_graph \<Rightarrow> LiteRtOpWithPartitionIndex list \<Rightarrow> nat list" where
  "ops_to_inline s subgraph selected_ops =
     filter (\<lambda>op. composite (ps_model s) op \<noteq> None \<and> \<not> npu_call s op \<and> op \<notin> fst ` set selected_ops) (g_ops subgraph)"

text \<open>Inlining one operation; when it fails, the operation and its decomposition stay.\<close>

definition inline_one :: "nat \<Rightarrow> plugin_state \<times> int list \<Rightarrow> (plugin_state \<times> int list) option" where
  "inline_one op = (\<lambda>(s, selected_indexes). do {
     subgraph \<leftarrow> composite (ps_model s) op;
     (if subgraph < 0 then None
      else do {
        (status, gs, h, clones) \<leftarrow> InlineSubgraph op (nat subgraph) (subgraphs (ps_model s), ps_heap s);
        (if status = kLiteRtStatusOk
         then Some (copy_options clones (s\<lparr>ps_model := (ps_model s)\<lparr>subgraphs := gs\<rparr>, ps_heap := h\<rparr>),
                    selected_indexes @ [subgraph])
         else Some (s, selected_indexes)) }) })"

text \<open>The decompositions of the composite operations that the plugin selected.\<close>

definition selected_decomps :: "plugin_state \<Rightarrow> LiteRtOpWithPartitionIndex list \<Rightarrow> int list" where
  "selected_decomps s selected_ops =
     concat (map (\<lambda>op. case composite (ps_model s) (fst op) of
        None \<Rightarrow> [] | Some subgraph \<Rightarrow> if npu_call s (fst op) then [] else [subgraph]) selected_ops)"

definition islands_of ::
  "(size_t list \<Rightarrow> size_t list) \<Rightarrow> (nat list \<Rightarrow> nat list) \<Rightarrow> PartitionStrategy \<Rightarrow> LiteRtOpWithPartitionIndex list \<Rightarrow>
   ir_graph \<Rightarrow> ir_heap \<Rightarrow> nat list list option" where
  "islands_of index_order op_order strategy selected_ops subgraph h = (case strategy of
     StrategyDefault \<Rightarrow> Some (GetPartitionsFromFlatListV2 selected_ops subgraph)
   | StrategyWeaklyConnected \<Rightarrow> GetPartitionsFromFlatList index_order op_order h selected_ops)"

text \<open>
  \<open>PartitionSubgraph\<close> on subgraph \<open>i\<close> of the model: the slices become the last subgraphs of the model.
\<close>

definition partition_at ::
  "(size_t list \<Rightarrow> size_t list) \<Rightarrow> (nat list \<Rightarrow> nat list) \<Rightarrow> PartitionStrategy \<Rightarrow> LiteRtOpWithPartitionIndex list \<Rightarrow>
   nat \<Rightarrow> plugin_state \<times> nat list \<Rightarrow> (plugin_state \<times> nat list) option" where
  "partition_at index_order op_order strategy selected_ops i = (\<lambda>(s, dispatch_ops). do {
     let gs = subgraphs (ps_model s);
     subgraph \<leftarrow> at gs i;
     islands \<leftarrow> islands_of index_order op_order strategy selected_ops subgraph (ps_heap s);
     (subgraph', slices, dispatch_ops', h) \<leftarrow>
       PartitionSubgraph index_order op_order strategy selected_ops (subgraph, [], dispatch_ops, ps_heap s);
     let s1 = s\<lparr>ps_model := (ps_model s)\<lparr>subgraphs := gs[i := subgraph'] @ slices\<rparr>, ps_heap := h\<rparr>;
     let clones = concat (map2 zip islands (map g_ops slices));
     Some (forget_composite (map last islands) (copy_options clones s1), dispatch_ops') })"

text \<open>
  One iteration of the loop over the subgraphs.  An error of the second call of the plugin is not looked
  at before its result is used.
\<close>

definition partition_subgraph_step ::
  "plugin \<Rightarrow> (size_t list \<Rightarrow> size_t list) \<Rightarrow> (nat list \<Rightarrow> nat list) \<Rightarrow> PartitionStrategy \<Rightarrow> nat \<Rightarrow>
   plugin_state \<times> nat list \<times> int list \<Rightarrow> (LiteRtStatus \<times> plugin_state \<times> nat list \<times> int list) option" where
  "partition_subgraph_step plugin index_order op_order strategy i = (\<lambda>(s, dispatch_ops, selected_indexes).
     (case plugin s i of
        Inl err \<Rightarrow> Some (err, s, dispatch_ops, selected_indexes)
      | Inr selected_ops \<Rightarrow> do {
          subgraph \<leftarrow> at (subgraphs (ps_model s)) i;
          let to_inline = ops_to_inline s subgraph selected_ops;
          (s1, selected1) \<leftarrow> foldM inline_one to_inline (s, selected_indexes);
          selected_ops' \<leftarrow> (if to_inline \<noteq> [] then (case plugin s1 i of Inl _ \<Rightarrow> None | Inr chosen \<Rightarrow> Some chosen)
                           else Some selected_ops);
          (s2, dispatch_ops') \<leftarrow> partition_at index_order op_order strategy selected_ops' i (s1, dispatch_ops);
          Some (kLiteRtStatusOk, s2, dispatch_ops', selected1 @ selected_decomps s1 selected_ops') }))"

fun partition_subgraphs ::
  "(nat \<Rightarrow> 's \<Rightarrow> (LiteRtStatus \<times> 's) option) \<Rightarrow> nat list \<Rightarrow> 's \<Rightarrow> (LiteRtStatus \<times> 's) option" where
  "partition_subgraphs step [] s = Some (kLiteRtStatusOk, s)"
| "partition_subgraphs step (i # js) s = do {
     (status, s') \<leftarrow> step i s;
     (if status = kLiteRtStatusOk then partition_subgraphs step js s' else Some (status, s')) }"

text \<open>
  The \<open>npu_call\<close> operations become dispatch operations.
\<close>

definition make_dispatch :: "nat \<Rightarrow> plugin_state \<Rightarrow> plugin_state option" where
  "make_dispatch k s = do {
     op \<leftarrow> op_of (ps_heap s) k;
     Some (forget_composite [k] (s\<lparr>ps_heap := set_op k (MakeDispatchOp op) (ps_heap s)\<rparr>)) }"

definition npu_calls :: "plugin_state \<Rightarrow> (nat \<times> int) list" where
  "npu_calls s = concat (map (\<lambda>k. case composite (ps_model s) k of
     None \<Rightarrow> [] | Some subgraph \<Rightarrow> if npu_call s k then [(k, subgraph)] else []) (all_ops (ps_model s)))"

text \<open>The result: a status, or the dispatch operations and the model to compile, and the state left behind.\<close>

definition PartitionModel ::
  "plugin \<Rightarrow> (size_t list \<Rightarrow> size_t list) \<Rightarrow> (nat list \<Rightarrow> nat list) \<Rightarrow> PartitionStrategy \<Rightarrow> nat set \<Rightarrow> plugin_state \<Rightarrow>
   ((LiteRtStatus + nat list \<times> ir_model) \<times> plugin_state) option" where
  "PartitionModel plugin index_order op_order strategy subgraphs_to_partition s = do {
     let n = length (subgraphs (ps_model s));
     let decomps = decomp_subgraphs (ps_model s);
     let idxs = filter (\<lambda>i. int i \<notin> decomps \<and> (subgraphs_to_partition = {} \<or> i \<in> subgraphs_to_partition)) [0..<n];
     (status, s1, dispatch_ops, selected) \<leftarrow>
       partition_subgraphs (partition_subgraph_step plugin index_order op_order strategy) idxs (s, [], []);
     (if status \<noteq> kLiteRtStatusOk then Some (Inl status, s1)
      else if \<exists>d \<in> set selected. d < 0 then None
      else do {
        (_, m2) \<leftarrow> Yank (map nat selected) (ps_model s1);
        let s2 = s1\<lparr>ps_model := m2\<rparr>;
        let calls = npu_calls s2;
        s3 \<leftarrow> foldM make_dispatch (map fst calls) s2;
        (if \<exists>call \<in> set calls. snd call < 0 then None
         else do {
           let first = (if n < length selected then length (subgraphs m2) else n - length selected);
           let decomps_to_compile = map (nat \<circ> snd) calls @ [first..<length (subgraphs m2)];
           (new_model, m4) \<leftarrow> Yank decomps_to_compile (ps_model s3);
           Some (Inr (dispatch_ops @ map fst calls, new_model), s3\<lparr>ps_model := m4\<rparr>) }) }) }"

definition PartitionModelDirect ::
  "(size_t list \<Rightarrow> size_t list) \<Rightarrow> (nat list \<Rightarrow> nat list) \<Rightarrow> LiteRtOpWithPartitionIndex list \<Rightarrow> plugin_state \<Rightarrow>
   ((LiteRtStatus + nat list \<times> ir_model) \<times> plugin_state) option" where
  "PartitionModelDirect index_order op_order selected_ops s =
     (if length (subgraphs (ps_model s)) \<noteq> 1 then Some (Inl kLiteRtStatusErrorRuntimeFailure, s)
      else do {
        (s1, dispatch_ops) \<leftarrow> partition_at index_order op_order StrategyWeaklyConnected selected_ops 0 (s, []);
        (new_model, m) \<leftarrow> Yank [1..<length (subgraphs (ps_model s1))] (ps_model s1);
        Some (Inr (dispatch_ops, new_model), s1\<lparr>ps_model := m\<rparr>) })"

section \<open>Attaching the byte code\<close>

text \<open>
  What the plugin's compiler returned: byte code modules, and for each partition the name of its entry point and
  the index of its module.
\<close>

record CompiledResult =
  NumByteCodeModules :: "LiteRtStatus + nat"
  ByteCode :: "nat \<Rightarrow> LiteRtStatus + byte list"
  CallInfo :: "nat \<Rightarrow> LiteRtStatus + string \<times> nat"

record asset_state =
  buffers :: "byte list list"
  op_assets :: "nat \<rightharpoonup> nat \<times> string"
  metadata :: "string \<rightharpoonup> nat"

definition RegisterOwnedBuffer :: "byte list \<Rightarrow> asset_state \<Rightarrow> nat \<times> asset_state" where
  "RegisterOwnedBuffer buf a = (length (buffers a), a\<lparr>buffers := buffers a @ [buf]\<rparr>)"

definition AttachAssetToOp :: "nat \<Rightarrow> nat \<Rightarrow> string \<Rightarrow> asset_state \<Rightarrow> asset_state" where
  "AttachAssetToOp op buf_id name a = a\<lparr>op_assets := (op_assets a)(op \<mapsto> (buf_id, name))\<rparr>"

definition FindOpAsset :: "nat \<Rightarrow> asset_state \<Rightarrow> LiteRtStatus + nat \<times> string" where
  "FindOpAsset op a = (case op_assets a op of Some r \<Rightarrow> Inr r | None \<Rightarrow> Inl kLiteRtStatusErrorNotFound)"

definition PushMetadata :: "string \<Rightarrow> byte list \<Rightarrow> asset_state \<Rightarrow> LiteRtStatus \<times> asset_state" where
  "PushMetadata key buf a =
     (if metadata a key \<noteq> None then (kLiteRtStatusErrorAlreadyExists, a)
      else case RegisterOwnedBuffer buf a of
        (buf_id, a') \<Rightarrow> (kLiteRtStatusOk, a'\<lparr>metadata := (metadata a')(key \<mapsto> buf_id)\<rparr>))"

text \<open>The loops over the byte code modules and over the dispatch operations.\<close>

fun register_byte_code :: "CompiledResult \<Rightarrow> nat list \<Rightarrow> nat list \<times> asset_state \<Rightarrow> LiteRtStatus \<times> nat list \<times> asset_state" where
  "register_byte_code r [] s = (kLiteRtStatusOk, s)"
| "register_byte_code r (i # js) (buf_ids, a) =
     (case ByteCode r i of
        Inl err \<Rightarrow> (err, buf_ids, a)
      | Inr code \<Rightarrow> (case RegisterOwnedBuffer code a of
          (buf_id, a') \<Rightarrow> register_byte_code r js (buf_ids @ [buf_id], a')))"

fun attach_calls :: "CompiledResult \<Rightarrow> nat list \<Rightarrow> nat \<Rightarrow> nat list \<Rightarrow> asset_state \<Rightarrow> (LiteRtStatus \<times> asset_state) option" where
  "attach_calls r buf_ids i [] a = Some (kLiteRtStatusOk, a)"
| "attach_calls r buf_ids i (dispatch_op # rest) a =
     (case CallInfo r i of
        Inl err \<Rightarrow> Some (err, a)
      | Inr (name, byte_code_idx) \<Rightarrow> do {
          buf_id \<leftarrow> at buf_ids byte_code_idx;
          attach_calls r buf_ids (Suc i) rest (AttachAssetToOp dispatch_op buf_id name a) })"

section \<open>The build stamp\<close>

definition kSocManufacturerMaxLen :: nat where "kSocManufacturerMaxLen = 124"
definition kSocModelMaxLen :: nat where "kSocModelMaxLen = 124"

text \<open>\<open>std::string_view::copy\<close> into an array of zeros.\<close>

definition padded :: "nat \<Rightarrow> byte list \<Rightarrow> byte list" where
  "padded n s = s @ replicate (n - length s) 0"

definition MakeBuildStamp :: "byte list \<Rightarrow> byte list \<Rightarrow> LiteRtStatus + byte list" where
  "MakeBuildStamp soc_manufacturer soc_model =
     (if kSocManufacturerMaxLen \<le> length soc_manufacturer \<or> kSocModelMaxLen \<le> length soc_model
      then Inl kLiteRtStatusErrorInvalidArgument
      else Inr (padded (kSocManufacturerMaxLen + 1) soc_manufacturer @ padded (kSocModelMaxLen + 1) soc_model))"

text \<open>A \<open>string_view\<close> on a \<open>const char*\<close> ends before the first zero.\<close>

definition ParseBuildStamp :: "byte list \<Rightarrow> LiteRtStatus + byte list \<times> byte list" where
  "ParseBuildStamp buf =
     (if length buf \<noteq> kSocManufacturerMaxLen + 1 + (kSocModelMaxLen + 1) then Inl kLiteRtStatusErrorInvalidArgument
      else Inr (takeWhile (\<lambda>b. b \<noteq> 0) buf, takeWhile (\<lambda>b. b \<noteq> 0) (drop (kSocManufacturerMaxLen + 1) buf)))"

section \<open>Applying a partition\<close>

definition kLiteRtBuildStampKey :: string where
  "kLiteRtBuildStampKey = ''LiteRtStamp''"

definition ApplyPluginWithPartition ::
  "(ir_model \<Rightarrow> LiteRtStatus + CompiledResult) \<Rightarrow> byte list \<Rightarrow> byte list \<Rightarrow> nat list \<times> ir_model \<Rightarrow> asset_state \<Rightarrow>
   (LiteRtStatus \<times> asset_state) option" where
  "ApplyPluginWithPartition compile soc_manufacturer soc_model = (\<lambda>(dispatch_ops, sliced_model) a.
     (case compile sliced_model of
        Inl err \<Rightarrow> Some (err, a)
      | Inr r \<Rightarrow>
          (case NumByteCodeModules r of
             Inl err \<Rightarrow> Some (err, a)
           | Inr num \<Rightarrow>
               (case register_byte_code r [0..<num] ([], a) of
                  (status, buf_ids, a1) \<Rightarrow>
                    if status \<noteq> kLiteRtStatusOk then Some (status, a1)
                    else do {
                      (status2, a2) \<leftarrow> attach_calls r buf_ids 0 dispatch_ops a1;
                      (if status2 \<noteq> kLiteRtStatusOk then Some (status2, a2)
                       else (case MakeBuildStamp soc_manufacturer soc_model of
                          Inl err \<Rightarrow> Some (err, a2)
                        | Inr buf \<Rightarrow> Some (PushMetadata kLiteRtBuildStampKey buf a2))) }))))"

section \<open>A model without composite operations\<close>

lemma copy_options_plain:
  assumes "\<forall>k. composite (ps_model s) k = None"
  shows "subgraphs (ps_model (copy_options cs s)) = subgraphs (ps_model s) \<and> ps_heap (copy_options cs s) = ps_heap s \<and>
    (\<forall>k. composite (ps_model (copy_options cs s)) k = None)"
proof -
  have "subgraphs (ps_model (fold f cs s)) = subgraphs (ps_model s) \<and> ps_heap (fold f cs s) = ps_heap s \<and>
      (\<forall>k. composite (ps_model (fold f cs s)) k = None)"
    if "\<forall>k. composite (ps_model s) k = None"
      "f = (\<lambda>(k, k') s. s\<lparr>ps_model := (ps_model s)\<lparr>composite := (composite (ps_model s))(k' := composite (ps_model s) k)\<rparr>,
                         npu_call := (npu_call s)(k' := npu_call s k)\<rparr>)" for f and s :: plugin_state
    using that(1)
  proof (induction cs arbitrary: s)
    case (Cons c cs)
    obtain k k' where c: "c = (k, k')" by fastforce
    have "\<forall>x. composite (ps_model (f c s)) x = None" "subgraphs (ps_model (f c s)) = subgraphs (ps_model s)" "ps_heap (f c s) = ps_heap s"
      using Cons.prems by (simp_all add: that(2) c)
    with Cons.IH [of "f c s"] show ?case by simp
  qed simp
  from this [OF assms refl] show ?thesis by (simp add: copy_options_def)
qed

lemma Yank_none: "Yank [] m = Some (\<lparr>subgraphs = [], composite = composite m\<rparr>, m)"
  by (simp add: Yank_def TransferSubgraphTo_def TransferFrom_def)

lemma update_composites_none:
  assumes "\<forall>k. c k = None"
  shows "foldM (update_composite new_inds) ks c = Some c"
  using assms by (induction ks) (simp_all add: update_composite_def)

lemma Yank_tail:
  assumes "\<forall>k. composite m k = None" "subgraphs m = gs @ slices"
  shows "Yank [length gs..<length (subgraphs m)] m = Some (m\<lparr>subgraphs := slices\<rparr>, m\<lparr>subgraphs := gs\<rparr>)"
proof (cases "slices = []")
  case True
  with assms show ?thesis by (simp add: Yank_none)
next
  case False
  let ?n = "length (subgraphs m)"
  have s: "sorted_list_of_set {length gs..<?n} = [length gs..<?n]" by simp
  have "filter (\<lambda>i. i \<notin> {length gs..<?n}) [0..<?n] = [0..<length gs]"
  proof -
    have "[0..<?n] = [0..<length gs] @ [length gs..<?n]" using assms(2) upt_add_eq_append [of 0 "length gs" "length slices"] by simp
    then show ?thesis by (simp add: filter_empty_conv)
  qed
  moreover have "map ((!) (subgraphs m)) [length gs..<?n] = slices" "map ((!) (subgraphs m)) [0..<length gs] = gs"
    using assms(2) by (auto intro!: nth_equalityI simp: nth_append)
  ultimately have "TransferFrom_indices [] (subgraphs m) [length gs..<?n] = Some (slices, gs)"
    using TransferFrom_indices_eq [of "[length gs..<?n]" "subgraphs m" "[]"] s by simp
  moreover have "[length gs..<?n] \<noteq> []" using assms(2) False by simp
  ultimately show ?thesis
    using update_composites_none [OF assms(1)]
    by (cases m) (simp add: Yank_def TransferSubgraphTo_def Let_def TransferFrom_def)
qed

lemma no_composites:
  assumes "\<forall>k. composite (ps_model s) k = None"
  shows "decomp_subgraphs (ps_model s) = {}" "ops_to_inline s g sel = []" "selected_decomps s sel = []" "npu_calls s = []"
  using assms by (simp_all add: decomp_subgraphs_def ops_to_inline_def selected_decomps_def npu_calls_def)

text \<open>C6: Partitioning a model of one subgraph without composite operations, by execution order, keeps its meaning. The
  subgraph is plain and in execution order; the plugin may select any live operations without a custom code (clones
  lose it), under any indices but the largest of 64 bits. The driver succeeds and returns as many dispatch operations as
  subgraphs to compile; the model is left with its one subgraph, well linked and with the same inputs and outputs; and when the \<open>i\<close>-th
  dispatch operation runs the \<open>i\<close>-th subgraph of the new model, it computes what it computed
  before, for any meaning of the operations and constants.\<close>

theorem PartitionModel_keeps_meaning:
  assumes g: "subgraphs (ps_model s) = [root]" "\<forall>k. composite (ps_model s) k = None"
    and r: "plain_root (ps_heap s) root" "in_order (ps_heap s) (g_ops root)"
    and p: "plugin s 0 = Inr sel" "\<forall>(op, index) \<in> set sel. index \<noteq> size_max"
      "\<forall>k \<in> set (g_ops root) \<inter> fst ` set sel. custom_code (the (op_of (ps_heap s) k)) = [] \<and> \<not> dead_op (ps_heap s) k"
    and only: "only = {} \<or> 0 \<in> only"
  shows "\<exists>dispatch_ops new_model s' root'.
    PartitionModel plugin index_order op_order StrategyDefault only s = Some (Inr (dispatch_ops, new_model), s') \<and>
    subgraphs (ps_model s') = [root'] \<and> length (subgraphs new_model) = length dispatch_ops \<and>
    well_linked (ps_heap s') root' \<and> (\<forall>sl \<in> set (subgraphs new_model). well_linked (ps_heap s') sl) \<and>
    g_inputs root' = g_inputs root \<and> g_outputs root' = g_outputs root \<and>
    (\<forall>env. \<forall>t \<in> set (g_outputs root).
       exec_graph sem (dispatch_table sem wt (ps_heap s') dispatch_ops (subgraphs new_model)) wt (ps_heap s') root' env t =
       exec_graph sem (\<lambda>_. None) wt (ps_heap s) root env t)"
proof -
  obtain root' slices res_ops h' where part: "PartitionSubgraph index_order op_order StrategyDefault sel (root, [], [], ps_heap s) =
      Some (root', slices, res_ops, h')" and
    res: "length slices = length res_ops" "well_linked h' root'" "\<forall>sl \<in> set slices. well_linked h' sl"
      "g_inputs root' = g_inputs root" "g_outputs root' = g_outputs root"
      "\<forall>env. \<forall>t \<in> set (g_outputs root). exec_graph sem (dispatch_table sem wt h' res_ops slices) wt h' root' env t =
         exec_graph sem (\<lambda>_. None) wt (ps_heap s) root env t"
    using PartitionSubgraph_meaning [OF r p(2,3), of index_order op_order sem wt] by auto
  let ?islands = "GetPartitionsFromFlatListV2 sel root"
  define s1 where "s1 = s\<lparr>ps_model := (ps_model s)\<lparr>subgraphs := [root'] @ slices\<rparr>, ps_heap := h'\<rparr>"
  define s2 where "s2 = forget_composite (map last ?islands) (copy_options (concat (map2 zip ?islands (map g_ops slices))) s1)"
  have "\<forall>k. composite (ps_model s1) k = None" using g(2) by (simp add: s1_def)
  from copy_options_plain [OF this] have s2: "subgraphs (ps_model s2) = [root'] @ slices" "ps_heap s2 = h'"
    "\<forall>k. composite (ps_model s2) k = None"
    by (simp_all add: s2_def forget_composite_def s1_def)
  have "partition_at index_order op_order StrategyDefault sel 0 (s, []) = Some (s2, res_ops)"
    using part by (simp add: partition_at_def g(1) at_def islands_of_def s1_def s2_def)
  then have step: "partition_subgraph_step plugin index_order op_order StrategyDefault 0 (s, [], []) = Some (kLiteRtStatusOk, s2, res_ops, [])"
    using p(1) by (simp add: partition_subgraph_step_def g(1) at_def no_composites [OF g(2)] Let_def)
  have idxs: "filter (\<lambda>i. int i \<notin> decomp_subgraphs (ps_model s) \<and> (only = {} \<or> i \<in> only)) [0..<length (subgraphs (ps_model s))] = [0]"
    using only by (simp add: g(1) no_composites [OF g(2)])
  have y: "Yank [1..<length (subgraphs (ps_model s2))] (ps_model s2) =
      Some ((ps_model s2)\<lparr>subgraphs := slices\<rparr>, (ps_model s2)\<lparr>subgraphs := [root']\<rparr>)"
    using Yank_tail [OF s2(3,1)] by simp
  have calls: "npu_calls s2 = []" by (rule no_composites(4) [OF s2(3)])
  have "PartitionModel plugin index_order op_order StrategyDefault only s =
      Some (Inr (res_ops, (ps_model s2)\<lparr>subgraphs := slices\<rparr>), s2\<lparr>ps_model := (ps_model s2)\<lparr>subgraphs := [root']\<rparr>\<rparr>)"
    unfolding PartitionModel_def Let_def idxs using step y calls by (simp add: Yank_none g(1))
  then show ?thesis using res by (simp add: s2(2))
qed

theorem PartitionModel_keeps_meaning_witness:
  "case PartitionModel (\<lambda>_ _. Inr [(0, 0), (2, 1)]) id id StrategyDefault {}
       \<lparr>ps_model = \<lparr>subgraphs = [chain_graph], composite = Map.empty\<rparr>, npu_call = (\<lambda>_. False), ps_heap = chain_heap\<rparr> of
     Some (Inr (dispatch_ops, new_model), s') \<Rightarrow> length (subgraphs (ps_model s')) = 1 \<and>
       length (subgraphs new_model) = length dispatch_ops \<and> well_linked (ps_heap s') (hd (subgraphs (ps_model s')))
   | _ \<Rightarrow> False"
proof -
  let ?s = "\<lparr>ps_model = \<lparr>subgraphs = [chain_graph], composite = Map.empty\<rparr>, npu_call = (\<lambda>_. False), ps_heap = chain_heap\<rparr>"
  have "\<forall>(op, index) \<in> set [(0 :: nat, 0 :: size_t), (2, 1)]. index \<noteq> size_max" by simp
  moreover have "\<forall>k \<in> set (g_ops chain_graph) \<inter> fst ` set [(0, 0 :: size_t), (2, 1)].
      custom_code (the (op_of (ps_heap ?s) k)) = [] \<and> \<not> dead_op (ps_heap ?s) k"
    by (auto simp: chain_heap_eval dead_op_def ins_def plain_op_def)
  moreover have "subgraphs (ps_model ?s) = [chain_graph]" "\<forall>k. composite (ps_model ?s) k = None" "plain_root (ps_heap ?s) chain_graph"
    "in_order (ps_heap ?s) (g_ops chain_graph)" "({} :: nat set) = {} \<or> 0 \<in> {}"
    using chain_in_order chain_plain by simp_all
  ultimately obtain dispatch_ops new_model s' root' where
    "PartitionModel (\<lambda>_ _. Inr [(0, 0), (2, 1)]) id id StrategyDefault {} ?s = Some (Inr (dispatch_ops, new_model), s')"
    "subgraphs (ps_model s') = [root']" "length (subgraphs new_model) = length dispatch_ops" "well_linked (ps_heap s') root'"
    using PartitionModel_keeps_meaning [of ?s chain_graph "\<lambda>_ _. Inr [(0, 0), (2, 1)]" "[(0, 0), (2, 1)]" "{}" id id "\<lambda>_ _ _. ()" "\<lambda>_. ()"]
    by blast
  then show ?thesis by simp
qed

section \<open>Reading a build stamp\<close>

lemma takeWhile_padded:
  assumes z: "0 \<notin> set s" and l: "length s < 125"
  shows "takeWhile (\<lambda>b. b \<noteq> 0) (padded 125 s @ r) = s"
proof -
  obtain n where "125 - length s = Suc n" using l by (cases "125 - length s") auto
  then show ?thesis using z by (simp add: padded_def takeWhile_append)
qed

lemma build_stamp_parses:
  assumes "0 \<notin> set manufacturer" "0 \<notin> set model" "MakeBuildStamp manufacturer model = Inr buf"
  shows "ParseBuildStamp buf = Inr (manufacturer, model)"
proof -
  have l: "length manufacturer < 124" "length model < 124"
    using assms(3) by (simp_all add: MakeBuildStamp_def kSocManufacturerMaxLen_def kSocModelMaxLen_def split: if_splits)
  then show ?thesis
    using assms takeWhile_padded [of manufacturer "padded 125 model"] takeWhile_padded [of model "[]"]
    by (auto simp: MakeBuildStamp_def ParseBuildStamp_def kSocManufacturerMaxLen_def kSocModelMaxLen_def padded_def)
qed

text \<open>A build stamp is read back as it was made, when manufacturer and model hold no zero byte; making one fails exactly when one of
  the two has 124 bytes or more.\<close>

theorem BuildStamp_roundtrip:
  assumes "0 \<notin> set manufacturer" "0 \<notin> set model"
  shows "case MakeBuildStamp manufacturer model of
      Inl err \<Rightarrow> 124 \<le> length manufacturer \<or> 124 \<le> length model
    | Inr buf \<Rightarrow> length manufacturer < 124 \<and> length model < 124 \<and> ParseBuildStamp buf = Inr (manufacturer, model)"
proof (cases "MakeBuildStamp manufacturer model")
  case (Inl err)
  then show ?thesis by (auto simp: MakeBuildStamp_def kSocManufacturerMaxLen_def kSocModelMaxLen_def split: if_splits)
next
  case (Inr buf)
  then have "length manufacturer < 124 \<and> length model < 124"
    by (simp add: MakeBuildStamp_def kSocManufacturerMaxLen_def kSocModelMaxLen_def split: if_splits)
  with Inr build_stamp_parses [OF assms Inr] show ?thesis by simp
qed

theorem BuildStamp_roundtrip_witness: "ParseBuildStamp (projr (MakeBuildStamp [71] [72, 73])) = Inr ([71], [72, 73])"
  using BuildStamp_roundtrip [of "[71]" "[72, 73]"] by (simp split: sum.splits)

section \<open>Attached byte code\<close>

lemma register_byte_code_all:
  assumes "\<forall>i \<in> set js. ByteCode r i = Inr (code i)"
  shows "\<exists>a'. register_byte_code r js (buf_ids, a) = (kLiteRtStatusOk, buf_ids @ [length (buffers a)..<length (buffers a) + length js], a') \<and>
    buffers a' = buffers a @ map code js \<and> op_assets a' = op_assets a \<and> metadata a' = metadata a"
  using assms
proof (induction js arbitrary: buf_ids a)
  case (Cons i js)
  define a1 where "a1 = a\<lparr>buffers := buffers a @ [code i]\<rparr>"
  obtain a' where "register_byte_code r js (buf_ids @ [length (buffers a)], a1) =
      (kLiteRtStatusOk, (buf_ids @ [length (buffers a)]) @ [length (buffers a1)..<length (buffers a1) + length js], a')"
    "buffers a' = buffers a1 @ map code js" "op_assets a' = op_assets a1" "metadata a' = metadata a1"
    using Cons.IH [of "buf_ids @ [length (buffers a)]" a1] Cons.prems by auto
  moreover have "[length (buffers a)..<length (buffers a) + Suc (length js)] = length (buffers a) # [Suc (length (buffers a))..<Suc (length (buffers a)) + length js]"
    by (simp add: upt_conv_Cons del: upt_Suc)
  ultimately show ?case using Cons.prems by (simp add: RegisterOwnedBuffer_def a1_def del: upt_Suc)
qed simp

lemma attach_calls_all:
  assumes "\<forall>j < length dispatch_ops. \<exists>name c. CallInfo r (i + j) = Inr (name, c) \<and> c < length buf_ids" "distinct dispatch_ops"
  shows "\<exists>a'. attach_calls r buf_ids i dispatch_ops a = Some (kLiteRtStatusOk, a') \<and>
    buffers a' = buffers a \<and> metadata a' = metadata a \<and>
    (\<forall>op. op \<notin> set dispatch_ops \<longrightarrow> op_assets a' op = op_assets a op) \<and>
    (\<forall>j < length dispatch_ops. \<exists>name c. CallInfo r (i + j) = Inr (name, c) \<and> op_assets a' (dispatch_ops ! j) = Some (buf_ids ! c, name))"
  using assms
proof (induction dispatch_ops arbitrary: i a)
  case (Cons op rest)
  obtain name c where c: "CallInfo r i = Inr (name, c)" "c < length buf_ids" using Cons.prems(1) by force
  let ?a = "AttachAssetToOp op (buf_ids ! c) name a"
  have "\<forall>j < length rest. \<exists>name c. CallInfo r (Suc i + j) = Inr (name, c) \<and> c < length buf_ids"
  proof (intro allI impI)
    fix j assume "j < length rest"
    with Cons.prems(1) [rule_format, of "Suc j"] show "\<exists>name c. CallInfo r (Suc i + j) = Inr (name, c) \<and> c < length buf_ids" by simp
  qed
  then obtain a' where a': "attach_calls r buf_ids (Suc i) rest ?a = Some (kLiteRtStatusOk, a')" "buffers a' = buffers ?a" "metadata a' = metadata ?a"
    "\<forall>op. op \<notin> set rest \<longrightarrow> op_assets a' op = op_assets ?a op"
    "\<forall>j < length rest. \<exists>name c. CallInfo r (Suc i + j) = Inr (name, c) \<and> op_assets a' (rest ! j) = Some (buf_ids ! c, name)"
    using Cons.IH [of "Suc i" ?a] Cons.prems(2) by auto
  have "\<exists>name c. CallInfo r (i + j) = Inr (name, c) \<and> op_assets a' ((op # rest) ! j) = Some (buf_ids ! c, name)" if "j < Suc (length rest)" for j
  proof (cases j)
    case 0
    with a'(4) Cons.prems(2) c show ?thesis by (simp add: AttachAssetToOp_def)
  next
    case (Suc j')
    with a'(5) that show ?thesis by simp
  qed
  moreover have "attach_calls r buf_ids i (op # rest) a = Some (kLiteRtStatusOk, a')" using a'(1) c by (simp add: at_def)
  ultimately show ?case using a'(2-4) by (auto simp: AttachAssetToOp_def)
qed simp

text \<open>C8: Let the compiler return byte code for the partitions: every byte code module that it counts can be read, and its
  call information names an existing module for every partition. Let the dispatch operations be distinct, the names of
  manufacturer and model shorter than 124 bytes and without zero bytes, and let the model have no build stamp (with one,
  \<open>PushMetadata\<close> answers that it exists already). Then applying the plugin attaches to the \<open>i\<close>-th dispatch operation the
  entry point and the byte code module that the compiler reports for the \<open>i\<close>-th partition; the
  buffers, assets and metadata that were there stay, and the build stamp is stored under its key,
  from which manufacturer and model are read back.\<close>

theorem ApplyPluginWithPartition_attaches:
  assumes c: "compile sliced_model = Inr r" "NumByteCodeModules r = Inr n" "\<forall>i < n. ByteCode r i = Inr (code i)"
    and i: "\<forall>i < length dispatch_ops. \<exists>name j. CallInfo r i = Inr (name, j) \<and> j < n"
    and d: "distinct dispatch_ops" and k: "0 \<notin> set soc_manufacturer" "0 \<notin> set soc_model" "length soc_manufacturer < 124" "length soc_model < 124"
    and m: "metadata a ''LiteRtStamp'' = None"
  shows "\<exists>a'. ApplyPluginWithPartition compile soc_manufacturer soc_model (dispatch_ops, sliced_model) a = Some (kLiteRtStatusOk, a') \<and>
    (\<forall>i < length dispatch_ops. \<exists>name j b. CallInfo r i = Inr (name, j) \<and>
       FindOpAsset (dispatch_ops ! i) a' = Inr (b, name) \<and> b < length (buffers a') \<and> buffers a' ! b = code j) \<and>
    take (length (buffers a)) (buffers a') = buffers a \<and>
    (\<forall>op. op \<notin> set dispatch_ops \<longrightarrow> FindOpAsset op a' = FindOpAsset op a) \<and>
    (\<exists>b. metadata a' = (metadata a)(''LiteRtStamp'' \<mapsto> b) \<and> b < length (buffers a') \<and>
       ParseBuildStamp (buffers a' ! b) = Inr (soc_manufacturer, soc_model))"
proof -
  obtain buf where buf: "MakeBuildStamp soc_manufacturer soc_model = Inr buf"
    using k(3,4) by (simp add: MakeBuildStamp_def kSocManufacturerMaxLen_def kSocModelMaxLen_def)
  note stamp = build_stamp_parses [OF k(1,2) buf]
  let ?ids = "[length (buffers a)..<length (buffers a) + n]"
  obtain a1 where a1: "register_byte_code r [0..<n] ([], a) = (kLiteRtStatusOk, ?ids, a1)"
    "buffers a1 = buffers a @ map code [0..<n]" "op_assets a1 = op_assets a" "metadata a1 = metadata a"
    using register_byte_code_all [of "[0..<n]" r code "[]" a] c(3) by auto
  obtain a2 where a2: "attach_calls r ?ids 0 dispatch_ops a1 = Some (kLiteRtStatusOk, a2)" "buffers a2 = buffers a1" "metadata a2 = metadata a1"
    "\<forall>op. op \<notin> set dispatch_ops \<longrightarrow> op_assets a2 op = op_assets a1 op"
    "\<forall>j < length dispatch_ops. \<exists>name c. CallInfo r j = Inr (name, c) \<and> op_assets a2 (dispatch_ops ! j) = Some (?ids ! c, name)"
    using attach_calls_all [of dispatch_ops r 0 ?ids a1] i d by auto
  define a3 where "a3 = a2\<lparr>buffers := buffers a2 @ [buf], metadata := (metadata a2)(kLiteRtBuildStampKey \<mapsto> length (buffers a2))\<rparr>"
  have "ApplyPluginWithPartition compile soc_manufacturer soc_model (dispatch_ops, sliced_model) a = Some (kLiteRtStatusOk, a3)"
    using c buf m a1 a2 by (simp add: ApplyPluginWithPartition_def PushMetadata_def RegisterOwnedBuffer_def a3_def kLiteRtBuildStampKey_def)
  moreover have "\<exists>name c b. CallInfo r j = Inr (name, c) \<and> FindOpAsset (dispatch_ops ! j) a3 = Inr (b, name) \<and>
      b < length (buffers a3) \<and> buffers a3 ! b = code c" if j: "j < length dispatch_ops" for j
  proof -
    from a2(5) j obtain name c where nc: "CallInfo r j = Inr (name, c)" "op_assets a2 (dispatch_ops ! j) = Some (?ids ! c, name)" by blast
    with i j have "c < n" by fastforce
    with nc show ?thesis by (simp add: FindOpAsset_def a3_def a2(2) a1(2) nth_append)
  qed
  moreover have "take (length (buffers a)) (buffers a3) = buffers a" by (simp add: a3_def a2(2) a1(2))
  moreover have "\<forall>op. op \<notin> set dispatch_ops \<longrightarrow> FindOpAsset op a3 = FindOpAsset op a" using a2(4) a1(3) by (simp add: FindOpAsset_def a3_def)
  moreover have "metadata a3 = (metadata a)(''LiteRtStamp'' \<mapsto> length (buffers a2))" "length (buffers a2) < length (buffers a3)"
    "ParseBuildStamp (buffers a3 ! length (buffers a2)) = Inr (soc_manufacturer, soc_model)"
    using a1(4) a2(3) stamp by (simp_all add: a3_def kLiteRtBuildStampKey_def)
  ultimately show ?thesis by blast
qed

theorem ApplyPluginWithPartition_attaches_witness:
  "\<exists>a'. ApplyPluginWithPartition
       (\<lambda>_. Inr \<lparr>NumByteCodeModules = Inr 1, ByteCode = (\<lambda>_. Inr [7]), CallInfo = (\<lambda>i. Inr (if i = 0 then ''a'' else ''b'', 0))\<rparr>)
       [71] [72] ([4, 6], \<lparr>subgraphs = [], composite = Map.empty\<rparr>) \<lparr>buffers = [[]], op_assets = Map.empty, metadata = Map.empty\<rparr> = Some (kLiteRtStatusOk, a') \<and>
     FindOpAsset 6 a' = Inr (1, ''b'') \<and> buffers a' ! 1 = [7]"
proof -
  let ?r = "\<lparr>NumByteCodeModules = Inr 1, ByteCode = (\<lambda>_. Inr [7]), CallInfo = (\<lambda>i. Inr (if i = 0 then ''a'' else ''b'', 0))\<rparr>"
  let ?a = "\<lparr>buffers = [[]], op_assets = Map.empty, metadata = Map.empty\<rparr>"
  have p: "(\<lambda>_. Inr ?r) \<lparr>subgraphs = [], composite = Map.empty\<rparr> = Inr ?r" "NumByteCodeModules ?r = Inr 1" "\<forall>i < 1. ByteCode ?r i = Inr ((\<lambda>_. [7]) i)"
    "\<forall>i < length [4 :: nat, 6]. \<exists>name j. CallInfo ?r i = Inr (name, j) \<and> j < 1" "distinct [4 :: nat, 6]"
    "0 \<notin> set [71 :: byte]" "0 \<notin> set [72 :: byte]" "length [71 :: byte] < 124" "length [72 :: byte] < 124" "metadata ?a ''LiteRtStamp'' = None" by simp_all
  show ?thesis
    using ApplyPluginWithPartition_attaches [where compile = "\<lambda>_. Inr ?r" and a = ?a and dispatch_ops = "[4, 6]", OF p]
    by (simp add: ApplyPluginWithPartition_def RegisterOwnedBuffer_def AttachAssetToOp_def PushMetadata_def FindOpAsset_def at_def upt_rec
      MakeBuildStamp_def kSocManufacturerMaxLen_def kSocModelMaxLen_def kLiteRtBuildStampKey_def)
qed

section \<open>Manual partitions in the wrong order\<close>

text \<open>
  The dispatch operations of manual partitions are in the order of the operations, their subgraphs in
  the order of their numbers: with two manual partitions whose decompositions are numbered the
  other way round, each is paired with the other's subgraph.
\<close>

definition npu_state :: "ir_graph \<Rightarrow> ir_graph \<Rightarrow> plugin_state" where
  "npu_state d1 d2 = \<lparr>ps_model = \<lparr>subgraphs = [empty_graph\<lparr>g_ops := [0, 1]\<rparr>, d1, d2], composite = [0 \<mapsto> 2, 1 \<mapsto> 1]\<rparr>,
     npu_call = (\<lambda>_. True), ps_heap = heap_of [] [plain_op [] [], plain_op [] []]\<rparr>"

lemma PartitionModel_swaps_npu_calls:
  assumes d: "g_ops d1 = []" "g_ops d2 = []"
  shows "\<exists>new_model s'. PartitionModel (\<lambda>_ _. Inr []) id id StrategyDefault {} (npu_state d1 d2) =
      Some (Inr ([0, 1], new_model), s') \<and> subgraphs new_model = [d1, d2]"
proof -
  let ?s = "npu_state d1 d2" and ?root = "empty_graph\<lparr>g_ops := [0, 1]\<rparr>"
  have idxs: "filter (\<lambda>i. int i \<notin> decomp_subgraphs (ps_model ?s)) [0, 1, 2] = [0]"
    using d by (auto simp: decomp_subgraphs_def all_ops_def npu_state_def)
  have islands: "GetPartitionsFromFlatListV2 [] ?root = []"
    by (simp add: GetPartitionsFromFlatListV2_def sorted_ops_def op_to_partition_index_def unselected_ops_partition_index_def run_step_def)
  have part: "partition_at id id StrategyDefault [] 0 (?s, []) = Some (?s, [])"
    using islands by (simp add: partition_at_def npu_state_def at_def islands_of_def PartitionSubgraph_def copy_options_def forget_composite_def Let_def) (simp add: fun_eq_iff)
  have step: "partition_subgraph_step (\<lambda>_ _. Inr []) id id StrategyDefault 0 (?s, [], []) = Some (kLiteRtStatusOk, ?s, [], [])"
    using part by (simp add: partition_subgraph_step_def ops_to_inline_def selected_decomps_def npu_state_def at_def Let_def)
  have calls: "npu_calls ?s = [(0, 2), (1, 1)]"
    using d by (simp add: npu_calls_def all_ops_def npu_state_def)
  obtain s3 where s3: "foldM make_dispatch [0, 1] ?s = Some s3" "subgraphs (ps_model s3) = [?root, d1, d2]"
    "composite (ps_model s3) = Map.empty"
    by (simp add: make_dispatch_def forget_composite_def npu_state_def heap_of_def at_def fun_eq_iff)
  have y: "\<exists>new_model m4. Yank [2, 1] (ps_model s3) = Some (new_model, m4) \<and> subgraphs new_model = [d1, d2]"
    using d by (simp add: Yank_def TransferSubgraphTo_def TransferFrom_indices_def TransferFrom_def s3(2,3) Let_def
      update_composite_def)
  have "length (subgraphs (ps_model ?s)) = 3" "[0..<3] = [0, 1, 2]" by (simp_all add: npu_state_def upt_rec)
  then show ?thesis
    using y step calls s3(1) idxs by (auto simp: PartitionModel_def Let_def Yank_none)
qed

end
