(* ===== verification/PluginTransform.thy ===== *)
theory PluginTransform
  imports PluginModel GraphBuilderOps
begin

text \<open>
  The rest of the compiler plugin's driver in \<^verbatim>\<open>src/litert/compiler/plugin/compiler_plugin.cc\<close>: the
  transformations that a plugin registers and their greedy application to the subgraphs of a model,
  then \<open>ApplyPlugin\<close>, \<open>ApplyPlugins\<close> and the order and choice of the plugins.

  The functions of the plugin library are fields of \<open>CompilerPlugin\<close>; the order in which a builder's
  erased operations are visited and \<open>std::sort\<close> are parameters.
\<close>

unbundle bit_operations_syntax

section \<open>Transformations\<close>

text \<open>
  A pattern gets a new builder and an operation; its status says whether it matched. A null
  pointer is \<open>None\<close>.
\<close>

type_synonym pattern_fn = "nat \<Rightarrow> LiteRtBuilderT \<times> ir_heap \<Rightarrow> (LiteRtStatus \<times> LiteRtBuilderT \<times> ir_heap) option"

record LiteRtTransformation =
  pattern :: "pattern_fn option"
  tr_name :: "string option"
  benefit :: size_t

type_synonym tr_sort = "(LiteRtTransformation \<Rightarrow> LiteRtTransformation \<Rightarrow> bool) \<Rightarrow> LiteRtTransformation list \<Rightarrow> LiteRtTransformation list"

fun register_transformations ::
  "LiteRtTransformation list \<Rightarrow> LiteRtTransformation list \<Rightarrow> LiteRtStatus \<times> LiteRtTransformation list" where
  "register_transformations [] ts = (kLiteRtStatusOk, ts)"
| "register_transformations (tr # trs) ts =
     (if pattern tr = None then (kLiteRtStatusInvalidTransformation, ts)
      else if tr_name tr = None then (kLiteRtStatusInvalidTransformation, ts)
      else register_transformations trs (ts @ [tr]))"

text \<open>\<open>answer\<close> is what the plugin's function returns; \<open>ts\<close> holds the transformations registered before.\<close>

definition RegisterAllTransformations ::
  "tr_sort \<Rightarrow> LiteRtStatus + LiteRtTransformation list \<Rightarrow> LiteRtTransformation list \<Rightarrow> LiteRtStatus \<times> LiteRtTransformation list" where
  "RegisterAllTransformations std_sort answer ts = (case answer of
     Inl err \<Rightarrow> (err, ts)
   | Inr trs \<Rightarrow> (case register_transformations trs ts of
       (status, ts') \<Rightarrow>
         if status \<noteq> kLiteRtStatusOk then (status, ts')
         else (kLiteRtStatusOk, std_sort (\<lambda>a b. benefit a > benefit b) ts')))"

section \<open>Rewriting\<close>

text \<open>The loop over the transformations for one operation; each gets a builder of its own.\<close>

fun match_op ::
  "(nat set \<Rightarrow> nat list) \<Rightarrow> LiteRtTransformation list \<Rightarrow> nat \<Rightarrow> ir_graph \<times> ir_heap \<Rightarrow> (bool \<times> ir_graph \<times> ir_heap) option" where
  "match_op order [] op s = Some (False, s)"
| "match_op order (tr # trs) op (subgraph, h) = do {
     f \<leftarrow> pattern tr;
     (status, builder, h1) \<leftarrow> f op (new_builder, h);
     (if status = kLiteRtStatusOk
      then do { (_, subgraph', h2) \<leftarrow> ApplyChanges order subgraph builder h1; Some (True, subgraph', h2) }
      else match_op order trs op (subgraph, h1)) }"

text \<open>The work list; after a match the scan is given up.\<close>

fun scan_worklist ::
  "(nat set \<Rightarrow> nat list) \<Rightarrow> LiteRtTransformation list \<Rightarrow> nat list \<Rightarrow> ir_graph \<times> ir_heap \<Rightarrow> (bool \<times> ir_graph \<times> ir_heap) option" where
  "scan_worklist order ts [] s = Some (False, s)"
| "scan_worklist order ts (op # worklist) s =
     (if op \<notin> set (g_ops (fst s)) then scan_worklist order ts worklist s
      else do {
        (subgraph_modified, s') \<leftarrow> match_op order ts op s;
        (if subgraph_modified then Some (True, s') else scan_worklist order ts worklist s') })"

text \<open>The loop over the iterations; the number is how many are left.\<close>

fun rewrite_subgraph ::
  "(nat set \<Rightarrow> nat list) \<Rightarrow> LiteRtTransformation list \<Rightarrow> nat \<Rightarrow> ir_graph \<times> ir_heap \<Rightarrow> (ir_graph \<times> ir_heap) option" where
  "rewrite_subgraph order ts 0 s = Some s"
| "rewrite_subgraph order ts (Suc iterations) s = do {
     (subgraph_modified, s') \<leftarrow> scan_worklist order ts (g_ops (fst s)) s;
     (if subgraph_modified then rewrite_subgraph order ts iterations s' else Some s') }"

definition rewrite_at ::
  "(nat set \<Rightarrow> nat list) \<Rightarrow> LiteRtTransformation list \<Rightarrow> nat \<Rightarrow> nat \<Rightarrow> plugin_state \<Rightarrow> plugin_state option" where
  "rewrite_at order ts max_iterations i s = do {
     subgraph \<leftarrow> at (subgraphs (ps_model s)) i;
     (subgraph', h) \<leftarrow> rewrite_subgraph order ts max_iterations (subgraph, ps_heap s);
     Some (s\<lparr>ps_model := (ps_model s)\<lparr>subgraphs := (subgraphs (ps_model s))[i := subgraph']\<rparr>, ps_heap := h\<rparr>) }"

definition GreedyPatternMatchAndRewrite ::
  "(nat set \<Rightarrow> nat list) \<Rightarrow> LiteRtTransformation list \<Rightarrow> nat \<Rightarrow> plugin_state \<Rightarrow> plugin_state option" where
  "GreedyPatternMatchAndRewrite order ts max_iterations s =
     foldM (rewrite_at order ts max_iterations) [0..<length (subgraphs (ps_model s))] s"

section \<open>Plugins\<close>

text \<open>
  The fields but the last two stand for functions of the plugin library; \<open>null_result\<close> is how its functions
  answer for a null handle.
\<close>

record CompilerPlugin =
  check_compatibility :: "byte list \<Rightarrow> LiteRtStatus"
  all_transformations :: "LiteRtStatus + LiteRtTransformation list"
  partition_fn :: "byte list \<Rightarrow> plugin"
  partition_strategy :: PartitionStrategy
  compile_fn :: "byte list \<Rightarrow> ir_model \<Rightarrow> ir_heap \<Rightarrow> LiteRtStatus + CompiledResult"
  null_result :: CompiledResult
  soc_manufacturer :: "byte list"
  supported_hardware :: "LiteRtStatus + 32 word"
  transformations :: "LiteRtTransformation list"
  max_transformation_iterations :: nat

definition Compile :: "CompilerPlugin \<Rightarrow> byte list \<Rightarrow> ir_heap \<Rightarrow> ir_model \<Rightarrow> LiteRtStatus + CompiledResult" where
  "Compile p soc_model h partitions =
     (if subgraphs partitions = [] then Inr (null_result p) else compile_fn p soc_model partitions h)"

definition TransformModel ::
  "tr_sort \<Rightarrow> (nat set \<Rightarrow> nat list) \<Rightarrow> CompilerPlugin \<times> plugin_state \<Rightarrow> (LiteRtStatus \<times> CompilerPlugin \<times> plugin_state) option" where
  "TransformModel std_sort order = (\<lambda>(p, s).
     (case RegisterAllTransformations std_sort (all_transformations p) (transformations p) of
        (status, ts) \<Rightarrow>
          if status \<noteq> kLiteRtStatusOk then Some (status, p\<lparr>transformations := ts\<rparr>, s)
          else do {
            s' \<leftarrow> GreedyPatternMatchAndRewrite order ts (max_transformation_iterations p) s;
            Some (kLiteRtStatusOk, p\<lparr>transformations := ts\<rparr>, s') }))"

text \<open>The state of a model in the driver: its graphs, and its buffers and assets.\<close>

type_synonym applied = "CompilerPlugin \<times> plugin_state \<times> asset_state"

definition ApplyPlugin ::
  "tr_sort \<Rightarrow> (nat set \<Rightarrow> nat list) \<Rightarrow> (size_t list \<Rightarrow> size_t list) \<Rightarrow> (nat list \<Rightarrow> nat list) \<Rightarrow> byte list \<Rightarrow> nat set \<Rightarrow>
   applied \<Rightarrow> (LiteRtStatus \<times> applied) option" where
  "ApplyPlugin std_sort order index_order op_order soc_model subgraphs_to_partition = (\<lambda>(p, s, a).
     (if check_compatibility p soc_model \<noteq> kLiteRtStatusOk then Some (check_compatibility p soc_model, p, s, a)
      else do {
        (status, p1, s1) \<leftarrow> TransformModel std_sort order (p, s);
        (if status \<noteq> kLiteRtStatusOk then Some (status, p1, s1, a)
         else do {
           (partitions, s2) \<leftarrow>
             PartitionModel (partition_fn p1 soc_model) index_order op_order (partition_strategy p1) subgraphs_to_partition s1;
           (case partitions of
              Inl err \<Rightarrow> Some (err, p1, s2, a)
            | Inr parts \<Rightarrow> do {
                (status2, a2) \<leftarrow>
                  ApplyPluginWithPartition (Compile p1 soc_model (ps_heap s2)) (soc_manufacturer p1) soc_model parts a;
                Some (status2, p1, s2, a2) }) }) }))"

text \<open>Success messages are represented by the manufacturers, error messages by manufacturer and status.\<close>

record ApplyPluginsResult =
  num_applied_plugins :: nat
  success_messages :: "byte list list"
  error_messages :: "(byte list \<times> LiteRtStatus) list"
  mutated :: bool

definition apply_step ::
  "(applied \<Rightarrow> (LiteRtStatus \<times> applied) option) \<Rightarrow> 32 word \<Rightarrow> CompilerPlugin \<Rightarrow>
   ApplyPluginsResult \<times> CompilerPlugin list \<times> plugin_state \<times> asset_state \<Rightarrow>
   (ApplyPluginsResult \<times> CompilerPlugin list \<times> plugin_state \<times> asset_state) option" where
  "apply_step apply_plugin selected p = (\<lambda>(r, plugins, s, a).
     (case supported_hardware p of
        Inl err \<Rightarrow> Some (r\<lparr>error_messages := error_messages r @ [(soc_manufacturer p, err)]\<rparr>, plugins @ [p], s, a)
      | Inr hw \<Rightarrow>
          if hw AND selected \<noteq> 0 then do {
            (status, p', s', a') \<leftarrow> apply_plugin (p, s, a);
            let r1 = r\<lparr>mutated := True\<rparr>;
            Some (if status \<noteq> kLiteRtStatusOk
                    then r1\<lparr>error_messages := error_messages r1 @ [(soc_manufacturer p, status)]\<rparr>
                    else r1\<lparr>success_messages := success_messages r1 @ [soc_manufacturer p],
                            num_applied_plugins := Suc (num_applied_plugins r1)\<rparr>,
                  plugins @ [p'], s', a') }
          else Some (r, plugins @ [p], s, a)))"

definition ApplyPlugins ::
  "(applied \<Rightarrow> (LiteRtStatus \<times> applied) option) \<Rightarrow> 32 word \<Rightarrow> CompilerPlugin list \<Rightarrow> plugin_state \<times> asset_state \<Rightarrow>
   (LiteRtStatus + ApplyPluginsResult \<times> CompilerPlugin list \<times> plugin_state \<times> asset_state) option" where
  "ApplyPlugins apply_plugin selected plugins = (\<lambda>(s, a).
     (if plugins = [] then Some (Inl kLiteRtStatusErrorRuntimeFailure)
      else map_option Inr (foldM (apply_step apply_plugin selected) plugins
        (\<lparr>num_applied_plugins = 0, success_messages = [], error_messages = [], mutated = False\<rparr>, [], s, a))))"

section \<open>Order and choice of plugins\<close>

definition kLiteRtHwAcceleratorCpu :: "32 word" where "kLiteRtHwAcceleratorCpu = push_bit 0 1"
definition kLiteRtHwAcceleratorGpu :: "32 word" where "kLiteRtHwAcceleratorGpu = push_bit 1 1"
definition kLiteRtHwAcceleratorNpu :: "32 word" where "kLiteRtHwAcceleratorNpu = push_bit 2 1"

definition hw_score :: "32 word \<Rightarrow> int" where
  "hw_score hw =
     100 * of_bool (hw AND kLiteRtHwAcceleratorNpu \<noteq> 0) + 10 * of_bool (hw AND kLiteRtHwAcceleratorGpu \<noteq> 0) +
     of_bool (hw AND kLiteRtHwAcceleratorCpu \<noteq> 0)"

text \<open>The comparison that \<open>SortPlugins\<close> gives to \<open>std::sort\<close>.\<close>

definition plugin_less :: "CompilerPlugin \<Rightarrow> CompilerPlugin \<Rightarrow> bool" where
  "plugin_less x y = (case (supported_hardware x, supported_hardware y) of
     (Inr x_hw, Inr y_hw) \<Rightarrow> hw_score x_hw < hw_score y_hw
   | _ \<Rightarrow> True)"

definition SortPlugins ::
  "((CompilerPlugin \<Rightarrow> CompilerPlugin \<Rightarrow> bool) \<Rightarrow> CompilerPlugin list \<Rightarrow> CompilerPlugin list) \<Rightarrow> CompilerPlugin list \<Rightarrow> CompilerPlugin list" where
  "SortPlugins std_sort = std_sort plugin_less"

text \<open>\<open>find_libs path\<close> lists the plugin libraries below a path; \<open>load\<close> is \<open>LoadPlugin\<close>.\<close>

definition LoadPlugins ::
  "((CompilerPlugin \<Rightarrow> CompilerPlugin \<Rightarrow> bool) \<Rightarrow> CompilerPlugin list \<Rightarrow> CompilerPlugin list) \<Rightarrow>
   ('path \<Rightarrow> bool) \<Rightarrow> ('path \<Rightarrow> 'lib list \<Rightarrow> LiteRtStatus + 'lib list) \<Rightarrow> ('lib \<Rightarrow> LiteRtStatus + CompilerPlugin) \<Rightarrow> 'path list \<Rightarrow>
   LiteRtStatus + CompilerPlugin list" where
  "LoadPlugins std_sort path_exists find_libs load_plugin lib_search_paths =
     (case fold (\<lambda>path r. case r of
              Inl err \<Rightarrow> Inl err
            | Inr libs \<Rightarrow> if path_exists path then find_libs path libs else Inr libs) lib_search_paths (Inr []) of
        Inl err \<Rightarrow> Inl err
      | Inr libs \<Rightarrow> Inr (SortPlugins std_sort
          (concat (map (\<lambda>lib. case load_plugin lib of Inl err \<Rightarrow> [] | Inr p \<Rightarrow> [p]) libs))))"

text \<open>Moving a plugin: transformations and the bound on the iterations are not moved.\<close>

definition move_plugin :: "CompilerPlugin \<Rightarrow> CompilerPlugin" where
  "move_plugin p = p\<lparr>transformations := [], max_transformation_iterations := 100\<rparr>"

definition FindPlugin :: "byte list \<Rightarrow> LiteRtStatus + CompilerPlugin list \<Rightarrow> LiteRtStatus + CompilerPlugin" where
  "FindPlugin manufacturer loaded = (case loaded of
     Inl err \<Rightarrow> Inl err
   | Inr plugins \<Rightarrow>
       if length plugins = 1 \<and> manufacturer = [] then Inr (move_plugin (hd plugins))
       else (case filter (\<lambda>p. soc_manufacturer p = manufacturer) plugins of
          [] \<Rightarrow> Inl kLiteRtStatusErrorRuntimeFailure
        | p # _ \<Rightarrow> Inr (move_plugin p)))"

section \<open>What rewriting does\<close>

text \<open>
  The specification: one rewrite takes the first operation that some transformation matches, and the
  transformation of greatest benefit among those that match it.
\<close>

definition no_match :: "LiteRtTransformation list \<Rightarrow> nat \<Rightarrow> ir_heap \<Rightarrow> bool" where
  "no_match ts op h \<longleftrightarrow> (\<forall>tr \<in> set ts. \<exists>f status b. pattern tr = Some f \<and> f op (new_builder, h) = Some (status, b, h) \<and> status \<noteq> kLiteRtStatusOk)"

definition rewrite_step :: "(nat set \<Rightarrow> nat list) \<Rightarrow> LiteRtTransformation list \<Rightarrow> ir_graph \<times> ir_heap \<Rightarrow> ir_graph \<times> ir_heap \<Rightarrow> bool" where
  "rewrite_step order ts = (\<lambda>(g, h) (g', h'). \<exists>ks op ks' tr f b h1 b'.
     g_ops g = ks @ op # ks' \<and> (\<forall>k \<in> set ks. no_match ts k h) \<and>
     tr \<in> set ts \<and> no_match (filter (\<lambda>tr'. benefit tr' > benefit tr) ts) op h \<and>
     pattern tr = Some f \<and> f op (new_builder, h) = Some (kLiteRtStatusOk, b, h1) \<and>
     ApplyChanges order g b h1 = Some (b', g', h'))"

text \<open>
  What a transformation owes on a heap in which the references to be given next are unused: its pattern returns; when
  it matches, the links of the graph are well formed and the builder holds changes that can be applied; when it does
  not match, nothing has changed.
\<close>

definition good_pattern :: "LiteRtTransformation \<Rightarrow> bool" where
  "good_pattern tr \<longleftrightarrow> (\<exists>f. pattern tr = Some f \<and> (\<forall>g h op. fresh_heap h \<and> well_linked h g \<and> op \<in> set (g_ops g) \<longrightarrow>
     (\<exists>status b h'. f op (new_builder, h) = Some (status, b, h') \<and>
        (if status = kLiteRtStatusOk
         then fresh_heap h' \<and> well_linked h' g \<and> builder_ok h' g (b_subgraph b) (b_erases b) \<and> b_erases b \<subseteq> set (g_ops g)
         else h' = h))))"

lemma good_patternE:
  assumes "good_pattern tr" "fresh_heap h" "well_linked h g" "op \<in> set (g_ops g)"
  obtains (match) f b h' where "pattern tr = Some f" "f op (new_builder, h) = Some (kLiteRtStatusOk, b, h')" "fresh_heap h'"
      "well_linked h' g" "builder_ok h' g (b_subgraph b) (b_erases b)" "b_erases b \<subseteq> set (g_ops g)"
  | (miss) f status b where "pattern tr = Some f" "f op (new_builder, h) = Some (status, b, h)" "status \<noteq> kLiteRtStatusOk"
proof -
  from assms obtain f status b h' where f: "pattern tr = Some f" "f op (new_builder, h) = Some (status, b, h')"
    "if status = kLiteRtStatusOk
     then fresh_heap h' \<and> well_linked h' g \<and> builder_ok h' g (b_subgraph b) (b_erases b) \<and> b_erases b \<subseteq> set (g_ops g) else h' = h"
    unfolding good_pattern_def by blast
  then show ?thesis
    by (cases "status = kLiteRtStatusOk") (auto intro: match miss)
qed

lemma no_match_simps [simp]:
  "no_match [] op h"
  "no_match (tr # ts) op h \<longleftrightarrow> (\<exists>f status b. pattern tr = Some f \<and> f op (new_builder, h) = Some (status, b, h) \<and> status \<noteq> kLiteRtStatusOk) \<and>
     no_match ts op h"
  by (simp_all add: no_match_def)

lemma match_op_cases:
  assumes fr: "fresh_heap h" and wl: "well_linked h g" and op: "op \<in> set (g_ops g)" and good: "\<forall>tr \<in> set ts. good_pattern tr"
    and ord: "\<forall>E. finite E \<longrightarrow> set (order E) = E" and srt: "sorted_wrt (\<lambda>a b. benefit a \<ge> benefit b) ts"
  shows "(match_op order ts op (g, h) = Some (False, g, h) \<and> no_match ts op h) \<or>
    (\<exists>tr f b h1 b' g' h'. match_op order ts op (g, h) = Some (True, g', h') \<and> tr \<in> set ts \<and>
       no_match (filter (\<lambda>tr'. benefit tr' > benefit tr) ts) op h \<and>
       pattern tr = Some f \<and> f op (new_builder, h) = Some (kLiteRtStatusOk, b, h1) \<and>
       ApplyChanges order g b h1 = Some (b', g', h') \<and> fresh_heap h' \<and> well_linked h' g' \<and>
       g_inputs g' = g_inputs g \<and> g_outputs g' = g_outputs g)"
  using good srt
proof (induction ts)
  case (Cons tr ts)
  from Cons.prems(1) have "good_pattern tr" by simp
  from this fr wl op show ?case
  proof (cases rule: good_patternE)
    case (match f b h')
    have "set (order (b_erases b)) = b_erases b" using match(6) ord finite_subset by blast
    from changes_applied [where order = order, OF match(4-6) this] obtain b1 g1 h1 where
      a: "ApplyChanges order g b h' = Some (b1, g1, h1)" "well_linked h1 g1" "g_inputs g1 = g_inputs g" "g_outputs g1 = g_outputs g"
      by blast
    have fr1: "fresh_heap h1" by (rule ApplyChanges_fresh [OF a(1) match(3)])
    have "filter (\<lambda>tr'. benefit tr' > benefit tr) (tr # ts) = []" using Cons.prems(2) by (auto simp: filter_empty_conv)
    then have "no_match (filter (\<lambda>tr'. benefit tr' > benefit tr) (tr # ts)) op h" by (simp only: no_match_simps)
    moreover have "match_op order (tr # ts) op (g, h) = Some (True, g1, h1)" using match(1,2) a(1) by simp
    ultimately show ?thesis using match(1,2) a fr1 by (intro disjI2) (metis list.set_intros(1))
  next
    case (miss f status b)
    then have "match_op order (tr # ts) op (g, h) = match_op order ts op (g, h)" by simp
    note skip = this
    have add: "no_match (filter Q ts) op h \<Longrightarrow> no_match (filter Q (tr # ts)) op h" for Q
      using miss by simp
    have "\<forall>tr \<in> set ts. good_pattern tr" "sorted_wrt (\<lambda>a b. benefit a \<ge> benefit b) ts" using Cons.prems by simp_all
    from Cons.IH [OF this] show ?thesis unfolding skip
    proof (elim disjE conjE exE, goal_cases)
      case 1
      with miss show ?case by simp
    next
      case (2 tr' f' b h1 b' g' h')
      from add [OF 2(3)] 2 show ?case
        by (intro disjI2 exI [of _ tr'] exI [of _ f'] exI [of _ b] exI [of _ h1] exI [of _ b'] exI [of _ g'] exI [of _ h'] conjI) simp_all
    qed
  qed
qed simp

lemma scan_worklist_cases:
  assumes fr: "fresh_heap h" and wl: "well_linked h g" and good: "\<forall>tr \<in> set ts. good_pattern tr"
    and ord: "\<forall>E. finite E \<longrightarrow> set (order E) = E" and srt: "sorted_wrt (\<lambda>a b. benefit a \<ge> benefit b) ts"
    and ops: "g_ops g = ks @ worklist" "\<forall>k \<in> set ks. no_match ts k h"
  shows "(scan_worklist order ts worklist (g, h) = Some (False, g, h) \<and> (\<forall>k \<in> set (g_ops g). no_match ts k h)) \<or>
    (\<exists>g' h'. scan_worklist order ts worklist (g, h) = Some (True, g', h') \<and> rewrite_step order ts (g, h) (g', h') \<and>
       fresh_heap h' \<and> well_linked h' g' \<and> g_inputs g' = g_inputs g \<and> g_outputs g' = g_outputs g)"
  using ops
proof (induction worklist arbitrary: ks)
  case (Cons op worklist)
  have op: "op \<in> set (g_ops g)" using Cons.prems(1) by simp
  from match_op_cases [OF fr wl op good ord srt] show ?case
  proof (elim disjE conjE exE)
    assume m: "match_op order ts op (g, h) = Some (False, g, h)" "no_match ts op h"
    with Cons.prems have "g_ops g = (ks @ [op]) @ worklist" "\<forall>k \<in> set (ks @ [op]). no_match ts k h" by simp_all
    from Cons.IH [OF this] m(1) op show ?thesis by simp
  next
    fix tr f b h1 b' g' h'
    assume m: "match_op order ts op (g, h) = Some (True, g', h')" "tr \<in> set ts"
      "no_match (filter (\<lambda>tr'. benefit tr' > benefit tr) ts) op h" "pattern tr = Some f"
      "f op (new_builder, h) = Some (kLiteRtStatusOk, b, h1)" "ApplyChanges order g b h1 = Some (b', g', h')"
      "fresh_heap h'" "well_linked h' g'" "g_inputs g' = g_inputs g" "g_outputs g' = g_outputs g"
    have "rewrite_step order ts (g, h) (g', h')" using Cons.prems m(2-6) unfolding rewrite_step_def by blast
    with m op show ?thesis by simp
  qed
qed simp

lemma rewrite_first:
  assumes "g_ops g = op # ks" "pattern tr = Some f" "f op (new_builder, h) = Some (kLiteRtStatusOk, b, h1)"
    and "ApplyChanges order g b h1 = Some (b', g', h')"
  shows "rewrite_step order [tr] (g, h) (g', h')"
proof -
  have "g_ops g = [] @ op # ks" "no_match (filter (\<lambda>tr'. benefit tr' > benefit tr) [tr]) op h" using assms(1) by simp_all
  then show ?thesis using assms(2-4) unfolding rewrite_step_def by fastforce
qed

lemma no_rewrite_step:
  assumes "\<forall>k \<in> set (g_ops g). no_match ts k h"
  shows "\<not> rewrite_step order ts (g, h) s'"
proof
  assume "rewrite_step order ts (g, h) s'"
  then obtain ks op ks' tr f b h1 where "g_ops g = ks @ op # ks'" "tr \<in> set ts" "pattern tr = Some f"
    "f op (new_builder, h) = Some (kLiteRtStatusOk, b, h1)"
    unfolding rewrite_step_def by (cases s') auto
  with assms show False unfolding no_match_def by fastforce
qed

lemma rewrite_subgraph_runs:
  assumes fr: "fresh_heap h" and wl: "well_linked h g" and good: "\<forall>tr \<in> set ts. good_pattern tr"
    and ord: "\<forall>E. finite E \<longrightarrow> set (order E) = E" and srt: "sorted_wrt (\<lambda>a b. benefit a \<ge> benefit b) ts"
  shows "\<exists>n g' h'. rewrite_subgraph order ts iterations (g, h) = Some (g', h') \<and> n \<le> iterations \<and>
    (rewrite_step order ts ^^ n) (g, h) (g', h') \<and> (n = iterations \<or> (\<nexists>s'. rewrite_step order ts (g', h') s')) \<and>
    well_linked h' g' \<and> g_inputs g' = g_inputs g \<and> g_outputs g' = g_outputs g"
  using fr wl
proof (induction iterations arbitrary: g h)
  case (Suc iterations)
  have "g_ops g = [] @ g_ops g" "\<forall>k \<in> set []. no_match ts k h" by simp_all
  from scan_worklist_cases [OF Suc.prems(1,2) good ord srt this] show ?case
  proof (elim disjE conjE exE)
    assume m: "scan_worklist order ts (g_ops g) (g, h) = Some (False, g, h)" "\<forall>k \<in> set (g_ops g). no_match ts k h"
    then have "rewrite_subgraph order ts (Suc iterations) (g, h) = Some (g, h)" by simp
    with no_rewrite_step [OF m(2)] Suc.prems show ?thesis
      by (intro exI [of _ 0] exI [of _ g] exI [of _ h]) simp
  next
    fix g1 h1
    assume m: "scan_worklist order ts (g_ops g) (g, h) = Some (True, g1, h1)" "rewrite_step order ts (g, h) (g1, h1)"
      "fresh_heap h1" "well_linked h1 g1" "g_inputs g1 = g_inputs g" "g_outputs g1 = g_outputs g"
    from Suc.IH [OF m(3,4)] obtain n g' h' where r: "rewrite_subgraph order ts iterations (g1, h1) = Some (g', h')" "n \<le> iterations"
      "(rewrite_step order ts ^^ n) (g1, h1) (g', h')" "n = iterations \<or> (\<nexists>s'. rewrite_step order ts (g', h') s')"
      "well_linked h' g'" "g_inputs g' = g_inputs g1" "g_outputs g' = g_outputs g1" by blast
    have "(rewrite_step order ts ^^ Suc n) (g, h) (g', h')" using relpowp_Suc_I2 [OF m(2) r(3)] .
    moreover have "rewrite_subgraph order ts (Suc iterations) (g, h) = Some (g', h')" using m(1) r(1) by simp
    ultimately show ?thesis
      using r(2,4-7) m(5,6) by (intro exI [of _ "Suc n"] exI [of _ g'] exI [of _ h']) simp
  qed
next
  case 0
  then show ?case by simp
qed

lemma register_transformations_ok:
  assumes "\<forall>tr \<in> set trs. pattern tr \<noteq> None \<and> tr_name tr \<noteq> None"
  shows "register_transformations trs ts = (kLiteRtStatusOk, ts @ trs)"
  using assms by (induction trs arbitrary: ts) simp_all

text \<open>C7: The transformation of a model of one well-linked subgraph returns, for named transformations whose patterns keep
  the contract \<open>good_pattern\<close> (a pattern that replaces operations through the builder does, lemma \<open>replace_ops_good\<close>), on
  a heap in which the references to be given next are unused. It applies the transformations in order of their benefit,
  each time to the first operation that matches one, until none matches or the bound on the number of iterations is
  reached. The subgraph keeps its inputs and outputs and stays well linked. The order of the erased operations and
  \<open>std::sort\<close> are any that list the set and sort.\<close>

theorem TransformModel_rewrites:
  assumes m: "subgraphs (ps_model s) = [g]" "fresh_heap (ps_heap s)" "well_linked (ps_heap s) g"
    and t: "all_transformations p = Inr trs" "\<forall>tr \<in> set trs. tr_name tr \<noteq> None" "\<forall>tr \<in> set (transformations p @ trs). good_pattern tr"
    and order: "\<forall>E. finite E \<longrightarrow> set (order E) = E"
    and std_sort: "\<forall>ts. mset (std_sort (\<lambda>a b. benefit a > benefit b) ts) = mset ts \<and>
       sorted_wrt (\<lambda>a b. \<not> benefit b > benefit a) (std_sort (\<lambda>a b. benefit a > benefit b) ts)"
  shows "\<exists>n ts g' s'. TransformModel std_sort order (p, s) = Some (kLiteRtStatusOk, p\<lparr>transformations := ts\<rparr>, s') \<and>
    mset ts = mset (transformations p @ trs) \<and> subgraphs (ps_model s') = [g'] \<and>
    n \<le> max_transformation_iterations p \<and> (rewrite_step order ts ^^ n) (g, ps_heap s) (g', ps_heap s') \<and>
    (n = max_transformation_iterations p \<or> (\<nexists>r. rewrite_step order ts (g', ps_heap s') r)) \<and>
    well_linked (ps_heap s') g' \<and> g_inputs g' = g_inputs g \<and> g_outputs g' = g_outputs g"
proof -
  let ?ts = "std_sort (\<lambda>a b. benefit a > benefit b) (transformations p @ trs)"
  have mset: "mset ?ts = mset (transformations p @ trs)" using std_sort by blast
  then have set: "set ?ts = set (transformations p @ trs)" by (rule mset_eq_setD)
  have "sorted_wrt (\<lambda>a b. \<not> benefit b > benefit a) ?ts" using std_sort by blast
  then have srt: "sorted_wrt (\<lambda>a b. benefit a \<ge> benefit b) ?ts" by (simp only: not_less)
  have "\<forall>tr \<in> set trs. pattern tr \<noteq> None" using t(3) unfolding good_pattern_def by fastforce
  then have reg: "RegisterAllTransformations std_sort (all_transformations p) (transformations p) = (kLiteRtStatusOk, ?ts)"
    using t(1,2) register_transformations_ok [of trs "transformations p"] by (simp add: RegisterAllTransformations_def)
  from t(3) set have "\<forall>tr \<in> set ?ts. good_pattern tr" by blast
  from rewrite_subgraph_runs [OF m(2,3) this order srt, of "max_transformation_iterations p"] obtain n g' h' where
    r: "rewrite_subgraph order ?ts (max_transformation_iterations p) (g, ps_heap s) = Some (g', h')"
      "n \<le> max_transformation_iterations p" "(rewrite_step order ?ts ^^ n) (g, ps_heap s) (g', h')"
      "n = max_transformation_iterations p \<or> (\<nexists>s'. rewrite_step order ?ts (g', h') s')"
      "well_linked h' g'" "g_inputs g' = g_inputs g" "g_outputs g' = g_outputs g" by blast
  define s' where "s' = s\<lparr>ps_model := (ps_model s)\<lparr>subgraphs := [g']\<rparr>, ps_heap := h'\<rparr>"
  have "TransformModel std_sort order (p, s) = Some (kLiteRtStatusOk, p\<lparr>transformations := ?ts\<rparr>, s')"
    using reg r(1) m(1) by (simp add: TransformModel_def GreedyPatternMatchAndRewrite_def rewrite_at_def at_def s'_def)
  then show ?thesis using mset r by (intro exI [of _ n] exI [of _ ?ts] exI [of _ g'] exI [of _ s']) (simp add: s'_def)
qed

text \<open>
  A transformation that replaces the operations of one code by operations of another on the same tensors, as a plugin
  writes it on the builder's interface, and a plugin that has transformations and compiles nothing.
\<close>

definition replace_pattern :: "LiteRtOpCode \<Rightarrow> LiteRtOpCode \<Rightarrow> pattern_fn" where
  "replace_pattern old_code new_code = (\<lambda>op (b, h).
     (case op_of h op of
        None \<Rightarrow> Some (kLiteRtStatusPatternNoMatch, b, h)
      | Some x \<Rightarrow>
          if litert_op_code x \<noteq> old_code then Some (kLiteRtStatusPatternNoMatch, b, h)
          else do {
            (status, new_op, b1, h1) \<leftarrow> LiteRtBuilderBuildOp new_code (op_inputs x) (op_outputs x) (b, h);
            (if status \<noteq> kLiteRtStatusOk then Some (status, b1, h1) else LiteRtBuilderEraseOp (Some op) (b1, h1)) }))"

definition replace_ops :: "LiteRtOpCode \<Rightarrow> LiteRtOpCode \<Rightarrow> LiteRtTransformation" where
  "replace_ops old_code new_code = \<lparr>pattern = Some (replace_pattern old_code new_code), tr_name = Some ''replace'', benefit = 1\<rparr>"

lemma replace_pattern_match:
  assumes "well_linked h g" "fresh_heap h" "op \<in> set (g_ops g)" "op_of h op = Some x" "litert_op_code x = old_code"
  shows "\<exists>n b h'. replace_pattern old_code new_code op (new_builder, h) = Some (kLiteRtStatusOk, b, h') \<and> fresh_heap h' \<and>
    well_linked h' g \<and> builder_ok h' g (b_subgraph b) {op} \<and> b_erases b = {op} \<and> g_ops (b_subgraph b) = [n] \<and> n \<notin> set (g_ops g) \<and>
    ins h' = (ins h)(n := op_inputs x, op := [])"
proof -
  from replace_through_interface [OF assms(1-4), of new_code] obtain n b h1 h2 where
    "LiteRtBuilderBuildOp new_code (op_inputs x) (op_outputs x) (new_builder, h) = Some (kLiteRtStatusOk, Some n, b, h1)"
    "LiteRtBuilderEraseOp (Some op) (b, h1) = Some (kLiteRtStatusOk, EraseOp op b, h2)" "fresh_heap h2" "well_linked h2 g"
    "builder_ok h2 g (b_subgraph b) {op}" "b_erases b = {}" "g_ops (b_subgraph b) = [n]" "n \<notin> set (g_ops g)"
    "ins h2 = (ins h)(n := op_inputs x, op := [])" by blast
  then show ?thesis
    using assms(4,5) by (intro exI [of _ n] exI [of _ "EraseOp op b"] exI [of _ h2]) (simp add: replace_pattern_def EraseOp_def)
qed

lemma replace_ops_good: "good_pattern (replace_ops old_code new_code)"
proof -
  have "\<exists>status b h'. replace_pattern old_code new_code op (new_builder, h) = Some (status, b, h') \<and>
      (if status = kLiteRtStatusOk
       then fresh_heap h' \<and> well_linked h' g \<and> builder_ok h' g (b_subgraph b) (b_erases b) \<and> b_erases b \<subseteq> set (g_ops g)
       else h' = h)" if h: "fresh_heap h" "well_linked h g" "op \<in> set (g_ops g)" for g h op
  proof -
    obtain x where x: "op_of h op = Some x" using well_linkedD(3) [OF h(2,3)] by auto
    show ?thesis
    proof (cases "litert_op_code x = old_code")
      case True
      from replace_pattern_match [OF h(2,1,3) x this, of new_code] h(3) show ?thesis by force
    next
      case False
      with x show ?thesis by (simp add: replace_pattern_def)
    qed
  qed
  then show ?thesis by (simp add: good_pattern_def replace_ops_def)
qed

definition idle_plugin :: "byte list \<Rightarrow> LiteRtTransformation list \<Rightarrow> CompilerPlugin" where
  "idle_plugin manufacturer trs = \<lparr>check_compatibility = (\<lambda>_. kLiteRtStatusOk), all_transformations = Inr trs,
     partition_fn = (\<lambda>_ _ _. Inr []), partition_strategy = StrategyDefault,
     compile_fn = (\<lambda>_ _ _. Inl kLiteRtStatusErrorCompilation),
     null_result = \<lparr>NumByteCodeModules = Inr 0, ByteCode = (\<lambda>_. Inl kLiteRtStatusErrorIndexOOB), CallInfo = (\<lambda>_. Inl kLiteRtStatusErrorIndexOOB)\<rparr>,
     soc_manufacturer = manufacturer, supported_hardware = Inr kLiteRtHwAcceleratorNpu,
     transformations = [], max_transformation_iterations = 100\<rparr>"

definition descending :: tr_sort where
  "descending = (\<lambda>_ ts. rev (sort_key benefit ts))"

lemma descending_sorts:
  "\<forall>ts. mset (descending (\<lambda>a b. benefit a > benefit b) ts) = mset ts \<and>
    sorted_wrt (\<lambda>a b. \<not> benefit b > benefit a) (descending (\<lambda>a b. benefit a > benefit b) ts)"
proof -
  have "sorted_wrt (\<lambda>a b. benefit a \<ge> benefit b) (rev (sort_key benefit ts))" for ts :: "LiteRtTransformation list"
    using sorted_sort_key [of benefit ts] by (simp add: sorted_wrt_rev sorted_wrt_map)
  then show ?thesis by (simp add: descending_def not_less)
qed

text \<open>One replacement in the chain of three additions: the first operation is exchanged, in its place.\<close>

lemma chain_replaced:
  assumes step: "rewrite_step order [replace_ops kLiteRtOpCodeTflAdd kLiteRtOpCodeTflMul] (chain_graph, chain_heap) (g', h')"
    and order: "order {0} = [0]"
  shows "\<exists>n. n \<notin> {0, 1, 2} \<and> g_ops g' = [n, 1, 2]"
proof -
  let ?f = "replace_pattern kLiteRtOpCodeTflAdd kLiteRtOpCodeTflMul" and ?tr = "replace_ops kLiteRtOpCodeTflAdd kLiteRtOpCodeTflMul"
  from step obtain ks op ks' b h1 b' where o': "g_ops chain_graph = ks @ op # ks'" "\<forall>k \<in> set ks. no_match [?tr] k chain_heap"
    and r: "?f op (new_builder, chain_heap) = Some (kLiteRtStatusOk, b, h1)" "ApplyChanges order chain_graph b h1 = Some (b', g', h')"
    unfolding rewrite_step_def by (auto simp: replace_ops_def)
  have code: "\<exists>x. op_of chain_heap k = Some x \<and> litert_op_code x = kLiteRtOpCodeTflAdd" if "k \<in> set (g_ops chain_graph)" for k
    using that by (auto simp: chain_heap_eval plain_op_def)
  have fr: "fresh_heap chain_heap" by (rule plain_rootD(1) [OF chain_plain])
  have m: "\<exists>n b h'. ?f k (new_builder, chain_heap) = Some (kLiteRtStatusOk, b, h') \<and>
      well_linked h' chain_graph \<and> builder_ok h' chain_graph (b_subgraph b) {k} \<and> b_erases b = {k} \<and>
      g_ops (b_subgraph b) = [n] \<and> n \<notin> set (g_ops chain_graph) \<and>
      ins h' = (ins chain_heap)(n := op_inputs (the (op_of chain_heap k)), k := [])" if k: "k \<in> set (g_ops chain_graph)" for k
    using replace_pattern_match [OF chain_linked fr k] code [OF k] by fastforce
  have "ks = []"
  proof (rule ccontr)
    assume "ks \<noteq> []"
    then have k: "hd ks \<in> set ks" "hd ks \<in> set (g_ops chain_graph)" using o'(1) by simp_all
    from m [OF k(2)] o'(2) k(1) show False by (force simp: replace_ops_def)
  qed
  then have op: "op = 0" using o'(1) by simp
  from m [of 0] r(1) obtain n where n: "well_linked h1 chain_graph" "builder_ok h1 chain_graph (b_subgraph b) {0}" "b_erases b = {0}"
    "g_ops (b_subgraph b) = [n]" "n \<notin> {0, 1, 2}" "ins h1 = (ins chain_heap)(n := op_inputs (the (op_of chain_heap 0)), 0 := [])"
    by (auto simp: op)
  have pre: "builder_ok h1 chain_graph (b_subgraph b) (b_erases b)" "b_erases b \<subseteq> set (g_ops chain_graph)"
    "set (order (b_erases b)) = b_erases b" using n order by simp_all
  have "\<not> dead_op h1 k" if "k \<in> {1, 2, n}" for k
    using that n(5) by (auto simp: dead_op_def n(6)) (simp_all add: ins_def chain_heap_eval plain_op_def)
  then show ?thesis
    using changes_applied [where order = order, OF n(1) pre] r(2) n(5) by (auto simp: n(3,4) Let_def)
qed

theorem TransformModel_rewrites_witness:
  "\<exists>ts s' g' n. TransformModel descending sorted_list_of_set
       ((idle_plugin [] [replace_ops kLiteRtOpCodeTflAdd kLiteRtOpCodeTflMul])\<lparr>max_transformation_iterations := 1\<rparr>,
        \<lparr>ps_model = \<lparr>subgraphs = [chain_graph], composite = Map.empty\<rparr>, npu_call = (\<lambda>_. False), ps_heap = chain_heap\<rparr>) =
     Some (kLiteRtStatusOk, (idle_plugin [] [replace_ops kLiteRtOpCodeTflAdd kLiteRtOpCodeTflMul])
       \<lparr>max_transformation_iterations := 1, transformations := ts\<rparr>, s') \<and>
     subgraphs (ps_model s') = [g'] \<and> well_linked (ps_heap s') g' \<and> n \<notin> {0, 1, 2} \<and> g_ops g' = [n, 1, 2]"
proof -
  let ?s = "\<lparr>ps_model = \<lparr>subgraphs = [chain_graph], composite = Map.empty\<rparr>, npu_call = (\<lambda>_. False), ps_heap = chain_heap\<rparr>"
  let ?tr = "replace_ops kLiteRtOpCodeTflAdd kLiteRtOpCodeTflMul"
  let ?p = "(idle_plugin [] [?tr])\<lparr>max_transformation_iterations := 1\<rparr>"
  have pre: "subgraphs (ps_model ?s) = [chain_graph]" "fresh_heap (ps_heap ?s)" "well_linked (ps_heap ?s) chain_graph"
    "all_transformations ?p = Inr [?tr]" "\<forall>tr \<in> set [?tr]. tr_name tr \<noteq> None" "\<forall>tr \<in> set (transformations ?p @ [?tr]). good_pattern tr"
    "\<forall>E. finite E \<longrightarrow> set (sorted_list_of_set E) = (E :: nat set)"
    using chain_linked plain_rootD(1) [OF chain_plain] replace_ops_good by (simp_all add: idle_plugin_def replace_ops_def)
  have p: "max_transformation_iterations ?p = 1" "transformations ?p = []" by (simp_all add: idle_plugin_def)
  from TransformModel_rewrites [where p = ?p and s = ?s and std_sort = descending and order = sorted_list_of_set, OF pre descending_sorts]
  obtain m ts g' s' where r: "TransformModel descending sorted_list_of_set (?p, ?s) = Some (kLiteRtStatusOk, ?p\<lparr>transformations := ts\<rparr>, s')"
    "mset ts = {#?tr#}" "subgraphs (ps_model s') = [g']" "m \<le> 1" "(rewrite_step sorted_list_of_set ts ^^ m) (chain_graph, chain_heap) (g', ps_heap s')"
    "m = 1 \<or> (\<nexists>r. rewrite_step sorted_list_of_set ts (g', ps_heap s') r)" "well_linked (ps_heap s') g'"
    unfolding p by auto
  have ts: "ts = [?tr]" using r(2) by simp
  have "\<exists>r. rewrite_step sorted_list_of_set [?tr] (chain_graph, chain_heap) r"
  proof -
    have k: "0 \<in> set (g_ops chain_graph)" by simp
    obtain x where x: "op_of chain_heap 0 = Some x" "litert_op_code x = kLiteRtOpCodeTflAdd"
      by (auto simp: chain_heap_eval plain_op_def)
    from replace_pattern_match [OF chain_linked plain_rootD(1) [OF chain_plain] k x, of kLiteRtOpCodeTflMul] obtain b h' where
      m: "replace_pattern kLiteRtOpCodeTflAdd kLiteRtOpCodeTflMul 0 (new_builder, chain_heap) = Some (kLiteRtStatusOk, b, h')"
        "well_linked h' chain_graph" "builder_ok h' chain_graph (b_subgraph b) {0}" "b_erases b = {0}" by blast
    then have "builder_ok h' chain_graph (b_subgraph b) (b_erases b)" "b_erases b \<subseteq> set (g_ops chain_graph)"
      "set (sorted_list_of_set (b_erases b)) = b_erases b" by simp_all
    from changes_applied [where order = sorted_list_of_set, OF m(2) this] obtain b' g1 h1 where
      "ApplyChanges sorted_list_of_set chain_graph b h' = Some (b', g1, h1)" by blast
    moreover have "g_ops chain_graph = 0 # [1, 2]" "pattern ?tr = Some (replace_pattern kLiteRtOpCodeTflAdd kLiteRtOpCodeTflMul)"
      by (simp_all add: replace_ops_def)
    ultimately have "rewrite_step sorted_list_of_set [?tr] (chain_graph, chain_heap) (g1, h1)" using m(1) by (intro rewrite_first)
    then show ?thesis by blast
  qed
  then have "m = 1" using r(4-6) unfolding ts by (cases m) auto
  then have "rewrite_step sorted_list_of_set [?tr] (chain_graph, chain_heap) (g', ps_heap s')" using r(5) by (simp add: ts eq_OO)
  from chain_replaced [OF this] obtain n where "n \<notin> {0, 1, 2}" "g_ops g' = [n, 1, 2]" by auto
  then show ?thesis using r(1,3,7) by fastforce
qed

section \<open>One build stamp for several plugins\<close>

text \<open>The plugin's functions do not report an error with the status of success.\<close>

definition honest_result :: "CompiledResult \<Rightarrow> bool" where
  "honest_result r \<longleftrightarrow> NumByteCodeModules r \<noteq> Inl kLiteRtStatusOk \<and>
     (\<forall>i. ByteCode r i \<noteq> Inl kLiteRtStatusOk \<and> CallInfo r i \<noteq> Inl kLiteRtStatusOk)"

definition honest :: "CompilerPlugin \<Rightarrow> bool" where
  "honest p \<longleftrightarrow> honest_result (null_result p) \<and>
     (\<forall>soc m h. compile_fn p soc m h \<noteq> Inl kLiteRtStatusOk \<and> (\<forall>r. compile_fn p soc m h = Inr r \<longrightarrow> honest_result r))"

definition stamped :: "asset_state \<Rightarrow> bool" where
  "stamped a \<longleftrightarrow> metadata a kLiteRtBuildStampKey \<noteq> None"

lemma register_byte_code_metadata:
  "register_byte_code r js (ids, a) = (status, ids', a') \<Longrightarrow> metadata a' = metadata a"
  by (induction js arbitrary: ids a) (auto simp: RegisterOwnedBuffer_def split: sum.splits)

lemma attach_calls_metadata:
  "attach_calls r ids i ks a = Some (status, a') \<Longrightarrow> metadata a' = metadata a"
  by (induction ks arbitrary: i a) (auto simp: AttachAssetToOp_def bind_eq_Some_conv split: sum.splits prod.splits)

lemma PushMetadata_stamps:
  "PushMetadata kLiteRtBuildStampKey buf a = (status, a') \<Longrightarrow> status = kLiteRtStatusOk \<longleftrightarrow> \<not> stamped a"
  "PushMetadata kLiteRtBuildStampKey buf a = (status, a') \<Longrightarrow> stamped a'"
  by (auto simp: PushMetadata_def RegisterOwnedBuffer_def stamped_def split: if_splits)

lemma ApplyPluginWithPartition_stamps:
  assumes run: "ApplyPluginWithPartition compile man soc (ks, m) a = Some (status, a')"
    and hon: "compile m \<noteq> Inl kLiteRtStatusOk" "\<And>r. compile m = Inr r \<Longrightarrow> honest_result r"
  shows "(status = kLiteRtStatusOk \<longrightarrow> \<not> stamped a \<and> stamped a') \<and> (stamped a \<longrightarrow> stamped a')"
proof (cases "compile m")
  case (Inl err)
  with run hon(1) show ?thesis by (auto simp: ApplyPluginWithPartition_def)
next
  case (Inr r)
  note r = hon(2) [OF this]
  show ?thesis
  proof (cases "NumByteCodeModules r")
    case (Inl err)
    with run \<open>compile m = Inr r\<close> r show ?thesis by (auto simp: ApplyPluginWithPartition_def honest_result_def)
  next
    case num: (Inr n)
    obtain st ids a1 where reg: "register_byte_code r [0..<n] ([], a) = (st, ids, a1)" by (cases "register_byte_code r [0..<n] ([], a)")
    note m1 = register_byte_code_metadata [OF reg]
    show ?thesis
    proof (cases "st = kLiteRtStatusOk")
      case True
      then obtain st2 a2 where att: "attach_calls r ids 0 ks a1 = Some (st2, a2)"
        using run Inr num reg by (auto simp: ApplyPluginWithPartition_def bind_eq_Some_conv)
      from attach_calls_metadata [OF this] m1 have m2: "stamped a2 = stamped a" by (simp add: stamped_def)
      consider (err) "a' = a2" "status \<noteq> kLiteRtStatusOk" | (push) buf where "PushMetadata kLiteRtBuildStampKey buf a2 = (status, a')"
        using run Inr num reg True att
        by (auto simp: ApplyPluginWithPartition_def MakeBuildStamp_def split: if_splits)
      then show ?thesis
      proof cases
        case err
        with m2 show ?thesis by simp
      next
        case push
        from PushMetadata_stamps [OF this] m2 show ?thesis by simp
      qed
    next
      case False
      with run Inr num reg m1 show ?thesis by (simp add: ApplyPluginWithPartition_def stamped_def)
    qed
  qed
qed

lemma Compile_honest:
  assumes "honest p"
  shows "Compile p soc h m \<noteq> Inl kLiteRtStatusOk" "Compile p soc h m = Inr r \<Longrightarrow> honest_result r"
  using assms by (auto simp: Compile_def honest_def split: if_splits)

lemma PartitionModel_error:
  "PartitionModel plugin index_order op_order strategy chosen s = Some (Inl err, s') \<Longrightarrow> err \<noteq> kLiteRtStatusOk"
  by (auto simp: PartitionModel_def Let_def bind_eq_Some_conv split: if_splits)

lemma TransformModel_plugin:
  "TransformModel std_sort order (p, s) = Some (status, p', s') \<Longrightarrow> \<exists>ts. p' = p\<lparr>transformations := ts\<rparr>"
  by (auto simp: TransformModel_def bind_eq_Some_conv split: prod.splits if_splits)

lemma ApplyPlugin_stamps:
  assumes run: "ApplyPlugin std_sort order index_order op_order soc chosen (p, s, a) = Some (status, p', s', a')" and hon: "honest p"
  shows "(status = kLiteRtStatusOk \<longrightarrow> \<not> stamped a \<and> stamped a') \<and> (stamped a \<longrightarrow> stamped a')"
proof (cases "check_compatibility p soc = kLiteRtStatusOk")
  case True
  then obtain st p1 s1 where tm: "TransformModel std_sort order (p, s) = Some (st, p1, s1)"
    using run by (auto simp: ApplyPlugin_def bind_eq_Some_conv)
  from TransformModel_plugin [OF this] hon have h1: "honest p1" by (auto simp: honest_def)
  show ?thesis
  proof (cases "st = kLiteRtStatusOk")
    case ok: True
    then obtain parts s2 where pm: "PartitionModel (partition_fn p1 soc) index_order op_order (partition_strategy p1) chosen s1 = Some (parts, s2)"
      using run True tm by (auto simp: ApplyPlugin_def bind_eq_Some_conv)
    show ?thesis
    proof (cases parts)
      case (Inl err)
      with PartitionModel_error pm have "err \<noteq> kLiteRtStatusOk" by blast
      with run True tm ok pm Inl show ?thesis by (simp add: ApplyPlugin_def)
    next
      case (Inr km)
      obtain ks m where km: "km = (ks, m)" by fastforce
      have "ApplyPluginWithPartition (Compile p1 soc (ps_heap s2)) (soc_manufacturer p1) soc (ks, m) a = Some (status, a')"
        using run True tm ok pm Inr km by (auto simp: ApplyPlugin_def bind_eq_Some_conv)
      from ApplyPluginWithPartition_stamps [OF this Compile_honest [OF h1]] show ?thesis .
    qed
  next
    case False
    with run True tm show ?thesis by (simp add: ApplyPlugin_def)
  qed
next
  case False
  with run show ?thesis by (auto simp: ApplyPlugin_def)
qed

abbreviation applicable :: "32 word \<Rightarrow> CompilerPlugin \<Rightarrow> bool" where
  "applicable selected p \<equiv> (case supported_hardware p of Inl _ \<Rightarrow> True | Inr hw \<Rightarrow> hw AND selected \<noteq> 0)"

lemma apply_step_stamps:
  assumes run: "apply_step (ApplyPlugin std_sort order index_order op_order soc chosen) selected p (r, ps, s, a) = Some (r', ps', s', a')"
    and hon: "honest p"
  shows "(num_applied_plugins r' = num_applied_plugins r \<and> success_messages r' = success_messages r \<and> (stamped a \<longrightarrow> stamped a') \<and>
      length (error_messages r') = length (error_messages r) + (if applicable selected p then 1 else 0)) \<or>
    (num_applied_plugins r' = Suc (num_applied_plugins r) \<and> success_messages r' = success_messages r @ [soc_manufacturer p] \<and>
      \<not> stamped a \<and> stamped a' \<and> error_messages r' = error_messages r \<and> applicable selected p)"
proof (cases "supported_hardware p")
  case (Inl err)
  with run show ?thesis by (auto simp: apply_step_def)
next
  case (Inr hw)
  show ?thesis
  proof (cases "hw AND selected = 0")
    case True
    with run Inr show ?thesis by (auto simp: apply_step_def)
  next
    case False
    then obtain status p1 where ap: "ApplyPlugin std_sort order index_order op_order soc chosen (p, s, a) = Some (status, p1, s', a')"
      using run Inr by (auto simp: apply_step_def bind_eq_Some_conv Let_def)
    from ApplyPlugin_stamps [OF this hon] run Inr False ap show ?thesis
      by (cases "status = kLiteRtStatusOk") (auto simp: apply_step_def)
  qed
qed

lemma apply_steps:
  assumes "\<forall>p \<in> set plugins. honest p"
    and "foldM (apply_step (ApplyPlugin std_sort order index_order op_order soc chosen) selected) plugins (r, ps, s, a) = Some (r', ps', s', a')"
  shows "num_applied_plugins r' + length (success_messages r) = num_applied_plugins r + length (success_messages r') \<and>
    num_applied_plugins r' \<le> num_applied_plugins r + (if stamped a then 0 else 1) \<and>
    num_applied_plugins r' + length (error_messages r') =
      num_applied_plugins r + length (error_messages r) + length (filter (applicable selected) plugins)"
  using assms
proof (induction plugins arbitrary: r ps s a)
  case (Cons p plugins)
  from Cons.prems(2) obtain r1 ps1 s1 a1 where
    st: "apply_step (ApplyPlugin std_sort order index_order op_order soc chosen) selected p (r, ps, s, a) = Some (r1, ps1, s1, a1)" and
    rest: "foldM (apply_step (ApplyPlugin std_sort order index_order op_order soc chosen) selected) plugins (r1, ps1, s1, a1) = Some (r', ps', s', a')"
    by (auto simp: bind_eq_Some_conv)
  from Cons.prems(1) have "\<forall>p \<in> set plugins. honest p" "honest p" by simp_all
  note IH = Cons.IH [OF this(1) rest] and one = apply_step_stamps [OF st this(2)]
  from one show ?case
  proof (elim disjE conjE, goal_cases)
    case 1
    with IH show ?case by (auto split: if_splits)
  next
    case 2
    with IH show ?case by auto
  qed
qed simp

text \<open>Of the plugins given to \<open>ApplyPlugins\<close> at most one is applied to a model, and none to a model that carries a
  build stamp already: storing a second stamp is an error. Every plugin that supports the selected
  hardware and is not applied leaves an error message.\<close>

theorem ApplyPlugins_at_most_one:
  assumes hon: "\<forall>p \<in> set plugins. honest p"
    and run: "ApplyPlugins (ApplyPlugin std_sort order index_order op_order soc chosen) selected plugins (s, a) = Some (Inr (r, plugins', s', a'))"
  shows "num_applied_plugins r = length (success_messages r) \<and>
    num_applied_plugins r \<le> (if metadata a ''LiteRtStamp'' = None then 1 else 0) \<and>
    length (filter (\<lambda>p. case supported_hardware p of Inl _ \<Rightarrow> True | Inr hw \<Rightarrow> hw AND selected \<noteq> 0) plugins) =
      num_applied_plugins r + length (error_messages r)"
proof -
  let ?r = "\<lparr>num_applied_plugins = 0, success_messages = [], error_messages = [], mutated = False\<rparr>"
  have "foldM (apply_step (ApplyPlugin std_sort order index_order op_order soc chosen) selected) plugins (?r, [], s, a) = Some (r, plugins', s', a')"
    using run by (auto simp: ApplyPlugins_def split: if_splits)
  from apply_steps [OF hon this] show ?thesis by (auto simp: stamped_def kLiteRtBuildStampKey_def)
qed

theorem ApplyPlugins_at_most_one_witness:
  "case ApplyPlugins (ApplyPlugin descending sorted_list_of_set id id [] {}) kLiteRtHwAcceleratorNpu [idle_plugin [65] [], idle_plugin [66] []]
       (\<lparr>ps_model = \<lparr>subgraphs = [], composite = Map.empty\<rparr>, npu_call = (\<lambda>_. False), ps_heap = chain_heap\<rparr>,
        \<lparr>buffers = [], op_assets = Map.empty, metadata = Map.empty\<rparr>) of
     Some (Inr (r, _)) \<Rightarrow> num_applied_plugins r \<le> 1 \<and> num_applied_plugins r + length (error_messages r) = 2
   | _ \<Rightarrow> False"
proof -
  let ?s = "\<lparr>ps_model = \<lparr>subgraphs = [], composite = Map.empty\<rparr>, npu_call = (\<lambda>_. False), ps_heap = chain_heap\<rparr>"
  let ?a = "\<lparr>buffers = [], op_assets = Map.empty, metadata = Map.empty\<rparr>"
  let ?plugins = "[idle_plugin [65] [], idle_plugin [66] []]"
  let ?run = "ApplyPlugins (ApplyPlugin descending sorted_list_of_set id id [] {}) kLiteRtHwAcceleratorNpu ?plugins (?s, ?a)"
  have tm: "TransformModel descending sorted_list_of_set (idle_plugin man [], ?s) = Some (kLiteRtStatusOk, idle_plugin man [], ?s)" for man
    by (simp add: TransformModel_def RegisterAllTransformations_def idle_plugin_def descending_def GreedyPatternMatchAndRewrite_def)
  have pm: "PartitionModel plugin id id strategy {} ?s = Some (Inr ([], \<lparr>subgraphs = [], composite = Map.empty\<rparr>), ?s)" for plugin strategy
    by (simp add: PartitionModel_def decomp_subgraphs_def all_ops_def npu_calls_def Yank_none Let_def)
  have ap: "\<exists>status a'. ApplyPlugin descending sorted_list_of_set id id [] {} (idle_plugin man [], ?s, a) = Some (status, idle_plugin man [], ?s, a')" for man a
    using tm [of man] pm
    by (simp add: ApplyPlugin_def idle_plugin_def ApplyPluginWithPartition_def Compile_def split: sum.split prod.split)
  obtain st1 a1 where a1: "ApplyPlugin descending sorted_list_of_set id id [] {} (idle_plugin [65] [], ?s, ?a) = Some (st1, idle_plugin [65] [], ?s, a1)"
    using ap by blast
  obtain st2 a2 where a2: "ApplyPlugin descending sorted_list_of_set id id [] {} (idle_plugin [66] [], ?s, a1) = Some (st2, idle_plugin [66] [], ?s, a2)"
    using ap by blast
  have hw: "supported_hardware (idle_plugin man []) = Inr kLiteRtHwAcceleratorNpu" "kLiteRtHwAcceleratorNpu AND kLiteRtHwAcceleratorNpu \<noteq> 0" for man
    by (simp_all add: idle_plugin_def kLiteRtHwAcceleratorNpu_def)
  have "\<exists>r. ?run = Some (Inr r)"
    using a1 a2 hw by (simp add: ApplyPlugins_def apply_step_def Let_def)
  then obtain r ps' s' a' where run: "?run = Some (Inr (r, ps', s', a'))" by (metis prod_cases4)
  have hon: "\<forall>p \<in> set ?plugins. honest p" by (simp add: honest_def idle_plugin_def honest_result_def)
  from ApplyPlugins_at_most_one [OF hon run] hw show ?thesis by (simp add: run)
qed

section \<open>The order of the plugins\<close>

text \<open>
  The comparison puts a plugin for the CPU before one for the NPU; between two plugins of
  unknown hardware it holds both ways.
\<close>

lemma plugin_less_order:
  assumes "supported_hardware cpu = Inr kLiteRtHwAcceleratorCpu" "supported_hardware npu = Inr kLiteRtHwAcceleratorNpu"
  shows "plugin_less cpu npu \<and> \<not> plugin_less npu cpu"
  using assms by (simp add: plugin_less_def hw_score_def kLiteRtHwAcceleratorCpu_def kLiteRtHwAcceleratorGpu_def kLiteRtHwAcceleratorNpu_def)

lemma plugin_less_not_strict: "supported_hardware x = Inl err \<Longrightarrow> plugin_less x x"
  by (simp add: plugin_less_def)

end
