(* ===== verification/SimplePlanner.thy ===== *)
theory SimplePlanner
  imports PlanCorrect
begin

text \<open>
  The memory planner of \<^verbatim>\<open>src/tflite/simple_planner.{h,cc}\<close>, which gives each tensor a
  block of its own from \<open>malloc\<close>: the model, the agreement of its plan with that of the arena
  planner, and what executing the plan does to the C heap.

  Functions that share their name with one of the arena planner carry the prefix \<open>Simple_\<close>.
\<close>

section \<open>Allocation records\<close>

record SimpleAlloc =
  sa_size :: size_t
  sa_node :: int
  sa_ptr :: ptr

definition sa_reset :: SimpleAlloc where
  "sa_reset = \<lparr>sa_size = 0, sa_node = 0, sa_ptr = nullptr\<rparr>"

definition sa_alloc :: "platform \<Rightarrow> size_t \<Rightarrow> int \<Rightarrow> SimpleAlloc \<times> heap \<Rightarrow> bool \<times> SimpleAlloc \<times> heap" where
  "sa_alloc P new_size new_first_node = (\<lambda>(a, h).
     if new_size = 0 then (False, a, h)
     else let p = malloc_at P h new_size in
       (True, \<lparr>sa_size = new_size, sa_node = new_first_node, sa_ptr = p\<rparr>, block_add h p new_size))"

definition sa_free :: "SimpleAlloc \<times> heap \<Rightarrow> SimpleAlloc \<times> heap" where
  "sa_free = (\<lambda>(a, h). (sa_reset, if sa_ptr a \<noteq> nullptr then free h (sa_ptr a) else h))"

record SimplePlanner =
  s_allocs :: "SimpleAlloc list"
  s_alloc_node :: "int list"
  s_dealloc_node :: "int list"

definition new_simple_planner :: SimplePlanner where
  "new_simple_planner = \<lparr>s_allocs = [], s_alloc_node = [], s_dealloc_node = []\<rparr>"

section \<open>Resetting\<close>

definition free_at :: "nat \<Rightarrow> SimpleAlloc list \<times> heap \<Rightarrow> SimpleAlloc list \<times> heap" where
  "free_at i = (\<lambda>(as, h). case sa_free (as ! i, h) of (a, h') \<Rightarrow> (as[i := a], h'))"

definition FreeAllAllocations :: "SimplePlanner \<Rightarrow> heap \<Rightarrow> SimplePlanner \<times> heap" where
  "FreeAllAllocations p h =
     (case fold free_at [0..<length (s_allocs p)] (s_allocs p, h) of (as, h') \<Rightarrow> (p\<lparr>s_allocs := as\<rparr>, h'))"

definition Simple_ResetAllocations :: "SimplePlanner \<Rightarrow> GraphInfo \<Rightarrow> heap \<Rightarrow> TfLiteStatus \<times> SimplePlanner \<times> heap" where
  "Simple_ResetAllocations p g h =
     (case FreeAllAllocations p h of
        (p1, h1) \<Rightarrow> (kTfLiteOk, p1\<lparr>s_allocs := replicate (num_tensors g) sa_reset\<rparr>, h1))"

definition reset_after_at :: "int \<Rightarrow> nat \<Rightarrow> SimpleAlloc list \<times> TfLiteTensor list \<times> heap \<Rightarrow> SimpleAlloc list \<times> TfLiteTensor list \<times> heap" where
  "reset_after_at node i = (\<lambda>(as, ts, h).
     if sa_node (as ! i) > node \<and> sa_size (as ! i) > 0 \<and> allocation_type (ts ! i) = kTfLiteArenaRw
     then (case free_at i (as, h) of (as', h') \<Rightarrow> (as', ts[i := (ts ! i)\<lparr>data_ptr := nullptr\<rparr>], h'))
     else (as, ts, h))"

definition Simple_ResetAllocationsAfter ::
    "int \<Rightarrow> SimplePlanner \<Rightarrow> GraphInfo \<Rightarrow> heap \<Rightarrow> TfLiteStatus \<times> SimplePlanner \<times> GraphInfo \<times> heap" where
  "Simple_ResetAllocationsAfter node p g h =
     (case fold (reset_after_at node) [0..<length (s_allocs p)] (s_allocs p, tensors g, h) of
        (as, ts, h') \<Rightarrow> (kTfLiteOk, p\<lparr>s_allocs := as\<rparr>, g\<lparr>tensors := ts\<rparr>, h'))"

section \<open>Planning\<close>

text \<open>The two closures of \<open>PlanAllocations\<close>; the reference counts are threaded beside the planner.\<close>

definition simple_allocate :: "SimplePlanner \<Rightarrow> int \<Rightarrow> int \<Rightarrow> TfLiteStatus \<times> SimplePlanner" where
  "simple_allocate p node t =
     (if at (s_alloc_node p) t \<noteq> kNodeNotAssigned then (kTfLiteOk, p)
      else if at (s_dealloc_node p) t \<noteq> kNodeNotAssigned then (kTfLiteError, p)
      else (kTfLiteOk, p\<lparr>s_alloc_node := (s_alloc_node p)[nat t := node]\<rparr>))"

definition simple_deallocate :: "SimplePlanner \<Rightarrow> int \<Rightarrow> int \<Rightarrow> TfLiteStatus \<times> SimplePlanner" where
  "simple_deallocate p node t =
     (if at (s_alloc_node p) t = kNodeNotAssigned then (kTfLiteOk, p)
      else if at (s_dealloc_node p) t \<noteq> kNodeNotAssigned then (kTfLiteError, p)
      else (kTfLiteOk, p\<lparr>s_dealloc_node := (s_dealloc_node p)[nat t := node]\<rparr>))"

definition simple_variable :: "SimplePlanner \<times> int list \<Rightarrow> int \<Rightarrow> TfLiteStatus \<times> SimplePlanner \<times> int list" where
  "simple_variable = (\<lambda>(p, rc) t.
     let rc' = bump rc t 1 in
     if t = kTfLiteOptionalTensor then (kTfLiteError, p, rc')
     else (case simple_allocate p 0 t of (st, p') \<Rightarrow> (st, p', rc')))"

definition simple_input :: "SimplePlanner \<times> int list \<Rightarrow> int \<Rightarrow> TfLiteStatus \<times> SimplePlanner \<times> int list" where
  "simple_input = (\<lambda>(p, rc) t.
     if t \<noteq> kTfLiteOptionalTensor then
       (case simple_allocate p 0 t of (st, p') \<Rightarrow> (st, p', bump rc t 1))
     else (kTfLiteOk, p, rc))"

definition simple_use :: "nat \<Rightarrow> SimplePlanner \<times> int list \<Rightarrow> int \<Rightarrow> TfLiteStatus \<times> SimplePlanner \<times> int list" where
  "simple_use i = (\<lambda>(p, rc) t.
     if t \<noteq> kTfLiteOptionalTensor then
       let rc' = bump rc t (-1)
       in if at rc' t = 0 then (case simple_deallocate p (int i) t of (st, p') \<Rightarrow> (st, p', rc'))
          else (kTfLiteOk, p, rc')
     else (kTfLiteOk, p, rc))"

definition simple_node :: "GraphInfo \<Rightarrow> SimplePlanner \<times> int list \<Rightarrow> nat \<Rightarrow> TfLiteStatus \<times> SimplePlanner \<times> int list" where
  "simple_node g = (\<lambda>(p, rc) i.
     case for_status (\<lambda>p. simple_allocate p (int i)) p (node_outputs (nodes g ! i)) of
       (st, p1) \<Rightarrow>
         if st \<noteq> kTfLiteOk then (st, p1, rc)
         else for_status (simple_use i) (p1, rc) (node_inputs (nodes g ! i)))"

definition Simple_PlanAllocations :: "SimplePlanner \<Rightarrow> GraphInfo \<Rightarrow> heap \<Rightarrow> TfLiteStatus \<times> SimplePlanner \<times> heap" where
  "Simple_PlanAllocations p g h =
     (case Simple_ResetAllocations p g h of
        (st, p0, h') \<Rightarrow>
          if st \<noteq> kTfLiteOk then (st, p0, h')
          else
            let n = num_tensors g;
                p1 = p0\<lparr>s_alloc_node := replicate n kNodeNotAssigned, s_dealloc_node := replicate n kNodeNotAssigned\<rparr>;
                rc = count_refs (\<lambda>t. t) (replicate n 0) (graph_outputs g)
            in (case ensure_status (for_status simple_variable (p1, rc) (graph_variables g)) (\<lambda>s2.
                     ensure_status (for_status simple_input s2 (graph_inputs g)) (\<lambda>(p3, rc3).
                       for_status (simple_node g) (p3, count_refs (\<lambda>t. t) rc3 (all_node_inputs g)) [0..<num_execution_nodes g])) of
                  (st, p4, _) \<Rightarrow> (st, p4, h')))"

section \<open>Executing the plan\<close>

definition simple_temporary :: "nat \<Rightarrow> SimplePlanner \<Rightarrow> int \<Rightarrow> SimplePlanner" where
  "simple_temporary i p t =
     p\<lparr>s_alloc_node := (s_alloc_node p)[nat t := int i], s_dealloc_node := (s_dealloc_node p)[nat t := int i]\<rparr>"

definition simple_temporaries :: "GraphInfo \<Rightarrow> int \<Rightarrow> int \<Rightarrow> SimplePlanner \<Rightarrow> SimplePlanner" where
  "simple_temporaries g fst_node lst_node p =
     foldl (\<lambda>p i. foldl (simple_temporary i) p (node_temporaries (nodes g ! i))) p
       (if fst_node < 0 then []
        else filter (\<lambda>i. lst_node < 0 \<or> int i \<le> lst_node) [nat fst_node..<num_execution_nodes g])"

definition Simple_ResolveTensorAllocation :: "SimpleAlloc list \<Rightarrow> nat \<Rightarrow> TfLiteTensor list \<Rightarrow> TfLiteStatus \<times> TfLiteTensor list" where
  "Simple_ResolveTensorAllocation as i ts =
     (let tns = ts ! i in
      if allocation_type tns = kTfLiteArenaRw \<and> sa_size (as ! i) \<noteq> 0 \<or> allocation_type tns = kTfLiteArenaRwPersistent
      then (kTfLiteOk, ts[i := tns\<lparr>data_ptr := sa_ptr (as ! i)\<rparr>])
      else (kTfLiteOk, ts))"

text \<open>What happens to the record of tensor \<open>i\<close>, whose planned node is \<open>node\<close>, before it is resolved.\<close>

definition place :: "platform \<Rightarrow> TfLiteTensor \<Rightarrow> int \<Rightarrow> SimpleAlloc \<times> heap \<Rightarrow> bool \<times> SimpleAlloc \<times> heap" where
  "place P tns node = (\<lambda>(a, h).
     if allocation_type tns = kTfLiteArenaRw then
       sa_alloc P (bytes tns) node (if sa_size a \<noteq> 0 then sa_free (a, h) else (a, h))
     else if allocation_type tns = kTfLiteArenaRwPersistent \<and> sa_size a = 0 then sa_alloc P (bytes tns) node (a, h)
     else (False, a, h))"

definition execute_one ::
    "platform \<Rightarrow> int list \<Rightarrow> int \<Rightarrow> int \<Rightarrow> SimpleAlloc list \<times> TfLiteTensor list \<times> heap \<Rightarrow> nat \<Rightarrow>
     TfLiteStatus \<times> SimpleAlloc list \<times> TfLiteTensor list \<times> heap" where
  "execute_one P planned_at fst_node lst_node = (\<lambda>(as, ts, h) i.
     case (if fst_node \<le> planned_at ! i \<and> planned_at ! i \<le> lst_node
           then place P (ts ! i) (planned_at ! i) (as ! i, h) else (False, as ! i, h)) of
       (allocated, a, h') \<Rightarrow>
         let as' = as[i := a] in
         if allocated then (case Simple_ResolveTensorAllocation as' i ts of (st, ts') \<Rightarrow> (st, as', ts', h'))
         else (kTfLiteOk, as', ts, h'))"

definition Simple_ExecuteAllocations ::
    "platform \<Rightarrow> int \<Rightarrow> int \<Rightarrow> SimplePlanner \<Rightarrow> GraphInfo \<Rightarrow> heap \<Rightarrow> TfLiteStatus \<times> SimplePlanner \<times> GraphInfo \<times> heap" where
  "Simple_ExecuteAllocations P fst_node lst_node p g h =
     (let n = num_tensors g;
          p1 = p\<lparr>s_alloc_node := resize_list n kNodeNotAssigned (s_alloc_node p),
                 s_dealloc_node := resize_list n kNodeNotAssigned (s_dealloc_node p),
                 s_allocs := resize_list n sa_reset (s_allocs p)\<rparr>;
          p2 = simple_temporaries g fst_node lst_node p1
      in (case for_status (execute_one P (s_alloc_node p2) fst_node lst_node) (s_allocs p2, tensors g, h) [0..<n] of
            (st, as, ts, h') \<Rightarrow> (st, p2\<lparr>s_allocs := as\<rparr>, g\<lparr>tensors := ts\<rparr>, h')))"

definition release_at :: "nat \<Rightarrow> SimpleAlloc list \<times> TfLiteTensor list \<times> heap \<Rightarrow> SimpleAlloc list \<times> TfLiteTensor list \<times> heap" where
  "release_at i = (\<lambda>(as, ts, h).
     if allocation_type (ts ! i) = kTfLiteArenaRw
     then (case free_at i (as, h) of (as', h') \<Rightarrow> (as', ts[i := (ts ! i)\<lparr>data_ptr := nullptr\<rparr>], h'))
     else (as, ts, h))"

definition Simple_ReleaseNonPersistentMemory ::
    "SimplePlanner \<Rightarrow> GraphInfo \<Rightarrow> heap \<Rightarrow> TfLiteStatus \<times> SimplePlanner \<times> GraphInfo \<times> heap" where
  "Simple_ReleaseNonPersistentMemory p g h =
     (case fold release_at [0..<num_tensors g] (s_allocs p, tensors g, h) of
        (as, ts, h') \<Rightarrow> (kTfLiteOk, p\<lparr>s_allocs := as\<rparr>, g\<lparr>tensors := ts\<rparr>, h'))"

definition Simple_AcquireNonPersistentMemory :: "SimplePlanner \<Rightarrow> GraphInfo \<Rightarrow> TfLiteStatus \<times> GraphInfo" where
  "Simple_AcquireNonPersistentMemory p g =
     (case for_status (\<lambda>ts i. if allocation_type (ts ! i) = kTfLiteArenaRw
                              then Simple_ResolveTensorAllocation (s_allocs p) i ts else (kTfLiteOk, ts))
             (tensors g) [0..<num_tensors g] of
        (st, ts) \<Rightarrow> (st, g\<lparr>tensors := ts\<rparr>))"

definition Simple_HasNonPersistentMemory :: "SimplePlanner \<Rightarrow> bool" where
  "Simple_HasNonPersistentMemory p = True"

section \<open>The plan is that of the arena planner\<close>

text \<open>Loops whose bodies keep two states related.\<close>

lemma for_status_related:
  assumes "\<And>x s t. x \<in> set xs \<Longrightarrow> R s t \<Longrightarrow> fst (f s x) = fst (g t x) \<and> R (snd (f s x)) (snd (g t x))" "R s t"
  shows "fst (for_status f s xs) = fst (for_status g t xs) \<and> R (snd (for_status f s xs)) (snd (for_status g t xs))"
  using assms
proof (induction xs arbitrary: s t)
  case (Cons x xs)
  obtain st s' where f: "f s x = (st, s')" by fastforce
  obtain t' where g: "g t x = (st, t')" "R s' t'"
    using Cons.prems(1) [of x s t] Cons.prems(2) f by (cases "g t x") auto
  have "fst (for_status f s' xs) = fst (for_status g t' xs) \<and> R (snd (for_status f s' xs)) (snd (for_status g t' xs))"
    using Cons.prems(1) g(2) by (intro Cons.IH) auto
  with f g show ?case by (cases st) simp_all
qed simp

definition same_plan_as :: "SimplePlanner \<Rightarrow> ArenaPlanner \<Rightarrow> bool" where
  "same_plan_as s p \<longleftrightarrow> s_alloc_node s = alloc_node p \<and> s_dealloc_node s = dealloc_node p \<and>
     actual_tensor_id p = Map.empty \<and> \<not> preserve_all_tensors p"

lemma allocate_same:
  assumes "same_plan_as s p"
  shows "fst (simple_allocate s n t) = fst (plan_allocate p n t) \<and> same_plan_as (snd (simple_allocate s n t)) (snd (plan_allocate p n t))"
  using assms by (simp add: simple_allocate_def plan_allocate_def same_plan_as_def)

lemma deallocate_same:
  assumes "same_plan_as s p"
  shows "fst (simple_deallocate s n t) = fst (plan_deallocate p n t) \<and> same_plan_as (snd (simple_deallocate s n t)) (snd (plan_deallocate p n t))"
  using assms by (simp add: simple_deallocate_def plan_deallocate_def same_plan_as_def)

lemma queue_same [simp]: "same_plan_as s (queue_tensor p i t) = same_plan_as s p"
  by (simp add: same_plan_as_def queue_tensor_def)

lemma use_same:
  assumes "same_plan_as (fst s) (fst p) \<and> snd s = snd p"
  shows "fst (simple_use i s t) = fst (plan_use i p t) \<and>
    same_plan_as (fst (snd (simple_use i s t))) (fst (snd (plan_use i p t))) \<and> snd (snd (simple_use i s t)) = snd (snd (plan_use i p t))"
proof -
  obtain s1 rc p1 where sp: "s = (s1, rc)" "p = (p1, rc)" using assms by (cases s; cases p) auto
  have r: "FindSharedTensor p1 t = t" using assms sp by (simp add: same_plan_as_def FindSharedTensor_def)
  show ?thesis
    using deallocate_same [of s1 p1 "int i" t] assms
    by (auto simp: simple_use_def plan_use_def sp r Let_def split: prod.splits)
qed

lemma node_same:
  assumes sp: "same_plan_as (fst s) (fst p) \<and> snd s = snd p"
    and o': "\<forall>t \<in> set (node_outputs (nodes g ! i)). t \<noteq> kTfLiteOptionalTensor"
  shows "fst (simple_node g s i) = fst (plan_node g p i) \<and>
    same_plan_as (fst (snd (simple_node g s i))) (fst (snd (plan_node g p i))) \<and> snd (snd (simple_node g s i)) = snd (snd (plan_node g p i))"
proof -
  obtain s1 rc p1 where e: "s = (s1, rc)" "p = (p1, rc)" using sp by (cases s; cases p) auto
  let ?fs = "for_status (\<lambda>p. simple_allocate p (int i)) s1 (node_outputs (nodes g ! i))"
  let ?fp = "for_status (plan_output i) p1 (node_outputs (nodes g ! i))"
  have "fst ?fs = fst ?fp \<and> same_plan_as (snd ?fs) (snd ?fp)"
    using o' sp e allocate_same [of _ "queue_tensor _ i _"] by (intro for_status_related) (auto simp: plan_output_def)
  moreover obtain st s2 where fs: "?fs = (st, s2)" by fastforce
  moreover obtain st' p2 where fp: "?fp = (st', p2)" by fastforce
  ultimately have r: "st' = st" "same_plan_as s2 p2" by simp_all
  let ?us = "for_status (simple_use i) (s2, rc) (node_inputs (nodes g ! i))"
  let ?up = "for_status (plan_use i) (p2, rc) (node_inputs (nodes g ! i))"
  have "fst ?us = fst ?up \<and> (\<lambda>s p. same_plan_as (fst s) (fst p) \<and> snd s = snd p) (snd ?us) (snd ?up)"
    using r(2) use_same by (intro for_status_related) auto
  then show ?thesis
    using fs fp r sp unfolding simple_node_def plan_node_def e by (auto simp: same_plan_as_def)
qed

definition same_counts :: "SimplePlanner \<times> int list \<Rightarrow> ArenaPlanner \<Rightarrow> bool" where
  "same_counts s p \<longleftrightarrow> same_plan_as (fst s) (p\<lparr>actual_tensor_id := Map.empty\<rparr>) \<and> snd s = refcounts p"

lemma input_same:
  assumes "same_counts s p"
  shows "fst (simple_input s t) = fst (plan_input p t) \<and> same_counts (snd (simple_input s t)) (snd (plan_input p t))"
  using assms
  by (auto simp: simple_input_def plan_input_def simple_allocate_def plan_allocate_def same_counts_def same_plan_as_def
      queue_tensor_def ensure_status_def split: prod.splits)

lemma variable_same:
  assumes "same_counts s p"
  shows "fst (simple_variable s t) = fst (plan_variable p t) \<and> same_counts (snd (simple_variable s t)) (snd (plan_variable p t))"
  using assms
  by (auto simp: simple_variable_def plan_variable_def simple_allocate_def plan_allocate_def same_counts_def same_plan_as_def
      queue_tensor_def ensure_status_def Let_def split: prod.splits)

definition no_sharing :: "GraphInfo \<Rightarrow> bool" where
  "no_sharing g \<longleftrightarrow> (\<forall>n \<in> set (nodes g). inplace_operator n = kTfLiteInplaceOpNone)"

lemma IdentifyInPlaceTensors_none:
  assumes "no_sharing g"
  shows "IdentifyInPlaceTensors p g = p\<lparr>actual_tensor_id := Map.empty\<rparr>"
proof -
  have "foldl (identify_one g) q ns = q" if "\<forall>n \<in> set ns. inplace_operator n = kTfLiteInplaceOpNone" for q ns
    using that by (induction ns arbitrary: q) (simp_all add: identify_one_def)
  with assms show ?thesis by (simp add: IdentifyInPlaceTensors_def no_sharing_def)
qed

lemma plans_agree:
  assumes ok: "graph_ok g" and no: "no_sharing g" and pr: "\<not> preserve_all_tensors a"
    and o': "\<forall>n \<in> set (nodes g). kTfLiteOptionalTensor \<notin> set (node_outputs n)"
  shows "\<exists>p' a' h'. Simple_PlanAllocations p g h = (kTfLiteOk, p', h') \<and> PlanAllocations a g = (kTfLiteOk, a') \<and>
    s_alloc_node p' = alloc_node a' \<and> s_dealloc_node p' = dealloc_node a' \<and> FindSharedTensor a' = (\<lambda>t. t)"
proof -
  obtain a' where a': "PlanAllocations a g = (kTfLiteOk, a')" using PlanAllocations_planned [OF ok, of a] by blast
  let ?n = "num_tensors g"
  define a2 where "a2 = a\<lparr>arena := snd (ClearPlan (arena a)), persistent_arena := snd (ClearPlan (persistent_arena a)),
    allocs := replicate ?n alloc_reset, last_active_node := kLastActiveNodeUndefined,
    alloc_node := replicate ?n kNodeNotAssigned, dealloc_node := replicate ?n kNodeNotAssigned,
    nodes_to_tensors := replicate (max (num_execution_nodes g) 1) [],
    refcounts := count_refs (\<lambda>t. t) (replicate ?n 0) (graph_outputs g)\<rparr>"
  have "ensure_status (for_status plan_variable a2 (graph_variables g)) (\<lambda>p3.
        ensure_status (for_status plan_input p3 (graph_inputs g)) (\<lambda>p4.
        let rc = refcounts p4;
            p5 = p4\<lparr>refcounts := count_refs (\<lambda>t. t) (refcounts p4) (all_node_inputs g)\<rparr>;
            p6 = IdentifyInPlaceTensors p5 g;
            rc' = count_refs (FindSharedTensor p6) rc (all_node_inputs g)
        in (case for_status (plan_node g) (p6, rc') [0..<num_execution_nodes g] of
              (st, p7, _) \<Rightarrow> (st, p7)))) = (kTfLiteOk, a')"
    using a' by (simp add: PlanAllocations_def ResetAllocations_Ok Let_def a2_def)
  then obtain a3 a4 where a3: "for_status plan_variable a2 (graph_variables g) = (kTfLiteOk, a3)" and
    a4: "for_status plan_input a3 (graph_inputs g) = (kTfLiteOk, a4)" and
    r: "(let rc = refcounts a4;
            p5 = a4\<lparr>refcounts := count_refs (\<lambda>t. t) (refcounts a4) (all_node_inputs g)\<rparr>;
            p6 = IdentifyInPlaceTensors p5 g;
            rc' = count_refs (FindSharedTensor p6) rc (all_node_inputs g)
        in (case for_status (plan_node g) (p6, rc') [0..<num_execution_nodes g] of
              (st, p7, _) \<Rightarrow> (st, p7))) = (kTfLiteOk, a')"
    unfolding ensure_status_Ok_iff by blast
  define a6 where "a6 = a4\<lparr>refcounts := count_refs (\<lambda>t. t) (refcounts a4) (all_node_inputs g), actual_tensor_id := Map.empty\<rparr>"
  have six: "IdentifyInPlaceTensors (a4\<lparr>refcounts := count_refs (\<lambda>t. t) (refcounts a4) (all_node_inputs g)\<rparr>) g = a6"
    using IdentifyInPlaceTensors_none [OF no] by (simp add: a6_def)
  have id6: "FindSharedTensor a6 = (\<lambda>t. t)" by (simp add: a6_def FindSharedTensor_def fun_eq_iff)
  from r obtain rc where a7: "for_status (plan_node g) (a6, count_refs (\<lambda>t. t) (refcounts a4) (all_node_inputs g))
      [0..<num_execution_nodes g] = (kTfLiteOk, a', rc)"
    unfolding six Let_def id6 by (auto split: prod.splits)
  define p1 where "p1 = p\<lparr>s_allocs := replicate ?n sa_reset, s_alloc_node := replicate ?n kNodeNotAssigned,
    s_dealloc_node := replicate ?n kNodeNotAssigned\<rparr>"
  define rc0 where "rc0 = count_refs (\<lambda>t. t) (replicate ?n 0) (graph_outputs g)"
  have "same_counts (p1, rc0) a2" using pr by (simp add: same_counts_def same_plan_as_def p1_def rc0_def a2_def)
  with variable_same obtain s3 where s3: "for_status simple_variable (p1, rc0) (graph_variables g) = (kTfLiteOk, s3)" "same_counts s3 a3"
    using for_status_related [of "graph_variables g" same_counts simple_variable plan_variable "(p1, rc0)" a2] a3
    by (cases "for_status simple_variable (p1, rc0) (graph_variables g)") auto
  with input_same obtain p4 rc4 where s4: "for_status simple_input s3 (graph_inputs g) = (kTfLiteOk, p4, rc4)" "same_counts (p4, rc4) a4"
    using for_status_related [of "graph_inputs g" same_counts simple_input plan_input s3 a3] a4
    by (cases "for_status simple_input s3 (graph_inputs g)") auto
  let ?R = "\<lambda>s p. same_plan_as (fst s) (fst p) \<and> snd s = snd p"
  let ?rc = "count_refs (\<lambda>t. t) rc4 (all_node_inputs g)"
  have "?R (p4, ?rc) (a6, count_refs (\<lambda>t. t) (refcounts a4) (all_node_inputs g))"
    using s4(2) by (simp add: same_counts_def same_plan_as_def a6_def)
  moreover have "fst (simple_node g s i) = fst (plan_node g q i) \<and> ?R (snd (simple_node g s i)) (snd (plan_node g q i))"
    if "i \<in> set [0..<num_execution_nodes g]" "?R s q" for i s q
  proof (rule node_same [OF that(2)])
    show "\<forall>t \<in> set (node_outputs (nodes g ! i)). t \<noteq> kTfLiteOptionalTensor" using o' that(1) nth_mem [of i "nodes g"] by force
  qed
  ultimately have "fst (for_status (simple_node g) (p4, ?rc) [0..<num_execution_nodes g]) = fst (kTfLiteOk, a', rc) \<and>
      ?R (snd (for_status (simple_node g) (p4, ?rc) [0..<num_execution_nodes g])) (snd (kTfLiteOk, a', rc))"
    unfolding a7 [symmetric] by (intro for_status_related) blast+
  then obtain p' rc' where s7: "for_status (simple_node g) (p4, ?rc) [0..<num_execution_nodes g] = (kTfLiteOk, p', rc')" "same_plan_as p' a'"
    by (cases "for_status (simple_node g) (p4, ?rc) [0..<num_execution_nodes g]") auto
  obtain as0 h1 where f0: "fold free_at [0..<length (s_allocs p)] (s_allocs p, h) = (as0, h1)" by fastforce
  have f1: "FreeAllAllocations p h = (p\<lparr>s_allocs := as0\<rparr>, h1)" by (simp add: FreeAllAllocations_def f0)
  have "Simple_PlanAllocations p g h = (kTfLiteOk, p', h1)"
    using s3(1) s4(1) s7(1)
    by (simp add: Simple_PlanAllocations_def Simple_ResetAllocations_def f1 p1_def [symmetric] rc0_def [symmetric] Let_def)
  moreover have "FindSharedTensor a' = (\<lambda>t. t)" using s7(2) by (simp add: same_plan_as_def FindSharedTensor_def fun_eq_iff)
  ultimately show ?thesis using a' s7(2) by (auto simp: same_plan_as_def)
qed

section \<open>The C heap\<close>

text \<open>No block is at the null pointer and no two blocks overlap.\<close>

definition heap_ok :: "heap \<Rightarrow> bool" where
  "heap_ok h \<longleftrightarrow> heap_blocks h nullptr = None \<and>
     (\<forall>q r m n. heap_blocks h q = Some m \<and> heap_blocks h r = Some n \<and> q \<noteq> r \<longrightarrow> ranges_disjoint q m r n)"

definition owned :: "SimpleAlloc list \<Rightarrow> ptr set" where
  "owned as = {q. q \<noteq> nullptr \<and> (\<exists>i < length as. sa_ptr (as ! i) = q)}"

text \<open>
  Each record that points somewhere points to a live block of its size, and no two to the same.
\<close>

definition mem_ok :: "SimpleAlloc list \<Rightarrow> heap \<Rightarrow> bool" where
  "mem_ok as h \<longleftrightarrow> heap_ok h \<and>
     (\<forall>i < length as. sa_ptr (as ! i) \<noteq> nullptr \<longrightarrow> sa_size (as ! i) \<noteq> 0 \<and> heap_blocks h (sa_ptr (as ! i)) = Some (sa_size (as ! i))) \<and>
     (\<forall>i < length as. \<forall>j < length as. i \<noteq> j \<and> sa_ptr (as ! i) \<noteq> nullptr \<longrightarrow> sa_ptr (as ! i) \<noteq> sa_ptr (as ! j))"

text \<open>The blocks that belong to nobody here.\<close>

definition foreign :: "SimpleAlloc list \<Rightarrow> heap \<Rightarrow> ptr \<rightharpoonup> size_t" where
  "foreign as h = (\<lambda>q. if q \<in> owned as then None else heap_blocks h q)"

lemma mem_okD:
  assumes "mem_ok as h"
  shows "heap_ok h" "i < length as \<Longrightarrow> sa_ptr (as ! i) \<noteq> nullptr \<Longrightarrow> heap_blocks h (sa_ptr (as ! i)) = Some (sa_size (as ! i))"
    "i < length as \<Longrightarrow> sa_ptr (as ! i) \<noteq> nullptr \<Longrightarrow> sa_size (as ! i) \<noteq> 0"
    "i < length as \<Longrightarrow> j < length as \<Longrightarrow> i \<noteq> j \<Longrightarrow> sa_ptr (as ! i) \<noteq> nullptr \<Longrightarrow> sa_ptr (as ! i) \<noteq> sa_ptr (as ! j)"
  using assms unfolding mem_ok_def by blast+

lemma owned_nth: "q \<in> owned as \<longleftrightarrow> q \<noteq> nullptr \<and> (\<exists>i < length as. sa_ptr (as ! i) = q)"
  by (simp add: owned_def)

lemma heap_ok_free: "heap_ok h \<Longrightarrow> heap_ok (free h q)"
  unfolding heap_ok_def free_def by auto

lemma heap_ok_add:
  assumes "heap_ok h" "q \<noteq> nullptr \<longrightarrow> fresh_block h q n"
  shows "heap_ok (block_add h q n)"
  using assms unfolding heap_ok_def block_add_def fresh_block_def by (auto intro: ranges_disjoint_sym)

lemma free_ok:
  assumes m: "mem_ok as h" and i: "i < length as" and r: "sa_free (as ! i, h) = (a, h')"
  shows "mem_ok (as[i := a]) h' \<and> foreign (as[i := a]) h' = foreign as h \<and> a = sa_reset"
proof -
  let ?q = "sa_ptr (as ! i)"
  have a: "a = sa_reset" "h' = (if ?q \<noteq> nullptr then free h ?q else h)" using r by (simp_all add: sa_free_def)
  have null: "sa_ptr a = nullptr" by (simp add: a sa_reset_def)
  have bl: "heap_blocks h' = (\<lambda>x. if x = ?q \<and> ?q \<noteq> nullptr then None else heap_blocks h x)"
    by (auto simp: a free_def fun_eq_iff)
  have "heap_ok h'" using mem_okD(1) [OF m] heap_ok_free by (simp add: a)
  moreover have "heap_blocks h' (sa_ptr (as[i := a] ! j)) = Some (sa_size (as[i := a] ! j)) \<and> sa_size (as[i := a] ! j) \<noteq> 0"
    if "j < length as" "sa_ptr (as[i := a] ! j) \<noteq> nullptr" for j
    using that null mem_okD(2,3) [OF m, of j] mem_okD(4) [OF m, of j i] i by (cases "j = i") (auto simp: bl)
  moreover have "sa_ptr (as[i := a] ! j) \<noteq> sa_ptr (as[i := a] ! k)"
    if "j < length as" "k < length as" "j \<noteq> k" "sa_ptr (as[i := a] ! j) \<noteq> nullptr" for j k
    using that null mem_okD(4) [OF m, of j k] i by (cases "j = i"; cases "k = i") auto
  ultimately have "mem_ok (as[i := a]) h'" unfolding mem_ok_def by auto
  moreover have "q \<in> owned (as[i := a]) \<longleftrightarrow> q \<in> owned as \<and> q \<noteq> ?q" for q
  proof
    assume "q \<in> owned (as[i := a])"
    then obtain j where j: "q \<noteq> nullptr" "j < length as" "sa_ptr (as[i := a] ! j) = q" by (auto simp: owned_nth)
    then have "j \<noteq> i" using null i by auto
    with j mem_okD(4) [OF m j(2) i] show "q \<in> owned as \<and> q \<noteq> ?q" by (auto simp: owned_nth)
  next
    assume "q \<in> owned as \<and> q \<noteq> ?q"
    then obtain j where j: "q \<noteq> nullptr" "j < length as" "sa_ptr (as ! j) = q" "j \<noteq> i" by (auto simp: owned_nth)
    then have "sa_ptr (as[i := a] ! j) = q" by simp
    with j show "q \<in> owned (as[i := a])" by (auto simp: owned_nth)
  qed
  then have "foreign (as[i := a]) h' = foreign as h"
    using i by (auto simp: foreign_def bl fun_eq_iff owned_nth)
  ultimately show ?thesis using a by simp
qed

lemma alloc_ok:
  assumes P: "valid_platform P" and m: "mem_ok as h" and i: "i < length as" "sa_ptr (as ! i) = nullptr"
    and r: "sa_alloc P n node (as ! i, h) = (ok, a, h')"
  shows "mem_ok (as[i := a]) h' \<and> foreign (as[i := a]) h' = foreign as h \<and> ok = (n \<noteq> 0) \<and> (n \<noteq> 0 \<longrightarrow> sa_size a = n)"
proof (cases "n = 0")
  case True
  with r have "a = as ! i" "h' = h" "\<not> ok" by (simp_all add: sa_alloc_def)
  with True m show ?thesis by simp
next
  case False
  let ?q = "malloc_at P h n"
  have a: "ok" "a = \<lparr>sa_size = n, sa_node = node, sa_ptr = ?q\<rparr>" "h' = block_add h ?q n"
    using r False by (simp_all add: sa_alloc_def Let_def)
  have fresh: "?q \<noteq> nullptr \<longrightarrow> fresh_block h ?q n" using valid_platformD(3) [OF P] by simp
  have new: "heap_blocks h ?q = None" if "?q \<noteq> nullptr" using fresh that fresh_block_None by blast
  have bl: "heap_blocks h' = (\<lambda>x. if x = ?q \<and> ?q \<noteq> nullptr then Some n else heap_blocks h x)"
    by (auto simp: a block_add_def fun_eq_iff)
  have other: "sa_ptr (as ! j) \<noteq> ?q" if "j < length as" "?q \<noteq> nullptr" for j
    using mem_okD(2) [OF m that(1)] new that(2) by auto
  have "heap_ok h'" using mem_okD(1) [OF m] heap_ok_add fresh by (simp add: a)
  moreover have "heap_blocks h' (sa_ptr (as[i := a] ! j)) = Some (sa_size (as[i := a] ! j)) \<and> sa_size (as[i := a] ! j) \<noteq> 0"
    if "j < length as" "sa_ptr (as[i := a] ! j) \<noteq> nullptr" for j
    using that mem_okD(2,3) [OF m, of j] other [of j] i False by (cases "j = i") (auto simp: bl a(2))
  moreover have "sa_ptr (as[i := a] ! j) \<noteq> sa_ptr (as[i := a] ! k)"
    if "j < length as" "k < length as" "j \<noteq> k" "sa_ptr (as[i := a] ! j) \<noteq> nullptr" for j k
    using that mem_okD(4) [OF m, of j k] other [of j] other [of k] i by (cases "j = i"; cases "k = i") (auto simp: a(2))
  ultimately have "mem_ok (as[i := a]) h'" unfolding mem_ok_def by auto
  moreover have "q \<in> owned (as[i := a]) \<longleftrightarrow> q \<in> owned as \<or> q = ?q \<and> ?q \<noteq> nullptr" for q
  proof
    assume "q \<in> owned (as[i := a])"
    then obtain j where j: "q \<noteq> nullptr" "j < length as" "sa_ptr (as[i := a] ! j) = q" by (auto simp: owned_nth)
    then show "q \<in> owned as \<or> q = ?q \<and> ?q \<noteq> nullptr" using i by (cases "j = i") (auto simp: owned_nth a(2))
  next
    assume "q \<in> owned as \<or> q = ?q \<and> ?q \<noteq> nullptr"
    then obtain j where j: "q \<noteq> nullptr" "j < length as" "sa_ptr (as ! j) = q \<and> j \<noteq> i \<or> j = i \<and> q = ?q"
      using i by (auto simp: owned_nth)
    then have "sa_ptr (as[i := a] ! j) = q" by (auto simp: a(2))
    with j show "q \<in> owned (as[i := a])" by (auto simp: owned_nth)
  qed
  then have "foreign (as[i := a]) h' = foreign as h"
    using new other by (auto simp: foreign_def bl fun_eq_iff owned_nth)
  ultimately show ?thesis using a False by simp
qed

lemma place_ok:
  assumes P: "valid_platform P" and m: "mem_ok as h" and i: "i < length as" and r: "place P tns node (as ! i, h) = (ok, a, h')"
  shows "mem_ok (as[i := a]) h' \<and> foreign (as[i := a]) h' = foreign as h \<and>
    (allocation_type tns = kTfLiteArenaRw \<longrightarrow> ok = (bytes tns \<noteq> 0) \<and> (bytes tns \<noteq> 0 \<longrightarrow> sa_size a = bytes tns))"
proof -
  have null: "sa_ptr (as ! i) = nullptr" if "sa_size (as ! i) = 0" using mem_okD(3) [OF m i] that by blast
  consider "allocation_type tns = kTfLiteArenaRw" "sa_size (as ! i) \<noteq> 0"
    | "allocation_type tns = kTfLiteArenaRw \<or> allocation_type tns = kTfLiteArenaRwPersistent" "sa_size (as ! i) = 0"
    | "allocation_type tns \<noteq> kTfLiteArenaRw" "\<not> (allocation_type tns = kTfLiteArenaRwPersistent \<and> sa_size (as ! i) = 0)" by blast
  then show ?thesis
  proof cases
    case 1
    obtain a1 h1 where f: "sa_free (as ! i, h) = (a1, h1)" by fastforce
    note o1 = free_ok [OF m i f]
    have "sa_alloc P (bytes tns) node (as[i := a1] ! i, h1) = (ok, a, h')" using 1 r i f by (simp add: place_def)
    moreover have "sa_ptr (as[i := a1] ! i) = nullptr" using o1 i by (simp add: sa_reset_def)
    ultimately show ?thesis using alloc_ok [OF P, of "as[i := a1]" h1 i "bytes tns" node ok a h'] o1 i by auto
  next
    case 2
    then have "sa_alloc P (bytes tns) node (as ! i, h) = (ok, a, h')" using r by (auto simp: place_def)
    from alloc_ok [OF P m i null [OF 2(2)] this] show ?thesis by simp
  next
    case 3
    then have "a = as ! i" "h' = h" using r by (auto simp: place_def)
    with 3 m show ?thesis by simp
  qed
qed

text \<open>What holds after the tensors before \<open>k\<close> have been visited.\<close>

definition executed ::
  "int list \<Rightarrow> int \<Rightarrow> int \<Rightarrow> TfLiteTensor list \<Rightarrow> (ptr \<rightharpoonup> size_t) \<Rightarrow> nat \<Rightarrow> SimpleAlloc list \<times> TfLiteTensor list \<times> heap \<Rightarrow> bool" where
  "executed planned_at f l ts0 F k = (\<lambda>(as, ts, h).
     length as = length ts0 \<and> length ts = length ts0 \<and> mem_ok as h \<and> foreign as h = F \<and>
     (\<forall>j. k \<le> j \<and> j < length ts0 \<longrightarrow> ts ! j = ts0 ! j) \<and>
     (\<forall>j < k. f \<le> planned_at ! j \<and> planned_at ! j \<le> l \<and> allocation_type (ts0 ! j) = kTfLiteArenaRw \<and> bytes (ts0 ! j) \<noteq> 0 \<longrightarrow>
        data_ptr (ts ! j) = sa_ptr (as ! j) \<and> sa_size (as ! j) = bytes (ts0 ! j)))"

lemma execute_one_step:
  assumes P: "valid_platform P" and e: "executed planned_at f l ts0 F k (as, ts, h)" and k: "k < length ts0"
  shows "\<exists>s'. execute_one P planned_at f l (as, ts, h) k = (kTfLiteOk, s') \<and> executed planned_at f l ts0 F (Suc k) s'"
proof -
  let ?in = "f \<le> planned_at ! k \<and> planned_at ! k \<le> l"
  have len: "length as = length ts0" "length ts = length ts0" and m: "mem_ok as h" "foreign as h = F"
    and rest: "\<And>j. k \<le> j \<Longrightarrow> j < length ts0 \<Longrightarrow> ts ! j = ts0 ! j"
    and before: "\<And>j. j < k \<Longrightarrow> f \<le> planned_at ! j \<and> planned_at ! j \<le> l \<and> allocation_type (ts0 ! j) = kTfLiteArenaRw \<and> bytes (ts0 ! j) \<noteq> 0 \<Longrightarrow>
        data_ptr (ts ! j) = sa_ptr (as ! j) \<and> sa_size (as ! j) = bytes (ts0 ! j)"
    using e unfolding executed_def by auto
  obtain ok a h' where r: "(if ?in then place P (ts ! k) (planned_at ! k) (as ! k, h) else (False, as ! k, h)) = (ok, a, h')"
    by (cases "if ?in then place P (ts ! k) (planned_at ! k) (as ! k, h) else (False, as ! k, h)") auto
  have p: "mem_ok (as[k := a]) h' \<and> foreign (as[k := a]) h' = F \<and>
      (?in \<and> allocation_type (ts0 ! k) = kTfLiteArenaRw \<and> bytes (ts0 ! k) \<noteq> 0 \<longrightarrow> ok \<and> sa_size a = bytes (ts0 ! k))"
  proof (cases ?in)
    case True
    with r have "place P (ts ! k) (planned_at ! k) (as ! k, h) = (ok, a, h')" by simp
    from place_ok [OF P m(1) _ this] show ?thesis using len k m(2) rest [of k] by auto
  next
    case False
    with r have "a = as ! k" "h' = h" by auto
    with False m show ?thesis by auto
  qed
  define ts' where "ts' = (if ok then snd (Simple_ResolveTensorAllocation (as[k := a]) k ts) else ts)"
  have "execute_one P planned_at f l (as, ts, h) k = (kTfLiteOk, as[k := a], ts', h')"
    unfolding execute_one_def prod.case r by (simp add: ts'_def Simple_ResolveTensorAllocation_def Let_def)
  moreover have other: "length ts' = length ts" "\<And>j. j \<noteq> k \<Longrightarrow> ts' ! j = ts ! j"
    by (auto simp: ts'_def Simple_ResolveTensorAllocation_def Let_def)
  have "data_ptr (ts' ! k) = sa_ptr a"
    if "?in" "allocation_type (ts0 ! k) = kTfLiteArenaRw" "bytes (ts0 ! k) \<noteq> 0"
    using that p rest [of k] k len by (simp add: ts'_def Simple_ResolveTensorAllocation_def Let_def)
  then have "executed planned_at f l ts0 F (Suc k) (as[k := a], ts', h')"
    unfolding executed_def prod.case
    using len p other rest before k by (auto simp: less_Suc_eq)
  ultimately show ?thesis by blast
qed

lemma execute_loop:
  assumes P: "valid_platform P" and e: "executed planned_at f l ts0 F 0 s" and k: "k \<le> length ts0"
  shows "\<exists>s'. for_status (execute_one P planned_at f l) s [0..<k] = (kTfLiteOk, s') \<and> executed planned_at f l ts0 F k s'"
  using k
proof (induction k)
  case (Suc k)
  then obtain s1 where s1: "for_status (execute_one P planned_at f l) s [0..<k] = (kTfLiteOk, s1)" "executed planned_at f l ts0 F k s1"
    by auto
  obtain as ts h where "s1 = (as, ts, h)" by (cases s1) auto
  with execute_one_step [OF P, of planned_at f l ts0 F k as ts h] s1(2) Suc.prems obtain s2 where
    "execute_one P planned_at f l s1 k = (kTfLiteOk, s2)" "executed planned_at f l ts0 F (Suc k) s2" by auto
  with s1(1) show ?case by (auto simp: for_status_append_Ok)
qed (use e in simp)

lemma simple_temporaries_allocs: "s_allocs (simple_temporaries g f l p) = s_allocs p"
proof -
  have "s_allocs (foldl (simple_temporary i) p ts) = s_allocs p" for i p ts
    by (induction ts arbitrary: p) (simp_all add: simple_temporary_def)
  then have "s_allocs (foldl (\<lambda>p i. foldl (simple_temporary i) p (node_temporaries (nodes g ! i))) p is) = s_allocs p" for "is"
    by (induction "is" arbitrary: p) simp_all
  then show ?thesis by (simp add: simple_temporaries_def)
qed

lemma mem_ok_extend:
  assumes "mem_ok as h"
  shows "mem_ok (as @ replicate n sa_reset) h" "foreign (as @ replicate n sa_reset) h = foreign as h"
proof -
  have null: "sa_ptr ((as @ replicate n sa_reset) ! i) = nullptr" if "i < length as + n" "\<not> i < length as" for i
    using that by (simp add: nth_append sa_reset_def)
  have old: "(as @ replicate n sa_reset) ! i = as ! i" if "i < length as" for i using that by (simp add: nth_append)
  show "mem_ok (as @ replicate n sa_reset) h"
    unfolding mem_ok_def
  proof (intro conjI allI impI)
    show "heap_ok h" by (rule mem_okD(1) [OF assms])
    fix i assume i: "i < length (as @ replicate n sa_reset)" "sa_ptr ((as @ replicate n sa_reset) ! i) \<noteq> nullptr"
    then have il: "i < length as" using null [of i] by auto
    with i(2) show "sa_size ((as @ replicate n sa_reset) ! i) \<noteq> 0"
      "heap_blocks h (sa_ptr ((as @ replicate n sa_reset) ! i)) = Some (sa_size ((as @ replicate n sa_reset) ! i))"
      using mem_okD(2,3) [OF assms il] by (simp_all add: old)
  next
    fix i j assume a: "i < length (as @ replicate n sa_reset)" "j < length (as @ replicate n sa_reset)"
      "i \<noteq> j \<and> sa_ptr ((as @ replicate n sa_reset) ! i) \<noteq> nullptr"
    then have il: "i < length as" using null [of i] by auto
    show "sa_ptr ((as @ replicate n sa_reset) ! i) \<noteq> sa_ptr ((as @ replicate n sa_reset) ! j)"
    proof (cases "j < length as")
      case True
      with mem_okD(4) [OF assms il True] a il show ?thesis by (simp add: old)
    next
      case False
      with null [of j] a show ?thesis by auto
    qed
  qed
  have "owned (as @ replicate n sa_reset) = owned as"
  proof -
    have "q \<in> owned (as @ replicate n sa_reset) \<longleftrightarrow> q \<in> owned as" for q
      unfolding owned_nth using null old by (metis length_append length_replicate trans_less_add1)
    then show ?thesis by blast
  qed
  then show "foreign (as @ replicate n sa_reset) h = foreign as h" by (simp add: foreign_def)
qed

text \<open>Freeing every record in turn.\<close>

lemma free_loop:
  assumes m: "mem_ok as h" and k: "k \<le> length as"
  shows "\<exists>as' h'. fold free_at [0..<k] (as, h) = (as', h') \<and> length as' = length as \<and> mem_ok as' h' \<and>
    foreign as' h' = foreign as h \<and> (\<forall>i < k. as' ! i = sa_reset)"
  using k
proof (induction k)
  case (Suc k)
  then obtain as1 h1 where l: "fold free_at [0..<k] (as, h) = (as1, h1)" "length as1 = length as" "mem_ok as1 h1"
    "foreign as1 h1 = foreign as h" "\<forall>i < k. as1 ! i = sa_reset" by auto
  obtain a h2 where f: "sa_free (as1 ! k, h1) = (a, h2)" by fastforce
  have "mem_ok (as1[k := a]) h2 \<and> foreign (as1[k := a]) h2 = foreign as1 h1 \<and> a = sa_reset"
    using free_ok [OF l(3) _ f] l(2) Suc.prems by auto
  moreover have "fold free_at [0..<Suc k] (as, h) = (as1[k := a], h2)" using l(1) f by (simp add: free_at_def [of k])
  ultimately show ?case using l Suc.prems by (auto simp: less_Suc_eq)
qed (use m in simp)

lemma all_reset: "\<forall>i < length as. as ! i = sa_reset \<Longrightarrow> foreign as h = heap_blocks h"
  by (auto simp: foreign_def owned_nth fun_eq_iff sa_reset_def)

section \<open>Properties\<close>

text \<open>C19: On a well-formed graph without in-place operators, where every node has all its outputs, the simple planner
  plans what an arena planner plans that is not asked to preserve all tensors: both succeed, and give every tensor the
  same first and last node. (An arena planner that preserves all tensors releases none, and the simple planner has no
  such option; no output of a node may be \<open>kTfLiteOptionalTensor\<close>.)\<close>

theorem Simple_PlanAllocations_agrees:
  assumes "graph_ok g" "no_sharing g" "\<not> preserve_all_tensors a"
    and "\<forall>n \<in> set (nodes g). kTfLiteOptionalTensor \<notin> set (node_outputs n)"
  shows "\<exists>p' a' h'. Simple_PlanAllocations p g h = (kTfLiteOk, p', h') \<and> PlanAllocations a g = (kTfLiteOk, a') \<and>
    s_alloc_node p' = alloc_node a' \<and> s_dealloc_node p' = dealloc_node a'"
  using plans_agree [OF assms, of p h] by blast

theorem Simple_PlanAllocations_agrees_witness:
  "\<exists>p' h'. Simple_PlanAllocations new_simple_planner line_graph \<lparr>heap_bytes = (\<lambda>_. 0), heap_blocks = Map.empty\<rparr> = (kTfLiteOk, p', h') \<and>
     s_alloc_node p' = alloc_node line_planner \<and> s_dealloc_node p' = dealloc_node line_planner"
proof -
  have "no_sharing line_graph" "\<not> preserve_all_tensors (new_planner False 64)"
    "\<forall>n \<in> set (nodes line_graph). kTfLiteOptionalTensor \<notin> set (node_outputs n)"
    by (simp_all add: no_sharing_def line_graph_def plain_node_def new_planner_def)
  from Simple_PlanAllocations_agrees [OF line_graph_ok(1) this] line_graph_plan show ?thesis by fastforce
qed

text \<open>C9: Executing the plan gives every tensor a block of its own.  Starting from records that own their blocks, it
  succeeds and leaves records that own theirs; every other block of the heap is as before, so that
  nothing leaks and nothing that belongs to someone else is freed; and every tensor of the first kind
  of arena whose planned node is in the executed range, and that is not empty and has data afterwards (its
  pointer is not null, as it is when \<open>malloc\<close> fails), points to a live block of its size, and no two of them
  overlap.\<close>

theorem Simple_ExecuteAllocations_owns:
  assumes P: "valid_platform P" and m: "mem_ok (s_allocs p) h" and l: "length (s_allocs p) \<le> num_tensors g"
    and r: "Simple_ExecuteAllocations P fst_node lst_node p g h = (st, p', g', h')"
  defines "placed \<equiv> \<lambda>t. t < num_tensors g \<and> fst_node \<le> s_alloc_node p' ! t \<and> s_alloc_node p' ! t \<le> lst_node \<and>
    allocation_type (tensors g ! t) = kTfLiteArenaRw \<and> bytes (tensors g ! t) \<noteq> 0 \<and> data_ptr (tensors g' ! t) \<noteq> nullptr"
  shows "st = kTfLiteOk \<and> mem_ok (s_allocs p') h' \<and> foreign (s_allocs p') h' = foreign (s_allocs p) h \<and>
    (\<forall>t. placed t \<longrightarrow> heap_blocks h' (data_ptr (tensors g' ! t)) = Some (bytes (tensors g ! t))) \<and>
    (\<forall>t u. placed t \<and> placed u \<and> t \<noteq> u \<longrightarrow>
       ranges_disjoint (data_ptr (tensors g' ! t)) (bytes (tensors g ! t)) (data_ptr (tensors g' ! u)) (bytes (tensors g ! u)))"
proof -
  define p2 where "p2 = simple_temporaries g fst_node lst_node (p\<lparr>s_alloc_node := resize_list (num_tensors g) kNodeNotAssigned (s_alloc_node p),
    s_dealloc_node := resize_list (num_tensors g) kNodeNotAssigned (s_dealloc_node p),
    s_allocs := resize_list (num_tensors g) sa_reset (s_allocs p)\<rparr>)"
  let ?F = "foreign (s_allocs p) h"
  have as2: "s_allocs p2 = s_allocs p @ replicate (num_tensors g - length (s_allocs p)) sa_reset"
    using l by (simp add: p2_def simple_temporaries_allocs resize_list_def)
  have "executed (s_alloc_node p2) fst_node lst_node (tensors g) ?F 0 (s_allocs p2, tensors g, h)"
    unfolding executed_def as2 using mem_ok_extend [OF m] l by simp
  from execute_loop [OF P this, of "num_tensors g"] obtain as ts h2 where
    run: "for_status (execute_one P (s_alloc_node p2) fst_node lst_node) (s_allocs p2, tensors g, h) [0..<num_tensors g] = (kTfLiteOk, as, ts, h2)" and
    ex: "executed (s_alloc_node p2) fst_node lst_node (tensors g) ?F (num_tensors g) (as, ts, h2)" by auto
  have res: "st = kTfLiteOk" "p' = p2\<lparr>s_allocs := as\<rparr>" "g' = g\<lparr>tensors := ts\<rparr>" "h' = h2"
    using r run by (simp_all add: Simple_ExecuteAllocations_def p2_def [symmetric] Let_def)
  have m2: "mem_ok as h'" and F: "foreign as h' = ?F" and len: "length as = num_tensors g"
    using ex by (simp_all add: executed_def res)
  have pl: "data_ptr (ts ! t) = sa_ptr (as ! t)" "sa_size (as ! t) = bytes (tensors g ! t)" "t < length as" "sa_ptr (as ! t) \<noteq> nullptr"
    if "placed t" for t
    using ex that len unfolding executed_def placed_def by (auto simp: res)
  have bl: "heap_blocks h' (data_ptr (ts ! t)) = Some (bytes (tensors g ! t))" if "placed t" for t
    using mem_okD(2) [OF m2 pl(3,4) [OF that]] pl(1,2) [OF that] by simp
  have "ranges_disjoint (data_ptr (ts ! t)) (bytes (tensors g ! t)) (data_ptr (ts ! u)) (bytes (tensors g ! u))"
    if "placed t" "placed u" "t \<noteq> u" for t u
  proof -
    have "data_ptr (ts ! t) \<noteq> data_ptr (ts ! u)"
      using mem_okD(4) [OF m2 pl(3) [OF that(1)] pl(3) [OF that(2)] that(3) pl(4) [OF that(1)]] pl(1) that(1,2) by simp
    with mem_okD(1) [OF m2] bl that(1,2) show ?thesis unfolding heap_ok_def by blast
  qed
  with m2 F bl show ?thesis by (simp add: res)
qed

definition two_block_platform :: platform where
  "two_block_platform = \<lparr>TF_LITE_HAS_ALIGNED_ALLOC = False, aligned_alloc_at = (\<lambda>_ _ _. nullptr),
     malloc_at = (\<lambda>h n. if 4096 < n then nullptr else if heap_blocks h = Map.empty then 4096
                        else if heap_blocks h = [4096 \<mapsto> 16] then 8192 else nullptr)\<rparr>"

lemma two_block_platform_valid: "valid_platform two_block_platform"
proof -
  have "fresh_block h 8192 n" if "heap_blocks h = [4096 \<mapsto> 16]" "n \<le> 4096" for h n
    using that by (auto simp: fresh_block_def ranges_disjoint_def word_le_unat)
  moreover have "fresh_block h 4096 n" if "heap_blocks h = Map.empty" "n \<le> 4096" for h n
    using that by (auto simp: fresh_block_def word_le_unat)
  ultimately show ?thesis by (simp add: valid_platform_def two_block_platform_def not_less)
qed

theorem Simple_ExecuteAllocations_owns_witness:
  "case Simple_ExecuteAllocations two_block_platform 0 3
       \<lparr>s_allocs = [], s_alloc_node = [0, 0, 1], s_dealloc_node = [kNodeNotAssigned, 1, kNodeNotAssigned]\<rparr>
       line_graph \<lparr>heap_bytes = (\<lambda>_. 0), heap_blocks = Map.empty\<rparr> of
     (st, p', g', h') \<Rightarrow> st = kTfLiteOk \<and> mem_ok (s_allocs p') h' \<and>
       heap_blocks h' (data_ptr (tensors g' ! 1)) = Some 40 \<and>
       ranges_disjoint (data_ptr (tensors g' ! 0)) 16 (data_ptr (tensors g' ! 1)) 40"
proof -
  let ?p = "\<lparr>s_allocs = [], s_alloc_node = [0, 0, 1], s_dealloc_node = [kNodeNotAssigned, 1, kNodeNotAssigned]\<rparr>"
  let ?h = "\<lparr>heap_bytes = (\<lambda>_. 0 :: byte), heap_blocks = Map.empty\<rparr>"
  have m: "mem_ok (s_allocs ?p) ?h" "length (s_allocs ?p) \<le> num_tensors line_graph"
    by (simp_all add: mem_ok_def heap_ok_def)
  obtain st p' g' h' where r: "Simple_ExecuteAllocations two_block_platform 0 3 ?p line_graph ?h = (st, p', g', h')"
    by (metis prod_cases4)
  then have e: "s_alloc_node p' = [0, 0, 1]" "data_ptr (tensors g' ! 0) = 4096" "data_ptr (tensors g' ! 1) = 8192"
    by (auto simp: Simple_ExecuteAllocations_def Let_def simple_temporaries_def simple_temporary_def line_graph_def plain_node_def
        rw_tensor_def resize_list_def upt_rec execute_one_def place_def sa_alloc_def sa_reset_def two_block_platform_def
        block_add_def Simple_ResolveTensorAllocation_def Let_def numeral_3_eq_3 cong: eval_congs)
  have lg: "num_tensors line_graph = 3" "allocation_type (tensors line_graph ! 0) = kTfLiteArenaRw"
    "allocation_type (tensors line_graph ! 1) = kTfLiteArenaRw" "bytes (tensors line_graph ! 0) = 16" "bytes (tensors line_graph ! 1) = 40"
    by (simp_all add: line_graph_def rw_tensor_def)
  note own = Simple_ExecuteAllocations_owns [OF two_block_platform_valid m r]
  have "heap_blocks h' (data_ptr (tensors g' ! 1)) = Some (bytes (tensors line_graph ! 1))"
    using own [THEN conjunct2, THEN conjunct2, THEN conjunct2, THEN conjunct1, THEN spec [of _ 1]] e lg by simp
  moreover have "ranges_disjoint (data_ptr (tensors g' ! 0)) (bytes (tensors line_graph ! 0)) (data_ptr (tensors g' ! 1)) (bytes (tensors line_graph ! 1))"
    using own [THEN conjunct2, THEN conjunct2, THEN conjunct2, THEN conjunct2, THEN spec [of _ 0], THEN spec [of _ 1]] e lg by simp
  moreover have "st = kTfLiteOk" "mem_ok (s_allocs p') h'" using own by blast+
  ultimately show ?thesis unfolding r lg(4,5) by (simp only: prod.case simp_thms)
qed

text \<open>Resetting frees every block the planner owns, and no other.\<close>

theorem Simple_ResetAllocations_frees:
  assumes m: "mem_ok (s_allocs p) h"
  shows "\<exists>p' h'. Simple_ResetAllocations p g h = (kTfLiteOk, p', h') \<and> s_allocs p' = replicate (num_tensors g) sa_reset \<and>
    heap_blocks h' = foreign (s_allocs p) h"
proof -
  obtain as' h' where l: "fold free_at [0..<length (s_allocs p)] (s_allocs p, h) = (as', h')" "length as' = length (s_allocs p)"
    "foreign as' h' = foreign (s_allocs p) h" "\<forall>i < length (s_allocs p). as' ! i = sa_reset"
    using free_loop [OF m, of "length (s_allocs p)"] by auto
  have "heap_blocks h' = foreign (s_allocs p) h" using all_reset [of as' h'] l(2-4) by simp
  then show ?thesis by (simp add: Simple_ResetAllocations_def FreeAllAllocations_def l(1))
qed

text \<open>
  Releasing frees the blocks and resets their records, and acquiring only reads the records: after a
  release and an acquisition no tensor of the first kind of arena has memory.
\<close>

lemma release_loop:
  assumes "k \<le> length ts" "length as = length ts"
  shows "\<exists>as' ts' h'. fold release_at [0..<k] (as, ts, h) = (as', ts', h') \<and> length as' = length as \<and> length ts' = length ts \<and>
    (\<forall>i < length ts. allocation_type (ts' ! i) = allocation_type (ts ! i)) \<and>
    (\<forall>i < k. allocation_type (ts ! i) = kTfLiteArenaRw \<longrightarrow> data_ptr (ts' ! i) = nullptr \<and> sa_size (as' ! i) = 0)"
  using assms(1)
proof (induction k)
  case (Suc k)
  then obtain as1 ts1 h1 where l: "fold release_at [0..<k] (as, ts, h) = (as1, ts1, h1)" "length as1 = length as" "length ts1 = length ts"
    "\<forall>i < length ts. allocation_type (ts1 ! i) = allocation_type (ts ! i)"
    "\<forall>i < k. allocation_type (ts ! i) = kTfLiteArenaRw \<longrightarrow> data_ptr (ts1 ! i) = nullptr \<and> sa_size (as1 ! i) = 0" by auto
  have step: "fold release_at [0..<Suc k] (as, ts, h) = release_at k (as1, ts1, h1)" using l(1) by simp
  show ?case
  proof (cases "allocation_type (ts ! k) = kTfLiteArenaRw")
    case True
    have "release_at k (as1, ts1, h1) = (as1[k := sa_reset], ts1[k := (ts1 ! k)\<lparr>data_ptr := nullptr\<rparr>],
        if sa_ptr (as1 ! k) \<noteq> nullptr then free h1 (sa_ptr (as1 ! k)) else h1)"
      using True l(4) Suc.prems by (simp add: release_at_def free_at_def sa_free_def)
    with step l(2-5) Suc.prems assms(2) show ?thesis by (auto simp: less_Suc_eq nth_list_update sa_reset_def)
  next
    case False
    with l(4) Suc.prems have "release_at k (as1, ts1, h1) = (as1, ts1, h1)" by (simp add: release_at_def)
    with step l(2-5) False show ?thesis by (auto simp: less_Suc_eq)
  qed
qed simp

theorem Acquire_after_release_leaves_null:
  assumes l: "length (s_allocs p) = num_tensors g"
    and r: "Simple_ReleaseNonPersistentMemory p g h = (st, p', g', h')" "Simple_AcquireNonPersistentMemory p' g' = (st', g'')"
    and t: "t < num_tensors g" "allocation_type (tensors g ! t) = kTfLiteArenaRw"
  shows "st' = kTfLiteOk \<and> Simple_HasNonPersistentMemory p' \<and> data_ptr (tensors g'' ! t) = nullptr"
proof -
  obtain as' ts' h2 where l': "fold release_at [0..<num_tensors g] (s_allocs p, tensors g, h) = (as', ts', h2)" "length as' = length (s_allocs p)" "length ts' = num_tensors g"
    "\<forall>i < num_tensors g. allocation_type (ts' ! i) = allocation_type (tensors g ! i)"
    "\<forall>i < num_tensors g. allocation_type (tensors g ! i) = kTfLiteArenaRw \<longrightarrow> data_ptr (ts' ! i) = nullptr \<and> sa_size (as' ! i) = 0"
    using release_loop [of "num_tensors g" "tensors g" "s_allocs p" h] l by auto
  have res: "p' = p\<lparr>s_allocs := as'\<rparr>" "g' = g\<lparr>tensors := ts'\<rparr>"
    using r(1) by (simp_all add: Simple_ReleaseNonPersistentMemory_def l'(1))
  let ?body = "\<lambda>ts i. if allocation_type (ts ! i) = kTfLiteArenaRw then Simple_ResolveTensorAllocation as' i ts else (kTfLiteOk, ts)"
  have "for_status ?body ts' is = (kTfLiteOk, ts')" if "\<forall>i \<in> set is. i < num_tensors g" for "is"
    using that l'(4,5) by (induction "is") (auto simp: Simple_ResolveTensorAllocation_def Let_def)
  then have "for_status ?body ts' [0..<num_tensors g] = (kTfLiteOk, ts')" by simp
  then have "Simple_AcquireNonPersistentMemory p' g' = (kTfLiteOk, g')"
    using l'(3) by (simp add: Simple_AcquireNonPersistentMemory_def res cong: if_cong)
  then have "st' = kTfLiteOk" "g'' = g'" using r(2) by simp_all
  with l'(5) t show ?thesis by (simp add: res Simple_HasNonPersistentMemory_def)
qed

end
