(* ===== verification/StringBuffer.thy ===== *)
theory StringBuffer
  imports ShapeBase GraphInfo
begin

text \<open>
  String tensors: the buffer in which an operation collects strings
  (\<^verbatim>\<open>src/tflite/string_util.cc\<close>, \<^verbatim>\<open>src/tflite/converter/utils/string_utils.cc\<close>), the
  bytes it writes to a tensor, and the functions that read a string back.

  \<open>size_t\<close> values are integers with their wrap-around written out (\<open>to_size\<close>), \<open>int32_t\<close> values
  are integers converted by \<open>to_i32\<close>.  A string is a list of bytes, for a pointer and a length.
\<close>

section \<open>Bytes\<close>

definition to_size :: "int \<Rightarrow> int" where
  "to_size x = x mod 18446744073709551616"

text \<open>\<open>memcpy\<close> to position \<open>pos\<close> of a block; writing past its end is undefined.\<close>

definition write_bytes :: "int \<Rightarrow> byte list \<Rightarrow> byte list \<Rightarrow> byte list option" where
  "write_bytes pos src block =
     (if pos < 0 \<or> int (length block) < pos + int (length src) then None
      else Some (take (nat pos) block @ src @ drop (nat pos + length src) block))"

text \<open>The four bytes of an \<open>int32_t\<close>.\<close>

definition le_bytes :: "int \<Rightarrow> byte list" where
  "le_bytes x = [word_of_int x, word_of_int (x div 256), word_of_int (x div 65536), word_of_int (x div 16777216)]"

text \<open>\<open>static_cast<const int32_t*>(raw)[i]\<close>.\<close>

definition raw_i32 :: "byte list \<Rightarrow> nat \<Rightarrow> int option" where
  "raw_i32 raw i = (if length raw < 4 * i + 4 then None else Some (read_i32 raw i))"

section \<open>The buffer\<close>

record DynamicBuffer =
  buf_data :: "byte list"
  buf_offset :: "int list"
  max_length :: int

definition kDefaultMaxLength :: int where
  "kDefaultMaxLength = 2147483647"

definition new_dynamic_buffer :: "int \<Rightarrow> DynamicBuffer" where
  "new_dynamic_buffer m = \<lparr>buf_data = [], buf_offset = [0], max_length = m\<rparr>"

text \<open>\<open>std::vector<char>::resize\<close>, which throws beyond the largest size of a vector.\<close>

definition resize_data :: "int \<Rightarrow> byte list \<Rightarrow> byte list option" where
  "resize_data n d =
     (if 9223372036854775807 < n then None else Some (take (nat n) d @ replicate (nat n - length d) 0))"

definition SimpleAddString :: "byte list \<Rightarrow> DynamicBuffer \<Rightarrow> (bool \<times> DynamicBuffer) option" where
  "SimpleAddString str b =
     (let len = int (length str) in
      if max_length b < len \<or> to_size (max_length b - len) \<le> int (length (buf_data b)) then Some (False, b)
      else if len = 0 then Some (True, b\<lparr>buf_offset := buf_offset b @ [last (buf_offset b)]\<rparr>)
      else do {
        data \<leftarrow> resize_data (to_size (int (length (buf_data b)) + len)) (buf_data b);
        data' \<leftarrow> write_bytes (last (buf_offset b)) str data;
        Some (True, b\<lparr>buf_data := data', buf_offset := buf_offset b @ [to_size (last (buf_offset b) + len)]\<rparr>) })"

definition AddString :: "byte list \<Rightarrow> DynamicBuffer \<Rightarrow> (TfLiteStatus \<times> DynamicBuffer) option" where
  "AddString str b = do {
     (added, b') \<leftarrow> SimpleAddString str b;
     Some (if added then kTfLiteOk else kTfLiteError, b') }"

text \<open>The length of the joined string, an \<open>int\<close>; the loop that fills it, from string \<open>i\<close> on.\<close>

definition total_len :: "byte list list \<Rightarrow> byte list \<Rightarrow> int" where
  "total_len strings separator =
     foldl (\<lambda>total_len ref. to_i32 (to_size (total_len + int (length ref))))
       (to_i32 (to_size (to_size (int (length strings) - 1) * int (length separator)))) strings"

definition join_step :: "byte list list \<Rightarrow> byte list \<Rightarrow> nat \<Rightarrow> int \<times> byte list \<Rightarrow> (int \<times> byte list) option" where
  "join_step strings separator i = (\<lambda>(dst, data). do {
     (dst1, data1) \<leftarrow>
       (if i \<noteq> 0 then do {
          d \<leftarrow> write_bytes dst separator data;
          Some (dst + int (length separator), d) }
        else Some (dst, data));
     ref \<leftarrow> at strings i;
     d \<leftarrow> write_bytes dst1 ref data1;
     Some (dst1 + int (length ref), d) })"

definition AddJoinedString :: "byte list list \<Rightarrow> byte list \<Rightarrow> DynamicBuffer \<Rightarrow> DynamicBuffer option" where
  "AddJoinedString strings separator b = do {
     let len = total_len strings separator;
     data \<leftarrow> resize_data (to_size (int (length (buf_data b)) + len)) (buf_data b);
     (_, data') \<leftarrow> foldM (join_step strings separator) [0..<length strings] (last (buf_offset b), data);
     Some (b\<lparr>buf_data := data', buf_offset := buf_offset b @ [to_size (last (buf_offset b) + len)]\<rparr>) }"

definition AddJoinedString_char :: "byte list list \<Rightarrow> byte \<Rightarrow> DynamicBuffer \<Rightarrow> DynamicBuffer option" where
  "AddJoinedString_char strings separator b = AddJoinedString strings [separator] b"

section \<open>Writing\<close>

text \<open>
  \<open>malloc n\<close> is the block that the C heap returns for \<open>n\<close> bytes, with whatever it contains, or \<open>None\<close>.
\<close>

definition write_offset :: "int \<Rightarrow> int list \<Rightarrow> nat \<Rightarrow> byte list \<Rightarrow> byte list option" where
  "write_offset start offset i block = do {
     o' \<leftarrow> at offset i;
     write_bytes (4 * (int i + 1)) (le_bytes (to_i32 (to_size (start + o')))) block }"

definition WriteToBuffer :: "(int \<Rightarrow> byte list option) \<Rightarrow> DynamicBuffer \<Rightarrow> (int \<times> byte list option) option" where
  "WriteToBuffer malloc b = do {
     let num_strings = to_i32 (to_size (int (length (buf_offset b)) - 1));
     n2 \<leftarrow> i32 (num_strings + 2);
     let bytes = to_i32 (to_size (int (length (buf_data b)) + to_size (4 * to_size n2)));
     (case malloc (to_size bytes) of
        None \<Rightarrow> Some (- 1, None)
      | Some block \<Rightarrow> do {
          block1 \<leftarrow> write_bytes 0 (le_bytes num_strings) block;
          let start = to_i32 (to_size (4 * to_size n2));
          block2 \<leftarrow> foldM (write_offset start (buf_offset b)) [0..<length (buf_offset b)] block1;
          block3 \<leftarrow> (if buf_data b \<noteq> [] then write_bytes start (buf_data b) block2 else Some block2);
          Some (bytes, Some block3) }) }"

record StringTensor =
  st_type :: int
  st_name :: string
  st_dims :: "int list"
  st_params :: "int \<times> int"
  st_data :: "byte list option"
  st_bytes :: int
  st_allocation_type :: TfLiteAllocationType
  st_allocation :: int
  st_is_variable :: bool
  st_quantized :: bool

definition TfLiteTensorReset ::
  "int \<Rightarrow> string \<Rightarrow> int list \<Rightarrow> int \<times> int \<Rightarrow> byte list option \<Rightarrow> int \<Rightarrow> TfLiteAllocationType \<Rightarrow> int \<Rightarrow> bool \<Rightarrow>
   StringTensor \<Rightarrow> StringTensor" where
  "TfLiteTensorReset type name dims params buffer sz a_type allocation is_variable tensor =
     \<lparr>st_type = type, st_name = name, st_dims = dims, st_params = params, st_data = buffer, st_bytes = sz,
      st_allocation_type = a_type, st_allocation = allocation, st_is_variable = is_variable,
      st_quantized = False\<rparr>"

definition WriteToTensor ::
  "(int \<Rightarrow> byte list option) \<Rightarrow> int list option \<Rightarrow> DynamicBuffer \<Rightarrow> StringTensor \<Rightarrow> StringTensor option" where
  "WriteToTensor malloc new_shape b t = do {
     (bytes, tensor_buffer) \<leftarrow> WriteToBuffer malloc b;
     let new_shape = (case new_shape of None \<Rightarrow> st_dims t | Some d \<Rightarrow> d);
     Some (TfLiteTensorReset (st_type t) (st_name t) new_shape (st_params t) tensor_buffer (to_size bytes)
             kTfLiteDynamic (st_allocation t) (st_is_variable t) t) }"

definition WriteToTensorAsVector ::
  "(int \<Rightarrow> byte list option) \<Rightarrow> DynamicBuffer \<Rightarrow> StringTensor \<Rightarrow> StringTensor option" where
  "WriteToTensorAsVector malloc b t =
     WriteToTensor malloc (Some [to_i32 (to_size (int (length (buf_offset b)) - 1))]) b t"

section \<open>Reading\<close>

definition GetStringCount :: "byte list \<Rightarrow> int option" where
  "GetStringCount raw = raw_i32 raw 0"

text \<open>The position and the length of a string in the raw buffer.\<close>

definition GetString :: "byte list \<Rightarrow> nat \<Rightarrow> (int \<times> int) option" where
  "GetString raw string_index = do {
     offset \<leftarrow> raw_i32 raw (string_index + 1);
     next_offset \<leftarrow> raw_i32 raw (string_index + 2);
     string_len \<leftarrow> i32 (next_offset - offset);
     Some (offset, to_size string_len) }"

text \<open>The bytes a reference stands for.\<close>

definition string_at :: "byte list \<Rightarrow> int \<times> int \<Rightarrow> byte list option" where
  "string_at raw = (\<lambda>(pos, len).
     (if pos < 0 \<or> int (length raw) < pos + len then None else Some (take (nat len) (drop (nat pos) raw))))"

section \<open>Bytes and words\<close>

lemma to_size_id [simp]: "0 \<le> x \<Longrightarrow> x < 18446744073709551616 \<Longrightarrow> to_size x = x"
  by (simp add: to_size_def)

lemma write_bytes_at:
  assumes "length c = length src" "pos = int (length a)"
  shows "write_bytes pos src (a @ c @ r) = Some (a @ src @ r)"
  using assms by (simp add: write_bytes_def)

lemma length_le_bytes [simp]: "length (le_bytes x) = 4"
  by (simp add: le_bytes_def)

lemma le_nat_le_bytes: "int (le_nat (le_bytes x)) = x mod 4294967296"
proof -
  have b: "int (unat (word_of_int y :: byte)) = y mod 256" for y
    by (simp add: uint_word_of_int)
  have m: "z mod k = z mod 256 + 256 * (z div 256 mod n)" if "k = 256 * n" "0 \<le> n" for z k n :: int
    unfolding that(1) using zmod_zmult2_eq [OF that(2), of z 256] by linarith
  have e: "x mod 4294967296 = x mod 256 + 256 * (x div 256 mod 16777216)"
    "x div 256 mod 16777216 = x div 256 mod 256 + 256 * (x div 256 div 256 mod 65536)"
    "x div 256 div 256 mod 65536 = x div 256 div 256 mod 256 + 256 * (x div 256 div 256 div 256 mod 256)"
    by (rule m; simp)+
  have d: "x div 65536 = x div 256 div 256" "x div 16777216 = x div 256 div 256 div 256"
    by (simp_all add: zdiv_zmult2_eq [symmetric])
  show ?thesis
    by (simp only: le_bytes_def le_nat.simps of_nat_add of_nat_mult of_nat_numeral of_nat_0 b e d mult_zero_right add_0_right)
qed

lemma to_i32_mod [simp]: "to_i32 (x mod 4294967296) = to_i32 x"
  by (simp add: to_i32_def mod_simps)

lemma drop_chunks:
  assumes "\<forall>x \<in> set xs. length x = n" "i \<le> length xs"
  shows "drop (n * i) (concat xs @ r) = concat (drop i xs) @ r"
  using assms
proof (induction xs arbitrary: i)
  case (Cons x xs)
  show ?case
  proof (cases i)
    case (Suc j)
    have "n * Suc j = length x + n * j" using Cons.prems(1) by simp
    then have "drop (n * Suc j) (x @ concat xs @ r) = drop (n * j) (concat xs @ r)"
      by (simp only: drop_append drop_drop [symmetric]) simp
    with Cons Suc show ?thesis by simp
  qed simp
qed simp

lemma length_chunks: "\<forall>x \<in> set xs. length x = n \<Longrightarrow> length (concat xs) = n * length xs"
  by (induction xs) simp_all

lemma raw_i32_chunks:
  assumes "i < length xs"
  shows "raw_i32 (concat (map le_bytes xs) @ r) i = Some (to_i32 (xs ! i))"
proof -
  have "drop (4 * i) (concat (map le_bytes xs) @ r) = concat (drop i (map le_bytes xs)) @ r"
    using assms by (intro drop_chunks) simp_all
  also have "\<dots> = le_bytes (xs ! i) @ concat (map le_bytes (drop (Suc i) xs)) @ r"
    using assms by (simp add: drop_map Cons_nth_drop_Suc [symmetric])
  finally have d: "drop (4 * i) (concat (map le_bytes xs) @ r) = le_bytes (xs ! i) @ concat (map le_bytes (drop (Suc i) xs)) @ r" .
  have "length (concat (map le_bytes xs)) = 4 * length xs"
    using length_chunks [of "map le_bytes xs" 4] by simp
  then show ?thesis using assms by (simp add: raw_i32_def read_i32_def d le_nat_le_bytes del: drop_append)
qed

section \<open>The strings a buffer holds\<close>

definition start_of :: "byte list list \<Rightarrow> nat \<Rightarrow> int" where
  "start_of ss i = int (length (concat (take i ss)))"

definition holds :: "DynamicBuffer \<Rightarrow> byte list list \<Rightarrow> bool" where
  "holds b ss \<longleftrightarrow> buf_data b = concat ss \<and> buf_offset b = map (start_of ss) [0..<Suc (length ss)]"

lemma holds_new: "holds (new_dynamic_buffer m) []"
  by (simp add: holds_def new_dynamic_buffer_def start_of_def)

lemma holds_last: "holds b ss \<Longrightarrow> last (buf_offset b) = int (length (buf_data b))"
  by (simp add: holds_def start_of_def)

lemma holds_snoc:
  assumes "holds b ss"
  shows "holds (b\<lparr>buf_data := buf_data b @ s, buf_offset := buf_offset b @ [int (length (buf_data b)) + int (length s)]\<rparr>) (ss @ [s])"
proof -
  have "map (start_of (ss @ [s])) [0..<Suc (length ss)] = map (start_of ss) [0..<Suc (length ss)]"
    by (auto simp: start_of_def)
  moreover have "start_of (ss @ [s]) (Suc (length ss)) = int (length (concat ss)) + int (length s)"
    by (simp add: start_of_def)
  ultimately show ?thesis using assms by (simp add: holds_def)
qed

lemma AddString_holds:
  assumes h: "holds b ss" and m: "max_length b < 9223372036854775808"
  shows "AddString s b =
    (if int (length (concat ss)) + int (length s) < max_length b
     then Some (kTfLiteOk, b\<lparr>buf_data := buf_data b @ s, buf_offset := buf_offset b @ [int (length (buf_data b)) + int (length s)]\<rparr>)
     else Some (kTfLiteError, b))"
proof -
  have d: "buf_data b = concat ss" using h by (simp add: holds_def)
  have full: "max_length b < int (length s) \<or> to_size (max_length b - int (length s)) \<le> int (length (concat ss)) \<longleftrightarrow>
      \<not> int (length (concat ss)) + int (length s) < max_length b"
    using m by (cases "max_length b < int (length s)") auto
  show ?thesis
  proof (cases "int (length (concat ss)) + int (length s) < max_length b")
    case True
    have "resize_data (int (length (concat ss)) + int (length s)) (concat ss) = Some (concat ss @ replicate (length s) 0)"
      using True m by (simp add: resize_data_def nat_add_distrib)
    moreover have "write_bytes (int (length (concat ss))) s (concat ss @ replicate (length s) 0) = Some (concat ss @ s)"
      using write_bytes_at [of "replicate (length s) 0" s "int (length (concat ss))" "concat ss" "[]"] by simp
    ultimately show ?thesis
      using True m full holds_last [OF h] d
      by (simp add: AddString_def SimpleAddString_def Let_def del: concat_append)
  qed (use full d in \<open>simp add: AddString_def SimpleAddString_def Let_def\<close>)
qed

text \<open>The strings with the separator between them.\<close>

definition joined :: "byte list list \<Rightarrow> byte list \<Rightarrow> byte list" where
  "joined strings separator =
     concat (map (\<lambda>i. (if i \<noteq> 0 then separator else []) @ strings ! i) [0..<length strings])"

lemma length_joined:
  assumes "strings \<noteq> []"
  shows "length (joined strings separator) = (length strings - 1) * length separator + length (concat strings)"
proof -
  have "length (concat (map (\<lambda>i. (if i \<noteq> 0 then separator else []) @ strings ! i) [0..<n])) =
      (n - 1) * length separator + length (concat (take n strings))" if "n \<le> length strings" for n
    using that
  proof (induction n)
    case (Suc n)
    then have "take (Suc n) strings = take n strings @ [strings ! n]" by (simp add: take_Suc_conv_app_nth)
    with Suc show ?case by (cases n) simp_all
  qed simp
  from this [of "length strings"] show ?thesis by (simp add: joined_def)
qed

lemma fold_len:
  assumes "0 \<le> a" "a + int (length (concat strings)) < 2147483648"
  shows "foldl (\<lambda>n ref. to_i32 (to_size (n + int (length ref)))) a strings = a + int (length (concat strings))"
  using assms
proof (induction strings arbitrary: a)
  case (Cons s strings)
  have "to_i32 (to_size (a + int (length s))) = a + int (length s)"
    using Cons.prems by (simp add: fits32_def)
  with Cons show ?case by simp
qed simp

lemma total_len_joined:
  assumes "strings \<noteq> []" "length (joined strings separator) < 2147483648"
  shows "total_len strings separator = int (length (joined strings separator))"
proof -
  let ?a = "(int (length strings) - 1) * int (length separator)"
  have n: "0 < length strings" using assms(1) by simp
  have l: "int (length (joined strings separator)) = ?a + int (length (concat strings))"
    using length_joined [OF assms(1), of separator] n by (simp add: of_nat_diff Suc_leI)
  have a: "0 \<le> ?a" using n by simp
  moreover have small: "?a < 2147483648" using l assms(2) by linarith
  moreover have "to_size (to_size (int (length strings) - 1) * int (length separator)) = to_size ?a"
    by (simp add: to_size_def mod_simps)
  ultimately have "to_i32 (to_size (to_size (int (length strings) - 1) * int (length separator))) = ?a"
    by (simp add: fits32_def)
  then show ?thesis
    using fold_len [OF a, of strings] assms(2) l by (simp add: total_len_def)
qed

lemma join_loop:
  assumes "n \<le> length strings"
    and "length r = length (joined strings separator)"
  defines "dn \<equiv> \<lambda>n. concat (map (\<lambda>i. (if i \<noteq> 0 then separator else []) @ strings ! i) [0..<n])"
  shows "foldM (join_step strings separator) [0..<n] (int (length d), d @ r) =
    Some (int (length (d @ dn n)), d @ dn n @ drop (length (dn n)) r)"
  using assms(1)
proof (induction n)
  case (Suc n)
  define sep where "sep = (if n \<noteq> 0 then separator else [])"
  have dn: "dn (Suc n) = dn n @ sep @ strings ! n" by (simp add: dn_def sep_def)
  have "length (dn (Suc n)) \<le> length r"
  proof -
    have "[0..<length strings] = [0..<Suc n] @ [Suc n..<length strings]"
      using upt_add_eq_append [of 0 "Suc n" "length strings - Suc n"] Suc.prems
      by (simp only: le_add_diff_inverse zero_le)
    then have "joined strings separator = dn (Suc n) @ concat (map (\<lambda>i. (if i \<noteq> 0 then separator else []) @ strings ! i) [Suc n..<length strings])"
      unfolding joined_def dn_def by (simp only: map_append concat_append)
    then show ?thesis using assms(2) by simp
  qed
  then have len: "length (dn n) + length sep + length (strings ! n) \<le> length r" by (simp add: dn)
  define r1 where "r1 = drop (length (dn n)) r"
  have r1: "length sep + length (strings ! n) \<le> length r1" using len by (simp add: r1_def)
  have w1: "write_bytes (int (length (d @ dn n))) sep (d @ dn n @ r1) = Some ((d @ dn n) @ sep @ drop (length sep) r1)"
    using write_bytes_at [of "take (length sep) r1" sep _ "d @ dn n" "drop (length sep) r1"] r1 by simp
  have sp: "take (length (strings ! n)) (drop (length sep) r1) @ drop (length sep + length (strings ! n)) r1 = drop (length sep) r1"
    by (simp only: drop_drop [symmetric] append_take_drop_id add.commute [of "length sep"])
  have "write_bytes (int (length (d @ dn n)) + int (length sep)) (strings ! n)
      ((d @ dn n @ sep) @ take (length (strings ! n)) (drop (length sep) r1) @ drop (length sep + length (strings ! n)) r1) =
      Some ((d @ dn n @ sep) @ strings ! n @ drop (length sep + length (strings ! n)) r1)"
    using r1 by (intro write_bytes_at) simp_all
  then have w2: "write_bytes (int (length (d @ dn n)) + int (length sep)) (strings ! n) ((d @ dn n) @ sep @ drop (length sep) r1) =
      Some ((d @ dn n @ sep) @ strings ! n @ drop (length sep + length (strings ! n)) r1)"
    unfolding sp by simp
  have s: "at strings n = Some (strings ! n)" using Suc.prems by (simp add: at_def)
  have "join_step strings separator n (int (length (d @ dn n)), d @ dn n @ r1) =
      Some (int (length (d @ dn n)) + int (length sep) + int (length (strings ! n)),
        (d @ dn n @ sep) @ strings ! n @ drop (length sep + length (strings ! n)) r1)"
  proof (cases "n = 0")
    case True
    with w2 s show ?thesis by (simp add: join_step_def sep_def)
  next
    case False
    then have "sep = separator" by (simp add: sep_def)
    with w1 w2 s False show ?thesis by (simp add: join_step_def del: append_assoc)
  qed
  moreover have "drop (length sep + length (strings ! n)) r1 = drop (length (dn (Suc n))) r"
    by (simp add: r1_def dn add_ac)
  ultimately have "join_step strings separator n (int (length (d @ dn n)), d @ dn n @ drop (length (dn n)) r) =
      Some (int (length (d @ dn (Suc n))), d @ dn (Suc n) @ drop (length (dn (Suc n))) r)"
    by (simp add: dn r1_def)
  with Suc show ?case by (simp add: foldM_append)
qed (simp add: dn_def)

lemma AddJoinedString_holds:
  assumes h: "holds b ss" and s: "strings \<noteq> []" "length (concat ss) + length (joined strings separator) < 2147483648"
  shows "AddJoinedString strings separator b =
    Some (b\<lparr>buf_data := buf_data b @ joined strings separator,
      buf_offset := buf_offset b @ [int (length (buf_data b)) + int (length (joined strings separator))]\<rparr>)"
proof -
  let ?j = "joined strings separator"
  have d: "buf_data b = concat ss" using h by (simp add: holds_def)
  have t: "total_len strings separator = int (length ?j)" using s by (intro total_len_joined) simp_all
  have "resize_data (int (length (concat ss)) + int (length ?j)) (concat ss) = Some (concat ss @ replicate (length ?j) 0)"
    using s(2) by (simp add: resize_data_def nat_add_distrib)
  moreover have "foldM (join_step strings separator) [0..<length strings] (int (length (concat ss)), concat ss @ replicate (length ?j) 0) =
      Some (int (length (concat ss @ ?j)), concat ss @ ?j)"
    using join_loop [of "length strings" strings "replicate (length ?j) 0" separator "concat ss"]
    by (simp add: joined_def)
  ultimately show ?thesis
    using s(2) holds_last [OF h] d t by (simp add: AddJoinedString_def Let_def)
qed

section \<open>What is written\<close>

lemma write_offsets:
  assumes "m \<le> length offset" "4 * m \<le> length r" "length hdr = 4"
  shows "foldM (write_offset start offset) [0..<m] (hdr @ r) =
    Some (hdr @ concat (map (\<lambda>o'. le_bytes (to_i32 (to_size (start + o')))) (take m offset)) @ drop (4 * m) r)"
  using assms(1,2)
proof (induction m)
  case (Suc m)
  let ?w = "\<lambda>o'. le_bytes (to_i32 (to_size (start + o')))"
  let ?c = "concat (map ?w (take m offset))"
  have len: "length ?c = 4 * m" using length_chunks [of "map ?w (take m offset)" 4] Suc.prems(1) by simp
  have sp: "take 4 (drop (4 * m) r) @ drop (4 * Suc m) r = drop (4 * m) r"
    using append_take_drop_id [of 4 "drop (4 * m) r"] by (simp add: add.commute)
  have "write_bytes (4 * (int m + 1)) (?w (offset ! m)) ((hdr @ ?c) @ take 4 (drop (4 * m) r) @ drop (4 * Suc m) r) =
      Some ((hdr @ ?c) @ ?w (offset ! m) @ drop (4 * Suc m) r)"
    using Suc.prems(2) len assms(3) by (intro write_bytes_at) simp_all
  then have "write_offset start offset m (hdr @ ?c @ drop (4 * m) r) = Some (hdr @ ?c @ ?w (offset ! m) @ drop (4 * Suc m) r)"
    unfolding sp using Suc.prems(1) by (simp add: write_offset_def at_def)
  moreover have "concat (map ?w (take (Suc m) offset)) = ?c @ ?w (offset ! m)"
    using Suc.prems(1) by (simp add: take_Suc_conv_app_nth)
  ultimately show ?case using Suc by (simp add: foldM_append)
qed simp

definition string_bytes :: "byte list list \<Rightarrow> byte list" where
  "string_bytes ss = concat (map le_bytes (int (length ss) #
     map (\<lambda>i. 4 * (int (length ss) + 2) + start_of ss i) [0..<Suc (length ss)])) @ concat ss"

lemma length_string_bytes: "length (string_bytes ss) = 4 * (length ss + 2) + length (concat ss)"
proof -
  let ?xs = "int (length ss) # map (\<lambda>i. 4 * (int (length ss) + 2) + start_of ss i) [0..<Suc (length ss)]"
  have "length (concat (map le_bytes ?xs)) = 4 * (length ss + 2)"
    using length_chunks [of "map le_bytes ?xs" 4] by (simp del: upt_Suc)
  then show ?thesis unfolding string_bytes_def by simp
qed

lemma start_of_le: "i \<le> length ss \<Longrightarrow> start_of ss i \<le> int (length (concat ss)) \<and> 0 \<le> start_of ss i"
  using arg_cong [OF append_take_drop_id [of i ss], of "\<lambda>xs. length (concat xs)"]
  by (simp add: start_of_def del: append_take_drop_id)

lemma WriteToBuffer_holds:
  assumes h: "holds b ss" and small: "4 * (length ss + 2) + length (concat ss) < 2147483648"
    and m: "malloc (int (4 * (length ss + 2) + length (concat ss))) = Some block"
      "length block = 4 * (length ss + 2) + length (concat ss)"
  shows "WriteToBuffer malloc b = Some (int (length (string_bytes ss)), Some (string_bytes ss))"
proof -
  let ?n = "int (length ss)" and ?o = "map (start_of ss) [0..<Suc (length ss)]"
  let ?start = "4 * (?n + 2)"
  let ?c = "concat (map (\<lambda>i. le_bytes (?start + start_of ss i)) [0..<Suc (length ss)])"
  have b: "buf_data b = concat ss" "buf_offset b = ?o" using h by (simp_all add: holds_def)
  have num: "to_i32 (to_size (int (length ?o) - 1)) = ?n" "i32 (?n + 2) = Some (?n + 2)"
    "to_i32 (to_size (4 * to_size (?n + 2))) = ?start"
    "to_i32 (to_size (int (length (concat ss)) + to_size (4 * to_size (?n + 2)))) = int (4 * (length ss + 2) + length (concat ss))"
    using small by (simp_all add: fits32_def i32_def del: length_concat)
  have w1: "write_bytes 0 (le_bytes ?n) block = Some (le_bytes ?n @ drop 4 block)"
    using m(2) by (simp add: write_bytes_def)
  have "foldM (write_offset ?start ?o) [0..<length ?o] (le_bytes ?n @ drop 4 block) =
      Some (le_bytes ?n @ concat (map (\<lambda>o'. le_bytes (to_i32 (to_size (?start + o')))) (take (length ?o) ?o)) @ drop (4 * length ?o) (drop 4 block))"
    using m(2) by (intro write_offsets) simp_all
  moreover have "map (\<lambda>o'. le_bytes (to_i32 (to_size (?start + o')))) (take (length ?o) ?o) =
      map (\<lambda>i. le_bytes (?start + start_of ss i)) [0..<Suc (length ss)]"
  proof -
    have "to_i32 (to_size (?start + start_of ss i)) = ?start + start_of ss i" if "i \<le> length ss" for i
      using start_of_le [OF that] small by (simp add: fits32_def)
    then show ?thesis by (simp add: less_Suc_eq_le)
  qed
  ultimately have w2: "foldM (write_offset ?start ?o) [0..<length ?o] (le_bytes ?n @ drop 4 block) =
      Some (le_bytes ?n @ ?c @ drop (4 * length ?o) (drop 4 block))" by (simp only:)
  have lc: "length ?c = 4 * Suc (length ss)"
    using length_chunks [of "map (\<lambda>i. le_bytes (?start + start_of ss i)) [0..<Suc (length ss)]" 4] by simp
  have rest: "length (drop (4 * length ?o) (drop 4 block)) = length (concat ss)" using m(2) by simp
  have "write_bytes ?start (concat ss) ((le_bytes ?n @ ?c) @ drop (4 * length ?o) (drop 4 block) @ []) =
      Some ((le_bytes ?n @ ?c) @ concat ss @ [])"
    using rest lc by (intro write_bytes_at) simp_all
  moreover have "string_bytes ss = le_bytes ?n @ ?c @ concat ss"
    by (simp add: string_bytes_def comp_def del: upt_Suc)
  ultimately have full: "write_bytes ?start (concat ss) (le_bytes ?n @ ?c @ drop (4 * length ?o) (drop 4 block)) = Some (string_bytes ss)"
    by (simp only: append_assoc append_Nil2)
  have w3: "(if concat ss \<noteq> [] then write_bytes ?start (concat ss) (le_bytes ?n @ ?c @ drop (4 * length ?o) (drop 4 block))
      else Some (le_bytes ?n @ ?c @ drop (4 * length ?o) (drop 4 block))) = Some (string_bytes ss)"
  proof (cases "concat ss = []")
    case True
    with rest have "drop (4 * length ?o) (drop 4 block) = concat ss" by (simp only: list.size length_0_conv)
    with True \<open>string_bytes ss = le_bytes ?n @ ?c @ concat ss\<close> show ?thesis by (simp only: if_False not_True_eq_False simp_thms)
  qed (simp only: full if_True simp_thms)
  have "to_size (int (4 * (length ss + 2) + length (concat ss))) = int (4 * (length ss + 2) + length (concat ss))"
    using small by (intro to_size_id) linarith+
  then show ?thesis
    unfolding WriteToBuffer_def b Let_def num
    using m(1) w1 w2 w3 by (simp only: num bind.bind_lunit option.case length_string_bytes)
qed

lemma read_strings:
  assumes "4 * (length ss + 2) + length (concat ss) < 2147483648"
  shows "GetStringCount (string_bytes ss) = Some (int (length ss))"
    and "i < length ss \<Longrightarrow> Option.bind (GetString (string_bytes ss) i) (string_at (string_bytes ss)) = Some (ss ! i)"
proof -
  let ?n = "int (length ss)"
  let ?xs = "?n # map (\<lambda>i. 4 * (?n + 2) + start_of ss i) [0..<Suc (length ss)]"
  have raw: "raw_i32 (string_bytes ss) j = Some (to_i32 (?xs ! j))" if "j < length ss + 2" for j
    unfolding string_bytes_def using that by (intro raw_i32_chunks) simp
  show "GetStringCount (string_bytes ss) = Some ?n"
    using raw [of 0] assms by (simp add: GetStringCount_def fits32_def)
  have off: "raw_i32 (string_bytes ss) (Suc j) = Some (4 * (?n + 2) + start_of ss j)" if "j \<le> length ss" for j
    using raw [of "Suc j"] that start_of_le [OF that] assms by (simp add: fits32_def nth_append del: upt_Suc)
  assume i: "i < length ss"
  have step: "start_of ss (Suc i) = start_of ss i + int (length (ss ! i))"
    using i by (simp add: start_of_def take_Suc_conv_app_nth)
  have le: "start_of ss i + int (length (ss ! i)) \<le> int (length (concat ss))" "0 \<le> start_of ss i"
    using start_of_le [of "Suc i" ss] start_of_le [of i ss] i step by simp_all
  have g: "GetString (string_bytes ss) i = Some (4 * (?n + 2) + start_of ss i, int (length (ss ! i)))"
    using off [of i] off [of "Suc i"] i step le assms by (simp add: GetString_def i32_def fits32_def)
  have "drop (nat (4 * (?n + 2) + start_of ss i)) (string_bytes ss) = concat (drop i ss)"
  proof -
    have "length (concat (map le_bytes ?xs)) = 4 * (length ss + 2)"
      using length_chunks [of "map le_bytes ?xs" 4] by (simp del: upt_Suc)
    moreover have "nat (4 * (?n + 2) + start_of ss i) = 4 * (length ss + 2) + length (concat (take i ss))"
      by (simp add: start_of_def nat_add_distrib)
    moreover have "concat ss = concat (take i ss) @ concat (drop i ss)" by (simp flip: concat_append)
    ultimately show ?thesis unfolding string_bytes_def by simp
  qed
  moreover have "concat (drop i ss) = ss ! i @ concat (drop (Suc i) ss)" using i by (simp add: Cons_nth_drop_Suc [symmetric])
  ultimately show "Option.bind (GetString (string_bytes ss) i) (string_at (string_bytes ss)) = Some (ss ! i)"
    using g le by (simp add: string_at_def length_string_bytes)
qed

section \<open>Properties\<close>

text \<open>C20: A buffer that holds a list of strings holds one more string after a string or a joined list of strings is
  added to it. Adding a string succeeds when all strings together then take less than \<open>max_length\<close> bytes; when
  they would take more it fails and leaves the buffer as it is; when they would take \<open>max_length\<close> bytes exactly it
  does one or the other. Joining does not look at this limit; the list that is joined is not empty, and the strings
  then take less than \<open>2^31\<close> bytes (for the empty list see \<open>AddJoinedString_nothing\<close>, and for the exact limit
  \<open>AddString_exact_limit\<close>).\<close>

theorem DynamicBuffer_refines:
  assumes h: "holds b ss" and m: "max_length b < 9223372036854775808"
  shows "(\<exists>st b'. AddString s b = Some (st, b') \<and> max_length b' = max_length b \<and>
        (st = kTfLiteOk \<and> holds b' (ss @ [s]) \<or> st = kTfLiteError \<and> b' = b) \<and>
        (int (length (concat (ss @ [s]))) < max_length b \<longrightarrow> st = kTfLiteOk) \<and>
        (int (length (concat (ss @ [s]))) > max_length b \<longrightarrow> st = kTfLiteError)) \<and>
    (strings \<noteq> [] \<and> length (concat ss) + length (joined strings separator) < 2147483648 \<longrightarrow>
      (\<exists>b'. AddJoinedString strings separator b = Some b' \<and> max_length b' = max_length b \<and>
        holds b' (ss @ [joined strings separator])))"
  using AddString_holds [OF h m, of s] holds_snoc [OF h] AddJoinedString_holds [OF h, of strings separator]
  by simp

theorem DynamicBuffer_refines_witness:
  "\<exists>b1 b2. AddString [65, 66] (new_dynamic_buffer 5) = Some (kTfLiteOk, b1) \<and> holds b1 [[65, 66]] \<and>
     AddJoinedString [[67], [68]] [44] b1 = Some b2 \<and> holds b2 [[65, 66], [67, 44, 68]] \<and>
     AddString [69] b2 = Some (kTfLiteError, b2)"
proof -
  have j: "joined [[67], [68]] [44] = [67, 44, 68]" by (simp add: joined_def upt_rec)
  obtain b1 where b1: "AddString [65, 66] (new_dynamic_buffer 5) = Some (kTfLiteOk, b1)" "holds b1 [[65, 66]]" "max_length b1 = 5"
    using DynamicBuffer_refines [OF holds_new [of 5], of "[65, 66]"] by (auto simp: new_dynamic_buffer_def)
  moreover obtain b2 where b2: "AddJoinedString [[67], [68]] [44] b1 = Some b2" "holds b2 [[65, 66], [67, 44, 68]]" "max_length b2 = 5"
    using DynamicBuffer_refines [OF b1(2), of "[]" "[[67], [68]]" "[44]"] b1(3) by (auto simp: j)
  moreover have "AddString [69] b2 = Some (kTfLiteError, b2)"
    using DynamicBuffer_refines [OF b2(2), of "[69]"] b2(3) by auto
  ultimately show ?thesis by blast
qed

text \<open>Adding a list of strings, which stops at the first failure.\<close>

definition add_strings :: "byte list list \<Rightarrow> DynamicBuffer \<Rightarrow> DynamicBuffer option" where
  "add_strings = foldM (\<lambda>s b. case AddString s b of Some (kTfLiteOk, b') \<Rightarrow> Some b' | _ \<Rightarrow> None)"

lemma add_strings_holds:
  assumes "holds b ss" "int (length (concat (ss @ ts))) < max_length b" "max_length b < 9223372036854775808"
  shows "\<exists>b'. add_strings ts b = Some b' \<and> holds b' (ss @ ts)"
  using assms
proof (induction ts arbitrary: b ss)
  case (Cons t ts)
  define b1 where "b1 = b\<lparr>buf_data := buf_data b @ t, buf_offset := buf_offset b @ [int (length (buf_data b)) + int (length t)]\<rparr>"
  have "AddString t b = Some (kTfLiteOk, b1)"
    using AddString_holds [OF Cons.prems(1,3), of t] Cons.prems(2) by (simp add: b1_def)
  moreover have "holds b1 (ss @ [t])" using holds_snoc [OF Cons.prems(1)] by (simp add: b1_def)
  moreover have "max_length b1 = max_length b" by (simp add: b1_def)
  ultimately show ?case using Cons.IH [of b1 "ss @ [t]"] Cons.prems(2,3) by (simp add: add_strings_def)
qed (simp add: add_strings_def)

text \<open>C10: Strings that are added to a new buffer and written to a tensor as a vector can be read back: when header and
  contents fit an \<open>int32_t\<close> and memory is available, every addition succeeds, the tensor has as many elements as there are
  strings and as many bytes as were written, its string count is the number of strings, and the
  \<open>i\<close>-th string read from it is the \<open>i\<close>-th string added, also when strings are empty.\<close>

theorem string_tensor_roundtrip:
  assumes small: "4 * (length ss + 2) + length (concat ss) < 2147483648"
    and m: "\<forall>n. \<exists>block. malloc (int n) = Some block \<and> length block = n"
  shows "\<exists>b t' raw. add_strings ss (new_dynamic_buffer kDefaultMaxLength) = Some b \<and>
    WriteToTensorAsVector malloc b t = Some t' \<and> st_dims t' = [int (length ss)] \<and>
    st_data t' = Some raw \<and> st_bytes t' = int (length raw) \<and> st_allocation_type t' = kTfLiteDynamic \<and>
    GetStringCount raw = Some (int (length ss)) \<and>
    (\<forall>i < length ss. Option.bind (GetString raw i) (string_at raw) = Some (ss ! i))"
proof -
  have "int (length (concat ([] @ ss))) < max_length (new_dynamic_buffer kDefaultMaxLength)"
    "max_length (new_dynamic_buffer kDefaultMaxLength) < 9223372036854775808"
    using small by (simp_all add: new_dynamic_buffer_def kDefaultMaxLength_def)
  from add_strings_holds [OF holds_new this] obtain b where
    b: "add_strings ss (new_dynamic_buffer kDefaultMaxLength) = Some b" "holds b ss" by auto
  obtain block where block: "malloc (int (4 * (length ss + 2) + length (concat ss))) = Some block"
    "length block = 4 * (length ss + 2) + length (concat ss)" using m by blast
  have n: "to_i32 (to_size (int (length (buf_offset b)) - 1)) = int (length ss)"
    using b(2) small by (simp add: holds_def fits32_def)
  have "to_size (int (length (string_bytes ss))) = int (length (string_bytes ss))"
    using small by (intro to_size_id) (simp_all add: length_string_bytes)
  then have "WriteToTensorAsVector malloc b t = Some (TfLiteTensorReset (st_type t) (st_name t) [int (length ss)] (st_params t)
      (Some (string_bytes ss)) (int (length (string_bytes ss))) kTfLiteDynamic (st_allocation t) (st_is_variable t) t)"
    using WriteToBuffer_holds [where malloc = malloc, OF b(2) small block] n
    by (simp add: WriteToTensorAsVector_def WriteToTensor_def)
  then show ?thesis
    using b(1) read_strings [OF small] by (simp add: TfLiteTensorReset_def)
qed

theorem string_tensor_roundtrip_witness:
  "\<exists>b t' raw. add_strings [[65, 66], []] (new_dynamic_buffer kDefaultMaxLength) = Some b \<and>
     WriteToTensorAsVector (\<lambda>n. Some (replicate (nat n) 7)) b
       \<lparr>st_type = 5, st_name = ''t'', st_dims = [], st_params = (0, 0), st_data = None, st_bytes = 0,
        st_allocation_type = kTfLiteMemNone, st_allocation = 0, st_is_variable = False, st_quantized = False\<rparr> = Some t' \<and>
     st_data t' = Some raw \<and> GetStringCount raw = Some 2 \<and>
     Option.bind (GetString raw 0) (string_at raw) = Some [65, 66] \<and> Option.bind (GetString raw 1) (string_at raw) = Some []"
proof -
  let ?ss = "[[65, 66], []] :: byte list list" and ?malloc = "\<lambda>n. Some (replicate (nat n) 7)"
  have p: "4 * (length ?ss + 2) + length (concat ?ss) < 2147483648"
    "\<forall>n. \<exists>block. ?malloc (int n) = Some block \<and> length block = n" by simp_all
  let ?t = "\<lparr>st_type = 5, st_name = ''t'', st_dims = [], st_params = (0, 0), st_data = None, st_bytes = 0,
    st_allocation_type = kTfLiteMemNone, st_allocation = 0, st_is_variable = False, st_quantized = False\<rparr>"
  obtain b t' raw where r: "add_strings ?ss (new_dynamic_buffer kDefaultMaxLength) = Some b"
    "WriteToTensorAsVector ?malloc b ?t = Some t'" "st_data t' = Some raw" "GetStringCount raw = Some (int (length ?ss))"
    "\<forall>i < length ?ss. Option.bind (GetString raw i) (string_at raw) = Some (?ss ! i)"
    using string_tensor_roundtrip [OF p, of ?t] by (elim exE conjE)
  have "Option.bind (GetString raw 0) (string_at raw) = Some [65, 66]" "Option.bind (GetString raw 1) (string_at raw) = Some []"
    using r(5) [rule_format, of 0] r(5) [rule_format, of 1] by simp_all
  moreover have "GetStringCount raw = Some 2" using r(4) by simp
  ultimately show ?thesis using r(1-3) by blast
qed

section \<open>Boundary cases\<close>

text \<open>Strings of exactly \<open>max_length\<close> bytes are refused.\<close>

lemma AddString_exact_limit: "AddString [65, 66] (new_dynamic_buffer 2) = Some (kTfLiteError, new_dynamic_buffer 2)"
  using AddString_holds [OF holds_new [of 2], of "[65, 66]"] by (simp add: new_dynamic_buffer_def)

text \<open>
  Joining no strings computes the length \<open>-1\<close> times that of the separator: the buffer loses its last
  byte, and the new record ends before it starts.
\<close>

lemma AddJoinedString_nothing:
  "AddJoinedString [] [44] \<lparr>buf_data = [65, 66], buf_offset = [0, 2], max_length = 9\<rparr> =
     Some \<lparr>buf_data = [65], buf_offset = [0, 2, 1], max_length = 9\<rparr>"
  by (simp add: AddJoinedString_def total_len_def to_size_def to_i32_def resize_data_def)

text \<open>When no memory is available the tensor has no data and the largest size.\<close>

lemma WriteToTensor_no_memory:
  "map_option (\<lambda>t'. (st_data t', st_bytes t')) (WriteToTensor (\<lambda>_. None) None (new_dynamic_buffer 9) t) =
     Some (None, 18446744073709551615)"
  by (simp add: WriteToTensor_def WriteToBuffer_def new_dynamic_buffer_def TfLiteTensorReset_def i32_def fits32_def to_size_def)

end
