(* ===== verification/TensorBytes.thy ===== *)
theory TensorBytes
  imports CheckedArith
begin

text \<open>
  How many bytes a tensor needs: \<open>MultiplyAndCheckOverflow\<close>, \<open>GetSizeOfType\<close> and \<open>BytesRequired\<close> of
  \<^verbatim>\<open>src/tflite/util.cc\<close>, and that the answer is exact. A dimension is an \<open>int\<close>, converted to
  \<open>size_t\<close> before it is multiplied.
\<close>

section \<open>Types\<close>

datatype TfLiteType =
    kTfLiteNoType
  | kTfLiteFloat32
  | kTfLiteInt32
  | kTfLiteUInt8
  | kTfLiteInt64
  | kTfLiteString
  | kTfLiteBool
  | kTfLiteInt16
  | kTfLiteComplex64
  | kTfLiteInt8
  | kTfLiteFloat16
  | kTfLiteFloat64
  | kTfLiteComplex128
  | kTfLiteUInt64
  | kTfLiteResource
  | kTfLiteVariant
  | kTfLiteUInt32
  | kTfLiteUInt16
  | kTfLiteInt4
  | kTfLiteBFloat16
  | kTfLiteInt2
  | kTfLiteUInt4

text \<open>\<open>None\<close> is an error status.\<close>

definition GetSizeOfType :: "TfLiteType \<Rightarrow> size_t option" where
  "GetSizeOfType ty = (case ty of
     kTfLiteFloat32 \<Rightarrow> Some 4
   | kTfLiteInt32 \<Rightarrow> Some 4
   | kTfLiteUInt32 \<Rightarrow> Some 4
   | kTfLiteUInt8 \<Rightarrow> Some 1
   | kTfLiteInt64 \<Rightarrow> Some 8
   | kTfLiteUInt64 \<Rightarrow> Some 8
   | kTfLiteBool \<Rightarrow> Some 1
   | kTfLiteComplex64 \<Rightarrow> Some 8
   | kTfLiteComplex128 \<Rightarrow> Some 16
   | kTfLiteUInt16 \<Rightarrow> Some 2
   | kTfLiteInt16 \<Rightarrow> Some 2
   | kTfLiteInt8 \<Rightarrow> Some 1
   | kTfLiteFloat16 \<Rightarrow> Some 2
   | kTfLiteBFloat16 \<Rightarrow> Some 2
   | kTfLiteFloat64 \<Rightarrow> Some 8
   | kTfLiteUInt4 \<Rightarrow> Some 1
   | kTfLiteInt4 \<Rightarrow> Some 1
   | kTfLiteInt2 \<Rightarrow> Some 1
   | _ \<Rightarrow> None)"

section \<open>Products\<close>

text \<open>The status and the product, which wraps around.\<close>

definition MultiplyAndCheckOverflow :: "size_t \<Rightarrow> size_t \<Rightarrow> TfLiteStatus \<times> size_t" where
  "MultiplyAndCheckOverflow a b =
     (let product = a * b in
      if drop_bit 32 (or a b) \<noteq> 0 \<and> a \<noteq> 0 \<and> product div a \<noteq> b then (kTfLiteError, product)
      else (kTfLiteOk, product))"

fun count_elements :: "size_t \<Rightarrow> int list \<Rightarrow> size_t option" where
  "count_elements n [] = Some n"
| "count_elements n (d # dims) =
     (case MultiplyAndCheckOverflow n (word_of_int d) of
        (status, m) \<Rightarrow> if status = kTfLiteOk then count_elements m dims else None)"

definition BytesRequired :: "TfLiteType \<Rightarrow> int list \<Rightarrow> size_t option" where
  "BytesRequired ty dims =
     Option.bind (count_elements 1 dims) (\<lambda>n.
     Option.bind (GetSizeOfType ty) (\<lambda>type_size.
       (case MultiplyAndCheckOverflow type_size n of
          (status, bytes) \<Rightarrow>
            if status \<noteq> kTfLiteOk then None
            else if ty = kTfLiteInt4 \<or> ty = kTfLiteUInt4 then Some ((bytes + 1) div 2)
            else if ty = kTfLiteInt2 then Some ((bytes + 3) div 4)
            else Some bytes)))"

section \<open>The check finds every overflow\<close>

lemma small_halves:
  fixes a b :: size_t
  assumes "drop_bit 32 (or a b) = 0"
  shows "unat a < 2 ^ 32 \<and> unat b < 2 ^ 32"
proof -
  have "drop_bit 32 a = 0 \<and> drop_bit 32 b = 0" using assms by (simp add: or_eq_0_iff)
  then have "unat (drop_bit 32 a) = 0" "unat (drop_bit 32 b) = 0" by simp_all
  then have "unat a div 2 ^ 32 = 0" "unat b div 2 ^ 32 = 0" by (simp_all add: drop_bit_eq_div unat_div)
  then show ?thesis by (simp add: div_eq_0_iff)
qed

lemma product_div:
  fixes a b :: size_t
  assumes "a \<noteq> 0"
  shows "a * b div a = b \<longleftrightarrow> unat a * unat b < 2 ^ 64"
proof
  assume "unat a * unat b < 2 ^ 64"
  then have "unat (a * b) = unat a * unat b" by (simp add: unat_word_ariths)
  then have "unat (a * b div a) = unat b" using assms by (simp add: unat_div unat_gt_0)
  then show "a * b div a = b" by (simp add: word_unat_eq_iff)
next
  assume eq: "a * b div a = b"
  have "unat b * unat a \<le> unat (a * b)"
    using div_times_less_eq_dividend [of "unat (a * b)" "unat a"] eq by (metis unat_div)
  moreover have "unat (a * b) < 2 ^ 64" using unsigned_less [of "a * b"] by simp
  ultimately show "unat a * unat b < 2 ^ 64" by (simp add: mult.commute)
qed

lemma MultiplyAndCheckOverflow_iff:
  "MultiplyAndCheckOverflow a b = (if unat a * unat b < 2 ^ 64 then kTfLiteOk else kTfLiteError, a * b)"
proof (cases "drop_bit 32 (or a b) = 0")
  case True
  from small_halves [OF this] have "unat a * unat b < 2 ^ 32 * 2 ^ 32" by (intro mult_strict_mono) simp_all
  with True show ?thesis by (simp add: MultiplyAndCheckOverflow_def)
next
  case False
  then show ?thesis by (cases "a = 0") (auto simp: MultiplyAndCheckOverflow_def product_div)
qed

section \<open>Exact sizes\<close>

lemma unat_dim:
  assumes "0 \<le> d" "d \<le> int32_max"
  shows "unat (word_of_int d :: size_t) = nat d"
  using assms by (simp add: unsigned_of_int take_bit_int_eq_self)

lemma count_elements_exact:
  assumes "\<forall>d \<in> set dims. 0 \<le> d \<and> d \<le> int32_max"
  shows "case count_elements n dims of
      Some m \<Rightarrow> unat m = unat n * nat (prod_list dims)
    | None \<Rightarrow> \<exists>k \<le> length dims. 2 ^ 64 \<le> unat n * nat (prod_list (take k dims))"
  using assms
proof (induction dims arbitrary: n)
  case (Cons d dims)
  let ?n = "n * word_of_int d"
  have d: "unat (word_of_int d :: size_t) = nat d" using unat_dim Cons.prems by simp
  have pos: "0 \<le> d" "0 \<le> prod_list dims" "0 \<le> prod_list (take k dims)" for k
    using Cons.prems by (auto intro!: prod_list_nonneg dest: in_set_takeD)
  show ?case
  proof (cases "unat n * nat d < 2 ^ 64")
    case True
    then have "unat ?n = unat n * nat d" by (simp add: unat_word_ariths d)
    note n = this
    have step: "count_elements n (d # dims) = count_elements ?n dims"
      using True by (simp add: MultiplyAndCheckOverflow_iff d)
    have part: "unat n * nat (prod_list (take (Suc k) (d # dims))) = unat ?n * nat (prod_list (take k dims))" for k
      using pos by (simp only: n take_Suc_Cons prod_list.Cons nat_mult_distrib mult.assoc)
    have all: "unat n * nat (prod_list (d # dims)) = unat ?n * nat (prod_list dims)"
      using pos by (simp only: n prod_list.Cons nat_mult_distrib mult.assoc)
    have IH: "case count_elements ?n dims of
        Some m \<Rightarrow> unat m = unat ?n * nat (prod_list dims)
      | None \<Rightarrow> \<exists>k \<le> length dims. 2 ^ 64 \<le> unat ?n * nat (prod_list (take k dims))"
      using Cons.IH Cons.prems by simp
    show ?thesis
    proof (cases "count_elements ?n dims")
      case None
      with IH obtain k where "k \<le> length dims" "2 ^ 64 \<le> unat ?n * nat (prod_list (take k dims))" by auto
      then have "Suc k \<le> length (d # dims) \<and> 2 ^ 64 \<le> unat n * nat (prod_list (take (Suc k) (d # dims)))" by (simp only: part) simp
      with None show ?thesis unfolding step by (simp only: option.case) blast
    next
      case (Some m)
      with IH show ?thesis unfolding step all by simp
    qed
  next
    case False
    then have "count_elements n (d # dims) = None" by (simp add: MultiplyAndCheckOverflow_iff d)
    moreover have "2 ^ 64 \<le> unat n * nat (prod_list (take 1 (d # dims)))" using False by simp
    ultimately show ?thesis by (auto intro!: exI [of _ 1])
  qed
qed simp

text \<open>Two values of four bits, or four of two bits, share a byte.\<close>

definition packed :: "TfLiteType \<Rightarrow> nat \<Rightarrow> nat" where
  "packed ty n = (if ty = kTfLiteInt4 \<or> ty = kTfLiteUInt4 then (n + 1) div 2
     else if ty = kTfLiteInt2 then (n + 3) div 4 else n)"

text \<open>C30: For dimensions that are not negative, the number of bytes is exact whenever one is returned (unless the
  number of elements is within three of \<open>2^64\<close>), and none is returned only when the type has no size or the number
  of bytes or of the elements of some leading dimensions does not fit into \<open>size_t\<close>.\<close>

theorem BytesRequired_exact:
  assumes "\<forall>d \<in> set dims. 0 \<le> d \<and> d \<le> int32_max"
  shows "case BytesRequired ty dims of
      Some b \<Rightarrow> \<exists>sz. GetSizeOfType ty = Some sz \<and> unat sz * nat (prod_list dims) < 2 ^ 64 \<and>
        (unat sz * nat (prod_list dims) < 2 ^ 64 - 3 \<longrightarrow> unat b = packed ty (unat sz * nat (prod_list dims)))
    | None \<Rightarrow> GetSizeOfType ty = None \<or> (\<exists>k \<le> length dims. 2 ^ 64 \<le> nat (prod_list (take k dims))) \<or>
        (\<exists>sz. GetSizeOfType ty = Some sz \<and> 2 ^ 64 \<le> unat sz * nat (prod_list dims))"
proof (cases "count_elements 1 dims")
  case None
  with count_elements_exact [OF assms, of 1] show ?thesis by (simp add: BytesRequired_def)
next
  case (Some m)
  with count_elements_exact [OF assms, of 1] have m: "unat m = nat (prod_list dims)" by simp
  show ?thesis
  proof (cases "GetSizeOfType ty")
    case (Some sz)
    let ?b = "unat sz * nat (prod_list dims)"
    have b: "unat (sz * m) = ?b" if "?b < 2 ^ 64" using that by (simp add: unat_word_ariths m)
    have "unat (sz * m + 1) = ?b + 1" "unat (sz * m + 3) = ?b + 3" if "?b < 2 ^ 64 - 3"
      using that b by (simp_all add: unat_word_ariths)
    then have "unat ((sz * m + 1) div 2) = (?b + 1) div 2" "unat ((sz * m + 3) div 4) = (?b + 3) div 4" if "?b < 2 ^ 64 - 3"
      using that by (simp_all add: unat_div)
    with \<open>count_elements 1 dims = Some m\<close> Some b show ?thesis
      by (auto simp: BytesRequired_def MultiplyAndCheckOverflow_iff m packed_def)
  qed (simp add: BytesRequired_def \<open>count_elements 1 dims = Some m\<close>)
qed

theorem BytesRequired_exact_witness: "unat (the (BytesRequired kTfLiteInt4 [3, 3])) = 5"
proof -
  have d: "\<forall>d \<in> set [3, 3]. 0 \<le> d \<and> d \<le> int32_max" by simp
  obtain b where b: "BytesRequired kTfLiteInt4 [3, 3] = Some b"
    by (simp add: BytesRequired_def MultiplyAndCheckOverflow_iff GetSizeOfType_def)
  have "GetSizeOfType kTfLiteInt4 = Some 1" by (simp add: GetSizeOfType_def)
  with BytesRequired_exact [OF d, of kTfLiteInt4] show ?thesis by (simp add: b packed_def)
qed

text \<open>A negative dimension is a large \<open>size_t\<close>, which no check excludes for a type of one byte.\<close>

lemma BytesRequired_negative: "BytesRequired kTfLiteInt8 [- 1] = Some size_max"
  using unsigned_less [of "- 1 :: size_t"] by (simp add: BytesRequired_def MultiplyAndCheckOverflow_iff GetSizeOfType_def)

end
