(* ===== verification/Subgraph.thy ===== *)
theory Subgraph
  imports SimplePlanner GraphPartition TensorBytes
begin

text \<open>
  The interpreter's subgraph, \<open>Subgraph\<close> in \<^verbatim>\<open>src/tflite/core/subgraph.h\<close> and
  \<^verbatim>\<open>subgraph.cc\<close>: its tensors, nodes and execution plan, the replacement of nodes by delegate
  kernels, preparation, memory planning and invocation, and the states in which each is allowed.

  Kernels and delegates are functions that other code registers; they are parameters (\<open>Env\<close>) that
  act on the subgraph. So is the memory planner, whose two implementations fit the parameter. The option that
  inlines composite operations is off.
\<close>

section \<open>State\<close>

text \<open>
  A tensor has, beyond what the planner sees, its type, its dimensions (a null pointer is \<open>None\<close>), and the delegate that
  owns its data.
\<close>

record SubTensor = TfLiteTensor +
  t_type :: TfLiteType
  t_dims :: "int list option"
  t_dims_signature :: "int list"
  t_is_variable :: bool
  t_zero_point :: int
  t_delegate :: "nat option"
  t_buffer_handle :: int
  t_data_is_stale :: bool

definition kTfLiteNullBufferHandle :: int where "kTfLiteNullBufferHandle = - 1"

text \<open>
  A registration: its operator code, and a number that stands for its functions. A node keeps a
  copy of its registration; \<open>sn_live\<close> says that its arrays have not been freed.
\<close>

record TfLiteRegistration =
  reg_builtin_code :: nat
  reg_kernel :: nat
  reg_inplace :: "64 word"
  reg_external :: bool

record SubNode =
  sn_node :: TfLiteNode
  sn_registration :: TfLiteRegistration
  sn_delegate :: "nat option"
  sn_params :: "NodeSubset option"
  sn_live :: bool

definition kTfLiteBuiltinDequantize :: nat where "kTfLiteBuiltinDequantize = 6"
definition kTfLiteBuiltinReshape :: nat where "kTfLiteBuiltinReshape = 22"
definition kTfLiteBuiltinDelegate :: nat where "kTfLiteBuiltinDelegate = 51"
definition kTfLiteBuiltinIf :: nat where "kTfLiteBuiltinIf = 118"
definition kTfLiteBuiltinWhile :: nat where "kTfLiteBuiltinWhile = 119"
definition kTfLiteBuiltinCallOnce :: nat where "kTfLiteBuiltinCallOnce = 129"

datatype SubgraphState = kStateUninvokable | kStateInvokable | kStateInvokableAndImmutable

record TfLiteCustomAllocation =
  ca_data :: ptr
  ca_bytes :: size_t

text \<open>
  The members of the class, with the C heap; \<open>'p\<close> is the type of the memory planner. The atomic flag
  \<open>continue_invocation\<close> is \<open>None\<close> when cancellation is not enabled.
\<close>

record 'p Subgraph =
  sg_tensors :: "SubTensor list"
  nodes_and_registration :: "SubNode list"
  execution_plan :: "int list"
  pre_delegation_execution_plan :: "int list"
  sg_inputs :: "int list"
  sg_outputs :: "int list"
  sg_variables :: "int list"
  sg_control_edges :: "ControlEdges option"
  sg_state :: SubgraphState
  consistent :: bool
  delegates_applied :: "nat list"
  delegates_undone :: bool
  next_to_prepare :: int
  next_original_to_prepare :: int
  next_to_plan_allocation :: int
  has_dynamic_tensors :: bool
  tensor_resized_since_op_invoke :: bool
  custom_allocations :: "(int \<times> TfLiteCustomAllocation) list"
  memory_planner :: "'p option"
  tensor_to_last_op_index :: "int \<rightharpoonup> int"
  continue_invocation :: "bool option"
  delegate_context_switch_count :: int
  partitioning_preview_cache :: "NodeSubset list"
  c_heap :: heap

text \<open>The interpreter's options that the subgraph reads.\<close>

record Options =
  opt_preserve_all_tensors :: bool
  opt_disable_delegate_clustering :: bool
  opt_release_dynamic_tensors :: bool
  opt_large_tensors_threshold :: int

text \<open>The interface \<open>MemoryPlanner\<close>; the heap is threaded beside the planner.\<close>

record 'p PlannerOps =
  mp_new :: "bool \<Rightarrow> 'p"
  mp_PlanAllocations :: "GraphInfo \<Rightarrow> 'p \<times> heap \<Rightarrow> TfLiteStatus \<times> 'p \<times> heap"
  mp_ExecuteAllocations :: "int \<Rightarrow> int \<Rightarrow> GraphInfo \<times> 'p \<times> heap \<Rightarrow> (TfLiteStatus \<times> GraphInfo \<times> 'p \<times> heap) option"
  mp_ResetAllocations :: "GraphInfo \<Rightarrow> 'p \<times> heap \<Rightarrow> TfLiteStatus \<times> 'p \<times> heap"
  mp_ResetAllocationsAfter :: "int \<Rightarrow> GraphInfo \<times> 'p \<times> heap \<Rightarrow> (TfLiteStatus \<times> GraphInfo \<times> 'p \<times> heap) option"
  mp_Release :: "GraphInfo \<times> 'p \<times> heap \<Rightarrow> (TfLiteStatus \<times> GraphInfo \<times> 'p \<times> heap) option"
  mp_Acquire :: "GraphInfo \<times> 'p \<times> heap \<Rightarrow> (TfLiteStatus \<times> GraphInfo \<times> 'p \<times> heap) option"
  mp_Has :: "'p \<Rightarrow> bool"

record 'p Delegate =
  d_flags :: "64 word"
  d_opaque :: bool
  d_Prepare :: "'p Subgraph \<Rightarrow> (TfLiteStatus \<times> 'p Subgraph) option"
  d_CopyFromBufferHandle :: "int \<Rightarrow> 'p Subgraph \<Rightarrow> TfLiteStatus \<times> 'p Subgraph"

text \<open>
  \<open>op_init\<close> says whether a kernel initialises; \<open>op_prepare\<close> and \<open>op_invoke\<close> are \<open>OpPrepare\<close> and
  \<open>OpInvoke\<close> on the node with the given index; \<open>check_cancelled\<close> is the client's function.
\<close>

record 'p Env =
  platform_of :: platform
  planner :: "'p PlannerOps"
  options :: Options
  delegate_of :: "nat \<Rightarrow> 'p Delegate"
  op_init :: "TfLiteRegistration \<Rightarrow> NodeSubset option \<Rightarrow> bool"
  op_prepare :: "int \<Rightarrow> 'p Subgraph \<Rightarrow> TfLiteStatus \<times> 'p Subgraph"
  op_invoke :: "int \<Rightarrow> 'p Subgraph \<Rightarrow> TfLiteStatus \<times> 'p Subgraph"
  check_cancelled :: "'p Subgraph \<Rightarrow> bool"

section \<open>Sequencing\<close>

text \<open>\<open>TF_LITE_ENSURE_STATUS\<close> and loops of it, where \<open>None\<close> is a call that does not return.\<close>

definition tf_then :: "(TfLiteStatus \<times> 's) option \<Rightarrow> ('s \<Rightarrow> (TfLiteStatus \<times> 's) option) \<Rightarrow> (TfLiteStatus \<times> 's) option" where
  "tf_then r k = (case r of None \<Rightarrow> None | Some (st, s) \<Rightarrow> if st = kTfLiteOk then k s else Some (st, s))"

definition tf_ensure :: "bool \<Rightarrow> 's \<Rightarrow> ('s \<Rightarrow> (TfLiteStatus \<times> 's) option) \<Rightarrow> (TfLiteStatus \<times> 's) option" where
  "tf_ensure b s k = (if b then k s else Some (kTfLiteError, s))"

fun tf_for :: "('s \<Rightarrow> 'x \<Rightarrow> (TfLiteStatus \<times> 's) option) \<Rightarrow> 's \<Rightarrow> 'x list \<Rightarrow> (TfLiteStatus \<times> 's) option" where
  "tf_for f s [] = Some (kTfLiteOk, s)"
| "tf_for f s (x # xs) = tf_then (f s x) (\<lambda>s'. tf_for f s' xs)"

section \<open>The graph that planners and partitioner see\<close>

definition node_at :: "'p Subgraph \<Rightarrow> int \<Rightarrow> SubNode" where
  "node_at s k = nodes_and_registration s ! nat k"

definition update_node :: "int \<Rightarrow> SubNode \<Rightarrow> 'p Subgraph \<Rightarrow> 'p Subgraph" where
  "update_node k n s = s\<lparr>nodes_and_registration := (nodes_and_registration s)[nat k := n]\<rparr>"

definition update_tensor :: "int \<Rightarrow> SubTensor \<Rightarrow> 'p Subgraph \<Rightarrow> 'p Subgraph" where
  "update_tensor t tns s = s\<lparr>sg_tensors := (sg_tensors s)[nat t := tns]\<rparr>"

definition InterpreterInfo :: "'p Subgraph \<Rightarrow> GraphInfo" where
  "InterpreterInfo s =
     \<lparr>tensors = map TfLiteTensor.truncate (sg_tensors s),
      nodes = map (\<lambda>k. sn_node (node_at s k)) (execution_plan s),
      node_index = map nat (execution_plan s),
      num_total_nodes = length (nodes_and_registration s),
      graph_inputs = sg_inputs s, graph_outputs = sg_outputs s, graph_variables = sg_variables s\<rparr>"

text \<open>What a planner has written into the tensors.\<close>

definition put_tensors :: "TfLiteTensor list \<Rightarrow> 'p Subgraph \<Rightarrow> 'p Subgraph" where
  "put_tensors ts s = s\<lparr>sg_tensors := map2 (\<lambda>u t. TfLiteTensor.extend u (TfLiteTensor.more t)) ts (sg_tensors s)\<rparr>"

definition with_planner ::
  "(GraphInfo \<times> 'p \<times> heap \<Rightarrow> (TfLiteStatus \<times> GraphInfo \<times> 'p \<times> heap) option) \<Rightarrow> 'p Subgraph \<Rightarrow> (TfLiteStatus \<times> 'p Subgraph) option" where
  "with_planner f s = (case memory_planner s of
     None \<Rightarrow> Some (kTfLiteOk, s)
   | Some p \<Rightarrow> map_option (\<lambda>(st, g, p', h). (st, put_tensors (tensors g) (s\<lparr>memory_planner := Some p', c_heap := h\<rparr>)))
       (f (InterpreterInfo s, p, c_heap s)))"

definition planning ::
  "(GraphInfo \<Rightarrow> 'p \<times> heap \<Rightarrow> TfLiteStatus \<times> 'p \<times> heap) \<Rightarrow> 'p Subgraph \<Rightarrow> (TfLiteStatus \<times> 'p Subgraph) option" where
  "planning f = with_planner (\<lambda>(g, p, h). case f g (p, h) of (st, p', h') \<Rightarrow> Some (st, g, p', h'))"

text \<open>The two planners.\<close>

definition arena_planner_ops ::
  "((int \<Rightarrow> int \<Rightarrow> bool) \<Rightarrow> int list \<Rightarrow> int list) \<Rightarrow>
   (ArenaAllocWithUsageInterval list \<Rightarrow> ArenaAllocWithUsageInterval list) \<Rightarrow> platform \<Rightarrow> ArenaPlanner PlannerOps" where
  "arena_planner_ops std_sort sort_allocs P =
     \<lparr>mp_new = (\<lambda>preserve. new_planner preserve 64),
      mp_PlanAllocations = (\<lambda>g (p, h). case PlanAllocations p g of (st, p') \<Rightarrow> (st, p', h)),
      mp_ExecuteAllocations = (\<lambda>fst_node lst_node (g, p, h).
        map_option (\<lambda>(st, p', g', h'). (st, g', p', h')) (ExecuteAllocations std_sort P h p g fst_node lst_node)),
      mp_ResetAllocations = (\<lambda>g (p, h). case ResetAllocations p g of (st, p') \<Rightarrow> (st, p', h)),
      mp_ResetAllocationsAfter = (\<lambda>node (g, p, h). case ResetAllocationsAfter sort_allocs p g node of (st, p', g') \<Rightarrow> Some (st, g', p', h)),
      mp_Release = (\<lambda>(g, p, h). case ReleaseNonPersistentMemory h p g of (st, p', g', h') \<Rightarrow> Some (st, g', p', h')),
      mp_Acquire = (\<lambda>(g, p, h). map_option (\<lambda>(st, p', g', h'). (st, g', p', h')) (AcquireNonPersistentMemory P h p g)),
      mp_Has = HasNonPersistentMemory\<rparr>"

definition simple_planner_ops :: "platform \<Rightarrow> SimplePlanner PlannerOps" where
  "simple_planner_ops P =
     \<lparr>mp_new = (\<lambda>_. new_simple_planner),
      mp_PlanAllocations = (\<lambda>g (p, h). Simple_PlanAllocations p g h),
      mp_ExecuteAllocations = (\<lambda>fst_node lst_node (g, p, h).
        case Simple_ExecuteAllocations P fst_node lst_node p g h of (st, p', g', h') \<Rightarrow> Some (st, g', p', h')),
      mp_ResetAllocations = (\<lambda>g (p, h). Simple_ResetAllocations p g h),
      mp_ResetAllocationsAfter = (\<lambda>node (g, p, h). case Simple_ResetAllocationsAfter node p g h of (st, p', g', h') \<Rightarrow> Some (st, g', p', h')),
      mp_Release = (\<lambda>(g, p, h). case Simple_ReleaseNonPersistentMemory p g h of (st, p', g', h') \<Rightarrow> Some (st, g', p', h')),
      mp_Acquire = (\<lambda>(g, p, h). case Simple_AcquireNonPersistentMemory p g of (st, g') \<Rightarrow> Some (st, g', p, h)),
      mp_Has = Simple_HasNonPersistentMemory\<rparr>"

section \<open>Building the graph\<close>

text \<open>A failed check of indices marks the subgraph as inconsistent.\<close>

definition CheckTensorIndices :: "int list \<Rightarrow> 'p Subgraph \<Rightarrow> TfLiteStatus \<times> 'p Subgraph" where
  "CheckTensorIndices indices s =
     (if list_all (\<lambda>i. i = kTfLiteOptionalTensor \<or> 0 \<le> i \<and> nat i < length (sg_tensors s)) indices
      then (kTfLiteOk, s) else (kTfLiteError, s\<lparr>consistent := False\<rparr>))"

definition CheckInputAndOutputForOverlap :: "int list \<Rightarrow> int list \<Rightarrow> 'p Subgraph \<Rightarrow> TfLiteStatus \<times> 'p Subgraph" where
  "CheckInputAndOutputForOverlap inputs outputs s =
     (if list_ex (\<lambda>i. list_ex (\<lambda>j. i = j) outputs) inputs then (kTfLiteError, s\<lparr>consistent := False\<rparr>) else (kTfLiteOk, s))"

definition SetInputs :: "int list \<Rightarrow> 'p Subgraph \<Rightarrow> TfLiteStatus \<times> 'p Subgraph" where
  "SetInputs is s = ensure_status (CheckTensorIndices is s) (\<lambda>s. (kTfLiteOk, s\<lparr>sg_inputs := is\<rparr>))"

definition SetOutputs :: "int list \<Rightarrow> 'p Subgraph \<Rightarrow> TfLiteStatus \<times> 'p Subgraph" where
  "SetOutputs os s = ensure_status (CheckTensorIndices os s) (\<lambda>s. (kTfLiteOk, s\<lparr>sg_outputs := os\<rparr>))"

definition SetVariables :: "int list \<Rightarrow> 'p Subgraph \<Rightarrow> TfLiteStatus \<times> 'p Subgraph" where
  "SetVariables vs s = ensure_status (CheckTensorIndices vs s) (\<lambda>s. (kTfLiteOk, s\<lparr>sg_variables := vs\<rparr>))"

definition SetExecutionPlan :: "int list \<Rightarrow> 'p Subgraph \<Rightarrow> TfLiteStatus \<times> 'p Subgraph" where
  "SetExecutionPlan new_plan s =
     (if list_all (\<lambda>k. 0 \<le> k \<and> nat k < length (nodes_and_registration s)) new_plan
      then (kTfLiteOk, s\<lparr>execution_plan := new_plan\<rparr>) else (kTfLiteError, s))"

definition new_tensor :: SubTensor where
  "new_tensor = \<lparr>allocation_type = kTfLiteMemNone, bytes = 0, data_ptr = nullptr, t_type = kTfLiteNoType, t_dims = None,
     t_dims_signature = [], t_is_variable = False, t_zero_point = 0, t_delegate = None, t_buffer_handle = kTfLiteNullBufferHandle,
     t_data_is_stale = False\<rparr>"

definition AddTensors :: "int \<Rightarrow> 'p Subgraph \<Rightarrow> TfLiteStatus \<times> 'p Subgraph" where
  "AddTensors tensors_to_add s =
     (if tensors_to_add < 0 then (kTfLiteError, s)
      else (kTfLiteOk, s\<lparr>sg_tensors := sg_tensors s @ replicate (nat tensors_to_add) new_tensor\<rparr>))"

definition AnyTensorOfTypeResource :: "SubTensor list \<Rightarrow> int list \<Rightarrow> bool" where
  "AnyTensorOfTypeResource ts indices =
     list_ex (\<lambda>i. 0 \<le> i \<and> nat i < length ts \<and> t_type (ts ! nat i) = kTfLiteResource) indices"

definition OpMightHaveSideEffect :: "int list \<Rightarrow> int list \<Rightarrow> TfLiteRegistration \<Rightarrow> 'p Subgraph \<Rightarrow> bool" where
  "OpMightHaveSideEffect inputs outputs registration s =
     (if AnyTensorOfTypeResource (sg_tensors s) inputs then True
      else if AnyTensorOfTypeResource (sg_tensors s) outputs then True
      else reg_builtin_code registration = kTfLiteBuiltinIf \<or> reg_builtin_code registration = kTfLiteBuiltinWhile \<or>
        reg_builtin_code registration = kTfLiteBuiltinCallOnce)"

text \<open>
  The new node has the next free index. \<open>params\<close> are the parameters of a delegate kernel; \<open>builtin_data\<close> says whether there
  are parameters at all. When the kernel does not initialise, the node stays with its arrays freed and an empty
  registration.
\<close>

definition new_sub_node ::
  "int list \<Rightarrow> int list \<Rightarrow> NodeSubset option \<Rightarrow> TfLiteRegistration \<Rightarrow> 'p Subgraph \<Rightarrow> SubNode" where
  "new_sub_node inputs outputs params registration s =
     \<lparr>sn_node = \<lparr>node_inputs = inputs, node_outputs = outputs, node_temporaries = [],
        might_have_side_effect = OpMightHaveSideEffect inputs outputs registration s, inplace_operator = reg_inplace registration\<rparr>,
      sn_registration = registration, sn_delegate = None, sn_params = params, sn_live = True\<rparr>"

definition failed_sub_node :: "int list \<Rightarrow> int list \<Rightarrow> SubNode" where
  "failed_sub_node inputs outputs =
     \<lparr>sn_node = \<lparr>node_inputs = inputs, node_outputs = outputs, node_temporaries = [],
        might_have_side_effect = False, inplace_operator = 0\<rparr>,
      sn_registration = \<lparr>reg_builtin_code = 0, reg_kernel = 0, reg_inplace = 0, reg_external = False\<rparr>,
      sn_delegate = None, sn_params = None, sn_live = False\<rparr>"

definition AddNodeWithParameters ::
  "'p Env \<Rightarrow> int list \<Rightarrow> int list \<Rightarrow> bool \<Rightarrow> NodeSubset option \<Rightarrow> TfLiteRegistration \<Rightarrow> 'p Subgraph \<Rightarrow> TfLiteStatus \<times> 'p Subgraph" where
  "AddNodeWithParameters E inputs outputs builtin_data params registration s =
     (if sg_state s = kStateInvokableAndImmutable then (kTfLiteError, s)
      else ensure_status (CheckTensorIndices inputs (s\<lparr>sg_state := kStateUninvokable\<rparr>)) (\<lambda>s.
        ensure_status (CheckTensorIndices outputs s) (\<lambda>s.
        ensure_status (if builtin_data then CheckInputAndOutputForOverlap inputs outputs s else (kTfLiteOk, s)) (\<lambda>s.
        let n = new_sub_node inputs outputs params registration s;
            k = int (length (nodes_and_registration s)) in
        if \<not> op_init E registration params
        then (kTfLiteError, s\<lparr>nodes_and_registration := nodes_and_registration s @ [failed_sub_node inputs outputs]\<rparr>)
        else (kTfLiteOk, s\<lparr>nodes_and_registration := nodes_and_registration s @ [n], execution_plan := execution_plan s @ [k]\<rparr>)))))"

text \<open>Freeing a node's arrays a second time has no meaning.\<close>

definition CleanupNode :: "int \<Rightarrow> 'p Subgraph \<Rightarrow> 'p Subgraph option" where
  "CleanupNode k s =
     (if sn_live (node_at s k) then Some (update_node k ((node_at s k)\<lparr>sn_live := False\<rparr>) s) else None)"

fun cleanup_nodes :: "int list \<Rightarrow> 'p Subgraph \<Rightarrow> 'p Subgraph option" where
  "cleanup_nodes [] s = Some s"
| "cleanup_nodes (k # ks) s = Option.bind (CleanupNode k s) (cleanup_nodes ks)"

text \<open>The loop over the nodes in the destructor.\<close>

definition destroy_nodes :: "'p Subgraph \<Rightarrow> 'p Subgraph option" where
  "destroy_nodes s = cleanup_nodes (map int [0..<length (nodes_and_registration s)]) s"

section \<open>Replacing nodes by delegate kernels\<close>

definition PartitionGraph :: "'p Env \<Rightarrow> int list \<Rightarrow> 'p Subgraph \<Rightarrow> (TfLiteStatus \<times> NodeSubset list) option" where
  "PartitionGraph E nodes_to_replace s =
     PartitionGraphIntoIndependentNodeSubsets (InterpreterInfo s) nodes_to_replace []
       (\<not> opt_disable_delegate_clustering (options E)) (sg_control_edges s) (opt_preserve_all_tensors (options E))"

definition FreeDelegatePartitioningData :: "'p Subgraph \<Rightarrow> 'p Subgraph" where
  "FreeDelegatePartitioningData s = s\<lparr>partitioning_preview_cache := []\<rparr>"

text \<open>The preview; the pointers through which it returns the cache are not null.\<close>

definition PreviewDelegatePartitioning :: "'p Env \<Rightarrow> int list \<Rightarrow> 'p Subgraph \<Rightarrow> (TfLiteStatus \<times> 'p Subgraph) option" where
  "PreviewDelegatePartitioning E nodes_to_replace s =
     (let s = FreeDelegatePartitioningData s in
      if nodes_to_replace = [] then Some (kTfLiteOk, s)
      else map_option (\<lambda>(st, ss).
        if st = kTfLiteError then (kTfLiteError, s)
        else (kTfLiteOk, s\<lparr>partitioning_preview_cache := filter (\<lambda>x. subset_type x = kTfPartition) ss\<rparr>))
        (PartitionGraph E nodes_to_replace s))"

definition claim_tensor :: "nat \<Rightarrow> 'p Subgraph \<Rightarrow> int \<Rightarrow> (TfLiteStatus \<times> 'p Subgraph) option" where
  "claim_tensor d s t =
     (let tns = sg_tensors s ! nat t in
      tf_ensure (t_delegate tns = None \<or> t_delegate tns = Some d) s
        (\<lambda>s. Some (kTfLiteOk, update_tensor t (tns\<lparr>t_delegate := Some d\<rparr>) s)))"

definition replace_subset ::
  "'p Env \<Rightarrow> TfLiteRegistration \<Rightarrow> nat \<Rightarrow> 'p Subgraph \<Rightarrow> NodeSubset \<Rightarrow> (TfLiteStatus \<times> 'p Subgraph) option" where
  "replace_subset E registration d s x = (case subset_type x of
     kTfNonPartition \<Rightarrow> Some (kTfLiteOk, s\<lparr>execution_plan := execution_plan s @ subset_nodes x\<rparr>)
   | kTfPartition \<Rightarrow>
       let k = int (length (nodes_and_registration s)) in
       tf_then (Some (AddNodeWithParameters E (input_tensors x) (output_tensors x) True (Some x) registration s)) (\<lambda>s.
       tf_then (tf_for (claim_tensor d) s (output_tensors x)) (\<lambda>s.
       Some (kTfLiteOk, update_node k ((node_at s k)\<lparr>sn_delegate := Some d\<rparr>) s)))
   | kTfUnexplored \<Rightarrow> Some (kTfLiteError, s))"

text \<open>The registration of a delegate kernel gets its own operator code.\<close>

definition ReplaceNodeSubsetsWithDelegateKernels ::
  "'p Env \<Rightarrow> TfLiteRegistration \<Rightarrow> int list \<Rightarrow> nat \<Rightarrow> 'p Subgraph \<Rightarrow> (TfLiteStatus \<times> 'p Subgraph) option" where
  "ReplaceNodeSubsetsWithDelegateKernels E registration nodes_to_replace d s =
     (let registration = registration\<lparr>reg_builtin_code := kTfLiteBuiltinDelegate\<rparr> in
      if d_opaque (delegate_of E d) \<and> \<not> reg_external registration then Some (kTfLiteDelegateError, s)
      else if nodes_to_replace = [] then Some (kTfLiteOk, s)
      else (case PartitionGraph E nodes_to_replace s of
        None \<Rightarrow> None
      | Some (st, ss) \<Rightarrow>
          if st = kTfLiteError then Some (kTfLiteError, s)
          else tf_for (replace_subset E registration d) (s\<lparr>execution_plan := []\<rparr>) ss))"

text \<open>
  The delegate interface of the context is available while the count is positive; when it goes away,
  the preview is freed.
\<close>

definition SwitchToDelegateContext :: "'p Subgraph \<Rightarrow> TfLiteStatus \<times> 'p Subgraph" where
  "SwitchToDelegateContext s =
     (if \<not> delegate_context_switch_count s \<ge> 0 then (kTfLiteError, s)
      else (kTfLiteOk, s\<lparr>delegate_context_switch_count := delegate_context_switch_count s + 1\<rparr>))"

definition SwitchToKernelContext :: "'p Subgraph \<Rightarrow> TfLiteStatus \<times> 'p Subgraph" where
  "SwitchToKernelContext s =
     (if \<not> delegate_context_switch_count s \<ge> 1 then (kTfLiteError, s)
      else let s = (if delegate_context_switch_count s = 1 then FreeDelegatePartitioningData s else s)
        in (kTfLiteOk, s\<lparr>delegate_context_switch_count := delegate_context_switch_count s - 1\<rparr>))"

definition IsFullyDelegated :: "'p Subgraph \<Rightarrow> bool" where
  "IsFullyDelegated s = list_all (\<lambda>nid. sn_delegate (node_at s nid) \<noteq> None) (execution_plan s)"

end
