(* ===== verification/SubgraphOps.thy ===== *)
theory SubgraphOps
  imports Subgraph "HOL-Library.AList"
begin

text \<open>
  The life of a subgraph in \<^verbatim>\<open>src/tflite/core/subgraph.cc\<close>: resizing tensors, preparing the
  nodes and planning memory, invoking, and applying, undoing and redoing delegates.
\<close>

section \<open>Tensors and their memory\<close>

definition tensor_at :: "'p Subgraph \<Rightarrow> int \<Rightarrow> SubTensor" where
  "tensor_at s t = sg_tensors s ! nat t"

text \<open>Whether \<open>tensor(t)\<close> is not null.\<close>

definition has_tensor :: "'p Subgraph \<Rightarrow> int \<Rightarrow> bool" where
  "has_tensor s t \<longleftrightarrow> 0 \<le> t \<and> nat t < length (sg_tensors s)"

definition HasDynamicTensorImpl :: "'p Subgraph \<Rightarrow> int list \<Rightarrow> bool" where
  "HasDynamicTensorImpl s = list_ex (\<lambda>i. i \<noteq> kTfLiteOptionalTensor \<and> allocation_type (tensor_at s i) = kTfLiteDynamic)"

text \<open>The variant object is deleted like a block of the heap.\<close>

definition TfLiteTensorDataFree :: "SubTensor \<times> heap \<Rightarrow> SubTensor \<times> heap" where
  "TfLiteTensorDataFree = (\<lambda>(tns, h).
     (tns\<lparr>data_ptr := nullptr\<rparr>,
      if allocation_type tns = kTfLiteVariantObject \<or> allocation_type tns = kTfLiteDynamic \<or> allocation_type tns = kTfLitePersistentRo
      then free h (data_ptr tns) else h))"

definition free_data :: "int \<Rightarrow> 'p Subgraph \<Rightarrow> 'p Subgraph" where
  "free_data t s = (case TfLiteTensorDataFree (tensor_at s t, c_heap s) of (tns, h) \<Rightarrow> (update_tensor t tns s)\<lparr>c_heap := h\<rparr>)"

definition TfLiteTensorResizeMaybeCopy :: "platform \<Rightarrow> size_t \<Rightarrow> bool \<Rightarrow> SubTensor \<times> heap \<Rightarrow> TfLiteStatus \<times> SubTensor \<times> heap" where
  "TfLiteTensorResizeMaybeCopy P num_bytes preserve_data = (\<lambda>(tns, h).
     if allocation_type tns \<noteq> kTfLiteDynamic \<and> allocation_type tns \<noteq> kTfLitePersistentRo then (kTfLiteOk, tns, h)
     else
       let alloc_bytes = num_bytes + 16;
           (p, h') =
             (if data_ptr tns = nullptr then
                let p = malloc_at P h alloc_bytes in (p, block_add h p alloc_bytes)
              else if num_bytes > bytes tns then
                if preserve_data then
                  let p = malloc_at P h alloc_bytes in
                  (p, if p = nullptr then h
                      else free (memcpy (block_add h p alloc_bytes) p (data_ptr tns) (bytes tns)) (data_ptr tns))
                else
                  let h1 = free h (data_ptr tns); p = malloc_at P h1 alloc_bytes in (p, block_add h1 p alloc_bytes)
              else (data_ptr tns, h))
       in (if p = nullptr \<and> num_bytes \<noteq> 0 then kTfLiteError else kTfLiteOk, tns\<lparr>data_ptr := p, bytes := num_bytes\<rparr>, h'))"

definition TfLiteTensorRealloc :: "platform \<Rightarrow> size_t \<Rightarrow> SubTensor \<times> heap \<Rightarrow> TfLiteStatus \<times> SubTensor \<times> heap" where
  "TfLiteTensorRealloc P num_bytes = TfLiteTensorResizeMaybeCopy P num_bytes True"

section \<open>Resizing\<close>

definition sized_by_type :: "TfLiteType \<Rightarrow> bool" where
  "sized_by_type ty \<longleftrightarrow> ty \<noteq> kTfLiteString \<and> ty \<noteq> kTfLiteResource \<and> ty \<noteq> kTfLiteVariant"

definition ResizeTensorImpl :: "'p Env \<Rightarrow> int \<Rightarrow> int list \<Rightarrow> 'p Subgraph \<Rightarrow> TfLiteStatus \<times> 'p Subgraph" where
  "ResizeTensorImpl E t new_size s =
     (let tns = tensor_at s t in
      if allocation_type tns \<in> {kTfLiteArenaRw, kTfLiteDynamic, kTfLiteArenaRwPersistent, kTfLitePersistentRo, kTfLiteCustom, kTfLiteNonCpu}
      then
        let s1 = s\<lparr>tensor_resized_since_op_invoke := tensor_resized_since_op_invoke s \<or> t_dims tns \<noteq> Some new_size\<rparr>;
            resize = (\<lambda>u h.
              let u1 = u\<lparr>t_dims := Some new_size\<rparr>;
                  u2 = (if allocation_type tns = kTfLiteArenaRw \<or> allocation_type tns = kTfLiteArenaRwPersistent
                        then u1\<lparr>data_ptr := nullptr\<rparr> else u1)
              in (kTfLiteOk, (update_tensor t u2 s1)\<lparr>c_heap := h\<rparr>))
        in if sized_by_type (t_type tns) then
             (case BytesRequired (t_type tns) new_size of
                None \<Rightarrow> (kTfLiteError, s1)
              | Some bytes_required \<Rightarrow>
                  (case TfLiteTensorResizeMaybeCopy (platform_of E) bytes_required False (tns, c_heap s1) of
                     (_, u, h) \<Rightarrow> resize (u\<lparr>bytes := bytes_required\<rparr>) h))
           else resize tns (c_heap s1)
      else (kTfLiteError, s))"

text \<open>What \<open>BytesRequired\<close> leaves in a count that starts at zero, also when it fails.\<close>

definition BytesRequired_out :: "TfLiteType \<Rightarrow> int list \<Rightarrow> size_t" where
  "BytesRequired_out ty dims = (case BytesRequired ty dims of
     Some b \<Rightarrow> b
   | None \<Rightarrow> (case (count_elements 1 dims, GetSizeOfType ty) of
       (Some n, Some type_size) \<Rightarrow> snd (MultiplyAndCheckOverflow type_size n)
     | _ \<Rightarrow> 0))"

text \<open>The entry that kernels call; it keeps the allocation of a tensor that does not change.\<close>

definition can_reuse_allocation :: "SubTensor \<Rightarrow> int list \<Rightarrow> bool" where
  "can_reuse_allocation tns new_size \<longleftrightarrow> data_ptr tns \<noteq> nullptr \<and> t_dims tns = Some new_size \<and>
     (sized_by_type (t_type tns) \<longrightarrow> BytesRequired_out (t_type tns) new_size = bytes tns)"

definition ResizeTensor :: "'p Env \<Rightarrow> int \<Rightarrow> int list \<Rightarrow> 'p Subgraph \<Rightarrow> TfLiteStatus \<times> 'p Subgraph" where
  "ResizeTensor E t new_size s =
     (if can_reuse_allocation (tensor_at s t) new_size then (kTfLiteOk, s) else ResizeTensorImpl E t new_size s)"

section \<open>Undoing delegates\<close>

text \<open>\<open>fp16_to_fp32\<close> maps each half-precision tensor that a \<open>DEQUANTIZE\<close> node of the plan reads to the node's output.\<close>

definition remember_fp16 :: "'p Subgraph \<Rightarrow> int list \<Rightarrow> int \<Rightarrow> int list" where
  "remember_fp16 s m k =
     (let n = sn_node (node_at s k) in
      case (node_inputs n, node_outputs n) of
        ([i], [out]) \<Rightarrow>
          if reg_builtin_code (sn_registration (node_at s k)) = kTfLiteBuiltinDequantize \<and> t_type (tensor_at s i) = kTfLiteFloat16
          then m[nat i := out] else m
      | _ \<Rightarrow> m)"

definition fp16_to_fp32 :: "'p Subgraph \<Rightarrow> int list" where
  "fp16_to_fp32 s = foldl (remember_fp16 s) (map int [0..<length (sg_tensors s)]) (execution_plan s)"

definition remap_input :: "'p Subgraph \<Rightarrow> int list \<Rightarrow> int \<Rightarrow> int" where
  "remap_input s m i =
     (if i \<noteq> kTfLiteOptionalTensor \<and> t_type (tensor_at s i) = kTfLiteFloat16 then m ! nat i else i)"

definition remap_node :: "int list \<Rightarrow> 'p Subgraph \<Rightarrow> int \<Rightarrow> 'p Subgraph" where
  "remap_node m s k =
     (let x = node_at s k; n = sn_node x in
      if reg_builtin_code (sn_registration x) = kTfLiteBuiltinDequantize then s
      else update_node k (x\<lparr>sn_node := n\<lparr>node_inputs := map (remap_input s m) (node_inputs n)\<rparr>\<rparr>) s)"

definition empty_sub_node :: SubNode where
  "empty_sub_node = (failed_sub_node [] [])\<lparr>sn_live := True\<rparr>"

definition UndoAllDelegates :: "'p Subgraph \<Rightarrow> (TfLiteStatus \<times> 'p Subgraph) option" where
  "UndoAllDelegates s =
     (if pre_delegation_execution_plan s = [] then Some (kTfLiteOk, s)
      else map_option (\<lambda>s1.
        let s2 = s1\<lparr>execution_plan := pre_delegation_execution_plan s1, pre_delegation_execution_plan := []\<rparr>;
            s3 = foldl (remap_node (fp16_to_fp32 s2)) s2 (execution_plan s2);
            retained = nat (foldl max 0 (execution_plan s3)) + 1;
            nds = nodes_and_registration s3
        in (kTfLiteOk, s3\<lparr>nodes_and_registration := take retained nds @ replicate (retained - length nds) empty_sub_node,
              sg_state := kStateUninvokable, delegates_undone := True\<rparr>))
        (cleanup_nodes (filter (\<lambda>k. sn_delegate (node_at s k) \<noteq> None) (execution_plan s)) s))"

section \<open>Resizing inputs and releasing memory\<close>

text \<open>\<open>dims_data\<close> is a pointer that may be null.\<close>

definition ResizeInputTensor :: "'p Env \<Rightarrow> int \<Rightarrow> int list option \<Rightarrow> nat \<Rightarrow> 'p Subgraph \<Rightarrow> (TfLiteStatus \<times> 'p Subgraph) option" where
  "ResizeInputTensor E t dims_data rank s =
     (let dims = take rank (case dims_data of None \<Rightarrow> [] | Some l \<Rightarrow> l);
          graph_is_immutable = (sg_state s = kStateInvokableAndImmutable)
      in if rank \<noteq> 0 \<and> dims_data = None then Some (kTfLiteError, s)
         else if graph_is_immutable \<and> delegates_applied s = [] then Some (kTfLiteError, s)
         else tf_ensure (has_tensor s t) s (\<lambda>s.
           if data_ptr (tensor_at s t) \<noteq> nullptr \<and> t_dims (tensor_at s t) = Some dims then Some (kTfLiteOk, s)
           else tf_then (if graph_is_immutable then UndoAllDelegates s else Some (kTfLiteOk, s)) (\<lambda>s.
             Some (ResizeTensorImpl E t dims (s\<lparr>sg_state := kStateUninvokable\<rparr>)))))"

definition GetDimsSignature :: "SubTensor \<Rightarrow> int list option" where
  "GetDimsSignature tns = (if t_dims_signature tns \<noteq> [] then Some (t_dims_signature tns) else t_dims tns)"

definition ResizeInputTensorStrict :: "'p Env \<Rightarrow> int \<Rightarrow> int list \<Rightarrow> 'p Subgraph \<Rightarrow> (TfLiteStatus \<times> 'p Subgraph) option" where
  "ResizeInputTensorStrict E t dims s =
     tf_ensure (has_tensor s t) s (\<lambda>s.
       case (t_dims (tensor_at s t), GetDimsSignature (tensor_at s t)) of
         (Some old, Some signature) \<Rightarrow>
           tf_ensure (length old = length dims) s (\<lambda>s.
             if list_all (\<lambda>i. signature ! i = - 1 \<or> signature ! i = dims ! i) [0..<length dims]
             then ResizeInputTensor E t (Some dims) (length dims) s else Some (kTfLiteError, s))
       | _ \<Rightarrow> None)"

definition SG_ReleaseNonPersistentMemory :: "'p Env \<Rightarrow> 'p Subgraph \<Rightarrow> (TfLiteStatus \<times> 'p Subgraph) option" where
  "SG_ReleaseNonPersistentMemory E s = with_planner (mp_Release (planner E)) (s\<lparr>sg_state := kStateUninvokable\<rparr>)"

definition free_dynamic :: "'p Subgraph \<Rightarrow> int \<Rightarrow> 'p Subgraph" where
  "free_dynamic s t =
     (if t = kTfLiteOptionalTensor \<or> \<not> has_tensor s t \<or> allocation_type (tensor_at s t) \<noteq> kTfLiteDynamic then s
      else if data_ptr (tensor_at s t) \<noteq> nullptr then free_data t s else s)"

definition ReleaseMemory :: "'p Env \<Rightarrow> 'p Subgraph \<Rightarrow> (TfLiteStatus \<times> 'p Subgraph) option" where
  "ReleaseMemory E s =
     map_option (\<lambda>(_, s1). (kTfLiteOk, foldl free_dynamic (foldl free_dynamic s1 (sg_inputs s1)) (sg_outputs s1)))
       (SG_ReleaseNonPersistentMemory E (s\<lparr>sg_state := kStateUninvokable\<rparr>))"

section \<open>Unused inputs\<close>

definition GetInputTensorsCount :: "'p Subgraph \<Rightarrow> int list" where
  "GetInputTensorsCount s =
     foldl (\<lambda>c t. c[nat t := c ! nat t + 1])
       (foldl (\<lambda>c t. if t = kTfLiteOptionalTensor then c else c[nat t := c ! nat t + 1]) (replicate (length (sg_tensors s)) 0)
          (concat (map (\<lambda>k. node_inputs (sn_node (node_at s k))) (execution_plan s))))
       (sg_outputs s)"

definition remove_unused :: "int list \<Rightarrow> 'p Subgraph \<Rightarrow> nat \<Rightarrow> 'p Subgraph" where
  "remove_unused uses s i =
     (let t = sg_inputs s ! i in
      if t \<noteq> kTfLiteOptionalTensor \<and> uses ! nat t = 0
      then (update_tensor t ((tensor_at s t)\<lparr>bytes := 0\<rparr>) s)\<lparr>sg_inputs := (sg_inputs s)[i := kTfLiteOptionalTensor]\<rparr>
      else s)"

definition RemoveUnusedInputs :: "'p Subgraph \<Rightarrow> TfLiteStatus \<times> 'p Subgraph" where
  "RemoveUnusedInputs s = (kTfLiteOk, foldl (remove_unused (GetInputTensorsCount s)) s [0..<length (sg_inputs s)])"

section \<open>Custom allocations\<close>

definition SetCustomAllocationForTensor :: "int \<Rightarrow> TfLiteCustomAllocation \<Rightarrow> bool \<Rightarrow> 'p Subgraph \<Rightarrow> (TfLiteStatus \<times> 'p Subgraph) option" where
  "SetCustomAllocationForTensor t allocation skip_align_check s =
     tf_ensure (allocation_type (tensor_at s t) \<in> {kTfLiteArenaRw, kTfLiteArenaRwPersistent, kTfLiteCustom, kTfLiteNonCpu}) s (\<lambda>s.
     tf_ensure (ca_data allocation \<noteq> nullptr) s (\<lambda>s.
     tf_ensure (skip_align_check \<or> unat (ca_data allocation) mod 64 = 0) s (\<lambda>s.
     Some (kTfLiteOk, update_tensor t ((tensor_at s t)\<lparr>allocation_type := kTfLiteCustom, data_ptr := ca_data allocation\<rparr>)
       (s\<lparr>custom_allocations := AList.update t allocation (custom_allocations s)\<rparr>)))))"

definition VerifyCustomAllocationForTensor :: "'p Subgraph \<Rightarrow> int \<Rightarrow> TfLiteStatus" where
  "VerifyCustomAllocationForTensor s t =
     (if allocation_type (tensor_at s t) \<noteq> kTfLiteCustom then kTfLiteOk
      else (case map_of (custom_allocations s) t of
        None \<Rightarrow> kTfLiteError
      | Some a \<Rightarrow> if ca_bytes a < bytes (tensor_at s t) then kTfLiteError else kTfLiteOk))"

text \<open>The checks do not change the subgraph.\<close>

definition verify_allocations :: "'p Subgraph \<Rightarrow> int list \<Rightarrow> bool" where
  "verify_allocations s = list_all (\<lambda>t. t = kTfLiteOptionalTensor \<or> VerifyCustomAllocationForTensor s t = kTfLiteOk)"

section \<open>Preparing\<close>

text \<open>The loop over a plan; the result also carries the index of the last node prepared.\<close>

fun prepare_ops :: "'p Env \<Rightarrow> int \<Rightarrow> 'p Subgraph \<Rightarrow> (int \<times> int) list \<Rightarrow> TfLiteStatus \<times> int \<times> 'p Subgraph" where
  "prepare_ops E lst s [] = (kTfLiteOk, lst, s)"
| "prepare_ops E lst s ((i, k) # ks) =
     (case op_prepare E k s of (st, s') \<Rightarrow>
        if st \<noteq> kTfLiteOk \<and> st \<noteq> kTfLiteOutputShapeNotKnown then (st, lst, s')
        else if HasDynamicTensorImpl s' (node_outputs (sn_node (node_at s' k))) \<or> st = kTfLiteOutputShapeNotKnown
        then (kTfLiteOk, i, s'\<lparr>has_dynamic_tensors := True\<rparr>)
        else prepare_ops E i s' ks)"

definition indexed :: "int list \<Rightarrow> (int \<times> int) list" where
  "indexed plan = zip (map int [0..<length plan]) plan"

definition PrepareOpsStartingAt :: "'p Env \<Rightarrow> int \<Rightarrow> int list \<Rightarrow> int \<Rightarrow> 'p Subgraph \<Rightarrow> TfLiteStatus \<times> int \<times> 'p Subgraph" where
  "PrepareOpsStartingAt E first_index plan lst s =
     prepare_ops E lst
       (if first_index = 0 then s\<lparr>has_dynamic_tensors := HasDynamicTensorImpl s (sg_outputs s)\<rparr> else s)
       (drop (nat first_index) (indexed plan))"

definition kTfLiteDelegateFlagsAllowDynamicTensors :: "64 word" where "kTfLiteDelegateFlagsAllowDynamicTensors = 1"
definition kTfLiteDelegateFlagsRequirePropagatedShapes :: "64 word" where "kTfLiteDelegateFlagsRequirePropagatedShapes = 2"
definition kTfLiteDelegateFlagsHintFullyDelegatedToSingleDelegate :: "64 word" where
  "kTfLiteDelegateFlagsHintFullyDelegatedToSingleDelegate = 8"

definition has_flag :: "'p Env \<Rightarrow> nat \<Rightarrow> 64 word \<Rightarrow> bool" where
  "has_flag E d flag \<longleftrightarrow> and (d_flags (delegate_of E d)) flag \<noteq> 0"

definition prepare_original_plan :: "'p Env \<Rightarrow> 'p Subgraph \<Rightarrow> bool" where
  "prepare_original_plan E s \<longleftrightarrow> pre_delegation_execution_plan s \<noteq> [] \<and>
     list_ex (\<lambda>d. has_flag E d kTfLiteDelegateFlagsRequirePropagatedShapes) (delegates_applied s)"

definition prepare_original :: "'p Env \<Rightarrow> 'p Subgraph \<Rightarrow> TfLiteStatus \<times> 'p Subgraph" where
  "prepare_original E s =
     (if prepare_original_plan E s then
        (case PrepareOpsStartingAt E (next_to_prepare s) (pre_delegation_execution_plan s) 0 s of (st, lst, s') \<Rightarrow>
           if st \<noteq> kTfLiteOk then (st, s') else (kTfLiteOk, s'\<lparr>next_original_to_prepare := lst + 1\<rparr>))
      else (kTfLiteOk, s))"

text \<open>The planner is created when first needed; the status of its first plan is not looked at.\<close>

definition ensure_planner :: "'p Env \<Rightarrow> 'p Subgraph \<Rightarrow> 'p Subgraph option" where
  "ensure_planner E s = (case memory_planner s of
     Some _ \<Rightarrow> Some s
   | None \<Rightarrow> map_option snd (planning (mp_PlanAllocations (planner E))
       (s\<lparr>memory_planner := Some (mp_new (planner E) (opt_preserve_all_tensors (options E)))\<rparr>)))"

text \<open>
  The check of custom allocations after nodes have been prepared; it looks at the nodes whose indices,
  not whose positions in the plan, lie in the range.
\<close>

definition verify_prepared :: "int \<Rightarrow> 'p Subgraph \<Rightarrow> bool" where
  "verify_prepared lst s \<longleftrightarrow> custom_allocations s = [] \<or>
     (nodes_and_registration s = [] \<or>
        list_all (\<lambda>k. verify_allocations s (node_outputs (sn_node (node_at s k)))) [next_to_plan_allocation s..lst]) \<and>
     (next_to_plan_allocation s = 0 \<longrightarrow> verify_allocations s (sg_inputs s))"

definition PrepareOpsAndTensors :: "'p Env \<Rightarrow> 'p Subgraph \<Rightarrow> (TfLiteStatus \<times> 'p Subgraph) option" where
  "PrepareOpsAndTensors E s =
     tf_then (Some (prepare_original E s)) (\<lambda>s.
       case PrepareOpsStartingAt E (next_to_prepare s) (execution_plan s) 0 s of (st, lst, s1) \<Rightarrow>
         if st \<noteq> kTfLiteOk then Some (st, s1)
         else Option.bind (ensure_planner E (s1\<lparr>next_to_prepare := lst + 1\<rparr>)) (\<lambda>s2.
           tf_then (with_planner (mp_ExecuteAllocations (planner E) (next_to_plan_allocation s2) lst) s2) (\<lambda>s3.
           tf_ensure (verify_prepared lst s3) s3 (\<lambda>s4.
           Some (kTfLiteOk, s4\<lparr>next_to_plan_allocation := lst + 1\<rparr>)))))"

section \<open>Allocating\<close>

definition memset :: "heap \<Rightarrow> ptr \<Rightarrow> int \<Rightarrow> size_t \<Rightarrow> heap" where
  "memset h p v n = h\<lparr>heap_bytes := (\<lambda>q. if q - p < n then word_of_int v else heap_bytes h q)\<rparr>"

definition ResetVariableTensor :: "SubTensor \<Rightarrow> heap \<Rightarrow> heap" where
  "ResetVariableTensor tns h =
     (if \<not> t_is_variable tns then h
      else memset h (data_ptr tns) (if t_type tns = kTfLiteInt8 then t_zero_point tns else 0) (bytes tns))"

fun reset_variables :: "SubTensor list \<Rightarrow> heap \<Rightarrow> TfLiteStatus \<times> heap" where
  "reset_variables [] h = (kTfLiteOk, h)"
| "reset_variables (tns # ts) h =
     (if \<not> t_is_variable tns then reset_variables ts h
      else if allocation_type tns = kTfLiteArenaRwPersistent then
        (if data_ptr tns = nullptr then (kTfLiteError, h) else reset_variables ts (ResetVariableTensor tns h))
      else if allocation_type tns = kTfLiteCustom then reset_variables ts h
      else (kTfLiteError, h))"

definition ResetVariableTensors :: "'p Subgraph \<Rightarrow> TfLiteStatus \<times> 'p Subgraph" where
  "ResetVariableTensors s = (case reset_variables (sg_tensors s) (c_heap s) of (st, h) \<Rightarrow> (st, s\<lparr>c_heap := h\<rparr>))"

definition note_last_op :: "'p Subgraph \<Rightarrow> int \<Rightarrow> 'p Subgraph" where
  "note_last_op s k =
     (let n = sn_node (node_at s k) in
      s\<lparr>tensor_to_last_op_index := foldl (\<lambda>m t. if has_tensor s t then m(t \<mapsto> k) else m) (tensor_to_last_op_index s)
          (node_inputs n @ node_outputs n)\<rparr>)"

definition InitializeTensorReleaseMap :: "'p Subgraph \<Rightarrow> 'p Subgraph" where
  "InitializeTensorReleaseMap s = foldl note_last_op s (execution_plan s)"

text \<open>The nodes of the old plan that the new plan does not run; the order of the set is immaterial.\<close>

definition free_temporary :: "'p Subgraph \<Rightarrow> int \<Rightarrow> 'p Subgraph" where
  "free_temporary s t = (let s' = free_data t s in update_tensor t ((tensor_at s' t)\<lparr>bytes := 0\<rparr>) s')"

definition free_delegated_temporaries :: "'p Subgraph \<Rightarrow> 'p Subgraph" where
  "free_delegated_temporaries s =
     foldl (\<lambda>s k. foldl free_temporary s (node_temporaries (sn_node (node_at s k)))) s
       (filter (\<lambda>k. k \<notin> set (execution_plan s)) (remdups (pre_delegation_execution_plan s)))"

text \<open>When nothing has to be allocated anew.\<close>

definition allocate_again :: "'p Env \<Rightarrow> 'p Subgraph \<Rightarrow> (TfLiteStatus \<times> 'p Subgraph) option" where
  "allocate_again E s =
     map_option (\<lambda>(_, s1).
       if list_all (\<lambda>(t, _). allocation_type (tensor_at s1 t) = kTfLiteCustom \<and>
            VerifyCustomAllocationForTensor s1 t = kTfLiteOk) (custom_allocations s1)
       then (kTfLiteOk, s1) else (kTfLiteError, s1))
       (case memory_planner s of
          Some p \<Rightarrow> if mp_Has (planner E) p then Some (kTfLiteOk, s) else with_planner (mp_Acquire (planner E)) s
        | None \<Rightarrow> Some (kTfLiteOk, s))"

definition allocate_anew :: "'p Env \<Rightarrow> 'p Subgraph \<Rightarrow> (TfLiteStatus \<times> 'p Subgraph) option" where
  "allocate_anew E s =
     tf_then (planning (mp_ResetAllocations (planner E))
       (s\<lparr>next_to_prepare := 0, next_to_plan_allocation := 0, next_original_to_prepare := 0\<rparr>)) (\<lambda>s.
     tf_then (PrepareOpsAndTensors E s) (\<lambda>s.
     let s1 = InitializeTensorReleaseMap (snd (ResetVariableTensors (s\<lparr>sg_state := kStateInvokable\<rparr>)))
     in Some (kTfLiteOk, if pre_delegation_execution_plan s1 \<noteq> [] then free_delegated_temporaries s1 else s1)))"

text \<open>\<open>redo\<close> is \<open>RedoAllDelegates\<close>.\<close>

definition AllocateTensors_with ::
  "('p Subgraph \<Rightarrow> (TfLiteStatus \<times> 'p Subgraph) option) \<Rightarrow> 'p Env \<Rightarrow> 'p Subgraph \<Rightarrow> (TfLiteStatus \<times> 'p Subgraph) option" where
  "AllocateTensors_with redo E s =
     tf_ensure (consistent s) s (\<lambda>s.
     tf_then (redo s) (\<lambda>s.
     if sg_state s \<noteq> kStateUninvokable \<and> \<not> HasDynamicTensorImpl s (sg_inputs s) then allocate_again E s
     else allocate_anew E s))"

section \<open>Invoking\<close>

definition EnsureTensorDataIsReadable :: "'p Env \<Rightarrow> int \<Rightarrow> 'p Subgraph \<Rightarrow> (TfLiteStatus \<times> 'p Subgraph) option" where
  "EnsureTensorDataIsReadable E t s =
     (if \<not> t_data_is_stale (tensor_at s t) then Some (kTfLiteOk, s)
      else (case t_delegate (tensor_at s t) of
        None \<Rightarrow> Some (kTfLiteError, s)
      | Some d \<Rightarrow>
          tf_ensure (t_buffer_handle (tensor_at s t) \<noteq> kTfLiteNullBufferHandle) s (\<lambda>s.
            case d_CopyFromBufferHandle (delegate_of E d) t s of (status, s') \<Rightarrow>
              Some (status, update_tensor t ((tensor_at s' t)\<lparr>t_data_is_stale := False\<rparr>) s'))))"

definition EnableCancellation :: "bool \<Rightarrow> 'p Subgraph \<Rightarrow> TfLiteStatus \<times> 'p Subgraph" where
  "EnableCancellation flag s = (kTfLiteOk, s\<lparr>continue_invocation := Some flag\<rparr>)"

definition Cancel :: "'p Subgraph \<Rightarrow> TfLiteStatus \<times> 'p Subgraph" where
  "Cancel s = (case continue_invocation s of
     Some _ \<Rightarrow> (kTfLiteOk, s\<lparr>continue_invocation := Some False\<rparr>)
   | None \<Rightarrow> (kTfLiteError, s))"

definition MayAllocateOpOutput :: "'p Env \<Rightarrow> int \<Rightarrow> 'p Subgraph \<Rightarrow> 'p Subgraph" where
  "MayAllocateOpOutput E k s =
     (if opt_large_tensors_threshold (options E) > 0 then
        foldl (\<lambda>s t. let tns = tensor_at s t in
            if t = kTfLiteOptionalTensor \<or> data_ptr tns \<noteq> nullptr \<or> allocation_type tns \<noteq> kTfLiteDynamic then s
            else (case TfLiteTensorRealloc (platform_of E) (bytes tns) (tns, c_heap s) of
                    (_, u, h) \<Rightarrow> (update_tensor t u s)\<lparr>c_heap := h\<rparr>))
          s (node_outputs (sn_node (node_at s k)))
      else s)"

text \<open>The input in place \<open>j\<close>: stale data is fetched, and there must be data.\<close>

definition read_input :: "'p Env \<Rightarrow> int \<Rightarrow> 'p Subgraph \<Rightarrow> nat \<times> int \<Rightarrow> (TfLiteStatus \<times> 'p Subgraph) option" where
  "read_input E k s = (\<lambda>(j, t).
     if t = kTfLiteOptionalTensor then Some (kTfLiteOk, s)
     else
       let tns = tensor_at s t in
       tf_then (if t_delegate tns \<noteq> None \<and> t_delegate tns \<noteq> sn_delegate (node_at s k) \<and> t_data_is_stale tns
                then EnsureTensorDataIsReadable E t s else Some (kTfLiteOk, s)) (\<lambda>s.
       let tns = tensor_at s t in
       if data_ptr tns = nullptr \<and> bytes tns > 0 \<and> allocation_type tns \<noteq> kTfLiteNonCpu \<and>
          \<not> (reg_builtin_code (sn_registration (node_at s k)) = kTfLiteBuiltinReshape \<and> j = 1 \<and>
             map_option length (t_dims tns) \<noteq> Some 1)
       then Some (kTfLiteError, s) else Some (kTfLiteOk, s)))"

definition release_dynamic :: "int \<Rightarrow> 'p Subgraph \<Rightarrow> int \<Rightarrow> 'p Subgraph" where
  "release_dynamic k s t =
     (let tns = tensor_at s t in
      if \<not> has_tensor s t \<or> allocation_type tns \<noteq> kTfLiteDynamic \<or> t_type tns = kTfLiteString \<or> t_type tns = kTfLiteResource \<or>
         t \<in> set (sg_inputs s) \<or> t \<in> set (sg_outputs s) then s
      else if tensor_to_last_op_index s t = Some k \<and> data_ptr tns \<noteq> nullptr then free_data t s else s)"

definition MaybeReleaseDynamicTensors :: "'p Env \<Rightarrow> int \<Rightarrow> 'p Subgraph \<Rightarrow> 'p Subgraph" where
  "MaybeReleaseDynamicTensors E k s =
     (if \<not> opt_release_dynamic_tensors (options E) then s
      else let n = sn_node (node_at s k)
        in foldl (release_dynamic k) (foldl (release_dynamic k) s (node_inputs n)) (node_outputs n))"

text \<open>A kernel that has resized a dynamic tensor makes the nodes after it unprepared.\<close>

definition after_resize :: "'p Env \<Rightarrow> int \<Rightarrow> int \<Rightarrow> 'p Subgraph \<Rightarrow> (TfLiteStatus \<times> 'p Subgraph) option" where
  "after_resize E i k s =
     (if tensor_resized_since_op_invoke s \<and> HasDynamicTensorImpl s (node_outputs (sn_node (node_at s k))) then
        let s1 = s\<lparr>next_to_prepare := i + 1\<rparr> in
        if next_to_plan_allocation s1 > next_to_prepare s1 then
          with_planner (mp_ResetAllocationsAfter (planner E) (next_to_prepare s1 - 1))
            (s1\<lparr>next_to_plan_allocation := next_to_prepare s1\<rparr>)
        else Some (kTfLiteOk, s1)
      else Some (kTfLiteOk, s))"

definition invoke_kernel :: "'p Env \<Rightarrow> int \<Rightarrow> 'p Subgraph \<Rightarrow> TfLiteStatus \<times> 'p Subgraph" where
  "invoke_kernel E k s =
     (case op_invoke E k (s\<lparr>tensor_resized_since_op_invoke := False\<rparr>) of (st, s') \<Rightarrow>
        (if st = kTfLiteOk \<or> st = kTfLiteCancelled then st else kTfLiteError, s'))"

text \<open>The two ways to cancel, between the nodes.\<close>

definition check_cancellation :: "'p Env \<Rightarrow> 'p Subgraph \<Rightarrow> TfLiteStatus \<times> 'p Subgraph" where
  "check_cancellation E s =
     (if check_cancelled E s then (kTfLiteError, s)
      else if continue_invocation s = Some False then (kTfLiteCancelled, s\<lparr>continue_invocation := Some True\<rparr>)
      else (kTfLiteOk, s))"

text \<open>One turn of the loop, for the node in place \<open>i\<close> of the plan.\<close>

definition prepare_if_needed :: "'p Env \<Rightarrow> int \<Rightarrow> 'p Subgraph \<Rightarrow> (TfLiteStatus \<times> 'p Subgraph) option" where
  "prepare_if_needed E i s =
     (if i = next_to_prepare s
      then tf_then (PrepareOpsAndTensors E s) (\<lambda>s. tf_ensure (next_to_prepare s \<ge> i) s (\<lambda>s. Some (kTfLiteOk, s)))
      else Some (kTfLiteOk, s))"

definition invoke_at :: "'p Env \<Rightarrow> 'p Subgraph \<Rightarrow> int \<Rightarrow> (TfLiteStatus \<times> 'p Subgraph) option" where
  "invoke_at E s i =
     tf_then (prepare_if_needed E i s) (\<lambda>s.
     let k = execution_plan s ! nat i; ins = node_inputs (sn_node (node_at s k)) in
     tf_then (tf_for (read_input E k) s (zip [0..<length ins] ins)) (\<lambda>s.
     tf_then (Some (check_cancellation E (MayAllocateOpOutput E k s))) (\<lambda>s.
     tf_then (Some (invoke_kernel E k s)) (\<lambda>s.
     tf_then (after_resize E i k s) (\<lambda>s.
     Some (kTfLiteOk, MaybeReleaseDynamicTensors E k s))))))"

definition InvokeImpl :: "'p Env \<Rightarrow> 'p Subgraph \<Rightarrow> (TfLiteStatus \<times> 'p Subgraph) option" where
  "InvokeImpl E s =
     (if \<not> consistent s then Some (kTfLiteError, s)
      else if sg_state s = kStateUninvokable then Some (kTfLiteError, s)
      else if (case memory_planner s of Some p \<Rightarrow> \<not> mp_Has (planner E) p | None \<Rightarrow> False) then Some (kTfLiteError, s)
      else tf_for (invoke_at E) s (map int [0..<length (execution_plan s)]))"

section \<open>Applying delegates\<close>

text \<open>
  \<open>AllocateTensors\<close>, \<open>RedoAllDelegates\<close> and \<open>ModifyGraphWithDelegateImpl\<close> call one another. Below
  the outermost call the flag that makes \<open>RedoAllDelegates\<close> act is clear; \<open>no_redo\<close> has no value otherwise.
\<close>

definition no_redo :: "'p Subgraph \<Rightarrow> (TfLiteStatus \<times> 'p Subgraph) option" where
  "no_redo s = (if delegates_undone s then None else Some (kTfLiteOk, s))"

definition EnsureMemoryAllocations :: "'p Env \<Rightarrow> 'p Subgraph \<Rightarrow> (TfLiteStatus \<times> 'p Subgraph) option" where
  "EnsureMemoryAllocations E s =
     tf_then (case memory_planner s of
         None \<Rightarrow> Some (kTfLiteOk, s)
       | Some _ \<Rightarrow> planning (mp_PlanAllocations (planner E)) (s\<lparr>sg_state := kStateUninvokable\<rparr>)) (\<lambda>s.
     tf_then (AllocateTensors_with no_redo E s) (\<lambda>s.
     tf_ensure (sg_state s = kStateInvokable) s (\<lambda>s. Some (kTfLiteOk, s))))"

definition RemoveAllDelegates :: "'p Env \<Rightarrow> 'p Subgraph \<Rightarrow> (TfLiteStatus \<times> 'p Subgraph) option" where
  "RemoveAllDelegates E s =
     tf_then (UndoAllDelegates s) (\<lambda>s. EnsureMemoryAllocations E (s\<lparr>delegates_applied := [], delegates_undone := False\<rparr>))"

definition reset_delegation_if_not_ok :: "'p Env \<Rightarrow> (TfLiteStatus \<times> 'p Subgraph) option \<Rightarrow> (TfLiteStatus \<times> 'p Subgraph) option" where
  "reset_delegation_if_not_ok E r = Option.bind r (\<lambda>(status, s).
     if status \<noteq> kTfLiteOk then tf_then (RemoveAllDelegates E s) (\<lambda>s. Some (kTfLiteDelegateError, s))
     else Some (kTfLiteOk, s))"

text \<open>The three steps: whether the graph may be delegated, the delegate's turn, and leaving the graph consistent.\<close>

definition verify_for_delegation :: "'p Env \<Rightarrow> nat \<Rightarrow> 'p Subgraph \<Rightarrow> (TfLiteStatus \<times> 'p Subgraph) option" where
  "verify_for_delegation E d s =
     (if sg_state s = kStateInvokableAndImmutable then Some (kTfLiteOk, s\<lparr>sg_state := kStateUninvokable\<rparr>)
      else if \<not> has_flag E d kTfLiteDelegateFlagsAllowDynamicTensors \<and>
              \<not> has_flag E d kTfLiteDelegateFlagsHintFullyDelegatedToSingleDelegate then
        (case PrepareOpsStartingAt E 0 (execution_plan s) 0 s of (st, _, s1) \<Rightarrow>
           if st \<noteq> kTfLiteOk then Some (st, s1)
           else if has_dynamic_tensors s1 then tf_then (EnsureMemoryAllocations E s1) (\<lambda>s. Some (kTfLiteApplicationError, s))
           else Some (kTfLiteOk, s1))
      else Some (kTfLiteOk, s))"

definition delegate_turn :: "'p Env \<Rightarrow> nat \<Rightarrow> 'p Subgraph \<Rightarrow> (TfLiteStatus \<times> 'p Subgraph) option" where
  "delegate_turn E d s =
     map_option (\<lambda>(status, s1). (status, snd (SwitchToKernelContext s1)))
       (d_Prepare (delegate_of E d) (snd (SwitchToDelegateContext s)))"

definition settle_delegation :: "'p Env \<Rightarrow> nat \<Rightarrow> SubgraphState \<Rightarrow> 'p Subgraph \<Rightarrow> (TfLiteStatus \<times> 'p Subgraph) option" where
  "settle_delegation E d pre_delegation_state s =
     (if \<not> has_flag E d kTfLiteDelegateFlagsAllowDynamicTensors then
        tf_then (if \<not> has_flag E d kTfLiteDelegateFlagsHintFullyDelegatedToSingleDelegate
                 then reset_delegation_if_not_ok E (EnsureMemoryAllocations E (s\<lparr>sg_state := kStateUninvokable\<rparr>))
                 else Some (kTfLiteOk, s)) (\<lambda>s.
        Some (kTfLiteOk, s\<lparr>sg_state := kStateInvokableAndImmutable\<rparr>))
      else if pre_delegation_state = kStateInvokableAndImmutable then
        tf_then (reset_delegation_if_not_ok E
          (case PrepareOpsStartingAt E 0 (execution_plan s) 0 s of (st, _, s1) \<Rightarrow> Some (st, s1))) (\<lambda>s.
        if has_dynamic_tensors s then tf_then (RemoveAllDelegates E s) (\<lambda>s. Some (kTfLiteApplicationError, s))
        else tf_then (reset_delegation_if_not_ok E (EnsureMemoryAllocations E s)) (\<lambda>s.
          Some (kTfLiteOk, s\<lparr>sg_state := kStateInvokableAndImmutable\<rparr>)))
      else if pre_delegation_state = kStateInvokable then reset_delegation_if_not_ok E (EnsureMemoryAllocations E s)
      else Some (kTfLiteOk, s))"

definition ModifyGraph_with ::
  "('p Subgraph \<Rightarrow> (TfLiteStatus \<times> 'p Subgraph) option) \<Rightarrow> 'p Env \<Rightarrow> nat option \<Rightarrow> 'p Subgraph \<Rightarrow> (TfLiteStatus \<times> 'p Subgraph) option" where
  "ModifyGraph_with redo E delegate s = (case delegate of
     None \<Rightarrow> Some (kTfLiteDelegateError, s)
   | Some d \<Rightarrow>
       tf_then (redo s) (\<lambda>s.
       let pre_delegation_state = sg_state s in
       tf_then (verify_for_delegation E d s) (\<lambda>s.
       let s1 = (if delegates_applied s = [] then s\<lparr>pre_delegation_execution_plan := execution_plan s\<rparr> else s) in
       tf_then (reset_delegation_if_not_ok E (delegate_turn E d s1)) (\<lambda>s.
       if has_flag E d kTfLiteDelegateFlagsHintFullyDelegatedToSingleDelegate \<and> \<not> IsFullyDelegated s
       then Some (kTfLiteApplicationError, s)
       else tf_then (settle_delegation E d pre_delegation_state s) (\<lambda>s.
         Some (kTfLiteOk, s\<lparr>delegates_applied := delegates_applied s @ [d]\<rparr>))))))"

definition RedoAllDelegates :: "'p Env \<Rightarrow> 'p Subgraph \<Rightarrow> (TfLiteStatus \<times> 'p Subgraph) option" where
  "RedoAllDelegates E s =
     (if \<not> delegates_undone s then Some (kTfLiteOk, s)
      else tf_for (\<lambda>s d. ModifyGraph_with no_redo E (Some d) s)
        (s\<lparr>delegates_undone := False, delegates_applied := []\<rparr>) (delegates_applied s))"

definition ModifyGraphWithDelegateImpl :: "'p Env \<Rightarrow> nat option \<Rightarrow> 'p Subgraph \<Rightarrow> (TfLiteStatus \<times> 'p Subgraph) option" where
  "ModifyGraphWithDelegateImpl E = ModifyGraph_with (RedoAllDelegates E) E"

definition AllocateTensors :: "'p Env \<Rightarrow> 'p Subgraph \<Rightarrow> (TfLiteStatus \<times> 'p Subgraph) option" where
  "AllocateTensors E = AllocateTensors_with (RedoAllDelegates E) E"

definition OptimizeMemoryForLargeTensors :: "int \<Rightarrow> 'p Subgraph \<Rightarrow> 'p Subgraph" where
  "OptimizeMemoryForLargeTensors threshold s =
     foldl (\<lambda>s i. let tns = sg_tensors s ! i in
         if bytes tns \<ge> word_of_int threshold \<and> allocation_type tns = kTfLiteArenaRw \<and> int i \<notin> set (sg_inputs s)
         then update_tensor (int i) (tns\<lparr>allocation_type := kTfLiteDynamic, data_ptr := nullptr\<rparr>) s else s)
       s [0..<length (sg_tensors s)]"

end
