(* ===== verification/SubgraphDelegation.thy ===== *)
theory SubgraphDelegation
  imports Subgraph PartitionCorrect
begin

text \<open>
  Delegation in \<^verbatim>\<open>src/tflite/core/subgraph.cc\<close>: what \<open>ReplaceNodeSubsetsWithDelegateKernels\<close>
  does to the nodes and the plan, and that it keeps the meaning of the graph. The meaning of a node is an
  arbitrary function from the values it reads to the values it writes; a delegate kernel computes the nodes
  it replaces, and it sees and sets no tensors beyond its inputs and outputs.
\<close>

section \<open>The meaning of a plan\<close>

definition node_args :: "(int \<Rightarrow> 'v) \<Rightarrow> TfLiteNode \<Rightarrow> 'v option list" where
  "node_args V n = map (\<lambda>t. if t = kTfLiteOptionalTensor then None else Some (V t)) (node_inputs n)"

definition write_node :: "('v option list \<Rightarrow> int \<Rightarrow> 'v) \<Rightarrow> TfLiteNode \<Rightarrow> (int \<Rightarrow> 'v) \<Rightarrow> int \<Rightarrow> 'v" where
  "write_node f n V t = (if t \<noteq> kTfLiteOptionalTensor \<and> t \<in> set (node_outputs n) then f (node_args V n) t else V t)"

definition kernel_step :: "(int \<Rightarrow> 'v option list \<Rightarrow> int \<Rightarrow> 'v) \<Rightarrow> 'p Subgraph \<Rightarrow> (int \<Rightarrow> 'v) \<Rightarrow> int \<Rightarrow> int \<Rightarrow> 'v" where
  "kernel_step sem s V k = write_node (sem k) (sn_node (node_at s k)) V"

text \<open>The delegate's own copy of a tensor that is not among its inputs starts with an arbitrary value, \<open>junk\<close>.\<close>

definition delegate_step ::
  "(int \<Rightarrow> 'v option list \<Rightarrow> int \<Rightarrow> 'v) \<Rightarrow> (int \<Rightarrow> 'v) \<Rightarrow> 'p Subgraph \<Rightarrow> (int \<Rightarrow> 'v) \<Rightarrow> NodeSubset \<Rightarrow> int \<Rightarrow> 'v" where
  "delegate_step sem junk s V x t =
     (if t \<in> set (output_tensors x)
      then foldl (kernel_step sem s) (\<lambda>t. if t \<in> set (input_tensors x) then V t else junk t) (subset_nodes x) t
      else V t)"

text \<open>The nodes from \<open>n\<close> on are delegate kernels.\<close>

definition plan_step ::
  "(int \<Rightarrow> 'v option list \<Rightarrow> int \<Rightarrow> 'v) \<Rightarrow> (int \<Rightarrow> 'v) \<Rightarrow> nat \<Rightarrow> 'p Subgraph \<Rightarrow> (int \<Rightarrow> 'v) \<Rightarrow> int \<Rightarrow> int \<Rightarrow> 'v" where
  "plan_step sem junk n s V k =
     (if k < int n then kernel_step sem s V k
      else case sn_params (node_at s k) of Some x \<Rightarrow> delegate_step sem junk s V x | None \<Rightarrow> V)"

definition run_plan ::
  "(int \<Rightarrow> 'v option list \<Rightarrow> int \<Rightarrow> 'v) \<Rightarrow> (int \<Rightarrow> 'v) \<Rightarrow> nat \<Rightarrow> 'p Subgraph \<Rightarrow> (int \<Rightarrow> 'v) \<Rightarrow> int \<Rightarrow> 'v" where
  "run_plan sem junk n s V = foldl (plan_step sem junk n s) V (execution_plan s)"

section \<open>Running nodes by position\<close>

definition pos_step :: "(nat \<Rightarrow> 'v option list \<Rightarrow> int \<Rightarrow> 'v) \<Rightarrow> GraphInfo \<Rightarrow> (int \<Rightarrow> 'v) \<Rightarrow> nat \<Rightarrow> int \<Rightarrow> 'v" where
  "pos_step f g V i = write_node (f i) (nodes g ! i) V"

lemma node_args_cong:
  assumes "\<And>t. t \<in> set (node_inputs n) \<Longrightarrow> t \<noteq> kTfLiteOptionalTensor \<Longrightarrow> V t = W t"
  shows "node_args V n = node_args W n"
  using assms by (auto simp: node_args_def)

lemma pos_step_producer:
  "i < num_execution_nodes g \<Longrightarrow> pos_step f g V i t = (if producer g t i then f i (node_args V (nodes g ! i)) t else V t)"
  by (auto simp: pos_step_def write_node_def producer_def)

lemma pos_run_other:
  assumes "set is \<subseteq> {..<num_execution_nodes g}" "\<And>j. j \<in> set is \<Longrightarrow> \<not> producer g t j"
  shows "foldl (pos_step f g) V is t = V t"
  using assms by (induction "is" arbitrary: V) (auto simp: pos_step_producer)

text \<open>In dependency order, each tensor ends with the value its producer computes from the final values.\<close>

lemma plan_run_prefix:
  fixes f :: "nat \<Rightarrow> 'v option list \<Rightarrow> int \<Rightarrow> 'v" and V :: "int \<Rightarrow> 'v"
  assumes "partition_ok g" "m \<le> num_execution_nodes g"
  defines "R \<equiv> foldl (pos_step f g) V [0..<num_execution_nodes g]"
  shows "foldl (pos_step f g) V [0..<m] t = (if \<exists>j < m. producer g t j then R t else V t)"
proof (cases "\<exists>j < m. producer g t j")
  case True
  then obtain j where j: "j < m" "producer g t j" by blast
  have split: "[0..<num_execution_nodes g] = [0..<m] @ [m..<num_execution_nodes g]"
    using assms(2) by (metis add_0 le_add_diff_inverse upt_add_eq_append zero_le)
  have "R t = foldl (pos_step f g) (foldl (pos_step f g) V [0..<m]) [m..<num_execution_nodes g] t"
    unfolding R_def split by simp
  also have "\<dots> = foldl (pos_step f g) V [0..<m] t"
    using producer_unique [OF assms(1) j(2)] j(1) by (intro pos_run_other) auto
  finally show ?thesis using True by simp
next
  case False
  then show ?thesis using assms(2) by (auto intro!: pos_run_other)
qed

lemma plan_run_fixpoint:
  fixes f :: "nat \<Rightarrow> 'v option list \<Rightarrow> int \<Rightarrow> 'v" and V :: "int \<Rightarrow> 'v"
  assumes "partition_ok g" "dependency_ordered g []"
  defines "R \<equiv> foldl (pos_step f g) V [0..<num_execution_nodes g]"
  shows "producer g t j \<Longrightarrow> R t = f j (node_args R (nodes g ! j)) t"
    and "(\<And>j. \<not> producer g t j) \<Longrightarrow> R t = V t"
proof -
  assume p: "producer g t j"
  then have j: "j < num_execution_nodes g" by (simp add: producer_def)
  have "R t = foldl (pos_step f g) V [0..<Suc j] t"
    using plan_run_prefix [OF assms(1), of "Suc j" f V t] p j by (auto simp: R_def)
  also have "\<dots> = f j (node_args (foldl (pos_step f g) V [0..<j]) (nodes g ! j)) t"
    using p j by (simp add: pos_step_producer)
  also have "node_args (foldl (pos_step f g) V [0..<j]) (nodes g ! j) = node_args R (nodes g ! j)"
  proof (rule node_args_cong)
    fix u assume u: "u \<in> set (node_inputs (nodes g ! j))" "u \<noteq> kTfLiteOptionalTensor"
    have "i < j" if "producer g u i" for i
      using assms(2) u that j by (auto simp: dependency_ordered_def producer_def)
    then show "foldl (pos_step f g) V [0..<j] u = R u"
      using plan_run_prefix [OF assms(1), of j f V u] plan_run_prefix [OF assms(1) order_refl, of f V u] j
      by (auto simp: R_def split: if_splits)
  qed
  finally show "R t = f j (node_args R (nodes g ! j)) t" .
next
  assume "\<And>j. \<not> producer g t j"
  then show "R t = V t" unfolding R_def by (intro pos_run_other) auto
qed

text \<open>
  A run of some of the nodes gives the same values as the run of the plan, when every tensor a node reads
  has its final value at the start or is written by an earlier node.
\<close>

lemma pos_run_agrees:
  assumes "partition_ok g"
    and fixp: "\<And>t j. producer g t j \<Longrightarrow> R t = f j (node_args R (nodes g ! j)) t"
    and "set is \<subseteq> {..<num_execution_nodes g}"
    and "\<And>t. t \<in> S \<Longrightarrow> W t = R t"
    and "\<And>pre i post t. is = pre @ i # post \<Longrightarrow> t \<in> set (node_inputs (nodes g ! i)) \<Longrightarrow> t \<noteq> kTfLiteOptionalTensor \<Longrightarrow>
      t \<in> S \<or> (\<exists>j \<in> set pre. producer g t j)"
    and "t \<in> S \<or> (\<exists>j \<in> set is. producer g t j)"
  shows "foldl (pos_step f g) W is t = R t"
  using assms(3-6)
proof (induction "is" arbitrary: W S)
  case Nil
  then show ?case by simp
next
  case (Cons i "is")
  let ?S = "S \<union> {t. producer g t i}"
  have i: "i < num_execution_nodes g" using Cons.prems(1) by simp
  have rd: "u \<in> S" if "u \<in> set (node_inputs (nodes g ! i))" "u \<noteq> kTfLiteOptionalTensor" for u
    using Cons.prems(3) [of "[]" i "is" u] that by simp
  have args: "node_args W (nodes g ! i) = node_args R (nodes g ! i)"
    using rd Cons.prems(2) by (intro node_args_cong) auto
  show ?case
    unfolding foldl_Cons
  proof (rule Cons.IH [of ?S])
    show "set is \<subseteq> {..<num_execution_nodes g}" using Cons.prems(1) by simp
    show "pos_step f g W i u = R u" if "u \<in> ?S" for u
      using that Cons.prems(2) [of u] fixp [of u i] by (auto simp: pos_step_producer [OF i] args)
    show "u \<in> ?S \<or> (\<exists>j\<in>set pre. producer g u j)"
      if "is = pre @ k # post" "u \<in> set (node_inputs (nodes g ! k))" "u \<noteq> kTfLiteOptionalTensor" for pre k post u
      using Cons.prems(3) [of "i # pre" k post u] that by auto
    show "t \<in> ?S \<or> (\<exists>j\<in>set is. producer g t j)" using Cons.prems(4) by auto
  qed
qed

section \<open>Running subsets\<close>

definition subset_run ::
  "(nat \<Rightarrow> 'v option list \<Rightarrow> int \<Rightarrow> 'v) \<Rightarrow> GraphInfo \<Rightarrow> (int \<Rightarrow> 'v) \<Rightarrow> (int \<Rightarrow> 'v) \<Rightarrow> NodeSubset \<times> nat list \<Rightarrow> int \<Rightarrow> 'v" where
  "subset_run f g junk V = (\<lambda>(x, is).
     if subset_type x = kTfPartition
     then (\<lambda>t. if t \<in> set (output_tensors x)
               then foldl (pos_step f g) (\<lambda>t. if t \<in> set (input_tensors x) then V t else junk t) is t else V t)
     else foldl (pos_step f g) V is)"

definition nodes_of_subset :: "nat list \<Rightarrow> (nat \<Rightarrow> int) \<Rightarrow> nat \<Rightarrow> nat list" where
  "nodes_of_subset order ep e = filter (\<lambda>i. ep i = int e) order"

text \<open>The tensors that have their final values when the first \<open>m\<close> subsets have run.\<close>

definition available :: "GraphInfo \<Rightarrow> (nat \<Rightarrow> int) \<Rightarrow> NodeSubset list \<Rightarrow> nat \<Rightarrow> int set" where
  "available g ep ss m = {t. \<forall>j. producer g t j \<longrightarrow> ep j < int m \<and>
     (subset_type (ss ! nat (ep j)) = kTfPartition \<longrightarrow> t \<in> set (output_tensors (ss ! nat (ep j))))}"

lemma filter_split:
  assumes "filter P xs = pre @ i # post"
  shows "\<exists>a b. xs = a @ i # b \<and> pre = filter P a \<and> P i"
  using assms
proof (induction xs arbitrary: pre)
  case (Cons x xs)
  show ?case
  proof (cases "P x \<and> pre = []")
    case True
    then show ?thesis using Cons.prems by (intro exI [of _ "[]"] exI [of _ xs]) auto
  next
    case False
    then obtain pre' where "filter P xs = pre' @ i # post" "pre = (if P x then x # pre' else pre')"
      using Cons.prems by (cases pre) (auto split: if_splits)
    then show ?thesis using Cons.IH [of pre'] by (metis append_Cons filter.simps(2))
  qed
qed simp

lemma available_Suc:
  assumes "t \<in> available g ep ss (Suc e)"
  shows "t \<in> available g ep ss e \<or> (\<exists>j. producer g t j \<and> ep j = int e)"
proof (cases "\<exists>j. producer g t j \<and> ep j = int e")
  case False
  have "ep j < int e" if "producer g t j" for j
  proof -
    have "ep j < int (Suc e)" "ep j \<noteq> int e" using assms False that by (auto simp: available_def)
    then show ?thesis by linarith
  qed
  then show ?thesis using assms by (auto simp: available_def)
qed simp

lemma available_Suc_delegate:
  assumes "t \<in> available g ep ss (Suc e)" "subset_type (ss ! e) = kTfPartition" "t \<notin> set (output_tensors (ss ! e))"
  shows "t \<in> available g ep ss e"
proof -
  have "ep j \<noteq> int e" if "producer g t j" for j using assms that by (auto simp: available_def)
  then show ?thesis using available_Suc [OF assms(1)] by blast
qed

lemma partitioned_reads:
  assumes p: "partitioned c order ep ss" and e: "e < length ss"
    and idx: "nodes_of_subset order ep e = pre @ i # post"
    and t: "t \<in> set (node_inputs (nodes (info c) ! i))" "t \<noteq> kTfLiteOptionalTensor" and j: "producer (info c) t j"
  shows "ep j < int e \<and> t \<in> set (output_tensors (ss ! nat (ep j))) \<or> ep j = int e \<and> j \<in> set pre"
proof -
  obtain a b where o: "order = a @ i # b" and ab: "pre = filter (\<lambda>i. ep i = int e) a" and i: "ep i = int e"
    using filter_split [OF idx [unfolded nodes_of_subset_def]] by blast
  have n: "i < num_execution_nodes (info c)" "j < num_execution_nodes (info c)"
    using p o j by (auto simp: partitioned_def producer_def)
  have "\<And>k. k < length order \<Longrightarrow> ready c (set (take k order)) (order ! k)" and srt: "sorted (map ep order)"
    using p unfolding partitioned_def by blast+
  from this(1) [of "length a"] have "ready c (set a) i" by (simp add: o)
  then have ja: "j \<in> set a" using t(1) j by (auto simp: ready_def)
  have le: "ep j \<le> int e" using srt ja i unfolding o by (auto simp: sorted_append)
  show ?thesis
  proof (cases "ep j = int e")
    case True
    then show ?thesis using ja ab by simp
  next
    case False
    have b: "0 \<le> ep j" "nat (ep j) < length ss" using p n by (auto simp: partitioned_def nat_less_iff)
    have "crosses (info c) ep t (nat (ep j))" using n t i False b by (auto simp: crosses_def)
    moreover have "\<exists>j'. producer (info c) t j' \<and> ep j' = int (nat (ep j))" using j b by auto
    ultimately have "t \<in> set (output_tensors (ss ! nat (ep j)))" using p b by (auto simp: partitioned_def)
    then show ?thesis using le False by auto
  qed
qed

lemma subset_run_agrees:
  fixes f :: "nat \<Rightarrow> 'v option list \<Rightarrow> int \<Rightarrow> 'v" and R :: "int \<Rightarrow> 'v"
  assumes c: "partition_ok (info c)" and p: "partitioned c order ep ss" and e: "e < length ss"
    and fixp: "\<And>t j. producer (info c) t j \<Longrightarrow> R t = f j (node_args R (nodes (info c) ! j)) t"
    and W: "\<And>t. t \<in> available (info c) ep ss e \<Longrightarrow> W t = R t"
    and t: "t \<in> available (info c) ep ss (Suc e)"
  shows "subset_run f (info c) junk W (ss ! e, nodes_of_subset order ep e) t = R t"
proof -
  let ?g = "info c" and ?idx = "nodes_of_subset order ep e" and ?A = "available (info c) ep ss e"
  have idx: "set ?idx = {i. i < num_execution_nodes ?g \<and> ep i = int e}"
    using p by (auto simp: nodes_of_subset_def partitioned_def)
  then have bound: "set ?idx \<subseteq> {..<num_execution_nodes ?g}" by auto
  have rd: "u \<in> ?A \<or> (\<exists>j \<in> set pre. producer ?g u j)"
    if "?idx = pre @ i # post" "u \<in> set (node_inputs (nodes ?g ! i))" "u \<noteq> kTfLiteOptionalTensor" for pre i post u
  proof (cases "\<exists>j. producer ?g u j")
    case True
    then obtain j where j: "producer ?g u j" by blast
    have uniq: "j' = j" if "producer ?g u j'" for j' by (rule producer_unique [OF c that j])
    from partitioned_reads [OF p e that j] show ?thesis
    proof
      assume "ep j < int e \<and> u \<in> set (output_tensors (ss ! nat (ep j)))"
      then have "u \<in> ?A" unfolding available_def by (intro CollectI allI impI) (drule uniq, simp)
      then show ?thesis by simp
    qed (use j in blast)
  qed (auto simp: available_def)
  have run: "foldl (pos_step f ?g) W' ?idx u = R u"
    if "\<And>v. v \<in> S \<Longrightarrow> W' v = R v" "u \<in> S \<or> (\<exists>j \<in> set ?idx. producer ?g u j)"
      "\<And>pre i post v. ?idx = pre @ i # post \<Longrightarrow> v \<in> set (node_inputs (nodes ?g ! i)) \<Longrightarrow> v \<noteq> kTfLiteOptionalTensor \<Longrightarrow>
        v \<in> S \<or> (\<exists>j \<in> set pre. producer ?g v j)" for W' S u
    by (rule pos_run_agrees [where f = f, OF c fixp bound that(1) that(3) that(2)])
  have tt: "t \<in> ?A \<or> (\<exists>j \<in> set ?idx. producer ?g t j)"
    using available_Suc [OF t] idx by (auto simp: producer_def)
  show ?thesis
  proof (cases "subset_type (ss ! e) = kTfPartition")
    case False
    then show ?thesis using run [of ?A W t] W tt rd by (simp add: subset_run_def)
  next
    case True
    let ?I = "set (input_tensors (ss ! e))"
    have ins: "?I = {u. u \<noteq> kTfLiteOptionalTensor \<and>
        (\<exists>i < num_execution_nodes ?g. ep i = int e \<and> u \<in> set (node_inputs (nodes ?g ! i))) \<and>
        \<not> (\<exists>j. producer ?g u j \<and> ep j = int e)}"
      and outs: "set (output_tensors (ss ! e)) \<subseteq> {u. \<exists>j. producer ?g u j \<and> ep j = int e}"
      using p e by (auto simp: partitioned_def)
    show ?thesis
    proof (cases "t \<in> set (output_tensors (ss ! e))")
      case False
      have "t \<in> ?A"
        using available_Suc_delegate [OF t True False] .
      then show ?thesis using False True W by (simp add: subset_run_def)
    next
      case outs_t: True
      have "foldl (pos_step f ?g) (\<lambda>u. if u \<in> ?I then W u else junk u) ?idx t = R t"
      proof (rule run [of ?I])
        fix u assume u: "u \<in> ?I"
        then obtain i where i: "i \<in> set ?idx" "u \<in> set (node_inputs (nodes ?g ! i))" "u \<noteq> kTfLiteOptionalTensor"
          using ins idx by auto
        then obtain pre post where "?idx = pre @ i # post" by (meson split_list)
        then have "u \<in> ?A" using rd [of pre i post u] i u ins idx by fastforce
        then show "(if u \<in> ?I then W u else junk u) = R u" using W u by simp
      next
        show "t \<in> ?I \<or> (\<exists>j \<in> set ?idx. producer ?g t j)" using outs outs_t idx by (auto simp: producer_def)
      next
        fix pre i post v
        assume v: "?idx = pre @ i # post" "v \<in> set (node_inputs (nodes ?g ! i))" "v \<noteq> kTfLiteOptionalTensor"
        have i: "i < num_execution_nodes ?g" "ep i = int e" using v(1) idx by auto
        show "v \<in> ?I \<or> (\<exists>j \<in> set pre. producer ?g v j)"
        proof (cases "v \<in> ?I")
          case False
          then obtain j where "producer ?g v j" "ep j = int e" using ins v i by auto
          then show ?thesis using partitioned_reads [OF p e v, of j] by auto
        qed simp
      qed
      then show ?thesis using outs_t True by (simp add: subset_run_def)
    qed
  qed
qed

lemma subsets_run_agrees:
  fixes f :: "nat \<Rightarrow> 'v option list \<Rightarrow> int \<Rightarrow> 'v" and R :: "int \<Rightarrow> 'v"
  assumes "partition_ok (info c)" "partitioned c order ep ss"
    and "\<And>t j. producer (info c) t j \<Longrightarrow> R t = f j (node_args R (nodes (info c) ! j)) t"
    and "\<And>t. (\<And>j. \<not> producer (info c) t j) \<Longrightarrow> V t = R t"
    and "m \<le> length ss" and "t \<in> available (info c) ep ss m"
  shows "foldl (subset_run f (info c) junk) V (map (\<lambda>e. (ss ! e, nodes_of_subset order ep e)) [0..<m]) t = R t"
  using assms(5,6)
proof (induction m arbitrary: t)
  case 0
  have "0 \<le> ep j" if "producer (info c) t j" for j using assms(2) that by (auto simp: partitioned_def producer_def)
  then have "\<not> producer (info c) t j" for j using 0 by (force simp: available_def)
  then show ?case using assms(4) by simp
next
  case (Suc m)
  have "subset_run f (info c) junk (foldl (subset_run f (info c) junk) V (map (\<lambda>e. (ss ! e, nodes_of_subset order ep e)) [0..<m]))
      (ss ! m, nodes_of_subset order ep m) t = R t"
    using Suc by (intro subset_run_agrees [where f = f, OF assms(1,2) _ assms(3)]) auto
  then show ?case by simp
qed

lemma available_all:
  assumes "partition_ok (info c)" "partitioned c order ep ss" "t \<in> set (graph_outputs (info c))"
  shows "t \<in> available (info c) ep ss (length ss)"
proof -
  have "ep j < int (length ss) \<and> t \<in> set (output_tensors (ss ! nat (ep j)))" if j: "producer (info c) t j" for j
  proof -
    have "0 \<le> ep j" "ep j < int (length ss)" using assms(2) j by (auto simp: partitioned_def producer_def)
    moreover from this have "set (output_tensors (ss ! nat (ep j))) = {t. (\<exists>j'. producer (info c) t j' \<and> ep j' = int (nat (ep j))) \<and>
        (t \<in> set (graph_outputs (info c)) \<or> crosses (info c) ep t (nat (ep j)))}"
      using assms(2) by (simp add: partitioned_def nat_less_iff)
    ultimately show ?thesis using assms(3) j by auto
  qed
  then show ?thesis by (simp add: available_def)
qed

section \<open>What the replacement does to nodes and plan\<close>

text \<open>A subset to be delegated becomes the next new node.\<close>

fun delegated_plan :: "nat \<Rightarrow> NodeSubset list \<Rightarrow> int list" where
  "delegated_plan n [] = []"
| "delegated_plan n (x # xs) =
     (if subset_type x = kTfPartition then int n # delegated_plan (Suc n) xs else subset_nodes x @ delegated_plan n xs)"

definition delegate_kernel :: "nat \<Rightarrow> TfLiteRegistration \<Rightarrow> SubNode \<Rightarrow> NodeSubset \<Rightarrow> bool" where
  "delegate_kernel d registration n x \<longleftrightarrow> sn_params n = Some x \<and> sn_delegate n = Some d \<and> sn_live n \<and>
     sn_registration n = registration \<and> node_inputs (sn_node n) = input_tensors x \<and> node_outputs (sn_node n) = output_tensors x"

lemma tf_then_Some: "tf_then r k = Some (kTfLiteOk, s') \<longleftrightarrow> (\<exists>s. r = Some (kTfLiteOk, s) \<and> k s = Some (kTfLiteOk, s'))"
  by (auto simp: tf_then_def split: option.splits if_splits)

lemma tf_ensure_Some [simp]: "tf_ensure b s k = Some (kTfLiteOk, s') \<longleftrightarrow> b \<and> k s = Some (kTfLiteOk, s')"
  by (simp add: tf_ensure_def)

lemma CheckTensorIndices_Ok: "CheckTensorIndices l s = (kTfLiteOk, s') \<Longrightarrow> s' = s"
  by (auto simp: CheckTensorIndices_def split: if_splits)

lemma CheckOverlap_Ok: "CheckInputAndOutputForOverlap l l' s = (kTfLiteOk, s') \<Longrightarrow> s' = s"
  by (auto simp: CheckInputAndOutputForOverlap_def split: if_splits)

lemma AddNode_Ok:
  assumes "AddNodeWithParameters E is os b params registration s = (kTfLiteOk, s')"
  shows "s' = s\<lparr>sg_state := kStateUninvokable, nodes_and_registration := nodes_and_registration s @
      [new_sub_node is os params registration (s\<lparr>sg_state := kStateUninvokable\<rparr>)],
    execution_plan := execution_plan s @ [int (length (nodes_and_registration s))]\<rparr>"
  using assms
  by (auto simp: AddNodeWithParameters_def ensure_status_Ok_iff Let_def split: if_splits
      dest!: CheckTensorIndices_Ok CheckOverlap_Ok)

definition owned_by :: "nat \<Rightarrow> bool \<Rightarrow> SubTensor \<Rightarrow> SubTensor" where
  "owned_by d b tns = (if b then tns\<lparr>t_delegate := Some d\<rparr> else tns)"

lemma owned_by_update:
  "i < length l \<Longrightarrow> owned_by d b (l[j := (l ! j)\<lparr>t_delegate := Some d\<rparr>] ! i) = owned_by d (b \<or> i = j) (l ! i)"
  by (cases "i = j") (auto simp: owned_by_def)

lemma claim_Ok:
  assumes "claim_tensor d s t = Some (kTfLiteOk, s')"
  shows "s' = s\<lparr>sg_tensors := (sg_tensors s)[nat t := (sg_tensors s ! nat t)\<lparr>t_delegate := Some d\<rparr>]\<rparr>"
  using assms by (auto simp: claim_tensor_def update_tensor_def Let_def)

lemma claims_Ok:
  assumes "tf_for (claim_tensor d) s ts = Some (kTfLiteOk, s')"
  shows "\<exists>tns. s' = s\<lparr>sg_tensors := tns\<rparr> \<and> length tns = length (sg_tensors s) \<and>
    (\<forall>i < length tns. tns ! i = owned_by d (i \<in> nat ` set ts) (sg_tensors s ! i))"
  using assms
proof (induction ts arbitrary: s)
  case Nil
  then show ?case by (intro exI [of _ "sg_tensors s"]) (simp add: owned_by_def)
next
  case (Cons t ts)
  then obtain s1 where s1: "claim_tensor d s t = Some (kTfLiteOk, s1)" "tf_for (claim_tensor d) s1 ts = Some (kTfLiteOk, s')"
    by (auto simp: tf_then_Some)
  from Cons.IH [OF s1(2)] obtain tns where "s' = s1\<lparr>sg_tensors := tns\<rparr>" "length tns = length (sg_tensors s1)"
    "\<forall>i < length tns. tns ! i = owned_by d (i \<in> nat ` set ts) (sg_tensors s1 ! i)" by blast
  then show ?case
    using claim_Ok [OF s1(1)] by (intro exI [of _ tns]) (auto simp: owned_by_update disj_commute)
qed

text \<open>The members that a replacement does not change.\<close>

definition same_rest :: "'p Subgraph \<Rightarrow> 'p Subgraph \<Rightarrow> bool" where
  "same_rest s s' \<longleftrightarrow> s' = s\<lparr>sg_tensors := sg_tensors s', nodes_and_registration := nodes_and_registration s',
     execution_plan := execution_plan s', sg_state := sg_state s'\<rparr>"

lemma same_rest_trans: "same_rest s s1 \<Longrightarrow> same_rest s1 s2 \<Longrightarrow> same_rest s s2"
  by (cases s; cases s1; cases s2) (simp add: same_rest_def)

text \<open>One subset: the nodes before stay as they are, and the plan grows by the subset or by its kernel.\<close>

lemma replace_subset_Ok:
  assumes "replace_subset E registration d s x = Some (kTfLiteOk, s')"
  shows "\<exists>news. nodes_and_registration s' = nodes_and_registration s @ news \<and>
      execution_plan s' = execution_plan s @ delegated_plan (length (nodes_and_registration s)) [x] \<and>
      list_all2 (delegate_kernel d registration) news (filter (\<lambda>x. subset_type x = kTfPartition) [x])"
    and "length (sg_tensors s') = length (sg_tensors s)"
    and "i < length (sg_tensors s) \<Longrightarrow> sg_tensors s' ! i =
      owned_by d (subset_type x = kTfPartition \<and> i \<in> nat ` set (output_tensors x)) (sg_tensors s ! i)"
    and "same_rest s s'"
  using assms
  by (cases "subset_type x";
      auto simp: replace_subset_def Let_def tf_then_Some delegate_kernel_def update_node_def node_at_def new_sub_node_def
        nth_append list_update_append owned_by_def same_rest_def dest!: AddNode_Ok claims_Ok)+

lemma delegated_plan_append:
  "delegated_plan n (xs @ ys) =
     delegated_plan n xs @ delegated_plan (n + length (filter (\<lambda>x. subset_type x = kTfPartition) xs)) ys"
  by (induction n xs rule: delegated_plan.induct) auto

lemma replace_loop_Ok:
  assumes "tf_for (replace_subset E registration d) s ss = Some (kTfLiteOk, s')"
  shows "\<exists>news. nodes_and_registration s' = nodes_and_registration s @ news \<and>
      execution_plan s' = execution_plan s @ delegated_plan (length (nodes_and_registration s)) ss \<and>
      list_all2 (delegate_kernel d registration) news (filter (\<lambda>x. subset_type x = kTfPartition) ss)"
    and "length (sg_tensors s') = length (sg_tensors s)"
    and "i < length (sg_tensors s) \<Longrightarrow> sg_tensors s' ! i =
      owned_by d (\<exists>x \<in> set ss. subset_type x = kTfPartition \<and> i \<in> nat ` set (output_tensors x)) (sg_tensors s ! i)"
    and "same_rest s s'"
  using assms
proof (induction ss arbitrary: s)
  case (Cons x ss)
  {
    case 1
    then obtain s1 where s1: "replace_subset E registration d s x = Some (kTfLiteOk, s1)"
      "tf_for (replace_subset E registration d) s1 ss = Some (kTfLiteOk, s')" by (auto simp: tf_then_Some)
    obtain news where n: "nodes_and_registration s1 = nodes_and_registration s @ news"
      "execution_plan s1 = execution_plan s @ delegated_plan (length (nodes_and_registration s)) [x]"
      "list_all2 (delegate_kernel d registration) news (filter (\<lambda>x. subset_type x = kTfPartition) [x])"
      using replace_subset_Ok(1) [OF s1(1)] by blast
    obtain news' where n': "nodes_and_registration s' = nodes_and_registration s1 @ news'"
      "execution_plan s' = execution_plan s1 @ delegated_plan (length (nodes_and_registration s1)) ss"
      "list_all2 (delegate_kernel d registration) news' (filter (\<lambda>x. subset_type x = kTfPartition) ss)"
      using Cons.IH(1) [OF s1(2)] by blast
    have "list_all2 (delegate_kernel d registration) (news @ news')
      (filter (\<lambda>x. subset_type x = kTfPartition) [x] @ filter (\<lambda>x. subset_type x = kTfPartition) ss)"
      using n(3) n'(3) by (rule list_all2_appendI)
    moreover have "length news = length (filter (\<lambda>x. subset_type x = kTfPartition) [x])"
      using n(3) by (rule list_all2_lengthD)
    ultimately show ?case
      using n n' delegated_plan_append [of "length (nodes_and_registration s)" "[x]" ss]
      by (intro exI [of _ "news @ news'"]) auto
  next
    case 2
    then obtain s1 where s1: "replace_subset E registration d s x = Some (kTfLiteOk, s1)"
      "tf_for (replace_subset E registration d) s1 ss = Some (kTfLiteOk, s')" by (auto simp: tf_then_Some)
    then show ?case using replace_subset_Ok(2) Cons.IH(2) by metis
  next
    case 3
    then obtain s1 where s1: "replace_subset E registration d s x = Some (kTfLiteOk, s1)"
      "tf_for (replace_subset E registration d) s1 ss = Some (kTfLiteOk, s')" by (auto simp: tf_then_Some)
    have i: "i < length (sg_tensors s1)" using 3 replace_subset_Ok(2) [OF s1(1)] by simp
    show ?case using replace_subset_Ok(3) [OF s1(1), of i] 3 Cons.IH(3) [OF i s1(2)] by (auto simp: owned_by_def)
  next
    case 4
    then obtain s1 where s1: "replace_subset E registration d s x = Some (kTfLiteOk, s1)"
      "tf_for (replace_subset E registration d) s1 ss = Some (kTfLiteOk, s')" by (auto simp: tf_then_Some)
    show ?case by (rule same_rest_trans [OF replace_subset_Ok(4) [OF s1(1)] Cons.IH(4) [OF s1(2)]])
  }
qed (simp_all add: owned_by_def same_rest_def)

section \<open>Delegation keeps the meaning of the graph\<close>

definition plan_valid :: "'p Subgraph \<Rightarrow> bool" where
  "plan_valid s \<longleftrightarrow> list_all (\<lambda>k. 0 \<le> k \<and> nat k < length (nodes_and_registration s)) (execution_plan s)"

text \<open>Indices in range, one producer for each tensor, and producers before readers.\<close>

definition delegable :: "'p Subgraph \<Rightarrow> bool" where
  "delegable s \<longleftrightarrow> plan_valid s \<and> partition_ok (InterpreterInfo s) \<and> dependency_ordered (InterpreterInfo s) []"

lemma InterpreterInfo_simps [simp]:
  "nodes (InterpreterInfo s) = map (\<lambda>k. sn_node (node_at s k)) (execution_plan s)"
  "node_index (InterpreterInfo s) = map nat (execution_plan s)"
  "num_total_nodes (InterpreterInfo s) = length (nodes_and_registration s)"
  "graph_outputs (InterpreterInfo s) = sg_outputs s"
  "graph_inputs (InterpreterInfo s) = sg_inputs s"
  "num_tensors (InterpreterInfo s) = length (sg_tensors s)"
  by (simp_all add: InterpreterInfo_def)

abbreviation sem_at :: "(int \<Rightarrow> 'v option list \<Rightarrow> int \<Rightarrow> 'v) \<Rightarrow> 'p Subgraph \<Rightarrow> nat \<Rightarrow> 'v option list \<Rightarrow> int \<Rightarrow> 'v" where
  "sem_at sem s i \<equiv> sem (execution_plan s ! i)"

lemma kernel_pos:
  assumes "plan_valid s" "i < length (execution_plan s)" "nodes_and_registration s' = nodes_and_registration s @ news"
  shows "kernel_step sem s' V (int (node_index (InterpreterInfo s) ! i)) = pos_step (sem_at sem s) (InterpreterInfo s) V i"
    and "node_index (InterpreterInfo s) ! i < length (nodes_and_registration s)"
  using assms by (auto simp: kernel_step_def pos_step_def plan_valid_def list_all_length node_at_def nth_append)

lemma kernels_pos:
  assumes "plan_valid s" "set ps \<subseteq> {..<length (execution_plan s)}" "nodes_and_registration s' = nodes_and_registration s @ news"
  shows "foldl (kernel_step sem s') V (map (\<lambda>i. int (node_index (InterpreterInfo s) ! i)) ps) =
      foldl (pos_step (sem_at sem s) (InterpreterInfo s)) V ps"
    and "foldl (plan_step sem junk (length (nodes_and_registration s)) s') V (map (\<lambda>i. int (node_index (InterpreterInfo s) ! i)) ps) =
      foldl (pos_step (sem_at sem s) (InterpreterInfo s)) V ps"
  using assms(2)
  by (induction ps arbitrary: V)
    (auto simp: plan_step_def kernel_pos [OF assms(1) _ assms(3)] simp del: InterpreterInfo_simps(2))

lemma delegated_plan_run:
  assumes v: "plan_valid s" and old: "nodes_and_registration s' = nodes_and_registration s @ pre @ news"
    and new: "list_all2 (delegate_kernel d registration) news (filter (\<lambda>x. subset_type x = kTfPartition) ss)"
    and ps: "list_all2 (\<lambda>x p. subset_nodes x = map (\<lambda>i. int (node_index (InterpreterInfo s) ! i)) p \<and>
      set p \<subseteq> {..<length (execution_plan s)}) ss ps"
  shows "foldl (plan_step sem junk (length (nodes_and_registration s)) s') V
      (delegated_plan (length (nodes_and_registration s) + length pre) ss) =
    foldl (subset_run (sem_at sem s) (InterpreterInfo s) junk) V (zip ss ps)"
  using ps old new
proof (induction ss ps arbitrary: V pre news rule: list_all2_induct)
  case (Cons x ss p ps)
  let ?n = "length (nodes_and_registration s)" and ?g = "InterpreterInfo s"
  note x = Cons.hyps(1)
  show ?case
  proof (cases "subset_type x = kTfPartition")
    case False
    then have "foldl (plan_step sem junk ?n s') V (subset_nodes x) = subset_run (sem_at sem s) ?g junk V (x, p)"
      using kernels_pos(2) [OF v, of p s' "pre @ news" sem junk V] x Cons.prems(1) by (simp add: subset_run_def del: InterpreterInfo_simps)
    then show ?thesis using Cons.IH [OF Cons.prems(1)] Cons.prems(2) False by simp
  next
    case True
    then obtain nd news' where nd: "news = nd # news'" "delegate_kernel d registration nd x"
      "list_all2 (delegate_kernel d registration) news' (filter (\<lambda>x. subset_type x = kTfPartition) ss)"
      using Cons.prems(2) by (auto simp: list_all2_Cons2)
    have at: "node_at s' (int (?n + length pre)) = nd"
      using Cons.prems(1) nd(1) by (simp add: node_at_def nat_add_distrib nth_append)
    have "plan_step sem junk ?n s' V (int (?n + length pre)) = delegate_step sem junk s' V x"
      unfolding plan_step_def at using nd(2) by (simp add: delegate_kernel_def)
    also have "\<dots> = subset_run (sem_at sem s) ?g junk V (x, p)"
      using kernels_pos(1) [OF v, of p s' "pre @ news" sem] x Cons.prems(1) True
      by (auto simp: subset_run_def delegate_step_def fun_eq_iff simp del: InterpreterInfo_simps)
    finally show ?thesis
      using Cons.IH [of "pre @ [nd]" news'] Cons.prems(1) nd True by simp
  qed
qed simp

text \<open>A successful replacement, seen through the partitioning.\<close>

lemma replace_partitioned:
  assumes s: "plan_valid s" "partition_ok (InterpreterInfo s)" and ns: "ns \<noteq> []"
    and r: "ReplaceNodeSubsetsWithDelegateKernels E registration ns d s = Some (kTfLiteOk, s')"
  obtains c order ep ss news where "info c = InterpreterInfo s" "partitioned c order ep ss"
    "PartitionGraph E ns s = Some (kTfLiteOk, ss)"
    "nodes_and_registration s' = nodes_and_registration s @ news"
    "execution_plan s' = delegated_plan (length (nodes_and_registration s)) ss"
    "list_all2 (delegate_kernel d (registration\<lparr>reg_builtin_code := kTfLiteBuiltinDelegate\<rparr>)) news
      (filter (\<lambda>x. subset_type x = kTfPartition) ss)"
    "length (sg_tensors s') = length (sg_tensors s)"
    "\<forall>i < length (sg_tensors s). sg_tensors s' ! i =
      owned_by d (\<exists>x \<in> set ss. subset_type x = kTfPartition \<and> i \<in> nat ` set (output_tensors x)) (sg_tensors s ! i)"
    "same_rest s s'"
proof -
  obtain st ss where pg: "PartitionGraph E ns s = Some (st, ss)" "st \<noteq> kTfLiteError"
    and loop: "tf_for (replace_subset E (registration\<lparr>reg_builtin_code := kTfLiteBuiltinDelegate\<rparr>) d)
      (s\<lparr>execution_plan := []\<rparr>) ss = Some (kTfLiteOk, s')"
    using r ns by (auto simp: ReplaceNodeSubsetsWithDelegateKernels_def Let_def split: option.splits if_splits)
  have st: "st = kTfLiteOk"
    using pg Partition_cases [OF new_Partitioner_ok(1) [OF s(2)]]
    by (auto simp: PartitionGraph_def entry_eq split: if_splits) (metis (lifting) Pair_inject option.inject)
  obtain order ep where p: "partitioned (new_Partitioner (InterpreterInfo s) ns (\<not> opt_disable_delegate_clustering (options E))
      (edges_of (InterpreterInfo s) (\<not> opt_disable_delegate_clustering (options E)) (sg_control_edges s))
      (opt_preserve_all_tensors (options E))) order ep ss"
    using pg(1) st unfolding PartitionGraph_def by (auto elim: entry_ok [OF s(2)])
  obtain news where n: "nodes_and_registration s' = nodes_and_registration s @ news"
    "execution_plan s' = delegated_plan (length (nodes_and_registration s)) ss"
    "list_all2 (delegate_kernel d (registration\<lparr>reg_builtin_code := kTfLiteBuiltinDelegate\<rparr>)) news
      (filter (\<lambda>x. subset_type x = kTfPartition) ss)"
    using replace_loop_Ok(1) [OF loop] by auto
  have l: "length (sg_tensors s') = length (sg_tensors s)" using replace_loop_Ok(2) [OF loop] by simp
  have t: "\<forall>i < length (sg_tensors s). sg_tensors s' ! i =
      owned_by d (\<exists>x \<in> set ss. subset_type x = kTfPartition \<and> i \<in> nat ` set (output_tensors x)) (sg_tensors s ! i)"
  proof (intro allI impI)
    fix i assume "i < length (sg_tensors s)"
    then show "sg_tensors s' ! i =
      owned_by d (\<exists>x \<in> set ss. subset_type x = kTfPartition \<and> i \<in> nat ` set (output_tensors x)) (sg_tensors s ! i)"
      using replace_loop_Ok(3) [OF loop, of i] by simp
  qed
  have "same_rest s (s\<lparr>execution_plan := []\<rparr>)" by (simp add: same_rest_def)
  then have sr: "same_rest s s'" by (rule same_rest_trans [OF _ replace_loop_Ok(4) [OF loop]])
  show thesis
    by (rule that [OF _ p _ n l t sr]) (simp_all add: pg(1) st)
qed

lemma plan_pos: "map (\<lambda>i. int (node_index (InterpreterInfo s) ! i)) [0..<length (execution_plan s)] = execution_plan s"
  if "plan_valid s"
  using that by (intro nth_equalityI) (auto simp: plan_valid_def list_all_length)

section \<open>An example\<close>

definition demo_delegate :: "SimplePlanner Delegate" where
  "demo_delegate = \<lparr>d_flags = 1, d_opaque = False, d_Prepare = (\<lambda>s. Some (kTfLiteOk, s)),
     d_CopyFromBufferHandle = (\<lambda>t s. (kTfLiteOk, s))\<rparr>"

definition demo_env :: "SimplePlanner Env" where
  "demo_env = \<lparr>platform_of = two_block_platform, planner = simple_planner_ops two_block_platform,
     options = \<lparr>opt_preserve_all_tensors = False, opt_disable_delegate_clustering = False,
       opt_release_dynamic_tensors = False, opt_large_tensors_threshold = 0\<rparr>,
     delegate_of = (\<lambda>_. demo_delegate), op_init = (\<lambda>_ _. True), op_prepare = (\<lambda>k s. (kTfLiteOk, s)),
     op_invoke = (\<lambda>k s. (kTfLiteOk, s)), check_cancelled = (\<lambda>s. False)\<rparr>"

definition demo_registration :: TfLiteRegistration where
  "demo_registration = \<lparr>reg_builtin_code = 0, reg_kernel = 0, reg_inplace = 0, reg_external = False\<rparr>"

definition demo_sub_node :: "TfLiteNode \<Rightarrow> SubNode" where
  "demo_sub_node n = \<lparr>sn_node = n, sn_registration = demo_registration, sn_delegate = None, sn_params = None, sn_live = True\<rparr>"

definition demo_sub_tensor :: SubTensor where
  "demo_sub_tensor = TfLiteTensor.extend demo_tensor
     \<lparr>t_type = kTfLiteFloat32, t_dims = Some [1], t_dims_signature = [], t_is_variable = False, t_zero_point = 0, t_delegate = None,
      t_buffer_handle = kTfLiteNullBufferHandle, t_data_is_stale = False\<rparr>"

definition demo_host :: "SimplePlanner Subgraph" where
  "demo_host = \<lparr>sg_tensors = replicate 7 demo_sub_tensor, nodes_and_registration = map demo_sub_node (nodes demo_graph),
     execution_plan = [0, 1, 2, 3, 4, 5], pre_delegation_execution_plan = [], sg_inputs = [0], sg_outputs = [6],
     sg_variables = [], sg_control_edges = Some [], sg_state = kStateUninvokable, consistent = True, delegates_applied = [],
     delegates_undone = False, next_to_prepare = 0, next_original_to_prepare = 0, next_to_plan_allocation = 0,
     has_dynamic_tensors = False, tensor_resized_since_op_invoke = False, custom_allocations = [], memory_planner = None,
     tensor_to_last_op_index = Map.empty, continue_invocation = None, delegate_context_switch_count = 0,
     partitioning_preview_cache = [], c_heap = empty_heap\<rparr>"

lemma demo_host_view: "InterpreterInfo demo_host = demo_graph"
  by (simp add: InterpreterInfo_def demo_host_def demo_graph_def node_at_def demo_sub_node_def demo_sub_tensor_def
      demo_tensor_def TfLiteTensor.defs numeral_eq_Suc)

lemma demo_host_plan: "plan_valid demo_host"
  by (simp add: plan_valid_def demo_host_def demo_graph_def)

lemma demo_host_ok: "delegable demo_host"
  using demo_graph_ordered demo_graph_ok demo_host_plan
  by (auto simp: delegable_def demo_host_view dependency_ordered_def)

lemma demo_replaced:
  "\<exists>s'. ReplaceNodeSubsetsWithDelegateKernels demo_env demo_registration [2, 3] 7 demo_host = Some (kTfLiteOk, s') \<and>
     execution_plan s' = [0, 1, 4, 6, 5]"
proof -
  have p: "PartitionGraph demo_env [2, 3] demo_host = Some (kTfLiteOk,
      [demo_subset kTfNonPartition [0, 1, 4] [0] [2, 5], demo_subset kTfPartition [2, 3] [2] [4],
       demo_subset kTfNonPartition [5] [4, 5] [6]])"
    using demo_partition by (simp add: PartitionGraph_def demo_host_view) (simp add: demo_env_def demo_host_def)
  show ?thesis
    unfolding ReplaceNodeSubsetsWithDelegateKernels_def Let_def p
    by (simp add: replace_subset_def demo_subset_def tf_then_def tf_ensure_def claim_tensor_def AddNodeWithParameters_def
        CheckTensorIndices_def CheckInputAndOutputForOverlap_def demo_host_def demo_graph_def demo_env_def demo_delegate_def
        demo_sub_tensor_def TfLiteTensor.defs update_tensor_def update_node_def node_at_def Let_def)
qed

text \<open>C3: Delegation keeps the meaning of the graph. When a graph in dependency order, with indices in range and
  at most one node writing each tensor, has nodes replaced by delegate kernels, running the new plan gives every output tensor the value that running the old plan gives it, whatever the
  kernels compute and whatever values the tensors start with; each delegate kernel runs the nodes it replaces on its
  own copy of its inputs and sets only its outputs.\<close>

theorem ReplaceNodeSubsets_keeps_meaning:
  assumes "delegable s"
    and "ReplaceNodeSubsetsWithDelegateKernels E registration ns d s = Some (kTfLiteOk, s')"
    and "t \<in> set (sg_outputs s)"
  shows "run_plan sem junk (length (nodes_and_registration s)) s' V t =
    run_plan sem junk (length (nodes_and_registration s)) s V t"
proof (cases "ns = []")
  case True
  then show ?thesis using assms(2)
    by (simp add: ReplaceNodeSubsetsWithDelegateKernels_def Let_def split: if_splits)
next
  case False
  let ?n = "length (nodes_and_registration s)" and ?g = "InterpreterInfo s" and ?N = "length (execution_plan s)"
  let ?R = "foldl (pos_step (sem_at sem s) ?g) V [0..<?N]"
  have s: "plan_valid s" "partition_ok ?g" "dependency_ordered ?g []" using assms(1) by (auto simp: delegable_def)
  obtain c order ep ss news where c: "info c = ?g" and p: "partitioned c order ep ss"
    and r: "nodes_and_registration s' = nodes_and_registration s @ news" "execution_plan s' = delegated_plan ?n ss"
      "list_all2 (delegate_kernel d (registration\<lparr>reg_builtin_code := kTfLiteBuiltinDelegate\<rparr>)) news
        (filter (\<lambda>x. subset_type x = kTfPartition) ss)"
    using replace_partitioned [OF s(1,2) False assms(2)] by metis
  let ?ps = "map (nodes_of_subset order ep) [0..<length ss]"
  have ps: "list_all2 (\<lambda>x p. subset_nodes x = map (\<lambda>i. int (node_index ?g ! i)) p \<and> set p \<subseteq> {..<?N}) ss ?ps"
    using p by (auto simp: list_all2_conv_all_nth partitioned_def nodes_of_subset_def c simp del: InterpreterInfo_simps(2))
  have z: "zip ss ?ps = map (\<lambda>e. (ss ! e, nodes_of_subset order ep e)) [0..<length ss]"
    by (intro nth_equalityI) auto
  have "run_plan sem junk ?n s' V t = foldl (subset_run (sem_at sem s) ?g junk) V (zip ss ?ps) t"
    using delegated_plan_run [OF s(1) _ r(3) ps, of s' "[]" sem junk V] r(1,2) by (simp add: run_plan_def)
  also have "\<dots> = ?R t"
  proof -
    have "foldl (subset_run (sem_at sem s) (info c) junk) V (map (\<lambda>e. (ss ! e, nodes_of_subset order ep e)) [0..<length ss]) t = ?R t"
    proof (rule subsets_run_agrees [OF _ p])
      show "partition_ok (info c)" using s(2) c by simp
      show "?R u = sem_at sem s j (node_args ?R (nodes (info c) ! j)) u" if "producer (info c) u j" for u j
        using plan_run_fixpoint(1) [OF s(2,3), of u j "sem_at sem s" V] that c by simp
      show "V u = ?R u" if "\<And>j. \<not> producer (info c) u j" for u
        using plan_run_fixpoint(2) [OF s(2,3), of u "sem_at sem s" V] that c by simp
      show "t \<in> available (info c) ep ss (length ss)"
        using available_all [OF _ p, of t] s(2) assms(3) c by simp
    qed simp
    then show ?thesis unfolding z c .
  qed
  also have "?R t = run_plan sem junk ?n s V t"
    using kernels_pos(2) [OF s(1), of "[0..<?N]" s "[]" sem junk V] plan_pos [OF s(1)]
    by (simp add: run_plan_def atLeast0LessThan del: InterpreterInfo_simps(2))
  finally show ?thesis .
qed

theorem ReplaceNodeSubsets_keeps_meaning_witness:
  "\<exists>s' :: SimplePlanner Subgraph. execution_plan s' = [0, 1, 4, 6, 5] \<and>
     run_plan (\<lambda>k args t. k + sum_list (map the args) :: int) (\<lambda>_. 0) 6 s' (\<lambda>_. 1) 6 =
     run_plan (\<lambda>k args t. k + sum_list (map the args) :: int) (\<lambda>_. 0) 6 demo_host (\<lambda>_. 1) 6"
proof -
  obtain s' where s': "ReplaceNodeSubsetsWithDelegateKernels demo_env demo_registration [2, 3] 7 demo_host = Some (kTfLiteOk, s')"
    "execution_plan s' = [0, 1, 4, 6, 5]" using demo_replaced by blast
  have n: "length (nodes_and_registration demo_host) = 6" "6 \<in> set (sg_outputs demo_host)"
    by (simp_all add: demo_host_def demo_graph_def)
  show ?thesis
    using ReplaceNodeSubsets_keeps_meaning [OF demo_host_ok s'(1) n(2), of "\<lambda>k args t. k + sum_list (map the args) :: int" "\<lambda>_. 0" "\<lambda>_. 1"] s'(2)
    unfolding n(1) by blast
qed

text \<open>The nodes that a plan runs, each delegate kernel replaced by the nodes it stands for.\<close>

definition expanded_plan :: "nat \<Rightarrow> 'p Subgraph \<Rightarrow> int list" where
  "expanded_plan n s = concat (map (\<lambda>k. if k < int n then [k]
     else case sn_params (node_at s k) of Some x \<Rightarrow> subset_nodes x | None \<Rightarrow> []) (execution_plan s))"

lemma expand_delegated_plan:
  assumes "nodes_and_registration s = old @ pre @ news"
    and "list_all2 (delegate_kernel d registration) news (filter (\<lambda>x. subset_type x = kTfPartition) ss)"
    and "\<forall>x \<in> set ss. \<forall>k \<in> set (subset_nodes x). k < int (length old)"
  shows "concat (map (\<lambda>k. if k < int (length old) then [k]
      else case sn_params (node_at s k) of Some x \<Rightarrow> subset_nodes x | None \<Rightarrow> []) (delegated_plan (length old + length pre) ss)) =
    concat (map subset_nodes ss)"
  using assms
proof (induction ss arbitrary: pre news)
  case (Cons x ss)
  show ?case
  proof (cases "subset_type x = kTfPartition")
    case False
    have "concat (map (\<lambda>k. if k < int (length old) then [k]
        else case sn_params (node_at s k) of Some x \<Rightarrow> subset_nodes x | None \<Rightarrow> []) l) = l"
      if "\<forall>k \<in> set l. k < int (length old)" for l
      using that by (induction l) auto
    then show ?thesis using Cons False by simp
  next
    case True
    then obtain nd news' where nd: "news = nd # news'" "delegate_kernel d registration nd x"
      "list_all2 (delegate_kernel d registration) news' (filter (\<lambda>x. subset_type x = kTfPartition) ss)"
      using Cons.prems(2) by (auto simp: list_all2_Cons2)
    have "sn_params (node_at s (int (length old + length pre))) = Some x"
      using Cons.prems(1) nd(1,2) by (simp add: node_at_def nat_add_distrib nth_append delegate_kernel_def)
    then show ?thesis using Cons.IH [of "pre @ [nd]" news'] Cons.prems nd True by simp
  qed
qed simp

lemma delegated_plan_old:
  assumes "k \<in> set (delegated_plan n ss)" "k < int m" "m \<le> n"
  shows "\<exists>x \<in> set ss. subset_type x \<noteq> kTfPartition \<and> k \<in> set (subset_nodes x)"
  using assms by (induction n ss rule: delegated_plan.induct) (auto split: if_splits)



end
