(* ===== verification/SubgraphUndo.thy ===== *)
theory SubgraphUndo
  imports SubgraphOps SubgraphDelegation
begin

text \<open>
  Undoing delegation in \<^verbatim>\<open>src/tflite/core/subgraph.cc\<close>: \<open>UndoAllDelegates\<close> gives back the nodes
  and the plan, but not the tensors, that the graph had before.
\<close>

section \<open>Cleaning up\<close>

definition kill :: "SubNode list \<Rightarrow> int \<Rightarrow> SubNode list" where
  "kill ns k = ns[nat k := (ns ! nat k)\<lparr>sn_live := False\<rparr>]"

lemma length_kill [simp]: "length (foldl kill ns ks) = length ns"
  by (induction ks arbitrary: ns) (simp_all add: kill_def)

lemma cleanup_nodes_Some:
  assumes "distinct ks" "\<forall>k \<in> set ks. 0 \<le> k \<and> nat k < length (nodes_and_registration s) \<and> sn_live (node_at s k)"
  shows "cleanup_nodes ks s = Some (s\<lparr>nodes_and_registration := foldl kill (nodes_and_registration s) ks\<rparr>)"
  using assms
proof (induction ks arbitrary: s)
  case (Cons k ks)
  let ?s = "s\<lparr>nodes_and_registration := kill (nodes_and_registration s) k\<rparr>"
  have one: "CleanupNode k s = Some ?s"
    using Cons.prems(2) by (simp add: CleanupNode_def update_node_def node_at_def kill_def)
  have "\<forall>j \<in> set ks. 0 \<le> j \<and> nat j < length (nodes_and_registration ?s) \<and> sn_live (node_at ?s j)"
  proof
    fix j assume j: "j \<in> set ks"
    then have "nat j \<noteq> nat k" using Cons.prems by (metis distinct.simps(2) eq_nat_nat_iff list.set_intros(1,2))
    then show "0 \<le> j \<and> nat j < length (nodes_and_registration ?s) \<and> sn_live (node_at ?s j)"
      using Cons.prems(2) j by (simp add: node_at_def kill_def)
  qed
  from Cons.IH [OF _ this] show ?case using Cons.prems(1) by (simp add: one)
qed simp

lemma take_kill:
  assumes "\<forall>k \<in> set ks. int n \<le> k"
  shows "take n (foldl kill ns ks) = take n ns"
  using assms by (induction ks arbitrary: ns) (simp_all add: kill_def take_update_cancel le_nat_iff)

lemma kill_other:
  assumes "\<forall>k \<in> set ks. 0 \<le> k \<and> nat k \<noteq> j"
  shows "foldl kill ns ks ! j = ns ! j"
  using assms by (induction ks arbitrary: ns) (simp_all add: kill_def)

section \<open>Owners and freed nodes\<close>

text \<open>A tensor that belongs to one delegate cannot be written by the kernel of another, and undoing keeps the owners.\<close>

lemma claims_other:
  assumes "tf_for (claim_tensor d) s ts = Some (kTfLiteOk, s')" and "t \<in> set ts" and "nat t < length (sg_tensors s)"
  shows "t_delegate (sg_tensors s ! nat t) = None \<or> t_delegate (sg_tensors s ! nat t) = Some d"
  using assms
proof (induction ts arbitrary: s)
  case (Cons u ts)
  then obtain s1 where s1: "claim_tensor d s u = Some (kTfLiteOk, s1)" "tf_for (claim_tensor d) s1 ts = Some (kTfLiteOk, s')"
    by (auto simp: tf_then_Some)
  show ?case
  proof (cases "nat t = nat u")
    case True
    then show ?thesis using s1(1) by (simp add: claim_tensor_def Let_def tf_ensure_def split: if_splits)
  next
    case False
    then show ?thesis using Cons.IH [OF s1(2)] Cons.prems claim_Ok [OF s1(1)] by auto
  qed
qed simp

lemma other_owner_fails:
  assumes "subset_type x = kTfPartition" and "t \<in> set (output_tensors x)" and "nat t < length (sg_tensors s)"
    and "t_delegate (sg_tensors s ! nat t) = Some e" and "e \<noteq> d"
  shows "replace_subset E registration d s x \<noteq> Some (kTfLiteOk, s')"
proof
  assume "replace_subset E registration d s x = Some (kTfLiteOk, s')"
  then obtain s1 s2 where "AddNodeWithParameters E (input_tensors x) (output_tensors x) True (Some x) registration s = (kTfLiteOk, s1)"
    and c: "tf_for (claim_tensor d) s1 (output_tensors x) = Some (kTfLiteOk, s2)"
    using assms(1) by (auto simp: replace_subset_def Let_def tf_then_Some)
  then have "sg_tensors s1 = sg_tensors s" by (auto dest!: AddNode_Ok)
  then show False using claims_other [OF c assms(2)] assms(3,4,5) by simp
qed

text \<open>When a kernel does not initialise, the destructor frees its node's arrays a second time.\<close>

lemma cleanup_nodes_None:
  assumes "k \<in> set ks" "\<forall>k \<in> set ks. 0 \<le> k \<and> nat k < length (nodes_and_registration s)" "\<not> sn_live (node_at s k)"
  shows "cleanup_nodes ks s = None"
  using assms
proof (induction ks arbitrary: s)
  case (Cons j ks)
  show ?case
  proof (cases "sn_live (node_at s j)")
    case False
    then show ?thesis by (simp add: CleanupNode_def)
  next
    case True
    let ?s = "update_node j ((node_at s j)\<lparr>sn_live := False\<rparr>) s"
    have jk: "nat j \<noteq> nat k" "k \<in> set ks" using True Cons.prems by (auto simp: node_at_def)
    have "cleanup_nodes ks ?s = None"
      using Cons.prems jk by (intro Cons.IH) (auto simp: update_node_def node_at_def)
    then show ?thesis using True by (simp add: CleanupNode_def)
  qed
qed simp

lemma failed_init_double_free:
  assumes "\<not> op_init E registration params" and "sg_state s \<noteq> kStateInvokableAndImmutable"
    and "CheckTensorIndices is s = (kTfLiteOk, s)" and "CheckTensorIndices os s = (kTfLiteOk, s)"
    and "list_ex (\<lambda>i. list_ex (\<lambda>j. i = j) os) is = False"
  shows "\<exists>s'. AddNodeWithParameters E is os b params registration s = (kTfLiteError, s') \<and> destroy_nodes s' = None"
proof -
  let ?u = "s\<lparr>sg_state := kStateUninvokable\<rparr>"
  let ?s = "?u\<lparr>nodes_and_registration := nodes_and_registration s @ [failed_sub_node is os]\<rparr>"
  have "CheckTensorIndices is ?u = (kTfLiteOk, ?u)" "CheckTensorIndices os ?u = (kTfLiteOk, ?u)"
    using assms(3,4) by (auto simp: CheckTensorIndices_def split: if_splits)
  then have "AddNodeWithParameters E is os b params registration s = (kTfLiteError, ?s)"
    using assms(1,2,5) by (simp add: AddNodeWithParameters_def CheckInputAndOutputForOverlap_def Let_def)
  moreover have "destroy_nodes ?s = None"
    unfolding destroy_nodes_def
    by (rule cleanup_nodes_None [of "int (length (nodes_and_registration s))"])
      (auto simp: node_at_def failed_sub_node_def)
  ultimately show ?thesis by blast
qed

section \<open>Half-precision inputs\<close>

text \<open>A \<open>DEQUANTIZE\<close> node of the plan computes \<open>out\<close> from the half-precision tensor \<open>i\<close>.\<close>

definition is_dequantize :: "'p Subgraph \<Rightarrow> int \<Rightarrow> bool" where
  "is_dequantize s k \<longleftrightarrow> reg_builtin_code (sn_registration (node_at s k)) = kTfLiteBuiltinDequantize"

definition dequantizes :: "'p Subgraph \<Rightarrow> int \<Rightarrow> int \<Rightarrow> bool" where
  "dequantizes s i out \<longleftrightarrow> (\<exists>k \<in> set (execution_plan s). is_dequantize s k \<and>
     node_inputs (sn_node (node_at s k)) = [i] \<and> node_outputs (sn_node (node_at s k)) = [out] \<and> t_type (tensor_at s i) = kTfLiteFloat16)"

text \<open>
  Graphs on which the map from half to full precision is a function: \<open>DEQUANTIZE\<close> nodes convert a half-precision tensor
  to one tensor only, and no other node reads a tensor that is converted; the inputs of \<open>DEQUANTIZE\<close> nodes are tensors.
\<close>

definition half_precision_ok :: "'p Subgraph \<Rightarrow> bool" where
  "half_precision_ok s \<longleftrightarrow>
     (\<forall>i out out'. dequantizes s i out \<and> dequantizes s i out' \<longrightarrow> out = out') \<and>
     (\<forall>k \<in> set (execution_plan s). if is_dequantize s k
        then \<forall>i \<in> set (node_inputs (sn_node (node_at s k))). 0 \<le> i \<and> nat i < length (sg_tensors s)
        else \<forall>i \<in> set (node_inputs (sn_node (node_at s k))). \<forall>out. \<not> dequantizes s i out)"

text \<open>
  What a delegate that supports half precision does before it replaces nodes: some inputs of nodes other than
  \<open>DEQUANTIZE\<close> are exchanged for the half-precision tensors from which they are computed.
\<close>

definition halved_node :: "'p Subgraph \<Rightarrow> nat \<Rightarrow> SubNode \<Rightarrow> bool" where
  "halved_node s k x \<longleftrightarrow> (\<exists>is. x = (nodes_and_registration s ! k)\<lparr>sn_node := (sn_node (nodes_and_registration s ! k))\<lparr>node_inputs := is\<rparr>\<rparr> \<and>
     (if int k \<in> set (execution_plan s) \<and> \<not> is_dequantize s (int k)
      then list_all2 (\<lambda>a b. b = a \<or> dequantizes s b a) (node_inputs (sn_node (nodes_and_registration s ! k))) is
      else is = node_inputs (sn_node (nodes_and_registration s ! k))))"

definition halved :: "'p Subgraph \<Rightarrow> 'p Subgraph \<Rightarrow> bool" where
  "halved s u \<longleftrightarrow> u = s\<lparr>nodes_and_registration := nodes_and_registration u\<rparr> \<and>
     length (nodes_and_registration u) = length (nodes_and_registration s) \<and>
     (\<forall>k < length (nodes_and_registration s). halved_node s k (nodes_and_registration u ! k))"

lemma halved_refl: "halved s s"
  by (auto simp: halved_def halved_node_def list_all2_refl intro!: exI [of _ "node_inputs (sn_node (nodes_and_registration s ! k))" for k])

text \<open>The map that undoing computes, on any graph with the same \<open>DEQUANTIZE\<close> nodes and types.\<close>

definition same_conversions :: "'p Subgraph \<Rightarrow> 'p Subgraph \<Rightarrow> bool" where
  "same_conversions s u \<longleftrightarrow> execution_plan u = execution_plan s \<and> length (sg_tensors u) = length (sg_tensors s) \<and>
     (\<forall>i < length (sg_tensors s). t_type (sg_tensors u ! i) = t_type (sg_tensors s ! i)) \<and>
     (\<forall>k \<in> set (execution_plan s). is_dequantize u k = is_dequantize s k \<and>
        (is_dequantize s k \<longrightarrow> sn_node (node_at u k) = sn_node (node_at s k)))"

lemma remember_fp16_at:
  assumes ok: "half_precision_ok s" and c: "same_conversions s u" and ks: "set ks \<subseteq> set (execution_plan s)"
    and i: "0 \<le> i" "nat i < length m" "nat i < length (sg_tensors s)"
  shows "foldl (remember_fp16 u) m ks ! nat i =
    (if \<exists>k \<in> set ks. is_dequantize s k \<and> t_type (tensor_at s i) = kTfLiteFloat16 \<and>
         node_inputs (sn_node (node_at s k)) = [i] \<and> (\<exists>out. node_outputs (sn_node (node_at s k)) = [out])
     then THE out. dequantizes s i out else m ! nat i)"
  using ks
proof (induction ks rule: rev_induct)
  case (snoc k ks)
  let ?m = "foldl (remember_fp16 u) m ks"
  have len: "length (foldl (remember_fp16 u) m ks') = length m" for ks'
    by (induction ks' rule: rev_induct) (auto simp: remember_fp16_def Let_def split: list.splits)
  let ?hit = "\<lambda>k. is_dequantize s k \<and> t_type (tensor_at s i) = kTfLiteFloat16 \<and>
     node_inputs (sn_node (node_at s k)) = [i] \<and> (\<exists>out. node_outputs (sn_node (node_at s k)) = [out])"
  have k: "k \<in> set (execution_plan s)" using snoc.prems by simp
  show ?case
  proof (cases "?hit k")
    case True
    then obtain out where o': "node_outputs (sn_node (node_at s k)) = [out]" by blast
    then have d: "dequantizes s i out" using True k by (auto simp: dequantizes_def)
    then have "(THE out. dequantizes s i out) = out" using ok unfolding half_precision_ok_def by blast
    moreover have "remember_fp16 u ?m k = ?m[nat i := out]"
      using True o' c k i(3) by (simp add: remember_fp16_def same_conversions_def is_dequantize_def tensor_at_def)
    ultimately show ?thesis using True i len [of ks] by (auto simp: nth_list_update)
  next
    case False
    have "remember_fp16 u ?m k ! nat i = ?m ! nat i"
    proof (cases "is_dequantize s k")
      case True
      have "nat j \<noteq> nat i" if "node_inputs (sn_node (node_at s k)) = [j]" "node_outputs (sn_node (node_at s k)) = [out]"
          "t_type (tensor_at s j) = kTfLiteFloat16" for j out
      proof -
        have "0 \<le> j" using ok True k that(1) by (auto simp: half_precision_ok_def)
        then show ?thesis using False True that i(1) by (auto simp: eq_nat_nat_iff)
      qed
      moreover have "nat j < length (sg_tensors s)" if "node_inputs (sn_node (node_at s k)) = [j]" for j
        using ok True k that by (auto simp: half_precision_ok_def)
      ultimately show ?thesis
        using True c k by (auto simp: remember_fp16_def same_conversions_def is_dequantize_def tensor_at_def Let_def split: list.splits)
    next
      case False
      then have "remember_fp16 u ?m k = ?m"
        using c k by (auto simp: remember_fp16_def same_conversions_def is_dequantize_def Let_def split: list.splits)
      then show ?thesis by simp
    qed
    moreover have "(\<exists>k' \<in> set (ks @ [k]). ?hit k') \<longleftrightarrow> (\<exists>k' \<in> set ks. ?hit k')" using False by auto
    ultimately show ?thesis using snoc by simp
  qed
qed simp

lemma fp16_to_fp32_at:
  assumes ok: "half_precision_ok s" and c: "same_conversions s u" and i: "0 \<le> i" "nat i < length (sg_tensors s)"
  shows "dequantizes s i out \<Longrightarrow> fp16_to_fp32 u ! nat i = out"
    and "(\<forall>out. \<not> dequantizes s i out) \<Longrightarrow> fp16_to_fp32 u ! nat i = i"
proof -
  let ?hit = "\<exists>k \<in> set (execution_plan s). is_dequantize s k \<and> t_type (tensor_at s i) = kTfLiteFloat16 \<and>
     node_inputs (sn_node (node_at s k)) = [i] \<and> (\<exists>out. node_outputs (sn_node (node_at s k)) = [out])"
  have hit: "?hit \<longleftrightarrow> (\<exists>out. dequantizes s i out)" unfolding dequantizes_def by blast
  have m: "fp16_to_fp32 u ! nat i = (if ?hit then THE out. dequantizes s i out else map int [0..<length (sg_tensors s)] ! nat i)"
    unfolding fp16_to_fp32_def using c i remember_fp16_at [OF ok c subset_refl i(1), of "map int [0..<length (sg_tensors s)]"]
    by (simp add: same_conversions_def)
  show "fp16_to_fp32 u ! nat i = out" if "dequantizes s i out"
  proof -
    have "(THE out. dequantizes s i out) = out" using that ok unfolding half_precision_ok_def by blast
    then show ?thesis using that unfolding m hit by auto
  qed
  show "fp16_to_fp32 u ! nat i = i" if "\<forall>out. \<not> dequantizes s i out"
  proof -
    have "\<not> ?hit" using that unfolding hit by blast
    then show ?thesis unfolding m if_not_P [OF \<open>\<not> ?hit\<close>] using i by simp
  qed
qed

text \<open>Undoing gives a halved node its inputs back, whether it is visited once or more often.\<close>

definition gives_back :: "'p Subgraph \<Rightarrow> int list \<Rightarrow> 'p Subgraph \<Rightarrow> int \<Rightarrow> bool" where
  "gives_back s m u k \<longleftrightarrow> 0 \<le> k \<and> nat k < length (nodes_and_registration u) \<and>
     (if is_dequantize s k then node_at u k = node_at s k
      else let ins = node_inputs (sn_node (node_at s k)) in
        (\<exists>is. node_at u k = (node_at s k)\<lparr>sn_node := (sn_node (node_at s k))\<lparr>node_inputs := is\<rparr>\<rparr> \<and>
           map (remap_input u m) is = ins \<and> map (remap_input u m) ins = ins))"

lemma remap_input_nodes [simp]: "remap_input (u\<lparr>nodes_and_registration := ns\<rparr>) = remap_input u"
  by (auto simp: remap_input_def tensor_at_def fun_eq_iff)

lemma remap_node_back:
  assumes "gives_back s m u k"
  shows "remap_node m u k = u\<lparr>nodes_and_registration := (nodes_and_registration u)[nat k := node_at s k]\<rparr>"
proof (cases "is_dequantize s k")
  case True
  with assms have n: "node_at u k = node_at s k" by (simp add: gives_back_def)
  then have "remap_node m u k = u" using True by (simp add: remap_node_def is_dequantize_def Let_def)
  moreover have "(nodes_and_registration u)[nat k := node_at s k] = nodes_and_registration u"
    unfolding n [symmetric] by (simp add: node_at_def)
  ultimately show ?thesis by simp
next
  case False
  then obtain "is" where is': "node_at u k = (node_at s k)\<lparr>sn_node := (sn_node (node_at s k))\<lparr>node_inputs := is\<rparr>\<rparr>"
    "map (remap_input u m) is = node_inputs (sn_node (node_at s k))"
    using assms by (auto simp: gives_back_def Let_def)
  have "reg_builtin_code (sn_registration (node_at u k)) \<noteq> kTfLiteBuiltinDequantize"
    using False unfolding is'(1) by (simp add: is_dequantize_def)
  then show ?thesis unfolding remap_node_def Let_def is'(1) by (simp add: is'(2) update_node_def)
qed

lemma gives_back_step:
  assumes "gives_back s m u j" "gives_back s m u k"
  shows "gives_back s m (u\<lparr>nodes_and_registration := (nodes_and_registration u)[nat k := node_at s k]\<rparr>) j"
proof (cases "nat j = nat k")
  case True
  then have "j = k" using assms by (auto simp: gives_back_def eq_nat_nat_iff split: if_splits)
  then show ?thesis
    using assms(2) by (auto simp: gives_back_def node_at_def Let_def
        intro!: exI [of _ "node_inputs (sn_node (nodes_and_registration s ! nat k))"] split: if_splits)
next
  case False
  then have "node_at (u\<lparr>nodes_and_registration := (nodes_and_registration u)[nat k := node_at s k]\<rparr>) j = node_at u j"
    by (simp add: node_at_def)
  then show ?thesis using assms(1) by (simp add: gives_back_def)
qed

lemma remap_nodes_back:
  assumes "\<forall>k \<in> set ks. gives_back s m u k"
  shows "\<exists>ns. foldl (remap_node m) u ks = u\<lparr>nodes_and_registration := ns\<rparr> \<and> length ns = length (nodes_and_registration u) \<and>
    (\<forall>j < length ns. ns ! j = (if int j \<in> set ks then nodes_and_registration s ! j else nodes_and_registration u ! j))"
  using assms
proof (induction ks arbitrary: u)
  case (Cons k ks)
  let ?u = "u\<lparr>nodes_and_registration := (nodes_and_registration u)[nat k := node_at s k]\<rparr>"
  have k: "gives_back s m u k" using Cons.prems by simp
  then have k0: "0 \<le> k" "nat k < length (nodes_and_registration u)" by (simp_all add: gives_back_def)
  have "\<forall>j \<in> set ks. gives_back s m ?u j" using Cons.prems gives_back_step [OF _ k] by simp
  from Cons.IH [OF this] obtain ns where ns: "foldl (remap_node m) ?u ks = ?u\<lparr>nodes_and_registration := ns\<rparr>"
    "length ns = length (nodes_and_registration u)"
    "\<forall>j < length ns. ns ! j = (if int j \<in> set ks then nodes_and_registration s ! j else nodes_and_registration ?u ! j)" by auto
  have "ns ! j = (if int j \<in> set (k # ks) then nodes_and_registration s ! j else nodes_and_registration u ! j)" if "j < length ns" for j
    using ns(3) that k0 by (cases "j = nat k") (auto simp: node_at_def)
  then show ?case using ns(1,2) by (intro exI [of _ ns]) (simp add: remap_node_back [OF k])
next
  case Nil
  then show ?case by (intro exI [of _ "nodes_and_registration u"]) simp
qed

text \<open>A graph with halved inputs is as well formed as the graph before.\<close>

lemma halvedD:
  assumes "halved s u"
  shows "execution_plan u = execution_plan s" "sg_tensors u = sg_tensors s"
    "length (nodes_and_registration u) = length (nodes_and_registration s)"
    "u = s\<lparr>nodes_and_registration := nodes_and_registration u\<rparr>"
proof -
  show e: "u = s\<lparr>nodes_and_registration := nodes_and_registration u\<rparr>" using assms by (simp add: halved_def)
  show "execution_plan u = execution_plan s" by (subst e) simp
  show "sg_tensors u = sg_tensors s" by (subst e) simp
  show "length (nodes_and_registration u) = length (nodes_and_registration s)" using assms by (simp add: halved_def)
qed

lemma halved_node_at:
  assumes h: "halved s u" and k: "0 \<le> k" "nat k < length (nodes_and_registration s)"
  obtains "is" where "node_at u k = (node_at s k)\<lparr>sn_node := (sn_node (node_at s k))\<lparr>node_inputs := is\<rparr>\<rparr>"
    "if k \<in> set (execution_plan s) \<and> \<not> is_dequantize s k
     then list_all2 (\<lambda>a b. b = a \<or> dequantizes s b a) (node_inputs (sn_node (node_at s k))) is
     else is = node_inputs (sn_node (node_at s k))"
proof -
  have k': "int (nat k) = k" "nodes_and_registration s ! nat k = node_at s k" "nodes_and_registration u ! nat k = node_at u k"
    using k(1) by (simp_all add: node_at_def)
  have "halved_node s (nat k) (nodes_and_registration u ! nat k)" using h k(2) by (simp add: halved_def)
  then show thesis unfolding halved_node_def k' by (blast intro: that)
qed

lemma dequantizes_range:
  assumes "half_precision_ok s" "dequantizes s i out"
  shows "0 \<le> i" "nat i < length (sg_tensors s)" "t_type (tensor_at s i) = kTfLiteFloat16"
  using assms by (auto simp: half_precision_ok_def dequantizes_def)

lemma opt_tensor_view: "opt_tensor (InterpreterInfo s) t \<longleftrightarrow> t = kTfLiteOptionalTensor \<or> 0 \<le> t \<and> nat t < length (sg_tensors s)"
  by (simp add: opt_tensor_def valid_tensor_def InterpreterInfo_def)

lemma halved_inputs:
  assumes h: "halved s u" and ok: "half_precision_ok s" and p: "partition_ok (InterpreterInfo s)"
    and k: "k \<in> set (execution_plan s)" "0 \<le> k" "nat k < length (nodes_and_registration s)" and b: "b \<in> set (node_inputs (sn_node (node_at u k)))"
  shows "b = kTfLiteOptionalTensor \<or> 0 \<le> b \<and> nat b < length (sg_tensors s)"
proof -
  obtain "is" where n: "node_at u k = (node_at s k)\<lparr>sn_node := (sn_node (node_at s k))\<lparr>node_inputs := is\<rparr>\<rparr>"
    and is': "if k \<in> set (execution_plan s) \<and> \<not> is_dequantize s k
     then list_all2 (\<lambda>a b. b = a \<or> dequantizes s b a) (node_inputs (sn_node (node_at s k))) is
     else is = node_inputs (sn_node (node_at s k))" by (rule halved_node_at [OF h k(2,3)])
  have "node_ok (InterpreterInfo s) (sn_node (node_at s k))"
    using p k(1) by (auto simp: partition_ok_def list_all_iff InterpreterInfo_def)
  then have ins: "a = kTfLiteOptionalTensor \<or> 0 \<le> a \<and> nat a < length (sg_tensors s)" if "a \<in> set (node_inputs (sn_node (node_at s k)))" for a
    using that by (auto simp: node_ok_def list_all_iff opt_tensor_view)
  have "b \<in> set is" using b n by simp
  then have "b \<in> set (node_inputs (sn_node (node_at s k))) \<or> (\<exists>a. dequantizes s b a)"
  proof (cases "is_dequantize s k")
    case False
    then have l: "list_all2 (\<lambda>a b. b = a \<or> dequantizes s b a) (node_inputs (sn_node (node_at s k))) is" using is' k(1) by simp
    obtain i where i: "i < length is" "is ! i = b" using \<open>b \<in> set is\<close> by (auto simp: in_set_conv_nth)
    then have "i < length (node_inputs (sn_node (node_at s k)))" using list_all2_lengthD [OF l] by simp
    then show ?thesis using list_all2_nthD2 [OF l i(1)] i(2) nth_mem by metis
  qed (use is' \<open>b \<in> set is\<close> in simp)
  then show ?thesis using ins dequantizes_range [OF ok] by blast
qed

lemma halved_partition_ok:
  assumes h: "halved s u" and ok: "half_precision_ok s" and p: "partition_ok (InterpreterInfo s)" and v: "plan_valid s"
  shows "partition_ok (InterpreterInfo u)"
proof -
  note hD = halvedD [OF h]
  have io: "sg_outputs u = sg_outputs s" by (subst hD(4)) simp
  have k: "0 \<le> k" "nat k < length (nodes_and_registration s)" if "k \<in> set (execution_plan s)" for k
    using v that by (auto simp: plan_valid_def list_all_iff)
  have same: "node_outputs (sn_node (node_at u k)) = node_outputs (sn_node (node_at s k))"
    "node_temporaries (sn_node (node_at u k)) = node_temporaries (sn_node (node_at s k))"
    "inplace_operator (sn_node (node_at u k)) = inplace_operator (sn_node (node_at s k))" if "k \<in> set (execution_plan s)" for k
    by (rule halved_node_at [OF h k [OF that]], simp)+
  have "node_ok (InterpreterInfo u) (sn_node (node_at u k))" if kp: "k \<in> set (execution_plan s)" for k
  proof -
    have "node_ok (InterpreterInfo s) (sn_node (node_at s k))"
      using p kp by (auto simp: partition_ok_def list_all_iff InterpreterInfo_def)
    then show ?thesis
      using halved_inputs [OF h ok p kp k [OF kp]] hD(2)
      by (simp add: node_ok_def same [OF kp] list_all_iff opt_tensor_view) (simp add: valid_tensor_def InterpreterInfo_def)
  qed
  then show ?thesis
    using p same hD(1-3) io
    by (auto simp: partition_ok_def InterpreterInfo_def list_all_iff valid_tensor_def) 
qed

text \<open>A graph with halved inputs, after its delegate nodes are cleaned up, gives all nodes of the plan back.\<close>

lemma halved_gives_back:
  assumes h: "halved s u" and ok: "half_precision_ok s" and c: "same_conversions s v"
    and p: "partition_ok (InterpreterInfo s)" and k: "k \<in> set (execution_plan s)" "0 \<le> k" "nat k < length (nodes_and_registration s)"
    and v: "node_at v k = node_at u k" "nat k < length (nodes_and_registration v)"
  shows "gives_back s (fp16_to_fp32 v) v k"
proof -
  let ?n = "sn_node (node_at s k)" and ?m = "fp16_to_fp32 v"
  obtain "is" where n: "node_at u k = (node_at s k)\<lparr>sn_node := ?n\<lparr>node_inputs := is\<rparr>\<rparr>"
    and is': "if k \<in> set (execution_plan s) \<and> \<not> is_dequantize s k
     then list_all2 (\<lambda>a b. b = a \<or> dequantizes s b a) (node_inputs ?n) is else is = node_inputs ?n"
    by (rule halved_node_at [OF h k(2,3)])
  show ?thesis
  proof (cases "is_dequantize s k")
    case True
    then show ?thesis using n is' k(2) v by (simp add: gives_back_def)
  next
    case not_dequantize: False
    have in_range: "b = kTfLiteOptionalTensor \<or> 0 \<le> b \<and> nat b < length (sg_tensors s)"
      if "b \<in> set is \<or> b \<in> set (node_inputs ?n)" for b
      using that halved_inputs [OF h ok p k, of b] halved_inputs [OF halved_refl ok p k, of b] n by auto
    have restored: "remap_input v ?m b = a" if ab: "b = a \<or> dequantizes s b a" "a \<in> set (node_inputs ?n)"
        "b = kTfLiteOptionalTensor \<or> 0 \<le> b \<and> nat b < length (sg_tensors s)" for a b
    proof (cases "b \<noteq> kTfLiteOptionalTensor \<and> t_type (tensor_at v b) = kTfLiteFloat16")
      case True
      then have b: "0 \<le> b" "nat b < length (sg_tensors s)" using ab(3) by auto
      have none: "\<forall>out. \<not> dequantizes s a out" using ok k(1) not_dequantize ab(2) by (simp add: half_precision_ok_def)
      have "?m ! nat b = a" using ab(1) fp16_to_fp32_at [OF ok c b] none by blast
      then show ?thesis using True by (simp add: remap_input_def)
    next
      case False
      have "\<not> dequantizes s b a"
      proof
        assume "dequantizes s b a"
        from dequantizes_range [OF ok this] show False using False c by (auto simp: same_conversions_def tensor_at_def)
      qed
      then show ?thesis using ab(1) False by (auto simp: remap_input_def)
    qed
    have l: "list_all2 (\<lambda>a b. b = a \<or> dequantizes s b a) (node_inputs ?n) is" using is' not_dequantize k(1) by simp
    have 1: "map (remap_input v ?m) is = node_inputs ?n"
    proof (rule nth_equalityI)
      show "length (map (remap_input v ?m) is) = length (node_inputs ?n)" using list_all2_lengthD [OF l] by simp
      fix x assume "x < length (map (remap_input v ?m) is)"
      then have x: "x < length is" "x < length (node_inputs ?n)" using list_all2_lengthD [OF l] by simp_all
      then have "is ! x = node_inputs ?n ! x \<or> dequantizes s (is ! x) (node_inputs ?n ! x)" using l by (simp add: list_all2_conv_all_nth)
      from restored [OF this] x in_range [of "is ! x"] show "map (remap_input v ?m) is ! x = node_inputs ?n ! x" by simp
    qed
    have "remap_input v ?m a = a" if "a \<in> set (node_inputs ?n)" for a
      using restored [of a a] that in_range [of a] by blast
    then have "map (remap_input v ?m) (node_inputs ?n) = node_inputs ?n" by (simp add: map_idI)
    then show ?thesis using n 1 k(2) v not_dequantize by (auto simp: gives_back_def Let_def)
  qed
qed

section \<open>Undoing a replacement\<close>

lemma delegated_plan_new:
  assumes "\<forall>x \<in> set ss. subset_type x \<noteq> kTfPartition \<longrightarrow> (\<forall>k \<in> set (subset_nodes x). k < int m)" "m \<le> n"
  shows "filter (\<lambda>k. int m \<le> k) (delegated_plan n ss) =
    map int [n..<n + length (filter (\<lambda>x. subset_type x = kTfPartition) ss)]"
  using assms
proof (induction n ss rule: delegated_plan.induct)
  case (2 n x xs)
  have "filter (\<lambda>k. int m \<le> k) (subset_nodes x) = []" if "subset_type x \<noteq> kTfPartition"
    using 2(3) that by (auto simp: filter_empty_conv)
  then show ?case using 2 by (simp add: upt_conv_Cons del: upt_Suc)
qed simp

text \<open>The plan after a replacement in a graph without delegates: its delegate nodes are the new ones, once each.\<close>

lemma replace_delegate_nodes:
  assumes "plan_valid s" "partition_ok (InterpreterInfo s)" "ns \<noteq> []"
    and none: "\<forall>x \<in> set (nodes_and_registration s). sn_delegate x = None"
    and r: "ReplaceNodeSubsetsWithDelegateKernels E registration ns d s = Some (kTfLiteOk, s')"
  obtains news where "nodes_and_registration s' = nodes_and_registration s @ news"
    "filter (\<lambda>k. sn_delegate (node_at s' k) \<noteq> None) (execution_plan s') =
      map int [length (nodes_and_registration s)..<length (nodes_and_registration s) + length news]"
    "\<forall>x \<in> set news. sn_live x" "same_rest s s'" "length (sg_tensors s') = length (sg_tensors s)"
    "\<forall>i < length (sg_tensors s). \<exists>b. sg_tensors s' ! i = owned_by d b (sg_tensors s ! i)"
proof -
  let ?n = "length (nodes_and_registration s)" and ?g = "InterpreterInfo s"
  obtain c order ep ss news where c: "info c = ?g" and p: "partitioned c order ep ss"
    and n: "nodes_and_registration s' = nodes_and_registration s @ news" "execution_plan s' = delegated_plan ?n ss"
      "list_all2 (delegate_kernel d (registration\<lparr>reg_builtin_code := kTfLiteBuiltinDelegate\<rparr>)) news
        (filter (\<lambda>x. subset_type x = kTfPartition) ss)"
    and l: "length (sg_tensors s') = length (sg_tensors s)"
    and t: "\<forall>i < length (sg_tensors s). sg_tensors s' ! i =
      owned_by d (\<exists>x \<in> set ss. subset_type x = kTfPartition \<and> i \<in> nat ` set (output_tensors x)) (sg_tensors s ! i)"
    and sr: "same_rest s s'"
    by (rule replace_partitioned [OF assms(1,2,3) r])
  have "concat (map subset_nodes ss) = map (\<lambda>i. int (node_index ?g ! i)) order"
    "set order = {..<length (execution_plan s)}" using p unfolding partitioned_def c by simp_all
  then have "set (concat (map subset_nodes ss)) = (\<lambda>i. int (node_index ?g ! i)) ` {..<length (execution_plan s)}" by simp
  also have "\<dots> = set (execution_plan s)" by (subst plan_pos [OF assms(1), symmetric]) (simp add: atLeast0LessThan)
  finally have cs: "set (concat (map subset_nodes ss)) = set (execution_plan s)" .
  have old: "0 \<le> k \<and> k < int ?n" if "x \<in> set ss" "k \<in> set (subset_nodes x)" for x k
  proof -
    have "k \<in> set (execution_plan s)" unfolding cs [symmetric] using that by auto
    then show ?thesis using assms(1) by (auto simp: plan_valid_def list_all_iff)
  qed
  have len: "length news = length (filter (\<lambda>x. subset_type x = kTfPartition) ss)" using n(3) by (rule list_all2_lengthD)
  have new: "\<exists>x. delegate_kernel d (registration\<lparr>reg_builtin_code := kTfLiteBuiltinDelegate\<rparr>) (news ! i) x" if "i < length news" for i
    using n(3) that by (auto simp: list_all2_conv_all_nth)
  have "sn_delegate (node_at s' k) \<noteq> None \<longleftrightarrow> int ?n \<le> k" if k: "k \<in> set (delegated_plan ?n ss)" for k
  proof (cases "k < int ?n")
    case True
    then obtain x where "x \<in> set ss" "k \<in> set (subset_nodes x)" using delegated_plan_old [OF k True] by blast
    then have "0 \<le> k" "nat k < ?n" using old [of x k] by (simp_all add: nat_less_iff)
    then show ?thesis using none n(1) by (auto simp: node_at_def nth_append)
  next
    case False
    have "k \<in> set (filter (\<lambda>k. int ?n \<le> k) (delegated_plan ?n ss))" using k False by simp
    also have "filter (\<lambda>k. int ?n \<le> k) (delegated_plan ?n ss) = map int [?n..<?n + length news]"
      unfolding len using old by (intro delegated_plan_new) auto
    finally have "nat k - ?n < length news" "?n \<le> nat k" by auto
    then show ?thesis using new [of "nat k - ?n"] n(1) False by (auto simp: node_at_def nth_append delegate_kernel_def)
  qed
  then have "filter (\<lambda>k. sn_delegate (node_at s' k) \<noteq> None) (execution_plan s') = filter (\<lambda>k. int ?n \<le> k) (delegated_plan ?n ss)"
    unfolding n(2) by (rule filter_cong [OF refl])
  also have "\<dots> = map int [?n..<?n + length news]"
    unfolding len using old by (intro delegated_plan_new) auto
  finally have f: "filter (\<lambda>k. sn_delegate (node_at s' k) \<noteq> None) (execution_plan s') = map int [?n..<?n + length news]" .
  have live: "\<forall>x \<in> set news. sn_live x" using new by (metis delegate_kernel_def in_set_conv_nth)
  show thesis by (rule that [OF n(1) f live sr l]) (use t in blast)
qed

text \<open>C12: Let a graph without delegates remember its plan, with indices in range and one producer for each tensor; a delegate
  may have exchanged inputs of nodes in the plan for the half-precision tensors from which \<open>DEQUANTIZE\<close> nodes compute
  them, when each such tensor is converted to one tensor only and read by no other node. After the delegate has replaced
  nodes of this graph, once, undoing gives back exactly the nodes with the inputs that they had before the delegate
  came, up to the largest index in the plan (nodes beyond it are cut off), and the plan; it forgets the remembered plan
  and leaves the graph uninvokable with the mark that its delegates are undone; no node is freed twice. The tensors
  stay as the replacement left them, with the delegate as owner of those that its kernels write.\<close>

theorem Undo_after_Replace:
  assumes "plan_valid s" and "partition_ok (InterpreterInfo s)" and "ns \<noteq> []"
    and "execution_plan s \<noteq> []" and "pre_delegation_execution_plan s = execution_plan s"
    and "\<forall>x \<in> set (nodes_and_registration s). sn_delegate x = None"
    and "half_precision_ok s" and "halved s u"
    and "ReplaceNodeSubsetsWithDelegateKernels E registration ns d u = Some (kTfLiteOk, u')"
  shows "UndoAllDelegates u' = Some (kTfLiteOk, s\<lparr>pre_delegation_execution_plan := [],
    nodes_and_registration := take (nat (foldl max 0 (execution_plan s)) + 1) (nodes_and_registration s),
    sg_tensors := sg_tensors u', sg_state := kStateUninvokable, delegates_undone := True\<rparr>)"
proof -
  note hD = halvedD [OF assms(8)]
  let ?n = "length (nodes_and_registration s)" and ?p = "execution_plan s"
  have kn: "0 \<le> k" "nat k < ?n" if "k \<in> set ?p" for k using assms(1) that by (auto simp: plan_valid_def list_all_iff)
  have pv: "plan_valid u" using assms(1) hD(1,3) by (simp add: plan_valid_def)
  have pu: "partition_ok (InterpreterInfo u)" by (rule halved_partition_ok [OF assms(8,7,2,1)])
  have sd: "\<forall>x \<in> set (nodes_and_registration u). sn_delegate x = None"
  proof
    fix x assume "x \<in> set (nodes_and_registration u)"
    then obtain j where j: "j < ?n" "x = nodes_and_registration u ! j" using hD(3) by (auto simp: in_set_conv_nth)
    obtain "is" where "node_at u (int j) = (node_at s (int j))\<lparr>sn_node := (sn_node (node_at s (int j)))\<lparr>node_inputs := is\<rparr>\<rparr>"
      by (rule halved_node_at [OF assms(8), of "int j"]) (use j(1) in simp_all)
    then show "sn_delegate x = None" using assms(6) j by (simp add: node_at_def)
  qed
  obtain news where n: "nodes_and_registration u' = nodes_and_registration u @ news"
    and f: "filter (\<lambda>k. sn_delegate (node_at u' k) \<noteq> None) (execution_plan u') = map int [?n..<?n + length news]"
    and live: "\<forall>x \<in> set news. sn_live x" and sr: "same_rest u u'" and l: "length (sg_tensors u') = length (sg_tensors s)"
    and t: "\<forall>i < length (sg_tensors s). \<exists>b. sg_tensors u' ! i = owned_by d b (sg_tensors s ! i)"
    using replace_delegate_nodes [OF pv pu assms(3) sd assms(9)] unfolding hD(2,3) by metis
  let ?ks = "map int [?n..<?n + length news]"
  let ?ns = "foldl kill (nodes_and_registration u') ?ks"
  let ?s1 = "u'\<lparr>nodes_and_registration := ?ns\<rparr>"
  let ?s2 = "?s1\<lparr>execution_plan := ?p, pre_delegation_execution_plan := []\<rparr>"
  have clean: "cleanup_nodes ?ks u' = Some ?s1"
    using live n hD(3) by (intro cleanup_nodes_Some) (auto simp: distinct_map inj_on_def node_at_def nth_append)
  have rest: "u' = u\<lparr>sg_tensors := sg_tensors u', nodes_and_registration := nodes_and_registration u',
      execution_plan := execution_plan u', sg_state := sg_state u'\<rparr>" using sr by (simp add: same_rest_def)
  have pre: "pre_delegation_execution_plan u' = ?p" by (subst rest, subst hD(4)) (simp add: assms(5))
  have at: "?ns ! j = nodes_and_registration u ! j" if "j < ?n" for j
    using that n hD(3) by (subst kill_other) (auto simp: nth_append)
  have node2: "node_at ?s2 k = node_at u k" if "k \<in> set ?p" for k using at kn [OF that] by (simp add: node_at_def)
  have c: "same_conversions s ?s2"
  proof -
    have "is_dequantize ?s2 k = is_dequantize s k \<and> (is_dequantize s k \<longrightarrow> sn_node (node_at ?s2 k) = sn_node (node_at s k))"
      if k: "k \<in> set ?p" for k
      by (rule halved_node_at [OF assms(8) kn [OF k]]) (use node2 [OF k] k in \<open>auto simp: is_dequantize_def\<close>)
    moreover have "\<forall>i < length (sg_tensors s). t_type (sg_tensors u' ! i) = t_type (sg_tensors s ! i)"
      using t by (force simp: owned_by_def)
    ultimately show ?thesis using l by (simp add: same_conversions_def)
  qed
  have ln: "?n \<le> length ?ns" using n hD(3) by simp
  have "\<forall>k \<in> set ?p. gives_back s (fp16_to_fp32 ?s2) ?s2 k"
  proof
    fix k assume k: "k \<in> set ?p"
    show "gives_back s (fp16_to_fp32 ?s2) ?s2 k"
      by (rule halved_gives_back [OF assms(8,7) c assms(2) k kn [OF k] node2 [OF k]]) (use kn [OF k] ln in simp)
  qed
  from remap_nodes_back [OF this] obtain ms where re: "foldl (remap_node (fp16_to_fp32 ?s2)) ?s2 ?p = ?s2\<lparr>nodes_and_registration := ms\<rparr>"
    and ms: "length ms = length ?ns" "\<forall>j < length ms. ms ! j = (if int j \<in> set ?p then nodes_and_registration s ! j else ?ns ! j)" by auto
  let ?r = "nat (foldl max 0 ?p) + 1"
  have r: "?r \<le> ?n"
  proof -
    have "foldl max 0 ks \<in> insert 0 (set ks)" for ks :: "int list"
      by (induction ks rule: rev_induct) (auto simp: max_def)
    then have "foldl max 0 ?p \<in> insert 0 (set ?p)" .
    moreover obtain k where "k \<in> set ?p" using assms(4) by fastforce
    ultimately show ?thesis using kn by fastforce
  qed
  have "take ?r ms = take ?r (nodes_and_registration s)"
  proof (rule nth_equalityI)
    show "length (take ?r ms) = length (take ?r (nodes_and_registration s))" using r ln ms(1) by simp
    fix j assume "j < length (take ?r ms)"
    then have j: "j < ?r" "j < ?n" "j < length ms" using r ln ms(1) by simp_all
    have "nodes_and_registration u ! j = nodes_and_registration s ! j" if "int j \<notin> set ?p"
      by (rule halved_node_at [OF assms(8), of "int j"]) (use j that in \<open>auto simp: node_at_def\<close>)
    then show "take ?r ms ! j = take ?r (nodes_and_registration s) ! j" using ms(2) j at [OF j(2)] by auto
  qed
  then have "UndoAllDelegates u' = Some (kTfLiteOk, ?s2\<lparr>nodes_and_registration := take ?r (nodes_and_registration s),
      sg_state := kStateUninvokable, delegates_undone := True\<rparr>)"
    using r ln ms(1) assms(4) pre re unfolding UndoAllDelegates_def f clean option.map Let_def by simp
  also have "\<dots> = Some (kTfLiteOk, s\<lparr>pre_delegation_execution_plan := [],
      nodes_and_registration := take ?r (nodes_and_registration s),
      sg_tensors := sg_tensors u', sg_state := kStateUninvokable, delegates_undone := True\<rparr>)"
    by (subst rest, subst hD(4)) simp
  finally show ?thesis .
qed

text \<open>
  A graph with a half-precision constant, the node that converts it and an addition; the addition reads tensor \<open>i\<close>, which
  is 1 in the model and 0 after a delegate with half precision has come.
\<close>

definition half_host :: "int \<Rightarrow> SimplePlanner Subgraph" where
  "half_host i = demo_host\<lparr>sg_tensors := [demo_sub_tensor\<lparr>t_type := kTfLiteFloat16\<rparr>, demo_sub_tensor, demo_sub_tensor, demo_sub_tensor],
     nodes_and_registration :=
       [(demo_sub_node (demo_node [0] [1] False))\<lparr>sn_registration := demo_registration\<lparr>reg_builtin_code := kTfLiteBuiltinDequantize\<rparr>\<rparr>,
        demo_sub_node (demo_node [i, 2] [3] False)],
     execution_plan := [0, 1], pre_delegation_execution_plan := [0, 1], sg_inputs := [2], sg_outputs := [3]\<rparr>"

lemma half_host_simps [simp]:
  "execution_plan (half_host i) = [0, 1]" "pre_delegation_execution_plan (half_host i) = [0, 1]"
  "sg_tensors (half_host i) = [demo_sub_tensor\<lparr>t_type := kTfLiteFloat16\<rparr>, demo_sub_tensor, demo_sub_tensor, demo_sub_tensor]"
  "nodes_and_registration (half_host i) =
     [(demo_sub_node (demo_node [0] [1] False))\<lparr>sn_registration := demo_registration\<lparr>reg_builtin_code := kTfLiteBuiltinDequantize\<rparr>\<rparr>,
      demo_sub_node (demo_node [i, 2] [3] False)]"
  by (simp_all add: half_host_def)

lemma half_host_nodes [simp]:
  "is_dequantize (half_host i) 0" "\<not> is_dequantize (half_host i) 1"
  "node_inputs (sn_node (node_at (half_host i) 0)) = [0]" "node_inputs (sn_node (node_at (half_host i) 1)) = [i, 2]"
  "node_outputs (sn_node (node_at (half_host i) 0)) = [1]"
  by (simp_all add: is_dequantize_def node_at_def demo_sub_node_def demo_node_def demo_registration_def kTfLiteBuiltinDequantize_def)

lemma half_host_dequantizes: "dequantizes (half_host i) t out \<longleftrightarrow> t = 0 \<and> out = 1"
proof -
  have "t_type (tensor_at (half_host i) 0) = kTfLiteFloat16" by (simp add: tensor_at_def)
  then show ?thesis unfolding dequantizes_def by auto
qed

lemma half_host_ok: "half_precision_ok (half_host 1)" "halved (half_host 1) (half_host 0)"
proof -
  show "half_precision_ok (half_host 1)"
    unfolding half_precision_ok_def by (auto simp: half_host_dequantizes)
  have "halved_node (half_host 1) k (nodes_and_registration (half_host 0) ! k)" if "k < 2" for k
  proof (cases "k = 0")
    case True
    then show ?thesis
      by (auto simp: halved_node_def demo_sub_node_def demo_node_def intro!: exI [of _ "[0]"])
  next
    case False
    with that have "k = 1" by simp
    then show ?thesis
      by (auto simp: halved_node_def demo_sub_node_def demo_node_def half_host_dequantizes is_dequantize_def node_at_def demo_registration_def kTfLiteBuiltinDequantize_def
          intro!: exI [of _ "[0, 2]"])
  qed
  then show "halved (half_host 1) (half_host 0)"
    by (simp add: halved_def) (simp add: half_host_def)
qed

lemma half_host_partition:
  "PartitionGraph demo_env [1] (half_host 0) = Some (kTfLiteOk,
     [demo_subset kTfNonPartition [0] [0] [], demo_subset kTfPartition [1] [0, 2] [3]])"
  by (simp add: PartitionGraph_def InterpreterInfo_def PartitionGraphIntoIndependentNodeSubsets_def Partition_def
      new_Partitioner_def IsValidIndex_def init_state_def BuildNodeSubset_def subset_loop.simps build_loop.simps UpdateNode_def
      note_input_def set_epochs_def outgoing_def Uniquefy_def uniquefy_subset_def new_NodeSubset_def half_host_def demo_env_def demo_host_def
      node_at_def demo_sub_node_def demo_node_def demo_subset_def demo_sub_tensor_def demo_tensor_def TfLiteTensor.defs upt_rec Let_def
      cong: eval_congs)

lemma half_host_replaced:
  "\<exists>u'. ReplaceNodeSubsetsWithDelegateKernels demo_env demo_registration [1] 7 (half_host 0) = Some (kTfLiteOk, u')"
  unfolding ReplaceNodeSubsetsWithDelegateKernels_def Let_def half_host_partition
  by (simp add: replace_subset_def demo_subset_def tf_then_def tf_ensure_def claim_tensor_def AddNodeWithParameters_def
      CheckTensorIndices_def CheckInputAndOutputForOverlap_def half_host_def demo_host_def demo_graph_def demo_env_def
      demo_delegate_def demo_sub_tensor_def TfLiteTensor.defs update_tensor_def Let_def)

theorem Undo_after_Replace_witness:
  "\<exists>u' s''. ReplaceNodeSubsetsWithDelegateKernels demo_env demo_registration [1] 7 (half_host 0) = Some (kTfLiteOk, u') \<and>
     UndoAllDelegates u' = Some (kTfLiteOk, s'') \<and> execution_plan s'' = [0, 1] \<and>
     map (\<lambda>x. node_inputs (sn_node x)) (nodes_and_registration s'') = [[0], [1, 2]]"
proof -
  obtain u' where u': "ReplaceNodeSubsetsWithDelegateKernels demo_env demo_registration [1] 7 (half_host 0) = Some (kTfLiteOk, u')"
    using half_host_replaced by blast
  have v: "plan_valid (half_host 1)" by (simp add: plan_valid_def)
  have p: "partition_ok (InterpreterInfo (half_host 1))"
    by (simp add: partition_ok_def node_ok_def opt_tensor_def valid_tensor_def InterpreterInfo_def node_at_def demo_sub_node_def
        demo_node_def half_host_def demo_host_def all_less_Suc numeral_eq_Suc)
  have n: "[1] \<noteq> ([] :: int list)" "execution_plan (half_host 1) \<noteq> []"
    "pre_delegation_execution_plan (half_host 1) = execution_plan (half_host 1)"
    "\<forall>x \<in> set (nodes_and_registration (half_host 1)). sn_delegate x = None" by (simp_all add: demo_sub_node_def)
  from Undo_after_Replace [OF v p n half_host_ok u'] u' show ?thesis
    by (auto simp: demo_sub_node_def demo_node_def)
qed

end
