(* ===== verification/SubgraphRun.thy ===== *)
theory SubgraphRun
  imports SubgraphUndo
begin

text \<open>
  Sequences of operations on a subgraph in \<^verbatim>\<open>src/tflite/core/subgraph.cc\<close>: which states they
  reach.
\<close>

section \<open>Conditions on results\<close>

text \<open>\<open>yields r Q\<close>: whatever the status, the state that \<open>r\<close> returns satisfies \<open>Q\<close>.\<close>

definition yields :: "(TfLiteStatus \<times> 's) option \<Rightarrow> ('s \<Rightarrow> bool) \<Rightarrow> bool" where
  "yields r Q \<longleftrightarrow> (\<forall>st s'. r = Some (st, s') \<longrightarrow> Q s')"

lemma yieldsD: "yields r Q \<Longrightarrow> r = Some (st, s') \<Longrightarrow> Q s'"
  by (simp add: yields_def)

lemma yields_simps [simp]:
  "yields None Q"
  "yields (Some (st, s)) Q \<longleftrightarrow> Q s"
  by (auto simp: yields_def)

lemma yields_Some: "yields (Some r) Q \<longleftrightarrow> Q (snd r)"
  by (cases r) simp

lemma yields_then:
  assumes "yields r R" and "\<And>s. R s \<Longrightarrow> Q s" and "\<And>s. R s \<Longrightarrow> yields (k s) Q"
  shows "yields (tf_then r k) Q"
  using assms by (auto simp: yields_def tf_then_def split: option.splits if_splits)

lemma yields_ensure: "Q s \<Longrightarrow> (b \<Longrightarrow> yields (k s) Q) \<Longrightarrow> yields (tf_ensure b s k) Q"
  by (auto simp: tf_ensure_def)

lemma yields_for:
  assumes "\<And>s x. Q s \<Longrightarrow> x \<in> set xs \<Longrightarrow> yields (f s x) Q" and "Q s"
  shows "yields (tf_for f s xs) Q"
  using assms
proof (induction xs arbitrary: s)
  case (Cons x xs)
  then show ?case by (auto intro!: yields_then [where R = Q])
qed simp

lemma yields_map: "yields (map_option (\<lambda>(st, s). (g st s, f s)) r) Q \<longleftrightarrow> yields r (\<lambda>s. Q (f s))"
  by (cases r) auto

lemma yields_weaken: "yields r R \<Longrightarrow> (\<And>s. R s \<Longrightarrow> Q s) \<Longrightarrow> yields r Q"
  by (auto simp: yields_def)

section \<open>What kernels and planners leave alone\<close>

definition plan_frame :: "'p Subgraph \<Rightarrow> 'p Subgraph \<Rightarrow> bool" where
  "plan_frame s s' \<longleftrightarrow> delegates_applied s' = delegates_applied s \<and> delegates_undone s' = delegates_undone s \<and>
     pre_delegation_execution_plan s' = pre_delegation_execution_plan s \<and> execution_plan s' = execution_plan s \<and>
     sg_state s' = sg_state s"

lemma plan_frame_refl [simp]: "plan_frame s s"
  by (simp add: plan_frame_def)

lemma plan_frame_trans: "plan_frame s s1 \<Longrightarrow> plan_frame s1 s2 \<Longrightarrow> plan_frame s s2"
  by (simp add: plan_frame_def)

text \<open>What a delegate may do to the graph: change the plan, and make the graph uninvokable.\<close>

definition delegate_frame :: "'p Subgraph \<Rightarrow> 'p Subgraph \<Rightarrow> bool" where
  "delegate_frame s s' \<longleftrightarrow> delegates_applied s' = delegates_applied s \<and> delegates_undone s' = delegates_undone s \<and>
     pre_delegation_execution_plan s' = pre_delegation_execution_plan s \<and>
     (sg_state s' = sg_state s \<or> sg_state s' = kStateUninvokable)"

text \<open>The contract of the functions that other code registers.\<close>

definition well_behaved :: "'p Env \<Rightarrow> bool" where
  "well_behaved E \<longleftrightarrow>
     (\<forall>k s. plan_frame s (snd (op_prepare E k s)) \<and> plan_frame s (snd (op_invoke E k s))) \<and>
     (\<forall>d t s. plan_frame s (snd (d_CopyFromBufferHandle (delegate_of E d) t s))) \<and>
     (\<forall>d s. yields (d_Prepare (delegate_of E d) s) (delegate_frame s))"

lemma plan_frame_foldl:
  assumes "\<And>s x. plan_frame s (f s x)"
  shows "plan_frame s (foldl f s xs)"
proof (induction xs arbitrary: s)
  case (Cons x xs)
  then show ?case using plan_frame_trans [OF assms Cons] by simp
qed simp

lemma plan_frame_tensor [simp]: "plan_frame s (update_tensor t tns s)"
  by (simp add: plan_frame_def update_tensor_def)

lemma plan_frame_free_data [simp]: "plan_frame s (free_data t s)"
  by (simp add: plan_frame_def free_data_def update_tensor_def split: prod.splits)

lemma with_planner_plan: "yields (with_planner f s) (plan_frame s)"
  by (auto simp: yields_def with_planner_def put_tensors_def plan_frame_def split: option.splits)

lemma planning_plan: "yields (planning f s) (plan_frame s)"
  unfolding planning_def by (rule with_planner_plan)

lemma prepare_ops_plan:
  assumes "well_behaved E"
  shows "plan_frame s (snd (snd (prepare_ops E lst s ks)))"
proof (induction ks arbitrary: s lst)
  case (Cons x ks)
  obtain i k where x: "x = (i, k)" by (cases x)
  obtain st s1 where s1: "op_prepare E k s = (st, s1)" by (cases "op_prepare E k s")
  have "plan_frame s s1" using assms s1 unfolding well_behaved_def by (metis snd_conv)
  moreover have "plan_frame s (s1\<lparr>has_dynamic_tensors := b\<rparr>)" if "plan_frame s s1" for b using that by (simp add: plan_frame_def)
  ultimately show ?case using Cons.IH [of s1 i] plan_frame_trans [of s s1] by (simp add: x s1)
qed simp

lemma PrepareOpsStartingAt_plan:
  "well_behaved E \<Longrightarrow> PrepareOpsStartingAt E n plan lst s = (st, lst', s') \<Longrightarrow> plan_frame s s'"
  using prepare_ops_plan [of E "if n = 0 then s\<lparr>has_dynamic_tensors := HasDynamicTensorImpl s (sg_outputs s)\<rparr> else s" lst
      "drop (nat n) (indexed plan)"]
  by (auto simp: PrepareOpsStartingAt_def plan_frame_def split: if_splits)

lemma prepare_original_keeps: "well_behaved E \<Longrightarrow> plan_frame s (snd (prepare_original E s))"
  by (auto simp: prepare_original_def plan_frame_def split: prod.splits dest!: PrepareOpsStartingAt_plan)

lemma ensure_planner_plan: "ensure_planner E s = Some s' \<Longrightarrow> plan_frame s s'"
  using planning_plan [of "mp_PlanAllocations (planner E)" "s\<lparr>memory_planner := Some (mp_new (planner E) (opt_preserve_all_tensors (options E)))\<rparr>"]
  by (auto simp: ensure_planner_def yields_def plan_frame_def split: option.splits)

lemma PrepareOpsAndTensors_plan:
  assumes "well_behaved E"
  shows "yields (PrepareOpsAndTensors E s) (plan_frame s)"
  unfolding PrepareOpsAndTensors_def
proof (rule yields_then [where R = "plan_frame s"])
  show "yields (Some (prepare_original E s)) (plan_frame s)" using prepare_original_keeps [OF assms] by (simp add: yields_Some)
next
  fix s1 assume s1: "plan_frame s s1"
  show "yields (case PrepareOpsStartingAt E (next_to_prepare s1) (execution_plan s1) 0 s1 of (st, lst, s2) \<Rightarrow>
      if st \<noteq> kTfLiteOk then Some (st, s2)
      else Option.bind (ensure_planner E (s2\<lparr>next_to_prepare := lst + 1\<rparr>)) (\<lambda>s2.
           tf_then (with_planner (mp_ExecuteAllocations (planner E) (next_to_plan_allocation s2) lst) s2) (\<lambda>s3.
           tf_ensure (verify_prepared lst s3) s3 (\<lambda>s4. Some (kTfLiteOk, s4\<lparr>next_to_plan_allocation := lst + 1\<rparr>))))) (plan_frame s)"
  proof (cases "PrepareOpsStartingAt E (next_to_prepare s1) (execution_plan s1) 0 s1")
    case (fields st lst s2)
    then have s2: "plan_frame s s2" using plan_frame_trans [OF s1 PrepareOpsStartingAt_plan [OF assms]] by blast
    have "yields (tf_then (with_planner f s3) (\<lambda>s3. tf_ensure (b s3) s3 (\<lambda>s4. Some (kTfLiteOk, s4\<lparr>next_to_plan_allocation := lst + 1\<rparr>)))) (plan_frame s)"
      if "plan_frame s s3" for s3 f b
      using that with_planner_plan [of f s3]
      by (intro yields_then [where R = "plan_frame s"] yields_ensure) (auto simp: plan_frame_def elim: yields_weaken)
    moreover have "plan_frame s s3" if "ensure_planner E (s2\<lparr>next_to_prepare := lst + 1\<rparr>) = Some s3" for s3
      using ensure_planner_plan [OF that] s2 by (simp add: plan_frame_def)
    ultimately show ?thesis using s2 fields
      by (cases "ensure_planner E (s2\<lparr>next_to_prepare := lst + 1\<rparr>)") auto
  qed
qed simp

section \<open>Allocating\<close>

text \<open>Allocation changes nothing about delegation, and can only leave the graph as it was, uninvokable, or, when no
  delegates wait to be redone, invokable.\<close>

definition keeps :: "'p Subgraph \<Rightarrow> 'p Subgraph \<Rightarrow> bool" where
  "keeps s s' \<longleftrightarrow> delegates_applied s' = delegates_applied s \<and> delegates_undone s' = delegates_undone s \<and>
     pre_delegation_execution_plan s' = pre_delegation_execution_plan s \<and> execution_plan s' = execution_plan s \<and>
     (sg_state s' = sg_state s \<or> sg_state s' = kStateUninvokable \<or> sg_state s' = kStateInvokable \<and> \<not> delegates_undone s)"

lemma keeps_refl [simp]: "keeps s s"
  by (simp add: keeps_def)

lemma keeps_trans: "keeps s s1 \<Longrightarrow> keeps s1 s2 \<Longrightarrow> keeps s s2"
  by (auto simp: keeps_def)

lemma same_keeps: "plan_frame s s' \<Longrightarrow> keeps s s'"
  by (simp add: plan_frame_def keeps_def)

lemma allocate_again_plan: "yields (allocate_again E s) (plan_frame s)"
proof -
  have "yields (case memory_planner s of
      Some p \<Rightarrow> if mp_Has (planner E) p then Some (kTfLiteOk, s) else with_planner (mp_Acquire (planner E)) s
    | None \<Rightarrow> Some (kTfLiteOk, s)) (plan_frame s)"
    using with_planner_plan [of "mp_Acquire (planner E)" s] by (simp split: option.splits)
  then show ?thesis unfolding allocate_again_def by (auto simp: yields_def split: if_splits prod.splits)
qed

lemma allocate_anew_keeps:
  assumes "well_behaved E" "\<not> delegates_undone s"
  shows "yields (allocate_anew E s) (keeps s)"
  unfolding allocate_anew_def
proof (rule yields_then [where R = "plan_frame s"])
  show "yields (planning (mp_ResetAllocations (planner E))
      (s\<lparr>next_to_prepare := 0, next_to_plan_allocation := 0, next_original_to_prepare := 0\<rparr>)) (plan_frame s)"
    by (rule yields_weaken [OF planning_plan]) (simp add: plan_frame_def)
next
  fix s1 assume s1: "plan_frame s s1"
  show "yields (tf_then (PrepareOpsAndTensors E s1) (\<lambda>s.
     let s1 = InitializeTensorReleaseMap (snd (ResetVariableTensors (s\<lparr>sg_state := kStateInvokable\<rparr>)))
     in Some (kTfLiteOk, if pre_delegation_execution_plan s1 \<noteq> [] then free_delegated_temporaries s1 else s1))) (keeps s)"
  proof (rule yields_then [where R = "plan_frame s"])
    show "yields (PrepareOpsAndTensors E s1) (plan_frame s)"
      by (rule yields_weaken [OF PrepareOpsAndTensors_plan [OF assms(1)]]) (rule plan_frame_trans [OF s1])
  next
    fix s2 assume s2: "plan_frame s s2"
    let ?a = "s2\<lparr>sg_state := kStateInvokable\<rparr>"
    have a: "keeps s ?a" using s2 assms(2) by (simp add: keeps_def plan_frame_def)
    have b: "plan_frame ?a (snd (ResetVariableTensors ?a))" by (simp add: ResetVariableTensors_def plan_frame_def split: prod.splits)
    have c: "plan_frame u (InitializeTensorReleaseMap u)" for u :: "'a Subgraph"
      unfolding InitializeTensorReleaseMap_def by (rule plan_frame_foldl) (simp add: note_last_op_def plan_frame_def Let_def)
    have f1: "plan_frame u (free_temporary u t)" for u :: "'a Subgraph" and t
      unfolding free_temporary_def Let_def by (rule plan_frame_trans [OF plan_frame_free_data plan_frame_tensor])
    have f2: "plan_frame u (foldl free_temporary u ts)" for u :: "'a Subgraph" and ts by (rule plan_frame_foldl) (rule f1)
    have d: "plan_frame u (free_delegated_temporaries u)" for u :: "'a Subgraph"
      unfolding free_delegated_temporaries_def by (rule plan_frame_foldl) (rule f2)
    note bc = plan_frame_trans [OF b c]
    show "yields (let s1 = InitializeTensorReleaseMap (snd (ResetVariableTensors ?a))
       in Some (kTfLiteOk, if pre_delegation_execution_plan s1 \<noteq> [] then free_delegated_temporaries s1 else s1)) (keeps s)"
      using keeps_trans [OF a same_keeps [OF bc]] keeps_trans [OF a same_keeps [OF plan_frame_trans [OF bc d]]]
      by (simp add: Let_def)
  qed (rule same_keeps)
qed (rule same_keeps)

lemma AllocateTensors_no_redo_keeps:
  assumes "well_behaved E"
  shows "yields (AllocateTensors_with no_redo E s) (keeps s)"
  unfolding AllocateTensors_with_def
proof (rule yields_ensure)
  show "yields (tf_then (no_redo s) (\<lambda>s.
     if sg_state s \<noteq> kStateUninvokable \<and> \<not> HasDynamicTensorImpl s (sg_inputs s) then allocate_again E s
     else allocate_anew E s)) (keeps s)"
  proof (rule yields_then [where R = "\<lambda>s1. s1 = s \<and> \<not> delegates_undone s"])
    fix s1 assume "s1 = s \<and> \<not> delegates_undone s"
    then show "yields (if sg_state s1 \<noteq> kStateUninvokable \<and> \<not> HasDynamicTensorImpl s1 (sg_inputs s1) then allocate_again E s1
        else allocate_anew E s1) (keeps s)"
      using allocate_anew_keeps [OF assms] allocate_again_plan [of E s] by (auto elim!: yields_weaken intro: same_keeps)
  qed (auto simp: no_redo_def)
qed simp

lemma EnsureMemoryAllocations_keeps:
  assumes "well_behaved E"
  shows "yields (EnsureMemoryAllocations E s) (keeps s)"
  unfolding EnsureMemoryAllocations_def
proof (rule yields_then [where R = "keeps s"])
  have "keeps s (s\<lparr>sg_state := kStateUninvokable\<rparr>)" by (simp add: keeps_def)
  then show "yields (case memory_planner s of None \<Rightarrow> Some (kTfLiteOk, s)
      | Some _ \<Rightarrow> planning (mp_PlanAllocations (planner E)) (s\<lparr>sg_state := kStateUninvokable\<rparr>)) (keeps s)"
    using planning_plan [of "mp_PlanAllocations (planner E)" "s\<lparr>sg_state := kStateUninvokable\<rparr>"]
    by (auto split: option.splits elim!: yields_weaken intro: keeps_trans same_keeps)
next
  fix s1 assume s1: "keeps s s1"
  show "yields (tf_then (AllocateTensors_with no_redo E s1) (\<lambda>s.
     tf_ensure (sg_state s = kStateInvokable) s (\<lambda>s. Some (kTfLiteOk, s)))) (keeps s)"
    using AllocateTensors_no_redo_keeps [OF assms, of s1] keeps_trans [OF s1]
    by (intro yields_then [where R = "keeps s"] yields_ensure) (auto elim: yields_weaken)
qed simp

section \<open>The invariant of delegation\<close>

text \<open>
  An immutable graph has a delegate; a graph with delegates that are not undone remembers its original plan;
  a graph whose delegates are undone is uninvokable; and the plan is empty only while delegates have it.
\<close>

definition delegation_ok :: "'p Subgraph \<Rightarrow> bool" where
  "delegation_ok s \<longleftrightarrow>
     (sg_state s = kStateInvokableAndImmutable \<longrightarrow> delegates_applied s \<noteq> []) \<and>
     (delegates_applied s \<noteq> [] \<and> \<not> delegates_undone s \<longrightarrow> pre_delegation_execution_plan s \<noteq> []) \<and>
     (delegates_undone s \<longrightarrow> sg_state s = kStateUninvokable \<and> pre_delegation_execution_plan s = []) \<and>
     (delegates_applied s = [] \<or> delegates_undone s \<longrightarrow> execution_plan s \<noteq> [])"

text \<open>With all delegates in place, and in the middle of applying one.\<close>

definition settled :: "'p Subgraph \<Rightarrow> bool" where
  "settled s \<longleftrightarrow> delegation_ok s \<and> \<not> delegates_undone s"

definition applying :: "'p Subgraph \<Rightarrow> bool" where
  "applying s \<longleftrightarrow> pre_delegation_execution_plan s \<noteq> [] \<and> \<not> delegates_undone s \<and>
     (sg_state s = kStateInvokableAndImmutable \<longrightarrow> delegates_applied s \<noteq> [])"

lemma keeps_delegation_ok: "keeps s s' \<Longrightarrow> delegation_ok s \<Longrightarrow> delegation_ok s'"
  by (auto simp: keeps_def delegation_ok_def)

lemma keeps_settled: "keeps s s' \<Longrightarrow> settled s \<Longrightarrow> settled s'"
  using keeps_delegation_ok [of s s'] by (simp add: settled_def keeps_def)

lemma keeps_applying: "keeps s s' \<Longrightarrow> applying s \<Longrightarrow> applying s'"
  by (auto simp: keeps_def applying_def)

text \<open>Results whose condition depends on the status.\<close>

definition ends :: "(TfLiteStatus \<times> 's) option \<Rightarrow> ('s \<Rightarrow> bool) \<Rightarrow> ('s \<Rightarrow> bool) \<Rightarrow> bool" where
  "ends r Q R \<longleftrightarrow> (\<forall>st s'. r = Some (st, s') \<longrightarrow> (if st = kTfLiteOk then Q s' else R s'))"

lemma ends_simps [simp]:
  "ends None Q R"
  "ends (Some (st, s)) Q R \<longleftrightarrow> (if st = kTfLiteOk then Q s else R s)"
  by (auto simp: ends_def)

lemma ends_then: "ends r P R \<Longrightarrow> (\<And>s. P s \<Longrightarrow> ends (k s) Q R) \<Longrightarrow> ends (tf_then r k) Q R"
  by (auto simp: ends_def tf_then_def split: option.splits if_splits)

lemma ends_yields: "ends r Q Q \<longleftrightarrow> yields r Q"
  by (auto simp: ends_def yields_def)

lemma cleanup_nodes_plan: "cleanup_nodes ks s = Some s' \<Longrightarrow> plan_frame s s'"
proof (induction ks arbitrary: s)
  case (Cons k ks)
  then obtain s1 where s1: "CleanupNode k s = Some s1" "cleanup_nodes ks s1 = Some s'"
    by (cases "CleanupNode k s") auto
  then have "plan_frame s s1" by (auto simp: CleanupNode_def update_node_def plan_frame_def split: if_splits)
  then show ?case using Cons.IH [OF s1(2)] plan_frame_trans by blast
qed simp

lemma UndoAllDelegates_cases:
  assumes "UndoAllDelegates s = Some (st, s')"
  obtains (nothing) "pre_delegation_execution_plan s = []" "st = kTfLiteOk" "s' = s"
  | (undone) "pre_delegation_execution_plan s \<noteq> []" "st = kTfLiteOk" "execution_plan s' = pre_delegation_execution_plan s"
      "pre_delegation_execution_plan s' = []" "delegates_applied s' = delegates_applied s" "delegates_undone s'"
      "sg_state s' = kStateUninvokable"
proof (cases "pre_delegation_execution_plan s = []")
  case True
  moreover have "st = kTfLiteOk" "s' = s" using assms True by (simp_all add: UndoAllDelegates_def)
  ultimately show thesis by (rule nothing)
next
  case False
  then obtain s1 where c: "cleanup_nodes (filter (\<lambda>k. sn_delegate (node_at s k) \<noteq> None) (execution_plan s)) s = Some s1"
    using assms by (auto simp: UndoAllDelegates_def)
  let ?s2 = "s1\<lparr>execution_plan := pre_delegation_execution_plan s1, pre_delegation_execution_plan := []\<rparr>"
  have s1: "plan_frame s s1" by (rule cleanup_nodes_plan [OF c])
  have "plan_frame u (remap_node m u k)" for m and u :: "'a Subgraph" and k
    by (simp add: remap_node_def update_node_def plan_frame_def Let_def)
  then have "plan_frame ?s2 (foldl (remap_node m) ?s2 ks)" for m ks by (rule plan_frame_foldl)
  then show thesis
    using assms c False s1 by (intro undone) (auto simp: UndoAllDelegates_def Let_def plan_frame_def)
qed

lemma RemoveAllDelegates_settled:
  fixes E :: "'p Env"
  assumes E: "well_behaved E" and s: "delegation_ok s \<or> applying s"
  shows "yields (RemoveAllDelegates E s) settled"
  unfolding RemoveAllDelegates_def ends_yields [symmetric]
proof (rule ends_then [where P = "\<lambda>s' :: 'p Subgraph. settled (s'\<lparr>delegates_applied := [], delegates_undone := False\<rparr>)"])
  show "ends (UndoAllDelegates s) (\<lambda>s'. settled (s'\<lparr>delegates_applied := [], delegates_undone := False\<rparr>)) settled"
    unfolding ends_def
  proof (intro allI impI)
    fix st s' assume "UndoAllDelegates s = Some (st, s')"
    then show "if st = kTfLiteOk then settled (s'\<lparr>delegates_applied := [], delegates_undone := False\<rparr>) else settled s'"
      using s by (cases rule: UndoAllDelegates_cases) (auto simp: settled_def delegation_ok_def applying_def)
  qed
next
  fix s' :: "'p Subgraph"
  assume s': "settled (s'\<lparr>delegates_applied := [], delegates_undone := False\<rparr>)"
  show "ends (EnsureMemoryAllocations E (s'\<lparr>delegates_applied := [], delegates_undone := False\<rparr>)) settled settled"
    unfolding ends_yields
    by (rule yields_weaken [OF EnsureMemoryAllocations_keeps [OF E]]) (rule keeps_settled [OF _ s'])
qed

lemma reset_delegation_ends:
  assumes E: "well_behaved E" and r: "yields r applying"
  shows "ends (reset_delegation_if_not_ok E r) applying settled"
proof (cases r)
  case (Some x)
  obtain st s where x: "x = (st, s)" by (cases x)
  have s: "applying s" using r Some x by simp
  have "ends (tf_then (RemoveAllDelegates E s) (\<lambda>s. Some (kTfLiteDelegateError, s))) applying settled"
    by (rule ends_then [where P = settled]) (simp_all add: ends_yields RemoveAllDelegates_settled [OF E] s)
  then show ?thesis using s by (simp add: reset_delegation_if_not_ok_def Some x)
qed (simp add: reset_delegation_if_not_ok_def)

lemma Ensure_applying: "well_behaved E \<Longrightarrow> applying s \<Longrightarrow> yields (EnsureMemoryAllocations E s) applying"
  by (rule yields_weaken [OF EnsureMemoryAllocations_keeps]) (auto intro: keeps_applying)

lemma verify_keeps:
  assumes "well_behaved E"
  shows "yields (verify_for_delegation E d s) (keeps s)"
proof (cases "PrepareOpsStartingAt E 0 (execution_plan s) 0 s")
  case (fields st lst s1)
  have s1: "keeps s s1" using PrepareOpsStartingAt_plan [OF assms fields] by (rule same_keeps)
  have "yields (tf_then (EnsureMemoryAllocations E s1) (\<lambda>s. Some (kTfLiteApplicationError, s))) (keeps s)"
    using EnsureMemoryAllocations_keeps [OF assms, of s1] keeps_trans [OF s1]
    by (intro yields_then [where R = "keeps s"]) (auto elim: yields_weaken)
  then show ?thesis using s1 by (simp add: verify_for_delegation_def fields) (simp add: keeps_def)
qed

lemma delegate_turn_applying:
  assumes "well_behaved E" "applying s"
  shows "yields (delegate_turn E d s) applying"
proof -
  let ?s = "snd (SwitchToDelegateContext s)"
  have s: "applying ?s" using assms(2) by (simp add: SwitchToDelegateContext_def applying_def)
  have "yields (d_Prepare (delegate_of E d) ?s) applying"
  proof (rule yields_weaken)
    show "yields (d_Prepare (delegate_of E d) ?s) (delegate_frame ?s)"
      using assms(1) unfolding well_behaved_def by blast
  qed (use s in \<open>auto simp: applying_def delegate_frame_def\<close>)
  moreover have "applying u \<Longrightarrow> applying (snd (SwitchToKernelContext u))" for u :: "'a Subgraph"
    by (simp add: SwitchToKernelContext_def FreeDelegatePartitioningData_def applying_def Let_def)
  ultimately show ?thesis unfolding delegate_turn_def yields_map by (auto elim: yields_weaken)
qed

lemma settle_ends:
  assumes E: "well_behaved E" and s: "applying s"
  shows "ends (settle_delegation E d pre s)
    (\<lambda>s. pre_delegation_execution_plan s \<noteq> [] \<and> \<not> delegates_undone s) settled"
proof -
  have w: "applying u \<Longrightarrow> pre_delegation_execution_plan u \<noteq> [] \<and> \<not> delegates_undone u" for u :: "'a Subgraph"
    by (simp add: applying_def)
  have im: "applying u \<Longrightarrow> ends (Some (kTfLiteOk, u\<lparr>sg_state := kStateInvokableAndImmutable\<rparr>))
      (\<lambda>s. pre_delegation_execution_plan s \<noteq> [] \<and> \<not> delegates_undone s) settled" for u :: "'a Subgraph"
    by (simp add: applying_def)
  have reset: "ends (reset_delegation_if_not_ok E (EnsureMemoryAllocations E u)) applying settled" if "applying u" for u
    by (rule reset_delegation_ends [OF E Ensure_applying [OF E that]])
  have un: "applying (s\<lparr>sg_state := kStateUninvokable\<rparr>)" using s by (simp add: applying_def)
  show ?thesis
  proof (cases "has_flag E d kTfLiteDelegateFlagsAllowDynamicTensors")
    case False
    show ?thesis
      unfolding settle_delegation_def using False reset [OF un] im s
      by (simp, intro ends_then [where P = applying] conjI impI) (auto intro: im)
  next
    case dyn: True
    show ?thesis
    proof (cases "pre = kStateInvokableAndImmutable")
      case True
      let ?prep = "case PrepareOpsStartingAt E 0 (execution_plan s) 0 s of (st, _, s1) \<Rightarrow> Some (st, s1)"
      have prep: "yields ?prep applying"
        using s by (auto split: prod.splits dest!: PrepareOpsStartingAt_plan [OF E] same_keeps keeps_applying)
      have rest: "ends (if has_dynamic_tensors u then tf_then (RemoveAllDelegates E u) (\<lambda>s. Some (kTfLiteApplicationError, s))
          else tf_then (reset_delegation_if_not_ok E (EnsureMemoryAllocations E u)) (\<lambda>s.
            Some (kTfLiteOk, s\<lparr>sg_state := kStateInvokableAndImmutable\<rparr>)))
          (\<lambda>s. pre_delegation_execution_plan s \<noteq> [] \<and> \<not> delegates_undone s) settled" if u: "applying u" for u
      proof -
        have 1: "ends (RemoveAllDelegates E u) settled settled"
          using RemoveAllDelegates_settled [OF E] u by (simp add: ends_yields)
        show ?thesis
          by (cases "has_dynamic_tensors u"; simp only: if_True if_False)
            (rule ends_then [OF 1], simp, rule ends_then [OF reset [OF u] im])
      qed
      show ?thesis
        unfolding settle_delegation_def using dyn True
        by simp (rule ends_then [OF reset_delegation_ends [OF E prep] rest])
    next
      case False
      then show ?thesis
        unfolding settle_delegation_def using dyn reset [OF s] s w by (auto simp: ends_def)
    qed
  qed
qed

lemma ModifyGraph_settled:
  assumes E: "well_behaved E" and redo: "yields (redo s) settled"
  shows "yields (ModifyGraph_with redo E (Some d) s) settled"
proof -
  have verify: "ends (verify_for_delegation E d u) settled settled" if "settled u" for u
    unfolding ends_yields using verify_keeps [OF E, of d u] that by (auto elim!: yields_weaken intro: keeps_settled)
  have mid: "applying (if delegates_applied u = [] then u\<lparr>pre_delegation_execution_plan := execution_plan u\<rparr> else u)"
    if "settled u" for u :: "'a Subgraph"
    using that by (auto simp: settled_def delegation_ok_def applying_def)
  have turn: "ends (reset_delegation_if_not_ok E (delegate_turn E d u)) applying settled" if "applying u" for u
    by (rule reset_delegation_ends [OF E delegate_turn_applying [OF E that]])
  have hint: "settled u" if "applying u" "\<not> IsFullyDelegated u" for u :: "'a Subgraph"
    using that by (auto simp: settled_def delegation_ok_def applying_def IsFullyDelegated_def)
  have fin: "settled (u\<lparr>delegates_applied := delegates_applied u @ [d]\<rparr>)"
    if "pre_delegation_execution_plan u \<noteq> [] \<and> \<not> delegates_undone u" for u :: "'a Subgraph"
    using that by (simp add: settled_def delegation_ok_def)
  have settle: "ends (if has_flag E d kTfLiteDelegateFlagsHintFullyDelegatedToSingleDelegate \<and> \<not> IsFullyDelegated u
       then Some (kTfLiteApplicationError, u)
       else tf_then (settle_delegation E d pre u) (\<lambda>s. Some (kTfLiteOk, s\<lparr>delegates_applied := delegates_applied s @ [d]\<rparr>)))
      settled settled" if u: "applying u" for u pre
  proof (cases "has_flag E d kTfLiteDelegateFlagsHintFullyDelegatedToSingleDelegate \<and> \<not> IsFullyDelegated u")
    case True
    then show ?thesis using hint [OF u] by simp
  next
    case False
    have "ends (tf_then (settle_delegation E d pre u) (\<lambda>s. Some (kTfLiteOk, s\<lparr>delegates_applied := delegates_applied s @ [d]\<rparr>))) settled settled"
      by (rule ends_then [OF settle_ends [OF E u]]) (simp add: fin)
    then show ?thesis unfolding if_not_P [OF False] .
  qed
  show ?thesis
    unfolding ModifyGraph_with_def option.case ends_yields [symmetric] Let_def
    by (rule ends_then [OF redo [folded ends_yields]], rule ends_then [OF verify], assumption,
        rule ends_then [OF turn [OF mid]], assumption, rule settle)
qed

lemma RedoAllDelegates_settled:
  assumes E: "well_behaved E" and s: "delegation_ok s"
  shows "yields (RedoAllDelegates E s) settled"
proof (cases "delegates_undone s")
  case False
  then show ?thesis using s by (simp add: RedoAllDelegates_def settled_def)
next
  case True
  then have "settled (s\<lparr>delegates_undone := False, delegates_applied := []\<rparr>)"
    using s by (simp add: settled_def delegation_ok_def)
  moreover have "yields (no_redo u) settled" if "settled u" for u :: "'a Subgraph"
    using that by (simp add: no_redo_def settled_def)
  ultimately show ?thesis
    using True by (auto simp: RedoAllDelegates_def intro!: yields_for ModifyGraph_settled [OF E])
qed

lemma AllocateTensors_ok:
  fixes E :: "'p Env"
  assumes E: "well_behaved E" and s: "delegation_ok s"
  shows "yields (AllocateTensors E s) delegation_ok"
  unfolding AllocateTensors_def AllocateTensors_with_def
proof (rule yields_ensure [where Q = delegation_ok, OF s])
  have w: "settled u \<Longrightarrow> delegation_ok u" for u :: "'p Subgraph" by (simp add: settled_def)
  show "yields (tf_then (RedoAllDelegates E s) (\<lambda>s.
     if sg_state s \<noteq> kStateUninvokable \<and> \<not> HasDynamicTensorImpl s (sg_inputs s) then allocate_again E s
     else allocate_anew E s)) delegation_ok"
  proof (rule yields_then [OF RedoAllDelegates_settled [OF E s] w])
    fix u :: "'p Subgraph"
    assume u: "settled u"
    have "delegation_ok u'" if "keeps u u'" for u' by (rule w [OF keeps_settled [OF that u]])
    then show "yields (if sg_state u \<noteq> kStateUninvokable \<and> \<not> HasDynamicTensorImpl u (sg_inputs u) then allocate_again E u
        else allocate_anew E u) delegation_ok"
      using allocate_anew_keeps [OF E, of u] allocate_again_plan [of E u] u
      by (auto simp: settled_def elim!: yields_weaken intro: same_keeps)
  qed
qed

lemma ModifyGraph_ok:
  assumes E: "well_behaved E" and s: "delegation_ok s"
  shows "yields (ModifyGraphWithDelegateImpl E d s) delegation_ok"
proof (cases d)
  case None
  then show ?thesis using s by (simp add: ModifyGraphWithDelegateImpl_def ModifyGraph_with_def)
next
  case (Some d)
  then show ?thesis
    using ModifyGraph_settled [where redo = "RedoAllDelegates E", OF E RedoAllDelegates_settled [OF E s], of d]
    by (auto simp: ModifyGraphWithDelegateImpl_def settled_def elim: yields_weaken)
qed

section \<open>Invoking keeps the plan\<close>

lemma well_behavedD:
  assumes "well_behaved E"
  shows "op_invoke E k s = (st, s') \<Longrightarrow> plan_frame s s'"
    and "d_CopyFromBufferHandle (delegate_of E d) t s = (st, s') \<Longrightarrow> plan_frame s s'"
  using assms unfolding well_behaved_def by (metis snd_conv)+

lemma EnsureTensorDataIsReadable_plan:
  assumes "well_behaved E"
  shows "yields (EnsureTensorDataIsReadable E t s) (plan_frame s)"
proof -
  have "plan_frame s (update_tensor t tns u)" if "plan_frame s u" for u tns
    by (rule plan_frame_trans [OF that plan_frame_tensor])
  then show ?thesis
    using well_behavedD(2) [OF assms]
    by (auto simp: EnsureTensorDataIsReadable_def split: option.splits prod.splits intro!: yields_ensure)
qed

lemma read_input_plan:
  assumes "well_behaved E"
  shows "yields (read_input E k s x) (plan_frame s)"
proof (cases x)
  case (Pair j t)
  show ?thesis
    using EnsureTensorDataIsReadable_plan [OF assms, of t s]
    by (auto simp: read_input_def Pair Let_def intro!: yields_then [where R = "plan_frame s"])
qed

lemma TfLiteTensorRealloc_step [simp]:
  "plan_frame s (case TfLiteTensorRealloc P n (tns, h) of (_, u, h) \<Rightarrow> (update_tensor t u s)\<lparr>c_heap := h\<rparr>)"
  by (simp add: plan_frame_def update_tensor_def split: prod.splits)

lemma MayAllocateOpOutput_plan: "plan_frame s (MayAllocateOpOutput E k s)"
  unfolding MayAllocateOpOutput_def by (auto simp: Let_def intro!: plan_frame_foldl)

lemma check_cancellation_plan: "plan_frame s (snd (check_cancellation E s))"
  by (simp add: check_cancellation_def plan_frame_def)

lemma invoke_kernel_plan: "well_behaved E \<Longrightarrow> plan_frame s (snd (invoke_kernel E k s))"
  using well_behavedD(1) [of E k "s\<lparr>tensor_resized_since_op_invoke := False\<rparr>"]
  by (auto simp: invoke_kernel_def plan_frame_def split: prod.splits)

lemma after_resize_plan: "yields (after_resize E i k s) (plan_frame s)"
proof -
  let ?u = "s\<lparr>next_to_prepare := i + 1, next_to_plan_allocation := i + 1\<rparr>"
  have "plan_frame s ?u" by (simp add: plan_frame_def)
  then have "yields (with_planner f ?u) (plan_frame s)" for f
    using with_planner_plan [of f ?u] by (auto elim!: yields_weaken intro: plan_frame_trans)
  then show ?thesis by (simp add: after_resize_def Let_def plan_frame_def)
qed

lemma MaybeReleaseDynamicTensors_plan: "plan_frame s (MaybeReleaseDynamicTensors E k s)"
proof -
  have r: "plan_frame u (release_dynamic k u t)" for u :: "'a Subgraph" and t by (simp add: release_dynamic_def Let_def)
  show ?thesis
    unfolding MaybeReleaseDynamicTensors_def Let_def
    using plan_frame_trans [OF plan_frame_foldl [where f = "release_dynamic k", OF r] plan_frame_foldl [where f = "release_dynamic k", OF r]]
    by simp
qed

lemma prepare_if_needed_plan: "well_behaved E \<Longrightarrow> yields (prepare_if_needed E i s) (plan_frame s)"
  using PrepareOpsAndTensors_plan [of E s]
  by (auto simp: prepare_if_needed_def intro!: yields_then [where R = "plan_frame s"] yields_ensure)

lemma yields_plan_trans: "plan_frame s u \<Longrightarrow> yields r (plan_frame u) \<Longrightarrow> yields r (plan_frame s)"
  by (auto elim!: yields_weaken intro: plan_frame_trans)

lemma invoke_at_plan:
  assumes E: "well_behaved E"
  shows "yields (invoke_at E s i) (plan_frame s)"
  unfolding invoke_at_def Let_def
proof (rule yields_then [OF prepare_if_needed_plan [OF E]])
  fix u assume u: "plan_frame s u"
  let ?k = "execution_plan u ! nat i" and ?P = "plan_frame s"
  have inputs: "yields (tf_for (read_input E ?k) u xs) ?P" for xs
    using u by (intro yields_for) (auto intro: yields_plan_trans read_input_plan [OF E])
  show "yields (tf_then (tf_for (read_input E ?k) u (zip [0..<length (node_inputs (sn_node (node_at u ?k)))] (node_inputs (sn_node (node_at u ?k)))))
      (\<lambda>s. tf_then (Some (check_cancellation E (MayAllocateOpOutput E ?k s)))
      (\<lambda>s. tf_then (Some (invoke_kernel E ?k s)) (\<lambda>s. tf_then (after_resize E i ?k s)
      (\<lambda>s. Some (kTfLiteOk, MaybeReleaseDynamicTensors E ?k s)))))) ?P"
  proof (rule yields_then [OF inputs])
    fix v assume v: "?P v"
    have 1: "yields (Some (check_cancellation E (MayAllocateOpOutput E ?k v))) ?P"
      using plan_frame_trans [OF plan_frame_trans [OF v MayAllocateOpOutput_plan] check_cancellation_plan] by (simp add: yields_Some)
    have 2: "yields (Some (invoke_kernel E ?k w)) ?P" if "?P w" for w
      using plan_frame_trans [OF that invoke_kernel_plan [OF E]] by (simp add: yields_Some)
    have 3: "yields (after_resize E i ?k w) ?P" if "?P w" for w by (rule yields_plan_trans [OF that after_resize_plan])
    have 4: "yields (Some (kTfLiteOk, MaybeReleaseDynamicTensors E ?k w)) ?P" if "?P w" for w
      using plan_frame_trans [OF that MaybeReleaseDynamicTensors_plan] by simp
    show "yields (tf_then (Some (check_cancellation E (MayAllocateOpOutput E ?k v)))
      (\<lambda>s. tf_then (Some (invoke_kernel E ?k s)) (\<lambda>s. tf_then (after_resize E i ?k s)
      (\<lambda>s. Some (kTfLiteOk, MaybeReleaseDynamicTensors E ?k s))))) ?P"
      by (rule yields_then [OF 1], assumption, rule yields_then [OF 2], assumption, assumption,
          rule yields_then [OF 3], assumption, assumption, rule 4)
  qed
qed

lemma InvokeImpl_plan:
  assumes "well_behaved E"
  shows "yields (InvokeImpl E s) (plan_frame s)"
proof -
  have "yields (tf_for (invoke_at E) s xs) (plan_frame s)" for xs
    by (rule yields_for) (auto intro: yields_plan_trans invoke_at_plan [OF assms])
  then show ?thesis by (simp add: InvokeImpl_def split: option.splits)
qed

section \<open>Sequences of operations\<close>

lemma ResizeTensorImpl_plan: "plan_frame s (snd (ResizeTensorImpl E t dims s))"
  by (auto simp: ResizeTensorImpl_def plan_frame_def update_tensor_def Let_def split: option.splits prod.splits)

lemma ResizeInputTensor_ok:
  assumes s: "delegation_ok s"
  shows "yields (ResizeInputTensor E t dims_data rank s) delegation_ok"
proof -
  let ?imm = "sg_state s = kStateInvokableAndImmutable"
  have undo: "yields (if ?imm then UndoAllDelegates s else Some (kTfLiteOk, s)) (\<lambda>u. delegation_ok u \<and> delegation_ok (u\<lparr>sg_state := kStateUninvokable\<rparr>))"
  proof (cases ?imm)
    case True
    then have a: "delegates_applied s \<noteq> []" "\<not> delegates_undone s" "pre_delegation_execution_plan s \<noteq> []"
      using s by (auto simp: delegation_ok_def)
    show ?thesis
      unfolding yields_def
    proof (intro allI impI)
      fix st u assume "(if ?imm then UndoAllDelegates s else Some (kTfLiteOk, s)) = Some (st, u)"
      then have "UndoAllDelegates s = Some (st, u)" using True by simp
      then show "delegation_ok u \<and> delegation_ok (u\<lparr>sg_state := kStateUninvokable\<rparr>)"
        using a by (cases rule: UndoAllDelegates_cases) (auto simp: delegation_ok_def)
    qed
  next
    case False
    then show ?thesis using s by (simp add: delegation_ok_def)
  qed
  have impl: "delegation_ok (snd (ResizeTensorImpl E t d u))" if "delegation_ok u" for d u
    by (rule keeps_delegation_ok [OF same_keeps [OF ResizeTensorImpl_plan] that])
  have "yields (tf_then (if ?imm then UndoAllDelegates s else Some (kTfLiteOk, s))
      (\<lambda>u. Some (ResizeTensorImpl E t d (u\<lparr>sg_state := kStateUninvokable\<rparr>)))) delegation_ok" for d
    by (rule yields_then [OF undo]) (auto simp: yields_Some intro!: impl)
  then have "?imm \<Longrightarrow> yields (tf_then (UndoAllDelegates s) (\<lambda>u. Some (ResizeTensorImpl E t d (u\<lparr>sg_state := kStateUninvokable\<rparr>)))) delegation_ok"
    and "\<not> ?imm \<Longrightarrow> yields (tf_then (Some (kTfLiteOk, s)) (\<lambda>u. Some (ResizeTensorImpl E t d (u\<lparr>sg_state := kStateUninvokable\<rparr>)))) delegation_ok" for d
    by (simp_all split: if_splits)
  then show ?thesis
    unfolding ResizeInputTensor_def Let_def
    using s by (auto intro!: yields_ensure)
qed

lemma small_plan:
  "AddTensors n s = (st, s') \<Longrightarrow> plan_frame s s'"
  "ResetVariableTensors s = (st, s') \<Longrightarrow> plan_frame s s'"
  "EnableCancellation flag s = (st, s') \<Longrightarrow> plan_frame s s'"
  "Cancel s = (st, s') \<Longrightarrow> plan_frame s s'"
  by (auto simp: AddTensors_def ResetVariableTensors_def EnableCancellation_def Cancel_def plan_frame_def
      split: if_splits prod.splits option.splits)

text \<open>One operation of a client that sets execution plans with \<open>P\<close> only.\<close>

inductive api_step :: "(int list \<Rightarrow> bool) \<Rightarrow> 'p Env \<Rightarrow> 'p Subgraph \<Rightarrow> 'p Subgraph \<Rightarrow> bool" for P E where
  allocate: "AllocateTensors E s = Some (st, s') \<Longrightarrow> api_step P E s s'"
| invoke: "InvokeImpl E s = Some (st, s') \<Longrightarrow> api_step P E s s'"
| modify: "ModifyGraphWithDelegateImpl E d s = Some (st, s') \<Longrightarrow> api_step P E s s'"
| remove_delegates: "RemoveAllDelegates E s = Some (st, s') \<Longrightarrow> api_step P E s s'"
| resize_input: "ResizeInputTensor E t dims_data rank s = Some (st, s') \<Longrightarrow> api_step P E s s'"
| resize_input_strict: "ResizeInputTensorStrict E t dims s = Some (st, s') \<Longrightarrow> api_step P E s s'"
| release_non_persistent: "SG_ReleaseNonPersistentMemory E s = Some (st, s') \<Longrightarrow> api_step P E s s'"
| release_memory: "ReleaseMemory E s = Some (st, s') \<Longrightarrow> api_step P E s s'"
| set_custom: "SetCustomAllocationForTensor t a skip_check s = Some (st, s') \<Longrightarrow> api_step P E s s'"
| add_node: "AddNodeWithParameters E is os b params registration s = (st, s') \<Longrightarrow> api_step P E s s'"
| add_tensors: "AddTensors n s = (st, s') \<Longrightarrow> api_step P E s s'"
| set_inputs: "SetInputs ts s = (st, s') \<Longrightarrow> api_step P E s s'"
| set_outputs: "SetOutputs ts s = (st, s') \<Longrightarrow> api_step P E s s'"
| set_variables: "SetVariables ts s = (st, s') \<Longrightarrow> api_step P E s s'"
| set_plan: "P plan \<Longrightarrow> SetExecutionPlan plan s = (st, s') \<Longrightarrow> api_step P E s s'"
| remove_unused: "RemoveUnusedInputs s = (st, s') \<Longrightarrow> api_step P E s s'"
| reset_variables: "ResetVariableTensors s = (st, s') \<Longrightarrow> api_step P E s s'"
| enable_cancellation: "EnableCancellation flag s = (st, s') \<Longrightarrow> api_step P E s s'"
| cancel: "Cancel s = (st, s') \<Longrightarrow> api_step P E s s'"

lemma check_indices_plan: "CheckTensorIndices ts s = (st, s') \<Longrightarrow> plan_frame s s'"
  by (auto simp: CheckTensorIndices_def plan_frame_def split: if_splits)

lemma check_overlap_plan: "CheckInputAndOutputForOverlap ts us s = (st, s') \<Longrightarrow> plan_frame s s'"
  by (auto simp: CheckInputAndOutputForOverlap_def plan_frame_def split: if_splits)

lemma set_plan_members:
  "SetInputs ts s = (st, s') \<Longrightarrow> plan_frame s s'"
  "SetOutputs ts s = (st, s') \<Longrightarrow> plan_frame s s'"
  "SetVariables ts s = (st, s') \<Longrightarrow> plan_frame s s'"
  by (auto simp: SetInputs_def SetOutputs_def SetVariables_def ensure_status_def plan_frame_def
      split: prod.splits if_splits dest!: check_indices_plan)

lemma AddNode_frame:
  assumes "AddNodeWithParameters E is os b params registration s = (st, s')"
  shows "delegate_frame s s'" and "execution_plan s' = execution_plan s \<or> (\<exists>k. execution_plan s' = execution_plan s @ [k])"
  using assms unfolding AddNodeWithParameters_def ensure_status_def Let_def delegate_frame_def
  by (auto split: prod.splits if_splits dest!: check_indices_plan check_overlap_plan simp: plan_frame_def)

lemma AddNode_ok:
  assumes "delegation_ok s" "AddNodeWithParameters E is os b params registration s = (st, s')"
  shows "delegation_ok s'"
  using assms(1) AddNode_frame [OF assms(2)] by (auto simp: delegation_ok_def delegate_frame_def)

lemma frame_trans: "delegate_frame s s1 \<Longrightarrow> delegate_frame s1 s2 \<Longrightarrow> delegate_frame s s2"
  by (auto simp: delegate_frame_def)

lemma same_frame: "plan_frame s s' \<Longrightarrow> delegate_frame s s'"
  by (simp add: plan_frame_def delegate_frame_def)

text \<open>The function that delegates call keeps the contract, whatever its status.\<close>

lemma ReplaceNodeSubsets_frame:
  "yields (ReplaceNodeSubsetsWithDelegateKernels E registration ns d s) (delegate_frame s)"
proof -
  have claim: "yields (claim_tensor d u t) (delegate_frame u)" for u :: "'a Subgraph" and t
    unfolding claim_tensor_def Let_def by (rule yields_ensure) (simp_all add: same_frame)
  have claims: "yields (tf_for (claim_tensor d) u ts) (delegate_frame v)" if "delegate_frame v u" for u v :: "'a Subgraph" and ts
    using that by (intro yields_for) (auto intro: yields_weaken [OF claim] frame_trans)
  have one: "yields (replace_subset E r d u x) (delegate_frame u)" for u :: "'a Subgraph" and x r
  proof (cases "subset_type x")
    case kTfPartition
    let ?k = "int (length (nodes_and_registration u))"
    have add: "yields (Some (AddNodeWithParameters E (input_tensors x) (output_tensors x) True (Some x) r u)) (delegate_frame u)"
      by (simp add: yields_Some AddNode_frame(1) [OF surjective_pairing])
    have upd: "delegate_frame u (update_node ?k n v)" if "delegate_frame u v" for v n
      using that by (simp add: delegate_frame_def update_node_def)
    show ?thesis
      unfolding replace_subset_def Let_def kTfPartition NodeSubset_Type.case
      by (rule yields_then [OF add], assumption, rule yields_then [OF claims], assumption, assumption) (simp add: upd)
  qed (simp_all add: replace_subset_def delegate_frame_def)
  have "yields (tf_for (replace_subset E r d) (s\<lparr>execution_plan := []\<rparr>) ss) (delegate_frame s)" for r ss
    by (rule yields_for) (auto intro: yields_weaken [OF one] frame_trans simp: delegate_frame_def)
  then show ?thesis
    by (auto simp: ReplaceNodeSubsetsWithDelegateKernels_def Let_def delegate_frame_def split: option.splits)
qed

lemma api_step_ok:
  assumes "api_step (\<lambda>plan. plan \<noteq> []) E s s'" "well_behaved E" "delegation_ok s"
  shows "delegation_ok s'"
  using assms(1)
proof cases
  case (resize_input_strict t dims st)
  have "yields (ResizeInputTensorStrict E t dims s) delegation_ok"
    unfolding ResizeInputTensorStrict_def
    using assms(3) ResizeInputTensor_ok [OF assms(3)]
    by (auto intro!: yields_ensure split: option.splits)
  then show ?thesis using resize_input_strict by (rule yieldsD)
next
  case (release_memory st)
  have f: "plan_frame u (free_dynamic u t)" for u :: "'a Subgraph" and t by (simp add: free_dynamic_def)
  have fs: "plan_frame u (foldl free_dynamic u ts)" for u :: "'a Subgraph" and ts by (rule plan_frame_foldl) (rule f)
  obtain st1 s1 where r: "SG_ReleaseNonPersistentMemory E (s\<lparr>sg_state := kStateUninvokable\<rparr>) = Some (st1, s1)"
    and s': "s' = foldl free_dynamic (foldl free_dynamic s1 (sg_inputs s1)) (sg_outputs s1)"
    using release_memory by (auto simp: ReleaseMemory_def)
  have "plan_frame (s\<lparr>sg_state := kStateUninvokable\<rparr>) s1"
    using r yieldsD [OF with_planner_plan r [unfolded SG_ReleaseNonPersistentMemory_def]] by simp
  then have "plan_frame (s\<lparr>sg_state := kStateUninvokable\<rparr>) s'"
    using plan_frame_trans [OF _ plan_frame_trans [OF fs fs]] unfolding s' by blast
  then show ?thesis using assms(3) by (auto simp: plan_frame_def delegation_ok_def)
next
  case (release_non_persistent st)
  have "plan_frame (s\<lparr>sg_state := kStateUninvokable\<rparr>) s'"
    using yieldsD [OF with_planner_plan release_non_persistent [unfolded SG_ReleaseNonPersistentMemory_def]] .
  then show ?thesis using assms(3) by (auto simp: plan_frame_def delegation_ok_def)
next
  case (set_custom t a skip_check st)
  have "plan_frame s s'"
    using set_custom by (auto simp: SetCustomAllocationForTensor_def tf_ensure_def plan_frame_def update_tensor_def split: if_splits)
  then show ?thesis by (rule keeps_delegation_ok [OF same_keeps assms(3)])
next
  case (set_plan plan st)
  then show ?thesis using assms(3) by (auto simp: SetExecutionPlan_def delegation_ok_def split: if_splits)
next
  case (remove_unused st)
  have "plan_frame u (remove_unused c u i)" for c and u :: "'a Subgraph" and i
    by (simp add: remove_unused_def update_tensor_def plan_frame_def Let_def)
  then have "plan_frame s s'" using remove_unused by (auto simp: RemoveUnusedInputs_def intro!: plan_frame_foldl)
  then show ?thesis by (rule keeps_delegation_ok [OF same_keeps assms(3)])
qed (use assms(2,3) in \<open>auto intro: yieldsD [OF AllocateTensors_ok] yieldsD [OF ModifyGraph_ok] yieldsD [OF ResizeInputTensor_ok]
    AddNode_ok keeps_delegation_ok [OF same_keeps] set_plan_members small_plan yieldsD [OF InvokeImpl_plan]
    dest: yieldsD [OF RemoveAllDelegates_settled] simp: settled_def\<close>)

text \<open>C13: In every state that a sequence of operations reaches from a graph with some node and no delegates, an immutable
  graph has a delegate and remembers its original plan, so that resizing an input can undo the delegates; a graph
  whose delegates are undone is uninvokable until they are redone; and a graph without delegates, or with all of them
  undone, has a node to run. Kernels and delegates are arbitrary, but for the members about delegation that they
  leave alone, and the client sets no empty execution plan.\<close>

theorem api_sequence_delegation:
  assumes "well_behaved E" and "(api_step (\<lambda>plan. plan \<noteq> []) E)\<^sup>*\<^sup>* s s'"
    and "delegates_applied s = []" and "\<not> delegates_undone s" and "sg_state s = kStateUninvokable" and "execution_plan s \<noteq> []"
  shows "(sg_state s' = kStateInvokableAndImmutable \<longrightarrow> delegates_applied s' \<noteq> [] \<and> pre_delegation_execution_plan s' \<noteq> []) \<and>
    (delegates_undone s' \<longrightarrow> sg_state s' = kStateUninvokable \<and> pre_delegation_execution_plan s' = []) \<and>
    (delegates_applied s' = [] \<or> delegates_undone s' \<longrightarrow> execution_plan s' \<noteq> [])"
proof -
  have "delegation_ok s" using assms(3-6) by (simp add: delegation_ok_def)
  with assms(2) have "delegation_ok s'"
    by (induction rule: rtranclp_induct) (auto intro: api_step_ok [OF _ assms(1)])
  then show ?thesis by (auto simp: delegation_ok_def)
qed

lemma demo_env_well_behaved: "well_behaved demo_env"
  by (simp add: well_behaved_def demo_env_def demo_delegate_def delegate_frame_def)

text \<open>A delegate that takes the whole graph, and one whose input a client then resizes.\<close>

definition whole_env :: "SimplePlanner Env" where
  "whole_env = demo_env\<lparr>delegate_of := (\<lambda>_. demo_delegate\<lparr>d_flags := 8,
     d_Prepare := ReplaceNodeSubsetsWithDelegateKernels demo_env demo_registration [0, 1, 2, 3, 4, 5] 7\<rparr>)\<rparr>"

lemma whole_env_well_behaved: "well_behaved whole_env"
  by (simp add: well_behaved_def whole_env_def demo_env_def demo_delegate_def ReplaceNodeSubsets_frame [unfolded demo_env_def])

definition whole_host :: "SimplePlanner Subgraph" where
  "whole_host = demo_host\<lparr>pre_delegation_execution_plan := [0, 1, 2, 3, 4, 5], delegate_context_switch_count := 1\<rparr>"

lemma whole_partition:
  "PartitionGraph demo_env [0, 1, 2, 3, 4, 5] whole_host = Some (kTfLiteOk, [demo_subset kTfPartition [0, 1, 2, 3, 4, 5] [0] [6]])"
proof -
  have "InterpreterInfo whole_host = InterpreterInfo demo_host"
    by (simp add: InterpreterInfo_def whole_host_def node_at_def)
  then have "InterpreterInfo whole_host = demo_graph" by (simp add: demo_host_view)
  moreover have "PartitionGraphIntoIndependentNodeSubsets demo_graph [0, 1, 2, 3, 4, 5] [] True (Some []) False =
     Some (kTfLiteOk, [demo_subset kTfPartition [0, 1, 2, 3, 4, 5] [0] [6]])"
    by (simp add: PartitionGraphIntoIndependentNodeSubsets_def Partition_def new_Partitioner_def IsValidIndex_def
        init_state_def BuildNodeSubset_def subset_loop.simps build_loop.simps UpdateNode_def note_input_def set_epochs_def
        outgoing_def Uniquefy_def uniquefy_subset_def new_NodeSubset_def demo_graph_def demo_node_def demo_subset_def upt_rec Let_def
        cong: eval_congs)
  ultimately show ?thesis by (simp add: PartitionGraph_def) (simp add: demo_env_def demo_host_def whole_host_def)
qed

lemma whole_replaced:
  "\<exists>s'. ReplaceNodeSubsetsWithDelegateKernels demo_env demo_registration [0, 1, 2, 3, 4, 5] 7 whole_host = Some (kTfLiteOk, s') \<and>
     execution_plan s' = [6] \<and> sn_delegate (node_at s' 6) = Some 7 \<and> delegate_context_switch_count s' = 1"
  unfolding ReplaceNodeSubsetsWithDelegateKernels_def Let_def whole_partition
  by (simp add: replace_subset_def demo_subset_def tf_then_def tf_ensure_def claim_tensor_def AddNodeWithParameters_def
      CheckTensorIndices_def CheckInputAndOutputForOverlap_def whole_host_def demo_host_def demo_graph_def demo_env_def
      demo_delegate_def demo_sub_tensor_def TfLiteTensor.defs update_tensor_def update_node_def node_at_def Let_def)

lemma whole_modified:
  "\<exists>s'. ModifyGraphWithDelegateImpl whole_env (Some 7) demo_host = Some (kTfLiteOk, s') \<and>
     sg_state s' = kStateInvokableAndImmutable \<and> execution_plan s' = [6]"
proof -
  obtain s' where s': "ReplaceNodeSubsetsWithDelegateKernels demo_env demo_registration [0, 1, 2, 3, 4, 5] 7 whole_host = Some (kTfLiteOk, s')"
    "execution_plan s' = [6]" "sn_delegate (node_at s' 6) = Some 7" "delegate_context_switch_count s' = 1"
    using whole_replaced by blast
  have flags: "has_flag whole_env 7 kTfLiteDelegateFlagsHintFullyDelegatedToSingleDelegate"
    "\<not> has_flag whole_env 7 kTfLiteDelegateFlagsAllowDynamicTensors"
    by (simp_all add: has_flag_def whole_env_def kTfLiteDelegateFlagsAllowDynamicTensors_def
        kTfLiteDelegateFlagsHintFullyDelegatedToSingleDelegate_def)
  have p: "d_Prepare (delegate_of whole_env 7) = ReplaceNodeSubsetsWithDelegateKernels demo_env demo_registration [0, 1, 2, 3, 4, 5] 7"
    by (simp add: whole_env_def)
  have h: "snd (SwitchToDelegateContext (demo_host\<lparr>pre_delegation_execution_plan := execution_plan demo_host\<rparr>)) = whole_host"
    by (simp add: SwitchToDelegateContext_def whole_host_def demo_host_def)
  have host: "sg_state demo_host = kStateUninvokable" "delegates_applied demo_host = []" "\<not> delegates_undone demo_host"
    by (simp_all add: demo_host_def)
  show ?thesis
    using s' flags host
    by (simp add: ModifyGraphWithDelegateImpl_def ModifyGraph_with_def RedoAllDelegates_def verify_for_delegation_def
        delegate_turn_def p h reset_delegation_if_not_ok_def IsFullyDelegated_def settle_delegation_def tf_then_def Let_def
        SwitchToKernelContext_def node_at_def FreeDelegatePartitioningData_def)
qed

theorem api_sequence_delegation_witness:
  "\<exists>s'. ModifyGraphWithDelegateImpl whole_env (Some 7) demo_host = Some (kTfLiteOk, s') \<and>
     sg_state s' = kStateInvokableAndImmutable \<and> delegates_applied s' \<noteq> [] \<and> pre_delegation_execution_plan s' \<noteq> []"
proof -
  obtain s' where s': "ModifyGraphWithDelegateImpl whole_env (Some 7) demo_host = Some (kTfLiteOk, s')"
    "sg_state s' = kStateInvokableAndImmutable"
    using whole_modified by blast
  have "(api_step (\<lambda>plan. plan \<noteq> []) whole_env)\<^sup>*\<^sup>* demo_host s'" using api_step.modify [OF s'(1)] by (rule r_into_rtranclp)
  from api_sequence_delegation [OF whole_env_well_behaved this] s' show ?thesis by (simp add: demo_host_def)
qed

end
