(* ===== verification/SubgraphInvoke.thy ===== *)
theory SubgraphInvoke
  imports SubgraphRun
begin

text \<open>
  What an invocation does (\<^verbatim>\<open>Subgraph::InvokeImpl\<close> in \<^verbatim>\<open>src/tflite/core/subgraph.cc\<close> and
  \<^verbatim>\<open>Interpreter::Invoke\<close> in \<^verbatim>\<open>src/tflite/core/interpreter.cc\<close>): which nodes of the plan it runs and where it
  stops, in which states it calls a kernel, and which invocation a client cancels.
\<close>

section \<open>The interpreter's invocation\<close>

text \<open>
  \<open>allow_buffer_handle_output\<close> is the interpreter's option; the flag of cancellation, which all
  subgraphs share, is set again before the primary subgraph runs.
\<close>

definition Interpreter_Invoke :: "'p Env \<Rightarrow> bool \<Rightarrow> 'p Subgraph \<Rightarrow> (TfLiteStatus \<times> 'p Subgraph) option" where
  "Interpreter_Invoke E allow_buffer_handle_output s =
     tf_then (InvokeImpl E (s\<lparr>continue_invocation := map_option (\<lambda>_. True) (continue_invocation s)\<rparr>)) (\<lambda>s.
     if \<not> allow_buffer_handle_output then tf_for (\<lambda>s t. EnsureTensorDataIsReadable E t s) s (sg_outputs s)
     else Some (kTfLiteOk, s))"

section \<open>One node\<close>

text \<open>An input that the node may not read, as it holds no data, and one that is stale on another delegate.\<close>

definition lacks_data :: "'p Subgraph \<Rightarrow> int \<Rightarrow> nat \<times> int \<Rightarrow> bool" where
  "lacks_data s k = (\<lambda>(j, t). t \<noteq> kTfLiteOptionalTensor \<and>
     data_ptr (tensor_at s t) = nullptr \<and> bytes (tensor_at s t) > 0 \<and> allocation_type (tensor_at s t) \<noteq> kTfLiteNonCpu \<and>
     \<not> (reg_builtin_code (sn_registration (node_at s k)) = kTfLiteBuiltinReshape \<and> j = 1 \<and>
        map_option length (t_dims (tensor_at s t)) \<noteq> Some 1))"

definition stale_input :: "'p Subgraph \<Rightarrow> int \<Rightarrow> int \<Rightarrow> bool" where
  "stale_input s k t \<longleftrightarrow> t \<noteq> kTfLiteOptionalTensor \<and> t_delegate (tensor_at s t) \<noteq> None \<and>
     t_delegate (tensor_at s t) \<noteq> sn_delegate (node_at s k) \<and> t_data_is_stale (tensor_at s t)"

definition inputs_of :: "'p Subgraph \<Rightarrow> int \<Rightarrow> int list" where
  "inputs_of s k = node_inputs (sn_node (node_at s k))"

definition input_places :: "'p Subgraph \<Rightarrow> int \<Rightarrow> (nat \<times> int) list" where
  "input_places s k = zip [0..<length (inputs_of s k)] (inputs_of s k)"

text \<open>The state that the kernel of node \<open>k\<close> sees, and the state after the node has run.\<close>

definition before_kernel :: "'p Env \<Rightarrow> int \<Rightarrow> 'p Subgraph \<Rightarrow> 'p Subgraph" where
  "before_kernel E k s = (MayAllocateOpOutput E k s)\<lparr>tensor_resized_since_op_invoke := False\<rparr>"

definition run_node :: "'p Env \<Rightarrow> 'p Subgraph \<Rightarrow> int \<Rightarrow> 'p Subgraph" where
  "run_node E s k = MaybeReleaseDynamicTensors E k (snd (op_invoke E k (before_kernel E k s)))"

text \<open>Why an invocation ends at node \<open>k\<close>: with which status, and in which state.\<close>

definition node_stops :: "'p Env \<Rightarrow> 'p Subgraph \<Rightarrow> int \<Rightarrow> (TfLiteStatus \<times> 'p Subgraph) option" where
  "node_stops E s k =
     (if \<exists>x \<in> set (input_places s k). lacks_data s k x then Some (kTfLiteError, s)
      else if check_cancelled E (MayAllocateOpOutput E k s) then Some (kTfLiteError, MayAllocateOpOutput E k s)
      else if continue_invocation (MayAllocateOpOutput E k s) = Some False
      then Some (kTfLiteCancelled, (MayAllocateOpOutput E k s)\<lparr>continue_invocation := Some True\<rparr>)
      else (case op_invoke E k (before_kernel E k s) of (st, s') \<Rightarrow>
        if st = kTfLiteOk then None
        else Some (if st = kTfLiteCancelled then kTfLiteCancelled else kTfLiteError, s')))"

text \<open>The graph after the first \<open>j\<close> nodes of the plan.\<close>

definition after_nodes :: "'p Env \<Rightarrow> 'p Subgraph \<Rightarrow> nat \<Rightarrow> 'p Subgraph" where
  "after_nodes E s j = foldl (run_node E) s (take j (execution_plan s))"

lemma after_nodes_Suc:
  "j < length (execution_plan s) \<Longrightarrow> after_nodes E s (Suc j) = run_node E (after_nodes E s j) (execution_plan s ! j)"
  by (simp add: after_nodes_def take_Suc_conv_app_nth)

text \<open>
  Node \<open>i\<close> of the plan is prepared and reads nothing from another delegate; and its kernel resizes no
  dynamic output, after which the nodes behind it would have to be prepared again.
\<close>

definition node_prepared :: "int list \<Rightarrow> nat \<Rightarrow> 'p Subgraph \<Rightarrow> bool" where
  "node_prepared plan i s \<longleftrightarrow> execution_plan s = plan \<and> int i \<noteq> next_to_prepare s \<and>
     (\<forall>t \<in> set (inputs_of s (plan ! i)). \<not> stale_input s (plan ! i) t)"

definition resizes_output :: "'p Env \<Rightarrow> int \<Rightarrow> 'p Subgraph \<Rightarrow> bool" where
  "resizes_output E k s \<longleftrightarrow> (let s' = snd (op_invoke E k (before_kernel E k s)) in
     tensor_resized_since_op_invoke s' \<and> HasDynamicTensorImpl s' (node_outputs (sn_node (node_at s' k))))"

lemma read_inputs:
  "(\<And>x. x \<in> set xs \<Longrightarrow> \<not> stale_input s k (snd x)) \<Longrightarrow>
   tf_for (read_input E k) s xs = Some (if \<exists>x \<in> set xs. lacks_data s k x then kTfLiteError else kTfLiteOk, s)"
proof (induction xs)
  case (Cons x xs)
  obtain j t where x: "x = (j, t)" by (cases x)
  have "\<not> stale_input s k t" using Cons.prems [of x] by (simp add: x)
  then have "read_input E k s (j, t) = Some (if lacks_data s k (j, t) then kTfLiteError else kTfLiteOk, s)"
    by (auto simp: read_input_def stale_input_def lacks_data_def tf_then_def Let_def)
  then show ?case using Cons by (auto simp: x tf_then_def)
qed simp

lemma invoke_at_eq:
  "invoke_at E s i = tf_then (prepare_if_needed E i s) (\<lambda>s.
     let k = execution_plan s ! nat i in
     tf_then (tf_for (read_input E k) s (input_places s k)) (\<lambda>s.
     tf_then (Some (check_cancellation E (MayAllocateOpOutput E k s))) (\<lambda>s.
     tf_then (Some (invoke_kernel E k s)) (\<lambda>s.
     tf_then (after_resize E i k s) (\<lambda>s.
     Some (kTfLiteOk, MaybeReleaseDynamicTensors E k s))))))"
  by (simp add: invoke_at_def input_places_def inputs_of_def Let_def)

lemma invoke_kernel_eq:
  "invoke_kernel E k (MayAllocateOpOutput E k s) = (case op_invoke E k (before_kernel E k s) of (st, s') \<Rightarrow>
     (if st = kTfLiteOk \<or> st = kTfLiteCancelled then st else kTfLiteError, s'))"
  by (simp add: invoke_kernel_def before_kernel_def)

lemma invoke_at_prepared:
  assumes p: "node_prepared plan i s" and k: "plan ! i = k" and r: "node_stops E s k = None \<Longrightarrow> \<not> resizes_output E k s"
  shows "invoke_at E s (int i) = (case node_stops E s k of Some r \<Rightarrow> Some r | None \<Rightarrow> Some (kTfLiteOk, run_node E s k))"
proof -
  obtain st s' where op: "op_invoke E k (before_kernel E k s) = (st, s')" by (cases "op_invoke E k (before_kernel E k s)")
  have prep: "prepare_if_needed E (int i) s = Some (kTfLiteOk, s)" "execution_plan s ! i = k"
    using p k by (simp_all add: node_prepared_def prepare_if_needed_def)
  have rd: "tf_for (read_input E k) s (input_places s k) =
      Some (if \<exists>x \<in> set (input_places s k). lacks_data s k x then kTfLiteError else kTfLiteOk, s)"
    using p k by (intro read_inputs) (auto simp: node_prepared_def input_places_def dest: set_zip_rightD)
  have e: "invoke_at E s (int i) =
      (if \<exists>x \<in> set (input_places s k). lacks_data s k x then Some (kTfLiteError, s)
       else tf_then (Some (check_cancellation E (MayAllocateOpOutput E k s))) (\<lambda>s.
         tf_then (Some (invoke_kernel E k s)) (\<lambda>s.
         tf_then (after_resize E (int i) k s) (\<lambda>s.
         Some (kTfLiteOk, MaybeReleaseDynamicTensors E k s)))))"
    by (simp add: invoke_at_eq prep rd tf_then_def [of "Some _"])
  show ?thesis
  proof (cases "(\<exists>x \<in> set (input_places s k). lacks_data s k x) \<or> check_cancelled E (MayAllocateOpOutput E k s) \<or>
      continue_invocation (MayAllocateOpOutput E k s) = Some False")
    case True
    then show ?thesis
      unfolding e by (auto simp: tf_then_def node_stops_def check_cancellation_def)
  next
    case False
    then have c: "check_cancellation E (MayAllocateOpOutput E k s) = (kTfLiteOk, MayAllocateOpOutput E k s)"
      by (simp add: check_cancellation_def)
    have stops: "node_stops E s k = (if st = kTfLiteOk then None else Some (if st = kTfLiteCancelled then kTfLiteCancelled else kTfLiteError, s'))"
      using False by (auto simp: node_stops_def op)
    have a: "after_resize E (int i) k s' = Some (kTfLiteOk, s')" if "st = kTfLiteOk"
      using r that stops op by (auto simp: after_resize_def resizes_output_def Let_def)
    show ?thesis
      unfolding e using False a by (auto simp: tf_then_def c invoke_kernel_eq op stops run_node_def)
  qed
qed

section \<open>Running the plan\<close>

lemma tf_for_append: "tf_for f s (xs @ ys) = tf_then (tf_for f s xs) (\<lambda>s. tf_for f s ys)"
  by (induction xs arbitrary: s) (auto simp: tf_then_def split: option.splits)

lemma invoke_loop_runs:
  assumes "m \<le> length (execution_plan s)"
    and "\<And>j. j < m \<Longrightarrow> node_prepared (execution_plan s) j (after_nodes E s j) \<and>
      node_stops E (after_nodes E s j) (execution_plan s ! j) = None \<and> \<not> resizes_output E (execution_plan s ! j) (after_nodes E s j)"
  shows "tf_for (invoke_at E) s (map int [0..<m]) = Some (kTfLiteOk, after_nodes E s m)"
  using assms
proof (induction m)
  case 0
  then show ?case by (simp add: after_nodes_def)
next
  case (Suc m)
  have "invoke_at E (after_nodes E s m) (int m) = Some (kTfLiteOk, after_nodes E s (Suc m))"
    using Suc.prems(2) [of m] Suc.prems(1) invoke_at_prepared [of "execution_plan s" m "after_nodes E s m" "execution_plan s ! m" E]
    by (simp add: after_nodes_Suc)
  then show ?case using Suc by (simp add: tf_for_append tf_then_def)
qed

lemma invoke_loop_stops:
  assumes n: "n < length (execution_plan s)"
    and runs: "\<And>j. j < n \<Longrightarrow> node_prepared (execution_plan s) j (after_nodes E s j) \<and>
      node_stops E (after_nodes E s j) (execution_plan s ! j) = None \<and> \<not> resizes_output E (execution_plan s ! j) (after_nodes E s j)"
    and stop: "node_prepared (execution_plan s) n (after_nodes E s n)"
      "node_stops E (after_nodes E s n) (execution_plan s ! n) = Some (st, s')" "st \<noteq> kTfLiteOk"
  shows "tf_for (invoke_at E) s (map int [0..<length (execution_plan s)]) = Some (st, s')"
proof -
  have "[0..<length (execution_plan s)] = [0..<n] @ n # [Suc n..<length (execution_plan s)]"
    using n by (metis le_eq_less_or_eq upt_conv_Cons upt_add_eq_append le0 le_add_diff_inverse)
  moreover have "invoke_at E (after_nodes E s n) (int n) = Some (st, s')"
    using invoke_at_prepared [OF stop(1) refl, of E] stop(2) by simp
  ultimately show ?thesis using invoke_loop_runs [of n s E] n runs stop(3) by (simp add: tf_for_append tf_then_def)
qed

lemma node_stops_not_ok: "node_stops E s k = Some (st, s') \<Longrightarrow> st \<noteq> kTfLiteOk"
  by (auto simp: node_stops_def split: if_splits prod.splits)

definition invokable :: "'p Env \<Rightarrow> 'p Subgraph \<Rightarrow> bool" where
  "invokable E s \<longleftrightarrow> consistent s \<and> sg_state s \<noteq> kStateUninvokable \<and>
     (case memory_planner s of Some p \<Rightarrow> mp_Has (planner E) p | None \<Rightarrow> True)"

lemma InvokeImpl_loop:
  "invokable E s \<Longrightarrow> InvokeImpl E s = tf_for (invoke_at E) s (map int [0..<length (execution_plan s)])"
  by (auto simp: InvokeImpl_def invokable_def split: option.splits)

text \<open>C14: Invoking a graph runs the nodes of its plan in order, each once, until the first that stops it: one with
  an input without data (\<open>kTfLiteError\<close>), one before which the client asks to cancel (\<open>kTfLiteError\<close> from the
  function it has registered, \<open>kTfLiteCancelled\<close> from the flag, which is set again), or one whose kernel fails
  (\<open>kTfLiteCancelled\<close> if the kernel says so, else \<open>kTfLiteError\<close>); the nodes behind it do not run, and if
  there is none the result is \<open>kTfLiteOk\<close>. To run a node is to allocate its large dynamic outputs and to release
  the dynamic tensors it is the last to use, where these options are on, and to call its kernel between the two. The
  graph must be allocated, each node that is reached prepared, with no input to fetch from another delegate, and no
  kernel may resize a dynamic output or change the plan.\<close>

theorem InvokeImpl_runs_plan:
  assumes "invokable E s"
    and "\<And>j. j < length (execution_plan s) \<Longrightarrow> (\<forall>i < j. node_stops E (after_nodes E s i) (execution_plan s ! i) = None) \<Longrightarrow>
      node_prepared (execution_plan s) j (after_nodes E s j) \<and>
      (node_stops E (after_nodes E s j) (execution_plan s ! j) = None \<longrightarrow> \<not> resizes_output E (execution_plan s ! j) (after_nodes E s j))"
  shows "InvokeImpl E s =
    (case find (\<lambda>j. node_stops E (after_nodes E s j) (execution_plan s ! j) \<noteq> None) [0..<length (execution_plan s)] of
       None \<Rightarrow> Some (kTfLiteOk, after_nodes E s (length (execution_plan s)))
     | Some n \<Rightarrow> node_stops E (after_nodes E s n) (execution_plan s ! n))"
proof (cases "find (\<lambda>j. node_stops E (after_nodes E s j) (execution_plan s ! j) \<noteq> None) [0..<length (execution_plan s)]")
  case None
  then have none: "node_stops E (after_nodes E s j) (execution_plan s ! j) = None" if "j < length (execution_plan s)" for j
    using that None by (auto simp: find_None_iff simp del: not_None_eq)
  have "tf_for (invoke_at E) s (map int [0..<length (execution_plan s)]) = Some (kTfLiteOk, after_nodes E s (length (execution_plan s)))"
    by (rule invoke_loop_runs) (simp_all add: assms(2) none)
  then show ?thesis using InvokeImpl_loop [OF assms(1)] None by simp
next
  case (Some n)
  then have n: "n < length (execution_plan s)" "node_stops E (after_nodes E s n) (execution_plan s ! n) \<noteq> None"
    and least: "\<And>j. j < n \<Longrightarrow> node_stops E (after_nodes E s j) (execution_plan s ! j) = None"
    by (auto simp: find_Some_iff simp del: not_None_eq)
  obtain st s' where st: "node_stops E (after_nodes E s n) (execution_plan s ! n) = Some (st, s')" using n(2) by auto
  have "tf_for (invoke_at E) s (map int [0..<length (execution_plan s)]) = Some (st, s')"
    by (rule invoke_loop_stops [OF n(1) _ _ st node_stops_not_ok [OF st]]) (use n(1) in \<open>simp_all add: assms(2) least\<close>)
  then show ?thesis using InvokeImpl_loop [OF assms(1)] Some st by simp
qed

section \<open>A small graph that runs\<close>

text \<open>Three nodes in a chain, whose kernels note their runs in the list of variables; tensor 2 holds data when \<open>p\<close> is not null.\<close>

definition chain_kernel :: "int \<Rightarrow> SimplePlanner Subgraph \<Rightarrow> TfLiteStatus \<times> SimplePlanner Subgraph" where
  "chain_kernel k s = (kTfLiteOk, s\<lparr>sg_variables := sg_variables s @ [k]\<rparr>)"

definition chain_env :: "SimplePlanner Env" where
  "chain_env = demo_env\<lparr>op_invoke := chain_kernel\<rparr>"

definition chain_host :: "ptr \<Rightarrow> SimplePlanner Subgraph" where
  "chain_host p = demo_host\<lparr>sg_tensors := [demo_sub_tensor\<lparr>data_ptr := 64\<rparr>, demo_sub_tensor\<lparr>data_ptr := 64\<rparr>,
       demo_sub_tensor\<lparr>data_ptr := p, bytes := 4\<rparr>, demo_sub_tensor\<lparr>data_ptr := 64\<rparr>],
     nodes_and_registration := map demo_sub_node [demo_node [0] [1] False, demo_node [1] [2] False, demo_node [2] [3] False],
     execution_plan := [0, 1, 2], sg_outputs := [3], sg_state := kStateInvokable, next_to_prepare := 3,
     continue_invocation := Some True\<rparr>"

definition chain_run :: "ptr \<Rightarrow> int list \<Rightarrow> SimplePlanner Subgraph" where
  "chain_run p ks = (chain_host p)\<lparr>sg_variables := ks\<rparr>"

lemma chain_run_simps [simp]:
  "execution_plan (chain_run p ks) = [0, 1, 2]" "sg_variables (chain_run p ks) = ks" "next_to_prepare (chain_run p ks) = 3"
  "continue_invocation (chain_run p ks) = Some True" "\<not> tensor_resized_since_op_invoke (chain_run p ks)"
  "(chain_run p ks)\<lparr>tensor_resized_since_op_invoke := False\<rparr> = chain_run p ks"
  "(chain_run p ks)\<lparr>sg_variables := ks'\<rparr> = chain_run p ks'" "\<not> check_cancelled chain_env s"
  by (simp_all add: chain_run_def chain_host_def demo_host_def chain_env_def demo_env_def)

lemma chain_env_simps [simp]:
  "MayAllocateOpOutput chain_env k s = s" "MaybeReleaseDynamicTensors chain_env k s = s" "op_invoke chain_env = chain_kernel"
  by (simp_all add: MayAllocateOpOutput_def MaybeReleaseDynamicTensors_def chain_env_def demo_env_def)

lemma chain_inputs:
  "inputs_of (chain_run p ks) 0 = [0]" "inputs_of (chain_run p ks) 1 = [1]" "inputs_of (chain_run p ks) 2 = [2]"
  by (simp_all add: inputs_of_def chain_run_def chain_host_def node_at_def demo_sub_node_def demo_node_def)

lemma chain_places:
  "input_places (chain_run p ks) 0 = [(0, 0)]" "input_places (chain_run p ks) 1 = [(0, 1)]" "input_places (chain_run p ks) 2 = [(0, 2)]"
  by (simp_all add: input_places_def chain_inputs)

lemma chain_lacks:
  "\<not> lacks_data (chain_run p ks) 0 (0, 0)" "\<not> lacks_data (chain_run p ks) 1 (0, 1)" "lacks_data (chain_run p ks) 2 (0, 2) \<longleftrightarrow> p = nullptr"
  by (simp_all add: lacks_data_def chain_run_def chain_host_def tensor_at_def node_at_def demo_sub_node_def demo_node_def
      demo_registration_def kTfLiteBuiltinReshape_def demo_sub_tensor_def TfLiteTensor.defs demo_tensor_def)

lemma chain_node:
  "before_kernel chain_env k (chain_run p ks) = chain_run p ks" "run_node chain_env (chain_run p ks) k = chain_run p (ks @ [k])"
  "\<not> resizes_output chain_env k (chain_run p ks)"
  by (simp_all add: before_kernel_def run_node_def chain_kernel_def resizes_output_def)

lemma chain_stops:
  "node_stops chain_env (chain_run p ks) 0 = None" "node_stops chain_env (chain_run p ks) 1 = None"
  "node_stops chain_env (chain_run p ks) 2 = (if p = nullptr then Some (kTfLiteError, chain_run p ks) else None)"
  by (simp_all add: node_stops_def chain_places chain_lacks chain_node(1) chain_kernel_def)

lemma less_3: "j < (3 :: nat) \<longleftrightarrow> j = 0 \<or> j = 1 \<or> j = 2" by auto

lemma chain_after: "j \<le> 3 \<Longrightarrow> after_nodes chain_env (chain_run p []) j = chain_run p (take j [0, 1, 2])"
  by (auto simp: after_nodes_def chain_node(2) le_Suc_eq numeral_eq_Suc)

lemma chain_prepared: "j < 3 \<Longrightarrow> node_prepared [0, 1, 2] j (chain_run p ks)"
  by (auto simp: node_prepared_def less_3 chain_inputs stale_input_def)
    (simp_all add: chain_run_def chain_host_def tensor_at_def demo_sub_tensor_def TfLiteTensor.defs)

lemma chain_invokable: "invokable chain_env (chain_run p ks)"
  by (simp add: invokable_def chain_run_def chain_host_def demo_host_def)

theorem InvokeImpl_runs_plan_witness:
  "InvokeImpl chain_env (chain_run 64 []) = Some (kTfLiteOk, chain_run 64 [0, 1, 2]) \<and>
   InvokeImpl chain_env (chain_run nullptr []) = Some (kTfLiteError, chain_run nullptr [0, 1])"
proof -
  have h: "node_prepared (execution_plan (chain_run p [])) j (after_nodes chain_env (chain_run p []) j) \<and>
      (node_stops chain_env (after_nodes chain_env (chain_run p []) j) (execution_plan (chain_run p []) ! j) = None \<longrightarrow>
       \<not> resizes_output chain_env (execution_plan (chain_run p []) ! j) (after_nodes chain_env (chain_run p []) j))"
    if "j < length (execution_plan (chain_run p []))" for p j
    using that by (simp add: chain_after chain_prepared chain_node(3))
  have i: "[0..<3] = [0, 1, 2 :: nat]" by (simp add: upt_rec)
  show ?thesis
    using InvokeImpl_runs_plan [OF chain_invokable h, of "64"] InvokeImpl_runs_plan [OF chain_invokable h, of nullptr]
    by (simp add: i chain_after chain_stops)
qed

section \<open>Cancelling\<close>

text \<open>A client that calls \<open>Cancel\<close> while node \<open>k\<close> runs.\<close>

definition cancelling :: "'p Env \<Rightarrow> int \<Rightarrow> 'p Env" where
  "cancelling E k = E\<lparr>op_invoke := (\<lambda>k' s. case op_invoke E k' s of (st, s') \<Rightarrow> (st, if k' = k then snd (Cancel s') else s'))\<rparr>"

abbreviation with_flag :: "bool option \<Rightarrow> 'p Subgraph \<Rightarrow> 'p Subgraph" where
  "with_flag b s \<equiv> s\<lparr>continue_invocation := b\<rparr>"

lemma foldl_commute:
  assumes "\<And>s x. f (g s) x = g (f s x)"
  shows "foldl f (g s) xs = g (foldl f s xs)"
  by (induction xs arbitrary: s) (simp_all add: assms)

lemma MaybeRelease_flag [simp]: "MaybeReleaseDynamicTensors E k (with_flag b s) = with_flag b (MaybeReleaseDynamicTensors E k s)"
proof -
  have "release_dynamic k (with_flag b u) t = with_flag b (release_dynamic k u t)" for u :: "'a Subgraph" and t
    by (simp add: release_dynamic_def free_data_def update_tensor_def tensor_at_def has_tensor_def Let_def split: prod.splits)
  then have "foldl (release_dynamic k) (with_flag b u) ts = with_flag b (foldl (release_dynamic k) u ts)" for u :: "'a Subgraph" and ts
    by (rule foldl_commute [where g = "with_flag b"])
  then show ?thesis by (simp add: MaybeReleaseDynamicTensors_def node_at_def Let_def)
qed

lemma MayAllocate_flag [simp]: "MayAllocateOpOutput E k (with_flag b s) = with_flag b (MayAllocateOpOutput E k s)"
  unfolding MayAllocateOpOutput_def
  by (simp add: node_at_def) (intro impI foldl_commute [where g = "with_flag b"],
      simp add: tensor_at_def update_tensor_def Let_def split: prod.splits)

lemma MayAllocate_keeps_flag [simp]: "continue_invocation (MayAllocateOpOutput E k s) = continue_invocation s"
proof -
  have "continue_invocation (foldl f s ts) = continue_invocation s" if "\<And>s t. continue_invocation (f s t) = continue_invocation s"
    for f :: "'a Subgraph \<Rightarrow> int \<Rightarrow> 'a Subgraph" and s ts
    by (induction ts arbitrary: s) (simp_all add: that)
  then show ?thesis by (simp add: MayAllocateOpOutput_def update_tensor_def Let_def split: prod.splits)
qed

lemma MaybeRelease_keeps_flag [simp]: "continue_invocation (MaybeReleaseDynamicTensors E k s) = continue_invocation s"
proof -
  have "continue_invocation (foldl (release_dynamic k) v ts) = continue_invocation v" for v :: "'a Subgraph" and ts
    by (induction ts arbitrary: v) (simp_all add: release_dynamic_def free_data_def update_tensor_def Let_def split: prod.splits)
  then show ?thesis by (simp add: MaybeReleaseDynamicTensors_def Let_def)
qed

lemma invokable_flag [simp]: "invokable E (with_flag b s) = invokable E s"
  by (simp add: invokable_def)

lemma same_flag: "continue_invocation s = b \<Longrightarrow> with_flag b s = s"
  by auto

lemma other_kernels [simp]:
  "MayAllocateOpOutput (E\<lparr>op_invoke := f\<rparr>) k s = MayAllocateOpOutput E k s"
  "MaybeReleaseDynamicTensors (E\<lparr>op_invoke := f\<rparr>) k s = MaybeReleaseDynamicTensors E k s"
  "before_kernel (E\<lparr>op_invoke := f\<rparr>) k s = before_kernel E k s"
  "invokable (E\<lparr>op_invoke := f\<rparr>) s = invokable E s"
proof -
  show m: "MayAllocateOpOutput (E\<lparr>op_invoke := f\<rparr>) k s = MayAllocateOpOutput E k s" by (simp add: MayAllocateOpOutput_def cong: if_cong)
  show "MaybeReleaseDynamicTensors (E\<lparr>op_invoke := f\<rparr>) k s = MaybeReleaseDynamicTensors E k s" by (simp add: MaybeReleaseDynamicTensors_def)
  show "before_kernel (E\<lparr>op_invoke := f\<rparr>) k s = before_kernel E k s" by (simp add: before_kernel_def m)
  show "invokable (E\<lparr>op_invoke := f\<rparr>) s = invokable E s" by (simp add: invokable_def cong: option.case_cong)
qed

lemma cancelled_kernel:
  "snd (op_invoke (cancelling E c) k s) = (if k = c then snd (Cancel (snd (op_invoke E k s))) else snd (op_invoke E k s))"
  "fst (op_invoke (cancelling E c) k s) = fst (op_invoke E k s)"
  by (simp_all add: cancelling_def split: prod.splits)

text \<open>Until the client calls \<open>Cancel\<close>, nothing differs; the node that runs then leaves the flag cleared.\<close>

lemma cancelled_node:
  assumes "continue_invocation (snd (op_invoke E k (before_kernel E k s))) = Some b"
  shows "node_stops E s k = None \<Longrightarrow> node_stops (cancelling E c) s k = None"
    and "\<not> resizes_output E k s \<Longrightarrow> \<not> resizes_output (cancelling E c) k s"
    and "run_node (cancelling E c) s k = (if k = c then with_flag (Some False) (run_node E s k) else run_node E s k)"
proof -
  have k: "snd (op_invoke (cancelling E c) k (before_kernel E k s)) =
      (if k = c then with_flag (Some False) (snd (op_invoke E k (before_kernel E k s))) else snd (op_invoke E k (before_kernel E k s)))"
    using assms by (auto simp: cancelled_kernel Cancel_def)
  show "node_stops E s k = None \<Longrightarrow> node_stops (cancelling E c) s k = None"
    using cancelled_kernel(2) [of E c k "before_kernel E k s"]
    by (auto simp: node_stops_def cancelling_def [of E c] split: if_splits prod.splits)
  show "\<not> resizes_output E k s \<Longrightarrow> \<not> resizes_output (cancelling E c) k s"
    using k by (auto simp: resizes_output_def cancelling_def [of E c] HasDynamicTensorImpl_def node_at_def tensor_at_def Let_def split: if_splits)
  show "run_node (cancelling E c) s k = (if k = c then with_flag (Some False) (run_node E s k) else run_node E s k)"
    using k by (simp add: run_node_def cancelling_def [of E c])
qed

lemma cancelled_run:
  assumes "distinct (execution_plan s)" and "n < length (execution_plan s)"
    and flag: "\<And>j. j \<le> n \<Longrightarrow> continue_invocation (snd (op_invoke E (execution_plan s ! j)
      (before_kernel E (execution_plan s ! j) (after_nodes E s j)))) = Some b"
    and "j \<le> n"
  shows "after_nodes (cancelling E (execution_plan s ! n)) s j = after_nodes E s j"
  using assms(4)
proof (induction j)
  case (Suc j)
  then have "execution_plan s ! j \<noteq> execution_plan s ! n" using assms(1,2) by (simp add: nth_eq_iff_index_eq)
  then show ?case using Suc assms(2) by (simp add: after_nodes_Suc cancelled_node(3) [OF flag])
qed (simp add: after_nodes_def)

text \<open>C22: A client cancels the invocation in flight and no other. When it calls \<open>Cancel\<close> before \<open>Interpreter::Invoke\<close>, the
  invocation has the same result as without the call, since it sets the flag again first. When it calls \<open>Cancel\<close>
  while node \<open>n\<close> of the plan runs, the invocation returns \<open>kTfLiteCancelled\<close> before the kernel of node \<open>n + 1\<close>: the
  kernels up to node \<open>n\<close> have run as they would have without the call, no other has, and the flag is set again.
  Cancellation is enabled, kernels leave the flag alone, the client has no cancellation function that says yes, the
  plan names each node once, and without the call the invocation would run the nodes up to \<open>n + 1\<close>, each prepared and
  with no input to fetch from another delegate.\<close>

theorem Cancel_in_flight:
  assumes s: "invokable E s" "continue_invocation s = Some b" "distinct (execution_plan s)" "n + 1 < length (execution_plan s)"
    and E: "\<And>k v. continue_invocation (snd (op_invoke E k v)) = continue_invocation v" "\<And>v. \<not> check_cancelled E v"
    and runs: "\<And>j. j \<le> n + 1 \<Longrightarrow>
      node_prepared (execution_plan s) j (after_nodes E (with_flag (Some True) s) j) \<and>
      node_stops E (after_nodes E (with_flag (Some True) s) j) (execution_plan s ! j) = None \<and>
      \<not> resizes_output E (execution_plan s ! j) (after_nodes E (with_flag (Some True) s) j)"
  shows "Interpreter_Invoke E allow (snd (Cancel s)) = Interpreter_Invoke E allow s \<and>
    Interpreter_Invoke (cancelling E (execution_plan s ! n)) allow s = Some (kTfLiteCancelled,
      MayAllocateOpOutput E (execution_plan s ! (n + 1)) (after_nodes E (with_flag (Some True) s) (n + 1))) \<and>
    continue_invocation (after_nodes E (with_flag (Some True) s) (n + 1)) = Some True"
proof -
  let ?s = "with_flag (Some True) s" and ?C = "cancelling E (execution_plan s ! n)" and ?k = "execution_plan s ! (n + 1)"
  let ?u = "after_nodes E ?s" and ?c = "after_nodes (cancelling E (execution_plan s ! n)) ?s"
  have keeps: "continue_invocation (snd (op_invoke E k (before_kernel E k v))) = continue_invocation v" for k v
    by (simp add: E(1)) (simp add: before_kernel_def)
  have "continue_invocation (foldl (run_node E) v ks) = continue_invocation v" for v ks
    by (induction ks arbitrary: v) (simp_all add: run_node_def keeps)
  then have flag: "continue_invocation (?u j) = Some True" for j by (simp add: after_nodes_def)
  have kept: "continue_invocation (snd (op_invoke E k (before_kernel E k (?u j)))) = Some True" for k j
    by (simp add: keeps flag)
  have same: "?c j = ?u j" if "j \<le> n" for j
    using cancelled_run [of ?s n E True j] s(3,4) kept that by simp
  have after: "?c (n + 1) = with_flag (Some False) (?u (n + 1))"
    using s(4) same [of n] cancelled_node(3) [OF kept [of "execution_plan s ! n" n], where c = "execution_plan s ! n"]
    by (simp add: after_nodes_Suc)
  have prep: "node_prepared (execution_plan s) j (?c j)" if "j \<le> n + 1" for j
  proof (cases "j = n + 1")
    case True
    then show ?thesis using runs [OF that] after
      by (simp add: node_prepared_def inputs_of_def stale_input_def node_at_def tensor_at_def)
  qed (use runs [OF that] same that in simp)
  have "\<not> (\<exists>x \<in> set (input_places (?u (n + 1)) ?k). lacks_data (?u (n + 1)) ?k x)"
    using runs [of "n + 1"] by (auto simp: node_stops_def split: if_splits)
  then have stop: "node_stops ?C (?c (n + 1)) ?k = Some (kTfLiteCancelled, MayAllocateOpOutput E ?k (?u (n + 1)))"
    using E(2) same_flag [of "MayAllocateOpOutput E ?k (?u (n + 1))" "Some True"] flag [of "n + 1"] after
    by (simp add: node_stops_def lacks_data_def input_places_def inputs_of_def node_at_def tensor_at_def cancelling_def)
  have earlier: "node_stops ?C (?c j) (execution_plan s ! j) = None \<and> \<not> resizes_output ?C (execution_plan s ! j) (?c j)" if "j \<le> n" for j
    using runs [of j] that same [OF that] cancelled_node(1,2) [OF kept [of "execution_plan s ! j" j], where c = "execution_plan s ! n"] by simp
  have "tf_for (invoke_at ?C) ?s (map int [0..<length (execution_plan ?s)]) =
      Some (kTfLiteCancelled, MayAllocateOpOutput E ?k (?u (n + 1)))"
    using prep earlier stop s(4) by (intro invoke_loop_stops [where n = "n + 1"]) auto
  moreover have "invokable ?C ?s" using s(1) by (simp add: cancelling_def)
  ultimately have "Interpreter_Invoke ?C allow s = Some (kTfLiteCancelled, MayAllocateOpOutput E ?k (?u (n + 1)))"
    using s(2) InvokeImpl_loop [of ?C ?s] by (simp add: Interpreter_Invoke_def tf_then_def)
  moreover have "Interpreter_Invoke E allow (snd (Cancel s)) = Interpreter_Invoke E allow s"
    using s(2) by (simp add: Cancel_def Interpreter_Invoke_def)
  ultimately show ?thesis using flag by simp
qed

lemma chain_flag [simp]: "with_flag (Some True) (chain_run p ks) = chain_run p ks"
  by (rule same_flag) simp

lemma chain_invoked: "InvokeImpl chain_env (chain_run 64 []) = Some (kTfLiteOk, chain_run 64 [0, 1, 2])"
proof -
  have l: "tf_for (invoke_at chain_env) (chain_run 64 []) (map int [0..<length (execution_plan (chain_run 64 []))]) =
      Some (kTfLiteOk, after_nodes chain_env (chain_run 64 []) (length (execution_plan (chain_run 64 []))))"
  proof (rule invoke_loop_runs)
    fix j assume "j < length (execution_plan (chain_run 64 []))"
    then have j: "j < 3" by simp
    then have "node_stops chain_env (chain_run 64 (take j [0, 1, 2])) ([0, 1, 2] ! j) = None"
      unfolding less_3 by (auto simp: chain_stops)
    then show "node_prepared (execution_plan (chain_run 64 [])) j (after_nodes chain_env (chain_run 64 []) j) \<and>
      node_stops chain_env (after_nodes chain_env (chain_run 64 []) j) (execution_plan (chain_run 64 []) ! j) = None \<and>
      \<not> resizes_output chain_env (execution_plan (chain_run 64 []) ! j) (after_nodes chain_env (chain_run 64 []) j)"
      using j by (simp add: chain_after chain_prepared chain_node(3))
  qed simp
  show ?thesis unfolding InvokeImpl_loop [OF chain_invokable] l by (simp add: chain_after)
qed

lemma chain_interpreted: "Interpreter_Invoke chain_env False (chain_run 64 []) = Some (kTfLiteOk, chain_run 64 [0, 1, 2])"
proof -
  have "EnsureTensorDataIsReadable chain_env 3 (chain_run 64 ks) = Some (kTfLiteOk, chain_run 64 ks)"
    and "sg_outputs (chain_run 64 ks) = [3]" for ks
    by (simp_all add: EnsureTensorDataIsReadable_def tensor_at_def chain_run_def chain_host_def demo_sub_tensor_def TfLiteTensor.defs)
  then show ?thesis by (simp add: Interpreter_Invoke_def tf_then_def chain_invoked)
qed

theorem Cancel_in_flight_witness:
  "Interpreter_Invoke (cancelling chain_env 0) False (chain_run 64 []) = Some (kTfLiteCancelled, chain_run 64 [0]) \<and>
   Interpreter_Invoke chain_env False (snd (Cancel (chain_run 64 []))) = Some (kTfLiteOk, chain_run 64 [0, 1, 2])"
proof -
  have r: "node_prepared (execution_plan (chain_run 64 [])) j (after_nodes chain_env (with_flag (Some True) (chain_run 64 [])) j) \<and>
      node_stops chain_env (after_nodes chain_env (with_flag (Some True) (chain_run 64 [])) j) (execution_plan (chain_run 64 []) ! j) = None \<and>
      \<not> resizes_output chain_env (execution_plan (chain_run 64 []) ! j) (after_nodes chain_env (with_flag (Some True) (chain_run 64 [])) j)"
    if "j \<le> 0 + 1" for j
    using that by (cases "j = 0") (simp_all add: chain_after chain_prepared chain_stops chain_node(3))
  have "continue_invocation (snd (op_invoke chain_env k v)) = continue_invocation v" for k v by (simp add: chain_kernel_def)
  from Cancel_in_flight [OF chain_invokable _ _ _ this _ r, where n = 0 and allow = False and b = True] show ?thesis
    by (simp add: chain_after chain_interpreted)
qed

section \<open>In which states kernels are called\<close>

text \<open>
  Node \<open>k\<close> is prepared, holds all its inputs, and no one has asked to cancel; \<open>b\<close> is the member that
  the loop clears between the question and the call.
\<close>

definition kernel_ready :: "'p Env \<Rightarrow> int \<Rightarrow> 'p Subgraph \<Rightarrow> bool" where
  "kernel_ready E k s \<longleftrightarrow>
     (\<exists>i < length (execution_plan s). execution_plan s ! i = k \<and> int i < next_to_prepare s) \<and>
     (\<forall>x \<in> set (input_places s k). \<not> lacks_data s k x) \<and> continue_invocation s \<noteq> Some False \<and>
     \<not> tensor_resized_since_op_invoke s \<and> (\<exists>b. \<not> check_cancelled E (s\<lparr>tensor_resized_since_op_invoke := b\<rparr>))"

text \<open>What stays the same: the plan and the number of nodes prepared.\<close>

definition schedule :: "'p Subgraph \<Rightarrow> 'p Subgraph \<Rightarrow> bool" where
  "schedule s s' \<longleftrightarrow> execution_plan s' = execution_plan s \<and> next_to_prepare s' = next_to_prepare s"

text \<open>The contract of kernels and delegates; fetching data also changes no node and takes no data away.\<close>

definition keeps_schedule :: "'p Env \<Rightarrow> bool" where
  "keeps_schedule E \<longleftrightarrow>
     (\<forall>k s. schedule s (snd (op_prepare E k s)) \<and> schedule s (snd (op_invoke E k s))) \<and>
     (\<forall>d t s. let s' = snd (d_CopyFromBufferHandle (delegate_of E d) t s) in
        schedule s s' \<and> nodes_and_registration s' = nodes_and_registration s \<and> (\<forall>k x. lacks_data s' k x \<longrightarrow> lacks_data s k x))"

lemma schedule_refl [simp]: "schedule s s"
  by (simp add: schedule_def)

lemma schedule_trans: "schedule s s1 \<Longrightarrow> schedule s1 s2 \<Longrightarrow> schedule s s2"
  by (simp add: schedule_def)

lemma schedule_foldl:
  assumes "\<And>s x. schedule s (f s x)"
  shows "schedule s (foldl f s xs)"
proof (induction xs arbitrary: s)
  case (Cons x xs)
  then show ?case using schedule_trans [OF assms Cons] by simp
qed simp

lemma prepare_ops_schedule:
  assumes "keeps_schedule E"
  shows "schedule s (snd (snd (prepare_ops E lst s ks)))"
proof (induction ks arbitrary: s lst)
  case (Cons x ks)
  obtain i k where x: "x = (i, k)" by (cases x)
  obtain st s1 where s1: "op_prepare E k s = (st, s1)" by (cases "op_prepare E k s")
  have "schedule s s1" using assms s1 unfolding keeps_schedule_def by (metis snd_conv)
  moreover from this have "schedule s (s1\<lparr>has_dynamic_tensors := b\<rparr>)" for b by (simp add: schedule_def)
  ultimately show ?case using Cons.IH [of s1 i] schedule_trans [of s s1] by (simp add: x s1)
qed simp

lemma prepare_ops_last:
  "prepare_ops E lst s ks = (kTfLiteOk, lst', s') \<Longrightarrow> ks \<noteq> [] \<Longrightarrow> \<forall>(i, k) \<in> set ks. m \<le> i \<Longrightarrow> m \<le> lst'"
proof (induction ks arbitrary: s lst)
  case (Cons x ks)
  obtain i k where x: "x = (i, k)" by (cases x)
  then show ?case using Cons by (cases "ks = []") (auto split: prod.splits if_splits)
qed simp

lemma indexed_drop: "(i, k) \<in> set (drop n (indexed plan)) \<Longrightarrow> int n \<le> i"
  by (auto simp: indexed_def drop_zip drop_map dest!: set_zip_leftD)

lemma PrepareOpsStartingAt_schedule:
  assumes "keeps_schedule E" and "PrepareOpsStartingAt E n plan lst s = (st, lst', s')"
  shows "schedule s s'" and "st = kTfLiteOk \<Longrightarrow> 0 \<le> n \<Longrightarrow> n < int (length plan) \<Longrightarrow> n \<le> lst'"
proof -
  show "schedule s s'"
    using assms(2) prepare_ops_schedule [OF assms(1), of "if n = 0 then s\<lparr>has_dynamic_tensors := HasDynamicTensorImpl s (sg_outputs s)\<rparr> else s" lst
      "drop (nat n) (indexed plan)"]
    by (auto simp: PrepareOpsStartingAt_def schedule_def split: if_splits)
  assume st: "st = kTfLiteOk" and n: "0 \<le> n" "n < int (length plan)"
  have "drop (nat n) (indexed plan) \<noteq> []" using n by (simp add: indexed_def)
  moreover have "\<forall>(i, k) \<in> set (drop (nat n) (indexed plan)). n \<le> i" using n indexed_drop by fastforce
  ultimately show "n \<le> lst'" using assms(2) st unfolding PrepareOpsStartingAt_def by (intro prepare_ops_last) auto
qed

lemma with_planner_schedule: "yields (with_planner f s) (schedule s)"
  by (auto simp: yields_def with_planner_def put_tensors_def schedule_def split: option.splits)

lemma ensure_planner_schedule: "ensure_planner E s = Some s' \<Longrightarrow> schedule s s'"
  using with_planner_schedule [of _ "s\<lparr>memory_planner := Some (mp_new (planner E) (opt_preserve_all_tensors (options E)))\<rparr>"]
  by (auto simp: ensure_planner_def planning_def yields_def schedule_def split: option.splits)

lemma PrepareOpsAndTensors_schedule:
  assumes E: "keeps_schedule E" and r: "PrepareOpsAndTensors E s = Some (kTfLiteOk, s')"
    and n: "0 \<le> next_to_prepare s" "next_to_prepare s < int (length (execution_plan s))"
  shows "execution_plan s' = execution_plan s \<and> next_to_prepare s < next_to_prepare s'"
proof -
  obtain s1 where s1: "prepare_original E s = (kTfLiteOk, s1)"
    using r by (auto simp: PrepareOpsAndTensors_def tf_then_def split: prod.splits if_splits)
  have a: "schedule s s1"
    using s1 PrepareOpsStartingAt_schedule(1) [OF E]
    by (fastforce simp: prepare_original_def schedule_def split: if_splits prod.splits)
  obtain lst s2 where s2: "PrepareOpsStartingAt E (next_to_prepare s1) (execution_plan s1) 0 s1 = (kTfLiteOk, lst, s2)"
    using r by (auto simp: PrepareOpsAndTensors_def tf_then_def s1 split: prod.splits if_splits)
  have b: "schedule s1 s2" "next_to_prepare s \<le> lst"
    using PrepareOpsStartingAt_schedule [OF E s2] a n by (simp_all add: schedule_def)
  obtain s3 where s3: "ensure_planner E (s2\<lparr>next_to_prepare := lst + 1\<rparr>) = Some s3"
    using r by (auto simp: PrepareOpsAndTensors_def tf_then_def s1 s2 split: bind_splits)
  obtain s4 where s4: "with_planner (mp_ExecuteAllocations (planner E) (next_to_plan_allocation s3) lst) s3 = Some (kTfLiteOk, s4)"
    "s' = s4\<lparr>next_to_plan_allocation := lst + 1\<rparr>"
    using r by (auto simp: PrepareOpsAndTensors_def tf_then_def tf_ensure_def s1 s2 s3 split: option.splits if_splits)
  have "schedule s3 s4" using yieldsD [OF with_planner_schedule s4(1)] .
  then show ?thesis using ensure_planner_schedule [OF s3] a b s4(2) by (simp add: schedule_def)
qed

lemma prepare_other_kernels: "PrepareOpsAndTensors (E\<lparr>op_invoke := f\<rparr>) s = PrepareOpsAndTensors E s"
proof -
  have ops: "prepare_ops (E\<lparr>op_invoke := f\<rparr>) lst s ks = prepare_ops E lst s ks" for lst s ks
    by (induction ks arbitrary: lst s) (auto split: prod.splits)
  then have at: "PrepareOpsStartingAt (E\<lparr>op_invoke := f\<rparr>) = PrepareOpsStartingAt E"
    by (intro ext) (simp add: PrepareOpsStartingAt_def)
  have "prepare_original (E\<lparr>op_invoke := f\<rparr>) s = prepare_original E s"
    by (simp add: prepare_original_def prepare_original_plan_def has_flag_def at)
  moreover have "ensure_planner (E\<lparr>op_invoke := f\<rparr>) s = ensure_planner E s" for s by (simp add: ensure_planner_def cong: option.case_cong)
  moreover have "planner (E\<lparr>op_invoke := f\<rparr>) = planner E" by simp
  ultimately show ?thesis unfolding PrepareOpsAndTensors_def at by presburger
qed

lemma tf_then_same: "r = r' \<Longrightarrow> (\<And>s. r = Some (kTfLiteOk, s) \<Longrightarrow> k s = k' s) \<Longrightarrow> tf_then r k = tf_then r' k'"
  by (auto simp: tf_then_def split: option.splits)

lemma tf_then_Ok: "tf_then r k = Some (kTfLiteOk, s') \<longleftrightarrow> (\<exists>s. r = Some (kTfLiteOk, s) \<and> k s = Some (kTfLiteOk, s'))"
  by (auto simp: tf_then_def split: option.splits if_splits)

text \<open>What reading the inputs and allocating the outputs of a node keep.\<close>

definition fetched :: "'p Subgraph \<Rightarrow> 'p Subgraph \<Rightarrow> bool" where
  "fetched s s' \<longleftrightarrow> schedule s s' \<and> nodes_and_registration s' = nodes_and_registration s \<and>
     (\<forall>k x. lacks_data s' k x \<longrightarrow> lacks_data s k x)"

lemma fetched_refl [simp]: "fetched s s"
  by (simp add: fetched_def)

lemma fetched_trans: "fetched s s1 \<Longrightarrow> fetched s1 s2 \<Longrightarrow> fetched s s2"
  unfolding fetched_def by (metis schedule_trans)

lemma tensor_at_update: "tensor_at (update_tensor t v s) u = (if nat t = nat u \<and> nat u < length (sg_tensors s) then v else tensor_at s u)"
  by (cases "nat t = nat u"; cases "nat u < length (sg_tensors s)") (simp_all add: tensor_at_def update_tensor_def list_update_beyond)

lemma node_at_update [simp]: "node_at (update_tensor t v s) k = node_at s k"
  by (simp add: node_at_def update_tensor_def)

lemma fetched_update:
  assumes "t_dims v = t_dims (tensor_at s t)" "bytes v = bytes (tensor_at s t)" "allocation_type v = allocation_type (tensor_at s t)"
    and "data_ptr (tensor_at s t) = nullptr \<or> data_ptr v = data_ptr (tensor_at s t)"
  shows "fetched s (update_tensor t v s)"
proof -
  let ?s = "update_tensor t v s"
  have "lacks_data s k (j, u)" if l: "lacks_data ?s k (j, u)" for k j u
  proof (cases "nat t = nat u \<and> nat u < length (sg_tensors s)")
    case True
    then have "tensor_at ?s u = v" "tensor_at s u = tensor_at s t" by (auto simp: tensor_at_update) (simp add: tensor_at_def)
    then show ?thesis using l assms by (simp add: lacks_data_def)
  next
    case False
    then have "tensor_at ?s u = tensor_at s u" by (auto simp: tensor_at_update)
    then show ?thesis using l by (simp add: lacks_data_def)
  qed
  then have "\<forall>k x. lacks_data ?s k x \<longrightarrow> lacks_data s k x" by auto
  then show ?thesis by (simp add: fetched_def schedule_def) (simp add: update_tensor_def)
qed

lemma read_input_fetched:
  assumes E: "keeps_schedule E" and r: "read_input E k s (j, t) = Some (kTfLiteOk, s')"
  shows "fetched s s' \<and> \<not> lacks_data s' k (j, t)"
proof (cases "t = kTfLiteOptionalTensor")
  case False
  have copy: "fetched s (snd (d_CopyFromBufferHandle (delegate_of E d) t s))" for d
    using E by (simp add: keeps_schedule_def fetched_def Let_def)
  have mark: "fetched u (update_tensor t ((tensor_at u t)\<lparr>t_data_is_stale := b\<rparr>) u)" for u :: "'a Subgraph" and b
    by (rule fetched_update) simp_all
  have ensure: "fetched s s1" if "EnsureTensorDataIsReadable E t s = Some (kTfLiteOk, s1)" for s1
    using that fetched_trans [OF copy mark]
    by (auto simp: EnsureTensorDataIsReadable_def tf_ensure_def split: if_splits option.splits prod.splits) (metis snd_conv)
  obtain s1 where s1: "(if t_delegate (tensor_at s t) \<noteq> None \<and> t_delegate (tensor_at s t) \<noteq> sn_delegate (node_at s k) \<and>
      t_data_is_stale (tensor_at s t) then EnsureTensorDataIsReadable E t s else Some (kTfLiteOk, s)) = Some (kTfLiteOk, s1)"
    and s': "s' = s1" "\<not> lacks_data s1 k (j, t)"
    using r False by (auto simp: read_input_def lacks_data_def Let_def tf_then_Ok split: if_splits)
  have "fetched s s1" using s1 ensure by (auto split: if_splits)
  then show ?thesis using s' by simp
qed (use r in \<open>auto simp: read_input_def lacks_data_def\<close>)

lemma read_inputs_fetched:
  assumes E: "keeps_schedule E"
  shows "tf_for (read_input E k) s xs = Some (kTfLiteOk, s') \<Longrightarrow> fetched s s' \<and> (\<forall>x \<in> set xs. \<not> lacks_data s' k x)"
proof (induction xs arbitrary: s)
  case (Cons x xs)
  then obtain s1 where s1: "read_input E k s x = Some (kTfLiteOk, s1)" "tf_for (read_input E k) s1 xs = Some (kTfLiteOk, s')"
    by (auto simp: tf_then_Ok)
  have "fetched s s1 \<and> \<not> lacks_data s1 k x" using read_input_fetched [OF E] s1(1) by (cases x) auto
  moreover have "fetched s1 s' \<and> (\<forall>x \<in> set xs. \<not> lacks_data s' k x)" by (rule Cons.IH [OF s1(2)])
  moreover from this have "lacks_data s' k x \<Longrightarrow> lacks_data s1 k x" by (cases x) (simp add: fetched_def)
  ultimately show ?case using fetched_trans [of s s1 s'] by auto
qed simp

lemma Realloc_keeps:
  assumes "TfLiteTensorRealloc P n (tns, h) = (st, v, h')"
  shows "t_dims v = t_dims tns \<and> allocation_type v = allocation_type tns \<and> (bytes tns = n \<longrightarrow> bytes v = n)"
  using assms by (auto simp: TfLiteTensorRealloc_def TfLiteTensorResizeMaybeCopy_def Let_def split: if_splits prod.splits)

lemma MayAllocateOpOutput_fetched: "fetched s (MayAllocateOpOutput E k s)"
proof -
  let ?f = "\<lambda>s t. let tns = tensor_at s t in
      if t = kTfLiteOptionalTensor \<or> data_ptr tns \<noteq> nullptr \<or> allocation_type tns \<noteq> kTfLiteDynamic then s
      else (case TfLiteTensorRealloc (platform_of E) (bytes tns) (tns, c_heap s) of
              (_, u, h) \<Rightarrow> (update_tensor t u s)\<lparr>c_heap := h\<rparr>)"
  have heap: "fetched u (v\<lparr>c_heap := h\<rparr>)" if "fetched u v" for u v :: "'a Subgraph" and h
  proof -
    have "lacks_data (v\<lparr>c_heap := h\<rparr>) = lacks_data v"
      by (intro ext) (simp add: lacks_data_def tensor_at_def node_at_def)
    then show ?thesis using that unfolding fetched_def schedule_def by simp
  qed
  have one: "fetched u (?f u t)" for u :: "'a Subgraph" and t
  proof (cases "t = kTfLiteOptionalTensor \<or> data_ptr (tensor_at u t) \<noteq> nullptr \<or> allocation_type (tensor_at u t) \<noteq> kTfLiteDynamic")
    case False
    obtain st v h where v: "TfLiteTensorRealloc (platform_of E) (bytes (tensor_at u t)) (tensor_at u t, c_heap u) = (st, v, h)"
      by (cases "TfLiteTensorRealloc (platform_of E) (bytes (tensor_at u t)) (tensor_at u t, c_heap u)")
    have "fetched u (update_tensor t v u)" using Realloc_keeps [OF v] False by (intro fetched_update) auto
    from heap [OF this] show ?thesis using False v by simp
  qed simp
  have "fetched u (foldl ?f u ts)" for u :: "'a Subgraph" and ts
  proof (induction ts arbitrary: u)
    case (Cons t ts)
    show ?case using fetched_trans [OF one Cons] by (simp only: foldl_Cons)
  qed simp
  then show ?thesis unfolding MayAllocateOpOutput_def by simp
qed

text \<open>Kernels that agree on ready nodes cannot be told apart.\<close>

lemma invoke_at_agrees:
  assumes E: "keeps_schedule E" and agree: "\<And>k u. kernel_ready E k u \<Longrightarrow> f k u = op_invoke E k u"
    and plan: "execution_plan s = plan" "i < length plan" and next_i: "int i \<le> next_to_prepare s"
  shows "invoke_at (E\<lparr>op_invoke := f\<rparr>) s (int i) = invoke_at E s (int i)"
    and "invoke_at E s (int i) = Some (kTfLiteOk, s') \<Longrightarrow> execution_plan s' = plan \<and> int i < next_to_prepare s'"
proof -
  let ?F = "E\<lparr>op_invoke := f\<rparr>" and ?k = "plan ! i"
  have prep: "prepare_if_needed ?F (int i) s = prepare_if_needed E (int i) s"
    by (simp add: prepare_if_needed_def prepare_other_kernels)
  have prepared: "execution_plan u = plan \<and> int i < next_to_prepare u" if "prepare_if_needed E (int i) s = Some (kTfLiteOk, u)" for u
    using that PrepareOpsAndTensors_schedule [OF E] plan next_i
    by (auto simp: prepare_if_needed_def tf_then_Ok tf_ensure_def split: if_splits)
  have ensure: "EnsureTensorDataIsReadable ?F = EnsureTensorDataIsReadable E"
    by (intro ext) (simp add: EnsureTensorDataIsReadable_def cong: if_cong option.case_cong)
  have read: "read_input ?F = read_input E" by (intro ext) (simp only: read_input_def ensure)
  have check: "check_cancellation ?F u = check_cancellation E u" for u by (simp add: check_cancellation_def)
  have resize: "after_resize ?F j k u = after_resize E j k u" for j k u by (simp add: after_resize_def Let_def)
  have ready: "schedule u w \<and> kernel_ready E ?k (w\<lparr>tensor_resized_since_op_invoke := False\<rparr>)"
    if u: "execution_plan u = plan" "int i < next_to_prepare u"
      and v: "tf_for (read_input E ?k) u (input_places u ?k) = Some (kTfLiteOk, v)"
      and w: "check_cancellation E (MayAllocateOpOutput E ?k v) = (kTfLiteOk, w)" for u v w
  proof -
    have w': "w = MayAllocateOpOutput E ?k v" "\<not> check_cancelled E w" "continue_invocation w \<noteq> Some False"
      using w by (auto simp: check_cancellation_def split: if_splits)
    have f: "fetched u v" "\<forall>x \<in> set (input_places u ?k). \<not> lacks_data v ?k x" using read_inputs_fetched [OF E v] by auto
    have g: "fetched v w" unfolding w'(1) by (rule MayAllocateOpOutput_fetched)
    have "input_places (w\<lparr>tensor_resized_since_op_invoke := False\<rparr>) ?k = input_places u ?k"
      using f(1) g by (simp add: input_places_def inputs_of_def node_at_def fetched_def)
    moreover have "lacks_data (w\<lparr>tensor_resized_since_op_invoke := False\<rparr>) = lacks_data w"
      by (intro ext) (simp add: lacks_data_def tensor_at_def node_at_def)
    moreover have "\<forall>x \<in> set (input_places u ?k). \<not> lacks_data w ?k x"
      using f(2) g unfolding fetched_def by blast
    moreover have "schedule u w" using fetched_trans [OF f(1) g] by (simp add: fetched_def)
    moreover have "\<exists>b. \<not> check_cancelled E (w\<lparr>tensor_resized_since_op_invoke := b\<rparr>)"
      using w'(2) by (intro exI [of _ "tensor_resized_since_op_invoke w"]) simp
    ultimately show ?thesis using u w'(3) plan(2) by (auto simp: kernel_ready_def schedule_def)
  qed
  show "invoke_at ?F s (int i) = invoke_at E s (int i)"
    unfolding invoke_at_eq prep
  proof (rule tf_then_same [OF refl])
    fix u assume "prepare_if_needed E (int i) s = Some (kTfLiteOk, u)"
    then have u: "execution_plan u = plan" "int i < next_to_prepare u" using prepared by simp_all
    have k: "execution_plan u ! nat (int i) = ?k" using u by simp
    show "(let k = execution_plan u ! nat (int i) in
       tf_then (tf_for (read_input ?F k) u (input_places u k)) (\<lambda>s.
       tf_then (Some (check_cancellation ?F (MayAllocateOpOutput ?F k s))) (\<lambda>s.
       tf_then (Some (invoke_kernel ?F k s)) (\<lambda>s.
       tf_then (after_resize ?F (int i) k s) (\<lambda>s. Some (kTfLiteOk, MaybeReleaseDynamicTensors ?F k s)))))) =
     (let k = execution_plan u ! nat (int i) in
       tf_then (tf_for (read_input E k) u (input_places u k)) (\<lambda>s.
       tf_then (Some (check_cancellation E (MayAllocateOpOutput E k s))) (\<lambda>s.
       tf_then (Some (invoke_kernel E k s)) (\<lambda>s.
       tf_then (after_resize E (int i) k s) (\<lambda>s. Some (kTfLiteOk, MaybeReleaseDynamicTensors E k s))))))"
      unfolding k Let_def read check resize other_kernels
    proof (intro tf_then_same refl)
      fix v w assume vw: "tf_for (read_input E ?k) u (input_places u ?k) = Some (kTfLiteOk, v)"
        "Some (check_cancellation E (MayAllocateOpOutput E ?k v)) = Some (kTfLiteOk, w)"
      then show "Some (invoke_kernel ?F ?k w) = Some (invoke_kernel E ?k w)"
        using ready [OF u vw(1)] agree by (simp add: invoke_kernel_def)
    qed
  qed
  show "execution_plan s' = plan \<and> int i < next_to_prepare s'" if s': "invoke_at E s (int i) = Some (kTfLiteOk, s')"
  proof -
    obtain u where pu: "prepare_if_needed E (int i) s = Some (kTfLiteOk, u)" using s' by (auto simp: invoke_at_eq tf_then_Ok)
    then have u: "execution_plan u = plan" "int i < next_to_prepare u" using prepared by simp_all
    have k: "execution_plan u ! i = ?k" using u by simp
    obtain v w x y where v: "tf_for (read_input E ?k) u (input_places u ?k) = Some (kTfLiteOk, v)"
      and w: "check_cancellation E (MayAllocateOpOutput E ?k v) = (kTfLiteOk, w)" and x: "invoke_kernel E ?k w = (kTfLiteOk, x)"
      and y: "after_resize E (int i) ?k x = Some (kTfLiteOk, y)" and z: "s' = MaybeReleaseDynamicTensors E ?k y"
      using s' by (auto simp: invoke_at_eq tf_then_Ok pu k Let_def)
    have "schedule u w" using ready [OF u v w] by simp
    moreover have "schedule w x"
    proof -
      have "x = snd (op_invoke E ?k (w\<lparr>tensor_resized_since_op_invoke := False\<rparr>))"
        using x by (auto simp: invoke_kernel_def split: prod.splits)
      moreover have "schedule v (snd (op_invoke E ?k v))" for v using E by (simp add: keeps_schedule_def)
      ultimately show ?thesis by (simp add: schedule_def)
    qed
    ultimately have "execution_plan x = plan \<and> int i < next_to_prepare x" using u by (simp add: schedule_def)
    then have "execution_plan y = plan \<and> int i < next_to_prepare y"
      using y yieldsD [OF with_planner_schedule]
      by (auto simp: after_resize_def Let_def schedule_def split: if_splits dest!: yieldsD [OF with_planner_schedule])
    moreover have "schedule y (MaybeReleaseDynamicTensors E ?k y)"
    proof -
      have r: "schedule a (release_dynamic ?k a t)" for a :: "'a Subgraph" and t
        by (simp add: release_dynamic_def free_data_def update_tensor_def schedule_def Let_def split: prod.splits)
      show ?thesis
        unfolding MaybeReleaseDynamicTensors_def Let_def
        using schedule_trans [OF schedule_foldl [where f = "release_dynamic ?k", OF r] schedule_foldl [where f = "release_dynamic ?k", OF r]]
        by simp
    qed
    ultimately show ?thesis by (simp add: z schedule_def)
  qed
qed

text \<open>C21: An invocation calls no kernel before its node is prepared, while an input of the node lacks its data, or
  when the client has asked to cancel. So two tables of kernels that agree on such states give the same invocation,
  from any state of the graph whose count of prepared nodes is not negative: what the kernels would do elsewhere is never seen. Kernels are held to leaving the plan
  and the count of prepared nodes alone; delegates, when data is fetched from them, to changing no node and
  taking no tensor's data away.\<close>

theorem InvokeImpl_calls_ready_kernels:
  assumes E: "keeps_schedule E" and agree: "\<And>k u. kernel_ready E k u \<Longrightarrow> f k u = op_invoke E k u"
    and "0 \<le> next_to_prepare s"
  shows "InvokeImpl (E\<lparr>op_invoke := f\<rparr>) s = InvokeImpl E s"
proof -
  have "tf_for (invoke_at (E\<lparr>op_invoke := f\<rparr>)) u (map int [m..<n]) = tf_for (invoke_at E) u (map int [m..<n])"
    if "execution_plan u = execution_plan s" "n = length (execution_plan s)" "int m \<le> next_to_prepare u" for m n u
    using that
  proof (induction "n - m" arbitrary: m u)
    case (Suc d)
    then have i: "m < length (execution_plan s)" and up: "[m..<n] = m # [Suc m..<n]" by (simp_all add: upt_conv_Cons)
    note at = invoke_at_agrees [OF E agree Suc.prems(1) i Suc.prems(3)]
    show ?case
      unfolding up list.map tf_for.simps
    proof (rule tf_then_same [OF at(1)])
      fix v assume "invoke_at (E\<lparr>op_invoke := f\<rparr>) u (int m) = Some (kTfLiteOk, v)"
      then have "execution_plan v = execution_plan s \<and> int m < next_to_prepare v" using at by simp
      then show "tf_for (invoke_at (E\<lparr>op_invoke := f\<rparr>)) v (map int [Suc m..<n]) = tf_for (invoke_at E) v (map int [Suc m..<n])"
        using Suc.hyps Suc.prems(2) by simp
    qed
  qed simp
  from this [of s "length (execution_plan s)" 0] show ?thesis
    using assms(3) by (simp add: InvokeImpl_def cong: option.case_cong)
qed

theorem InvokeImpl_calls_ready_kernels_witness:
  "InvokeImpl (chain_env\<lparr>op_invoke := \<lambda>k u. if kernel_ready chain_env k u then chain_kernel k u else (kTfLiteDelegateError, u)\<rparr>)
     (chain_run 64 []) = Some (kTfLiteOk, chain_run 64 [0, 1, 2])"
proof -
  have "keeps_schedule chain_env"
    by (simp add: keeps_schedule_def schedule_def chain_kernel_def) (simp add: chain_env_def demo_env_def demo_delegate_def)
  from InvokeImpl_calls_ready_kernels [OF this] show ?thesis by (simp add: chain_invoked)
qed

end
