(* ===== verification/Spec2Isabelle.thy ===== *)
theory Spec2Isabelle
  imports PlanExecution PartitionCorrect StructuralCorrect ConvCorrect ShapeTypes
    UnionFind OutlineSemantics GraphBuilderOps InlineCases PluginTransform
    SimplePlanner StringBuffer SubgraphInvoke
begin

text \<open>
  A verification library for the C++ core of the LiteRT repository (TensorFlow Lite and its
  successor runtime).  File names below are relative to \<^verbatim>\<open>src/\<close>.

  \<^bold>\<open>What is modelled.\<close>  Six subsystems that decide what a model may do before any kernel runs.

  \<^item> \<^emph>\<open>Memory planning.\<close>  \<open>SimpleMemoryArena\<close> (\<^verbatim>\<open>tflite/simple_memory_arena.cc\<close>) places
    allocations with usage intervals in one buffer; \<open>ArenaPlanner\<close> (\<^verbatim>\<open>tflite/arena_planner.cc\<close>)
    walks the graph, counts references, lets in-place operators share buffers, derives the interval in
    which each tensor lives, asks the arena for offsets and finally writes the tensors' data pointers.
    \<open>SimplePlanner\<close> (\<^verbatim>\<open>tflite/simple_planner.cc\<close>) is the alternative with one heap block per tensor.
  \<^item> \<^emph>\<open>Partitioning.\<close>  \<^verbatim>\<open>tflite/graph_info.cc\<close> splits the nodes of a graph into alternating
    subsets that a delegate does or does not run, respecting data and control dependencies.
  \<^item> \<^emph>\<open>The subgraph.\<close>  \<^verbatim>\<open>tflite/core/subgraph.cc\<close> holds tensors, nodes and the execution plan;
    it lets delegates replace nodes by kernels of their own, prepares the nodes, has the planner place the
    tensors, and invokes the nodes in the order of the plan; the interpreter (\<^verbatim>\<open>tflite/core/interpreter.cc\<close>)
    invokes its first subgraph.
  \<^item> \<^emph>\<open>Shape inference.\<close>  \<^verbatim>\<open>litert/core/model/shape_inference.cc\<close> runs a registered inferrer
    (\<^verbatim>\<open>litert/core/model/ops/*.h\<close>) for each operation of a LiteRT subgraph, writes or
    validates the inferred output shapes, and specialises a subgraph to given input shapes with the
    cloning and linking functions of \<^verbatim>\<open>litert/core/model/model.cc\<close>.
  \<^item> \<^emph>\<open>Graph editing and compilation.\<close>  The LiteRT graph as linked objects
    (\<^verbatim>\<open>litert/core/model/model.cc\<close>, \<^verbatim>\<open>ir_allocator.h\<close>, \<^verbatim>\<open>graph_validation.cc\<close>),
    and the algorithms by which a compiler plugin's selection of operations becomes subgraphs that are
    compiled separately (\<^verbatim>\<open>litert/compiler/plugin/algo.cc\<close>), up to the driver that applies plugins to a
    model (\<^verbatim>\<open>compiler_plugin.cc\<close>).
  \<^item> \<^emph>\<open>String tensors.\<close>  The buffer that packs strings into a tensor and the functions that read them back
    (\<^verbatim>\<open>tflite/string_util.cc\<close>, \<^verbatim>\<open>tflite/converter/utils/string_utils.cc\<close>).

  \<^bold>\<open>Theories.\<close>
  \<^item> \<open>Prelude\<close>: machine types, TFLite status codes, loops with early return (the locale
    \<open>status_loop\<close>), facts on words and sorting.
  \<^item> \<open>CheckedArith\<close>: overflow-checked \<open>size_t\<close> arithmetic and aligned allocation over a heap of blocks.
  \<^item> \<open>SimpleMemoryArena\<close>: the arena, its resizable buffer, and its theorems: placements of overlapping
    lifetimes never overlap, the best gap is chosen, purging is invisible, growing keeps the contents.
  \<^item> \<open>GraphInfo\<close>, \<open>ArenaPlanner\<close>: the graph as the planner sees it, and every operation of the planner.
  \<^item> \<open>PlanCorrect\<close>: planning; each tensor lives from its first definition to its last use.
  \<^item> \<open>PlanExecution\<close>: placement and resolution; two tensors in use at the same time and not sharing a
    buffer on purpose receive disjoint memory.
  \<^item> \<open>GraphPartition\<close>, \<open>PartitionCorrect\<close>: the partitioner; it terminates, every node is in one subset,
    subsets are uniform, dependencies and side effects keep their order, with control edges that are given and with the implied
    ones, borders are exact.
  \<^item> \<open>TensorBytes\<close>: the bytes a tensor needs, with the overflow check.
  \<^item> \<open>Subgraph\<close>, \<open>SubgraphOps\<close>: the members of the class and its operations: building the graph, replacing nodes
    by delegate kernels; resizing, preparing, allocating, invoking, applying, undoing and redoing delegates.
  \<^item> \<open>SubgraphDelegation\<close>: replacing nodes by delegate kernels runs every node exactly once and keeps the
    meaning of the graph, for any meaning of its nodes.
  \<^item> \<open>SubgraphUndo\<close>: undoing gives the old nodes and plan back, also the inputs that a delegate took in half precision
    instead of from the node that converts them; who owns a tensor; what a failed kernel leaves.
  \<^item> \<open>SubgraphRun\<close>: the operations of a client as a step relation and what every reachable state satisfies, for
    kernels and delegates that leave the members about delegation alone and clients that set no empty plan.
  \<^item> \<open>SubgraphInvoke\<close>: \<open>Interpreter::Invoke\<close>; which nodes an invocation runs and which node stops it, with which status;
    that kernels are only called on prepared nodes whose inputs hold data; that \<open>Cancel\<close> stops the invocation in
    flight and no later one.
  \<^item> \<open>ShapeBase\<close>: LiteRT status codes, checked \<open>int32_t\<close> and \<open>int64_t\<close> arithmetic, the operation as an
    inferrer sees it, constant data, the size of a window, early return from shape loops (the locale
    \<open>flow_loop\<close>).
  \<^item> \<open>ShapeElementwise\<close>, \<open>ShapeStructural\<close>, \<open>ShapeConv\<close>: the inferrers, one definition per function.
  \<^item> \<open>BroadcastCorrect\<close>: the broadcasting loops (the locale \<open>fill_loop\<close>) implement the reference
    broadcast on static shapes and abstract it on dynamic ones.
  \<^item> \<open>StructuralCorrect\<close>, \<open>ConvCorrect\<close>: volumes, sums, round trips, and windows that stay inside the image.
  \<^item> \<open>ShapeEngine\<close>: registry, inference, validation, specialisation.
  \<^item> \<open>EngineCorrect\<close>: what the engine may change (the locale \<open>engine_rel\<close>), that inferring reaches a state that
    validates, which operation is blamed, and that a specialised subgraph is a relinked copy.
  \<^item> \<open>ShapeTypes\<close>: all registered inferrers store \<open>int32_t\<close> dimensions; an inferrer can yield more dimensions than a
    tensor's type has room for.

  \<^item> \<open>InsertOrderMap\<close>: the map that keeps its insertion order, and its interface (the locale \<open>ordered_map\<close>).
  \<^item> \<open>GraphIR\<close>: tensors and operations on a heap, subgraphs as lists of references; attaching,
    disconnecting, dropping, dead code elimination, validation.
  \<^item> \<open>GraphIRCorrect\<close>: \<open>well_linked\<close>, the doubly linked graph that these operations keep, and the two edits
    that break it.
  \<^item> \<open>PluginAlgo\<close>: grouping by connectivity and by execution order, the graph slicer, its driver.
  \<^item> \<open>GroupingCorrect\<close>, \<open>UnionFind\<close>: the groups are the maximal runs of equal index in the order of the subgraph, or the
    connected components; the largest \<open>size_t\<close> is no index that the runs can tell apart.
  \<^item> \<open>OutlineClone\<close>, \<open>OutlineRoute\<close>, \<open>OutlinePartition\<close>: cloning, dropping and rerouting; the slice is a copy of the
    partition and its border matches the dispatch operation.
  \<^item> \<open>OutlineSemantics\<close>: execution of a subgraph for any meaning of its operations; the partitioned subgraph computes
    what the subgraph computed, when the selected operations are live and have no custom code, which a slice loses.
  \<^item> \<open>ModelTransfer\<close>: moving objects between allocators and subgraphs between models; composite operations
    that stay follow their decompositions to the new numbers.
  \<^item> \<open>GraphBuilder\<close>: the builder by which transformations edit a subgraph (\<open>LiteRtBuilderT\<close> of
    \<^verbatim>\<open>model.cc\<close> and its interface for plugins in \<^verbatim>\<open>litert/c/litert_builder.cc\<close>), and which operations count
    as compiled.
  \<^item> \<open>GraphBuilderOps\<close>, \<open>GraphBuilderCorrect\<close>: building keeps the builder linked to its own tensors and
    apart from the target; applying the changes leaves a well-linked target with the new operations in the
    place of the first erased one; replacing an operation through the interface for plugins does this.
  \<^item> \<open>PluginInline\<close>: inlining the decomposition of a composite operation (\<open>InlineSubgraph\<close> of
    \<^verbatim>\<open>algo.cc\<close>), with its checks.
  \<^item> \<open>InlineCases\<close>: the links that inlining leaves dangling, on a concrete model.
  \<^item> \<open>PluginModel\<close>: \<open>PartitionModel\<close> with its treatment of composite operations, \<open>ApplyPluginWithPartition\<close>
    and the build stamp; the partitioned model computes what the model computed, and each dispatch operation
    gets the byte code of its partition.
  \<^item> \<open>PluginTransform\<close>: the greedy application of a plugin's transformations as a step relation, of which the
    loop is a bounded run, for patterns that keep the contract of the builder on every heap whose references lie below
    the next one; a pattern that replaces an operation by a new one keeps it; \<open>ApplyPlugin\<close>, \<open>ApplyPlugins\<close>, and the order and choice of plugins.
  \<^item> \<open>SimplePlanner\<close>: the planner on the C heap; it plans the lifetimes that the arena planner plans for graphs
    without sharing, and every tensor it serves owns a live block.
  \<^item> \<open>StringBuffer\<close>: building of string tensors; the buffer refines a list of strings and what is written is read
    back.

  \<^bold>\<open>How the code is represented.\<close>  Definitions keep the names of the C++ functions; members that end in
  an underscore lose it.  Objects are records passed through the operations.  The TFLite functions
  return a \<open>TfLiteStatus\<close> and the new state.  The shape inferrers return an option: \<open>None\<close> is an execution
  that the C++ gives no meaning to (signed overflow, division by zero, an index out of range, a null
  dereference), and a theorem that an inferrer returns \<open>Some\<close> also says that none of these happens.
  \<open>size_t\<close> offsets and sizes of the arena are 64-bit words with their wrap-around; node and tensor
  numbers are integers; reference counts do not overflow.  Vectors of dimensions are shorter than
  \<open>2^31\<close>, so that the \<open>int\<close> loop counters over them do not overflow.  The host is little-endian.
  Where the code follows pointers between tensors and operations, objects live in a heap from references
  (natural numbers) to records; following a reference that is null or freed is \<open>None\<close>.

  \<^bold>\<open>Parameters.\<close>  The kernels, the delegates and the client's cancellation function of a subgraph are fields of \<open>Env\<close>
  that act on the subgraph; the memory planner is an instance of \<open>PlannerOps\<close>, to which both planners of the
  repository are fitted.  \<open>std::sort\<close> is a parameter constrained to what the standard promises; the address at which
  the C heap places a block is a parameter constrained to be aligned, non-null and disjoint from
  the live blocks.  The registry of the engine is an argument of its functions, so their theorems
  hold for user-registered inferrers too; \<open>new_engine\<close> builds the standard one.  The order in which a hash map is
  iterated, and that of a builder's set of erased operations, is a parameter that rearranges its keys.

  \<^bold>\<open>Preconditions.\<close>  \<open>graph_ok\<close> and \<open>partition_ok\<close> say that the tensor indices of a graph are in range and
  that it is topologically ordered with one producer per tensor, as the model loader ensures.
  \<open>single_assignment\<close> and \<open>distinct_pointers\<close> say the same of a LiteRT subgraph, \<open>well_linked\<close> and
  \<open>plain_root\<close> of one on the heap.

  \<^bold>\<open>Termination.\<close>  No definition uses fuel: the loops of the partitioner recurse on the number of nodes
  still unassigned, with a termination theorem that the C++ loop needs no more rounds than that;
  all other loops run over lists.

  \<^bold>\<open>Not modelled.\<close>  Kernels and delegates compute with floating point on platform libraries outside the
  repository; the converter works on MLIR dialects; model loading and serialisation translate
  generated FlatBuffer tables; the runtime manages platform memory; bindings, tools and tests hold
  no logic of the runtime.  Log messages, debug dumps, tensor names for display and profiling
  are left out of the modelled functions, as are \<open>DCHECK\<close>s, which are absent in release builds; where a release build
  then has no defined behaviour, the result is \<open>None\<close>.
  Of the subgraph, setting a tensor's parameters from the model file, access to other subgraphs and the inlining of
  composite operations (an option that is off by default) are left out; of the interpreter only \<open>Invoke\<close> is
  modelled, as its other functions forward to the subgraphs.  The functions of a plugin library and the search for such
  libraries are parameters.  Buffer managers are left out but for the registration of byte code: constant data is
  part of its tensor.
\<close>

end
